(* ===== verification/Pal_Prelude.thy ===== *)
theory Pal_Prelude
  imports Main "HOL-Library.Word" "HOL-Library.List_Lexorder"
begin

text \<open>
  Types and generic facts shared by every component: machine widths, Rust's checked and
  saturating arithmetic on \<open>usize\<close> and \<open>u64\<close>, the \<open>?\<close> operator on results with and without
  state, byte strings, and ordered association lists standing for \<open>BTreeMap\<close>.

  Widths. \<open>usize\<close> and \<open>u64\<close> values are natural numbers bounded by \<open>USIZE_MAX\<close> and
  \<open>U64_MAX\<close> (a 64-bit target); every operation of the source that checks or could exceed the
  width is written with the check. Flag words (\<open>u32\<close> masks) are 32-bit words, because the code
  combines them bitwise. Bytes are 8-bit words.
\<close>

unbundle bit_operations_syntax

named_theorems res_simps \<open>evaluation of the result combinators\<close>
named_theorems width_simps \<open>definitions of machine widths and checked arithmetic\<close>

type_synonym byte = "8 word"
type_synonym flags = "32 word"
type_synonym name = "byte list"

section \<open>Machine widths\<close>

definition USIZE_MAX :: nat where
  [width_simps]: "USIZE_MAX = 2 ^ 64 - 1"

definition ISIZE_MAX :: nat where
  [width_simps]: "ISIZE_MAX = 2 ^ 63 - 1"

definition U64_MAX :: nat where
  [width_simps]: "U64_MAX = 2 ^ 64 - 1"

definition I64_MAX :: nat where
  [width_simps]: "I64_MAX = 2 ^ 63 - 1"

definition U32_MAX :: nat where
  [width_simps]: "U32_MAX = 2 ^ 32 - 1"

definition checked_add :: "nat \<Rightarrow> nat \<Rightarrow> nat option" where
  "checked_add a b = (if a + b \<le> USIZE_MAX then Some (a + b) else None)"

definition checked_sub :: "nat \<Rightarrow> nat \<Rightarrow> nat option" where
  "checked_sub a b = (if b \<le> a then Some (a - b) else None)"

definition usize_try_from :: "nat \<Rightarrow> nat option" where
  "usize_try_from n = (if n \<le> USIZE_MAX then Some n else None)"

definition saturating_add :: "nat \<Rightarrow> nat \<Rightarrow> nat" where
  "saturating_add a b = min (a + b) U64_MAX"

definition is_power_of_two :: "nat \<Rightarrow> bool" where
  "is_power_of_two n = list_ex (\<lambda>k. n = 2 ^ k) [0..<64]"

text \<open>\<open>x & !(a - 1)\<close> and \<open>x & (a - 1)\<close> at 64 bits.\<close>

definition mask_down :: "nat \<Rightarrow> nat \<Rightarrow> nat" where
  "mask_down x a = unat ((of_nat x :: 64 word) AND NOT (of_nat a - 1))"

definition mask_low :: "nat \<Rightarrow> nat \<Rightarrow> nat" where
  "mask_low x a = unat ((of_nat x :: 64 word) AND (of_nat a - 1))"

definition checked_next_multiple_of :: "nat \<Rightarrow> nat \<Rightarrow> nat option" where
  "checked_next_multiple_of x a =
     (if a = 0 then None
      else if x mod a = 0 then Some x
      else checked_add x (a - x mod a))"

lemma checked_add_Some_iff: "checked_add a b = Some c \<longleftrightarrow> c = a + b \<and> a + b \<le> USIZE_MAX"
  by (auto simp: checked_add_def)

lemma checked_add_None_iff: "checked_add a b = None \<longleftrightarrow> USIZE_MAX < a + b"
  by (auto simp: checked_add_def)

lemma checked_sub_Some_iff: "checked_sub a b = Some c \<longleftrightarrow> b \<le> a \<and> c = a - b"
  by (auto simp: checked_sub_def)

lemma usize_try_from_Some_iff: "usize_try_from n = Some m \<longleftrightarrow> m = n \<and> n \<le> USIZE_MAX"
  by (auto simp: usize_try_from_def)

lemma is_power_of_two_iff: "is_power_of_two n \<longleftrightarrow> (\<exists>k<64. n = 2 ^ k)"
  by (auto simp: is_power_of_two_def list_ex_iff Bex_def atLeast0LessThan)

lemma is_power_of_two_pos: "is_power_of_two n \<Longrightarrow> 0 < n"
  by (auto simp: is_power_of_two_iff)

lemma is_power_of_two_le: "is_power_of_two n \<Longrightarrow> n \<le> 2 ^ 63"
proof -
  assume "is_power_of_two n"
  then obtain k where "k < 64" "n = 2 ^ k" by (auto simp: is_power_of_two_iff)
  then have "k \<le> 63" "n = 2 ^ k" by auto
  then show ?thesis using power_increasing [of k 63 "2 :: nat"] by linarith
qed

lemma pow2_dvd:
  assumes "is_power_of_two a" "is_power_of_two b" "a \<le> b"
  shows "a dvd b"
proof -
  obtain i j where "a = 2 ^ i" "b = 2 ^ j" using assms(1,2) by (auto simp: is_power_of_two_iff)
  moreover then have "i \<le> j" using assms(3) by simp
  ultimately show ?thesis by (simp add: le_imp_power_dvd)
qed

lemma mask_word: "k < 64 \<Longrightarrow> (of_nat (2 ^ k) - 1 :: 64 word) = mask k"
  by (simp add: mask_eq_decr_exp)

lemma mask_low_pow2:
  assumes "x \<le> USIZE_MAX" "is_power_of_two a"
  shows "mask_low x a = x mod a"
proof -
  obtain k where k: "k < 64" "a = 2 ^ k" using assms(2) by (auto simp: is_power_of_two_iff)
  have "x < 2 ^ 64" using assms(1) by (simp add: width_simps)
  then have "unat (of_nat x :: 64 word) = x" by (simp add: unat_of_nat)
  moreover have "(of_nat x :: 64 word) AND (of_nat a - 1) = take_bit k (of_nat x)"
    unfolding k(2) mask_word [OF k(1)] by (simp add: take_bit_eq_mask)
  ultimately have "mask_low x a = take_bit k x"
    unfolding mask_low_def by (simp only: unsigned_take_bit_eq)
  then show ?thesis by (simp add: k(2) take_bit_eq_mod)
qed

lemma mask_down_pow2:
  assumes "x \<le> USIZE_MAX" "is_power_of_two a"
  shows "mask_down x a = x - x mod a"
proof -
  let ?w = "of_nat x :: 64 word" and ?m = "of_nat a - 1 :: 64 word"
  have "x < 2 ^ 64" using assms(1) by (simp add: width_simps)
  then have x: "unat ?w = x" by (simp add: unat_of_nat)
  have "?w = (?w AND NOT ?m) + (?w AND ?m)"
    by (rule bit_word_eqI [THEN sym]; subst disjunctive_add; auto simp: bit_simps)
  then have "?w AND NOT ?m = ?w - (?w AND ?m)" by (simp add: eq_diff_eq)
  moreover have "?w AND ?m \<le> ?w" by (rule word_and_le2)
  ultimately have "unat (?w AND NOT ?m) = unat ?w - unat (?w AND ?m)"
    by (simp add: unat_sub)
  with mask_low_pow2 [OF assms] x show ?thesis
    by (simp add: mask_down_def mask_low_def)
qed

section \<open>Results and the question-mark operator\<close>

text \<open>
  \<open>Result<T>\<close> is \<open>'e + 'a\<close> with the error on the left. \<open>r_bind\<close> is the \<open>?\<close> of a function
  that only reads; \<open>and_then\<close> is the \<open>?\<close> of a function that changes a state on the way, which
  keeps what was changed before the early return.
\<close>

definition r_bind :: "'e + 'a \<Rightarrow> ('a \<Rightarrow> 'e + 'b) \<Rightarrow> 'e + 'b" where
  "r_bind r f = (case r of Inl e \<Rightarrow> Inl e | Inr x \<Rightarrow> f x)"

definition ok_or :: "'a option \<Rightarrow> 'e \<Rightarrow> 'e + 'a" where
  "ok_or v e = (case v of None \<Rightarrow> Inl e | Some x \<Rightarrow> Inr x)"

definition and_then :: "('e + 'a) \<times> 's \<Rightarrow> ('a \<Rightarrow> 's \<Rightarrow> ('e + 'b) \<times> 's) \<Rightarrow> ('e + 'b) \<times> 's" where
  "and_then m f = (case m of (Inl e, s) \<Rightarrow> (Inl e, s) | (Inr x, s) \<Rightarrow> f x s)"

lemma r_bind_simps [simp, res_simps]:
  "r_bind (Inl e) f = Inl e"
  "r_bind (Inr x) f = f x"
  by (simp_all add: r_bind_def)

lemma r_bind_Inr_iff: "r_bind r f = Inr y \<longleftrightarrow> (\<exists>x. r = Inr x \<and> f x = Inr y)"
  by (cases r) auto

lemma r_bind_Inl_iff: "r_bind r f = Inl e \<longleftrightarrow> r = Inl e \<or> (\<exists>x. r = Inr x \<and> f x = Inl e)"
  by (cases r) auto

lemma ok_or_simps [simp, res_simps]:
  "ok_or None e = Inl e"
  "ok_or (Some x) e = Inr x"
  by (simp_all add: ok_or_def)

lemma ok_or_Inr_iff: "ok_or v e = Inr x \<longleftrightarrow> v = Some x"
  by (cases v) auto

lemma and_then_simps [simp, res_simps]:
  "and_then (Inl e, s) f = (Inl e, s)"
  "and_then (Inr x, s) f = f x s"
  by (simp_all add: and_then_def)

lemma and_then_Inr_iff:
  "and_then m f = (Inr y, t) \<longleftrightarrow> (\<exists>x s. m = (Inr x, s) \<and> f x s = (Inr y, t))"
  by (cases m; cases "fst m") auto

text \<open>An invariant of the state survives \<open>and_then\<close> when both halves keep it.\<close>

lemma and_then_inv:
  assumes "P (snd m)" and "\<And>x s. m = (Inr x, s) \<Longrightarrow> P s \<Longrightarrow> P (snd (f x s))"
  shows "P (snd (and_then m f))"
  using assms by (cases m; cases "fst m") auto

section \<open>Ordered association lists\<close>

text \<open>
  A \<open>BTreeMap\<close> that the code iterates over is an association list in ascending key order.
\<close>

fun al_insert :: "'k :: linorder \<Rightarrow> 'v \<Rightarrow> ('k \<times> 'v) list \<Rightarrow> ('k \<times> 'v) list" where
  "al_insert k v [] = [(k, v)]"
| "al_insert k v (e # es) =
     (if k < fst e then (k, v) # e # es
      else if k = fst e then (k, v) # es
      else e # al_insert k v es)"

fun al_remove :: "'k :: linorder \<Rightarrow> ('k \<times> 'v) list \<Rightarrow> ('k \<times> 'v) list" where
  "al_remove k [] = []"
| "al_remove k (e # es) = (if fst e = k then es else e # al_remove k es)"

definition al_ordered :: "('k :: linorder \<times> 'v) list \<Rightarrow> bool" where
  "al_ordered es = sorted_wrt (<) (map fst es)"

lemma al_ordered_simps [simp]:
  "al_ordered []"
  "al_ordered (e # es) \<longleftrightarrow> (\<forall>f\<in>set es. fst e < fst f) \<and> al_ordered es"
  by (auto simp: al_ordered_def)

lemma set_al_insert: "set (al_insert k v es) \<subseteq> insert (k, v) (set es)"
  by (induction es) auto

lemma set_al_remove: "set (al_remove k es) \<subseteq> set es"
  by (induction es) auto

lemma al_insert_ordered [simp]: "al_ordered es \<Longrightarrow> al_ordered (al_insert k v es)"
proof (induction es)
  case (Cons e es)
  then show ?case using set_al_insert [of k v es] by fastforce
qed simp

lemma al_remove_ordered [simp]: "al_ordered es \<Longrightarrow> al_ordered (al_remove k es)"
proof (induction es)
  case (Cons e es)
  then show ?case using set_al_remove [of k es] by auto
qed simp

lemma map_of_al_insert [simp]: "map_of (al_insert k v es) = (map_of es)(k \<mapsto> v)"
  by (induction es) auto

lemma map_of_below: "\<forall>f\<in>set es. (k :: 'k :: linorder) < fst f \<Longrightarrow> map_of es k = None"
  by (induction es) auto

lemma map_of_al_remove [simp]:
  "al_ordered es \<Longrightarrow> map_of (al_remove k es) = (map_of es)(k := None)"
  by (induction es) (auto simp: fun_eq_iff map_of_below)

lemma al_ordered_distinct: "al_ordered es \<Longrightarrow> distinct (map fst es)"
  by (induction es) (auto simp: image_iff)

lemma al_ordered_mem_iff: "al_ordered es \<Longrightarrow> (k, v) \<in> set es \<longleftrightarrow> map_of es k = Some v"
  by (simp add: al_ordered_distinct)

lemma map_of_Nil_iff: "map_of es = Map.empty \<longleftrightarrow> es = []"
  by (cases es) (auto simp: fun_eq_iff)

section \<open>Lists of bytes\<close>

text \<open>\<open>position\<close> of an iterator, and the in-place overwriting of part of a buffer.\<close>

fun position :: "('a \<Rightarrow> bool) \<Rightarrow> 'a list \<Rightarrow> nat option" where
  "position p [] = None"
| "position p (x # xs) = (if p x then Some 0 else map_option Suc (position p xs))"

definition overwrite :: "'a list \<Rightarrow> nat \<Rightarrow> 'a list \<Rightarrow> 'a list" where
  "overwrite xs i ys = take i xs @ ys @ drop (i + length ys) xs"

lemma position_None_iff: "position p xs = None \<longleftrightarrow> (\<forall>x\<in>set xs. \<not> p x)"
  by (induction xs) auto

lemma position_Some_iff:
  "position p xs = Some i \<longleftrightarrow> i < length xs \<and> p (xs ! i) \<and> (\<forall>j<i. \<not> p (xs ! j))"
proof (induction xs arbitrary: i)
  case (Cons x xs)
  show ?case
    by (cases i) (auto simp: Cons.IH All_less_Suc2)
qed simp

lemma length_overwrite [simp]:
  "i + length ys \<le> length xs \<Longrightarrow> length (overwrite xs i ys) = length xs"
  by (simp add: overwrite_def)

lemma nth_overwrite:
  assumes "i + length ys \<le> length xs"
  shows "overwrite xs i ys ! j =
    (if i \<le> j \<and> j < i + length ys then ys ! (j - i) else xs ! j)"
proof -
  consider "j < i" | "i \<le> j" "j < i + length ys" | "i + length ys \<le> j" by linarith
  then show ?thesis
  proof cases
    case 3
    have "length (take i xs @ ys) \<le> j" using 3 assms by simp
    from nth_append_right [OF this, of "drop (i + length ys) xs"] show ?thesis
      using 3 assms by (simp add: overwrite_def)
  qed (use assms in \<open>auto simp: overwrite_def nth_append min_def\<close>)
qed

end
