(* ===== verification/Pal_Port.thy ===== *)
theory Pal_Port
  imports Pal_Prelude
begin

text \<open>
  The failure vocabulary of the boundary (\<open>src/src/port.rs\<close>): the \<open>Error\<close> enumeration, the ABI
  status codes it stands for, and the conversions in both directions.
\<close>

section \<open>Status codes\<close>

abbreviation OK :: nat where "OK \<equiv> 0"
abbreviation UNSUPPORTED :: nat where "UNSUPPORTED \<equiv> 1"
abbreviation INVALID_ARGUMENT :: nat where "INVALID_ARGUMENT \<equiv> 2"
abbreviation OS_ERROR :: nat where "OS_ERROR \<equiv> 3"
abbreviation OUT_OF_MEMORY :: nat where "OUT_OF_MEMORY \<equiv> 4"
abbreviation TIMEOUT :: nat where "TIMEOUT \<equiv> 5"
abbreviation BUSY :: nat where "BUSY \<equiv> 6"
abbreviation BUFFER_TOO_SMALL :: nat where "BUFFER_TOO_SMALL \<equiv> 7"
abbreviation NOT_FOUND :: nat where "NOT_FOUND \<equiv> 8"
abbreviation ALREADY_EXISTS :: nat where "ALREADY_EXISTS \<equiv> 9"
abbreviation ACCESS_DENIED :: nat where "ACCESS_DENIED \<equiv> 10"
abbreviation IS_DIRECTORY :: nat where "IS_DIRECTORY \<equiv> 11"
abbreviation NOT_DIRECTORY :: nat where "NOT_DIRECTORY \<equiv> 12"
abbreviation NOT_EMPTY :: nat where "NOT_EMPTY \<equiv> 13"
abbreviation NO_SPACE :: nat where "NO_SPACE \<equiv> 14"
abbreviation WOULD_BLOCK :: nat where "WOULD_BLOCK \<equiv> 15"
abbreviation BROKEN_PIPE :: nat where "BROKEN_PIPE \<equiv> 16"
abbreviation CONNECTION_REFUSED :: nat where "CONNECTION_REFUSED \<equiv> 17"
abbreviation CONNECTION_RESET :: nat where "CONNECTION_RESET \<equiv> 18"
abbreviation CONNECTION_ABORTED :: nat where "CONNECTION_ABORTED \<equiv> 19"
abbreviation NOT_CONNECTED :: nat where "NOT_CONNECTED \<equiv> 20"
abbreviation ALREADY_CONNECTED :: nat where "ALREADY_CONNECTED \<equiv> 21"
abbreviation ADDRESS_IN_USE :: nat where "ADDRESS_IN_USE \<equiv> 22"
abbreviation ADDRESS_NOT_AVAILABLE :: nat where "ADDRESS_NOT_AVAILABLE \<equiv> 23"
abbreviation NETWORK_UNREACHABLE :: nat where "NETWORK_UNREACHABLE \<equiv> 24"
abbreviation HOST_UNREACHABLE :: nat where "HOST_UNREACHABLE \<equiv> 25"
abbreviation IN_PROGRESS :: nat where "IN_PROGRESS \<equiv> 26"
abbreviation TOO_MANY_HANDLES :: nat where "TOO_MANY_HANDLES \<equiv> 27"
abbreviation NAME_TOO_LONG :: nat where "NAME_TOO_LONG \<equiv> 28"
abbreviation READ_ONLY :: nat where "READ_ONLY \<equiv> 29"
abbreviation CROSS_DEVICE :: nat where "CROSS_DEVICE \<equiv> 30"
abbreviation MESSAGE_TOO_LARGE :: nat where "MESSAGE_TOO_LARGE \<equiv> 31"

datatype error =
    Unsupported
  | InvalidArgument
  | Os
  | OutOfMemory
  | Timeout
  | Busy
  | BufferTooSmall
  | NotFound
  | AlreadyExists
  | AccessDenied
  | IsDirectory
  | NotDirectory
  | NotEmpty
  | NoSpace
  | WouldBlock
  | BrokenPipe
  | ConnectionRefused
  | ConnectionReset
  | ConnectionAborted
  | NotConnected
  | AlreadyConnected
  | AddressInUse
  | AddressNotAvailable
  | NetworkUnreachable
  | HostUnreachable
  | InProgress
  | TooManyHandles
  | NameTooLong
  | ReadOnly
  | CrossDevice
  | MessageTooLarge

type_synonym 'a result = "error + 'a"

primrec status :: "error \<Rightarrow> nat" where
    "status Unsupported = UNSUPPORTED"
  | "status InvalidArgument = INVALID_ARGUMENT"
  | "status Os = OS_ERROR"
  | "status OutOfMemory = OUT_OF_MEMORY"
  | "status Timeout = TIMEOUT"
  | "status Busy = BUSY"
  | "status BufferTooSmall = BUFFER_TOO_SMALL"
  | "status NotFound = NOT_FOUND"
  | "status AlreadyExists = ALREADY_EXISTS"
  | "status AccessDenied = ACCESS_DENIED"
  | "status IsDirectory = IS_DIRECTORY"
  | "status NotDirectory = NOT_DIRECTORY"
  | "status NotEmpty = NOT_EMPTY"
  | "status NoSpace = NO_SPACE"
  | "status WouldBlock = WOULD_BLOCK"
  | "status BrokenPipe = BROKEN_PIPE"
  | "status ConnectionRefused = CONNECTION_REFUSED"
  | "status ConnectionReset = CONNECTION_RESET"
  | "status ConnectionAborted = CONNECTION_ABORTED"
  | "status NotConnected = NOT_CONNECTED"
  | "status AlreadyConnected = ALREADY_CONNECTED"
  | "status AddressInUse = ADDRESS_IN_USE"
  | "status AddressNotAvailable = ADDRESS_NOT_AVAILABLE"
  | "status NetworkUnreachable = NETWORK_UNREACHABLE"
  | "status HostUnreachable = HOST_UNREACHABLE"
  | "status InProgress = IN_PROGRESS"
  | "status TooManyHandles = TOO_MANY_HANDLES"
  | "status NameTooLong = NAME_TOO_LONG"
  | "status ReadOnly = READ_ONLY"
  | "status CrossDevice = CROSS_DEVICE"
  | "status MessageTooLarge = MESSAGE_TOO_LARGE"

text \<open>\<open>Error::from_status\<close>: \<open>OK\<close> is no error, and a value outside the published set is \<open>Os\<close>.\<close>

definition from_status :: "nat \<Rightarrow> error option" where
  "from_status s =
     (if s = OK then None
      else if s = UNSUPPORTED then Some Unsupported
      else if s = INVALID_ARGUMENT then Some InvalidArgument
      else if s = OUT_OF_MEMORY then Some OutOfMemory
      else if s = TIMEOUT then Some Timeout
      else if s = BUSY then Some Busy
      else if s = BUFFER_TOO_SMALL then Some BufferTooSmall
      else if s = NOT_FOUND then Some NotFound
      else if s = ALREADY_EXISTS then Some AlreadyExists
      else if s = ACCESS_DENIED then Some AccessDenied
      else if s = IS_DIRECTORY then Some IsDirectory
      else if s = NOT_DIRECTORY then Some NotDirectory
      else if s = NOT_EMPTY then Some NotEmpty
      else if s = NO_SPACE then Some NoSpace
      else if s = WOULD_BLOCK then Some WouldBlock
      else if s = BROKEN_PIPE then Some BrokenPipe
      else if s = CONNECTION_REFUSED then Some ConnectionRefused
      else if s = CONNECTION_RESET then Some ConnectionReset
      else if s = CONNECTION_ABORTED then Some ConnectionAborted
      else if s = NOT_CONNECTED then Some NotConnected
      else if s = ALREADY_CONNECTED then Some AlreadyConnected
      else if s = ADDRESS_IN_USE then Some AddressInUse
      else if s = ADDRESS_NOT_AVAILABLE then Some AddressNotAvailable
      else if s = NETWORK_UNREACHABLE then Some NetworkUnreachable
      else if s = HOST_UNREACHABLE then Some HostUnreachable
      else if s = IN_PROGRESS then Some InProgress
      else if s = TOO_MANY_HANDLES then Some TooManyHandles
      else if s = NAME_TOO_LONG then Some NameTooLong
      else if s = READ_ONLY then Some ReadOnly
      else if s = CROSS_DEVICE then Some CrossDevice
      else if s = MESSAGE_TOO_LARGE then Some MessageTooLarge
      else Some Os)"

text \<open>\<open>port::status\<close> and \<open>port::from_status\<close>.\<close>

definition port_status :: "'a result \<Rightarrow> nat" where
  "port_status r = (case r of Inr _ \<Rightarrow> OK | Inl e \<Rightarrow> status e)"

definition port_from_status :: "nat \<Rightarrow> unit result" where
  "port_from_status code = (case from_status code of None \<Rightarrow> Inr () | Some e \<Rightarrow> Inl e)"

lemma status_pos [simp]: "0 < status e"
  by (cases e) auto

lemma status_not_OK [simp]: "status e \<noteq> OK"
  by (cases e) auto

lemma status_range: "1 \<le> status e \<and> status e \<le> 31"
  by (cases e) auto

lemma from_status_status [simp]: "from_status (status e) = Some e"
  by (cases e) (simp_all add: from_status_def)

lemma status_inj: "status e = status f \<longleftrightarrow> e = f"
  by (metis from_status_status option.inject)

lemma from_status_unknown: "31 < s \<Longrightarrow> from_status s = Some Os"
  by (simp add: from_status_def)

lemma port_status_OK_iff: "port_status r = OK \<longleftrightarrow> (\<exists>x. r = Inr x)"
  by (cases r) (auto simp: port_status_def)

lemma port_status_simps [simp]:
  "port_status (Inr x) = OK"
  "port_status (Inl e) = status e"
  by (simp_all add: port_status_def)

end
