(* ===== verification/Pal_Io.thy ===== *)
theory Pal_Io
  imports Pal_Port
begin

text \<open>
  What every front end of the boundary shares: the saturating diagnostic counters
  (\<open>src/src/counter.rs\<close>), the check of an output pointer (\<open>aligned_output\<close> of
  \<open>src/src/lib.rs\<close>), the borrow of a path argument and the NUL-terminated text contract
  (\<open>path\<close> and \<open>text\<close> of \<open>src/src/io.rs\<close>), and the contract of the \<open>record\<close> function
  that ends every call of a group.

  Pointers are addresses. The memory behind a pointer argument is passed next to it: a byte list
  for a readable borrow, a cell or a buffer that is returned updated for an output.
\<close>

section \<open>Counters\<close>

definition counter_increment :: "nat \<Rightarrow> nat" where
  "counter_increment current = min (current + 1) USIZE_MAX"

type_synonym counters = "nat list"

definition bump :: "nat \<Rightarrow> counters \<Rightarrow> counters" where
  "bump i cs = cs[i := counter_increment (cs ! i)]"

lemma length_bump [simp]: "length (bump i cs) = length cs"
  by (simp add: bump_def)

lemma nth_bump: "j < length cs \<Longrightarrow>
  bump i cs ! j = (if i = j then counter_increment (cs ! j) else cs ! j)"
  by (auto simp: bump_def nth_list_update)

lemma counter_increment_mono: "c \<le> USIZE_MAX \<Longrightarrow> c \<le> counter_increment c \<and> counter_increment c \<le> USIZE_MAX"
  by (simp add: counter_increment_def)

text \<open>
  The increment is a loop around \<open>compare_exchange_weak\<close>. A thread inside it holds the value it
  last observed; a step either stores (the cell still holds that value) or observes again, which
  also covers a spurious failure.
\<close>

datatype incrementer = Start | Holding nat | Done

inductive counter_step :: "nat \<times> (nat \<Rightarrow> incrementer) \<Rightarrow> nat \<times> (nat \<Rightarrow> incrementer) \<Rightarrow> bool" where
  load: "ts t = Start \<Longrightarrow> counter_step (cell, ts) (cell, ts(t := Holding cell))"
| exchange: "ts t = Holding current \<Longrightarrow> cell = current \<Longrightarrow>
    counter_step (cell, ts) (counter_increment current, ts(t := Done))"
| observe: "ts t = Holding current \<Longrightarrow> counter_step (cell, ts) (cell, ts(t := Holding cell))"

inductive_cases counter_stepE: "counter_step (cell, ts) (cell', ts')"

section \<open>Arguments\<close>

definition aligned_output :: "nat \<Rightarrow> nat \<Rightarrow> bool" where
  "aligned_output out align \<longleftrightarrow> out \<noteq> 0 \<and> out mod align = 0"

text \<open>The \<open>size\<close> bytes at \<open>p\<close> can be borrowed.\<close>

definition valid_buffer :: "nat \<Rightarrow> nat \<Rightarrow> bool" where
  "valid_buffer p sz \<longleftrightarrow> sz \<le> ISIZE_MAX \<and> (sz = 0 \<or> p \<noteq> 0 \<and> checked_add p sz \<noteq> None)"

abbreviation MAX_NAME :: nat where "MAX_NAME \<equiv> 4095"
abbreviation MAX_ENTRY_NAME :: nat where "MAX_ENTRY_NAME \<equiv> 255"
abbreviation SLASH :: byte where "SLASH \<equiv> 47"
abbreviation DOT :: byte where "DOT \<equiv> 46"

text \<open>\<open>bytes\<close> are the \<open>len\<close> bytes at \<open>data\<close>; they are read only after the pointer checks.\<close>

definition io_path :: "nat \<Rightarrow> nat \<Rightarrow> byte list \<Rightarrow> byte list option" where
  "io_path data len bytes =
     (if data = 0 \<or> len = 0 \<or> MAX_NAME < len \<or> checked_add data len = None then None
      else if 0 \<in> set bytes then None else Some bytes)"

text \<open>
  \<open>provider\<close> gets the cleared buffer and returns its answer and the buffer it left. The result
  is the status, the \<open>needed\<close> cell and the buffer.
\<close>

definition io_text ::
  "byte list \<Rightarrow> nat \<Rightarrow> nat \<Rightarrow> (byte list \<Rightarrow> nat result \<times> byte list) \<Rightarrow> nat \<times> nat \<times> byte list" where
  "io_text out needed limit provider =
     (let capacity = length out;
          cleared = replicate capacity 0;
          (answer, out') = provider cleared;
          (st, needed') =
            (case answer of
               Inl e \<Rightarrow> (status e, needed)
             | Inr len \<Rightarrow>
                 if \<not> (2 \<le> len \<and> len \<le> limit) then (OS_ERROR, needed)
                 else if capacity < len then (BUFFER_TOO_SMALL, len)
                 else if out' ! (len - 1) \<noteq> 0 \<or> 0 \<in> set (take (len - 1) out') then (OS_ERROR, needed)
                 else (OK, len))
      in (st, needed', if st \<noteq> OK then replicate capacity 0 else out'))"

section \<open>Facts about the shared contracts\<close>

lemma io_path_Some_iff:
  "io_path data len bytes = Some p \<longleftrightarrow>
     p = bytes \<and> data \<noteq> 0 \<and> 0 < len \<and> len \<le> MAX_NAME \<and> data + len \<le> USIZE_MAX \<and> 0 \<notin> set bytes"
  by (auto simp: io_path_def checked_add_def)

text \<open>
  What a provider of a text owes the caller: the length it names covers the text and its NUL, and
  a buffer that is long enough holds exactly that text. An answer that does not fit is a length.
\<close>

locale text_provider =
  fixes provider :: "byte list \<Rightarrow> nat result \<times> byte list" and spelling :: "byte list" and limit :: nat
  assumes answer: "fst (provider buf) = Inr (length spelling + 1)"
    and copied: "length spelling + 1 \<le> length buf \<Longrightarrow>
      snd (provider buf) = spelling @ [0] @ drop (length spelling + 1) buf"
    and nonempty: "spelling \<noteq> []"
    and no_nul: "0 \<notin> set spelling"
    and short: "length spelling + 1 \<le> limit"
begin

lemma io_text_fits:
  assumes "length spelling + 1 \<le> length out"
  shows "io_text out needed limit provider =
    (OK, length spelling + 1, spelling @ replicate (length out - length spelling) 0)"
proof -
  let ?buf = "replicate (length out) (0 :: byte)"
  have "provider ?buf = (Inr (length spelling + 1), spelling @ [0] @ drop (length spelling + 1) ?buf)"
    using answer [of ?buf] copied [of ?buf] assms by (cases "provider ?buf") simp
  moreover have "(0 :: byte) # replicate (length out - (length spelling + 1)) 0 = replicate (length out - length spelling) 0"
    using assms by (simp add: Suc_diff_Suc flip: replicate_Suc)
  moreover have "2 \<le> length spelling + 1" using nonempty by (cases spelling) auto
  ultimately show ?thesis
    using no_nul short assms by (simp add: io_text_def Let_def nth_append)
qed

lemma io_text_short:
  assumes "length out < length spelling + 1"
  shows "io_text out needed limit provider =
    (BUFFER_TOO_SMALL, length spelling + 1, replicate (length out) 0)"
proof -
  let ?buf = "replicate (length out) (0 :: byte)"
  obtain b where "provider ?buf = (Inr (length spelling + 1), b)"
    using answer [of ?buf] by (cases "provider ?buf") simp
  moreover have "2 \<le> length spelling + 1" using nonempty by (cases spelling) auto
  ultimately show ?thesis using short assms by (simp add: io_text_def Let_def)
qed

end

text \<open>Whatever the provider does, a failed text call leaves nothing in the caller's buffer.\<close>

lemma io_text_failure_clears:
  assumes "io_text out needed limit provider = (st, needed', out')" "st \<noteq> OK"
  shows "out' = replicate (length out) 0"
  using assms by (auto simp: io_text_def Let_def split: prod.splits)

lemma io_text_OK:
  assumes "io_text out needed limit provider = (OK, needed', out')"
  shows "2 \<le> needed' \<and> needed' \<le> min limit (length out) \<and> out' ! (needed' - 1) = 0
    \<and> 0 \<notin> set (take (needed' - 1) out')"
  using assms by (auto simp: io_text_def Let_def split: prod.splits sum.splits if_splits)

section \<open>Capability words and callback tables\<close>

text \<open>
  A group's callback table has one optional entry per operation; the model keeps the names of the
  entries that are not NULL. \<open>offer\<close> is one \<open>if PROVIDED { caps |= BIT; ops.x = Some(x); ... }\<close>.
\<close>

type_synonym caps = "64 word"
type_synonym ops = "string list"

definition offer :: "bool \<Rightarrow> caps \<Rightarrow> ops \<Rightarrow> caps \<times> ops \<Rightarrow> caps \<times> ops" where
  "offer provided capability entries t = (if provided then (fst t OR capability, snd t @ entries) else t)"

section \<open>The recorder of a group\<close>

text \<open>
  Every group ends its calls with a \<open>record\<close> function: it lets through the statuses the group
  publishes for that operation, turns every other value into \<open>OS_ERROR\<close>, and increments one
  counter, the operation's own when the status is OK. \<open>published i st\<close> is the group's rule for
  the operation that counts in slot \<open>i\<close>.
\<close>

type_synonym recorder = "nat \<Rightarrow> nat \<Rightarrow> counters \<Rightarrow> nat \<times> counters"

definition record_done :: "recorder \<Rightarrow> nat \<Rightarrow> counters \<Rightarrow> unit result \<times> 's \<Rightarrow> (nat \<times> counters) \<times> 's" where
  "record_done rec i cs = (\<lambda>(r, s). (rec (port_status r) i cs, s))"

locale status_recorder =
  fixes rec :: recorder and published :: "nat \<Rightarrow> nat \<Rightarrow> bool"
  assumes kept: "published i st \<Longrightarrow> fst (rec st i cs) = st"
    and unknown: "\<not> published i st \<Longrightarrow> fst (rec st i cs) = OS_ERROR"
    and OK_published: "published i OK"
    and OS_ERROR_published: "published i OS_ERROR"
    and counts_OK: "snd (rec OK i cs) = bump i cs"
    and counts_one: "\<exists>j. snd (rec st i cs) = bump j cs"
begin

lemma OK_iff: "fst (rec st i cs) = OK \<longleftrightarrow> st = OK"
  using kept [of i st cs] unknown [of i st cs] OK_published by (cases "published i st"; cases "st = OK") auto

lemma status_published: "published i (fst (rec st i cs))"
  using kept [of i st cs] unknown [of i st cs] OS_ERROR_published by (cases "published i st") auto

lemma pair:
  assumes "rec st i cs = (st', cs')"
  shows "published i st' \<and> (st' = OK \<longleftrightarrow> st = OK) \<and> (published i st \<longrightarrow> st' = st)"
  using assms OK_iff [of st i cs] status_published [of i st cs] kept [of i st cs] by simp

lemma done_OK: "fst (fst (record_done rec i cs (r, s))) = OK \<longleftrightarrow> r = Inr ()"
  by (cases r) (simp_all add: record_done_def OK_iff port_status_def status_not_OK)

lemma counters_grow:
  assumes "rec st i cs = (st', cs')" "j < length cs" "cs ! j \<le> USIZE_MAX"
  shows "length cs' = length cs \<and> cs ! j \<le> cs' ! j \<and> cs' ! j \<le> USIZE_MAX \<and> cs' ! j \<le> cs ! j + 1"
proof -
  obtain k where "cs' = bump k cs" using assms(1) counts_one [of st i cs] by auto
  then show ?thesis using assms(2, 3) by (auto simp: nth_bump counter_increment_def)
qed

end

section \<open>Concurrent increments are not lost\<close>

lemma counter_step_counts:
  assumes "counter_step (cell, ts) (cell', ts')" "finite {t. ts t = Done}"
    and "cell = min (c0 + card {t. ts t = Done}) USIZE_MAX"
  shows "finite {t. ts' t = Done} \<and> cell' = min (c0 + card {t. ts' t = Done}) USIZE_MAX"
proof -
  consider (same) t where "ts t \<noteq> Done" "ts' = ts(t := Holding cell)" "cell' = cell"
    | (exchange) t where "ts t \<noteq> Done" "ts' = ts(t := Done)" "cell' = counter_increment cell"
    using assms(1) by (elim counter_stepE) (metis incrementer.distinct)+
  then show ?thesis
  proof cases
    case same
    then have "{t. ts' t = Done} = {t. ts t = Done}" by auto
    then show ?thesis using same assms by simp
  next
    case exchange
    then have "{t. ts' t = Done} = insert t {t. ts t = Done}" "t \<notin> {t. ts t = Done}" by auto
    then show ?thesis using exchange assms by (simp add: counter_increment_def)
  qed
qed

lemma counter_steps_count:
  assumes "counter_step\<^sup>*\<^sup>* (c0, \<lambda>_. Start) (cell, ts)" "c0 \<le> USIZE_MAX"
  shows "finite {t. ts t = Done} \<and> cell = min (c0 + card {t. ts t = Done}) USIZE_MAX"
  using assms(1)
proof (induction "(cell, ts)" arbitrary: cell ts rule: rtranclp_induct)
  case base
  then show ?case using assms(2) by simp
next
  case (step y)
  then show ?case using counter_step_counts [of "fst y" "snd y" cell ts c0] by (cases y) auto
qed

end
