(* ===== verification/Pal_Core.thy ===== *)
theory Pal_Core
  imports Pal_Io
begin

text \<open>
  The core of the boundary (\<open>src/src/lib.rs\<close>): size and alignment geometry, the checked entry points
  of the virtual-memory table (module \<open>vm\<close>) and of the linear-storage table (module
  \<open>linear_api\<close>), and the counters behind \<open>read_stats\<close>. The tables and their negotiation are in
  \<open>Pal_Table\<close>.

  A provider is a record of state-passing functions over a state of its own type. \<open>usize\<close> values
  are natural numbers up to \<open>USIZE_MAX\<close>.
\<close>

section \<open>Geometry\<close>

definition round_size :: "nat \<Rightarrow> nat \<Rightarrow> nat option" where
  "round_size sz page =
     (if sz = 0 \<or> \<not> is_power_of_two page then None
      else Option.bind (checked_add sz (page - 1)) (\<lambda>x.
        let rounded = mask_down x page in if rounded \<le> ISIZE_MAX then Some rounded else None))"

definition geometry :: "nat \<Rightarrow> nat \<Rightarrow> nat \<Rightarrow> (nat \<times> nat) option" where
  "geometry sz alignment page =
     Option.bind (round_size sz page) (\<lambda>sz.
       if alignment \<noteq> 0 \<and> \<not> is_power_of_two alignment then None
       else let alignment = max alignment page in
         Option.bind (checked_add sz (alignment - page)) (\<lambda>span.
           if ISIZE_MAX < span then None else Some (sz, alignment)))"

section \<open>Virtual memory\<close>

record 's vm_provider =
  vm_page_size :: nat
  vm_reserve_fn :: "nat \<Rightarrow> nat \<Rightarrow> 's \<Rightarrow> nat result \<times> 's"
  vm_commit_fn :: "nat \<Rightarrow> nat \<Rightarrow> 's \<Rightarrow> unit result \<times> 's"
  vm_decommit_fn :: "nat \<Rightarrow> nat \<Rightarrow> 's \<Rightarrow> unit result \<times> 's"
  vm_release_fn :: "nat \<Rightarrow> nat \<Rightarrow> 's \<Rightarrow> unit result \<times> 's"
  vm_reset_fn :: "nat \<Rightarrow> nat \<Rightarrow> 's \<Rightarrow> unit result \<times> 's"

abbreviation C_RESERVE :: nat where "C_RESERVE \<equiv> 0"
abbreviation C_COMMIT :: nat where "C_COMMIT \<equiv> 1"
abbreviation C_DECOMMIT :: nat where "C_DECOMMIT \<equiv> 2"
abbreviation C_RELEASE :: nat where "C_RELEASE \<equiv> 3"
abbreviation C_RESET :: nat where "C_RESET \<equiv> 4"
abbreviation C_FAILED :: nat where "C_FAILED \<equiv> 5"

definition core_record :: "nat \<Rightarrow> recorder" where
  "core_record failed st counter cs = (st, bump (if st = OK then counter else failed) cs)"

text \<open>A provider's address is never used when it is NULL, misaligned or wraps around.\<close>

definition broken_block :: "nat \<Rightarrow> nat \<Rightarrow> nat \<Rightarrow> bool" where
  "broken_block address sz alignment \<longleftrightarrow> address = 0 \<or> address mod alignment \<noteq> 0 \<or> checked_add address sz = None"

definition vm_reserve ::
  "'s vm_provider \<Rightarrow> nat \<Rightarrow> nat \<Rightarrow> flags \<Rightarrow> nat \<Rightarrow> nat \<Rightarrow> counters \<Rightarrow> 's \<Rightarrow> (nat \<times> counters) \<times> nat \<times> 's" where
  "vm_reserve v sz alignment fl out cell cs s =
     (if \<not> aligned_output out 8 then (core_record C_FAILED INVALID_ARGUMENT C_RESERVE cs, cell, s)
      else if fl \<noteq> 0 then (core_record C_FAILED UNSUPPORTED C_RESERVE cs, 0, s)
      else case geometry sz alignment (vm_page_size v) of
          None \<Rightarrow> (core_record C_FAILED INVALID_ARGUMENT C_RESERVE cs, 0, s)
        | Some (sz, alignment) \<Rightarrow>
            (case vm_reserve_fn v sz alignment s of
               (Inr result, s') \<Rightarrow>
                 if broken_block result sz alignment then (core_record C_FAILED OS_ERROR C_RESERVE cs, 0, s')
                 else (core_record C_FAILED OK C_RESERVE cs, result, s')
             | (Inl e, s') \<Rightarrow> (core_record C_FAILED (status e) C_RESERVE cs, 0, s')))"

definition vm_valid_range :: "nat \<Rightarrow> nat \<Rightarrow> nat \<Rightarrow> nat option" where
  "vm_valid_range page address sz =
     Option.bind (round_size sz page) (\<lambda>sz.
       if address = 0 \<or> mask_low address page \<noteq> 0 then None
       else Option.bind (checked_add address sz) (\<lambda>_. Some sz))"

definition vm_range_op ::
  "nat \<Rightarrow> (nat \<Rightarrow> nat \<Rightarrow> 's \<Rightarrow> unit result \<times> 's) \<Rightarrow> nat \<Rightarrow> nat \<Rightarrow> nat \<Rightarrow> counters \<Rightarrow> 's \<Rightarrow> (nat \<times> counters) \<times> 's" where
  "vm_range_op page op counter address sz cs s =
     (case vm_valid_range page address sz of
        None \<Rightarrow> (core_record C_FAILED INVALID_ARGUMENT counter cs, s)
      | Some sz \<Rightarrow> record_done (core_record C_FAILED) counter cs (op address sz s))"

definition vm_commit :: "'s vm_provider \<Rightarrow> nat \<Rightarrow> nat \<Rightarrow> counters \<Rightarrow> 's \<Rightarrow> (nat \<times> counters) \<times> 's" where
  "vm_commit v = vm_range_op (vm_page_size v) (vm_commit_fn v) C_COMMIT"

definition vm_decommit :: "'s vm_provider \<Rightarrow> nat \<Rightarrow> nat \<Rightarrow> counters \<Rightarrow> 's \<Rightarrow> (nat \<times> counters) \<times> 's" where
  "vm_decommit v = vm_range_op (vm_page_size v) (vm_decommit_fn v) C_DECOMMIT"

definition vm_release :: "'s vm_provider \<Rightarrow> nat \<Rightarrow> nat \<Rightarrow> counters \<Rightarrow> 's \<Rightarrow> (nat \<times> counters) \<times> 's" where
  "vm_release v = vm_range_op (vm_page_size v) (vm_release_fn v) C_RELEASE"

definition vm_reset :: "'s vm_provider \<Rightarrow> nat \<Rightarrow> nat \<Rightarrow> counters \<Rightarrow> 's \<Rightarrow> (nat \<times> counters) \<times> 's" where
  "vm_reset v = vm_range_op (vm_page_size v) (vm_reset_fn v) C_RESET"

definition core_read_stats :: "nat \<Rightarrow> nat \<Rightarrow> counters \<Rightarrow> counters \<Rightarrow> nat \<times> counters" where
  "core_read_stats out sz cell cs =
     (if \<not> aligned_output out 8 \<or> sz < 48 then (INVALID_ARGUMENT, cell) else (OK, cs))"

definition vm_ops :: "bool \<Rightarrow> ops" where
  "vm_ops provided =
     (if \<not> provided then []
      else [''page_size'', ''reserve'', ''commit'', ''decommit'', ''release'', ''reset''])"

section \<open>Linear storage\<close>

record 's linear_provider =
  lp_granularity :: nat
  lp_capacity :: nat
  lp_allocate :: "nat \<Rightarrow> nat \<Rightarrow> 's \<Rightarrow> nat result \<times> 's"
  lp_zero :: "nat \<Rightarrow> nat \<Rightarrow> 's \<Rightarrow> unit result \<times> 's"
  lp_release :: "nat \<Rightarrow> nat \<Rightarrow> 's \<Rightarrow> unit result \<times> 's"

abbreviation L_ALLOCATE :: nat where "L_ALLOCATE \<equiv> 0"
abbreviation L_ZERO :: nat where "L_ZERO \<equiv> 1"
abbreviation L_FREE :: nat where "L_FREE \<equiv> 2"
abbreviation L_ERRORS :: nat where "L_ERRORS \<equiv> 3"

definition linear_allocate ::
  "'s linear_provider \<Rightarrow> nat \<Rightarrow> nat \<Rightarrow> flags \<Rightarrow> nat \<Rightarrow> nat \<Rightarrow> counters \<Rightarrow> 's \<Rightarrow> (nat \<times> counters) \<times> nat \<times> 's" where
  "linear_allocate l sz alignment fl out cell cs s =
     (if \<not> aligned_output out 8 then (core_record L_ERRORS INVALID_ARGUMENT L_ALLOCATE cs, cell, s)
      else if fl \<noteq> 0 then (core_record L_ERRORS UNSUPPORTED L_ALLOCATE cs, 0, s)
      else case geometry sz alignment (lp_granularity l) of
          None \<Rightarrow> (core_record L_ERRORS INVALID_ARGUMENT L_ALLOCATE cs, 0, s)
        | Some (sz, alignment) \<Rightarrow>
            (case lp_allocate l sz alignment s of
               (Inr address, s') \<Rightarrow>
                 if broken_block address sz alignment then (core_record L_ERRORS OS_ERROR L_ALLOCATE cs, 0, s')
                 else (core_record L_ERRORS OK L_ALLOCATE cs, address, s')
             | (Inl e, s') \<Rightarrow> (core_record L_ERRORS (status e) L_ALLOCATE cs, 0, s')))"

definition linear_zero :: "'s linear_provider \<Rightarrow> nat \<Rightarrow> nat \<Rightarrow> counters \<Rightarrow> 's \<Rightarrow> (nat \<times> counters) \<times> 's" where
  "linear_zero l address sz cs s =
     (if address = 0 \<or> sz = 0 \<or> checked_add address sz = None
      then (core_record L_ERRORS INVALID_ARGUMENT L_ZERO cs, s)
      else record_done (core_record L_ERRORS) L_ZERO cs (lp_zero l address sz s))"

definition linear_release :: "'s linear_provider \<Rightarrow> nat \<Rightarrow> nat \<Rightarrow> counters \<Rightarrow> 's \<Rightarrow> (nat \<times> counters) \<times> 's" where
  "linear_release l address sz cs s =
     (case round_size sz (lp_granularity l) of
        None \<Rightarrow> (core_record L_ERRORS INVALID_ARGUMENT L_FREE cs, s)
      | Some sz \<Rightarrow>
          if address = 0 then (core_record L_ERRORS INVALID_ARGUMENT L_FREE cs, s)
          else record_done (core_record L_ERRORS) L_FREE cs (lp_release l address sz s))"

definition linear_stats :: "nat \<Rightarrow> nat \<Rightarrow> counters \<Rightarrow> counters \<Rightarrow> nat \<times> counters" where
  "linear_stats out sz cell cs =
     (if \<not> aligned_output out 8 \<or> sz < 32 then (INVALID_ARGUMENT, cell) else (OK, cs))"

definition linear_ops :: "bool \<Rightarrow> ops" where
  "linear_ops provided =
     (if \<not> provided then []
      else [''granularity'', ''capacity'', ''allocate'', ''zero'', ''release'', ''read_stats''])"

section \<open>Facts\<close>

interpretation core_rec: status_recorder "core_record failed" "\<lambda>_ _. True"
  by unfold_locales (auto simp: core_record_def)

lemma next_multiple:
  fixes sz page r :: nat
  assumes "0 < page"
  shows "r = (sz + (page - 1)) - (sz + (page - 1)) mod page \<longleftrightarrow> page dvd r \<and> sz \<le> r \<and> r < sz + page"
proof -
  define x where "x = sz + (page - 1)"
  have "page dvd x - x mod page" by (rule dvd_minus_mod)
  moreover have low: "x mod page < page" using assms by simp
  moreover have same: "r = r'" if u: "page dvd r" "sz \<le> r" "r < sz + page" "page dvd r'" "sz \<le> r'" "r' < sz + page" for r r'
  proof -
    obtain k k' where "r = page * k" "r' = page * k'" using u by (auto elim!: dvdE)
    moreover have "page * k < page * (k' + 1)" "page * k' < page * (k + 1)" using u calculation by auto
    then have "k < k' + 1" "k' < k + 1" using mult_less_cancel1 by blast+
    ultimately show ?thesis by simp
  qed
  moreover have "sz \<le> x - x mod page" "x - x mod page < sz + page"
    using low assms x_def by arith+
  ultimately show ?thesis using same unfolding x_def by blast
qed

lemma round_size_Some_iff:
  "round_size sz page = Some r \<longleftrightarrow>
     0 < sz \<and> is_power_of_two page \<and> page dvd r \<and> sz \<le> r \<and> r < sz + page \<and> r \<le> ISIZE_MAX"
proof (cases "0 < sz \<and> is_power_of_two page")
  case True
  then have page: "0 < page" "page \<le> 2 ^ 63" by (auto dest: is_power_of_two_pos is_power_of_two_le)
  show ?thesis
  proof (cases "sz + (page - 1) \<le> USIZE_MAX")
    case fits: True
    show ?thesis using True fits next_multiple [OF page(1), of r sz]
      by (auto simp: round_size_def checked_add_def Let_def mask_down_pow2 split: if_splits)
  next
    case False
    then show ?thesis using True page by (auto simp: round_size_def checked_add_def width_simps)
  qed
qed (auto simp: round_size_def)

lemma geometry_Some_iff:
  "geometry sz alignment page = Some (rounded, aligned) \<longleftrightarrow>
     round_size sz page = Some rounded \<and> (alignment = 0 \<or> is_power_of_two alignment)
     \<and> aligned = max alignment page \<and> rounded + (aligned - page) \<le> ISIZE_MAX"
  by (auto simp: geometry_def Let_def checked_add_def width_simps split: Option.bind_splits if_splits)

lemma geometry_facts:
  assumes "geometry sz alignment page = Some (rounded, aligned)"
  shows "is_power_of_two aligned" "page dvd aligned" "page dvd rounded" "sz \<le> rounded" "0 < rounded"
    "rounded \<le> ISIZE_MAX" "alignment dvd aligned \<or> alignment = 0"
  using assms pow2_dvd [of page alignment] pow2_dvd [of alignment page]
  by (auto simp: geometry_Some_iff round_size_Some_iff max_def split: if_splits)

lemma vm_valid_range_Some_iff:
  assumes "address \<le> USIZE_MAX"
  shows "vm_valid_range page address sz = Some r \<longleftrightarrow>
    round_size sz page = Some r \<and> address \<noteq> 0 \<and> page dvd address \<and> address + r \<le> USIZE_MAX"
proof (cases "round_size sz page")
  case (Some v)
  then have "mask_low address page = address mod page"
    using assms by (simp add: mask_low_pow2 round_size_Some_iff)
  then show ?thesis using Some
    by (auto simp: vm_valid_range_def checked_add_def mod_eq_0_iff_dvd split: if_splits)
qed (simp add: vm_valid_range_def)

text \<open>
  What a successful reservation is worth, for every provider: a non-NULL block at the alignment the
  caller asked for and at least a page, that covers the requested size in whole pages and does not
  wrap around the address space. A failed one leaves NULL.
\<close>

lemma block_contract:
  assumes "geometry sz alignment page = Some (rounded, aligned)" "\<not> broken_block address rounded aligned"
  shows "address \<noteq> 0 \<and> page dvd address \<and> (alignment = 0 \<or> alignment dvd address)
    \<and> address + rounded \<le> USIZE_MAX"
proof -
  have "aligned dvd address" using assms(2) by (auto simp: broken_block_def)
  then show ?thesis using assms(2) geometry_facts [OF assms(1)]
    by (auto simp: broken_block_def checked_add_def split: if_splits intro: dvd_trans)
qed

lemma vm_reserve_cases:
  assumes "vm_reserve v sz alignment fl out cell cs s = ((st, cs'), cell', s')" "aligned_output out 8"
  shows "st = OK \<and> fl = 0 \<and> (\<exists>rounded aligned. geometry sz alignment (vm_page_size v) = Some (rounded, aligned)
           \<and> vm_reserve_fn v rounded aligned s = (Inr cell', s') \<and> \<not> broken_block cell' rounded aligned)
    \<or> st \<noteq> OK \<and> cell' = 0"
  using assms by (auto simp: vm_reserve_def core_record_def split: if_splits option.splits prod.splits sum.splits)

lemma linear_allocate_cases:
  assumes "linear_allocate l sz alignment fl out cell cs s = ((st, cs'), cell', s')" "aligned_output out 8"
  shows "st = OK \<and> fl = 0 \<and> (\<exists>rounded aligned. geometry sz alignment (lp_granularity l) = Some (rounded, aligned)
           \<and> lp_allocate l rounded aligned s = (Inr cell', s') \<and> \<not> broken_block cell' rounded aligned)
    \<or> st \<noteq> OK \<and> cell' = 0"
  using assms by (auto simp: linear_allocate_def core_record_def split: if_splits option.splits prod.splits sum.splits)

end
