(* ===== verification/Pal_Services.thy ===== *)
theory Pal_Services
  imports Pal_Io
begin

text \<open>
  The clock and scheduling group (\<open>src/src/services.rs\<close>): monotonic clock, sleep and yield over any
  provider, and the negotiation of its two capability bits. A provider operation that never returns
  has no result; the model describes the calls that return.
\<close>

abbreviation CAP_CLOCK :: caps where "CAP_CLOCK \<equiv> 4"
abbreviation CAP_SCHEDULER :: caps where "CAP_SCHEDULER \<equiv> 8"

record 's services_provider =
  sv_monotonic_ns :: "'s \<Rightarrow> nat result \<times> 's"
  sv_sleep_ns :: "nat \<Rightarrow> 's \<Rightarrow> unit result \<times> 's"
  sv_yield_now :: "'s \<Rightarrow> unit result \<times> 's"

definition services_record :: recorder where
  "services_record st counter cs =
     (let st' = (if st \<le> OUT_OF_MEMORY then st else OS_ERROR)
      in (st', bump (if st' = OK then counter else 3) cs))"

definition monotonic_ns ::
  "'s services_provider \<Rightarrow> nat \<Rightarrow> nat \<Rightarrow> counters \<Rightarrow> 's \<Rightarrow> (nat \<times> counters) \<times> nat \<times> 's" where
  "monotonic_ns sv out cell cs s =
     (if \<not> aligned_output out 8 then (services_record INVALID_ARGUMENT 0 cs, cell, s)
      else case sv_monotonic_ns sv s of
          (Inr value, s') \<Rightarrow> (services_record OK 0 cs, value, s')
        | (Inl e, s') \<Rightarrow> (services_record (status e) 0 cs, 0, s'))"

definition sleep_ns :: "'s services_provider \<Rightarrow> nat \<Rightarrow> counters \<Rightarrow> 's \<Rightarrow> (nat \<times> counters) \<times> 's" where
  "sleep_ns sv ns cs s = record_done services_record 1 cs (sv_sleep_ns sv ns s)"

definition yield_thread :: "'s services_provider \<Rightarrow> counters \<Rightarrow> 's \<Rightarrow> (nat \<times> counters) \<times> 's" where
  "yield_thread sv cs s = record_done services_record 2 cs (sv_yield_now sv s)"

definition services_read_stats :: "nat \<Rightarrow> nat \<Rightarrow> counters \<Rightarrow> counters \<Rightarrow> nat \<times> counters" where
  "services_read_stats out sz cell cs =
     (if \<not> aligned_output out 8 \<or> sz < 32 then (INVALID_ARGUMENT, cell) else (OK, cs))"

definition services_negotiate :: "bool \<Rightarrow> bool \<Rightarrow> caps \<times> ops" where
  "services_negotiate clock scheduler =
     offer scheduler CAP_SCHEDULER [''sleep_ns'', ''yield_thread'']
       (offer clock CAP_CLOCK [''monotonic_ns''] (0, [''read_stats'']))"

interpretation services_rec: status_recorder services_record "\<lambda>_ st. st \<le> OUT_OF_MEMORY"
  by unfold_locales (auto simp: services_record_def Let_def)

lemma monotonic_ns_reading:
  assumes "monotonic_ns sv out cell cs s = ((st, cs'), cell', s')" "aligned_output out 8"
  shows "if st = OK then sv_monotonic_ns sv s = (Inr cell', s') else cell' = 0 \<and> st \<le> OUT_OF_MEMORY"
  using assms by (auto simp: monotonic_ns_def dest!: services_rec.pair split: prod.splits sum.splits)

end
