(* ===== verification/Pal_Kernel.thy ===== *)
theory Pal_Kernel
  imports Pal_Io
begin

text \<open>
  Synchronization, threads, thread-local slots, stack bounds and the process-wide barrier
  (\<open>src/src/kernel.rs\<close>). Handles are opaque addresses; an optional function pointer is an optional
  address. \<open>create\<close> and \<open>simple\<close> are the code's own helpers, \<open>kernel_record\<close> its \<open>record\<close>.
\<close>

section \<open>Constants and the provider interface\<close>

abbreviation CAP_EVENTS :: caps where "CAP_EVENTS \<equiv> 16"
abbreviation CAP_MUTEX :: caps where "CAP_MUTEX \<equiv> 32"
abbreviation CAP_THREADS :: caps where "CAP_THREADS \<equiv> 64"
abbreviation CAP_TLS :: caps where "CAP_TLS \<equiv> 128"
abbreviation CAP_STACK :: caps where "CAP_STACK \<equiv> 256"
abbreviation CAP_BARRIER :: caps where "CAP_BARRIER \<equiv> 512"

record 's kernel_provider =
  kp_event_create :: "bool \<Rightarrow> bool \<Rightarrow> 's \<Rightarrow> nat result \<times> 's"
  kp_event_destroy :: "nat \<Rightarrow> 's \<Rightarrow> unit result \<times> 's"
  kp_event_set :: "nat \<Rightarrow> 's \<Rightarrow> unit result \<times> 's"
  kp_event_reset :: "nat \<Rightarrow> 's \<Rightarrow> unit result \<times> 's"
  kp_event_wait :: "nat \<Rightarrow> nat \<Rightarrow> 's \<Rightarrow> unit result \<times> 's"
  kp_mutex_create :: "bool \<Rightarrow> 's \<Rightarrow> nat result \<times> 's"
  kp_mutex_destroy :: "nat \<Rightarrow> 's \<Rightarrow> unit result \<times> 's"
  kp_mutex_lock :: "nat \<Rightarrow> 's \<Rightarrow> unit result \<times> 's"
  kp_mutex_unlock :: "nat \<Rightarrow> 's \<Rightarrow> unit result \<times> 's"
  kp_thread_create :: "nat \<Rightarrow> nat \<Rightarrow> nat \<Rightarrow> 's \<Rightarrow> nat result \<times> 's"
  kp_thread_join :: "nat \<Rightarrow> 's \<Rightarrow> unit result \<times> 's"
  kp_thread_detach :: "nat \<Rightarrow> 's \<Rightarrow> unit result \<times> 's"
  kp_tls_create :: "nat option \<Rightarrow> 's \<Rightarrow> nat result \<times> 's"
  kp_tls_destroy :: "nat \<Rightarrow> 's \<Rightarrow> unit result \<times> 's"
  kp_tls_get :: "nat \<Rightarrow> 's \<Rightarrow> nat result \<times> 's"
  kp_tls_set :: "nat \<Rightarrow> nat \<Rightarrow> 's \<Rightarrow> unit result \<times> 's"
  kp_stack_current :: "'s \<Rightarrow> (nat \<times> nat) result \<times> 's"
  kp_barrier :: "'s \<Rightarrow> unit result \<times> 's"

section \<open>Entry points\<close>

definition kernel_record :: recorder where
  "kernel_record st counter cs =
     (let st = (if st \<le> BUSY then st else OS_ERROR);
          st = (if st = TIMEOUT \<and> counter \<noteq> 1 \<or> st = BUSY \<and> counter \<noteq> 11 then OS_ERROR else st)
      in (st, bump (if st = OK then counter else if st = TIMEOUT then 2 else 11) cs))"

definition kernel_create ::
  "nat \<Rightarrow> nat \<Rightarrow> nat \<Rightarrow> ('s \<Rightarrow> nat result \<times> 's) \<Rightarrow> counters \<Rightarrow> 's \<Rightarrow> (nat \<times> counters) \<times> nat \<times> 's" where
  "kernel_create out cell counter operation cs s =
     (if \<not> aligned_output out 8 then (kernel_record INVALID_ARGUMENT counter cs, cell, s)
      else let (r, s') = operation s;
               (st, cell') = (case r of Inr handle \<Rightarrow> if handle = 0 then (OS_ERROR, 0) else (OK, handle)
                              | Inl e \<Rightarrow> (status e, 0));
               st = (if OUT_OF_MEMORY < st then OS_ERROR else st)
           in (kernel_record st counter cs, cell', s'))"

definition event_create ::
  "'s kernel_provider \<Rightarrow> nat \<Rightarrow> nat \<Rightarrow> nat \<Rightarrow> nat \<Rightarrow> counters \<Rightarrow> 's \<Rightarrow> (nat \<times> counters) \<times> nat \<times> 's" where
  "event_create kp manual initial out cell =
     kernel_create out cell 0 (\<lambda>s.
       if 1 < manual \<or> 1 < initial then (Inl InvalidArgument, s)
       else kp_event_create kp (manual \<noteq> 0) (initial \<noteq> 0) s)"

definition mutex_create ::
  "'s kernel_provider \<Rightarrow> nat \<Rightarrow> nat \<Rightarrow> nat \<Rightarrow> counters \<Rightarrow> 's \<Rightarrow> (nat \<times> counters) \<times> nat \<times> 's" where
  "mutex_create kp recursive out cell =
     kernel_create out cell 4 (\<lambda>s.
       if 1 < recursive then (Inl InvalidArgument, s) else kp_mutex_create kp (recursive \<noteq> 0) s)"

definition thread_create ::
  "'s kernel_provider \<Rightarrow> nat option \<Rightarrow> nat \<Rightarrow> nat \<Rightarrow> nat \<Rightarrow> nat \<Rightarrow> counters \<Rightarrow> 's \<Rightarrow> (nat \<times> counters) \<times> nat \<times> 's" where
  "thread_create kp entry arg stack out cell =
     kernel_create out cell 6 (\<lambda>s.
       case entry of
         None \<Rightarrow> (Inl InvalidArgument, s)
       | Some entry \<Rightarrow>
           if ISIZE_MAX < stack then (Inl InvalidArgument, s) else kp_thread_create kp entry arg stack s)"

definition tls_create ::
  "'s kernel_provider \<Rightarrow> nat option \<Rightarrow> nat \<Rightarrow> nat \<Rightarrow> counters \<Rightarrow> 's \<Rightarrow> (nat \<times> counters) \<times> nat \<times> 's" where
  "tls_create kp dtor out cell = kernel_create out cell 7 (kp_tls_create kp dtor)"

text \<open>A success of \<open>simple\<close> is not counted; its failures are.\<close>

definition kernel_simple ::
  "nat \<Rightarrow> (nat \<Rightarrow> 's \<Rightarrow> unit result \<times> 's) \<Rightarrow> counters \<Rightarrow> 's \<Rightarrow> (nat \<times> counters) \<times> 's" where
  "kernel_simple handle operation cs s =
     (if handle = 0 then (kernel_record INVALID_ARGUMENT 11 cs, s)
      else case operation handle s of
          (Inr _, s') \<Rightarrow> ((OK, cs), s')
        | (Inl e, s') \<Rightarrow> (kernel_record (status e) 11 cs, s'))"

definition event_destroy :: "'s kernel_provider \<Rightarrow> nat \<Rightarrow> counters \<Rightarrow> 's \<Rightarrow> (nat \<times> counters) \<times> 's" where
  "event_destroy kp h = kernel_simple h (kp_event_destroy kp)"

definition event_reset :: "'s kernel_provider \<Rightarrow> nat \<Rightarrow> counters \<Rightarrow> 's \<Rightarrow> (nat \<times> counters) \<times> 's" where
  "event_reset kp h = kernel_simple h (kp_event_reset kp)"

definition mutex_destroy :: "'s kernel_provider \<Rightarrow> nat \<Rightarrow> counters \<Rightarrow> 's \<Rightarrow> (nat \<times> counters) \<times> 's" where
  "mutex_destroy kp h = kernel_simple h (kp_mutex_destroy kp)"

definition mutex_unlock :: "'s kernel_provider \<Rightarrow> nat \<Rightarrow> counters \<Rightarrow> 's \<Rightarrow> (nat \<times> counters) \<times> 's" where
  "mutex_unlock kp h = kernel_simple h (kp_mutex_unlock kp)"

definition thread_join :: "'s kernel_provider \<Rightarrow> nat \<Rightarrow> counters \<Rightarrow> 's \<Rightarrow> (nat \<times> counters) \<times> 's" where
  "thread_join kp h = kernel_simple h (kp_thread_join kp)"

definition thread_detach :: "'s kernel_provider \<Rightarrow> nat \<Rightarrow> counters \<Rightarrow> 's \<Rightarrow> (nat \<times> counters) \<times> 's" where
  "thread_detach kp h = kernel_simple h (kp_thread_detach kp)"

definition tls_destroy :: "'s kernel_provider \<Rightarrow> nat \<Rightarrow> counters \<Rightarrow> 's \<Rightarrow> (nat \<times> counters) \<times> 's" where
  "tls_destroy kp h = kernel_simple h (kp_tls_destroy kp)"

definition event_set :: "'s kernel_provider \<Rightarrow> nat \<Rightarrow> counters \<Rightarrow> 's \<Rightarrow> (nat \<times> counters) \<times> 's" where
  "event_set kp h cs s =
     (if h = 0 then (kernel_record INVALID_ARGUMENT 3 cs, s)
      else record_done kernel_record 3 cs (kp_event_set kp h s))"

definition mutex_lock :: "'s kernel_provider \<Rightarrow> nat \<Rightarrow> counters \<Rightarrow> 's \<Rightarrow> (nat \<times> counters) \<times> 's" where
  "mutex_lock kp h cs s =
     (if h = 0 then (kernel_record INVALID_ARGUMENT 5 cs, s)
      else record_done kernel_record 5 cs (kp_mutex_lock kp h s))"

definition event_wait :: "'s kernel_provider \<Rightarrow> nat \<Rightarrow> nat \<Rightarrow> counters \<Rightarrow> 's \<Rightarrow> (nat \<times> counters) \<times> 's" where
  "event_wait kp h timeout_ns cs s =
     (if h = 0 then (kernel_record INVALID_ARGUMENT 1 cs, s)
      else record_done kernel_record 1 cs (kp_event_wait kp h timeout_ns s))"

definition tls_set :: "'s kernel_provider \<Rightarrow> nat \<Rightarrow> nat \<Rightarrow> counters \<Rightarrow> 's \<Rightarrow> (nat \<times> counters) \<times> 's" where
  "tls_set kp h value cs s =
     (if h = 0 then (kernel_record INVALID_ARGUMENT 8 cs, s)
      else record_done kernel_record 8 cs (kp_tls_set kp h value s))"

definition tls_get :: "'s kernel_provider \<Rightarrow> nat \<Rightarrow> nat \<Rightarrow> nat \<Rightarrow> counters \<Rightarrow> 's \<Rightarrow> (nat \<times> counters) \<times> nat \<times> 's" where
  "tls_get kp h out cell cs s =
     (if \<not> aligned_output out 8 then (kernel_record INVALID_ARGUMENT 11 cs, cell, s)
      else if h = 0 then (kernel_record INVALID_ARGUMENT 11 cs, 0, s)
      else case kp_tls_get kp h s of
          (Inr value, s') \<Rightarrow> ((OK, cs), value, s')
        | (Inl e, s') \<Rightarrow> (kernel_record (status e) 11 cs, 0, s'))"

definition stack_bounds ::
  "'s kernel_provider \<Rightarrow> nat \<Rightarrow> nat \<Rightarrow> nat \<times> nat \<Rightarrow> counters \<Rightarrow> 's \<Rightarrow> (nat \<times> counters) \<times> (nat \<times> nat) \<times> 's" where
  "stack_bounds kp low high cells cs s =
     (if \<not> aligned_output low 8 \<or> \<not> aligned_output high 8 \<or> low = high
      then (kernel_record INVALID_ARGUMENT 9 cs, cells, s)
      else case kp_stack_current kp s of
          (Inr (lo, hi), s') \<Rightarrow>
            if lo = 0 \<or> hi \<le> lo then (kernel_record OS_ERROR 9 cs, (0, 0), s')
            else (kernel_record OK 9 cs, (lo, hi), s')
        | (Inl e, s') \<Rightarrow> (kernel_record (status e) 9 cs, (0, 0), s'))"

definition process_barrier :: "'s kernel_provider \<Rightarrow> counters \<Rightarrow> 's \<Rightarrow> (nat \<times> counters) \<times> 's" where
  "process_barrier kp cs s = record_done kernel_record 10 cs (kp_barrier kp s)"

definition kernel_read_stats :: "nat \<Rightarrow> nat \<Rightarrow> counters \<Rightarrow> counters \<Rightarrow> nat \<times> counters" where
  "kernel_read_stats out sz cell cs =
     (if \<not> aligned_output out 8 \<or> sz < 96 then (INVALID_ARGUMENT, cell) else (OK, cs))"

definition kernel_negotiate :: "bool \<Rightarrow> bool \<Rightarrow> bool \<Rightarrow> bool \<Rightarrow> bool \<Rightarrow> bool \<Rightarrow> bool \<Rightarrow> caps \<times> ops" where
  "kernel_negotiate events mutexes threads tls stack barrier available =
     offer (barrier \<and> available) CAP_BARRIER [''process_barrier'']
       (offer stack CAP_STACK [''stack_bounds'']
       (offer tls CAP_TLS [''tls_create'', ''tls_destroy'', ''tls_get'', ''tls_set'']
       (offer threads CAP_THREADS [''thread_create'', ''thread_join'', ''thread_detach'']
       (offer mutexes CAP_MUTEX [''mutex_create'', ''mutex_destroy'', ''mutex_lock'', ''mutex_unlock'']
       (offer events CAP_EVENTS [''event_create'', ''event_destroy'', ''event_set'', ''event_reset'', ''event_wait'']
         (0, [''read_stats'']))))))"

section \<open>Facts\<close>

definition kernel_published :: "nat \<Rightarrow> nat \<Rightarrow> bool" where
  "kernel_published i st \<longleftrightarrow> st \<le> BUSY \<and> (st = TIMEOUT \<longrightarrow> i = 1) \<and> (st = BUSY \<longrightarrow> i = 11)"

interpretation kernel_rec: status_recorder kernel_record kernel_published
  by unfold_locales (auto simp: kernel_record_def kernel_published_def Let_def)

text \<open>Whatever the provider answers, a created handle is there exactly when the call is OK.\<close>

lemma kernel_create_contract:
  assumes "kernel_create out cell counter operation cs s = ((st, cs'), cell', s')" "aligned_output out 8"
  shows "(st = OK \<longleftrightarrow> cell' \<noteq> 0) \<and> st \<le> OUT_OF_MEMORY"
proof -
  obtain r t where "operation s = (r, t)" by fastforce
  then show ?thesis using assms
    by (cases r) (auto simp: kernel_create_def Let_def kernel_record_def split: if_splits)
qed

lemma kernel_simple_contract:
  assumes "kernel_simple h operation cs s = ((st, cs'), s')"
  shows "st \<noteq> TIMEOUT \<and> st \<le> BUSY \<and> (st = OK \<longleftrightarrow> h \<noteq> 0 \<and> operation h s = (Inr (), s') \<and> cs' = cs)"
  using assms
  by (auto simp: kernel_simple_def kernel_published_def dest!: kernel_rec.pair split: if_splits prod.splits sum.splits)

lemma event_wait_contract:
  assumes "event_wait kp h timeout_ns cs s = ((st, cs'), s')"
  shows "st \<noteq> BUSY \<and> st \<le> BUSY
    \<and> (st = OK \<longleftrightarrow> h \<noteq> 0 \<and> fst (kp_event_wait kp h timeout_ns s) = Inr ())
    \<and> (st = TIMEOUT \<longleftrightarrow> h \<noteq> 0 \<and> fst (kp_event_wait kp h timeout_ns s) = Inl Timeout)"
proof -
  obtain r t where "kp_event_wait kp h timeout_ns s = (r, t)" by fastforce
  then show ?thesis using assms
    by (cases r; cases "projl r") (auto simp: event_wait_def record_done_def kernel_record_def Let_def split: if_splits)
qed

end
