(* ===== verification/Pal_Runtime.thy ===== *)
theory Pal_Runtime
  imports Pal_Io
begin

text \<open>
  Runtime services (\<open>src/src/runtime.rs\<close>): environment lookup, identities, wall clock, entropy, native
  mappings and modules. The bytes behind a name pointer and the buffer behind an output pointer are
  passed next to the address; an output buffer is returned as the call leaves it.
\<close>

section \<open>Constants, data and the provider interface\<close>

abbreviation CAP_ENVIRONMENT :: caps where "CAP_ENVIRONMENT \<equiv> 1024"
abbreviation CAP_IDENTITY :: caps where "CAP_IDENTITY \<equiv> 2048"
abbreviation CAP_REALTIME :: caps where "CAP_REALTIME \<equiv> 4096"
abbreviation CAP_ENTROPY :: caps where "CAP_ENTROPY \<equiv> 8192"
abbreviation CAP_NATIVE_MEMORY :: caps where "CAP_NATIVE_MEMORY \<equiv> 16384"
abbreviation CAP_MODULES :: caps where "CAP_MODULES \<equiv> 32768"

text \<open>\<open>Lookup\<close> of \<open>src/src/port.rs\<close>.\<close>

datatype lookup = Copied nat | TooSmall nat

record module_info =
  mi_base :: nat
  mi_name :: nat
  mi_name_length :: nat

definition EMPTY_MODULE :: module_info where
  "EMPTY_MODULE = \<lparr>mi_base = 0, mi_name = 0, mi_name_length = 0\<rparr>"

record 's runtime_provider =
  rp_environment_get :: "byte list \<Rightarrow> byte list \<Rightarrow> 's \<Rightarrow> lookup result \<times> byte list \<times> 's"
  rp_process_id :: "'s \<Rightarrow> nat result \<times> 's"
  rp_thread_id :: "'s \<Rightarrow> nat result \<times> 's"
  rp_realtime_ns :: "'s \<Rightarrow> nat result \<times> 's"
  rp_fill :: "byte list \<Rightarrow> 's \<Rightarrow> unit result \<times> byte list \<times> 's"
  rp_page_size :: nat
  rp_map_allocate :: "nat \<Rightarrow> flags \<Rightarrow> 's \<Rightarrow> nat result \<times> 's"
  rp_map_release :: "nat \<Rightarrow> nat \<Rightarrow> 's \<Rightarrow> unit result \<times> 's"
  rp_map_protect :: "nat \<Rightarrow> nat \<Rightarrow> flags \<Rightarrow> 's \<Rightarrow> unit result \<times> 's"
  rp_module_open :: "byte list option \<Rightarrow> 's \<Rightarrow> nat result \<times> 's"
  rp_module_symbol :: "nat \<Rightarrow> byte list \<Rightarrow> 's \<Rightarrow> nat result \<times> 's"
  rp_module_close :: "nat \<Rightarrow> 's \<Rightarrow> unit result \<times> 's"
  rp_module_info :: "nat \<Rightarrow> 's \<Rightarrow> module_info result \<times> 's"

section \<open>Checks\<close>

definition runtime_record :: recorder where
  "runtime_record st index cs =
     (let st =
        (if st \<in> {OK, UNSUPPORTED, INVALID_ARGUMENT, OS_ERROR, OUT_OF_MEMORY} then st
         else if st \<in> {BUFFER_TOO_SMALL, NOT_FOUND} \<and> index = 0 then st
         else if st = NOT_FOUND \<and> (index = 7 \<or> index = 8 \<or> index = 10) then st
         else OS_ERROR)
      in (st, bump (if st = OK then index else 11) cs))"

definition valid_name :: "nat \<Rightarrow> nat \<Rightarrow> byte list \<Rightarrow> bool \<Rightarrow> byte list option" where
  "valid_name nm len bytes environment =
     (if nm = 0 \<or> len = 0 \<or> MAX_NAME < len \<or> checked_add nm len = None then None
      else if 0 \<notin> set bytes \<and> (\<not> environment \<or> 61 \<notin> set bytes) then Some bytes else None)"

text \<open>\<open>unit\<close> and \<open>align\<close> are the size and the alignment of the element type.\<close>

definition runtime_valid_buffer :: "nat \<Rightarrow> nat \<Rightarrow> nat \<Rightarrow> nat \<Rightarrow> bool" where
  "runtime_valid_buffer unit align p elements \<longleftrightarrow>
     elements \<le> ISIZE_MAX div max unit 1
     \<and> (elements = 0 \<or> aligned_output p align \<and> checked_add p (elements * unit) \<noteq> None)"

section \<open>Entry points\<close>

definition environment_get ::
  "'s runtime_provider \<Rightarrow> nat \<Rightarrow> nat \<Rightarrow> byte list \<Rightarrow> nat \<Rightarrow> byte list \<Rightarrow> nat \<Rightarrow> nat \<Rightarrow> counters \<Rightarrow> 's
     \<Rightarrow> (nat \<times> counters) \<times> nat \<times> byte list \<times> 's" where
  "environment_get rp nm len bytes out buf required cell cs s =
     (let capacity = length buf in
      if \<not> aligned_output required 8 \<or> \<not> runtime_valid_buffer 1 1 out capacity
      then (runtime_record INVALID_ARGUMENT 0 cs, cell, buf, s)
      else let buf = buf[0 := 0] in
        case valid_name nm len bytes True of
          None \<Rightarrow> (runtime_record INVALID_ARGUMENT 0 cs, 0, buf, s)
        | Some n \<Rightarrow>
            let (answer, left, s') = rp_environment_get rp n buf s;
                (st, required') =
                  (case answer of
                     Inr (Copied needed) \<Rightarrow>
                       if needed = 0 \<or> capacity < needed \<or> ISIZE_MAX < needed \<or> left ! (needed - 1) \<noteq> 0
                       then (OS_ERROR, 0) else (OK, needed)
                   | Inr (TooSmall needed) \<Rightarrow>
                       if needed = 0 \<or> needed \<le> capacity \<or> ISIZE_MAX < needed
                       then (OS_ERROR, 0) else (BUFFER_TOO_SMALL, needed)
                   | Inl e \<Rightarrow> (status e, 0))
            in (runtime_record st 0 cs, required', if st \<noteq> OK then left[0 := 0] else left, s'))"

definition runtime_scalar :: "nat \<Rightarrow> nat \<Rightarrow> bool \<Rightarrow> nat result \<Rightarrow> counters \<Rightarrow> nat \<Rightarrow> (nat \<times> counters) \<times> nat" where
  "runtime_scalar out index nonzero value cs cell =
     (if \<not> aligned_output out 8 then (runtime_record INVALID_ARGUMENT index cs, cell)
      else case value of
          Inr v \<Rightarrow> if v = 0 \<and> nonzero then (runtime_record OS_ERROR index cs, 0)
                   else (runtime_record OK index cs, v)
        | Inl e \<Rightarrow> (runtime_record (status e) index cs, 0))"

definition process_id :: "'s runtime_provider \<Rightarrow> nat \<Rightarrow> nat \<Rightarrow> counters \<Rightarrow> 's \<Rightarrow> (nat \<times> counters) \<times> nat \<times> 's" where
  "process_id rp out cell cs s =
     (if \<not> aligned_output out 8 then (runtime_record INVALID_ARGUMENT 1 cs, cell, s)
      else let (value, s') = rp_process_id rp s; (done, cell') = runtime_scalar out 1 True value cs cell
           in (done, cell', s'))"

definition thread_id :: "'s runtime_provider \<Rightarrow> nat \<Rightarrow> nat \<Rightarrow> counters \<Rightarrow> 's \<Rightarrow> (nat \<times> counters) \<times> nat \<times> 's" where
  "thread_id rp out cell cs s =
     (if \<not> aligned_output out 8 then (runtime_record INVALID_ARGUMENT 1 cs, cell, s)
      else let (value, s') = rp_thread_id rp s; (done, cell') = runtime_scalar out 1 True value cs cell
           in (done, cell', s'))"

definition realtime_ns :: "'s runtime_provider \<Rightarrow> nat \<Rightarrow> nat \<Rightarrow> counters \<Rightarrow> 's \<Rightarrow> (nat \<times> counters) \<times> nat \<times> 's" where
  "realtime_ns rp out cell cs s =
     (if \<not> aligned_output out 8 then (runtime_record INVALID_ARGUMENT 2 cs, cell, s)
      else let (value, s') = rp_realtime_ns rp s; (done, cell') = runtime_scalar out 2 False value cs cell
           in (done, cell', s'))"

definition random_bytes ::
  "'s runtime_provider \<Rightarrow> nat \<Rightarrow> byte list \<Rightarrow> counters \<Rightarrow> 's \<Rightarrow> (nat \<times> counters) \<times> byte list \<times> 's" where
  "random_bytes rp out buf cs s =
     (let sz = length buf in
      if \<not> runtime_valid_buffer 1 1 out sz then (runtime_record INVALID_ARGUMENT 3 cs, buf, s)
      else if sz = 0 then (runtime_record OK 3 cs, buf, s)
      else let (r, left, s') = rp_fill rp buf s; st = port_status r
           in (runtime_record st 3 cs, if st \<noteq> OK then replicate sz 0 else left, s'))"

definition mapping_allocate ::
  "'s runtime_provider \<Rightarrow> nat \<Rightarrow> flags \<Rightarrow> nat \<Rightarrow> nat \<Rightarrow> counters \<Rightarrow> 's \<Rightarrow> (nat \<times> counters) \<times> nat \<times> 's" where
  "mapping_allocate rp sz protection out cell cs s =
     (if \<not> aligned_output out 8 then (runtime_record INVALID_ARGUMENT 4 cs, cell, s)
      else if sz = 0 \<or> ISIZE_MAX < sz \<or> protection AND NOT 7 \<noteq> 0 then (runtime_record INVALID_ARGUMENT 4 cs, 0, s)
      else case rp_map_allocate rp sz protection s of
          (Inr value, s') \<Rightarrow>
            let page = rp_page_size rp in
            if value = 0 \<or> \<not> is_power_of_two page \<or> value mod page \<noteq> 0 \<or> checked_add value sz = None
            then (runtime_record OS_ERROR 4 cs, 0, s')
            else (runtime_record OK 4 cs, value, s')
        | (Inl e, s') \<Rightarrow> (runtime_record (status e) 4 cs, 0, s'))"

definition mapping_release :: "'s runtime_provider \<Rightarrow> nat \<Rightarrow> nat \<Rightarrow> counters \<Rightarrow> 's \<Rightarrow> (nat \<times> counters) \<times> 's" where
  "mapping_release rp address sz cs s =
     (if address = 0 \<or> sz = 0 \<or> \<not> runtime_valid_buffer 1 1 address sz then (runtime_record INVALID_ARGUMENT 5 cs, s)
      else record_done runtime_record 5 cs (rp_map_release rp address sz s))"

definition mapping_protect :: "'s runtime_provider \<Rightarrow> nat \<Rightarrow> nat \<Rightarrow> flags \<Rightarrow> counters \<Rightarrow> 's \<Rightarrow> (nat \<times> counters) \<times> 's" where
  "mapping_protect rp address sz protection cs s =
     (if address = 0 \<or> sz = 0 \<or> \<not> runtime_valid_buffer 1 1 address sz \<or> protection AND NOT 7 \<noteq> 0
      then (runtime_record INVALID_ARGUMENT 6 cs, s)
      else record_done runtime_record 6 cs (rp_map_protect rp address sz protection s))"

definition module_open ::
  "'s runtime_provider \<Rightarrow> nat \<Rightarrow> nat \<Rightarrow> byte list \<Rightarrow> nat \<Rightarrow> nat \<Rightarrow> counters \<Rightarrow> 's \<Rightarrow> (nat \<times> counters) \<times> nat \<times> 's" where
  "module_open rp nm len bytes out cell cs s =
     (if \<not> aligned_output out 8 then (runtime_record INVALID_ARGUMENT 7 cs, cell, s)
      else case (if nm = 0 \<and> len = 0 then Some None else map_option Some (valid_name nm len bytes False)) of
          None \<Rightarrow> (runtime_record INVALID_ARGUMENT 7 cs, 0, s)
        | Some n \<Rightarrow>
            (case rp_module_open rp n s of
               (Inr handle, s') \<Rightarrow>
                 if handle = 0 then (runtime_record OS_ERROR 7 cs, 0, s') else (runtime_record OK 7 cs, handle, s')
             | (Inl e, s') \<Rightarrow> (runtime_record (status e) 7 cs, 0, s')))"

definition module_symbol ::
  "'s runtime_provider \<Rightarrow> nat \<Rightarrow> nat \<Rightarrow> nat \<Rightarrow> byte list \<Rightarrow> nat \<Rightarrow> nat \<Rightarrow> counters \<Rightarrow> 's \<Rightarrow> (nat \<times> counters) \<times> nat \<times> 's" where
  "module_symbol rp handle nm len bytes out cell cs s =
     (if \<not> aligned_output out 8 then (runtime_record INVALID_ARGUMENT 8 cs, cell, s)
      else if handle = 0 then (runtime_record INVALID_ARGUMENT 8 cs, 0, s)
      else case valid_name nm len bytes False of
          None \<Rightarrow> (runtime_record INVALID_ARGUMENT 8 cs, 0, s)
        | Some n \<Rightarrow>
            (case rp_module_symbol rp handle n s of
               (Inr value, s') \<Rightarrow> (runtime_record OK 8 cs, value, s')
             | (Inl e, s') \<Rightarrow> (runtime_record (status e) 8 cs, 0, s')))"

definition module_close :: "'s runtime_provider \<Rightarrow> nat \<Rightarrow> counters \<Rightarrow> 's \<Rightarrow> (nat \<times> counters) \<times> 's" where
  "module_close rp handle cs s =
     (if handle = 0 then (runtime_record INVALID_ARGUMENT 9 cs, s)
      else record_done runtime_record 9 cs (rp_module_close rp handle s))"

definition module_broken :: "module_info \<Rightarrow> bool" where
  "module_broken m \<longleftrightarrow> mi_base m = 0 \<or> mi_name m = 0 \<or> ISIZE_MAX < mi_name_length m
     \<or> checked_add (mi_name m) (mi_name_length m) = None"

definition module_info_of ::
  "'s runtime_provider \<Rightarrow> nat \<Rightarrow> nat \<Rightarrow> module_info \<Rightarrow> counters \<Rightarrow> 's \<Rightarrow> (nat \<times> counters) \<times> module_info \<times> 's" where
  "module_info_of rp address out cell cs s =
     (if \<not> aligned_output out 8 then (runtime_record INVALID_ARGUMENT 10 cs, cell, s)
      else if address = 0 then (runtime_record INVALID_ARGUMENT 10 cs, EMPTY_MODULE, s)
      else case rp_module_info rp address s of
          (Inr m, s') \<Rightarrow>
            if module_broken m then (runtime_record OS_ERROR 10 cs, EMPTY_MODULE, s')
            else (runtime_record OK 10 cs, m, s')
        | (Inl e, s') \<Rightarrow> (runtime_record (status e) 10 cs, EMPTY_MODULE, s'))"

definition runtime_read_stats :: "nat \<Rightarrow> nat \<Rightarrow> counters \<Rightarrow> counters \<Rightarrow> nat \<times> counters" where
  "runtime_read_stats out sz cell cs =
     (if \<not> aligned_output out 8 \<or> sz < 96 then (INVALID_ARGUMENT, cell) else (OK, cs))"

definition runtime_negotiate :: "bool \<Rightarrow> bool \<Rightarrow> bool \<Rightarrow> bool \<Rightarrow> bool \<Rightarrow> bool \<Rightarrow> caps \<times> ops" where
  "runtime_negotiate environment identity realtime entropy native_mapping modules =
     offer modules CAP_MODULES [''module_open'', ''module_symbol'', ''module_close'', ''module_info'']
       (offer native_mapping CAP_NATIVE_MEMORY [''mapping_allocate'', ''mapping_release'', ''mapping_protect'']
       (offer entropy CAP_ENTROPY [''random_bytes'']
       (offer realtime CAP_REALTIME [''realtime_ns'']
       (offer identity CAP_IDENTITY [''process_id'', ''thread_id'']
       (offer environment CAP_ENVIRONMENT [''environment_get''] (0, [''read_stats'']))))))"

section \<open>Facts\<close>

definition runtime_published :: "nat \<Rightarrow> nat \<Rightarrow> bool" where
  "runtime_published i st \<longleftrightarrow>
     st \<in> {OK, UNSUPPORTED, INVALID_ARGUMENT, OS_ERROR, OUT_OF_MEMORY} \<or> st = BUFFER_TOO_SMALL \<and> i = 0
     \<or> st = NOT_FOUND \<and> i \<in> {0, 7, 8, 10}"

interpretation runtime_rec: status_recorder runtime_record runtime_published
  by unfold_locales (auto simp: runtime_record_def runtime_published_def Let_def)

text \<open>
  The environment lookup, whatever the provider does: OK means a NUL-terminated value whose length
  counts the NUL and fits the buffer; BUFFER_TOO_SMALL comes with a length that does not fit, or with
  none when the provider itself answered \<open>Err(BufferTooSmall)\<close>; in every other case the length is
  zero, and a failed call leaves an empty string in a non-empty buffer.
\<close>

lemma environment_get_contract:
  assumes "environment_get rp nm len bytes out buf required cell cs s = ((st, cs'), needed, buf', s')"
    and "aligned_output required 8" "runtime_valid_buffer 1 1 out (length buf)"
    and "\<And>n b t. length (fst (snd (rp_environment_get rp n b t))) = length b"
  shows "runtime_published 0 st \<and> length buf' = length buf
    \<and> (st = OK \<longrightarrow> 0 < needed \<and> needed \<le> length buf \<and> buf' ! (needed - 1) = 0)
    \<and> (st = BUFFER_TOO_SMALL \<longrightarrow> length buf < needed \<or> needed = 0)
    \<and> (st \<noteq> OK \<and> st \<noteq> BUFFER_TOO_SMALL \<longrightarrow> needed = 0)
    \<and> (st \<noteq> OK \<and> buf \<noteq> [] \<longrightarrow> buf' ! 0 = 0)"
proof (cases "valid_name nm len bytes True")
  case None
  then show ?thesis using assms(1-3)
    by (auto simp: environment_get_def Let_def runtime_published_def dest!: runtime_rec.pair)
next
  case (Some n)
  obtain r left t where c: "rp_environment_get rp n (buf[0 := 0]) s = (r, left, t)" by (metis prod_cases3)
  then have l: "length left = length buf" using assms(4) [of n "buf[0 := 0]" s] by simp
  show ?thesis
  proof (cases r)
    case (Inl e)
    then show ?thesis using Some c l assms(1-3)
      by (auto simp: environment_get_def Let_def dest!: runtime_rec.pair)
  next
    case (Inr x)
    then show ?thesis using Some c l assms(1-3)
      by (cases x) (auto simp: environment_get_def Let_def runtime_published_def dest!: runtime_rec.pair split: if_splits)
  qed
qed

text \<open>Entropy is all or nothing: a call that is not OK leaves zeroes, never a partial fill.\<close>

lemma random_bytes_contract:
  assumes "random_bytes rp out buf cs s = ((st, cs'), buf', s')" "runtime_valid_buffer 1 1 out (length buf)"
  shows "if st = OK then buf = [] \<and> buf' = [] \<or> rp_fill rp buf s = (Inr (), buf', s')
         else buf' = replicate (length buf) 0"
proof -
  obtain r left t where "rp_fill rp buf s = (r, left, t)" by (metis prod_cases3)
  then show ?thesis using assms
    by (cases r) (auto simp: random_bytes_def Let_def dest!: runtime_rec.pair split: if_splits)
qed

lemma mapping_allocate_contract:
  assumes "mapping_allocate rp sz protection out cell cs s = ((st, cs'), cell', s')" "aligned_output out 8"
  shows "if st = OK then cell' \<noteq> 0 \<and> rp_page_size rp dvd cell' \<and> cell' + sz \<le> USIZE_MAX else cell' = 0"
proof -
  obtain r t where "rp_map_allocate rp sz protection s = (r, t)" by fastforce
  then show ?thesis using assms
    by (cases r) (auto simp: mapping_allocate_def Let_def checked_add_def dest!: runtime_rec.pair split: if_splits)
qed

end
