(* ===== verification/Pal_Support.thy ===== *)
theory Pal_Support
  imports Pal_Io
begin

text \<open>
  Native helper resources (\<open>src/src/support.rs\<close>): the helper heap, reader/writer locks, thread names
  and fatal diagnostics.
\<close>

abbreviation CAP_HEAP :: caps where "CAP_HEAP \<equiv> 524288"
abbreviation CAP_RWLOCK :: caps where "CAP_RWLOCK \<equiv> 1048576"
abbreviation CAP_NAME :: caps where "CAP_NAME \<equiv> 2097152"
abbreviation CAP_DIAGNOSTICS :: caps where "CAP_DIAGNOSTICS \<equiv> 4194304"

record 's support_provider =
  hp_allocate :: "nat \<Rightarrow> bool \<Rightarrow> 's \<Rightarrow> nat result \<times> 's"
  hp_resize :: "nat \<Rightarrow> nat \<Rightarrow> 's \<Rightarrow> nat result \<times> 's"
  hp_release :: "nat \<Rightarrow> 's \<Rightarrow> unit result \<times> 's"
  hp_rw_create :: "'s \<Rightarrow> nat result \<times> 's"
  hp_rw_read :: "nat \<Rightarrow> 's \<Rightarrow> unit result \<times> 's"
  hp_rw_write :: "nat \<Rightarrow> 's \<Rightarrow> unit result \<times> 's"
  hp_rw_unlock :: "nat \<Rightarrow> 's \<Rightarrow> unit result \<times> 's"
  hp_rw_destroy :: "nat \<Rightarrow> 's \<Rightarrow> unit result \<times> 's"
  hp_write_stderr :: "nat \<Rightarrow> byte list \<Rightarrow> 's \<Rightarrow> (nat \<times> error + unit) \<times> 's"
  hp_thread_name :: "byte list \<Rightarrow> 's \<Rightarrow> unit result \<times> 's"

definition support_record :: recorder where
  "support_record st index cs =
     (let st =
        (if st \<in> {OK, INVALID_ARGUMENT, OS_ERROR, OUT_OF_MEMORY, UNSUPPORTED} then st
         else if st = BUSY \<and> index = 7 then st
         else OS_ERROR)
      in (st, bump (if st = OK then index else 10) cs))"

definition size_ok :: "nat \<Rightarrow> bool" where
  "size_ok sz \<longleftrightarrow> sz \<noteq> 0 \<and> sz \<le> ISIZE_MAX"

text \<open>\<open>accept\<close>: the status and what is left in the output cell, which holds NULL.\<close>

definition accept :: "nat result \<Rightarrow> nat \<Rightarrow> nat \<times> nat" where
  "accept r sz =
     (case r of
        Inr p \<Rightarrow> if p = 0 \<or> p mod 8 \<noteq> 0 \<or> checked_add p sz = None then (OS_ERROR, 0) else (OK, p)
      | Inl e \<Rightarrow> (status e, 0))"

definition heap_allocate ::
  "'s support_provider \<Rightarrow> nat \<Rightarrow> nat \<Rightarrow> nat \<Rightarrow> nat \<Rightarrow> counters \<Rightarrow> 's \<Rightarrow> (nat \<times> counters) \<times> nat \<times> 's" where
  "heap_allocate hp sz zero out cell cs s =
     (if \<not> aligned_output out 8 then (support_record INVALID_ARGUMENT 0 cs, cell, s)
      else if \<not> size_ok sz \<or> 1 < zero then (support_record INVALID_ARGUMENT 0 cs, 0, s)
      else let (r, s') = hp_allocate hp sz (zero \<noteq> 0) s; (st, cell') = accept r sz
           in (support_record st 0 cs, cell', s'))"

definition heap_resize ::
  "'s support_provider \<Rightarrow> nat \<Rightarrow> nat \<Rightarrow> nat \<Rightarrow> nat \<Rightarrow> counters \<Rightarrow> 's \<Rightarrow> (nat \<times> counters) \<times> nat \<times> 's" where
  "heap_resize hp address sz out cell cs s =
     (if \<not> aligned_output out 8 then (support_record INVALID_ARGUMENT 1 cs, cell, s)
      else if \<not> size_ok sz then (support_record INVALID_ARGUMENT 1 cs, 0, s)
      else let (r, s') = hp_resize hp address sz s; (st, cell') = accept r sz
           in (support_record st 1 cs, cell', s'))"

definition heap_release :: "'s support_provider \<Rightarrow> nat \<Rightarrow> counters \<Rightarrow> 's \<Rightarrow> (nat \<times> counters) \<times> 's" where
  "heap_release hp h cs s =
     (if h = 0 then (support_record OK 2 cs, s) else record_done support_record 2 cs (hp_release hp h s))"

definition rw_create :: "'s support_provider \<Rightarrow> nat \<Rightarrow> nat \<Rightarrow> counters \<Rightarrow> 's \<Rightarrow> (nat \<times> counters) \<times> nat \<times> 's" where
  "rw_create hp out cell cs s =
     (if \<not> aligned_output out 8 then (support_record INVALID_ARGUMENT 3 cs, cell, s)
      else case hp_rw_create hp s of
          (Inr p, s') \<Rightarrow>
            if p = 0 then (support_record OS_ERROR 3 cs, 0, s') else (support_record OK 3 cs, p, s')
        | (Inl e, s') \<Rightarrow> (support_record (status e) 3 cs, 0, s'))"

definition rw_handle_op ::
  "(nat \<Rightarrow> 's \<Rightarrow> unit result \<times> 's) \<Rightarrow> nat \<Rightarrow> nat \<Rightarrow> counters \<Rightarrow> 's \<Rightarrow> (nat \<times> counters) \<times> 's" where
  "rw_handle_op op index h cs s =
     (if h = 0 then (support_record INVALID_ARGUMENT index cs, s) else record_done support_record index cs (op h s))"

definition rw_read :: "'s support_provider \<Rightarrow> nat \<Rightarrow> counters \<Rightarrow> 's \<Rightarrow> (nat \<times> counters) \<times> 's" where
  "rw_read hp = rw_handle_op (hp_rw_read hp) 4"

definition rw_write :: "'s support_provider \<Rightarrow> nat \<Rightarrow> counters \<Rightarrow> 's \<Rightarrow> (nat \<times> counters) \<times> 's" where
  "rw_write hp = rw_handle_op (hp_rw_write hp) 5"

definition rw_unlock :: "'s support_provider \<Rightarrow> nat \<Rightarrow> counters \<Rightarrow> 's \<Rightarrow> (nat \<times> counters) \<times> 's" where
  "rw_unlock hp = rw_handle_op (hp_rw_unlock hp) 6"

definition rw_destroy :: "'s support_provider \<Rightarrow> nat \<Rightarrow> counters \<Rightarrow> 's \<Rightarrow> (nat \<times> counters) \<times> 's" where
  "rw_destroy hp = rw_handle_op (hp_rw_destroy hp) 7"

definition write_stderr ::
  "'s support_provider \<Rightarrow> nat \<Rightarrow> nat \<Rightarrow> byte list \<Rightarrow> nat \<Rightarrow> nat \<Rightarrow> counters \<Rightarrow> 's \<Rightarrow> (nat \<times> counters) \<times> nat \<times> 's" where
  "write_stderr hp data sz bytes written cell cs s =
     (if \<not> aligned_output written 8 then (support_record INVALID_ARGUMENT 8 cs, cell, s)
      else if ISIZE_MAX < sz \<or> sz \<noteq> 0 \<and> (data = 0 \<or> checked_add data sz = None)
      then (support_record INVALID_ARGUMENT 8 cs, 0, s)
      else let (done, st, s') =
                 (if sz = 0 then (0, OK, s)
                  else case hp_write_stderr hp sz bytes s of
                      (Inr _, s') \<Rightarrow> (sz, OK, s')
                    | (Inl (done, e), s') \<Rightarrow> (done, status e, s'));
               (done, st) = (if sz < done \<or> st = OK \<and> done \<noteq> sz then (0, OS_ERROR) else (done, st))
           in (support_record st 8 cs, done, s'))"

definition thread_name ::
  "'s support_provider \<Rightarrow> nat \<Rightarrow> nat \<Rightarrow> byte list \<Rightarrow> counters \<Rightarrow> 's \<Rightarrow> (nat \<times> counters) \<times> 's" where
  "thread_name hp nm len bytes cs s =
     (if nm = 0 \<or> 255 < len \<or> checked_add nm len = None then (support_record INVALID_ARGUMENT 9 cs, s)
      else if 0 \<in> set bytes then (support_record INVALID_ARGUMENT 9 cs, s)
      else record_done support_record 9 cs (hp_thread_name hp bytes s))"

definition support_read_stats :: "nat \<Rightarrow> nat \<Rightarrow> counters \<Rightarrow> counters \<Rightarrow> nat \<times> counters" where
  "support_read_stats out sz cell cs =
     (if \<not> aligned_output out 8 \<or> sz < 88 then (INVALID_ARGUMENT, cell) else (OK, cs))"

definition support_negotiate :: "bool \<Rightarrow> bool \<Rightarrow> bool \<Rightarrow> bool \<Rightarrow> caps \<times> ops" where
  "support_negotiate native_heap rw_locks thread_names diagnostics =
     offer diagnostics CAP_DIAGNOSTICS [''write_stderr'']
       (offer thread_names CAP_NAME [''thread_name'']
       (offer rw_locks CAP_RWLOCK [''rw_create'', ''rw_read'', ''rw_write'', ''rw_unlock'', ''rw_destroy'']
       (offer native_heap CAP_HEAP [''allocate'', ''resize'', ''release''] (0, [''read_stats'']))))"

definition support_published :: "nat \<Rightarrow> nat \<Rightarrow> bool" where
  "support_published i st \<longleftrightarrow>
     st \<in> {OK, INVALID_ARGUMENT, OS_ERROR, OUT_OF_MEMORY, UNSUPPORTED} \<or> st = BUSY \<and> i = 7"

interpretation support_rec: status_recorder support_record support_published
  by unfold_locales (auto simp: support_record_def support_published_def Let_def)

lemma accept_pair:
  "accept r sz = (st, p) \<Longrightarrow> if st = OK then r = Inr p \<and> p \<noteq> 0 \<and> p mod 8 = 0 \<and> p + sz \<le> USIZE_MAX else p = 0"
  by (cases r) (auto simp: accept_def checked_add_def split: if_splits)

lemma heap_allocate_contract:
  assumes "heap_allocate hp sz zero out cell cs s = ((st, cs'), p, s')" "aligned_output out 8"
  shows "if st = OK then 0 < sz \<and> hp_allocate hp sz (zero \<noteq> 0) s = (Inr p, s') \<and> p \<noteq> 0 \<and> p mod 8 = 0 \<and> p + sz \<le> USIZE_MAX
         else p = 0"
  using assms by (auto simp: heap_allocate_def size_ok_def Let_def dest!: support_rec.pair accept_pair
      split: if_splits prod.splits)

text \<open>Progress is reported exactly: OK means every byte, and no report exceeds the request.\<close>

lemma write_stderr_contract:
  assumes "write_stderr hp data sz bytes written cell cs s = ((st, cs'), done, s')" "aligned_output written 8"
  shows "done \<le> sz \<and> (st = OK \<longrightarrow> done = sz)"
  using assms by (auto simp: write_stderr_def Let_def dest!: support_rec.pair
      split: if_splits prod.splits sum.splits)

end
