(* ===== verification/Pal_Topology.thy ===== *)
theory Pal_Topology
  imports Pal_Io
begin

text \<open>
  Machine topology and memory accounting (\<open>src/src/topology.rs\<close>). Where the code evaluates the
  provider's answer as an argument (\<open>count(out, T::cpu_max(), true)\<close>), the provider runs before the
  output pointer is checked, and so it does here.
\<close>

abbreviation CAP_TOPOLOGY :: caps where "CAP_TOPOLOGY \<equiv> 8388608"
abbreviation MAX_CPUS :: nat where "MAX_CPUS \<equiv> 65535"
abbreviation MAX_CACHE_LEVEL :: nat where "MAX_CACHE_LEVEL \<equiv> 4"

record 's topology_provider =
  tp_cpu_max :: "'s \<Rightarrow> nat result \<times> 's"
  tp_cpu_count :: "'s \<Rightarrow> nat result \<times> 's"
  tp_current_cpu :: "'s \<Rightarrow> nat result \<times> 's"
  tp_process_affinity :: "byte list \<Rightarrow> 's \<Rightarrow> nat result \<times> byte list \<times> 's"
  tp_set_thread_affinity :: "nat \<Rightarrow> 's \<Rightarrow> unit result \<times> 's"
  tp_physical_memory :: "'s \<Rightarrow> (nat \<times> nat) result \<times> 's"
  tp_memory_limit :: "'s \<Rightarrow> nat result \<times> 's"
  tp_virtual_limit :: "'s \<Rightarrow> nat result \<times> 's"
  tp_cache_size :: "'s \<Rightarrow> nat result \<times> 's"
  tp_cpu_features :: "'s \<Rightarrow> (nat \<times> nat) result \<times> 's"
  tp_cache_level_size :: "nat \<Rightarrow> 's \<Rightarrow> nat result \<times> 's"
  tp_swap_memory :: "'s \<Rightarrow> (nat \<times> nat) result \<times> 's"

definition topology_record :: recorder where
  "topology_record st index cs =
     (let st =
        (if st \<in> {OK, UNSUPPORTED, INVALID_ARGUMENT, OS_ERROR} then st
         else if st = BUFFER_TOO_SMALL \<and> index = 1 then st
         else OS_ERROR)
      in (st, bump (if st = OK then index else 5) cs))"

definition topology_count :: "nat \<Rightarrow> nat \<Rightarrow> bool \<Rightarrow> counters \<Rightarrow> nat result \<times> 's \<Rightarrow> (nat \<times> counters) \<times> nat \<times> 's" where
  "topology_count out cell nonzero cs answer =
     (let (value, s) = answer in
      if \<not> aligned_output out 4 then (topology_record INVALID_ARGUMENT 0 cs, cell, s)
      else case value of
          Inr v \<Rightarrow> if nonzero \<and> v = 0 \<or> MAX_CPUS < v then (topology_record OS_ERROR 0 cs, 0, s)
                   else (topology_record OK 0 cs, v, s)
        | Inl e \<Rightarrow> (topology_record (status e) 0 cs, 0, s))"

definition cpu_max :: "'s topology_provider \<Rightarrow> nat \<Rightarrow> nat \<Rightarrow> counters \<Rightarrow> 's \<Rightarrow> (nat \<times> counters) \<times> nat \<times> 's" where
  "cpu_max tp out cell cs s = topology_count out cell True cs (tp_cpu_max tp s)"

definition cpu_count :: "'s topology_provider \<Rightarrow> nat \<Rightarrow> nat \<Rightarrow> counters \<Rightarrow> 's \<Rightarrow> (nat \<times> counters) \<times> nat \<times> 's" where
  "cpu_count tp out cell cs s = topology_count out cell True cs (tp_cpu_count tp s)"

definition current_cpu :: "'s topology_provider \<Rightarrow> nat \<Rightarrow> nat \<Rightarrow> counters \<Rightarrow> 's \<Rightarrow> (nat \<times> counters) \<times> nat \<times> 's" where
  "current_cpu tp out cell cs s = topology_count out cell False cs (tp_current_cpu tp s)"

definition process_affinity ::
  "'s topology_provider \<Rightarrow> nat \<Rightarrow> byte list \<Rightarrow> nat \<Rightarrow> nat \<Rightarrow> counters \<Rightarrow> 's
     \<Rightarrow> (nat \<times> counters) \<times> nat \<times> byte list \<times> 's" where
  "process_affinity tp bitmap buf needed cell cs s =
     (let capacity = length buf in
      if \<not> aligned_output needed 8 then (topology_record INVALID_ARGUMENT 1 cs, cell, buf, s)
      else if ISIZE_MAX < capacity \<or> capacity \<noteq> 0 \<and> (bitmap = 0 \<or> checked_add bitmap capacity = None)
      then (topology_record INVALID_ARGUMENT 1 cs, 0, buf, s)
      else let (r, left, s') = tp_process_affinity tp (replicate capacity 0) s;
               (st, needed') =
                 (case r of
                    Inr bytes \<Rightarrow>
                      if bytes = 0 then (OS_ERROR, 0)
                      else if (MAX_CPUS + 7) div 8 < bytes then (OS_ERROR, 0)
                      else (if capacity < bytes then BUFFER_TOO_SMALL else OK, bytes)
                  | Inl e \<Rightarrow> (status e, 0))
           in (topology_record st 1 cs, needed', if st \<noteq> OK then replicate capacity 0 else left, s'))"

definition set_thread_affinity :: "'s topology_provider \<Rightarrow> nat \<Rightarrow> counters \<Rightarrow> 's \<Rightarrow> (nat \<times> counters) \<times> 's" where
  "set_thread_affinity tp cpu cs s =
     (if MAX_CPUS < cpu then (topology_record INVALID_ARGUMENT 1 cs, s)
      else record_done topology_record 1 cs (tp_set_thread_affinity tp cpu s))"

definition physical_memory ::
  "'s topology_provider \<Rightarrow> nat \<Rightarrow> nat \<Rightarrow> nat \<times> nat \<Rightarrow> counters \<Rightarrow> 's \<Rightarrow> (nat \<times> counters) \<times> (nat \<times> nat) \<times> 's" where
  "physical_memory tp whole available cells cs s =
     (if \<not> aligned_output whole 8 \<or> \<not> aligned_output available 8 then (topology_record INVALID_ARGUMENT 2 cs, cells, s)
      else case tp_physical_memory tp s of
          (Inr (t, a), s') \<Rightarrow>
            if t = 0 \<or> t < a then (topology_record OS_ERROR 2 cs, (0, 0), s')
            else (topology_record OK 2 cs, (t, a), s')
        | (Inl e, s') \<Rightarrow> (topology_record (status e) 2 cs, (0, 0), s'))"

definition topology_limit :: "nat \<Rightarrow> nat \<Rightarrow> counters \<Rightarrow> nat result \<times> 's \<Rightarrow> (nat \<times> counters) \<times> nat \<times> 's" where
  "topology_limit out cell cs answer =
     (let (value, s) = answer in
      if \<not> aligned_output out 8 then (topology_record INVALID_ARGUMENT 2 cs, cell, s)
      else case value of
          Inr v \<Rightarrow> (topology_record OK 2 cs, v, s)
        | Inl e \<Rightarrow> (topology_record (status e) 2 cs, 0, s))"

definition memory_limit :: "'s topology_provider \<Rightarrow> nat \<Rightarrow> nat \<Rightarrow> counters \<Rightarrow> 's \<Rightarrow> (nat \<times> counters) \<times> nat \<times> 's" where
  "memory_limit tp out cell cs s = topology_limit out cell cs (tp_memory_limit tp s)"

definition virtual_limit :: "'s topology_provider \<Rightarrow> nat \<Rightarrow> nat \<Rightarrow> counters \<Rightarrow> 's \<Rightarrow> (nat \<times> counters) \<times> nat \<times> 's" where
  "virtual_limit tp out cell cs s = topology_limit out cell cs (tp_virtual_limit tp s)"

definition cache_size :: "'s topology_provider \<Rightarrow> nat \<Rightarrow> nat \<Rightarrow> counters \<Rightarrow> 's \<Rightarrow> (nat \<times> counters) \<times> nat \<times> 's" where
  "cache_size tp out cell cs s =
     (if \<not> aligned_output out 8 then (topology_record INVALID_ARGUMENT 3 cs, cell, s)
      else case tp_cache_size tp s of
          (Inr v, s') \<Rightarrow> (topology_record OK 3 cs, v, s')
        | (Inl e, s') \<Rightarrow> (topology_record (status e) 3 cs, 0, s'))"

definition cache_level_size ::
  "'s topology_provider \<Rightarrow> nat \<Rightarrow> nat \<Rightarrow> nat \<Rightarrow> counters \<Rightarrow> 's \<Rightarrow> (nat \<times> counters) \<times> nat \<times> 's" where
  "cache_level_size tp level out cell cs s =
     (if \<not> aligned_output out 8 then (topology_record INVALID_ARGUMENT 3 cs, cell, s)
      else if \<not> (1 \<le> level \<and> level \<le> MAX_CACHE_LEVEL) then (topology_record INVALID_ARGUMENT 3 cs, 0, s)
      else case tp_cache_level_size tp level s of
          (Inr v, s') \<Rightarrow> (topology_record OK 3 cs, v, s')
        | (Inl e, s') \<Rightarrow> (topology_record (status e) 3 cs, 0, s'))"

definition swap_memory ::
  "'s topology_provider \<Rightarrow> nat \<Rightarrow> nat \<Rightarrow> nat \<times> nat \<Rightarrow> counters \<Rightarrow> 's \<Rightarrow> (nat \<times> counters) \<times> (nat \<times> nat) \<times> 's" where
  "swap_memory tp whole available cells cs s =
     (if \<not> aligned_output whole 8 \<or> \<not> aligned_output available 8 then (topology_record INVALID_ARGUMENT 2 cs, cells, s)
      else case tp_swap_memory tp s of
          (Inr (t, a), s') \<Rightarrow>
            if t < a then (topology_record OS_ERROR 2 cs, (0, 0), s')
            else (topology_record OK 2 cs, (t, a), s')
        | (Inl e, s') \<Rightarrow> (topology_record (status e) 2 cs, (0, 0), s'))"

definition cpu_features ::
  "'s topology_provider \<Rightarrow> nat \<Rightarrow> nat \<Rightarrow> nat \<times> nat \<Rightarrow> counters \<Rightarrow> 's \<Rightarrow> (nat \<times> counters) \<times> (nat \<times> nat) \<times> 's" where
  "cpu_features tp first second cells cs s =
     (if \<not> aligned_output first 8 \<or> \<not> aligned_output second 8 then (topology_record INVALID_ARGUMENT 4 cs, cells, s)
      else case tp_cpu_features tp s of
          (Inr (a, b), s') \<Rightarrow> (topology_record OK 4 cs, (a, b), s')
        | (Inl e, s') \<Rightarrow> (topology_record (status e) 4 cs, (0, 0), s'))"

definition topology_read_stats :: "nat \<Rightarrow> nat \<Rightarrow> counters \<Rightarrow> counters \<Rightarrow> nat \<times> counters" where
  "topology_read_stats out sz cell cs =
     (if \<not> aligned_output out 8 \<or> sz < 48 then (INVALID_ARGUMENT, cell) else (OK, cs))"

definition topology_negotiate :: "bool \<Rightarrow> caps \<times> ops" where
  "topology_negotiate provided =
     (if \<not> provided then (0, [''read_stats''])
      else (CAP_TOPOLOGY, [''cpu_max'', ''cpu_count'', ''current_cpu'', ''process_affinity'', ''set_thread_affinity'',
        ''physical_memory'', ''memory_limit'', ''virtual_limit'', ''cache_size'', ''cpu_features'', ''read_stats'',
        ''cache_level_size'', ''swap_memory'']))"

definition topology_published :: "nat \<Rightarrow> nat \<Rightarrow> bool" where
  "topology_published i st \<longleftrightarrow>
     st \<in> {OK, UNSUPPORTED, INVALID_ARGUMENT, OS_ERROR} \<or> st = BUFFER_TOO_SMALL \<and> i = 1"

interpretation topology_rec: status_recorder topology_record topology_published
  by unfold_locales (auto simp: topology_record_def topology_published_def Let_def)

lemma topology_count_contract:
  assumes "topology_count out cell nonzero cs (r, s) = ((st, cs'), v, s')" "aligned_output out 4"
  shows "s' = s \<and> (if st = OK then r = Inr v \<and> v \<le> MAX_CPUS \<and> (nonzero \<longrightarrow> 0 < v) else v = 0)"
  using assms by (cases r) (auto simp: topology_count_def Let_def dest!: topology_rec.pair split: if_splits)

lemma process_affinity_contract:
  assumes "process_affinity tp bitmap buf needed cell cs s = ((st, cs'), n, buf', s')" "aligned_output needed 8"
    and "\<And>b t. length (fst (snd (tp_process_affinity tp b t))) = length b"
  shows "length buf' = length buf \<and> n \<le> 8192 \<and> (st = OK \<longrightarrow> 0 < n \<and> n \<le> length buf)
    \<and> (st \<noteq> OK \<longrightarrow> buf' = buf \<or> buf' = replicate (length buf) 0)"
proof -
  obtain r left t where "tp_process_affinity tp (replicate (length buf) 0) s = (r, left, t)" by (metis prod_cases3)
  then show ?thesis using assms(1, 2) assms(3) [of "replicate (length buf) 0" s]
    by (cases r) (auto simp: process_affinity_def Let_def dest!: topology_rec.pair split: if_splits)
qed

end
