(* ===== verification/Pal_Process.thy ===== *)
theory Pal_Process
  imports Pal_Io
begin

text \<open>
  Process lifetime and priority (\<open>src/src/process.rs\<close>, \<open>src/src/priority.rs\<close>). \<open>exit\<close> never
  returns and has no result to describe. The memory behind an argument pointer is a function from
  byte offsets to bytes, since its length is only known once the terminator is found.
\<close>

section \<open>Process lifetime\<close>

abbreviation CAP_PROCESS :: caps where "CAP_PROCESS \<equiv> 16777216"
abbreviation MAX_ARGUMENTS :: nat where "MAX_ARGUMENTS \<equiv> 64"
abbreviation MAX_ARGUMENT :: nat where "MAX_ARGUMENT \<equiv> 4096"

record 's process_provider =
  pp_debugger_present :: "'s \<Rightarrow> bool result \<times> 's"
  pp_crash_dump :: "nat list \<Rightarrow> byte list \<Rightarrow> 's \<Rightarrow> unit result \<times> byte list \<times> 's"

definition process_record :: recorder where
  "process_record st index cs =
     (let st = (if st \<in> {OK, UNSUPPORTED, INVALID_ARGUMENT, OS_ERROR} then st else OS_ERROR)
      in (st, bump (if st = OK then index else 2) cs))"

definition debugger_present ::
  "'s process_provider \<Rightarrow> nat \<Rightarrow> nat \<Rightarrow> counters \<Rightarrow> 's \<Rightarrow> (nat \<times> counters) \<times> nat \<times> 's" where
  "debugger_present pp out cell cs s =
     (if \<not> aligned_output out 4 then (process_record INVALID_ARGUMENT 0 cs, cell, s)
      else case pp_debugger_present pp s of
          (Inr present, s') \<Rightarrow> (process_record OK 0 cs, of_bool present, s')
        | (Inl e, s') \<Rightarrow> (process_record (status e) 0 cs, 0, s'))"

text \<open>The scan for the terminator, from offset \<open>len\<close>: it gives up past \<open>MAX_ARGUMENT\<close>.\<close>

function scan_argument :: "(nat \<Rightarrow> byte) \<Rightarrow> nat \<Rightarrow> nat option" where
  "scan_argument mem len =
     (if mem len = 0 then Some len
      else if MAX_ARGUMENT < len + 1 then None
      else scan_argument mem (len + 1))"
  by pat_completeness auto
termination by (relation "measure (\<lambda>(_, len). MAX_ARGUMENT + 1 - len)") auto

declare scan_argument.simps [simp del]

definition valid_arguments :: "nat \<Rightarrow> nat \<Rightarrow> (nat \<times> (nat \<Rightarrow> byte)) list \<Rightarrow> nat list option" where
  "valid_arguments argv argc arguments =
     (if argv = 0 \<or> argc = 0 \<or> MAX_ARGUMENTS < argc \<or> argv mod 8 \<noteq> 0 then None
      else if list_ex (\<lambda>(p, mem). p = 0 \<or> scan_argument mem 0 = None) arguments then None
      else Some (map fst arguments))"

definition crash_dump ::
  "'s process_provider \<Rightarrow> nat \<Rightarrow> nat \<Rightarrow> (nat \<times> (nat \<Rightarrow> byte)) list \<Rightarrow> nat \<Rightarrow> byte list \<Rightarrow> counters \<Rightarrow> 's
     \<Rightarrow> (nat \<times> counters) \<times> byte list \<times> 's" where
  "crash_dump pp argv argc arguments err buf cs s =
     (let capacity = length buf in
      if MAX_ARGUMENT < capacity \<or> capacity \<noteq> 0 \<and> err = 0 then (process_record INVALID_ARGUMENT 1 cs, buf, s)
      else let buf = buf[0 := 0] in
        case valid_arguments argv argc arguments of
          None \<Rightarrow> (process_record INVALID_ARGUMENT 1 cs, buf, s)
        | Some args \<Rightarrow>
            let (r, left, s') = pp_crash_dump pp args buf s
            in (process_record (port_status r) 1 cs, left[capacity - 1 := 0], s'))"

definition process_read_stats :: "nat \<Rightarrow> nat \<Rightarrow> counters \<Rightarrow> counters \<Rightarrow> nat \<times> counters" where
  "process_read_stats out sz cell cs =
     (if \<not> aligned_output out 8 \<or> sz < 24 then (INVALID_ARGUMENT, cell) else (OK, cs))"

definition process_negotiate :: "bool \<Rightarrow> caps \<times> ops" where
  "process_negotiate provided =
     (if \<not> provided then (0, [''read_stats''])
      else (CAP_PROCESS, [''exit'', ''debugger_present'', ''crash_dump'', ''read_stats'']))"

section \<open>Priority\<close>

abbreviation CAP_PRIORITY :: caps where "CAP_PRIORITY \<equiv> 1099511627776"
abbreviation MOST_FAVOURED :: int where "MOST_FAVOURED \<equiv> -20"
abbreviation LEAST_FAVOURED :: int where "LEAST_FAVOURED \<equiv> 19"

record 's priority_provider =
  yp_get :: "nat \<Rightarrow> 's \<Rightarrow> int result \<times> 's"
  yp_set :: "nat \<Rightarrow> int \<Rightarrow> 's \<Rightarrow> unit result \<times> 's"

definition priority_record :: recorder where
  "priority_record st index cs =
     (let st =
        (if st \<in> {OK, UNSUPPORTED, INVALID_ARGUMENT, OS_ERROR, NOT_FOUND} then st
         else if st = ACCESS_DENIED \<and> index = 1 then st
         else OS_ERROR)
      in (st, bump (if st = OK then index else 2) cs))"

definition priority_get ::
  "'s priority_provider \<Rightarrow> nat \<Rightarrow> nat \<Rightarrow> int \<Rightarrow> counters \<Rightarrow> 's \<Rightarrow> (nat \<times> counters) \<times> int \<times> 's" where
  "priority_get yp process out cell cs s =
     (if \<not> aligned_output out 4 then (priority_record INVALID_ARGUMENT 0 cs, cell, s)
      else case yp_get yp process s of
          (Inr found, s') \<Rightarrow>
            if \<not> (MOST_FAVOURED \<le> found \<and> found \<le> LEAST_FAVOURED) then (priority_record OS_ERROR 0 cs, 0, s')
            else (priority_record OK 0 cs, found, s')
        | (Inl e, s') \<Rightarrow> (priority_record (status e) 0 cs, 0, s'))"

definition priority_set ::
  "'s priority_provider \<Rightarrow> nat \<Rightarrow> int \<Rightarrow> counters \<Rightarrow> 's \<Rightarrow> (nat \<times> counters) \<times> 's" where
  "priority_set yp process value cs s =
     (if \<not> (MOST_FAVOURED \<le> value \<and> value \<le> LEAST_FAVOURED) then (priority_record INVALID_ARGUMENT 1 cs, s)
      else record_done priority_record 1 cs (yp_set yp process value s))"

definition priority_read_stats :: "nat \<Rightarrow> nat \<Rightarrow> counters \<Rightarrow> counters \<Rightarrow> nat \<times> counters" where
  "priority_read_stats out sz cell cs =
     (if \<not> aligned_output out 8 \<or> sz < 24 then (INVALID_ARGUMENT, cell) else (OK, cs))"

definition priority_negotiate :: "bool \<Rightarrow> caps \<times> ops" where
  "priority_negotiate provided =
     (if \<not> provided then (0, [''read_stats'']) else (CAP_PRIORITY, [''get'', ''set'', ''read_stats'']))"

section \<open>Facts\<close>

interpretation process_rec: status_recorder process_record "\<lambda>_ st. st \<le> OS_ERROR"
  by unfold_locales (auto simp: process_record_def Let_def)

definition priority_published :: "nat \<Rightarrow> nat \<Rightarrow> bool" where
  "priority_published i st \<longleftrightarrow>
     st \<in> {OK, UNSUPPORTED, INVALID_ARGUMENT, OS_ERROR, NOT_FOUND} \<or> st = ACCESS_DENIED \<and> i = 1"

interpretation priority_rec: status_recorder priority_record priority_published
  by unfold_locales (auto simp: priority_record_def priority_published_def Let_def)

text \<open>The scan always ends, and it finds the first NUL when one lies within the bound.\<close>

lemma scan_argument_first:
  assumes "n \<le> MAX_ARGUMENT" "mem n = 0" "\<And>i. len \<le> i \<Longrightarrow> i < n \<Longrightarrow> mem i \<noteq> 0" "len \<le> n"
  shows "scan_argument mem len = Some n"
  using assms(3, 4)
proof (induction "n - len" arbitrary: len)
  case 0
  then show ?case using assms(2) by (simp add: scan_argument.simps [of mem len])
next
  case (Suc k)
  then have "mem len \<noteq> 0" "len < n" by auto
  moreover have "scan_argument mem (len + 1) = Some n" using Suc by auto
  ultimately show ?case using assms(1) by (simp add: scan_argument.simps [of mem len])
qed

lemma scan_argument_Some:
  "scan_argument mem len = Some n \<Longrightarrow> mem n = 0 \<and> len \<le> n \<and> (\<forall>i. len \<le> i \<and> i < n \<longrightarrow> mem i \<noteq> 0)"
proof (induction mem len rule: scan_argument.induct)
  case (1 mem len)
  show ?case
  proof (cases "mem len = 0 \<or> MAX_ARGUMENT < len + 1")
    case True
    then show ?thesis using "1.prems" by (subst (asm) scan_argument.simps) (auto split: if_splits)
  next
    case False
    then have n: "scan_argument mem (len + 1) = Some n"
      using "1.prems" by (subst (asm) scan_argument.simps) auto
    moreover have "mem len \<noteq> 0" "\<not> MAX_ARGUMENT < len + 1" using False by auto
    ultimately have IH: "mem n = 0 \<and> len + 1 \<le> n \<and> (\<forall>i. len + 1 \<le> i \<and> i < n \<longrightarrow> mem i \<noteq> 0)"
      using "1.IH" by blast
    then show ?thesis using False by (metis Suc_eq_plus1 Suc_leD Suc_leI le_neq_implies_less)
  qed
qed

lemma scan_argument_bound: "scan_argument mem len = Some n \<Longrightarrow> len \<le> MAX_ARGUMENT \<Longrightarrow> n \<le> MAX_ARGUMENT"
  by (induction mem len rule: scan_argument.induct) (subst (asm) (2) scan_argument.simps, auto split: if_splits)

text \<open>Whatever the provider wrote, the message it leaves is terminated and the buffer keeps its size.\<close>

lemma crash_dump_contract:
  assumes "crash_dump pp argv argc arguments err buf cs s = ((st, cs'), buf', s')"
    and "length buf \<le> MAX_ARGUMENT" "err \<noteq> 0" "buf \<noteq> []"
    and "\<And>a b t. length (fst (snd (pp_crash_dump pp a b t))) = length b"
  shows "length buf' = length buf \<and> 0 \<in> set buf'"
proof (cases "valid_arguments argv argc arguments")
  case None
  then show ?thesis using assms(1-4) set_update_memI [of 0 buf 0]
    by (auto simp: crash_dump_def Let_def)
next
  case (Some args)
  obtain r left t where c: "pp_crash_dump pp args (buf[0 := 0]) s = (r, left, t)" by (metis prod_cases3)
  then have "length left = length buf" using assms(5) [of args "buf[0 := 0]" s] by simp
  then show ?thesis using Some c assms(1-4) set_update_memI [of "length buf - 1" left 0]
    by (auto simp: crash_dump_def Let_def)
qed

lemma priority_get_contract:
  assumes "priority_get yp process out cell cs s = ((st, cs'), v, s')" "aligned_output out 4"
  shows "MOST_FAVOURED \<le> v \<and> v \<le> LEAST_FAVOURED \<and> (st = OK \<longrightarrow> yp_get yp process s = (Inr v, s')) \<and> (st \<noteq> OK \<longrightarrow> v = 0)"
  using assms by (auto simp: priority_get_def dest!: priority_rec.pair split: if_splits prod.splits sum.splits)

end
