(* ===== verification/Pal_Image.thy ===== *)
theory Pal_Image
  imports Pal_Io
begin

text \<open>
  Executable image inspection (\<open>src/src/image.rs\<close>): unwind tables, readability probes and build
  identifiers.
\<close>

abbreviation CAP_IMAGE :: caps where "CAP_IMAGE \<equiv> 33554432"
abbreviation MAX_BUILD_ID :: nat where "MAX_BUILD_ID \<equiv> 64"

record unwind_info =
  ui_base :: nat
  ui_text_start :: nat
  ui_text_length :: nat
  ui_eh_frame_hdr :: nat
  ui_eh_frame_hdr_length :: nat
  ui_eh_frame :: nat
  ui_eh_frame_length :: nat

definition DEFAULT_UNWIND :: unwind_info where
  "DEFAULT_UNWIND = \<lparr>ui_base = 0, ui_text_start = 0, ui_text_length = 0, ui_eh_frame_hdr = 0,
     ui_eh_frame_hdr_length = 0, ui_eh_frame = 0, ui_eh_frame_length = 0\<rparr>"

definition unwind_consistent :: "unwind_info \<Rightarrow> nat \<Rightarrow> bool" where
  "unwind_consistent u address =
     (case checked_add (ui_text_start u) (ui_text_length u) of
        None \<Rightarrow> False
      | Some text_end \<Rightarrow>
          if ui_text_length u = 0 \<or> address < ui_text_start u \<or> text_end \<le> address then False
          else let hdr = ui_eh_frame_hdr u \<noteq> 0 \<and> ui_eh_frame_hdr_length u \<noteq> 0
                       \<and> checked_add (ui_eh_frame_hdr u) (ui_eh_frame_hdr_length u) \<noteq> None;
                   frame = ui_eh_frame u \<noteq> 0 \<and> checked_add (ui_eh_frame u) (ui_eh_frame_length u) \<noteq> None
               in (hdr \<or> frame \<and> ui_eh_frame_length u \<noteq> 0) \<and> (ui_eh_frame_hdr u = 0 \<or> hdr)
                  \<and> (ui_eh_frame u = 0 \<or> frame))"

record 's image_provider =
  ip_unwind_info :: "nat \<Rightarrow> 's \<Rightarrow> unwind_info result \<times> 's"
  ip_readable :: "nat \<Rightarrow> nat \<Rightarrow> 's \<Rightarrow> bool result \<times> 's"
  ip_build_id :: "nat \<Rightarrow> byte list \<Rightarrow> 's \<Rightarrow> nat result \<times> byte list \<times> 's"

definition image_record :: recorder where
  "image_record st index cs =
     (let st =
        (if st \<in> {OK, UNSUPPORTED, INVALID_ARGUMENT, OS_ERROR} then st
         else if st = NOT_FOUND \<and> index \<noteq> 3 then st
         else if st = BUFFER_TOO_SMALL \<and> index = 2 then st
         else OS_ERROR)
      in (st, bump (if st = OK then index else 3) cs))"

definition image_unwind_info ::
  "'s image_provider \<Rightarrow> nat \<Rightarrow> nat \<Rightarrow> nat \<Rightarrow> unwind_info \<Rightarrow> counters \<Rightarrow> 's
     \<Rightarrow> (nat \<times> counters) \<times> unwind_info \<times> 's" where
  "image_unwind_info ip address out sz cell cs s =
     (if \<not> aligned_output out 8 \<or> sz < 56 then (image_record INVALID_ARGUMENT 0 cs, cell, s)
      else if address = 0 then (image_record INVALID_ARGUMENT 0 cs, DEFAULT_UNWIND, s)
      else case ip_unwind_info ip address s of
          (Inr u, s') \<Rightarrow>
            if unwind_consistent u address then (image_record OK 0 cs, u, s')
            else (image_record OS_ERROR 0 cs, DEFAULT_UNWIND, s')
        | (Inl e, s') \<Rightarrow> (image_record (status e) 0 cs, DEFAULT_UNWIND, s'))"

definition readable :: "'s image_provider \<Rightarrow> nat \<Rightarrow> nat \<Rightarrow> counters \<Rightarrow> 's \<Rightarrow> (nat \<times> counters) \<times> 's" where
  "readable ip address sz cs s =
     (if address = 0 \<or> sz = 0 \<or> checked_add address sz = None then (image_record INVALID_ARGUMENT 1 cs, s)
      else case ip_readable ip address sz s of
          (Inr yes, s') \<Rightarrow> (image_record (if yes then OK else NOT_FOUND) 1 cs, s')
        | (Inl e, s') \<Rightarrow> (image_record (status e) 1 cs, s'))"

definition build_id ::
  "'s image_provider \<Rightarrow> nat \<Rightarrow> nat \<Rightarrow> byte list \<Rightarrow> nat \<Rightarrow> nat \<Rightarrow> counters \<Rightarrow> 's
     \<Rightarrow> (nat \<times> counters) \<times> nat \<times> byte list \<times> 's" where
  "build_id ip base out buf needed cell cs s =
     (let capacity = length buf in
      if \<not> aligned_output needed 8 then (image_record INVALID_ARGUMENT 2 cs, cell, buf, s)
      else if base = 0 \<or> MAX_BUILD_ID < capacity \<or> capacity \<noteq> 0 \<and> out = 0
      then (image_record INVALID_ARGUMENT 2 cs, 0, buf, s)
      else let (r, left, s') = ip_build_id ip base (replicate capacity 0) s;
               (st, needed') =
                 (case r of
                    Inr len \<Rightarrow>
                      if len = 0 then (OS_ERROR, 0)
                      else if MAX_BUILD_ID < len then (OS_ERROR, 0)
                      else (if capacity < len then BUFFER_TOO_SMALL else OK, len)
                  | Inl e \<Rightarrow> (status e, 0))
           in (image_record st 2 cs, needed', if st \<noteq> OK then replicate capacity 0 else left, s'))"

definition image_read_stats :: "nat \<Rightarrow> nat \<Rightarrow> counters \<Rightarrow> counters \<Rightarrow> nat \<times> counters" where
  "image_read_stats out sz cell cs =
     (if \<not> aligned_output out 8 \<or> sz < 32 then (INVALID_ARGUMENT, cell) else (OK, cs))"

definition image_negotiate :: "bool \<Rightarrow> caps \<times> ops" where
  "image_negotiate provided =
     (if \<not> provided then (0, [''read_stats''])
      else (CAP_IMAGE, [''unwind_info'', ''readable'', ''build_id'', ''read_stats'']))"

text \<open>\<open>unwrap_or(Error::Os)\<close> covers the status OK, which is handled before it.\<close>

definition readable_from_status :: "nat \<Rightarrow> bool result" where
  "readable_from_status st =
     (if st = OK then Inr True
      else if st = NOT_FOUND then Inr False
      else Inl (case from_status st of Some e \<Rightarrow> e | None \<Rightarrow> Os))"

section \<open>Facts\<close>

definition image_published :: "nat \<Rightarrow> nat \<Rightarrow> bool" where
  "image_published i st \<longleftrightarrow>
     st \<in> {OK, UNSUPPORTED, INVALID_ARGUMENT, OS_ERROR} \<or> st = NOT_FOUND \<and> i \<noteq> 3 \<or> st = BUFFER_TOO_SMALL \<and> i = 2"

interpretation image_rec: status_recorder image_record image_published
  by unfold_locales (auto simp: image_record_def image_published_def Let_def)

text \<open>A status that crosses the boundary and back gives the answer the provider meant.\<close>

lemma readable_round_trip:
  assumes "readable ip address sz cs s = ((st, cs'), s')" "ip_readable ip address sz s = (Inr yes, s')"
    and "address \<noteq> 0" "0 < sz" "address + sz \<le> USIZE_MAX"
  shows "readable_from_status st = Inr yes"
  using assms by (auto simp: readable_def readable_from_status_def checked_add_def image_record_def Let_def
      split: if_splits)

lemma image_unwind_info_contract:
  assumes "image_unwind_info ip address out sz cell cs s = ((st, cs'), u, s')" "aligned_output out 8" "56 \<le> sz"
  shows "if st = OK then unwind_consistent u address else u = DEFAULT_UNWIND"
  using assms by (auto simp: image_unwind_info_def dest!: image_rec.pair split: if_splits prod.splits sum.splits)

lemma unwind_consistent_text:
  assumes "unwind_consistent u address"
  shows "ui_text_start u \<le> address" "address < ui_text_start u + ui_text_length u"
    "ui_text_start u + ui_text_length u \<le> USIZE_MAX"
    "ui_eh_frame_hdr u \<noteq> 0 \<and> 0 < ui_eh_frame_hdr_length u \<or> ui_eh_frame u \<noteq> 0 \<and> 0 < ui_eh_frame_length u"
  using assms by (auto simp: unwind_consistent_def checked_add_def Let_def split: if_splits)

end
