(* ===== verification/Pal_Streams.thy ===== *)
theory Pal_Streams
  imports Pal_Io
begin

text \<open>
  The standard streams and the terminal behind them (\<open>src/src/streams.rs\<close>, \<open>src/src/terminal.rs\<close>).
\<close>

section \<open>Streams\<close>

abbreviation CAP_STREAMS :: caps where "CAP_STREAMS \<equiv> 67108864"
abbreviation INPUT :: nat where "INPUT \<equiv> 0"
abbreviation STREAM_ERROR :: nat where "STREAM_ERROR \<equiv> 2"

record 's streams_provider =
  sp_write :: "nat \<Rightarrow> byte list \<Rightarrow> 's \<Rightarrow> nat result \<times> 's"
  sp_read :: "nat \<Rightarrow> byte list \<Rightarrow> 's \<Rightarrow> nat result \<times> byte list \<times> 's"
  sp_is_terminal :: "nat \<Rightarrow> 's \<Rightarrow> bool result \<times> 's"

definition streams_record :: recorder where
  "streams_record st index cs =
     (let st = (if st \<in> {OK, UNSUPPORTED, INVALID_ARGUMENT, OS_ERROR} then st else OS_ERROR)
      in (st, bump (if st = OK then index else 3) cs))"

definition streams_write ::
  "'s streams_provider \<Rightarrow> nat \<Rightarrow> nat \<Rightarrow> byte list \<Rightarrow> nat \<Rightarrow> nat \<Rightarrow> counters \<Rightarrow> 's \<Rightarrow> (nat \<times> counters) \<times> nat \<times> 's" where
  "streams_write sp stream data bytes written cell cs s =
     (let sz = length bytes in
      if \<not> aligned_output written 8 then (streams_record INVALID_ARGUMENT 0 cs, cell, s)
      else if stream = INPUT \<or> STREAM_ERROR < stream \<or> \<not> valid_buffer data sz
      then (streams_record INVALID_ARGUMENT 0 cs, 0, s)
      else if sz = 0 then (streams_record OK 0 cs, 0, s)
      else case sp_write sp stream bytes s of
          (Inr done, s') \<Rightarrow>
            if done = 0 then (streams_record OS_ERROR 0 cs, 0, s')
            else if sz < done then (streams_record OS_ERROR 0 cs, 0, s')
            else (streams_record OK 0 cs, done, s')
        | (Inl e, s') \<Rightarrow> (streams_record (status e) 0 cs, 0, s'))"

definition streams_read ::
  "'s streams_provider \<Rightarrow> nat \<Rightarrow> nat \<Rightarrow> byte list \<Rightarrow> nat \<Rightarrow> nat \<Rightarrow> counters \<Rightarrow> 's
     \<Rightarrow> (nat \<times> counters) \<times> nat \<times> byte list \<times> 's" where
  "streams_read sp stream data buf got cell cs s =
     (let capacity = length buf in
      if \<not> aligned_output got 8 then (streams_record INVALID_ARGUMENT 1 cs, cell, buf, s)
      else if stream \<noteq> INPUT \<or> \<not> valid_buffer data capacity then (streams_record INVALID_ARGUMENT 1 cs, 0, buf, s)
      else if capacity = 0 then (streams_record OK 1 cs, 0, buf, s)
      else case sp_read sp stream buf s of
          (Inr done, left, s') \<Rightarrow>
            if capacity < done then (streams_record OS_ERROR 1 cs, 0, left, s')
            else (streams_record OK 1 cs, done, left, s')
        | (Inl e, left, s') \<Rightarrow> (streams_record (status e) 1 cs, 0, left, s'))"

definition is_terminal ::
  "'s streams_provider \<Rightarrow> nat \<Rightarrow> nat \<Rightarrow> nat \<Rightarrow> counters \<Rightarrow> 's \<Rightarrow> (nat \<times> counters) \<times> nat \<times> 's" where
  "is_terminal sp stream out cell cs s =
     (if \<not> aligned_output out 4 then (streams_record INVALID_ARGUMENT 2 cs, cell, s)
      else if STREAM_ERROR < stream then (streams_record INVALID_ARGUMENT 2 cs, 0, s)
      else case sp_is_terminal sp stream s of
          (Inr value, s') \<Rightarrow> (streams_record OK 2 cs, of_bool value, s')
        | (Inl e, s') \<Rightarrow> (streams_record (status e) 2 cs, 0, s'))"

definition streams_read_stats :: "nat \<Rightarrow> nat \<Rightarrow> counters \<Rightarrow> counters \<Rightarrow> nat \<times> counters" where
  "streams_read_stats out sz cell cs =
     (if \<not> aligned_output out 8 \<or> sz < 32 then (INVALID_ARGUMENT, cell) else (OK, cs))"

definition streams_negotiate :: "bool \<Rightarrow> caps \<times> ops" where
  "streams_negotiate provided =
     (if \<not> provided then (0, [''read_stats''])
      else (CAP_STREAMS, [''write'', ''read'', ''is_terminal'', ''read_stats'']))"

section \<open>Terminal\<close>

abbreviation CAP_TERMINAL :: caps where "CAP_TERMINAL \<equiv> 8589934592"
abbreviation CONTROL_ERASE :: nat where "CONTROL_ERASE \<equiv> 1"
abbreviation CONTROL_END_OF_FILE :: nat where "CONTROL_END_OF_FILE \<equiv> 4"

record 's terminal_provider =
  mp_window_size :: "nat \<Rightarrow> 's \<Rightarrow> (nat \<times> nat) result \<times> 's"
  mp_set_input_mode :: "bool \<Rightarrow> byte \<Rightarrow> byte \<Rightarrow> bool \<Rightarrow> 's \<Rightarrow> unit result \<times> 's"
  mp_input_ready :: "'s \<Rightarrow> bool result \<times> 's"
  mp_control_character :: "nat \<Rightarrow> 's \<Rightarrow> byte result \<times> 's"

definition terminal_record :: recorder where
  "terminal_record st index cs =
     (let st = (if st \<in> {OK, UNSUPPORTED, INVALID_ARGUMENT, OS_ERROR, NOT_FOUND} then st else OS_ERROR)
      in (st, bump (if st = OK then index else 4) cs))"

definition window_size ::
  "'s terminal_provider \<Rightarrow> nat \<Rightarrow> nat \<Rightarrow> nat \<Rightarrow> nat \<times> nat \<Rightarrow> counters \<Rightarrow> 's \<Rightarrow> (nat \<times> counters) \<times> (nat \<times> nat) \<times> 's" where
  "window_size tp stream columns rows cells cs s =
     (if \<not> aligned_output columns 4 \<or> \<not> aligned_output rows 4 then (terminal_record INVALID_ARGUMENT 0 cs, cells, s)
      else if STREAM_ERROR < stream then (terminal_record INVALID_ARGUMENT 0 cs, (0, 0), s)
      else case mp_window_size tp stream s of
          (Inr (c, r), s') \<Rightarrow>
            if c = 0 \<or> r = 0 then (terminal_record UNSUPPORTED 0 cs, (0, 0), s')
            else (terminal_record OK 0 cs, (c, r), s')
        | (Inl e, s') \<Rightarrow> (terminal_record (status e) 0 cs, (0, 0), s'))"

definition set_input_mode ::
  "'s terminal_provider \<Rightarrow> nat \<Rightarrow> nat \<Rightarrow> nat \<Rightarrow> nat \<Rightarrow> counters \<Rightarrow> 's \<Rightarrow> (nat \<times> counters) \<times> 's" where
  "set_input_mode tp raw min_bytes timeout_ds interrupt_as_input cs s =
     (if 1 < raw \<or> 1 < interrupt_as_input \<or> 255 < min_bytes \<or> 255 < timeout_ds
      then (terminal_record INVALID_ARGUMENT 1 cs, s)
      else record_done terminal_record 1 cs
             (mp_set_input_mode tp (raw \<noteq> 0) (of_nat min_bytes) (of_nat timeout_ds) (interrupt_as_input \<noteq> 0) s))"

definition input_ready :: "'s terminal_provider \<Rightarrow> nat \<Rightarrow> nat \<Rightarrow> counters \<Rightarrow> 's \<Rightarrow> (nat \<times> counters) \<times> nat \<times> 's" where
  "input_ready tp ready cell cs s =
     (if \<not> aligned_output ready 4 then (terminal_record INVALID_ARGUMENT 2 cs, cell, s)
      else case mp_input_ready tp s of
          (Inr value, s') \<Rightarrow> (terminal_record OK 2 cs, of_bool value, s')
        | (Inl e, s') \<Rightarrow> (terminal_record (status e) 2 cs, 0, s'))"

definition control_character ::
  "'s terminal_provider \<Rightarrow> nat \<Rightarrow> nat \<Rightarrow> nat \<Rightarrow> counters \<Rightarrow> 's \<Rightarrow> (nat \<times> counters) \<times> nat \<times> 's" where
  "control_character tp which out cell cs s =
     (if \<not> aligned_output out 4 then (terminal_record INVALID_ARGUMENT 3 cs, cell, s)
      else if \<not> (CONTROL_ERASE \<le> which \<and> which \<le> CONTROL_END_OF_FILE)
      then (terminal_record INVALID_ARGUMENT 3 cs, 0, s)
      else case mp_control_character tp which s of
          (Inr b, s') \<Rightarrow> (terminal_record OK 3 cs, unat b, s')
        | (Inl e, s') \<Rightarrow> (terminal_record (status e) 3 cs, 0, s'))"

definition terminal_read_stats :: "nat \<Rightarrow> nat \<Rightarrow> counters \<Rightarrow> counters \<Rightarrow> nat \<times> counters" where
  "terminal_read_stats out sz cell cs =
     (if \<not> aligned_output out 8 \<or> sz < 40 then (INVALID_ARGUMENT, cell) else (OK, cs))"

definition terminal_negotiate :: "bool \<Rightarrow> caps \<times> ops" where
  "terminal_negotiate provided =
     (if \<not> provided then (0, [''read_stats''])
      else (CAP_TERMINAL, [''window_size'', ''set_input_mode'', ''input_ready'', ''control_character'', ''read_stats'']))"

section \<open>Facts\<close>

interpretation streams_rec: status_recorder streams_record "\<lambda>_ st. st \<le> OS_ERROR"
  by unfold_locales (auto simp: streams_record_def Let_def)

interpretation terminal_rec: status_recorder terminal_record "\<lambda>_ st. st \<le> OS_ERROR \<or> st = NOT_FOUND"
  by unfold_locales (auto simp: terminal_record_def Let_def)

text \<open>
  A write that is OK has made progress, so a caller that writes the rest until nothing is left ends.
\<close>

lemma streams_write_contract:
  assumes "streams_write sp stream data bytes written cell cs s = ((st, cs'), done, s')" "aligned_output written 8"
  shows "done \<le> length bytes \<and> (st = OK \<longrightarrow> done = 0 \<longleftrightarrow> bytes = []) \<and> (st \<noteq> OK \<longrightarrow> done = 0)"
  using assms by (auto simp: streams_write_def Let_def dest!: streams_rec.pair split: if_splits prod.splits sum.splits)

lemma streams_read_contract:
  assumes "streams_read sp stream data buf got cell cs s = ((st, cs'), n, buf', s')" "aligned_output got 8"
  shows "n \<le> length buf \<and> (st \<noteq> OK \<longrightarrow> n = 0)"
  using assms by (auto simp: streams_read_def Let_def dest!: streams_rec.pair split: if_splits prod.splits sum.splits)

lemma window_size_contract:
  assumes "window_size tp stream columns rows cells cs s = ((st, cs'), (c, r), s')"
    and "aligned_output columns 4" "aligned_output rows 4"
  shows "if st = OK then 0 < c \<and> 0 < r else c = 0 \<and> r = 0"
  using assms by (auto simp: window_size_def dest!: terminal_rec.pair split: if_splits prod.splits sum.splits)

end
