(* ===== verification/Pal_Files.thy ===== *)
theory Pal_Files
  imports Pal_Io
begin

text \<open>
  The files group of the boundary (\<open>src/src/files.rs\<close>): the status record, the provider interface
  (\<open>Files\<close> of \<open>src/src/port.rs\<close>) and the checked entry points a consumer calls. A provider
  operation is a state-passing function; \<open>None\<close> is a call that never returns. An entry point threads
  the provider's state, the group's counters, and the cells and buffers behind its output pointers.
\<close>

section \<open>Constants and data\<close>

abbreviation READ :: flags where "READ \<equiv> 1"
abbreviation WRITE :: flags where "WRITE \<equiv> 2"
abbreviation CREATE :: flags where "CREATE \<equiv> 4"
abbreviation EXCLUSIVE :: flags where "EXCLUSIVE \<equiv> 8"
abbreviation TRUNCATE :: flags where "TRUNCATE \<equiv> 16"

abbreviation NODE_FILE :: nat where "NODE_FILE \<equiv> 1"
abbreviation NODE_DIRECTORY :: nat where "NODE_DIRECTORY \<equiv> 2"
abbreviation NODE_SYMLINK :: nat where "NODE_SYMLINK \<equiv> 3"
abbreviation NODE_OTHER :: nat where "NODE_OTHER \<equiv> 4"

abbreviation TIME_KEEP :: nat where "TIME_KEEP \<equiv> U64_MAX"
abbreviation LOCK_SHARED :: nat where "LOCK_SHARED \<equiv> 1"
abbreviation LOCK_EXCLUSIVE :: nat where "LOCK_EXCLUSIVE \<equiv> 2"
abbreviation LOCK_UNLOCK :: nat where "LOCK_UNLOCK \<equiv> 3"
abbreviation MODE_MASK :: flags where "MODE_MASK \<equiv> 0xFFF"

record file_status =
  fs_kind :: nat
  fs_mode :: flags
  fs_size :: nat
  fs_modified_ns :: nat
  fs_accessed_ns :: nat
  fs_changed_ns :: nat
  fs_created_ns :: nat
  fs_identity :: nat
  fs_device :: nat

abbreviation FILE_STATUS_SIZE :: nat where "FILE_STATUS_SIZE \<equiv> 64"

definition DEFAULT_STATUS :: file_status where
  "DEFAULT_STATUS = \<lparr>fs_kind = 0, fs_mode = 0, fs_size = 0, fs_modified_ns = 0, fs_accessed_ns = 0,
     fs_changed_ns = 0, fs_created_ns = 0, fs_identity = 0, fs_device = 0\<rparr>"

definition consistent :: "file_status \<Rightarrow> bool" where
  "consistent st \<longleftrightarrow> NODE_FILE \<le> fs_kind st \<and> fs_kind st \<le> NODE_OTHER \<and> fs_mode st AND NOT MODE_MASK = 0"

definition valid_open :: "flags \<Rightarrow> bool" where
  "valid_open fl \<longleftrightarrow>
     fl AND NOT (READ OR WRITE OR CREATE OR EXCLUSIVE OR TRUNCATE) = 0 \<and> fl AND (READ OR WRITE) \<noteq> 0
     \<and> (fl AND EXCLUSIVE = 0 \<or> fl AND CREATE \<noteq> 0) \<and> (fl AND TRUNCATE = 0 \<or> fl AND WRITE \<noteq> 0)"

record 's files_provider =
  fp_open :: "byte list \<Rightarrow> flags \<Rightarrow> flags \<Rightarrow> 's \<Rightarrow> (nat result \<times> 's) option"
  fp_close :: "nat \<Rightarrow> 's \<Rightarrow> (unit result \<times> 's) option"
  fp_read_at :: "nat \<Rightarrow> nat \<Rightarrow> byte list \<Rightarrow> 's \<Rightarrow> (nat result \<times> byte list \<times> 's) option"
  fp_write_at :: "nat \<Rightarrow> nat \<Rightarrow> byte list \<Rightarrow> 's \<Rightarrow> (nat result \<times> 's) option"
  fp_set_size :: "nat \<Rightarrow> nat \<Rightarrow> 's \<Rightarrow> (unit result \<times> 's) option"
  fp_flush :: "nat \<Rightarrow> 's \<Rightarrow> (unit result \<times> 's) option"
  fp_status :: "nat \<Rightarrow> 's \<Rightarrow> (file_status result \<times> 's) option"
  fp_path_status :: "byte list \<Rightarrow> bool \<Rightarrow> 's \<Rightarrow> (file_status result \<times> 's) option"
  fp_remove :: "byte list \<Rightarrow> 's \<Rightarrow> (unit result \<times> 's) option"
  fp_rename :: "byte list \<Rightarrow> byte list \<Rightarrow> 's \<Rightarrow> (unit result \<times> 's) option"
  fp_create_directory :: "byte list \<Rightarrow> flags \<Rightarrow> 's \<Rightarrow> (unit result \<times> 's) option"
  fp_remove_directory :: "byte list \<Rightarrow> 's \<Rightarrow> (unit result \<times> 's) option"
  fp_open_directory :: "byte list \<Rightarrow> 's \<Rightarrow> (nat result \<times> 's) option"
  fp_read_directory :: "nat \<Rightarrow> byte list \<Rightarrow> 's \<Rightarrow> ((nat \<times> nat) result \<times> byte list \<times> 's) option"
  fp_close_directory :: "nat \<Rightarrow> 's \<Rightarrow> (unit result \<times> 's) option"
  fp_current_directory :: "byte list \<Rightarrow> 's \<Rightarrow> (nat result \<times> byte list \<times> 's) option"
  fp_set_mode :: "byte list \<Rightarrow> flags \<Rightarrow> 's \<Rightarrow> (unit result \<times> 's) option"
  fp_set_file_mode :: "nat \<Rightarrow> flags \<Rightarrow> 's \<Rightarrow> (unit result \<times> 's) option"
  fp_set_times :: "byte list \<Rightarrow> bool \<Rightarrow> nat option \<Rightarrow> nat option \<Rightarrow> 's \<Rightarrow> (unit result \<times> 's) option"
  fp_set_file_times :: "nat \<Rightarrow> nat option \<Rightarrow> nat option \<Rightarrow> 's \<Rightarrow> (unit result \<times> 's) option"
  fp_link :: "byte list \<Rightarrow> byte list \<Rightarrow> 's \<Rightarrow> (unit result \<times> 's) option"
  fp_symlink :: "byte list \<Rightarrow> byte list \<Rightarrow> 's \<Rightarrow> (unit result \<times> 's) option"
  fp_read_link :: "byte list \<Rightarrow> byte list \<Rightarrow> 's \<Rightarrow> (nat result \<times> byte list \<times> 's) option"
  fp_real_path :: "byte list \<Rightarrow> byte list \<Rightarrow> 's \<Rightarrow> (nat result \<times> byte list \<times> 's) option"
  fp_set_current_directory :: "byte list \<Rightarrow> 's \<Rightarrow> (unit result \<times> 's) option"
  fp_lock :: "nat \<Rightarrow> nat \<Rightarrow> bool \<Rightarrow> 's \<Rightarrow> (unit result \<times> 's) option"
  fp_lock_range :: "nat \<Rightarrow> nat \<Rightarrow> nat \<Rightarrow> nat \<Rightarrow> 's \<Rightarrow> (unit result \<times> 's) option"

abbreviation F_FAILED :: nat where "F_FAILED \<equiv> 10"
abbreviation F_ATTRIBUTE :: nat where "F_ATTRIBUTE \<equiv> 11"
abbreviation F_LINK :: nat where "F_LINK \<equiv> 12"
abbreviation F_LOCK :: nat where "F_LOCK \<equiv> 13"

section \<open>Checks and recording\<close>

definition files_statuses :: "nat list" where
  "files_statuses = [OK, UNSUPPORTED, INVALID_ARGUMENT, OS_ERROR, OUT_OF_MEMORY, BUSY, NOT_FOUND,
     ALREADY_EXISTS, ACCESS_DENIED, IS_DIRECTORY, NOT_DIRECTORY, NOT_EMPTY, NO_SPACE, TOO_MANY_HANDLES,
     NAME_TOO_LONG, READ_ONLY, CROSS_DEVICE]"

definition files_record :: "nat \<Rightarrow> nat \<Rightarrow> counters \<Rightarrow> nat \<times> counters" where
  "files_record st index cs =
     (let st' = (if st \<in> set files_statuses then st else OS_ERROR)
      in (st', bump (if st' = OK then index else F_FAILED) cs))"

text \<open>\<open>handle\<close>: the status and what the output cell, which holds 0, is left with.\<close>

definition files_handle :: "nat result \<Rightarrow> nat \<times> nat" where
  "files_handle r =
     (case r of
        Inr value \<Rightarrow> if value = 0 then (OS_ERROR, 0) else (OK, value)
      | Inl e \<Rightarrow> (status e, 0))"

definition describe :: "file_status result \<Rightarrow> nat \<times> file_status" where
  "describe r =
     (case r of
        Inr value \<Rightarrow> if \<not> consistent value then (OS_ERROR, DEFAULT_STATUS) else (OK, value)
      | Inl e \<Rightarrow> (status e, DEFAULT_STATUS))"

text \<open>\<open>record(port::status(...), index)\<close>, which ends the calls with no output.\<close>

definition files_done ::
  "nat \<Rightarrow> counters \<Rightarrow> (unit result \<times> 's) option \<Rightarrow> ((nat \<times> counters) \<times> 's) option" where
  "files_done index cs = map_option (\<lambda>(r, s). (files_record (port_status r) index cs, s))"

definition files_refuse :: "nat \<Rightarrow> counters \<Rightarrow> 's \<Rightarrow> ((nat \<times> counters) \<times> 's) option" where
  "files_refuse index cs s = Some (files_record INVALID_ARGUMENT index cs, s)"

section \<open>Entry points on files\<close>

definition files_open ::
  "'s files_provider \<Rightarrow> nat \<Rightarrow> nat \<Rightarrow> byte list \<Rightarrow> flags \<Rightarrow> flags \<Rightarrow> nat \<Rightarrow> nat \<Rightarrow> counters \<Rightarrow> 's
     \<Rightarrow> ((nat \<times> counters) \<times> nat \<times> 's) option" where
  "files_open fp path len bytes fl mode out cell cs s =
     (if \<not> aligned_output out 8 then Some (files_record INVALID_ARGUMENT 0 cs, cell, s)
      else case io_path path len bytes of
          None \<Rightarrow> Some (files_record INVALID_ARGUMENT 0 cs, 0, s)
        | Some p \<Rightarrow>
            if \<not> valid_open fl \<or> mode AND NOT MODE_MASK \<noteq> 0 then Some (files_record INVALID_ARGUMENT 0 cs, 0, s)
            else map_option (\<lambda>(r, s'). let (st, cell') = files_handle r in (files_record st 0 cs, cell', s'))
                   (fp_open fp p fl mode s))"

definition files_close :: "'s files_provider \<Rightarrow> nat \<Rightarrow> counters \<Rightarrow> 's \<Rightarrow> ((nat \<times> counters) \<times> 's) option" where
  "files_close fp file cs s =
     (if file = 0 then files_refuse 1 cs s else files_done 1 cs (fp_close fp file s))"

text \<open>\<open>buf\<close> are the \<open>capacity\<close> bytes at \<open>data\<close>, returned as the call left them after the count.\<close>

definition files_read_at ::
  "'s files_provider \<Rightarrow> nat \<Rightarrow> nat \<Rightarrow> nat \<Rightarrow> byte list \<Rightarrow> nat \<Rightarrow> nat \<Rightarrow> counters \<Rightarrow> 's
     \<Rightarrow> ((nat \<times> counters) \<times> nat \<times> byte list \<times> 's) option" where
  "files_read_at fp file offset data buf got cell cs s =
     (let capacity = length buf in
      if \<not> aligned_output got 8 then Some (files_record INVALID_ARGUMENT 2 cs, cell, buf, s)
      else if file = 0 \<or> \<not> valid_buffer data capacity \<or> I64_MAX < offset
      then Some (files_record INVALID_ARGUMENT 2 cs, 0, buf, s)
      else if capacity = 0 then Some (files_record OK 2 cs, 0, buf, s)
      else map_option (\<lambda>(r, buf', s').
             let (st, cell') = (case r of
                    Inr count \<Rightarrow> if capacity < count then (OS_ERROR, 0) else (OK, count)
                  | Inl e \<Rightarrow> (status e, 0))
             in (files_record st 2 cs, cell', buf', s'))
           (fp_read_at fp file offset buf s))"

definition files_write_at ::
  "'s files_provider \<Rightarrow> nat \<Rightarrow> nat \<Rightarrow> nat \<Rightarrow> byte list \<Rightarrow> nat \<Rightarrow> nat \<Rightarrow> counters \<Rightarrow> 's
     \<Rightarrow> ((nat \<times> counters) \<times> nat \<times> 's) option" where
  "files_write_at fp file offset data bytes written cell cs s =
     (let sz = length bytes in
      if \<not> aligned_output written 8 then Some (files_record INVALID_ARGUMENT 3 cs, cell, s)
      else if file = 0 \<or> \<not> valid_buffer data sz \<or> I64_MAX < offset \<or> I64_MAX < offset + sz
      then Some (files_record INVALID_ARGUMENT 3 cs, 0, s)
      else if sz = 0 then Some (files_record OK 3 cs, 0, s)
      else map_option (\<lambda>(r, s').
             let (st, cell') = (case r of
                    Inr count \<Rightarrow> if count = 0 then (OS_ERROR, 0)
                                 else if sz < count then (OS_ERROR, 0) else (OK, count)
                  | Inl e \<Rightarrow> (status e, 0))
             in (files_record st 3 cs, cell', s'))
           (fp_write_at fp file offset bytes s))"

definition files_set_size ::
  "'s files_provider \<Rightarrow> nat \<Rightarrow> nat \<Rightarrow> counters \<Rightarrow> 's \<Rightarrow> ((nat \<times> counters) \<times> 's) option" where
  "files_set_size fp file sz cs s =
     (if file = 0 \<or> I64_MAX < sz then files_refuse 4 cs s else files_done 4 cs (fp_set_size fp file sz s))"

definition files_flush :: "'s files_provider \<Rightarrow> nat \<Rightarrow> counters \<Rightarrow> 's \<Rightarrow> ((nat \<times> counters) \<times> 's) option" where
  "files_flush fp file cs s =
     (if file = 0 then files_refuse 5 cs s else files_done 5 cs (fp_flush fp file s))"

definition files_status ::
  "'s files_provider \<Rightarrow> nat \<Rightarrow> nat \<Rightarrow> nat \<Rightarrow> file_status \<Rightarrow> counters \<Rightarrow> 's
     \<Rightarrow> ((nat \<times> counters) \<times> file_status \<times> 's) option" where
  "files_status fp file out sz cell cs s =
     (if \<not> aligned_output out 8 \<or> sz < FILE_STATUS_SIZE then Some (files_record INVALID_ARGUMENT 6 cs, cell, s)
      else if file = 0 then Some (files_record INVALID_ARGUMENT 6 cs, DEFAULT_STATUS, s)
      else map_option (\<lambda>(r, s'). let (st, cell') = describe r in (files_record st 6 cs, cell', s'))
             (fp_status fp file s))"

definition files_path_status ::
  "'s files_provider \<Rightarrow> nat \<Rightarrow> nat \<Rightarrow> byte list \<Rightarrow> nat \<Rightarrow> nat \<Rightarrow> nat \<Rightarrow> file_status \<Rightarrow> counters \<Rightarrow> 's
     \<Rightarrow> ((nat \<times> counters) \<times> file_status \<times> 's) option" where
  "files_path_status fp path len bytes follow out sz cell cs s =
     (if \<not> aligned_output out 8 \<or> sz < FILE_STATUS_SIZE then Some (files_record INVALID_ARGUMENT 6 cs, cell, s)
      else case io_path path len bytes of
          None \<Rightarrow> Some (files_record INVALID_ARGUMENT 6 cs, DEFAULT_STATUS, s)
        | Some p \<Rightarrow>
            if 1 < follow then Some (files_record INVALID_ARGUMENT 6 cs, DEFAULT_STATUS, s)
            else map_option (\<lambda>(r, s'). let (st, cell') = describe r in (files_record st 6 cs, cell', s'))
                   (fp_path_status fp p (follow \<noteq> 0) s))"

section \<open>Entry points on names\<close>

text \<open>
  A call on one path, or on two, with no output. \<open>ok\<close> is what the call checks besides the paths.
\<close>

definition files_path_call ::
  "nat \<Rightarrow> bool \<Rightarrow> (byte list \<Rightarrow> 's \<Rightarrow> (unit result \<times> 's) option) \<Rightarrow> nat \<Rightarrow> nat \<Rightarrow> byte list \<Rightarrow> counters \<Rightarrow> 's
     \<Rightarrow> ((nat \<times> counters) \<times> 's) option" where
  "files_path_call index ok f path len bytes cs s =
     (case io_path path len bytes of
        None \<Rightarrow> files_refuse index cs s
      | Some p \<Rightarrow> if ok then files_done index cs (f p s) else files_refuse index cs s)"

definition files_two_paths ::
  "nat \<Rightarrow> (byte list \<Rightarrow> byte list \<Rightarrow> 's \<Rightarrow> (unit result \<times> 's) option)
     \<Rightarrow> nat \<Rightarrow> nat \<Rightarrow> byte list \<Rightarrow> nat \<Rightarrow> nat \<Rightarrow> byte list \<Rightarrow> counters \<Rightarrow> 's \<Rightarrow> ((nat \<times> counters) \<times> 's) option" where
  "files_two_paths index f a alen abytes b blen bbytes cs s =
     (case (io_path a alen abytes, io_path b blen bbytes) of
        (Some pa, Some pb) \<Rightarrow> files_done index cs (f pa pb s)
      | _ \<Rightarrow> files_refuse index cs s)"

definition files_remove where
  "files_remove fp = files_path_call 7 True (fp_remove fp)"

definition files_rename where
  "files_rename fp = files_two_paths 8 (fp_rename fp)"

definition files_directory_create where
  "files_directory_create fp path len bytes mode =
     files_path_call 9 (mode AND NOT MODE_MASK = 0) (\<lambda>p. fp_create_directory fp p mode) path len bytes"

definition files_directory_remove where
  "files_directory_remove fp = files_path_call 9 True (fp_remove_directory fp)"

definition files_set_current_directory where
  "files_set_current_directory fp = files_path_call 9 True (fp_set_current_directory fp)"

definition files_set_mode where
  "files_set_mode fp path len bytes mode =
     files_path_call F_ATTRIBUTE (mode AND NOT MODE_MASK = 0) (\<lambda>p. fp_set_mode fp p mode) path len bytes"

definition files_set_file_mode ::
  "'s files_provider \<Rightarrow> nat \<Rightarrow> flags \<Rightarrow> counters \<Rightarrow> 's \<Rightarrow> ((nat \<times> counters) \<times> 's) option" where
  "files_set_file_mode fp file mode cs s =
     (if file = 0 \<or> mode AND NOT MODE_MASK \<noteq> 0 then files_refuse F_ATTRIBUTE cs s
      else files_done F_ATTRIBUTE cs (fp_set_file_mode fp file mode s))"

definition one_time :: "nat \<Rightarrow> nat option option" where
  "one_time ns = (if ns = TIME_KEEP then Some None else if I64_MAX < ns then None else Some (Some ns))"

definition times_arg :: "nat \<Rightarrow> nat \<Rightarrow> (nat option \<times> nat option) option" where
  "times_arg accessed modified =
     (case one_time accessed of
        None \<Rightarrow> None
      | Some a \<Rightarrow> (case one_time modified of None \<Rightarrow> None | Some m \<Rightarrow> Some (a, m)))"

definition files_set_times ::
  "'s files_provider \<Rightarrow> nat \<Rightarrow> nat \<Rightarrow> byte list \<Rightarrow> nat \<Rightarrow> nat \<Rightarrow> nat \<Rightarrow> counters \<Rightarrow> 's
     \<Rightarrow> ((nat \<times> counters) \<times> 's) option" where
  "files_set_times fp path len bytes follow accessed modified cs s =
     (case io_path path len bytes of
        None \<Rightarrow> files_refuse F_ATTRIBUTE cs s
      | Some p \<Rightarrow>
          (case times_arg accessed modified of
             None \<Rightarrow> files_refuse F_ATTRIBUTE cs s
           | Some (a, m) \<Rightarrow>
               if 1 < follow then files_refuse F_ATTRIBUTE cs s
               else files_done F_ATTRIBUTE cs (fp_set_times fp p (follow \<noteq> 0) a m s)))"

definition files_set_file_times ::
  "'s files_provider \<Rightarrow> nat \<Rightarrow> nat \<Rightarrow> nat \<Rightarrow> counters \<Rightarrow> 's \<Rightarrow> ((nat \<times> counters) \<times> 's) option" where
  "files_set_file_times fp file accessed modified cs s =
     (case times_arg accessed modified of
        None \<Rightarrow> files_refuse F_ATTRIBUTE cs s
      | Some (a, m) \<Rightarrow>
          if file = 0 then files_refuse F_ATTRIBUTE cs s
          else files_done F_ATTRIBUTE cs (fp_set_file_times fp file a m s))"

definition files_link where
  "files_link fp = files_two_paths F_LINK (fp_link fp)"

definition files_symlink where
  "files_symlink fp = files_two_paths F_LINK (fp_symlink fp)"

section \<open>Directories and texts\<close>

definition files_directory_open ::
  "'s files_provider \<Rightarrow> nat \<Rightarrow> nat \<Rightarrow> byte list \<Rightarrow> nat \<Rightarrow> nat \<Rightarrow> counters \<Rightarrow> 's
     \<Rightarrow> ((nat \<times> counters) \<times> nat \<times> 's) option" where
  "files_directory_open fp path len bytes out cell cs s =
     (if \<not> aligned_output out 8 then Some (files_record INVALID_ARGUMENT 9 cs, cell, s)
      else case io_path path len bytes of
          None \<Rightarrow> Some (files_record INVALID_ARGUMENT 9 cs, 0, s)
        | Some p \<Rightarrow>
            map_option (\<lambda>(r, s'). let (st, cell') = files_handle r in (files_record st 9 cs, cell', s'))
              (fp_open_directory fp p s))"

text \<open>
  One round of the loop of \<open>directory_read\<close>: the status, the length and kind cells, the name buffer
  and the provider's state (\<open>Inl\<close>), or a self reference to skip (\<open>Inr\<close>).
\<close>

definition directory_read_once ::
  "'s files_provider \<Rightarrow> nat \<Rightarrow> nat \<Rightarrow> 's \<Rightarrow> ((nat \<times> nat \<times> nat \<times> byte list \<times> 's) + 's) option" where
  "directory_read_once fp directory capacity s =
     map_option (\<lambda>(r, name, s').
       case r of
         Inl e \<Rightarrow> Inl (status e, 0, 0, replicate capacity 0, s')
       | Inr (count, node) \<Rightarrow>
           if count = 0 \<or> MAX_ENTRY_NAME < count then Inl (OS_ERROR, 0, 0, replicate capacity 0, s')
           else if take count name = [DOT] \<or> take count name = [DOT, DOT] then Inr s'
           else if NODE_FILE \<le> node \<and> node \<le> NODE_OTHER \<and> 0 \<notin> set (take count name) \<and> SLASH \<notin> set (take count name)
           then Inl (OK, count, node, name, s')
           else Inl (OS_ERROR, 0, 0, replicate capacity 0, s'))
     (fp_read_directory fp directory (replicate capacity 0) s)"

partial_function (option) directory_read_loop ::
  "'s files_provider \<Rightarrow> nat \<Rightarrow> nat \<Rightarrow> 's \<Rightarrow> (nat \<times> nat \<times> nat \<times> byte list \<times> 's) option" where
  "directory_read_loop fp directory capacity s =
     Option.bind (directory_read_once fp directory capacity s) (\<lambda>round.
       case round of Inl out \<Rightarrow> Some out | Inr s' \<Rightarrow> directory_read_loop fp directory capacity s')"

definition files_directory_read ::
  "'s files_provider \<Rightarrow> nat \<Rightarrow> nat \<Rightarrow> byte list \<Rightarrow> nat \<Rightarrow> nat \<Rightarrow> nat \<Rightarrow> nat \<Rightarrow> counters \<Rightarrow> 's
     \<Rightarrow> ((nat \<times> counters) \<times> nat \<times> nat \<times> byte list \<times> 's) option" where
  "files_directory_read fp directory name buf len lcell kind kcell cs s =
     (let capacity = length buf in
      if \<not> aligned_output len 8 \<or> \<not> aligned_output kind 4 then Some (files_record INVALID_ARGUMENT 9 cs, lcell, kcell, buf, s)
      else if directory = 0 \<or> name = 0 \<or> capacity < MAX_ENTRY_NAME \<or> \<not> valid_buffer name capacity
      then Some (files_record INVALID_ARGUMENT 9 cs, 0, 0, buf, s)
      else map_option (\<lambda>(st, l, k, buf', s'). (files_record st 9 cs, l, k, buf', s'))
             (directory_read_loop fp directory capacity s))"

definition files_directory_close ::
  "'s files_provider \<Rightarrow> nat \<Rightarrow> counters \<Rightarrow> 's \<Rightarrow> ((nat \<times> counters) \<times> 's) option" where
  "files_directory_close fp directory cs s =
     (if directory = 0 then files_refuse 9 cs s else files_done 9 cs (fp_close_directory fp directory s))"

text \<open>The answer of a text call: BUFFER_TOO_SMALL passes beside the shared set.\<close>

definition files_text ::
  "nat \<Rightarrow> byte list \<Rightarrow> counters \<Rightarrow> (byte list \<Rightarrow> 's \<Rightarrow> (nat result \<times> byte list \<times> 's) option) \<Rightarrow> 's
     \<Rightarrow> ((nat \<times> counters) \<times> nat \<times> byte list \<times> 's) option" where
  "files_text index buf cs f s =
     map_option (\<lambda>(r, left, s').
         let (st, needed, buf') = io_text buf 0 (MAX_NAME + 1) (\<lambda>_. (r, left))
         in (if st = BUFFER_TOO_SMALL then (st, bump F_FAILED cs) else files_record st index cs, needed, buf', s'))
       (f (replicate (length buf) 0) s)"

definition files_current_directory ::
  "'s files_provider \<Rightarrow> nat \<Rightarrow> byte list \<Rightarrow> nat \<Rightarrow> nat \<Rightarrow> counters \<Rightarrow> 's
     \<Rightarrow> ((nat \<times> counters) \<times> nat \<times> byte list \<times> 's) option" where
  "files_current_directory fp out buf needed cell cs s =
     (if \<not> aligned_output needed 8 \<or> \<not> valid_buffer out (length buf)
      then Some (files_record INVALID_ARGUMENT 9 cs, cell, buf, s)
      else files_text 9 buf cs (fp_current_directory fp) s)"

definition path_text ::
  "nat \<Rightarrow> nat \<Rightarrow> byte list \<Rightarrow> nat \<Rightarrow> byte list \<Rightarrow> nat \<Rightarrow> nat \<Rightarrow> counters
     \<Rightarrow> (byte list \<Rightarrow> byte list \<Rightarrow> 's \<Rightarrow> (nat result \<times> byte list \<times> 's) option) \<Rightarrow> 's
     \<Rightarrow> ((nat \<times> counters) \<times> nat \<times> byte list \<times> 's) option" where
  "path_text path len bytes out buf needed cell cs f s =
     (if \<not> aligned_output needed 8 \<or> \<not> valid_buffer out (length buf)
      then Some (files_record INVALID_ARGUMENT F_LINK cs, cell, buf, s)
      else case io_path path len bytes of
          None \<Rightarrow> Some (files_record INVALID_ARGUMENT F_LINK cs, 0, buf, s)
        | Some p \<Rightarrow> files_text F_LINK buf cs (f p) s)"

definition files_read_link where
  "files_read_link fp path len bytes out buf needed cell cs s =
     path_text path len bytes out buf needed cell cs (fp_read_link fp) s"

definition files_real_path where
  "files_real_path fp path len bytes out buf needed cell cs s =
     path_text path len bytes out buf needed cell cs (fp_real_path fp) s"

section \<open>Locks and statistics\<close>

definition record_lock :: "nat \<Rightarrow> bool \<Rightarrow> counters \<Rightarrow> nat \<times> counters" where
  "record_lock st may_refuse cs =
     (if st = WOULD_BLOCK \<and> may_refuse then (st, bump F_FAILED cs) else files_record st F_LOCK cs)"

definition files_lock ::
  "'s files_provider \<Rightarrow> nat \<Rightarrow> nat \<Rightarrow> nat \<Rightarrow> counters \<Rightarrow> 's \<Rightarrow> ((nat \<times> counters) \<times> 's) option" where
  "files_lock fp file mode wait cs s =
     (if file = 0 \<or> \<not> (LOCK_SHARED \<le> mode \<and> mode \<le> LOCK_UNLOCK) \<or> 1 < wait then files_refuse F_LOCK cs s
      else map_option (\<lambda>(r, s'). (record_lock (port_status r) (wait = 0 \<and> mode \<noteq> LOCK_UNLOCK) cs, s'))
             (fp_lock fp file mode (wait \<noteq> 0) s))"

definition files_lock_range ::
  "'s files_provider \<Rightarrow> nat \<Rightarrow> nat \<Rightarrow> nat \<Rightarrow> nat \<Rightarrow> counters \<Rightarrow> 's \<Rightarrow> ((nat \<times> counters) \<times> 's) option" where
  "files_lock_range fp file offset len mode cs s =
     (if file = 0 \<or> \<not> (LOCK_SHARED \<le> mode \<and> mode \<le> LOCK_UNLOCK) \<or> len = 0 \<or> I64_MAX < offset \<or> I64_MAX - offset < len
      then files_refuse F_LOCK cs s
      else map_option (\<lambda>(r, s'). (record_lock (port_status r) (mode \<noteq> LOCK_UNLOCK) cs, s'))
             (fp_lock_range fp file offset len mode s))"

abbreviation FILE_STATS_SIZE :: nat where "FILE_STATS_SIZE \<equiv> 112"

text \<open>\<open>Stats\<close> lists the fourteen counters in the order of their indices.\<close>

definition files_read_stats :: "nat \<Rightarrow> nat \<Rightarrow> counters \<Rightarrow> counters \<Rightarrow> nat \<times> counters" where
  "files_read_stats out sz cell cs =
     (if \<not> aligned_output out 8 \<or> sz < FILE_STATS_SIZE then (INVALID_ARGUMENT, cell) else (OK, cs))"

abbreviation CAP_FILES :: caps where "CAP_FILES \<equiv> 134217728"

definition files_negotiate :: "bool \<Rightarrow> caps \<times> ops" where
  "files_negotiate provided =
     (if \<not> provided then (0, [''read_stats''])
      else (CAP_FILES, [''open'', ''close'', ''read_at'', ''write_at'', ''set_size'', ''flush'', ''status'', ''path_status'',
        ''remove'', ''rename'', ''directory_create'', ''directory_remove'', ''directory_open'', ''directory_read'',
        ''directory_close'', ''current_directory'', ''read_stats'', ''set_mode'', ''set_file_mode'', ''set_times'',
        ''set_file_times'', ''link'', ''symlink'', ''read_link'', ''real_path'', ''set_current_directory'', ''lock'',
        ''lock_range'']))"

section \<open>What a consumer may rely on, whatever the provider does\<close>

interpretation files_rec: status_recorder files_record "\<lambda>_ st. st \<in> set files_statuses"
  by unfold_locales (auto simp: files_record_def files_statuses_def Let_def)

lemma files_handle_pair: "files_handle r = (st, c) \<Longrightarrow> (st = OK) = (c \<noteq> 0)"
  by (cases r) (auto simp: files_handle_def status_not_OK split: if_splits)

lemma files_open_contract:
  assumes "files_open fp path len bytes fl mode out cell cs s = Some ((st, cs'), cell', s')" "aligned_output out 8"
  shows "st \<in> set files_statuses \<and> (st = OK) = (cell' \<noteq> 0)"
proof (cases "io_path path len bytes = None \<or> \<not> valid_open fl \<or> mode AND NOT MODE_MASK \<noteq> 0")
  case True
  then show ?thesis using assms by (auto simp: files_open_def dest!: files_rec.pair split: option.splits if_splits)
next
  case False
  then obtain p r t where "io_path path len bytes = Some p" "fp_open fp p fl mode s = Some (r, t)"
    using assms by (auto simp: files_open_def)
  then show ?thesis using False assms
    by (cases "files_handle r") (auto simp: files_open_def dest!: files_rec.pair files_handle_pair)
qed

lemma files_read_at_contract:
  assumes "files_read_at fp file offset data buf got cell cs s = Some ((st, cs'), cell', buf', s')" "aligned_output got 8"
  shows "st \<in> set files_statuses \<and> cell' \<le> length buf \<and> (st \<noteq> OK \<longrightarrow> cell' = 0)"
proof (cases "fp_read_at fp file offset buf s")
  case None
  then show ?thesis using assms by (auto simp: files_read_at_def Let_def dest!: files_rec.pair split: if_splits)
next
  case (Some x)
  obtain r b t where "x = (r, b, t)" by (cases x)
  then show ?thesis using Some assms
    by (cases r) (auto simp: files_read_at_def Let_def dest!: files_rec.pair split: if_splits)
qed

lemma files_write_at_contract:
  assumes "files_write_at fp file offset data bytes written cell cs s = Some ((st, cs'), cell', s')" "aligned_output written 8"
  shows "st \<in> set files_statuses \<and> cell' \<le> length bytes \<and> (st \<noteq> OK \<longrightarrow> cell' = 0)
    \<and> (st = OK \<longrightarrow> bytes \<noteq> [] \<longrightarrow> 0 < cell')"
proof (cases "fp_write_at fp file offset bytes s")
  case None
  then show ?thesis using assms by (auto simp: files_write_at_def Let_def dest!: files_rec.pair split: if_splits)
next
  case (Some x)
  obtain r t where "x = (r, t)" by (cases x)
  then show ?thesis using Some assms
    by (cases r) (auto simp: files_write_at_def Let_def status_not_OK dest!: files_rec.pair split: if_splits)
qed

definition entry_name_ok :: "byte list \<Rightarrow> bool" where
  "entry_name_ok n \<longleftrightarrow> n \<noteq> [] \<and> length n \<le> MAX_ENTRY_NAME \<and> n \<noteq> [DOT] \<and> n \<noteq> [DOT, DOT] \<and> 0 \<notin> set n \<and> SLASH \<notin> set n"

definition entry_reported :: "nat \<Rightarrow> nat \<times> nat \<times> nat \<times> byte list \<times> 's \<Rightarrow> bool" where
  "entry_reported capacity = (\<lambda>(st, l, k, name, s).
     if st = OK then entry_name_ok (take l name) \<and> l \<le> length name \<and> NODE_FILE \<le> k \<and> k \<le> NODE_OTHER
     else l = 0 \<and> k = 0 \<and> name = replicate capacity 0)"

lemma directory_read_once_contract:
  assumes "directory_read_once fp directory capacity s = Some (Inl y)"
    and "\<And>d b t r b' t'. fp_read_directory fp d b t = Some (r, b', t') \<Longrightarrow> length b' = length b"
    and "MAX_ENTRY_NAME \<le> capacity"
  shows "entry_reported capacity y"
proof -
  obtain r b t where call: "fp_read_directory fp directory (replicate capacity 0) s = Some (r, b, t)"
    using assms(1) by (auto simp: directory_read_once_def)
  moreover have "length b = capacity" using assms(2) [OF call] by simp
  ultimately show ?thesis using assms(1,3)
    by (cases r) (auto simp: directory_read_once_def entry_reported_def entry_name_ok_def split: if_splits)
qed

lemma directory_read_loop_contract:
  assumes "directory_read_loop fp directory capacity s = Some y"
    and "\<And>d b t r b' t'. fp_read_directory fp d b t = Some (r, b', t') \<Longrightarrow> length b' = length b"
    and "MAX_ENTRY_NAME \<le> capacity"
  shows "entry_reported capacity y"
  using assms
proof (induction rule: directory_read_loop.raw_induct [rotated 1, consumes 1])
  case (1 loop fp directory capacity s y)
  then show ?case
    by (cases "directory_read_once fp directory capacity s")
      (auto dest: directory_read_once_contract split: sum.splits)
qed

end
