(* ===== verification/Pal_Watches.thy ===== *)
theory Pal_Watches
  imports Pal_Io
begin

text \<open>
  The change-watching group of the boundary (\<open>src/src/watches.rs\<close>): the event record, the
  provider interface (\<open>Watches\<close> of \<open>src/src/port.rs\<close>) and the five checked entry points. A
  provider is a record of state-passing functions; the front end threads the provider's state, the
  group's counters and the caller's output cell.
\<close>

section \<open>Kinds of event\<close>

abbreviation W_ACCESS :: flags where "W_ACCESS \<equiv> 1"
abbreviation W_MODIFY :: flags where "W_MODIFY \<equiv> 2"
abbreviation W_ATTRIBUTES :: flags where "W_ATTRIBUTES \<equiv> 4"
abbreviation W_MOVED_FROM :: flags where "W_MOVED_FROM \<equiv> 8"
abbreviation W_MOVED_TO :: flags where "W_MOVED_TO \<equiv> 16"
abbreviation W_CREATE :: flags where "W_CREATE \<equiv> 32"
abbreviation W_DELETE :: flags where "W_DELETE \<equiv> 64"
abbreviation W_OVERFLOW :: flags where "W_OVERFLOW \<equiv> 128"
abbreviation W_REMOVED :: flags where "W_REMOVED \<equiv> 256"
abbreviation W_DIRECTORY :: flags where "W_DIRECTORY \<equiv> 512"
abbreviation W_ONLY_DIRECTORY :: flags where "W_ONLY_DIRECTORY \<equiv> 1024"
abbreviation W_NO_FOLLOW :: flags where "W_NO_FOLLOW \<equiv> 2048"

definition REQUESTABLE :: flags where
  "REQUESTABLE = W_ACCESS OR W_MODIFY OR W_ATTRIBUTES OR W_MOVED_FROM OR W_MOVED_TO OR W_CREATE OR W_DELETE"

definition REPORTABLE :: flags where
  "REPORTABLE = REQUESTABLE OR W_OVERFLOW OR W_REMOVED OR W_DIRECTORY"

abbreviation FOREVER :: nat where "FOREVER \<equiv> U64_MAX"

section \<open>The event record\<close>

record event =
  ev_watch :: "32 word"
  ev_events :: flags
  ev_cookie :: "32 word"
  ev_name_length :: nat
  ev_name :: "byte list"

definition EMPTY_EVENT :: event where
  "EMPTY_EVENT = \<lparr>ev_watch = 0, ev_events = 0, ev_cookie = 0, ev_name_length = 0, ev_name = replicate 256 0\<rparr>"

definition event_new :: "32 word \<Rightarrow> flags \<Rightarrow> 32 word \<Rightarrow> byte list \<Rightarrow> event option" where
  "event_new watch events cookie name =
     (if MAX_ENTRY_NAME < length name \<or> list_ex (\<lambda>b. b = 0 \<or> b = SLASH) name then None
      else Some \<lparr>ev_watch = watch, ev_events = events, ev_cookie = cookie,
             ev_name_length = length name, ev_name = overwrite (replicate 256 0) 0 name\<rparr>)"

definition event_name :: "event \<Rightarrow> byte list" where
  "event_name e = take (min (ev_name_length e) MAX_ENTRY_NAME) (ev_name e)"

section \<open>The provider interface and the front end\<close>

record 's watches_provider =
  wp_open :: "'s \<Rightarrow> nat result \<times> 's"
  wp_close :: "nat \<Rightarrow> 's \<Rightarrow> unit result \<times> 's"
  wp_add :: "nat \<Rightarrow> byte list \<Rightarrow> flags \<Rightarrow> 's \<Rightarrow> 32 word result \<times> 's"
  wp_remove :: "nat \<Rightarrow> 32 word \<Rightarrow> 's \<Rightarrow> unit result \<times> 's"
  wp_read :: "nat \<Rightarrow> nat \<Rightarrow> event \<Rightarrow> 's \<Rightarrow> (unit result \<times> event \<times> 's) option"

abbreviation EVENT_SIZE :: nat where "EVENT_SIZE \<equiv> 272"

definition watches_record :: "nat \<Rightarrow> nat \<Rightarrow> counters \<Rightarrow> nat \<times> counters" where
  "watches_record st index cs =
     (let st' =
        (if st \<in> {OK, UNSUPPORTED, INVALID_ARGUMENT, OS_ERROR, OUT_OF_MEMORY} then st
         else if st \<in> {NO_SPACE, TOO_MANY_HANDLES} \<and> (index = 0 \<or> index = 2) then st
         else if st \<in> {NOT_FOUND, NOT_DIRECTORY, ACCESS_DENIED, NAME_TOO_LONG} \<and> index = 2 then st
         else if st = TIMEOUT \<and> index = 4 then st
         else OS_ERROR)
      in (st', bump (if st' = OK then index else 5) cs))"

definition watches_open ::
  "'s watches_provider \<Rightarrow> nat \<Rightarrow> nat \<Rightarrow> counters \<Rightarrow> 's \<Rightarrow> (nat \<times> counters) \<times> nat \<times> 's" where
  "watches_open wp watcher cell cs s =
     (if \<not> aligned_output watcher 8 then (watches_record INVALID_ARGUMENT 0 cs, cell, s)
      else case wp_open wp s of
          (Inr handle, s') \<Rightarrow>
            if handle = 0 then (watches_record OS_ERROR 0 cs, 0, s')
            else (watches_record OK 0 cs, handle, s')
        | (Inl e, s') \<Rightarrow> (watches_record (status e) 0 cs, 0, s'))"

definition watches_close ::
  "'s watches_provider \<Rightarrow> nat \<Rightarrow> counters \<Rightarrow> 's \<Rightarrow> (nat \<times> counters) \<times> 's" where
  "watches_close wp watcher cs s =
     (if watcher = 0 then (watches_record INVALID_ARGUMENT 1 cs, s)
      else let (r, s') = wp_close wp watcher s in (watches_record (port_status r) 1 cs, s'))"

definition watches_add ::
  "'s watches_provider \<Rightarrow> nat \<Rightarrow> nat \<Rightarrow> nat \<Rightarrow> byte list \<Rightarrow> flags \<Rightarrow> nat \<Rightarrow> 32 word \<Rightarrow> counters \<Rightarrow> 's
     \<Rightarrow> (nat \<times> counters) \<times> 32 word \<times> 's" where
  "watches_add wp watcher path path_length bytes events watch cell cs s =
     (if \<not> aligned_output watch 4 then (watches_record INVALID_ARGUMENT 2 cs, cell, s)
      else case io_path path path_length bytes of
          None \<Rightarrow> (watches_record INVALID_ARGUMENT 2 cs, 0, s)
        | Some p \<Rightarrow>
            if watcher = 0 \<or> events AND REQUESTABLE = 0
               \<or> events AND NOT (REQUESTABLE OR W_ONLY_DIRECTORY OR W_NO_FOLLOW) \<noteq> 0
            then (watches_record INVALID_ARGUMENT 2 cs, 0, s)
            else case wp_add wp watcher p events s of
                (Inr i, s') \<Rightarrow>
                  if i = 0 then (watches_record OS_ERROR 2 cs, 0, s')
                  else (watches_record OK 2 cs, i, s')
              | (Inl e, s') \<Rightarrow> (watches_record (status e) 2 cs, 0, s'))"

definition watches_remove ::
  "'s watches_provider \<Rightarrow> nat \<Rightarrow> 32 word \<Rightarrow> counters \<Rightarrow> 's \<Rightarrow> (nat \<times> counters) \<times> 's" where
  "watches_remove wp watcher watch cs s =
     (if watcher = 0 \<or> watch = 0 then (watches_record INVALID_ARGUMENT 3 cs, s)
      else let (r, s') = wp_remove wp watcher watch s in (watches_record (port_status r) 3 cs, s'))"

text \<open>An event a consumer could not act on.\<close>

definition event_broken :: "event \<Rightarrow> bool" where
  "event_broken e \<longleftrightarrow>
     ev_events e AND REPORTABLE AND NOT W_DIRECTORY = 0
     \<or> ev_events e AND NOT REPORTABLE \<noteq> 0
     \<or> (ev_events e AND W_OVERFLOW \<noteq> 0) \<noteq> (ev_watch e = 0)
     \<or> MAX_ENTRY_NAME < ev_name_length e
     \<or> ev_name e ! ev_name_length e \<noteq> 0
     \<or> list_ex (\<lambda>b. b = 0 \<or> b = SLASH) (take (ev_name_length e) (ev_name e))"

text \<open>A read may wait without limit: \<open>None\<close> is the read that never returns.\<close>

definition watches_read ::
  "'s watches_provider \<Rightarrow> nat \<Rightarrow> nat \<Rightarrow> nat \<Rightarrow> nat \<Rightarrow> event \<Rightarrow> counters \<Rightarrow> 's
     \<Rightarrow> ((nat \<times> counters) \<times> event \<times> 's) option" where
  "watches_read wp watcher timeout_ns event event_size cell cs s =
     (if \<not> aligned_output event 4 \<or> event_size < EVENT_SIZE
      then Some (watches_record INVALID_ARGUMENT 4 cs, cell, s)
      else if watcher = 0 then Some (watches_record INVALID_ARGUMENT 4 cs, EMPTY_EVENT, s)
      else map_option (\<lambda>(r, out, s').
             let st = (case r of Inr _ \<Rightarrow> if event_broken out then OS_ERROR else OK | Inl e \<Rightarrow> status e)
             in (watches_record st 4 cs, if st \<noteq> OK then EMPTY_EVENT else out, s'))
           (wp_read wp watcher timeout_ns EMPTY_EVENT s))"

abbreviation WATCH_STATS_SIZE :: nat where "WATCH_STATS_SIZE \<equiv> 48"

definition watches_read_stats :: "nat \<Rightarrow> nat \<Rightarrow> counters \<Rightarrow> counters \<Rightarrow> nat \<times> counters" where
  "watches_read_stats out sz cell cs =
     (if \<not> aligned_output out 8 \<or> sz < WATCH_STATS_SIZE then (INVALID_ARGUMENT, cell) else (OK, cs))"

abbreviation CAP_WATCHES :: caps where "CAP_WATCHES \<equiv> 17179869184"

definition watches_negotiate :: "bool \<Rightarrow> caps \<times> ops" where
  "watches_negotiate provided =
     (if \<not> provided then (0, [''read_stats''])
      else (CAP_WATCHES, [''open'', ''close'', ''add'', ''remove'', ''read'', ''read_stats'']))"

section \<open>Facts\<close>

definition watches_published :: "nat \<Rightarrow> nat \<Rightarrow> bool" where
  "watches_published i st \<longleftrightarrow>
     st \<in> {OK, UNSUPPORTED, INVALID_ARGUMENT, OS_ERROR, OUT_OF_MEMORY}
     \<or> st \<in> {NO_SPACE, TOO_MANY_HANDLES} \<and> i \<in> {0, 2}
     \<or> st \<in> {NOT_FOUND, NOT_DIRECTORY, ACCESS_DENIED, NAME_TOO_LONG} \<and> i = 2
     \<or> st = TIMEOUT \<and> i = 4"

interpretation watches_rec: status_recorder watches_record watches_published
  by unfold_locales (auto simp: watches_record_def watches_published_def Let_def)

lemma event_new_Some:
  assumes "event_new w k c n = Some e"
  shows "event_name e = n \<and> ev_name_length e = length n \<and> length (ev_name e) = 256
    \<and> ev_name e ! length n = 0 \<and> ev_watch e = w \<and> ev_events e = k \<and> ev_cookie e = c"
  using assms by (auto simp: event_new_def event_name_def overwrite_def nth_append split: if_splits)

lemma event_new_Some_iff:
  "(\<exists>e. event_new w k c n = Some e) \<longleftrightarrow> length n \<le> MAX_ENTRY_NAME \<and> 0 \<notin> set n \<and> SLASH \<notin> set n"
  by (auto simp: event_new_def list_ex_iff)

text \<open>Whatever the provider answers, a read that is OK delivers an event a consumer can act on.\<close>

lemma watches_read_contract:
  assumes "watches_read wp watcher timeout_ns event event_size cell cs s = Some ((st, cs'), out, s')"
    and "aligned_output event 4" "EVENT_SIZE \<le> event_size"
  shows "(st = OK \<longrightarrow> \<not> event_broken out) \<and> (st \<noteq> OK \<longrightarrow> out = EMPTY_EVENT)"
proof (cases "wp_read wp watcher timeout_ns EMPTY_EVENT s")
  case None
  then show ?thesis using assms by (auto simp: watches_read_def dest!: watches_rec.pair split: if_splits)
next
  case (Some x)
  obtain r e t where "x = (r, e, t)" by (cases x)
  then show ?thesis using Some assms
    by (cases r) (auto simp: watches_read_def Let_def dest!: watches_rec.pair split: if_splits)
qed

end
