(* ===== verification/Pal_Mappings.thy ===== *)
theory Pal_Mappings
  imports Pal_Io
begin

text \<open>
  The file mapping group of the boundary (\<open>src/src/mappings.rs\<close>): the provider interface
  (\<open>Mappings\<close> of \<open>src/src/port.rs\<close>) and the checked entry points. The access bits are those of the
  runtime group (\<open>src/src/runtime.rs\<close>).
\<close>

abbreviation R_READ :: flags where "R_READ \<equiv> 1"
abbreviation R_WRITE :: flags where "R_WRITE \<equiv> 2"
abbreviation R_EXECUTE :: flags where "R_EXECUTE \<equiv> 4"
abbreviation SHARED :: nat where "SHARED \<equiv> 1"
abbreviation PRIVATE :: nat where "PRIVATE \<equiv> 2"

record 's mappings_provider =
  mp_map :: "nat \<Rightarrow> nat \<Rightarrow> nat \<Rightarrow> flags \<Rightarrow> bool \<Rightarrow> 's \<Rightarrow> nat result \<times> 's"
  mp_unmap :: "nat \<Rightarrow> nat \<Rightarrow> 's \<Rightarrow> unit result \<times> 's"
  mp_sync :: "nat \<Rightarrow> nat \<Rightarrow> 's \<Rightarrow> unit result \<times> 's"

definition mappings_record :: "nat \<Rightarrow> nat \<Rightarrow> counters \<Rightarrow> nat \<times> counters" where
  "mappings_record st index cs =
     (let st' =
        (if st \<in> {OK, UNSUPPORTED, INVALID_ARGUMENT, OS_ERROR} then st
         else if st \<in> {OUT_OF_MEMORY, ACCESS_DENIED} \<and> index = 0 then st
         else OS_ERROR)
      in (st', bump (if st' = OK then index else 3) cs))"

definition valid_range :: "nat \<Rightarrow> nat \<Rightarrow> bool" where
  "valid_range address len \<longleftrightarrow> address \<noteq> 0 \<and> len \<noteq> 0 \<and> len \<le> ISIZE_MAX \<and> checked_add address len \<noteq> None"

definition mappings_map ::
  "'s mappings_provider \<Rightarrow> nat \<Rightarrow> nat \<Rightarrow> nat \<Rightarrow> flags \<Rightarrow> nat \<Rightarrow> nat \<Rightarrow> nat \<Rightarrow> counters \<Rightarrow> 's
     \<Rightarrow> (nat \<times> counters) \<times> nat \<times> 's" where
  "mappings_map mp file offset len access mode address cell cs s =
     (if \<not> aligned_output address 8 then (mappings_record INVALID_ARGUMENT 0 cs, cell, s)
      else if file = 0 \<or> len = 0 \<or> ISIZE_MAX < len
        \<or> (case checked_add offset len of None \<Rightarrow> True | Some stop \<Rightarrow> I64_MAX < stop)
        \<or> access = 0 \<or> access AND NOT (R_READ OR R_WRITE OR R_EXECUTE) \<noteq> 0 \<or> mode \<notin> {SHARED, PRIVATE}
      then (mappings_record INVALID_ARGUMENT 0 cs, 0, s)
      else case mp_map mp file offset len access (mode = SHARED) s of
          (Inr mapped, s') \<Rightarrow>
            if mapped = 0 \<or> checked_add mapped len = None then (mappings_record OS_ERROR 0 cs, 0, s')
            else (mappings_record OK 0 cs, mapped, s')
        | (Inl e, s') \<Rightarrow> (mappings_record (status e) 0 cs, 0, s'))"

definition mappings_unmap ::
  "'s mappings_provider \<Rightarrow> nat \<Rightarrow> nat \<Rightarrow> counters \<Rightarrow> 's \<Rightarrow> (nat \<times> counters) \<times> 's" where
  "mappings_unmap mp address len cs s =
     (if \<not> valid_range address len then (mappings_record INVALID_ARGUMENT 1 cs, s)
      else let (r, s') = mp_unmap mp address len s in (mappings_record (port_status r) 1 cs, s'))"

definition mappings_sync ::
  "'s mappings_provider \<Rightarrow> nat \<Rightarrow> nat \<Rightarrow> counters \<Rightarrow> 's \<Rightarrow> (nat \<times> counters) \<times> 's" where
  "mappings_sync mp address len cs s =
     (if \<not> valid_range address len then (mappings_record INVALID_ARGUMENT 2 cs, s)
      else let (r, s') = mp_sync mp address len s in (mappings_record (port_status r) 2 cs, s'))"

abbreviation MAPPING_STATS_SIZE :: nat where "MAPPING_STATS_SIZE \<equiv> 32"

definition mappings_read_stats :: "nat \<Rightarrow> nat \<Rightarrow> counters \<Rightarrow> counters \<Rightarrow> nat \<times> counters" where
  "mappings_read_stats out sz cell cs =
     (if \<not> aligned_output out 8 \<or> sz < MAPPING_STATS_SIZE then (INVALID_ARGUMENT, cell) else (OK, cs))"

abbreviation CAP_MAPPINGS :: caps where "CAP_MAPPINGS \<equiv> 34359738368"

definition mappings_negotiate :: "bool \<Rightarrow> caps \<times> ops" where
  "mappings_negotiate provided =
     (if \<not> provided then (0, [''read_stats'']) else (CAP_MAPPINGS, [''map'', ''unmap'', ''sync'', ''read_stats'']))"

interpretation mappings_rec: status_recorder mappings_record
  "\<lambda>i st. st \<in> {OK, UNSUPPORTED, INVALID_ARGUMENT, OS_ERROR} \<or> st \<in> {OUT_OF_MEMORY, ACCESS_DENIED} \<and> i = 0"
  by unfold_locales (auto simp: mappings_record_def Let_def)

text \<open>An OK mapping is a range a pointer can walk, for every provider.\<close>

lemma mappings_map_contract:
  assumes "mappings_map mp file offset len access mode address cell cs s = ((st, cs'), cell', s')"
    and "aligned_output address 8"
  shows "(st = OK \<longrightarrow> valid_range cell' len) \<and> (st \<noteq> OK \<longrightarrow> cell' = 0)"
proof -
  obtain r t where "mp_map mp file offset len access (mode = SHARED) s = (r, t)" by fastforce
  then show ?thesis using assms
    by (cases r) (auto simp: mappings_map_def valid_range_def dest!: mappings_rec.pair split: if_splits)
qed

end
