(* ===== verification/Pal_Volumes.thy ===== *)
theory Pal_Volumes
  imports Pal_Files
begin

text \<open>
  The volumes group of the boundary (\<open>src/src/volumes.rs\<close>): the status record with its repair of a
  target's inconsistent figures, the provider interface (\<open>Volumes\<close> of \<open>src/src/port.rs\<close>) and the
  checked entry points.
\<close>

record volume_status =
  vs_total_bytes :: nat
  vs_free_bytes :: nat
  vs_available_bytes :: nat
  vs_format :: "byte list"

abbreviation VOLUME_STATUS_SIZE :: nat where "VOLUME_STATUS_SIZE \<equiv> 56"

definition EMPTY_VOLUME :: volume_status where
  "EMPTY_VOLUME = \<lparr>vs_total_bytes = 0, vs_free_bytes = 0, vs_available_bytes = 0, vs_format = replicate 32 0\<rparr>"

definition volume_status_new :: "nat \<Rightarrow> nat \<Rightarrow> nat \<Rightarrow> byte list \<Rightarrow> volume_status" where
  "volume_status_new whole free available format =
     (let free = min free whole;
          len = min (case position (\<lambda>b. b = 0) format of Some i \<Rightarrow> i | None \<Rightarrow> length format) 31
      in \<lparr>vs_total_bytes = whole, vs_free_bytes = free, vs_available_bytes = min available free,
          vs_format = overwrite (replicate 32 0) 0 (take len format)\<rparr>)"

record 's volumes_provider =
  vp_entry :: "nat \<Rightarrow> byte list \<Rightarrow> 's \<Rightarrow> nat result \<times> byte list \<times> 's"
  vp_status :: "byte list \<Rightarrow> 's \<Rightarrow> volume_status result \<times> 's"

definition volumes_record :: "nat \<Rightarrow> nat \<Rightarrow> counters \<Rightarrow> nat \<times> counters" where
  "volumes_record st index cs =
     (let st' =
        (if st \<in> {OK, UNSUPPORTED, INVALID_ARGUMENT, OS_ERROR, OUT_OF_MEMORY, NOT_FOUND} then st
         else if st = BUFFER_TOO_SMALL \<and> index = 0 then st
         else if st = ACCESS_DENIED \<and> index = 1 then st
         else OS_ERROR)
      in (st', bump (if st' = OK then index else 2) cs))"

definition volumes_entry ::
  "'s volumes_provider \<Rightarrow> nat \<Rightarrow> nat \<Rightarrow> byte list \<Rightarrow> nat \<Rightarrow> nat \<Rightarrow> counters \<Rightarrow> 's
     \<Rightarrow> (nat \<times> counters) \<times> nat \<times> byte list \<times> 's" where
  "volumes_entry vp index out buf needed cell cs s =
     (if \<not> aligned_output needed 8 \<or> \<not> valid_buffer out (length buf)
      then (volumes_record INVALID_ARGUMENT 0 cs, cell, buf, s)
      else let (r, left, s') = vp_entry vp index (replicate (length buf) 0) s;
               (st, needed', buf') = io_text buf 0 (MAX_NAME + 1) (\<lambda>_. (r, left))
           in (volumes_record st 0 cs, needed', buf', s'))"

definition volume_broken :: "volume_status \<Rightarrow> bool" where
  "volume_broken v \<longleftrightarrow>
     vs_total_bytes v < vs_free_bytes v \<or> vs_free_bytes v < vs_available_bytes v \<or> vs_format v ! 31 \<noteq> 0"

definition volumes_status ::
  "'s volumes_provider \<Rightarrow> nat \<Rightarrow> nat \<Rightarrow> byte list \<Rightarrow> nat \<Rightarrow> nat \<Rightarrow> volume_status \<Rightarrow> counters \<Rightarrow> 's
     \<Rightarrow> (nat \<times> counters) \<times> volume_status \<times> 's" where
  "volumes_status vp path len bytes out out_size cell cs s =
     (if \<not> aligned_output out 8 \<or> out_size < VOLUME_STATUS_SIZE
      then (volumes_record INVALID_ARGUMENT 1 cs, cell, s)
      else case io_path path len bytes of
          None \<Rightarrow> (volumes_record INVALID_ARGUMENT 1 cs, EMPTY_VOLUME, s)
        | Some p \<Rightarrow>
            (case vp_status vp p s of
               (Inr v, s') \<Rightarrow>
                 if volume_broken v then (volumes_record OS_ERROR 1 cs, EMPTY_VOLUME, s')
                 else (volumes_record OK 1 cs, v, s')
             | (Inl e, s') \<Rightarrow> (volumes_record (status e) 1 cs, EMPTY_VOLUME, s')))"

abbreviation VOLUME_STATS_SIZE :: nat where "VOLUME_STATS_SIZE \<equiv> 24"

definition volumes_read_stats :: "nat \<Rightarrow> nat \<Rightarrow> counters \<Rightarrow> counters \<Rightarrow> nat \<times> counters" where
  "volumes_read_stats out sz cell cs =
     (if \<not> aligned_output out 8 \<or> sz < VOLUME_STATS_SIZE then (INVALID_ARGUMENT, cell) else (OK, cs))"

abbreviation CAP_VOLUMES :: caps where "CAP_VOLUMES \<equiv> 68719476736"

definition volumes_negotiate :: "bool \<Rightarrow> caps \<times> ops" where
  "volumes_negotiate provided =
     (if \<not> provided then (0, [''read_stats'']) else (CAP_VOLUMES, [''entry'', ''status'', ''read_stats'']))"

interpretation volumes_rec: status_recorder volumes_record
  "\<lambda>i st. st \<in> {OK, UNSUPPORTED, INVALID_ARGUMENT, OS_ERROR, OUT_OF_MEMORY, NOT_FOUND}
     \<or> st = BUFFER_TOO_SMALL \<and> i = 0 \<or> st = ACCESS_DENIED \<and> i = 1"
  by unfold_locales (auto simp: volumes_record_def Let_def)

text \<open>A status made by the constructor passes the front end whatever the figures given to it.\<close>

lemma volume_status_new_accepted: "\<not> volume_broken (volume_status_new whole free available format)"
  by (auto simp: volume_broken_def volume_status_new_def Let_def overwrite_def nth_append)

end
