(* ===== verification/Pal_Sockets.thy ===== *)
theory Pal_Sockets
  imports Pal_Io
begin

text \<open>
  Internet sockets (\<open>src/src/sockets.rs\<close>): the endpoint record and its normal forms, the status
  filter of the group, and every checked entry point over any provider. An address argument is the
  pointer and the record behind it; poll entries and resolved addresses are lists the provider may
  rewrite in place.
\<close>

section \<open>Constants and data\<close>

abbreviation CAP_SOCKETS :: caps where "CAP_SOCKETS \<equiv> 268435456"
abbreviation IPV4 :: nat where "IPV4 \<equiv> 1"
abbreviation IPV6 :: nat where "IPV6 \<equiv> 2"
abbreviation LOCAL :: nat where "LOCAL \<equiv> 3"
abbreviation STREAM :: nat where "STREAM \<equiv> 1"
abbreviation RAW :: nat where "RAW \<equiv> 3"
abbreviation SHUTDOWN_READ :: nat where "SHUTDOWN_READ \<equiv> 1"
abbreviation SHUTDOWN_BOTH :: nat where "SHUTDOWN_BOTH \<equiv> 3"
abbreviation RECEIVE_PEEK :: flags where "RECEIVE_PEEK \<equiv> 1"
abbreviation POLL_READ :: flags where "POLL_READ \<equiv> 1"
abbreviation POLL_WRITE :: flags where "POLL_WRITE \<equiv> 2"
abbreviation POLL_ERROR :: flags where "POLL_ERROR \<equiv> 4"
abbreviation POLL_HANGUP :: flags where "POLL_HANGUP \<equiv> 8"
abbreviation MAX_POLL :: nat where "MAX_POLL \<equiv> 4096"
abbreviation POLL_CHANNELS :: nat where "POLL_CHANNELS \<equiv> 64"
abbreviation NO_CHANNEL :: nat where "NO_CHANNEL \<equiv> U32_MAX"
abbreviation SO_ERROR :: nat where "SO_ERROR \<equiv> 11"
abbreviation SO_AVAILABLE :: nat where "SO_AVAILABLE \<equiv> 12"
abbreviation SO_HOPS :: nat where "SO_HOPS \<equiv> 16"
abbreviation SO_MULTICAST_HOPS :: nat where "SO_MULTICAST_HOPS \<equiv> 17"
abbreviation SO_LAST :: nat where "SO_LAST \<equiv> 22"
abbreviation MAX_HOST_NAME :: nat where "MAX_HOST_NAME \<equiv> 255"
abbreviation MAX_RESOLVED :: nat where "MAX_RESOLVED \<equiv> 64"

record address =
  ad_family :: nat
  ad_port :: nat
  ad_scope :: nat
  ad_address :: "byte list"

definition DEFAULT_ADDRESS :: address where
  "DEFAULT_ADDRESS = \<lparr>ad_family = 0, ad_port = 0, ad_scope = 0, ad_address = replicate 16 0\<rparr>"

definition address_v4 :: "byte list \<Rightarrow> nat \<Rightarrow> address" where
  "address_v4 octets port = \<lparr>ad_family = IPV4, ad_port = port, ad_scope = 0, ad_address = octets @ replicate 12 0\<rparr>"

definition address_v6 :: "byte list \<Rightarrow> nat \<Rightarrow> nat \<Rightarrow> address" where
  "address_v6 octets port scope = \<lparr>ad_family = IPV6, ad_port = port, ad_scope = scope, ad_address = octets\<rparr>"

definition normalized :: "address \<Rightarrow> address option" where
  "normalized a =
     (if ad_family a = IPV4
      then Some (a\<lparr>ad_scope := 0, ad_address := take 4 (ad_address a) @ replicate (length (ad_address a) - 4) 0\<rparr>)
      else if ad_family a = IPV6 then Some a
      else None)"

definition reported :: "address \<Rightarrow> address option" where
  "reported a = (if ad_family a = LOCAL then Some (DEFAULT_ADDRESS\<lparr>ad_family := LOCAL\<rparr>) else normalized a)"

record poll_entry =
  pe_socket :: nat
  pe_requested :: flags
  pe_triggered :: flags

record 's sockets_provider =
  kp_create :: "nat \<Rightarrow> nat \<Rightarrow> 's \<Rightarrow> nat result \<times> 's"
  kp_close :: "nat \<Rightarrow> 's \<Rightarrow> unit result \<times> 's"
  kp_bind :: "nat \<Rightarrow> address \<Rightarrow> 's \<Rightarrow> unit result \<times> 's"
  kp_listen :: "nat \<Rightarrow> nat \<Rightarrow> 's \<Rightarrow> unit result \<times> 's"
  kp_accept :: "nat \<Rightarrow> 's \<Rightarrow> (nat \<times> address) result \<times> 's"
  kp_connect :: "nat \<Rightarrow> address \<Rightarrow> 's \<Rightarrow> unit result \<times> 's"
  kp_send :: "nat \<Rightarrow> byte list \<Rightarrow> address option \<Rightarrow> 's \<Rightarrow> nat result \<times> 's"
  kp_receive :: "nat \<Rightarrow> byte list \<Rightarrow> flags \<Rightarrow> 's \<Rightarrow> (nat \<times> address option) result \<times> byte list \<times> 's"
  kp_shutdown :: "nat \<Rightarrow> nat \<Rightarrow> 's \<Rightarrow> unit result \<times> 's"
  kp_local_address :: "nat \<Rightarrow> 's \<Rightarrow> address result \<times> 's"
  kp_peer_address :: "nat \<Rightarrow> 's \<Rightarrow> address result \<times> 's"
  kp_set_blocking :: "nat \<Rightarrow> bool \<Rightarrow> 's \<Rightarrow> unit result \<times> 's"
  kp_get_option :: "nat \<Rightarrow> nat \<Rightarrow> 's \<Rightarrow> nat result \<times> 's"
  kp_set_option :: "nat \<Rightarrow> nat \<Rightarrow> nat \<Rightarrow> 's \<Rightarrow> unit result \<times> 's"
  kp_poll :: "poll_entry list \<Rightarrow> nat \<Rightarrow> nat option \<Rightarrow> 's \<Rightarrow> unit result \<times> poll_entry list \<times> 's"
  kp_wake :: "nat \<Rightarrow> 's \<Rightarrow> unit result \<times> 's"
  kp_resolve :: "byte list \<Rightarrow> nat \<Rightarrow> address list \<Rightarrow> 's \<Rightarrow> nat result \<times> address list \<times> 's"
  kp_host_name :: "byte list \<Rightarrow> 's \<Rightarrow> nat result \<times> byte list \<times> 's"

section \<open>Checks and recording\<close>

definition sockets_statuses :: "nat list" where
  "sockets_statuses = [OK, UNSUPPORTED, INVALID_ARGUMENT, OS_ERROR, OUT_OF_MEMORY, TIMEOUT, ACCESS_DENIED, WOULD_BLOCK,
     BROKEN_PIPE, CONNECTION_REFUSED, CONNECTION_RESET, CONNECTION_ABORTED, NOT_CONNECTED, ALREADY_CONNECTED,
     ADDRESS_IN_USE, ADDRESS_NOT_AVAILABLE, NETWORK_UNREACHABLE, HOST_UNREACHABLE, IN_PROGRESS, TOO_MANY_HANDLES,
     MESSAGE_TOO_LARGE]"

definition sanitize :: "nat \<Rightarrow> nat" where
  "sanitize st = (if st \<in> set sockets_statuses then st else OS_ERROR)"

abbreviation S_FAILED :: nat where "S_FAILED \<equiv> 14"

definition sockets_record :: recorder where
  "sockets_record st index cs =
     (let st = sanitize st in (st, bump (if st = OK then index else S_FAILED) cs))"

definition address_input :: "nat \<Rightarrow> address \<Rightarrow> address option" where
  "address_input p a = (if p = 0 \<or> p mod 4 \<noteq> 0 then None else normalized a)"

section \<open>Entry points\<close>

definition sockets_create ::
  "'s sockets_provider \<Rightarrow> nat \<Rightarrow> nat \<Rightarrow> nat \<Rightarrow> nat \<Rightarrow> counters \<Rightarrow> 's \<Rightarrow> (nat \<times> counters) \<times> nat \<times> 's" where
  "sockets_create kp family kind out cell cs s =
     (if \<not> aligned_output out 8 then (sockets_record INVALID_ARGUMENT 0 cs, cell, s)
      else if \<not> (IPV4 \<le> family \<and> family \<le> LOCAL) \<or> \<not> (STREAM \<le> kind \<and> kind \<le> RAW) \<or> family = LOCAL \<and> kind = RAW
      then (sockets_record INVALID_ARGUMENT 0 cs, 0, s)
      else case kp_create kp family kind s of
          (Inr socket, s') \<Rightarrow>
            if socket = 0 then (sockets_record OS_ERROR 0 cs, 0, s') else (sockets_record OK 0 cs, socket, s')
        | (Inl e, s') \<Rightarrow> (sockets_record (status e) 0 cs, 0, s'))"

definition sockets_close :: "'s sockets_provider \<Rightarrow> nat \<Rightarrow> counters \<Rightarrow> 's \<Rightarrow> (nat \<times> counters) \<times> 's" where
  "sockets_close kp socket cs s =
     (if socket = 0 then (sockets_record INVALID_ARGUMENT 1 cs, s)
      else record_done sockets_record 1 cs (kp_close kp socket s))"

definition sockets_bind :: "'s sockets_provider \<Rightarrow> nat \<Rightarrow> nat \<Rightarrow> address \<Rightarrow> counters \<Rightarrow> 's \<Rightarrow> (nat \<times> counters) \<times> 's" where
  "sockets_bind kp socket p a cs s =
     (case address_input p a of
        None \<Rightarrow> (sockets_record INVALID_ARGUMENT 2 cs, s)
      | Some a \<Rightarrow>
          if socket = 0 then (sockets_record INVALID_ARGUMENT 2 cs, s)
          else record_done sockets_record 2 cs (kp_bind kp socket a s))"

definition sockets_listen :: "'s sockets_provider \<Rightarrow> nat \<Rightarrow> nat \<Rightarrow> counters \<Rightarrow> 's \<Rightarrow> (nat \<times> counters) \<times> 's" where
  "sockets_listen kp socket backlog cs s =
     (if socket = 0 then (sockets_record INVALID_ARGUMENT 3 cs, s)
      else record_done sockets_record 3 cs (kp_listen kp socket backlog s))"

definition sockets_accept ::
  "'s sockets_provider \<Rightarrow> nat \<Rightarrow> nat \<Rightarrow> nat \<Rightarrow> nat \<times> address \<Rightarrow> counters \<Rightarrow> 's \<Rightarrow> (nat \<times> counters) \<times> (nat \<times> address) \<times> 's" where
  "sockets_accept kp socket out peer cells cs s =
     (if \<not> aligned_output out 8 \<or> \<not> aligned_output peer 4 then (sockets_record INVALID_ARGUMENT 4 cs, cells, s)
      else if socket = 0 then (sockets_record INVALID_ARGUMENT 4 cs, (0, DEFAULT_ADDRESS), s)
      else case kp_accept kp socket s of
          (Inr (accepted, a), s') \<Rightarrow>
            if accepted = 0 then (sockets_record OS_ERROR 4 cs, (0, DEFAULT_ADDRESS), s')
            else (sockets_record OK 4 cs,
                  (accepted, case reported a of Some a \<Rightarrow> a | None \<Rightarrow> DEFAULT_ADDRESS), s')
        | (Inl e, s') \<Rightarrow> (sockets_record (status e) 4 cs, (0, DEFAULT_ADDRESS), s'))"

definition sockets_connect :: "'s sockets_provider \<Rightarrow> nat \<Rightarrow> nat \<Rightarrow> address \<Rightarrow> counters \<Rightarrow> 's \<Rightarrow> (nat \<times> counters) \<times> 's" where
  "sockets_connect kp socket p a cs s =
     (case address_input p a of
        None \<Rightarrow> (sockets_record INVALID_ARGUMENT 5 cs, s)
      | Some a \<Rightarrow>
          if socket = 0 then (sockets_record INVALID_ARGUMENT 5 cs, s)
          else record_done sockets_record 5 cs (kp_connect kp socket a s))"

definition sockets_send ::
  "'s sockets_provider \<Rightarrow> nat \<Rightarrow> nat \<Rightarrow> byte list \<Rightarrow> nat \<Rightarrow> address \<Rightarrow> nat \<Rightarrow> nat \<Rightarrow> counters \<Rightarrow> 's
     \<Rightarrow> (nat \<times> counters) \<times> nat \<times> 's" where
  "sockets_send kp socket data bytes p a sent cell cs s =
     (let sz = length bytes in
      if \<not> aligned_output sent 8 then (sockets_record INVALID_ARGUMENT 6 cs, cell, s)
      else if socket = 0 \<or> \<not> valid_buffer data sz then (sockets_record INVALID_ARGUMENT 6 cs, 0, s)
      else case (if p = 0 then Some None else map_option Some (address_input p a)) of
          None \<Rightarrow> (sockets_record INVALID_ARGUMENT 6 cs, 0, s)
        | Some dest \<Rightarrow>
            (case kp_send kp socket bytes dest s of
               (Inr done, s') \<Rightarrow>
                 if sz < done then (sockets_record OS_ERROR 6 cs, 0, s') else (sockets_record OK 6 cs, done, s')
             | (Inl e, s') \<Rightarrow> (sockets_record (status e) 6 cs, 0, s')))"

definition sockets_receive ::
  "'s sockets_provider \<Rightarrow> nat \<Rightarrow> nat \<Rightarrow> byte list \<Rightarrow> flags \<Rightarrow> nat \<Rightarrow> address \<Rightarrow> nat \<Rightarrow> nat \<Rightarrow> counters \<Rightarrow> 's
     \<Rightarrow> (nat \<times> counters) \<times> (nat \<times> address) \<times> byte list \<times> 's" where
  "sockets_receive kp socket data buf fl sender acell received cell cs s =
     (let capacity = length buf in
      if \<not> aligned_output received 8 \<or> sender \<noteq> 0 \<and> \<not> aligned_output sender 4
      then (sockets_record INVALID_ARGUMENT 7 cs, (cell, acell), buf, s)
      else let cleared = (if sender \<noteq> 0 then DEFAULT_ADDRESS else acell) in
      if socket = 0 \<or> \<not> valid_buffer data capacity \<or> fl AND NOT RECEIVE_PEEK \<noteq> 0
      then (sockets_record INVALID_ARGUMENT 7 cs, (0, cleared), buf, s)
      else case kp_receive kp socket buf fl s of
          (Inr (done, a), left, s') \<Rightarrow>
            if capacity < done then (sockets_record OS_ERROR 7 cs, (0, cleared), left, s')
            else (sockets_record OK 7 cs,
                  (done, case Option.bind a reported of
                           Some a \<Rightarrow> if sender \<noteq> 0 then a else acell
                         | None \<Rightarrow> cleared), left, s')
        | (Inl e, left, s') \<Rightarrow> (sockets_record (status e) 7 cs, (0, cleared), left, s'))"

definition sockets_shutdown :: "'s sockets_provider \<Rightarrow> nat \<Rightarrow> nat \<Rightarrow> counters \<Rightarrow> 's \<Rightarrow> (nat \<times> counters) \<times> 's" where
  "sockets_shutdown kp socket how cs s =
     (if socket = 0 \<or> \<not> (SHUTDOWN_READ \<le> how \<and> how \<le> SHUTDOWN_BOTH) then (sockets_record INVALID_ARGUMENT 8 cs, s)
      else record_done sockets_record 8 cs (kp_shutdown kp socket how s))"

definition sockets_endpoint ::
  "nat \<Rightarrow> nat \<Rightarrow> address \<Rightarrow> ('s \<Rightarrow> address result \<times> 's) \<Rightarrow> counters \<Rightarrow> 's \<Rightarrow> (nat \<times> counters) \<times> address \<times> 's" where
  "sockets_endpoint socket out cell query cs s =
     (if \<not> aligned_output out 4 then (sockets_record INVALID_ARGUMENT 9 cs, cell, s)
      else if socket = 0 then (sockets_record INVALID_ARGUMENT 9 cs, DEFAULT_ADDRESS, s)
      else case query s of
          (Inr a, s') \<Rightarrow>
            (case reported a of
               Some a \<Rightarrow> (sockets_record OK 9 cs, a, s')
             | None \<Rightarrow> (sockets_record OS_ERROR 9 cs, DEFAULT_ADDRESS, s'))
        | (Inl e, s') \<Rightarrow> (sockets_record (status e) 9 cs, DEFAULT_ADDRESS, s'))"

definition sockets_local_address ::
  "'s sockets_provider \<Rightarrow> nat \<Rightarrow> nat \<Rightarrow> address \<Rightarrow> counters \<Rightarrow> 's \<Rightarrow> (nat \<times> counters) \<times> address \<times> 's" where
  "sockets_local_address kp socket out cell = sockets_endpoint socket out cell (kp_local_address kp socket)"

definition sockets_peer_address ::
  "'s sockets_provider \<Rightarrow> nat \<Rightarrow> nat \<Rightarrow> address \<Rightarrow> counters \<Rightarrow> 's \<Rightarrow> (nat \<times> counters) \<times> address \<times> 's" where
  "sockets_peer_address kp socket out cell = sockets_endpoint socket out cell (kp_peer_address kp socket)"

definition sockets_set_blocking :: "'s sockets_provider \<Rightarrow> nat \<Rightarrow> nat \<Rightarrow> counters \<Rightarrow> 's \<Rightarrow> (nat \<times> counters) \<times> 's" where
  "sockets_set_blocking kp socket blocking cs s =
     (if socket = 0 \<or> 1 < blocking then (sockets_record INVALID_ARGUMENT 10 cs, s)
      else record_done sockets_record 10 cs (kp_set_blocking kp socket (blocking \<noteq> 0) s))"

definition sockets_get_option ::
  "'s sockets_provider \<Rightarrow> nat \<Rightarrow> nat \<Rightarrow> nat \<Rightarrow> nat \<Rightarrow> counters \<Rightarrow> 's \<Rightarrow> (nat \<times> counters) \<times> nat \<times> 's" where
  "sockets_get_option kp socket option value cell cs s =
     (if \<not> aligned_output value 8 then (sockets_record INVALID_ARGUMENT 10 cs, cell, s)
      else if socket = 0 \<or> \<not> (1 \<le> option \<and> option \<le> SO_LAST) then (sockets_record INVALID_ARGUMENT 10 cs, 0, s)
      else case kp_get_option kp socket option s of
          (Inr result, s') \<Rightarrow>
            (sockets_record OK 10 cs,
             if option = SO_ERROR then if U32_MAX < result then OS_ERROR else sanitize result else result, s')
        | (Inl e, s') \<Rightarrow> (sockets_record (status e) 10 cs, 0, s'))"

definition option_value_ok :: "nat \<Rightarrow> nat \<Rightarrow> bool" where
  "option_value_ok option value \<longleftrightarrow>
     (let flag = option \<in> {1, 2, 3, 4, 7, 18, 20, 21, 22};
          hops = option \<in> {SO_HOPS, SO_MULTICAST_HOPS};
          positive = option \<in> {SO_HOPS, 13, 14, 15}
      in \<not> (flag \<and> 1 < value \<or> hops \<and> 255 < value \<or> positive \<and> value = 0 \<or> U32_MAX < value))"

definition sockets_set_option ::
  "'s sockets_provider \<Rightarrow> nat \<Rightarrow> nat \<Rightarrow> nat \<Rightarrow> counters \<Rightarrow> 's \<Rightarrow> (nat \<times> counters) \<times> 's" where
  "sockets_set_option kp socket option value cs s =
     (if socket = 0 \<or> \<not> (1 \<le> option \<and> option \<le> SO_LAST) \<or> option \<in> {SO_ERROR, SO_AVAILABLE}
      then (sockets_record INVALID_ARGUMENT 10 cs, s)
      else if \<not> option_value_ok option value then (sockets_record INVALID_ARGUMENT 10 cs, s)
      else record_done sockets_record 10 cs (kp_set_option kp socket option value s))"

text \<open>The first loop of \<open>poll\<close>: it stops at the first entry that is not valid.\<close>

fun clear_entries :: "poll_entry list \<Rightarrow> bool \<times> poll_entry list" where
  "clear_entries [] = (True, [])"
| "clear_entries (e # es) =
     (let e = e\<lparr>pe_triggered := 0\<rparr> in
      if pe_socket e = 0 \<or> pe_requested e AND NOT (POLL_READ OR POLL_WRITE) \<noteq> 0 then (False, e # es)
      else let (valid, es') = clear_entries es in (valid, e # es'))"

definition keep_requested :: "poll_entry \<Rightarrow> poll_entry" where
  "keep_requested e =
     e\<lparr>pe_triggered := pe_triggered e AND (pe_requested e AND (POLL_READ OR POLL_WRITE) OR POLL_ERROR OR POLL_HANGUP)\<rparr>"

definition sockets_poll ::
  "'s sockets_provider \<Rightarrow> nat \<Rightarrow> poll_entry list \<Rightarrow> nat \<Rightarrow> nat \<Rightarrow> nat \<Rightarrow> nat \<Rightarrow> counters \<Rightarrow> 's
     \<Rightarrow> (nat \<times> counters) \<times> nat \<times> poll_entry list \<times> 's" where
  "sockets_poll kp p es timeout_ns channel ready cell cs s =
     (if \<not> aligned_output ready 8 then (sockets_record INVALID_ARGUMENT 11 cs, cell, es, s)
      else if MAX_POLL < length es \<or> POLL_CHANNELS \<le> channel \<and> channel \<noteq> NO_CHANNEL
              \<or> length es \<noteq> 0 \<and> \<not> aligned_output p 8
      then (sockets_record INVALID_ARGUMENT 11 cs, 0, es, s)
      else let (valid, es) = clear_entries es in
        if \<not> valid then (sockets_record INVALID_ARGUMENT 11 cs, 0, es, s)
        else case kp_poll kp es timeout_ns (if channel \<noteq> NO_CHANNEL then Some channel else None) s of
            (Inl e, es, s') \<Rightarrow> (sockets_record (status e) 11 cs, 0, map (pe_triggered_update (\<lambda>_. 0)) es, s')
          | (Inr _, es, s') \<Rightarrow>
              let es = map keep_requested es
              in (sockets_record OK 11 cs, length (filter (\<lambda>e. pe_triggered e \<noteq> 0) es), es, s'))"

definition sockets_wake :: "'s sockets_provider \<Rightarrow> nat \<Rightarrow> counters \<Rightarrow> 's \<Rightarrow> (nat \<times> counters) \<times> 's" where
  "sockets_wake kp channel cs s =
     (if POLL_CHANNELS \<le> channel then (sockets_record INVALID_ARGUMENT 12 cs, s)
      else record_done sockets_record 12 cs (kp_wake kp channel s))"

text \<open>
  The second loop of \<open>resolve\<close> over the first \<open>found\<close> addresses: each is replaced by its normal form,
  or spoils the answer.
\<close>

definition resolved_ok :: "nat \<Rightarrow> address \<Rightarrow> bool" where
  "resolved_ok family a = (case normalized a of Some a \<Rightarrow> family = 0 \<or> ad_family a = family | None \<Rightarrow> False)"

definition sockets_resolve ::
  "'s sockets_provider \<Rightarrow> nat \<Rightarrow> nat \<Rightarrow> byte list \<Rightarrow> nat \<Rightarrow> nat \<Rightarrow> address list \<Rightarrow> nat \<Rightarrow> nat \<Rightarrow> counters \<Rightarrow> 's
     \<Rightarrow> (nat \<times> counters) \<times> nat \<times> address list \<times> 's" where
  "sockets_resolve kp nm len bytes family out addrs total_out cell cs s =
     (let capacity = length addrs in
      if \<not> aligned_output total_out 8 then (sockets_record INVALID_ARGUMENT 13 cs, cell, addrs, s)
      else if capacity = 0 \<or> MAX_RESOLVED < capacity \<or> \<not> aligned_output out 4 \<or> IPV6 < family \<or> MAX_HOST_NAME < len
      then (sockets_record INVALID_ARGUMENT 13 cs, 0, addrs, s)
      else case io_path nm len bytes of
          None \<Rightarrow> (sockets_record INVALID_ARGUMENT 13 cs, 0, addrs, s)
        | Some n \<Rightarrow>
            let empty = replicate capacity DEFAULT_ADDRESS;
                (r, left, s') = kp_resolve kp n family empty s;
                (st, found) =
                  (case r of
                     Inr found \<Rightarrow>
                       if found = 0 then (NOT_FOUND, 0)
                       else if capacity < found then (OS_ERROR, 0)
                       else if list_all (resolved_ok family) (take found left) then (OK, found)
                       else (OS_ERROR, 0)
                   | Inl e \<Rightarrow> (status e, 0));
                addrs' = (if st \<noteq> OK then empty
                          else map (\<lambda>a. the (normalized a)) (take found left) @ drop found left)
            in (if st = NOT_FOUND then (st, bump S_FAILED cs) else sockets_record st 13 cs, found, addrs', s'))"

definition sockets_host_name ::
  "'s sockets_provider \<Rightarrow> nat \<Rightarrow> byte list \<Rightarrow> nat \<Rightarrow> nat \<Rightarrow> counters \<Rightarrow> 's
     \<Rightarrow> (nat \<times> counters) \<times> nat \<times> byte list \<times> 's" where
  "sockets_host_name kp out buf needed cell cs s =
     (if \<not> aligned_output needed 8 \<or> \<not> valid_buffer out (length buf)
      then (sockets_record INVALID_ARGUMENT 13 cs, cell, buf, s)
      else let (r, left, s') = kp_host_name kp (replicate (length buf) 0) s;
               (st, needed', buf') = io_text buf 0 (MAX_NAME + 1) (\<lambda>_. (r, left))
           in (if st = BUFFER_TOO_SMALL then (st, bump S_FAILED cs) else sockets_record st 13 cs, needed', buf', s'))"

definition sockets_read_stats :: "nat \<Rightarrow> nat \<Rightarrow> counters \<Rightarrow> counters \<Rightarrow> nat \<times> counters" where
  "sockets_read_stats out sz cell cs =
     (if \<not> aligned_output out 8 \<or> sz < 120 then (INVALID_ARGUMENT, cell) else (OK, cs))"

definition sockets_negotiate :: "bool \<Rightarrow> caps \<times> ops" where
  "sockets_negotiate provided =
     (if \<not> provided then (0, [''read_stats''])
      else (CAP_SOCKETS, [''create'', ''close'', ''bind'', ''listen'', ''accept'', ''connect'', ''send'', ''receive'',
        ''shutdown'', ''local_address'', ''peer_address'', ''set_blocking'', ''get_option'', ''set_option'', ''poll'',
        ''wake'', ''resolve'', ''host_name'', ''read_stats'']))"

section \<open>What a consumer may rely on, whatever the provider does\<close>

interpretation sockets_rec: status_recorder sockets_record "\<lambda>_ st. st \<in> set sockets_statuses"
  by unfold_locales (auto simp: sockets_record_def sanitize_def sockets_statuses_def Let_def)

lemma sanitize_published: "sanitize st \<in> set sockets_statuses"
  by (simp add: sanitize_def sockets_statuses_def)

lemma normalized_fixed: "normalized a = Some b \<Longrightarrow> normalized b = Some b"
  by (cases "length (ad_address a) \<le> 4") (auto simp: normalized_def min_def split: if_splits)

lemma normalized_family: "normalized a = Some b \<Longrightarrow> ad_family b = ad_family a \<and> ad_family b \<in> {IPV4, IPV6}"
  by (auto simp: normalized_def split: if_splits)

lemma reported_fixed: "reported a = Some b \<Longrightarrow> reported b = Some b"
  using normalized_fixed [of a b] normalized_family [of a b] by (auto simp: reported_def split: if_splits)

lemma normalized_v4: "length octets = 4 \<Longrightarrow> normalized (address_v4 octets port) = Some (address_v4 octets port)"
  by (simp add: normalized_def address_v4_def)

lemma normalized_v6: "normalized (address_v6 octets port scope) = Some (address_v6 octets port scope)"
  by (simp add: normalized_def address_v6_def)

lemma clear_entries_True:
  "clear_entries es = (True, es') \<Longrightarrow> es' = map (pe_triggered_update (\<lambda>_. 0)) es
     \<and> list_all (\<lambda>e. pe_socket e \<noteq> 0 \<and> pe_requested e AND NOT (POLL_READ OR POLL_WRITE) = 0) es"
  by (induction es arbitrary: es') (auto simp: Let_def split: if_splits prod.splits)

text \<open>An event nobody asked for is never reported, save an error or a hangup.\<close>

lemma keep_requested_subset:
  "pe_triggered (keep_requested e) AND NOT (pe_requested e OR POLL_ERROR OR POLL_HANGUP) = 0"
  by (intro bit_word_eqI) (auto simp: keep_requested_def bit_simps)

lemma sockets_poll_contract:
  assumes "sockets_poll kp p es timeout_ns channel ready cell cs s = ((st, cs'), n, es', s')" "aligned_output ready 8"
  shows "st \<in> set sockets_statuses
    \<and> (st = OK \<longrightarrow> n = length (filter (\<lambda>e. pe_triggered e \<noteq> 0) es')
        \<and> (\<forall>e\<in>set es'. pe_triggered e AND NOT (pe_requested e OR POLL_ERROR OR POLL_HANGUP) = 0))
    \<and> (st \<noteq> OK \<longrightarrow> n = 0)"
proof -
  obtain valid es1 where c: "clear_entries es = (valid, es1)" by fastforce
  obtain r es2 t where q: "kp_poll kp es1 timeout_ns (if channel \<noteq> NO_CHANNEL then Some channel else None) s = (r, es2, t)"
    by (metis prod_cases3)
  have k: "pe_triggered (keep_requested e) AND NOT (pe_requested (keep_requested e) OR POLL_ERROR OR POLL_HANGUP) = 0" for e
    using keep_requested_subset [of e] by (simp add: keep_requested_def)
  show ?thesis
  proof (cases r)
    case (Inl e)
    then show ?thesis using assms c q
      by (auto simp: sockets_poll_def Let_def dest!: sockets_rec.pair split: if_splits)
  next
    case (Inr u)
    then show ?thesis using assms c q k
      by (auto simp: sockets_poll_def Let_def dest!: sockets_rec.pair split: if_splits)
  qed
qed

text \<open>
  Resolution: OK delivers between one and \<open>capacity\<close> addresses, each in normal form and of the family
  asked for; every other answer of a call that reached the provider leaves only zero addresses.
\<close>

lemma sockets_resolve_contract:
  assumes "sockets_resolve kp nm len bytes family out addrs entries cell cs s = ((st, cs'), n, addrs', s')"
    and "aligned_output entries 8"
  shows "if st = OK
         then 0 < n \<and> n \<le> length addrs \<and> (\<forall>a\<in>set (take n addrs'). normalized a = Some a \<and> (family = 0 \<or> ad_family a = family))
         else n = 0 \<and> (addrs' = addrs \<or> addrs' = replicate (length addrs) DEFAULT_ADDRESS)"
proof (cases "length addrs = 0 \<or> MAX_RESOLVED < length addrs \<or> \<not> aligned_output out 4 \<or> IPV6 < family
    \<or> MAX_HOST_NAME < len \<or> io_path nm len bytes = None")
  case True
  then show ?thesis using assms
    by (auto simp: sockets_resolve_def Let_def dest!: sockets_rec.pair split: if_splits option.splits)
next
  case False
  then obtain name where name: "io_path nm len bytes = Some name" by auto
  let ?empty = "replicate (length addrs) DEFAULT_ADDRESS"
  obtain r left t where q: "kp_resolve kp name family ?empty s = (r, left, t)" by (metis prod_cases3)
  have good: "normalized (the (normalized a)) = Some (the (normalized a))
      \<and> (family = 0 \<or> ad_family (the (normalized a)) = family)" if "resolved_ok family a" for a
    using that normalized_fixed [of a] by (auto simp: resolved_ok_def split: option.splits)
  show ?thesis
  proof (cases r)
    case (Inl e)
    then show ?thesis using assms False name q
      by (auto simp: sockets_resolve_def Let_def dest!: sockets_rec.pair split: if_splits)
  next
    case (Inr found)
    show ?thesis
    proof (cases "found \<noteq> 0 \<and> found \<le> length addrs \<and> list_all (resolved_ok family) (take found left)")
      case True
      then have "st = OK" "n = found" "addrs' = map (\<lambda>a. the (normalized a)) (take found left) @ drop found left"
        using Inr assms False name q by (auto simp: sockets_resolve_def Let_def dest!: sockets_rec.pair split: if_splits)
      moreover then have "set (take n addrs') \<subseteq> (\<lambda>a. the (normalized a)) ` set (take found left)"
        by (cases "found \<le> length left") (auto simp: take_map)
      ultimately show ?thesis using True good by (auto simp: list_all_iff)
    next
      case bad: False
      then show ?thesis using Inr assms False name q
        by (auto simp: sockets_resolve_def Let_def dest!: sockets_rec.pair split: if_splits)
    qed
  qed
qed

text \<open>The pending error of a socket is a status of the group, whatever number the provider keeps.\<close>

lemma pending_error_published:
  assumes "sockets_get_option kp socket SO_ERROR value cell cs s = ((st, cs'), v, s')" "aligned_output value 8"
  shows "v \<in> set sockets_statuses"
  using assms
  by (auto simp: sockets_get_option_def sanitize_def sockets_statuses_def split: if_splits prod.splits sum.splits)

lemma sockets_transfers_bounded:
  assumes "sockets_send kp socket data bytes p a sent cell cs s = ((st, cs'), n, s')" "aligned_output sent 8"
  shows "n \<le> length bytes \<and> (st \<noteq> OK \<longrightarrow> n = 0)"
  using assms by (auto simp: sockets_send_def Let_def dest!: sockets_rec.pair
      split: if_splits prod.splits sum.splits option.splits)

end
