(* ===== verification/Pal_Network.thy ===== *)
theory Pal_Network
  imports Pal_Sockets
begin

text \<open>
  The groups that extend the sockets group: datagram arrival information (\<open>src/src/packets.rs\<close>), Unix
  domain sockets (\<open>src/src/local_sockets.rs\<close>), and interfaces, reverse lookup and multicast membership
  (\<open>src/src/network.rs\<close>).
\<close>

section \<open>Packets\<close>

abbreviation CAP_PACKETS :: caps where "CAP_PACKETS \<equiv> 2199023255552"

record packet_info =
  pi_interface_index :: nat
  pi_reserved :: nat
  pi_destination :: address

definition DEFAULT_INFO :: packet_info where
  "DEFAULT_INFO = \<lparr>pi_interface_index = 0, pi_reserved = 0, pi_destination = DEFAULT_ADDRESS\<rparr>"

type_synonym 's packet_receive =
  "nat \<Rightarrow> byte list \<Rightarrow> flags \<Rightarrow> 's \<Rightarrow> (nat \<times> address option \<times> packet_info) result \<times> byte list \<times> 's"

definition packets_statuses :: "nat list" where
  "packets_statuses = [OK, UNSUPPORTED, INVALID_ARGUMENT, OS_ERROR, OUT_OF_MEMORY, WOULD_BLOCK, TIMEOUT,
     CONNECTION_REFUSED, CONNECTION_RESET, NOT_CONNECTED, BROKEN_PIPE, HOST_UNREACHABLE, NETWORK_UNREACHABLE,
     MESSAGE_TOO_LARGE, ACCESS_DENIED]"

definition packets_record :: "nat \<Rightarrow> counters \<Rightarrow> nat \<times> counters" where
  "packets_record st cs =
     (let st = (if st \<in> set packets_statuses then st else OS_ERROR) in (st, bump (if st = OK then 0 else 1) cs))"

definition arrival_destination :: "address \<Rightarrow> address" where
  "arrival_destination a =
     (case normalized a of Some d \<Rightarrow> if ad_port d = 0 then d else DEFAULT_ADDRESS | None \<Rightarrow> DEFAULT_ADDRESS)"

definition packets_receive ::
  "'s packet_receive \<Rightarrow> nat \<Rightarrow> nat \<Rightarrow> byte list \<Rightarrow> flags \<Rightarrow> nat \<Rightarrow> nat \<Rightarrow> nat \<Rightarrow> nat
     \<Rightarrow> nat \<times> address \<times> packet_info \<Rightarrow> counters \<Rightarrow> 's
     \<Rightarrow> (nat \<times> counters) \<times> (nat \<times> address \<times> packet_info) \<times> byte list \<times> 's" where
  "packets_receive rx socket data buf fl sender info info_size received cells cs s =
     (let capacity = length buf in
      if \<not> aligned_output received 8 \<or> \<not> aligned_output info 4 \<or> info_size < 32 \<or> sender \<noteq> 0 \<and> \<not> aligned_output sender 4
      then (packets_record INVALID_ARGUMENT cs, cells, buf, s)
      else let cleared = (if sender \<noteq> 0 then DEFAULT_ADDRESS else fst (snd cells)) in
      if socket = 0 \<or> \<not> valid_buffer data capacity \<or> fl AND NOT RECEIVE_PEEK \<noteq> 0
      then (packets_record INVALID_ARGUMENT cs, (0, cleared, DEFAULT_INFO), buf, s)
      else case rx socket buf fl s of
          (Inr (done, a, arrived), left, s') \<Rightarrow>
            if capacity < done then (packets_record OS_ERROR cs, (0, cleared, DEFAULT_INFO), left, s')
            else (packets_record OK cs,
                  (done,
                   (case Option.bind a reported of Some a \<Rightarrow> if sender \<noteq> 0 then a else cleared | None \<Rightarrow> cleared),
                   \<lparr>pi_interface_index = pi_interface_index arrived, pi_reserved = 0,
                    pi_destination = arrival_destination (pi_destination arrived)\<rparr>), left, s')
        | (Inl e, left, s') \<Rightarrow> (packets_record (status e) cs, (0, cleared, DEFAULT_INFO), left, s'))"

definition packets_read_stats :: "nat \<Rightarrow> nat \<Rightarrow> counters \<Rightarrow> counters \<Rightarrow> nat \<times> counters" where
  "packets_read_stats out sz cell cs =
     (if \<not> aligned_output out 8 \<or> sz < 16 then (INVALID_ARGUMENT, cell) else (OK, cs))"

definition packets_negotiate :: "bool \<Rightarrow> caps \<times> ops" where
  "packets_negotiate provided =
     (if \<not> provided then (0, [''read_stats'']) else (CAP_PACKETS, [''receive'', ''read_stats'']))"

section \<open>Local sockets\<close>

abbreviation CAP_LOCAL_SOCKETS :: caps where "CAP_LOCAL_SOCKETS \<equiv> 274877906944"

record 's local_provider =
  lk_bind :: "nat \<Rightarrow> byte list \<Rightarrow> 's \<Rightarrow> unit result \<times> 's"
  lk_connect :: "nat \<Rightarrow> byte list \<Rightarrow> 's \<Rightarrow> unit result \<times> 's"
  lk_address :: "nat \<Rightarrow> bool \<Rightarrow> byte list \<Rightarrow> 's \<Rightarrow> nat result \<times> byte list \<times> 's"
  lk_peer_user :: "nat \<Rightarrow> 's \<Rightarrow> nat result \<times> 's"

definition local_published :: "nat \<Rightarrow> nat \<Rightarrow> bool" where
  "local_published index st \<longleftrightarrow>
     st \<in> {OK, UNSUPPORTED, INVALID_ARGUMENT, OS_ERROR, OUT_OF_MEMORY}
     \<or> st \<in> {NOT_FOUND, ACCESS_DENIED, NAME_TOO_LONG, NOT_DIRECTORY, READ_ONLY} \<and> index \<le> 1
     \<or> st = ADDRESS_IN_USE \<and> index = 0
     \<or> st \<in> {CONNECTION_REFUSED, IN_PROGRESS, WOULD_BLOCK, ALREADY_CONNECTED, TIMEOUT} \<and> index = 1
     \<or> st \<in> {NOT_FOUND, BUFFER_TOO_SMALL, NOT_CONNECTED} \<and> index = 2
     \<or> st = NOT_CONNECTED \<and> index = 3"

definition local_record :: recorder where
  "local_record st index cs =
     (let st = (if local_published index st then st else OS_ERROR) in (st, bump (if st = OK then index else 4) cs))"

definition local_bind :: "'s local_provider \<Rightarrow> nat \<Rightarrow> nat \<Rightarrow> nat \<Rightarrow> byte list \<Rightarrow> counters \<Rightarrow> 's \<Rightarrow> (nat \<times> counters) \<times> 's" where
  "local_bind lk socket path len bytes cs s =
     (case io_path path len bytes of
        None \<Rightarrow> (local_record INVALID_ARGUMENT 0 cs, s)
      | Some p \<Rightarrow>
          if socket = 0 then (local_record INVALID_ARGUMENT 0 cs, s)
          else record_done local_record 0 cs (lk_bind lk socket p s))"

definition local_connect :: "'s local_provider \<Rightarrow> nat \<Rightarrow> nat \<Rightarrow> nat \<Rightarrow> byte list \<Rightarrow> counters \<Rightarrow> 's \<Rightarrow> (nat \<times> counters) \<times> 's" where
  "local_connect lk socket path len bytes cs s =
     (case io_path path len bytes of
        None \<Rightarrow> (local_record INVALID_ARGUMENT 1 cs, s)
      | Some p \<Rightarrow>
          if socket = 0 then (local_record INVALID_ARGUMENT 1 cs, s)
          else record_done local_record 1 cs (lk_connect lk socket p s))"

definition local_address ::
  "'s local_provider \<Rightarrow> nat \<Rightarrow> nat \<Rightarrow> nat \<Rightarrow> byte list \<Rightarrow> nat \<Rightarrow> nat \<Rightarrow> counters \<Rightarrow> 's
     \<Rightarrow> (nat \<times> counters) \<times> nat \<times> byte list \<times> 's" where
  "local_address lk socket peer out buf needed cell cs s =
     (if \<not> aligned_output needed 8 \<or> \<not> valid_buffer out (length buf) then (local_record INVALID_ARGUMENT 2 cs, cell, buf, s)
      else if socket = 0 \<or> 1 < peer then (local_record INVALID_ARGUMENT 2 cs, 0, buf, s)
      else let (r, left, s') = lk_address lk socket (peer \<noteq> 0) (replicate (length buf) 0) s;
               (st, needed', buf') = io_text buf 0 (MAX_NAME + 1) (\<lambda>_. (r, left))
           in (local_record st 2 cs, needed', buf', s'))"

definition peer_user :: "'s local_provider \<Rightarrow> nat \<Rightarrow> nat \<Rightarrow> nat \<Rightarrow> counters \<Rightarrow> 's \<Rightarrow> (nat \<times> counters) \<times> nat \<times> 's" where
  "peer_user lk socket user_id cell cs s =
     (if \<not> aligned_output user_id 4 then (local_record INVALID_ARGUMENT 3 cs, cell, s)
      else if socket = 0 then (local_record INVALID_ARGUMENT 3 cs, U32_MAX, s)
      else case lk_peer_user lk socket s of
          (Inr i, s') \<Rightarrow> (local_record OK 3 cs, i, s')
        | (Inl e, s') \<Rightarrow> (local_record (status e) 3 cs, U32_MAX, s'))"

definition local_read_stats :: "nat \<Rightarrow> nat \<Rightarrow> counters \<Rightarrow> counters \<Rightarrow> nat \<times> counters" where
  "local_read_stats out sz cell cs =
     (if \<not> aligned_output out 8 \<or> sz < 40 then (INVALID_ARGUMENT, cell) else (OK, cs))"

definition local_negotiate :: "bool \<Rightarrow> caps \<times> ops" where
  "local_negotiate provided =
     (if \<not> provided then (0, [''read_stats''])
      else (CAP_LOCAL_SOCKETS, [''bind'', ''connect'', ''address'', ''peer_user'', ''read_stats'']))"

section \<open>Network\<close>

abbreviation CAP_NETWORK :: caps where "CAP_NETWORK \<equiv> 137438953472"
abbreviation INTERFACE_TUNNEL :: nat where "INTERFACE_TUNNEL \<equiv> 5"
abbreviation LINK_DOWN :: nat where "LINK_DOWN \<equiv> 2"
abbreviation MULTICAST :: flags where "MULTICAST \<equiv> 1"
abbreviation NET_MAX_HOST_NAME :: nat where "NET_MAX_HOST_NAME \<equiv> 256"

record iface =
  if_index :: nat
  if_kind :: nat
  if_state :: nat
  if_flags :: flags
  if_mtu :: nat
  if_hardware_address_length :: nat
  if_speed_bps :: nat
  if_hardware_address :: "byte list"
  if_name :: "byte list"

definition EMPTY_INTERFACE :: iface where
  "EMPTY_INTERFACE = \<lparr>if_index = 0, if_kind = 0, if_state = 0, if_flags = 0, if_mtu = 0, if_hardware_address_length = 0,
     if_speed_bps = 0, if_hardware_address = replicate 8 0, if_name = replicate 64 0\<rparr>"

definition set_name :: "byte list \<Rightarrow> iface \<Rightarrow> iface" where
  "set_name nm i =
     (let len = min (case position (\<lambda>b. b = 0) nm of Some k \<Rightarrow> k | None \<Rightarrow> length nm) 63
      in i\<lparr>if_name := overwrite (replicate 64 0) 0 (take len nm)\<rparr>)"

record interface_address =
  ia_interface_index :: nat
  ia_prefix_length :: nat
  ia_address :: address

definition EMPTY_INTERFACE_ADDRESS :: interface_address where
  "EMPTY_INTERFACE_ADDRESS = \<lparr>ia_interface_index = 0, ia_prefix_length = 0, ia_address = DEFAULT_ADDRESS\<rparr>"

record 's network_provider =
  np_interface_entry :: "nat \<Rightarrow> 's \<Rightarrow> iface result \<times> 's"
  np_address_entry :: "nat \<Rightarrow> 's \<Rightarrow> interface_address result \<times> 's"
  np_reverse_lookup :: "address \<Rightarrow> byte list \<Rightarrow> 's \<Rightarrow> nat result \<times> byte list \<times> 's"
  np_membership :: "nat \<Rightarrow> address \<Rightarrow> nat \<Rightarrow> bool \<Rightarrow> 's \<Rightarrow> unit result \<times> 's"

definition network_published :: "nat \<Rightarrow> nat \<Rightarrow> bool" where
  "network_published index st \<longleftrightarrow>
     st \<in> {OK, UNSUPPORTED, INVALID_ARGUMENT, OS_ERROR, OUT_OF_MEMORY}
     \<or> st = NOT_FOUND \<and> index \<le> 2
     \<or> st \<in> {BUFFER_TOO_SMALL, TIMEOUT} \<and> index = 2
     \<or> st \<in> {ADDRESS_IN_USE, ADDRESS_NOT_AVAILABLE, ACCESS_DENIED, NOT_FOUND} \<and> index = 3"

definition network_record :: recorder where
  "network_record st index cs =
     (let st = (if network_published index st then st else OS_ERROR) in (st, bump (if st = OK then index else 4) cs))"

definition ip_family :: "address \<Rightarrow> bool" where
  "ip_family a \<longleftrightarrow> ad_family a \<in> {IPV4, IPV6}"

definition interface_broken :: "iface \<Rightarrow> bool" where
  "interface_broken i \<longleftrightarrow>
     if_index i = 0 \<or> if_name i ! 0 = 0 \<or> if_name i ! 63 \<noteq> 0 \<or> INTERFACE_TUNNEL < if_kind i \<or> LINK_DOWN < if_state i
     \<or> if_flags i AND NOT MULTICAST \<noteq> 0 \<or> 8 < if_hardware_address_length i"

definition interface_entry ::
  "'s network_provider \<Rightarrow> nat \<Rightarrow> nat \<Rightarrow> nat \<Rightarrow> iface \<Rightarrow> counters \<Rightarrow> 's \<Rightarrow> (nat \<times> counters) \<times> iface \<times> 's" where
  "interface_entry np index out out_size cell cs s =
     (if \<not> aligned_output out 8 \<or> out_size < 104 then (network_record INVALID_ARGUMENT 0 cs, cell, s)
      else case np_interface_entry np index s of
          (Inr i, s') \<Rightarrow>
            if interface_broken i then (network_record OS_ERROR 0 cs, EMPTY_INTERFACE, s')
            else (network_record OK 0 cs, i, s')
        | (Inl e, s') \<Rightarrow> (network_record (status e) 0 cs, EMPTY_INTERFACE, s'))"

definition interface_address_broken :: "interface_address \<Rightarrow> bool" where
  "interface_address_broken a \<longleftrightarrow>
     ia_interface_index a = 0 \<or> \<not> ip_family (ia_address a) \<or> ad_port (ia_address a) \<noteq> 0
     \<or> (if ad_family (ia_address a) = IPV4 then 32 else 128) < ia_prefix_length a"

definition address_entry ::
  "'s network_provider \<Rightarrow> nat \<Rightarrow> nat \<Rightarrow> nat \<Rightarrow> interface_address \<Rightarrow> counters \<Rightarrow> 's
     \<Rightarrow> (nat \<times> counters) \<times> interface_address \<times> 's" where
  "address_entry np index out out_size cell cs s =
     (if \<not> aligned_output out 4 \<or> out_size < 32 then (network_record INVALID_ARGUMENT 1 cs, cell, s)
      else case np_address_entry np index s of
          (Inr a, s') \<Rightarrow>
            if interface_address_broken a then (network_record OS_ERROR 1 cs, EMPTY_INTERFACE_ADDRESS, s')
            else (network_record OK 1 cs, a, s')
        | (Inl e, s') \<Rightarrow> (network_record (status e) 1 cs, EMPTY_INTERFACE_ADDRESS, s'))"

definition reverse_lookup ::
  "'s network_provider \<Rightarrow> nat \<Rightarrow> address \<Rightarrow> nat \<Rightarrow> byte list \<Rightarrow> nat \<Rightarrow> nat \<Rightarrow> counters \<Rightarrow> 's
     \<Rightarrow> (nat \<times> counters) \<times> nat \<times> byte list \<times> 's" where
  "reverse_lookup np p a out buf needed cell cs s =
     (if \<not> aligned_output needed 8 \<or> \<not> valid_buffer out (length buf) then (network_record INVALID_ARGUMENT 2 cs, cell, buf, s)
      else if p = 0 \<or> p mod 4 \<noteq> 0 then (network_record INVALID_ARGUMENT 2 cs, 0, buf, s)
      else if \<not> ip_family a then (network_record INVALID_ARGUMENT 2 cs, 0, buf, s)
      else let (r, left, s') = np_reverse_lookup np a (replicate (length buf) 0) s;
               (st, needed', buf') = io_text buf 0 NET_MAX_HOST_NAME (\<lambda>_. (r, left))
           in (network_record st 2 cs, needed', buf', s'))"

definition is_multicast :: "address \<Rightarrow> bool" where
  "is_multicast a =
     (if ad_family a = IPV4 then ad_address a ! 0 AND 0xF0 = 0xE0
      else if ad_family a = IPV6 then ad_address a ! 0 = 0xFF
      else False)"

definition multicast_group :: "address \<Rightarrow> address" where
  "multicast_group a =
     (let used = (if ad_family a = IPV4 then 4 else 16)
      in \<lparr>ad_family = ad_family a, ad_port = 0, ad_scope = 0,
          ad_address = overwrite (replicate 16 0) 0 (take used (ad_address a))\<rparr>)"

definition membership ::
  "'s network_provider \<Rightarrow> nat \<Rightarrow> nat \<Rightarrow> address \<Rightarrow> nat \<Rightarrow> nat \<Rightarrow> counters \<Rightarrow> 's \<Rightarrow> (nat \<times> counters) \<times> 's" where
  "membership np socket p a interface_index join cs s =
     (if socket = 0 \<or> 1 < join \<or> p = 0 \<or> p mod 4 \<noteq> 0 then (network_record INVALID_ARGUMENT 3 cs, s)
      else if \<not> is_multicast a then (network_record INVALID_ARGUMENT 3 cs, s)
      else record_done network_record 3 cs (np_membership np socket (multicast_group a) interface_index (join \<noteq> 0) s))"

definition network_read_stats :: "nat \<Rightarrow> nat \<Rightarrow> counters \<Rightarrow> counters \<Rightarrow> nat \<times> counters" where
  "network_read_stats out sz cell cs =
     (if \<not> aligned_output out 8 \<or> sz < 40 then (INVALID_ARGUMENT, cell) else (OK, cs))"

definition network_negotiate :: "bool \<Rightarrow> caps \<times> ops" where
  "network_negotiate provided =
     (if \<not> provided then (0, [''read_stats''])
      else (CAP_NETWORK, [''interface_entry'', ''address_entry'', ''reverse_lookup'', ''membership'', ''read_stats'']))"

section \<open>Facts\<close>

interpretation local_rec: status_recorder local_record local_published
  by unfold_locales (auto simp: local_record_def local_published_def Let_def)

interpretation network_rec: status_recorder network_record network_published
  by unfold_locales (auto simp: network_record_def network_published_def Let_def)

lemma packets_record_pair:
  "packets_record st cs = (st', cs') \<Longrightarrow> st' \<in> set packets_statuses \<and> (st' = OK \<longleftrightarrow> st = OK)"
proof -
  have "OK \<in> set packets_statuses" "OS_ERROR \<in> set packets_statuses" by (simp_all add: packets_statuses_def)
  then show "packets_record st cs = (st', cs') \<Longrightarrow> ?thesis"
    by (cases "st = OK") (auto simp: packets_record_def Let_def split: if_splits)
qed

lemma arrival_destination_cases:
  "arrival_destination a = DEFAULT_ADDRESS
   \<or> normalized (arrival_destination a) = Some (arrival_destination a) \<and> ad_port (arrival_destination a) = 0"
  using normalized_fixed by (auto simp: arrival_destination_def split: option.splits)

text \<open>
  A datagram that is delivered fits the buffer, and the destination it names is an IP address without
  a port or the zero address; a failed receive leaves zeroes in every output.
\<close>

lemma packets_receive_contract:
  assumes "packets_receive rx socket data buf fl sender info info_size received cells cs s = ((st, cs'), (n, a, i), buf', s')"
    and "aligned_output received 8" "aligned_output info 4" "32 \<le> info_size" "aligned_output sender 4"
  shows "st \<in> set packets_statuses \<and> n \<le> length buf \<and> pi_reserved i = 0
    \<and> (pi_destination i = DEFAULT_ADDRESS \<or> normalized (pi_destination i) = Some (pi_destination i) \<and> ad_port (pi_destination i) = 0)
    \<and> (a = DEFAULT_ADDRESS \<or> reported a = Some a)
    \<and> (st \<noteq> OK \<longrightarrow> n = 0 \<and> a = DEFAULT_ADDRESS \<and> i = DEFAULT_INFO)"
proof -
  obtain r left t where q: "rx socket buf fl s = (r, left, t)" by (metis prod_cases3)
  have sender: "sender \<noteq> 0" using assms(5) by (simp add: aligned_output_def)
  show ?thesis
  proof (cases r)
    case (Inl e)
    then show ?thesis using assms sender q
      by (auto simp: packets_receive_def Let_def DEFAULT_INFO_def dest!: packets_record_pair split: if_splits)
  next
    case (Inr x)
    obtain d b arrived where "x = (d, b, arrived)" by (cases x)
    then show ?thesis using Inr assms sender q arrival_destination_cases [of "pi_destination arrived"]
      by (cases "Option.bind b reported")
         (auto simp: packets_receive_def Let_def DEFAULT_INFO_def dest!: packets_record_pair
           split: if_splits Option.bind_splits dest: reported_fixed)
  qed
qed

text \<open>A peer that is not known never compares equal to a user the consumer has.\<close>

lemma peer_user_unknown:
  assumes "peer_user lk socket user_id cell cs s = ((st, cs'), i, s')" "aligned_output user_id 4" "st \<noteq> OK"
  shows "i = U32_MAX"
  using assms by (auto simp: peer_user_def dest!: local_rec.pair split: if_splits prod.splits sum.splits)

text \<open>Only multicast groups reach the provider, stripped of everything but family and address.\<close>

lemma membership_group:
  assumes "membership np socket p a interface_index join cs s = ((st, cs'), s')" "st = OK" "length (ad_address a) = 16"
  shows "is_multicast a \<and> is_multicast (multicast_group a) \<and> normalized (multicast_group a) = Some (multicast_group a)
    \<and> np_membership np socket (multicast_group a) interface_index (join \<noteq> 0) s = (Inr (), s')"
proof -
  have m: "is_multicast a" and call: "record_done network_record 3 cs (np_membership np socket (multicast_group a) interface_index (join \<noteq> 0) s) = ((OK, cs'), s')"
    using assms(1, 2) by (auto simp: membership_def dest!: network_rec.pair split: if_splits)
  have "np_membership np socket (multicast_group a) interface_index (join \<noteq> 0) s = (Inr (), s')"
    using call by (cases "np_membership np socket (multicast_group a) interface_index (join \<noteq> 0) s")
      (auto simp: record_done_def port_status_OK_iff dest!: network_rec.pair)
  then show ?thesis using m assms(3)
    by (auto simp: is_multicast_def multicast_group_def normalized_def Let_def overwrite_def nth_append split: if_splits)
qed

end
