(* ===== verification/Pal_Processes.thy ===== *)
theory Pal_Processes
  imports Pal_Io
begin

text \<open>
  Child processes (\<open>src/src/processes.rs\<close>) and children under another identity
  (\<open>src/src/spawn_as.rs\<close>). A text of an argument or environment vector is its pointer and the memory
  behind it, a function from offsets to bytes: the front end scans an environment entry up to its
  first \<open>=\<close> or NUL without a bound of its own. \<open>None\<close> is a scan, and so a call, that never returns;
  the caller's promise that every text is NUL-terminated rules it out (\<open>scan_entry_returns\<close>).
\<close>

section \<open>Constants, data and the provider interface\<close>

abbreviation CAP_PROCESSES :: caps where "CAP_PROCESSES \<equiv> 4294967296"
abbreviation PIPE_INPUT :: flags where "PIPE_INPUT \<equiv> 1"
abbreviation PIPE_OUTPUT :: flags where "PIPE_OUTPUT \<equiv> 2"
abbreviation PIPE_ERROR :: flags where "PIPE_ERROR \<equiv> 4"
abbreviation MAX_TEXTS :: nat where "MAX_TEXTS \<equiv> 65536"

record spawned =
  sd_process :: nat
  sd_id :: nat
  sd_input :: nat
  sd_output :: nat
  sd_error :: nat

definition EMPTY_SPAWNED :: spawned where
  "EMPTY_SPAWNED = \<lparr>sd_process = 0, sd_id = 0, sd_input = 0, sd_output = 0, sd_error = 0\<rparr>"

definition spawned_consistent :: "spawned \<Rightarrow> flags \<Rightarrow> bool" where
  "spawned_consistent sd pipes \<longleftrightarrow>
     sd_process sd \<noteq> 0 \<and> sd_id sd \<noteq> 0 \<and> (sd_input sd = 0) = (pipes AND PIPE_INPUT = 0)
     \<and> (sd_output sd = 0) = (pipes AND PIPE_OUTPUT = 0) \<and> (sd_error sd = 0) = (pipes AND PIPE_ERROR = 0)"

type_synonym texts = "(nat \<times> (nat \<Rightarrow> byte)) list"
type_synonym spawn_args = "byte list \<times> nat list \<times> nat list option \<times> byte list option"

record 's processes_provider =
  cp_spawn :: "spawn_args \<Rightarrow> flags \<Rightarrow> 's \<Rightarrow> spawned result \<times> 's"
  cp_wait :: "nat \<Rightarrow> nat \<Rightarrow> 's \<Rightarrow> int result \<times> 's"
  cp_terminate :: "nat \<Rightarrow> bool \<Rightarrow> 's \<Rightarrow> unit result \<times> 's"
  cp_release :: "nat \<Rightarrow> 's \<Rightarrow> unit result \<times> 's"
  cp_pipe_read :: "nat \<Rightarrow> byte list \<Rightarrow> 's \<Rightarrow> nat result \<times> byte list \<times> 's"
  cp_pipe_write :: "nat \<Rightarrow> byte list \<Rightarrow> 's \<Rightarrow> nat result \<times> 's"
  cp_pipe_close :: "nat \<Rightarrow> 's \<Rightarrow> unit result \<times> 's"

section \<open>The request\<close>

definition processes_published :: "nat \<Rightarrow> nat \<Rightarrow> bool" where
  "processes_published index st \<longleftrightarrow>
     st \<in> {OK, UNSUPPORTED, INVALID_ARGUMENT, OS_ERROR, OUT_OF_MEMORY, ACCESS_DENIED, TOO_MANY_HANDLES}
     \<or> st \<in> {NOT_FOUND, IS_DIRECTORY, NOT_DIRECTORY, NAME_TOO_LONG} \<and> index = 0
     \<or> st = TIMEOUT \<and> index = 1
     \<or> st = NOT_FOUND \<and> index = 2
     \<or> st = BROKEN_PIPE \<and> index = 5"

definition processes_record :: recorder where
  "processes_record st index cs =
     (let st = (if processes_published index st then st else OS_ERROR) in (st, bump (if st = OK then index else 7) cs))"

definition texts_of :: "nat \<Rightarrow> texts \<Rightarrow> texts option" where
  "texts_of p ts =
     (if MAX_TEXTS < length ts \<or> p = 0 \<or> p mod 8 \<noteq> 0 then None
      else if list_all (\<lambda>(t, _). t \<noteq> 0) ts then Some ts else None)"

partial_function (option) scan_entry :: "(nat \<Rightarrow> byte) \<Rightarrow> nat \<Rightarrow> nat option" where
  "scan_entry mem i = (if mem i = 0 \<or> mem i = 61 then Some i else scan_entry mem (i + 1))"

declare scan_entry.simps [code]

text \<open>The loop over the environment: \<open>Some False\<close> is the early \<open>return None\<close>.\<close>

fun entries_ok :: "texts \<Rightarrow> bool option" where
  "entries_ok [] = Some True"
| "entries_ok ((_, mem) # rest) =
     Option.bind (scan_entry mem 0) (\<lambda>i. if i = 0 \<or> mem i = 0 then Some False else entries_ok rest)"

definition spawn_request ::
  "nat \<Rightarrow> nat \<Rightarrow> byte list \<Rightarrow> nat \<Rightarrow> texts \<Rightarrow> nat \<Rightarrow> texts \<Rightarrow> nat \<Rightarrow> nat \<Rightarrow> byte list \<Rightarrow> flags \<Rightarrow> spawn_args option option" where
  "spawn_request program program_length pbytes arguments args environment envs directory directory_length dbytes pipes =
     (case io_path program program_length pbytes of
        None \<Rightarrow> Some None
      | Some prog \<Rightarrow>
          (case texts_of arguments args of
             None \<Rightarrow> Some None
           | Some argv \<Rightarrow>
               if argv = [] then Some None
               else case (if environment = 0 \<and> length envs = 0 then Some None else map_option Some (texts_of environment envs)) of
                   None \<Rightarrow> Some None
                 | Some env \<Rightarrow>
                     Option.bind (case env of None \<Rightarrow> Some True | Some list \<Rightarrow> entries_ok list) (\<lambda>valid.
                       if \<not> valid then Some None
                       else case (if directory = 0 \<and> directory_length = 0 then Some None
                                  else map_option Some (io_path directory directory_length dbytes)) of
                           None \<Rightarrow> Some None
                         | Some dir \<Rightarrow>
                             if pipes AND NOT (PIPE_INPUT OR PIPE_OUTPUT OR PIPE_ERROR) \<noteq> 0 then Some None
                             else Some (Some (prog, map fst argv, map_option (map fst) env, dir)))))"

section \<open>Entry points\<close>

definition accept_child :: "flags \<Rightarrow> spawned result \<Rightarrow> nat \<times> spawned" where
  "accept_child pipes r =
     (case r of
        Inr sd \<Rightarrow> if spawned_consistent sd pipes then (OK, sd) else (OS_ERROR, EMPTY_SPAWNED)
      | Inl e \<Rightarrow> (status e, EMPTY_SPAWNED))"

definition processes_spawn ::
  "'s processes_provider \<Rightarrow> spawn_args option option \<Rightarrow> flags \<Rightarrow> nat \<Rightarrow> nat \<Rightarrow> spawned \<Rightarrow> counters \<Rightarrow> 's
     \<Rightarrow> ((nat \<times> counters) \<times> spawned \<times> 's) option" where
  "processes_spawn cp req pipes out sz cell cs s =
     (if \<not> aligned_output out 8 \<or> sz < 40 then Some (processes_record INVALID_ARGUMENT 0 cs, cell, s)
      else Option.bind req (\<lambda>asked.
        case asked of
          None \<Rightarrow> Some (processes_record INVALID_ARGUMENT 0 cs, EMPTY_SPAWNED, s)
        | Some q \<Rightarrow>
            let (r, s') = cp_spawn cp q pipes s; (st, child) = accept_child pipes r
            in Some (processes_record st 0 cs, child, s')))"

definition processes_wait ::
  "'s processes_provider \<Rightarrow> nat \<Rightarrow> nat \<Rightarrow> nat \<Rightarrow> int \<Rightarrow> counters \<Rightarrow> 's \<Rightarrow> (nat \<times> counters) \<times> int \<times> 's" where
  "processes_wait cp process timeout_ns exit_code cell cs s =
     (if \<not> aligned_output exit_code 4 then (processes_record INVALID_ARGUMENT 1 cs, cell, s)
      else if process = 0 then (processes_record INVALID_ARGUMENT 1 cs, 0, s)
      else case cp_wait cp process timeout_ns s of
          (Inr code, s') \<Rightarrow> (processes_record OK 1 cs, code, s')
        | (Inl e, s') \<Rightarrow> (processes_record (status e) 1 cs, 0, s'))"

definition processes_terminate :: "'s processes_provider \<Rightarrow> nat \<Rightarrow> nat \<Rightarrow> counters \<Rightarrow> 's \<Rightarrow> (nat \<times> counters) \<times> 's" where
  "processes_terminate cp process forceful cs s =
     (if process = 0 \<or> 1 < forceful then (processes_record INVALID_ARGUMENT 2 cs, s)
      else record_done processes_record 2 cs (cp_terminate cp process (forceful \<noteq> 0) s))"

definition processes_release :: "'s processes_provider \<Rightarrow> nat \<Rightarrow> counters \<Rightarrow> 's \<Rightarrow> (nat \<times> counters) \<times> 's" where
  "processes_release cp process cs s =
     (if process = 0 then (processes_record INVALID_ARGUMENT 3 cs, s)
      else record_done processes_record 3 cs (cp_release cp process s))"

definition pipe_read ::
  "'s processes_provider \<Rightarrow> nat \<Rightarrow> nat \<Rightarrow> byte list \<Rightarrow> nat \<Rightarrow> nat \<Rightarrow> counters \<Rightarrow> 's
     \<Rightarrow> (nat \<times> counters) \<times> nat \<times> byte list \<times> 's" where
  "pipe_read cp pipe data buf got cell cs s =
     (let capacity = length buf in
      if \<not> aligned_output got 8 then (processes_record INVALID_ARGUMENT 4 cs, cell, buf, s)
      else if pipe = 0 \<or> \<not> valid_buffer data capacity then (processes_record INVALID_ARGUMENT 4 cs, 0, buf, s)
      else if capacity = 0 then (processes_record OK 4 cs, 0, buf, s)
      else case cp_pipe_read cp pipe buf s of
          (Inr done, left, s') \<Rightarrow>
            if capacity < done then (processes_record OS_ERROR 4 cs, 0, left, s')
            else (processes_record OK 4 cs, done, left, s')
        | (Inl e, left, s') \<Rightarrow> (processes_record (status e) 4 cs, 0, left, s'))"

definition pipe_write ::
  "'s processes_provider \<Rightarrow> nat \<Rightarrow> nat \<Rightarrow> byte list \<Rightarrow> nat \<Rightarrow> nat \<Rightarrow> counters \<Rightarrow> 's \<Rightarrow> (nat \<times> counters) \<times> nat \<times> 's" where
  "pipe_write cp pipe data bytes written cell cs s =
     (let sz = length bytes in
      if \<not> aligned_output written 8 then (processes_record INVALID_ARGUMENT 5 cs, cell, s)
      else if pipe = 0 \<or> \<not> valid_buffer data sz then (processes_record INVALID_ARGUMENT 5 cs, 0, s)
      else if sz = 0 then (processes_record OK 5 cs, 0, s)
      else case cp_pipe_write cp pipe bytes s of
          (Inr done, s') \<Rightarrow>
            if done = 0 then (processes_record OS_ERROR 5 cs, 0, s')
            else if sz < done then (processes_record OS_ERROR 5 cs, 0, s')
            else (processes_record OK 5 cs, done, s')
        | (Inl e, s') \<Rightarrow> (processes_record (status e) 5 cs, 0, s'))"

definition pipe_close :: "'s processes_provider \<Rightarrow> nat \<Rightarrow> counters \<Rightarrow> 's \<Rightarrow> (nat \<times> counters) \<times> 's" where
  "pipe_close cp pipe cs s =
     (if pipe = 0 then (processes_record INVALID_ARGUMENT 6 cs, s)
      else record_done processes_record 6 cs (cp_pipe_close cp pipe s))"

definition processes_read_stats :: "nat \<Rightarrow> nat \<Rightarrow> counters \<Rightarrow> counters \<Rightarrow> nat \<times> counters" where
  "processes_read_stats out sz cell cs =
     (if \<not> aligned_output out 8 \<or> sz < 64 then (INVALID_ARGUMENT, cell) else (OK, cs))"

definition processes_negotiate :: "bool \<Rightarrow> caps \<times> ops" where
  "processes_negotiate provided =
     (if \<not> provided then (0, [''read_stats''])
      else (CAP_PROCESSES, [''spawn'', ''wait'', ''terminate'', ''release'', ''pipe_read'', ''pipe_write'', ''pipe_close'',
        ''read_stats'']))"

section \<open>Another identity\<close>

abbreviation CAP_SPAWN_AS :: caps where "CAP_SPAWN_AS \<equiv> 4398046511104"
abbreviation SPAWN_MAX_GROUPS :: nat where "SPAWN_MAX_GROUPS \<equiv> 65536"

text \<open>The groups are the ids behind \<open>id_groups\<close>; \<open>group_count\<close> is their number.\<close>

record identity =
  id_user :: nat
  id_group :: nat
  id_groups :: nat
  id_ids :: "nat list"

definition spawn_as_statuses :: "nat list" where
  "spawn_as_statuses = [OK, UNSUPPORTED, INVALID_ARGUMENT, OS_ERROR, OUT_OF_MEMORY, ACCESS_DENIED, TOO_MANY_HANDLES,
     NOT_FOUND, IS_DIRECTORY, NOT_DIRECTORY, NAME_TOO_LONG]"

definition spawn_as_record :: "nat \<Rightarrow> counters \<Rightarrow> nat \<times> counters" where
  "spawn_as_record st cs =
     (let st = (if st \<in> set spawn_as_statuses then st else OS_ERROR) in (st, bump (if st = OK then 0 else 1) cs))"

definition spawn_as ::
  "(spawn_args \<Rightarrow> flags \<Rightarrow> nat \<Rightarrow> nat \<Rightarrow> nat list \<Rightarrow> 's \<Rightarrow> spawned result \<times> 's) \<Rightarrow> spawn_args option option \<Rightarrow> flags
     \<Rightarrow> nat \<Rightarrow> identity \<Rightarrow> nat \<Rightarrow> nat \<Rightarrow> spawned \<Rightarrow> counters \<Rightarrow> 's \<Rightarrow> ((nat \<times> counters) \<times> spawned \<times> 's) option" where
  "spawn_as sp req pipes p ident out sz cell cs s =
     (if \<not> aligned_output out 8 \<or> sz < 40 then Some (spawn_as_record INVALID_ARGUMENT cs, cell, s)
      else Option.bind req (\<lambda>asked.
        case asked of
          None \<Rightarrow> Some (spawn_as_record INVALID_ARGUMENT cs, EMPTY_SPAWNED, s)
        | Some q \<Rightarrow>
            if p = 0 \<or> p mod 8 \<noteq> 0 then Some (spawn_as_record INVALID_ARGUMENT cs, EMPTY_SPAWNED, s)
            else if SPAWN_MAX_GROUPS < length (id_ids ident)
                    \<or> length (id_ids ident) \<noteq> 0 \<and> (id_groups ident = 0 \<or> id_groups ident mod 4 \<noteq> 0)
            then Some (spawn_as_record INVALID_ARGUMENT cs, EMPTY_SPAWNED, s)
            else let (r, s') = sp q pipes (id_user ident) (id_group ident) (id_ids ident) s;
                     (st, child) = accept_child pipes r
                 in Some (spawn_as_record st cs, child, s')))"

definition spawn_as_read_stats :: "nat \<Rightarrow> nat \<Rightarrow> counters \<Rightarrow> counters \<Rightarrow> nat \<times> counters" where
  "spawn_as_read_stats out sz cell cs =
     (if \<not> aligned_output out 8 \<or> sz < 16 then (INVALID_ARGUMENT, cell) else (OK, cs))"

definition spawn_as_negotiate :: "bool \<Rightarrow> caps \<times> ops" where
  "spawn_as_negotiate provided =
     (if \<not> provided then (0, [''read_stats'']) else (CAP_SPAWN_AS, [''spawn_as'', ''read_stats'']))"

section \<open>Facts\<close>

interpretation processes_rec: status_recorder processes_record processes_published
  by unfold_locales (auto simp: processes_record_def processes_published_def Let_def)

text \<open>The scan of a NUL-terminated text returns; it stops at the first \<open>=\<close> or NUL.\<close>

lemma scan_entry_returns:
  assumes "mem n = 0" "i \<le> n"
  shows "\<exists>k. scan_entry mem i = Some k \<and> i \<le> k \<and> k \<le> n \<and> mem k \<in> {0, 61} \<and> (\<forall>j. i \<le> j \<and> j < k \<longrightarrow> mem j \<notin> {0, 61})"
  using assms(2)
proof (induction "n - i" arbitrary: i)
  case 0
  then show ?case using assms(1) by (auto simp: scan_entry.simps [of mem i])
next
  case (Suc m)
  show ?case
  proof (cases "mem i = 0 \<or> mem i = 61")
    case True
    then show ?thesis using Suc.prems by (auto simp: scan_entry.simps [of mem i])
  next
    case False
    have "m = n - (i + 1)" "i + 1 \<le> n" using Suc.hyps(2) by linarith+
    then obtain k where k: "scan_entry mem (i + 1) = Some k" "i + 1 \<le> k" "k \<le> n" "mem k \<in> {0, 61}"
        "\<forall>j. i + 1 \<le> j \<and> j < k \<longrightarrow> mem j \<notin> {0, 61}"
      using Suc.hyps(1) [of "i + 1"] by blast
    have "\<forall>j. i \<le> j \<and> j < k \<longrightarrow> mem j \<notin> {0, 61}"
      using k(5) False by (metis Suc_eq_plus1 Suc_leI insert_iff empty_iff le_neq_implies_less)
    then show ?thesis using k False by (intro exI [of _ k]) (simp add: scan_entry.simps [of mem i])
  qed
qed

definition terminated :: "texts \<Rightarrow> bool" where
  "terminated ts \<longleftrightarrow> (\<forall>(p, mem)\<in>set ts. \<exists>n. mem n = 0)"

lemma entries_ok_returns: "terminated ts \<Longrightarrow> \<exists>b. entries_ok ts = Some b"
proof (induction ts)
  case Nil
  show ?case by (rule exI [of _ True]) simp
next
  case (Cons t ts)
  obtain p mem where t: "t = (p, mem)" by (cases t)
  obtain n where "mem n = 0" using Cons.prems by (auto simp: terminated_def t)
  then obtain k where "scan_entry mem 0 = Some k" using scan_entry_returns [of mem n 0] by auto
  then show ?case using Cons by (auto simp: t terminated_def)
qed

text \<open>What an environment the front end lets through looks like: every entry has a non-empty name.\<close>

lemma entries_ok_names:
  assumes "entries_ok ts = Some True" "terminated ts" "(p, mem) \<in> set ts"
  shows "\<exists>k>0. mem k = 61 \<and> (\<forall>j<k. mem j \<noteq> 0 \<and> mem j \<noteq> 61)"
  using assms
proof (induction ts)
  case (Cons t ts)
  obtain q m where t: "t = (q, m)" by (cases t)
  obtain n where "m n = 0" using Cons.prems(2) by (auto simp: terminated_def t)
  then obtain k where k: "scan_entry m 0 = Some k" "m k \<in> {0, 61}" "\<forall>j<k. m j \<notin> {0, 61}"
    using scan_entry_returns [of m n 0] by auto
  then have "k > 0" "m k = 61" "entries_ok ts = Some True"
    using Cons.prems(1) by (auto simp: t split: if_splits)
  then show ?case using Cons k by (auto simp: t terminated_def)
qed simp

lemma spawn_request_returns:
  assumes "terminated envs"
  shows "\<exists>r. spawn_request program program_length pbytes arguments args environment envs directory directory_length dbytes pipes = Some r"
  using entries_ok_returns [OF assms]
  by (auto simp: spawn_request_def texts_of_def split: option.splits if_splits Option.bind_splits)

lemma texts_of_Some: "texts_of p ts = Some l \<Longrightarrow> l = ts \<and> 0 \<notin> fst ` set ts \<and> length ts \<le> MAX_TEXTS"
  by (fastforce simp: texts_of_def list_all_iff split: if_splits)

lemma spawn_request_names:
  assumes "spawn_request program program_length pbytes arguments args environment envs directory directory_length dbytes pipes
      = Some (Some (prog, argv, env, dir))" "terminated envs" "env \<noteq> None" "(p, mem) \<in> set envs"
  shows "\<exists>k>0. mem k = 61 \<and> (\<forall>j<k. mem j \<noteq> 0 \<and> mem j \<noteq> 61)"
proof -
  have "entries_ok envs = Some True"
    using assms(1,3) by (auto simp: spawn_request_def dest!: texts_of_Some split: option.splits if_splits Option.bind_splits)
  then show ?thesis using entries_ok_names assms(2,4) by blast
qed

lemma spawn_request_checked:
  assumes "spawn_request program program_length pbytes arguments args environment envs directory directory_length dbytes pipes
      = Some (Some (prog, argv, env, dir))"
  shows "0 \<notin> set prog \<and> argv \<noteq> [] \<and> 0 \<notin> set argv \<and> argv = map fst args
    \<and> pipes AND NOT (PIPE_INPUT OR PIPE_OUTPUT OR PIPE_ERROR) = 0"
  using assms
  by (auto simp: spawn_request_def io_path_Some_iff dest!: texts_of_Some split: option.splits if_splits Option.bind_splits)

lemma accept_child_pair:
  "accept_child pipes r = (st, child) \<Longrightarrow>
     if st = OK then r = Inr child \<and> spawned_consistent child pipes else child = EMPTY_SPAWNED"
  by (cases r) (auto simp: accept_child_def split: if_splits)

text \<open>A child is delivered with a handle, an identifier and exactly the pipes asked for, or not at all.\<close>

lemma processes_spawn_contract:
  assumes "processes_spawn cp req pipes out sz cell cs s = Some ((st, cs'), child, s')" "aligned_output out 8" "40 \<le> sz"
  shows "if st = OK then spawned_consistent child pipes else child = EMPTY_SPAWNED"
  using assms by (auto simp: processes_spawn_def Let_def dest!: processes_rec.pair accept_child_pair
      split: Option.bind_splits option.splits prod.splits if_splits)

lemma pipe_write_contract:
  assumes "pipe_write cp pipe data bytes written cell cs s = ((st, cs'), n, s')" "aligned_output written 8"
  shows "n \<le> length bytes \<and> (st = OK \<longrightarrow> n = 0 \<longleftrightarrow> bytes = []) \<and> (st \<noteq> OK \<longrightarrow> n = 0)"
  using assms by (auto simp: pipe_write_def Let_def dest!: processes_rec.pair split: if_splits prod.splits sum.splits)

end
