(* ===== verification/Pal_System.thy ===== *)
theory Pal_System
  imports Pal_Io
begin

text \<open>
  Facts about the process and the machine (\<open>src/src/system.rs\<close>): the environment as an enumeration of
  \<open>NAME=value\<close> texts, operating system texts, CPU time, uptime and user identity.
\<close>

abbreviation CAP_SYSTEM :: caps where "CAP_SYSTEM \<equiv> 1073741824"
abbreviation TEXT_EXECUTABLE_PATH :: nat where "TEXT_EXECUTABLE_PATH \<equiv> 1"
abbreviation TEXT_HOME_DIRECTORY :: nat where "TEXT_HOME_DIRECTORY \<equiv> 6"
abbreviation MAX_ENVIRONMENT_ENTRY :: nat where "MAX_ENVIRONMENT_ENTRY \<equiv> 131072"

record 's system_provider =
  yp_environment_entry :: "nat \<Rightarrow> byte list \<Rightarrow> 's \<Rightarrow> nat result \<times> byte list \<times> 's"
  yp_text :: "nat \<Rightarrow> byte list \<Rightarrow> 's \<Rightarrow> nat result \<times> byte list \<times> 's"
  yp_process_times :: "'s \<Rightarrow> (nat \<times> nat) result \<times> 's"
  yp_uptime_ns :: "'s \<Rightarrow> nat result \<times> 's"
  yp_user_ids :: "'s \<Rightarrow> (nat \<times> nat) result \<times> 's"

definition system_record :: recorder where
  "system_record st index cs =
     (let st =
        (if st \<in> {OK, UNSUPPORTED, INVALID_ARGUMENT, OS_ERROR, OUT_OF_MEMORY} then st
         else if st = NOT_FOUND \<and> index = 0 then st
         else if st = BUFFER_TOO_SMALL \<and> index \<le> 1 then st
         else OS_ERROR)
      in (st, bump (if st = OK then index else 4) cs))"

text \<open>A \<open>NAME=value\<close> text with a non-empty name.\<close>

definition names_variable :: "byte list \<Rightarrow> bool" where
  "names_variable t = (case position (\<lambda>b. b = 61) t of Some at \<Rightarrow> 0 < at | None \<Rightarrow> False)"

definition environment_entry ::
  "'s system_provider \<Rightarrow> nat \<Rightarrow> nat \<Rightarrow> byte list \<Rightarrow> nat \<Rightarrow> nat \<Rightarrow> counters \<Rightarrow> 's
     \<Rightarrow> (nat \<times> counters) \<times> nat \<times> byte list \<times> 's" where
  "environment_entry yp index out buf needed cell cs s =
     (if \<not> aligned_output needed 8 \<or> \<not> valid_buffer out (length buf)
      then (system_record INVALID_ARGUMENT 0 cs, cell, buf, s)
      else let (r, left, s') = yp_environment_entry yp index (replicate (length buf) 0) s;
               (st, needed', buf') = io_text buf 0 MAX_ENVIRONMENT_ENTRY (\<lambda>_. (r, left))
           in if st = OK \<and> \<not> names_variable (take (needed' - 1) buf')
              then (system_record OS_ERROR 0 cs, 0, replicate (length buf) 0, s')
              else (system_record st 0 cs, needed', buf', s'))"

definition system_text ::
  "'s system_provider \<Rightarrow> nat \<Rightarrow> nat \<Rightarrow> byte list \<Rightarrow> nat \<Rightarrow> nat \<Rightarrow> counters \<Rightarrow> 's
     \<Rightarrow> (nat \<times> counters) \<times> nat \<times> byte list \<times> 's" where
  "system_text yp what out buf needed cell cs s =
     (if \<not> aligned_output needed 8 \<or> \<not> valid_buffer out (length buf)
      then (system_record INVALID_ARGUMENT 1 cs, cell, buf, s)
      else if \<not> (TEXT_EXECUTABLE_PATH \<le> what \<and> what \<le> TEXT_HOME_DIRECTORY)
      then (system_record INVALID_ARGUMENT 1 cs, 0, buf, s)
      else let (r, left, s') = yp_text yp what (replicate (length buf) 0) s;
               (st, needed', buf') = io_text buf 0 (MAX_NAME + 1) (\<lambda>_. (r, left))
           in (system_record st 1 cs, needed', buf', s'))"

definition process_times ::
  "'s system_provider \<Rightarrow> nat \<Rightarrow> nat \<Rightarrow> nat \<times> nat \<Rightarrow> counters \<Rightarrow> 's \<Rightarrow> (nat \<times> counters) \<times> (nat \<times> nat) \<times> 's" where
  "process_times yp user_ns kernel_ns cells cs s =
     (if \<not> aligned_output user_ns 8 \<or> \<not> aligned_output kernel_ns 8 then (system_record INVALID_ARGUMENT 2 cs, cells, s)
      else case yp_process_times yp s of
          (Inr (user, kern), s') \<Rightarrow> (system_record OK 2 cs, (user, kern), s')
        | (Inl e, s') \<Rightarrow> (system_record (status e) 2 cs, (0, 0), s'))"

definition uptime_ns :: "'s system_provider \<Rightarrow> nat \<Rightarrow> nat \<Rightarrow> counters \<Rightarrow> 's \<Rightarrow> (nat \<times> counters) \<times> nat \<times> 's" where
  "uptime_ns yp out cell cs s =
     (if \<not> aligned_output out 8 then (system_record INVALID_ARGUMENT 2 cs, cell, s)
      else case yp_uptime_ns yp s of
          (Inr value, s') \<Rightarrow> (system_record OK 2 cs, value, s')
        | (Inl e, s') \<Rightarrow> (system_record (status e) 2 cs, 0, s'))"

definition user_ids ::
  "'s system_provider \<Rightarrow> nat \<Rightarrow> nat \<Rightarrow> nat \<times> nat \<Rightarrow> counters \<Rightarrow> 's \<Rightarrow> (nat \<times> counters) \<times> (nat \<times> nat) \<times> 's" where
  "user_ids yp user grp cells cs s =
     (if \<not> aligned_output user 4 \<or> \<not> aligned_output grp 4 then (system_record INVALID_ARGUMENT 3 cs, cells, s)
      else case yp_user_ids yp s of
          (Inr (u, g), s') \<Rightarrow> (system_record OK 3 cs, (u, g), s')
        | (Inl e, s') \<Rightarrow> (system_record (status e) 3 cs, (0, 0), s'))"

definition system_read_stats :: "nat \<Rightarrow> nat \<Rightarrow> counters \<Rightarrow> counters \<Rightarrow> nat \<times> counters" where
  "system_read_stats out sz cell cs =
     (if \<not> aligned_output out 8 \<or> sz < 40 then (INVALID_ARGUMENT, cell) else (OK, cs))"

definition system_negotiate :: "bool \<Rightarrow> caps \<times> ops" where
  "system_negotiate provided =
     (if \<not> provided then (0, [''read_stats''])
      else (CAP_SYSTEM, [''environment_entry'', ''text'', ''process_times'', ''uptime_ns'', ''user_ids'', ''read_stats'']))"

section \<open>Facts\<close>

definition system_published :: "nat \<Rightarrow> nat \<Rightarrow> bool" where
  "system_published i st \<longleftrightarrow>
     st \<in> {OK, UNSUPPORTED, INVALID_ARGUMENT, OS_ERROR, OUT_OF_MEMORY} \<or> st = NOT_FOUND \<and> i = 0
     \<or> st = BUFFER_TOO_SMALL \<and> i \<le> 1"

interpretation system_rec: status_recorder system_record system_published
  by unfold_locales (auto simp: system_record_def system_published_def Let_def)

text \<open>
  An entry that is delivered is one NUL-terminated \<open>NAME=value\<close> text inside the buffer; a call that
  is not OK leaves nothing but zeroes.
\<close>

lemma environment_entry_contract:
  assumes "environment_entry yp index out buf needed cell cs s = ((st, cs'), n, buf', s')"
    and "aligned_output needed 8" "valid_buffer out (length buf)"
  shows "(st = OK \<longrightarrow> 2 \<le> n \<and> n \<le> length buf \<and> n \<le> MAX_ENVIRONMENT_ENTRY \<and> buf' ! (n - 1) = 0
             \<and> 0 \<notin> set (take (n - 1) buf') \<and> names_variable (take (n - 1) buf'))
    \<and> (st \<noteq> OK \<longrightarrow> buf' = replicate (length buf) 0)"
proof -
  obtain r left t where c: "yp_environment_entry yp index (replicate (length buf) 0) s = (r, left, t)"
    by (metis prod_cases3)
  obtain st0 n0 b0 where i: "io_text buf 0 MAX_ENVIRONMENT_ENTRY (\<lambda>_. (r, left)) = (st0, n0, b0)" by (metis prod_cases3)
  show ?thesis
  proof (cases "st0 = OK")
    case True
    then show ?thesis using c i assms io_text_OK [of buf 0 MAX_ENVIRONMENT_ENTRY "\<lambda>_. (r, left)" n0 b0]
      by (auto simp: environment_entry_def dest!: system_rec.pair split: if_splits)
  next
    case False
    then show ?thesis using c i assms io_text_failure_clears [OF i False]
      by (auto simp: environment_entry_def dest!: system_rec.pair split: if_splits)
  qed
qed

end
