(* ===== verification/Pal_Accounts.thy ===== *)
theory Pal_Accounts
  imports Pal_Io
begin

text \<open>
  Users and groups (\<open>src/src/accounts.rs\<close>): the fixed-size account record, its constructor, and the
  checked lookups over any provider. The text fields are byte lists of the lengths of the arrays.
\<close>

abbreviation CAP_ACCOUNTS :: caps where "CAP_ACCOUNTS \<equiv> 549755813888"
abbreviation MAX_ACCOUNT_NAME :: nat where "MAX_ACCOUNT_NAME \<equiv> 255"
abbreviation MAX_GROUPS :: nat where "MAX_GROUPS \<equiv> 65536"

record account =
  ac_user_id :: nat
  ac_group_id :: nat
  ac_name :: "byte list"
  ac_home :: "byte list"
  ac_shell :: "byte list"

definition EMPTY_ACCOUNT :: account where
  "EMPTY_ACCOUNT = \<lparr>ac_user_id = 0, ac_group_id = 0, ac_name = replicate 256 0, ac_home = replicate 1024 0,
     ac_shell = replicate 256 0\<rparr>"

text \<open>One round of the constructor's loop: the text cut at its first NUL, copied into a zeroed field.\<close>

definition fill_field :: "nat \<Rightarrow> byte list \<Rightarrow> byte list option" where
  "fill_field field_length t =
     (let t = take (case position (\<lambda>b. b = 0) t of Some i \<Rightarrow> i | None \<Rightarrow> length t) t
      in if field_length \<le> length t then None else Some (overwrite (replicate field_length 0) 0 t))"

definition account_new :: "nat \<Rightarrow> nat \<Rightarrow> byte list \<Rightarrow> byte list \<Rightarrow> byte list \<Rightarrow> account option" where
  "account_new user_id group_id nm home shell =
     Option.bind (fill_field 256 nm) (\<lambda>n.
     Option.bind (fill_field 1024 home) (\<lambda>h.
     Option.bind (fill_field 256 shell) (\<lambda>sh.
       Some \<lparr>ac_user_id = user_id, ac_group_id = group_id, ac_name = n, ac_home = h, ac_shell = sh\<rparr>)))"

record 's accounts_provider =
  ap_user_by_id :: "nat \<Rightarrow> 's \<Rightarrow> account result \<times> 's"
  ap_user_by_name :: "byte list \<Rightarrow> 's \<Rightarrow> account result \<times> 's"
  ap_process_groups :: "nat list \<Rightarrow> 's \<Rightarrow> nat result \<times> nat list \<times> 's"
  ap_user_groups :: "byte list \<Rightarrow> nat \<Rightarrow> nat list \<Rightarrow> 's \<Rightarrow> nat result \<times> nat list \<times> 's"

definition accounts_record :: recorder where
  "accounts_record st index cs =
     (let st =
        (if st \<in> {OK, UNSUPPORTED, INVALID_ARGUMENT, OS_ERROR, OUT_OF_MEMORY, NOT_FOUND} then st
         else if st = BUFFER_TOO_SMALL \<and> index = 1 then st
         else OS_ERROR)
      in (st, bump (if st = OK then index else 2) cs))"

definition account_name :: "nat \<Rightarrow> nat \<Rightarrow> byte list \<Rightarrow> byte list option" where
  "account_name data len bytes =
     (if data = 0 \<or> len = 0 \<or> MAX_ACCOUNT_NAME < len \<or> checked_add data len = None then None
      else if 0 \<in> set bytes then None else Some bytes)"

definition account_broken :: "nat option \<Rightarrow> account \<Rightarrow> bool" where
  "account_broken asked a \<longleftrightarrow>
     ac_name a ! 0 = 0 \<or> ac_name a ! 255 \<noteq> 0 \<or> ac_home a ! 1023 \<noteq> 0 \<or> ac_shell a ! 255 \<noteq> 0
     \<or> (case asked of Some i \<Rightarrow> i \<noteq> ac_user_id a | None \<Rightarrow> False)"

text \<open>What a provider left behind a terminator is not part of the text.\<close>

definition clear_tail :: "byte list \<Rightarrow> byte list" where
  "clear_tail field =
     (let e = (case position (\<lambda>b. b = 0) field of Some i \<Rightarrow> i | None \<Rightarrow> length field)
      in take e field @ replicate (length field - e) 0)"

abbreviation ACCOUNT_SIZE :: nat where "ACCOUNT_SIZE \<equiv> 1544"

definition account_query ::
  "nat \<Rightarrow> nat \<Rightarrow> account \<Rightarrow> nat option \<Rightarrow> ('s \<Rightarrow> account result \<times> 's) \<Rightarrow> counters \<Rightarrow> 's
     \<Rightarrow> (nat \<times> counters) \<times> account \<times> 's" where
  "account_query out out_size cell asked query cs s =
     (if \<not> aligned_output out 4 \<or> out_size < ACCOUNT_SIZE then (accounts_record INVALID_ARGUMENT 0 cs, cell, s)
      else case query s of
          (Inr a, s') \<Rightarrow>
            if account_broken asked a then (accounts_record OS_ERROR 0 cs, EMPTY_ACCOUNT, s')
            else (accounts_record OK 0 cs,
                  a\<lparr>ac_name := clear_tail (ac_name a), ac_home := clear_tail (ac_home a), ac_shell := clear_tail (ac_shell a)\<rparr>,
                  s')
        | (Inl e, s') \<Rightarrow> (accounts_record (status e) 0 cs, EMPTY_ACCOUNT, s'))"

definition user_by_id ::
  "'s accounts_provider \<Rightarrow> nat \<Rightarrow> nat \<Rightarrow> nat \<Rightarrow> account \<Rightarrow> counters \<Rightarrow> 's \<Rightarrow> (nat \<times> counters) \<times> account \<times> 's" where
  "user_by_id ap user_id out out_size cell cs s =
     account_query out out_size cell (Some user_id) (ap_user_by_id ap user_id) cs s"

definition user_by_name ::
  "'s accounts_provider \<Rightarrow> nat \<Rightarrow> nat \<Rightarrow> byte list \<Rightarrow> nat \<Rightarrow> nat \<Rightarrow> account \<Rightarrow> counters \<Rightarrow> 's
     \<Rightarrow> (nat \<times> counters) \<times> account \<times> 's" where
  "user_by_name ap t len bytes out out_size cell cs s =
     (if \<not> aligned_output out 4 \<or> out_size < ACCOUNT_SIZE then (accounts_record INVALID_ARGUMENT 0 cs, cell, s)
      else case account_name t len bytes of
          None \<Rightarrow> (accounts_record INVALID_ARGUMENT 0 cs, EMPTY_ACCOUNT, s)
        | Some n \<Rightarrow> account_query out out_size EMPTY_ACCOUNT None (ap_user_by_name ap n) cs s)"

definition account_groups ::
  "nat \<Rightarrow> nat list \<Rightarrow> nat \<Rightarrow> nat \<Rightarrow> (nat list \<Rightarrow> 's \<Rightarrow> nat result \<times> nat list \<times> 's) \<Rightarrow> counters \<Rightarrow> 's
     \<Rightarrow> (nat \<times> counters) \<times> nat \<times> nat list \<times> 's" where
  "account_groups out buf entries cell query cs s =
     (let capacity = length buf in
      if \<not> aligned_output entries 8 then (accounts_record INVALID_ARGUMENT 1 cs, cell, buf, s)
      else if MAX_GROUPS < capacity \<or> capacity \<noteq> 0 \<and> \<not> aligned_output out 4
      then (accounts_record INVALID_ARGUMENT 1 cs, 0, buf, s)
      else let (r, left, s') = query buf s;
               (st, n) =
                 (case r of
                    Inr found \<Rightarrow>
                      if MAX_GROUPS < found then (OS_ERROR, 0)
                      else (if capacity < found then BUFFER_TOO_SMALL else OK, found)
                  | Inl e \<Rightarrow> (status e, 0))
           in (accounts_record st 1 cs, n, if st \<noteq> OK then replicate capacity 0 else left, s'))"

definition process_groups ::
  "'s accounts_provider \<Rightarrow> nat \<Rightarrow> nat list \<Rightarrow> nat \<Rightarrow> nat \<Rightarrow> counters \<Rightarrow> 's
     \<Rightarrow> (nat \<times> counters) \<times> nat \<times> nat list \<times> 's" where
  "process_groups ap out buf entries cell = account_groups out buf entries cell (ap_process_groups ap)"

definition user_groups ::
  "'s accounts_provider \<Rightarrow> nat \<Rightarrow> nat \<Rightarrow> byte list \<Rightarrow> nat \<Rightarrow> nat \<Rightarrow> nat list \<Rightarrow> nat \<Rightarrow> nat \<Rightarrow> counters \<Rightarrow> 's
     \<Rightarrow> (nat \<times> counters) \<times> nat \<times> nat list \<times> 's" where
  "user_groups ap t len bytes primary_group out buf entries cell cs s =
     (if \<not> aligned_output entries 8 then (accounts_record INVALID_ARGUMENT 1 cs, cell, buf, s)
      else case account_name t len bytes of
          None \<Rightarrow> (accounts_record INVALID_ARGUMENT 1 cs, 0, buf, s)
        | Some n \<Rightarrow> account_groups out buf entries 0 (ap_user_groups ap n primary_group) cs s)"

definition accounts_read_stats :: "nat \<Rightarrow> nat \<Rightarrow> counters \<Rightarrow> counters \<Rightarrow> nat \<times> counters" where
  "accounts_read_stats out sz cell cs =
     (if \<not> aligned_output out 8 \<or> sz < 24 then (INVALID_ARGUMENT, cell) else (OK, cs))"

definition accounts_negotiate :: "bool \<Rightarrow> caps \<times> ops" where
  "accounts_negotiate provided =
     (if \<not> provided then (0, [''read_stats''])
      else (CAP_ACCOUNTS, [''user_by_id'', ''user_by_name'', ''process_groups'', ''user_groups'', ''read_stats'']))"

section \<open>Facts\<close>

definition accounts_published :: "nat \<Rightarrow> nat \<Rightarrow> bool" where
  "accounts_published i st \<longleftrightarrow>
     st \<in> {OK, UNSUPPORTED, INVALID_ARGUMENT, OS_ERROR, OUT_OF_MEMORY, NOT_FOUND} \<or> st = BUFFER_TOO_SMALL \<and> i = 1"

interpretation accounts_rec: status_recorder accounts_record accounts_published
  by unfold_locales (auto simp: accounts_record_def accounts_published_def Let_def)

text \<open>The text of a field: its bytes up to the first NUL.\<close>

definition field_text :: "byte list \<Rightarrow> byte list" where
  "field_text field = takeWhile (\<lambda>b. b \<noteq> 0) field"

lemma cut_takeWhile:
  "take (case position P xs of Some i \<Rightarrow> i | None \<Rightarrow> length xs) xs = takeWhile (\<lambda>x. \<not> P x) xs"
  by (induction xs) (auto split: option.splits)

lemma fill_field_Some:
  assumes "fill_field n t = Some f"
  shows "length f = n \<and> field_text f = field_text t \<and> f ! (n - 1) = 0 \<and> length (field_text t) < n"
proof -
  define u where "u = field_text t"
  have l: "length u < n" and f: "f = u @ replicate (n - length u) 0"
    using assms by (auto simp: fill_field_def Let_def cut_takeWhile u_def field_text_def overwrite_def split: if_splits)
  have "0 \<notin> set u" by (auto simp: u_def field_text_def dest: set_takeWhileD)
  then have "field_text f = u" using l
    by (cases "n - length u") (auto simp: f field_text_def takeWhile_append)
  then show ?thesis using l by (auto simp: f u_def [symmetric] nth_append)
qed

lemma clear_tail_eq: "clear_tail f = field_text f @ replicate (length f - length (field_text f)) 0"
proof -
  have "length (takeWhile (\<lambda>b. b \<noteq> 0) f) = (case position (\<lambda>b. b = 0) f of Some i \<Rightarrow> i | None \<Rightarrow> length f)"
    by (induction f) (auto split: option.splits)
  then show ?thesis by (simp add: clear_tail_def Let_def cut_takeWhile field_text_def)
qed

lemma field_text_clear_tail [simp]: "field_text (clear_tail f) = field_text f"
proof -
  have "takeWhile (\<lambda>b. b \<noteq> 0) (takeWhile (\<lambda>b. b \<noteq> 0) f @ replicate k 0) = takeWhile (\<lambda>b. b \<noteq> 0) f" for k
    by (cases k) (auto simp: takeWhile_append dest: set_takeWhileD)
  then show ?thesis by (simp add: clear_tail_eq field_text_def)
qed

text \<open>
  The answer of a lookup: on OK the account asked for, with a name, the provider's texts and nothing
  behind their terminators; otherwise the empty account.
\<close>

lemma account_query_contract:
  assumes "account_query out out_size cell asked query cs s = ((st, cs'), a, s')"
    and "aligned_output out 4" "ACCOUNT_SIZE \<le> out_size"
  shows "if st = OK
         then \<exists>b. query s = (Inr b, s') \<and> ac_user_id a = ac_user_id b \<and> ac_group_id a = ac_group_id b
           \<and> field_text (ac_name a) = field_text (ac_name b) \<and> field_text (ac_home a) = field_text (ac_home b)
           \<and> field_text (ac_shell a) = field_text (ac_shell b) \<and> (asked \<noteq> None \<longrightarrow> asked = Some (ac_user_id a))
         else a = EMPTY_ACCOUNT"
proof -
  obtain r t where "query s = (r, t)" by fastforce
  then show ?thesis using assms
    by (cases r) (auto simp: account_query_def account_broken_def dest!: accounts_rec.pair split: if_splits)
qed

text \<open>What the constructor builds passes the front end unchanged, if it has a name and answers to its id.\<close>

lemma account_new_accepted:
  assumes "account_new u g nm home shell = Some a" "field_text nm \<noteq> []" "asked = None \<or> asked = Some u"
  shows "\<not> account_broken asked a \<and> ac_user_id a = u \<and> ac_group_id a = g
    \<and> field_text (ac_name a) = field_text nm \<and> field_text (ac_home a) = field_text home
    \<and> field_text (ac_shell a) = field_text shell"
proof -
  obtain n h sh where f: "fill_field 256 nm = Some n" "fill_field 1024 home = Some h" "fill_field 256 shell = Some sh"
      and a: "a = \<lparr>ac_user_id = u, ac_group_id = g, ac_name = n, ac_home = h, ac_shell = sh\<rparr>"
    using assms(1) by (auto simp: account_new_def split: Option.bind_splits)
  note texts = f [THEN fill_field_Some]
  have "n \<noteq> []" "n ! 0 \<noteq> 0" using texts(1) assms(2) by (cases n; auto simp: field_text_def split: if_splits)+
  then show ?thesis using texts assms(3) by (auto simp: a account_broken_def)
qed

lemma account_groups_contract:
  assumes "account_groups out buf entries cell query cs s = ((st, cs'), n, buf', s')" "aligned_output entries 8"
  shows "n \<le> MAX_GROUPS \<and> (st = OK \<longrightarrow> n \<le> length buf \<and> query buf s = (Inr n, buf', s'))
    \<and> (st \<noteq> OK \<longrightarrow> buf' = buf \<or> buf' = replicate (length buf) 0)"
proof -
  obtain r left t where "query buf s = (r, left, t)" by (metis prod_cases3)
  then show ?thesis using assms
    by (cases r) (auto simp: account_groups_def Let_def dest!: accounts_rec.pair split: if_splits)
qed

end
