(* ===== verification/Pal_Faults.thy ===== *)
theory Pal_Faults
  imports Pal_Io
begin

text \<open>
  Synchronous CPU faults (\<open>src/src/faults.rs\<close>). The statics \<open>STATE\<close>, \<open>HANDLER\<close>, \<open>DATA\<close> and
  \<open>COUNTERS\<close> are one record. The first part models each function as one call, the second part the
  loads and stores of \<open>install\<close> and \<open>deliver\<close> as single steps of concurrent threads.

  A handler is an address, 0 for none; \<open>call h\<close> is what the code at that address does with the kind,
  the faulting address, the frame and the consumer's data. Frames are values of an arbitrary type.
\<close>

section \<open>Constants and state\<close>

abbreviation CAP_FAULTS :: caps where "CAP_FAULTS \<equiv> 536870912"
abbreviation FAULT_ACCESS :: nat where "FAULT_ACCESS \<equiv> 1"
abbreviation FAULT_STACK_OVERFLOW :: nat where "FAULT_STACK_OVERFLOW \<equiv> 8"
abbreviation UNHANDLED :: nat where "UNHANDLED \<equiv> 0"
abbreviation RESUME :: nat where "RESUME \<equiv> 1"

datatype arch = Aarch64 | X86_64 | Other_Arch

definition FRAME_TAG :: "arch \<Rightarrow> nat" where
  "FRAME_TAG a = (case a of Aarch64 \<Rightarrow> 0x4652414d45000001 | X86_64 \<Rightarrow> 0x4652414d45000002 | Other_Arch \<Rightarrow> 0)"

text \<open>31 + 3 registers, 16 + 2 registers, one placeholder word.\<close>

definition frame_size :: "arch \<Rightarrow> nat" where
  "frame_size a = (case a of Aarch64 \<Rightarrow> 272 | X86_64 \<Rightarrow> 144 | Other_Arch \<Rightarrow> 8)"

datatype disposition = Unhandled | Resume

abbreviation EMPTY_STATE :: nat where "EMPTY_STATE \<equiv> 0"
abbreviation INSTALLING :: nat where "INSTALLING \<equiv> 1"
abbreviation INSTALLED :: nat where "INSTALLED \<equiv> 2"

record fault_state =
  fa_state :: nat
  fa_handler :: nat
  fa_data :: nat
  fa_counters :: counters

definition fault_init :: fault_state where
  "fault_init = \<lparr>fa_state = EMPTY_STATE, fa_handler = 0, fa_data = 0, fa_counters = replicate 5 0\<rparr>"

definition fa_count :: "nat \<Rightarrow> fault_state \<Rightarrow> fault_state" where
  "fa_count i f = f\<lparr>fa_counters := bump i (fa_counters f)\<rparr>"

type_synonym 'f handlers = "nat \<Rightarrow> nat \<Rightarrow> nat \<Rightarrow> 'f \<Rightarrow> nat \<Rightarrow> nat \<times> 'f"

section \<open>The calls\<close>

definition fault_deliver ::
  "'f handlers \<Rightarrow> nat \<Rightarrow> nat \<Rightarrow> 'f \<Rightarrow> fault_state \<Rightarrow> disposition \<times> 'f \<times> fault_state" where
  "fault_deliver call kind address frame f =
     (let handler = fa_handler f in
      if handler = 0 \<or> \<not> (FAULT_ACCESS \<le> kind \<and> kind \<le> FAULT_STACK_OVERFLOW)
      then (Unhandled, frame, fa_count (if handler = 0 then 3 else 4) f)
      else let f = fa_count 1 f;
               (answer, frame) = call handler kind address frame (fa_data f)
           in if answer = RESUME then (Resume, frame, fa_count 2 f) else (Unhandled, frame, fa_count 3 f))"

definition fault_deliver_raw ::
  "arch \<Rightarrow> 'f handlers \<Rightarrow> nat \<Rightarrow> nat \<Rightarrow> nat \<Rightarrow> nat \<Rightarrow> 'f \<Rightarrow> fault_state \<Rightarrow> nat \<times> 'f \<times> fault_state" where
  "fault_deliver_raw a call kind address p sz frame f =
     (if p = 0 \<or> p mod 8 \<noteq> 0 \<or> sz \<noteq> frame_size a \<or> FRAME_TAG a = 0 then (UNHANDLED, frame, fa_count 4 f)
      else let (d, frame, f) = fault_deliver call kind address frame f
           in (case d of Resume \<Rightarrow> RESUME | Unhandled \<Rightarrow> UNHANDLED, frame, f))"

definition fault_install ::
  "('s \<Rightarrow> unit result \<times> 's) \<Rightarrow> nat option \<Rightarrow> nat \<Rightarrow> fault_state \<Rightarrow> 's \<Rightarrow> nat \<times> fault_state \<times> 's" where
  "fault_install enable handler data f s =
     (case handler of
        None \<Rightarrow> (INVALID_ARGUMENT, fa_count 4 f, s)
      | Some h \<Rightarrow>
          if fa_state f \<noteq> EMPTY_STATE then (BUSY, fa_count 4 f, s)
          else let f = f\<lparr>fa_state := INSTALLING, fa_data := data, fa_handler := h\<rparr>;
                   (r, s') = enable s;
                   st = (case r of Inr _ \<Rightarrow> OK | Inl e \<Rightarrow> if status e = UNSUPPORTED then UNSUPPORTED else OS_ERROR)
               in if st \<noteq> OK then (st, fa_count 4 (f\<lparr>fa_handler := 0, fa_state := EMPTY_STATE\<rparr>), s')
                  else (OK, fa_count 0 (f\<lparr>fa_state := INSTALLED\<rparr>), s'))"

definition faults_read_stats :: "nat \<Rightarrow> nat \<Rightarrow> counters \<Rightarrow> fault_state \<Rightarrow> nat \<times> counters" where
  "faults_read_stats out sz cell f =
     (if \<not> aligned_output out 8 \<or> sz < 40 then (INVALID_ARGUMENT, cell) else (OK, fa_counters f))"

definition faults_negotiate :: "arch \<Rightarrow> bool \<Rightarrow> (caps \<times> ops) option" where
  "faults_negotiate a provided =
     (if \<not> provided then Some (0, [''read_stats''])
      else if FRAME_TAG a = 0 then None
      else Some (CAP_FAULTS, [''frame_tag'', ''frame_size'', ''install'', ''read_stats'']))"

section \<open>The loads and stores of concurrent threads\<close>

text \<open>
  An installer carries its handler and data, a deliverer what it has loaded. \<open>Claimed\<close> follows the
  compare-exchange, \<open>Armed\<close> the two stores, \<open>Cleared\<close> the store of NULL on the failure path.
\<close>

datatype fault_thread =
    Install nat nat
  | Claimed nat nat
  | Data_Stored nat nat
  | Armed nat nat
  | Cleared nat nat
  | Returned nat
  | Deliver
  | Loaded nat
  | Called nat nat
  | Dropped

inductive fault_step :: "fault_state \<times> (nat \<Rightarrow> fault_thread) \<Rightarrow> fault_state \<times> (nat \<Rightarrow> fault_thread) \<Rightarrow> bool" where
  claim: "ts t = Install h d \<Longrightarrow> fa_state f = EMPTY_STATE \<Longrightarrow>
    fault_step (f, ts) (f\<lparr>fa_state := INSTALLING\<rparr>, ts(t := Claimed h d))"
| busy: "ts t = Install h d \<Longrightarrow> fa_state f \<noteq> EMPTY_STATE \<Longrightarrow> fault_step (f, ts) (f, ts(t := Returned BUSY))"
| store_data: "ts t = Claimed h d \<Longrightarrow> fault_step (f, ts) (f\<lparr>fa_data := d\<rparr>, ts(t := Data_Stored h d))"
| store_handler: "ts t = Data_Stored h d \<Longrightarrow> fault_step (f, ts) (f\<lparr>fa_handler := h\<rparr>, ts(t := Armed h d))"
| enabled: "ts t = Armed h d \<Longrightarrow> fault_step (f, ts) (f\<lparr>fa_state := INSTALLED\<rparr>, ts(t := Returned OK))"
| refused: "ts t = Armed h d \<Longrightarrow> fault_step (f, ts) (f\<lparr>fa_handler := 0\<rparr>, ts(t := Cleared h d))"
| reset: "ts t = Cleared h d \<Longrightarrow> st \<in> {UNSUPPORTED, OS_ERROR} \<Longrightarrow>
    fault_step (f, ts) (f\<lparr>fa_state := EMPTY_STATE\<rparr>, ts(t := Returned st))"
| load: "ts t = Deliver \<Longrightarrow> fa_handler f \<noteq> 0 \<Longrightarrow> fault_step (f, ts) (f, ts(t := Loaded (fa_handler f)))"
| drop: "ts t = Deliver \<Longrightarrow> fa_handler f = 0 \<Longrightarrow> fault_step (f, ts) (f, ts(t := Dropped))"
| invoke: "ts t = Loaded h \<Longrightarrow> fault_step (f, ts) (f, ts(t := Called h (fa_data f)))"

inductive_cases fault_stepE: "fault_step (f, ts) (f', ts')"

text \<open>A thread that holds the claim, and the threads before their first step.\<close>

definition holder :: "fault_thread \<Rightarrow> bool" where
  "holder th = (case th of Claimed _ _ \<Rightarrow> True | Data_Stored _ _ \<Rightarrow> True | Armed _ _ \<Rightarrow> True | Cleared _ _ \<Rightarrow> True | _ \<Rightarrow> False)"

definition fault_start :: "(nat \<Rightarrow> fault_thread) \<Rightarrow> bool" where
  "fault_start ts \<longleftrightarrow> (\<forall>t. ts t = Deliver \<or> (\<exists>h d. h \<noteq> 0 \<and> ts t = Install h d))"

section \<open>Facts about the calls\<close>

definition fault_ok :: "fault_state \<Rightarrow> bool" where
  "fault_ok f \<longleftrightarrow> fa_state f \<in> {EMPTY_STATE, INSTALLED} \<and> (fa_state f = INSTALLED \<longleftrightarrow> fa_handler f \<noteq> 0)"

lemma fa_count_fields [simp]:
  "fa_state (fa_count i f) = fa_state f" "fa_handler (fa_count i f) = fa_handler f" "fa_data (fa_count i f) = fa_data f"
  by (simp_all add: fa_count_def)

lemma fault_init_ok: "fault_ok fault_init"
  by (simp add: fault_ok_def fault_init_def)

lemma fault_install_ok:
  assumes "fault_install enable handler data f s = (st, f', s')" "fault_ok f" "handler \<noteq> Some 0"
  shows "fault_ok f' \<and> (st = OK \<longleftrightarrow> fa_state f = EMPTY_STATE \<and> fa_state f' = INSTALLED)
    \<and> (st = OK \<longrightarrow> handler = Some (fa_handler f') \<and> fa_data f' = data)
    \<and> (fa_state f = INSTALLED \<longrightarrow> st \<in> {INVALID_ARGUMENT, BUSY} \<and> fa_handler f' = fa_handler f \<and> fa_data f' = fa_data f)"
proof (cases handler)
  case None
  then show ?thesis using assms by (auto simp: fault_install_def fault_ok_def)
next
  case (Some h)
  obtain r t where "enable s = (r, t)" by fastforce
  then show ?thesis using Some assms
    by (cases r) (auto simp: fault_install_def fault_ok_def Let_def split: if_splits)
qed

lemma fault_deliver_eq:
  "fault_deliver call kind address frame f = (d, frame', f') \<Longrightarrow>
     fa_state f' = fa_state f \<and> fa_handler f' = fa_handler f \<and> fa_data f' = fa_data f
     \<and> (if fa_handler f = 0 \<or> kind = 0 \<or> 8 < kind then d = Unhandled \<and> frame' = frame
        else (d = Resume \<longleftrightarrow> fst (call (fa_handler f) kind address frame (fa_data f)) = RESUME)
             \<and> frame' = snd (call (fa_handler f) kind address frame (fa_data f)))"
  by (auto simp: fault_deliver_def Let_def split: if_splits prod.splits)

section \<open>Facts about concurrent threads\<close>

text \<open>The claim is exclusive, and an installation that succeeded is the last one.\<close>

definition exclusive :: "fault_state \<times> (nat \<Rightarrow> fault_thread) \<Rightarrow> bool" where
  "exclusive = (\<lambda>(f, ts).
     (\<forall>t u. (holder (ts t) \<or> ts t = Returned OK) \<longrightarrow> (holder (ts u) \<or> ts u = Returned OK) \<longrightarrow> t = u)
     \<and> (\<forall>t. holder (ts t) \<longrightarrow> fa_state f = INSTALLING)
     \<and> (\<forall>t. ts t = Returned OK \<longrightarrow> fa_state f = INSTALLED))"

lemma holder_simps [simp]:
  "holder (Claimed h d)" "holder (Data_Stored h d)" "holder (Armed h d)" "holder (Cleared h d)"
  "\<not> holder (Install h d)" "\<not> holder (Returned n)" "\<not> holder Deliver" "\<not> holder (Loaded h)" "\<not> holder (Called h d)"
  "\<not> holder Dropped"
  by (simp_all add: holder_def)

lemma exclusive_step:
  assumes "fault_step (f, ts) (f', ts')" "exclusive (f, ts)"
  shows "exclusive (f', ts')"
proof -
  have e: "\<And>t u. holder (ts t) \<or> ts t = Returned OK \<Longrightarrow> holder (ts u) \<or> ts u = Returned OK \<Longrightarrow> t = u"
      "\<And>t. holder (ts t) \<Longrightarrow> fa_state f = INSTALLING" "\<And>t. ts t = Returned OK \<Longrightarrow> fa_state f = INSTALLED"
    using assms(2) by (auto simp: exclusive_def)
  from assms(1) show ?thesis
  proof cases
    case (claim t h d)
    then show ?thesis using e(2, 3) by (auto simp: exclusive_def)
  next
    case (enabled t h d)
    then show ?thesis using e(1) [of t] e(3) by (auto simp: exclusive_def)
  next
    case (reset t h d st)
    then show ?thesis using e(1) [of t] e(2, 3) by (auto simp: exclusive_def)
  next
    case (store_data t h d)
    then show ?thesis using e(1) [of t] e(2) [of t] e(3) by (auto simp: exclusive_def)
  next
    case (store_handler t h d)
    then show ?thesis using e(1) [of t] e(2) [of t] e(3) by (auto simp: exclusive_def)
  next
    case (refused t h d)
    then show ?thesis using e(1) [of t] e(2) [of t] e(3) by (auto simp: exclusive_def)
  qed (use e in \<open>auto simp: exclusive_def split: if_splits\<close>)
qed

lemma exclusive_start: "fault_start ts \<Longrightarrow> exclusive (fault_init, ts)"
proof -
  assume "fault_start ts"
  then have "\<not> holder (ts t) \<and> ts t \<noteq> Returned OK" for t
    unfolding fault_start_def by (metis fault_thread.distinct holder_simps(5, 7))
  then show ?thesis by (simp add: exclusive_def)
qed

text \<open>
  While no installation has been refused, whatever a deliverer calls with is one pair a consumer
  installed: \<open>offered\<close> are the pairs of the installers.
\<close>

definition refused_some :: "(nat \<Rightarrow> fault_thread) \<Rightarrow> bool" where
  "refused_some ts \<longleftrightarrow> (\<exists>t. (\<exists>h d. ts t = Cleared h d) \<or> (\<exists>st\<in>{UNSUPPORTED, OS_ERROR}. ts t = Returned st))"

definition paired :: "(nat \<times> nat) set \<Rightarrow> fault_state \<Rightarrow> fault_thread \<Rightarrow> bool" where
  "paired offered f th =
     (case th of
        Install h d \<Rightarrow> (h, d) \<in> offered
      | Claimed h d \<Rightarrow> (h, d) \<in> offered \<and> fa_handler f = 0
      | Data_Stored h d \<Rightarrow> (h, d) \<in> offered \<and> fa_handler f = 0 \<and> fa_data f = d
      | Armed h d \<Rightarrow> (h, d) \<in> offered \<and> fa_handler f = h \<and> fa_data f = d
      | Loaded h \<Rightarrow> h \<noteq> 0 \<and> fa_handler f = h
      | Called h d \<Rightarrow> (h, d) \<in> offered
      | _ \<Rightarrow> True)"

lemma paired_simps [simp]:
  "paired offered f (Install h d) \<longleftrightarrow> (h, d) \<in> offered"
  "paired offered f (Claimed h d) \<longleftrightarrow> (h, d) \<in> offered \<and> fa_handler f = 0"
  "paired offered f (Data_Stored h d) \<longleftrightarrow> (h, d) \<in> offered \<and> fa_handler f = 0 \<and> fa_data f = d"
  "paired offered f (Armed h d) \<longleftrightarrow> (h, d) \<in> offered \<and> fa_handler f = h \<and> fa_data f = d"
  "paired offered f (Loaded h) \<longleftrightarrow> h \<noteq> 0 \<and> fa_handler f = h"
  "paired offered f (Called h d) \<longleftrightarrow> (h, d) \<in> offered"
  "paired offered f (Returned n)" "paired offered f Deliver" "paired offered f Dropped"
  by (auto simp: paired_def)

lemma paired_state [simp]: "paired offered (f\<lparr>fa_state := x\<rparr>) th = paired offered f th"
  by (cases th) (auto simp: paired_def)

definition pairs_ok :: "(nat \<times> nat) set \<Rightarrow> fault_state \<times> (nat \<Rightarrow> fault_thread) \<Rightarrow> bool" where
  "pairs_ok offered = (\<lambda>(f, ts). refused_some ts \<or>
     (fa_state f = EMPTY_STATE \<longrightarrow> fa_handler f = 0) \<and> (fa_handler f \<noteq> 0 \<longrightarrow> (fa_handler f, fa_data f) \<in> offered)
     \<and> (\<forall>t. paired offered f (ts t)))"

lemma refused_some_step:
  assumes "fault_step (f, ts) (f', ts')" "refused_some ts"
  shows "refused_some ts'"
proof -
  obtain r where r: "(\<exists>h d. ts r = Cleared h d) \<or> (\<exists>st\<in>{UNSUPPORTED, OS_ERROR}. ts r = Returned st)"
    using assms(2) by (auto simp: refused_some_def)
  from assms(1) have "(\<exists>h d. ts' r = Cleared h d) \<or> (\<exists>st\<in>{UNSUPPORTED, OS_ERROR}. ts' r = Returned st)"
    using r by cases auto
  then show ?thesis unfolding refused_some_def by blast
qed

lemma paired_other:
  assumes "paired offered f th" "\<not> holder th" "fa_handler f' = fa_handler f"
  shows "paired offered f' th"
  using assms by (cases th) (auto simp: paired_def)

lemma pairs_ok_step:
  assumes "fault_step (f, ts) (f', ts')" "pairs_ok offered (f, ts)" "exclusive (f, ts)"
  shows "pairs_ok offered (f', ts')"
proof (cases "refused_some ts")
  case True
  then show ?thesis using refused_some_step [OF assms(1)] by (simp add: pairs_ok_def)
next
  case False
  then have p: "fa_state f = EMPTY_STATE \<Longrightarrow> fa_handler f = 0"
      "fa_handler f \<noteq> 0 \<Longrightarrow> (fa_handler f, fa_data f) \<in> offered" "\<And>u. paired offered f (ts u)"
    using assms(2) by (auto simp: pairs_ok_def)
  have alone: "\<not> holder (ts u)" if "holder (ts t)" "u \<noteq> t" for t u
    using assms(3) that by (auto simp: exclusive_def)
  have claimed: "fa_state f = INSTALLING" if "holder (ts t)" for t
    using assms(3) that by (auto simp: exclusive_def)
  from assms(1) show ?thesis
  proof cases
    case (claim t h d)
    then show ?thesis using p p(3) [of t] by (auto simp: pairs_ok_def)
  next
    case (store_data t h d)
    then have "paired offered f' (ts u)" if "u \<noteq> t" for u
      using paired_other [OF p(3) [of u], of f'] alone [of t u] that by auto
    then show ?thesis using store_data p(1) p(3) [of t] by (auto simp: pairs_ok_def)
  next
    case (store_handler t h d)
    have "paired offered f' (ts u)" if "u \<noteq> t" for u
      using store_handler p(3) [of u] p(3) [of t] alone [of t u] that
      by (cases "ts u") (auto simp: paired_def)
    moreover have "fa_state f \<noteq> EMPTY_STATE" using store_handler claimed [of t] by simp
    ultimately show ?thesis using store_handler p(3) [of t] by (auto simp: pairs_ok_def)
  next
    case (enabled t h d)
    then show ?thesis using p by (auto simp: pairs_ok_def)
  next
    case (refused t h d)
    then have "refused_some ts'" by (auto simp: refused_some_def)
    then show ?thesis by (simp add: pairs_ok_def)
  next
    case (reset t h d st)
    then show ?thesis using False by (auto simp: refused_some_def)
  next
    case (invoke t h)
    then show ?thesis using p p(3) [of t] by (auto simp: pairs_ok_def)
  qed (use p in \<open>auto simp: pairs_ok_def\<close>)
qed

lemma fault_run_inv:
  assumes "fault_step\<^sup>*\<^sup>* (fault_init, ts0) (f, ts)" "fault_start ts0"
  shows "exclusive (f, ts) \<and> pairs_ok {(h, d). \<exists>t. ts0 t = Install h d} (f, ts)"
  using assms(1)
proof (induction "(f, ts)" arbitrary: f ts rule: rtranclp_induct)
  case base
  have "paired {(h, d). \<exists>t. ts0 t = Install h d} fault_init (ts0 t)" for t
  proof -
    consider "ts0 t = Deliver" | h d where "ts0 t = Install h d" using assms(2) by (meson fault_start_def)
    then show ?thesis by cases auto
  qed
  then show ?case using exclusive_start [OF assms(2)] by (auto simp: pairs_ok_def fault_init_def)
next
  case (step y)
  then show ?case using exclusive_step pairs_ok_step by (cases y) blast
qed

text \<open>
  A run in which the provider refuses the first installation while a fault is being delivered: the
  deliverer has loaded the first handler when the second consumer stores its data.
\<close>

definition race_start :: "nat \<Rightarrow> fault_thread" where
  "race_start = (\<lambda>_. Deliver)(0 := Install 8 100, 1 := Install 16 200)"

lemma race_run:
  "\<exists>f ts. fault_step\<^sup>*\<^sup>* (fault_init, race_start) (f, ts) \<and> ts 2 = Called 8 200"
proof -
  note rtranclp.rtrancl_into_rtrancl [trans]
  let ?f1 = "fault_init\<lparr>fa_state := INSTALLING\<rparr>"
  let ?f2 = "?f1\<lparr>fa_data := 100\<rparr>" and ?t2 = "race_start(0 := Data_Stored 8 100)"
  let ?f3 = "?f2\<lparr>fa_handler := 8\<rparr>" and ?t4 = "race_start(0 := Armed 8 100, 2 := Loaded 8)"
  let ?f5 = "?f3\<lparr>fa_handler := 0\<rparr>" and ?t5 = "race_start(2 := Loaded 8, 0 := Cleared 8 100)"
  let ?f6 = "?f5\<lparr>fa_state := EMPTY_STATE\<rparr>" and ?t6 = "race_start(2 := Loaded 8, 0 := Returned OS_ERROR)"
  let ?f7 = "?f6\<lparr>fa_state := INSTALLING\<rparr>" and ?t7 = "?t6(1 := Claimed 16 200)"
  let ?f8 = "?f7\<lparr>fa_data := 200\<rparr>" and ?t8 = "?t6(1 := Data_Stored 16 200)"
  have "fault_step\<^sup>*\<^sup>* (fault_init, race_start) (?f1, race_start(0 := Claimed 8 100))"
    by (rule r_into_rtranclp, rule claim) (simp_all add: race_start_def fault_init_def)
  also have "fault_step \<dots> (?f2, ?t2)"
    using store_data [of "race_start(0 := Claimed 8 100)" 0 8 100 ?f1] by simp
  also have "fault_step \<dots> (?f3, race_start(0 := Armed 8 100))" using store_handler [of ?t2 0 8 100 ?f2] by simp
  also have "fault_step \<dots> (?f3, ?t4)"
    using load [of "race_start(0 := Armed 8 100)" 2 ?f3] by (simp add: race_start_def)
  also have "fault_step \<dots> (?f5, ?t5)" using refused [of ?t4 0 8 100 ?f3] by (simp add: fun_upd_twist)
  also have "fault_step \<dots> (?f6, ?t6)" using reset [of ?t5 0 8 100 OS_ERROR ?f5] by simp
  also have "fault_step \<dots> (?f7, ?t7)" by (rule claim) (simp_all add: race_start_def)
  also have "fault_step \<dots> (?f8, ?t8)" using store_data [of ?t7 1 16 200 ?f7] by simp
  also have "fault_step \<dots> (?f8, ?t8(2 := Called 8 200))" using invoke [of ?t8 2 8 ?f8] by simp
  finally show ?thesis by (intro exI [of _ ?f8] exI [of _ "?t8(2 := Called 8 200)"]) simp
qed

end
