(* ===== verification/Pal_Notifications.thy ===== *)
theory Pal_Notifications
  imports Pal_Io
begin

text \<open>
  Requests from outside the process (\<open>src/src/notifications.rs\<close>): one installed handler and a word of
  enabled kinds. The statics are one record; each function is one call, and \<open>note_step\<close> lets the calls
  of a consumer and the reports of a port follow each other in any order.
\<close>

section \<open>Constants and state\<close>

abbreviation CAP_NOTIFICATIONS :: caps where "CAP_NOTIFICATIONS \<equiv> 2147483648"
abbreviation N_INTERRUPT :: nat where "N_INTERRUPT \<equiv> 1"
abbreviation N_STOP :: nat where "N_STOP \<equiv> 9"

record note_state =
  no_state :: nat
  no_handler :: nat
  no_data :: nat
  no_enabled :: flags
  no_counters :: counters

definition note_init :: note_state where
  "note_init = \<lparr>no_state = 0, no_handler = 0, no_data = 0, no_enabled = 0, no_counters = replicate 6 0\<rparr>"

record 's notifications_provider =
  op_start :: "'s \<Rightarrow> unit result \<times> 's"
  op_enable :: "nat \<Rightarrow> 's \<Rightarrow> unit result \<times> 's"
  op_disable :: "nat \<Rightarrow> 's \<Rightarrow> unit result \<times> 's"
  op_default_action :: "nat \<Rightarrow> 's \<Rightarrow> unit result \<times> 's"

definition no_count :: "nat \<Rightarrow> note_state \<Rightarrow> note_state" where
  "no_count i n = n\<lparr>no_counters := bump i (no_counters n)\<rparr>"

section \<open>The calls\<close>

definition note_valid :: "nat \<Rightarrow> bool" where
  "note_valid kind \<longleftrightarrow> N_INTERRUPT \<le> kind \<and> kind \<le> N_STOP"

abbreviation kind_bit :: "nat \<Rightarrow> flags" where "kind_bit kind \<equiv> push_bit kind 1"

definition note_enabled :: "nat \<Rightarrow> note_state \<Rightarrow> bool" where
  "note_enabled kind n \<longleftrightarrow> note_valid kind \<and> no_enabled n AND kind_bit kind \<noteq> 0"

text \<open>The third component is the call of the handler: its address, the kind and the data.\<close>

definition note_deliver :: "nat \<Rightarrow> note_state \<Rightarrow> bool \<times> note_state \<times> (nat \<times> nat \<times> nat) option" where
  "note_deliver kind n =
     (if no_handler n = 0 \<or> \<not> note_enabled kind n then (False, no_count 4 n, None)
      else (True, no_count 3 n, Some (no_handler n, kind, no_data n)))"

definition note_deliver_raw :: "nat \<Rightarrow> note_state \<Rightarrow> nat \<times> note_state \<times> (nat \<times> nat \<times> nat) option" where
  "note_deliver_raw kind n = (let (taken, n', c) = note_deliver kind n in (of_bool taken, n', c))"

definition note_fold :: "nat \<Rightarrow> nat" where
  "note_fold st = (if st \<in> {OK, UNSUPPORTED, INVALID_ARGUMENT} then st else OS_ERROR)"

definition note_install ::
  "'s notifications_provider \<Rightarrow> nat option \<Rightarrow> nat \<Rightarrow> note_state \<Rightarrow> 's \<Rightarrow> nat \<times> note_state \<times> 's" where
  "note_install p handler data n s =
     (case handler of
        None \<Rightarrow> (INVALID_ARGUMENT, no_count 5 n, s)
      | Some h \<Rightarrow>
          if no_state n \<noteq> 0 then (BUSY, no_count 5 n, s)
          else let n = n\<lparr>no_state := 1, no_data := data, no_handler := h\<rparr>;
                   (r, s') = op_start p s;
                   st = note_fold (port_status r)
               in if st \<noteq> OK then (st, no_count 5 (n\<lparr>no_handler := 0, no_state := 0\<rparr>), s')
                  else (OK, no_count 0 (n\<lparr>no_state := 2\<rparr>), s'))"

definition note_enable :: "'s notifications_provider \<Rightarrow> nat \<Rightarrow> note_state \<Rightarrow> 's \<Rightarrow> nat \<times> note_state \<times> 's" where
  "note_enable p kind n s =
     (if \<not> note_valid kind \<or> no_state n \<noteq> 2 then (INVALID_ARGUMENT, no_count 5 n, s)
      else let before = no_enabled n;
               n = n\<lparr>no_enabled := before OR kind_bit kind\<rparr>;
               (r, s') = op_enable p kind s;
               st = note_fold (port_status r)
           in if st = OK then (st, no_count 1 n, s')
              else (st, no_count 5 (if before AND kind_bit kind = 0
                                    then n\<lparr>no_enabled := no_enabled n AND NOT (kind_bit kind)\<rparr> else n), s'))"

definition note_disable :: "'s notifications_provider \<Rightarrow> nat \<Rightarrow> note_state \<Rightarrow> 's \<Rightarrow> nat \<times> note_state \<times> 's" where
  "note_disable p kind n s =
     (if \<not> note_valid kind \<or> no_state n \<noteq> 2 then (INVALID_ARGUMENT, no_count 5 n, s)
      else let n = n\<lparr>no_enabled := no_enabled n AND NOT (kind_bit kind)\<rparr>;
               (r, s') = op_disable p kind s;
               st = note_fold (port_status r)
           in (st, no_count (if st = OK then 2 else 5) n, s'))"

definition note_default_action :: "'s notifications_provider \<Rightarrow> nat \<Rightarrow> note_state \<Rightarrow> 's \<Rightarrow> nat \<times> note_state \<times> 's" where
  "note_default_action p kind n s =
     (if \<not> note_valid kind then (INVALID_ARGUMENT, no_count 5 n, s)
      else let (r, s') = op_default_action p kind s; st = note_fold (port_status r)
           in (st, if st \<noteq> OK then no_count 5 n else n, s'))"

definition notifications_read_stats :: "nat \<Rightarrow> nat \<Rightarrow> counters \<Rightarrow> note_state \<Rightarrow> nat \<times> counters" where
  "notifications_read_stats out sz cell n =
     (if \<not> aligned_output out 8 \<or> sz < 48 then (INVALID_ARGUMENT, cell) else (OK, no_counters n))"

definition notifications_negotiate :: "bool \<Rightarrow> caps \<times> ops" where
  "notifications_negotiate provided =
     (if \<not> provided then (0, [''read_stats''])
      else (CAP_NOTIFICATIONS, [''install'', ''enable'', ''disable'', ''default_action'', ''read_stats'']))"

inductive note_step :: "'s notifications_provider \<Rightarrow> note_state \<times> 's \<Rightarrow> note_state \<times> 's \<Rightarrow> bool"
  for p :: "'s notifications_provider" where
  install: "handler \<noteq> Some 0 \<Longrightarrow> note_install p handler data n s = (st, n', s') \<Longrightarrow> note_step p (n, s) (n', s')"
| enable: "note_enable p kind n s = (st, n', s') \<Longrightarrow> note_step p (n, s) (n', s')"
| disable: "note_disable p kind n s = (st, n', s') \<Longrightarrow> note_step p (n, s) (n', s')"
| default_action: "note_default_action p kind n s = (st, n', s') \<Longrightarrow> note_step p (n, s) (n', s')"
| deliver: "note_deliver kind n = (taken, n', c) \<Longrightarrow> note_step p (n, s) (n', s)"

section \<open>Facts\<close>

declare push_bit_of_1 [simp del]

lemma no_count_fields [simp]:
  "no_state (no_count i n) = no_state n" "no_handler (no_count i n) = no_handler n"
  "no_data (no_count i n) = no_data n" "no_enabled (no_count i n) = no_enabled n"
  "note_enabled k (no_count i n) = note_enabled k n"
  by (simp_all add: no_count_def note_enabled_def)

text \<open>A kind is on or off: bit \<open>kind\<close> of the word.\<close>

lemma note_enabled_bit: "note_enabled kind n \<longleftrightarrow> note_valid kind \<and> bit (no_enabled n) kind"
proof (cases "note_valid kind")
  case True
  then have "kind < 32" by (simp add: note_valid_def)
  then have "w AND kind_bit kind = 0 \<longleftrightarrow> \<not> bit w kind" for w :: flags
    by (metis and_exp_eq_0_iff_not_bit push_bit_of_1)
  then show ?thesis by (simp add: note_enabled_def True)
qed (simp add: note_enabled_def)

lemma bits_after:
  fixes w :: flags
  assumes "note_valid kind"
  shows "bit (w OR kind_bit kind) k \<longleftrightarrow> bit w k \<or> k = kind" "bit (w AND NOT (kind_bit kind)) k \<longleftrightarrow> bit w k \<and> k \<noteq> kind"
  using assms by (auto simp: bit_simps note_valid_def possible_bit_def dest: bit_imp_le_length)

lemma and_kind_bit: "note_valid kind \<Longrightarrow> (w :: flags) AND kind_bit kind = 0 \<longleftrightarrow> \<not> bit w kind"
  using note_enabled_bit [of kind "\<lparr>no_state = 0, no_handler = 0, no_data = 0, no_enabled = w, no_counters = []\<rparr>"]
  by (auto simp: note_enabled_def)

lemma restore_bit:
  fixes w :: flags
  assumes "note_valid kind"
  shows "\<not> bit w kind \<Longrightarrow> (w OR kind_bit kind) AND NOT (kind_bit kind) = w" "bit w kind \<Longrightarrow> w OR kind_bit kind = w"
  using assms by (auto intro!: bit_word_eqI simp: bit_simps note_valid_def possible_bit_def)

definition note_ok :: "note_state \<Rightarrow> bool" where
  "note_ok n \<longleftrightarrow> no_state n \<in> {0, 2} \<and> (no_state n = 2 \<longleftrightarrow> no_handler n \<noteq> 0)
     \<and> (no_state n = 0 \<longrightarrow> no_enabled n = 0) \<and> (\<forall>k. bit (no_enabled n) k \<longrightarrow> note_valid k)"

lemma note_install_facts:
  assumes "note_install p handler data n s = (st, n', s')"
  shows "no_enabled n' = no_enabled n
    \<and> (if st = OK then no_state n = 0 \<and> no_state n' = 2 \<and> handler = Some (no_handler n') \<and> no_data n' = data
       else if no_state n = 0 \<and> handler \<noteq> None then no_state n' = 0 \<and> no_handler n' = 0
       else no_state n' = no_state n \<and> no_handler n' = no_handler n \<and> no_data n' = no_data n)"
proof (cases handler)
  case None
  then show ?thesis using assms by (auto simp: note_install_def)
next
  case (Some h)
  obtain r t where "op_start p s = (r, t)" by fastforce
  then show ?thesis using Some assms by (auto simp: note_install_def Let_def note_fold_def split: if_splits)
qed

lemma note_enable_facts:
  assumes "note_enable p kind n s = (st, n', s')"
  shows "no_state n' = no_state n \<and> no_handler n' = no_handler n \<and> no_data n' = no_data n
    \<and> (st = OK \<longrightarrow> note_valid kind \<and> no_state n = 2)
    \<and> no_enabled n' = (if st = OK then no_enabled n OR kind_bit kind else no_enabled n)"
proof (cases "note_valid kind \<and> no_state n = 2")
  case True
  obtain r t where r: "op_enable p kind s = (r, t)" by fastforce
  show ?thesis
  proof (cases "bit (no_enabled n) kind")
    case on: True
    then have "no_enabled n OR kind_bit kind = no_enabled n" using True restore_bit(2) by blast
    then show ?thesis using assms True r on
      by (auto simp: note_enable_def Let_def and_kind_bit split: if_splits)
  next
    case off: False
    then have "(no_enabled n OR kind_bit kind) AND NOT (kind_bit kind) = no_enabled n" using True restore_bit(1) by blast
    then show ?thesis using assms True r off
      by (auto simp: note_enable_def Let_def and_kind_bit split: if_splits)
  qed
qed (use assms in \<open>auto simp: note_enable_def\<close>)

lemma note_disable_facts:
  assumes "note_disable p kind n s = (st, n', s')"
  shows "no_state n' = no_state n \<and> no_handler n' = no_handler n \<and> no_data n' = no_data n
    \<and> no_enabled n' = (if note_valid kind \<and> no_state n = 2 then no_enabled n AND NOT (kind_bit kind) else no_enabled n)"
  using assms by (auto simp: note_disable_def Let_def split: if_splits prod.splits)

lemma note_default_action_facts:
  assumes "note_default_action p kind n s = (st, n', s')"
  shows "no_state n' = no_state n \<and> no_handler n' = no_handler n \<and> no_data n' = no_data n \<and> no_enabled n' = no_enabled n"
  using assms by (auto simp: note_default_action_def Let_def split: if_splits prod.splits)

lemma note_deliver_facts:
  assumes "note_deliver kind n = (taken, n', c)"
  shows "no_state n' = no_state n \<and> no_handler n' = no_handler n \<and> no_data n' = no_data n \<and> no_enabled n' = no_enabled n
    \<and> (if taken then c = Some (no_handler n, kind, no_data n) \<and> no_handler n \<noteq> 0 \<and> note_enabled kind n else c = None)"
  using assms by (auto simp: note_deliver_def split: if_splits)

lemma note_ok_step:
  assumes "note_step p (n, s) (n', s')" "note_ok n"
  shows "note_ok n'"
  using assms(1)
proof cases
  case (install handler data st)
  then show ?thesis using assms(2) note_install_facts [OF install(2)]
    by (auto simp: note_ok_def split: if_splits)
next
  case (enable kind st)
  then show ?thesis using assms(2) note_enable_facts [OF enable]
    by (auto simp: note_ok_def bits_after split: if_splits)
next
  case (disable kind st)
  then show ?thesis using assms(2) note_disable_facts [OF disable]
    by (auto simp: note_ok_def bits_after split: if_splits)
next
  case (default_action kind st)
  then show ?thesis using assms(2) note_default_action_facts [OF default_action] by (auto simp: note_ok_def)
next
  case (deliver kind taken c)
  then show ?thesis using assms(2) note_deliver_facts [OF deliver(2)] by (auto simp: note_ok_def)
qed

lemma note_ok_run: "(note_step p)\<^sup>*\<^sup>* (note_init, s) (n, s') \<Longrightarrow> note_ok n"
proof (induction "(n, s')" arbitrary: n s' rule: rtranclp_induct)
  case base
  show ?case by (simp add: note_ok_def note_init_def)
next
  case (step y)
  obtain n1 s1 where "y = (n1, s1)" by (cases y)
  then show ?case using step note_ok_step [of p n1 s1 n s'] by simp
qed

end
