(* ===== verification/Pal_Context.thy ===== *)
theory Pal_Context
  imports Pal_Io
begin

text \<open>
  The signal and activation substrate (\<open>src/src/context.rs\<close>). The provider is a raw table whose
  entries may each be absent, and the table itself may be absent.
\<close>

abbreviation CAP_CONTEXT :: caps where "CAP_CONTEXT \<equiv> 131072"

record 's context_table =
  ct_abi_tag :: "nat option"
  ct_action_size :: "nat option"
  ct_action_alignment :: "nat option"
  ct_install :: "(nat \<Rightarrow> nat option \<Rightarrow> nat \<Rightarrow> nat \<Rightarrow> nat \<Rightarrow> 's \<Rightarrow> nat \<times> 's) option"
  ct_restore :: "(nat \<Rightarrow> nat \<Rightarrow> nat \<Rightarrow> 's \<Rightarrow> nat \<times> 's) option"
  ct_unblock_activation :: "('s \<Rightarrow> nat \<times> 's) option"
  ct_request_activation :: "(nat \<Rightarrow> 's \<Rightarrow> nat \<times> 's) option"
  ct_current_thread :: "('s \<Rightarrow> (nat \<times> nat) \<times> 's) option"
  ct_process_id_async :: "('s \<Rightarrow> (nat \<times> nat) \<times> 's) option"
  ct_ignore_broken_pipe :: "('s \<Rightarrow> nat \<times> 's) option"
  ct_signal_number :: "(nat \<Rightarrow> int) option"

definition context_record :: recorder where
  "context_record st index cs =
     (let st = (if st \<in> {OK, UNSUPPORTED, INVALID_ARGUMENT, OS_ERROR, 6, 8} then st else OS_ERROR)
      in (st, bump (if st = OK then index else 5) cs))"

definition signal_number :: "'s context_table option \<Rightarrow> nat \<Rightarrow> int" where
  "signal_number c kind =
     (if 4 < kind then -1
      else case Option.bind c ct_signal_number of Some f \<Rightarrow> f kind | None \<Rightarrow> -1)"

definition abi_tag :: "'s context_table option \<Rightarrow> nat" where
  "abi_tag c = (case Option.bind c ct_abi_tag of Some v \<Rightarrow> v | None \<Rightarrow> 0)"

definition action_size :: "'s context_table option \<Rightarrow> nat" where
  "action_size c = (case Option.bind c ct_action_size of Some v \<Rightarrow> v | None \<Rightarrow> 0)"

definition action_alignment :: "'s context_table option \<Rightarrow> nat" where
  "action_alignment c = (case Option.bind c ct_action_alignment of Some v \<Rightarrow> v | None \<Rightarrow> 0)"

definition valid_action :: "'s context_table option \<Rightarrow> nat \<Rightarrow> nat \<Rightarrow> bool" where
  "valid_action c value sz \<longleftrightarrow>
     (let alignment = action_alignment c in
      value \<noteq> 0 \<and> sz = action_size c \<and> sz \<noteq> 0 \<and> is_power_of_two alignment \<and> value mod alignment = 0
      \<and> checked_add value sz \<noteq> None)"

definition context_install ::
  "'s context_table option \<Rightarrow> nat \<Rightarrow> nat option \<Rightarrow> nat \<Rightarrow> nat \<Rightarrow> nat \<Rightarrow> counters \<Rightarrow> 's \<Rightarrow> (nat \<times> counters) \<times> 's" where
  "context_install c kind callback data previous sz cs s =
     (if 4 < kind \<or> callback = None \<or> \<not> valid_action c previous sz then (context_record INVALID_ARGUMENT 0 cs, s)
      else case Option.bind c ct_install of
          None \<Rightarrow> (context_record UNSUPPORTED 0 cs, s)
        | Some call \<Rightarrow> let (st, s') = call kind callback data previous sz s in (context_record st 0 cs, s'))"

definition context_restore ::
  "'s context_table option \<Rightarrow> nat \<Rightarrow> nat \<Rightarrow> nat \<Rightarrow> counters \<Rightarrow> 's \<Rightarrow> (nat \<times> counters) \<times> 's" where
  "context_restore c kind previous sz cs s =
     (if 4 < kind \<or> \<not> valid_action c previous sz then (context_record INVALID_ARGUMENT 1 cs, s)
      else case Option.bind c ct_restore of
          None \<Rightarrow> (context_record UNSUPPORTED 1 cs, s)
        | Some call \<Rightarrow> let (st, s') = call kind previous sz s in (context_record st 1 cs, s'))"

definition unblock_activation :: "'s context_table option \<Rightarrow> counters \<Rightarrow> 's \<Rightarrow> (nat \<times> counters) \<times> 's" where
  "unblock_activation c cs s =
     (case Option.bind c ct_unblock_activation of
        None \<Rightarrow> (context_record UNSUPPORTED 3 cs, s)
      | Some call \<Rightarrow> let (st, s') = call s in (context_record st 3 cs, s'))"

definition request_activation :: "'s context_table option \<Rightarrow> nat \<Rightarrow> counters \<Rightarrow> 's \<Rightarrow> (nat \<times> counters) \<times> 's" where
  "request_activation c token cs s =
     (if token = 0 then (context_record INVALID_ARGUMENT 2 cs, s)
      else case Option.bind c ct_request_activation of
          None \<Rightarrow> (context_record UNSUPPORTED 2 cs, s)
        | Some call \<Rightarrow> let (st, s') = call token s in (context_record st 2 cs, s'))"

definition current_thread ::
  "'s context_table option \<Rightarrow> nat \<Rightarrow> nat \<Rightarrow> counters \<Rightarrow> 's \<Rightarrow> (nat \<times> counters) \<times> nat \<times> 's" where
  "current_thread c out cell cs s =
     (if \<not> aligned_output out 8 then (context_record INVALID_ARGUMENT 4 cs, cell, s)
      else case Option.bind c ct_current_thread of
          None \<Rightarrow> (context_record UNSUPPORTED 4 cs, 0, s)
        | Some call \<Rightarrow>
            let ((st, value), s') = call s;
                (st, cell') = (if st = OK then if value = 0 then (OS_ERROR, 0) else (st, value) else (st, 0))
            in (context_record st 4 cs, cell', s'))"

text \<open>The signal path touches no counter.\<close>

definition process_id_async :: "'s context_table option \<Rightarrow> nat \<Rightarrow> nat \<Rightarrow> 's \<Rightarrow> nat \<times> nat \<times> 's" where
  "process_id_async c out cell s =
     (if \<not> aligned_output out 8 then (INVALID_ARGUMENT, cell, s)
      else case Option.bind c ct_process_id_async of
          None \<Rightarrow> (UNSUPPORTED, 0, s)
        | Some call \<Rightarrow>
            let ((st, value), s') = call s
            in if st \<noteq> OK \<or> value = 0 then (OS_ERROR, 0, s') else (OK, value, s'))"

definition ignore_broken_pipe :: "'s context_table option \<Rightarrow> 's \<Rightarrow> nat \<times> 's" where
  "ignore_broken_pipe c s =
     (case Option.bind c ct_ignore_broken_pipe of
        None \<Rightarrow> (UNSUPPORTED, s)
      | Some call \<Rightarrow> let (st, s') = call s in (if st = OK then OK else OS_ERROR, s'))"

definition context_read_stats :: "nat \<Rightarrow> nat \<Rightarrow> counters \<Rightarrow> counters \<Rightarrow> nat \<times> counters" where
  "context_read_stats out sz cell cs =
     (if \<not> aligned_output out 8 \<or> sz < 48 then (INVALID_ARGUMENT, cell) else (OK, cs))"

text \<open>A provided context without a table rejects negotiation.\<close>

definition context_negotiate :: "bool \<Rightarrow> bool \<Rightarrow> (caps \<times> ops) option" where
  "context_negotiate provided table_present =
     (if \<not> provided then Some (0, [''read_stats''])
      else if \<not> table_present then None
      else Some (CAP_CONTEXT, [''abi_tag'', ''action_size'', ''action_alignment'', ''install'', ''restore'',
        ''unblock_activation'', ''request_activation'', ''current_thread'', ''process_id_async'', ''ignore_broken_pipe'',
        ''read_stats'', ''signal_number'']))"

section \<open>Facts\<close>

interpretation context_rec: status_recorder context_record "\<lambda>_ st. st \<le> OS_ERROR \<or> st = BUSY \<or> st = NOT_FOUND"
  by unfold_locales (auto simp: context_record_def Let_def)

text \<open>The storage for a previous handler reaches the substrate only when it is exactly as large and as aligned as it says.\<close>

lemma context_install_checked:
  assumes "context_install c kind callback data previous sz cs s = ((st, cs'), s')" "st = OK"
  shows "kind \<le> 4 \<and> callback \<noteq> None \<and> previous \<noteq> 0 \<and> sz = action_size c \<and> 0 < sz
    \<and> action_alignment c dvd previous \<and> previous + sz \<le> USIZE_MAX"
  using assms by (auto simp: context_install_def valid_action_def Let_def checked_add_def mod_eq_0_iff_dvd
      dest!: context_rec.pair split: if_splits option.splits prod.splits)

lemma identities_nonzero:
  assumes "process_id_async c out cell s = (st, v, s')" "aligned_output out 8"
  shows "(st = OK) = (v \<noteq> 0)"
  using assms by (auto simp: process_id_async_def Let_def split: option.splits prod.splits if_splits)

end
