(* ===== verification/Pal_Wasi.thy ===== *)
theory Pal_Wasi
  imports Pal_Io
begin

text \<open>
  The WASIp1 transport (\<open>src/src/wasi.rs\<close>, \<open>src/src/wasi_schema.rs\<close>): one host import behind a
  checked, counted dispatcher. The \<open>argc\<close> vals behind the argument pointer are the list
  \<open>vals\<close>; a request is the wire record the host import reads.
\<close>

abbreviation CAP_WASI :: caps where "CAP_WASI \<equiv> 65536"
abbreviation OP_COUNT :: nat where "OP_COUNT \<equiv> 45"

definition ARG_COUNTS :: "nat list" where
  "ARG_COUNTS = [2,2,2,2,2,3,4,3,1,1,2,2,3,2,2,4,5,2,3,5,4,5,2,4,1,2,4,3,5,7,7,9,6,3,6,5,3,4,1,0,2,3,6,5,2]"

definition WIDE_MASKS :: "16 word list" where
  "WIDE_MASKS = [0,0,0,0,0,2,6,6,0,0,0,0,6,0,2,6,8,0,0,8,0,8,0,2,0,0,0,0,0,48,0,96,0,0,0,0,0,0,0,0,0,0,0,0,0]"

record request =
  rq_version :: nat
  rq_size :: nat
  rq_opcode :: nat
  rq_argc :: nat
  rq_args :: "nat list"

record wasi_counters =
  wc_calls :: counters
  wc_rejected :: nat
  wc_errors :: nat

abbreviation ERRNO_INVAL :: nat where "ERRNO_INVAL \<equiv> 28"
abbreviation ERRNO_IO :: nat where "ERRNO_IO \<equiv> 29"

text \<open>The copy loop: \<open>None\<close> when a value is too wide for a 32-bit argument.\<close>

fun copy_args :: "16 word \<Rightarrow> nat \<Rightarrow> nat list \<Rightarrow> nat list \<Rightarrow> nat list option" where
  "copy_args wide i [] args = Some args"
| "copy_args wide i (value # rest) args =
     (if wide AND push_bit i 1 = 0 \<and> U32_MAX < value then None
      else copy_args wide (i + 1) rest (args[i := value]))"

definition reject :: "wasi_counters \<Rightarrow> 's \<Rightarrow> nat \<times> wasi_counters \<times> 's" where
  "reject wc s = (ERRNO_INVAL, wc\<lparr>wc_rejected := counter_increment (wc_rejected wc)\<rparr>, s)"

definition wasi_invoke ::
  "(request \<Rightarrow> 's \<Rightarrow> nat \<times> 's) \<Rightarrow> nat \<Rightarrow> nat \<Rightarrow> nat \<Rightarrow> nat list \<Rightarrow> wasi_counters \<Rightarrow> 's \<Rightarrow> nat \<times> wasi_counters \<times> 's" where
  "wasi_invoke dispatch opcode args argc vals wc s =
     (if OP_COUNT \<le> opcode \<or> argc \<noteq> ARG_COUNTS ! opcode
         \<or> argc \<noteq> 0 \<and> (\<not> aligned_output args 8 \<or> checked_add args (argc * 8) = None)
      then reject wc s
      else case copy_args (WIDE_MASKS ! opcode) 0 vals (replicate 9 0) of
          None \<Rightarrow> reject wc s
        | Some copied \<Rightarrow>
            let wc = wc\<lparr>wc_calls := bump opcode (wc_calls wc)\<rparr>;
                (st, s') = dispatch \<lparr>rq_version = 1, rq_size = 88, rq_opcode = opcode, rq_argc = argc, rq_args = copied\<rparr> s;
                st = (if st \<le> 76 then st else ERRNO_IO)
            in (st, if st \<noteq> 0 then wc\<lparr>wc_errors := counter_increment (wc_errors wc)\<rparr> else wc, s'))"

definition wasi_count :: "wasi_counters \<Rightarrow> nat \<Rightarrow> nat" where
  "wasi_count wc op = (if op < OP_COUNT then wc_calls wc ! op else 0)"

definition wasi_stats :: "nat \<Rightarrow> nat \<Rightarrow> nat \<times> nat \<times> nat \<Rightarrow> wasi_counters \<Rightarrow> nat \<times> nat \<times> nat \<times> nat" where
  "wasi_stats out sz cell wc =
     (if \<not> aligned_output out 8 \<or> sz < 24 then (INVALID_ARGUMENT, cell)
      else (OK, fold (\<lambda>c n. saturating_add n c) (wc_calls wc) 0, wc_rejected wc, wc_errors wc))"

definition wasi_negotiate :: "bool \<Rightarrow> caps \<times> ops" where
  "wasi_negotiate provided =
     (if \<not> provided then (0, []) else (CAP_WASI, [''invoke'', ''call_count'', ''read_stats'']))"

section \<open>Facts\<close>

lemma schema_tables: "length ARG_COUNTS = OP_COUNT \<and> length WIDE_MASKS = OP_COUNT \<and> list_all (\<lambda>n. n \<le> 9) ARG_COUNTS"
  by (simp add: ARG_COUNTS_def WIDE_MASKS_def)

lemma arg_count_le: "opcode < OP_COUNT \<Longrightarrow> ARG_COUNTS ! opcode \<le> 9"
  using schema_tables by (auto simp: list_all_length)

definition fits :: "16 word \<Rightarrow> nat \<Rightarrow> nat list \<Rightarrow> bool" where
  "fits wide i vals \<longleftrightarrow> (\<forall>j<length vals. vals ! j \<le> U32_MAX \<or> wide AND push_bit (i + j) 1 \<noteq> 0)"

lemma fits_Cons: "fits wide i (v # vs) \<longleftrightarrow> (v \<le> U32_MAX \<or> wide AND push_bit i 1 \<noteq> 0) \<and> fits wide (i + 1) vs"
  by (auto simp: fits_def less_Suc_eq_0_disj)

lemma copy_args_eq:
  assumes "i + length vals \<le> length args"
  shows "copy_args wide i vals args =
    (if fits wide i vals then Some (take i args @ vals @ drop (i + length vals) args) else None)"
  using assms
proof (induction vals arbitrary: i args)
  case Nil
  then show ?case by (simp add: fits_def)
next
  case (Cons v vs)
  have "take (i + 1) (args[i := v]) = take i args @ [v]" using Cons.prems by (simp add: take_Suc_conv_app_nth)
  then show ?case using Cons.IH [of "i + 1" "args[i := v]"] Cons.prems by (auto simp: fits_Cons not_le)
qed

text \<open>
  The transport, for every host: a call either is refused before the host sees anything, or hands the
  host one request with exactly the caller's values and zeroes behind them, and passes a published
  errno back.
\<close>

lemma wasi_invoke_cases:
  assumes "wasi_invoke dispatch opcode args argc vals wc s = (st, wc', s')" "length vals = argc"
  shows "(st, wc', s') = reject wc s
    \<or> opcode < OP_COUNT \<and> argc = ARG_COUNTS ! opcode \<and> fits (WIDE_MASKS ! opcode) 0 vals
      \<and> (\<exists>raw. dispatch \<lparr>rq_version = 1, rq_size = 88, rq_opcode = opcode, rq_argc = argc,
              rq_args = vals @ replicate (9 - argc) 0\<rparr> s = (raw, s')
            \<and> st = (if raw \<le> 76 then raw else ERRNO_IO))
      \<and> wc_calls wc' = bump opcode (wc_calls wc) \<and> wc_rejected wc' = wc_rejected wc"
proof (cases "OP_COUNT \<le> opcode \<or> argc \<noteq> ARG_COUNTS ! opcode")
  case True
  then show ?thesis using assms(1) by (auto simp: wasi_invoke_def)
next
  case False
  then have "argc \<le> 9" using arg_count_le by auto
  then have "copy_args (WIDE_MASKS ! opcode) 0 vals (replicate 9 0) =
      (if fits (WIDE_MASKS ! opcode) 0 vals then Some (vals @ replicate (9 - argc) 0) else None)"
    using assms(2) by (simp add: copy_args_eq)
  then show ?thesis using assms(1) False
    by (auto simp: wasi_invoke_def Let_def split: if_splits prod.splits)
qed

end
