(* ===== verification/Pal_Table.thy ===== *)
theory Pal_Table
  imports Pal_Core Pal_Services Pal_Kernel Pal_Runtime Pal_Support Pal_Topology Pal_Process Pal_Image
    Pal_Streams Pal_Files Pal_Watches Pal_Mappings Pal_Volumes Pal_Sockets Pal_Network Pal_Processes
    Pal_System Pal_Accounts Pal_Faults Pal_Notifications Pal_Context Pal_Wasi
begin

text \<open>
  The table a runtime receives (\<open>build\<close> of \<open>src/src/lib.rs\<close>) for a declared port
  (\<open>declare_port!\<close> and \<open>__port_lookup!\<close> of \<open>src/src/port.rs\<close>). Its negotiation by concurrent callers
  is in \<open>Pal_Slot\<close>.

  A port is a list of \<open>Capability = Provider\<close> pairs. What \<open>build\<close> asks of a provider beyond its
  presence is in the port record: page size, granularity, capacity, whether linear storage is dynamic,
  whether the process barrier and the context table are there, the architecture, and \<open>validate\<close>.
\<close>

section \<open>Declaring a port\<close>

datatype pal_key =
    K_VirtualMemory | K_Linear | K_Clock | K_Scheduler | K_Events | K_Mutexes | K_Threads | K_ThreadLocal
  | K_StackBounds | K_ProcessBarrier | K_Environment | K_Identity | K_Realtime | K_Entropy | K_NativeMapping
  | K_Modules | K_NativeHeap | K_RwLocks | K_ThreadName | K_Diagnostics | K_Context | K_Wasi | K_Topology
  | K_Process | K_Image | K_Streams | K_Files | K_Sockets | K_Faults | K_SystemInfo | K_Notifications
  | K_Processes | K_Terminal | K_Watches | K_Mappings | K_Volumes | K_Network | K_LocalSockets | K_Accounts
  | K_Priority | K_Packets | K_SpawnAs

text \<open>The first pair with the wanted key; \<open>None\<close> is \<open>Absent\<close>.\<close>

fun port_lookup :: "pal_key \<Rightarrow> (pal_key \<times> 'p) list \<Rightarrow> 'p option" where
  "port_lookup want [] = None"
| "port_lookup want ((other, t) # rest) = (if other = want then Some t else port_lookup want rest)"

record 'p port =
  po_pairs :: "(pal_key \<times> 'p) list"
  po_page_size :: nat
  po_granularity :: nat
  po_capacity :: nat
  po_dynamic :: bool
  po_barrier_available :: bool
  po_context_table :: bool
  po_arch :: arch
  po_validate :: bool

text \<open>\<open>P::K::PROVIDED\<close>.\<close>

definition provided :: "'p port \<Rightarrow> pal_key \<Rightarrow> bool" where
  "provided P k \<longleftrightarrow> port_lookup k (po_pairs P) \<noteq> None"

section \<open>Building the table\<close>

abbreviation CAP_VM :: caps where "CAP_VM \<equiv> 1"
abbreviation CAP_LINEAR :: caps where "CAP_LINEAR \<equiv> 2"
abbreviation CAP_DYNAMIC_LINEAR :: caps where "CAP_DYNAMIC_LINEAR \<equiv> 262144"
abbreviation ABI_VERSION :: nat where "ABI_VERSION \<equiv> 2"

record api =
  api_version :: nat
  api_capabilities :: caps
  api_tables :: "(string \<times> ops) list"

text \<open>The groups in the order of the table, each with its capability bits and its entries.\<close>

definition build_groups :: "'p port \<Rightarrow> caps \<times> ops \<Rightarrow> caps \<times> ops \<Rightarrow> (string \<times> caps \<times> ops) list" where
  "build_groups P context faults =
     (let has = provided P in
       [(''services'', services_negotiate (has K_Clock) (has K_Scheduler)),
        (''kernel'', kernel_negotiate (has K_Events) (has K_Mutexes) (has K_Threads) (has K_ThreadLocal)
           (has K_StackBounds) (has K_ProcessBarrier) (po_barrier_available P)),
        (''runtime'', runtime_negotiate (has K_Environment) (has K_Identity) (has K_Realtime) (has K_Entropy)
           (has K_NativeMapping) (has K_Modules)),
        (''wasi'', wasi_negotiate (has K_Wasi)),
        (''context'', context),
        (''support'', support_negotiate (has K_NativeHeap) (has K_RwLocks) (has K_ThreadName) (has K_Diagnostics)),
        (''topology'', topology_negotiate (has K_Topology)),
        (''process'', process_negotiate (has K_Process)),
        (''image'', image_negotiate (has K_Image)),
        (''streams'', streams_negotiate (has K_Streams)),
        (''files'', files_negotiate (has K_Files)),
        (''sockets'', sockets_negotiate (has K_Sockets)),
        (''faults'', faults),
        (''system'', system_negotiate (has K_SystemInfo)),
        (''notifications'', notifications_negotiate (has K_Notifications)),
        (''processes'', processes_negotiate (has K_Processes)),
        (''terminal'', terminal_negotiate (has K_Terminal)),
        (''watches'', watches_negotiate (has K_Watches)),
        (''mappings'', mappings_negotiate (has K_Mappings)),
        (''volumes'', volumes_negotiate (has K_Volumes)),
        (''network'', network_negotiate (has K_Network)),
        (''local_sockets'', local_negotiate (has K_LocalSockets)),
        (''accounts'', accounts_negotiate (has K_Accounts)),
        (''priority'', priority_negotiate (has K_Priority)),
        (''packets'', packets_negotiate (has K_Packets)),
        (''spawn_as'', spawn_as_negotiate (has K_SpawnAs))])"

definition build :: "'p port \<Rightarrow> api option" where
  "build P =
     (let has = provided P in
      if has K_VirtualMemory \<and> has K_Linear then None
      else if \<not> po_validate P then None
      else if has K_VirtualMemory \<and> \<not> is_power_of_two (po_page_size P) then None
      else if has K_Linear \<and> (\<not> is_power_of_two (po_granularity P) \<or> po_capacity P = 0) then None
      else
        let capabilities = (if has K_VirtualMemory then CAP_VM else 0);
            capabilities = (if has K_Linear then capabilities OR CAP_LINEAR else capabilities);
            capabilities = (if has K_Linear \<and> po_dynamic P then capabilities OR CAP_DYNAMIC_LINEAR else capabilities)
        in Option.bind (context_negotiate (has K_Context) (po_context_table P)) (\<lambda>context.
           Option.bind (faults_negotiate (po_arch P) (has K_Faults)) (\<lambda>faults.
             let groups = build_groups P context faults
             in Some \<lparr>api_version = ABI_VERSION,
                  api_capabilities = fold (\<lambda>(_, caps, _) acc. acc OR caps) groups capabilities,
                  api_tables =
                    [(''vm'', vm_ops (has K_VirtualMemory)), (''read_stats'', [''read_stats'']),
                     (''linear'', linear_ops (has K_Linear))]
                    @ map (\<lambda>(g, _, entries). (g, entries)) groups\<rparr>)))"

text \<open>The bit, the table and the entries that stand for a capability.\<close>

primrec key_bit :: "pal_key \<Rightarrow> nat" where
  "key_bit K_VirtualMemory = 0" | "key_bit K_Linear = 1" | "key_bit K_Clock = 2" | "key_bit K_Scheduler = 3"
| "key_bit K_Events = 4" | "key_bit K_Mutexes = 5" | "key_bit K_Threads = 6" | "key_bit K_ThreadLocal = 7"
| "key_bit K_StackBounds = 8" | "key_bit K_ProcessBarrier = 9" | "key_bit K_Environment = 10"
| "key_bit K_Identity = 11" | "key_bit K_Realtime = 12" | "key_bit K_Entropy = 13" | "key_bit K_NativeMapping = 14"
| "key_bit K_Modules = 15" | "key_bit K_Wasi = 16" | "key_bit K_Context = 17" | "key_bit K_NativeHeap = 19"
| "key_bit K_RwLocks = 20" | "key_bit K_ThreadName = 21" | "key_bit K_Diagnostics = 22" | "key_bit K_Topology = 23"
| "key_bit K_Process = 24" | "key_bit K_Image = 25" | "key_bit K_Streams = 26" | "key_bit K_Files = 27"
| "key_bit K_Sockets = 28" | "key_bit K_Faults = 29" | "key_bit K_SystemInfo = 30" | "key_bit K_Notifications = 31"
| "key_bit K_Processes = 32" | "key_bit K_Terminal = 33" | "key_bit K_Watches = 34" | "key_bit K_Mappings = 35"
| "key_bit K_Volumes = 36" | "key_bit K_Network = 37" | "key_bit K_LocalSockets = 38" | "key_bit K_Accounts = 39"
| "key_bit K_Priority = 40" | "key_bit K_Packets = 41" | "key_bit K_SpawnAs = 42"

definition offered :: "'p port \<Rightarrow> pal_key \<Rightarrow> bool" where
  "offered P k \<longleftrightarrow> provided P k \<and> (k = K_ProcessBarrier \<longrightarrow> po_barrier_available P)"

definition negotiates :: "'p port \<Rightarrow> bool" where
  "negotiates P \<longleftrightarrow>
     \<not> (provided P K_VirtualMemory \<and> provided P K_Linear) \<and> po_validate P
     \<and> (provided P K_VirtualMemory \<longrightarrow> is_power_of_two (po_page_size P))
     \<and> (provided P K_Linear \<longrightarrow> is_power_of_two (po_granularity P) \<and> po_capacity P \<noteq> 0)
     \<and> (provided P K_Context \<longrightarrow> po_context_table P) \<and> (provided P K_Faults \<longrightarrow> po_arch P \<noteq> Other_Arch)"

lemma build_iff: "(\<exists>api. build P = Some api) \<longleftrightarrow> negotiates P"
  by (auto simp: build_def negotiates_def Let_def context_negotiate_def faults_negotiate_def FRAME_TAG_def
      split: arch.splits)

lemma port_lookup_map_of: "port_lookup k ps = map_of ps k"
  by (induction ps) auto

named_theorems group_tables \<open>the negotiation of each group\<close>

declare services_negotiate_def [group_tables] kernel_negotiate_def [group_tables] runtime_negotiate_def [group_tables]
  wasi_negotiate_def [group_tables] support_negotiate_def [group_tables] topology_negotiate_def [group_tables]
  process_negotiate_def [group_tables] image_negotiate_def [group_tables] streams_negotiate_def [group_tables]
  files_negotiate_def [group_tables] sockets_negotiate_def [group_tables] system_negotiate_def [group_tables]
  notifications_negotiate_def [group_tables] processes_negotiate_def [group_tables] terminal_negotiate_def [group_tables]
  watches_negotiate_def [group_tables] mappings_negotiate_def [group_tables] volumes_negotiate_def [group_tables]
  network_negotiate_def [group_tables] local_negotiate_def [group_tables] accounts_negotiate_def [group_tables]
  priority_negotiate_def [group_tables] packets_negotiate_def [group_tables] spawn_as_negotiate_def [group_tables]
  vm_ops_def [group_tables] linear_ops_def [group_tables]

text \<open>The capability word as one disjunction, and a term of it at a bit position.\<close>

definition term_bit :: "bool \<Rightarrow> nat \<Rightarrow> caps" where
  "term_bit b n = (if b then 2 ^ n else 0)"

lemma bit_term_bit: "n < 64 \<Longrightarrow> bit (term_bit b n) m \<longleftrightarrow> b \<and> m = n"
  by (auto simp: term_bit_def bit_exp_iff possible_bit_def)

lemma fst_offer: "fst (offer b (2 ^ n) es t) = fst t OR term_bit b n"
  by (simp add: offer_def term_bit_def)

lemmas fst_offers = fst_offer [where n = 2, simplified] fst_offer [where n = 3, simplified] fst_offer [where n = 4, simplified]
  fst_offer [where n = 5, simplified] fst_offer [where n = 6, simplified] fst_offer [where n = 7, simplified]
  fst_offer [where n = 8, simplified] fst_offer [where n = 9, simplified] fst_offer [where n = 10, simplified]
  fst_offer [where n = 11, simplified] fst_offer [where n = 12, simplified] fst_offer [where n = 13, simplified]
  fst_offer [where n = 14, simplified] fst_offer [where n = 15, simplified] fst_offer [where n = 19, simplified]
  fst_offer [where n = 20, simplified] fst_offer [where n = 21, simplified] fst_offer [where n = 22, simplified]

lemma several_caps:
  "fst (services_negotiate c s) = term_bit c 2 OR term_bit s 3"
  "fst (kernel_negotiate e m t l st b a) =
     ((((term_bit e 4 OR term_bit m 5) OR term_bit t 6) OR term_bit l 7) OR term_bit st 8) OR term_bit (b \<and> a) 9"
  "fst (runtime_negotiate en i r ent n mo) =
     ((((term_bit en 10 OR term_bit i 11) OR term_bit r 12) OR term_bit ent 13) OR term_bit n 14) OR term_bit mo 15"
  "fst (support_negotiate h rw nm d) = ((term_bit h 19 OR term_bit rw 20) OR term_bit nm 21) OR term_bit d 22"
  by (simp_all only: services_negotiate_def kernel_negotiate_def runtime_negotiate_def support_negotiate_def fst_offers
      fst_conv or.left_neutral)

lemma single_caps:
  "fst (wasi_negotiate b) = term_bit b 16" "fst (topology_negotiate b) = term_bit b 23"
  "fst (process_negotiate b) = term_bit b 24" "fst (image_negotiate b) = term_bit b 25"
  "fst (streams_negotiate b) = term_bit b 26" "fst (files_negotiate b) = term_bit b 27"
  "fst (sockets_negotiate b) = term_bit b 28" "fst (system_negotiate b) = term_bit b 30"
  "fst (notifications_negotiate b) = term_bit b 31" "fst (processes_negotiate b) = term_bit b 32"
  "fst (terminal_negotiate b) = term_bit b 33" "fst (watches_negotiate b) = term_bit b 34"
  "fst (mappings_negotiate b) = term_bit b 35" "fst (volumes_negotiate b) = term_bit b 36"
  "fst (network_negotiate b) = term_bit b 37" "fst (local_negotiate b) = term_bit b 38"
  "fst (accounts_negotiate b) = term_bit b 39" "fst (priority_negotiate b) = term_bit b 40"
  "fst (packets_negotiate b) = term_bit b 41" "fst (spawn_as_negotiate b) = term_bit b 42"
  by (simp_all add: group_tables term_bit_def)

lemma optional_caps:
  "context_negotiate b p = Some c \<Longrightarrow> fst c = term_bit b 17" "faults_negotiate a b = Some f \<Longrightarrow> fst f = term_bit b 29"
  by (auto simp: context_negotiate_def faults_negotiate_def term_bit_def split: if_splits)

lemma fold_or_caps: "bit (fold (\<lambda>(_, c, _) acc. acc OR c) gs w) n \<longleftrightarrow> bit w n \<or> (\<exists>g\<in>set gs. bit (fst (snd g)) n)"
  for w :: caps
  by (induction gs arbitrary: w) (auto simp: bit_or_iff)

lemma build_Some:
  assumes "build P = Some api"
  obtains c f where "context_negotiate (provided P K_Context) (po_context_table P) = Some c"
    "faults_negotiate (po_arch P) (provided P K_Faults) = Some f" "api_version api = ABI_VERSION"
    "api_capabilities api = fold (\<lambda>(_, caps, _) acc. acc OR caps) (build_groups P c f)
       (term_bit (provided P K_VirtualMemory) 0 OR term_bit (provided P K_Linear) 1
        OR term_bit (provided P K_Linear \<and> po_dynamic P) 18)"
    "api_tables api = [(''vm'', vm_ops (provided P K_VirtualMemory)), (''read_stats'', [''read_stats'']),
       (''linear'', linear_ops (provided P K_Linear))] @ map (\<lambda>(g, _, entries). (g, entries)) (build_groups P c f)"
  using assms by (auto simp: build_def Let_def term_bit_def split: if_splits Option.bind_splits)

lemma build_capabilities:
  assumes "build P = Some api"
  shows "bit (api_capabilities api) (key_bit k) \<longleftrightarrow> offered P k"
proof -
  obtain c f where cf: "context_negotiate (provided P K_Context) (po_context_table P) = Some c"
      "faults_negotiate (po_arch P) (provided P K_Faults) = Some f"
      "api_capabilities api = fold (\<lambda>(_, caps, _) acc. acc OR caps) (build_groups P c f)
       (term_bit (provided P K_VirtualMemory) 0 OR term_bit (provided P K_Linear) 1
        OR term_bit (provided P K_Linear \<and> po_dynamic P) 18)"
    using assms by (rule build_Some)
  note caps = several_caps single_caps optional_caps(1) [OF cf(1)] optional_caps(2) [OF cf(2)]
  show ?thesis
    unfolding cf(3) fold_or_caps build_groups_def Let_def
    by (cases k) (simp_all add: caps bit_or_iff bit_term_bit offered_def)
qed

text \<open>The table and the entries of a capability, without the counters every table has.\<close>

primrec key_entries :: "pal_key \<Rightarrow> string \<times> string list" where
  "key_entries K_VirtualMemory = (''vm'', [''page_size'', ''reserve'', ''commit'', ''decommit'', ''release'', 
     ''reset''])"
| "key_entries K_Linear = (''linear'', [''granularity'', ''capacity'', ''allocate'', ''zero'', ''release'', 
     ''read_stats''])"
| "key_entries K_Clock = (''services'', [''monotonic_ns''])"
| "key_entries K_Scheduler = (''services'', [''sleep_ns'', ''yield_thread''])"
| "key_entries K_Events = (''kernel'', [''event_create'', ''event_destroy'', ''event_set'', ''event_reset'', 
     ''event_wait''])"
| "key_entries K_Mutexes = (''kernel'', [''mutex_create'', ''mutex_destroy'', ''mutex_lock'', 
     ''mutex_unlock''])"
| "key_entries K_Threads = (''kernel'', [''thread_create'', ''thread_join'', ''thread_detach''])"
| "key_entries K_ThreadLocal = (''kernel'', [''tls_create'', ''tls_destroy'', ''tls_get'', ''tls_set''])"
| "key_entries K_StackBounds = (''kernel'', [''stack_bounds''])"
| "key_entries K_ProcessBarrier = (''kernel'', [''process_barrier''])"
| "key_entries K_Environment = (''runtime'', [''environment_get''])"
| "key_entries K_Identity = (''runtime'', [''process_id'', ''thread_id''])"
| "key_entries K_Realtime = (''runtime'', [''realtime_ns''])"
| "key_entries K_Entropy = (''runtime'', [''random_bytes''])"
| "key_entries K_NativeMapping = (''runtime'', [''mapping_allocate'', ''mapping_release'', 
     ''mapping_protect''])"
| "key_entries K_Modules = (''runtime'', [''module_open'', ''module_symbol'', ''module_close'', 
     ''module_info''])"
| "key_entries K_NativeHeap = (''support'', [''allocate'', ''resize'', ''release''])"
| "key_entries K_RwLocks = (''support'', [''rw_create'', ''rw_read'', ''rw_write'', ''rw_unlock'', 
     ''rw_destroy''])"
| "key_entries K_ThreadName = (''support'', [''thread_name''])"
| "key_entries K_Diagnostics = (''support'', [''write_stderr''])"
| "key_entries K_Context = (''context'', [''abi_tag'', ''action_size'', ''action_alignment'', ''install'', 
     ''restore'', ''unblock_activation'', ''request_activation'', ''current_thread'', ''process_id_async'', 
     ''ignore_broken_pipe'', ''signal_number''])"
| "key_entries K_Wasi = (''wasi'', [''invoke'', ''call_count'', ''read_stats''])"
| "key_entries K_Topology = (''topology'', [''cpu_max'', ''cpu_count'', ''current_cpu'', ''process_affinity'', 
     ''set_thread_affinity'', ''physical_memory'', ''memory_limit'', ''virtual_limit'', ''cache_size'', 
     ''cpu_features'', ''cache_level_size'', ''swap_memory''])"
| "key_entries K_Process = (''process'', [''exit'', ''debugger_present'', ''crash_dump''])"
| "key_entries K_Image = (''image'', [''unwind_info'', ''readable'', ''build_id''])"
| "key_entries K_Streams = (''streams'', [''write'', ''read'', ''is_terminal''])"
| "key_entries K_Files = (''files'', [''open'', ''close'', ''read_at'', ''write_at'', ''set_size'', ''flush'', 
     ''status'', ''path_status'', ''remove'', ''rename'', ''directory_create'', ''directory_remove'', 
     ''directory_open'', ''directory_read'', ''directory_close'', ''current_directory'', ''set_mode'', 
     ''set_file_mode'', ''set_times'', ''set_file_times'', ''link'', ''symlink'', ''read_link'', ''real_path'', 
     ''set_current_directory'', ''lock'', ''lock_range''])"
| "key_entries K_Sockets = (''sockets'', [''create'', ''close'', ''bind'', ''listen'', ''accept'', 
     ''connect'', ''send'', ''receive'', ''shutdown'', ''local_address'', ''peer_address'', ''set_blocking'', 
     ''get_option'', ''set_option'', ''poll'', ''wake'', ''resolve'', ''host_name''])"
| "key_entries K_Faults = (''faults'', [''frame_tag'', ''frame_size'', ''install''])"
| "key_entries K_SystemInfo = (''system'', [''environment_entry'', ''text'', ''process_times'', ''uptime_ns'', 
     ''user_ids''])"
| "key_entries K_Notifications = (''notifications'', [''install'', ''enable'', ''disable'', 
     ''default_action''])"
| "key_entries K_Processes = (''processes'', [''spawn'', ''wait'', ''terminate'', ''release'', ''pipe_read'', 
     ''pipe_write'', ''pipe_close''])"
| "key_entries K_Terminal = (''terminal'', [''window_size'', ''set_input_mode'', ''input_ready'', 
     ''control_character''])"
| "key_entries K_Watches = (''watches'', [''open'', ''close'', ''add'', ''remove'', ''read''])"
| "key_entries K_Mappings = (''mappings'', [''map'', ''unmap'', ''sync''])"
| "key_entries K_Volumes = (''volumes'', [''entry'', ''status''])"
| "key_entries K_Network = (''network'', [''interface_entry'', ''address_entry'', ''reverse_lookup'', 
     ''membership''])"
| "key_entries K_LocalSockets = (''local_sockets'', [''bind'', ''connect'', ''address'', ''peer_user''])"
| "key_entries K_Accounts = (''accounts'', [''user_by_id'', ''user_by_name'', ''process_groups'', 
     ''user_groups''])"
| "key_entries K_Priority = (''priority'', [''get'', ''set''])"
| "key_entries K_Packets = (''packets'', [''receive''])"
| "key_entries K_SpawnAs = (''spawn_as'', [''spawn_as''])"

lemma group_of:
  "map_of (build_groups P context faults) ''services'' = Some (services_negotiate (provided P K_Clock) 
     (provided P K_Scheduler))"
  "map_of (build_groups P context faults) ''kernel'' = Some (kernel_negotiate (provided P K_Events) (provided 
     P K_Mutexes) (provided P K_Threads) (provided P K_ThreadLocal) (provided P K_StackBounds) (provided P 
     K_ProcessBarrier) (po_barrier_available P))"
  "map_of (build_groups P context faults) ''runtime'' = Some (runtime_negotiate (provided P K_Environment) 
     (provided P K_Identity) (provided P K_Realtime) (provided P K_Entropy) (provided P K_NativeMapping) 
     (provided P K_Modules))"
  "map_of (build_groups P context faults) ''wasi'' = Some (wasi_negotiate (provided P K_Wasi))"
  "map_of (build_groups P context faults) ''context'' = Some context"
  "map_of (build_groups P context faults) ''support'' = Some (support_negotiate (provided P K_NativeHeap) 
     (provided P K_RwLocks) (provided P K_ThreadName) (provided P K_Diagnostics))"
  "map_of (build_groups P context faults) ''topology'' = Some (topology_negotiate (provided P K_Topology))"
  "map_of (build_groups P context faults) ''process'' = Some (process_negotiate (provided P K_Process))"
  "map_of (build_groups P context faults) ''image'' = Some (image_negotiate (provided P K_Image))"
  "map_of (build_groups P context faults) ''streams'' = Some (streams_negotiate (provided P K_Streams))"
  "map_of (build_groups P context faults) ''files'' = Some (files_negotiate (provided P K_Files))"
  "map_of (build_groups P context faults) ''sockets'' = Some (sockets_negotiate (provided P K_Sockets))"
  "map_of (build_groups P context faults) ''faults'' = Some faults"
  "map_of (build_groups P context faults) ''system'' = Some (system_negotiate (provided P K_SystemInfo))"
  "map_of (build_groups P context faults) ''notifications'' = Some (notifications_negotiate (provided P 
     K_Notifications))"
  "map_of (build_groups P context faults) ''processes'' = Some (processes_negotiate (provided P K_Processes))"
  "map_of (build_groups P context faults) ''terminal'' = Some (terminal_negotiate (provided P K_Terminal))"
  "map_of (build_groups P context faults) ''watches'' = Some (watches_negotiate (provided P K_Watches))"
  "map_of (build_groups P context faults) ''mappings'' = Some (mappings_negotiate (provided P K_Mappings))"
  "map_of (build_groups P context faults) ''volumes'' = Some (volumes_negotiate (provided P K_Volumes))"
  "map_of (build_groups P context faults) ''network'' = Some (network_negotiate (provided P K_Network))"
  "map_of (build_groups P context faults) ''local_sockets'' = Some (local_negotiate (provided P 
     K_LocalSockets))"
  "map_of (build_groups P context faults) ''accounts'' = Some (accounts_negotiate (provided P K_Accounts))"
  "map_of (build_groups P context faults) ''priority'' = Some (priority_negotiate (provided P K_Priority))"
  "map_of (build_groups P context faults) ''packets'' = Some (packets_negotiate (provided P K_Packets))"
  "map_of (build_groups P context faults) ''spawn_as'' = Some (spawn_as_negotiate (provided P K_SpawnAs))"
  by (simp_all add: build_groups_def Let_def)

lemma map_of_groups: "map_of (map (\<lambda>(g, _, es). (g, es)) gs) g = map_option snd (map_of gs g)"
  by (induction gs) auto

lemma in_offer: "e \<in> set (snd (offer b c es t)) \<longleftrightarrow> e \<in> set (snd t) \<or> b \<and> e \<in> set es"
  by (auto simp: offer_def)

lemma in_if_group: "e \<in> set (snd (if \<not> b then (x, es) else (y, es'))) \<longleftrightarrow> (if b then e \<in> set es' else e \<in> set es)"
  by simp

lemma optional_entries:
  "context_negotiate b p = Some c \<Longrightarrow> e \<in> set (snd (key_entries K_Context)) \<Longrightarrow> e \<in> set (snd c) \<longleftrightarrow> b"
  "faults_negotiate a b = Some f \<Longrightarrow> e \<in> set (snd (key_entries K_Faults)) \<Longrightarrow> e \<in> set (snd f) \<longleftrightarrow> b"
  by (auto simp: context_negotiate_def faults_negotiate_def split: if_splits)

lemma build_entries:
  assumes "build P = Some api"
  shows "\<exists>es. map_of (api_tables api) (fst (key_entries k)) = Some es
    \<and> (\<forall>e\<in>set (snd (key_entries k)). e \<in> set es \<longleftrightarrow> offered P k)"
proof -
  obtain c f where cf: "context_negotiate (provided P K_Context) (po_context_table P) = Some c"
      "faults_negotiate (po_arch P) (provided P K_Faults) = Some f"
      "api_tables api = [(''vm'', vm_ops (provided P K_VirtualMemory)), (''read_stats'', [''read_stats'']),
       (''linear'', linear_ops (provided P K_Linear))] @ map (\<lambda>(g, _, entries). (g, entries)) (build_groups P c f)"
    using assms by (rule build_Some)
  show ?thesis
  proof (cases k)
    case K_Context
    then show ?thesis using optional_entries(1) [OF cf(1)] by (simp add: cf(3) map_of_groups group_of offered_def)
  next
    case K_Faults
    then show ?thesis using optional_entries(2) [OF cf(2)] by (simp add: cf(3) map_of_groups group_of offered_def)
  qed (simp_all add: cf(3) map_of_groups group_of group_tables in_offer in_if_group offered_def)
qed

end
