(* ===== verification/Pal_Absent.thy ===== *)
theory Pal_Absent
  imports Pal_Table
begin

text \<open>
  The \<open>Absent\<close> provider (\<open>src/src/port.rs\<close>): what a port has for every capability it does not name.
  Every operation fails with \<open>Unsupported\<close> and touches nothing; the provided methods of the traits that
  \<open>Absent\<close> does not override (file attributes, links and locks, cache levels, swap) fail the same way.
  A table entry of an absent capability is NULL, so these operations are reached only through code that
  calls an entry point directly; the lemmas below say that such a call obtains nothing.
\<close>

definition absent_vm :: "'s vm_provider" where
  "absent_vm =
    \<lparr>vm_page_size = 0,
     vm_reserve_fn = (\<lambda>_ _ s. (Inl Unsupported, s)),
     vm_commit_fn = (\<lambda>_ _ s. (Inl Unsupported, s)),
     vm_decommit_fn = (\<lambda>_ _ s. (Inl Unsupported, s)),
     vm_release_fn = (\<lambda>_ _ s. (Inl Unsupported, s)),
     vm_reset_fn = (\<lambda>_ _ s. (Inl Unsupported, s))\<rparr>"

definition absent_linear :: "'s linear_provider" where
  "absent_linear =
    \<lparr>lp_granularity = 0,
     lp_capacity = 0,
     lp_allocate = (\<lambda>_ _ s. (Inl Unsupported, s)),
     lp_zero = (\<lambda>_ _ s. (Inl Unsupported, s)),
     lp_release = (\<lambda>_ _ s. (Inl Unsupported, s))\<rparr>"

definition absent_services :: "'s services_provider" where
  "absent_services =
    \<lparr>sv_monotonic_ns = (\<lambda>s. (Inl Unsupported, s)),
     sv_sleep_ns = (\<lambda>_ s. (Inl Unsupported, s)),
     sv_yield_now = (\<lambda>s. (Inl Unsupported, s))\<rparr>"

definition absent_kernel :: "'s kernel_provider" where
  "absent_kernel =
    \<lparr>kp_event_create = (\<lambda>_ _ s. (Inl Unsupported, s)),
     kp_event_destroy = (\<lambda>_ s. (Inl Unsupported, s)),
     kp_event_set = (\<lambda>_ s. (Inl Unsupported, s)),
     kp_event_reset = (\<lambda>_ s. (Inl Unsupported, s)),
     kp_event_wait = (\<lambda>_ _ s. (Inl Unsupported, s)),
     kp_mutex_create = (\<lambda>_ s. (Inl Unsupported, s)),
     kp_mutex_destroy = (\<lambda>_ s. (Inl Unsupported, s)),
     kp_mutex_lock = (\<lambda>_ s. (Inl Unsupported, s)),
     kp_mutex_unlock = (\<lambda>_ s. (Inl Unsupported, s)),
     kp_thread_create = (\<lambda>_ _ _ s. (Inl Unsupported, s)),
     kp_thread_join = (\<lambda>_ s. (Inl Unsupported, s)),
     kp_thread_detach = (\<lambda>_ s. (Inl Unsupported, s)),
     kp_tls_create = (\<lambda>_ s. (Inl Unsupported, s)),
     kp_tls_destroy = (\<lambda>_ s. (Inl Unsupported, s)),
     kp_tls_get = (\<lambda>_ s. (Inl Unsupported, s)),
     kp_tls_set = (\<lambda>_ _ s. (Inl Unsupported, s)),
     kp_stack_current = (\<lambda>s. (Inl Unsupported, s)),
     kp_barrier = (\<lambda>s. (Inl Unsupported, s))\<rparr>"

definition absent_runtime :: "'s runtime_provider" where
  "absent_runtime =
    \<lparr>rp_environment_get = (\<lambda>_ b s. (Inl Unsupported, b, s)),
     rp_process_id = (\<lambda>s. (Inl Unsupported, s)),
     rp_thread_id = (\<lambda>s. (Inl Unsupported, s)),
     rp_realtime_ns = (\<lambda>s. (Inl Unsupported, s)),
     rp_fill = (\<lambda>b s. (Inl Unsupported, b, s)),
     rp_page_size = 0,
     rp_map_allocate = (\<lambda>_ _ s. (Inl Unsupported, s)),
     rp_map_release = (\<lambda>_ _ s. (Inl Unsupported, s)),
     rp_map_protect = (\<lambda>_ _ _ s. (Inl Unsupported, s)),
     rp_module_open = (\<lambda>_ s. (Inl Unsupported, s)),
     rp_module_symbol = (\<lambda>_ _ s. (Inl Unsupported, s)),
     rp_module_close = (\<lambda>_ s. (Inl Unsupported, s)),
     rp_module_info = (\<lambda>_ s. (Inl Unsupported, s))\<rparr>"

definition absent_support :: "'s support_provider" where
  "absent_support =
    \<lparr>hp_allocate = (\<lambda>_ _ s. (Inl Unsupported, s)),
     hp_resize = (\<lambda>_ _ s. (Inl Unsupported, s)),
     hp_release = (\<lambda>_ s. (Inl Unsupported, s)),
     hp_rw_create = (\<lambda>s. (Inl Unsupported, s)),
     hp_rw_read = (\<lambda>_ s. (Inl Unsupported, s)),
     hp_rw_write = (\<lambda>_ s. (Inl Unsupported, s)),
     hp_rw_unlock = (\<lambda>_ s. (Inl Unsupported, s)),
     hp_rw_destroy = (\<lambda>_ s. (Inl Unsupported, s)),
     hp_write_stderr = (\<lambda>_ _ s. (Inl (0, Unsupported), s)),
     hp_thread_name = (\<lambda>_ s. (Inl Unsupported, s))\<rparr>"

definition absent_topology :: "'s topology_provider" where
  "absent_topology =
    \<lparr>tp_cpu_max = (\<lambda>s. (Inl Unsupported, s)),
     tp_cpu_count = (\<lambda>s. (Inl Unsupported, s)),
     tp_current_cpu = (\<lambda>s. (Inl Unsupported, s)),
     tp_process_affinity = (\<lambda>b s. (Inl Unsupported, b, s)),
     tp_set_thread_affinity = (\<lambda>_ s. (Inl Unsupported, s)),
     tp_physical_memory = (\<lambda>s. (Inl Unsupported, s)),
     tp_memory_limit = (\<lambda>s. (Inl Unsupported, s)),
     tp_virtual_limit = (\<lambda>s. (Inl Unsupported, s)),
     tp_cache_size = (\<lambda>s. (Inl Unsupported, s)),
     tp_cpu_features = (\<lambda>s. (Inl Unsupported, s)),
     tp_cache_level_size = (\<lambda>_ s. (Inl Unsupported, s)),
     tp_swap_memory = (\<lambda>s. (Inl Unsupported, s))\<rparr>"

definition absent_process :: "'s process_provider" where
  "absent_process =
    \<lparr>pp_debugger_present = (\<lambda>s. (Inl Unsupported, s)),
     pp_crash_dump = (\<lambda>_ b s. (Inl Unsupported, b, s))\<rparr>"

definition absent_streams :: "'s streams_provider" where
  "absent_streams =
    \<lparr>sp_write = (\<lambda>_ _ s. (Inl Unsupported, s)),
     sp_read = (\<lambda>_ b s. (Inl Unsupported, b, s)),
     sp_is_terminal = (\<lambda>_ s. (Inl Unsupported, s))\<rparr>"

definition absent_files :: "'s files_provider" where
  "absent_files =
    \<lparr>fp_open = (\<lambda>_ _ _ s. Some (Inl Unsupported, s)),
     fp_close = (\<lambda>_ s. Some (Inl Unsupported, s)),
     fp_read_at = (\<lambda>_ _ b s. Some (Inl Unsupported, b, s)),
     fp_write_at = (\<lambda>_ _ _ s. Some (Inl Unsupported, s)),
     fp_set_size = (\<lambda>_ _ s. Some (Inl Unsupported, s)),
     fp_flush = (\<lambda>_ s. Some (Inl Unsupported, s)),
     fp_status = (\<lambda>_ s. Some (Inl Unsupported, s)),
     fp_path_status = (\<lambda>_ _ s. Some (Inl Unsupported, s)),
     fp_remove = (\<lambda>_ s. Some (Inl Unsupported, s)),
     fp_rename = (\<lambda>_ _ s. Some (Inl Unsupported, s)),
     fp_create_directory = (\<lambda>_ _ s. Some (Inl Unsupported, s)),
     fp_remove_directory = (\<lambda>_ s. Some (Inl Unsupported, s)),
     fp_open_directory = (\<lambda>_ s. Some (Inl Unsupported, s)),
     fp_read_directory = (\<lambda>_ b s. Some (Inl Unsupported, b, s)),
     fp_close_directory = (\<lambda>_ s. Some (Inl Unsupported, s)),
     fp_current_directory = (\<lambda>b s. Some (Inl Unsupported, b, s)),
     fp_set_mode = (\<lambda>_ _ s. Some (Inl Unsupported, s)),
     fp_set_file_mode = (\<lambda>_ _ s. Some (Inl Unsupported, s)),
     fp_set_times = (\<lambda>_ _ _ _ s. Some (Inl Unsupported, s)),
     fp_set_file_times = (\<lambda>_ _ _ s. Some (Inl Unsupported, s)),
     fp_link = (\<lambda>_ _ s. Some (Inl Unsupported, s)),
     fp_symlink = (\<lambda>_ _ s. Some (Inl Unsupported, s)),
     fp_read_link = (\<lambda>_ b s. Some (Inl Unsupported, b, s)),
     fp_real_path = (\<lambda>_ b s. Some (Inl Unsupported, b, s)),
     fp_set_current_directory = (\<lambda>_ s. Some (Inl Unsupported, s)),
     fp_lock = (\<lambda>_ _ _ s. Some (Inl Unsupported, s)),
     fp_lock_range = (\<lambda>_ _ _ _ s. Some (Inl Unsupported, s))\<rparr>"

definition absent_sockets :: "'s sockets_provider" where
  "absent_sockets =
    \<lparr>kp_create = (\<lambda>_ _ s. (Inl Unsupported, s)),
     kp_close = (\<lambda>_ s. (Inl Unsupported, s)),
     kp_bind = (\<lambda>_ _ s. (Inl Unsupported, s)),
     kp_listen = (\<lambda>_ _ s. (Inl Unsupported, s)),
     kp_accept = (\<lambda>_ s. (Inl Unsupported, s)),
     kp_connect = (\<lambda>_ _ s. (Inl Unsupported, s)),
     kp_send = (\<lambda>_ _ _ s. (Inl Unsupported, s)),
     kp_receive = (\<lambda>_ b _ s. (Inl Unsupported, b, s)),
     kp_shutdown = (\<lambda>_ _ s. (Inl Unsupported, s)),
     kp_local_address = (\<lambda>_ s. (Inl Unsupported, s)),
     kp_peer_address = (\<lambda>_ s. (Inl Unsupported, s)),
     kp_set_blocking = (\<lambda>_ _ s. (Inl Unsupported, s)),
     kp_get_option = (\<lambda>_ _ s. (Inl Unsupported, s)),
     kp_set_option = (\<lambda>_ _ _ s. (Inl Unsupported, s)),
     kp_poll = (\<lambda>b _ _ s. (Inl Unsupported, b, s)),
     kp_wake = (\<lambda>_ s. (Inl Unsupported, s)),
     kp_resolve = (\<lambda>_ _ b s. (Inl Unsupported, b, s)),
     kp_host_name = (\<lambda>b s. (Inl Unsupported, b, s))\<rparr>"

definition absent_system :: "'s system_provider" where
  "absent_system =
    \<lparr>yp_environment_entry = (\<lambda>_ b s. (Inl Unsupported, b, s)),
     yp_text = (\<lambda>_ b s. (Inl Unsupported, b, s)),
     yp_process_times = (\<lambda>s. (Inl Unsupported, s)),
     yp_uptime_ns = (\<lambda>s. (Inl Unsupported, s)),
     yp_user_ids = (\<lambda>s. (Inl Unsupported, s))\<rparr>"

definition absent_notifications :: "'s notifications_provider" where
  "absent_notifications =
    \<lparr>op_start = (\<lambda>s. (Inl Unsupported, s)),
     op_enable = (\<lambda>_ s. (Inl Unsupported, s)),
     op_disable = (\<lambda>_ s. (Inl Unsupported, s)),
     op_default_action = (\<lambda>_ s. (Inl Unsupported, s))\<rparr>"

definition absent_processes :: "'s processes_provider" where
  "absent_processes =
    \<lparr>cp_spawn = (\<lambda>_ _ s. (Inl Unsupported, s)),
     cp_wait = (\<lambda>_ _ s. (Inl Unsupported, s)),
     cp_terminate = (\<lambda>_ _ s. (Inl Unsupported, s)),
     cp_release = (\<lambda>_ s. (Inl Unsupported, s)),
     cp_pipe_read = (\<lambda>_ b s. (Inl Unsupported, b, s)),
     cp_pipe_write = (\<lambda>_ _ s. (Inl Unsupported, s)),
     cp_pipe_close = (\<lambda>_ s. (Inl Unsupported, s))\<rparr>"

definition absent_terminal :: "'s terminal_provider" where
  "absent_terminal =
    \<lparr>mp_window_size = (\<lambda>_ s. (Inl Unsupported, s)),
     mp_set_input_mode = (\<lambda>_ _ _ _ s. (Inl Unsupported, s)),
     mp_input_ready = (\<lambda>s. (Inl Unsupported, s)),
     mp_control_character = (\<lambda>_ s. (Inl Unsupported, s))\<rparr>"

definition absent_watches :: "'s watches_provider" where
  "absent_watches =
    \<lparr>wp_open = (\<lambda>s. (Inl Unsupported, s)),
     wp_close = (\<lambda>_ s. (Inl Unsupported, s)),
     wp_add = (\<lambda>_ _ _ s. (Inl Unsupported, s)),
     wp_remove = (\<lambda>_ _ s. (Inl Unsupported, s)),
     wp_read = (\<lambda>_ _ b s. Some (Inl Unsupported, b, s))\<rparr>"

definition absent_mappings :: "'s mappings_provider" where
  "absent_mappings =
    \<lparr>mp_map = (\<lambda>_ _ _ _ _ s. (Inl Unsupported, s)),
     mp_unmap = (\<lambda>_ _ s. (Inl Unsupported, s)),
     mp_sync = (\<lambda>_ _ s. (Inl Unsupported, s))\<rparr>"

definition absent_volumes :: "'s volumes_provider" where
  "absent_volumes =
    \<lparr>vp_entry = (\<lambda>_ b s. (Inl Unsupported, b, s)),
     vp_status = (\<lambda>_ s. (Inl Unsupported, s))\<rparr>"

definition absent_network :: "'s network_provider" where
  "absent_network =
    \<lparr>np_interface_entry = (\<lambda>_ s. (Inl Unsupported, s)),
     np_address_entry = (\<lambda>_ s. (Inl Unsupported, s)),
     np_reverse_lookup = (\<lambda>_ b s. (Inl Unsupported, b, s)),
     np_membership = (\<lambda>_ _ _ _ s. (Inl Unsupported, s))\<rparr>"

definition absent_local :: "'s local_provider" where
  "absent_local =
    \<lparr>lk_bind = (\<lambda>_ _ s. (Inl Unsupported, s)),
     lk_connect = (\<lambda>_ _ s. (Inl Unsupported, s)),
     lk_address = (\<lambda>_ _ b s. (Inl Unsupported, b, s)),
     lk_peer_user = (\<lambda>_ s. (Inl Unsupported, s))\<rparr>"

definition absent_accounts :: "'s accounts_provider" where
  "absent_accounts =
    \<lparr>ap_user_by_id = (\<lambda>_ s. (Inl Unsupported, s)),
     ap_user_by_name = (\<lambda>_ s. (Inl Unsupported, s)),
     ap_process_groups = (\<lambda>b s. (Inl Unsupported, b, s)),
     ap_user_groups = (\<lambda>_ _ b s. (Inl Unsupported, b, s))\<rparr>"

definition absent_priority :: "'s priority_provider" where
  "absent_priority =
    \<lparr>yp_get = (\<lambda>_ s. (Inl Unsupported, s)),
     yp_set = (\<lambda>_ _ s. (Inl Unsupported, s))\<rparr>"

definition absent_image :: "'s image_provider" where
  "absent_image =
    \<lparr>ip_unwind_info = (\<lambda>_ s. (Inl Unsupported, s)),
     ip_readable = (\<lambda>_ _ s. (Inl Unsupported, s)),
     ip_build_id = (\<lambda>_ b s. (Inl Unsupported, b, s))\<rparr>"

definition absent_packets :: "'s packet_receive" where
  "absent_packets = (\<lambda>_ b _ s. (Inl Unsupported, b, s))"

definition absent_spawn_as ::
  "spawn_args \<Rightarrow> flags \<Rightarrow> nat \<Rightarrow> nat \<Rightarrow> nat list \<Rightarrow> 's \<Rightarrow> spawned result \<times> 's" where
  "absent_spawn_as = (\<lambda>_ _ _ _ _ s. (Inl Unsupported, s))"

definition absent_dispatch :: "request \<Rightarrow> 's \<Rightarrow> nat \<times> 's" where
  "absent_dispatch _ s = (52, s)"

definition absent_enable :: "'s \<Rightarrow> unit result \<times> 's" where
  "absent_enable s = (Inl Unsupported, s)"

text \<open>A creating call that obtained nothing: a failing status, a cleared output and an untouched provider.\<close>

definition denied :: "'s \<Rightarrow> (nat \<times> counters) \<times> nat \<times> 's \<Rightarrow> bool" where
  "denied s = (\<lambda>((st, _), cell, s'). st \<in> {INVALID_ARGUMENT, UNSUPPORTED} \<and> cell = 0 \<and> s' = s)"

lemma absent_services_denied:
  assumes "aligned_output out 8"
  shows "denied s (monotonic_ns absent_services out cell cs s)"
  using assms by (auto simp: denied_def monotonic_ns_def absent_services_def services_record_def Let_def)

lemma absent_kernel_denied:
  assumes "aligned_output out 8"
  shows "denied s (event_create absent_kernel manual initial out cell cs s)"
    and "denied s (mutex_create absent_kernel recursive out cell cs s)"
    and "denied s (tls_create absent_kernel destructor out cell cs s)"
  using assms by (auto simp: denied_def event_create_def mutex_create_def tls_create_def kernel_create_def absent_kernel_def
      kernel_record_def Let_def split: prod.splits)

lemma absent_runtime_denied:
  assumes "aligned_output out 8"
  shows "denied s (mapping_allocate absent_runtime sz protection out cell cs s)"
    and "denied s (module_open absent_runtime nm len bytes out cell cs s)"
  using assms by (auto simp: denied_def mapping_allocate_def module_open_def absent_runtime_def runtime_record_def Let_def
      split: option.splits)

lemma absent_support_denied:
  assumes "aligned_output out 8"
  shows "denied s (heap_allocate absent_support sz zero out cell cs s)"
    and "denied s (rw_create absent_support out cell cs s)"
  using assms by (auto simp: denied_def heap_allocate_def rw_create_def absent_support_def support_record_def accept_def Let_def)

lemma absent_handles_denied:
  assumes "aligned_output out 8"
  shows "denied s (sockets_create absent_sockets family kind out cell cs s)"
    and "denied s (watches_open absent_watches out cell cs s)"
    and "denied s (mappings_map absent_mappings f offset len access mode out cell cs s)"
    and "\<exists>r. files_open absent_files path len bytes fl m out cell cs s = Some r \<and> denied s r"
  using assms
  by (auto simp: denied_def sockets_create_def absent_sockets_def sockets_record_def sanitize_def sockets_statuses_def
      watches_open_def absent_watches_def watches_record_def mappings_map_def absent_mappings_def mappings_record_def
      files_open_def absent_files_def files_record_def files_statuses_def files_handle_def Let_def split: option.splits)

lemma absent_dispatch_fails: "fst (wasi_invoke absent_dispatch opcode args argc vals wc s) \<noteq> 0"
  by (auto simp: wasi_invoke_def reject_def absent_dispatch_def Let_def split: option.splits)

end
