(* ===== verification/Host_Table.thy ===== *)
theory Host_Table
  imports Pal_Absent
begin

text \<open>
  The tables a C host supplies (\<open>crates/dotnet-pal-host/src/lib.rs\<close>): a header-first table behind
  a foreign pointer, its validation at negotiation, the cell that caches the validated table, and
  the conversion of a callback's reply. The callbacks are foreign code, so every one of them is a
  field of a record that the definitions take as an argument: a state-passing function on the
  host's own state \<open>'s\<close>, or \<open>None\<close> for a NULL entry. An output parameter is an argument with the
  value it holds before the call and a component of the reply with the value the callback left.
\<close>

named_theorems host_simps \<open>evaluation of calls through a host table\<close>

section \<open>Reading a table\<close>

text \<open>
  What is behind a table pointer: the pointer, the header and the callbacks. The callbacks may only
  be looked at once the header has been accepted.
\<close>

record 'o raw_table =
  rt_address :: nat
  rt_abi_version :: nat
  rt_struct_size :: nat
  rt_capabilities :: caps
  rt_ops :: 'o

abbreviation HEADER_SIZE :: nat where "HEADER_SIZE \<equiv> 16"
abbreviation CALLBACK_SIZE :: nat where "CALLBACK_SIZE \<equiv> 8"
abbreviation TABLE_ALIGN :: nat where "TABLE_ALIGN \<equiv> 8"

definition host_table :: "nat \<Rightarrow> caps \<Rightarrow> 'o raw_table \<Rightarrow> 'o option" where
  "host_table sz required raw =
     (if rt_address raw = 0 \<or> rt_address raw mod TABLE_ALIGN \<noteq> 0 then None
      else if rt_abi_version raw \<noteq> ABI_VERSION \<or> rt_struct_size raw < sz
              \<or> rt_capabilities raw AND required \<noteq> required then None
      else Some (rt_ops raw))"

text \<open>\<open>Cached\<close>: one table, or nothing before negotiation has accepted one.\<close>

type_synonym 'o cached = "'o option"

definition cached_new :: "'o cached" where
  "cached_new = None"

definition cached_set :: "'o \<Rightarrow> 'o cached \<Rightarrow> 'o cached" where
  "cached_set t cell = Some t"

text \<open>
  The body every group's \<open>validate\<close> shares: the table for this many callbacks and these capability
  bits, then the group's own check of the callbacks, then the cell.
\<close>

definition host_validate :: "nat \<Rightarrow> caps \<Rightarrow> ('o \<Rightarrow> bool) \<Rightarrow> 'o raw_table \<Rightarrow> 'o cached \<Rightarrow> bool \<times> 'o cached" where
  "host_validate callbacks required complete raw cell =
     (case host_table (HEADER_SIZE + CALLBACK_SIZE * callbacks) required raw of
        None \<Rightarrow> (False, cell)
      | Some t \<Rightarrow> if \<not> complete t then (False, cell) else (True, cached_set t cell))"

section \<open>Replies\<close>

text \<open>
  The status a callback returns decides whether its outputs count: \<open>port::from_status(...)?\<close>
  followed by the outputs. A text call also accepts the status that asks for a larger buffer.
\<close>

definition call_reply :: "nat \<times> 's \<Rightarrow> unit result \<times> 's" where
  "call_reply = (\<lambda>(st, s). (port_from_status st, s))"

definition out_reply :: "nat \<times> 'v \<times> 's \<Rightarrow> 'v result \<times> 's" where
  "out_reply = (\<lambda>(st, v, s). (r_bind (port_from_status st) (\<lambda>_. Inr v), s))"

definition fill_reply :: "nat \<times> 'v \<times> 'b \<times> 's \<Rightarrow> 'v result \<times> 'b \<times> 's" where
  "fill_reply = (\<lambda>(st, v, b, s). (r_bind (port_from_status st) (\<lambda>_. Inr v), b, s))"

definition text_result :: "unit result \<Rightarrow> 'v \<Rightarrow> 'v result" where
  "text_result st needed =
     (case st of Inr _ \<Rightarrow> Inr needed | Inl e \<Rightarrow> if e = BufferTooSmall then Inr needed else Inl e)"

definition text_reply :: "nat \<times> 'v \<times> 'b \<times> 's \<Rightarrow> 'v result \<times> 'b \<times> 's" where
  "text_reply = (\<lambda>(st, v, b, s). (text_result (port_from_status st) v, b, s))"

section \<open>Calls\<close>

text \<open>
  \<open>TABLE.get().and_then(|t| t.ops.name)\<close>, with the arguments the bridge passes already applied by
  \<open>k\<close>; then the macro \<open>call!\<close> and its variants with outputs. \<open>missing\<close> is what a call without the
  callback answers.
\<close>

definition host_op :: "'o cached \<Rightarrow> ('o \<Rightarrow> 'f option) \<Rightarrow> ('f \<Rightarrow> 'g) \<Rightarrow> 'g option" where
  "host_op table name k = map_option k (Option.bind table name)"

definition host_call :: "error \<Rightarrow> ('s \<Rightarrow> nat \<times> 's) option \<Rightarrow> 's \<Rightarrow> unit result \<times> 's" where
  "host_call missing f s = (case f of None \<Rightarrow> (Inl missing, s) | Some f \<Rightarrow> call_reply (f s))"

definition host_out :: "error \<Rightarrow> ('v \<Rightarrow> 's \<Rightarrow> nat \<times> 'v \<times> 's) option \<Rightarrow> 'v \<Rightarrow> 's \<Rightarrow> 'v result \<times> 's" where
  "host_out missing f v s = (case f of None \<Rightarrow> (Inl missing, s) | Some f \<Rightarrow> out_reply (f v s))"

definition host_fill ::
  "error \<Rightarrow> ('b \<Rightarrow> 'v \<Rightarrow> 's \<Rightarrow> nat \<times> 'v \<times> 'b \<times> 's) option \<Rightarrow> 'v \<Rightarrow> 'b \<Rightarrow> 's \<Rightarrow> 'v result \<times> 'b \<times> 's" where
  "host_fill missing f v b s = (case f of None \<Rightarrow> (Inl missing, b, s) | Some f \<Rightarrow> fill_reply (f b v s))"

definition host_text ::
  "error \<Rightarrow> ('b \<Rightarrow> 'v \<Rightarrow> 's \<Rightarrow> nat \<times> 'v \<times> 'b \<times> 's) option \<Rightarrow> 'v \<Rightarrow> 'b \<Rightarrow> 's \<Rightarrow> 'v result \<times> 'b \<times> 's" where
  "host_text missing f v b s = (case f of None \<Rightarrow> (Inl missing, b, s) | Some f \<Rightarrow> text_reply (f b v s))"

section \<open>Facts\<close>

lemma host_table_Some_iff:
  "host_table sz required raw = Some t \<longleftrightarrow>
     t = rt_ops raw \<and> rt_address raw \<noteq> 0 \<and> rt_address raw mod TABLE_ALIGN = 0 \<and> rt_abi_version raw = ABI_VERSION
     \<and> sz \<le> rt_struct_size raw \<and> rt_capabilities raw AND required = required"
  by (auto simp: host_table_def)

lemma host_validate_True_iff:
  "host_validate n required complete raw cell = (True, cell') \<longleftrightarrow>
     host_table (HEADER_SIZE + CALLBACK_SIZE * n) required raw = Some (rt_ops raw) \<and> complete (rt_ops raw)
     \<and> cell' = Some (rt_ops raw)"
  by (cases "host_table (HEADER_SIZE + CALLBACK_SIZE * n) required raw")
    (auto simp: host_validate_def cached_set_def dest: host_table_Some_iff [THEN iffD1])

lemma host_validate_False:
  "host_validate n required complete raw cell = (False, cell') \<Longrightarrow> cell' = cell"
  by (auto simp: host_validate_def split: option.splits if_splits)

text \<open>The status conversions of the boundary are inverse to each other on the published statuses.\<close>

lemma port_round [host_simps]: "port_from_status (port_status r) = map_sum id (\<lambda>_. ()) r"
  by (cases r) (simp_all add: port_from_status_def from_status_def [of OK])

lemma from_status_Some:
  assumes "from_status st = Some e" "st \<le> 31"
  shows "status e = st"
proof -
  have "list_all (\<lambda>st. case from_status st of None \<Rightarrow> True | Some e \<Rightarrow> status e = st) [0..<32]"
    by code_simp
  then have "\<forall>st\<in>set [0..<32]. case from_status st of None \<Rightarrow> True | Some e \<Rightarrow> status e = st"
    by (simp only: list_all_iff)
  moreover have "st \<in> set [0..<32]" using assms(2) by simp
  ultimately have "case from_status st of None \<Rightarrow> True | Some e \<Rightarrow> status e = st" by (rule bspec)
  then show ?thesis by (simp add: assms(1))
qed

lemma from_status_None [simp]: "from_status st = None \<longleftrightarrow> st = OK"
  by (cases "st = OK") (simp_all add: from_status_def)

lemma status_round:
  assumes "st \<le> 31"
  shows "port_status (port_from_status st) = st"
  using assms by (auto simp: port_from_status_def dest: from_status_Some split: option.splits)

lemma port_from_status_OK [simp]: "port_from_status OK = Inr ()"
  by (simp add: port_from_status_def from_status_def)

lemma port_from_status_Inr [simp]: "port_from_status st = Inr u \<longleftrightarrow> st = OK"
  by (cases "from_status st") (auto simp: port_from_status_def simp flip: from_status_None)

lemma port_from_status_Inl: "port_from_status st = Inl e \<Longrightarrow> st \<le> 31 \<Longrightarrow> status e = st"
  by (auto simp: port_from_status_def from_status_Some split: option.splits)

text \<open>An output of a failed callback goes nowhere: the reply does not depend on it.\<close>

lemma failed_output_hidden:
  assumes "st \<noteq> OK"
  shows "out_reply (st, v, s) = out_reply (st, w, s)" "fill_reply (st, v, b, s) = fill_reply (st, w, b, s)"
  using assms by (cases "port_from_status st"; simp add: out_reply_def fill_reply_def)+

lemma host_op_simps [simp]:
  "host_op None name k = None"
  "host_op (Some t) name k = map_option k (name t)"
  by (simp_all add: host_op_def)

lemma host_call_simps [simp]:
  "host_call missing None s = (Inl missing, s)"
  "host_out missing None v s = (Inl missing, s)"
  "host_fill missing None w b s = (Inl missing, b, s)"
  "host_text missing None w b s = (Inl missing, b, s)"
  "host_call missing (Some f) s = call_reply (f s)"
  "host_out missing (Some g) v s = out_reply (g v s)"
  "host_fill missing (Some h) w b s = fill_reply (h b w s)"
  "host_text missing (Some h) w b s = text_reply (h b w s)"
  by (simp_all add: host_call_def host_out_def host_fill_def host_text_def)

end
