(* ===== verification/Host_Groups.thy ===== *)
theory Host_Groups
  imports Host_Table
begin

text \<open>
  The providers of \<open>crates/dotnet-pal-host/src/lib.rs\<close> for memory, clock, kernel objects, runtime,
  support, topology, process, image, streams and terminal: per group the host's callbacks as a
  record, the check of a table (\<open>validate\<close>) and the provider made of the cached table. A slice is
  passed as the byte list behind its pointer and length, a \<open>bool\<close> as 0 or 1.
\<close>

section \<open>Virtual memory\<close>

record 's vm_ops =
  vx_page_size :: "nat option"
  vx_reserve :: "(nat \<Rightarrow> nat \<Rightarrow> flags \<Rightarrow> nat \<Rightarrow> 's \<Rightarrow> nat \<times> nat \<times> 's) option"
  vx_commit :: "(nat \<Rightarrow> nat \<Rightarrow> 's \<Rightarrow> nat \<times> 's) option"
  vx_decommit :: "(nat \<Rightarrow> nat \<Rightarrow> 's \<Rightarrow> nat \<times> 's) option"
  vx_release :: "(nat \<Rightarrow> nat \<Rightarrow> 's \<Rightarrow> nat \<times> 's) option"
  vx_reset :: "(nat \<Rightarrow> nat \<Rightarrow> 's \<Rightarrow> nat \<times> 's) option"

definition validate_vm :: "'s vm_ops raw_table \<Rightarrow> 's vm_ops cached \<Rightarrow> bool \<times> 's vm_ops cached" where
  "validate_vm = host_validate 6 CAP_VM (\<lambda>t.
     \<not> (vx_page_size t = None \<or> vx_reserve t = None \<or> vx_commit t = None
        \<or> vx_decommit t = None \<or> vx_release t = None \<or> vx_reset t = None))"

definition host_page_size :: "'s vm_ops cached \<Rightarrow> nat" where
  "host_page_size vm = (case Option.bind vm vx_page_size of Some n \<Rightarrow> n | None \<Rightarrow> 0)"

definition host_vm :: "'s vm_ops cached \<Rightarrow> 's vm_provider" where
  "host_vm vm =
    \<lparr>vm_page_size = host_page_size vm,
     vm_reserve_fn = (\<lambda>sz align. host_out Unsupported (host_op vm vx_reserve (\<lambda>f. f sz align 0)) 0),
     vm_commit_fn = (\<lambda>a sz. host_call Unsupported (host_op vm vx_commit (\<lambda>f. f a sz))),
     vm_decommit_fn = (\<lambda>a sz. host_call Unsupported (host_op vm vx_decommit (\<lambda>f. f a sz))),
     vm_release_fn = (\<lambda>a sz. host_call Unsupported (host_op vm vx_release (\<lambda>f. f a sz))),
     vm_reset_fn = (\<lambda>a sz. host_call Unsupported (host_op vm vx_reset (\<lambda>f. f a sz)))\<rparr>"

section \<open>Clock and scheduler\<close>

record 's services_ops =
  sx_clock :: "(nat \<Rightarrow> 's \<Rightarrow> nat \<times> nat \<times> 's) option"
  sx_sleep :: "(nat \<Rightarrow> 's \<Rightarrow> nat \<times> 's) option"
  sx_yield_now :: "('s \<Rightarrow> nat \<times> 's) option"

definition validate_services :: "'s services_ops raw_table \<Rightarrow> 's services_ops cached \<Rightarrow> bool \<times> 's services_ops cached" where
  "validate_services = host_validate 3 (CAP_CLOCK OR CAP_SCHEDULER) (\<lambda>t.
     \<not> (sx_clock t = None \<or> sx_sleep t = None \<or> sx_yield_now t = None))"

definition host_services :: "'s services_ops cached \<Rightarrow> 's services_provider" where
  "host_services t =
    \<lparr>sv_monotonic_ns = host_out Os (host_op t sx_clock id) 0,
     sv_sleep_ns = (\<lambda>ns. host_call Os (host_op t sx_sleep (\<lambda>f. f ns))),
     sv_yield_now = host_call Os (host_op t sx_yield_now id)\<rparr>"

section \<open>Kernel objects\<close>

record 's kernel_ops =
  kx_event_create :: "(nat \<Rightarrow> nat \<Rightarrow> nat \<Rightarrow> 's \<Rightarrow> nat \<times> nat \<times> 's) option"
  kx_event_destroy :: "(nat \<Rightarrow> 's \<Rightarrow> nat \<times> 's) option"
  kx_event_set :: "(nat \<Rightarrow> 's \<Rightarrow> nat \<times> 's) option"
  kx_event_reset :: "(nat \<Rightarrow> 's \<Rightarrow> nat \<times> 's) option"
  kx_event_wait :: "(nat \<Rightarrow> nat \<Rightarrow> 's \<Rightarrow> nat \<times> 's) option"
  kx_mutex_create :: "(nat \<Rightarrow> nat \<Rightarrow> 's \<Rightarrow> nat \<times> nat \<times> 's) option"
  kx_mutex_destroy :: "(nat \<Rightarrow> 's \<Rightarrow> nat \<times> 's) option"
  kx_mutex_lock :: "(nat \<Rightarrow> 's \<Rightarrow> nat \<times> 's) option"
  kx_mutex_unlock :: "(nat \<Rightarrow> 's \<Rightarrow> nat \<times> 's) option"
  kx_thread_create :: "(nat \<Rightarrow> nat \<Rightarrow> nat \<Rightarrow> nat \<Rightarrow> 's \<Rightarrow> nat \<times> nat \<times> 's) option"
  kx_thread_join :: "(nat \<Rightarrow> 's \<Rightarrow> nat \<times> 's) option"
  kx_thread_detach :: "(nat \<Rightarrow> 's \<Rightarrow> nat \<times> 's) option"
  kx_tls_create :: "(nat option \<Rightarrow> nat \<Rightarrow> 's \<Rightarrow> nat \<times> nat \<times> 's) option"
  kx_tls_destroy :: "(nat \<Rightarrow> 's \<Rightarrow> nat \<times> 's) option"
  kx_tls_get :: "(nat \<Rightarrow> nat \<Rightarrow> 's \<Rightarrow> nat \<times> nat \<times> 's) option"
  kx_tls_set :: "(nat \<Rightarrow> nat \<Rightarrow> 's \<Rightarrow> nat \<times> 's) option"
  kx_stack_bounds :: "(nat \<times> nat \<Rightarrow> 's \<Rightarrow> nat \<times> (nat \<times> nat) \<times> 's) option"
  kx_process_barrier :: "('s \<Rightarrow> nat \<times> 's) option"

abbreviation KERNEL_ALL :: caps where
  "KERNEL_ALL \<equiv> CAP_EVENTS OR CAP_MUTEX OR CAP_THREADS OR CAP_TLS OR CAP_STACK OR CAP_BARRIER"

definition validate_kernel :: "'s kernel_ops raw_table \<Rightarrow> 's kernel_ops cached \<Rightarrow> bool \<times> 's kernel_ops cached" where
  "validate_kernel = host_validate 19 KERNEL_ALL (\<lambda>t.
     \<not> (kx_event_create t = None \<or> kx_event_destroy t = None \<or> kx_event_set t = None \<or> kx_event_reset t = None
        \<or> kx_event_wait t = None \<or> kx_mutex_create t = None \<or> kx_mutex_destroy t = None \<or> kx_mutex_lock t = None
        \<or> kx_mutex_unlock t = None \<or> kx_thread_create t = None \<or> kx_thread_join t = None \<or> kx_thread_detach t = None
        \<or> kx_tls_create t = None \<or> kx_tls_destroy t = None \<or> kx_tls_get t = None \<or> kx_tls_set t = None
        \<or> kx_stack_bounds t = None \<or> kx_process_barrier t = None))"

definition host_kernel :: "'s kernel_ops cached \<Rightarrow> 's kernel_provider" where
  "host_kernel t =
    \<lparr>kp_event_create = (\<lambda>manual initial. host_out Unsupported (host_op t kx_event_create (\<lambda>f. f (of_bool manual) (of_bool initial))) 0),
     kp_event_destroy = (\<lambda>h. host_call Unsupported (host_op t kx_event_destroy (\<lambda>f. f h))),
     kp_event_set = (\<lambda>h. host_call Unsupported (host_op t kx_event_set (\<lambda>f. f h))),
     kp_event_reset = (\<lambda>h. host_call Unsupported (host_op t kx_event_reset (\<lambda>f. f h))),
     kp_event_wait = (\<lambda>h ns. host_call Unsupported (host_op t kx_event_wait (\<lambda>f. f h ns))),
     kp_mutex_create = (\<lambda>recursive. host_out Unsupported (host_op t kx_mutex_create (\<lambda>f. f (of_bool recursive))) 0),
     kp_mutex_destroy = (\<lambda>h. host_call Unsupported (host_op t kx_mutex_destroy (\<lambda>f. f h))),
     kp_mutex_lock = (\<lambda>h. host_call Unsupported (host_op t kx_mutex_lock (\<lambda>f. f h))),
     kp_mutex_unlock = (\<lambda>h. host_call Unsupported (host_op t kx_mutex_unlock (\<lambda>f. f h))),
     kp_thread_create = (\<lambda>entry arg stack. host_out Unsupported (host_op t kx_thread_create (\<lambda>f. f entry arg stack)) 0),
     kp_thread_join = (\<lambda>h. host_call Unsupported (host_op t kx_thread_join (\<lambda>f. f h))),
     kp_thread_detach = (\<lambda>h. host_call Unsupported (host_op t kx_thread_detach (\<lambda>f. f h))),
     kp_tls_create = (\<lambda>dtor. host_out Unsupported (host_op t kx_tls_create (\<lambda>f. f dtor)) 0),
     kp_tls_destroy = (\<lambda>h. host_call Unsupported (host_op t kx_tls_destroy (\<lambda>f. f h))),
     kp_tls_get = (\<lambda>h. host_out Unsupported (host_op t kx_tls_get (\<lambda>f. f h)) 0),
     kp_tls_set = (\<lambda>h v. host_call Unsupported (host_op t kx_tls_set (\<lambda>f. f h v))),
     kp_stack_current = host_out Unsupported (host_op t kx_stack_bounds id) (0, 0),
     kp_barrier = host_call Unsupported (host_op t kx_process_barrier id)\<rparr>"

section \<open>Runtime\<close>

record 's runtime_ops =
  rx_environment_get :: "(byte list \<Rightarrow> byte list \<Rightarrow> nat \<Rightarrow> 's \<Rightarrow> nat \<times> nat \<times> byte list \<times> 's) option"
  rx_process_id :: "(nat \<Rightarrow> 's \<Rightarrow> nat \<times> nat \<times> 's) option"
  rx_thread_id :: "(nat \<Rightarrow> 's \<Rightarrow> nat \<times> nat \<times> 's) option"
  rx_realtime_ns :: "(nat \<Rightarrow> 's \<Rightarrow> nat \<times> nat \<times> 's) option"
  rx_random_bytes :: "(byte list \<Rightarrow> 's \<Rightarrow> nat \<times> byte list \<times> 's) option"
  rx_mapping_allocate :: "(nat \<Rightarrow> flags \<Rightarrow> nat \<Rightarrow> 's \<Rightarrow> nat \<times> nat \<times> 's) option"
  rx_mapping_release :: "(nat \<Rightarrow> nat \<Rightarrow> 's \<Rightarrow> nat \<times> 's) option"
  rx_mapping_protect :: "(nat \<Rightarrow> nat \<Rightarrow> flags \<Rightarrow> 's \<Rightarrow> nat \<times> 's) option"
  rx_module_open :: "(byte list option \<Rightarrow> nat \<Rightarrow> 's \<Rightarrow> nat \<times> nat \<times> 's) option"
  rx_module_symbol :: "(nat \<Rightarrow> byte list \<Rightarrow> nat \<Rightarrow> 's \<Rightarrow> nat \<times> nat \<times> 's) option"
  rx_module_close :: "(nat \<Rightarrow> 's \<Rightarrow> nat \<times> 's) option"
  rx_module_info :: "(nat \<Rightarrow> module_info \<Rightarrow> 's \<Rightarrow> nat \<times> module_info \<times> 's) option"

abbreviation RUNTIME_ALL :: caps where
  "RUNTIME_ALL \<equiv> CAP_ENVIRONMENT OR CAP_IDENTITY OR CAP_REALTIME OR CAP_ENTROPY OR CAP_NATIVE_MEMORY OR CAP_MODULES"

definition validate_runtime :: "'s runtime_ops raw_table \<Rightarrow> 's runtime_ops cached \<Rightarrow> bool \<times> 's runtime_ops cached" where
  "validate_runtime = host_validate 13 RUNTIME_ALL (\<lambda>t.
     \<not> (rx_environment_get t = None \<or> rx_process_id t = None \<or> rx_thread_id t = None
        \<or> rx_realtime_ns t = None \<or> rx_random_bytes t = None \<or> rx_mapping_allocate t = None
        \<or> rx_mapping_release t = None \<or> rx_mapping_protect t = None \<or> rx_module_open t = None
        \<or> rx_module_symbol t = None \<or> rx_module_close t = None \<or> rx_module_info t = None))"

text \<open>The entropy call has a buffer and no other output.\<close>

definition buffer_reply :: "nat \<times> 'b \<times> 's \<Rightarrow> unit result \<times> 'b \<times> 's" where
  "buffer_reply = (\<lambda>(st, b, s). (port_from_status st, b, s))"

definition host_buffer ::
  "error \<Rightarrow> ('b \<Rightarrow> 's \<Rightarrow> nat \<times> 'b \<times> 's) option \<Rightarrow> 'b \<Rightarrow> 's \<Rightarrow> unit result \<times> 'b \<times> 's" where
  "host_buffer missing f b s = (case f of None \<Rightarrow> (Inl missing, b, s) | Some f \<Rightarrow> buffer_reply (f b s))"

definition environment_reply :: "nat \<times> nat \<times> byte list \<times> 's \<Rightarrow> lookup result \<times> byte list \<times> 's" where
  "environment_reply = (\<lambda>(st, needed, b, s).
     (case port_from_status st of
        Inr _ \<Rightarrow> Inr (Copied needed)
      | Inl e \<Rightarrow> if e = BufferTooSmall then Inr (TooSmall needed) else Inl e, b, s))"

definition host_environment_get ::
  "'s runtime_ops cached \<Rightarrow> byte list \<Rightarrow> byte list \<Rightarrow> 's \<Rightarrow> lookup result \<times> byte list \<times> 's" where
  "host_environment_get t nm b s =
     (case Option.bind t rx_environment_get of
        None \<Rightarrow> (Inl Unsupported, b, s)
      | Some f \<Rightarrow> environment_reply (f nm b 0 s))"

definition host_runtime :: "'s vm_ops cached \<Rightarrow> 's runtime_ops cached \<Rightarrow> 's runtime_provider" where
  "host_runtime vm t =
    \<lparr>rp_environment_get = host_environment_get t,
     rp_process_id = host_out Unsupported (host_op t rx_process_id id) 0,
     rp_thread_id = host_out Unsupported (host_op t rx_thread_id id) 0,
     rp_realtime_ns = host_out Unsupported (host_op t rx_realtime_ns id) 0,
     rp_fill = host_buffer Unsupported (host_op t rx_random_bytes id),
     rp_page_size = host_page_size vm,
     rp_map_allocate = (\<lambda>sz protection. host_out Unsupported (host_op t rx_mapping_allocate (\<lambda>f. f sz protection)) 0),
     rp_map_release = (\<lambda>a sz. host_call Unsupported (host_op t rx_mapping_release (\<lambda>f. f a sz))),
     rp_map_protect = (\<lambda>a sz protection. host_call Unsupported (host_op t rx_mapping_protect (\<lambda>f. f a sz protection))),
     rp_module_open = (\<lambda>nm. host_out Unsupported (host_op t rx_module_open (\<lambda>f. f nm)) 0),
     rp_module_symbol = (\<lambda>m nm. host_out Unsupported (host_op t rx_module_symbol (\<lambda>f. f m nm)) 0),
     rp_module_close = (\<lambda>m. host_call Unsupported (host_op t rx_module_close (\<lambda>f. f m))),
     rp_module_info = (\<lambda>a. host_out Unsupported (host_op t rx_module_info (\<lambda>f. f a)) EMPTY_MODULE)\<rparr>"

end
