(* ===== verification/Host_System.thy ===== *)
theory Host_System
  imports Host_Groups
begin

text \<open>
  The providers of \<open>crates/dotnet-pal-host/src/lib.rs\<close> for support, signal context, topology,
  process, image, streams, terminal, system information, faults and notifications.
\<close>

section \<open>Support\<close>

record 's support_ops =
  hx_allocate :: "(nat \<Rightarrow> nat \<Rightarrow> nat \<Rightarrow> 's \<Rightarrow> nat \<times> nat \<times> 's) option"
  hx_resize :: "(nat \<Rightarrow> nat \<Rightarrow> nat \<Rightarrow> 's \<Rightarrow> nat \<times> nat \<times> 's) option"
  hx_release :: "(nat \<Rightarrow> 's \<Rightarrow> nat \<times> 's) option"
  hx_rw_create :: "(nat \<Rightarrow> 's \<Rightarrow> nat \<times> nat \<times> 's) option"
  hx_rw_read :: "(nat \<Rightarrow> 's \<Rightarrow> nat \<times> 's) option"
  hx_rw_write :: "(nat \<Rightarrow> 's \<Rightarrow> nat \<times> 's) option"
  hx_rw_unlock :: "(nat \<Rightarrow> 's \<Rightarrow> nat \<times> 's) option"
  hx_rw_destroy :: "(nat \<Rightarrow> 's \<Rightarrow> nat \<times> 's) option"
  hx_write_stderr :: "(nat \<Rightarrow> byte list \<Rightarrow> nat \<Rightarrow> 's \<Rightarrow> nat \<times> nat \<times> 's) option"
  hx_thread_name :: "(byte list \<Rightarrow> 's \<Rightarrow> nat \<times> 's) option"

abbreviation SUPPORT_ALL :: caps where
  "SUPPORT_ALL \<equiv> CAP_HEAP OR CAP_RWLOCK OR CAP_NAME OR CAP_DIAGNOSTICS"

definition validate_support :: "'s support_ops raw_table \<Rightarrow> 's support_ops cached \<Rightarrow> bool \<times> 's support_ops cached" where
  "validate_support = host_validate 11 SUPPORT_ALL (\<lambda>t.
     \<not> (hx_allocate t = None \<or> hx_resize t = None \<or> hx_release t = None \<or> hx_rw_create t = None
        \<or> hx_rw_read t = None \<or> hx_rw_write t = None \<or> hx_rw_unlock t = None \<or> hx_rw_destroy t = None
        \<or> hx_write_stderr t = None \<or> hx_thread_name t = None))"

text \<open>A success that reports fewer bytes than it was given is a broken host: the progress is unknowable.\<close>

definition stderr_reply :: "nat \<Rightarrow> nat \<times> nat \<times> 's \<Rightarrow> (nat \<times> error + unit) \<times> 's" where
  "stderr_reply sz = (\<lambda>(st, done, s).
     (case port_from_status st of
        Inr _ \<Rightarrow> if done = sz then Inr () else Inl (0, Os)
      | Inl e \<Rightarrow> Inl (min done sz, e), s))"

definition host_write_stderr ::
  "'s support_ops cached \<Rightarrow> nat \<Rightarrow> byte list \<Rightarrow> 's \<Rightarrow> (nat \<times> error + unit) \<times> 's" where
  "host_write_stderr t data bytes s =
     (case Option.bind t hx_write_stderr of
        None \<Rightarrow> (Inl (0, Unsupported), s)
      | Some f \<Rightarrow> stderr_reply (length bytes) (f data bytes 0 s))"

definition host_support :: "'s support_ops cached \<Rightarrow> 's support_provider" where
  "host_support t =
    \<lparr>hp_allocate = (\<lambda>sz zero. host_out Unsupported (host_op t hx_allocate (\<lambda>f. f sz (of_bool zero))) 0),
     hp_resize = (\<lambda>a sz. host_out Unsupported (host_op t hx_resize (\<lambda>f. f a sz)) 0),
     hp_release = (\<lambda>a. host_call Unsupported (host_op t hx_release (\<lambda>f. f a))),
     hp_rw_create = host_out Unsupported (host_op t hx_rw_create id) 0,
     hp_rw_read = (\<lambda>h. host_call Unsupported (host_op t hx_rw_read (\<lambda>f. f h))),
     hp_rw_write = (\<lambda>h. host_call Unsupported (host_op t hx_rw_write (\<lambda>f. f h))),
     hp_rw_unlock = (\<lambda>h. host_call Unsupported (host_op t hx_rw_unlock (\<lambda>f. f h))),
     hp_rw_destroy = (\<lambda>h. host_call Unsupported (host_op t hx_rw_destroy (\<lambda>f. f h))),
     hp_write_stderr = host_write_stderr t,
     hp_thread_name = (\<lambda>nm. host_call Unsupported (host_op t hx_thread_name (\<lambda>f. f nm)))\<rparr>"

section \<open>Signal context\<close>

text \<open>The group's provider is a table already, so the cached table is passed on as it is.\<close>

definition validate_context :: "'s context_table raw_table \<Rightarrow> 's context_table cached \<Rightarrow> bool \<times> 's context_table cached" where
  "validate_context = host_validate 12 CAP_CONTEXT (\<lambda>t.
     \<not> (ct_abi_tag t = None \<or> ct_action_size t = None \<or> ct_action_alignment t = None \<or> ct_install t = None
        \<or> ct_restore t = None \<or> ct_unblock_activation t = None \<or> ct_request_activation t = None
        \<or> ct_current_thread t = None \<or> ct_process_id_async t = None \<or> ct_ignore_broken_pipe t = None
        \<or> ct_signal_number t = None))"

definition host_context :: "'s context_table cached \<Rightarrow> 's context_table option" where
  "host_context t = t"

section \<open>Topology\<close>

record 's topology_ops =
  tx_cpu_max :: "(nat \<Rightarrow> 's \<Rightarrow> nat \<times> nat \<times> 's) option"
  tx_cpu_count :: "(nat \<Rightarrow> 's \<Rightarrow> nat \<times> nat \<times> 's) option"
  tx_current_cpu :: "(nat \<Rightarrow> 's \<Rightarrow> nat \<times> nat \<times> 's) option"
  tx_process_affinity :: "(byte list \<Rightarrow> nat \<Rightarrow> 's \<Rightarrow> nat \<times> nat \<times> byte list \<times> 's) option"
  tx_set_thread_affinity :: "(nat \<Rightarrow> 's \<Rightarrow> nat \<times> 's) option"
  tx_physical_memory :: "(nat \<times> nat \<Rightarrow> 's \<Rightarrow> nat \<times> (nat \<times> nat) \<times> 's) option"
  tx_memory_limit :: "(nat \<Rightarrow> 's \<Rightarrow> nat \<times> nat \<times> 's) option"
  tx_virtual_limit :: "(nat \<Rightarrow> 's \<Rightarrow> nat \<times> nat \<times> 's) option"
  tx_cache_size :: "(nat \<Rightarrow> 's \<Rightarrow> nat \<times> nat \<times> 's) option"
  tx_cpu_features :: "(nat \<times> nat \<Rightarrow> 's \<Rightarrow> nat \<times> (nat \<times> nat) \<times> 's) option"
  tx_cache_level_size :: "(nat \<Rightarrow> nat \<Rightarrow> 's \<Rightarrow> nat \<times> nat \<times> 's) option"
  tx_swap_memory :: "(nat \<times> nat \<Rightarrow> 's \<Rightarrow> nat \<times> (nat \<times> nat) \<times> 's) option"

text \<open>The last two callbacks are not required: they came after the group's first shape.\<close>

definition validate_topology :: "'s topology_ops raw_table \<Rightarrow> 's topology_ops cached \<Rightarrow> bool \<times> 's topology_ops cached" where
  "validate_topology = host_validate 13 CAP_TOPOLOGY (\<lambda>t.
     \<not> (tx_cpu_max t = None \<or> tx_cpu_count t = None \<or> tx_current_cpu t = None \<or> tx_process_affinity t = None
        \<or> tx_set_thread_affinity t = None \<or> tx_physical_memory t = None \<or> tx_memory_limit t = None
        \<or> tx_virtual_limit t = None \<or> tx_cache_size t = None \<or> tx_cpu_features t = None))"

definition host_topology :: "'s topology_ops cached \<Rightarrow> 's topology_provider" where
  "host_topology t =
    \<lparr>tp_cpu_max = host_out Unsupported (host_op t tx_cpu_max id) 0,
     tp_cpu_count = host_out Unsupported (host_op t tx_cpu_count id) 0,
     tp_current_cpu = host_out Unsupported (host_op t tx_current_cpu id) 0,
     tp_process_affinity = host_text Unsupported (host_op t tx_process_affinity id) 0,
     tp_set_thread_affinity = (\<lambda>cpu. host_call Unsupported (host_op t tx_set_thread_affinity (\<lambda>f. f cpu))),
     tp_physical_memory = host_out Unsupported (host_op t tx_physical_memory id) (0, 0),
     tp_memory_limit = host_out Unsupported (host_op t tx_memory_limit id) 0,
     tp_virtual_limit = host_out Unsupported (host_op t tx_virtual_limit id) 0,
     tp_cache_size = host_out Unsupported (host_op t tx_cache_size id) 0,
     tp_cpu_features = host_out Unsupported (host_op t tx_cpu_features id) (0, 0),
     tp_cache_level_size = (\<lambda>level. host_out Unsupported (host_op t tx_cache_level_size (\<lambda>f. f level)) 0),
     tp_swap_memory = host_out Unsupported (host_op t tx_swap_memory id) (0, 0)\<rparr>"

section \<open>Process\<close>

record 's process_ops =
  px_exit :: "(int \<Rightarrow> 's \<Rightarrow> 's) option"
  px_debugger_present :: "(nat \<Rightarrow> 's \<Rightarrow> nat \<times> nat \<times> 's) option"
  px_crash_dump :: "(nat list \<Rightarrow> byte list \<Rightarrow> 's \<Rightarrow> nat \<times> byte list \<times> 's) option"

text \<open>A host may have no crash dumps, but never no exit.\<close>

definition validate_process :: "'s process_ops raw_table \<Rightarrow> 's process_ops cached \<Rightarrow> bool \<times> 's process_ops cached" where
  "validate_process = host_validate 4 CAP_PROCESS (\<lambda>t. \<not> (px_exit t = None \<or> px_debugger_present t = None))"

text \<open>
  \<open>exit\<close> does not return: what it leaves is the host's state in which \<open>dotnet_pal_host_abort\<close> is
  called, after the host's own \<open>exit\<close> if there is one and it came back.
\<close>

definition host_exit :: "'s process_ops cached \<Rightarrow> int \<Rightarrow> 's \<Rightarrow> 's" where
  "host_exit t code s = (case Option.bind t px_exit of Some f \<Rightarrow> f code s | None \<Rightarrow> s)"

text \<open>A truth value comes back as a number: \<open>Ok(value != 0)\<close>.\<close>

definition truth :: "nat result \<times> 's \<Rightarrow> bool result \<times> 's" where
  "truth = map_prod (map_sum id (\<lambda>v. v \<noteq> 0)) id"

definition host_process :: "'s process_ops cached \<Rightarrow> 's process_provider" where
  "host_process t =
    \<lparr>pp_debugger_present = (\<lambda>s. truth (host_out Unsupported (host_op t px_debugger_present id) 0 s)),
     pp_crash_dump = (\<lambda>argv. host_buffer Unsupported (host_op t px_crash_dump (\<lambda>f. f argv)))\<rparr>"

section \<open>Image\<close>

record 's image_ops =
  ix_unwind_info :: "(nat \<Rightarrow> unwind_info \<Rightarrow> 's \<Rightarrow> nat \<times> unwind_info \<times> 's) option"
  ix_readable :: "(nat \<Rightarrow> nat \<Rightarrow> 's \<Rightarrow> nat \<times> 's) option"
  ix_build_id :: "(nat \<Rightarrow> byte list \<Rightarrow> nat \<Rightarrow> 's \<Rightarrow> nat \<times> nat \<times> byte list \<times> 's) option"

definition validate_image :: "'s image_ops raw_table \<Rightarrow> 's image_ops cached \<Rightarrow> bool \<times> 's image_ops cached" where
  "validate_image = host_validate 4 CAP_IMAGE (\<lambda>t.
     \<not> (ix_unwind_info t = None \<or> ix_readable t = None \<or> ix_build_id t = None))"

definition host_readable :: "'s image_ops cached \<Rightarrow> nat \<Rightarrow> nat \<Rightarrow> 's \<Rightarrow> bool result \<times> 's" where
  "host_readable t a sz s =
     (case Option.bind t ix_readable of
        None \<Rightarrow> (Inl Unsupported, s)
      | Some f \<Rightarrow> let (st, s') = f a sz s in (readable_from_status st, s'))"

definition host_image :: "'s image_ops cached \<Rightarrow> 's image_provider" where
  "host_image t =
    \<lparr>ip_unwind_info = (\<lambda>a. host_out Unsupported (host_op t ix_unwind_info (\<lambda>f. f a)) DEFAULT_UNWIND),
     ip_readable = host_readable t,
     ip_build_id = (\<lambda>base. host_text Unsupported (host_op t ix_build_id (\<lambda>f. f base)) 0)\<rparr>"

section \<open>Streams and terminal\<close>

record 's streams_ops =
  mx_write :: "(nat \<Rightarrow> byte list \<Rightarrow> nat \<Rightarrow> 's \<Rightarrow> nat \<times> nat \<times> 's) option"
  mx_read :: "(nat \<Rightarrow> byte list \<Rightarrow> nat \<Rightarrow> 's \<Rightarrow> nat \<times> nat \<times> byte list \<times> 's) option"
  mx_is_terminal :: "(nat \<Rightarrow> nat \<Rightarrow> 's \<Rightarrow> nat \<times> nat \<times> 's) option"

definition validate_streams :: "'s streams_ops raw_table \<Rightarrow> 's streams_ops cached \<Rightarrow> bool \<times> 's streams_ops cached" where
  "validate_streams = host_validate 4 CAP_STREAMS (\<lambda>t.
     \<not> (mx_write t = None \<or> mx_read t = None \<or> mx_is_terminal t = None))"

definition host_streams :: "'s streams_ops cached \<Rightarrow> 's streams_provider" where
  "host_streams t =
    \<lparr>sp_write = (\<lambda>stream bytes. host_out Unsupported (host_op t mx_write (\<lambda>f. f stream bytes)) 0),
     sp_read = (\<lambda>stream. host_fill Unsupported (host_op t mx_read (\<lambda>f. f stream)) 0),
     sp_is_terminal = (\<lambda>stream s. truth (host_out Unsupported (host_op t mx_is_terminal (\<lambda>f. f stream)) 0 s))\<rparr>"

record 's terminal_ops =
  lx_window_size :: "(nat \<Rightarrow> nat \<times> nat \<Rightarrow> 's \<Rightarrow> nat \<times> (nat \<times> nat) \<times> 's) option"
  lx_set_input_mode :: "(nat \<Rightarrow> nat \<Rightarrow> nat \<Rightarrow> nat \<Rightarrow> 's \<Rightarrow> nat \<times> 's) option"
  lx_input_ready :: "(nat \<Rightarrow> 's \<Rightarrow> nat \<times> nat \<times> 's) option"
  lx_control_character :: "(nat \<Rightarrow> nat \<Rightarrow> 's \<Rightarrow> nat \<times> nat \<times> 's) option"

definition validate_terminal :: "'s terminal_ops raw_table \<Rightarrow> 's terminal_ops cached \<Rightarrow> bool \<times> 's terminal_ops cached" where
  "validate_terminal = host_validate 5 CAP_TERMINAL (\<lambda>t.
     \<not> (lx_window_size t = None \<or> lx_set_input_mode t = None \<or> lx_input_ready t = None \<or> lx_control_character t = None))"

text \<open>\<open>u8::try_from(value).map_err(|_| Error::Os)\<close>\<close>

definition byte_value :: "nat result \<times> 's \<Rightarrow> byte result \<times> 's" where
  "byte_value = (\<lambda>(r, s). (r_bind r (\<lambda>v. if v < 256 then Inr (of_nat v) else Inl Os), s))"

definition host_terminal :: "'s terminal_ops cached \<Rightarrow> 's terminal_provider" where
  "host_terminal t =
    \<lparr>mp_window_size = (\<lambda>stream. host_out Unsupported (host_op t lx_window_size (\<lambda>f. f stream)) (0, 0)),
     mp_set_input_mode = (\<lambda>raw min_bytes timeout_ds interrupt. host_call Unsupported
       (host_op t lx_set_input_mode (\<lambda>f. f (of_bool raw) (unat min_bytes) (unat timeout_ds) (of_bool interrupt)))),
     mp_input_ready = (\<lambda>s. truth (host_out Unsupported (host_op t lx_input_ready id) 0 s)),
     mp_control_character = (\<lambda>which s. byte_value (host_out Unsupported (host_op t lx_control_character (\<lambda>f. f which)) 0 s))\<rparr>"

section \<open>System information\<close>

record 's system_ops =
  yx_environment_entry :: "(nat \<Rightarrow> byte list \<Rightarrow> nat \<Rightarrow> 's \<Rightarrow> nat \<times> nat \<times> byte list \<times> 's) option"
  yx_text :: "(nat \<Rightarrow> byte list \<Rightarrow> nat \<Rightarrow> 's \<Rightarrow> nat \<times> nat \<times> byte list \<times> 's) option"
  yx_process_times :: "(nat \<times> nat \<Rightarrow> 's \<Rightarrow> nat \<times> (nat \<times> nat) \<times> 's) option"
  yx_uptime_ns :: "(nat \<Rightarrow> 's \<Rightarrow> nat \<times> nat \<times> 's) option"
  yx_user_ids :: "(nat \<times> nat \<Rightarrow> 's \<Rightarrow> nat \<times> (nat \<times> nat) \<times> 's) option"

text \<open>Every question is optional per call.\<close>

definition validate_system :: "'s system_ops raw_table \<Rightarrow> 's system_ops cached \<Rightarrow> bool \<times> 's system_ops cached" where
  "validate_system = host_validate 6 CAP_SYSTEM (\<lambda>_. True)"

definition host_system :: "'s system_ops cached \<Rightarrow> 's system_provider" where
  "host_system t =
    \<lparr>yp_environment_entry = (\<lambda>index. host_text Unsupported (host_op t yx_environment_entry (\<lambda>f. f index)) 0),
     yp_text = (\<lambda>what. host_text Unsupported (host_op t yx_text (\<lambda>f. f what)) 0),
     yp_process_times = host_out Unsupported (host_op t yx_process_times id) (0, 0),
     yp_uptime_ns = host_out Unsupported (host_op t yx_uptime_ns id) 0,
     yp_user_ids = host_out Unsupported (host_op t yx_user_ids id) (0, 0)\<rparr>"

section \<open>Faults and notifications\<close>

text \<open>
  The bridge hands the host one fixed function, \<open>deliver_raw\<close> of the group, so the callback has no
  argument here. A fault table must describe exactly the frame this build reads.
\<close>

record 's faults_ops =
  gx_frame_tag :: "nat option"
  gx_frame_size :: "nat option"
  gx_enable :: "('s \<Rightarrow> nat \<times> 's) option"

definition validate_faults :: "arch \<Rightarrow> 's faults_ops raw_table \<Rightarrow> 's faults_ops cached \<Rightarrow> bool \<times> 's faults_ops cached" where
  "validate_faults arch = host_validate 3 CAP_FAULTS (\<lambda>t.
     case (gx_frame_tag t, gx_frame_size t, gx_enable t) of
       (Some tag, Some sz, Some _) \<Rightarrow> \<not> (FRAME_TAG arch = 0 \<or> tag \<noteq> FRAME_TAG arch \<or> sz \<noteq> frame_size arch)
     | _ \<Rightarrow> False)"

definition host_faults_enable :: "'s faults_ops cached \<Rightarrow> 's \<Rightarrow> unit result \<times> 's" where
  "host_faults_enable t = host_call Unsupported (host_op t gx_enable id)"

record 's notifications_ops =
  nx_start :: "('s \<Rightarrow> nat \<times> 's) option"
  nx_enable :: "(nat \<Rightarrow> 's \<Rightarrow> nat \<times> 's) option"
  nx_disable :: "(nat \<Rightarrow> 's \<Rightarrow> nat \<times> 's) option"
  nx_default_action :: "(nat \<Rightarrow> 's \<Rightarrow> nat \<times> 's) option"

definition validate_notifications ::
  "'s notifications_ops raw_table \<Rightarrow> 's notifications_ops cached \<Rightarrow> bool \<times> 's notifications_ops cached" where
  "validate_notifications = host_validate 4 CAP_NOTIFICATIONS (\<lambda>t.
     \<not> (nx_start t = None \<or> nx_enable t = None \<or> nx_disable t = None \<or> nx_default_action t = None))"

definition host_notifications :: "'s notifications_ops cached \<Rightarrow> 's notifications_provider" where
  "host_notifications t =
    \<lparr>op_start = host_call Unsupported (host_op t nx_start id),
     op_enable = (\<lambda>kind. host_call Unsupported (host_op t nx_enable (\<lambda>f. f kind))),
     op_disable = (\<lambda>kind. host_call Unsupported (host_op t nx_disable (\<lambda>f. f kind))),
     op_default_action = (\<lambda>kind. host_call Unsupported (host_op t nx_default_action (\<lambda>f. f kind)))\<rparr>"

section \<open>A table built before its last two callbacks\<close>

text \<open>
  The comment on \<open>cache_level_size\<close> says that a host table built before the two late callbacks leaves
  them NULL. Such a table declares the size it had then, and the check of the size refuses it.
\<close>

lemma short_topology_refused:
  assumes "rt_struct_size raw = HEADER_SIZE + CALLBACK_SIZE * 11"
  shows "validate_topology raw cell = (False, cell)"
  using assms by (simp add: validate_topology_def host_validate_def host_table_def)

end
