(* ===== verification/Host_Files.thy ===== *)
theory Host_Files
  imports Host_System
begin

text \<open>
  The providers of \<open>crates/dotnet-pal-host/src/lib.rs\<close> for files, watches, mappings, volumes,
  accounts, priority, child processes and children under another identity. A call of the files and
  watches groups that never returns is \<open>None\<close>, as in the providers.
\<close>

section \<open>Files\<close>

record 's files_ops =
  fx_open :: "(byte list \<Rightarrow> flags \<Rightarrow> flags \<Rightarrow> nat \<Rightarrow> 's \<Rightarrow> (nat \<times> nat \<times> 's) option) option"
  fx_close :: "(nat \<Rightarrow> 's \<Rightarrow> (nat \<times> 's) option) option"
  fx_read_at :: "(nat \<Rightarrow> nat \<Rightarrow> byte list \<Rightarrow> nat \<Rightarrow> 's \<Rightarrow> (nat \<times> nat \<times> byte list \<times> 's) option) option"
  fx_write_at :: "(nat \<Rightarrow> nat \<Rightarrow> byte list \<Rightarrow> nat \<Rightarrow> 's \<Rightarrow> (nat \<times> nat \<times> 's) option) option"
  fx_set_size :: "(nat \<Rightarrow> nat \<Rightarrow> 's \<Rightarrow> (nat \<times> 's) option) option"
  fx_flush :: "(nat \<Rightarrow> 's \<Rightarrow> (nat \<times> 's) option) option"
  fx_status :: "(nat \<Rightarrow> file_status \<Rightarrow> 's \<Rightarrow> (nat \<times> file_status \<times> 's) option) option"
  fx_path_status :: "(byte list \<Rightarrow> nat \<Rightarrow> file_status \<Rightarrow> 's \<Rightarrow> (nat \<times> file_status \<times> 's) option) option"
  fx_remove :: "(byte list \<Rightarrow> 's \<Rightarrow> (nat \<times> 's) option) option"
  fx_rename :: "(byte list \<Rightarrow> byte list \<Rightarrow> 's \<Rightarrow> (nat \<times> 's) option) option"
  fx_directory_create :: "(byte list \<Rightarrow> flags \<Rightarrow> 's \<Rightarrow> (nat \<times> 's) option) option"
  fx_directory_remove :: "(byte list \<Rightarrow> 's \<Rightarrow> (nat \<times> 's) option) option"
  fx_directory_open :: "(byte list \<Rightarrow> nat \<Rightarrow> 's \<Rightarrow> (nat \<times> nat \<times> 's) option) option"
  fx_directory_read :: "(nat \<Rightarrow> byte list \<Rightarrow> nat \<times> nat \<Rightarrow> 's \<Rightarrow> (nat \<times> (nat \<times> nat) \<times> byte list \<times> 's) option) option"
  fx_directory_close :: "(nat \<Rightarrow> 's \<Rightarrow> (nat \<times> 's) option) option"
  fx_current_directory :: "(byte list \<Rightarrow> nat \<Rightarrow> 's \<Rightarrow> (nat \<times> nat \<times> byte list \<times> 's) option) option"
  fx_set_mode :: "(byte list \<Rightarrow> flags \<Rightarrow> 's \<Rightarrow> (nat \<times> 's) option) option"
  fx_set_file_mode :: "(nat \<Rightarrow> flags \<Rightarrow> 's \<Rightarrow> (nat \<times> 's) option) option"
  fx_set_times :: "(byte list \<Rightarrow> nat \<Rightarrow> nat \<Rightarrow> nat \<Rightarrow> 's \<Rightarrow> (nat \<times> 's) option) option"
  fx_set_file_times :: "(nat \<Rightarrow> nat \<Rightarrow> nat \<Rightarrow> 's \<Rightarrow> (nat \<times> 's) option) option"
  fx_link :: "(byte list \<Rightarrow> byte list \<Rightarrow> 's \<Rightarrow> (nat \<times> 's) option) option"
  fx_symlink :: "(byte list \<Rightarrow> byte list \<Rightarrow> 's \<Rightarrow> (nat \<times> 's) option) option"
  fx_read_link :: "(byte list \<Rightarrow> byte list \<Rightarrow> nat \<Rightarrow> 's \<Rightarrow> (nat \<times> nat \<times> byte list \<times> 's) option) option"
  fx_real_path :: "(byte list \<Rightarrow> byte list \<Rightarrow> nat \<Rightarrow> 's \<Rightarrow> (nat \<times> nat \<times> byte list \<times> 's) option) option"
  fx_set_current_directory :: "(byte list \<Rightarrow> 's \<Rightarrow> (nat \<times> 's) option) option"
  fx_lock :: "(nat \<Rightarrow> nat \<Rightarrow> nat \<Rightarrow> 's \<Rightarrow> (nat \<times> 's) option) option"
  fx_lock_range :: "(nat \<Rightarrow> nat \<Rightarrow> nat \<Rightarrow> nat \<Rightarrow> 's \<Rightarrow> (nat \<times> 's) option) option"

text \<open>The attributes, links, locks and the change of the working directory are optional.\<close>

definition validate_files :: "'s files_ops raw_table \<Rightarrow> 's files_ops cached \<Rightarrow> bool \<times> 's files_ops cached" where
  "validate_files = host_validate 28 CAP_FILES (\<lambda>t.
     \<not> (fx_open t = None \<or> fx_close t = None \<or> fx_read_at t = None \<or> fx_write_at t = None \<or> fx_set_size t = None
        \<or> fx_flush t = None \<or> fx_status t = None \<or> fx_path_status t = None \<or> fx_remove t = None \<or> fx_rename t = None
        \<or> fx_directory_create t = None \<or> fx_directory_remove t = None \<or> fx_directory_open t = None
        \<or> fx_directory_read t = None \<or> fx_directory_close t = None \<or> fx_current_directory t = None))"

text \<open>A call that may not return: the reply is converted when there is one.\<close>

definition host_async :: "'r \<Rightarrow> ('x \<Rightarrow> 'r) \<Rightarrow> ('s \<Rightarrow> 'x option) option \<Rightarrow> 's \<Rightarrow> 'r option" where
  "host_async missing reply f s = (case f of None \<Rightarrow> Some missing | Some f \<Rightarrow> map_option reply (f s))"

abbreviation files_call :: "('s \<Rightarrow> (nat \<times> 's) option) option \<Rightarrow> 's \<Rightarrow> (unit result \<times> 's) option" where
  "files_call f s \<equiv> host_async (Inl Unsupported, s) call_reply f s"

abbreviation files_out :: "('s \<Rightarrow> (nat \<times> 'v \<times> 's) option) option \<Rightarrow> 's \<Rightarrow> ('v result \<times> 's) option" where
  "files_out f s \<equiv> host_async (Inl Unsupported, s) out_reply f s"

abbreviation files_fill :: "('s \<Rightarrow> (nat \<times> 'v \<times> 'b \<times> 's) option) option \<Rightarrow> 'b \<Rightarrow> 's \<Rightarrow> ('v result \<times> 'b \<times> 's) option" where
  "files_fill f b s \<equiv> host_async (Inl Unsupported, b, s) fill_reply f s"

abbreviation files_texts :: "('s \<Rightarrow> (nat \<times> 'v \<times> 'b \<times> 's) option) option \<Rightarrow> 'b \<Rightarrow> 's \<Rightarrow> ('v result \<times> 'b \<times> 's) option" where
  "files_texts f b s \<equiv> host_async (Inl Unsupported, b, s) text_reply f s"

text \<open>\<open>accessed_ns.unwrap_or(TIME_KEEP)\<close>\<close>

definition keep_time :: "nat option \<Rightarrow> nat" where
  "keep_time t = (case t of None \<Rightarrow> TIME_KEEP | Some ns \<Rightarrow> ns)"

definition host_files :: "'s files_ops cached \<Rightarrow> 's files_provider" where
  "host_files t =
    \<lparr>fp_open = (\<lambda>path fl mode. files_out (host_op t fx_open (\<lambda>f. f path fl mode 0))),
     fp_close = (\<lambda>h. files_call (host_op t fx_close (\<lambda>f. f h))),
     fp_read_at = (\<lambda>h offset b. files_fill (host_op t fx_read_at (\<lambda>f. f h offset b 0)) b),
     fp_write_at = (\<lambda>h offset bytes. files_out (host_op t fx_write_at (\<lambda>f. f h offset bytes 0))),
     fp_set_size = (\<lambda>h sz. files_call (host_op t fx_set_size (\<lambda>f. f h sz))),
     fp_flush = (\<lambda>h. files_call (host_op t fx_flush (\<lambda>f. f h))),
     fp_status = (\<lambda>h. files_out (host_op t fx_status (\<lambda>f. f h DEFAULT_STATUS))),
     fp_path_status = (\<lambda>path follow. files_out (host_op t fx_path_status (\<lambda>f. f path (of_bool follow) DEFAULT_STATUS))),
     fp_remove = (\<lambda>path. files_call (host_op t fx_remove (\<lambda>f. f path))),
     fp_rename = (\<lambda>path to. files_call (host_op t fx_rename (\<lambda>f. f path to))),
     fp_create_directory = (\<lambda>path mode. files_call (host_op t fx_directory_create (\<lambda>f. f path mode))),
     fp_remove_directory = (\<lambda>path. files_call (host_op t fx_directory_remove (\<lambda>f. f path))),
     fp_open_directory = (\<lambda>path. files_out (host_op t fx_directory_open (\<lambda>f. f path 0))),
     fp_read_directory = (\<lambda>h b. files_fill (host_op t fx_directory_read (\<lambda>f. f h b (0, 0))) b),
     fp_close_directory = (\<lambda>h. files_call (host_op t fx_directory_close (\<lambda>f. f h))),
     fp_current_directory = (\<lambda>b. files_texts (host_op t fx_current_directory (\<lambda>f. f b 0)) b),
     fp_set_mode = (\<lambda>path mode. files_call (host_op t fx_set_mode (\<lambda>f. f path mode))),
     fp_set_file_mode = (\<lambda>h mode. files_call (host_op t fx_set_file_mode (\<lambda>f. f h mode))),
     fp_set_times = (\<lambda>path follow accessed modified.
       files_call (host_op t fx_set_times (\<lambda>f. f path (of_bool follow) (keep_time accessed) (keep_time modified)))),
     fp_set_file_times = (\<lambda>h accessed modified.
       files_call (host_op t fx_set_file_times (\<lambda>f. f h (keep_time accessed) (keep_time modified)))),
     fp_link = (\<lambda>existing created. files_call (host_op t fx_link (\<lambda>f. f existing created))),
     fp_symlink = (\<lambda>target created. files_call (host_op t fx_symlink (\<lambda>f. f target created))),
     fp_read_link = (\<lambda>path b. files_texts (host_op t fx_read_link (\<lambda>f. f path b 0)) b),
     fp_real_path = (\<lambda>path b. files_texts (host_op t fx_real_path (\<lambda>f. f path b 0)) b),
     fp_set_current_directory = (\<lambda>path. files_call (host_op t fx_set_current_directory (\<lambda>f. f path))),
     fp_lock = (\<lambda>h mode wait. files_call (host_op t fx_lock (\<lambda>f. f h mode (of_bool wait)))),
     fp_lock_range = (\<lambda>h offset len mode. files_call (host_op t fx_lock_range (\<lambda>f. f h offset len mode)))\<rparr>"

section \<open>Watches, mappings and volumes\<close>

record 's watches_ops =
  wx_open :: "(nat \<Rightarrow> 's \<Rightarrow> nat \<times> nat \<times> 's) option"
  wx_close :: "(nat \<Rightarrow> 's \<Rightarrow> nat \<times> 's) option"
  wx_add :: "(nat \<Rightarrow> byte list \<Rightarrow> flags \<Rightarrow> 32 word \<Rightarrow> 's \<Rightarrow> nat \<times> 32 word \<times> 's) option"
  wx_remove :: "(nat \<Rightarrow> 32 word \<Rightarrow> 's \<Rightarrow> nat \<times> 's) option"
  wx_read :: "(nat \<Rightarrow> nat \<Rightarrow> event \<Rightarrow> 's \<Rightarrow> (nat \<times> event \<times> 's) option) option"

definition validate_watches :: "'s watches_ops raw_table \<Rightarrow> 's watches_ops cached \<Rightarrow> bool \<times> 's watches_ops cached" where
  "validate_watches = host_validate 6 CAP_WATCHES (\<lambda>t.
     \<not> (wx_open t = None \<or> wx_close t = None \<or> wx_add t = None \<or> wx_remove t = None \<or> wx_read t = None))"

definition host_watches :: "'s watches_ops cached \<Rightarrow> 's watches_provider" where
  "host_watches t =
    \<lparr>wp_open = host_out Unsupported (host_op t wx_open id) 0,
     wp_close = (\<lambda>h. host_call Unsupported (host_op t wx_close (\<lambda>f. f h))),
     wp_add = (\<lambda>h path events. host_out Unsupported (host_op t wx_add (\<lambda>f. f h path events)) 0),
     wp_remove = (\<lambda>h watch. host_call Unsupported (host_op t wx_remove (\<lambda>f. f h watch))),
     wp_read = (\<lambda>h timeout event s.
       host_async (Inl Unsupported, event, s) buffer_reply (host_op t wx_read (\<lambda>f. f h timeout event)) s)\<rparr>"

record 's mappings_ops =
  dx_map :: "(nat \<Rightarrow> nat \<Rightarrow> nat \<Rightarrow> flags \<Rightarrow> nat \<Rightarrow> nat \<Rightarrow> 's \<Rightarrow> nat \<times> nat \<times> 's) option"
  dx_unmap :: "(nat \<Rightarrow> nat \<Rightarrow> 's \<Rightarrow> nat \<times> 's) option"
  dx_sync :: "(nat \<Rightarrow> nat \<Rightarrow> 's \<Rightarrow> nat \<times> 's) option"

definition validate_mappings :: "'s mappings_ops raw_table \<Rightarrow> 's mappings_ops cached \<Rightarrow> bool \<times> 's mappings_ops cached" where
  "validate_mappings = host_validate 4 CAP_MAPPINGS (\<lambda>t. \<not> (dx_map t = None \<or> dx_unmap t = None \<or> dx_sync t = None))"

definition host_mappings :: "'s mappings_ops cached \<Rightarrow> 's mappings_provider" where
  "host_mappings t =
    \<lparr>mp_map = (\<lambda>h offset len access shared. host_out Unsupported
       (host_op t dx_map (\<lambda>f. f h offset len access (if shared then SHARED else PRIVATE))) 0),
     mp_unmap = (\<lambda>a len. host_call Unsupported (host_op t dx_unmap (\<lambda>f. f a len))),
     mp_sync = (\<lambda>a len. host_call Unsupported (host_op t dx_sync (\<lambda>f. f a len)))\<rparr>"

record 's volumes_ops =
  ux_entry :: "(nat \<Rightarrow> byte list \<Rightarrow> nat \<Rightarrow> 's \<Rightarrow> nat \<times> nat \<times> byte list \<times> 's) option"
  ux_status :: "(byte list \<Rightarrow> volume_status \<Rightarrow> 's \<Rightarrow> nat \<times> volume_status \<times> 's) option"

definition validate_volumes :: "'s volumes_ops raw_table \<Rightarrow> 's volumes_ops cached \<Rightarrow> bool \<times> 's volumes_ops cached" where
  "validate_volumes = host_validate 3 CAP_VOLUMES (\<lambda>t. \<not> (ux_entry t = None \<or> ux_status t = None))"

definition host_volumes :: "'s volumes_ops cached \<Rightarrow> 's volumes_provider" where
  "host_volumes t =
    \<lparr>vp_entry = (\<lambda>index. host_text Unsupported (host_op t ux_entry (\<lambda>f. f index)) 0),
     vp_status = (\<lambda>path. host_out Unsupported (host_op t ux_status (\<lambda>f. f path)) EMPTY_VOLUME)\<rparr>"

section \<open>Accounts and priority\<close>

record 's accounts_ops =
  ax_user_by_id :: "(nat \<Rightarrow> account \<Rightarrow> 's \<Rightarrow> nat \<times> account \<times> 's) option"
  ax_user_by_name :: "(byte list \<Rightarrow> account \<Rightarrow> 's \<Rightarrow> nat \<times> account \<times> 's) option"
  ax_process_groups :: "(nat list \<Rightarrow> nat \<Rightarrow> 's \<Rightarrow> nat \<times> nat \<times> nat list \<times> 's) option"
  ax_user_groups :: "(byte list \<Rightarrow> nat \<Rightarrow> nat list \<Rightarrow> nat \<Rightarrow> 's \<Rightarrow> nat \<times> nat \<times> nat list \<times> 's) option"

definition validate_accounts :: "'s accounts_ops raw_table \<Rightarrow> 's accounts_ops cached \<Rightarrow> bool \<times> 's accounts_ops cached" where
  "validate_accounts = host_validate 5 CAP_ACCOUNTS (\<lambda>_. True)"

text \<open>A list called too small for a buffer it fits in has nothing the caller could use.\<close>

definition listed :: "unit result \<Rightarrow> nat \<Rightarrow> nat \<Rightarrow> nat result" where
  "listed st n capacity =
     (case st of
        Inr _ \<Rightarrow> Inr n
      | Inl e \<Rightarrow> if e = BufferTooSmall \<and> capacity < n then Inr n else if e = BufferTooSmall then Inl Os else Inl e)"

definition host_listed ::
  "(nat list \<Rightarrow> nat \<Rightarrow> 's \<Rightarrow> nat \<times> nat \<times> nat list \<times> 's) option \<Rightarrow> nat list \<Rightarrow> 's \<Rightarrow> nat result \<times> nat list \<times> 's" where
  "host_listed f b s =
     (case f of
        None \<Rightarrow> (Inl Unsupported, b, s)
      | Some f \<Rightarrow> let (st, n, b', s') = f b 0 s in (listed (port_from_status st) n (length b), b', s'))"

definition host_accounts :: "'s accounts_ops cached \<Rightarrow> 's accounts_provider" where
  "host_accounts t =
    \<lparr>ap_user_by_id = (\<lambda>user. host_out Unsupported (host_op t ax_user_by_id (\<lambda>f. f user)) EMPTY_ACCOUNT),
     ap_user_by_name = (\<lambda>nm. host_out Unsupported (host_op t ax_user_by_name (\<lambda>f. f nm)) EMPTY_ACCOUNT),
     ap_process_groups = host_listed (host_op t ax_process_groups id),
     ap_user_groups = (\<lambda>nm primary. host_listed (host_op t ax_user_groups (\<lambda>f. f nm primary)))\<rparr>"

record 's priority_ops =
  bx_get :: "(nat \<Rightarrow> int \<Rightarrow> 's \<Rightarrow> nat \<times> int \<times> 's) option"
  bx_set :: "(nat \<Rightarrow> int \<Rightarrow> 's \<Rightarrow> nat \<times> 's) option"

definition validate_priority :: "'s priority_ops raw_table \<Rightarrow> 's priority_ops cached \<Rightarrow> bool \<times> 's priority_ops cached" where
  "validate_priority = host_validate 3 CAP_PRIORITY (\<lambda>t. \<not> (bx_get t = None \<or> bx_set t = None))"

definition host_priority :: "'s priority_ops cached \<Rightarrow> 's priority_provider" where
  "host_priority t =
    \<lparr>yp_get = (\<lambda>process. host_out Unsupported (host_op t bx_get (\<lambda>f. f process)) 0),
     yp_set = (\<lambda>process v. host_call Unsupported (host_op t bx_set (\<lambda>f. f process v)))\<rparr>"

section \<open>Child processes\<close>

text \<open>An absent environment or directory is the pair of NULL and 0, which is \<open>None\<close> here.\<close>

record 's processes_ops =
  qx_spawn :: "(spawn_args \<Rightarrow> flags \<Rightarrow> spawned \<Rightarrow> 's \<Rightarrow> nat \<times> spawned \<times> 's) option"
  qx_wait :: "(nat \<Rightarrow> nat \<Rightarrow> int \<Rightarrow> 's \<Rightarrow> nat \<times> int \<times> 's) option"
  qx_terminate :: "(nat \<Rightarrow> nat \<Rightarrow> 's \<Rightarrow> nat \<times> 's) option"
  qx_release :: "(nat \<Rightarrow> 's \<Rightarrow> nat \<times> 's) option"
  qx_pipe_read :: "(nat \<Rightarrow> byte list \<Rightarrow> nat \<Rightarrow> 's \<Rightarrow> nat \<times> nat \<times> byte list \<times> 's) option"
  qx_pipe_write :: "(nat \<Rightarrow> byte list \<Rightarrow> nat \<Rightarrow> 's \<Rightarrow> nat \<times> nat \<times> 's) option"
  qx_pipe_close :: "(nat \<Rightarrow> 's \<Rightarrow> nat \<times> 's) option"

definition validate_processes :: "'s processes_ops raw_table \<Rightarrow> 's processes_ops cached \<Rightarrow> bool \<times> 's processes_ops cached" where
  "validate_processes = host_validate 8 CAP_PROCESSES (\<lambda>t.
     \<not> (qx_spawn t = None \<or> qx_wait t = None \<or> qx_terminate t = None \<or> qx_release t = None \<or> qx_pipe_read t = None
        \<or> qx_pipe_write t = None \<or> qx_pipe_close t = None))"

definition host_processes :: "'s processes_ops cached \<Rightarrow> 's processes_provider" where
  "host_processes t =
    \<lparr>cp_spawn = (\<lambda>args pipes. host_out Unsupported (host_op t qx_spawn (\<lambda>f. f args pipes)) EMPTY_SPAWNED),
     cp_wait = (\<lambda>p timeout. host_out Unsupported (host_op t qx_wait (\<lambda>f. f p timeout)) 0),
     cp_terminate = (\<lambda>p forceful. host_call Unsupported (host_op t qx_terminate (\<lambda>f. f p (of_bool forceful)))),
     cp_release = (\<lambda>p. host_call Unsupported (host_op t qx_release (\<lambda>f. f p))),
     cp_pipe_read = (\<lambda>p. host_fill Unsupported (host_op t qx_pipe_read (\<lambda>f. f p)) 0),
     cp_pipe_write = (\<lambda>p bytes. host_out Unsupported (host_op t qx_pipe_write (\<lambda>f. f p bytes)) 0),
     cp_pipe_close = (\<lambda>p. host_call Unsupported (host_op t qx_pipe_close (\<lambda>f. f p)))\<rparr>"

text \<open>The groups of the identity: NULL when there are none, whatever the empty slice points to.\<close>

record 's spawn_as_ops =
  ox_spawn_as :: "(spawn_args \<Rightarrow> flags \<Rightarrow> nat \<times> nat \<times> nat list option \<Rightarrow> spawned \<Rightarrow> 's \<Rightarrow> nat \<times> spawned \<times> 's) option"

definition validate_spawn_as :: "'s spawn_as_ops raw_table \<Rightarrow> 's spawn_as_ops cached \<Rightarrow> bool \<times> 's spawn_as_ops cached" where
  "validate_spawn_as = host_validate 2 CAP_SPAWN_AS (\<lambda>t. ox_spawn_as t \<noteq> None)"

definition host_spawn_as ::
  "'s spawn_as_ops cached \<Rightarrow> spawn_args \<Rightarrow> flags \<Rightarrow> nat \<Rightarrow> nat \<Rightarrow> nat list \<Rightarrow> 's \<Rightarrow> spawned result \<times> 's" where
  "host_spawn_as t args pipes user gid groups =
     host_out Unsupported
       (host_op t ox_spawn_as (\<lambda>f. f args pipes (user, gid, if groups = [] then None else Some groups))) EMPTY_SPAWNED"

end
