(* ===== verification/Host_Net.thy ===== *)
theory Host_Net
  imports Host_Files
begin

text \<open>
  The providers of \<open>crates/dotnet-pal-host/src/lib.rs\<close> for sockets, interfaces and lookup, local
  sockets and datagrams, and the validation of all tables at negotiation (\<open>validate\<close>).
\<close>

section \<open>Sockets\<close>

record 's sockets_ops =
  cx_create :: "(nat \<Rightarrow> nat \<Rightarrow> nat \<Rightarrow> 's \<Rightarrow> nat \<times> nat \<times> 's) option"
  cx_close :: "(nat \<Rightarrow> 's \<Rightarrow> nat \<times> 's) option"
  cx_bind :: "(nat \<Rightarrow> address \<Rightarrow> 's \<Rightarrow> nat \<times> 's) option"
  cx_listen :: "(nat \<Rightarrow> nat \<Rightarrow> 's \<Rightarrow> nat \<times> 's) option"
  cx_accept :: "(nat \<Rightarrow> nat \<times> address \<Rightarrow> 's \<Rightarrow> nat \<times> (nat \<times> address) \<times> 's) option"
  cx_connect :: "(nat \<Rightarrow> address \<Rightarrow> 's \<Rightarrow> nat \<times> 's) option"
  cx_send :: "(nat \<Rightarrow> byte list \<Rightarrow> address option \<Rightarrow> nat \<Rightarrow> 's \<Rightarrow> nat \<times> nat \<times> 's) option"
  cx_receive :: "(nat \<Rightarrow> flags \<Rightarrow> byte list \<Rightarrow> nat \<times> address \<Rightarrow> 's \<Rightarrow> nat \<times> (nat \<times> address) \<times> byte list \<times> 's) option"
  cx_shutdown :: "(nat \<Rightarrow> nat \<Rightarrow> 's \<Rightarrow> nat \<times> 's) option"
  cx_local_address :: "(nat \<Rightarrow> address \<Rightarrow> 's \<Rightarrow> nat \<times> address \<times> 's) option"
  cx_peer_address :: "(nat \<Rightarrow> address \<Rightarrow> 's \<Rightarrow> nat \<times> address \<times> 's) option"
  cx_set_blocking :: "(nat \<Rightarrow> nat \<Rightarrow> 's \<Rightarrow> nat \<times> 's) option"
  cx_get_option :: "(nat \<Rightarrow> nat \<Rightarrow> nat \<Rightarrow> 's \<Rightarrow> nat \<times> nat \<times> 's) option"
  cx_set_option :: "(nat \<Rightarrow> nat \<Rightarrow> nat \<Rightarrow> 's \<Rightarrow> nat \<times> 's) option"
  cx_poll :: "(nat \<Rightarrow> nat \<Rightarrow> poll_entry list \<Rightarrow> nat \<Rightarrow> 's \<Rightarrow> nat \<times> nat \<times> poll_entry list \<times> 's) option"
  cx_wake :: "(nat \<Rightarrow> 's \<Rightarrow> nat \<times> 's) option"
  cx_resolve :: "(byte list \<Rightarrow> nat \<Rightarrow> address list \<Rightarrow> nat \<Rightarrow> 's \<Rightarrow> nat \<times> nat \<times> address list \<times> 's) option"
  cx_host_name :: "(byte list \<Rightarrow> nat \<Rightarrow> 's \<Rightarrow> nat \<times> nat \<times> byte list \<times> 's) option"

text \<open>Name resolution and the host name are optional per call.\<close>

definition validate_sockets :: "'s sockets_ops raw_table \<Rightarrow> 's sockets_ops cached \<Rightarrow> bool \<times> 's sockets_ops cached" where
  "validate_sockets = host_validate 19 CAP_SOCKETS (\<lambda>t.
     \<not> (cx_create t = None \<or> cx_close t = None \<or> cx_bind t = None \<or> cx_listen t = None \<or> cx_accept t = None
        \<or> cx_connect t = None \<or> cx_send t = None \<or> cx_receive t = None \<or> cx_shutdown t = None
        \<or> cx_local_address t = None \<or> cx_peer_address t = None \<or> cx_set_blocking t = None
        \<or> cx_get_option t = None \<or> cx_set_option t = None \<or> cx_poll t = None \<or> cx_wake t = None))"

text \<open>A sender without a family is no sender: \<open>(from.family != 0).then_some(from)\<close>.\<close>

definition known_sender :: "address \<Rightarrow> address option" where
  "known_sender a = (if ad_family a \<noteq> 0 then Some a else None)"

definition host_receive ::
  "'s sockets_ops cached \<Rightarrow> nat \<Rightarrow> byte list \<Rightarrow> flags \<Rightarrow> 's \<Rightarrow> (nat \<times> address option) result \<times> byte list \<times> 's" where
  "host_receive t socket b fl s =
     (let (r, b', s') = host_fill Unsupported (host_op t cx_receive (\<lambda>f. f socket fl)) (0, DEFAULT_ADDRESS) b s
      in (map_sum id (map_prod id known_sender) r, b', s'))"

text \<open>The host's own count of ready entries is not used.\<close>

definition host_poll ::
  "'s sockets_ops cached \<Rightarrow> poll_entry list \<Rightarrow> nat \<Rightarrow> nat option \<Rightarrow> 's \<Rightarrow> unit result \<times> poll_entry list \<times> 's" where
  "host_poll t entries timeout channel s =
     (let (r, entries', s') = host_fill Unsupported
            (host_op t cx_poll (\<lambda>f. f timeout (case channel of Some c \<Rightarrow> c | None \<Rightarrow> NO_CHANNEL))) 0 entries s
      in (map_sum id (\<lambda>_. ()) r, entries', s'))"

definition host_sockets :: "'s sockets_ops cached \<Rightarrow> 's sockets_provider" where
  "host_sockets t =
    \<lparr>kp_create = (\<lambda>family kind. host_out Unsupported (host_op t cx_create (\<lambda>f. f family kind)) 0),
     kp_close = (\<lambda>h. host_call Unsupported (host_op t cx_close (\<lambda>f. f h))),
     kp_bind = (\<lambda>h a. host_call Unsupported (host_op t cx_bind (\<lambda>f. f h a))),
     kp_listen = (\<lambda>h backlog. host_call Unsupported (host_op t cx_listen (\<lambda>f. f h backlog))),
     kp_accept = (\<lambda>h. host_out Unsupported (host_op t cx_accept (\<lambda>f. f h)) (0, DEFAULT_ADDRESS)),
     kp_connect = (\<lambda>h a. host_call Unsupported (host_op t cx_connect (\<lambda>f. f h a))),
     kp_send = (\<lambda>h bytes to. host_out Unsupported (host_op t cx_send (\<lambda>f. f h bytes to)) 0),
     kp_receive = host_receive t,
     kp_shutdown = (\<lambda>h how. host_call Unsupported (host_op t cx_shutdown (\<lambda>f. f h how))),
     kp_local_address = (\<lambda>h. host_out Unsupported (host_op t cx_local_address (\<lambda>f. f h)) DEFAULT_ADDRESS),
     kp_peer_address = (\<lambda>h. host_out Unsupported (host_op t cx_peer_address (\<lambda>f. f h)) DEFAULT_ADDRESS),
     kp_set_blocking = (\<lambda>h blocking. host_call Unsupported (host_op t cx_set_blocking (\<lambda>f. f h (of_bool blocking)))),
     kp_get_option = (\<lambda>h opt. host_out Unsupported (host_op t cx_get_option (\<lambda>f. f h opt)) 0),
     kp_set_option = (\<lambda>h opt v. host_call Unsupported (host_op t cx_set_option (\<lambda>f. f h opt v))),
     kp_poll = host_poll t,
     kp_wake = (\<lambda>channel. host_call Unsupported (host_op t cx_wake (\<lambda>f. f channel))),
     kp_resolve = (\<lambda>nm family. host_fill Unsupported (host_op t cx_resolve (\<lambda>f. f nm family)) 0),
     kp_host_name = host_text Unsupported (host_op t cx_host_name id) 0\<rparr>"

section \<open>Network, local sockets and packets\<close>

record 's network_ops =
  ex_interface_entry :: "(nat \<Rightarrow> iface \<Rightarrow> 's \<Rightarrow> nat \<times> iface \<times> 's) option"
  ex_address_entry :: "(nat \<Rightarrow> interface_address \<Rightarrow> 's \<Rightarrow> nat \<times> interface_address \<times> 's) option"
  ex_reverse_lookup :: "(address \<Rightarrow> byte list \<Rightarrow> nat \<Rightarrow> 's \<Rightarrow> nat \<times> nat \<times> byte list \<times> 's) option"
  ex_membership :: "(nat \<Rightarrow> address \<Rightarrow> nat \<Rightarrow> nat \<Rightarrow> 's \<Rightarrow> nat \<times> 's) option"

definition validate_network :: "'s network_ops raw_table \<Rightarrow> 's network_ops cached \<Rightarrow> bool \<times> 's network_ops cached" where
  "validate_network = host_validate 5 CAP_NETWORK (\<lambda>_. True)"

definition host_network :: "'s network_ops cached \<Rightarrow> 's network_provider" where
  "host_network t =
    \<lparr>np_interface_entry = (\<lambda>index. host_out Unsupported (host_op t ex_interface_entry (\<lambda>f. f index)) EMPTY_INTERFACE),
     np_address_entry = (\<lambda>index. host_out Unsupported (host_op t ex_address_entry (\<lambda>f. f index)) EMPTY_INTERFACE_ADDRESS),
     np_reverse_lookup = (\<lambda>a. host_text Unsupported (host_op t ex_reverse_lookup (\<lambda>f. f a)) 0),
     np_membership = (\<lambda>h a index join.
       host_call Unsupported (host_op t ex_membership (\<lambda>f. f h a index (of_bool join))))\<rparr>"

record 's local_ops =
  zx_bind :: "(nat \<Rightarrow> byte list \<Rightarrow> 's \<Rightarrow> nat \<times> 's) option"
  zx_connect :: "(nat \<Rightarrow> byte list \<Rightarrow> 's \<Rightarrow> nat \<times> 's) option"
  zx_address :: "(nat \<Rightarrow> nat \<Rightarrow> byte list \<Rightarrow> nat \<Rightarrow> 's \<Rightarrow> nat \<times> nat \<times> byte list \<times> 's) option"
  zx_peer_user :: "(nat \<Rightarrow> nat \<Rightarrow> 's \<Rightarrow> nat \<times> nat \<times> 's) option"

definition validate_local :: "'s local_ops raw_table \<Rightarrow> 's local_ops cached \<Rightarrow> bool \<times> 's local_ops cached" where
  "validate_local = host_validate 5 CAP_LOCAL_SOCKETS (\<lambda>t.
     \<not> (zx_bind t = None \<or> zx_connect t = None \<or> zx_address t = None \<or> zx_peer_user t = None))"

definition host_local :: "'s local_ops cached \<Rightarrow> 's local_provider" where
  "host_local t =
    \<lparr>lk_bind = (\<lambda>h path. host_call Unsupported (host_op t zx_bind (\<lambda>f. f h path))),
     lk_connect = (\<lambda>h path. host_call Unsupported (host_op t zx_connect (\<lambda>f. f h path))),
     lk_address = (\<lambda>h peer. host_text Unsupported (host_op t zx_address (\<lambda>f. f h (of_bool peer))) 0),
     lk_peer_user = (\<lambda>h. host_out Unsupported (host_op t zx_peer_user (\<lambda>f. f h)) U32_MAX)\<rparr>"

record 's packets_ops =
  jx_receive :: "(nat \<Rightarrow> flags \<Rightarrow> byte list \<Rightarrow> nat \<times> address \<times> packet_info \<Rightarrow> 's
    \<Rightarrow> nat \<times> (nat \<times> address \<times> packet_info) \<times> byte list \<times> 's) option"

definition validate_packets :: "'s packets_ops raw_table \<Rightarrow> 's packets_ops cached \<Rightarrow> bool \<times> 's packets_ops cached" where
  "validate_packets = host_validate 2 CAP_PACKETS (\<lambda>t. jx_receive t \<noteq> None)"

definition host_packets :: "'s packets_ops cached \<Rightarrow> 's packet_receive" where
  "host_packets t socket b fl s =
     (let (r, b', s') = host_fill Unsupported (host_op t jx_receive (\<lambda>f. f socket fl)) (0, DEFAULT_ADDRESS, DEFAULT_INFO) b s
      in (map_sum id (\<lambda>(n, a, info). (n, known_sender a, info)) r, b', s'))"

section \<open>Validation at negotiation\<close>

text \<open>The \<open>host-*\<close> features of the crate, what the \<open>dotnet_pal_host_*_v2\<close> functions return, and the cells.\<close>

datatype host_feature =
    H_Services | H_Kernel | H_Runtime | H_Support | H_Context | H_Topology | H_Process | H_Image | H_Streams
  | H_Files | H_Sockets | H_Faults | H_System | H_Notifications | H_Processes | H_Terminal | H_Watches
  | H_Mappings | H_Volumes | H_Network | H_LocalSockets | H_Accounts | H_Priority | H_Packets | H_SpawnAs

record 's host_externs =
  he_vm :: "'s vm_ops raw_table"
  he_services :: "'s services_ops raw_table"
  he_kernel :: "'s kernel_ops raw_table"
  he_runtime :: "'s runtime_ops raw_table"
  he_support :: "'s support_ops raw_table"
  he_context :: "'s context_table raw_table"
  he_topology :: "'s topology_ops raw_table"
  he_process :: "'s process_ops raw_table"
  he_image :: "'s image_ops raw_table"
  he_streams :: "'s streams_ops raw_table"
  he_files :: "'s files_ops raw_table"
  he_sockets :: "'s sockets_ops raw_table"
  he_faults :: "'s faults_ops raw_table"
  he_system :: "'s system_ops raw_table"
  he_notifications :: "'s notifications_ops raw_table"
  he_processes :: "'s processes_ops raw_table"
  he_terminal :: "'s terminal_ops raw_table"
  he_watches :: "'s watches_ops raw_table"
  he_mappings :: "'s mappings_ops raw_table"
  he_volumes :: "'s volumes_ops raw_table"
  he_network :: "'s network_ops raw_table"
  he_local :: "'s local_ops raw_table"
  he_accounts :: "'s accounts_ops raw_table"
  he_priority :: "'s priority_ops raw_table"
  he_packets :: "'s packets_ops raw_table"
  he_spawn_as :: "'s spawn_as_ops raw_table"

record 's host_caches =
  hc_vm :: "'s vm_ops cached"
  hc_services :: "'s services_ops cached"
  hc_kernel :: "'s kernel_ops cached"
  hc_runtime :: "'s runtime_ops cached"
  hc_support :: "'s support_ops cached"
  hc_context :: "'s context_table cached"
  hc_topology :: "'s topology_ops cached"
  hc_process :: "'s process_ops cached"
  hc_image :: "'s image_ops cached"
  hc_streams :: "'s streams_ops cached"
  hc_files :: "'s files_ops cached"
  hc_sockets :: "'s sockets_ops cached"
  hc_faults :: "'s faults_ops cached"
  hc_system :: "'s system_ops cached"
  hc_notifications :: "'s notifications_ops cached"
  hc_processes :: "'s processes_ops cached"
  hc_terminal :: "'s terminal_ops cached"
  hc_watches :: "'s watches_ops cached"
  hc_mappings :: "'s mappings_ops cached"
  hc_volumes :: "'s volumes_ops cached"
  hc_network :: "'s network_ops cached"
  hc_local :: "'s local_ops cached"
  hc_accounts :: "'s accounts_ops cached"
  hc_priority :: "'s priority_ops cached"
  hc_packets :: "'s packets_ops cached"
  hc_spawn_as :: "'s spawn_as_ops cached"

definition no_tables :: "'s host_caches" where
  "no_tables =
    \<lparr>hc_vm = cached_new, hc_services = cached_new, hc_kernel = cached_new, hc_runtime = cached_new,
     hc_support = cached_new, hc_context = cached_new, hc_topology = cached_new, hc_process = cached_new,
     hc_image = cached_new, hc_streams = cached_new, hc_files = cached_new, hc_sockets = cached_new,
     hc_faults = cached_new, hc_system = cached_new, hc_notifications = cached_new, hc_processes = cached_new,
     hc_terminal = cached_new, hc_watches = cached_new, hc_mappings = cached_new, hc_volumes = cached_new,
     hc_network = cached_new, hc_local = cached_new, hc_accounts = cached_new, hc_priority = cached_new,
     hc_packets = cached_new, hc_spawn_as = cached_new\<rparr>"

text \<open>
  One \<open>if !group::validate() { return false; }\<close>: nothing happens after a failure or without the feature.
\<close>

definition host_step ::
  "bool \<Rightarrow> ('c \<Rightarrow> 'o cached) \<Rightarrow> (('o cached \<Rightarrow> 'o cached) \<Rightarrow> 'c \<Rightarrow> 'c) \<Rightarrow> ('o cached \<Rightarrow> bool \<times> 'o cached)
     \<Rightarrow> bool \<times> 'c \<Rightarrow> bool \<times> 'c" where
  "host_step enabled get put check =
     (\<lambda>(ok, c). if \<not> ok \<or> \<not> enabled then (ok, c)
               else let (ok', cell) = check (get c) in (ok', put (\<lambda>_. cell) c))"

definition validate ::
  "arch \<Rightarrow> bool \<Rightarrow> (host_feature \<Rightarrow> bool) \<Rightarrow> 's host_externs \<Rightarrow> 's host_caches \<Rightarrow> bool \<times> 's host_caches" where
  "validate arch virtual_memory on he c =
     (let r = (True, c);
          r = host_step virtual_memory hc_vm hc_vm_update (validate_vm (he_vm he)) r;
          r = host_step (on H_Services) hc_services hc_services_update (validate_services (he_services he)) r;
          r = host_step (on H_Kernel) hc_kernel hc_kernel_update (validate_kernel (he_kernel he)) r;
          r = host_step (on H_Runtime) hc_runtime hc_runtime_update (validate_runtime (he_runtime he)) r;
          r = host_step (on H_Support) hc_support hc_support_update (validate_support (he_support he)) r;
          r = host_step (on H_Context) hc_context hc_context_update (validate_context (he_context he)) r;
          r = host_step (on H_Topology) hc_topology hc_topology_update (validate_topology (he_topology he)) r;
          r = host_step (on H_Process) hc_process hc_process_update (validate_process (he_process he)) r;
          r = host_step (on H_Image) hc_image hc_image_update (validate_image (he_image he)) r;
          r = host_step (on H_Streams) hc_streams hc_streams_update (validate_streams (he_streams he)) r;
          r = host_step (on H_Files) hc_files hc_files_update (validate_files (he_files he)) r;
          r = host_step (on H_Sockets) hc_sockets hc_sockets_update (validate_sockets (he_sockets he)) r;
          r = host_step (on H_Faults) hc_faults hc_faults_update (validate_faults arch (he_faults he)) r;
          r = host_step (on H_System) hc_system hc_system_update (validate_system (he_system he)) r;
          r = host_step (on H_Notifications) hc_notifications hc_notifications_update (validate_notifications (he_notifications he)) r;
          r = host_step (on H_Processes) hc_processes hc_processes_update (validate_processes (he_processes he)) r;
          r = host_step (on H_Terminal) hc_terminal hc_terminal_update (validate_terminal (he_terminal he)) r;
          r = host_step (on H_Watches) hc_watches hc_watches_update (validate_watches (he_watches he)) r;
          r = host_step (on H_Mappings) hc_mappings hc_mappings_update (validate_mappings (he_mappings he)) r;
          r = host_step (on H_Volumes) hc_volumes hc_volumes_update (validate_volumes (he_volumes he)) r;
          r = host_step (on H_Network) hc_network hc_network_update (validate_network (he_network he)) r;
          r = host_step (on H_LocalSockets) hc_local hc_local_update (validate_local (he_local he)) r;
          r = host_step (on H_Accounts) hc_accounts hc_accounts_update (validate_accounts (he_accounts he)) r;
          r = host_step (on H_Priority) hc_priority hc_priority_update (validate_priority (he_priority he)) r;
          r = host_step (on H_Packets) hc_packets hc_packets_update (validate_packets (he_packets he)) r;
          r = host_step (on H_SpawnAs) hc_spawn_as hc_spawn_as_update (validate_spawn_as (he_spawn_as he)) r
      in r)"

section \<open>Facts about the validation\<close>

lemma host_step_fst:
  assumes "\<And>cell. fst (check cell) = ok"
  shows "fst (host_step enabled get put check r) \<longleftrightarrow> fst r \<and> (enabled \<longrightarrow> ok)"
  using assms [of "get (snd r)"] by (cases r; cases "check (get (snd r))") (auto simp: host_step_def)

lemma host_step_other:
  assumes "\<And>f c. other (put f c) = other c"
  shows "other (snd (host_step enabled get put check r)) = other (snd r)"
  using assms by (cases r; cases "check (get (snd r))") (auto simp: host_step_def)

lemma host_step_own:
  assumes "\<And>f c. get (put f c) = f (get c)"
  shows "get (snd (host_step enabled get put check r)) =
    (if fst r \<and> enabled then snd (check (get (snd r))) else get (snd r))"
  using assms by (cases r; cases "check (get (snd r))") (auto simp: host_step_def)

definition host_accepts :: "('o raw_table \<Rightarrow> 'o cached \<Rightarrow> bool \<times> 'o cached) \<Rightarrow> 'o raw_table \<Rightarrow> bool" where
  "host_accepts check raw = fst (check raw None)"

text \<open>
  The contract of a group's check: whether a table is accepted does not depend on the cell, an accepted
  table is what the cell then holds, a refused one leaves the cell alone.
\<close>

locale host_check =
  fixes check :: "'o raw_table \<Rightarrow> 'o cached \<Rightarrow> bool \<times> 'o cached"
  assumes verdict: "fst (check raw cell) = host_accepts check raw"
    and cell_after: "snd (check raw cell) = (if host_accepts check raw then Some (rt_ops raw) else cell)"
begin

lemma step_ok: "fst (host_step enabled get put (check raw) r) \<longleftrightarrow> fst r \<and> (enabled \<longrightarrow> host_accepts check raw)"
  by (rule host_step_fst) (rule verdict)

lemma step_cell:
  assumes "\<And>f c. get (put f c) = f (get c)"
  shows "get (snd (host_step enabled get put (check raw) r)) =
    (if fst r \<and> enabled \<and> host_accepts check raw then Some (rt_ops raw) else get (snd r))"
  using host_step_own [of get put enabled "check raw" r, OF assms] by (simp add: cell_after)

end

lemma host_validate_check: "host_check (host_validate n required complete)"
  by unfold_locales
    (auto simp: host_validate_def host_accepts_def cached_set_def host_table_def)

lemma host_accepts_iff:
  "host_accepts (host_validate n required complete) raw \<longleftrightarrow>
     rt_address raw \<noteq> 0 \<and> rt_address raw mod TABLE_ALIGN = 0 \<and> rt_abi_version raw = ABI_VERSION
     \<and> HEADER_SIZE + CALLBACK_SIZE * n \<le> rt_struct_size raw \<and> rt_capabilities raw AND required = required
     \<and> complete (rt_ops raw)"
  by (auto simp: host_accepts_def host_validate_def host_table_def)

interpretation vm_check: host_check validate_vm
  unfolding validate_vm_def by (rule host_validate_check)

interpretation services_check: host_check validate_services
  unfolding validate_services_def by (rule host_validate_check)

interpretation kernel_check: host_check validate_kernel
  unfolding validate_kernel_def by (rule host_validate_check)

interpretation runtime_check: host_check validate_runtime
  unfolding validate_runtime_def by (rule host_validate_check)

interpretation support_check: host_check validate_support
  unfolding validate_support_def by (rule host_validate_check)

interpretation context_check: host_check validate_context
  unfolding validate_context_def by (rule host_validate_check)

interpretation topology_check: host_check validate_topology
  unfolding validate_topology_def by (rule host_validate_check)

interpretation process_check: host_check validate_process
  unfolding validate_process_def by (rule host_validate_check)

interpretation image_check: host_check validate_image
  unfolding validate_image_def by (rule host_validate_check)

interpretation streams_check: host_check validate_streams
  unfolding validate_streams_def by (rule host_validate_check)

interpretation files_check: host_check validate_files
  unfolding validate_files_def by (rule host_validate_check)

interpretation sockets_check: host_check validate_sockets
  unfolding validate_sockets_def by (rule host_validate_check)

interpretation faults_check: host_check "validate_faults arch"
  unfolding validate_faults_def by (rule host_validate_check)

interpretation system_check: host_check validate_system
  unfolding validate_system_def by (rule host_validate_check)

interpretation notifications_check: host_check validate_notifications
  unfolding validate_notifications_def by (rule host_validate_check)

interpretation processes_check: host_check validate_processes
  unfolding validate_processes_def by (rule host_validate_check)

interpretation terminal_check: host_check validate_terminal
  unfolding validate_terminal_def by (rule host_validate_check)

interpretation watches_check: host_check validate_watches
  unfolding validate_watches_def by (rule host_validate_check)

interpretation mappings_check: host_check validate_mappings
  unfolding validate_mappings_def by (rule host_validate_check)

interpretation volumes_check: host_check validate_volumes
  unfolding validate_volumes_def by (rule host_validate_check)

interpretation network_check: host_check validate_network
  unfolding validate_network_def by (rule host_validate_check)

interpretation local_check: host_check validate_local
  unfolding validate_local_def by (rule host_validate_check)

interpretation accounts_check: host_check validate_accounts
  unfolding validate_accounts_def by (rule host_validate_check)

interpretation priority_check: host_check validate_priority
  unfolding validate_priority_def by (rule host_validate_check)

interpretation packets_check: host_check validate_packets
  unfolding validate_packets_def by (rule host_validate_check)

interpretation spawn_as_check: host_check validate_spawn_as
  unfolding validate_spawn_as_def by (rule host_validate_check)

lemmas host_steps_ok = vm_check.step_ok services_check.step_ok kernel_check.step_ok runtime_check.step_ok
  support_check.step_ok context_check.step_ok topology_check.step_ok process_check.step_ok image_check.step_ok
  streams_check.step_ok files_check.step_ok sockets_check.step_ok faults_check.step_ok system_check.step_ok
  notifications_check.step_ok processes_check.step_ok terminal_check.step_ok watches_check.step_ok
  mappings_check.step_ok volumes_check.step_ok network_check.step_ok local_check.step_ok
  accounts_check.step_ok priority_check.step_ok packets_check.step_ok spawn_as_check.step_ok

lemmas host_steps_cell = vm_check.step_cell services_check.step_cell kernel_check.step_cell
  runtime_check.step_cell support_check.step_cell context_check.step_cell topology_check.step_cell
  process_check.step_cell image_check.step_cell streams_check.step_cell files_check.step_cell
  sockets_check.step_cell faults_check.step_cell system_check.step_cell notifications_check.step_cell
  processes_check.step_cell terminal_check.step_cell watches_check.step_cell mappings_check.step_cell
  volumes_check.step_cell network_check.step_cell local_check.step_cell accounts_check.step_cell
  priority_check.step_cell packets_check.step_cell spawn_as_check.step_cell

text \<open>
  What the header of a table must say, and what validation leaves of one group: an enabled group has its
  table when validation succeeded; a cell that is filled belongs to an enabled group and holds the host's
  table, whose header was right.
\<close>

definition header_right :: "nat \<Rightarrow> caps \<Rightarrow> 'o raw_table \<Rightarrow> bool" where
  "header_right callbacks required raw \<longleftrightarrow>
     rt_address raw \<noteq> 0 \<and> 8 dvd rt_address raw \<and> rt_abi_version raw = ABI_VERSION
     \<and> 16 + 8 * callbacks \<le> rt_struct_size raw \<and> rt_capabilities raw AND required = required"

definition host_settled :: "bool \<Rightarrow> nat \<Rightarrow> caps \<Rightarrow> 'o raw_table \<Rightarrow> bool \<Rightarrow> 'o cached \<Rightarrow> bool" where
  "host_settled enabled callbacks required raw ok cell \<longleftrightarrow>
     (ok \<and> enabled \<longrightarrow> cell = Some (rt_ops raw))
     \<and> (cell = None \<or> enabled \<and> cell = Some (rt_ops raw) \<and> header_right callbacks required raw)"

lemma accepts_header: "host_accepts (host_validate n required complete) raw \<Longrightarrow> header_right n required raw"
  by (simp add: host_accepts_iff header_right_def mod_eq_0_iff_dvd)

lemma accepts_headers:
  "host_accepts validate_vm vm_raw \<Longrightarrow> header_right 6 CAP_VM vm_raw"
  "host_accepts validate_services services_raw \<Longrightarrow> header_right 3 (CAP_CLOCK OR CAP_SCHEDULER) services_raw"
  "host_accepts validate_kernel kernel_raw \<Longrightarrow> header_right 19 KERNEL_ALL kernel_raw"
  "host_accepts validate_runtime runtime_raw \<Longrightarrow> header_right 13 RUNTIME_ALL runtime_raw"
  "host_accepts validate_support support_raw \<Longrightarrow> header_right 11 SUPPORT_ALL support_raw"
  "host_accepts validate_context context_raw \<Longrightarrow> header_right 12 CAP_CONTEXT context_raw"
  "host_accepts validate_topology topology_raw \<Longrightarrow> header_right 13 CAP_TOPOLOGY topology_raw"
  "host_accepts validate_process process_raw \<Longrightarrow> header_right 4 CAP_PROCESS process_raw"
  "host_accepts validate_image image_raw \<Longrightarrow> header_right 4 CAP_IMAGE image_raw"
  "host_accepts validate_streams streams_raw \<Longrightarrow> header_right 4 CAP_STREAMS streams_raw"
  "host_accepts validate_files files_raw \<Longrightarrow> header_right 28 CAP_FILES files_raw"
  "host_accepts validate_sockets sockets_raw \<Longrightarrow> header_right 19 CAP_SOCKETS sockets_raw"
  "host_accepts (validate_faults arch) faults_raw \<Longrightarrow> header_right 3 CAP_FAULTS faults_raw"
  "host_accepts validate_system system_raw \<Longrightarrow> header_right 6 CAP_SYSTEM system_raw"
  "host_accepts validate_notifications notifications_raw \<Longrightarrow> header_right 4 CAP_NOTIFICATIONS notifications_raw"
  "host_accepts validate_processes processes_raw \<Longrightarrow> header_right 8 CAP_PROCESSES processes_raw"
  "host_accepts validate_terminal terminal_raw \<Longrightarrow> header_right 5 CAP_TERMINAL terminal_raw"
  "host_accepts validate_watches watches_raw \<Longrightarrow> header_right 6 CAP_WATCHES watches_raw"
  "host_accepts validate_mappings mappings_raw \<Longrightarrow> header_right 4 CAP_MAPPINGS mappings_raw"
  "host_accepts validate_volumes volumes_raw \<Longrightarrow> header_right 3 CAP_VOLUMES volumes_raw"
  "host_accepts validate_network network_raw \<Longrightarrow> header_right 5 CAP_NETWORK network_raw"
  "host_accepts validate_local local_raw \<Longrightarrow> header_right 5 CAP_LOCAL_SOCKETS local_raw"
  "host_accepts validate_accounts accounts_raw \<Longrightarrow> header_right 5 CAP_ACCOUNTS accounts_raw"
  "host_accepts validate_priority priority_raw \<Longrightarrow> header_right 3 CAP_PRIORITY priority_raw"
  "host_accepts validate_packets packets_raw \<Longrightarrow> header_right 2 CAP_PACKETS packets_raw"
  "host_accepts validate_spawn_as spawn_as_raw \<Longrightarrow> header_right 2 CAP_SPAWN_AS spawn_as_raw"
  by (simp_all only: validate_vm_def validate_services_def validate_kernel_def validate_runtime_def validate_support_def
      validate_context_def validate_topology_def validate_process_def validate_image_def validate_streams_def
      validate_files_def validate_sockets_def validate_faults_def validate_system_def validate_notifications_def
      validate_processes_def validate_terminal_def validate_watches_def validate_mappings_def validate_volumes_def
      validate_network_def validate_local_def validate_accounts_def validate_priority_def validate_packets_def
      validate_spawn_as_def accepts_header)

lemma validate_verdict:
  "fst (validate arch virtual_memory on he c) \<longleftrightarrow>
     (virtual_memory \<longrightarrow> host_accepts validate_vm (he_vm he))
     \<and> (on H_Services \<longrightarrow> host_accepts validate_services (he_services he))
     \<and> (on H_Kernel \<longrightarrow> host_accepts validate_kernel (he_kernel he))
     \<and> (on H_Runtime \<longrightarrow> host_accepts validate_runtime (he_runtime he))
     \<and> (on H_Support \<longrightarrow> host_accepts validate_support (he_support he))
     \<and> (on H_Context \<longrightarrow> host_accepts validate_context (he_context he))
     \<and> (on H_Topology \<longrightarrow> host_accepts validate_topology (he_topology he))
     \<and> (on H_Process \<longrightarrow> host_accepts validate_process (he_process he))
     \<and> (on H_Image \<longrightarrow> host_accepts validate_image (he_image he))
     \<and> (on H_Streams \<longrightarrow> host_accepts validate_streams (he_streams he))
     \<and> (on H_Files \<longrightarrow> host_accepts validate_files (he_files he))
     \<and> (on H_Sockets \<longrightarrow> host_accepts validate_sockets (he_sockets he))
     \<and> (on H_Faults \<longrightarrow> host_accepts (validate_faults arch) (he_faults he))
     \<and> (on H_System \<longrightarrow> host_accepts validate_system (he_system he))
     \<and> (on H_Notifications \<longrightarrow> host_accepts validate_notifications (he_notifications he))
     \<and> (on H_Processes \<longrightarrow> host_accepts validate_processes (he_processes he))
     \<and> (on H_Terminal \<longrightarrow> host_accepts validate_terminal (he_terminal he))
     \<and> (on H_Watches \<longrightarrow> host_accepts validate_watches (he_watches he))
     \<and> (on H_Mappings \<longrightarrow> host_accepts validate_mappings (he_mappings he))
     \<and> (on H_Volumes \<longrightarrow> host_accepts validate_volumes (he_volumes he))
     \<and> (on H_Network \<longrightarrow> host_accepts validate_network (he_network he))
     \<and> (on H_LocalSockets \<longrightarrow> host_accepts validate_local (he_local he))
     \<and> (on H_Accounts \<longrightarrow> host_accepts validate_accounts (he_accounts he))
     \<and> (on H_Priority \<longrightarrow> host_accepts validate_priority (he_priority he))
     \<and> (on H_Packets \<longrightarrow> host_accepts validate_packets (he_packets he))
     \<and> (on H_SpawnAs \<longrightarrow> host_accepts validate_spawn_as (he_spawn_as he))"
  by (simp add: validate_def host_steps_ok)

lemmas host_step_simps = validate_def host_steps_ok host_steps_cell host_step_other no_tables_def cached_new_def

lemma validate_settles:
  shows "host_settled virtual_memory 6 CAP_VM (he_vm he) (fst (validate arch virtual_memory on he no_tables))
      (hc_vm (snd (validate arch virtual_memory on he no_tables)))"
    and "host_settled (on H_Services) 3 (CAP_CLOCK OR CAP_SCHEDULER) (he_services he) (fst (validate arch virtual_memory on he no_tables))
      (hc_services (snd (validate arch virtual_memory on he no_tables)))"
    and "host_settled (on H_Kernel) 19 KERNEL_ALL (he_kernel he) (fst (validate arch virtual_memory on he no_tables))
      (hc_kernel (snd (validate arch virtual_memory on he no_tables)))"
    and "host_settled (on H_Runtime) 13 RUNTIME_ALL (he_runtime he) (fst (validate arch virtual_memory on he no_tables))
      (hc_runtime (snd (validate arch virtual_memory on he no_tables)))"
    and "host_settled (on H_Support) 11 SUPPORT_ALL (he_support he) (fst (validate arch virtual_memory on he no_tables))
      (hc_support (snd (validate arch virtual_memory on he no_tables)))"
    and "host_settled (on H_Context) 12 CAP_CONTEXT (he_context he) (fst (validate arch virtual_memory on he no_tables))
      (hc_context (snd (validate arch virtual_memory on he no_tables)))"
    and "host_settled (on H_Topology) 13 CAP_TOPOLOGY (he_topology he) (fst (validate arch virtual_memory on he no_tables))
      (hc_topology (snd (validate arch virtual_memory on he no_tables)))"
    and "host_settled (on H_Process) 4 CAP_PROCESS (he_process he) (fst (validate arch virtual_memory on he no_tables))
      (hc_process (snd (validate arch virtual_memory on he no_tables)))"
    and "host_settled (on H_Image) 4 CAP_IMAGE (he_image he) (fst (validate arch virtual_memory on he no_tables))
      (hc_image (snd (validate arch virtual_memory on he no_tables)))"
    and "host_settled (on H_Streams) 4 CAP_STREAMS (he_streams he) (fst (validate arch virtual_memory on he no_tables))
      (hc_streams (snd (validate arch virtual_memory on he no_tables)))"
    and "host_settled (on H_Files) 28 CAP_FILES (he_files he) (fst (validate arch virtual_memory on he no_tables))
      (hc_files (snd (validate arch virtual_memory on he no_tables)))"
    and "host_settled (on H_Sockets) 19 CAP_SOCKETS (he_sockets he) (fst (validate arch virtual_memory on he no_tables))
      (hc_sockets (snd (validate arch virtual_memory on he no_tables)))"
    and "host_settled (on H_Faults) 3 CAP_FAULTS (he_faults he) (fst (validate arch virtual_memory on he no_tables))
      (hc_faults (snd (validate arch virtual_memory on he no_tables)))"
    and "host_settled (on H_System) 6 CAP_SYSTEM (he_system he) (fst (validate arch virtual_memory on he no_tables))
      (hc_system (snd (validate arch virtual_memory on he no_tables)))"
    and "host_settled (on H_Notifications) 4 CAP_NOTIFICATIONS (he_notifications he) (fst (validate arch virtual_memory on he no_tables))
      (hc_notifications (snd (validate arch virtual_memory on he no_tables)))"
    and "host_settled (on H_Processes) 8 CAP_PROCESSES (he_processes he) (fst (validate arch virtual_memory on he no_tables))
      (hc_processes (snd (validate arch virtual_memory on he no_tables)))"
    and "host_settled (on H_Terminal) 5 CAP_TERMINAL (he_terminal he) (fst (validate arch virtual_memory on he no_tables))
      (hc_terminal (snd (validate arch virtual_memory on he no_tables)))"
    and "host_settled (on H_Watches) 6 CAP_WATCHES (he_watches he) (fst (validate arch virtual_memory on he no_tables))
      (hc_watches (snd (validate arch virtual_memory on he no_tables)))"
    and "host_settled (on H_Mappings) 4 CAP_MAPPINGS (he_mappings he) (fst (validate arch virtual_memory on he no_tables))
      (hc_mappings (snd (validate arch virtual_memory on he no_tables)))"
    and "host_settled (on H_Volumes) 3 CAP_VOLUMES (he_volumes he) (fst (validate arch virtual_memory on he no_tables))
      (hc_volumes (snd (validate arch virtual_memory on he no_tables)))"
    and "host_settled (on H_Network) 5 CAP_NETWORK (he_network he) (fst (validate arch virtual_memory on he no_tables))
      (hc_network (snd (validate arch virtual_memory on he no_tables)))"
    and "host_settled (on H_LocalSockets) 5 CAP_LOCAL_SOCKETS (he_local he) (fst (validate arch virtual_memory on he no_tables))
      (hc_local (snd (validate arch virtual_memory on he no_tables)))"
    and "host_settled (on H_Accounts) 5 CAP_ACCOUNTS (he_accounts he) (fst (validate arch virtual_memory on he no_tables))
      (hc_accounts (snd (validate arch virtual_memory on he no_tables)))"
    and "host_settled (on H_Priority) 3 CAP_PRIORITY (he_priority he) (fst (validate arch virtual_memory on he no_tables))
      (hc_priority (snd (validate arch virtual_memory on he no_tables)))"
    and "host_settled (on H_Packets) 2 CAP_PACKETS (he_packets he) (fst (validate arch virtual_memory on he no_tables))
      (hc_packets (snd (validate arch virtual_memory on he no_tables)))"
    and "host_settled (on H_SpawnAs) 2 CAP_SPAWN_AS (he_spawn_as he) (fst (validate arch virtual_memory on he no_tables))
      (hc_spawn_as (snd (validate arch virtual_memory on he no_tables)))"
  unfolding host_settled_def validate_verdict
  by (simp_all add: host_step_simps accepts_headers accepts_headers(2-5) [simplified] accepts_headers(13) [of arch])

section \<open>Before negotiation\<close>

text \<open>
  Without a validated table the bridge is the provider that has nothing (\<open>Absent\<close> of \<open>src/src/port.rs\<close>),
  apart from the clock and the scheduler, which answer \<open>Os\<close>.
\<close>

lemma unvalidated_absent:
  "host_kernel None = absent_kernel" "host_support None = absent_support" "host_image None = absent_image"
  "host_streams None = absent_streams" "host_terminal None = absent_terminal" "host_system None = absent_system"
  "host_notifications None = absent_notifications" "host_files None = absent_files" "host_watches None = absent_watches"
  "host_mappings None = absent_mappings" "host_volumes None = absent_volumes" "host_accounts None = absent_accounts"
  "host_priority None = absent_priority" "host_processes None = absent_processes" "host_sockets None = absent_sockets"
  "host_network None = absent_network" "host_local None = absent_local" "host_process None = absent_process"
  "host_vm None = absent_vm" "host_runtime None None = absent_runtime" "host_topology None = absent_topology"
  "host_packets None = absent_packets" "host_spawn_as None = absent_spawn_as" "host_faults_enable None = absent_enable"
  by (simp_all add: fun_eq_iff host_async_def host_kernel_def absent_kernel_def host_support_def host_write_stderr_def absent_support_def
      host_image_def host_readable_def absent_image_def host_streams_def absent_streams_def host_terminal_def absent_terminal_def
      host_system_def absent_system_def host_notifications_def absent_notifications_def host_files_def absent_files_def
      host_watches_def absent_watches_def host_mappings_def absent_mappings_def host_volumes_def absent_volumes_def
      host_accounts_def host_listed_def absent_accounts_def host_priority_def absent_priority_def
      host_processes_def absent_processes_def host_sockets_def host_receive_def host_poll_def absent_sockets_def
      host_network_def absent_network_def host_local_def absent_local_def host_process_def host_buffer_def absent_process_def
      host_vm_def host_page_size_def absent_vm_def host_runtime_def host_environment_get_def absent_runtime_def
      host_topology_def absent_topology_def host_packets_def absent_packets_def host_spawn_as_def absent_spawn_as_def
      host_faults_enable_def absent_enable_def truth_def byte_value_def)

end
