(* ===== verification/Memfs_Content.thy ===== *)
theory Memfs_Content
  imports Pal_Port
begin

text \<open>
  The bytes of a file of the in-memory file system (\<open>Content\<close> and \<open>Pinned\<close> of
  \<open>crates/dotnet-pal-memfs/src/lib.rs\<close>): a vector until the file is first mapped shared, pinned
  pages afterwards. The allocator is an environment that may refuse any request; what it answers
  is a function of the requesting site and the amount, over which every theorem quantifies.
  A vector is its list of bytes: its spare capacity is not observable.
\<close>

named_theorems content_simps \<open>definitions of the content operations\<close>

section \<open>The environment of a call\<close>

text \<open>The places that reserve memory and can be refused.\<close>

datatype site = SReserve | SReserveExact | SUnpin | SListing | SLink | SLocks
  | SQueueNew | SWatch | SPush nat nat bool

text \<open>
  What a call finds outside the tree: the clock, the address a new \<open>Box\<close> gets, which
  reservations succeed, and where zeroed pages are found, if anywhere.
\<close>

record env =
  e_clock :: nat
  e_box :: nat
  e_grant :: "site \<Rightarrow> nat \<Rightarrow> bool"
  e_pages :: "nat \<Rightarrow> nat option"

abbreviation PAGE :: nat where "PAGE \<equiv> 4096"

section \<open>Data\<close>

text \<open>\<open>p_bytes\<close> are the \<open>p_capacity\<close> bytes at \<open>p_base\<close>.\<close>

record pinned =
  p_base :: nat
  p_size :: nat
  p_capacity :: nat
  p_bytes :: "byte list"

datatype content = Plain "byte list" | Pinned pinned

definition pages :: "env \<Rightarrow> nat \<Rightarrow> nat result" where
  [content_simps]: "pages env sz =
     (if ISIZE_MAX + 1 - PAGE < sz then Inl OutOfMemory
      else ok_or (e_pages env sz) OutOfMemory)"

definition pinned_set_size :: "pinned \<Rightarrow> nat \<Rightarrow> pinned" where
  [content_simps]: "pinned_set_size p sz =
     (let from = min (p_size p) sz; upto = max (p_size p) sz
      in p\<lparr>p_bytes := overwrite (p_bytes p) from (replicate (upto - from) 0), p_size := sz\<rparr>)"

fun content_len :: "content \<Rightarrow> nat" where
  "content_len (Plain bytes) = length bytes"
| "content_len (Pinned p) = p_size p"

text \<open>The bytes copied out; their number is the count the call returns.\<close>

definition content_read :: "content \<Rightarrow> nat \<Rightarrow> nat \<Rightarrow> byte list" where
  [content_simps]: "content_read c offset capacity =
     (case usize_try_from offset of
        None \<Rightarrow> []
      | Some start \<Rightarrow>
          if start < content_len c then
            (let count = min (content_len c - start) capacity
             in case c of
                  Plain bytes \<Rightarrow> take count (drop start bytes)
                | Pinned p \<Rightarrow> take count (drop start (p_bytes p)))
          else [])"

definition content_pin :: "env \<Rightarrow> content \<Rightarrow> nat \<Rightarrow> nat result \<times> content" where
  [content_simps]: "content_pin env c capacity =
     (case c of
        Plain bytes \<Rightarrow>
          (case pages env capacity of
             Inl e \<Rightarrow> (Inl e, c)
           | Inr base \<Rightarrow>
               (Inr base, Pinned \<lparr>p_base = base, p_size = length bytes, p_capacity = capacity,
                  p_bytes = overwrite (replicate capacity 0) 0 bytes\<rparr>))
      | Pinned p \<Rightarrow> (Inr (p_base p), c))"

definition content_unpin :: "env \<Rightarrow> content \<Rightarrow> nat \<Rightarrow> unit result \<times> content" where
  [content_simps]: "content_unpin env c wanted =
     (case c of
        Plain _ \<Rightarrow> (Inr (), c)
      | Pinned p \<Rightarrow>
          if e_grant env SUnpin wanted
          then (Inr (), Plain (take (min (p_size p) wanted) (p_bytes p)))
          else (Inl NoSpace, c))"

definition content_prepare :: "env \<Rightarrow> content \<Rightarrow> nat \<Rightarrow> nat \<Rightarrow> bool \<Rightarrow> unit result \<times> content" where
  [content_simps]: "content_prepare env c wanted room mapped =
     (case c of
        Plain _ \<Rightarrow> (Inr (), c)
      | Pinned p \<Rightarrow>
          if room < wanted - p_size p then (Inl NoSpace, c)
          else
            let outgrown = (p_capacity p < wanted); wasteful = (wanted \<le> p_capacity p div 2)
            in if mapped then (if outgrown then Inl NoSpace else Inr (), c)
               else if \<not> outgrown \<and> \<not> wasteful then (Inr (), c)
               else (case content_unpin env c wanted of
                       (Inl refused, c') \<Rightarrow> (if outgrown then Inl refused else Inr (), c')
                     | (Inr _, c') \<Rightarrow> (Inr (), c')))"

definition vec_reserve :: "env \<Rightarrow> byte list \<Rightarrow> nat \<Rightarrow> nat \<Rightarrow> unit result" where
  [content_simps]: "vec_reserve env content additional room =
     (if room < additional then Inl NoSpace
      else if e_grant env SReserve additional \<or> e_grant env SReserveExact additional
      then Inr () else Inl NoSpace)"

text \<open>
  The copy into an exactly sized vector after a cut keeps the same bytes whether or not its
  reservation succeeds, so the cut is all there is to see.
\<close>

definition vec_resize :: "env \<Rightarrow> byte list \<Rightarrow> nat \<Rightarrow> nat \<Rightarrow> unit result \<times> byte list" where
  [content_simps]: "vec_resize env content sz room =
     (case usize_try_from sz of
        None \<Rightarrow> (Inl NoSpace, content)
      | Some sz \<Rightarrow>
          if length content < sz then
            (case vec_reserve env content (sz - length content) room of
               Inl e \<Rightarrow> (Inl e, content)
             | Inr _ \<Rightarrow> (Inr (), content @ replicate (sz - length content) 0))
          else if sz = 0 then (Inr (), [])
          else (Inr (), take sz content))"

definition vec_fill :: "byte list \<Rightarrow> nat \<Rightarrow> nat \<Rightarrow> byte list \<Rightarrow> byte list" where
  [content_simps]: "vec_fill content start end data =
     (let inside = min (length content) end - start
      in overwrite content start (take inside data) @ drop inside data)"

definition vec_write :: "env \<Rightarrow> byte list \<Rightarrow> nat \<Rightarrow> byte list \<Rightarrow> nat \<Rightarrow> nat result \<times> byte list" where
  [content_simps]: "vec_write env content offset data room =
     (case checked_add offset (length data) of
        None \<Rightarrow> (Inl NoSpace, content)
      | Some end \<Rightarrow>
          (let start = end - length data in
           if length content < end then
             (case vec_reserve env content (end - length content) room of
                Inl e \<Rightarrow> (Inl e, content)
              | Inr _ \<Rightarrow>
                  let grown = (if length content < start
                               then content @ replicate (start - length content) 0 else content)
                  in (Inr (length data), vec_fill grown start end data))
           else (Inr (length data), vec_fill content start end data)))"

definition content_resize :: "env \<Rightarrow> content \<Rightarrow> nat \<Rightarrow> nat \<Rightarrow> bool \<Rightarrow> unit result \<times> content" where
  [content_simps]: "content_resize env c sz room mapped =
     (case usize_try_from sz of
        None \<Rightarrow> (Inl NoSpace, c)
      | Some wanted \<Rightarrow>
          and_then (content_prepare env c wanted room mapped) (\<lambda>_ c'.
            case c' of
              Plain bytes \<Rightarrow> map_prod id Plain (vec_resize env bytes sz room)
            | Pinned p \<Rightarrow> (Inr (), Pinned (pinned_set_size p wanted))))"

definition content_write ::
  "env \<Rightarrow> content \<Rightarrow> nat \<Rightarrow> byte list \<Rightarrow> nat \<Rightarrow> bool \<Rightarrow> nat result \<times> content" where
  [content_simps]: "content_write env c offset data room mapped =
     (case checked_add offset (length data) of
        None \<Rightarrow> (Inl NoSpace, c)
      | Some end \<Rightarrow>
          and_then (content_prepare env c (max end (content_len c)) room mapped) (\<lambda>_ c'.
            case c' of
              Plain bytes \<Rightarrow> map_prod id Plain (vec_write env bytes offset data room)
            | Pinned p \<Rightarrow>
                let p' = (if p_size p < end then pinned_set_size p end else p)
                in (Inr (length data),
                    Pinned (p'\<lparr>p_bytes := overwrite (p_bytes p') (end - length data) data\<rparr>))))"

section \<open>Well-formed content and what it holds\<close>

definition pinned_ok :: "pinned \<Rightarrow> bool" where
  "pinned_ok p \<longleftrightarrow> p_size p \<le> p_capacity p \<and> length (p_bytes p) = p_capacity p
     \<and> PAGE dvd p_capacity p"

fun content_ok :: "content \<Rightarrow> bool" where
  "content_ok (Plain bytes) = True"
| "content_ok (Pinned p) = pinned_ok p"

fun content_bytes :: "content \<Rightarrow> byte list" where
  "content_bytes (Plain bytes) = bytes"
| "content_bytes (Pinned p) = take (p_size p) (p_bytes p)"

text \<open>The abstract file: a byte string that grows with zeros.\<close>

definition file_resize :: "byte list \<Rightarrow> nat \<Rightarrow> byte list" where
  "file_resize bs n = take n bs @ replicate (n - length bs) 0"

definition file_write :: "byte list \<Rightarrow> nat \<Rightarrow> byte list \<Rightarrow> byte list" where
  "file_write bs i data =
     (let grown = file_resize bs (max (length bs) (i + length data))
      in overwrite grown i data)"

definition file_read :: "byte list \<Rightarrow> nat \<Rightarrow> nat \<Rightarrow> byte list" where
  "file_read bs i n = take n (drop i bs)"

section \<open>Refinement to the abstract file\<close>

lemma length_file_resize [simp]: "length (file_resize bs n) = n"
  by (simp add: file_resize_def)

lemma length_file_write [simp]: "length (file_write bs i data) = max (length bs) (i + length data)"
  by (simp add: file_write_def)

lemma file_resize_take: "n \<le> length bs \<Longrightarrow> file_resize bs n = take n bs"
  by (simp add: file_resize_def)

lemma nth_file_resize: "i < n \<Longrightarrow> file_resize bs n ! i = (if i < length bs then bs ! i else 0)"
  by (auto simp: file_resize_def nth_append)

lemma nth_file_write:
  assumes "j < max (length bs) (i + length data)"
  shows "file_write bs i data ! j =
    (if i \<le> j \<and> j < i + length data then data ! (j - i)
     else if j < length bs then bs ! j else 0)"
  using assms by (simp add: file_write_def nth_overwrite nth_file_resize)

lemma content_len_bytes: "content_ok c \<Longrightarrow> content_len c = length (content_bytes c)"
  by (cases c) (auto simp: pinned_ok_def)

lemma content_read_spec:
  assumes "content_ok c" "i \<le> USIZE_MAX"
  shows "content_read c i n = file_read (content_bytes c) i n"
proof (cases c)
  case (Plain bytes)
  then show ?thesis
    using assms by (auto simp: content_read_def usize_try_from_def file_read_def min_def)
next
  case (Pinned p)
  then have len: "p_size p \<le> length (p_bytes p)" using assms by (auto simp: pinned_ok_def)
  have "take (min (p_size p - i) n) (drop i (p_bytes p)) = take n (drop i (take (p_size p) (p_bytes p)))"
    by (simp add: drop_take min.commute)
  then show ?thesis
    using Pinned assms len by (auto simp: content_read_def usize_try_from_def file_read_def)
qed

lemma pinned_set_size_ok:
  assumes "pinned_ok p" "n \<le> p_capacity p"
  shows "pinned_ok (pinned_set_size p n)"
  using assms by (auto simp: pinned_ok_def pinned_set_size_def Let_def)

lemma pinned_set_size_bytes:
  assumes "pinned_ok p" "n \<le> p_capacity p"
  shows "take n (p_bytes (pinned_set_size p n)) = file_resize (take (p_size p) (p_bytes p)) n"
proof (rule nth_equalityI)
  show "length (take n (p_bytes (pinned_set_size p n))) =
    length (file_resize (take (p_size p) (p_bytes p)) n)"
    using assms by (auto simp: pinned_ok_def pinned_set_size_def Let_def)
  fix i assume "i < length (take n (p_bytes (pinned_set_size p n)))"
  then have "i < n" by simp
  then show "take n (p_bytes (pinned_set_size p n)) ! i =
    file_resize (take (p_size p) (p_bytes p)) n ! i"
    using assms by (auto simp: pinned_ok_def pinned_set_size_def Let_def nth_overwrite nth_file_resize)
qed

text \<open>What \<open>prepare\<close> may do: nothing, or move the bytes of an unmapped file back into a vector.\<close>

lemma content_prepare_cases:
  assumes "content_prepare env c wanted room mapped = (r, c')"
  shows "c' = c \<or> (\<exists>p. c = Pinned p \<and> \<not> mapped \<and> r = Inr ()
            \<and> c' = Plain (take (min (p_size p) wanted) (p_bytes p)))"
  using assms by (auto simp: content_prepare_def content_unpin_def Let_def split: content.splits if_splits)

lemma content_prepare_fits:
  assumes "content_prepare env c wanted room mapped = (Inr (), c')"
  shows "c' = Pinned p \<Longrightarrow> wanted \<le> p_capacity p"
    and "c = Pinned q \<Longrightarrow> wanted - p_size q \<le> room"
  using assms by (auto simp: content_prepare_def content_unpin_def Let_def split: content.splits if_splits)

lemma vec_resize_spec:
  assumes "vec_resize env bs n room = (r, bs')"
  shows "r = Inr () \<Longrightarrow> bs' = file_resize bs n \<and> n - length bs \<le> room" and "r = Inl e \<Longrightarrow> bs' = bs"
  using assms
  by (auto simp: vec_resize_def vec_reserve_def file_resize_def usize_try_from_def split: option.splits if_splits)

lemma vec_fill_spec:
  assumes "length bs \<le> i + length data" "i \<le> length bs"
  shows "vec_fill bs i (i + length data) data = file_write bs i data"
proof -
  have "inside = length bs - i \<Longrightarrow> overwrite bs i (take inside data) = take i bs @ take inside data" for inside
    using assms by (simp add: overwrite_def min_def)
  then show ?thesis
    using assms by (simp add: vec_fill_def Let_def file_write_def file_resize_def overwrite_def max_def min_def)
qed

lemma vec_fill_inside:
  assumes "i + length data \<le> length bs"
  shows "vec_fill bs i (i + length data) data = file_write bs i data"
  using assms by (simp add: vec_fill_def Let_def file_write_def file_resize_def max_def)

lemma file_write_grown:
  "length bs < i \<Longrightarrow> file_write (bs @ replicate (i - length bs) 0) i data = file_write bs i data"
  by (rule nth_equalityI) (auto simp: nth_file_write nth_append)

lemma vec_write_spec:
  assumes "vec_write env bs i data room = (r, bs')"
  shows "r = Inr k \<Longrightarrow> bs' = file_write bs i data \<and> k = length data \<and> i + length data - length bs \<le> room"
    and "r = Inl e \<Longrightarrow> bs' = bs"
proof -
  assume ok: "r = Inr k"
  consider "i + length data \<le> length bs" | "length bs < i + length data" "i \<le> length bs" | "length bs < i"
    by linarith
  then show "bs' = file_write bs i data \<and> k = length data \<and> i + length data - length bs \<le> room"
  proof cases
    case 3
    have "vec_fill (bs @ replicate (i - length bs) 0) i (i + length data) data = file_write bs i data"
      using 3 by (subst vec_fill_spec) (simp_all add: file_write_grown)
    then show ?thesis using assms ok 3
      by (auto simp: vec_write_def vec_reserve_def Let_def checked_add_def split: if_splits)
  qed (use assms ok in \<open>auto simp: vec_write_def vec_reserve_def Let_def checked_add_def
          vec_fill_spec vec_fill_inside split: if_splits\<close>)
next
  assume "r = Inl e"
  then show "bs' = bs"
    using assms by (auto simp: vec_write_def vec_reserve_def Let_def split: option.splits if_splits)
qed

lemma file_resize_shrink_first:
  "file_resize (take (min (length bs) n) bs) n = file_resize bs n"
  by (simp add: file_resize_def min_def)

text \<open>The content after an edit, for every outcome: this is what the tree relies on.\<close>

lemma content_resize_spec:
  assumes ok: "content_ok c" and run: "content_resize env c n room mapped = (r, c')"
  shows content_resize_ok: "content_ok c'"
    and content_resize_bytes: "r = Inr () \<Longrightarrow> content_bytes c' = file_resize (content_bytes c) n"
    and content_resize_room: "r = Inr () \<Longrightarrow> n - length (content_bytes c) \<le> room"
    and content_resize_error: "r = Inl e \<Longrightarrow> content_bytes c' = content_bytes c"
proof -
  have "content_ok c' \<and> (r = Inr () \<longrightarrow> content_bytes c' = file_resize (content_bytes c) n
      \<and> n - length (content_bytes c) \<le> room) \<and> (r = Inl e \<longrightarrow> content_bytes c' = content_bytes c)"
  proof (cases "usize_try_from n")
    case None
    then show ?thesis using run ok by (auto simp: content_resize_def)
  next
    case (Some m)
    then have m: "m = n" by (simp add: usize_try_from_Some_iff)
    obtain q d where prep: "content_prepare env c n room mapped = (q, d)" by force
    show ?thesis
    proof (cases q)
      case (Inl e)
      then have "d = c" using content_prepare_cases [OF prep] by auto
      then show ?thesis using run ok Some m prep Inl by (auto simp: content_resize_def)
    next
      case (Inr u)
      note fits = content_prepare_fits [OF prep [unfolded Inr, simplified]]
      show ?thesis
      proof (cases d)
        case (Plain bs)
        obtain q' bs' where vr: "vec_resize env bs n room = (q', bs')" by force
        then have out: "r = q'" "c' = Plain bs'"
          using run Some m prep Inr Plain by (auto simp: content_resize_def)
        have eq: "file_resize bs n = file_resize (content_bytes c) n \<and>
            (n - length bs \<le> room \<longrightarrow> n - length (content_bytes c) \<le> room) \<and>
            (bs = content_bytes c \<or> n < length (content_bytes c))"
          using content_prepare_cases [OF prep] ok Plain
          by (auto simp: file_resize_def min_def pinned_ok_def not_le split: if_splits)
        have "n < length (content_bytes c) \<Longrightarrow> q' \<noteq> Inl e"
          using vr eq content_prepare_cases [OF prep] Plain m Some ok
          by (auto simp: vec_resize_def pinned_ok_def split: if_splits)
        then show ?thesis using out eq vec_resize_spec [OF vr] by auto
      next
        case (Pinned p)
        then have "c = Pinned p" using content_prepare_cases [OF prep] by auto
        then show ?thesis
          using run Some m prep Inr Pinned fits ok pinned_set_size_ok [of p n] pinned_set_size_bytes [of p n]
          by (auto simp: content_resize_def pinned_ok_def pinned_set_size_def Let_def)
      qed
    qed
  qed
  then show "content_ok c'" "r = Inr () \<Longrightarrow> content_bytes c' = file_resize (content_bytes c) n"
    "r = Inr () \<Longrightarrow> n - length (content_bytes c) \<le> room"
    "r = Inl e \<Longrightarrow> content_bytes c' = content_bytes c"
    by auto
qed

lemma content_prepare_keeps_bytes:
  assumes "content_ok c" "content_prepare env c wanted room mapped = (r, c')" "content_len c \<le> wanted"
  shows "content_bytes c' = content_bytes c" and "content_ok c'"
  using content_prepare_cases [OF assms(2)] assms(1,3) by (auto simp: min_def pinned_ok_def)

lemma pinned_write:
  assumes "pinned_ok p" "i + length data \<le> p_capacity p"
  defines "p' \<equiv> (if p_size p < i + length data then pinned_set_size p (i + length data) else p)"
  defines "q \<equiv> p'\<lparr>p_bytes := overwrite (p_bytes p') i data\<rparr>"
  shows pinned_write_ok: "pinned_ok q"
    and pinned_write_bytes: "content_bytes (Pinned q) = file_write (content_bytes (Pinned p)) i data"
proof -
  have p': "pinned_ok p'" "p_size p' = max (p_size p) (i + length data)" "p_capacity p' = p_capacity p"
    using assms(1,2) pinned_set_size_ok [of p "i + length data"]
    by (auto simp: p'_def) (auto simp: pinned_set_size_def Let_def)
  then have fits: "i + length data \<le> length (p_bytes p')" using assms(2) by (simp add: pinned_ok_def)
  show "pinned_ok q" using p' fits by (simp add: q_def pinned_ok_def)
  have base: "take (p_size p') (p_bytes p') = file_resize (content_bytes (Pinned p)) (p_size p')"
    using assms(1,2) pinned_set_size_bytes [of p "i + length data"]
    by (auto simp: p'_def file_resize_def pinned_ok_def min_def) (auto simp: pinned_set_size_def Let_def)
  have len: "length (take (p_size p) (p_bytes p)) = p_size p" using assms(1) by (simp add: pinned_ok_def)
  have "take (p_size p') (overwrite (p_bytes p') i data) = overwrite (take (p_size p') (p_bytes p')) i data"
    using p'(2) fits by (rule_tac nth_equalityI) (auto simp: nth_overwrite p'(1) [unfolded pinned_ok_def])
  then show "content_bytes (Pinned q) = file_write (content_bytes (Pinned p)) i data"
    using base p'(2) len by (simp add: q_def file_write_def Let_def)
qed

lemma content_write_spec:
  assumes ok: "content_ok c" and run: "content_write env c i data room mapped = (r, c')"
  shows content_write_ok: "content_ok c'"
    and content_write_bytes: "r = Inr k \<Longrightarrow> content_bytes c' = file_write (content_bytes c) i data"
    and content_write_count: "r = Inr k \<Longrightarrow> k = length data"
    and content_write_room: "r = Inr k \<Longrightarrow> i + length data - length (content_bytes c) \<le> room"
    and content_write_error: "r = Inl e \<Longrightarrow> content_bytes c' = content_bytes c"
proof -
  have "content_ok c' \<and> (r = Inr k \<longrightarrow> content_bytes c' = file_write (content_bytes c) i data
      \<and> k = length data \<and> i + length data - length (content_bytes c) \<le> room)
      \<and> (r = Inl e \<longrightarrow> content_bytes c' = content_bytes c)"
  proof (cases "checked_add i (length data)")
    case None
    then show ?thesis using run ok by (auto simp: content_write_def)
  next
    case (Some last)
    then have e: "last = i + length data" by (simp add: checked_add_Some_iff)
    let ?wanted = "max last (content_len c)"
    obtain q d where prep: "content_prepare env c ?wanted room mapped = (q, d)" by force
    note keep = content_prepare_keeps_bytes [OF ok prep max.cobounded2]
    show ?thesis
    proof (cases q)
      case (Inl f)
      then show ?thesis using run ok Some prep keep by (auto simp: content_write_def)
    next
      case (Inr u)
      note fits = content_prepare_fits [OF prep [unfolded Inr, simplified]]
      show ?thesis
      proof (cases d)
        case (Plain bs)
        obtain q' bs' where vw: "vec_write env bs i data room = (q', bs')" by force
        then have "r = q'" "c' = Plain bs'"
          using run Some prep Inr Plain by (auto simp: content_write_def)
        then show ?thesis using vec_write_spec [OF vw] keep Plain by auto
      next
        case (Pinned p)
        then have c: "c = Pinned p" using content_prepare_cases [OF prep] by auto
        have "i + length data \<le> p_capacity p" "i + length data - p_size p \<le> room"
          using fits Pinned c e by auto
        then show ?thesis
          using run Some e prep Inr Pinned c ok pinned_write [of p i data]
          by (auto simp: content_write_def Let_def pinned_ok_def)
      qed
    qed
  qed
  then show "content_ok c'" "r = Inr k \<Longrightarrow> content_bytes c' = file_write (content_bytes c) i data"
    "r = Inr k \<Longrightarrow> k = length data" "r = Inr k \<Longrightarrow> i + length data - length (content_bytes c) \<le> room"
    "r = Inl e \<Longrightarrow> content_bytes c' = content_bytes c"
    by auto
qed

section \<open>Mapped pages stay where they are\<close>

definition same_pages :: "content \<Rightarrow> content \<Rightarrow> bool" where
  "same_pages c d \<longleftrightarrow> (\<exists>p q. c = Pinned p \<and> d = Pinned q \<and> p_base q = p_base p \<and> p_capacity q = p_capacity p)"

lemma content_resize_mapped:
  "content_resize env (Pinned p) n room True = (r, c') \<Longrightarrow> same_pages (Pinned p) c'"
  by (auto simp: content_resize_def content_prepare_def same_pages_def pinned_set_size_def Let_def
      split: option.splits if_splits)

lemma content_write_mapped:
  "content_write env (Pinned p) i data room True = (r, c') \<Longrightarrow> same_pages (Pinned p) c'"
  by (auto simp: content_write_def content_prepare_def same_pages_def pinned_set_size_def Let_def
      split: option.splits if_splits)

lemma content_pin_spec:
  assumes "content_ok c" "content_pin env c cap = (r, c')" "PAGE dvd cap" "content_len c \<le> cap"
  shows content_pin_ok: "content_ok c'"
    and content_pin_bytes: "content_bytes c' = content_bytes c"
    and content_pin_base: "r = Inr base \<Longrightarrow> \<exists>p. c' = Pinned p \<and> p_base p = base"
    and content_pin_again: "c = Pinned p \<Longrightarrow> c' = c"
  using assms
  by (auto simp: content_pin_def pages_def pinned_ok_def overwrite_def split: content.splits sum.splits)

end
