(* ===== verification/Memfs_Queue.thy ===== *)
theory Memfs_Queue
  imports Memfs_Content Pal_Watches
begin

text \<open>
  The event queue of a watcher (\<open>Queue\<close> of \<open>crates/dotnet-pal-memfs/src/lib.rs\<close>): events are
  encoded into a byte deque as watch, kinds, cookie, name length and name; the queue is bounded and
  says with one \<open>OVERFLOW\<close> record that it lost something. The theory gives the encoding, its
  decoding, and the queue contract as a locale that the encoded queue is shown to satisfy.
  \<open>to_ne_bytes\<close> is little-endian, as on every target of the repository.
\<close>

section \<open>The encoded queue\<close>

definition to_ne_bytes :: "32 word \<Rightarrow> byte list" where
  "to_ne_bytes w = [ucast w, ucast (drop_bit 8 w), ucast (drop_bit 16 w), ucast (drop_bit 24 w)]"

definition from_ne_bytes :: "byte list \<Rightarrow> 32 word" where
  "from_ne_bytes bs =
     ucast (bs ! 0) OR push_bit 8 (ucast (bs ! 1)) OR push_bit 16 (ucast (bs ! 2)) OR push_bit 24 (ucast (bs ! 3))"

record queue =
  q_bytes :: "byte list"
  q_count :: nat
  q_lost :: bool

abbreviation QUEUE_LIMIT :: nat where "QUEUE_LIMIT \<equiv> 1024"
abbreviation HEADER :: nat where "HEADER \<equiv> 13"

definition queue_new :: "env \<Rightarrow> queue result" where
  "queue_new env = (if e_grant env SQueueNew HEADER
     then Inr \<lparr>q_bytes = [], q_count = 0, q_lost = False\<rparr> else Inl OutOfMemory)"

definition queue_record :: "32 word \<Rightarrow> flags \<Rightarrow> 32 word \<Rightarrow> name \<Rightarrow> queue \<Rightarrow> queue" where
  "queue_record watch events cookie name q =
     q\<lparr>q_bytes := q_bytes q @ to_ne_bytes watch @ to_ne_bytes events @ to_ne_bytes cookie
         @ [of_nat (length name)] @ name,
       q_count := q_count q + 1\<rparr>"

text \<open>\<open>wid\<close> tells the allocator's answers for one queue from those for another.\<close>

definition queue_push :: "env \<Rightarrow> nat \<Rightarrow> 32 word \<Rightarrow> flags \<Rightarrow> 32 word \<Rightarrow> name \<Rightarrow> queue \<Rightarrow> queue" where
  "queue_push env wid watch events cookie name q =
     (if QUEUE_LIMIT \<le> q_count q
         \<or> \<not> e_grant env (SPush wid (q_count q) (q_lost q)) (2 * HEADER + length name)
      then (if q_lost q then q else queue_record 0 W_OVERFLOW 0 [] (q\<lparr>q_lost := True\<rparr>))
      else queue_record watch events cookie name q)"

definition LOST_EVENT :: event where
  "LOST_EVENT = EMPTY_EVENT\<lparr>ev_events := W_OVERFLOW\<rparr>"

text \<open>
  The outer \<open>None\<close> is the panic of a \<open>drain\<close> beyond the end of the deque; the inner one is the
  answer of an empty queue, or of a record cut off before its name length.
\<close>

definition queue_pop :: "queue \<Rightarrow> (event option \<times> queue) option" where
  "queue_pop q =
     (if q_count q = 0 then Some (None, q)
      else if length (q_bytes q) < 12 then None
      else
        let bs = q_bytes q;
            watch = from_ne_bytes (take 4 bs);
            events = from_ne_bytes (take 4 (drop 4 bs));
            cookie = from_ne_bytes (take 4 (drop 8 bs))
        in case drop 12 bs of
             [] \<Rightarrow> Some (None, q\<lparr>q_bytes := []\<rparr>)
           | len # rest \<Rightarrow>
               if length rest < unat len then None
               else
                 Some (Some (case event_new watch events cookie (take (unat len) rest) of
                               Some e \<Rightarrow> e | None \<Rightarrow> LOST_EVENT),
                       q\<lparr>q_bytes := drop (unat len) rest, q_count := q_count q - 1,
                         q_lost := (if events AND W_OVERFLOW \<noteq> 0 then False else q_lost q)\<rparr>))"

section \<open>Encoding and decoding\<close>

lemma length_to_ne_bytes [simp]: "length (to_ne_bytes w) = 4"
  by (simp add: to_ne_bytes_def)

lemma ne_bytes_roundtrip [simp]: "from_ne_bytes (to_ne_bytes w) = w"
proof (rule bit_word_eqI)
  fix n assume "n < LENGTH(32)"
  then have n: "n < 32" by simp
  have "n < 8 \<or> (8 \<le> n \<and> n < 16) \<or> (16 \<le> n \<and> n < 24) \<or> (24 \<le> n \<and> n < 32)" using n by linarith
  then show "bit (from_ne_bytes (to_ne_bytes w)) n = bit w n"
    by (elim disjE)
      (auto simp: from_ne_bytes_def to_ne_bytes_def bit_simps nth_Cons' dest: bit_imp_le_length)
qed

type_synonym qevent = "32 word \<times> flags \<times> 32 word \<times> name"

fun encode_event :: "qevent \<Rightarrow> byte list" where
  "encode_event (watch, events, cookie, name) =
     to_ne_bytes watch @ to_ne_bytes events @ to_ne_bytes cookie @ [of_nat (length name)] @ name"

text \<open>The event a reader gets for a queued one.\<close>

fun deliver :: "qevent \<Rightarrow> event" where
  "deliver (watch, events, cookie, name) =
     (case event_new watch events cookie name of Some e \<Rightarrow> e | None \<Rightarrow> LOST_EVENT)"

fun decode_events :: "nat \<Rightarrow> byte list \<Rightarrow> qevent list" where
  "decode_events 0 bs = []"
| "decode_events (Suc n) bs =
     (from_ne_bytes (take 4 bs), from_ne_bytes (take 4 (drop 4 bs)), from_ne_bytes (take 4 (drop 8 bs)),
      take (unat (bs ! 12)) (drop 13 bs)) # decode_events n (drop (13 + unat (bs ! 12)) bs)"

definition queue_events :: "queue \<Rightarrow> qevent list" where
  "queue_events q = decode_events (q_count q) (q_bytes q)"

definition overflow_of :: "qevent \<Rightarrow> bool" where
  "overflow_of ev \<longleftrightarrow> fst (snd ev) AND W_OVERFLOW \<noteq> 0"

definition short_name :: "qevent \<Rightarrow> bool" where
  "short_name ev \<longleftrightarrow> length (snd (snd (snd ev))) \<le> MAX_ENTRY_NAME"

definition OVERFLOW_RECORD :: qevent where
  "OVERFLOW_RECORD = (0, W_OVERFLOW, 0, [])"

definition queue_inv :: "queue \<Rightarrow> bool" where
  "queue_inv q \<longleftrightarrow> (\<exists>es. q_bytes q = concat (map encode_event es) \<and> q_count q = length es
     \<and> list_all short_name es \<and> length es \<le> QUEUE_LIMIT + (if q_lost q then 1 else 0)
     \<and> length (filter overflow_of es) = (if q_lost q then 1 else 0))"

lemma unat_name_length: "n \<le> 255 \<Longrightarrow> unat (of_nat n :: 8 word) = n"
  by (simp add: unat_of_nat)

lemma decode_encode:
  "list_all short_name es \<Longrightarrow> decode_events (length es) (concat (map encode_event es) @ rest) = es"
proof (induction es)
  case (Cons ev es)
  obtain w k c n where ev: "ev = (w, k, c, n)" by (metis surj_pair)
  have n: "length n \<le> 255" using Cons.prems ev by (simp add: short_name_def)
  have "encode_event ev ! 12 = of_nat (length n)" by (simp add: ev nth_append)
  then have "(encode_event ev @ r) ! 12 = of_nat (length n)" for r by (simp add: ev nth_append)
  then show ?case using Cons n by (simp add: ev unat_name_length)
qed simp

lemma queue_inv_events:
  assumes "queue_inv q"
  shows "q_bytes q = concat (map encode_event (queue_events q))" "q_count q = length (queue_events q)"
    "list_all short_name (queue_events q)" "length (queue_events q) \<le> QUEUE_LIMIT + (if q_lost q then 1 else 0)"
    "length (filter overflow_of (queue_events q)) = (if q_lost q then 1 else 0)"
proof -
  obtain es where es: "q_bytes q = concat (map encode_event es)" "q_count q = length es"
     "list_all short_name es" "length es \<le> QUEUE_LIMIT + (if q_lost q then 1 else 0)"
     "length (filter overflow_of es) = (if q_lost q then 1 else 0)"
    using assms by (auto simp: queue_inv_def)
  then have "queue_events q = es" using decode_encode [of es "[]"] by (simp add: queue_events_def)
  then show "q_bytes q = concat (map encode_event (queue_events q))" "q_count q = length (queue_events q)"
    "list_all short_name (queue_events q)" "length (queue_events q) \<le> QUEUE_LIMIT + (if q_lost q then 1 else 0)"
    "length (filter overflow_of (queue_events q)) = (if q_lost q then 1 else 0)"
    using es by simp_all
qed

lemma queue_invI:
  assumes "q_bytes q = concat (map encode_event es)" "q_count q = length es"
    "list_all short_name es" "length es \<le> QUEUE_LIMIT + (if q_lost q then 1 else 0)"
    "length (filter overflow_of es) = (if q_lost q then 1 else 0)"
  shows "queue_inv q" "queue_events q = es"
  using assms decode_encode [of es "[]"] by (auto simp: queue_inv_def queue_events_def)

section \<open>The queue contract\<close>

text \<open>
  A bounded first-in first-out queue of events with a list abstraction. \<open>granted\<close> is the
  allocator's answer to the reservation of one push. A push that finds room appends; one that does
  not is the first since the last reported loss, which appends the overflow record, or is silent.
  A pop delivers the oldest event, and never fails on a well-formed queue.
\<close>

locale event_queue =
  fixes push :: "bool \<Rightarrow> qevent \<Rightarrow> 'q \<Rightarrow> 'q"
    and pop :: "'q \<Rightarrow> (event option \<times> 'q) option"
    and events :: "'q \<Rightarrow> qevent list"
    and lost :: "'q \<Rightarrow> bool"
    and invar :: "'q \<Rightarrow> bool"
  assumes push_room: "invar q \<Longrightarrow> short_name ev \<Longrightarrow> \<not> overflow_of ev \<Longrightarrow> granted \<Longrightarrow>
      length (events q) < QUEUE_LIMIT \<Longrightarrow>
      events (push granted ev q) = events q @ [ev] \<and> lost (push granted ev q) = lost q"
    and push_full: "invar q \<Longrightarrow> short_name ev \<Longrightarrow> \<not> overflow_of ev \<Longrightarrow> \<not> granted \<or> QUEUE_LIMIT \<le> length (events q) \<Longrightarrow>
      events (push granted ev q) = events q @ (if lost q then [] else [OVERFLOW_RECORD]) \<and> lost (push granted ev q)"
    and pop_empty: "invar q \<Longrightarrow> events q = [] \<Longrightarrow> pop q = Some (None, q)"
    and pop_next: "invar q \<Longrightarrow> events q = ev # es \<Longrightarrow>
      \<exists>q'. pop q = Some (Some (deliver ev), q') \<and> events q' = es \<and> invar q' \<and> (lost q' \<longleftrightarrow> lost q \<and> \<not> overflow_of ev)"
    and invar_push: "invar q \<Longrightarrow> short_name ev \<Longrightarrow> \<not> overflow_of ev \<Longrightarrow> invar (push granted ev q)"
    and bounded: "invar q \<Longrightarrow> length (events q) \<le> QUEUE_LIMIT + 1"
begin

text \<open>Reading until the queue is empty.\<close>

fun drain :: "nat \<Rightarrow> 'q \<Rightarrow> event list" where
  "drain 0 q = []"
| "drain (Suc n) q =
     (case pop q of Some (Some e, q') \<Rightarrow> e # drain n q' | _ \<Rightarrow> [])"

lemma drain_delivers_in_order:
  "invar q \<Longrightarrow> length (events q) \<le> n \<Longrightarrow> drain n q = map deliver (events q)"
proof (induction n arbitrary: q)
  case (Suc n)
  show ?case
  proof (cases "events q")
    case Nil
    then show ?thesis using Suc.prems pop_empty by simp
  next
    case (Cons ev es)
    then obtain q' where "pop q = Some (Some (deliver ev), q')" "events q' = es" "invar q'"
      using pop_next Suc.prems(1) by blast
    then show ?thesis using Suc Cons by simp
  qed
qed simp

lemma push_keeps_queued:
  assumes "invar q" "short_name ev" "\<not> overflow_of ev"
  shows "\<exists>new. events (push granted ev q) = events q @ new \<and> length new \<le> 1"
  using push_room [OF assms, of granted] push_full [OF assms, of granted]
  by (cases "granted \<and> length (events q) < QUEUE_LIMIT") (auto simp: not_less)

text \<open>A loss is always announced: whoever reads on gets an overflow event.\<close>

lemma loss_is_announced:
  assumes "invar q" "short_name ev" "\<not> overflow_of ev" "ev \<notin> set (events (push granted ev q))"
  shows "lost (push granted ev q)"
  using push_room [OF assms(1-3), of granted] push_full [OF assms(1-3), of granted] assms(4)
  by (cases "granted \<and> length (events q) < QUEUE_LIMIT") (auto simp: not_less)

lemma pop_progress:
  assumes "invar q"
  shows "\<exists>r q'. pop q = Some (r, q') \<and> (r = None \<longleftrightarrow> events q = [])"
  using pop_empty [OF assms] pop_next [OF assms] by (cases "events q") auto

end

definition queue_push_granted :: "bool \<Rightarrow> qevent \<Rightarrow> queue \<Rightarrow> queue" where
  "queue_push_granted granted ev q =
     (case ev of (watch, events, cookie, name) \<Rightarrow>
        queue_push \<lparr>e_clock = 0, e_box = 0, e_grant = (\<lambda>_ _. granted), e_pages = (\<lambda>_. None)\<rparr>
          0 watch events cookie name q)"

lemma queue_push_granted_eq:
  "queue_push env wid watch events cookie name q =
     queue_push_granted (e_grant env (SPush wid (q_count q) (q_lost q)) (2 * HEADER + length name))
       (watch, events, cookie, name) q"
  by (simp add: queue_push_granted_def queue_push_def)

lemma overflow_record: "overflow_of OVERFLOW_RECORD" "short_name OVERFLOW_RECORD"
  by (simp_all add: overflow_of_def OVERFLOW_RECORD_def short_name_def)

lemma queue_push_room:
  assumes "queue_inv q" "short_name ev" "\<not> overflow_of ev" "length (queue_events q) < QUEUE_LIMIT"
  shows "queue_inv (queue_push_granted True ev q)"
    "queue_events (queue_push_granted True ev q) = queue_events q @ [ev]"
    "q_lost (queue_push_granted True ev q) = q_lost q"
proof -
  note inv = queue_inv_events [OF assms(1)]
  let ?q = "queue_push_granted True ev q"
  have "q_bytes ?q = concat (map encode_event (queue_events q @ [ev]))"
    "q_count ?q = length (queue_events q @ [ev])" and lost: "q_lost ?q = q_lost q"
    using inv assms(4) by (cases ev; simp add: queue_push_granted_def queue_push_def queue_record_def)+
  then show "queue_inv ?q" "queue_events ?q = queue_events q @ [ev]" "q_lost ?q = q_lost q"
    using queue_invI [of ?q "queue_events q @ [ev]"] inv assms by auto
qed

lemma queue_push_full:
  assumes "queue_inv q" "\<not> granted \<or> QUEUE_LIMIT \<le> length (queue_events q)"
  shows "queue_inv (queue_push_granted granted ev q)"
    "queue_events (queue_push_granted granted ev q) = queue_events q @ (if q_lost q then [] else [OVERFLOW_RECORD])"
    "q_lost (queue_push_granted granted ev q)"
proof -
  note inv = queue_inv_events [OF assms(1)]
  let ?q = "queue_push_granted granted ev q" and ?es = "queue_events q @ (if q_lost q then [] else [OVERFLOW_RECORD])"
  have full: "QUEUE_LIMIT \<le> q_count q \<or> \<not> granted" using assms(2) inv(2) by auto
  have bytes: "q_bytes ?q = concat (map encode_event ?es)" "q_count ?q = length ?es" "q_lost ?q"
    using inv(1,2) full
    by (cases ev; auto simp: queue_push_granted_def queue_push_def queue_record_def OVERFLOW_RECORD_def)+
  show "queue_inv ?q" "queue_events ?q = ?es" "q_lost ?q"
    using queue_invI [OF bytes(1,2)] bytes(3) inv overflow_record by auto
qed

lemma queue_pop_next:
  assumes "queue_inv q" "queue_events q = ev # es"
  shows "\<exists>q'. queue_pop q = Some (Some (deliver ev), q') \<and> queue_events q' = es \<and> queue_inv q'
    \<and> (q_lost q' \<longleftrightarrow> q_lost q \<and> \<not> overflow_of ev)"
proof -
  note inv = queue_inv_events [OF assms(1)]
  obtain w k c n where ev: "ev = (w, k, c, n)" by (metis surj_pair)
  have n: "length n \<le> 255" using inv(3) assms(2) ev by (simp add: short_name_def)
  have bytes: "q_bytes q = encode_event ev @ concat (map encode_event es)" using inv(1) assms(2) by simp
  let ?q = "q\<lparr>q_bytes := concat (map encode_event es), q_count := q_count q - 1,
    q_lost := (if k AND W_OVERFLOW \<noteq> 0 then False else q_lost q)\<rparr>"
  have "drop 12 (q_bytes q) = of_nat (length n) # n @ concat (map encode_event es)"
    by (simp add: bytes ev)
  moreover have "take 4 (q_bytes q) = to_ne_bytes w" "take 4 (drop 4 (q_bytes q)) = to_ne_bytes k"
    "take 4 (drop 8 (q_bytes q)) = to_ne_bytes c" by (simp_all add: bytes ev)
  moreover have "\<not> length (q_bytes q) < 12" by (simp add: bytes ev)
  moreover have "q_count q \<noteq> 0" using inv(2) assms(2) by simp
  ultimately have pop: "queue_pop q = Some (Some (deliver ev), ?q)"
    using n by (simp add: queue_pop_def Let_def unat_name_length ev)
  have "length (filter overflow_of es) = (if q_lost ?q then 1 else 0)"
    using inv(5) assms(2) by (auto simp: ev overflow_of_def split: if_splits)
  moreover have "length es \<le> QUEUE_LIMIT + (if q_lost ?q then 1 else 0)"
    using inv(4) assms(2) by (auto split: if_splits)
  ultimately have "queue_inv ?q" "queue_events ?q = es"
    using queue_invI [of ?q es] inv assms(2) by auto
  moreover have "q_lost ?q \<longleftrightarrow> q_lost q \<and> \<not> overflow_of ev" by (simp add: ev overflow_of_def)
  ultimately show ?thesis using pop by blast
qed

interpretation memq: event_queue queue_push_granted queue_pop queue_events q_lost queue_inv
proof unfold_locales
  fix q ev granted
  assume inv: "queue_inv q" and ev: "short_name ev" "\<not> overflow_of ev"
  show "queue_inv (queue_push_granted granted ev q)"
    using queue_push_room [OF inv ev] queue_push_full [OF inv, of granted ev]
    by (cases "granted \<and> length (queue_events q) < QUEUE_LIMIT") (auto simp: not_less)
  show "granted \<Longrightarrow> length (queue_events q) < QUEUE_LIMIT \<Longrightarrow>
      queue_events (queue_push_granted granted ev q) = queue_events q @ [ev]
      \<and> q_lost (queue_push_granted granted ev q) = q_lost q"
    using queue_push_room [OF inv ev] by simp
qed (use queue_push_full queue_pop_next queue_inv_events(4) in
      \<open>auto simp: queue_pop_def dest: queue_inv_events(2) queue_inv_events(4) split: if_splits\<close>)

lemma queue_new_inv: "queue_new env = Inr q \<Longrightarrow> queue_inv q \<and> queue_events q = []"
  using queue_invI [of q "[]"] by (auto simp: queue_new_def split: if_splits)

end
