(* ===== verification/Memfs_Tree.thy ===== *)
theory Memfs_Tree
  imports Memfs_Queue Pal_Files
begin

text \<open>
  The tree of the in-memory file system and the walks over it
  (\<open>crates/dotnet-pal-memfs/src/lib.rs\<close>, from \<open>Body\<close> to \<open>State::spell\<close>): the node table, the
  resolution of a path with symbolic links, and the spelling of a directory's absolute path.

  Node identities, reference counts and times are natural numbers. The boxes behind handle pointers
  are a map from addresses to handles, kept in the same record as the tree because every call that
  reaches one holds the tree's lock.
\<close>

section \<open>Data\<close>

record lock =
  lk_owner :: nat
  lk_whole :: bool
  lk_start :: nat
  lk_end :: nat
  lk_exclusive :: bool

type_synonym entries = "(name \<times> nat) list"

datatype body = File content | Directory nat entries | Link "byte list"

record node =
  nd_mode :: flags
  nd_created :: nat
  nd_accessed :: nat
  nd_modified :: nat
  nd_changed :: nat
  nd_links :: nat
  nd_opens :: nat
  nd_maps :: nat
  nd_locks :: "lock list"
  nd_body :: body

record watch =
  wt_id :: "32 word"
  wt_node :: nat
  wt_events :: flags

record watcher =
  wr_queue :: queue
  wr_watches :: "watch list"
  wr_last :: "32 word"

datatype mapped = Shared nat nat | Private

datatype handle = FileHandle nat flags | DirectoryHandle "byte list" nat | WatcherHandle nat

record state =
  st_nodes :: "nat \<rightharpoonup> node"
  st_next_id :: nat
  st_used :: nat
  st_capacity :: nat
  st_working :: nat
  st_watchers :: "nat \<rightharpoonup> watcher"
  st_next_watcher :: nat
  st_cookie :: "32 word"
  st_mappings :: "nat \<times> nat \<rightharpoonup> mapped"
  st_handles :: "nat \<rightharpoonup> handle"

definition ROOT :: nat where
  "ROOT = 1"

abbreviation MAX_LINKS :: nat where "MAX_LINKS \<equiv> 40"
abbreviation DEFAULT_CAPACITY :: nat where "DEFAULT_CAPACITY \<equiv> 64 * 1024 * 1024"

definition SHARED_INIT :: state where
  "SHARED_INIT = \<lparr>st_nodes = Map.empty, st_next_id = ROOT + 1, st_used = 0,
     st_capacity = DEFAULT_CAPACITY, st_working = ROOT, st_watchers = Map.empty,
     st_next_watcher = 1, st_cookie = 0, st_mappings = Map.empty, st_handles = Map.empty\<rparr>"

definition root_node :: node where
  "root_node = \<lparr>nd_mode = 0x1FF, nd_created = 0, nd_accessed = 0, nd_modified = 0, nd_changed = 0,
     nd_links = 1, nd_opens = 0, nd_maps = 0, nd_locks = [], nd_body = Directory ROOT []\<rparr>"

text \<open>\<open>Guard::acquire\<close>: the first caller finds no node and makes the root.\<close>

definition acquire :: "state \<Rightarrow> state" where
  "acquire s = (if st_nodes s = Map.empty then s\<lparr>st_nodes := [ROOT \<mapsto> root_node]\<rparr> else s)"

section \<open>Looking at nodes\<close>

definition get_node :: "state \<Rightarrow> nat \<Rightarrow> node result" where
  "get_node s i = ok_or (st_nodes s i) InvalidArgument"

definition node_kind :: "state \<Rightarrow> nat \<Rightarrow> nat result" where
  "node_kind s i = r_bind (get_node s i) (\<lambda>nd. Inr
     (case nd_body nd of File _ \<Rightarrow> NODE_FILE | Directory _ _ \<Rightarrow> NODE_DIRECTORY | Link _ \<Rightarrow> NODE_SYMLINK))"

definition is_directory :: "state \<Rightarrow> nat \<Rightarrow> bool result" where
  "is_directory s i = r_bind (node_kind s i) (\<lambda>k. Inr (k = NODE_DIRECTORY))"

definition get_entries :: "state \<Rightarrow> nat \<Rightarrow> entries result" where
  "get_entries s i = r_bind (get_node s i) (\<lambda>nd.
     case nd_body nd of Directory _ es \<Rightarrow> Inr es | _ \<Rightarrow> Inl NotDirectory)"

definition get_parent :: "state \<Rightarrow> nat \<Rightarrow> nat result" where
  "get_parent s i = r_bind (get_node s i) (\<lambda>nd.
     case nd_body nd of Directory p _ \<Rightarrow> Inr p | _ \<Rightarrow> Inl NotDirectory)"

definition get_working :: "state \<Rightarrow> nat result" where
  "get_working s = (if st_nodes s (st_working s) \<noteq> None then Inr (st_working s) else Inl NotFound)"

section \<open>Resolving a path\<close>

record place =
  pl_parent :: nat
  pl_name :: name
  pl_node :: "nat option"
  pl_slash :: bool

datatype final = Follow | Keep | Entry | Create

text \<open>
  \<open>Pending::next\<close> over the texts still to resolve, the innermost first: the next component and the
  texts left, or no component; and whether a slash came last.
\<close>

fun next_component :: "byte list list \<Rightarrow> bool \<Rightarrow> name option \<times> byte list list \<times> bool" where
  "next_component [] slash = (None, [], slash)"
| "next_component (whole # outer) slash =
     (let rest = dropWhile (\<lambda>b. b = SLASH) whole;
          slash = (slash \<or> rest \<noteq> whole)
      in if rest = [] then next_component outer slash
         else (Some (takeWhile (\<lambda>b. b \<noteq> SLASH) rest), dropWhile (\<lambda>b. b \<noteq> SLASH) rest # outer, False))"

definition follows :: "byte list list \<Rightarrow> final \<Rightarrow> bool" where
  "follows texts policy =
     (case policy of
        Follow \<Rightarrow> True
      | Keep \<Rightarrow> concat texts \<noteq> []
      | _ \<Rightarrow> list_ex (\<lambda>b. b \<noteq> SLASH) (concat texts))"

lemma length_dropWhile_less: "xs \<noteq> [] \<Longrightarrow> p (hd xs) \<Longrightarrow> length (dropWhile p xs) < length xs"
  by (cases xs) (auto simp: length_dropWhile_le le_imp_less_Suc)

lemma next_component_shorter:
  "next_component texts slash = (Some c, texts', slash') \<Longrightarrow> length (concat texts') < length (concat texts)"
proof (induction texts slash rule: next_component.induct)
  case (2 whole outer slash)
  let ?rest = "dropWhile (\<lambda>b. b = SLASH) whole"
  have le: "length ?rest \<le> length whole" by (rule length_dropWhile_le)
  show ?case
  proof (cases "?rest = []")
    case True
    have "length (concat texts') < length (concat outer)"
      by (rule "2.IH" [OF refl refl True]) (use "2.prems" in \<open>simp add: Let_def True del: dropWhile_eq_Nil_conv\<close>)
    then show ?thesis by simp
  next
    case False
    then have "hd ?rest \<noteq> SLASH" by (rule hd_dropWhile)
    then have "length (dropWhile (\<lambda>b. b \<noteq> SLASH) ?rest) < length ?rest"
      using False by (intro length_dropWhile_less) auto
    moreover have "texts' = dropWhile (\<lambda>b. b \<noteq> SLASH) ?rest # outer"
      using "2.prems" False by (simp add: Let_def del: dropWhile_eq_Nil_conv)
    ultimately show ?thesis using le by simp
  qed
qed simp

text \<open>
  The loop of \<open>State::walk\<close>. \<open>entered\<close> counts the links entered; it starts at 0 and the walk gives
  up when it is \<open>MAX_LINKS\<close>, so it never passes that bound. \<open>found\<close> is the last name looked up,
  with its node if there is one: whatever follows it resolves inside it.
\<close>

function walk_loop ::
  "state \<Rightarrow> final \<Rightarrow> nat \<Rightarrow> byte list list \<Rightarrow> nat \<Rightarrow> bool \<Rightarrow> (name \<times> nat option) option \<Rightarrow> place result" where
  "walk_loop s policy parent texts entered slash found =
     (case next_component texts slash of
        (None, _, slash') \<Rightarrow>
          (case found of
             Some (name, Some node) \<Rightarrow>
               if slash' \<and> policy \<noteq> Create then
                 (case is_directory s node of
                    Inl e \<Rightarrow> Inl e
                  | Inr d \<Rightarrow>
                      if \<not> d then Inl NotDirectory
                      else Inr \<lparr>pl_parent = parent, pl_name = name, pl_node = Some node, pl_slash = slash'\<rparr>)
               else Inr \<lparr>pl_parent = parent, pl_name = name, pl_node = Some node, pl_slash = slash'\<rparr>
           | Some (name, None) \<Rightarrow>
               Inr \<lparr>pl_parent = parent, pl_name = name, pl_node = None, pl_slash = slash'\<rparr>
           | None \<Rightarrow> Inr \<lparr>pl_parent = parent, pl_name = [], pl_node = Some parent, pl_slash = slash'\<rparr>)
      | (Some component, texts', slash') \<Rightarrow>
          (case (case found of None \<Rightarrow> Inr parent | Some (_, node) \<Rightarrow> ok_or node NotFound) of
             Inl e \<Rightarrow> Inl e
           | Inr parent' \<Rightarrow>
               if component = [DOT] then
                 (case get_entries s parent' of
                    Inl e \<Rightarrow> Inl e
                  | Inr _ \<Rightarrow> walk_loop s policy parent' texts' entered slash' None)
               else if component = [DOT, DOT] then
                 (case get_parent s parent' of
                    Inl e \<Rightarrow> Inl e
                  | Inr up \<Rightarrow> walk_loop s policy up texts' entered slash' None)
               else if MAX_ENTRY_NAME < length component then Inl NameTooLong
               else
                 (case get_entries s parent' of
                    Inl e \<Rightarrow> Inl e
                  | Inr es \<Rightarrow>
                      let node = map_of es component in
                      (case map_option nd_body (Option.bind node (st_nodes s)) of
                         Some (Link target) \<Rightarrow>
                           if follows texts' policy then
                             (if MAX_LINKS \<le> entered then Inl Os
                              else walk_loop s policy (if target \<noteq> [] \<and> hd target = SLASH then ROOT else parent')
                                     (target # texts') (entered + 1) slash' None)
                           else walk_loop s policy parent' texts' entered slash' (Some (component, node))
                       | _ \<Rightarrow> walk_loop s policy parent' texts' entered slash' (Some (component, node))))))"
  by pat_completeness auto
termination
  by (relation "measures [\<lambda>(s, policy, parent, texts, entered, slash, found). MAX_LINKS - entered,
        \<lambda>(s, policy, parent, texts, entered, slash, found). length (concat texts)]")
    (auto dest: next_component_shorter [OF sym])

declare walk_loop.simps [simp del]

definition walk :: "state \<Rightarrow> byte list \<Rightarrow> final \<Rightarrow> place result" where
  "walk s path policy =
     (case (if path \<noteq> [] \<and> hd path = SLASH then Inr ROOT else get_working s) of
        Inl e \<Rightarrow> Inl e
      | Inr parent \<Rightarrow> walk_loop s policy parent [path] 0 False None)"

definition vacant :: "state \<Rightarrow> byte list \<Rightarrow> place result" where
  "vacant s path = r_bind (walk s path Create) (\<lambda>place.
     if pl_node place \<noteq> None then Inl AlreadyExists
     else if pl_slash place then Inl NotFound else Inr place)"

section \<open>Spelling an absolute path\<close>

text \<open>
  \<open>State::climb\<close> visits the names from a directory up to the root. The loop ends because the
  parents of a well-formed tree lead to the root; \<open>None\<close> is the loop that never does.
\<close>

partial_function (option) climb_up :: "state \<Rightarrow> nat \<Rightarrow> name list result option" where
  "climb_up s directory =
     (if directory = ROOT then Some (Inr [])
      else case get_parent s directory of
          Inl e \<Rightarrow> Some (Inl e)
        | Inr up \<Rightarrow>
            (case get_entries s up of
               Inl e \<Rightarrow> Some (Inl e)
             | Inr es \<Rightarrow>
                 (case find (\<lambda>e. snd e = directory) es of
                    None \<Rightarrow> Some (Inl NotFound)
                  | Some own \<Rightarrow>
                      Option.bind (climb_up s up) (\<lambda>r. Some (r_bind r (\<lambda>names. Inr (fst own # names)))))))"

definition climb :: "state \<Rightarrow> nat \<Rightarrow> name \<Rightarrow> name list result option" where
  "climb s directory name =
     Option.bind (climb_up s directory) (\<lambda>r. Some (r_bind r (\<lambda>names.
       Inr (if name = [] then names else name # names))))"

text \<open>The second visit of \<open>spell\<close>: each name goes before what is already written.\<close>

fun spell_parts :: "name list \<Rightarrow> nat \<Rightarrow> byte list \<Rightarrow> byte list" where
  "spell_parts [] end out = out"
| "spell_parts (part # parts) end out =
     (let end = end - (length part + 1)
      in spell_parts parts end (overwrite (out[end := SLASH]) (end + 1) part))"

definition spelled_length :: "name list \<Rightarrow> nat" where
  "spelled_length parts = sum_list (map (\<lambda>part. 1 + length part) parts)"

definition spell :: "state \<Rightarrow> nat \<Rightarrow> name \<Rightarrow> byte list \<Rightarrow> (nat result \<times> byte list) option" where
  "spell s directory name out =
     Option.bind (climb s directory name) (\<lambda>r. Some
       (case r of
          Inl e \<Rightarrow> (Inl e, out)
        | Inr parts \<Rightarrow>
            let needed = max (spelled_length parts) 1 + 1
            in if MAX_NAME + 1 < needed then (Inl NameTooLong, out)
               else if needed \<le> length out
               then (Inr needed, spell_parts parts (needed - 1) ((out[0 := SLASH])[needed - 1 := 0]))
               else (Inr needed, out)))"

section \<open>Status of a node\<close>

definition node_status :: "state \<Rightarrow> nat \<Rightarrow> file_status result" where
  "node_status s i = r_bind (get_node s i) (\<lambda>nd.
     let (kind, sz) = (case nd_body nd of
            File content \<Rightarrow> (NODE_FILE, content_len content)
          | Directory _ _ \<Rightarrow> (NODE_DIRECTORY, 0)
          | Link target \<Rightarrow> (NODE_SYMLINK, length target))
     in Inr \<lparr>fs_kind = kind, fs_mode = nd_mode nd, fs_size = sz, fs_modified_ns = nd_modified nd,
          fs_accessed_ns = nd_accessed nd, fs_changed_ns = nd_changed nd,
          fs_created_ns = nd_created nd, fs_identity = i, fs_device = 1\<rparr>)"

end
