(* ===== verification/Memfs_Events.thy ===== *)
theory Memfs_Events
  imports Memfs_Tree
begin

text \<open>
  The parts of \<open>impl State\<close> (\<open>crates/dotnet-pal-memfs/src/lib.rs\<close>) that change nodes and tell the
  watchers: reporting to watches, creating and freeing nodes, attributes, and edits of file content.
\<close>

section \<open>Telling the watchers\<close>

definition push_all :: "env \<Rightarrow> nat \<Rightarrow> qevent list \<Rightarrow> watcher \<Rightarrow> watcher" where
  "push_all env wid evs w =
     w\<lparr>wr_queue := fold (\<lambda>(watch, kinds, cookie, name) q. queue_push env wid watch kinds cookie name q)
         evs (wr_queue w)\<rparr>"

text \<open>What one watcher hears when \<open>kinds\<close> happen to node \<open>i\<close>, in the order it is queued.\<close>

definition reports_to :: "state \<Rightarrow> nat \<Rightarrow> flags \<Rightarrow> node \<Rightarrow> watch list \<Rightarrow> qevent list" where
  "reports_to s i kinds nd watches =
     (let (mark, holder) = (case nd_body nd of Directory parent _ \<Rightarrow> (W_DIRECTORY, Some parent) | _ \<Rightarrow> (0, None));
          holders = filter (\<lambda>w. wt_events w AND kinds \<noteq> 0 \<and> wt_node w \<noteq> i
                       \<and> (case holder of None \<Rightarrow> True | Some h \<Rightarrow> h = wt_node w)) watches
      in concat (map (\<lambda>w.
             case map_option nd_body (st_nodes s (wt_node w)) of
               Some (Directory _ es) \<Rightarrow>
                 map (\<lambda>e. (wt_id w, kinds OR mark, 0, fst e)) (take (nd_links nd) (filter (\<lambda>e. snd e = i) es))
             | _ \<Rightarrow> []) holders)
         @ (case find (\<lambda>w. wt_node w = i \<and> wt_events w AND kinds \<noteq> 0) watches of
              Some own \<Rightarrow> [(wt_id own, kinds OR mark, 0, [])]
            | None \<Rightarrow> []))"

definition report :: "env \<Rightarrow> nat \<Rightarrow> flags \<Rightarrow> state \<Rightarrow> state" where
  "report env i kinds s =
     (if st_watchers s = Map.empty then s
      else case st_nodes s i of
          None \<Rightarrow> s
        | Some nd \<Rightarrow>
            s\<lparr>st_watchers := (\<lambda>wid. map_option
                (\<lambda>w. push_all env wid (reports_to s i kinds nd (wr_watches w)) w) (st_watchers s wid))\<rparr>)"

definition report_entry :: "env \<Rightarrow> nat \<Rightarrow> name \<Rightarrow> flags \<Rightarrow> 32 word \<Rightarrow> state \<Rightarrow> state" where
  "report_entry env directory name kinds cookie s =
     s\<lparr>st_watchers := (\<lambda>wid. map_option (\<lambda>w.
         case find (\<lambda>wt. wt_node wt = directory \<and> wt_events wt AND kinds \<noteq> 0) (wr_watches w) of
           Some wt \<Rightarrow> push_all env wid [(wt_id wt, kinds, cookie, name)] w
         | None \<Rightarrow> w) (st_watchers s wid))\<rparr>"

definition ended :: "env \<Rightarrow> nat \<Rightarrow> state \<Rightarrow> state" where
  "ended env i s =
     s\<lparr>st_watchers := (\<lambda>wid. map_option (\<lambda>w.
         case position (\<lambda>wt. wt_node wt = i) (wr_watches w) of
           Some index \<Rightarrow>
             push_all env wid [(wt_id (wr_watches w ! index), W_REMOVED, 0, [])]
               (w\<lparr>wr_watches := take index (wr_watches w) @ drop (Suc index) (wr_watches w)\<rparr>)
         | None \<Rightarrow> w) (st_watchers s wid))\<rparr>"

section \<open>Changing nodes\<close>

text \<open>\<open>node_mut\<close> followed by an update of the node found.\<close>

definition update_node :: "nat \<Rightarrow> (node \<Rightarrow> node) \<Rightarrow> state \<Rightarrow> unit result \<times> state" where
  "update_node i f s =
     (case st_nodes s i of
        None \<Rightarrow> (Inl InvalidArgument, s)
      | Some nd \<Rightarrow> (Inr (), s\<lparr>st_nodes := (st_nodes s)(i \<mapsto> f nd)\<rparr>))"

text \<open>\<open>entries_mut\<close> followed by an update of the entries found.\<close>

definition update_entries :: "nat \<Rightarrow> (entries \<Rightarrow> entries) \<Rightarrow> state \<Rightarrow> unit result \<times> state" where
  "update_entries i f s =
     (case st_nodes s i of
        None \<Rightarrow> (Inl InvalidArgument, s)
      | Some nd \<Rightarrow>
          (case nd_body nd of
             Directory p es \<Rightarrow> (Inr (), s\<lparr>st_nodes := (st_nodes s)(i \<mapsto> nd\<lparr>nd_body := Directory p (f es)\<rparr>)\<rparr>)
           | _ \<Rightarrow> (Inl NotDirectory, s)))"

definition touch :: "nat \<Rightarrow> nat \<Rightarrow> state \<Rightarrow> unit result \<times> state" where
  "touch i now s = update_node i (\<lambda>nd. nd\<lparr>nd_modified := now, nd_changed := now\<rparr>) s"

definition new_node :: "flags \<Rightarrow> body \<Rightarrow> nat \<Rightarrow> node" where
  "new_node mode body now = \<lparr>nd_mode = mode AND MODE_MASK, nd_created = now, nd_accessed = now,
     nd_modified = now, nd_changed = now, nd_links = 1, nd_opens = 0, nd_maps = 0, nd_locks = [], nd_body = body\<rparr>"

definition create :: "env \<Rightarrow> place \<Rightarrow> flags \<Rightarrow> body \<Rightarrow> nat \<Rightarrow> state \<Rightarrow> nat result \<times> state" where
  "create env place mode body now s =
     (let i = st_next_id s in
      and_then (update_entries (pl_parent place) (al_insert (pl_name place) i) s) (\<lambda>_ s.
        let s = s\<lparr>st_next_id := st_next_id s + 1, st_nodes := (st_nodes s)(i \<mapsto> new_node mode body now)\<rparr>
        in and_then (touch (pl_parent place) now s) (\<lambda>_ s.
             case is_directory s i of
               Inl e \<Rightarrow> (Inl e, s)
             | Inr d \<Rightarrow>
                 (Inr i, report_entry env (pl_parent place) (pl_name place)
                    (W_CREATE OR (if d then W_DIRECTORY else 0)) 0 s))))"

definition reap :: "nat \<Rightarrow> state \<Rightarrow> state" where
  "reap i s =
     (case st_nodes s i of
        None \<Rightarrow> s
      | Some nd \<Rightarrow>
          if nd_links nd = 0 \<and> nd_opens nd = 0 \<and> nd_maps nd = 0 then
            s\<lparr>st_nodes := (st_nodes s)(i := None),
              st_used := (case nd_body nd of File c \<Rightarrow> st_used s - content_len c | _ \<Rightarrow> st_used s)\<rparr>
          else s)"

definition unlinked :: "env \<Rightarrow> nat \<Rightarrow> nat \<Rightarrow> bool \<Rightarrow> state \<Rightarrow> unit result \<times> state" where
  "unlinked env i now counted s =
     (case st_nodes s i of
        None \<Rightarrow> (Inl InvalidArgument, s)
      | Some nd \<Rightarrow>
          let nd' = nd\<lparr>nd_links := nd_links nd - 1, nd_changed := now\<rparr>;
              s = s\<lparr>st_nodes := (st_nodes s)(i \<mapsto> nd')\<rparr>;
              s = (if counted then report env i W_ATTRIBUTES s else s);
              s = (if nd_links nd' = 0 then ended env i s else s)
          in (Inr (), reap i s))"

definition state_set_mode :: "env \<Rightarrow> nat \<Rightarrow> flags \<Rightarrow> nat \<Rightarrow> state \<Rightarrow> unit result \<times> state" where
  "state_set_mode env i mode now s =
     and_then (update_node i (\<lambda>nd. nd\<lparr>nd_mode := mode AND MODE_MASK, nd_changed := now\<rparr>) s)
       (\<lambda>_ s. (Inr (), report env i W_ATTRIBUTES s))"

definition state_set_times ::
  "env \<Rightarrow> nat \<Rightarrow> nat option \<Rightarrow> nat option \<Rightarrow> nat \<Rightarrow> state \<Rightarrow> unit result \<times> state" where
  "state_set_times env i accessed modified now s =
     (case st_nodes s i of
        None \<Rightarrow> (Inl InvalidArgument, s)
      | Some nd \<Rightarrow>
          if accessed = None \<and> modified = None then (Inr (), s)
          else
            and_then (update_node i (\<lambda>nd. nd\<lparr>
                nd_accessed := (case accessed of Some t \<Rightarrow> t | None \<Rightarrow> nd_accessed nd),
                nd_modified := (case modified of Some t \<Rightarrow> t | None \<Rightarrow> nd_modified nd),
                nd_changed := now\<rparr>) s)
              (\<lambda>_ s. (Inr (), report env i W_ATTRIBUTES s)))"

definition get_content :: "state \<Rightarrow> nat \<Rightarrow> content result" where
  "get_content s i = r_bind (get_node s i) (\<lambda>nd.
     case nd_body nd of File c \<Rightarrow> Inr c | _ \<Rightarrow> Inl IsDirectory)"

text \<open>
  An edit that fails may still have moved the bytes, so its content is stored either way; the
  accounting and the times are settled only when it succeeds.
\<close>

definition change ::
  "env \<Rightarrow> nat \<Rightarrow> nat \<Rightarrow> bool \<Rightarrow> (content \<Rightarrow> nat \<Rightarrow> bool \<Rightarrow> 'a result \<times> content) \<Rightarrow> state \<Rightarrow> 'a result \<times> state" where
  "change env i now told edit s =
     (let room = st_capacity s - st_used s in
      case st_nodes s i of
        None \<Rightarrow> (Inl InvalidArgument, s)
      | Some nd \<Rightarrow>
          (case nd_body nd of
             File c \<Rightarrow>
               (case edit c room (nd_maps nd \<noteq> 0) of
                  (Inl e, c') \<Rightarrow> (Inl e, s\<lparr>st_nodes := (st_nodes s)(i \<mapsto> nd\<lparr>nd_body := File c'\<rparr>)\<rparr>)
                | (Inr r, c') \<Rightarrow>
                    let s = s\<lparr>st_used := st_used s - content_len c + content_len c',
                              st_nodes := (st_nodes s)(i \<mapsto>
                                nd\<lparr>nd_body := File c', nd_modified := now, nd_changed := now\<rparr>)\<rparr>
                    in (Inr r, if told \<or> content_len c \<noteq> content_len c' then report env i W_MODIFY s else s))
           | _ \<Rightarrow> (Inl IsDirectory, s)))"

end
