(* ===== verification/Memfs_Locks.thy ===== *)
theory Memfs_Locks
  imports Memfs_Events "HOL-Library.Multiset"
begin

text \<open>
  Advisory locks (\<open>State::relock\<close> of \<open>crates/dotnet-pal-memfs/src/lib.rs\<close>). A node keeps a list of
  locks, each held by the handle at an address on a range of bytes; a request replaces what its
  owner holds on its bytes, splitting locks that reach beyond them. The specification is bytewise:
  which modes an owner holds at a byte.
\<close>


section \<open>The operation\<close>

definition swap_remove :: "nat \<Rightarrow> 'a list \<Rightarrow> 'a list" where
  "swap_remove i xs = butlast (xs[i := List.last xs])"

definition meets :: "lock \<Rightarrow> lock \<Rightarrow> bool" where
  "meets wanted held \<longleftrightarrow> lk_whole held = lk_whole wanted \<and> lk_start held < lk_end wanted
     \<and> lk_start wanted < lk_end held"

definition hit :: "lock \<Rightarrow> lock \<Rightarrow> bool" where
  "hit wanted held \<longleftrightarrow> lk_owner held = lk_owner wanted \<and> meets wanted held"

text \<open>What is left of a held lock beside the bytes of the wanted one.\<close>

definition left_over :: "lock \<Rightarrow> lock \<Rightarrow> lock list" where
  "left_over wanted held =
     (if lk_start held < lk_start wanted then [held\<lparr>lk_end := lk_start wanted\<rparr>] else [])
     @ (if lk_end wanted < lk_end held then [held\<lparr>lk_start := lk_end wanted\<rparr>] else [])"

lemma left_over_no_hit: "\<forall>l\<in>set (left_over wanted held). \<not> hit wanted l"
  by (auto simp: left_over_def hit_def meets_def)

lemma mset_swap_remove:
  assumes "i < length xs"
  shows "mset (swap_remove i xs) = mset xs - {#xs ! i#}"
proof -
  obtain ys y where xs: "xs = ys @ [y]" using assms by (cases xs rule: rev_cases) auto
  show ?thesis
  proof (cases "i < length ys")
    case True
    then have "mset (ys[i := y]) = add_mset y (mset ys - {#ys ! i#})" by (simp add: mset_update)
    moreover have "ys ! i \<in># mset ys" using True by simp
    ultimately show ?thesis
      using True by (simp add: xs swap_remove_def list_update_append nth_append)
  next
    case False
    then have "i = length ys" using assms xs by simp
    then show ?thesis by (simp add: xs swap_remove_def)
  qed
qed

lemma nth_swap_remove: "j < i \<Longrightarrow> i < length xs \<Longrightarrow> swap_remove i xs ! j = xs ! j"
  by (simp add: swap_remove_def nth_butlast)

lemma length_swap_remove [simp]: "length (swap_remove i xs) = length xs - 1"
  by (simp add: swap_remove_def)

definition hits :: "lock \<Rightarrow> lock list \<Rightarrow> nat" where
  "hits wanted locks = size (filter_mset (hit wanted) (mset locks))"

lemma hits_append: "hits wanted (xs @ ys) = hits wanted xs + hits wanted ys"
  by (simp add: hits_def)

lemma hits_swap_remove:
  "i < length xs \<Longrightarrow> hit wanted (xs ! i) \<Longrightarrow> hits wanted (swap_remove i xs) < hits wanted xs"
  by (simp add: hits_def mset_swap_remove size_Diff1_less)

lemma hits_left_over: "hits wanted (left_over wanted held) = 0"
  using left_over_no_hit [of wanted held] by (simp add: hits_def filter_mset_eq_mempty_iff)

function relock_loop :: "lock \<Rightarrow> nat \<Rightarrow> lock list \<Rightarrow> lock list" where
  "relock_loop wanted index locks =
     (if index < length locks then
        (let held = locks ! index in
         if \<not> hit wanted held then relock_loop wanted (Suc index) locks
         else relock_loop wanted index (swap_remove index locks @ left_over wanted held))
      else locks)"
  by pat_completeness auto
termination
  by (relation "measures [\<lambda>(wanted, index, locks). hits wanted locks, \<lambda>(wanted, index, locks). length locks - index]")
    (auto simp: hits_append hits_left_over hits_swap_remove)

declare relock_loop.simps [simp del]

definition relock :: "env \<Rightarrow> nat \<Rightarrow> nat \<Rightarrow> lock \<Rightarrow> state \<Rightarrow> unit result \<times> state" where
  "relock env i mode wanted s =
     (case st_nodes s i of
        None \<Rightarrow> (Inl InvalidArgument, s)
      | Some nd \<Rightarrow>
          let locks = nd_locks nd in
          if mode \<noteq> LOCK_UNLOCK \<and> list_ex (\<lambda>held. lk_owner held \<noteq> lk_owner wanted \<and> meets wanted held
               \<and> (lk_exclusive held \<or> lk_exclusive wanted)) locks
          then (Inl WouldBlock, s)
          else if \<not> e_grant env SLocks 2 then (Inl OutOfMemory, s)
          else
            let locks = relock_loop wanted 0 locks;
                locks = (if mode \<noteq> LOCK_UNLOCK then locks @ [wanted] else locks)
            in (Inr (), s\<lparr>st_nodes := (st_nodes s)(i \<mapsto> nd\<lparr>nd_locks := locks\<rparr>)\<rparr>))"

section \<open>Bytewise meaning\<close>

definition covers :: "lock \<Rightarrow> bool \<Rightarrow> nat \<Rightarrow> nat \<Rightarrow> bool" where
  "covers l whole owner b \<longleftrightarrow> lk_whole l = whole \<and> lk_owner l = owner \<and> lk_start l \<le> b \<and> b < lk_end l"

definition held_modes :: "lock list \<Rightarrow> bool \<Rightarrow> nat \<Rightarrow> nat \<Rightarrow> bool set" where
  "held_modes locks whole owner b = lk_exclusive ` {l \<in> set locks. covers l whole owner b}"

definition lock_proper :: "lock \<Rightarrow> bool" where
  "lock_proper l \<longleftrightarrow> lk_start l < lk_end l"

text \<open>No byte is held exclusively by one handle and at all by another.\<close>

definition locks_compatible :: "lock list \<Rightarrow> bool" where
  "locks_compatible locks \<longleftrightarrow> (\<forall>whole b o1 o2. o1 \<noteq> o2 \<longrightarrow> True \<in> held_modes locks whole o1 b
     \<longrightarrow> held_modes locks whole o2 b = {})"

lemma held_modes_append: "held_modes (xs @ ys) w o' b = held_modes xs w o' b \<union> held_modes ys w o' b"
  by (auto simp: held_modes_def)

lemma held_modes_simps [simp]:
  "held_modes [] w o' b = {}"
  "held_modes (l # ls) w o' b = (if covers l w o' b then {lk_exclusive l} else {}) \<union> held_modes ls w o' b"
  by (auto simp: held_modes_def)

lemma held_modes_mset_cong: "mset xs = mset ys \<Longrightarrow> held_modes xs w o' b = held_modes ys w o' b"
  by (auto simp: held_modes_def dest: mset_eq_setD)

lemma held_modes_left_over:
  assumes "hit wanted held"
  shows "held_modes (left_over wanted held) w o' b =
    (if covers wanted w o' b then {} else held_modes [held] w o' b)"
  using assms by (auto simp: left_over_def covers_def hit_def meets_def)

lemma held_modes_swap_remove:
  assumes "i < length xs"
  shows "held_modes xs w o' b = held_modes (swap_remove i xs) w o' b \<union> held_modes [xs ! i] w o' b"
proof -
  have "mset xs = mset (swap_remove i xs @ [xs ! i])"
    using assms by (simp add: mset_swap_remove)
  then show ?thesis by (metis held_modes_mset_cong held_modes_append)
qed

lemma covers_hit: "covers wanted w o' b \<Longrightarrow> covers l w o' b \<Longrightarrow> hit wanted l"
  by (auto simp: covers_def hit_def meets_def)

lemma relock_loop_modes:
  assumes "\<forall>j<index. j < length locks \<longrightarrow> \<not> hit wanted (locks ! j)"
  shows "held_modes (relock_loop wanted index locks) w o' b =
    (if covers wanted w o' b then {} else held_modes locks w o' b)"
  using assms
proof (induction wanted index locks rule: relock_loop.induct)
  case (1 wanted index locks)
  note unfold = relock_loop.simps [of wanted index locks]
  show ?case
  proof (cases "index < length locks")
    case False
    then have "\<forall>l\<in>set locks. \<not> hit wanted l" using "1.prems" by (auto simp: in_set_conv_nth)
    then have "covers wanted w o' b \<Longrightarrow> held_modes locks w o' b = {}"
      using covers_hit by (auto simp: held_modes_def)
    then show ?thesis using False unfold by simp
  next
    case True
    show ?thesis
    proof (cases "hit wanted (locks ! index)")
      case False
      then have "\<forall>j<Suc index. j < length locks \<longrightarrow> \<not> hit wanted (locks ! j)"
        using "1.prems" less_Suc_eq by auto
      then show ?thesis using "1.IH"(1) [OF True refl False] True False unfold by simp
    next
      case hit: True
      let ?rest = "swap_remove index locks @ left_over wanted (locks ! index)"
      have "\<forall>j<index. j < length ?rest \<longrightarrow> \<not> hit wanted (?rest ! j)"
        using "1.prems" True by (auto simp: nth_append nth_swap_remove)
      then have "held_modes (relock_loop wanted index ?rest) w o' b =
          (if covers wanted w o' b then {} else held_modes ?rest w o' b)"
        using "1.IH"(2) [OF True refl] hit by blast
      moreover have "\<not> covers wanted w o' b \<Longrightarrow> held_modes ?rest w o' b = held_modes locks w o' b"
        using held_modes_swap_remove [OF True] held_modes_left_over [OF hit] by (simp add: held_modes_append)
      ultimately show ?thesis using True hit unfold by simp
    qed
  qed
qed

text \<open>A property of locks that splitting keeps holds of every lock that is left.\<close>

lemma relock_loop_all:
  assumes "\<And>held. hit wanted held \<Longrightarrow> P held \<Longrightarrow> \<forall>l\<in>set (left_over wanted held). P l"
  shows "\<forall>l\<in>set locks. P l \<Longrightarrow> \<forall>l\<in>set (relock_loop wanted index locks). P l"
  using assms
proof (induction wanted index locks rule: relock_loop.induct)
  case (1 wanted index locks)
  note unfold = relock_loop.simps [of wanted index locks]
  show ?case
  proof (cases "index < length locks")
    case True
    then have "set (swap_remove index locks) \<subseteq> set locks"
      by (metis mset_swap_remove set_mset_mset diff_subset_eq_self set_mset_mono)
    then have "hit wanted (locks ! index) \<Longrightarrow> \<forall>l\<in>set (swap_remove index locks @ left_over wanted (locks ! index)). P l"
      using "1.prems" True by (auto simp: nth_mem)
    then show ?thesis using 1 True unfold by (simp add: Let_def)
  qed (use "1.prems" unfold in simp)
qed

lemma relock_loop_proper:
  "\<forall>l\<in>set locks. lock_proper l \<Longrightarrow> \<forall>l\<in>set (relock_loop wanted index locks). lock_proper l"
  by (rule relock_loop_all) (auto simp: left_over_def lock_proper_def)

definition node_locks :: "state \<Rightarrow> nat \<Rightarrow> lock list" where
  "node_locks s i = (case st_nodes s i of None \<Rightarrow> [] | Some nd \<Rightarrow> nd_locks nd)"

lemma relock_error: "relock env i mode wanted s = (Inl e, s') \<Longrightarrow> s' = s"
  by (auto simp: relock_def Let_def split: option.splits if_splits)

lemma relock_locks:
  assumes "relock env i mode wanted s = (Inr (), s')"
  shows "node_locks s' i = relock_loop wanted 0 (node_locks s i) @ (if mode \<noteq> LOCK_UNLOCK then [wanted] else [])"
    and "mode \<noteq> LOCK_UNLOCK \<Longrightarrow> l \<in> set (node_locks s i) \<Longrightarrow> lk_owner l \<noteq> lk_owner wanted \<Longrightarrow>
      meets wanted l \<Longrightarrow> \<not> lk_exclusive l \<and> \<not> lk_exclusive wanted"
  using assms by (auto simp: relock_def node_locks_def Let_def list_ex_iff split: option.splits if_splits)

lemma relock_modes:
  assumes "relock env i mode wanted s = (Inr (), s')"
  shows "held_modes (node_locks s' i) w o' b =
    (if covers wanted w o' b then (if mode = LOCK_UNLOCK then {} else {lk_exclusive wanted})
     else held_modes (node_locks s i) w o' b)"
  using relock_locks(1) [OF assms] relock_loop_modes [of 0 "node_locks s i" wanted w o' b]
  by (auto simp: held_modes_append)

lemma relock_compatible:
  assumes "relock env i mode wanted s = (Inr (), s')" "locks_compatible (node_locks s i)"
  shows "locks_compatible (node_locks s' i)"
  unfolding locks_compatible_def
proof (intro allI impI)
  fix w b o1 o2 :: nat and whole
  assume ne: "o1 \<noteq> o2" and ex: "True \<in> held_modes (node_locks s' i) whole o1 b"
  note modes = relock_modes [OF assms(1)] and old = relock_locks(2) [OF assms(1)]
  have other: "held_modes (node_locks s i) whole o' b = {}"
    if "mode \<noteq> LOCK_UNLOCK" "covers wanted whole (lk_owner wanted) b" "lk_exclusive wanted" "o' \<noteq> lk_owner wanted" for o'
    using that old covers_hit [of wanted] unfolding held_modes_def covers_def meets_def by fastforce
  have excl: "True \<notin> held_modes (node_locks s i) whole o' b"
    if "mode \<noteq> LOCK_UNLOCK" "covers wanted whole (lk_owner wanted) b" "o' \<noteq> lk_owner wanted" for o'
    using that old unfolding held_modes_def covers_def meets_def by fastforce
  show "held_modes (node_locks s' i) whole o2 b = {}"
  proof (cases "covers wanted whole o1 b")
    case True
    then have "lk_owner wanted = o1" "mode \<noteq> LOCK_UNLOCK" "lk_exclusive wanted"
      using ex modes by (auto simp: covers_def split: if_splits)
    then show ?thesis using other [of o2] ne True modes by (auto simp: covers_def)
  next
    case False
    then have old_ex: "True \<in> held_modes (node_locks s i) whole o1 b" using ex modes by simp
    then have "held_modes (node_locks s i) whole o2 b = {}"
      using assms(2) ne by (auto simp: locks_compatible_def)
    moreover have "\<not> (covers wanted whole o2 b \<and> mode \<noteq> LOCK_UNLOCK)"
      using excl [of o1] old_ex ne by (auto simp: covers_def)
    ultimately show ?thesis using modes by auto
  qed
qed

text \<open>A request is refused exactly when another handle holds a byte of it in a conflicting mode.\<close>

lemma relock_would_block_iff:
  assumes "st_nodes s i = Some nd" "\<forall>l\<in>set (nd_locks nd). lock_proper l" "lock_proper wanted"
  shows "fst (relock env i mode wanted s) = Inl WouldBlock \<longleftrightarrow>
    mode \<noteq> LOCK_UNLOCK \<and> (\<exists>b o'. covers wanted (lk_whole wanted) (lk_owner wanted) b \<and> o' \<noteq> lk_owner wanted
      \<and> held_modes (nd_locks nd) (lk_whole wanted) o' b \<noteq> {}
      \<and> (lk_exclusive wanted \<or> True \<in> held_modes (nd_locks nd) (lk_whole wanted) o' b))"
  (is "?refused \<longleftrightarrow> ?unlock \<and> ?conflict")
proof -
  have "(\<exists>l\<in>set (nd_locks nd). lk_owner l \<noteq> lk_owner wanted \<and> meets wanted l \<and> (lk_exclusive l \<or> lk_exclusive wanted))
      \<longleftrightarrow> ?conflict" (is "?found \<longleftrightarrow> _")
  proof
    assume ?found
    then obtain l where l: "l \<in> set (nd_locks nd)" "lk_owner l \<noteq> lk_owner wanted" "meets wanted l"
      "lk_exclusive l \<or> lk_exclusive wanted" by blast
    let ?b = "max (lk_start l) (lk_start wanted)"
    have "covers l (lk_whole wanted) (lk_owner l) ?b" "covers wanted (lk_whole wanted) (lk_owner wanted) ?b"
      using l assms(2,3) by (auto simp: meets_def covers_def lock_proper_def)
    then have "lk_exclusive l \<in> held_modes (nd_locks nd) (lk_whole wanted) (lk_owner l) ?b"
      using l by (auto simp: held_modes_def)
    then show ?conflict using l \<open>covers wanted _ _ ?b\<close>
      by (intro exI [of _ ?b] exI [of _ "lk_owner l"]) (cases "lk_exclusive l"; auto)
  next
    assume ?conflict
    then show ?found by (fastforce simp: held_modes_def covers_def meets_def)
  qed
  then show ?thesis using assms(1) by (auto simp: relock_def Let_def list_ex_iff)
qed

end
