(* ===== verification/Memfs_Ops.thy ===== *)
theory Memfs_Ops
  imports Memfs_Locks
begin

text \<open>
  The in-memory file system as a provider of files (\<open>impl Files for MemFs\<close> of
  \<open>crates/dotnet-pal-memfs/src/lib.rs\<close>) with the handles it gives out. Every operation takes the
  environment of the call and the state behind the tree's lock; it begins with \<open>acquire\<close>, as every
  call begins by taking the lock. \<open>and_then (r, s) f\<close> is the \<open>?\<close> of a lookup in the state \<open>s\<close>.
\<close>

section \<open>Handles\<close>

definition new_handle :: "env \<Rightarrow> handle \<Rightarrow> state \<Rightarrow> nat result \<times> state" where
  "new_handle env h s = (Inr (e_box env), s\<lparr>st_handles := (st_handles s)(e_box env \<mapsto> h)\<rparr>)"

text \<open>
  A handle is trusted to come from \<open>new_handle\<close>: only null and misaligned addresses are refused by
  the code. An address without a live box is outside the contract and is refused here as well.
\<close>

definition borrow :: "state \<Rightarrow> nat \<Rightarrow> handle result" where
  "borrow s h = (if h = 0 \<or> h mod 8 \<noteq> 0 then Inl InvalidArgument else ok_or (st_handles s h) InvalidArgument)"

definition file_node :: "state \<Rightarrow> nat \<Rightarrow> flags \<Rightarrow> nat result" where
  "file_node s h access = r_bind (borrow s h) (\<lambda>v.
     case v of
       FileHandle node granted \<Rightarrow> if granted AND access = access then Inr node else Inl AccessDenied
     | _ \<Rightarrow> Inl InvalidArgument)"

definition watcher_id :: "state \<Rightarrow> nat \<Rightarrow> nat result" where
  "watcher_id s h = r_bind (borrow s h) (\<lambda>v. case v of WatcherHandle i \<Rightarrow> Inr i | _ \<Rightarrow> Inl InvalidArgument)"

definition node_at :: "state \<Rightarrow> byte list \<Rightarrow> final \<Rightarrow> nat result" where
  "node_at s path policy = r_bind (walk s path policy) (\<lambda>place. ok_or (pl_node place) NotFound)"

section \<open>Capacity\<close>

definition set_capacity :: "nat \<Rightarrow> state \<Rightarrow> state" where
  "set_capacity bytes s = (acquire s)\<lparr>st_capacity := bytes\<rparr>"

definition used_bytes :: "state \<Rightarrow> nat" where
  "used_bytes s = st_used (acquire s)"

section \<open>Files\<close>

text \<open>The node that \<open>open\<close> settles on: the file that is there, or a new one.\<close>

definition open_node :: "env \<Rightarrow> flags \<Rightarrow> flags \<Rightarrow> nat \<Rightarrow> place \<Rightarrow> state \<Rightarrow> nat result \<times> state" where
  "open_node env fl mode now place s =
     (case pl_node place of
        Some node \<Rightarrow>
          if fl AND EXCLUSIVE \<noteq> 0 then (Inl AlreadyExists, s)
          else and_then (is_directory s node, s) (\<lambda>d s.
            if d then (Inl IsDirectory, s)
            else if fl AND TRUNCATE \<noteq> 0
            then and_then (change env node now False (\<lambda>c room mapped. content_resize env c 0 room mapped) s)
                   (\<lambda>_ s. (Inr node, s))
            else (Inr node, s))
      | None \<Rightarrow>
          if fl AND CREATE = 0 then (Inl NotFound, s)
          else if pl_slash place then (Inl IsDirectory, s)
          else create env place mode (File (Plain [])) now s)"

definition mfs_open :: "env \<Rightarrow> byte list \<Rightarrow> flags \<Rightarrow> flags \<Rightarrow> state \<Rightarrow> nat result \<times> state" where
  "mfs_open env path fl mode s =
     (let now = (if fl AND (CREATE OR TRUNCATE) \<noteq> 0 then e_clock env else 0);
          s = acquire s
      in and_then (walk s path (if fl AND EXCLUSIVE \<noteq> 0 then Create else Follow), s) (\<lambda>place s.
         and_then (open_node env fl mode now place s) (\<lambda>node s.
         and_then (update_node node (\<lambda>nd. nd\<lparr>nd_opens := nd_opens nd + 1\<rparr>) s) (\<lambda>_ s.
         new_handle env (FileHandle node (fl AND (READ OR WRITE))) s))))"

definition mfs_close :: "nat \<Rightarrow> state \<Rightarrow> unit result \<times> state" where
  "mfs_close file s =
     (let s = acquire s in
      and_then (borrow s file, s) (\<lambda>v s.
        case v of
          FileHandle node _ \<Rightarrow>
            and_then (update_node node (\<lambda>nd. nd\<lparr>nd_opens := nd_opens nd - 1,
                  nd_locks := filter (\<lambda>held. lk_owner held \<noteq> file) (nd_locks nd)\<rparr>)
                (s\<lparr>st_handles := (st_handles s)(file := None)\<rparr>))
              (\<lambda>_ s. (Inr (), reap node s))
        | _ \<Rightarrow> (Inl InvalidArgument, s)))"

text \<open>The bytes read; the caller's buffer gets them at its start.\<close>

definition mfs_read_at :: "env \<Rightarrow> nat \<Rightarrow> nat \<Rightarrow> nat \<Rightarrow> state \<Rightarrow> byte list result \<times> state" where
  "mfs_read_at env file offset capacity s =
     (let s = acquire s in
      and_then (file_node s file READ, s) (\<lambda>node s.
      and_then (get_content s node, s) (\<lambda>c s.
        let bytes = content_read c offset capacity
        in (Inr bytes, if bytes \<noteq> [] then report env node W_ACCESS s else s))))"

definition mfs_write_at :: "env \<Rightarrow> nat \<Rightarrow> nat \<Rightarrow> byte list \<Rightarrow> state \<Rightarrow> nat result \<times> state" where
  "mfs_write_at env file offset data s =
     (let s = acquire s in
      and_then (file_node s file WRITE, s) (\<lambda>node s.
        change env node (e_clock env) (data \<noteq> [])
          (\<lambda>c room mapped. content_write env c offset data room mapped) s))"

definition mfs_set_size :: "env \<Rightarrow> nat \<Rightarrow> nat \<Rightarrow> state \<Rightarrow> unit result \<times> state" where
  "mfs_set_size env file sz s =
     (let s = acquire s in
      and_then (file_node s file WRITE, s) (\<lambda>node s.
        change env node (e_clock env) False (\<lambda>c room mapped. content_resize env c sz room mapped) s))"

definition mfs_flush :: "nat \<Rightarrow> state \<Rightarrow> unit result \<times> state" where
  "mfs_flush file s = (let s = acquire s in and_then (file_node s file 0, s) (\<lambda>_ s. (Inr (), s)))"

definition mfs_status :: "nat \<Rightarrow> state \<Rightarrow> file_status result \<times> state" where
  "mfs_status file s =
     (let s = acquire s in and_then (file_node s file 0, s) (\<lambda>node s. (node_status s node, s)))"

definition mfs_path_status :: "byte list \<Rightarrow> bool \<Rightarrow> state \<Rightarrow> file_status result \<times> state" where
  "mfs_path_status path follow s =
     (let s = acquire s in
      and_then (node_at s path (if follow then Follow else Keep), s) (\<lambda>node s. (node_status s node, s)))"

section \<open>Names\<close>

definition mfs_remove :: "env \<Rightarrow> byte list \<Rightarrow> state \<Rightarrow> unit result \<times> state" where
  "mfs_remove env path s =
     (let now = e_clock env; s = acquire s in
      and_then (walk s path Entry, s) (\<lambda>place s.
      and_then (ok_or (pl_node place) NotFound, s) (\<lambda>node s.
      and_then (is_directory s node, s) (\<lambda>d s.
        if d then (Inl IsDirectory, s)
        else
          and_then (update_entries (pl_parent place) (al_remove (pl_name place)) s) (\<lambda>_ s.
          and_then (touch (pl_parent place) now s) (\<lambda>_ s.
          and_then (unlinked env node now True s) (\<lambda>_ s.
            (Inr (), report_entry env (pl_parent place) (pl_name place) W_DELETE 0 s))))))))"

text \<open>
  The climb of \<open>rename\<close> from the destination to the root, which must not meet the directory that
  moves; \<open>None\<close> is a climb that never ends.
\<close>

partial_function (option) outside :: "state \<Rightarrow> nat \<Rightarrow> nat \<Rightarrow> unit result option" where
  "outside s node ancestor =
     (if ancestor = ROOT then Some (Inr ())
      else if ancestor = node then Some (Inl InvalidArgument)
      else case get_parent s ancestor of
          Inl e \<Rightarrow> Some (Inl e)
        | Inr up \<Rightarrow> outside s node up)"

definition rename_replaces :: "state \<Rightarrow> bool \<Rightarrow> place \<Rightarrow> unit result" where
  "rename_replaces s directory target =
     (case pl_node target of
        None \<Rightarrow> Inr ()
      | Some replaced \<Rightarrow>
          r_bind (is_directory s replaced) (\<lambda>d.
            if \<not> directory \<and> d then Inl IsDirectory
            else if directory \<and> \<not> d then Inl NotDirectory
            else if directory \<and> d
            then r_bind (get_entries s replaced) (\<lambda>es. if es \<noteq> [] then Inl NotEmpty else Inr ())
            else Inr ()))"

definition rename_refusal :: "state \<Rightarrow> nat \<Rightarrow> bool \<Rightarrow> place \<Rightarrow> unit result option" where
  "rename_refusal s node directory target =
     map_option (\<lambda>r. r_bind r (\<lambda>_. rename_replaces s directory target))
       (if directory then outside s node (pl_parent target)
        else Some (if pl_slash target then Inl NotDirectory else Inr ()))"

definition next_cookie :: "32 word \<Rightarrow> 32 word" where
  "next_cookie c = (if c = - 1 then 1 else c + 1)"

definition reparent :: "nat \<Rightarrow> nat \<Rightarrow> node \<Rightarrow> node" where
  "reparent parent now nd =
     nd\<lparr>nd_changed := now, nd_body := (case nd_body nd of Directory _ es \<Rightarrow> Directory parent es | b \<Rightarrow> b)\<rparr>"

definition rename_apply :: "env \<Rightarrow> place \<Rightarrow> nat \<Rightarrow> place \<Rightarrow> bool \<Rightarrow> state \<Rightarrow> unit result \<times> state" where
  "rename_apply env source node target directory s =
     (let now = e_clock env in
      and_then (update_entries (pl_parent source) (al_remove (pl_name source)) s) (\<lambda>_ s.
      and_then (get_entries s (pl_parent target), s) (\<lambda>es s.
      and_then (update_entries (pl_parent target) (al_insert (pl_name target) node) s) (\<lambda>_ s.
        let replaced = map_of es (pl_name target);
            s = s\<lparr>st_cookie := next_cookie (st_cookie s)\<rparr>;
            mark = (if directory then W_DIRECTORY else 0);
            cookie = st_cookie s;
            s = report_entry env (pl_parent source) (pl_name source) (W_MOVED_FROM OR mark) cookie s;
            s = report_entry env (pl_parent target) (pl_name target) (W_MOVED_TO OR mark) cookie s
        in
        and_then (case replaced of Some old \<Rightarrow> unlinked env old now True s | None \<Rightarrow> (Inr (), s)) (\<lambda>_ s.
        and_then (update_node node (reparent (pl_parent target) now) s) (\<lambda>_ s.
        and_then (touch (pl_parent source) now s) (\<lambda>_ s.
        touch (pl_parent target) now s)))))))"

definition mfs_rename :: "env \<Rightarrow> byte list \<Rightarrow> byte list \<Rightarrow> state \<Rightarrow> (unit result \<times> state) option" where
  "mfs_rename env from to s =
     (let s = acquire s in
      case r_bind (walk s from Entry) (\<lambda>source.
           r_bind (ok_or (pl_node source) NotFound) (\<lambda>node.
           r_bind (walk s to Entry) (\<lambda>target.
             if pl_name source = [] \<or> pl_name target = [] then Inl Busy
             else Inr (source, node, target)))) of
        Inl e \<Rightarrow> Some (Inl e, s)
      | Inr (source, node, target) \<Rightarrow>
          if pl_node target = Some node then Some (Inr (), s)
          else case is_directory s node of
              Inl e \<Rightarrow> Some (Inl e, s)
            | Inr directory \<Rightarrow>
                map_option (\<lambda>r. and_then (r, s) (\<lambda>_. rename_apply env source node target directory))
                  (rename_refusal s node directory target))"

definition mfs_create_directory :: "env \<Rightarrow> byte list \<Rightarrow> flags \<Rightarrow> state \<Rightarrow> unit result \<times> state" where
  "mfs_create_directory env path mode s =
     (let now = e_clock env; s = acquire s in
      and_then (walk s path Create, s) (\<lambda>place s.
        if pl_node place \<noteq> None then (Inl AlreadyExists, s)
        else and_then (create env place mode (Directory (pl_parent place) []) now s) (\<lambda>_ s. (Inr (), s))))"

definition mfs_remove_directory :: "env \<Rightarrow> byte list \<Rightarrow> state \<Rightarrow> unit result \<times> state" where
  "mfs_remove_directory env path s =
     (let now = e_clock env; s = acquire s in
      and_then (walk s path Entry, s) (\<lambda>place s.
      and_then (ok_or (pl_node place) NotFound, s) (\<lambda>node s.
      and_then (get_entries s node, s) (\<lambda>es s.
        if node = ROOT then (Inl Busy, s)
        else if es \<noteq> [] then (Inl NotEmpty, s)
        else if pl_name place = [] then (Inl InvalidArgument, s)
        else
          and_then (update_entries (pl_parent place) (al_remove (pl_name place)) s) (\<lambda>_ s.
          and_then (touch (pl_parent place) now s) (\<lambda>_ s.
          and_then (unlinked env node now False s) (\<lambda>_ s.
            (Inr (), report_entry env (pl_parent place) (pl_name place) (W_DELETE OR W_DIRECTORY) 0 s))))))))"

section \<open>Directory listings\<close>

fun listing_of :: "state \<Rightarrow> entries \<Rightarrow> byte list result" where
  "listing_of s [] = Inr []"
| "listing_of s ((name, child) # es) =
     r_bind (node_kind s child) (\<lambda>kind.
     r_bind (listing_of s es) (\<lambda>rest. Inr (of_nat kind # of_nat (length name) # name @ rest)))"

definition mfs_open_directory :: "env \<Rightarrow> byte list \<Rightarrow> state \<Rightarrow> nat result \<times> state" where
  "mfs_open_directory env path s =
     (let s = acquire s in
      and_then (node_at s path Follow, s) (\<lambda>node s.
      and_then (get_entries s node, s) (\<lambda>es s.
        if \<not> e_grant env SListing (sum_list (map (\<lambda>e. length (fst e) + 2) es)) then (Inl OutOfMemory, s)
        else and_then (listing_of s es, s) (\<lambda>listing s. new_handle env (DirectoryHandle listing 0) s))))"

text \<open>\<open>next\<close> never passes the end of the listing, so the slice from it always exists.\<close>

definition mfs_read_directory ::
  "nat \<Rightarrow> byte list \<Rightarrow> state \<Rightarrow> (nat \<times> nat) result \<times> byte list \<times> state" where
  "mfs_read_directory directory buf s =
     (let s = acquire s in
      case borrow s directory of
        Inl e \<Rightarrow> (Inl e, buf, s)
      | Inr (DirectoryHandle listing next) \<Rightarrow>
          (case drop next listing of
             kind # len # rest \<Rightarrow>
               if length rest < unat len then (Inl Os, buf, s)
               else if length buf < unat len then (Inl InvalidArgument, buf, s)
               else (Inr (unat len, unat kind), overwrite buf 0 (take (unat len) rest),
                     s\<lparr>st_handles := (st_handles s)(directory \<mapsto> DirectoryHandle listing (next + (2 + unat len)))\<rparr>)
           | _ \<Rightarrow> (Inl NotFound, buf, s))
      | Inr _ \<Rightarrow> (Inl InvalidArgument, buf, s))"

definition mfs_close_directory :: "nat \<Rightarrow> state \<Rightarrow> unit result \<times> state" where
  "mfs_close_directory directory s =
     (let s = acquire s in
      and_then (borrow s directory, s) (\<lambda>v s.
        case v of
          DirectoryHandle _ _ \<Rightarrow> (Inr (), s\<lparr>st_handles := (st_handles s)(directory := None)\<rparr>)
        | _ \<Rightarrow> (Inl InvalidArgument, s)))"

section \<open>Texts, attributes and links\<close>

definition mfs_current_directory :: "byte list \<Rightarrow> state \<Rightarrow> (nat result \<times> byte list \<times> state) option" where
  "mfs_current_directory out s =
     (let s = acquire s in
      case get_working s of
        Inl e \<Rightarrow> Some (Inl e, out, s)
      | Inr working \<Rightarrow> map_option (\<lambda>(r, out'). (r, out', s)) (spell s working [] out))"

definition mfs_set_mode :: "env \<Rightarrow> byte list \<Rightarrow> flags \<Rightarrow> state \<Rightarrow> unit result \<times> state" where
  "mfs_set_mode env path mode s =
     (let s = acquire s in
      and_then (node_at s path Follow, s) (\<lambda>node s. state_set_mode env node mode (e_clock env) s))"

definition mfs_set_file_mode :: "env \<Rightarrow> nat \<Rightarrow> flags \<Rightarrow> state \<Rightarrow> unit result \<times> state" where
  "mfs_set_file_mode env file mode s =
     (let s = acquire s in
      and_then (file_node s file 0, s) (\<lambda>node s. state_set_mode env node mode (e_clock env) s))"

definition mfs_set_times ::
  "env \<Rightarrow> byte list \<Rightarrow> bool \<Rightarrow> nat option \<Rightarrow> nat option \<Rightarrow> state \<Rightarrow> unit result \<times> state" where
  "mfs_set_times env path follow accessed modified s =
     (let s = acquire s in
      and_then (node_at s path (if follow then Follow else Keep), s)
        (\<lambda>node s. state_set_times env node accessed modified (e_clock env) s))"

definition mfs_set_file_times ::
  "env \<Rightarrow> nat \<Rightarrow> nat option \<Rightarrow> nat option \<Rightarrow> state \<Rightarrow> unit result \<times> state" where
  "mfs_set_file_times env file accessed modified s =
     (let s = acquire s in
      and_then (file_node s file 0, s) (\<lambda>node s. state_set_times env node accessed modified (e_clock env) s))"

definition mfs_link :: "env \<Rightarrow> byte list \<Rightarrow> byte list \<Rightarrow> state \<Rightarrow> unit result \<times> state" where
  "mfs_link env existing created s =
     (let now = e_clock env; s = acquire s in
      and_then (node_at s existing Keep, s) (\<lambda>node s.
      and_then (vacant s created, s) (\<lambda>place s.
      and_then (is_directory s node, s) (\<lambda>d s.
        if d then (Inl AccessDenied, s)
        else
          and_then (update_entries (pl_parent place) (al_insert (pl_name place) node) (report env node W_ATTRIBUTES s)) (\<lambda>_ s.
          and_then (update_node node (\<lambda>nd. nd\<lparr>nd_links := nd_links nd + 1, nd_changed := now\<rparr>) s) (\<lambda>_ s.
          and_then (touch (pl_parent place) now s) (\<lambda>_ s.
            (Inr (), report_entry env (pl_parent place) (pl_name place) W_CREATE 0 s))))))))"

definition mfs_symlink :: "env \<Rightarrow> byte list \<Rightarrow> byte list \<Rightarrow> state \<Rightarrow> unit result \<times> state" where
  "mfs_symlink env target created s =
     (if target = [] then (Inl NotFound, s)
      else if MAX_NAME < length target then (Inl NameTooLong, s)
      else if \<not> e_grant env SLink (length target) then (Inl NoSpace, s)
      else
        let now = e_clock env; s = acquire s in
        and_then (vacant s created, s) (\<lambda>place s.
        and_then (create env place 0x1FF (Link target) now s) (\<lambda>_ s. (Inr (), s))))"

definition mfs_read_link :: "byte list \<Rightarrow> byte list \<Rightarrow> state \<Rightarrow> nat result \<times> byte list \<times> state" where
  "mfs_read_link path out s =
     (let s = acquire s in
      case r_bind (node_at s path Keep) (get_node s) of
        Inl e \<Rightarrow> (Inl e, out, s)
      | Inr nd \<Rightarrow>
          (case nd_body nd of
             Link target \<Rightarrow>
               (Inr (length target + 1),
                if length target < length out then overwrite out 0 (target @ [0]) else out, s)
           | _ \<Rightarrow> (Inl InvalidArgument, out, s)))"

definition mfs_real_path :: "byte list \<Rightarrow> byte list \<Rightarrow> state \<Rightarrow> (nat result \<times> byte list \<times> state) option" where
  "mfs_real_path path out s =
     (let s = acquire s in
      case walk s path Follow of
        Inl e \<Rightarrow> Some (Inl e, out, s)
      | Inr place \<Rightarrow>
          (case pl_node place of
             None \<Rightarrow> Some (Inl NotFound, out, s)
           | Some _ \<Rightarrow> map_option (\<lambda>(r, out'). (r, out', s)) (spell s (pl_parent place) (pl_name place) out)))"

definition mfs_set_current_directory :: "byte list \<Rightarrow> state \<Rightarrow> unit result \<times> state" where
  "mfs_set_current_directory path s =
     (let s = acquire s in
      and_then (node_at s path Follow, s) (\<lambda>node s.
      and_then (get_entries s node, s) (\<lambda>_ s. (Inr (), s\<lparr>st_working := node\<rparr>))))"

section \<open>Locks\<close>

definition whole_lock :: "nat \<Rightarrow> nat \<Rightarrow> lock" where
  "whole_lock file mode = \<lparr>lk_owner = file, lk_whole = True, lk_start = 0, lk_end = U64_MAX,
     lk_exclusive = (mode = LOCK_EXCLUSIVE)\<rparr>"

text \<open>One attempt of \<open>lock\<close>: give up what the handle holds, then ask.\<close>

definition lock_attempt :: "env \<Rightarrow> nat \<Rightarrow> nat \<Rightarrow> state \<Rightarrow> unit result \<times> state" where
  "lock_attempt env file mode s =
     (let s = acquire s in
      and_then (file_node s file 0, s) (\<lambda>node s.
      and_then (relock env node LOCK_UNLOCK (whole_lock file mode) s) (\<lambda>_ s.
      relock env node mode (whole_lock file mode) s)))"

text \<open>
  The loop of attempts. \<open>others n\<close> is what the rest of the program does to the tree while the
  \<open>n\<close>-th pause lasts, and \<open>envs n\<close> the environment of the \<open>n\<close>-th attempt. Only \<open>WouldBlock\<close> of the
  second \<open>relock\<close> waits; the first never answers it, because it unlocks.
\<close>

partial_function (option) mfs_lock ::
  "(nat \<Rightarrow> env) \<Rightarrow> (nat \<Rightarrow> state \<Rightarrow> state) \<Rightarrow> nat \<Rightarrow> nat \<Rightarrow> nat \<Rightarrow> bool \<Rightarrow> state \<Rightarrow> (unit result \<times> state) option" where
  "mfs_lock envs others n file mode wait s =
     (let (r, s') = lock_attempt (envs n) file mode s in
      if r = Inl WouldBlock \<and> wait then mfs_lock envs others (n + 1) file mode wait (others n s')
      else Some (r, s'))"

definition mfs_lock_range :: "env \<Rightarrow> nat \<Rightarrow> nat \<Rightarrow> nat \<Rightarrow> nat \<Rightarrow> state \<Rightarrow> unit result \<times> state" where
  "mfs_lock_range env file offset len mode s =
     (let s = acquire s;
          access = (if mode = LOCK_UNLOCK then 0 else if mode = LOCK_EXCLUSIVE then WRITE else READ)
      in and_then (file_node s file access, s) (\<lambda>node s.
         and_then (case checked_add offset len of
                     Some stop \<Rightarrow> if offset < stop then (Inr stop, s) else (Inl InvalidArgument, s)
                   | None \<Rightarrow> (Inl InvalidArgument, s)) (\<lambda>stop s.
           relock env node mode \<lparr>lk_owner = file, lk_whole = False, lk_start = offset, lk_end = stop,
             lk_exclusive = (mode = LOCK_EXCLUSIVE)\<rparr> s)))"

end
