(* ===== verification/Memfs_Services.thy ===== *)
theory Memfs_Services
  imports Memfs_Ops Pal_Mappings Pal_Volumes
begin

text \<open>
  The in-memory file system as a provider of change watches, mappings and volumes
  (\<open>impl Watches\<close>, \<open>impl Mappings\<close> and \<open>impl Volumes for MemFs\<close> of
  \<open>crates/dotnet-pal-memfs/src/lib.rs\<close>).
\<close>

section \<open>Watches\<close>

abbreviation WAIT_SLICE :: nat where "WAIT_SLICE \<equiv> 10000000"

definition get_watcher :: "state \<Rightarrow> nat \<Rightarrow> watcher result" where
  "get_watcher s i = ok_or (st_watchers s i) InvalidArgument"

definition mws_open :: "env \<Rightarrow> state \<Rightarrow> nat result \<times> state" where
  "mws_open env s =
     and_then (queue_new env, s) (\<lambda>queue s.
       let s = acquire s; i = st_next_watcher s
       in new_handle env (WatcherHandle i) (s\<lparr>st_next_watcher := i + 1,
            st_watchers := (st_watchers s)(i \<mapsto> \<lparr>wr_queue = queue, wr_watches = [], wr_last = 0\<rparr>)\<rparr>))"

definition mws_close :: "nat \<Rightarrow> state \<Rightarrow> unit result \<times> state" where
  "mws_close watcher s =
     (let s = acquire s in
      and_then (watcher_id s watcher, s) (\<lambda>i s.
        (Inr (), s\<lparr>st_handles := (st_handles s)(watcher := None), st_watchers := (st_watchers s)(i := None)\<rparr>)))"

definition mws_add :: "env \<Rightarrow> nat \<Rightarrow> byte list \<Rightarrow> flags \<Rightarrow> state \<Rightarrow> 32 word result \<times> state" where
  "mws_add env watcher path events s =
     (let wanted = events AND REQUESTABLE in
      if wanted = 0 then (Inl InvalidArgument, s)
      else
        let s = acquire s in
        and_then (watcher_id s watcher, s) (\<lambda>i s.
        and_then (node_at s path (if events AND W_NO_FOLLOW \<noteq> 0 then Keep else Follow), s) (\<lambda>node s.
        and_then (if events AND W_ONLY_DIRECTORY \<noteq> 0
                  then r_bind (is_directory s node) (\<lambda>d. if d then Inr () else Inl NotDirectory) else Inr (), s) (\<lambda>_ s.
        and_then (get_watcher s i, s) (\<lambda>w s.
          case position (\<lambda>wt. wt_node wt = node) (wr_watches w) of
            Some k \<Rightarrow>
              let known = wr_watches w ! k
              in (Inr (wt_id known), s\<lparr>st_watchers := (st_watchers s)(i \<mapsto>
                    w\<lparr>wr_watches := (wr_watches w)[k := known\<lparr>wt_events := wanted\<rparr>]\<rparr>)\<rparr>)
          | None \<Rightarrow>
              if wr_last w = - 1 then (Inl NoSpace, s)
              else if \<not> e_grant env SWatch 1 then (Inl OutOfMemory, s)
              else
                (Inr (wr_last w + 1), s\<lparr>st_watchers := (st_watchers s)(i \<mapsto>
                   w\<lparr>wr_last := wr_last w + 1,
                     wr_watches := wr_watches w @ [\<lparr>wt_id = wr_last w + 1, wt_node = node, wt_events = wanted\<rparr>]\<rparr>)\<rparr>))))))"

definition mws_remove :: "env \<Rightarrow> nat \<Rightarrow> 32 word \<Rightarrow> state \<Rightarrow> unit result \<times> state" where
  "mws_remove env watcher watch s =
     (let s = acquire s in
      and_then (watcher_id s watcher, s) (\<lambda>i s.
      and_then (get_watcher s i, s) (\<lambda>w s.
      and_then (ok_or (position (\<lambda>wt. wt_id wt = watch) (wr_watches w)) InvalidArgument, s) (\<lambda>k s.
        (Inr (), s\<lparr>st_watchers := (st_watchers s)(i \<mapsto>
           w\<lparr>wr_watches := take k (wr_watches w) @ drop (Suc k) (wr_watches w),
             wr_queue := queue_push env i watch W_REMOVED 0 [] (wr_queue w)\<rparr>)\<rparr>)))))"

text \<open>
  One look at the queue: the event taken, or none. The outer \<open>None\<close> is a queue that would make
  \<open>pop\<close> panic.
\<close>

definition read_attempt :: "nat \<Rightarrow> state \<Rightarrow> (event option result \<times> state) option" where
  "read_attempt watcher s =
     (let s = acquire s in
      case r_bind (watcher_id s watcher) (\<lambda>i. r_bind (get_watcher s i) (\<lambda>w. Inr (i, w))) of
        Inl e \<Rightarrow> Some (Inl e, s)
      | Inr (i, w) \<Rightarrow>
          map_option (\<lambda>(next, q). (Inr next, s\<lparr>st_watchers := (st_watchers s)(i \<mapsto> w\<lparr>wr_queue := q\<rparr>)\<rparr>))
            (queue_pop (wr_queue w)))"

text \<open>
  What a waiting read meets outside the tree: whether \<open>set_wait\<close> and \<open>set_clock\<close> have set a
  function, what the clock says at the \<open>n\<close>-th look, and what the rest of the program does to the
  tree while the \<open>n\<close>-th wait or pause lasts.
\<close>

record waiting =
  w_hooked :: bool
  w_clocked :: bool
  w_clock :: "nat \<Rightarrow> nat"
  w_others :: "nat \<Rightarrow> state \<Rightarrow> state"

definition nanos_left :: "nat \<Rightarrow> nat \<Rightarrow> nat" where
  "nanos_left timeout_ns left = (if timeout_ns \<noteq> FOREVER then left - min left WAIT_SLICE else left)"

definition read_deadline :: "waiting \<Rightarrow> nat \<Rightarrow> nat \<Rightarrow> nat option \<Rightarrow> nat" where
  "read_deadline wt n timeout_ns deadline =
     (case deadline of None \<Rightarrow> saturating_add (w_clock wt n) timeout_ns | Some d \<Rightarrow> d)"

partial_function (option) mws_read_loop ::
  "waiting \<Rightarrow> nat \<Rightarrow> nat \<Rightarrow> nat \<Rightarrow> nat \<Rightarrow> nat option \<Rightarrow> event \<Rightarrow> state \<Rightarrow> (unit result \<times> event \<times> state) option" where
  "mws_read_loop wt n watcher timeout_ns left deadline event s =
     Option.bind (read_attempt watcher s) (\<lambda>(r, s').
       case r of
         Inl e \<Rightarrow> Some (Inl e, event, s')
       | Inr (Some next) \<Rightarrow> Some (Inr (), next, s')
       | Inr None \<Rightarrow>
           if left = 0 then Some (Inl Timeout, event, s')
           else if w_hooked wt
           then mws_read_loop wt (n + 1) watcher timeout_ns (nanos_left timeout_ns left) deadline event (w_others wt n s')
           else if timeout_ns = FOREVER
           then mws_read_loop wt (n + 1) watcher timeout_ns left deadline event (w_others wt n s')
           else if \<not> w_clocked wt then Some (Inl Timeout, event, s')
           else if read_deadline wt n timeout_ns deadline \<le> w_clock wt n then Some (Inl Timeout, event, s')
           else mws_read_loop wt (n + 1) watcher timeout_ns left (Some (read_deadline wt n timeout_ns deadline)) event
                  (w_others wt n s'))"

definition mws_read ::
  "waiting \<Rightarrow> nat \<Rightarrow> nat \<Rightarrow> event \<Rightarrow> state \<Rightarrow> (unit result \<times> event \<times> state) option" where
  "mws_read wt watcher timeout_ns event s = mws_read_loop wt 0 watcher timeout_ns timeout_ns None event s"

section \<open>Mappings\<close>

text \<open>The end of the file's last page and the first byte to map.\<close>

definition map_window :: "content \<Rightarrow> nat \<Rightarrow> nat \<Rightarrow> (nat \<times> nat) result" where
  "map_window c offset len =
     r_bind (ok_or (checked_next_multiple_of (content_len c) PAGE) InvalidArgument) (\<lambda>limit.
     r_bind (case usize_try_from offset of
               Some start \<Rightarrow> if start mod PAGE = 0 then Inr start else Inl InvalidArgument
             | None \<Rightarrow> Inl InvalidArgument) (\<lambda>start.
     case checked_add start len of
       Some stop \<Rightarrow> if len \<noteq> 0 \<and> stop \<le> limit then Inr (limit, start) else Inl InvalidArgument
     | None \<Rightarrow> Inl InvalidArgument))"

definition count_mapping :: "nat \<Rightarrow> mapped option \<Rightarrow> mapped result" where
  "count_mapping node m =
     (case m of
        None \<Rightarrow> Inr (Shared node 1)
      | Some (Shared i n) \<Rightarrow> Inr (Shared i (n + 1))
      | Some Private \<Rightarrow> Inl Os)"

text \<open>
  The address of a new mapping, and next to it the bytes its memory holds when the call returns.
\<close>

definition map_shared :: "env \<Rightarrow> nat \<Rightarrow> nat \<Rightarrow> nat \<Rightarrow> nat \<Rightarrow> state \<Rightarrow> (nat \<times> byte list) result \<times> state" where
  "map_shared env node limit start len s =
     and_then (get_node s node, s) (\<lambda>nd s.
       case nd_body nd of
         File c \<Rightarrow>
           (case content_pin env c limit of
              (Inl e, c') \<Rightarrow> (Inl e, s\<lparr>st_nodes := (st_nodes s)(node \<mapsto> nd\<lparr>nd_body := File c'\<rparr>)\<rparr>)
            | (Inr base, c') \<Rightarrow>
                let s = s\<lparr>st_nodes := (st_nodes s)(node \<mapsto> nd\<lparr>nd_body := File c'\<rparr>)\<rparr>;
                    address = base + start;
                    bytes = (case c' of Pinned p \<Rightarrow> take len (drop start (p_bytes p)) | Plain _ \<Rightarrow> [])
                in and_then (count_mapping node (st_mappings s (address, len)), s) (\<lambda>m s.
                   and_then (update_node node (\<lambda>nd. nd\<lparr>nd_maps := nd_maps nd + 1\<rparr>)
                       (s\<lparr>st_mappings := (st_mappings s)((address, len) \<mapsto> m)\<rparr>)) (\<lambda>_ s.
                   (Inr (address, bytes), s))))
       | _ \<Rightarrow> (Inl InvalidArgument, s))"

definition map_private :: "env \<Rightarrow> content \<Rightarrow> nat \<Rightarrow> nat \<Rightarrow> state \<Rightarrow> (nat \<times> byte list) result \<times> state" where
  "map_private env c offset len s =
     and_then (ok_or (checked_next_multiple_of len PAGE) OutOfMemory, s) (\<lambda>rounded s.
     and_then (pages env rounded, s) (\<lambda>base s.
       (Inr (base, take len (overwrite (replicate rounded 0) 0 (content_read c offset len))),
        s\<lparr>st_mappings := (st_mappings s)((base, len) \<mapsto> Private)\<rparr>)))"

definition mms_map ::
  "env \<Rightarrow> nat \<Rightarrow> nat \<Rightarrow> nat \<Rightarrow> flags \<Rightarrow> bool \<Rightarrow> state \<Rightarrow> (nat \<times> byte list) result \<times> state" where
  "mms_map env file offset len access shared s =
     (let s = acquire s in
      and_then (file_node s file READ, s) (\<lambda>node s.
      and_then (if shared \<and> access AND R_WRITE \<noteq> 0 then file_node s file WRITE else Inr node, s) (\<lambda>_ s.
        if access AND R_EXECUTE \<noteq> 0 then (Inl Unsupported, s)
        else
          and_then (get_content s node, s) (\<lambda>c s.
          and_then (map_window c offset len, s) (\<lambda>(limit, start) s.
            if shared then map_shared env node limit start len s
            else map_private env c offset len s)))))"

definition mms_unmap :: "nat \<Rightarrow> nat \<Rightarrow> state \<Rightarrow> unit result \<times> state" where
  "mms_unmap address len s =
     (let s = acquire s; key = (address, len) in
      and_then (ok_or (st_mappings s key) InvalidArgument, s) (\<lambda>m s.
        case m of
          Shared node n \<Rightarrow>
            let s = s\<lparr>st_mappings := (st_mappings s)
                        (key := if n - 1 = 0 then None else Some (Shared node (n - 1)))\<rparr>
            in and_then (update_node node (\<lambda>nd. nd\<lparr>nd_maps := nd_maps nd - 1\<rparr>) s) (\<lambda>_ s.
               (Inr (), reap node s))
        | Private \<Rightarrow> (Inr (), s\<lparr>st_mappings := (st_mappings s)(key := None)\<rparr>)))"

definition mms_sync :: "nat \<Rightarrow> nat \<Rightarrow> state \<Rightarrow> unit result \<times> state" where
  "mms_sync address len s =
     (let s = acquire s in (if st_mappings s (address, len) \<noteq> None then Inr () else Inl InvalidArgument, s))"

section \<open>Volumes\<close>

definition mvs_entry :: "nat \<Rightarrow> byte list \<Rightarrow> nat result \<times> byte list" where
  "mvs_entry index out =
     (if index \<noteq> 0 then (Inl NotFound, out)
      else (Inr 2, if 2 \<le> length out then overwrite out 0 [SLASH, 0] else out))"

definition FORMAT_NAME :: "byte list" where
  "FORMAT_NAME = [109, 101, 109, 102, 115]"

definition mvs_status :: "byte list \<Rightarrow> state \<Rightarrow> volume_status result \<times> state" where
  "mvs_status path s =
     (let s = acquire s in
      and_then (node_at s path Follow, s) (\<lambda>_ s.
        let whole = max (st_capacity s) (st_used s); free = st_capacity s - st_used s
        in (Inr (volume_status_new whole free free FORMAT_NAME), s)))"

end
