(* ===== verification/Memfs_View.thy ===== *)
theory Memfs_View
  imports Memfs_Services
begin

text \<open>
  The abstract file system: what the node table means once layout, times, modes and locks are
  forgotten. A node is its link count, the numbers of handles and shared mappings that hold it,
  and its body: the bytes of a file, the target of a link, or the parent and the finite map of a
  directory. \<open>view\<close> is the abstraction function; the lemmas say which abstract edit each primitive
  of \<open>impl State\<close> is.
\<close>

named_theorems view_simps \<open>how the primitives act on the abstract file system\<close>

section \<open>The abstract file system\<close>

datatype vbody = VFile "byte list" | VDir nat "name \<rightharpoonup> nat" | VLink "byte list"

record vnode =
  v_links :: nat
  v_opens :: nat
  v_maps :: nat
  v_body :: vbody

type_synonym vtree = "nat \<rightharpoonup> vnode"

fun body_view :: "body \<Rightarrow> vbody" where
  "body_view (File c) = VFile (content_bytes c)"
| "body_view (Directory p es) = VDir p (map_of es)"
| "body_view (Link target) = VLink target"

definition node_view :: "node \<Rightarrow> vnode" where
  "node_view nd = \<lparr>v_links = nd_links nd, v_opens = nd_opens nd, v_maps = nd_maps nd, v_body = body_view (nd_body nd)\<rparr>"

definition view :: "state \<Rightarrow> vtree" where
  "view s i = map_option node_view (st_nodes s i)"

definition entry_of :: "vtree \<Rightarrow> nat \<Rightarrow> name \<rightharpoonup> nat" where
  "entry_of t d n = (case t d of Some v \<Rightarrow> (case v_body v of VDir _ e \<Rightarrow> e n | _ \<Rightarrow> None) | None \<Rightarrow> None)"

definition parent_of :: "vtree \<Rightarrow> nat \<rightharpoonup> nat" where
  "parent_of t d = (case t d of Some v \<Rightarrow> (case v_body v of VDir p _ \<Rightarrow> Some p | _ \<Rightarrow> None) | None \<Rightarrow> None)"

definition is_dir :: "vtree \<Rightarrow> nat \<Rightarrow> bool" where
  "is_dir t d \<longleftrightarrow> parent_of t d \<noteq> None"

definition names_of :: "vtree \<Rightarrow> nat \<Rightarrow> (nat \<times> name) set" where
  "names_of t i = {(d, n). entry_of t d n = Some i}"

section \<open>Abstract edits\<close>

definition v_upd :: "nat \<Rightarrow> (vnode \<Rightarrow> vnode) \<Rightarrow> vtree \<Rightarrow> vtree" where
  "v_upd i f t = t(i := map_option f (t i))"

definition set_entry :: "name \<Rightarrow> nat option \<Rightarrow> vnode \<Rightarrow> vnode" where
  "set_entry n x v = (case v_body v of VDir p e \<Rightarrow> v\<lparr>v_body := VDir p (e(n := x))\<rparr> | _ \<Rightarrow> v)"

definition set_parent :: "nat \<Rightarrow> vnode \<Rightarrow> vnode" where
  "set_parent p v = (case v_body v of VDir _ e \<Rightarrow> v\<lparr>v_body := VDir p e\<rparr> | _ \<Rightarrow> v)"

definition v_reap :: "nat \<Rightarrow> vtree \<Rightarrow> vtree" where
  "v_reap i t = (case t i of
     Some v \<Rightarrow> if v_links v = 0 \<and> v_opens v = 0 \<and> v_maps v = 0 then t(i := None) else t
   | None \<Rightarrow> t)"

definition v_unlink :: "nat \<Rightarrow> vtree \<Rightarrow> vtree" where
  "v_unlink i t = v_reap i (v_upd i (\<lambda>v. v\<lparr>v_links := v_links v - 1\<rparr>) t)"

section \<open>Parts of the state an operation leaves alone\<close>

lemma watchers_only [simp]:
  "st_nodes (report env i k s) = st_nodes s" "st_next_id (report env i k s) = st_next_id s"
  "st_used (report env i k s) = st_used s" "st_capacity (report env i k s) = st_capacity s"
  "st_working (report env i k s) = st_working s" "st_handles (report env i k s) = st_handles s"
  "st_mappings (report env i k s) = st_mappings s" "st_next_watcher (report env i k s) = st_next_watcher s"
  "st_nodes (report_entry env d n k c s) = st_nodes s" "st_next_id (report_entry env d n k c s) = st_next_id s"
  "st_used (report_entry env d n k c s) = st_used s" "st_capacity (report_entry env d n k c s) = st_capacity s"
  "st_working (report_entry env d n k c s) = st_working s" "st_handles (report_entry env d n k c s) = st_handles s"
  "st_mappings (report_entry env d n k c s) = st_mappings s"
  "st_next_watcher (report_entry env d n k c s) = st_next_watcher s"
  "st_nodes (ended env i s) = st_nodes s" "st_next_id (ended env i s) = st_next_id s"
  "st_used (ended env i s) = st_used s" "st_capacity (ended env i s) = st_capacity s"
  "st_working (ended env i s) = st_working s" "st_handles (ended env i s) = st_handles s"
  "st_mappings (ended env i s) = st_mappings s" "st_next_watcher (ended env i s) = st_next_watcher s"
  by (simp_all add: report_def report_entry_def ended_def split: option.split)

lemma view_cong: "st_nodes s = st_nodes s' \<Longrightarrow> view s = view s'"
  by (simp add: view_def fun_eq_iff)

lemma view_watchers [simp]:
  "view (report env i k s) = view s" "view (report_entry env d n k c s) = view s" "view (ended env i s) = view s"
  by (simp_all add: view_def fun_eq_iff)

lemma view_update [simp]:
  "view (st_next_id_update f s) = view s" "view (st_used_update f s) = view s"
  "view (st_capacity_update f s) = view s" "view (st_working_update h s) = view s"
  "view (st_watchers_update w s) = view s" "view (st_cookie_update c s) = view s"
  "view (st_mappings_update m s) = view s" "view (st_handles_update g s) = view s"
  "view (st_next_watcher_update f s) = view s"
  by (simp_all add: view_def fun_eq_iff)

lemma view_put: "view (s\<lparr>st_nodes := (st_nodes s)(i \<mapsto> nd)\<rparr>) = (view s)(i \<mapsto> node_view nd)"
  by (auto simp: view_def fun_eq_iff)

lemma view_Some_iff: "view s i = Some v \<longleftrightarrow> (\<exists>nd. st_nodes s i = Some nd \<and> v = node_view nd)"
  by (auto simp: view_def)

lemma view_None_iff [simp]: "view s i = None \<longleftrightarrow> st_nodes s i = None"
  by (simp add: view_def)

lemma dom_view [simp]: "dom (view s) = dom (st_nodes s)"
  by (auto simp: dom_def)

lemma node_view_simps [simp]:
  "v_links (node_view nd) = nd_links nd" "v_opens (node_view nd) = nd_opens nd"
  "v_maps (node_view nd) = nd_maps nd" "v_body (node_view nd) = body_view (nd_body nd)"
  by (simp_all add: node_view_def)

section \<open>Looking\<close>

lemma get_entries_view:
  "get_entries s d = Inr es \<Longrightarrow> is_dir (view s) d \<and> entry_of (view s) d = map_of es"
  by (auto simp: get_entries_def get_node_def is_dir_def parent_of_def entry_of_def view_def ok_or_def r_bind_def fun_eq_iff
      split: option.splits body.splits)

lemma get_entries_ok: "is_dir (view s) d \<Longrightarrow> \<exists>es. get_entries s d = Inr es"
  by (auto simp: get_entries_def get_node_def is_dir_def parent_of_def view_def ok_or_def
      split: option.splits vbody.splits body.splits)

lemma get_parent_view: "get_parent s d = Inr p \<longleftrightarrow> parent_of (view s) d = Some p"
  by (auto simp: get_parent_def get_node_def parent_of_def view_def ok_or_def r_bind_def
      split: option.splits vbody.splits body.splits elim: body_view.elims)

lemma is_directory_view: "is_directory s i = Inr b \<longleftrightarrow> st_nodes s i \<noteq> None \<and> b = is_dir (view s) i"
  by (cases "st_nodes s i")
    (auto simp: is_directory_def node_kind_def get_node_def is_dir_def parent_of_def view_def ok_or_def
      split: body.splits)

section \<open>Changing\<close>

lemma fst_update_node [view_simps]:
  "fst (update_node i f s) = (if st_nodes s i = None then Inl InvalidArgument else Inr ())"
  by (simp add: update_node_def split: option.split)

lemma view_update_node:
  "(\<And>nd. node_view (f nd) = g (node_view nd)) \<Longrightarrow> view (snd (update_node i f s)) = v_upd i g (view s)"
  by (auto simp: update_node_def v_upd_def view_def fun_eq_iff split: option.split)

lemma v_upd_id: "(\<And>v. g v = v) \<Longrightarrow> v_upd i g t = t"
  by (cases "t i") (simp_all add: v_upd_def fun_upd_idem)

lemma view_update_node_same [view_simps]:
  "(\<And>nd. node_view (f nd) = node_view nd) \<Longrightarrow> view (snd (update_node i f s)) = view s"
  by (simp add: view_update_node [where g = "\<lambda>v. v"] v_upd_id)

lemma fst_touch [view_simps]: "fst (touch i now s) = (if st_nodes s i = None then Inl InvalidArgument else Inr ())"
  by (simp add: touch_def fst_update_node)

lemma view_touch [view_simps]: "view (snd (touch i now s)) = view s"
  unfolding touch_def by (rule view_update_node_same) (simp add: node_view_def)

lemma fst_update_entries [view_simps]:
  "fst (update_entries d f s) = (if st_nodes s d = None then Inl InvalidArgument
     else if is_dir (view s) d then Inr () else Inl NotDirectory)"
  by (auto simp: update_entries_def is_dir_def parent_of_def view_def split: option.split body.split)

lemma view_insert_entry [view_simps]:
  "view (snd (update_entries d (al_insert n i) s)) = v_upd d (set_entry n (Some i)) (view s)"
  by (auto simp: update_entries_def v_upd_def set_entry_def view_def node_view_def fun_eq_iff
      split: option.split body.split)

definition ordered_entries :: "state \<Rightarrow> bool" where
  "ordered_entries s \<longleftrightarrow> (\<forall>i nd p es. st_nodes s i = Some nd \<longrightarrow> nd_body nd = Directory p es \<longrightarrow> al_ordered es)"

lemma view_remove_entry [view_simps]:
  "ordered_entries s \<Longrightarrow>
   view (snd (update_entries d (al_remove n) s)) = v_upd d (set_entry n None) (view s)"
  by (auto simp: update_entries_def v_upd_def set_entry_def view_def node_view_def fun_eq_iff ordered_entries_def
      split: option.split body.split)

lemma view_reap [view_simps]: "view (reap i s) = v_reap i (view s)"
  by (auto simp: reap_def v_reap_def view_def fun_eq_iff split: option.split)

lemma fst_unlinked [view_simps]:
  "fst (unlinked env i now counted s) = (if st_nodes s i = None then Inl InvalidArgument else Inr ())"
  by (simp add: unlinked_def Let_def split: option.split)

lemma view_unlinked [view_simps]: "view (snd (unlinked env i now counted s)) = v_unlink i (view s)"
proof (cases "st_nodes s i")
  case None
  then show ?thesis by (auto simp: unlinked_def v_unlink_def v_reap_def v_upd_def view_def fun_eq_iff)
next
  case (Some nd)
  have eq: "(view s)(i \<mapsto> node_view (nd\<lparr>nd_links := nd_links nd - 1, nd_changed := now\<rparr>)) =
      v_upd i (\<lambda>v. v\<lparr>v_links := v_links v - 1\<rparr>) (view s)"
    using Some by (auto simp: v_upd_def view_def node_view_def fun_eq_iff)
  have "view (snd (unlinked env i now counted s)) =
      v_reap i (view (s\<lparr>st_nodes := (st_nodes s)(i \<mapsto> nd\<lparr>nd_links := nd_links nd - 1, nd_changed := now\<rparr>)\<rparr>))"
    using Some by (simp add: unlinked_def Let_def view_reap)
  also have "\<dots> = v_unlink i (view s)" by (simp only: view_put eq v_unlink_def)
  finally show ?thesis .
qed

text \<open>A chain of calls whose first succeeds goes on with what it left.\<close>

lemma and_then_ok: "fst m = Inr x \<Longrightarrow> and_then m f = f x (snd m)"
  by (cases m) simp

lemma and_then_err: "fst m = Inl e \<Longrightarrow> and_then m f = (Inl e, snd m)"
  by (cases m) simp

text \<open>Liveness after a step, read off the abstract tree.\<close>

lemma dead_iff: "st_nodes s i = None \<longleftrightarrow> view s i = None"
  by simp

lemma v_upd_None_iff [simp]: "v_upd i f t j = None \<longleftrightarrow> t j = None"
  by (auto simp: v_upd_def)

lemma v_upd_same: "v_upd i f t i = map_option f (t i)"
  by (simp add: v_upd_def)

lemma v_upd_other: "j \<noteq> i \<Longrightarrow> v_upd i f t j = t j"
  by (simp add: v_upd_def)

lemma v_reap_other: "j \<noteq> i \<Longrightarrow> v_reap i t j = t j"
  by (auto simp: v_reap_def split: option.split)

lemma v_unlink_other: "j \<noteq> i \<Longrightarrow> v_unlink i t j = t j"
  by (simp add: v_unlink_def v_reap_other v_upd_other)

lemma parent_of_set_entry [simp]: "parent_of (v_upd i (set_entry n x) t) = parent_of t"
  by (auto simp: parent_of_def v_upd_def set_entry_def fun_eq_iff split: option.split vbody.split)

lemma is_dir_set_entry [simp]: "is_dir (v_upd i (set_entry n x) t) = is_dir t"
  by (simp add: is_dir_def fun_eq_iff)

lemma is_dir_live: "is_dir t d \<Longrightarrow> t d \<noteq> None"
  by (auto simp: is_dir_def parent_of_def split: option.splits)

end
