(* ===== verification/Memfs_Graph.thy ===== *)
theory Memfs_Graph
  imports Memfs_View
begin

text \<open>
  The shape of the abstract file system. \<open>tree_ok\<close> says that the directories form one tree under
  the root, that every name leads to a node, and that link counts count names; the lemmas show that
  the abstract edits of the namespace operations keep it.
\<close>

section \<open>Well-formed trees\<close>

text \<open>Following the parents from a directory ends at the root.\<close>

inductive anchored :: "vtree \<Rightarrow> nat \<Rightarrow> bool" for t where
  root: "anchored t ROOT"
| up: "parent_of t d = Some p \<Longrightarrow> anchored t p \<Longrightarrow> anchored t d"

definition tree_ok :: "vtree \<Rightarrow> bool" where
  "tree_ok t \<longleftrightarrow>
     parent_of t ROOT = Some ROOT
     \<and> (\<forall>d n i. entry_of t d n = Some i \<longrightarrow> t i \<noteq> None \<and> i \<noteq> ROOT)
     \<and> (\<forall>i v. t i = Some v \<longrightarrow> finite (names_of t i) \<and> v_links v = card (names_of t i) + (if i = ROOT then 1 else 0))
     \<and> (\<forall>i p. parent_of t i = Some p \<longrightarrow> i \<noteq> ROOT \<longrightarrow> (\<exists>n. names_of t i = {(p, n)}))
     \<and> (\<forall>i. is_dir t i \<longrightarrow> anchored t i)"

lemma tree_okD:
  assumes "tree_ok t"
  shows "parent_of t ROOT = Some ROOT"
    and "entry_of t d n = Some i \<Longrightarrow> t i \<noteq> None"
    and "entry_of t d n = Some i \<Longrightarrow> i \<noteq> ROOT"
    and "t i = Some v \<Longrightarrow> finite (names_of t i)"
    and "t i = Some v \<Longrightarrow> v_links v = card (names_of t i) + (if i = ROOT then 1 else 0)"
    and "parent_of t i = Some p \<Longrightarrow> i \<noteq> ROOT \<Longrightarrow> \<exists>n. names_of t i = {(p, n)}"
    and "is_dir t i \<Longrightarrow> anchored t i"
  using assms by (simp_all add: tree_ok_def)

lemma tree_okI:
  assumes "parent_of t ROOT = Some ROOT"
    and "\<And>d n i. entry_of t d n = Some i \<Longrightarrow> t i \<noteq> None"
    and "\<And>d n i. entry_of t d n = Some i \<Longrightarrow> i \<noteq> ROOT"
    and "\<And>i v. t i = Some v \<Longrightarrow> finite (names_of t i)"
    and "\<And>i v. t i = Some v \<Longrightarrow> v_links v = card (names_of t i) + (if i = ROOT then 1 else 0)"
    and "\<And>i p. parent_of t i = Some p \<Longrightarrow> i \<noteq> ROOT \<Longrightarrow> \<exists>n. names_of t i = {(p, n)}"
    and "\<And>i. is_dir t i \<Longrightarrow> anchored t i"
  shows "tree_ok t"
  unfolding tree_ok_def by (intro conjI allI impI) (fact assms)+

lemma entry_of_dir: "entry_of t d n = Some i \<Longrightarrow> is_dir t d"
  by (auto simp: entry_of_def is_dir_def parent_of_def split: option.splits vbody.splits)

lemma names_of_iff [simp]: "(d, n) \<in> names_of t i \<longleftrightarrow> entry_of t d n = Some i"
  by (simp add: names_of_def)

lemma entry_of_set_entry:
  "is_dir t d \<Longrightarrow> entry_of (v_upd d (set_entry n x) t) d' n' = (if d' = d \<and> n' = n then x else entry_of t d' n')"
  by (auto simp: entry_of_def v_upd_def set_entry_def is_dir_def parent_of_def split: option.splits vbody.splits)

lemma same_bodies:
  assumes "\<And>v. v_body (f v) = v_body v"
  shows "parent_of (v_upd i f t) = parent_of t" "entry_of (v_upd i f t) = entry_of t"
  using assms by (auto simp: parent_of_def entry_of_def v_upd_def fun_eq_iff split: option.split)

lemma anchored_mono: "anchored t d \<Longrightarrow> parent_of t = parent_of t' \<Longrightarrow> anchored t' d"
  by (induction rule: anchored.induct) (auto intro: anchored.intros)

lemma anchored_cong: "parent_of t = parent_of t' \<Longrightarrow> anchored t = anchored t'"
  using anchored_mono [of t _ t'] anchored_mono [of t' _ t] by (auto simp: fun_eq_iff)

text \<open>A directory is not its own parent, apart from the root.\<close>

lemma anchored_parent_neq: "anchored t d \<Longrightarrow> d \<noteq> ROOT \<Longrightarrow> parent_of t d \<noteq> Some d"
  by (induction rule: anchored.induct) auto

lemma dir_parent_dir:
  assumes "tree_ok t" "parent_of t i = Some p"
  shows "is_dir t p"
proof (cases "i = ROOT")
  case True
  then show ?thesis using assms tree_okD(1) [OF assms(1)] by (auto simp: is_dir_def)
next
  case False
  then obtain n where "names_of t i = {(p, n)}" using tree_okD(6) assms by blast
  then have "(p, n) \<in> names_of t i" by simp
  then show ?thesis using entry_of_dir by simp
qed

section \<open>Changes that keep every body\<close>

lemma tree_ok_same_shape:
  assumes "tree_ok t" "\<And>i. map_option v_links (t i) = map_option v_links (t' i)"
    and "\<And>i. parent_of t' i = parent_of t i" "\<And>d n. entry_of t' d n = entry_of t d n"
  shows "tree_ok t'"
proof -
  have live: "t' i = None \<longleftrightarrow> t i = None" for i using assms(2) [of i] by (metis map_option_is_None)
  have eqs: "parent_of t' = parent_of t" "entry_of t' = entry_of t" using assms(3,4) by (simp_all add: fun_eq_iff)
  have links: "t' i = Some v \<Longrightarrow> \<exists>u. t i = Some u \<and> v_links u = v_links v" for i v
    using assms(2) [of i] by (cases "t i") auto
  have names: "names_of t' = names_of t" by (simp add: names_of_def eqs fun_eq_iff)
  note ok = tree_okD [OF assms(1)]
  show ?thesis
  proof (rule tree_okI)
    show "finite (names_of t' i)" "v_links v = card (names_of t' i) + (if i = ROOT then 1 else 0)" if here: "t' i = Some v" for i v
    proof -
      obtain u where "t i = Some u" "v_links u = v_links v" using links [OF here] by blast
      then show "finite (names_of t' i)" "v_links v = card (names_of t' i) + (if i = ROOT then 1 else 0)"
        using ok(4,5) [of i u] names by simp_all
    qed
    show "anchored t' i" if "is_dir t' i" for i
      using that ok(7) anchored_cong [OF eqs(1)] by (simp add: is_dir_def eqs)
    show "\<exists>n. names_of t' i = {(p, n)}" if "parent_of t' i = Some p" "i \<noteq> ROOT" for i p
      using that ok(6) names eqs by simp
    show "parent_of t' ROOT = Some ROOT" using ok(1) eqs by simp
    show "t' i \<noteq> None" "i \<noteq> ROOT" if "entry_of t' d n = Some i" for d n i
      using that ok(2,3) [of d n i] live [of i] eqs by simp_all
  qed
qed

section \<open>Removing a name\<close>

definition removable :: "vtree \<Rightarrow> nat \<Rightarrow> bool" where
  "removable t i \<longleftrightarrow> (is_dir t i \<longrightarrow> entry_of t i = Map.empty
     \<and> (\<forall>v. t i = Some v \<longrightarrow> v_opens v = 0 \<and> v_maps v = 0))"

definition v_remove :: "nat \<Rightarrow> name \<Rightarrow> nat \<Rightarrow> vtree \<Rightarrow> vtree" where
  "v_remove d n i t = v_unlink i (v_upd d (set_entry n None) t)"

lemma v_remove_at:
  assumes "t i = Some v" "d \<noteq> i"
  shows "v_remove d n i t i =
    (if v_links v - 1 = 0 \<and> v_opens v = 0 \<and> v_maps v = 0 then None else Some (v\<lparr>v_links := v_links v - 1\<rparr>))"
  using assms by (simp add: v_remove_def v_unlink_def v_reap_def v_upd_def)

lemma v_remove_other: "j \<noteq> i \<Longrightarrow> v_remove d n i t j = v_upd d (set_entry n None) t j"
  by (simp add: v_remove_def v_unlink_other)

lemma v_remove_shape:
  assumes "tree_ok t" "entry_of t d n = Some i" "removable t i"
  shows "parent_of (v_remove d n i t) j = (if j = i then None else parent_of t j)"
    and "entry_of (v_remove d n i t) d' n' = (if d' = d \<and> n' = n then None else entry_of t d' n')"
proof -
  note ok = tree_okD [OF assms(1)]
  from ok(2) [OF assms(2)] obtain v where v: "t i = Some v" by blast
  have d: "is_dir t d" using entry_of_dir assms(2) by blast
  have di: "d \<noteq> i" using assms(2,3) d by (auto simp: removable_def)
  have gone: "v_remove d n i t i = None" if dir: "is_dir t i"
  proof -
    obtain p where p: "parent_of t i = Some p" using dir by (auto simp: is_dir_def)
    then obtain m where "names_of t i = {(p, m)}" using ok(3,6) assms(2) by blast
    then have "v_links v = 1" using ok(3) [OF assms(2)] ok(5) [OF v] by simp
    then show ?thesis using v_remove_at [of t i v d n, OF v di] assms(3) dir v by (simp add: removable_def)
  qed
  have leaf: "parent_of (v_remove d n i t) i = None \<and> entry_of (v_remove d n i t) i n' = None" for n'
  proof (cases "is_dir t i")
    case True
    then show ?thesis using gone by (simp add: parent_of_def entry_of_def)
  next
    case False
    then have "\<And>p e. v_body v \<noteq> VDir p e" using v by (auto simp: is_dir_def parent_of_def)
    then show ?thesis using v_remove_at [of t i v d n, OF v di]
      by (auto simp: parent_of_def entry_of_def split: vbody.splits)
  qed
  have "j \<noteq> i \<Longrightarrow> parent_of (v_remove d n i t) j = parent_of (v_upd d (set_entry n None) t) j" for j
    unfolding parent_of_def by (simp add: v_remove_other)
  then show "parent_of (v_remove d n i t) j = (if j = i then None else parent_of t j)"
    using leaf by simp
  have "d' \<noteq> i \<Longrightarrow> entry_of (v_remove d n i t) d' n' = entry_of (v_upd d (set_entry n None) t) d' n'"
    unfolding entry_of_def by (simp add: v_remove_other)
  moreover have "entry_of t i n' = None"
    using assms(3) entry_of_dir [of t i n'] by (cases "entry_of t i n'") (auto simp: removable_def)
  ultimately show "entry_of (v_remove d n i t) d' n' = (if d' = d \<and> n' = n then None else entry_of t d' n')"
    using leaf entry_of_set_entry [OF d] di by (cases "d' = i") auto
qed

lemma anchored_avoiding:
  assumes "anchored t d" "\<And>j. parent_of t' j = (if j = i then None else parent_of t j)"
    and "\<And>j. parent_of t j = Some i \<Longrightarrow> j = i" "d \<noteq> i"
  shows "anchored t' d"
  using assms
proof (induction rule: anchored.induct)
  case (up d p)
  then show ?case by (cases "p = i") (auto intro: anchored.intros)
qed (auto intro: anchored.intros)

lemma tree_ok_remove:
  assumes "tree_ok t" "entry_of t d n = Some i" "removable t i"
  shows "tree_ok (v_remove d n i t)"
proof -
  note ok = tree_okD [OF assms(1)] and shape = v_remove_shape [OF assms]
  let ?t = "v_remove d n i t"
  from ok(2) [OF assms(2)] obtain v where v: "t i = Some v" by blast
  have ir: "i \<noteq> ROOT" using ok(3) [OF assms(2)] .
  have di: "d \<noteq> i" using assms(2,3) entry_of_dir [OF assms(2)] by (auto simp: removable_def)
  have names: "names_of ?t j = names_of t j - (if j = i then {(d, n)} else {})" for j
    using assms(2) by (auto simp: shape(2) split: if_splits)
  have no_child: "parent_of t j = Some i \<Longrightarrow> j = i" for j
  proof (rule ccontr)
    assume p: "parent_of t j = Some i" and ne: "j \<noteq> i"
    have "j \<noteq> ROOT" using p ok(1) ir by auto
    then obtain m where "names_of t j = {(i, m)}" using ok(6) p by blast
    then have "(i, m) \<in> names_of t j" by simp
    then have "entry_of t i m = Some j" by simp
    then show False using assms(3) entry_of_dir by (fastforce simp: removable_def)
  qed
  have card: "card (names_of t i - {(d, n)}) = card (names_of t i) - 1" "names_of t i \<noteq> {}" "finite (names_of t i)"
    using ok(4) [OF v] assms(2) by (simp_all add: card_Diff_singleton) (force simp: names_of_def)
  have links: "finite (names_of ?t j) \<and> v_links w = card (names_of ?t j) + (if j = ROOT then 1 else 0)" if "?t j = Some w" for j w
  proof (cases "j = i")
    case True
    have "v_links w = v_links v - 1" using that True v_remove_at [of t i v d n, OF v di] by (auto split: if_splits)
    then show ?thesis using True names [of i] card ok(5) [OF v] ir by simp
  next
    case False
    then have "v_upd d (set_entry n None) t j = Some w" using that v_remove_other by simp
    then obtain u where "t j = Some u" "v_links w = v_links u"
      by (cases "t j") (auto simp: v_upd_def set_entry_def split: if_splits vbody.splits)
    then show ?thesis using ok(4,5) [of j u] names [of j] False by simp
  qed
  have live: "?t j \<noteq> None" if "entry_of ?t d' n' = Some j" for d' n' j
  proof (cases "j = i")
    case True
    have "(d', n') \<in> names_of t i - {(d, n)}" using that True by (simp add: shape(2) split: if_splits)
    then have "card (names_of t i - {(d, n)}) \<noteq> 0" using card(3) by (metis card_eq_0_iff empty_iff finite_Diff)
    then show ?thesis using True v_remove_at [of t i v d n, OF v di] card(1) ok(5) [OF v] ir by simp
  next
    case False
    then show ?thesis using that ok(2) [of d' n' j] by (simp add: v_remove_other shape(2) split: if_splits)
  qed
  show ?thesis
  proof (rule tree_okI)
    show "parent_of ?t ROOT = Some ROOT" using shape(1) ok(1) ir by simp
    show "entry_of ?t d' n' = Some j \<Longrightarrow> j \<noteq> ROOT" for d' n' j
      using ok(3) by (simp add: shape(2) split: if_splits)
    show "\<exists>m. names_of ?t j = {(p, m)}" if "parent_of ?t j = Some p" "j \<noteq> ROOT" for j p
      using that ok(6) [of j p] names [of j] by (simp add: shape(1) split: if_splits)
    show "anchored ?t j" if "is_dir ?t j" for j
      using that anchored_avoiding [of t j ?t i] ok(7) [of j] shape(1) no_child by (simp add: is_dir_def split: if_splits)
  qed (use live links in blast)+
qed

lemma removable_neq: "entry_of t d n = Some i \<Longrightarrow> removable t i \<Longrightarrow> d \<noteq> i"
  using entry_of_dir by (fastforce simp: removable_def)

lemma removed_dir_gone:
  assumes "tree_ok t" "entry_of t d n = Some i" "removable t i" "is_dir t i"
  shows "v_remove d n i t i = None"
proof -
  obtain v where v: "t i = Some v" using tree_okD(2) [OF assms(1,2)] by blast
  obtain p where "parent_of t i = Some p" using assms(4) by (auto simp: is_dir_def)
  then obtain m where "names_of t i = {(p, m)}"
    using tree_okD(6) [OF assms(1)] tree_okD(3) [OF assms(1,2)] by blast
  then have "v_links v = 1" using tree_okD(5) [OF assms(1) v] tree_okD(3) [OF assms(1,2)] by simp
  then show ?thesis
    using v_remove_at [of t i v d n, OF v removable_neq [OF assms(2,3)]] assms(3,4) v by (simp add: removable_def)
qed

section \<open>Adding a name\<close>

definition v_new :: "nat \<Rightarrow> name \<Rightarrow> nat \<Rightarrow> vbody \<Rightarrow> vtree \<Rightarrow> vtree" where
  "v_new d n i b t = (v_upd d (set_entry n (Some i)) t)(i \<mapsto> \<lparr>v_links = 1, v_opens = 0, v_maps = 0, v_body = b\<rparr>)"

definition v_link :: "nat \<Rightarrow> name \<Rightarrow> nat \<Rightarrow> vtree \<Rightarrow> vtree" where
  "v_link d n i t = v_upd i (\<lambda>v. v\<lparr>v_links := v_links v + 1\<rparr>) (v_upd d (set_entry n (Some i)) t)"

lemma v_links_set_entry [simp]: "v_links (set_entry n x v) = v_links v"
  by (simp add: set_entry_def split: vbody.split)

lemma names_of_insert:
  assumes "\<And>d' n'. entry_of t' d' n' = (if d' = d \<and> n' = n then Some i else entry_of t d' n')" "entry_of t d n = None"
  shows "names_of t' j = (if j = i then insert (d, n) (names_of t i) else names_of t j)"
    and "(d, n) \<notin> names_of t i"
  using assms by (auto simp: names_of_def)

lemma tree_ok_new:
  assumes "tree_ok t" "is_dir t d" "entry_of t d n = None" "t i = None"
    and "\<And>p e. b = VDir p e \<Longrightarrow> p = d \<and> e = Map.empty"
  shows "tree_ok (v_new d n i b t)"
proof -
  note ok = tree_okD [OF assms(1)]
  let ?t = "v_new d n i b t"
  have di: "d \<noteq> i" using assms(2,4) is_dir_live by blast
  have ri: "i \<noteq> ROOT" using ok(1) assms(4) by (auto simp: parent_of_def)
  have free: "names_of t i = {}" using ok(2) assms(4) by (fastforce simp: names_of_def)
  have live: "?t j = None \<longleftrightarrow> t j = None \<and> j \<noteq> i" for j by (simp add: v_new_def)
  have at: "?t i = Some \<lparr>v_links = 1, v_opens = 0, v_maps = 0, v_body = b\<rparr>" by (simp add: v_new_def)
  have parent: "parent_of ?t j = (if j = i then (case b of VDir p _ \<Rightarrow> Some d | _ \<Rightarrow> None) else parent_of t j)" for j
  proof (cases "j = i")
    case True
    then show ?thesis using at assms(5) by (auto simp: parent_of_def split: vbody.split)
  next
    case False
    then have "parent_of ?t j = parent_of (v_upd d (set_entry n (Some i)) t) j"
      unfolding parent_of_def by (simp add: v_new_def)
    then show ?thesis using False by simp
  qed
  have entry: "entry_of ?t d' n' = (if d' = d \<and> n' = n then Some i else entry_of t d' n')" for d' n'
  proof (cases "d' = i")
    case True
    then show ?thesis using at assms(4,5) di by (auto simp: entry_of_def split: vbody.split)
  next
    case False
    then have "entry_of ?t d' n' = entry_of (v_upd d (set_entry n (Some i)) t) d' n'"
      unfolding entry_of_def by (simp add: v_new_def)
    then show ?thesis using entry_of_set_entry [OF assms(2)] by simp
  qed
  note names = names_of_insert [of ?t d n i t, OF entry assms(3)]
  have anch: "anchored ?t j" if "anchored t j" for j
    using that
  proof induction
    case (up j p)
    have "parent_of t i = None" using assms(4) by (simp add: parent_of_def)
    then have "parent_of ?t j = Some p" using up.hyps(1) parent [of j] by auto
    then show ?case using up.IH by (rule anchored.up)
  qed (rule anchored.root)
  show ?thesis
  proof (rule tree_okI)
    show "parent_of ?t ROOT = Some ROOT" using parent ok(1) ri by simp
    show "?t j \<noteq> None" "j \<noteq> ROOT" if "entry_of ?t d' n' = Some j" for d' n' j
      using that ok(2,3) [of d' n' j] ri live [of j] by (auto simp: entry split: if_splits)
    have counted: "finite (names_of ?t j) \<and> v_links v = card (names_of ?t j) + (if j = ROOT then 1 else 0)" if here: "?t j = Some v" for j v
    proof (cases "j = i")
      case True
      then show ?thesis using here at names(1) [of i] free ri by auto
    next
      case False
      then obtain u where "t j = Some u" "v_links u = v_links v"
        using here by (cases "t j") (auto simp: v_new_def v_upd_def split: if_splits)
      then show ?thesis using ok(4,5) [of j u] names(1) [of j] False by simp
    qed
    show "finite (names_of ?t j)" "v_links v = card (names_of ?t j) + (if j = ROOT then 1 else 0)" if "?t j = Some v" for j v
      using counted [OF that] by simp_all
    show "\<exists>m. names_of ?t j = {(p, m)}" if "parent_of ?t j = Some p" "j \<noteq> ROOT" for j p
      using that ok(6) [of j p] free by (auto simp: parent names split: if_splits vbody.splits)
    show "anchored ?t j" if "is_dir ?t j" for j
    proof (cases "j = i")
      case True
      then have "parent_of ?t j = Some d" using that by (auto simp: is_dir_def parent split: vbody.splits)
      then show ?thesis using anch [OF ok(7) [OF assms(2)]] by (rule anchored.up)
    next
      case False
      then show ?thesis using that ok(7) [of j] anch by (simp add: is_dir_def parent)
    qed
  qed
qed

lemma tree_ok_link:
  assumes "tree_ok t" "is_dir t d" "entry_of t d n = None" "t i \<noteq> None" "\<not> is_dir t i"
  shows "tree_ok (v_link d n i t)"
proof -
  note ok = tree_okD [OF assms(1)]
  let ?t = "v_link d n i t"
  have ri: "i \<noteq> ROOT" using ok(1) assms(5) by (auto simp: is_dir_def)
  have live: "?t j = None \<longleftrightarrow> t j = None" for j by (simp add: v_link_def)
  have parent: "parent_of ?t = parent_of t"
    by (simp add: v_link_def same_bodies)
  have "entry_of ?t d' n' = entry_of (v_upd d (set_entry n (Some i)) t) d' n'" for d' n'
    by (simp add: v_link_def same_bodies)
  then have entry: "entry_of ?t d' n' = (if d' = d \<and> n' = n then Some i else entry_of t d' n')" for d' n'
    using entry_of_set_entry [OF assms(2)] by simp
  note names = names_of_insert [of ?t d n i t, OF entry assms(3)]
  show ?thesis
  proof (rule tree_okI)
    show "parent_of ?t ROOT = Some ROOT" using parent ok(1) by simp
    show "?t j \<noteq> None" "j \<noteq> ROOT" if "entry_of ?t d' n' = Some j" for d' n' j
      using that ok(2,3) [of d' n' j] assms(4) ri live [of j] by (auto simp: entry split: if_splits)
    show "finite (names_of ?t j)" "v_links v = card (names_of ?t j) + (if j = ROOT then 1 else 0)" if here: "?t j = Some v" for j v
    proof -
      obtain u where u: "t j = Some u" "v_links v = v_links u + (if j = i then 1 else 0)"
        using here by (cases "t j") (auto simp: v_link_def v_upd_def split: if_splits)
      show "finite (names_of ?t j)" "v_links v = card (names_of ?t j) + (if j = ROOT then 1 else 0)"
        using ok(4,5) [of j u] names(1) [of j] names(2) ri u by (cases "j = i"; simp)+
    qed
    show "\<exists>m. names_of ?t j = {(p, m)}" if "parent_of ?t j = Some p" "j \<noteq> ROOT" for j p
      using that ok(6) [of j p] assms(5) by (auto simp: parent names is_dir_def)
    show "anchored ?t j" if "is_dir ?t j" for j
      using that ok(7) [of j] anchored_cong [OF parent] by (simp add: is_dir_def parent)
  qed
qed

section \<open>Moving a name\<close>

text \<open>The climb from \<open>d\<close> to the root does not meet \<open>i\<close>.\<close>

inductive clear_of :: "vtree \<Rightarrow> nat \<Rightarrow> nat \<Rightarrow> bool" for t i where
  root: "clear_of t i ROOT"
| up: "d \<noteq> i \<Longrightarrow> parent_of t d = Some p \<Longrightarrow> clear_of t i p \<Longrightarrow> clear_of t i d"

definition v_move :: "nat \<Rightarrow> name \<Rightarrow> nat \<Rightarrow> name \<Rightarrow> nat \<Rightarrow> vtree \<Rightarrow> vtree" where
  "v_move d n d' n' i t =
     v_upd i (set_parent d') (v_upd d' (set_entry n' (Some i)) (v_upd d (set_entry n None) t))"

lemma parent_of_set_parent:
  "parent_of (v_upd i (set_parent p) t) j = (if j = i \<and> is_dir t i then Some p else parent_of t j)"
  by (auto simp: parent_of_def v_upd_def set_parent_def is_dir_def split: option.splits vbody.splits)

lemma entry_of_set_parent: "entry_of (v_upd i (set_parent p) t) = entry_of t"
  by (auto simp: entry_of_def v_upd_def set_parent_def fun_eq_iff split: option.splits vbody.splits)

lemma v_links_set_parent [simp]: "v_links (set_parent p v) = v_links v"
  by (simp add: set_parent_def split: vbody.split)

lemma v_move_shape:
  assumes "is_dir t d" "is_dir t d'" "(d, n) \<noteq> (d', n')"
  shows "parent_of (v_move d n d' n' i t) j = (if j = i \<and> is_dir t i then Some d' else parent_of t j)"
    and "entry_of (v_move d n d' n' i t) c m =
      (if c = d' \<and> m = n' then Some i else if c = d \<and> m = n then None else entry_of t c m)"
    and "map_option v_links (v_move d n d' n' i t j) = map_option v_links (t j)"
  using assms
  by (auto simp: v_move_def parent_of_set_parent entry_of_set_parent entry_of_set_entry option.map_comp comp_def)
    (auto simp: v_upd_def option.map_comp comp_def)

lemma anchored_moved:
  assumes "\<And>j. parent_of t' j = (if j = i \<and> is_dir t i then Some d' else parent_of t j)" "is_dir t i \<longrightarrow> clear_of t i d'"
    and "anchored t j"
  shows "anchored t' j"
proof -
  have clear: "clear_of t i c \<Longrightarrow> anchored t' c" for c
    by (induction rule: clear_of.induct) (auto intro: anchored.intros simp: assms(1))
  from assms(3) show ?thesis
  proof induction
    case (up j p)
    then show ?case using clear assms(1,2) by (cases "j = i \<and> is_dir t i") (auto intro: anchored.up)
  qed (rule anchored.root)
qed

lemma tree_ok_move:
  assumes "tree_ok t" "entry_of t d n = Some i" "is_dir t d'" "entry_of t d' n' = None"
    and "is_dir t i \<longrightarrow> clear_of t i d'"
  shows "tree_ok (v_move d n d' n' i t)"
proof -
  note ok = tree_okD [OF assms(1)]
  let ?t = "v_move d n d' n' i t"
  have dn: "(d, n) \<noteq> (d', n')" using assms(2,4) by auto
  note shape = v_move_shape [OF entry_of_dir [OF assms(2)] assms(3) dn, of i]
  have ri: "i \<noteq> ROOT" using ok(3) [OF assms(2)] .
  have live: "?t j = None \<longleftrightarrow> t j = None" for j using shape(3) [of j] by (metis map_option_is_None)
  have names: "names_of ?t j = (if j = i then insert (d', n') (names_of t i - {(d, n)}) else names_of t j)" for j
    using assms(2,4) dn by (auto simp: names_of_def shape(2))
  have card: "card (names_of ?t j) = card (names_of t j)" "finite (names_of ?t j)" if fin: "finite (names_of t j)" for j
  proof -
    have mem: "(d, n) \<in> names_of t i" "(d', n') \<notin> names_of t i" using assms(2,4) by auto
    then have "finite (names_of t i) \<Longrightarrow> 0 < card (names_of t i)" by (metis card_gt_0_iff empty_iff)
    then show "card (names_of ?t j) = card (names_of t j)" "finite (names_of ?t j)"
      using fin names [of j] mem by auto
  qed
  show ?thesis
  proof (rule tree_okI)
    show "parent_of ?t ROOT = Some ROOT" using shape(1) ok(1) ri by simp
    show "?t j \<noteq> None" "j \<noteq> ROOT" if "entry_of ?t c m = Some j" for c m j
      using that ok(2,3) [of c m j] ok(2) [OF assms(2)] ri live [of j] by (auto simp: shape(2) split: if_splits)
    show "finite (names_of ?t j)" "v_links v = card (names_of ?t j) + (if j = ROOT then 1 else 0)" if here: "?t j = Some v" for j v
    proof -
      obtain u where "t j = Some u" "v_links v = v_links u" using here shape(3) [of j] by (cases "t j") auto
      then show "finite (names_of ?t j)" "v_links v = card (names_of ?t j) + (if j = ROOT then 1 else 0)"
        using ok(4,5) [of j u] card [of j] by simp_all
    qed
    show "\<exists>m. names_of ?t j = {(p, m)}" if par: "parent_of ?t j = Some p" and jr: "j \<noteq> ROOT" for j p
    proof (cases "j = i")
      case True
      then have dir: "is_dir t i" "p = d'" using par by (auto simp: shape(1) is_dir_def split: if_splits)
      then obtain q where "parent_of t i = Some q" by (auto simp: is_dir_def)
      then obtain m where "names_of t i = {(q, m)}" using ok(6) ri by blast
      then have "names_of t i - {(d, n)} = {}" using assms(2) names_of_iff [of d n t i] by auto
      then show ?thesis using names [of i] True dir by auto
    next
      case False
      then show ?thesis using par ok(6) [of j p] jr names [of j] by (simp add: shape(1))
    qed
    show "anchored ?t j" if "is_dir ?t j" for j
      using that anchored_moved [of ?t i t d' j] shape(1) assms(5) ok(7) [of j] by (auto simp: is_dir_def split: if_splits)
  qed
qed

text \<open>
  Replacing a destination: the order of the code's updates gives the tree in which the replaced
  name was removed first.
\<close>

lemma v_move_replacing:
  assumes "r \<noteq> d" "r \<noteq> d'" "r \<noteq> i"
  shows "v_upd i (set_parent d') (v_unlink r (v_upd d' (set_entry n' (Some i)) (v_upd d (set_entry n None) t))) =
    v_move d n d' n' i (v_remove d' n' r t)"
proof
  fix j
  have merge: "set_entry n' (Some i) (set_entry n None (set_entry n' None v)) = set_entry n' (Some i) (set_entry n None v)" for v
    by (auto simp: set_entry_def fun_upd_twist split: vbody.split)
  have merge': "set_entry n' (Some i) (set_entry n' None v) = set_entry n' (Some i) v" for v
    by (auto simp: set_entry_def split: vbody.split)
  show "v_upd i (set_parent d') (v_unlink r (v_upd d' (set_entry n' (Some i)) (v_upd d (set_entry n None) t))) j =
    v_move d n d' n' i (v_remove d' n' r t) j"
  proof (cases "j = r")
    case True
    then show ?thesis using assms
      by (cases "t r") (auto simp: v_move_def v_remove_def v_unlink_def v_reap_def v_upd_def)
  next
    case False
    have other: "v_upd a f (v_unlink r u) j = v_upd a f u j" if "a \<noteq> r" for a f and u :: vtree
      using False that by (cases "j = a") (simp_all add: v_upd_same v_upd_other v_unlink_other)
    show ?thesis using assms False
      by (auto simp: v_move_def v_remove_def v_upd_def v_unlink_other option.map_comp comp_def merge merge')
  qed
qed

lemma v_move_None_iff [simp]: "v_move d n d' n' i t j = None \<longleftrightarrow> t j = None"
  by (simp add: v_move_def)

end
