(* ===== verification/Memfs_Walk.thy ===== *)
theory Memfs_Walk
  imports Memfs_Graph
begin

text \<open>
  What a path resolves to: a walk that succeeds ends in a live directory, and the name it stops at
  is a valid entry name together with what the directory holds under it.
\<close>

section \<open>Components\<close>

lemma next_component_chars:
  "next_component texts slash = (Some c, texts', slash') \<Longrightarrow>
   c \<noteq> [] \<and> SLASH \<notin> set c \<and> set c \<subseteq> set (concat texts) \<and> set (concat texts') \<subseteq> set (concat texts)"
proof (induction texts slash rule: next_component.induct)
  case (2 whole outer slash)
  let ?rest = "dropWhile (\<lambda>b. b = SLASH) whole"
  show ?case
  proof (cases "?rest = []")
    case True
    then have "next_component outer (slash \<or> ?rest \<noteq> whole) = (Some c, texts', slash')"
      using "2.prems" by (simp add: Let_def del: dropWhile_eq_Nil_conv)
    then show ?thesis using "2.IH" [OF refl refl True] by auto
  next
    case False
    then have "hd ?rest \<noteq> SLASH" by (rule hd_dropWhile)
    then have "takeWhile (\<lambda>b. b \<noteq> SLASH) ?rest \<noteq> []" using False by (cases ?rest) simp_all
    moreover have "c = takeWhile (\<lambda>b. b \<noteq> SLASH) ?rest" "texts' = dropWhile (\<lambda>b. b \<noteq> SLASH) ?rest # outer"
      using "2.prems" False by (auto simp: Let_def simp del: dropWhile_eq_Nil_conv)
    ultimately show ?thesis by (auto dest: set_takeWhileD set_dropWhileD)
  qed
qed simp

section \<open>Where a walk ends\<close>

definition place_ok :: "state \<Rightarrow> place \<Rightarrow> bool" where
  "place_ok s place \<longleftrightarrow> is_dir (view s) (pl_parent place) \<and>
     (if pl_name place = [] then pl_node place = Some (pl_parent place)
      else entry_name_ok (pl_name place) \<and> pl_node place = entry_of (view s) (pl_parent place) (pl_name place))"

definition is_link :: "state \<Rightarrow> nat \<Rightarrow> bool" where
  "is_link s i \<longleftrightarrow> (\<exists>nd target. st_nodes s i = Some nd \<and> nd_body nd = Link target)"

definition links_clean :: "state \<Rightarrow> bool" where
  "links_clean s \<longleftrightarrow> (\<forall>i nd target. st_nodes s i = Some nd \<longrightarrow> nd_body nd = Link target \<longrightarrow> 0 \<notin> set target)"

text \<open>What holds of the last name looked up while a walk runs.\<close>

definition found_ok :: "state \<Rightarrow> final \<Rightarrow> nat \<Rightarrow> (name \<times> nat option) option \<Rightarrow> bool" where
  "found_ok s policy parent found \<longleftrightarrow> is_dir (view s) parent \<and>
     (case found of
        None \<Rightarrow> True
      | Some (name, node) \<Rightarrow> entry_name_ok name \<and> node = entry_of (view s) parent name
          \<and> (policy = Follow \<longrightarrow> (\<forall>i. node = Some i \<longrightarrow> \<not> is_link s i)))"

lemma dir_not_link: "is_dir (view s) i \<Longrightarrow> \<not> is_link s i"
  by (auto simp: is_dir_def parent_of_def view_def is_link_def)

text \<open>One round of the loop that goes on.\<close>

lemma walk_loop_round:
  assumes "walk_loop s policy parent texts entered slash found = Inr place"
    and "next_component texts slash = (Some c, texts', slash')"
  obtains
    (dot) p es where "(case found of None \<Rightarrow> Inr parent | Some (_, node) \<Rightarrow> ok_or node NotFound) = Inr p"
      "c = [DOT]" "get_entries s p = Inr es" "walk_loop s policy p texts' entered slash' None = Inr place"
  | (up) p u where "(case found of None \<Rightarrow> Inr parent | Some (_, node) \<Rightarrow> ok_or node NotFound) = Inr p"
      "c \<noteq> [DOT]" "c = [DOT, DOT]" "get_parent s p = Inr u" "walk_loop s policy u texts' entered slash' None = Inr place"
  | (link) p es target where "(case found of None \<Rightarrow> Inr parent | Some (_, node) \<Rightarrow> ok_or node NotFound) = Inr p"
      "c \<noteq> [DOT]" "c \<noteq> [DOT, DOT]" "\<not> MAX_ENTRY_NAME < length c" "get_entries s p = Inr es"
      "map_option nd_body (Option.bind (map_of es c) (st_nodes s)) = Some (Link target)" "follows texts' policy"
      "\<not> MAX_LINKS \<le> entered"
      "walk_loop s policy (if target \<noteq> [] \<and> hd target = SLASH then ROOT else p) (target # texts') (entered + 1) slash' None = Inr place"
  | (name) p es where "(case found of None \<Rightarrow> Inr parent | Some (_, node) \<Rightarrow> ok_or node NotFound) = Inr p"
      "c \<noteq> [DOT]" "c \<noteq> [DOT, DOT]" "\<not> MAX_ENTRY_NAME < length c" "get_entries s p = Inr es"
      "\<And>target. map_option nd_body (Option.bind (map_of es c) (st_nodes s)) = Some (Link target) \<Longrightarrow> \<not> follows texts' policy"
      "walk_loop s policy p texts' entered slash' (Some (c, map_of es c)) = Inr place"
proof -
  let ?base = "case found of None \<Rightarrow> Inr parent | Some (_, node) \<Rightarrow> ok_or node NotFound"
  note run = assms(1) [unfolded walk_loop.simps [of s policy parent texts entered slash found] assms(2)]
  obtain p where base: "?base = Inr p"
    using run by (cases ?base) simp_all
  consider "c = [DOT]" | "c \<noteq> [DOT]" "c = [DOT, DOT]" | "c \<noteq> [DOT]" "c \<noteq> [DOT, DOT]" by blast
  then show thesis
  proof cases
    case 1
    then show thesis using run base dot [OF base] by (cases "get_entries s p") simp_all
  next
    case 2
    then show thesis using run base up [OF base] by (cases "get_parent s p") simp_all
  next
    case 3
    then have long: "\<not> MAX_ENTRY_NAME < length c" using run base by (simp split: if_splits)
    then obtain es where es: "get_entries s p = Inr es" using run base 3 by (cases "get_entries s p") simp_all
    let ?b = "map_option nd_body (Option.bind (map_of es c) (st_nodes s))"
    show thesis
    proof (cases "follows texts' policy \<and> (\<exists>target. ?b = Some (Link target))")
      case True
      then obtain target z where z: "Option.bind (map_of es c) (st_nodes s) = Some z" "nd_body z = Link target" by auto
      then have b: "?b = Some (Link target)" by simp
      have "\<not> MAX_LINKS \<le> entered" "walk_loop s policy (if target \<noteq> [] \<and> hd target = SLASH then ROOT else p)
          (target # texts') (entered + 1) slash' None = Inr place"
        using run base 3 long es True z by (auto simp: Let_def split: if_split_asm)
      then show thesis using link [OF base 3 long es b] True by blast
    next
      case False
      have "walk_loop s policy p texts' entered slash' (Some (c, map_of es c)) = Inr place"
      proof (cases "Option.bind (map_of es c) (st_nodes s)")
        case None
        then show ?thesis using run base 3 long es by (simp add: Let_def)
      next
        case (Some z)
        then show ?thesis using run base 3 long es False
          by (cases "nd_body z") (auto simp: Let_def split: if_split_asm)
      qed
      then show thesis using name [OF base 3 long es] False by blast
    qed
  qed
qed

lemma walk_loop_place:
  assumes "walk_loop s policy parent texts entered slash found = Inr place"
    and "tree_ok (view s)" "links_clean s" "0 \<notin> set (concat texts)" "found_ok s policy parent found"
  shows "place_ok s place \<and> (policy = Follow \<longrightarrow> (\<forall>i. pl_node place = Some i \<longrightarrow> \<not> is_link s i))"
  using assms
proof (induction "(entered, texts)" arbitrary: parent texts entered slash found
    rule: wf_induct_rule [OF wf_measures [of "[\<lambda>(e, ts). MAX_LINKS - e, \<lambda>(e, ts). length (concat ts)]"]])
  case (1 texts entered parent slash found)
  note run = "1.prems"(1) and ok = "1.prems"(2-5)
  obtain comp texts' slash' where next_eq: "next_component texts slash = (comp, texts', slash')" by (metis prod_cases3)
  show ?case
  proof (cases comp)
    case None
    then have "(case found of
             Some (name, Some node) \<Rightarrow>
               if slash' \<and> policy \<noteq> Create then
                 (case is_directory s node of
                    Inl e \<Rightarrow> Inl e
                  | Inr d \<Rightarrow>
                      if \<not> d then Inl NotDirectory
                      else Inr \<lparr>pl_parent = parent, pl_name = name, pl_node = Some node, pl_slash = slash'\<rparr>)
               else Inr \<lparr>pl_parent = parent, pl_name = name, pl_node = Some node, pl_slash = slash'\<rparr>
           | Some (name, None) \<Rightarrow>
               Inr \<lparr>pl_parent = parent, pl_name = name, pl_node = None, pl_slash = slash'\<rparr>
           | None \<Rightarrow> Inr \<lparr>pl_parent = parent, pl_name = [], pl_node = Some parent, pl_slash = slash'\<rparr>) = Inr place"
      using run next_eq by (subst (asm) walk_loop.simps) simp
    then show ?thesis
      using ok(4)
      by (auto simp: found_ok_def place_ok_def entry_name_ok_def dir_not_link split: option.splits prod.splits if_splits sum.splits)
  next
    case (Some c)
    note step = next_eq [unfolded Some]
    have chars: "c \<noteq> []" "SLASH \<notin> set c" "0 \<notin> set c" "0 \<notin> set (concat texts')" and shorter: "length (concat texts') < length (concat texts)"
      using next_component_chars [OF step] next_component_shorter [OF step] ok(3) by auto
    have IH: "place_ok s place \<and> (policy = Follow \<longrightarrow> (\<forall>i. pl_node place = Some i \<longrightarrow> \<not> is_link s i))"
      if "walk_loop s policy p ts e slash' f = Inr place" "e = entered \<and> ts = texts' \<or> e = entered + 1 \<and> entered < MAX_LINKS"
        "0 \<notin> set (concat ts)" "found_ok s policy p f" for p ts e f
      by (rule "1.hyps" [OF _ that(1) ok(1,2) that(3,4)]) (use that(2) shorter in auto)
    from run step show ?thesis
    proof (cases rule: walk_loop_round)
      case (dot p es)
      then show ?thesis using IH [of p texts' entered None] chars get_entries_view [of s p es] by (simp add: found_ok_def)
    next
      case (up p u)
      then have "is_dir (view s) u" using dir_parent_dir [OF ok(1)] by (simp add: get_parent_view)
      then show ?thesis using IH [of u texts' entered None] up chars by (simp add: found_ok_def)
    next
      case (link p es target)
      then have "is_dir (view s) p" "is_dir (view s) ROOT"
        using get_entries_view [of s p es] tree_okD(1) [OF ok(1)] by (auto simp: is_dir_def)
      moreover have "0 \<notin> set target" using link(6) ok(2) by (auto simp: links_clean_def bind_eq_Some_conv)
      ultimately show ?thesis
        using IH [OF link(9)] link(8) chars by (auto simp: found_ok_def)
    next
      case (name p es)
      have "\<not> is_link s i" if "policy = Follow" "map_of es c = Some i" for i
        using name(6) that by (auto simp: is_link_def follows_def)
      then show ?thesis
        using IH [OF name(7)] name get_entries_view [of s p es] chars
        by (auto simp: found_ok_def entry_name_ok_def)
    qed
  qed
qed

lemma walk_place:
  assumes "walk s path policy = Inr place" "tree_ok (view s)" "links_clean s" "0 \<notin> set path"
    and "st_nodes s (st_working s) \<noteq> None \<longrightarrow> is_dir (view s) (st_working s)"
  shows "place_ok s place" and "policy = Follow \<Longrightarrow> pl_node place = Some i \<Longrightarrow> \<not> is_link s i"
proof -
  obtain parent where "walk_loop s policy parent [path] 0 False None = Inr place" "is_dir (view s) parent"
    using assms tree_okD(1) [OF assms(2)]
    by (auto simp: walk_def get_working_def is_dir_def split: if_splits sum.splits)
  then show "place_ok s place" "policy = Follow \<Longrightarrow> pl_node place = Some i \<Longrightarrow> \<not> is_link s i"
    using walk_loop_place [of s policy parent "[path]" 0 False None place] assms(2-4) by (auto simp: found_ok_def)
qed

end
