(* ===== verification/Memfs_Inv.thy ===== *)
theory Memfs_Inv
  imports Memfs_Walk
begin

text \<open>
  The invariant of the in-memory file system. \<open>base_ok\<close> holds after every primitive step: nodes are
  well formed, reference counts count handles and mappings, the memory of mapped files and private
  copies does not overlap, and the accounting adds up. \<open>fs_inv\<close> adds the shape of the tree, which
  an operation restores when it returns.
\<close>

section \<open>Well-formed nodes\<close>

definition node_ok :: "node \<Rightarrow> bool" where
  "node_ok nd \<longleftrightarrow>
     (case nd_body nd of
        File c \<Rightarrow> content_ok c
      | Directory p es \<Rightarrow> al_ordered es \<and> (\<forall>e\<in>set es. entry_name_ok (fst e))
      | Link target \<Rightarrow> target \<noteq> [] \<and> length target \<le> MAX_NAME \<and> 0 \<notin> set target)
     \<and> nd_mode nd AND NOT MODE_MASK = 0
     \<and> (\<forall>l\<in>set (nd_locks nd). lock_proper l) \<and> locks_compatible (nd_locks nd)"

definition nodes_ok :: "state \<Rightarrow> bool" where
  "nodes_ok s \<longleftrightarrow> (\<forall>i nd. st_nodes s i = Some nd \<longrightarrow> node_ok nd)"

definition node_size :: "node \<Rightarrow> nat" where
  "node_size nd = (case nd_body nd of File c \<Rightarrow> content_len c | _ \<Rightarrow> 0)"

definition size_at :: "state \<Rightarrow> nat \<Rightarrow> nat" where
  "size_at s i = (case st_nodes s i of Some nd \<Rightarrow> node_size nd | None \<Rightarrow> 0)"

text \<open>The bytes in use are the sizes of the files there are, removed ones that are still held included.\<close>

definition used_ok :: "state \<Rightarrow> bool" where
  "used_ok s \<longleftrightarrow> st_used s = (\<Sum>i\<in>dom (st_nodes s). size_at s i)"

definition ids_ok :: "state \<Rightarrow> bool" where
  "ids_ok s \<longleftrightarrow> (\<forall>i\<in>dom (st_nodes s). i < st_next_id s)"

section \<open>References and memory\<close>

definition is_file :: "node \<Rightarrow> bool" where
  "is_file nd = (case nd_body nd of File _ \<Rightarrow> True | _ \<Rightarrow> False)"

definition layout :: "node \<Rightarrow> (nat \<times> nat) option" where
  "layout nd = (case nd_body nd of File (Pinned p) \<Rightarrow> Some (p_base p, p_capacity p) | _ \<Rightarrow> None)"

definition held_by :: "state \<Rightarrow> nat \<Rightarrow> nat set" where
  "held_by s i = {h. \<exists>a. st_handles s h = Some (FileHandle i a)}"

definition share :: "nat \<Rightarrow> mapped option \<Rightarrow> nat" where
  "share i m = (case m of Some (Shared j n) \<Rightarrow> if j = i then n else 0 | _ \<Rightarrow> 0)"

definition shares :: "state \<Rightarrow> nat \<Rightarrow> nat" where
  "shares s i = (\<Sum>k\<in>dom (st_mappings s). share i (st_mappings s k))"

text \<open>The memory the file system has given out: the pages of each mapped file, and each private copy.\<close>

datatype owner = OfNode nat | Copy "nat \<times> nat"

fun region :: "state \<Rightarrow> owner \<Rightarrow> (nat \<times> nat) option" where
  "region s (OfNode i) = Option.bind (st_nodes s i) layout"
| "region s (Copy k) =
     (if st_mappings s k = Some Private then Some (fst k, (snd k + PAGE - 1) div PAGE * PAGE) else None)"

definition apart :: "nat \<times> nat \<Rightarrow> nat \<times> nat \<Rightarrow> bool" where
  "apart r r' \<longleftrightarrow> fst r + snd r \<le> fst r' \<or> fst r' + snd r' \<le> fst r"

definition memory_ok :: "state \<Rightarrow> bool" where
  "memory_ok s \<longleftrightarrow> (\<forall>o1 o2 r1 r2. region s o1 = Some r1 \<longrightarrow> region s o2 = Some r2 \<longrightarrow> o1 \<noteq> o2 \<longrightarrow> apart r1 r2)"

definition handle_ok :: "state \<Rightarrow> nat \<Rightarrow> handle \<Rightarrow> bool" where
  "handle_ok s h v \<longleftrightarrow> h \<noteq> 0 \<and> h mod 8 = 0 \<and>
     (case v of
        FileHandle i a \<Rightarrow> (\<exists>nd. st_nodes s i = Some nd \<and> is_file nd)
      | DirectoryHandle listing next \<Rightarrow> next \<le> length listing
      | WatcherHandle i \<Rightarrow> True)"

definition counts_ok :: "state \<Rightarrow> nat \<Rightarrow> node \<Rightarrow> bool" where
  "counts_ok s i nd \<longleftrightarrow> nd_opens nd = card (held_by s i) \<and> nd_maps nd = shares s i
     \<and> (\<forall>l\<in>set (nd_locks nd). lk_owner l \<in> held_by s i)"

definition mapping_ok :: "state \<Rightarrow> nat \<times> nat \<Rightarrow> mapped \<Rightarrow> bool" where
  "mapping_ok s k m \<longleftrightarrow> 0 < snd k \<and>
     (case m of
        Shared i n \<Rightarrow> 0 < n \<and> (\<exists>b c. region s (OfNode i) = Some (b, c) \<and> b \<le> fst k \<and> fst k + snd k \<le> b + c)
      | Private \<Rightarrow> True)"

definition refs_ok :: "state \<Rightarrow> bool" where
  "refs_ok s \<longleftrightarrow> finite (dom (st_handles s)) \<and> finite (dom (st_mappings s))
     \<and> (\<forall>h v. st_handles s h = Some v \<longrightarrow> handle_ok s h v)
     \<and> (\<forall>i nd. st_nodes s i = Some nd \<longrightarrow> counts_ok s i nd)
     \<and> (\<forall>k m. st_mappings s k = Some m \<longrightarrow> mapping_ok s k m)"

lemma refs_okD:
  assumes "refs_ok s"
  shows "finite (dom (st_handles s))" "finite (dom (st_mappings s))"
    and "st_handles s h = Some v \<Longrightarrow> handle_ok s h v"
    and "st_nodes s i = Some nd \<Longrightarrow> counts_ok s i nd"
    and "st_mappings s k = Some m \<Longrightarrow> mapping_ok s k m"
  using assms by (simp_all add: refs_ok_def split_paired_all del: split_paired_All)

lemma refs_okI:
  assumes "finite (dom (st_handles s))" "finite (dom (st_mappings s))"
    and "\<And>h v. st_handles s h = Some v \<Longrightarrow> handle_ok s h v"
    and "\<And>i nd. st_nodes s i = Some nd \<Longrightarrow> counts_ok s i nd"
    and "\<And>k m. st_mappings s k = Some m \<Longrightarrow> mapping_ok s k m"
  shows "refs_ok s"
  using assms by (simp add: refs_ok_def)

definition base_ok :: "state \<Rightarrow> bool" where
  "base_ok s \<longleftrightarrow> nodes_ok s \<and> used_ok s \<and> ids_ok s \<and> refs_ok s \<and> memory_ok s"

lemma base_okD:
  assumes "base_ok s"
  shows "nodes_ok s" "used_ok s" "ids_ok s" "refs_ok s" "memory_ok s"
  using assms by (simp_all add: base_ok_def)

lemma finite_nodes: "ids_ok s \<Longrightarrow> finite (dom (st_nodes s))"
  by (rule finite_subset [of _ "{..<st_next_id s}"]) (auto simp: ids_ok_def)

text \<open>The base depends on five fields only.\<close>

lemma base_ok_cong:
  assumes "st_nodes s' = st_nodes s" "st_next_id s' = st_next_id s" "st_used s' = st_used s"
    "st_handles s' = st_handles s" "st_mappings s' = st_mappings s"
  shows "base_ok s' = base_ok s"
proof -
  have "region s' = region s" by (rule ext, rename_tac o1, case_tac o1) (simp_all add: assms)
  then show ?thesis
    unfolding base_ok_def nodes_ok_def used_ok_def ids_ok_def refs_ok_def memory_ok_def size_at_def held_by_def shares_def
      handle_ok_def counts_ok_def mapping_ok_def by (simp only: assms)
qed

section \<open>Steps that keep the base\<close>

text \<open>What a change of one node must leave alone.\<close>

definition same_hold :: "node \<Rightarrow> node \<Rightarrow> bool" where
  "same_hold nd nd' \<longleftrightarrow> nd_opens nd' = nd_opens nd \<and> nd_maps nd' = nd_maps nd
     \<and> set (nd_locks nd') \<subseteq> set (nd_locks nd) \<and> layout nd' = layout nd \<and> node_size nd' = node_size nd \<and> is_file nd' = is_file nd"

lemma sum_size_at:
  assumes "finite (dom (st_nodes s))" "st_nodes s i = Some nd"
  shows "(\<Sum>j\<in>dom (st_nodes s). size_at s j) = node_size nd + (\<Sum>j\<in>dom (st_nodes s) - {i}. size_at s j)"
  using assms by (subst sum.remove [of _ i]) (auto simp: size_at_def)

lemma used_put:
  assumes "used_ok s" "ids_ok s" "st_nodes s i = Some nd" "st_nodes s' = (st_nodes s)(i \<mapsto> nd')"
    and "st_used s' = st_used s - node_size nd + node_size nd'"
  shows "used_ok s'"
proof -
  note fin = finite_nodes [OF assms(2)]
  have dom: "dom (st_nodes s') = dom (st_nodes s)" using assms(3,4) by auto
  have "(\<Sum>j\<in>dom (st_nodes s') - {i}. size_at s' j) = (\<Sum>j\<in>dom (st_nodes s) - {i}. size_at s j)"
    by (rule sum.cong) (auto simp: dom size_at_def assms(4))
  then show ?thesis
    using sum_size_at [OF fin assms(3)] sum_size_at [of s' i nd'] fin dom assms(1,4,5)
    by (simp add: used_ok_def)
qed

lemma region_put:
  "layout nd' = layout nd \<Longrightarrow> st_nodes s i = Some nd \<Longrightarrow> region (s\<lparr>st_nodes := (st_nodes s)(i \<mapsto> nd')\<rparr>) o1 = region s o1"
  by (cases o1) auto

lemma base_ok_put:
  assumes "base_ok s" "st_nodes s i = Some nd" "node_ok nd'" "same_hold nd nd'"
  shows "base_ok (s\<lparr>st_nodes := (st_nodes s)(i \<mapsto> nd')\<rparr>)" (is "base_ok ?s")
  unfolding base_ok_def
proof (intro conjI)
  note ok = base_okD [OF assms(1)] and refs = refs_okD [OF base_okD(4) [OF assms(1)]]
  have hold: "nd_opens nd' = nd_opens nd" "nd_maps nd' = nd_maps nd" "set (nd_locks nd') \<subseteq> set (nd_locks nd)"
    "layout nd' = layout nd" "node_size nd' = node_size nd" "is_file nd' = is_file nd"
    using assms(4) by (simp_all add: same_hold_def)
  show "nodes_ok ?s" using ok(1) assms(3) by (simp add: nodes_ok_def)
  have "node_size nd \<le> st_used s" using sum_size_at [OF finite_nodes [OF ok(3)] assms(2)] ok(2) by (simp add: used_ok_def)
  then show "used_ok ?s" by (intro used_put [OF ok(2,3) assms(2), of _ nd']) (use hold in simp_all)
  show "ids_ok ?s" using ok(3) assms(2) by (auto simp: ids_ok_def)
  have reg: "region ?s = region s" using region_put [OF hold(4) assms(2)] by blast
  show "memory_ok ?s" using ok(5) unfolding memory_ok_def reg .
  have held: "held_by ?s = held_by s" "shares ?s = shares s" by (simp_all add: held_by_def shares_def fun_eq_iff)
  show "refs_ok ?s"
  proof (rule refs_okI)
    show "handle_ok ?s h v" if "st_handles ?s h = Some v" for h v
      using refs(3) [of h v] that assms(2) hold(6) by (auto simp: handle_ok_def split: handle.splits)
    show "counts_ok ?s j md" if "st_nodes ?s j = Some md" for j md
      using that refs(4) [of j] assms(2) hold(1-3) by (auto simp: counts_ok_def held split: if_splits)
    show "mapping_ok ?s k m" if "st_mappings ?s k = Some m" for k m
      using refs(5) [of k m] that unfolding mapping_ok_def reg by simp
  qed (use refs(1,2) in simp_all)
qed

lemma base_ok_update_node:
  assumes "base_ok s" "\<And>nd. st_nodes s i = Some nd \<Longrightarrow> node_ok nd \<Longrightarrow> node_ok (f nd) \<and> same_hold nd (f nd)"
  shows "base_ok (snd (update_node i f s))"
  using assms base_ok_put [OF assms(1), of i _ "f _"] base_okD(1) [OF assms(1)]
  by (auto simp: update_node_def nodes_ok_def split: option.split)

lemma base_ok_touch: "base_ok s \<Longrightarrow> base_ok (snd (touch i now s))"
  unfolding touch_def
  by (rule base_ok_update_node) (auto simp: node_ok_def same_hold_def layout_def node_size_def is_file_def)

lemma base_ok_update_entries:
  assumes "base_ok s" "\<And>es. al_ordered es \<Longrightarrow> \<forall>e\<in>set es. entry_name_ok (fst e) \<Longrightarrow> al_ordered (f es) \<and> (\<forall>e\<in>set (f es). entry_name_ok (fst e))"
  shows "base_ok (snd (update_entries d f s))"
proof (cases "is_dir (view s) d")
  case True
  then obtain nd p es where nd: "st_nodes s d = Some nd" "nd_body nd = Directory p es"
    by (auto simp: is_dir_def parent_of_def view_def split: option.splits vbody.splits elim: body_view.elims)
  have "node_ok nd" using base_okD(1) [OF assms(1)] nd by (simp add: nodes_ok_def)
  then have "node_ok (nd\<lparr>nd_body := Directory p (f es)\<rparr>)"
    using assms(2) [of es] nd by (simp add: node_ok_def)
  then have "base_ok (s\<lparr>st_nodes := (st_nodes s)(d \<mapsto> nd\<lparr>nd_body := Directory p (f es)\<rparr>)\<rparr>)"
    by (rule base_ok_put [OF assms(1) nd(1)]) (simp add: same_hold_def layout_def node_size_def is_file_def nd)
  then show ?thesis using nd by (simp add: update_entries_def)
next
  case False
  then show ?thesis
    using assms(1) by (auto simp: update_entries_def is_dir_def parent_of_def view_def split: option.splits body.splits)
qed

lemma base_ok_insert_entry:
  "base_ok s \<Longrightarrow> entry_name_ok n \<Longrightarrow> base_ok (snd (update_entries d (al_insert n i) s))"
  by (rule base_ok_update_entries) (use set_al_insert in \<open>fastforce+\<close>)

lemma base_ok_remove_entry: "base_ok s \<Longrightarrow> base_ok (snd (update_entries d (al_remove n) s))"
  by (rule base_ok_update_entries) (use set_al_remove in \<open>fastforce+\<close>)

lemma base_ok_watchers [simp]:
  "base_ok (report env i k s) = base_ok s" "base_ok (report_entry env d n k c s) = base_ok s"
  "base_ok (ended env i s) = base_ok s" "base_ok (st_cookie_update f s) = base_ok s"
  "base_ok (st_watchers_update g s) = base_ok s" "base_ok (st_working_update h s) = base_ok s"
  "base_ok (st_capacity_update h s) = base_ok s" "base_ok (st_next_watcher_update h s) = base_ok s"
  by (rule base_ok_cong; simp)+

text \<open>A node nobody holds has no mapping into it and no handle on it.\<close>

lemma share_le_shares: "finite (dom (st_mappings s)) \<Longrightarrow> share i (st_mappings s k) \<le> shares s i"
proof (cases "k \<in> dom (st_mappings s)")
  case True
  then show "finite (dom (st_mappings s)) \<Longrightarrow> ?thesis"
    unfolding shares_def by (intro member_le_sum [of k _ "\<lambda>k. share i (st_mappings s k)"]) simp_all
qed (simp add: share_def domIff)

lemma unheld:
  assumes "base_ok s" "st_nodes s i = Some nd"
  shows "nd_opens nd = 0 \<Longrightarrow> st_handles s h \<noteq> Some (FileHandle i a)"
    and "nd_maps nd = 0 \<Longrightarrow> st_mappings s k \<noteq> Some (Shared i n)"
proof -
  note refs = refs_okD [OF base_okD(4) [OF assms(1)]]
  have c: "counts_ok s i nd" using refs(4) assms(2) .
  have "finite (held_by s i)" by (rule finite_subset [OF _ refs(1)]) (auto simp: held_by_def)
  then show "nd_opens nd = 0 \<Longrightarrow> st_handles s h \<noteq> Some (FileHandle i a)"
    using c by (auto simp: counts_ok_def held_by_def)
  show "st_mappings s k \<noteq> Some (Shared i n)" if "nd_maps nd = 0"
  proof
    assume m: "st_mappings s k = Some (Shared i n)"
    then have "0 < n" using refs(5) [of k] by (simp add: mapping_ok_def)
    moreover have "n \<le> shares s i" using share_le_shares [OF refs(2), of i k] m by (simp add: share_def)
    ultimately show False using c that by (simp add: counts_ok_def)
  qed
qed

lemma base_ok_drop:
  assumes "base_ok s" "st_nodes s i = Some nd" "nd_opens nd = 0" "nd_maps nd = 0"
  shows "base_ok (s\<lparr>st_nodes := (st_nodes s)(i := None), st_used := st_used s - node_size nd\<rparr>)" (is "base_ok ?s")
  unfolding base_ok_def
proof (intro conjI)
  note ok = base_okD [OF assms(1)] and refs = refs_okD [OF base_okD(4) [OF assms(1)]]
    and free = unheld [OF assms(1,2)]
  show "nodes_ok ?s" using ok(1) by (simp add: nodes_ok_def)
  show "ids_ok ?s" using ok(3) by (simp add: ids_ok_def)
  have "dom (st_nodes ?s) = dom (st_nodes s) - {i}" by auto
  moreover have "(\<Sum>j\<in>dom (st_nodes s) - {i}. size_at ?s j) = (\<Sum>j\<in>dom (st_nodes s) - {i}. size_at s j)"
    by (rule sum.cong) (auto simp: size_at_def)
  ultimately show "used_ok ?s"
    using ok(2) sum_size_at [OF finite_nodes [OF ok(3)] assms(2)] by (simp add: used_ok_def)
  have reg: "region ?s o1 = (if o1 = OfNode i then None else region s o1)" for o1 by (cases o1) auto
  show "memory_ok ?s" using ok(5) unfolding memory_ok_def reg by (simp split: if_splits)
  have held: "held_by ?s = held_by s" "shares ?s = shares s" by (simp_all add: held_by_def shares_def fun_eq_iff)
  show "refs_ok ?s"
  proof (rule refs_okI)
    show "handle_ok ?s h v" if "st_handles ?s h = Some v" for h v
      using refs(3) [of h v] that free(1) [OF assms(3), of h] by (auto simp: handle_ok_def split: handle.splits)
    show "counts_ok ?s j md" if "st_nodes ?s j = Some md" for j md
      using that refs(4) [of j] by (auto simp: counts_ok_def held split: if_splits)
    show "mapping_ok ?s k m" if "st_mappings ?s k = Some m" for k m
      using refs(5) [of k m] that free(2) [OF assms(4), of k] unfolding mapping_ok_def reg by (auto split: mapped.splits)
  qed (use refs(1,2) in simp_all)
qed

lemma base_ok_reap: "base_ok s \<Longrightarrow> base_ok (reap i s)"
  using base_ok_drop [of s i]
  by (cases "st_nodes s i") (auto simp: reap_def node_size_def split: body.splits)

lemma base_ok_unlinked: "base_ok s \<Longrightarrow> base_ok (snd (unlinked env i now counted s))"
proof (cases "st_nodes s i")
  case (Some nd)
  assume ok: "base_ok s"
  have "node_ok nd" using base_okD(1) [OF ok] Some by (simp add: nodes_ok_def)
  then have "base_ok (s\<lparr>st_nodes := (st_nodes s)(i \<mapsto> nd\<lparr>nd_links := nd_links nd - 1, nd_changed := now\<rparr>)\<rparr>)"
    by (intro base_ok_put [OF ok Some]) (simp_all add: node_ok_def same_hold_def layout_def node_size_def is_file_def)
  then show ?thesis using Some by (simp add: unlinked_def Let_def base_ok_reap)
qed (simp add: unlinked_def)

end
