(* ===== verification/Memfs_Refs.thy ===== *)
theory Memfs_Refs
  imports Memfs_Inv
begin

text \<open>
  The steps of the in-memory file system that change reference counts, content or mappings, and
  what they need of the allocator.
\<close>

text \<open>
  What the code relies on from \<open>Box::new\<close> and \<open>alloc_zeroed\<close>: a new box is at an address of its
  own, and zeroed pages are page-aligned and overlap no memory the file system still uses.
\<close>

definition allocator_ok :: "env \<Rightarrow> state \<Rightarrow> bool" where
  "allocator_ok env s \<longleftrightarrow>
     e_box env \<noteq> 0 \<and> e_box env mod 8 = 0 \<and> st_handles s (e_box env) = None
     \<and> (\<forall>sz base. e_pages env sz = Some base \<longrightarrow> base \<noteq> 0 \<and> PAGE dvd base \<and> base + sz \<le> USIZE_MAX
          \<and> (\<forall>o1 r. region s o1 = Some r \<longrightarrow> apart (base, sz) r))"

section \<open>New nodes\<close>

lemma unborn:
  assumes "base_ok s" "st_nodes s i = None"
  shows "held_by s i = {}" "shares s i = 0"
proof -
  note refs = refs_okD [OF base_okD(4) [OF assms(1)]]
  show "held_by s i = {}" using refs(3) assms(2) by (fastforce simp: held_by_def handle_ok_def)
  have "share i (st_mappings s k) = 0" for k
    using refs(5) [of k] assms(2) by (auto simp: share_def mapping_ok_def split: option.splits mapped.splits)
  then show "shares s i = 0" by (simp add: shares_def)
qed

lemma base_ok_new:
  assumes "base_ok s" "i = st_next_id s" "node_ok nd" "nd_opens nd = 0" "nd_maps nd = 0" "nd_locks nd = []"
    "layout nd = None" "node_size nd = 0"
    and upd: "st_nodes s' = (st_nodes s)(i \<mapsto> nd)" "st_used s' = st_used s" "st_next_id s' = i + 1"
      "st_handles s' = st_handles s" "st_mappings s' = st_mappings s"
  shows "base_ok s'"
  unfolding base_ok_def
proof (intro conjI)
  note ok = base_okD [OF assms(1)] and refs = refs_okD [OF base_okD(4) [OF assms(1)]]
  have fresh: "st_nodes s i = None" using ok(3) assms(2) by (auto simp: ids_ok_def)
  note none = unborn [OF assms(1) fresh]
  show "nodes_ok s'" using ok(1) assms(3) upd by (simp add: nodes_ok_def)
  show "ids_ok s'" using ok(3) assms(2) upd by (auto simp: ids_ok_def dom_def less_Suc_eq)
  have "(\<Sum>j\<in>dom (st_nodes s). size_at s' j) = (\<Sum>j\<in>dom (st_nodes s). size_at s j)"
    by (rule sum.cong) (use fresh upd in \<open>auto simp: size_at_def\<close>)
  then show "used_ok s'"
    using ok(2) finite_nodes [OF ok(3)] fresh assms(8) upd by (simp add: used_ok_def size_at_def domIff)
  have reg: "region s' = region s"
    by (rule ext, rename_tac o1, case_tac o1) (use fresh assms(7) upd in auto)
  show "memory_ok s'" using ok(5) unfolding memory_ok_def reg .
  have held: "held_by s' = held_by s" "shares s' = shares s" by (simp_all add: held_by_def shares_def fun_eq_iff upd)
  show "refs_ok s'"
  proof (rule refs_okI)
    show "handle_ok s' h v" if "st_handles s' h = Some v" for h v
      using refs(3) [of h v] that fresh upd by (auto simp: handle_ok_def split: handle.splits)
    show "counts_ok s' j md" if "st_nodes s' j = Some md" for j md
      using that refs(4) [of j] none assms(4-6) upd(1) by (auto simp: counts_ok_def held split: if_splits)
    show "mapping_ok s' k m" if "st_mappings s' k = Some m" for k m
      using refs(5) [of k m] that upd unfolding mapping_ok_def reg by simp
  qed (use refs(1,2) upd in simp_all)
qed

section \<open>Content\<close>

text \<open>Content may leave its pages only while nobody maps it.\<close>

lemma base_ok_content:
  assumes "base_ok s" "st_nodes s i = Some nd" "node_ok nd'" "is_file nd" "is_file nd'"
    and "nd_opens nd' = nd_opens nd" "nd_maps nd' = nd_maps nd" "nd_locks nd' = nd_locks nd"
    and "layout nd' = layout nd \<or> layout nd' = None \<and> nd_maps nd = 0"
    and upd: "st_nodes s' = (st_nodes s)(i \<mapsto> nd')" "st_used s' = st_used s - node_size nd + node_size nd'"
      "st_next_id s' = st_next_id s" "st_handles s' = st_handles s" "st_mappings s' = st_mappings s"
  shows "base_ok s'"
  unfolding base_ok_def
proof (intro conjI)
  note ok = base_okD [OF assms(1)] and refs = refs_okD [OF base_okD(4) [OF assms(1)]]
  show "nodes_ok s'" using ok(1) assms(3) upd by (simp add: nodes_ok_def)
  show "ids_ok s'" using ok(3) assms(2) upd by (auto simp: ids_ok_def)
  show "used_ok s'" by (rule used_put [OF ok(2,3) assms(2)]) (simp_all add: upd)
  have reg: "region s' o1 = region s o1 \<or> o1 = OfNode i \<and> nd_maps nd = 0 \<and> region s' o1 = None" for o1
    using assms(2,9) upd by (cases o1) auto
  then have sub: "region s' o1 = Some r \<Longrightarrow> region s o1 = Some r" for o1 r by (metis option.distinct(1))
  show "memory_ok s'" using ok(5) sub unfolding memory_ok_def by blast
  have held: "held_by s' = held_by s" "shares s' = shares s" by (simp_all add: held_by_def shares_def fun_eq_iff upd)
  show "refs_ok s'"
  proof (rule refs_okI)
    show "handle_ok s' h v" if "st_handles s' h = Some v" for h v
      using refs(3) [of h v] that assms(2,5) upd by (auto simp: handle_ok_def split: handle.splits)
    show "counts_ok s' j md" if "st_nodes s' j = Some md" for j md
      using that refs(4) [of j] assms(2,6-8) upd(1) by (auto simp: counts_ok_def held split: if_splits)
    show "mapping_ok s' k m" if "st_mappings s' k = Some m" for k m
    proof (cases m)
      case (Shared j n)
      then have "region s' (OfNode j) = region s (OfNode j)"
        using reg [of "OfNode j"] unheld(2) [OF assms(1,2), of k n] that upd by auto
      then show ?thesis using refs(5) [of k m] that Shared upd by (simp add: mapping_ok_def del: region.simps)
    qed (use refs(5) [of k m] that upd in \<open>simp add: mapping_ok_def\<close>)
  qed (use refs(1,2) upd in simp_all)
qed

section \<open>Handles\<close>

lemma base_ok_handles:
  assumes "base_ok s" "\<And>i. held_by s' i = held_by s i" "st_nodes s' = st_nodes s" "st_next_id s' = st_next_id s"
    "st_used s' = st_used s" "st_mappings s' = st_mappings s" "finite (dom (st_handles s'))"
    "\<And>h v. st_handles s' h = Some v \<Longrightarrow> handle_ok s' h v"
  shows "base_ok s'"
proof -
  note ok = base_okD [OF assms(1)] and refs = refs_okD [OF base_okD(4) [OF assms(1)]]
  have reg: "region s' = region s" by (rule ext, rename_tac o1, case_tac o1) (simp_all add: assms(3,6))
  have "refs_ok s'"
  proof (rule refs_okI)
    show "counts_ok s' i nd" if "st_nodes s' i = Some nd" for i nd
      using refs(4) [of i nd] that assms(2,3) by (simp add: counts_ok_def shares_def assms(6))
    show "mapping_ok s' k m" if "st_mappings s' k = Some m" for k m
      using refs(5) [of k m] that unfolding mapping_ok_def reg assms(6) .
  qed (use refs(2) assms(6-8) in simp_all)
  then show ?thesis using ok
    unfolding base_ok_def nodes_ok_def used_ok_def ids_ok_def memory_ok_def size_at_def reg by (simp add: assms)
qed

lemma handle_ok_put:
  "handle_ok s h v \<Longrightarrow> st_nodes s i = Some nd \<Longrightarrow> st_nodes s' = (st_nodes s)(i \<mapsto> nd') \<Longrightarrow> (is_file nd \<longrightarrow> is_file nd')
    \<Longrightarrow> handle_ok s' h v"
  by (auto simp: handle_ok_def split: handle.splits)

lemma handle_ok_same: "handle_ok s h v \<Longrightarrow> st_nodes s' = st_nodes s \<Longrightarrow> handle_ok s' h v"
  by (auto simp: handle_ok_def split: handle.splits)

text \<open>Opening and closing move the count with the handle.\<close>

lemma base_ok_reference:
  assumes "base_ok s" "st_nodes s i = Some nd" "is_file nd" "node_ok nd'" "is_file nd'" "layout nd' = layout nd"
    and "node_size nd' = node_size nd" "nd_maps nd' = nd_maps nd"
    and "\<And>j. j \<noteq> i \<Longrightarrow> held_by s' j = held_by s j" "nd_opens nd' = card (held_by s' i)"
    and "\<forall>l\<in>set (nd_locks nd'). lk_owner l \<in> held_by s' i"
    and fin: "finite (dom (st_handles s'))" and new: "\<And>h v. st_handles s' h = Some v \<Longrightarrow> st_handles s h = Some v \<or> handle_ok s' h v"
    and upd: "st_nodes s' = (st_nodes s)(i \<mapsto> nd')" "st_used s' = st_used s" "st_next_id s' = st_next_id s"
      "st_mappings s' = st_mappings s"
  shows "base_ok s'"
  unfolding base_ok_def
proof (intro conjI)
  note ok = base_okD [OF assms(1)] and refs = refs_okD [OF base_okD(4) [OF assms(1)]]
  show "nodes_ok s'" using ok(1) assms(4) upd by (simp add: nodes_ok_def)
  show "ids_ok s'" using ok(3) assms(2) upd by (auto simp: ids_ok_def)
  have "node_size nd \<le> st_used s" using sum_size_at [OF finite_nodes [OF ok(3)] assms(2)] ok(2) by (simp add: used_ok_def)
  then show "used_ok s'" by (intro used_put [OF ok(2,3) assms(2), of _ nd']) (use assms(7) upd in simp_all)
  have reg: "region s' = region s"
    by (rule ext, rename_tac o1, case_tac o1) (use assms(2,6) upd in auto)
  show "memory_ok s'" using ok(5) unfolding memory_ok_def reg .
  have sh: "shares s' = shares s" by (simp add: shares_def fun_eq_iff upd)
  show "refs_ok s'"
  proof (rule refs_okI)
    show "handle_ok s' h v" if "st_handles s' h = Some v" for h v
    proof -
      have "handle_ok s h v \<or> handle_ok s' h v" using that new refs(3) by auto
      then show ?thesis using handle_ok_put [OF _ assms(2) upd(1)] assms(5) by blast
    qed
    show "counts_ok s' j md" if "st_nodes s' j = Some md" for j md
      using that refs(4) [of j] refs(4) [OF assms(2)] assms(8-11) upd(1) by (cases "j = i") (auto simp: counts_ok_def sh)
    show "mapping_ok s' k m" if "st_mappings s' k = Some m" for k m
      using refs(5) [of k m] that upd unfolding mapping_ok_def reg by simp
  qed (use refs(2) upd fin in simp_all)
qed

section \<open>Mappings\<close>

lemma shares_put:
  assumes "finite (dom (st_mappings s))" "st_mappings s' = (st_mappings s)(k := x)"
  shows "shares s' i + share i (st_mappings s k) = shares s i + share i x"
proof -
  let ?D = "dom (st_mappings s) - {k}"
  have split: "shares t i = share i (st_mappings t k) + (\<Sum>j\<in>dom (st_mappings t) - {k}. share i (st_mappings t j))"
    if "finite (dom (st_mappings t))" for t :: state
    using that by (cases "k \<in> dom (st_mappings t)") (auto simp: shares_def share_def domIff sum.remove)
  have dom: "dom (st_mappings s') - {k} = ?D" using assms(2) by auto
  have "(\<Sum>j\<in>?D. share i (st_mappings s' j)) = (\<Sum>j\<in>?D. share i (st_mappings s j))"
    by (rule sum.cong) (auto simp: assms(2))
  moreover have "finite (dom (st_mappings s'))" using assms by (simp add: dom_fun_upd)
  ultimately show ?thesis using split [of s] split [of s'] assms dom by simp
qed

text \<open>A shared mapping comes or goes together with the node's count.\<close>

lemma base_ok_remap:
  assumes "base_ok s" "st_nodes s i = Some nd" "node_ok nd'" "nd_opens nd' = nd_opens nd" "nd_locks nd' = nd_locks nd"
    "layout nd' = layout nd" "node_size nd' = node_size nd" "is_file nd' = is_file nd"
    and old: "\<And>m. st_mappings s k = Some m \<Longrightarrow> \<exists>n. m = Shared i n"
    and new: "\<And>m. x = Some m \<Longrightarrow> \<exists>n. m = Shared i n \<and> mapping_ok s k m"
    and maps: "nd_maps nd' + share i (st_mappings s k) = nd_maps nd + share i x"
    and upd: "st_nodes s' = (st_nodes s)(i \<mapsto> nd')" "st_used s' = st_used s" "st_next_id s' = st_next_id s"
      "st_handles s' = st_handles s" "st_mappings s' = (st_mappings s)(k := x)"
  shows "base_ok s'"
  unfolding base_ok_def
proof (intro conjI)
  note ok = base_okD [OF assms(1)] and refs = refs_okD [OF base_okD(4) [OF assms(1)]]
  show "nodes_ok s'" using ok(1) assms(3) upd by (simp add: nodes_ok_def)
  show "ids_ok s'" using ok(3) assms(2) upd by (auto simp: ids_ok_def)
  have "node_size nd \<le> st_used s" using sum_size_at [OF finite_nodes [OF ok(3)] assms(2)] ok(2) by (simp add: used_ok_def)
  then show "used_ok s'" by (intro used_put [OF ok(2,3) assms(2), of _ nd']) (use assms(7) upd in simp_all)
  have "st_mappings s' j = Some Private \<longleftrightarrow> st_mappings s j = Some Private" for j
    using old [of Private] new [of Private] upd(5) by auto
  then have reg: "region s' = region s"
    by (intro ext, rename_tac o1, case_tac o1) (use assms(2,6) upd in auto)
  show "memory_ok s'" using ok(5) unfolding memory_ok_def reg .
  have held: "held_by s' = held_by s" by (simp add: held_by_def fun_eq_iff upd)
  have sh: "shares s' j + share j (st_mappings s k) = shares s j + share j x" for j
    using shares_put [OF refs(2) upd(5)] .
  have other: "j \<noteq> i \<Longrightarrow> share j (st_mappings s k) = 0 \<and> share j x = 0" for j
    using old new by (fastforce simp: share_def split: option.split mapped.split)
  show "refs_ok s'"
  proof (rule refs_okI)
    show "handle_ok s' h v" if "st_handles s' h = Some v" for h v
      using handle_ok_put [OF refs(3) [of h v] assms(2) upd(1)] that assms(8) upd(4) by simp
    show "counts_ok s' j md" if "st_nodes s' j = Some md" for j md
      using that refs(4) [of j md] refs(4) [OF assms(2)] assms(4,5) maps sh [of j] other [of j] upd(1)
      by (cases "j = i") (auto simp: counts_ok_def held)
    show "mapping_ok s' k' m" if "st_mappings s' k' = Some m" for k' m
      using that refs(5) [of k' m] new [of m] upd(5) unfolding mapping_ok_def reg by (auto split: if_splits)
    show "finite (dom (st_mappings s'))" using refs(2) by (simp add: upd dom_fun_upd)
  qed (use refs(1) upd in simp_all)
qed

text \<open>A private copy occupies memory of its own.\<close>

lemma base_ok_copy:
  assumes "base_ok s" "0 < snd k" "st_mappings s k = None"
    and "\<And>o1 r. region s o1 = Some r \<Longrightarrow> apart (fst k, (snd k + PAGE - 1) div PAGE * PAGE) r"
    and upd: "st_nodes s' = st_nodes s" "st_used s' = st_used s" "st_next_id s' = st_next_id s"
      "st_handles s' = st_handles s" "st_mappings s' = (st_mappings s)(k \<mapsto> Private)"
  shows "base_ok s'"
proof -
  note ok = base_okD [OF assms(1)] and refs = refs_okD [OF base_okD(4) [OF assms(1)]]
  have reg: "region s' o1 = (if o1 = Copy k then Some (fst k, (snd k + PAGE - 1) div PAGE * PAGE) else region s o1)" for o1
    by (cases o1) (auto simp: upd)
  have sh: "shares s' = shares s"
    using shares_put [OF refs(2) upd(5)] assms(3) by (auto simp: fun_eq_iff share_def)
  have held: "held_by s' = held_by s" by (simp add: held_by_def fun_eq_iff upd)
  have mem: "memory_ok s'"
    unfolding memory_ok_def
  proof (intro allI impI)
    fix o1 o2 r1 r2
    assume "region s' o1 = Some r1" "region s' o2 = Some r2" "o1 \<noteq> o2"
    then show "apart r1 r2"
      using ok(5) assms(4) [of o1 r1] assms(4) [of o2 r2]
      by (cases "o1 = Copy k"; cases "o2 = Copy k") (auto simp: reg memory_ok_def apart_def simp del: region.simps)
  qed
  have "refs_ok s'"
  proof (rule refs_okI)
    show "handle_ok s' h v" if "st_handles s' h = Some v" for h v
      using handle_ok_same [OF refs(3) [of h v], of s'] that upd by simp
    show "counts_ok s' j md" if "st_nodes s' j = Some md" for j md
      using that refs(4) [of j md] upd by (simp add: counts_ok_def sh held)
    show "mapping_ok s' k' m" if "st_mappings s' k' = Some m" for k' m
      using that refs(5) [of k' m] assms(2) upd(5) unfolding mapping_ok_def reg by (auto split: if_splits mapped.splits)
    show "finite (dom (st_mappings s'))" using refs(2) by (simp add: upd)
  qed (use refs(1) upd in simp_all)
  then show ?thesis using ok mem
    unfolding base_ok_def nodes_ok_def used_ok_def ids_ok_def size_at_def by (simp add: upd)
qed

lemma base_ok_uncopy:
  assumes "base_ok s" "st_mappings s k = Some Private"
    and upd: "st_nodes s' = st_nodes s" "st_used s' = st_used s" "st_next_id s' = st_next_id s"
      "st_handles s' = st_handles s" "st_mappings s' = (st_mappings s)(k := None)"
  shows "base_ok s'"
proof -
  note ok = base_okD [OF assms(1)] and refs = refs_okD [OF base_okD(4) [OF assms(1)]]
  have reg: "region s' o1 = (if o1 = Copy k then None else region s o1)" for o1
    by (cases o1) (auto simp: upd)
  have sh: "shares s' = shares s"
    using shares_put [OF refs(2) upd(5)] assms(2) by (auto simp: fun_eq_iff share_def)
  have held: "held_by s' = held_by s" by (simp add: held_by_def fun_eq_iff upd)
  have "memory_ok s'" using ok(5) unfolding memory_ok_def reg by (simp split: if_splits)
  moreover have "refs_ok s'"
  proof (rule refs_okI)
    show "handle_ok s' h v" if "st_handles s' h = Some v" for h v
      using handle_ok_same [OF refs(3) [of h v], of s'] that upd by simp
    show "counts_ok s' j md" if "st_nodes s' j = Some md" for j md
      using that refs(4) [of j md] upd by (simp add: counts_ok_def sh held)
    show "mapping_ok s' k' m" if "st_mappings s' k' = Some m" for k' m
      using that refs(5) [of k' m] upd(5) unfolding mapping_ok_def reg by (auto split: if_splits mapped.splits)
    show "finite (dom (st_mappings s'))" using refs(2) by (simp add: upd dom_fun_upd)
  qed (use refs(1) upd in simp_all)
  ultimately show ?thesis using ok
    unfolding base_ok_def nodes_ok_def used_ok_def ids_ok_def size_at_def by (simp add: upd)
qed

end
