(* ===== verification/Memfs_Names.thy ===== *)
theory Memfs_Names
  imports Memfs_Refs
begin

text \<open>
  The namespace operations keep the invariant, each by the abstract edit it stands for, and a call
  that fails changes nothing.
\<close>

section \<open>The invariant\<close>

text \<open>A node with no name left is kept only by its handles and mappings.\<close>

definition kept :: "vnode \<Rightarrow> bool" where
  "kept v \<longleftrightarrow> v_links v \<noteq> 0 \<or> v_opens v \<noteq> 0 \<or> v_maps v \<noteq> 0"

definition garbage_free :: "vtree \<Rightarrow> bool" where
  "garbage_free t \<longleftrightarrow> (\<forall>i v. t i = Some v \<longrightarrow> kept v)"

definition working_ok :: "state \<Rightarrow> bool" where
  "working_ok s \<longleftrightarrow> st_working s < st_next_id s \<and>
     (st_nodes s (st_working s) \<noteq> None \<longrightarrow> is_dir (view s) (st_working s))"

definition fs_inv :: "state \<Rightarrow> bool" where
  "fs_inv s \<longleftrightarrow> base_ok s \<and> tree_ok (view s) \<and> garbage_free (view s) \<and> working_ok s"

lemma fs_invD:
  assumes "fs_inv s"
  shows "base_ok s" "tree_ok (view s)" "garbage_free (view s)" "working_ok s"
  using assms by (simp_all add: fs_inv_def)

lemma fs_inv_acquire [simp]: "fs_inv s \<Longrightarrow> acquire s = s"
  using tree_okD(1) [of "view s"] by (auto simp: fs_inv_def acquire_def parent_of_def view_def)

lemma base_ok_ordered: "base_ok s \<Longrightarrow> ordered_entries s"
  using base_okD(1) by (fastforce simp: ordered_entries_def nodes_ok_def node_ok_def)

lemma base_ok_clean: "base_ok s \<Longrightarrow> links_clean s"
  using base_okD(1) by (fastforce simp: links_clean_def nodes_ok_def node_ok_def)

lemma fs_walk:
  assumes "fs_inv s" "0 \<notin> set path" "walk s path policy = Inr place"
  shows "place_ok s place" and "policy = Follow \<Longrightarrow> pl_node place = Some i \<Longrightarrow> \<not> is_link s i"
  using walk_place [OF assms(3) fs_invD(2) [OF assms(1)] base_ok_clean [OF fs_invD(1) [OF assms(1)]] assms(2)]
    fs_invD(4) [OF assms(1)] by (auto simp: working_ok_def)

section \<open>What the primitives leave alone\<close>

lemma node_frame [simp]:
  "st_working (snd (update_node i f s)) = st_working s" "st_next_id (snd (update_node i f s)) = st_next_id s"
  "st_handles (snd (update_node i f s)) = st_handles s" "st_mappings (snd (update_node i f s)) = st_mappings s"
  "st_capacity (snd (update_node i f s)) = st_capacity s" "st_used (snd (update_node i f s)) = st_used s"
  "st_watchers (snd (update_node i f s)) = st_watchers s" "st_next_watcher (snd (update_node i f s)) = st_next_watcher s"
  by (simp_all add: update_node_def split: option.split)

lemma touch_frame [simp]:
  "st_working (snd (touch i now s)) = st_working s" "st_next_id (snd (touch i now s)) = st_next_id s"
  "st_handles (snd (touch i now s)) = st_handles s" "st_mappings (snd (touch i now s)) = st_mappings s"
  "st_capacity (snd (touch i now s)) = st_capacity s" "st_used (snd (touch i now s)) = st_used s"
  "st_watchers (snd (touch i now s)) = st_watchers s" "st_next_watcher (snd (touch i now s)) = st_next_watcher s"
  by (simp_all add: touch_def)

lemma entries_frame [simp]:
  "st_working (snd (update_entries i g s)) = st_working s" "st_next_id (snd (update_entries i g s)) = st_next_id s"
  "st_handles (snd (update_entries i g s)) = st_handles s" "st_mappings (snd (update_entries i g s)) = st_mappings s"
  "st_capacity (snd (update_entries i g s)) = st_capacity s" "st_used (snd (update_entries i g s)) = st_used s"
  "st_watchers (snd (update_entries i g s)) = st_watchers s"
  "st_next_watcher (snd (update_entries i g s)) = st_next_watcher s"
  by (simp_all add: update_entries_def split: option.split body.split)

lemma reap_frame [simp]:
  "st_working (reap i s) = st_working s" "st_next_id (reap i s) = st_next_id s" "st_handles (reap i s) = st_handles s"
  "st_mappings (reap i s) = st_mappings s" "st_capacity (reap i s) = st_capacity s" "st_watchers (reap i s) = st_watchers s"
  "st_next_watcher (reap i s) = st_next_watcher s"
  by (simp_all add: reap_def split: option.split)

lemma unlinked_frame [simp]:
  "st_working (snd (unlinked env i now c s)) = st_working s" "st_next_id (snd (unlinked env i now c s)) = st_next_id s"
  "st_handles (snd (unlinked env i now c s)) = st_handles s" "st_mappings (snd (unlinked env i now c s)) = st_mappings s"
  "st_capacity (snd (unlinked env i now c s)) = st_capacity s"
  "st_next_watcher (snd (unlinked env i now c s)) = st_next_watcher s"
  by (simp_all add: unlinked_def Let_def split: option.split)

lemma live_after [simp]:
  "st_nodes (snd (update_node i f s)) j = None \<longleftrightarrow> st_nodes s j = None"
  "st_nodes (snd (touch i now s)) j = None \<longleftrightarrow> st_nodes s j = None"
  "st_nodes (snd (update_entries i g s)) j = None \<longleftrightarrow> st_nodes s j = None"
  by (auto simp: update_node_def touch_def update_entries_def split: option.split body.split)

lemma live_unlinked [simp]:
  "j \<noteq> i \<Longrightarrow> st_nodes (snd (unlinked env i now c s)) j = None \<longleftrightarrow> st_nodes s j = None"
  using view_unlinked [of env i now c s] view_None_iff [of s j] view_None_iff [of "snd (unlinked env i now c s)" j]
  by (simp add: v_unlink_other)

section \<open>Restoring the invariant\<close>

lemma garbage_free_reap:
  assumes "\<And>j v. j \<noteq> i \<Longrightarrow> t j = Some v \<Longrightarrow> kept v"
  shows "garbage_free (v_reap i t)"
  unfolding garbage_free_def
proof (intro allI impI)
  fix j v
  assume "v_reap i t j = Some v"
  then show "kept v" using assms [of j v]
    by (cases "j = i") (auto simp: v_reap_def kept_def split: option.splits if_splits)
qed

lemma v_counts_set_entry [simp]:
  "v_opens (set_entry n x v) = v_opens v" "v_maps (set_entry n x v) = v_maps v"
  "v_opens (set_parent p v) = v_opens v" "v_maps (set_parent p v) = v_maps v"
  by (simp_all add: set_entry_def set_parent_def split: vbody.split)

lemma kept_simps [simp]: "kept (set_entry n x v) = kept v" "kept (set_parent p v) = kept v"
  "kept (v\<lparr>v_links := Suc k\<rparr>)" "kept \<lparr>v_links = Suc k, v_opens = a, v_maps = b, v_body = c\<rparr>"
  by (simp_all add: kept_def)

lemma garbage_free_remove: "garbage_free t \<Longrightarrow> garbage_free (v_remove d n i t)"
  unfolding v_remove_def v_unlink_def
  by (rule garbage_free_reap) (auto simp: garbage_free_def v_upd_def split: if_splits)

lemma garbage_free_new: "garbage_free t \<Longrightarrow> garbage_free (v_new d n i b t)"
  by (auto simp: garbage_free_def v_new_def v_upd_def split: if_splits)

lemma garbage_free_link: "garbage_free t \<Longrightarrow> garbage_free (v_link d n i t)"
  by (auto simp: garbage_free_def v_link_def v_upd_def split: if_splits)

lemma garbage_free_move: "garbage_free t \<Longrightarrow> garbage_free (v_move d n d' n' i t)"
  by (auto simp: garbage_free_def v_move_def v_upd_def split: if_splits)

lemma working_ok_view:
  assumes "working_ok s" "st_working s' = st_working s" "st_next_id s \<le> st_next_id s'"
    and "\<And>j. j < st_next_id s \<Longrightarrow> view s' j \<noteq> None \<Longrightarrow> view s j \<noteq> None \<and> (is_dir (view s) j \<longrightarrow> is_dir (view s') j)"
  shows "working_ok s'"
  using assms by (auto simp: working_ok_def)

section \<open>Removing names\<close>

lemma fs_inv_remove:
  assumes "fs_inv s" "entry_of (view s) d n = Some i" "removable (view s) i"
    and "base_ok s'" "view s' = v_remove d n i (view s)" "st_working s' = st_working s" "st_next_id s' = st_next_id s"
  shows "fs_inv s'"
proof -
  note inv = fs_invD [OF assms(1)]
  have "working_ok s'"
  proof (rule working_ok_view [OF inv(4) assms(6)])
    show "view s j \<noteq> None \<and> (is_dir (view s) j \<longrightarrow> is_dir (view s') j)" if live: "view s' j \<noteq> None" for j
    proof (cases "j = i")
      case True
      then have "\<not> is_dir (view s) i" using live removed_dir_gone [OF inv(2) assms(2,3)] assms(5) by auto
      then show ?thesis using True tree_okD(2) [OF inv(2) assms(2)] by simp
    next
      case False
      have "view s j \<noteq> None" using live False assms(5) by (simp add: v_remove_other)
      then show ?thesis using False v_remove_shape(1) [OF inv(2) assms(2,3)] assms(5) by (simp add: is_dir_def)
    qed
  qed (simp add: assms(7))
  then show ?thesis
    using assms(4,5) tree_ok_remove [OF inv(2) assms(2,3)] garbage_free_remove [OF inv(3)] by (simp add: fs_inv_def)
qed

text \<open>The tail that \<open>remove\<close> and \<open>remove_directory\<close> share.\<close>

lemma unlink_chain:
  assumes "fs_inv s" "entry_of (view s) d n = Some i" "removable (view s) i"
  obtains s' where
    "and_then (update_entries d (al_remove n) s) (\<lambda>_ s. and_then (touch d now s) (\<lambda>_ s.
       and_then (unlinked env i now c s) (\<lambda>_ s. (Inr (), report_entry env d n k 0 s)))) = (Inr (), s')"
    "fs_inv s'" "view s' = v_remove d n i (view s)"
proof -
  note inv = fs_invD [OF assms(1)]
  define s1 where "s1 = snd (update_entries d (al_remove n) s)"
  define s2 where "s2 = snd (touch d now s1)"
  define s3 where "s3 = snd (unlinked env i now c s2)"
  have dir: "is_dir (view s) d" using entry_of_dir assms(2) .
  have live: "st_nodes s d \<noteq> None" "st_nodes s i \<noteq> None"
    using is_dir_live [OF dir] tree_okD(2) [OF inv(2) assms(2)] by auto
  have steps: "fst (update_entries d (al_remove n) s) = Inr ()" "fst (touch d now s1) = Inr ()"
    "fst (unlinked env i now c s2) = Inr ()"
    using dir live by (simp_all add: view_simps s1_def s2_def)
  have base: "base_ok s3"
    using base_ok_unlinked [OF base_ok_touch [OF base_ok_remove_entry [OF inv(1)]]] by (simp add: s1_def s2_def s3_def)
  have view: "view s3 = v_remove d n i (view s)"
    using base_ok_ordered [OF inv(1)] by (simp add: view_simps s1_def s2_def s3_def v_remove_def)
  have frame: "st_working s3 = st_working s" "st_next_id s3 = st_next_id s" by (simp_all add: s1_def s2_def s3_def)
  let ?s' = "report_entry env d n k 0 s3"
  have inv': "fs_inv ?s'" by (rule fs_inv_remove [OF assms]) (simp_all add: base view frame)
  have eq: "and_then (update_entries d (al_remove n) s) (\<lambda>_ s. and_then (touch d now s) (\<lambda>_ s.
       and_then (unlinked env i now c s) (\<lambda>_ s. (Inr (), report_entry env d n k 0 s)))) = (Inr (), ?s')"
    by (simp add: and_then_ok [OF steps(1)] and_then_ok [OF steps(2)] and_then_ok [OF steps(3)] flip: s1_def s2_def s3_def)
  show thesis by (rule that [OF eq inv']) (simp add: view)
qed

lemma mfs_remove_spec:
  assumes "fs_inv s" "0 \<notin> set path" "mfs_remove env path s = (r, s')"
  shows "fs_inv s' \<and> (case r of
      Inl e \<Rightarrow> s' = s
    | Inr _ \<Rightarrow> \<exists>d n i. entry_of (view s) d n = Some i \<and> \<not> is_dir (view s) i \<and> view s' = v_remove d n i (view s))"
proof (cases "walk s path Entry")
  case (Inl e)
  then show ?thesis using assms by (auto simp: mfs_remove_def)
next
  case (Inr place)
  note ok = fs_walk(1) [OF assms(1,2) Inr]
  show ?thesis
  proof (cases "\<exists>i. pl_node place = Some i \<and> is_directory s i = Inr False")
    case True
    then obtain i where i: "pl_node place = Some i" "is_directory s i = Inr False" by blast
    then have leaf: "\<not> is_dir (view s) i" using is_directory_view by auto
    then have "pl_name place \<noteq> []" using ok i by (auto simp: place_ok_def)
    then have entry: "entry_of (view s) (pl_parent place) (pl_name place) = Some i" using ok i by (simp add: place_ok_def)
    have rem: "removable (view s) i" using leaf by (simp add: removable_def)
    from unlink_chain [OF assms(1) entry rem, of "e_clock env" env True W_DELETE] obtain t where
      "mfs_remove env path s = (Inr (), t)" "fs_inv t" "view t = v_remove (pl_parent place) (pl_name place) i (view s)"
      using Inr i assms(1) by (auto simp: mfs_remove_def Let_def)
    then show ?thesis using assms(3) entry leaf by auto
  next
    case False
    then show ?thesis using assms Inr
      by (cases "pl_node place"; cases "is_directory s (the (pl_node place))") (auto simp: mfs_remove_def split: if_splits)
  qed
qed

end
