(* ===== verification/Memfs_Rename.thy ===== *)
theory Memfs_Rename
  imports Memfs_Names
begin

text \<open>
  Removing directories, creating nodes, adding links and renaming: the remaining operations on
  names, each with its abstract edit and the proof that a refused call changes nothing.
\<close>

section \<open>Removing a directory\<close>

lemma dir_unheld:
  assumes "base_ok s" "is_dir (view s) i" "view s i = Some v"
  shows "v_opens v = 0" "v_maps v = 0"
proof -
  note refs = refs_okD [OF base_okD(4) [OF assms(1)]]
  obtain nd where nd: "st_nodes s i = Some nd" "v = node_view nd" using assms(3) by (auto simp: view_Some_iff)
  have notfile: "\<not> is_file nd" "layout nd = None"
    using assms(2) nd by (auto simp: is_dir_def parent_of_def view_def is_file_def layout_def split: vbody.splits body.splits)
  have c: "counts_ok s i nd" using refs(4) nd(1) .
  have "held_by s i = {}" using refs(3) nd(1) notfile by (fastforce simp: held_by_def handle_ok_def)
  then show "v_opens v = 0" using c nd(2) by (simp add: counts_ok_def)
  have "share i (st_mappings s k) = 0" for k
    using refs(5) [of k] nd(1) notfile by (auto simp: share_def mapping_ok_def split: option.splits mapped.splits)
  then show "v_maps v = 0" using c nd(2) by (simp add: counts_ok_def shares_def)
qed

lemma empty_dir_removable: "fs_inv s \<Longrightarrow> get_entries s i = Inr [] \<Longrightarrow> removable (view s) i"
  using get_entries_view [of s i "[]"] dir_unheld [of s i] fs_invD(1) by (auto simp: removable_def fun_eq_iff)

lemma mfs_remove_directory_spec:
  assumes "fs_inv s" "0 \<notin> set path" "mfs_remove_directory env path s = (r, s')"
  shows "fs_inv s' \<and> (case r of
      Inl e \<Rightarrow> s' = s
    | Inr _ \<Rightarrow> \<exists>d n i. entry_of (view s) d n = Some i \<and> is_dir (view s) i \<and> entry_of (view s) i = Map.empty
        \<and> view s' = v_remove d n i (view s))"
proof (cases "walk s path Entry")
  case (Inl e)
  then show ?thesis using assms by (auto simp: mfs_remove_directory_def)
next
  case (Inr place)
  note ok = fs_walk(1) [OF assms(1,2) Inr]
  show ?thesis
  proof (cases "\<exists>i. pl_node place = Some i \<and> get_entries s i = Inr [] \<and> i \<noteq> ROOT \<and> pl_name place \<noteq> []")
    case True
    then obtain i where i: "pl_node place = Some i" "get_entries s i = Inr []" "i \<noteq> ROOT" "pl_name place \<noteq> []" by blast
    then have entry: "entry_of (view s) (pl_parent place) (pl_name place) = Some i" using ok by (simp add: place_ok_def)
    from unlink_chain [OF assms(1) entry empty_dir_removable [OF assms(1) i(2)], of "e_clock env" env False "W_DELETE OR W_DIRECTORY"]
    obtain t where "mfs_remove_directory env path s = (Inr (), t)" "fs_inv t"
      "view t = v_remove (pl_parent place) (pl_name place) i (view s)"
      using Inr i assms(1) by (auto simp: mfs_remove_directory_def Let_def)
    then show ?thesis using assms(3) entry get_entries_view [OF i(2)] by auto
  next
    case False
    then show ?thesis using assms Inr
      by (cases "pl_node place"; cases "get_entries s (the (pl_node place))") (auto simp: mfs_remove_directory_def Let_def split: if_splits)
  qed
qed

section \<open>Creating a node\<close>

lemma create_spec:
  assumes "fs_inv s" "place_ok s place" "pl_node place = None" "node_ok (new_node mode body now)"
    and "body = File (Plain []) \<or> body = Directory (pl_parent place) [] \<or> (\<exists>t. body = Link t)"
  obtains s' where "create env place mode body now s = (Inr (st_next_id s), s')" "fs_inv s'"
    "view s' = v_new (pl_parent place) (pl_name place) (st_next_id s) (body_view body) (view s)"
    "st_handles s' = st_handles s" "st_mappings s' = st_mappings s"
proof -
  note inv = fs_invD [OF assms(1)]
  let ?d = "pl_parent place" and ?n = "pl_name place" and ?i = "st_next_id s" and ?nd = "new_node mode body now"
  define s1 where "s1 = snd (update_entries ?d (al_insert ?n ?i) s)"
  define s2 where "s2 = s1\<lparr>st_next_id := st_next_id s1 + 1, st_nodes := (st_nodes s1)(?i \<mapsto> ?nd)\<rparr>"
  define s3 where "s3 = snd (touch ?d now s2)"
  have name: "?n \<noteq> []" "entry_name_ok ?n" "entry_of (view s) ?d ?n = None" "is_dir (view s) ?d"
    using assms(2,3) by (auto simp: place_ok_def split: if_splits)
  have fresh: "st_nodes s ?i = None" using base_okD(3) [OF inv(1)] by (auto simp: ids_ok_def)
  have di: "?d \<noteq> ?i" using is_dir_live [OF name(4)] fresh by auto
  have live: "st_nodes s ?d \<noteq> None" using is_dir_live [OF name(4)] by simp
  have steps: "fst (update_entries ?d (al_insert ?n ?i) s) = Inr ()" "fst (touch ?d now s2) = Inr ()"
    using live name(4) by (simp_all add: view_simps s2_def s1_def del: not_None_eq)
  have kind: "is_directory s3 ?i = Inr (\<exists>p es. body = Directory p es)"
    using di by (cases body)
      (auto simp: s3_def s2_def touch_def update_node_def is_directory_def node_kind_def get_node_def new_node_def split: option.split)
  have base1: "base_ok s1" using base_ok_insert_entry [OF inv(1) name(2)] by (simp add: s1_def)
  have "base_ok s2"
    by (rule base_ok_new [OF base1 _ assms(4)])
      (use assms(5) in \<open>auto simp: s2_def s1_def new_node_def layout_def node_size_def\<close>)
  then have base: "base_ok s3" by (simp add: s3_def base_ok_touch)
  have view: "view s3 = v_new ?d ?n ?i (body_view body) (view s)"
    using view_put [of s1 ?i ?nd] by (simp add: s3_def s2_def view_simps s1_def v_new_def node_view_def new_node_def view_def fun_eq_iff)
  have tree: "tree_ok (view s3)"
    unfolding view by (rule tree_ok_new [OF inv(2) name(4,3)]) (use fresh assms(5) in auto)
  have frame: "st_working s3 = st_working s" "st_next_id s3 = ?i + 1" "st_handles s3 = st_handles s" "st_mappings s3 = st_mappings s"
    by (simp_all add: s3_def s2_def s1_def)
  have "working_ok s3"
    by (rule working_ok_view [OF inv(4) frame(1)])
      (auto simp: frame view v_new_def is_dir_def parent_of_def v_upd_def set_entry_def view_Some_iff split: if_splits option.splits vbody.splits)
  then have inv3: "fs_inv s3" using base tree garbage_free_new [OF inv(3)] view by (simp add: fs_inv_def)
  let ?k = "W_CREATE OR (if \<exists>p es. body = Directory p es then W_DIRECTORY else 0)"
  show thesis
  proof (rule that)
    show "create env place mode body now s = (Inr ?i, report_entry env ?d ?n ?k 0 s3)"
      unfolding create_def Let_def and_then_ok [OF steps(1)] s1_def [symmetric] s2_def [symmetric]
        and_then_ok [OF steps(2)] s3_def [symmetric] kind by simp
    show "fs_inv (report_entry env ?d ?n ?k 0 s3)"
      using inv3 by (simp add: fs_inv_def working_ok_def)
  qed (simp_all add: view frame)
qed

lemma vacant_place:
  assumes "fs_inv s" "0 \<notin> set path" "vacant s path = Inr place"
  shows "place_ok s place" "pl_node place = None"
  using fs_walk(1) [OF assms(1,2)] assms(3) by (auto simp: vacant_def r_bind_Inr_iff split: if_splits)

lemma mfs_create_directory_spec:
  assumes "fs_inv s" "0 \<notin> set path" "mfs_create_directory env path mode s = (r, s')"
  shows "fs_inv s' \<and> (case r of
      Inl e \<Rightarrow> s' = s
    | Inr _ \<Rightarrow> \<exists>d n. is_dir (view s) d \<and> entry_of (view s) d n = None
        \<and> view s' = v_new d n (st_next_id s) (VDir d Map.empty) (view s))"
proof (cases "walk s path Create")
  case (Inl e)
  then show ?thesis using assms by (auto simp: mfs_create_directory_def)
next
  case (Inr place)
  note ok = fs_walk(1) [OF assms(1,2) Inr]
  show ?thesis
  proof (cases "pl_node place")
    case None
    have "node_ok (new_node mode (Directory (pl_parent place) []) (e_clock env))"
      by (simp add: node_ok_def new_node_def and.assoc locks_compatible_def)
    from create_spec [OF assms(1) ok None this] obtain t where
      "create env place mode (Directory (pl_parent place) []) (e_clock env) s = (Inr (st_next_id s), t)" "fs_inv t"
      "view t = v_new (pl_parent place) (pl_name place) (st_next_id s) (VDir (pl_parent place) Map.empty) (view s)"
      by auto
    moreover have "is_dir (view s) (pl_parent place)" "entry_of (view s) (pl_parent place) (pl_name place) = None"
      using ok None by (auto simp: place_ok_def split: if_splits)
    ultimately show ?thesis using assms Inr None by (cases r; simp add: mfs_create_directory_def Let_def; blast)
  next
    case (Some i)
    then show ?thesis using assms Inr by (auto simp: mfs_create_directory_def)
  qed
qed

lemma mfs_symlink_spec:
  assumes "fs_inv s" "0 \<notin> set created" "0 \<notin> set target" "mfs_symlink env target created s = (r, s')"
  shows "fs_inv s' \<and> (case r of
      Inl e \<Rightarrow> s' = s
    | Inr _ \<Rightarrow> \<exists>d n. is_dir (view s) d \<and> entry_of (view s) d n = None
        \<and> view s' = v_new d n (st_next_id s) (VLink target) (view s))"
proof (cases "vacant s created")
  case (Inl e)
  then show ?thesis using assms by (auto simp: mfs_symlink_def Let_def split: if_splits)
next
  case (Inr place)
  note ok = vacant_place [OF assms(1,2) Inr]
  show ?thesis
  proof (cases "target = [] \<or> MAX_NAME < length target \<or> \<not> e_grant env SLink (length target)")
    case True
    then show ?thesis using assms by (auto simp: mfs_symlink_def split: if_splits)
  next
    case False
    have "node_ok (new_node 0x1FF (Link target) (e_clock env))"
      using False assms(3) by (simp add: node_ok_def new_node_def locks_compatible_def)
    from create_spec [OF assms(1) ok this] obtain t where
      "create env place 0x1FF (Link target) (e_clock env) s = (Inr (st_next_id s), t)" "fs_inv t"
      "view t = v_new (pl_parent place) (pl_name place) (st_next_id s) (VLink target) (view s)"
      by auto
    moreover have "is_dir (view s) (pl_parent place)" "entry_of (view s) (pl_parent place) (pl_name place) = None"
      using ok by (auto simp: place_ok_def split: if_splits)
    ultimately show ?thesis using assms Inr False by (cases r; simp add: mfs_symlink_def Let_def; blast)
  qed
qed

section \<open>Linking\<close>

lemma mfs_link_spec:
  assumes "fs_inv s" "0 \<notin> set existing" "0 \<notin> set created" "mfs_link env existing created s = (r, s')"
  shows "fs_inv s' \<and> (case r of
      Inl e \<Rightarrow> s' = s
    | Inr _ \<Rightarrow> \<exists>d n i. is_dir (view s) d \<and> entry_of (view s) d n = None \<and> st_nodes s i \<noteq> None
        \<and> \<not> is_dir (view s) i \<and> view s' = v_link d n i (view s))"
proof (cases "r_bind (node_at s existing Keep) (\<lambda>i. r_bind (vacant s created) (\<lambda>p. r_bind (is_directory s i) (\<lambda>d.
      if d then Inl AccessDenied else Inr (i, p))))")
  case (Inl e)
  then show ?thesis using assms
    by (cases "node_at s existing Keep"; cases "vacant s created"; cases "is_directory s (projr (node_at s existing Keep))")
      (auto simp: mfs_link_def Let_def split: if_splits)
next
  case (Inr x)
  then obtain i place where ip: "node_at s existing Keep = Inr i" "vacant s created = Inr place" "is_directory s i = Inr False"
    by (auto simp: r_bind_Inr_iff split: if_splits)
  note inv = fs_invD [OF assms(1)] and ok = vacant_place [OF assms(1,3) ip(2)]
  let ?d = "pl_parent place" and ?n = "pl_name place" and ?now = "e_clock env"
  let ?f = "\<lambda>nd. nd\<lparr>nd_links := nd_links nd + 1, nd_changed := ?now\<rparr>"
  have live: "st_nodes s i \<noteq> None" "\<not> is_dir (view s) i" using ip(3) is_directory_view by auto
  have name: "entry_name_ok ?n" "entry_of (view s) ?d ?n = None" "is_dir (view s) ?d"
    using ok by (auto simp: place_ok_def split: if_splits)
  have lived: "st_nodes s ?d \<noteq> None" using is_dir_live [OF name(3)] by simp
  define s0 where "s0 = report env i W_ATTRIBUTES s"
  define s1 where "s1 = snd (update_entries ?d (al_insert ?n i) s0)"
  define s2 where "s2 = snd (update_node i ?f s1)"
  define s3 where "s3 = snd (touch ?d ?now s2)"
  have steps: "fst (update_entries ?d (al_insert ?n i) s0) = Inr ()" "fst (update_node i ?f s1) = Inr ()" "fst (touch ?d ?now s2) = Inr ()"
    using live lived name(3) by (simp_all add: view_simps s0_def s1_def s2_def del: not_None_eq)
  have "base_ok s1" using base_ok_insert_entry [of s0 ?n ?d i] inv(1) name(1) by (simp add: s0_def s1_def)
  then have "base_ok s2" unfolding s2_def
    by (rule base_ok_update_node) (auto simp: node_ok_def same_hold_def layout_def node_size_def is_file_def)
  then have base: "base_ok s3" by (simp add: s3_def base_ok_touch)
  have "view s2 = v_upd i (\<lambda>v. v\<lparr>v_links := v_links v + 1\<rparr>) (view s1)"
    unfolding s2_def by (rule view_update_node) (simp add: node_view_def)
  then have view: "view s3 = v_link ?d ?n i (view s)"
    by (simp add: s3_def view_simps s1_def s0_def v_link_def)
  have frame: "st_working s3 = st_working s" "st_next_id s3 = st_next_id s" by (simp_all add: s3_def s2_def s1_def s0_def)
  have tree: "tree_ok (view s3)" unfolding view by (rule tree_ok_link [OF inv(2) name(3,2)]) (use live in simp_all)
  have "working_ok s3"
    by (rule working_ok_view [OF inv(4) frame(1)])
      (simp_all add: frame view v_link_def is_dir_def same_bodies)
  then have inv3: "fs_inv (report_entry env ?d ?n W_CREATE 0 s3)"
    using base tree garbage_free_link [OF inv(3)] view by (simp add: fs_inv_def working_ok_def)
  have "mfs_link env existing created s = (Inr (), report_entry env ?d ?n W_CREATE 0 s3)"
    using ip assms(1) unfolding mfs_link_def Let_def
    by (simp add: s0_def [symmetric] and_then_ok [OF steps(1)] s1_def [symmetric] and_then_ok [OF steps(2), simplified]
        s2_def [symmetric, simplified] and_then_ok [OF steps(3)] s3_def [symmetric])
  then show ?thesis using assms(4) inv3 view name live by auto
qed

section \<open>Renaming\<close>

text \<open>The climb ends, and it says whether the destination lies inside the directory that moves.\<close>

lemma outside_decides:
  assumes "anchored (view s) a" "i \<noteq> ROOT"
  shows "outside s i a = Some (if clear_of (view s) i a then Inr () else Inl InvalidArgument)"
  using assms(1)
proof induction
  case root
  show ?case by (subst outside.simps) (simp add: clear_of.root)
next
  case (up d p)
  show ?case
  proof (cases "d = ROOT")
    case True
    then show ?thesis by (subst outside.simps) (simp add: clear_of.root)
  next
    case False
    have eq: "clear_of (view s) i d \<longleftrightarrow> d \<noteq> i \<and> clear_of (view s) i p"
      using up.hyps(1) False by (subst clear_of.simps) auto
    have "get_parent s d = Inr p" using up.hyps(1) by (simp add: get_parent_view)
    then show ?thesis using False up.IH eq by (subst outside.simps) simp
  qed
qed

lemma clear_of_avoiding:
  assumes "clear_of t i d" "\<And>j. parent_of t' j = (if j = r then None else parent_of t j)"
    and "\<And>j. parent_of t j = Some r \<Longrightarrow> j = r" "d \<noteq> r"
  shows "clear_of t' i d"
  using assms
proof induction
  case (up d p)
  then show ?case by (cases "p = r") (auto intro: clear_of.intros)
qed (auto intro: clear_of.intros)

lemma no_parent_in_empty:
  assumes "tree_ok t" "r \<noteq> ROOT" "entry_of t r = Map.empty" "parent_of t j = Some r"
  shows "j = r"
proof (rule ccontr)
  have "j \<noteq> ROOT" using assms(2,4) tree_okD(1) [OF assms(1)] by auto
  then obtain m where "names_of t j = {(r, m)}" using tree_okD(6) [OF assms(1,4)] by blast
  then have "(r, m) \<in> names_of t j" by simp
  then show False using assms(3) by simp
qed

definition v_rename :: "nat \<Rightarrow> name \<Rightarrow> nat \<Rightarrow> name \<Rightarrow> nat \<Rightarrow> vtree \<Rightarrow> vtree" where
  "v_rename d n d' n' i t =
     v_move d n d' n' i (case entry_of t d' n' of None \<Rightarrow> t | Some r \<Rightarrow> v_remove d' n' r t)"

text \<open>When a rename may go ahead: what the checks of the code establish.\<close>

definition may_rename :: "vtree \<Rightarrow> nat \<Rightarrow> name \<Rightarrow> nat \<Rightarrow> name \<Rightarrow> nat \<Rightarrow> bool" where
  "may_rename t d n d' n' i \<longleftrightarrow> entry_of t d n = Some i \<and> is_dir t d' \<and> (is_dir t i \<longrightarrow> clear_of t i d')
     \<and> (\<forall>r. entry_of t d' n' = Some r \<longrightarrow> r \<noteq> i \<and> is_dir t r = is_dir t i \<and> removable t r)"

lemma removable_empty: "removable t r \<Longrightarrow> entry_of t r = Map.empty"
proof (cases "is_dir t r")
  case False
  then show ?thesis using entry_of_dir by (metis not_None_eq)
qed (simp add: removable_def)

lemma tree_ok_rename:
  assumes "tree_ok t" "may_rename t d n d' n' i"
  shows "tree_ok (v_rename d n d' n' i t)"
    and "is_dir t j \<Longrightarrow> entry_of t d' n' \<noteq> Some j \<Longrightarrow> is_dir (v_rename d n d' n' i t) j"
proof -
  note may = assms(2) [unfolded may_rename_def]
  have "tree_ok (v_rename d n d' n' i t) \<and> (is_dir t j \<longrightarrow> entry_of t d' n' \<noteq> Some j \<longrightarrow> is_dir (v_rename d n d' n' i t) j)"
  proof (cases "entry_of t d' n'")
    case None
    have dn: "(d, n) \<noteq> (d', n')" using may None by auto
    have "is_dir t d" using may entry_of_dir by blast
    then show ?thesis
      using tree_ok_move [OF assms(1), of d n i d' n'] v_move_shape(1) [of t d d' n n' i j] may None dn
      by (auto simp: v_rename_def is_dir_def)
  next
    case (Some r)
    let ?t = "v_remove d' n' r t"
    have r: "r \<noteq> i" "removable t r" "r \<noteq> ROOT" using may Some tree_okD(3) [OF assms(1)] by auto
    note shape = v_remove_shape [OF assms(1) Some r(2)]
    have empty: "entry_of t r = Map.empty" by (rule removable_empty [OF r(2)])
    have neq: "d \<noteq> r" "d' \<noteq> r" "(d, n) \<noteq> (d', n')" using may Some empty r(1) by auto
    have entry: "entry_of ?t d n = Some i" "entry_of ?t d' n' = None" using may neq by (auto simp: shape(2))
    have dirs: "is_dir ?t d'" "is_dir ?t d" "is_dir ?t i = is_dir t i"
      using may neq r(1) entry_of_dir [of t d n i] by (auto simp: is_dir_def shape(1))
    have "clear_of ?t i d'" if "is_dir t i"
      using clear_of_avoiding [of t i d' ?t r] may that shape(1) neq(2) no_parent_in_empty [OF assms(1) r(3) empty] by blast
    then have "tree_ok (v_move d n d' n' i ?t)"
      using tree_ok_move [OF tree_ok_remove [OF assms(1) Some r(2)] entry(1) dirs(1) entry(2)] dirs(3) by blast
    moreover have "is_dir t j \<longrightarrow> j \<noteq> r \<longrightarrow> is_dir (v_move d n d' n' i ?t) j"
      using v_move_shape(1) [of ?t d d' n n' i j, OF dirs(2,1) neq(3)] shape(1) by (auto simp: is_dir_def)
    ultimately show ?thesis using Some by (simp add: v_rename_def)
  qed
  then show "tree_ok (v_rename d n d' n' i t)" "is_dir t j \<Longrightarrow> entry_of t d' n' \<noteq> Some j \<Longrightarrow> is_dir (v_rename d n d' n' i t) j"
    by blast+
qed

lemma fs_inv_rename:
  assumes "fs_inv s" "may_rename (view s) d n d' n' i"
    and "base_ok s'" "view s' = v_rename d n d' n' i (view s)" "st_working s' = st_working s" "st_next_id s' = st_next_id s"
  shows "fs_inv s'"
proof -
  note inv = fs_invD [OF assms(1)] and may = assms(2) [unfolded may_rename_def] and tree = tree_ok_rename [OF fs_invD(2) [OF assms(1)] assms(2)]
  have "garbage_free (view s')"
    unfolding assms(4) v_rename_def
    by (rule garbage_free_move) (use inv(3) garbage_free_remove in \<open>auto split: option.split\<close>)
  moreover have "working_ok s'"
  proof (rule working_ok_view [OF inv(4) assms(5)])
    show "view s j \<noteq> None \<and> (is_dir (view s) j \<longrightarrow> is_dir (view s') j)" if live: "view s' j \<noteq> None" for j
    proof (cases "entry_of (view s) d' n' = Some j")
      case True
      then have "removable (view s) j" using may by simp
      then show ?thesis
        using live True removed_dir_gone [OF inv(2) True] tree_okD(2) [OF inv(2) True] assms(4)
        by (auto simp: v_rename_def)
    next
      case False
      have "view s j \<noteq> None"
        using live False unfolding assms(4) v_rename_def
        by (auto simp: v_remove_other simp del: not_None_eq split: option.splits)
      then show ?thesis using tree(2) [of j] False assms(4) by simp
    qed
  qed (simp add: assms(6))
  ultimately show ?thesis using assms(3,4) tree(1) by (simp add: fs_inv_def)
qed

lemma view_reparent: "view (snd (update_node i (reparent p now) s)) = v_upd i (set_parent p) (view s)"
  by (rule view_update_node) (auto simp: node_view_def reparent_def set_parent_def split: body.split)

lemma base_ok_reparent: "base_ok s \<Longrightarrow> base_ok (snd (update_node i (reparent p now) s))"
  by (rule base_ok_update_node)
    (auto simp: reparent_def node_ok_def same_hold_def layout_def node_size_def is_file_def split: body.splits)

lemma rename_apply_spec:
  assumes "fs_inv s" "may_rename (view s) d n d' n' i" "entry_name_ok n'" "(d, n) \<noteq> (d', n')"
    and "pl_parent source = d" "pl_name source = n" "pl_parent target = d'" "pl_name target = n'"
  obtains s' where "rename_apply env source i target dir s = (Inr (), s')" "fs_inv s'" "view s' = v_rename d n d' n' i (view s)"
proof -
  note inv = fs_invD [OF assms(1)] and may = assms(2) [unfolded may_rename_def]
  let ?now = "e_clock env" and ?mark = "if dir then W_DIRECTORY else 0"
  let ?x = "entry_of (view s) d' n'"
  have dirs: "is_dir (view s) d" "is_dir (view s) d'" using may entry_of_dir by blast+
  have live: "st_nodes s d \<noteq> None" "st_nodes s d' \<noteq> None" "st_nodes s i \<noteq> None"
    using is_dir_live [OF dirs(1)] is_dir_live [OF dirs(2)] tree_okD(2) [OF inv(2), of d n i] may by auto
  have r: "r \<noteq> d \<and> r \<noteq> d' \<and> r \<noteq> i \<and> st_nodes s r \<noteq> None" if "?x = Some r" for r
    using that may removable_empty [of "view s" r] tree_okD(2) [OF inv(2) that] by auto
  define s1 where "s1 = snd (update_entries d (al_remove n) s)"
  define s2 where "s2 = snd (update_entries d' (al_insert n' i) s1)"
  define c where "c = next_cookie (st_cookie s2)"
  define s5 where "s5 = report_entry env d' n' (W_MOVED_TO OR ?mark) c
    (report_entry env d n (W_MOVED_FROM OR ?mark) c (s2\<lparr>st_cookie := c\<rparr>))"
  define s6 where "s6 = (case ?x of Some old \<Rightarrow> snd (unlinked env old ?now True s5) | None \<Rightarrow> s5)"
  define s7 where "s7 = snd (update_node i (reparent d' ?now) s6)"
  define s8 where "s8 = snd (touch d ?now s7)"
  define s9 where "s9 = snd (touch d' ?now s8)"
  have view1: "view s1 = v_upd d (set_entry n None) (view s)"
    using base_ok_ordered [OF inv(1)] by (simp add: s1_def view_simps)
  obtain es where es: "get_entries s1 d' = Inr es" using get_entries_ok [of s1 d'] dirs(2) view1 by auto
  have found: "map_of es n' = ?x"
    using get_entries_view [OF es] view1 entry_of_set_entry [OF dirs(1), of n None d' n'] assms(4) by (auto split: if_splits)
  have view5: "view s5 = v_upd d' (set_entry n' (Some i)) (v_upd d (set_entry n None) (view s))"
    by (simp add: s5_def s2_def view_simps view1)
  have live5: "st_nodes s5 j = None \<longleftrightarrow> st_nodes s j = None" for j by (simp add: s5_def s2_def s1_def)
  have "st_nodes s6 j = None \<longleftrightarrow> st_nodes s j = None" if "?x \<noteq> Some j" for j
    using that live5 live_unlinked [of j] by (cases ?x) (auto simp: s6_def simp del: not_None_eq)
  then have live6: "st_nodes s6 d \<noteq> None" "st_nodes s6 d' \<noteq> None" "st_nodes s6 i \<noteq> None"
    using live r by metis+
  have step6: "(case ?x of Some old \<Rightarrow> unlinked env old ?now True s5 | None \<Rightarrow> (Inr (), s5)) = (Inr (), s6)"
  proof (cases ?x)
    case (Some old)
    then have "fst (unlinked env old ?now True s5) = Inr ()" using r live5 by (simp add: fst_unlinked)
    then show ?thesis using Some by (simp add: s6_def prod_eq_iff)
  qed (simp add: s6_def)
  have steps: "fst (update_entries d (al_remove n) s) = Inr ()" "fst (update_entries d' (al_insert n' i) s1) = Inr ()"
    "fst (update_node i (reparent d' ?now) s6) = Inr ()" "fst (touch d ?now s7) = Inr ()" "fst (touch d' ?now s8) = Inr ()"
    using live live6 dirs view1 by (simp_all add: view_simps s1_def s7_def s8_def del: not_None_eq)
  have "view s7 = v_rename d n d' n' i (view s)"
  proof (cases ?x)
    case None
    then show ?thesis by (simp add: s7_def view_reparent s6_def view5 v_rename_def v_move_def)
  next
    case (Some old)
    then show ?thesis using v_move_replacing [of old d d' i] r
      by (simp add: s7_def view_reparent s6_def view_simps view5 v_rename_def)
  qed
  then have view: "view s9 = v_rename d n d' n' i (view s)" by (simp add: s9_def s8_def view_simps)
  have "base_ok s5" using base_ok_insert_entry [OF base_ok_remove_entry [OF inv(1)] assms(3)] by (simp add: s5_def s2_def s1_def)
  then have "base_ok s6" using base_ok_unlinked by (auto simp: s6_def split: option.split)
  then have base: "base_ok s9" by (simp add: s9_def s8_def s7_def base_ok_touch base_ok_reparent)
  have frame: "st_working s9 = st_working s" "st_next_id s9 = st_next_id s"
    by (simp_all add: s9_def s8_def s7_def s6_def s5_def s2_def s1_def split: option.split)
  have "fs_inv s9" by (rule fs_inv_rename [OF assms(1,2) base view frame])
  moreover have "rename_apply env source i target dir s = (Inr (), s9)"
  proof -
    have last: "touch d' ?now s8 = (Inr (), s9)" using steps(5) by (simp add: s9_def prod_eq_iff)
    have cookie: "st_cookie (s2\<lparr>st_cookie := c\<rparr>) = c" by simp
    show ?thesis
      unfolding rename_apply_def Let_def assms(5-8) and_then_ok [OF steps(1)] s1_def [symmetric] es and_then_simps
        and_then_ok [OF steps(2)] s2_def [symmetric] found c_def [symmetric] cookie s5_def [symmetric] step6
        and_then_ok [OF steps(3)] s7_def [symmetric] and_then_ok [OF steps(4)] s8_def [symmetric] last ..
  qed
  ultimately show thesis using that view by blast
qed

lemma rename_refusal_decides:
  assumes "fs_inv s" "entry_of (view s) d n = Some i" "is_directory s i = Inr dir"
    and "place_ok s target" "pl_name target \<noteq> []" "pl_node target \<noteq> Some i"
  shows "\<exists>r. rename_refusal s i dir target = Some r
    \<and> (r = Inr () \<longrightarrow> may_rename (view s) d n (pl_parent target) (pl_name target) i)"
proof -
  note inv = fs_invD [OF assms(1)]
  let ?d = "pl_parent target" and ?n = "pl_name target"
  have dir: "dir = is_dir (view s) i" using assms(3) is_directory_view by auto
  have place: "is_dir (view s) ?d" "pl_node target = entry_of (view s) ?d ?n"
    using assms(4,5) by (auto simp: place_ok_def)
  have "outside s i ?d = Some (if clear_of (view s) i ?d then Inr () else Inl InvalidArgument)"
    by (rule outside_decides [OF tree_okD(7) [OF inv(2) place(1)] tree_okD(3) [OF inv(2) assms(2)]])
  moreover have "is_dir (view s) r = dir \<and> removable (view s) r"
    if "rename_replaces s dir target = Inr ()" "entry_of (view s) ?d ?n = Some r" for r
  proof (cases "is_directory s r")
    case (Inr b)
    then have b: "b = is_dir (view s) r" using is_directory_view by auto
    show ?thesis
    proof (cases dir)
      case True
      then have "get_entries s r = Inr [] \<and> b"
        using that Inr place(2) by (auto simp: rename_replaces_def r_bind_Inr_iff split: if_splits)
      then show ?thesis using True b empty_dir_removable [OF assms(1)] by simp
    next
      case False
      then have "\<not> b" using that Inr place(2) by (auto simp: rename_replaces_def split: if_splits)
      then show ?thesis using False b by (simp add: removable_def)
    qed
  qed (use that place(2) in \<open>simp add: rename_replaces_def\<close>)
  ultimately show ?thesis
    using place assms(2,6) dir
    by (auto simp: rename_refusal_def may_rename_def r_bind_Inr_iff split: if_splits)
qed

lemma mfs_rename_spec:
  assumes "fs_inv s" "0 \<notin> set from" "0 \<notin> set to"
  obtains r s' where "mfs_rename env from to s = Some (r, s')" "fs_inv s'"
    "case r of
       Inl e \<Rightarrow> s' = s
     | Inr _ \<Rightarrow> s' = s \<or> (\<exists>d n d' n' i. may_rename (view s) d n d' n' i \<and> view s' = v_rename d n d' n' i (view s))"
proof (cases "r_bind (walk s from Entry) (\<lambda>source. r_bind (ok_or (pl_node source) NotFound) (\<lambda>node.
    r_bind (walk s to Entry) (\<lambda>target. if pl_name source = [] \<or> pl_name target = [] then Inl Busy else Inr (source, node, target))))")
  case (Inl e)
  show thesis by (rule that [of "Inl e" s]) (use Inl assms(1) in \<open>simp_all add: mfs_rename_def\<close>)
next
  case (Inr x)
  then obtain source i target where x: "x = (source, i, target)" "walk s from Entry = Inr source" "pl_node source = Some i"
    "walk s to Entry = Inr target" "pl_name source \<noteq> []" "pl_name target \<noteq> []"
    by (auto simp: r_bind_Inr_iff ok_or_Inr_iff split: if_splits)
  note ps = fs_walk(1) [OF assms(1,2) x(2)] and pt = fs_walk(1) [OF assms(1,3) x(4)]
  have entry: "entry_of (view s) (pl_parent source) (pl_name source) = Some i" using ps x by (simp add: place_ok_def)
  show thesis
  proof (cases "pl_node target = Some i")
    case True
    show thesis by (rule that [of "Inr ()" s]) (use Inr x True assms(1) in \<open>simp_all add: mfs_rename_def\<close>)
  next
    case False
    have "st_nodes s i \<noteq> None" using tree_okD(2) [OF fs_invD(2) [OF assms(1)] entry] by simp
    then obtain dir where dir: "is_directory s i = Inr dir" using is_directory_view by blast
    obtain r where r: "rename_refusal s i dir target = Some r"
      "r = Inr () \<longrightarrow> may_rename (view s) (pl_parent source) (pl_name source) (pl_parent target) (pl_name target) i"
      using rename_refusal_decides [OF assms(1) entry dir pt x(6) False] by blast
    have run: "mfs_rename env from to s = Some (and_then (r, s) (\<lambda>_. rename_apply env source i target dir))"
      using Inr x False dir r(1) assms(1) by (simp add: mfs_rename_def Let_def)
    show thesis
    proof (cases r)
      case (Inl e)
      show thesis by (rule that [of "Inl e" s]) (use run Inl assms(1) in simp_all)
    next
      case (Inr u)
      have neq: "(pl_parent source, pl_name source) \<noteq> (pl_parent target, pl_name target)"
        using entry pt x(6) False by (auto simp: place_ok_def)
      have may: "may_rename (view s) (pl_parent source) (pl_name source) (pl_parent target) (pl_name target) i"
        using r(2) Inr by simp
      from pt x(6) have "entry_name_ok (pl_name target)" by (simp add: place_ok_def)
      from rename_apply_spec [OF assms(1) may this neq refl refl refl refl, of env dir]
      obtain s' where "rename_apply env source i target dir s = (Inr (), s')" "fs_inv s'"
        "view s' = v_rename (pl_parent source) (pl_name source) (pl_parent target) (pl_name target) i (view s)" .
      then show thesis using run Inr may by (intro that [of "Inr ()" s']; simp; blast)
    qed
  qed
qed

end
