(* ===== verification/Memfs_Handles.thy ===== *)
theory Memfs_Handles
  imports Memfs_Rename
begin

text \<open>
  Operations through handles: opening and closing, reading and changing content, attributes and
  locks. Each keeps the invariant; what it does to the abstract file system is stated beside it.
\<close>

section \<open>Changes inside a node\<close>

text \<open>Changes that touch neither names nor link counts keep the shape of the tree.\<close>

lemma fs_inv_shape:
  assumes "fs_inv s" "base_ok s'" "st_working s' = st_working s" "st_next_id s' = st_next_id s" "garbage_free (view s')"
    and "\<And>i. map_option v_links (view s' i) = map_option v_links (view s i)"
    and "parent_of (view s') = parent_of (view s)" "entry_of (view s') = entry_of (view s)"
  shows "fs_inv s'"
proof -
  note inv = fs_invD [OF assms(1)]
  have live: "view s' j = None \<longleftrightarrow> view s j = None" for j using assms(6) [of j] by (metis map_option_is_None)
  have "tree_ok (view s')" by (rule tree_ok_same_shape [OF inv(2)]) (simp_all add: assms(6-8))
  moreover have "working_ok s'"
    by (rule working_ok_view [OF inv(4) assms(3)]) (use live assms(4,7) in \<open>simp_all add: is_dir_def del: view_None_iff not_None_eq\<close>)
  ultimately show ?thesis using assms(2,5) by (simp add: fs_inv_def)
qed

lemma fs_inv_view:
  assumes "fs_inv s" "base_ok s'" "st_working s' = st_working s" "st_next_id s' = st_next_id s" "view s' = view s"
  shows "fs_inv s'"
  by (rule fs_inv_shape [OF assms(1-4)]) (use fs_invD(3) [OF assms(1)] assms(5) in simp_all)

lemma fs_inv_watchers [simp]:
  "fs_inv (report env i k s) = fs_inv s" "fs_inv (report_entry env d n k c s) = fs_inv s"
  "fs_inv (st_watchers_update g s) = fs_inv s" "fs_inv (st_capacity_update h s) = fs_inv s"
  "fs_inv (st_next_watcher_update h s) = fs_inv s"
  by (simp_all add: fs_inv_def working_ok_def)

lemma fs_inv_update_node:
  assumes "fs_inv s" "\<And>nd. node_view (f nd) = node_view nd"
    and "\<And>nd. node_ok nd \<Longrightarrow> node_ok (f nd) \<and> same_hold nd (f nd)"
  shows "fs_inv (snd (update_node i f s))"
  by (rule fs_inv_view [OF assms(1) base_ok_update_node [OF fs_invD(1) [OF assms(1)]]])
    (use assms(2,3) in \<open>simp_all add: view_update_node_same\<close>)

section \<open>Content\<close>

definition content_layout :: "content \<Rightarrow> (nat \<times> nat) option" where
  "content_layout c = (case c of Pinned p \<Rightarrow> Some (p_base p, p_capacity p) | Plain _ \<Rightarrow> None)"

text \<open>What \<open>change\<close> needs of an edit.\<close>

definition edit_ok :: "content \<Rightarrow> bool \<Rightarrow> 'a result \<times> content \<Rightarrow> bool" where
  "edit_ok c mapped out \<longleftrightarrow> content_ok (snd out)
     \<and> (content_layout (snd out) = content_layout c \<or> content_layout (snd out) = None \<and> \<not> mapped)
     \<and> (\<forall>e. fst out = Inl e \<longrightarrow> content_bytes (snd out) = content_bytes c)"

lemma prepare_layout:
  "content_prepare env c wanted room mapped = (r, c') \<Longrightarrow>
   content_layout c' = content_layout c \<or> content_layout c' = None \<and> \<not> mapped"
  by (drule content_prepare_cases) (auto simp: content_layout_def)

lemma resize_layout:
  "content_resize env c n room mapped = (r, c') \<Longrightarrow>
   content_layout c' = content_layout c \<or> content_layout c' = None \<and> \<not> mapped"
  by (cases "content_prepare env c n room mapped"; cases "fst (content_prepare env c n room mapped)")
    (auto simp: content_resize_def usize_try_from_def content_layout_def pinned_set_size_def Let_def map_prod_def
      split: if_splits content.splits prod.splits dest!: prepare_layout)

lemma write_layout:
  "content_write env c i data room mapped = (r, c') \<Longrightarrow>
   content_layout c' = content_layout c \<or> content_layout c' = None \<and> \<not> mapped"
  by (cases "content_prepare env c (max (i + length data) (content_len c)) room mapped";
      cases "fst (content_prepare env c (max (i + length data) (content_len c)) room mapped)")
    (auto simp: content_write_def checked_add_def content_layout_def pinned_set_size_def Let_def map_prod_def
      split: if_splits content.splits prod.splits dest!: prepare_layout)

lemma resize_edit_ok: "content_ok c \<Longrightarrow> edit_ok c mapped (content_resize env c n room mapped)"
  unfolding edit_ok_def
  by (metis content_resize_ok content_resize_error prod.collapse resize_layout)

lemma write_edit_ok: "content_ok c \<Longrightarrow> edit_ok c mapped (content_write env c i data room mapped)"
  unfolding edit_ok_def
  by (metis content_write_ok content_write_error prod.collapse write_layout)

section \<open>Changing a file\<close>

definition file_bytes :: "vtree \<Rightarrow> nat \<Rightarrow> byte list option" where
  "file_bytes t i = (case t i of Some v \<Rightarrow> (case v_body v of VFile bs \<Rightarrow> Some bs | _ \<Rightarrow> None) | None \<Rightarrow> None)"

definition set_bytes :: "byte list \<Rightarrow> vnode \<Rightarrow> vnode" where
  "set_bytes bs v = v\<lparr>v_body := VFile bs\<rparr>"

lemma file_bytes_node: "st_nodes s i = Some nd \<Longrightarrow> nd_body nd = File c \<Longrightarrow> file_bytes (view s) i = Some (content_bytes c)"
  by (simp add: file_bytes_def view_def)

lemma kept_set_bytes [simp]: "kept (set_bytes bs v) = kept v"
  by (simp add: kept_def set_bytes_def)

lemma fs_inv_set_bytes:
  assumes "fs_inv s" "base_ok s'" "st_working s' = st_working s" "st_next_id s' = st_next_id s"
    and "file_bytes (view s) i \<noteq> None" "view s' = v_upd i (set_bytes bs) (view s)"
  shows "fs_inv s'"
proof (rule fs_inv_shape [OF assms(1-4)])
  show "garbage_free (view s')" using fs_invD(3) [OF assms(1)] unfolding assms(6)
    by (auto simp: garbage_free_def v_upd_def split: if_splits)
qed (use assms(5) in \<open>auto simp: assms(6) v_upd_def set_bytes_def parent_of_def entry_of_def file_bytes_def fun_eq_iff
      split: option.splits vbody.splits\<close>)

definition content_edit :: "(content \<Rightarrow> nat \<Rightarrow> bool \<Rightarrow> 'a result \<times> content) \<Rightarrow> bool" where
  "content_edit edit \<longleftrightarrow> (\<forall>c room mapped. content_ok c \<longrightarrow> edit_ok c mapped (edit c room mapped))"

lemma change_spec:
  assumes "fs_inv s" "content_edit edit" "change env i now told edit s = (r, s')"
  shows "fs_inv s' \<and> st_handles s' = st_handles s \<and> st_mappings s' = st_mappings s \<and> st_next_id s' = st_next_id s
    \<and> st_capacity s' = st_capacity s \<and> (case r of
        Inl e \<Rightarrow> view s' = view s \<and> st_used s' = st_used s
      | Inr x \<Rightarrow> \<exists>nd c c'. st_nodes s i = Some nd \<and> nd_body nd = File c \<and> content_ok c
          \<and> edit c (st_capacity s - st_used s) (nd_maps nd \<noteq> 0) = (Inr x, c')
          \<and> view s' = v_upd i (set_bytes (content_bytes c')) (view s) \<and> content_ok c'
          \<and> content_len c \<le> st_used s \<and> st_used s' = st_used s - content_len c + content_len c')"
proof (cases "\<exists>nd c. st_nodes s i = Some nd \<and> nd_body nd = File c")
  case False
  then show ?thesis using assms by (auto simp: change_def Let_def split: option.splits body.splits)
next
  case True
  then obtain nd c where nd: "st_nodes s i = Some nd" "nd_body nd = File c" by blast
  note inv = fs_invD [OF assms(1)]
  have nok: "node_ok nd" using base_okD(1) [OF inv(1)] nd(1) by (simp add: nodes_ok_def)
  then have cok: "content_ok c" using nd(2) by (simp add: node_ok_def)
  let ?out = "edit c (st_capacity s - st_used s) (nd_maps nd \<noteq> 0)"
  define c' where "c' = snd ?out"
  have ed: "content_ok c'" "content_layout c' = content_layout c \<or> content_layout c' = None \<and> nd_maps nd = 0"
    "fst ?out = Inl e \<Longrightarrow> content_bytes c' = content_bytes c" for e
    using assms(2) cok by (auto simp: content_edit_def edit_ok_def c'_def)
  define nd' where "nd' = (case fst ?out of Inl e \<Rightarrow> nd\<lparr>nd_body := File c'\<rparr>
      | Inr x \<Rightarrow> nd\<lparr>nd_body := File c', nd_modified := now, nd_changed := now\<rparr>)"
  have le: "content_len c \<le> st_used s"
    using sum_size_at [OF finite_nodes [OF base_okD(3) [OF inv(1)]] nd(1)] base_okD(2) [OF inv(1)] nd(2)
    by (simp add: used_ok_def node_size_def)
  have used: "st_used s' = st_used s - node_size nd + node_size nd'"
    using assms(3) nd ed(1,3) cok le by (auto simp: change_def Let_def nd'_def node_size_def c'_def content_len_bytes split: sum.splits prod.splits)
  have upd: "st_nodes s' = (st_nodes s)(i \<mapsto> nd')" "st_next_id s' = st_next_id s" "st_handles s' = st_handles s"
    "st_mappings s' = st_mappings s" "st_working s' = st_working s" "st_capacity s' = st_capacity s" "r = fst ?out"
    using assms(3) nd by (auto simp: change_def Let_def nd'_def c'_def split: sum.splits prod.splits)
  have base: "base_ok s'"
    by (rule base_ok_content [OF inv(1) nd(1), of nd'])
      (use nok ed(1,2) nd(2) upd used in \<open>auto simp: nd'_def node_ok_def is_file_def layout_def content_layout_def split: sum.splits content.splits\<close>)
  have view: "view s' = v_upd i (set_bytes (content_bytes c')) (view s)"
    by (auto simp: view_def upd(1) v_upd_def set_bytes_def nd nd'_def node_view_def fun_eq_iff split: sum.split)
  have inv': "fs_inv s'"
    by (rule fs_inv_set_bytes [OF assms(1) base upd(5,2) _ view]) (simp add: file_bytes_node [OF nd])
  show ?thesis
  proof (cases r)
    case (Inl e)
    then have "content_bytes c' = content_bytes c" using ed(3) upd(7) by simp
    moreover have "v_upd i (set_bytes (content_bytes c)) (view s) = view s"
      by (auto simp: v_upd_def set_bytes_def view_def nd node_view_def fun_eq_iff)
    moreover have "st_used s' = st_used s"
      using used le nd(2) Inl upd(7) ed(1) cok calculation(1) by (simp add: nd'_def node_size_def content_len_bytes)
    ultimately show ?thesis using Inl inv' view upd by simp
  next
    case (Inr x)
    have "node_size nd' = content_len c'" "node_size nd = content_len c"
      using nd(2) by (auto simp: nd'_def node_size_def split: sum.split)
    moreover have "?out = (Inr x, c')" using Inr upd(7) c'_def by (simp add: prod_eq_iff)
    ultimately show ?thesis using Inr inv' view upd used nd cok ed(1) le by auto
  qed
qed

section \<open>Through a handle\<close>

lemma file_node_Inr:
  assumes "file_node s h access = Inr i"
  obtains a where "st_handles s h = Some (FileHandle i a)" "a AND access = access"
  using assms by (auto simp: file_node_def borrow_def ok_or_def r_bind_Inr_iff split: if_splits option.splits handle.splits)

lemma file_node_file:
  assumes "fs_inv s" "file_node s h access = Inr i"
  obtains nd c where "st_nodes s i = Some nd" "nd_body nd = File c" "content_ok c"
proof -
  note inv = fs_invD [OF assms(1)]
  obtain a where "st_handles s h = Some (FileHandle i a)" by (rule file_node_Inr [OF assms(2)])
  then have "handle_ok s h (FileHandle i a)" by (rule refs_okD(3) [OF base_okD(4) [OF inv(1)]])
  then obtain nd where "st_nodes s i = Some nd" "is_file nd" by (auto simp: handle_ok_def)
  then obtain c where nd: "st_nodes s i = Some nd" "nd_body nd = File c" by (cases "nd_body nd") (auto simp: is_file_def)
  have "node_ok nd" using base_okD(1) [OF inv(1)] nd(1) by (simp add: nodes_ok_def)
  then show thesis using that [OF nd] nd(2) by (simp add: node_ok_def)
qed

text \<open>Reading gives the bytes of the abstract file and changes nothing but event queues.\<close>

lemma mfs_read_at_spec:
  assumes "fs_inv s" "mfs_read_at env file offset capacity s = (r, s')"
  shows "fs_inv s' \<and> view s' = view s \<and> st_handles s' = st_handles s \<and> (case r of
      Inl e \<Rightarrow> s' = s
    | Inr bytes \<Rightarrow> offset \<le> USIZE_MAX \<longrightarrow> (\<exists>i bs. file_node s file READ = Inr i \<and> file_bytes (view s) i = Some bs
        \<and> bytes = file_read bs offset capacity))"
proof (cases "file_node s file READ")
  case (Inl e)
  then show ?thesis using assms by (auto simp: mfs_read_at_def)
next
  case (Inr i)
  obtain nd c where nd: "st_nodes s i = Some nd" "nd_body nd = File c" "content_ok c"
    by (rule file_node_file [OF assms(1) Inr])
  then have "get_content s i = Inr c" by (simp add: get_content_def get_node_def)
  then show ?thesis using assms Inr content_read_spec [OF nd(3)] file_bytes_node [OF nd(1,2)]
    by (auto simp: mfs_read_at_def Let_def)
qed

lemma write_content_edit: "content_edit (\<lambda>c room mapped. content_write env c offset data room mapped)"
  by (simp add: content_edit_def write_edit_ok)

lemma resize_content_edit: "content_edit (\<lambda>c room mapped. content_resize env c n room mapped)"
  by (simp add: content_edit_def resize_edit_ok)

text \<open>A write puts its data into the abstract file, whole or not at all, and stays within the capacity.\<close>

lemma mfs_write_at_spec:
  assumes "fs_inv s" "mfs_write_at env file offset data s = (r, s')"
  shows "fs_inv s' \<and> st_handles s' = st_handles s \<and> (case r of
      Inl e \<Rightarrow> view s' = view s
    | Inr k \<Rightarrow> k = length data \<and> st_used s' \<le> max (st_used s) (st_capacity s) \<and> (\<exists>i bs. file_node s file WRITE = Inr i
        \<and> file_bytes (view s) i = Some bs \<and> view s' = v_upd i (set_bytes (file_write bs offset data)) (view s)))"
proof (cases "file_node s file WRITE")
  case (Inl e)
  then show ?thesis using assms by (cases r) (auto simp: mfs_write_at_def)
next
  case (Inr i)
  then have run: "change env i (e_clock env) (data \<noteq> []) (\<lambda>c room mapped. content_write env c offset data room mapped) s = (r, s')"
    using assms by (simp add: mfs_write_at_def)
  note spec = change_spec [OF assms(1) write_content_edit run]
  show ?thesis
  proof (cases r)
    case (Inr k)
    then obtain nd c c' where out: "st_nodes s i = Some nd" "nd_body nd = File c" "content_ok c"
      "content_write env c offset data (st_capacity s - st_used s) (nd_maps nd \<noteq> 0) = (Inr k, c')"
      "view s' = v_upd i (set_bytes (content_bytes c')) (view s)" "content_ok c'"
      "content_len c \<le> st_used s" "st_used s' = st_used s - content_len c + content_len c'"
      using spec by auto
    note w = content_write_bytes [OF out(3,4) refl] content_write_count [OF out(3,4) refl] content_write_room [OF out(3,4) refl]
    have "st_used s' \<le> max (st_used s) (st_capacity s)"
      using out(7,8) w(3) content_len_bytes [OF out(3)] content_len_bytes [OF out(6)] unfolding w(1) length_file_write by auto
    then show ?thesis using Inr \<open>file_node s file WRITE = Inr i\<close> spec out(5) w file_bytes_node [OF out(1,2)] by simp
  qed (use spec in simp)
qed

lemma mfs_set_size_spec:
  assumes "fs_inv s" "mfs_set_size env file n s = (r, s')"
  shows "fs_inv s' \<and> st_handles s' = st_handles s \<and> (case r of
      Inl e \<Rightarrow> view s' = view s
    | Inr _ \<Rightarrow> st_used s' \<le> max (st_used s) (st_capacity s) \<and> (\<exists>i bs. file_node s file WRITE = Inr i
        \<and> file_bytes (view s) i = Some bs \<and> view s' = v_upd i (set_bytes (file_resize bs n)) (view s)))"
proof (cases "file_node s file WRITE")
  case (Inl e)
  then show ?thesis using assms by (cases r) (auto simp: mfs_set_size_def)
next
  case (Inr i)
  then have run: "change env i (e_clock env) False (\<lambda>c room mapped. content_resize env c n room mapped) s = (r, s')"
    using assms by (simp add: mfs_set_size_def)
  note spec = change_spec [OF assms(1) resize_content_edit run]
  show ?thesis
  proof (cases r)
    case (Inr u)
    then obtain nd c c' where out: "st_nodes s i = Some nd" "nd_body nd = File c" "content_ok c"
      "content_resize env c n (st_capacity s - st_used s) (nd_maps nd \<noteq> 0) = (Inr u, c')"
      "view s' = v_upd i (set_bytes (content_bytes c')) (view s)" "content_ok c'"
      "content_len c \<le> st_used s" "st_used s' = st_used s - content_len c + content_len c'"
      using spec by auto
    note w = content_resize_bytes [OF out(3,4)] content_resize_room [OF out(3,4)]
    have "st_used s' \<le> max (st_used s) (st_capacity s)"
      using out(7,8) w content_len_bytes [OF out(3)] content_len_bytes [OF out(6)] by auto
    then show ?thesis using Inr \<open>file_node s file WRITE = Inr i\<close> spec out(5) w file_bytes_node [OF out(1,2)] by simp
  qed (use spec in simp)
qed

section \<open>Opening and closing\<close>

definition v_held :: "nat \<Rightarrow> vtree \<Rightarrow> vtree" where
  "v_held i t = v_upd i (\<lambda>v. v\<lparr>v_opens := v_opens v + 1\<rparr>) t"

definition v_released :: "nat \<Rightarrow> vtree \<Rightarrow> vtree" where
  "v_released i t = v_reap i (v_upd i (\<lambda>v. v\<lparr>v_opens := v_opens v - 1\<rparr>) t)"

lemma tree_ok_reap:
  assumes "tree_ok t" "\<not> is_dir t i"
  shows "tree_ok (v_reap i t)"
proof (cases "\<exists>v. t i = Some v \<and> v_links v = 0 \<and> v_opens v = 0 \<and> v_maps v = 0")
  case True
  then obtain v where v: "t i = Some v" "v_links v = 0" "v_opens v = 0" "v_maps v = 0" by blast
  note ok = tree_okD [OF assms(1)]
  have t': "v_reap i t = t(i := None)" using v by (simp add: v_reap_def)
  have shape: "parent_of (t(i := None)) = parent_of t" "entry_of (t(i := None)) = entry_of t"
    using assms(2) v(1) by (auto simp: parent_of_def entry_of_def is_dir_def fun_eq_iff split: vbody.splits)
  have "names_of t i = {}" using ok(4,5) [OF v(1)] v(2) by simp
  then have unnamed: "entry_of t d n \<noteq> Some i" for d n using names_of_iff [of d n t i] by auto
  have names: "names_of (t(i := None)) = names_of t" by (simp add: names_of_def shape fun_eq_iff)
  show ?thesis unfolding t'
    by (rule tree_okI)
      (use ok unnamed anchored_cong [OF shape(1)] in \<open>auto simp: shape names is_dir_def split: if_splits\<close>)
next
  case False
  then have "v_reap i t = t" by (auto simp: v_reap_def split: option.split)
  then show ?thesis using assms(1) by simp
qed

text \<open>Holding or releasing a node leaves every name alone.\<close>

lemma fs_inv_counts:
  assumes "fs_inv s" "base_ok s'" "st_working s' = st_working s" "st_next_id s' = st_next_id s"
    and "view s' = v_upd i f (view s)" "\<And>v. v_links (f v) = v_links v" "\<And>v. v_body (f v) = v_body v" "\<And>v. kept v \<Longrightarrow> kept (f v)"
  shows "fs_inv s'"
proof (rule fs_inv_shape [OF assms(1-4)])
  show "garbage_free (view s')" using fs_invD(3) [OF assms(1)] assms(8)
    by (auto simp: assms(5) garbage_free_def v_upd_def split: if_splits)
  show "map_option v_links (view s' j) = map_option v_links (view s j)" for j
    by (simp add: assms(5,6) v_upd_def option.map_comp comp_def)
qed (simp_all add: assms(5) same_bodies assms(7))

lemma fs_inv_released:
  assumes "fs_inv s" "base_ok s'" "st_working s' = st_working s" "st_next_id s' = st_next_id s" "\<not> is_dir (view s) i"
    and "view s' = v_reap i (v_upd i f (view s))" "\<And>v. v_links (f v) = v_links v" "\<And>v. v_body (f v) = v_body v"
  shows "fs_inv s'"
proof -
  note inv = fs_invD [OF assms(1)]
  let ?t = "v_upd i f (view s)"
  have "map_option v_links (view s j) = map_option v_links (?t j)" for j
    by (simp add: assms(7) v_upd_def option.map_comp comp_def)
  then have "tree_ok ?t" by (intro tree_ok_same_shape [OF inv(2)]) (simp_all add: same_bodies assms(8))
  moreover have dir: "is_dir ?t = is_dir (view s)" by (simp add: is_dir_def same_bodies assms(8) fun_eq_iff)
  ultimately have tree: "tree_ok (view s')" using tree_ok_reap assms(5,6) by simp
  have "garbage_free (view s')"
    unfolding assms(6) by (rule garbage_free_reap) (use inv(3) in \<open>auto simp: garbage_free_def v_upd_def split: if_splits\<close>)
  moreover have "working_ok s'"
  proof (rule working_ok_view [OF inv(4) assms(3)])
    fix j assume live: "view s' j \<noteq> None"
    have "j \<noteq> i \<Longrightarrow> view s' j = view s j" by (simp add: assms(6) v_reap_other v_upd_other)
    moreover have "view s i = None \<Longrightarrow> view s' i = None" by (simp add: assms(6) v_reap_def v_upd_def del: view_None_iff)
    ultimately show "view s j \<noteq> None \<and> (is_dir (view s) j \<longrightarrow> is_dir (view s') j)"
      using live assms(5) by (cases "j = i") (auto simp: is_dir_def parent_of_def simp del: view_None_iff not_None_eq)
  qed (simp add: assms(4))
  ultimately show ?thesis using assms(2) tree by (simp add: fs_inv_def)
qed

lemma finite_held_by: "base_ok s \<Longrightarrow> finite (held_by s i)"
  by (rule finite_subset [OF _ refs_okD(1) [OF base_okD(4)]]) (auto simp: held_by_def)

lemma open_tail:
  assumes "fs_inv s" "st_nodes s i = Some nd" "is_file nd"
    and "e_box env \<noteq> 0" "e_box env mod 8 = 0" "st_handles s (e_box env) = None"
  obtains s' where "and_then (update_node i (\<lambda>nd. nd\<lparr>nd_opens := nd_opens nd + 1\<rparr>) s)
      (\<lambda>_ s. new_handle env (FileHandle i a) s) = (Inr (e_box env), s')" "fs_inv s'"
    "view s' = v_held i (view s)" "st_handles s' = (st_handles s)(e_box env \<mapsto> FileHandle i a)"
proof -
  note inv = fs_invD [OF assms(1)]
  let ?nd = "nd\<lparr>nd_opens := nd_opens nd + 1\<rparr>"
  define s' where "s' = s\<lparr>st_nodes := (st_nodes s)(i \<mapsto> ?nd), st_handles := (st_handles s)(e_box env \<mapsto> FileHandle i a)\<rparr>"
  have nok: "node_ok nd" using base_okD(1) [OF inv(1)] assms(2) by (simp add: nodes_ok_def)
  have counts: "counts_ok s i nd" by (rule refs_okD(4) [OF base_okD(4) [OF inv(1)] assms(2)])
  have held: "held_by s' i = insert (e_box env) (held_by s i)" "e_box env \<notin> held_by s i"
    "j \<noteq> i \<Longrightarrow> held_by s' j = held_by s j" for j
    using assms(6) by (auto simp: held_by_def s'_def)
  have base: "base_ok s'"
  proof (rule base_ok_reference [OF inv(1) assms(2,3), of ?nd])
    show "nd_opens ?nd = card (held_by s' i)" using counts held finite_held_by [OF inv(1)] by (simp add: counts_ok_def)
    show "st_handles s h = Some v \<or> handle_ok s' h v" if "st_handles s' h = Some v" for h v
      using that assms(3-5) by (auto simp: s'_def handle_ok_def is_file_def split: if_splits)
  qed (use assms(3) nok counts held refs_okD(1) [OF base_okD(4) [OF inv(1)]] in
      \<open>auto simp: node_ok_def is_file_def layout_def node_size_def counts_ok_def s'_def\<close>)
  have view: "view s' = v_held i (view s)"
    by (auto simp: s'_def v_held_def v_upd_def view_def node_view_def assms(2) fun_eq_iff)
  have "fs_inv s'"
    by (rule fs_inv_counts [OF assms(1) base _ _ view [unfolded v_held_def]]) (simp_all add: s'_def kept_def)
  then show thesis
    by (rule that [rotated]) (use view assms(2) in \<open>simp_all add: s'_def update_node_def new_handle_def\<close>)
qed

lemma locks_compatible_filter: "locks_compatible ls \<Longrightarrow> locks_compatible (filter P ls)"
proof -
  assume ok: "locks_compatible ls"
  have "held_modes (filter P ls) w o1 b \<subseteq> held_modes ls w o1 b" for w o1 b by (auto simp: held_modes_def)
  then show ?thesis using ok unfolding locks_compatible_def by blast
qed

lemma mfs_close_spec:
  assumes "fs_inv s" "mfs_close file s = (r, s')"
  shows "fs_inv s' \<and> (case r of
      Inl e \<Rightarrow> s' = s
    | Inr _ \<Rightarrow> \<exists>i a. st_handles s file = Some (FileHandle i a) \<and> st_handles s' = (st_handles s)(file := None)
        \<and> view s' = v_released i (view s))"
proof (cases "\<exists>i a. borrow s file = Inr (FileHandle i a)")
  case False
  then show ?thesis using assms by (cases "borrow s file") (auto simp: mfs_close_def split: handle.splits)
next
  case True
  then obtain i a where b: "borrow s file = Inr (FileHandle i a)" by blast
  then have h: "st_handles s file = Some (FileHandle i a)" by (auto simp: borrow_def ok_or_def split: if_splits option.splits)
  note inv = fs_invD [OF assms(1)] and refs = refs_okD [OF base_okD(4) [OF fs_invD(1) [OF assms(1)]]]
  obtain nd where nd: "st_nodes s i = Some nd" "is_file nd" using refs(3) [OF h] by (auto simp: handle_ok_def)
  let ?nd = "nd\<lparr>nd_opens := nd_opens nd - 1, nd_locks := filter (\<lambda>held. lk_owner held \<noteq> file) (nd_locks nd)\<rparr>"
  define s1 where "s1 = s\<lparr>st_handles := (st_handles s)(file := None), st_nodes := (st_nodes s)(i \<mapsto> ?nd)\<rparr>"
  have nok: "node_ok nd" using base_okD(1) [OF inv(1)] nd(1) by (simp add: nodes_ok_def)
  have counts: "counts_ok s i nd" by (rule refs(4) [OF nd(1)])
  have held: "held_by s1 i = held_by s i - {file}" "file \<in> held_by s i" "j \<noteq> i \<Longrightarrow> held_by s1 j = held_by s j" for j
    using h by (auto simp: held_by_def s1_def)
  have nok': "node_ok ?nd" using nok by (simp add: node_ok_def locks_compatible_filter)
  have "base_ok s1"
  proof (rule base_ok_reference [OF inv(1) nd nok'])
    show "finite (dom (st_handles s1))" using refs(1) by (simp add: s1_def dom_fun_upd)
    show "st_handles s h = Some v \<or> handle_ok s1 h v" if "st_handles s1 h = Some v" for h v
      using that by (auto simp: s1_def split: if_splits)
  qed (use nd counts held finite_held_by [OF inv(1)] in
      \<open>auto simp: is_file_def layout_def node_size_def counts_ok_def s1_def [THEN arg_cong [of _ _ st_nodes]]
        s1_def [THEN arg_cong [of _ _ st_used]] s1_def [THEN arg_cong [of _ _ st_next_id]] s1_def [THEN arg_cong [of _ _ st_mappings]]\<close>)
  then have base: "base_ok (reap i s1)" by (rule base_ok_reap)
  have view: "view (reap i s1) = v_released i (view s)"
    by (simp add: view_reap v_released_def, rule arg_cong [of _ _ "v_reap i"])
      (auto simp: s1_def v_upd_def view_def nd(1) node_view_def fun_eq_iff)
  have "\<not> is_dir (view s) i" using nd by (auto simp: is_dir_def parent_of_def view_def is_file_def split: body.splits)
  from fs_inv_released [OF assms(1) base _ _ this view [unfolded v_released_def]]
  have "fs_inv (reap i s1)" by (simp add: s1_def)
  moreover have "r = Inr ()" "s' = reap i s1"
    using assms b nd(1) by (simp_all add: mfs_close_def update_node_def s1_def)
  ultimately show ?thesis using h view by (simp add: s1_def)
qed

text \<open>
  What a successful \<open>open\<close> holds: a file that was there, emptied if asked, or a new empty file under
  a name that was free.
\<close>

definition opens_node :: "flags \<Rightarrow> state \<Rightarrow> nat \<Rightarrow> vtree \<Rightarrow> bool" where
  "opens_node fl s i t \<longleftrightarrow>
     (if view s i = None
      then i = st_next_id s \<and> fl AND CREATE \<noteq> 0
        \<and> (\<exists>d n. is_dir (view s) d \<and> entry_of (view s) d n = None \<and> t = v_new d n i (VFile []) (view s))
      else file_bytes (view s) i \<noteq> None \<and> fl AND EXCLUSIVE = 0
        \<and> t = (if fl AND TRUNCATE = 0 then view s else v_upd i (set_bytes []) (view s)))"

lemma open_node_spec:
  assumes "fs_inv s" "place_ok s place" "fl AND EXCLUSIVE = 0 \<Longrightarrow> \<forall>i. pl_node place = Some i \<longrightarrow> \<not> is_link s i"
    and "open_node env fl mode now place s = (r, s')"
  shows "fs_inv s' \<and> st_handles s' = st_handles s \<and> (case r of
      Inl e \<Rightarrow> view s' = view s
    | Inr i \<Rightarrow> opens_node fl s i (view s') \<and> (\<exists>nd. st_nodes s' i = Some nd \<and> is_file nd))"
proof (cases "pl_node place")
  case None
  show ?thesis
  proof (cases "fl AND CREATE = 0 \<or> pl_slash place")
    case True
    then show ?thesis using assms(1,4) None by (cases r) (auto simp: open_node_def split: if_splits)
  next
    case False
    have "node_ok (new_node mode (File (Plain [])) now)"
      by (simp add: node_ok_def new_node_def and.assoc locks_compatible_def)
    from create_spec [OF assms(1,2) None this] obtain s1 where s1:
      "create env place mode (File (Plain [])) now s = (Inr (st_next_id s), s1)" "fs_inv s1"
      "view s1 = v_new (pl_parent place) (pl_name place) (st_next_id s) (VFile []) (view s)" "st_handles s1 = st_handles s"
      by auto
    have dir: "is_dir (view s) (pl_parent place)" "entry_of (view s) (pl_parent place) (pl_name place) = None"
      using assms(2) None by (auto simp: place_ok_def split: if_splits)
    have fresh: "view s (st_next_id s) = None" using base_okD(3) [OF fs_invD(1) [OF assms(1)]] by (auto simp: ids_ok_def)
    then have "pl_parent place \<noteq> st_next_id s" using is_dir_live [OF dir(1)] by auto
    then have "v_body (the (view s1 (st_next_id s))) = VFile []" "view s1 (st_next_id s) \<noteq> None"
      unfolding s1(3) by (simp_all add: v_new_def v_upd_other v_upd_same fun_upd_apply)
    then have "\<exists>nd. st_nodes s1 (st_next_id s) = Some nd \<and> is_file nd"
      by (auto simp: view_def is_file_def split: body.splits elim: body_view.elims)
    moreover have "opens_node fl s (st_next_id s) (view s1)" using False dir s1(3) fresh by (auto simp: opens_node_def)
    ultimately show ?thesis using assms(4) None False s1(1,2,4) by (auto simp: open_node_def)
  qed
next
  case (Some i)
  have live: "st_nodes s i \<noteq> None"
    using assms(2) Some is_dir_live [of "view s" i] tree_okD(2) [OF fs_invD(2) [OF assms(1)]]
    unfolding dead_iff by (auto simp: place_ok_def simp del: view_None_iff not_None_eq split: if_splits)
  show ?thesis
  proof (cases "fl AND EXCLUSIVE \<noteq> 0 \<or> is_dir (view s) i")
    case True
    then show ?thesis using assms(1,4) Some live is_directory_view [of s i True]
      by (cases r) (auto simp: open_node_def split: if_splits)
  next
    case False
    then obtain nd c where nd: "st_nodes s i = Some nd" "nd_body nd = File c"
      using live assms(3) Some by (cases "nd_body (the (st_nodes s i))") (auto simp: is_link_def is_dir_def parent_of_def view_def)
    have d: "is_directory s i = Inr False" using False live by (simp add: is_directory_view)
    note bytes = file_bytes_node [OF nd]
    show ?thesis
    proof (cases "fl AND TRUNCATE = 0")
      case True
      then show ?thesis using assms(1,4) Some False d nd bytes
        by (cases r) (auto simp: open_node_def opens_node_def is_file_def)
    next
      case trunc: False
      obtain q s1 where run: "change env i now False (\<lambda>c room mapped. content_resize env c 0 room mapped) s = (q, s1)" by force
      note spec = change_spec [OF assms(1) resize_content_edit run]
      have out: "(r, s') = (case q of Inl e \<Rightarrow> (Inl e, s1) | Inr _ \<Rightarrow> (Inr i, s1))"
        using assms(4) Some False d run trunc by (cases q) (auto simp: open_node_def)
      show ?thesis
      proof (cases q)
        case (Inr u)
        then obtain c' where "content_resize env c 0 (st_capacity s - st_used s) (nd_maps nd \<noteq> 0) = (Inr u, c')"
          "content_ok c" "view s1 = v_upd i (set_bytes (content_bytes c')) (view s)" using spec nd by auto
        then have view: "view s1 = v_upd i (set_bytes []) (view s)" using content_resize_bytes by (fastforce simp: file_resize_def)
        then have "file_bytes (view s1) i = Some []" using nd by (simp add: file_bytes_def v_upd_def view_def set_bytes_def)
        then have "\<exists>nd. st_nodes s1 i = Some nd \<and> is_file nd"
          by (auto simp: file_bytes_def view_def is_file_def split: option.splits vbody.splits body.splits)
        then show ?thesis using out Inr spec view bytes nd False trunc by (simp add: opens_node_def)
      qed (use out spec in simp)
    qed
  qed
qed

lemma mfs_open_spec:
  assumes "fs_inv s" "allocator_ok env s" "0 \<notin> set path" "mfs_open env path fl mode s = (r, s')"
  shows "fs_inv s' \<and> (case r of
      Inl e \<Rightarrow> view s' = view s \<and> st_handles s' = st_handles s
    | Inr h \<Rightarrow> st_handles s h = None \<and> (\<exists>i t. opens_node fl s i t \<and> view s' = v_held i t
        \<and> st_handles s' = (st_handles s)(h \<mapsto> FileHandle i (fl AND (READ OR WRITE)))))"
proof (cases "walk s path (if fl AND EXCLUSIVE \<noteq> 0 then Create else Follow)")
  case (Inl e)
  then show ?thesis using assms(1,4) by (cases r) (auto simp: mfs_open_def Let_def)
next
  case (Inr place)
  note walked = fs_walk [OF assms(1,3) Inr]
  have box: "e_box env \<noteq> 0" "e_box env mod 8 = 0" "st_handles s (e_box env) = None"
    using assms(2) by (simp_all add: allocator_ok_def)
  let ?now = "if fl AND (CREATE OR TRUNCATE) \<noteq> 0 then e_clock env else 0"
  obtain q s1 where stage: "open_node env fl mode ?now place s = (q, s1)" by force
  have "fl AND EXCLUSIVE = 0 \<Longrightarrow> \<forall>i. pl_node place = Some i \<longrightarrow> \<not> is_link s i" using walked(2) by auto
  note spec = open_node_spec [OF assms(1) walked(1) this stage]
  show ?thesis
  proof (cases q)
    case (Inl e)
    then show ?thesis using assms(1,4) Inr stage spec by (cases r) (auto simp: mfs_open_def Let_def)
  next
    case q: (Inr i)
    then obtain nd where nd: "st_nodes s1 i = Some nd" "is_file nd" using spec by auto
    have inv1: "fs_inv s1" "st_handles s1 = st_handles s" using spec by simp_all
    from open_tail [OF inv1(1) nd box [folded inv1(2)], of "fl AND (READ OR WRITE)"] obtain s2 where s2:
      "and_then (update_node i (\<lambda>nd. nd\<lparr>nd_opens := nd_opens nd + 1\<rparr>) s1)
        (\<lambda>_. new_handle env (FileHandle i (fl AND (READ OR WRITE)))) = (Inr (e_box env), s2)" "fs_inv s2"
      "view s2 = v_held i (view s1)" "st_handles s2 = (st_handles s1)(e_box env \<mapsto> FileHandle i (fl AND (READ OR WRITE)))" .
    have "mfs_open env path fl mode s = (Inr (e_box env), s2)"
      using assms(1) stage q s2(1) unfolding mfs_open_def by (simp add: Inr Let_def del: ac_simps)
    then show ?thesis using assms(4) s2 inv1 box(3) spec q by auto
  qed
qed

end
