(* ===== verification/Memfs_Sessions.thy ===== *)
theory Memfs_Sessions
  imports Memfs_Handles
begin

text \<open>
  The remaining operations of the in-memory file system: attributes, locks, directory listings, the
  working directory, watches and mappings. None of them changes what the tree holds; each keeps the
  invariant.
\<close>

section \<open>Attributes\<close>

lemma state_set_mode_spec:
  assumes "fs_inv s"
  shows "fs_inv (snd (state_set_mode env i mode now s)) \<and> view (snd (state_set_mode env i mode now s)) = view s
    \<and> st_handles (snd (state_set_mode env i mode now s)) = st_handles s"
proof -
  let ?f = "\<lambda>nd::node. nd\<lparr>nd_mode := mode AND MODE_MASK, nd_changed := now\<rparr>"
  have "snd (state_set_mode env i mode now s) \<in> {snd (update_node i ?f s), report env i W_ATTRIBUTES (snd (update_node i ?f s))}"
    by (cases "update_node i ?f s"; cases "fst (update_node i ?f s)") (auto simp: state_set_mode_def)
  moreover have "fs_inv (snd (update_node i ?f s))"
    by (rule fs_inv_update_node [OF assms])
      (auto simp: node_view_def node_ok_def same_hold_def layout_def node_size_def is_file_def and.assoc)
  moreover have "view (snd (update_node i ?f s)) = view s" by (rule view_update_node_same) (simp add: node_view_def)
  ultimately show ?thesis by auto
qed

lemma state_set_times_spec:
  assumes "fs_inv s"
  shows "fs_inv (snd (state_set_times env i accessed modified now s))
    \<and> view (snd (state_set_times env i accessed modified now s)) = view s
    \<and> st_handles (snd (state_set_times env i accessed modified now s)) = st_handles s"
proof -
  let ?f = "\<lambda>nd::node. nd\<lparr>nd_accessed := (case accessed of Some t \<Rightarrow> t | None \<Rightarrow> nd_accessed nd),
      nd_modified := (case modified of Some t \<Rightarrow> t | None \<Rightarrow> nd_modified nd), nd_changed := now\<rparr>"
  have "snd (state_set_times env i accessed modified now s) \<in>
      {s, snd (update_node i ?f s), report env i W_ATTRIBUTES (snd (update_node i ?f s))}"
    by (cases "update_node i ?f s"; cases "fst (update_node i ?f s)") (auto simp: state_set_times_def split: option.split)
  moreover have "fs_inv (snd (update_node i ?f s))"
    by (rule fs_inv_update_node [OF assms])
      (auto simp: node_view_def node_ok_def same_hold_def layout_def node_size_def is_file_def)
  moreover have "view (snd (update_node i ?f s)) = view s" by (rule view_update_node_same) (simp add: node_view_def)
  ultimately show ?thesis using assms by auto
qed

lemma and_then_state: "snd (and_then (r, s) f) = (case r of Inl e \<Rightarrow> s | Inr x \<Rightarrow> snd (f x s))"
  by (cases r) simp_all

lemma attributes_keep:
  assumes "fs_inv s"
    and "s' = snd (mfs_set_mode env path mode s) \<or> s' = snd (mfs_set_file_mode env file mode s)
      \<or> s' = snd (mfs_set_times env path follow accessed modified s) \<or> s' = snd (mfs_set_file_times env file accessed modified s)"
  shows "fs_inv s' \<and> view s' = view s \<and> st_handles s' = st_handles s"
  using assms state_set_mode_spec [OF assms(1)] state_set_times_spec [OF assms(1)]
  by (auto simp: mfs_set_mode_def mfs_set_file_mode_def mfs_set_times_def mfs_set_file_times_def and_then_state split: sum.split)

section \<open>Locks\<close>

lemma relock_keep:
  assumes "fs_inv s" "file_node s file access = Inr i" "lk_owner wanted = file" "lock_proper wanted"
  shows "fs_inv (snd (relock env i mode wanted s)) \<and> view (snd (relock env i mode wanted s)) = view s
    \<and> st_handles (snd (relock env i mode wanted s)) = st_handles s"
proof (cases "fst (relock env i mode wanted s)")
  case (Inl e)
  then show ?thesis using assms(1) relock_error [of env i mode wanted s e] by (metis prod.collapse)
next
  case (Inr u)
  define s' where "s' = snd (relock env i mode wanted s)"
  have run: "relock env i mode wanted s = (Inr (), s')" using Inr by (simp add: s'_def prod_eq_iff)
  note inv = fs_invD [OF assms(1)]
  obtain nd c where nd: "st_nodes s i = Some nd" "nd_body nd = File c" by (rule file_node_file [OF assms(1,2)])
  obtain a where "st_handles s file = Some (FileHandle i a)" by (rule file_node_Inr [OF assms(2)])
  then have owner: "file \<in> held_by s i" by (simp add: held_by_def)
  have nok: "node_ok nd" using base_okD(1) [OF inv(1)] nd(1) by (simp add: nodes_ok_def)
  have counts: "counts_ok s i nd" by (rule refs_okD(4) [OF base_okD(4) [OF inv(1)] nd(1)])
  let ?locks = "relock_loop wanted 0 (nd_locks nd) @ (if mode \<noteq> LOCK_UNLOCK then [wanted] else [])"
  let ?nd = "nd\<lparr>nd_locks := ?locks\<rparr>"
  have s': "s' = s\<lparr>st_nodes := (st_nodes s)(i \<mapsto> ?nd)\<rparr>"
    using run nd(1) by (auto simp: relock_def Let_def split: if_splits)
  have "locks_compatible ?locks"
    using relock_compatible [OF run] nok nd(1) s' by (simp add: node_locks_def node_ok_def)
  moreover have "\<forall>l\<in>set ?locks. lock_proper l"
    using relock_loop_proper [of "nd_locks nd" wanted 0] nok assms(4) by (auto simp: node_ok_def)
  ultimately have nok': "node_ok ?nd" using nok by (simp add: node_ok_def)
  have "\<forall>l\<in>set (relock_loop wanted 0 (nd_locks nd)). lk_owner l \<in> held_by s i"
    by (rule relock_loop_all) (use counts in \<open>auto simp: left_over_def counts_ok_def\<close>)
  then have owners: "\<forall>l\<in>set ?locks. lk_owner l \<in> held_by s i" using owner assms(3) by auto
  have held: "held_by s' = held_by s" by (simp add: s' held_by_def fun_eq_iff)
  have base: "base_ok s'"
    by (rule base_ok_reference [OF inv(1) nd(1) _ nok'])
      (use nd(2) counts owners held refs_okD(1) [OF base_okD(4) [OF inv(1)]] in
        \<open>auto simp: s' is_file_def layout_def node_size_def counts_ok_def\<close>)
  have view: "view s' = view s" by (auto simp: s' view_def nd(1) node_view_def fun_eq_iff)
  show ?thesis using fs_inv_view [OF assms(1) base _ _ view] view unfolding s'_def [symmetric] by (simp add: s')
qed

lemma whole_lock_simps [simp]: "lk_owner (whole_lock file mode) = file" "lock_proper (whole_lock file mode)"
  by (simp_all add: whole_lock_def lock_proper_def width_simps)

lemma file_node_cong: "st_handles s' = st_handles s \<Longrightarrow> file_node s' h access = file_node s h access"
  unfolding file_node_def borrow_def by simp

lemma lock_attempt_keep:
  assumes "fs_inv s"
  shows "fs_inv (snd (lock_attempt env file mode s)) \<and> view (snd (lock_attempt env file mode s)) = view s
    \<and> st_handles (snd (lock_attempt env file mode s)) = st_handles s"
proof (cases "file_node s file 0")
  case (Inl e)
  then show ?thesis using assms by (simp add: lock_attempt_def)
next
  case (Inr i)
  let ?one = "relock env i LOCK_UNLOCK (whole_lock file mode) s"
  note one = relock_keep [OF assms Inr, of "whole_lock file mode" env LOCK_UNLOCK, simplified]
  have "file_node (snd ?one) file 0 = Inr i" using Inr one file_node_cong [of "snd ?one" s] by simp
  then have "fs_inv (snd (relock env i mode (whole_lock file mode) (snd ?one)))
      \<and> view (snd (relock env i mode (whole_lock file mode) (snd ?one))) = view s
      \<and> st_handles (snd (relock env i mode (whole_lock file mode) (snd ?one))) = st_handles s"
    using relock_keep [of "snd ?one" "file" 0 i "whole_lock file mode" env mode] one by simp
  then show ?thesis using assms Inr one
    by (cases ?one; cases "fst ?one") (auto simp: lock_attempt_def Let_def)
qed

lemma mfs_lock_range_keep:
  assumes "fs_inv s"
  shows "fs_inv (snd (mfs_lock_range env file offset len mode s)) \<and> view (snd (mfs_lock_range env file offset len mode s)) = view s
    \<and> st_handles (snd (mfs_lock_range env file offset len mode s)) = st_handles s"
proof -
  let ?access = "if mode = LOCK_UNLOCK then 0 else if mode = LOCK_EXCLUSIVE then WRITE else READ"
  let ?lock = "\<lambda>stop. \<lparr>lk_owner = file, lk_whole = False, lk_start = offset, lk_end = stop, lk_exclusive = (mode = LOCK_EXCLUSIVE)\<rparr>"
  show ?thesis
  proof (cases "\<exists>i stop. file_node s file ?access = Inr i \<and> checked_add offset len = Some stop \<and> offset < stop")
    case True
    then obtain i stop where i: "file_node s file ?access = Inr i" "checked_add offset len = Some stop" "offset < stop" by blast
    have "mfs_lock_range env file offset len mode s = relock env i mode (?lock stop) s"
      using i assms by (simp add: mfs_lock_range_def Let_def)
    then show ?thesis using relock_keep [OF assms i(1), of "?lock stop"] i(3) by (simp add: lock_proper_def)
  next
    case False
    then have "snd (mfs_lock_range env file offset len mode s) = s" using assms
      by (cases "file_node s file ?access"; cases "checked_add offset len")
        (auto simp: mfs_lock_range_def Let_def split: if_splits)
    then show ?thesis using assms by simp
  qed
qed

text \<open>
  A lock that is waited for: whatever the rest of the program does between two attempts, as long as
  it keeps the invariant, the state the call leaves satisfies it.
\<close>

lemma mfs_lock_keep:
  assumes "mfs_lock envs others n file mode wait s = Some out" "fs_inv s" "\<And>n t. fs_inv t \<Longrightarrow> fs_inv (others n t)"
  shows "fs_inv (snd out)"
  using assms
proof (induction rule: mfs_lock.raw_induct [rotated 1, consumes 1])
  case (1 again envs others n f mode wait s out)
  have "fs_inv (snd (lock_attempt (envs n) f mode s))" using lock_attempt_keep "1.prems"(1) by blast
  then show ?case using 1 by (auto simp: split_beta split: if_splits)
qed

section \<open>Directory listings and the working directory\<close>

text \<open>Handles that hold no node come and go freely.\<close>

lemma handles_keep:
  assumes "fs_inv s" "\<And>v. x = Some v \<Longrightarrow> handle_ok s h v \<and> (\<forall>i a. v \<noteq> FileHandle i a)" "\<And>i a. st_handles s h \<noteq> Some (FileHandle i a)"
  shows "fs_inv (s\<lparr>st_handles := (st_handles s)(h := x)\<rparr>)" (is "fs_inv ?s")
proof -
  note inv = fs_invD [OF assms(1)] and refs = refs_okD [OF base_okD(4) [OF fs_invD(1) [OF assms(1)]]]
  have base: "base_ok ?s"
  proof (rule base_ok_handles [OF inv(1)])
    show "held_by ?s i = held_by s i" for i
      using assms(2,3) by (cases x) (auto simp: held_by_def)
    show "handle_ok ?s k v" if "st_handles ?s k = Some v" for k v
      using that refs(3) [of k v] assms(2) [of v] handle_ok_same [of s k v ?s] by (auto split: if_splits)
    show "finite (dom (st_handles ?s))" using refs(1) by (simp add: dom_fun_upd)
  qed simp_all
  show ?thesis by (rule fs_inv_view [OF assms(1) base]) simp_all
qed

lemma mfs_open_directory_keep:
  assumes "fs_inv s" "allocator_ok env s" "mfs_open_directory env path s = (r, s')"
  shows "fs_inv s' \<and> view s' = view s \<and> (case r of Inl e \<Rightarrow> s' = s
    | Inr h \<Rightarrow> st_handles s h = None \<and> (\<exists>listing. st_handles s' = (st_handles s)(h \<mapsto> DirectoryHandle listing 0)))"
proof (cases "node_at s path Follow")
  case (Inl e)
  then show ?thesis using assms by (cases r) (auto simp: mfs_open_directory_def)
next
  case at: (Inr i)
  show ?thesis
  proof (cases "get_entries s i")
    case (Inl e)
    then show ?thesis using assms at by (cases r) (auto simp: mfs_open_directory_def)
  next
    case es: (Inr es)
    show ?thesis
    proof (cases "e_grant env SListing (sum_list (map (\<lambda>e. length (fst e) + 2) es)) \<and> (\<exists>listing. listing_of s es = Inr listing)")
      case True
      then obtain listing where "listing_of s es = Inr listing" by blast
      then have out: "s' = s\<lparr>st_handles := (st_handles s)(e_box env \<mapsto> DirectoryHandle listing 0)\<rparr>" "r = Inr (e_box env)"
        using True assms(1,3) at es by (simp_all add: mfs_open_directory_def new_handle_def)
      have "fs_inv s'" unfolding out
        by (rule handles_keep [OF assms(1)]) (use assms(2) in \<open>auto simp: allocator_ok_def handle_ok_def\<close>)
      then show ?thesis using assms(2) out by (auto simp: allocator_ok_def)
    next
      case False
      then show ?thesis using assms(1,3) at es
        by (cases r; cases "listing_of s es") (auto simp: mfs_open_directory_def split: if_splits)
    qed
  qed
qed

lemma mfs_read_directory_keep:
  assumes "fs_inv s" "mfs_read_directory directory buf s = (r, buf', s')"
  shows "fs_inv s' \<and> view s' = view s"
proof (cases "\<exists>listing pos. borrow s directory = Inr (DirectoryHandle listing pos)")
  case True
  then obtain listing pos where b: "borrow s directory = Inr (DirectoryHandle listing pos)" by blast
  then have h: "st_handles s directory = Some (DirectoryHandle listing pos)"
    by (auto simp: borrow_def ok_or_def split: if_splits option.splits)
  have "handle_ok s directory (DirectoryHandle listing pos)" by (rule refs_okD(3) [OF base_okD(4) [OF fs_invD(1) [OF assms(1)]] h])
  then have "\<exists>pos'. handle_ok s directory (DirectoryHandle listing pos')
      \<and> s' \<in> {s, s\<lparr>st_handles := (st_handles s)(directory \<mapsto> DirectoryHandle listing pos')\<rparr>}"
  proof (cases "drop pos listing")
    case Nil
    then show ?thesis using assms b \<open>handle_ok _ _ _\<close> by (auto simp: mfs_read_directory_def)
  next
    case (Cons kind more)
    show ?thesis
    proof (cases more)
      case Nil
      then show ?thesis using assms b Cons \<open>handle_ok _ _ _\<close> by (auto simp: mfs_read_directory_def)
    next
      case (Cons len rest)
      with \<open>drop pos listing = kind # more\<close> have split: "drop pos listing = kind # len # rest" by simp
      have "length listing - pos = Suc (Suc (length rest))" using arg_cong [OF split, of length] by simp
      then show ?thesis using assms b split \<open>handle_ok _ _ _\<close>
        by (intro exI [of _ "if unat len \<le> length rest then pos + (2 + unat len) else pos"])
          (auto simp: mfs_read_directory_def handle_ok_def split: if_splits)
    qed
  qed
  then obtain pos' where pos': "handle_ok s directory (DirectoryHandle listing pos')"
    "s' \<in> {s, s\<lparr>st_handles := (st_handles s)(directory \<mapsto> DirectoryHandle listing pos')\<rparr>}" by blast
  have "fs_inv (s\<lparr>st_handles := (st_handles s)(directory \<mapsto> DirectoryHandle listing pos')\<rparr>)"
    by (rule handles_keep [OF assms(1)]) (use pos'(1) h in simp_all)
  then show ?thesis using assms(1) pos'(2) by auto
next
  case False
  then show ?thesis using assms by (cases "borrow s directory") (auto simp: mfs_read_directory_def split: handle.splits)
qed

lemma mfs_close_directory_keep:
  assumes "fs_inv s"
  shows "fs_inv (snd (mfs_close_directory directory s)) \<and> view (snd (mfs_close_directory directory s)) = view s"
proof (cases "\<exists>listing next. borrow s directory = Inr (DirectoryHandle listing next)")
  case True
  then obtain listing pos where b: "borrow s directory = Inr (DirectoryHandle listing pos)" by blast
  then have "st_handles s directory = Some (DirectoryHandle listing pos)"
    by (auto simp: borrow_def ok_or_def split: if_splits option.splits)
  then show ?thesis using handles_keep [OF assms, of None directory] b assms by (simp add: mfs_close_directory_def)
next
  case False
  then show ?thesis using assms by (cases "borrow s directory") (auto simp: mfs_close_directory_def split: handle.split)
qed

lemma mfs_set_current_directory_spec:
  assumes "fs_inv s" "mfs_set_current_directory path s = (r, s')"
  shows "fs_inv s' \<and> view s' = view s \<and> (case r of Inl e \<Rightarrow> s' = s | Inr _ \<Rightarrow> is_dir (view s) (st_working s'))"
proof (cases "\<exists>i es. node_at s path Follow = Inr i \<and> get_entries s i = Inr es")
  case True
  then obtain i es where i: "node_at s path Follow = Inr i" "get_entries s i = Inr es" by blast
  note inv = fs_invD [OF assms(1)]
  have dir: "is_dir (view s) i" using get_entries_view [OF i(2)] by simp
  then have "st_nodes s i \<noteq> None" using is_dir_live by (metis view_None_iff)
  then have "i < st_next_id s" using base_okD(3) [OF inv(1)] by (auto simp: ids_ok_def)
  then have "fs_inv (s\<lparr>st_working := i\<rparr>)" using inv dir by (simp add: fs_inv_def working_ok_def)
  then show ?thesis using assms i dir by (auto simp: mfs_set_current_directory_def)
next
  case False
  then show ?thesis using assms
    by (cases r; cases "node_at s path Follow"; cases "get_entries s (projr (node_at s path Follow))")
      (auto simp: mfs_set_current_directory_def)
qed

section \<open>Watches\<close>

text \<open>Steps that touch the watchers only.\<close>

definition but_watchers :: "state \<Rightarrow> state" where
  "but_watchers s = s\<lparr>st_watchers := Map.empty\<rparr>"

lemma but_watchers_update [simp]: "but_watchers (s\<lparr>st_watchers := w\<rparr>) = but_watchers s"
  by (simp add: but_watchers_def)

lemma but_watchers_keep:
  assumes "but_watchers s' = but_watchers s" "fs_inv s"
  shows "fs_inv s' \<and> view s' = view s \<and> st_handles s' = st_handles s"
proof -
  have "fs_inv (but_watchers t) = fs_inv t" "view (but_watchers t) = view t" "st_handles (but_watchers t) = st_handles t" for t
    by (simp_all add: but_watchers_def)
  then show ?thesis using assms by metis
qed

lemma but_watchers_and_then:
  "(\<And>x. but_watchers (snd (f x s)) = but_watchers s) \<Longrightarrow> but_watchers (snd (and_then (r, s) f)) = but_watchers s"
  by (cases r) simp_all

lemma mws_add_keep:
  assumes "fs_inv s" shows "but_watchers (snd (mws_add env watcher path events s)) = but_watchers s"
proof (cases "events AND REQUESTABLE = 0")
  case False
  show ?thesis
    unfolding mws_add_def Let_def fs_inv_acquire [OF assms] if_not_P [OF False]
    by (intro but_watchers_and_then) (simp split: option.split)
qed (simp add: mws_add_def)

lemma mws_remove_keep:
  assumes "fs_inv s" shows "but_watchers (snd (mws_remove env watcher watch s)) = but_watchers s"
  unfolding mws_remove_def Let_def fs_inv_acquire [OF assms]
  by (intro but_watchers_and_then) simp

lemma mws_open_keep:
  assumes "fs_inv s" "allocator_ok env s"
  shows "fs_inv (snd (mws_open env s)) \<and> view (snd (mws_open env s)) = view s"
proof (cases "queue_new env")
  case (Inr q)
  define t where "t = s\<lparr>st_next_watcher := st_next_watcher s + 1,
      st_watchers := (st_watchers s)(st_next_watcher s \<mapsto> \<lparr>wr_queue = q, wr_watches = [], wr_last = 0\<rparr>)\<rparr>"
  have "fs_inv t" using assms(1) by (simp add: t_def)
  then have "fs_inv (t\<lparr>st_handles := (st_handles t)(e_box env \<mapsto> WatcherHandle (st_next_watcher s))\<rparr>)"
    by (rule handles_keep) (use assms(2) in \<open>auto simp: allocator_ok_def handle_ok_def t_def\<close>)
  moreover have "snd (mws_open env s) = t\<lparr>st_handles := (st_handles t)(e_box env \<mapsto> WatcherHandle (st_next_watcher s))\<rparr>"
    using assms(1) Inr by (simp add: mws_open_def Let_def new_handle_def t_def)
  ultimately show ?thesis by (simp add: t_def)
qed (use assms in \<open>simp add: mws_open_def\<close>)

lemma mws_close_keep:
  assumes "fs_inv s"
  shows "fs_inv (snd (mws_close watcher s)) \<and> view (snd (mws_close watcher s)) = view s"
proof (cases "watcher_id s watcher")
  case (Inr i)
  then have "st_handles s watcher = Some (WatcherHandle i)"
    by (auto simp: watcher_id_def borrow_def ok_or_def r_bind_Inr_iff split: if_splits option.splits handle.splits)
  then have "fs_inv (s\<lparr>st_handles := (st_handles s)(watcher := None)\<rparr>)" by (intro handles_keep [OF assms]) simp_all
  moreover have "snd (mws_close watcher s) =
      st_watchers_update (\<lambda>_. (st_watchers s)(i := None)) (s\<lparr>st_handles := (st_handles s)(watcher := None)\<rparr>)"
    using assms Inr by (simp add: mws_close_def)
  ultimately show ?thesis by simp
qed (use assms in \<open>simp add: mws_close_def\<close>)

lemma read_attempt_keep:
  assumes "fs_inv s" "read_attempt watcher s = Some (r, s')"
  shows "fs_inv s' \<and> view s' = view s \<and> st_handles s' = st_handles s"
proof -
  have "but_watchers s' = but_watchers s"
    using assms unfolding read_attempt_def Let_def by (auto split: sum.splits)
  then show ?thesis using but_watchers_keep assms(1) by blast
qed

lemma mws_read_keep:
  assumes "mws_read_loop wt n watcher timeout left deadline event s = Some out" "fs_inv s"
    and "\<And>n t. fs_inv t \<Longrightarrow> fs_inv (w_others wt n t)"
  shows "fs_inv (snd (snd out))"
  using assms
proof (induction rule: mws_read_loop.raw_induct [rotated 1, consumes 1])
  case (1 again wt n watcher timeout left deadline event s out)
  then obtain r t where a: "read_attempt watcher s = Some (r, t)" by (auto simp: bind_eq_Some_conv)
  then have "fs_inv t" using read_attempt_keep "1.prems"(1) by blast
  then show ?case using 1 a by (auto split: sum.splits option.splits if_splits)
qed

end
