(* ===== verification/Memfs_Maps.thy ===== *)
theory Memfs_Maps
  imports Memfs_Sessions
begin

text \<open>
  Mappings of files. A shared mapping shows the file's own pages, which stay where they are as long
  as one mapping exists; a private mapping is a copy with memory of its own. Both keep the
  invariant, the memory of distinct files and copies stays apart, and the bookkeeping error in
  \<open>map\<close> is never reached.
\<close>

section \<open>Pinning\<close>

lemma base_ok_pin:
  assumes "base_ok s" "st_nodes s i = Some nd" "node_ok nd'" "is_file nd" "is_file nd'"
    and "nd_opens nd' = nd_opens nd" "nd_maps nd' = nd_maps nd" "nd_locks nd' = nd_locks nd"
    and "layout nd = None" "layout nd' = Some r0" "node_size nd' = node_size nd"
    and "\<And>o1 r. region s o1 = Some r \<Longrightarrow> apart r0 r"
    and upd: "st_nodes s' = (st_nodes s)(i \<mapsto> nd')" "st_used s' = st_used s" "st_next_id s' = st_next_id s"
      "st_handles s' = st_handles s" "st_mappings s' = st_mappings s"
  shows "base_ok s'"
  unfolding base_ok_def
proof (intro conjI)
  note ok = base_okD [OF assms(1)] and refs = refs_okD [OF base_okD(4) [OF assms(1)]]
  show "nodes_ok s'" using ok(1) assms(3) upd by (simp add: nodes_ok_def)
  show "ids_ok s'" using ok(3) assms(2) upd by (auto simp: ids_ok_def)
  have "node_size nd \<le> st_used s" using sum_size_at [OF finite_nodes [OF ok(3)] assms(2)] ok(2) by (simp add: used_ok_def)
  then show "used_ok s'" by (intro used_put [OF ok(2,3) assms(2), of _ nd']) (use assms(11) upd in simp_all)
  have reg: "region s' o1 = (if o1 = OfNode i then Some r0 else region s o1)" for o1
    using assms(10) upd by (cases o1) auto
  have none: "region s (OfNode i) = None" using assms(2,9) by simp
  show "memory_ok s'"
    unfolding memory_ok_def
  proof (intro allI impI)
    fix o1 o2 r1 r2
    assume "region s' o1 = Some r1" "region s' o2 = Some r2" "o1 \<noteq> o2"
    then show "apart r1 r2"
      using ok(5) assms(12) [of o1 r1] assms(12) [of o2 r2]
      by (cases "o1 = OfNode i"; cases "o2 = OfNode i") (auto simp: reg memory_ok_def apart_def simp del: region.simps)
  qed
  have held: "held_by s' = held_by s" "shares s' = shares s" by (simp_all add: held_by_def shares_def fun_eq_iff upd)
  show "refs_ok s'"
  proof (rule refs_okI)
    show "handle_ok s' h v" if "st_handles s' h = Some v" for h v
      using handle_ok_put [OF refs(3) [of h v] assms(2) upd(1)] that assms(5) upd(4) by simp
    show "counts_ok s' j md" if "st_nodes s' j = Some md" for j md
      using that refs(4) [of j] assms(2,6-8) upd(1) by (auto simp: counts_ok_def held split: if_splits)
    show "mapping_ok s' k m" if "st_mappings s' k = Some m" for k m
      using refs(5) [of k m] that none upd by (auto simp: mapping_ok_def reg simp del: region.simps split: mapped.splits)
  qed (use refs(1,2) upd in simp_all)
qed

lemma next_multiple_of:
  assumes "checked_next_multiple_of x a = Some l"
  shows "a dvd l" "x \<le> l" "a dvd m \<Longrightarrow> x \<le> m \<Longrightarrow> l \<le> m"
proof -
  have a: "0 < a" and l: "l = (if x mod a = 0 then x else x + (a - x mod a))"
    using assms by (auto simp: checked_next_multiple_of_def checked_add_def split: if_splits)
  show "x \<le> l" using l by simp
  have "x + (a - x mod a) = (x div a + 1) * a"
    using mod_less_divisor [OF a, of x] div_mult_mod_eq [of x a] unfolding distrib_right mult_1 by linarith
  then show "a dvd l" using l by auto
  show "l \<le> m" if m: "a dvd m" "x \<le> m"
  proof (cases "x mod a = 0")
    case False
    obtain k where k: "m = a * k" using m(1) by blast
    have "x div a * a < x" using False div_mult_mod_eq [of x a] by linarith
    then have "x div a * a < k * a" using m(2) unfolding k mult.commute [of a k] by (rule less_le_trans)
    then have "x div a < k" using a by simp
    then have "(x div a + 1) * a \<le> k * a" by (intro mult_right_mono) simp_all
    then show ?thesis using False l k \<open>x + (a - x mod a) = _\<close> by (simp add: mult.commute)
  qed (use l m(2) in simp)
qed

text \<open>Giving a file pages of its own changes nothing the tree shows.\<close>

lemma pin_keep:
  assumes "fs_inv s" "allocator_ok env s" "st_nodes s i = Some nd" "nd_body nd = File c"
    and "content_pin env c limit = (r, c')" "checked_next_multiple_of (content_len c) PAGE = Some limit"
  defines "s' \<equiv> s\<lparr>st_nodes := (st_nodes s)(i \<mapsto> nd\<lparr>nd_body := File c'\<rparr>)\<rparr>"
  shows "fs_inv s'" "view s' = view s" "r = Inr base \<Longrightarrow> \<exists>p. c' = Pinned p \<and> p_base p = base \<and> limit \<le> p_capacity p"
proof -
  note inv = fs_invD [OF assms(1)]
  have nok: "node_ok nd" using base_okD(1) [OF inv(1)] assms(3) by (simp add: nodes_ok_def)
  then have cok: "content_ok c" using assms(4) by (simp add: node_ok_def)
  note limit = next_multiple_of [OF assms(6)]
  note pin = content_pin_ok [OF cok assms(5) limit(1,2)] content_pin_bytes [OF cok assms(5) limit(1,2)]
  show view: "view s' = view s" using pin(2) by (auto simp: s'_def view_def assms(3,4) node_view_def fun_eq_iff)
  have nok': "node_ok (nd\<lparr>nd_body := File c'\<rparr>)" using nok pin(1) assms(4) by (simp add: node_ok_def)
  have len: "content_len c' = content_len c" using content_len_bytes cok pin by simp
  have "base_ok s'"
  proof (cases "c' = c")
    case True
    then show ?thesis unfolding s'_def
      by (intro base_ok_put [OF inv(1) assms(3) nok'])
        (simp add: same_hold_def layout_def node_size_def is_file_def assms(4))
  next
    case False
    then obtain bytes base where "c = Plain bytes" "pages env limit = Inr base"
      using assms(5) by (auto simp: content_pin_def split: content.splits sum.splits)
    moreover from this have "e_pages env limit = Some base" by (auto simp: pages_def ok_or_def split: if_splits option.splits)
    ultimately show ?thesis using assms(2,5)
      by (intro base_ok_pin [OF inv(1) assms(3) nok', of "(base, limit)"])
        (use len in \<open>auto simp: s'_def is_file_def layout_def node_size_def assms(4) content_pin_def allocator_ok_def\<close>)
  qed
  then show "fs_inv s'" using fs_inv_view [OF assms(1) _ _ _ view] by (simp add: s'_def)
  show "\<exists>p. c' = Pinned p \<and> p_base p = base \<and> limit \<le> p_capacity p" if "r = Inr base"
    using assms(5) cok that limit(3)
    by (auto simp: content_pin_def pinned_ok_def split: content.splits sum.splits)
qed

section \<open>Mapping\<close>

definition v_mapped :: "nat \<Rightarrow> vtree \<Rightarrow> vtree" where
  "v_mapped i t = v_upd i (\<lambda>v. v\<lparr>v_maps := v_maps v + 1\<rparr>) t"

definition v_unmapped :: "nat \<Rightarrow> vtree \<Rightarrow> vtree" where
  "v_unmapped i t = v_reap i (v_upd i (\<lambda>v. v\<lparr>v_maps := v_maps v - 1\<rparr>) t)"

text \<open>
  What the table holds at an address inside the pages of a file: nothing, or mappings of that very
  file. This is why the bookkeeping error is unreachable.
\<close>

lemma mapping_inside:
  assumes "base_ok s" "region s (OfNode i) = Some (b, c)" "b \<le> fst k" "fst k + snd k \<le> b + c" "0 < snd k"
    and "st_mappings s k = Some m"
  shows "\<exists>n. m = Shared i n \<and> 0 < n"
proof -
  have ok: "mapping_ok s k m" by (rule refs_okD(5) [OF base_okD(4) [OF assms(1)] assms(6)])
  have apart: "region s o1 = Some r1 \<Longrightarrow> o1 \<noteq> OfNode i \<Longrightarrow> apart r1 (b, c)" for o1 r1
    using base_okD(5) [OF assms(1)] assms(2) unfolding memory_ok_def by blast
  show ?thesis
  proof (cases m)
    case (Shared j n)
    then obtain b' c' where "0 < n" "region s (OfNode j) = Some (b', c')" "b' \<le> fst k" "fst k + snd k \<le> b' + c'"
      using ok by (auto simp: mapping_ok_def simp del: region.simps)
    then show ?thesis using apart [of "OfNode j" "(b', c')"] assms(3-5) Shared by (cases "j = i") (auto simp: apart_def)
  next
    case Private
    have "snd k \<le> (snd k + PAGE - 1) div PAGE * PAGE"
      using assms(5) by (simp add: dividend_less_times_div)
    then show ?thesis using apart [of "Copy k" "(fst k, (snd k + PAGE - 1) div PAGE * PAGE)"] assms(3-6) Private
      by (auto simp: apart_def)
  qed
qed

lemma map_shared_spec:
  assumes "fs_inv s" "allocator_ok env s" "st_nodes s i = Some nd" "nd_body nd = File c"
    and "map_window c offset len = Inr (limit, start)" "map_shared env i limit start len s = (r, s')"
  shows "fs_inv s' \<and> st_handles s' = st_handles s \<and> (case r of
      Inl e \<Rightarrow> e = OutOfMemory \<and> view s' = view s
    | Inr (a, bytes) \<Rightarrow> view s' = v_mapped i (view s) \<and> (\<exists>b n. region s' (OfNode i) = Some (b, n) \<and> a = b + offset \<and> offset + len \<le> n)
        \<and> st_mappings s' (a, len) \<noteq> None)"
proof -
  have window: "checked_next_multiple_of (content_len c) PAGE = Some limit" "start = offset" "start + len \<le> limit" "0 < len"
    using assms(5) by (auto simp: map_window_def ok_or_def r_bind_Inr_iff usize_try_from_def checked_add_def
        split: option.splits if_splits)
  obtain q c' where pin: "content_pin env c limit = (q, c')" by force
  define s1 where "s1 = s\<lparr>st_nodes := (st_nodes s)(i \<mapsto> nd\<lparr>nd_body := File c'\<rparr>)\<rparr>"
  note keep = pin_keep [OF assms(1-4) pin window(1), folded s1_def]
  show ?thesis
  proof (cases q)
    case (Inl e)
    then have "e = OutOfMemory" using pin by (auto simp: content_pin_def pages_def ok_or_def split: content.splits if_splits option.splits)
    then show ?thesis using assms(3,4,6) pin Inl keep(1,2)
      by (auto simp: map_shared_def get_node_def s1_def)
  next
    case (Inr base)
    then obtain p where p: "c' = Pinned p" "p_base p = base" "limit \<le> p_capacity p" using keep(3) by blast
    let ?nd = "nd\<lparr>nd_body := File c'\<rparr>" and ?k = "(base + start, len)"
    have nd1: "st_nodes s1 i = Some ?nd" by (simp add: s1_def)
    have reg: "region s1 (OfNode i) = Some (base, p_capacity p)" using p by (simp add: s1_def layout_def)
    note inv1 = fs_invD [OF keep(1)]
    have inside: "\<And>m. st_mappings s1 ?k = Some m \<Longrightarrow> \<exists>n. m = Shared i n \<and> 0 < n"
      using mapping_inside [OF inv1(1) reg, of ?k] window(3,4) p(3) by simp
    then obtain n where cnt: "count_mapping i (st_mappings s1 ?k) = Inr (Shared i (n + 1))" "share i (st_mappings s1 ?k) = n"
      by (cases "st_mappings s1 ?k") (fastforce simp: count_mapping_def share_def)+
    define s2 where "s2 = s1\<lparr>st_mappings := (st_mappings s1)(?k \<mapsto> Shared i (n + 1)),
        st_nodes := (st_nodes s1)(i \<mapsto> ?nd\<lparr>nd_maps := nd_maps nd + 1\<rparr>)\<rparr>"
    have nok: "node_ok ?nd" using base_okD(1) [OF inv1(1)] nd1 by (simp add: nodes_ok_def)
    have base2: "base_ok s2"
    proof (rule base_ok_remap [OF inv1(1) nd1, of "?nd\<lparr>nd_maps := nd_maps nd + 1\<rparr>" ?k "Some (Shared i (n + 1))"])
      show "\<exists>k. m = Shared i k \<and> mapping_ok s1 ?k m" if "Some (Shared i (n + 1)) = Some m" for m
        using that reg window(3,4) p(3) by (auto simp: mapping_ok_def simp del: region.simps)
    qed (use nok cnt inside in \<open>auto simp: s2_def node_ok_def layout_def node_size_def is_file_def share_def\<close>)
    have view: "view s2 = v_mapped i (view s1)"
      by (auto simp: s2_def v_mapped_def v_upd_def view_def nd1 node_view_def fun_eq_iff)
    have "fs_inv s2"
      by (rule fs_inv_counts [OF keep(1) base2 _ _ view [unfolded v_mapped_def]]) (simp_all add: s2_def kept_def)
    moreover have "map_shared env i limit start len s = (Inr (base + start, take len (drop start (p_bytes p))), s2)"
      using assms(3,4) pin Inr cnt p(1) by (simp add: map_shared_def get_node_def update_node_def s2_def s1_def Let_def)
    moreover have "region s2 (OfNode i) = Some (base, p_capacity p)" using p by (simp add: s2_def layout_def)
    ultimately show ?thesis
      using assms(6) view keep(2) window(2,3) p(3) by (auto simp: s2_def s1_def simp del: region.simps)
  qed
qed

lemma round_up: "checked_next_multiple_of n a = Some m \<Longrightarrow> (n + a - 1) div a * a = m"
proof -
  assume some: "checked_next_multiple_of n a = Some m"
  then have a: "0 < a" by (cases "a = 0") (simp_all add: checked_next_multiple_of_def)
  obtain k where k: "m = k * a" using next_multiple_of(1) [OF some] by (metis dvd_div_mult_self)
  have "(n + a - 1) div a < k + 1"
    using next_multiple_of(2) [OF some] a by (subst div_less_iff_less_mult) (simp_all add: k)
  moreover have "n < a + (n + a - 1) div a * a + 1 - a"
    using dividend_less_times_div [OF a, of "n + a - 1"] a by (simp add: mult.commute)
  then have "m \<le> (n + a - 1) div a * a" using a by (intro next_multiple_of(3) [OF some]) simp_all
  then have "k \<le> (n + a - 1) div a" using a by (simp add: k)
  ultimately show ?thesis by (simp add: k)
qed

lemma map_private_spec:
  assumes "fs_inv s" "allocator_ok env s" "0 < len" "map_private env c offset len s = (r, s')"
  shows "fs_inv s' \<and> view s' = view s \<and> st_handles s' = st_handles s \<and> (case r of
      Inl e \<Rightarrow> e = OutOfMemory \<and> s' = s
    | Inr (a, bytes) \<Rightarrow> length bytes = len \<and> st_mappings s (a, len) = None \<and> st_mappings s' (a, len) = Some Private)"
proof (cases "\<exists>rounded base. checked_next_multiple_of len PAGE = Some rounded \<and> pages env rounded = Inr base")
  case False
  have "pages env n = Inl e \<Longrightarrow> e = OutOfMemory" for n e
    by (auto simp: pages_def ok_or_def split: if_splits option.splits)
  then have "r = Inl OutOfMemory \<and> s' = s" using False assms(4)
    by (cases "checked_next_multiple_of len PAGE"; cases "pages env (the (checked_next_multiple_of len PAGE))")
      (auto simp: map_private_def)
  then show ?thesis using assms(1) by simp
next
  case True
  then obtain rounded base where *: "checked_next_multiple_of len PAGE = Some rounded" "pages env rounded = Inr base" by blast
  note inv = fs_invD [OF assms(1)]
  have "e_pages env rounded = Some base" using *(2) by (auto simp: pages_def ok_or_def split: if_splits option.splits)
  then have fresh: "region s o1 = Some r1 \<Longrightarrow> apart (base, rounded) r1" for o1 r1
    using assms(2) unfolding allocator_ok_def by blast
  have len: "len \<le> rounded" by (rule next_multiple_of(2) [OF *(1)])
  have none: "st_mappings s (base, len) = None"
  proof (cases "st_mappings s (base, len)")
    case (Some m)
    then have "mapping_ok s (base, len) m" by (rule refs_okD(5) [OF base_okD(4) [OF inv(1)]])
    then have ok: "mapping_ok s (base, len) m" .
    show ?thesis
    proof (cases m)
      case (Shared j n)
      then obtain b n' where "region s (OfNode j) = Some (b, n')" "b \<le> base" "base + len \<le> b + n'"
        using ok by (auto simp: mapping_ok_def simp del: region.simps)
      then show ?thesis using fresh [of "OfNode j" "(b, n')"] len assms(3) by (simp add: apart_def)
    next
      case Private
      then show ?thesis using fresh [of "Copy (base, len)" "(base, rounded)"] Some round_up [OF *(1)] len assms(3)
        by (simp add: apart_def)
    qed
  qed simp
  let ?s = "s\<lparr>st_mappings := (st_mappings s)((base, len) \<mapsto> Private)\<rparr>"
  have "base_ok ?s"
    by (rule base_ok_copy [OF inv(1), of "(base, len)"]) (use assms(3) none fresh round_up [OF *(1)] in auto)
  then have "fs_inv ?s" by (rule fs_inv_view [OF assms(1)]) simp_all
  moreover have "map_private env c offset len s =
      (Inr (base, take len (overwrite (replicate rounded 0) 0 (content_read c offset len))), ?s)"
    using * by (simp add: map_private_def)
  moreover have "length (content_read c offset len) \<le> rounded"
    using len by (auto simp: content_read_def Let_def split: option.split content.split)
  ultimately show ?thesis using assms(4) none len by auto
qed

lemma mms_map_spec:
  assumes "fs_inv s" "allocator_ok env s" "mms_map env file offset len access shared s = (r, s')"
  shows "fs_inv s' \<and> st_handles s' = st_handles s \<and> (case r of
      Inl e \<Rightarrow> e \<noteq> Os \<and> view s' = view s
    | Inr (a, bytes) \<Rightarrow> \<exists>i. file_node s file READ = Inr i \<and> st_mappings s' (a, len) \<noteq> None
        \<and> view s' = (if shared then v_mapped i (view s) else view s))"
proof (cases "file_node s file READ")
  case (Inl e)
  then have "e \<noteq> Os" by (auto simp: file_node_def borrow_def ok_or_def r_bind_def split: if_splits option.splits handle.splits sum.splits)
  then show ?thesis using assms(1,3) Inl by (cases r) (auto simp: mms_map_def)
next
  case i: (Inr i)
  obtain nd c where nd: "st_nodes s i = Some nd" "nd_body nd = File c" "content_ok c" by (rule file_node_file [OF assms(1) i])
  then have content: "get_content s i = Inr c" by (simp add: get_content_def get_node_def)
  have refused: "file_node s file a = Inl e \<Longrightarrow> e \<noteq> Os" for a e
    by (auto simp: file_node_def borrow_def ok_or_def r_bind_def split: if_splits option.splits handle.splits sum.splits)
  have window: "map_window c offset len = Inl e \<Longrightarrow> e \<noteq> Os" for e
    by (auto simp: map_window_def ok_or_def r_bind_def split: if_splits option.splits sum.splits)
  show ?thesis
  proof (cases "(\<exists>lim st. map_window c offset len = Inr (lim, st)) \<and> access AND R_EXECUTE = 0
      \<and> (shared \<and> access AND R_WRITE \<noteq> 0 \<longrightarrow> (\<exists>j. file_node s file WRITE = Inr j))")
    case False
    then have "\<exists>e. e \<noteq> Os \<and> r = Inl e \<and> s' = s" using assms(1,3) i content refused window
      by (cases "map_window c offset len"; cases "file_node s file WRITE")
        (auto simp: mms_map_def Let_def split: if_splits)
    then show ?thesis using assms(1) by auto
  next
    case True
    then obtain lim st where win: "map_window c offset len = Inr (lim, st)" by blast
    have len: "0 < len" using win by (auto simp: map_window_def r_bind_Inr_iff split: option.splits if_splits)
    have run: "(r, s') = (if shared then map_shared env i lim st len s else map_private env c offset len s)"
      using True assms(1,3) i content win by (cases "file_node s file WRITE") (auto simp: mms_map_def Let_def split: if_splits)
    show ?thesis
    proof (cases shared)
      case True
      then show ?thesis using map_shared_spec [OF assms(1,2) nd(1,2) win, of r s'] run i by (cases r) auto
    next
      case False
      then show ?thesis using map_private_spec [OF assms(1,2) len, of c offset r s'] run i by (cases r) auto
    qed
  qed
qed

lemma mms_unmap_spec:
  assumes "fs_inv s" "mms_unmap a len s = (r, s')"
  shows "fs_inv s' \<and> st_handles s' = st_handles s \<and> (case st_mappings s (a, len) of
      None \<Rightarrow> r = Inl InvalidArgument \<and> s' = s
    | Some Private \<Rightarrow> r = Inr () \<and> view s' = view s \<and> st_mappings s' = (st_mappings s)((a, len) := None)
    | Some (Shared i n) \<Rightarrow> r = Inr () \<and> view s' = v_unmapped i (view s))"
proof -
  note inv = fs_invD [OF assms(1)]
  consider "st_mappings s (a, len) = None" | "st_mappings s (a, len) = Some Private"
    | i n where "st_mappings s (a, len) = Some (Shared i n)" by (metis mapped.exhaust option.exhaust)
  then show ?thesis
  proof cases
    case 1
    then show ?thesis using assms by (auto simp: mms_unmap_def)
  next
    case 2
    let ?s = "s\<lparr>st_mappings := (st_mappings s)((a, len) := None)\<rparr>"
    have "base_ok ?s" by (rule base_ok_uncopy [OF inv(1) 2]) simp_all
    then have "fs_inv ?s" by (rule fs_inv_view [OF assms(1)]) simp_all
    then show ?thesis using assms 2 by (auto simp: mms_unmap_def Let_def)
  next
    case 3
    have "mapping_ok s (a, len) (Shared i n)" by (rule refs_okD(5) [OF base_okD(4) [OF inv(1)] 3])
    then have n: "0 < n" and "\<exists>b c. region s (OfNode i) = Some (b, c)"
      and fits: "\<exists>b c. region s (OfNode i) = Some (b, c) \<and> b \<le> a \<and> a + len \<le> b + c" "0 < len"
      by (auto simp: mapping_ok_def simp del: region.simps)
    then obtain nd where nd: "st_nodes s i = Some nd" "layout nd \<noteq> None" by (cases "st_nodes s i") auto
    let ?nd = "nd\<lparr>nd_maps := nd_maps nd - 1\<rparr>" and ?x = "if n - 1 = 0 then None else Some (Shared i (n - 1))"
    define s1 where "s1 = s\<lparr>st_mappings := (st_mappings s)((a, len) := ?x), st_nodes := (st_nodes s)(i \<mapsto> ?nd)\<rparr>"
    have nok: "node_ok nd" using base_okD(1) [OF inv(1)] nd(1) by (simp add: nodes_ok_def)
    have "share i (st_mappings s (a, len)) \<le> shares s i" by (rule share_le_shares [OF refs_okD(2) [OF base_okD(4) [OF inv(1)]]])
    moreover have "nd_maps nd = shares s i" using refs_okD(4) [OF base_okD(4) [OF inv(1)] nd(1)] by (simp add: counts_ok_def)
    ultimately have maps: "n \<le> nd_maps nd" using 3 by (simp add: share_def)
    have "base_ok s1"
    proof (rule base_ok_remap [OF inv(1) nd(1), of ?nd "(a, len)" ?x])
      show "\<exists>k. m = Shared i k \<and> mapping_ok s (a, len) m" if "?x = Some m" for m
        using that fits n by (auto simp: mapping_ok_def simp del: region.simps split: if_splits)
    qed (use nok 3 n maps in \<open>auto simp: s1_def node_ok_def layout_def node_size_def is_file_def share_def\<close>)
    then have base: "base_ok (reap i s1)" by (rule base_ok_reap)
    have view: "view (reap i s1) = v_unmapped i (view s)"
      by (simp add: view_reap v_unmapped_def, rule arg_cong [of _ _ "v_reap i"])
        (auto simp: s1_def v_upd_def view_def nd(1) node_view_def fun_eq_iff)
    have "\<not> is_dir (view s) i"
      using nd by (auto simp: is_dir_def parent_of_def view_def layout_def split: body.splits)
    from fs_inv_released [OF assms(1) base _ _ this view [unfolded v_unmapped_def]] have "fs_inv (reap i s1)"
      by (simp add: s1_def)
    moreover have "mms_unmap a len s = (Inr (), reap i s1)"
      using assms(1) 3 nd(1) by (simp add: mms_unmap_def Let_def update_node_def s1_def)
    moreover have "st_handles (reap i s1) = st_handles s" by (simp add: s1_def)
    ultimately show ?thesis using assms(2) 3 view by auto
  qed
qed

end
