(* ===== verification/Memfs_Steps.thy ===== *)
theory Memfs_Steps
  imports Memfs_Maps
begin

text \<open>
  The in-memory file system as a transition system. A step is one call that holds the tree's lock;
  calls that wait for a lock or an event are sequences of attempts between which any other step may
  happen, so every interleaving of callers is a sequence of steps. The program may also write
  through a shared mapping. Every reachable state satisfies the invariant.
\<close>

section \<open>Steps\<close>

text \<open>The program stores into the pages of a file it has mapped.\<close>

definition store_mapped :: "nat \<Rightarrow> byte list \<Rightarrow> state \<Rightarrow> state" where
  "store_mapped i bytes s =
     (case st_nodes s i of
        Some nd \<Rightarrow>
          (case nd_body nd of
             File (Pinned p) \<Rightarrow>
               if nd_maps nd \<noteq> 0 \<and> length bytes = p_capacity p
               then s\<lparr>st_nodes := (st_nodes s)(i \<mapsto> nd\<lparr>nd_body := File (Pinned (p\<lparr>p_bytes := bytes\<rparr>))\<rparr>)\<rparr> else s
           | _ \<Rightarrow> s)
      | None \<Rightarrow> s)"

inductive mfs_step :: "state \<Rightarrow> state \<Rightarrow> bool" where
  step_look: "mfs_step s (acquire s)"
| step_capacity: "mfs_step s (set_capacity n s)"
| step_open: "allocator_ok env s \<Longrightarrow> 0 \<notin> set path \<Longrightarrow> mfs_step s (snd (mfs_open env path fl mode s))"
| step_close: "mfs_step s (snd (mfs_close h s))"
| step_read: "mfs_step s (snd (mfs_read_at env h offset n s))"
| step_write: "mfs_step s (snd (mfs_write_at env h offset data s))"
| step_size: "mfs_step s (snd (mfs_set_size env h n s))"
| step_remove: "0 \<notin> set path \<Longrightarrow> mfs_step s (snd (mfs_remove env path s))"
| step_rename: "0 \<notin> set old \<Longrightarrow> 0 \<notin> set new \<Longrightarrow> mfs_rename env old new s = Some (r, s') \<Longrightarrow> mfs_step s s'"
| step_create_directory: "0 \<notin> set path \<Longrightarrow> mfs_step s (snd (mfs_create_directory env path mode s))"
| step_remove_directory: "0 \<notin> set path \<Longrightarrow> mfs_step s (snd (mfs_remove_directory env path s))"
| step_open_directory: "allocator_ok env s \<Longrightarrow> mfs_step s (snd (mfs_open_directory env path s))"
| step_read_directory: "mfs_step s (snd (snd (mfs_read_directory h buf s)))"
| step_close_directory: "mfs_step s (snd (mfs_close_directory h s))"
| step_mode: "mfs_step s (snd (mfs_set_mode env path mode s))"
| step_file_mode: "mfs_step s (snd (mfs_set_file_mode env h mode s))"
| step_times: "mfs_step s (snd (mfs_set_times env path follow accessed modified s))"
| step_file_times: "mfs_step s (snd (mfs_set_file_times env h accessed modified s))"
| step_link: "0 \<notin> set old \<Longrightarrow> 0 \<notin> set new \<Longrightarrow> mfs_step s (snd (mfs_link env old new s))"
| step_symlink: "0 \<notin> set target \<Longrightarrow> 0 \<notin> set new \<Longrightarrow> mfs_step s (snd (mfs_symlink env target new s))"
| step_working: "mfs_step s (snd (mfs_set_current_directory path s))"
| step_lock: "mfs_step s (snd (lock_attempt env h mode s))"
| step_lock_range: "mfs_step s (snd (mfs_lock_range env h offset len mode s))"
| step_watcher: "allocator_ok env s \<Longrightarrow> mfs_step s (snd (mws_open env s))"
| step_unwatcher: "mfs_step s (snd (mws_close h s))"
| step_watch: "mfs_step s (snd (mws_add env h path events s))"
| step_unwatch: "mfs_step s (snd (mws_remove env h watch s))"
| step_event: "read_attempt h s = Some (r, s') \<Longrightarrow> mfs_step s s'"
| step_map: "allocator_ok env s \<Longrightarrow> mfs_step s (snd (mms_map env h offset len access shared s))"
| step_unmap: "mfs_step s (snd (mms_unmap a len s))"
| step_store: "mfs_step s (store_mapped i bytes s)"

inductive mfs_reachable :: "state \<Rightarrow> bool" where
  initial: "mfs_reachable SHARED_INIT"
| step: "mfs_reachable s \<Longrightarrow> mfs_step s s' \<Longrightarrow> mfs_reachable s'"

section \<open>The first call makes the root\<close>

lemma acquire_idem [simp]: "acquire (acquire s) = acquire s"
  by (simp add: acquire_def)

lemma acquire_frame [simp]:
  "st_handles (acquire s) = st_handles s" "st_mappings (acquire s) = st_mappings s" "st_next_id (acquire s) = st_next_id s"
  by (simp_all add: acquire_def)

lemma allocator_ok_acquire [simp]: "allocator_ok env (acquire s) = allocator_ok env s"
proof -
  have "region (acquire s) = region s"
    by (rule ext, rename_tac o1, case_tac o1) (auto simp: acquire_def layout_def root_node_def)
  then show ?thesis by (simp add: allocator_ok_def)
qed

lemma fs_inv_initial: "fs_inv (acquire SHARED_INIT)"
proof -
  define t where "t = SHARED_INIT\<lparr>st_nodes := [ROOT \<mapsto> root_node]\<rparr>"
  have view: "view t = [ROOT \<mapsto> \<lparr>v_links = 1, v_opens = 0, v_maps = 0, v_body = VDir ROOT Map.empty\<rparr>]"
    by (auto simp: t_def view_def node_view_def root_node_def fun_eq_iff)
  have parent: "parent_of (view t) i = (if i = ROOT then Some ROOT else None)" for i by (simp add: view parent_of_def)
  have entry: "entry_of (view t) d n = None" for d n by (simp add: view entry_of_def)
  have reg: "region t o1 = None" for o1 by (cases o1) (simp_all add: t_def SHARED_INIT_def layout_def root_node_def)
  have "node_ok root_node" by (simp add: node_ok_def root_node_def locks_compatible_def)
  moreover have "memory_ok t" by (simp add: memory_ok_def reg del: region.simps)
  ultimately have "base_ok t" unfolding base_ok_def
    by (auto simp: nodes_ok_def used_ok_def ids_ok_def refs_ok_def counts_ok_def held_by_def
        shares_def size_at_def node_size_def t_def SHARED_INIT_def root_node_def simp del: region.simps split: if_splits)
  moreover have "tree_ok (view t)"
    by (rule tree_okI) (auto simp: entry parent names_of_def is_dir_def view [THEN fun_cong] split: if_splits intro: anchored.root)
  moreover have "garbage_free (view t)" by (simp add: view garbage_free_def kept_def)
  moreover have "working_ok t"
    using parent [of ROOT] by (simp add: working_ok_def is_dir_def) (simp add: t_def SHARED_INIT_def)
  moreover have "acquire SHARED_INIT = t" by (simp add: acquire_def t_def SHARED_INIT_def)
  ultimately show ?thesis by (simp add: fs_inv_def)
qed

text \<open>Every call takes the lock first, so it behaves as it does once the root exists.\<close>

lemma calls_acquire:
  "mfs_open env path fl mode (acquire s) = mfs_open env path fl mode s"
  "mfs_close h (acquire s) = mfs_close h s"
  "mfs_read_at env h offset n (acquire s) = mfs_read_at env h offset n s"
  "mfs_write_at env h offset data (acquire s) = mfs_write_at env h offset data s"
  "mfs_set_size env h n (acquire s) = mfs_set_size env h n s"
  "mfs_remove env path (acquire s) = mfs_remove env path s"
  "mfs_rename env old new (acquire s) = mfs_rename env old new s"
  "mfs_create_directory env path mode (acquire s) = mfs_create_directory env path mode s"
  "mfs_remove_directory env path (acquire s) = mfs_remove_directory env path s"
  "mfs_open_directory env path (acquire s) = mfs_open_directory env path s"
  "mfs_read_directory h buf (acquire s) = mfs_read_directory h buf s"
  "mfs_close_directory h (acquire s) = mfs_close_directory h s"
  "mfs_set_mode env path mode (acquire s) = mfs_set_mode env path mode s"
  "mfs_set_file_mode env h mode (acquire s) = mfs_set_file_mode env h mode s"
  "mfs_set_times env path follow accessed modified (acquire s) = mfs_set_times env path follow accessed modified s"
  "mfs_set_file_times env h accessed modified (acquire s) = mfs_set_file_times env h accessed modified s"
  "mfs_link env old new (acquire s) = mfs_link env old new s"
  "mfs_set_current_directory path (acquire s) = mfs_set_current_directory path s"
  "lock_attempt env h how (acquire s) = lock_attempt env h how s"
  "mfs_lock_range env h offset len how (acquire s) = mfs_lock_range env h offset len how s"
  "mws_close h (acquire s) = mws_close h s"
  "mws_remove env h watch (acquire s) = mws_remove env h watch s"
  "read_attempt h (acquire s) = read_attempt h s"
  "mms_map env h offset len access shared (acquire s) = mms_map env h offset len access shared s"
  "mms_unmap a len (acquire s) = mms_unmap a len s"
  by (simp_all only: acquire_idem mfs_open_def mfs_close_def mfs_read_at_def mfs_write_at_def mfs_set_size_def mfs_remove_def
      mfs_rename_def mfs_create_directory_def mfs_remove_directory_def mfs_open_directory_def mfs_read_directory_def
      mfs_close_directory_def mfs_set_mode_def mfs_set_file_mode_def mfs_set_times_def mfs_set_file_times_def mfs_link_def
      mfs_set_current_directory_def lock_attempt_def mfs_lock_range_def mws_close_def mws_remove_def read_attempt_def
      mms_map_def mms_unmap_def)

text \<open>Three calls may be refused before they take the lock.\<close>

lemma early_refusals:
  "snd (mfs_symlink env target new s) = s \<or> mfs_symlink env target new s = mfs_symlink env target new (acquire s)"
  "snd (mws_open env s) = s \<or> mws_open env s = mws_open env (acquire s)"
  "snd (mws_add env h path events s) = s \<or> mws_add env h path events s = mws_add env h path events (acquire s)"
proof -
  show "snd (mfs_symlink env target new s) = s \<or> mfs_symlink env target new s = mfs_symlink env target new (acquire s)"
    unfolding mfs_symlink_def acquire_idem by (simp only: split: if_split) simp
  show "snd (mws_open env s) = s \<or> mws_open env s = mws_open env (acquire s)"
    by (cases "queue_new env") (simp_all add: mws_open_def)
  show "snd (mws_add env h path events s) = s \<or> mws_add env h path events s = mws_add env h path events (acquire s)"
    unfolding mws_add_def acquire_idem by (cases "events AND REQUESTABLE = 0") (simp_all only: Let_def if_True if_False snd_conv refl simp_thms)
qed

section \<open>Every reachable state satisfies the invariant\<close>

lemma store_mapped_keep:
  assumes "fs_inv s"
  shows "fs_inv (store_mapped i bytes s)"
proof (cases "\<exists>nd p. st_nodes s i = Some nd \<and> nd_body nd = File (Pinned p) \<and> nd_maps nd \<noteq> 0 \<and> length bytes = p_capacity p")
  case True
  then obtain nd p where nd: "st_nodes s i = Some nd" "nd_body nd = File (Pinned p)" "nd_maps nd \<noteq> 0" "length bytes = p_capacity p"
    by blast
  note inv = fs_invD [OF assms]
  let ?p = "p\<lparr>p_bytes := bytes\<rparr>"
  let ?nd = "nd\<lparr>nd_body := File (Pinned ?p)\<rparr>"
  define s' where "s' = s\<lparr>st_nodes := (st_nodes s)(i \<mapsto> ?nd)\<rparr>"
  have "node_ok nd" using base_okD(1) [OF inv(1)] nd(1) by (simp add: nodes_ok_def)
  then have "node_ok ?nd" using nd by (simp add: node_ok_def pinned_ok_def)
  then have base: "base_ok s'" unfolding s'_def
    by (rule base_ok_put [OF inv(1) nd(1)]) (simp add: same_hold_def layout_def node_size_def is_file_def nd)
  have view: "view s' = v_upd i (set_bytes (content_bytes (Pinned ?p))) (view s)"
    by (auto simp: s'_def v_upd_def set_bytes_def view_def nd node_view_def fun_eq_iff)
  have "fs_inv s'"
    by (rule fs_inv_set_bytes [OF assms base _ _ _ view]) (simp_all add: s'_def file_bytes_node [OF nd(1,2)])
  then show ?thesis using nd by (simp add: store_mapped_def s'_def)
next
  case False
  then have "store_mapped i bytes s = s" by (auto simp: store_mapped_def split: option.split body.split content.split)
  then show ?thesis using assms by simp
qed

lemma keep_snd: "(\<And>r s'. call = (r, s') \<Longrightarrow> fs_inv s' \<and> P r s') \<Longrightarrow> fs_inv (acquire (snd call))"
  by (cases call) simp

lemma mfs_step_inv:
  assumes "mfs_step s s'" "fs_inv (acquire s)"
  shows "fs_inv (acquire s')"
  using assms
proof cases
  case step_look
  then show ?thesis using assms(2) by simp
next
  case step_capacity
  then show ?thesis using assms(2) by (simp add: set_capacity_def)
next
  case (step_open env path fl mode)
  then show ?thesis using keep_snd [OF mfs_open_spec [OF assms(2)]] by (simp add: calls_acquire)
next
  case (step_close h)
  then show ?thesis using keep_snd [OF mfs_close_spec [OF assms(2)]] by (simp add: calls_acquire)
next
  case (step_read env h offset n)
  then show ?thesis using keep_snd [OF mfs_read_at_spec [OF assms(2)]] by (simp add: calls_acquire)
next
  case (step_write env h offset data)
  then show ?thesis using keep_snd [OF mfs_write_at_spec [OF assms(2)]] by (simp add: calls_acquire)
next
  case (step_size env h n)
  then show ?thesis using keep_snd [OF mfs_set_size_spec [OF assms(2)]] by (simp add: calls_acquire)
next
  case (step_remove path env)
  then show ?thesis using keep_snd [OF mfs_remove_spec [OF assms(2)]] by (simp add: calls_acquire)
next
  case (step_rename old new env r)
  obtain r' t where "mfs_rename env old new (acquire s) = Some (r', t)" "fs_inv t"
    by (rule mfs_rename_spec [OF assms(2) step_rename(1,2)])
  then show ?thesis using step_rename(3) by (simp add: calls_acquire)
next
  case (step_create_directory path env mode)
  then show ?thesis using keep_snd [OF mfs_create_directory_spec [OF assms(2)]] by (simp add: calls_acquire)
next
  case (step_remove_directory path env)
  then show ?thesis using keep_snd [OF mfs_remove_directory_spec [OF assms(2)]] by (simp add: calls_acquire)
next
  case (step_open_directory env path)
  then show ?thesis using keep_snd [OF mfs_open_directory_keep [OF assms(2)]] by (simp add: calls_acquire)
next
  case (step_read_directory h buf)
  then show ?thesis using mfs_read_directory_keep [OF assms(2)]
    by (cases "mfs_read_directory h buf s") (fastforce simp: calls_acquire)
next
  case (step_close_directory h)
  then show ?thesis using mfs_close_directory_keep [OF assms(2)] by (simp add: calls_acquire)
next
  case (step_link old new env)
  then show ?thesis using keep_snd [OF mfs_link_spec [OF assms(2)]] by (simp add: calls_acquire)
next
  case (step_symlink target new env)
  have "fs_inv (acquire (snd (mfs_symlink env target new (acquire s))))"
    by (rule keep_snd [OF mfs_symlink_spec [OF assms(2) step_symlink(3,2)]])
  then show ?thesis using step_symlink(1) early_refusals(1) [of env target new s] assms(2) by auto
next
  case (step_working path)
  then show ?thesis using keep_snd [OF mfs_set_current_directory_spec [OF assms(2)]] by (simp add: calls_acquire)
next
  case (step_lock env h mode)
  then show ?thesis using lock_attempt_keep [OF assms(2)] by (simp add: calls_acquire)
next
  case (step_lock_range env h offset len mode)
  then show ?thesis using mfs_lock_range_keep [OF assms(2)] by (simp add: calls_acquire)
next
  case (step_watcher env)
  have "fs_inv (snd (mws_open env (acquire s)))" using mws_open_keep [OF assms(2), of env] step_watcher(2) by simp
  then show ?thesis using step_watcher(1) early_refusals(2) [of env s] assms(2) by auto
next
  case (step_unwatcher h)
  then show ?thesis using mws_close_keep [OF assms(2)] by (simp add: calls_acquire)
next
  case (step_watch env h path events)
  have "fs_inv (snd (mws_add env h path events (acquire s)))"
    using but_watchers_keep [OF mws_add_keep [OF assms(2)] assms(2)] by simp
  then show ?thesis using step_watch early_refusals(3) [of env h path events s] assms(2) by auto
next
  case (step_unwatch env h watch)
  then show ?thesis using but_watchers_keep [OF mws_remove_keep [OF assms(2)] assms(2)] by (simp add: calls_acquire)
next
  case (step_event h r)
  then show ?thesis using read_attempt_keep [OF assms(2)] by (simp add: calls_acquire)
next
  case (step_map env h offset len access shared)
  then show ?thesis using keep_snd [OF mms_map_spec [OF assms(2)]] by (simp add: calls_acquire)
next
  case (step_unmap a len)
  then show ?thesis using keep_snd [OF mms_unmap_spec [OF assms(2)]] by (simp add: calls_acquire)
next
  case (step_store i bytes)
  have "store_mapped i bytes s = s \<or> store_mapped i bytes s = store_mapped i bytes (acquire s)"
    by (cases "st_nodes s = Map.empty") (simp_all add: acquire_def store_mapped_def)
  then show ?thesis using step_store store_mapped_keep [OF assms(2), of i bytes] assms(2) by auto
next
  case (step_mode env path mode)
  have "fs_inv (snd (mfs_set_mode env path mode (acquire s)))" using attributes_keep [OF assms(2)] by blast
  then show ?thesis using step_mode by (simp add: calls_acquire)
next
  case (step_file_mode env h mode)
  have "fs_inv (snd (mfs_set_file_mode env h mode (acquire s)))" using attributes_keep [OF assms(2)] by blast
  then show ?thesis using step_file_mode by (simp add: calls_acquire)
next
  case (step_times env path follow accessed modified)
  have "fs_inv (snd (mfs_set_times env path follow accessed modified (acquire s)))" using attributes_keep [OF assms(2)] by blast
  then show ?thesis using step_times by (simp add: calls_acquire)
next
  case (step_file_times env h accessed modified)
  have "fs_inv (snd (mfs_set_file_times env h accessed modified (acquire s)))" using attributes_keep [OF assms(2)] by blast
  then show ?thesis using step_file_times by (simp add: calls_acquire)
qed

lemma mfs_reachable_inv: "mfs_reachable s \<Longrightarrow> fs_inv (acquire s)"
  by (induction rule: mfs_reachable.induct) (simp_all add: fs_inv_initial mfs_step_inv)

end
