(* ===== verification/Memfs_Sample.thy ===== *)
theory Memfs_Sample
  imports Memfs_Steps
begin

text \<open>
  A short run of the in-memory file system, computed by rewriting: the first call makes the root, a
  file \<open>/a\<close> is created and opened, and four bytes are written to it. The concrete instances of the
  properties use these states.
\<close>

definition sample_env :: env where
  "sample_env = \<lparr>e_clock = 7, e_box = 8, e_grant = \<lambda>_ _. True, e_pages = \<lambda>n. if n \<le> 65536 then Some 4096 else None\<rparr>"

definition sample_empty :: state where
  "sample_empty = acquire SHARED_INIT"

definition sample_path :: "byte list" where
  "sample_path = [SLASH, 97]"

definition sample_opened :: state where
  "sample_opened = snd (mfs_open sample_env sample_path (READ OR WRITE OR CREATE) 0x1A4 sample_empty)"

definition sample_written :: state where
  "sample_written = snd (mfs_write_at sample_env 8 0 [1, 2, 3, 4] sample_opened)"

lemma sample_empty_eq: "sample_empty = \<lparr>st_nodes = [1 \<mapsto> root_node], st_next_id = 2, st_used = 0,
    st_capacity = 67108864, st_working = 1, st_watchers = Map.empty, st_next_watcher = 1, st_cookie = 0,
    st_mappings = Map.empty, st_handles = Map.empty\<rparr>"
  by (simp add: sample_empty_def acquire_def SHARED_INIT_def ROOT_def numeral_2_eq_2)

lemma sample_walk: "walk sample_empty sample_path Follow = Inr \<lparr>pl_parent = 1, pl_name = [97], pl_node = None, pl_slash = False\<rparr>"
  by (simp add: sample_empty_eq walk_def sample_path_def walk_loop.simps get_entries_def get_node_def root_node_def
      ROOT_def ok_or_def r_bind_def Let_def)

lemma sample_open_eq:
  "mfs_open sample_env sample_path (READ OR WRITE OR CREATE) 0x1A4 sample_empty = (Inr 8, \<lparr>st_nodes =
     [1 \<mapsto> root_node\<lparr>nd_modified := 7, nd_changed := 7, nd_body := Directory 1 [([97], 2)]\<rparr>,
      2 \<mapsto> (new_node 0x1A4 (File (Plain [])) 7)\<lparr>nd_opens := 1\<rparr>], st_next_id = 3, st_used = 0,
    st_capacity = 67108864, st_working = 1, st_watchers = Map.empty, st_next_watcher = 1, st_cookie = 0,
    st_mappings = Map.empty, st_handles = [8 \<mapsto> FileHandle 2 (READ OR WRITE)]\<rparr>)"
proof -
  have "acquire sample_empty = sample_empty" by (simp add: sample_empty_def)
  then have "mfs_open sample_env sample_path (READ OR WRITE OR CREATE) 0x1A4 sample_empty =
      and_then (open_node sample_env (READ OR WRITE OR CREATE) 0x1A4 7
          \<lparr>pl_parent = 1, pl_name = [97], pl_node = None, pl_slash = False\<rparr> sample_empty) (\<lambda>node s.
        and_then (update_node node (\<lambda>nd. nd\<lparr>nd_opens := nd_opens nd + 1\<rparr>) s) (\<lambda>_ s.
        new_handle sample_env (FileHandle node (READ OR WRITE)) s))"
    by (simp add: mfs_open_def sample_walk) (simp add: sample_env_def)
  then show ?thesis
    by (simp add: open_node_def sample_empty_eq create_def update_entries_def touch_def update_node_def Let_def new_handle_def
        is_directory_def node_kind_def get_node_def new_node_def root_node_def sample_env_def ok_or_def r_bind_def report_entry_def ROOT_def)
qed

lemmas sample_opened_eq = sample_opened_def [unfolded sample_open_eq snd_conv]

lemma sample_open_run: "mfs_open sample_env sample_path 7 0x1A4 sample_empty = (Inr 8, sample_opened)"
  using sample_open_eq by (simp add: sample_opened_def)

lemma sample_write_eq:
  "mfs_write_at sample_env 8 0 [1, 2, 3, 4] sample_opened = (Inr 4, sample_opened\<lparr>st_nodes := (st_nodes sample_opened)
     (2 \<mapsto> (new_node 0x1A4 (File (Plain [1, 2, 3, 4])) 7)\<lparr>nd_opens := 1\<rparr>), st_used := 4\<rparr>)"
  by (simp add: mfs_write_at_def sample_opened_eq acquire_def file_node_def borrow_def ok_or_def r_bind_def change_def
      content_simps checked_add_def width_simps Let_def overwrite_def sample_env_def new_node_def report_def)

lemmas sample_written_eq = sample_written_def [unfolded sample_write_eq snd_conv]

text \<open>The allocator answers with memory nobody has, and with a handle nobody holds.\<close>

lemma sample_allocator: "allocator_ok sample_env sample_empty" "allocator_ok (sample_env\<lparr>e_box := 16\<rparr>) sample_written"
proof -
  have "region sample_empty o1 = None" for o1
    by (cases o1) (simp_all add: sample_empty_eq layout_def root_node_def)
  then show "allocator_ok sample_env sample_empty"
    by (simp add: allocator_ok_def sample_env_def sample_empty_eq width_simps del: region.simps)
  have "region sample_written o1 = None" for o1
    by (cases o1) (simp_all add: sample_written_eq sample_opened_eq layout_def root_node_def new_node_def)
  then show "allocator_ok (sample_env\<lparr>e_box := 16\<rparr>) sample_written"
    by (simp add: allocator_ok_def sample_env_def sample_written_eq sample_opened_eq width_simps del: region.simps)
qed

lemma sample_reachable: "mfs_reachable sample_empty" "mfs_reachable sample_opened" "mfs_reachable sample_written"
proof -
  show 1: "mfs_reachable sample_empty"
    unfolding sample_empty_def by (rule mfs_reachable.step [OF mfs_reachable.initial step_look])
  show 2: "mfs_reachable sample_opened"
    unfolding sample_opened_def
    by (intro mfs_reachable.step [OF 1 step_open]) (simp_all add: sample_path_def sample_allocator)
  show "mfs_reachable sample_written"
    unfolding sample_written_def by (rule mfs_reachable.step [OF 2 step_write])
qed

lemma sample_inv: "fs_inv sample_empty" "fs_inv sample_opened" "fs_inv sample_written"
proof -
  have "acquire sample_empty = sample_empty" "acquire sample_opened = sample_opened" "acquire sample_written = sample_written"
    by (simp_all add: sample_empty_eq sample_opened_eq sample_written_eq acquire_def)
  then show "fs_inv sample_empty" "fs_inv sample_opened" "fs_inv sample_written"
    using mfs_reachable_inv [OF sample_reachable(1)] mfs_reachable_inv [OF sample_reachable(2)]
      mfs_reachable_inv [OF sample_reachable(3)] by simp_all
qed

end
