(* ===== verification/Memfs_Port.thy ===== *)
theory Memfs_Port
  imports Memfs_Sample
begin

text \<open>
  The in-memory file system behind the checked front ends: the four provider records of \<open>MemFs\<close>
  (\<open>impl Files\<close>, \<open>impl Watches\<close>, \<open>impl Mappings\<close> and \<open>impl Volumes\<close> in
  \<open>crates/dotnet-pal-memfs/src/lib.rs\<close>) and what a caller of the table sees through them. Every
  call of the table keeps the file system reachable, because the checks of the front ends are what
  the provider relies on; what is written through the table is read back through it.
\<close>

section \<open>The providers\<close>

text \<open>\<open>envs n\<close> and \<open>others n\<close> are what the \<open>n\<close>-th attempt of a waiting lock meets; other calls make one attempt.\<close>

definition memfs_files :: "(nat \<Rightarrow> env) \<Rightarrow> (nat \<Rightarrow> state \<Rightarrow> state) \<Rightarrow> state files_provider" where
  "memfs_files envs others =
     (let env = envs 0 in
     \<lparr>fp_open = (\<lambda>path fl mode s. Some (mfs_open env path fl mode s)),
      fp_close = (\<lambda>h s. Some (mfs_close h s)),
      fp_read_at = (\<lambda>h offset out s. Some (case mfs_read_at env h offset (length out) s of
        (Inr bytes, s') \<Rightarrow> (Inr (length bytes), overwrite out 0 bytes, s') | (Inl e, s') \<Rightarrow> (Inl e, out, s'))),
      fp_write_at = (\<lambda>h offset data s. Some (mfs_write_at env h offset data s)),
      fp_set_size = (\<lambda>h n s. Some (mfs_set_size env h n s)),
      fp_flush = (\<lambda>h s. Some (mfs_flush h s)),
      fp_status = (\<lambda>h s. Some (mfs_status h s)),
      fp_path_status = (\<lambda>path follow s. Some (mfs_path_status path follow s)),
      fp_remove = (\<lambda>path s. Some (mfs_remove env path s)),
      fp_rename = mfs_rename env,
      fp_create_directory = (\<lambda>path mode s. Some (mfs_create_directory env path mode s)),
      fp_remove_directory = (\<lambda>path s. Some (mfs_remove_directory env path s)),
      fp_open_directory = (\<lambda>path s. Some (mfs_open_directory env path s)),
      fp_read_directory = (\<lambda>h out s. Some (mfs_read_directory h out s)),
      fp_close_directory = (\<lambda>h s. Some (mfs_close_directory h s)),
      fp_current_directory = mfs_current_directory,
      fp_set_mode = (\<lambda>path mode s. Some (mfs_set_mode env path mode s)),
      fp_set_file_mode = (\<lambda>h mode s. Some (mfs_set_file_mode env h mode s)),
      fp_set_times = (\<lambda>path follow accessed modified s. Some (mfs_set_times env path follow accessed modified s)),
      fp_set_file_times = (\<lambda>h accessed modified s. Some (mfs_set_file_times env h accessed modified s)),
      fp_link = (\<lambda>existing created s. Some (mfs_link env existing created s)),
      fp_symlink = (\<lambda>target created s. Some (mfs_symlink env target created s)),
      fp_read_link = (\<lambda>path out s. Some (mfs_read_link path out s)),
      fp_real_path = mfs_real_path,
      fp_set_current_directory = (\<lambda>path s. Some (mfs_set_current_directory path s)),
      fp_lock = mfs_lock envs others 0,
      fp_lock_range = (\<lambda>h offset len mode s. Some (mfs_lock_range env h offset len mode s))\<rparr>)"

definition memfs_watches :: "env \<Rightarrow> waiting \<Rightarrow> state watches_provider" where
  "memfs_watches env wt =
     \<lparr>wp_open = mws_open env, wp_close = mws_close, wp_add = mws_add env, wp_remove = mws_remove env, wp_read = mws_read wt\<rparr>"

definition memfs_mappings :: "env \<Rightarrow> state mappings_provider" where
  "memfs_mappings env =
     \<lparr>mp_map = (\<lambda>h offset len access shared s. map_prod (map_sum id fst) id (mms_map env h offset len access shared s)),
      mp_unmap = mms_unmap, mp_sync = mms_sync\<rparr>"

definition memfs_volumes :: "state volumes_provider" where
  "memfs_volumes =
     \<lparr>vp_entry = (\<lambda>index out s. case mvs_entry index out of (r, out') \<Rightarrow> (r, out', s)), vp_status = mvs_status\<rparr>"

lemmas memfs_provider_defs = memfs_files_def memfs_watches_def memfs_mappings_def memfs_volumes_def Let_def

text \<open>The one volume is called \<open>/\<close>: the provider keeps the contract of a text.\<close>

interpretation root_volume: text_provider "mvs_entry 0" "[SLASH]" "MAX_NAME + 1"
  by unfold_locales (auto simp: mvs_entry_def overwrite_def)

section \<open>Waiting calls\<close>

text \<open>The rest of the program acts on the file system by its own calls.\<close>

definition others_ok :: "(nat \<Rightarrow> state \<Rightarrow> state) \<Rightarrow> bool" where
  "others_ok others \<longleftrightarrow> (\<forall>n t. mfs_reachable t \<longrightarrow> mfs_reachable (others n t))"

lemma mfs_lock_reachable:
  assumes "mfs_lock envs others n h mode wait s = Some out" "mfs_reachable s" "others_ok others"
  shows "mfs_reachable (snd out)"
  using assms
proof (induction rule: mfs_lock.raw_induct [rotated 1, consumes 1])
  case (1 again envs others n h mode wait s out)
  have "mfs_reachable (snd (lock_attempt (envs n) h mode s))"
    using mfs_reachable.step [OF "1.prems"(1) step_lock] .
  then show ?case using 1 by (auto simp: split_beta others_ok_def split: if_splits)
qed

lemma mws_read_reachable:
  assumes "mws_read_loop wt n watcher timeout left deadline event s = Some out" "mfs_reachable s" "others_ok (w_others wt)"
  shows "mfs_reachable (snd (snd out))"
  using assms
proof (induction rule: mws_read_loop.raw_induct [rotated 1, consumes 1])
  case (1 again wt n watcher timeout left deadline event s out)
  then obtain r t where a: "read_attempt watcher s = Some (r, t)" by (auto simp: bind_eq_Some_conv)
  then have "mfs_reachable t" using mfs_reachable.step [OF "1.prems"(1) step_event] by blast
  then show ?case using 1 a by (auto simp: others_ok_def split: sum.splits option.splits if_splits)
qed

section \<open>Calls of the table\<close>

text \<open>
  One call through the table on the file system: any entry point that reaches the provider, with any
  arguments. \<open>envs\<close> and \<open>others\<close> are what the call meets, \<open>wt\<close> what a waiting read meets.
\<close>

inductive table_call :: "(nat \<Rightarrow> env) \<Rightarrow> (nat \<Rightarrow> state \<Rightarrow> state) \<Rightarrow> waiting \<Rightarrow> state \<Rightarrow> state \<Rightarrow> bool"
  for envs others wt where
  call_open: "files_open (memfs_files envs others) path len bytes fl mode out cell cs s = Some (c, h, s') \<Longrightarrow>
    table_call envs others wt s s'"
| call_close: "files_close (memfs_files envs others) h cs s = Some (c, s') \<Longrightarrow> table_call envs others wt s s'"
| call_read: "files_read_at (memfs_files envs others) h offset data buf got cell cs s = Some (c, n, buf', s') \<Longrightarrow>
    table_call envs others wt s s'"
| call_write: "files_write_at (memfs_files envs others) h offset data bytes written cell cs s = Some (c, n, s') \<Longrightarrow>
    table_call envs others wt s s'"
| call_size: "files_set_size (memfs_files envs others) h n cs s = Some (c, s') \<Longrightarrow> table_call envs others wt s s'"
| call_remove: "files_remove (memfs_files envs others) path len bytes cs s = Some (c, s') \<Longrightarrow> table_call envs others wt s s'"
| call_rename: "files_rename (memfs_files envs others) a alen abytes b blen bbytes cs s = Some (c, s') \<Longrightarrow>
    table_call envs others wt s s'"
| call_create_directory: "files_directory_create (memfs_files envs others) path len bytes mode cs s = Some (c, s') \<Longrightarrow>
    table_call envs others wt s s'"
| call_remove_directory: "files_directory_remove (memfs_files envs others) path len bytes cs s = Some (c, s') \<Longrightarrow>
    table_call envs others wt s s'"
| call_open_directory: "files_directory_open (memfs_files envs others) path len bytes out cell cs s = Some (c, h, s') \<Longrightarrow>
    table_call envs others wt s s'"
| call_close_directory: "files_directory_close (memfs_files envs others) h cs s = Some (c, s') \<Longrightarrow>
    table_call envs others wt s s'"
| call_working: "files_set_current_directory (memfs_files envs others) path len bytes cs s = Some (c, s') \<Longrightarrow>
    table_call envs others wt s s'"
| call_mode: "files_set_mode (memfs_files envs others) path len bytes mode cs s = Some (c, s') \<Longrightarrow>
    table_call envs others wt s s'"
| call_file_mode: "files_set_file_mode (memfs_files envs others) h mode cs s = Some (c, s') \<Longrightarrow>
    table_call envs others wt s s'"
| call_times: "files_set_times (memfs_files envs others) path len bytes follow accessed modified cs s = Some (c, s') \<Longrightarrow>
    table_call envs others wt s s'"
| call_file_times: "files_set_file_times (memfs_files envs others) h accessed modified cs s = Some (c, s') \<Longrightarrow>
    table_call envs others wt s s'"
| call_link: "files_link (memfs_files envs others) a alen abytes b blen bbytes cs s = Some (c, s') \<Longrightarrow>
    table_call envs others wt s s'"
| call_symlink: "files_symlink (memfs_files envs others) a alen abytes b blen bbytes cs s = Some (c, s') \<Longrightarrow>
    table_call envs others wt s s'"
| call_lock: "files_lock (memfs_files envs others) h mode wait cs s = Some (c, s') \<Longrightarrow> table_call envs others wt s s'"
| call_lock_range: "files_lock_range (memfs_files envs others) h offset len mode cs s = Some (c, s') \<Longrightarrow>
    table_call envs others wt s s'"
| call_flush: "files_flush (memfs_files envs others) h cs s = Some (c, s') \<Longrightarrow> table_call envs others wt s s'"
| call_status: "files_status (memfs_files envs others) h out sz fcell cs s = Some (c, v, s') \<Longrightarrow> table_call envs others wt s s'"
| call_path_status: "files_path_status (memfs_files envs others) path len bytes follow out sz fcell cs s = Some (c, v, s') \<Longrightarrow>
    table_call envs others wt s s'"
| call_current_directory: "files_current_directory (memfs_files envs others) out buf needed cell cs s = Some (c, n, buf', s') \<Longrightarrow>
    table_call envs others wt s s'"
| call_read_link: "files_read_link (memfs_files envs others) path len bytes out buf needed cell cs s = Some (c, n, buf', s') \<Longrightarrow>
    table_call envs others wt s s'"
| call_real_path: "files_real_path (memfs_files envs others) path len bytes out buf needed cell cs s = Some (c, n, buf', s') \<Longrightarrow>
    table_call envs others wt s s'"
| call_list: "files_directory_read (memfs_files envs others) h name buf len lcell kind kcell cs s = Some (c, l, k, buf', s') \<Longrightarrow>
    table_call envs others wt s s'"
| call_sync: "mappings_sync (memfs_mappings (envs 0)) a len cs s = (c, s') \<Longrightarrow> table_call envs others wt s s'"
| call_volume: "volumes_entry memfs_volumes index out buf needed cell cs s = (c, n, buf', s') \<Longrightarrow> table_call envs others wt s s'"
| call_volume_status: "volumes_status memfs_volumes path len bytes out sz vcell cs s = (c, v, s') \<Longrightarrow> table_call envs others wt s s'"
| call_watcher: "watches_open (memfs_watches (envs 0) wt) out cell cs s = (c, h, s') \<Longrightarrow> table_call envs others wt s s'"
| call_unwatcher: "watches_close (memfs_watches (envs 0) wt) h cs s = (c, s') \<Longrightarrow> table_call envs others wt s s'"
| call_watch: "watches_add (memfs_watches (envs 0) wt) h path len bytes events out wcell cs s = (c, w, s') \<Longrightarrow>
    table_call envs others wt s s'"
| call_unwatch: "watches_remove (memfs_watches (envs 0) wt) h w cs s = (c, s') \<Longrightarrow> table_call envs others wt s s'"
| call_event: "watches_read (memfs_watches (envs 0) wt) h timeout out sz ecell cs s = Some (c, e, s') \<Longrightarrow>
    table_call envs others wt s s'"
| call_map: "mappings_map (memfs_mappings (envs 0)) h offset len access mmode out cell cs s = (c, a, s') \<Longrightarrow>
    table_call envs others wt s s'"
| call_unmap: "mappings_unmap (memfs_mappings (envs 0)) a len cs s = (c, s') \<Longrightarrow> table_call envs others wt s s'"

text \<open>Every call is nothing, a step of the file system, or a wait made of steps.\<close>

lemma path_call_step:
  assumes "files_path_call index ok f path len bytes cs s = Some (c, s')"
    and "\<And>p r. 0 \<notin> set p \<Longrightarrow> f p s = Some (r, s') \<Longrightarrow> mfs_step s s'"
  shows "s' = s \<or> mfs_step s s'"
  using assms by (auto simp: files_path_call_def files_refuse_def files_done_def io_path_Some_iff split: option.splits if_splits)

lemma two_paths_step:
  assumes "files_two_paths index f a alen abytes b blen bbytes cs s = Some (c, s')"
    and "\<And>p q r. 0 \<notin> set p \<Longrightarrow> 0 \<notin> set q \<Longrightarrow> f p q s = Some (r, s') \<Longrightarrow> mfs_step s s'"
  shows "s' = s \<or> mfs_step s s'"
  using assms by (auto simp: files_two_paths_def files_refuse_def files_done_def io_path_Some_iff split: option.splits)

lemmas files_call_defs = files_open_def files_close_def files_read_at_def files_write_at_def files_set_size_def
  files_directory_open_def files_directory_close_def files_set_file_mode_def files_set_times_def files_set_file_times_def
  files_lock_range_def files_refuse_def files_done_def memfs_provider_defs

lemmas files_name_call_defs = files_remove_def files_rename_def files_directory_create_def files_directory_remove_def
  files_set_current_directory_def files_set_mode_def files_link_def files_symlink_def memfs_provider_defs

lemma snd_step: "mfs_step s (snd x) \<Longrightarrow> x = (r, s') \<Longrightarrow> mfs_step s s'"
  by simp

lemma table_call_files:
  assumes "allocator_ok (envs 0) s"
  shows "files_open (memfs_files envs others) path len bytes fl mode out cell cs s = Some (c, h, s') \<Longrightarrow> s' = s \<or> mfs_step s s'"
    and "files_close (memfs_files envs others) h cs s = Some (c, s') \<Longrightarrow> s' = s \<or> mfs_step s s'"
    and "files_read_at (memfs_files envs others) h offset data buf got cell cs s = Some (c, n, buf', s') \<Longrightarrow> s' = s \<or> mfs_step s s'"
    and "files_write_at (memfs_files envs others) h offset data bytes written cell cs s = Some (c, n, s') \<Longrightarrow> s' = s \<or> mfs_step s s'"
    and "files_set_size (memfs_files envs others) h n cs s = Some (c, s') \<Longrightarrow> s' = s \<or> mfs_step s s'"
    and "files_directory_open (memfs_files envs others) path len bytes out cell cs s = Some (c, h, s') \<Longrightarrow> s' = s \<or> mfs_step s s'"
    and "files_directory_close (memfs_files envs others) h cs s = Some (c, s') \<Longrightarrow> s' = s \<or> mfs_step s s'"
    and "files_set_file_mode (memfs_files envs others) h m cs s = Some (c, s') \<Longrightarrow> s' = s \<or> mfs_step s s'"
    and "files_set_times (memfs_files envs others) path len bytes follow accessed modified cs s = Some (c, s') \<Longrightarrow> s' = s \<or> mfs_step s s'"
    and "files_set_file_times (memfs_files envs others) h accessed modified cs s = Some (c, s') \<Longrightarrow> s' = s \<or> mfs_step s s'"
    and "files_lock_range (memfs_files envs others) h offset len lmode cs s = Some (c, s') \<Longrightarrow> s' = s \<or> mfs_step s s'"
  using assms
  by (auto simp: files_call_defs io_path_Some_iff split_beta split: option.splits if_splits sum.splits prod.splits
      intro: step_open step_close step_read step_write step_size step_open_directory step_close_directory step_file_mode
        step_times step_file_times step_lock_range)

lemma table_call_names:
  shows "files_remove (memfs_files envs others) path len bytes cs s = Some (c, s') \<Longrightarrow> s' = s \<or> mfs_step s s'"
    and "files_rename (memfs_files envs others) a alen abytes b blen bbytes cs s = Some (c, s') \<Longrightarrow> s' = s \<or> mfs_step s s'"
    and "files_directory_create (memfs_files envs others) path len bytes mode cs s = Some (c, s') \<Longrightarrow> s' = s \<or> mfs_step s s'"
    and "files_directory_remove (memfs_files envs others) path len bytes cs s = Some (c, s') \<Longrightarrow> s' = s \<or> mfs_step s s'"
    and "files_set_current_directory (memfs_files envs others) path len bytes cs s = Some (c, s') \<Longrightarrow> s' = s \<or> mfs_step s s'"
    and "files_set_mode (memfs_files envs others) path len bytes mode cs s = Some (c, s') \<Longrightarrow> s' = s \<or> mfs_step s s'"
    and "files_link (memfs_files envs others) a alen abytes b blen bbytes cs s = Some (c, s') \<Longrightarrow> s' = s \<or> mfs_step s s'"
    and "files_symlink (memfs_files envs others) a alen abytes b blen bbytes cs s = Some (c, s') \<Longrightarrow> s' = s \<or> mfs_step s s'"
  by (auto simp: files_name_call_defs dest!: path_call_step two_paths_step
      intro: snd_step [OF step_remove] step_rename snd_step [OF step_create_directory] snd_step [OF step_remove_directory]
        snd_step [OF step_working] snd_step [OF step_mode] snd_step [OF step_link] snd_step [OF step_symlink])

lemma table_call_watches:
  assumes "allocator_ok env s"
  shows "watches_open (memfs_watches env wt) out cell cs s = (c, h, s') \<Longrightarrow> s' = s \<or> mfs_step s s'"
    and "watches_close (memfs_watches env wt) h cs s = (c, s') \<Longrightarrow> s' = s \<or> mfs_step s s'"
    and "watches_add (memfs_watches env wt) h path len bytes events out wcell cs s = (c, w, s') \<Longrightarrow> s' = s \<or> mfs_step s s'"
    and "watches_remove (memfs_watches env wt) h w cs s = (c, s') \<Longrightarrow> s' = s \<or> mfs_step s s'"
    and "mappings_map (memfs_mappings env) h offset len access mmode out cell cs s = (c, a, s') \<Longrightarrow> s' = s \<or> mfs_step s s'"
    and "mappings_unmap (memfs_mappings env) a len cs s = (c, s') \<Longrightarrow> s' = s \<or> mfs_step s s'"
  using assms
  by (auto simp: watches_open_def watches_close_def watches_add_def watches_remove_def mappings_map_def mappings_unmap_def
      memfs_provider_defs split_beta split: option.splits if_splits sum.splits prod.splits
      intro: step_watcher step_unwatcher step_watch step_unwatch step_map step_unmap)

text \<open>Calls that only look take the lock, which makes the root if there is none yet.\<close>

lemma and_then_look: "snd (and_then (r, s) f) = s" if "\<And>x. snd (f x s) = s"
  using that by (cases r) (auto simp: and_then_def)

lemma look_states:
  "snd (mfs_flush h s) = acquire s" "snd (mfs_status h s) = acquire s" "snd (mfs_path_status path follow s) = acquire s"
  "mfs_current_directory out s = Some (r, out', s') \<Longrightarrow> s' = acquire s"
  "snd (snd (mfs_read_link path out s)) = acquire s"
  "mfs_real_path path out s = Some (r, out', s') \<Longrightarrow> s' = acquire s"
  "snd (mms_sync a len s) = acquire s" "snd (mvs_status path s) = acquire s"
  by (auto simp: mfs_flush_def mfs_status_def mfs_path_status_def mfs_current_directory_def mfs_read_link_def mfs_real_path_def
      mms_sync_def mvs_status_def and_then_look Let_def split: sum.splits prod.splits option.splits body.splits)

lemma files_text_state:
  assumes "files_text index buf cs f s = Some (c, n, buf', s')" "\<And>out r out' t. f out s = Some (r, out', t) \<Longrightarrow> t = u"
  shows "s' = u"
  using assms by (auto simp: files_text_def split_beta split: prod.splits)

lemma table_call_looks:
  shows "files_flush (memfs_files envs others) h cs s = Some (c, s') \<Longrightarrow> s' = s \<or> s' = acquire s"
    and "files_status (memfs_files envs others) h out sz fcell cs s = Some (c, v, s') \<Longrightarrow> s' = s \<or> s' = acquire s"
    and "files_path_status (memfs_files envs others) path len bytes follow out sz fcell cs s = Some (c, v, s') \<Longrightarrow> s' = s \<or> s' = acquire s"
    and "mappings_sync (memfs_mappings (envs 0)) a len cs s = (c, s') \<Longrightarrow> s' = s \<or> s' = acquire s"
    and "volumes_entry memfs_volumes index out buf needed cell cs s = (c, n, buf', s') \<Longrightarrow> s' = s \<or> s' = acquire s"
    and "volumes_status memfs_volumes path len bytes out sz vcell cs s = (c, vv, s') \<Longrightarrow> s' = s \<or> s' = acquire s"
    and "files_current_directory (memfs_files envs others) out buf needed cell cs s = Some (c, n, buf', s') \<Longrightarrow> s' = s \<or> s' = acquire s"
    and "files_read_link (memfs_files envs others) path len bytes out buf needed cell cs s = Some (c, n, buf', s') \<Longrightarrow> s' = s \<or> s' = acquire s"
    and "files_real_path (memfs_files envs others) path len bytes out buf needed cell cs s = Some (c, n, buf', s') \<Longrightarrow> s' = s \<or> s' = acquire s"
  subgoal by (auto simp: files_flush_def files_refuse_def files_done_def memfs_provider_defs look_states split_beta split: if_splits)
  subgoal by (auto simp: files_status_def memfs_provider_defs look_states split_beta split: if_splits)
  subgoal by (auto simp: files_path_status_def memfs_provider_defs look_states split_beta split: if_splits option.splits)
  subgoal by (auto simp: mappings_sync_def memfs_provider_defs look_states split_beta split: if_splits)
  subgoal by (auto simp: volumes_entry_def memfs_provider_defs split: if_splits prod.splits)
  subgoal by (auto simp: volumes_status_def memfs_provider_defs look_states split_beta split: if_splits option.splits sum.splits prod.splits)
  subgoal by (auto simp: files_current_directory_def memfs_provider_defs look_states dest!: files_text_state [where u = "acquire s"] split: if_splits)
  subgoal using look_states(5)
    by (auto simp: files_read_link_def path_text_def memfs_provider_defs prod_eq_iff dest!: files_text_state [where u = "acquire s"] split: if_splits option.splits)
  subgoal by (auto simp: files_real_path_def path_text_def memfs_provider_defs look_states dest!: files_text_state [where u = "acquire s"] split: if_splits option.splits)
  done

lemma listing_reachable:
  assumes "directory_read_loop (memfs_files envs others) h capacity s = Some out" "mfs_reachable s"
  shows "mfs_reachable (snd (snd (snd (snd out))))"
proof -
  have "fp = memfs_files envs others \<Longrightarrow> mfs_reachable s \<Longrightarrow> mfs_reachable (snd (snd (snd (snd out))))"
    if "directory_read_loop fp h capacity s = Some out" for fp h capacity s out
    using that
  proof (induction rule: directory_read_loop.raw_induct [rotated 1, consumes 1])
    case (1 loop fp h capacity s out)
    have "mfs_reachable (snd (snd (mfs_read_directory h (replicate capacity 0) s)))"
      using mfs_reachable.step [OF "1.prems"(2) step_read_directory] .
    then show ?case using 1
      by (auto simp: bind_eq_Some_conv directory_read_once_def memfs_provider_defs split_beta split: sum.splits if_splits)
  qed
  then show ?thesis using assms by blast
qed

lemma table_call_reachable:
  assumes "table_call envs others wt s s'" "mfs_reachable s" "allocator_ok (envs 0) s" "others_ok others" "others_ok (w_others wt)"
  shows "mfs_reachable s'"
proof -
  have step: "mfs_reachable s'" if "s' = s \<or> mfs_step s s'" using that assms(2) mfs_reachable.step by blast
  have look: "mfs_reachable s'" if "s' = s \<or> s' = acquire s" using that assms(2) mfs_reachable.step step_look by blast
  from assms(1) show ?thesis
  proof cases
    case (call_lock h mode wait cs c)
    then show ?thesis using mfs_lock_reachable [OF _ assms(2,4)] assms(2)
      by (fastforce simp: files_lock_def files_refuse_def memfs_provider_defs split: if_splits)
  next
    case (call_event h timeout out sz ecell cs c e)
    then show ?thesis using mws_read_reachable [OF _ assms(2,5)] assms(2)
      by (fastforce simp: watches_read_def mws_read_def memfs_provider_defs split: if_splits)
  next
    case (call_list h name buf len lcell kind kcell cs c l k buf')
    then show ?thesis using listing_reachable [OF _ assms(2)] assms(2)
      by (fastforce simp: files_directory_read_def Let_def split: if_splits)
  qed ((rule look, erule table_call_looks) | (rule step, erule table_call_files [of envs, OF assms(3)] table_call_watches [OF assms(3)] table_call_names))+
qed

section \<open>Written and read back\<close>

lemma file_read_written: "file_read (file_write bs offset data) offset (length data) = data"
proof -
  have "length (take offset (file_resize bs (max (length bs) (offset + length data)))) = offset"
    by (simp add: file_resize_def)
  then show ?thesis by (simp add: file_read_def file_write_def overwrite_def Let_def)
qed

lemma mfs_read_at_returns:
  assumes "fs_inv s" "file_node s h READ = Inr i" "offset \<le> USIZE_MAX"
  shows "\<exists>bs s'. file_bytes (view s) i = Some bs \<and> mfs_read_at env h offset n s = (Inr (file_read bs offset n), s')"
proof -
  obtain nd c where nd: "st_nodes s i = Some nd" "nd_body nd = File c" "content_ok c"
    by (rule file_node_file [OF assms(1,2)])
  then have "get_content s i = Inr c" by (simp add: get_content_def get_node_def)
  then have "\<exists>bytes s'. mfs_read_at env h offset n s = (Inr bytes, s')" using assms by (simp add: mfs_read_at_def Let_def)
  then show ?thesis using mfs_read_at_spec [OF assms(1)] assms(2,3) by fastforce
qed

lemma files_write_at_OK:
  assumes "files_write_at (memfs_files envs others) h offset data bytes written cell cs s = Some ((OK, cs'), n, s')" "bytes \<noteq> []"
  shows "mfs_write_at (envs 0) h offset bytes s = (Inr n, s') \<and> h \<noteq> 0 \<and> offset + length bytes \<le> I64_MAX"
  using assms
  by (auto simp: files_write_at_def memfs_provider_defs split_beta prod_eq_iff files_rec.OK_iff split: if_splits sum.splits)

lemma write_read_back:
  assumes "fs_inv s" "st_handles s h = Some (FileHandle i a)" "a AND READ = READ" "bytes \<noteq> []"
    and "files_write_at (memfs_files envs others) h offset data bytes written cell cs s = Some ((OK, cs1), n, s1)"
    and "aligned_output got 8" "valid_buffer into (length buf)" "length buf = length bytes"
  shows "n = length bytes \<and> (\<exists>cs2 s2. files_read_at (memfs_files envs' others') h offset into buf got cell' cs1 s1
    = Some ((OK, cs2), length bytes, bytes, s2))"
proof -
  note ok = files_write_at_OK [OF assms(5,4)]
  obtain bs where w: "n = length bytes" "fs_inv s1" "st_handles s1 = st_handles s" "file_bytes (view s) i = Some bs"
      "view s1 = v_upd i (set_bytes (file_write bs offset bytes)) (view s)"
    using mfs_write_at_spec [OF assms(1) conjunct1 [OF ok]] assms(2)
    by (auto simp: file_node_def borrow_def r_bind_def ok_or_def split: if_splits sum.splits)
  have "h mod 8 = 0" using refs_okD(3) [OF base_okD(4) [OF fs_invD(1) [OF assms(1)]] assms(2)] by (simp add: handle_ok_def)
  then have node: "file_node s1 h READ = Inr i" using ok assms(2,3) w(3) by (simp add: file_node_def borrow_def ok_or_def r_bind_def)
  have at: "offset \<le> USIZE_MAX" "\<not> I64_MAX < offset" using ok by (auto simp: width_simps)
  have "file_bytes (view s1) i = Some (file_write bs offset bytes)"
    using w(4,5) by (auto simp: file_bytes_def v_upd_def set_bytes_def simp del: view_None_iff not_None_eq split: option.splits)
  then obtain s2 where "mfs_read_at (envs' 0) h offset (length buf) s1 = (Inr bytes, s2)"
    using mfs_read_at_returns [OF w(2) node at(1), of "envs' 0" "length buf"] file_read_written assms(8) by auto
  then have "files_read_at (memfs_files envs' others') h offset into buf got cell' cs1 s1
      = Some (files_record OK 2 cs1, length bytes, bytes, s2)"
    using ok at assms(4,6,7,8) by (simp add: files_read_at_def memfs_provider_defs overwrite_def)
  then show ?thesis using w(1) files_rec.OK_iff by (metis prod.collapse)
qed

section \<open>Listings end\<close>

definition listing_left :: "nat \<Rightarrow> state \<Rightarrow> nat" where
  "listing_left h s = (case st_handles s h of Some (DirectoryHandle listing next) \<Rightarrow> length listing - next | _ \<Rightarrow> 0)"

lemma drop_two: "drop n xs = x # y # zs \<Longrightarrow> n < length xs"
  using drop_eq_Nil linorder_not_less by fastforce

lemma read_directory_consumes:
  assumes "mfs_read_directory h buf s = (Inr x, buf', s')"
  shows "listing_left h s' < listing_left h s"
  using assms
  by (auto dest: drop_two simp: mfs_read_directory_def listing_left_def borrow_def ok_or_def Let_def
      split: if_splits option.splits handle.splits list.splits sum.splits)

lemma listing_ends: "\<exists>out. directory_read_loop (memfs_files envs others) h capacity s = Some out"
proof (induction "listing_left h s" arbitrary: s rule: less_induct)
  case less
  obtain r name s' where read: "mfs_read_directory h (replicate capacity 0) s = (r, name, s')" by (cases "mfs_read_directory h (replicate capacity 0) s") auto
  show ?case
  proof (cases r)
    case (Inl e)
    then show ?thesis using read
      by (subst directory_read_loop.simps) (simp add: directory_read_once_def memfs_provider_defs)
  next
    case (Inr x)
    then have "\<exists>out. directory_read_loop (memfs_files envs others) h capacity s' = Some out"
      using read_directory_consumes read less by blast
    then show ?thesis using read Inr
      by (subst directory_read_loop.simps) (auto simp: directory_read_once_def memfs_provider_defs split: prod.splits)
  qed
qed

end
