(* ===== verification/Host_Stack.thy ===== *)
theory Host_Stack
  imports Host_Net Memfs_Port
begin

text \<open>
  One boundary on top of another. The files table that a port publishes (\<open>negotiate\<close> of
  \<open>src/src/files.rs\<close>) has the shape of a host table, so it can be handed to the host bridge of a
  second boundary. \<open>files_exports\<close> is that table, and the theorems show that the second boundary
  answers every request exactly as the first: same status, same outputs, same effect.

  A request (\<open>files_request\<close>) is an entry point with its arguments; \<open>files_serve\<close> calls it.
\<close>

section \<open>Requests\<close>

datatype files_request =
    Q_Open nat "byte list" flags flags nat nat
  | Q_Close nat
  | Q_Read_At nat nat nat "byte list" nat nat
  | Q_Write_At nat nat nat "byte list" nat nat
  | Q_Set_Size nat nat
  | Q_Flush nat
  | Q_Status nat nat nat file_status
  | Q_Path_Status nat "byte list" nat nat nat file_status
  | Q_Remove nat "byte list"
  | Q_Rename nat "byte list" nat "byte list"
  | Q_Directory_Create nat "byte list" flags
  | Q_Directory_Remove nat "byte list"
  | Q_Directory_Open nat "byte list" nat nat
  | Q_Directory_Read nat nat "byte list" nat nat nat nat
  | Q_Directory_Close nat
  | Q_Current_Directory nat "byte list" nat nat
  | Q_Set_Mode nat "byte list" flags
  | Q_Set_File_Mode nat flags
  | Q_Set_Times nat "byte list" nat nat nat
  | Q_Set_File_Times nat nat nat
  | Q_Link nat "byte list" nat "byte list"
  | Q_Symlink nat "byte list" nat "byte list"
  | Q_Read_Link nat "byte list" nat "byte list" nat nat
  | Q_Real_Path nat "byte list" nat "byte list" nat nat
  | Q_Set_Current_Directory nat "byte list"
  | Q_Lock nat nat nat
  | Q_Lock_Range nat nat nat nat

text \<open>What an entry point leaves behind its output pointers.\<close>

datatype files_outputs = No_Output | Cell nat | Cells nat nat "byte list" | Filled nat "byte list" | Described file_status

definition served :: "'r \<times> 's \<Rightarrow> 'r \<times> files_outputs \<times> 's" where
  "served = (\<lambda>(c, s). (c, No_Output, s))"

definition served_with :: "('v \<Rightarrow> files_outputs) \<Rightarrow> 'r \<times> 'v \<times> 's \<Rightarrow> 'r \<times> files_outputs \<times> 's" where
  "served_with g = (\<lambda>(c, v, s). (c, g v, s))"

definition served_buffer :: "'r \<times> nat \<times> byte list \<times> 's \<Rightarrow> 'r \<times> files_outputs \<times> 's" where
  "served_buffer = (\<lambda>(c, n, b, s). (c, Filled n b, s))"

fun files_serve ::
  "'s files_provider \<Rightarrow> files_request \<Rightarrow> counters \<Rightarrow> 's \<Rightarrow> ((nat \<times> counters) \<times> files_outputs \<times> 's) option" where
  "files_serve fp (Q_Open path bytes fl mode out cell) cs s =
     map_option (served_with Cell) (files_open fp path (length bytes) bytes fl mode out cell cs s)"
| "files_serve fp (Q_Close h) cs s = map_option served (files_close fp h cs s)"
| "files_serve fp (Q_Read_At h offset data buf got cell) cs s =
     map_option served_buffer (files_read_at fp h offset data buf got cell cs s)"
| "files_serve fp (Q_Write_At h offset data bytes written cell) cs s =
     map_option (served_with Cell) (files_write_at fp h offset data bytes written cell cs s)"
| "files_serve fp (Q_Set_Size h sz) cs s = map_option served (files_set_size fp h sz cs s)"
| "files_serve fp (Q_Flush h) cs s = map_option served (files_flush fp h cs s)"
| "files_serve fp (Q_Status h out sz cell) cs s = map_option (served_with Described) (files_status fp h out sz cell cs s)"
| "files_serve fp (Q_Path_Status path bytes follow out sz cell) cs s =
     map_option (served_with Described) (files_path_status fp path (length bytes) bytes follow out sz cell cs s)"
| "files_serve fp (Q_Remove path bytes) cs s = map_option served (files_remove fp path (length bytes) bytes cs s)"
| "files_serve fp (Q_Rename a abytes b bbytes) cs s =
     map_option served (files_rename fp a (length abytes) abytes b (length bbytes) bbytes cs s)"
| "files_serve fp (Q_Directory_Create path bytes mode) cs s =
     map_option served (files_directory_create fp path (length bytes) bytes mode cs s)"
| "files_serve fp (Q_Directory_Remove path bytes) cs s =
     map_option served (files_directory_remove fp path (length bytes) bytes cs s)"
| "files_serve fp (Q_Directory_Open path bytes out cell) cs s =
     map_option (served_with Cell) (files_directory_open fp path (length bytes) bytes out cell cs s)"
| "files_serve fp (Q_Directory_Read h name buf len lcell kind kcell) cs s =
     map_option (\<lambda>(c, l, k, b, t). (c, Cells l k b, t)) (files_directory_read fp h name buf len lcell kind kcell cs s)"
| "files_serve fp (Q_Directory_Close h) cs s = map_option served (files_directory_close fp h cs s)"
| "files_serve fp (Q_Current_Directory out buf needed cell) cs s =
     map_option served_buffer (files_current_directory fp out buf needed cell cs s)"
| "files_serve fp (Q_Set_Mode path bytes mode) cs s =
     map_option served (files_set_mode fp path (length bytes) bytes mode cs s)"
| "files_serve fp (Q_Set_File_Mode h mode) cs s = map_option served (files_set_file_mode fp h mode cs s)"
| "files_serve fp (Q_Set_Times path bytes follow accessed modified) cs s =
     map_option served (files_set_times fp path (length bytes) bytes follow accessed modified cs s)"
| "files_serve fp (Q_Set_File_Times h accessed modified) cs s =
     map_option served (files_set_file_times fp h accessed modified cs s)"
| "files_serve fp (Q_Link a abytes b bbytes) cs s =
     map_option served (files_link fp a (length abytes) abytes b (length bbytes) bbytes cs s)"
| "files_serve fp (Q_Symlink a abytes b bbytes) cs s =
     map_option served (files_symlink fp a (length abytes) abytes b (length bbytes) bbytes cs s)"
| "files_serve fp (Q_Read_Link path bytes out buf needed cell) cs s =
     map_option served_buffer (files_read_link fp path (length bytes) bytes out buf needed cell cs s)"
| "files_serve fp (Q_Real_Path path bytes out buf needed cell) cs s =
     map_option served_buffer (files_real_path fp path (length bytes) bytes out buf needed cell cs s)"
| "files_serve fp (Q_Set_Current_Directory path bytes) cs s =
     map_option served (files_set_current_directory fp path (length bytes) bytes cs s)"
| "files_serve fp (Q_Lock h mode wait) cs s = map_option served (files_lock fp h mode wait cs s)"
| "files_serve fp (Q_Lock_Range h offset len mode) cs s = map_option served (files_lock_range fp h offset len mode cs s)"

text \<open>A sequence of requests, one after the other; it returns when every one does.\<close>

fun files_session ::
  "'s files_provider \<Rightarrow> files_request list \<Rightarrow> counters \<Rightarrow> 's \<Rightarrow> ((nat \<times> files_outputs) list \<times> counters \<times> 's) option" where
  "files_session fp [] cs s = Some ([], cs, s)"
| "files_session fp (q # qs) cs s =
     Option.bind (files_serve fp q cs s) (\<lambda>((st, cs'), v, s').
       map_option (\<lambda>(rs, cs'', s''). ((st, v) # rs, cs'', s'')) (files_session fp qs cs' s'))"

section \<open>The published table as a host table\<close>

text \<open>
  The state of the host is the first boundary's: its counters and its provider's state. The bridge
  passes slices and its own locals; \<open>p\<close> stands for their addresses, of which the entry points only
  ask that they are there and aligned.
\<close>

definition inner_done :: "((nat \<times> counters) \<times> 's) option \<Rightarrow> (nat \<times> counters \<times> 's) option" where
  "inner_done = map_option (\<lambda>((st, cs), s). (st, cs, s))"

definition inner_out :: "((nat \<times> counters) \<times> 'v \<times> 's) option \<Rightarrow> (nat \<times> 'v \<times> counters \<times> 's) option" where
  "inner_out = map_option (\<lambda>((st, cs), v, s). (st, v, cs, s))"

definition inner_fill :: "((nat \<times> counters) \<times> 'v \<times> 'b \<times> 's) option \<Rightarrow> (nat \<times> 'v \<times> 'b \<times> counters \<times> 's) option" where
  "inner_fill = map_option (\<lambda>((st, cs), v, b, s). (st, v, b, cs, s))"

definition files_exports :: "nat \<Rightarrow> 's files_provider \<Rightarrow> (counters \<times> 's) files_ops" where
  "files_exports p fp =
    \<lparr>fx_open = Some (\<lambda>path fl mode cell (cs, s). inner_out (files_open fp p (length path) path fl mode p cell cs s)),
     fx_close = Some (\<lambda>h (cs, s). inner_done (files_close fp h cs s)),
     fx_read_at = Some (\<lambda>h offset b cell (cs, s). inner_fill (files_read_at fp h offset p b p cell cs s)),
     fx_write_at = Some (\<lambda>h offset bytes cell (cs, s). inner_out (files_write_at fp h offset p bytes p cell cs s)),
     fx_set_size = Some (\<lambda>h sz (cs, s). inner_done (files_set_size fp h sz cs s)),
     fx_flush = Some (\<lambda>h (cs, s). inner_done (files_flush fp h cs s)),
     fx_status = Some (\<lambda>h cell (cs, s). inner_out (files_status fp h p FILE_STATUS_SIZE cell cs s)),
     fx_path_status = Some (\<lambda>path follow cell (cs, s).
       inner_out (files_path_status fp p (length path) path follow p FILE_STATUS_SIZE cell cs s)),
     fx_remove = Some (\<lambda>path (cs, s). inner_done (files_remove fp p (length path) path cs s)),
     fx_rename = Some (\<lambda>a b (cs, s). inner_done (files_rename fp p (length a) a p (length b) b cs s)),
     fx_directory_create = Some (\<lambda>path mode (cs, s). inner_done (files_directory_create fp p (length path) path mode cs s)),
     fx_directory_remove = Some (\<lambda>path (cs, s). inner_done (files_directory_remove fp p (length path) path cs s)),
     fx_directory_open = Some (\<lambda>path cell (cs, s). inner_out (files_directory_open fp p (length path) path p cell cs s)),
     fx_directory_read = Some (\<lambda>h b (lcell, kcell) (cs, s).
       inner_fill (map_option (\<lambda>(c, l, k, b, t). (c, (l, k), b, t)) (files_directory_read fp h p b p lcell p kcell cs s))),
     fx_directory_close = Some (\<lambda>h (cs, s). inner_done (files_directory_close fp h cs s)),
     fx_current_directory = Some (\<lambda>b cell (cs, s). inner_fill (files_current_directory fp p b p cell cs s)),
     fx_set_mode = Some (\<lambda>path mode (cs, s). inner_done (files_set_mode fp p (length path) path mode cs s)),
     fx_set_file_mode = Some (\<lambda>h mode (cs, s). inner_done (files_set_file_mode fp h mode cs s)),
     fx_set_times = Some (\<lambda>path follow accessed modified (cs, s).
       inner_done (files_set_times fp p (length path) path follow accessed modified cs s)),
     fx_set_file_times = Some (\<lambda>h accessed modified (cs, s). inner_done (files_set_file_times fp h accessed modified cs s)),
     fx_link = Some (\<lambda>a b (cs, s). inner_done (files_link fp p (length a) a p (length b) b cs s)),
     fx_symlink = Some (\<lambda>a b (cs, s). inner_done (files_symlink fp p (length a) a p (length b) b cs s)),
     fx_read_link = Some (\<lambda>path b cell (cs, s). inner_fill (files_read_link fp p (length path) path p b p cell cs s)),
     fx_real_path = Some (\<lambda>path b cell (cs, s). inner_fill (files_real_path fp p (length path) path p b p cell cs s)),
     fx_set_current_directory = Some (\<lambda>path (cs, s). inner_done (files_set_current_directory fp p (length path) path cs s)),
     fx_lock = Some (\<lambda>h mode wait (cs, s). inner_done (files_lock fp h mode wait cs s)),
     fx_lock_range = Some (\<lambda>h offset len mode (cs, s). inner_done (files_lock_range fp h offset len mode cs s))\<rparr>"

text \<open>The second boundary's provider, and what is dropped from its state to compare with the first.\<close>

definition stacked :: "nat \<Rightarrow> 's files_provider \<Rightarrow> (counters \<times> 's) files_provider" where
  "stacked p fp = host_files (Some (files_exports p fp))"

definition host_place :: "nat \<Rightarrow> bool" where
  "host_place p \<longleftrightarrow> 0 < p \<and> p mod 8 = 0 \<and> p + ISIZE_MAX \<le> USIZE_MAX"

definition forget :: "'r \<times> 'v \<times> counters \<times> 's \<Rightarrow> 'r \<times> 'v \<times> 's" where
  "forget = (\<lambda>(c, v, _, s). (c, v, s))"

text \<open>
  A provider of a text answers with the length it needs; \<open>BufferTooSmall\<close> is the front end's own
  verdict on that length (\<open>src/src/port.rs\<close>), never the provider's.
\<close>

definition honest_texts :: "'s files_provider \<Rightarrow> bool" where
  "honest_texts fp \<longleftrightarrow>
     (\<forall>b s x. fp_current_directory fp b s = Some x \<longrightarrow> fst x \<noteq> Inl BufferTooSmall)
     \<and> (\<forall>path b s x. fp_read_link fp path b s = Some x \<longrightarrow> fst x \<noteq> Inl BufferTooSmall)
     \<and> (\<forall>path b s x. fp_real_path fp path b s = Some x \<longrightarrow> fst x \<noteq> Inl BufferTooSmall)"

section \<open>One request\<close>

lemma stacked_simps:
  "fp_open (stacked p fp) path fl mode (cs, s) = map_option out_reply (inner_out (files_open fp p (length path) path fl mode p 0 cs s))"
  "fp_close (stacked p fp) h (cs, s) = map_option call_reply (inner_done (files_close fp h cs s))"
  "fp_read_at (stacked p fp) h offset b (cs, s) = map_option fill_reply (inner_fill (files_read_at fp h offset p b p 0 cs s))"
  "fp_write_at (stacked p fp) h offset bytes (cs, s) = map_option out_reply (inner_out (files_write_at fp h offset p bytes p 0 cs s))"
  "fp_set_size (stacked p fp) h sz (cs, s) = map_option call_reply (inner_done (files_set_size fp h sz cs s))"
  "fp_flush (stacked p fp) h (cs, s) = map_option call_reply (inner_done (files_flush fp h cs s))"
  "fp_status (stacked p fp) h (cs, s) = map_option out_reply (inner_out (files_status fp h p FILE_STATUS_SIZE DEFAULT_STATUS cs s))"
  "fp_path_status (stacked p fp) path follow (cs, s) =
     map_option out_reply (inner_out (files_path_status fp p (length path) path (of_bool follow) p FILE_STATUS_SIZE DEFAULT_STATUS cs s))"
  "fp_remove (stacked p fp) path (cs, s) = map_option call_reply (inner_done (files_remove fp p (length path) path cs s))"
  "fp_rename (stacked p fp) path to (cs, s) =
     map_option call_reply (inner_done (files_rename fp p (length path) path p (length to) to cs s))"
  "fp_create_directory (stacked p fp) path mode (cs, s) =
     map_option call_reply (inner_done (files_directory_create fp p (length path) path mode cs s))"
  "fp_remove_directory (stacked p fp) path (cs, s) = map_option call_reply (inner_done (files_directory_remove fp p (length path) path cs s))"
  "fp_open_directory (stacked p fp) path (cs, s) = map_option out_reply (inner_out (files_directory_open fp p (length path) path p 0 cs s))"
  "fp_read_directory (stacked p fp) h b (cs, s) = map_option fill_reply
     (inner_fill (map_option (\<lambda>(c, l, k, b, t). (c, (l, k), b, t)) (files_directory_read fp h p b p 0 p 0 cs s)))"
  "fp_close_directory (stacked p fp) h (cs, s) = map_option call_reply (inner_done (files_directory_close fp h cs s))"
  "fp_current_directory (stacked p fp) b (cs, s) = map_option text_reply (inner_fill (files_current_directory fp p b p 0 cs s))"
  "fp_set_mode (stacked p fp) path mode (cs, s) = map_option call_reply (inner_done (files_set_mode fp p (length path) path mode cs s))"
  "fp_set_file_mode (stacked p fp) h mode (cs, s) = map_option call_reply (inner_done (files_set_file_mode fp h mode cs s))"
  "fp_set_times (stacked p fp) path follow a m (cs, s) =
     map_option call_reply (inner_done (files_set_times fp p (length path) path (of_bool follow) (keep_time a) (keep_time m) cs s))"
  "fp_set_file_times (stacked p fp) h a m (cs, s) =
     map_option call_reply (inner_done (files_set_file_times fp h (keep_time a) (keep_time m) cs s))"
  "fp_link (stacked p fp) path to (cs, s) = map_option call_reply (inner_done (files_link fp p (length path) path p (length to) to cs s))"
  "fp_symlink (stacked p fp) path to (cs, s) =
     map_option call_reply (inner_done (files_symlink fp p (length path) path p (length to) to cs s))"
  "fp_read_link (stacked p fp) path b (cs, s) =
     map_option text_reply (inner_fill (files_read_link fp p (length path) path p b p 0 cs s))"
  "fp_real_path (stacked p fp) path b (cs, s) =
     map_option text_reply (inner_fill (files_real_path fp p (length path) path p b p 0 cs s))"
  "fp_set_current_directory (stacked p fp) path (cs, s) =
     map_option call_reply (inner_done (files_set_current_directory fp p (length path) path cs s))"
  "fp_lock (stacked p fp) h lmode wait (cs, s) = map_option call_reply (inner_done (files_lock fp h lmode (of_bool wait) cs s))"
  "fp_lock_range (stacked p fp) h offset len lmode (cs, s) = map_option call_reply (inner_done (files_lock_range fp h offset len lmode cs s))"
  by (simp_all add: stacked_def host_files_def files_exports_def host_async_def)

text \<open>A status the files group has recorded survives the bridge and is recorded as it is.\<close>

lemma files_statuses_le: "st \<in> set files_statuses \<Longrightarrow> st \<le> 31"
  by (auto simp: files_statuses_def)

lemma files_recorded: "fst (files_record st i cs) \<in> set files_statuses"
  by (rule files_rec.status_published)

lemma files_record_round:
  "files_record (port_status (port_from_status (fst (files_record st i ics)))) i cs = files_record st i cs"
  unfolding status_round [OF files_statuses_le [OF files_recorded]]
  by (auto simp: files_record_def files_statuses_def Let_def)

lemma io_path_place: "host_place p \<Longrightarrow> io_path a (length b) b = Some q \<Longrightarrow> io_path p (length b) b = Some q"
  by (auto simp: io_path_Some_iff host_place_def width_simps)

lemma valid_place: "host_place p \<Longrightarrow> valid_buffer a n \<Longrightarrow> valid_buffer p n"
  by (auto simp: valid_buffer_def host_place_def checked_add_def)

lemma aligned_place: "host_place p \<Longrightarrow> aligned_output p 8 \<and> aligned_output p 4"
  by (auto simp: aligned_output_def host_place_def)

text \<open>Calls with no output.\<close>

lemma stack_done:
  "map_option (forget \<circ> served) (files_done i cs (map_option call_reply (inner_done (files_done i ics x))))
     = map_option served (files_done i cs x)"
  by (cases x) (auto simp: files_done_def inner_done_def call_reply_def forget_def served_def files_record_round split_beta)

lemma stack_refuse:
  "map_option (forget \<circ> served) (files_refuse i cs (ics, s)) = map_option served (files_refuse i cs s)"
  by (simp add: files_refuse_def forget_def served_def split_beta)

lemma io_path_bytes: "io_path a n b = Some q \<Longrightarrow> q = b"
  by (simp add: io_path_Some_iff)

lemma stack_path_call:
  assumes "host_place p"
    and "\<And>q. f' q (ics, s) = map_option call_reply (inner_done (files_path_call i ok f p (length q) q ics s))"
  shows "map_option (forget \<circ> served) (files_path_call i ok f' a (length b) b cs (ics, s))
    = map_option served (files_path_call i ok f a (length b) b cs s)"
proof (cases "io_path a (length b) b")
  case None
  then show ?thesis by (simp add: files_path_call_def stack_refuse)
next
  case (Some q)
  then have "io_path p (length b) b = Some b" "q = b"
    using io_path_place [OF assms(1) Some] io_path_bytes [OF Some] by simp_all
  then show ?thesis using Some by (simp add: files_path_call_def assms(2) stack_done stack_refuse)
qed

lemma stack_two_paths:
  assumes "host_place p"
    and "\<And>q r. f' q r (ics, s) = map_option call_reply (inner_done (files_two_paths i f p (length q) q p (length r) r ics s))"
  shows "map_option (forget \<circ> served) (files_two_paths i f' a (length b) b c (length d) d cs (ics, s))
    = map_option served (files_two_paths i f a (length b) b c (length d) d cs s)"
proof (cases "io_path a (length b) b = None \<or> io_path c (length d) d = None")
  case True
  then show ?thesis by (auto simp: files_two_paths_def stack_refuse split: option.split)
next
  case False
  then obtain q r where q: "io_path a (length b) b = Some q" "io_path c (length d) d = Some r" by auto
  then have "io_path p (length b) b = Some b" "io_path p (length d) d = Some d" "q = b" "r = d"
    using io_path_place [OF assms(1) q(1)] io_path_place [OF assms(1) q(2)] io_path_bytes [OF q(1)] io_path_bytes [OF q(2)]
    by simp_all
  then show ?thesis using q by (simp add: files_two_paths_def assms(2) stack_done)
qed

lemma of_bool_nonzero [simp]: "of_bool (n \<noteq> 0) \<noteq> (0 :: nat) \<longleftrightarrow> n \<noteq> (0 :: nat)" "\<not> 1 < (of_bool P :: nat)"
  by simp_all

text \<open>A time that passed the check survives its encoding.\<close>

lemma one_time_keep: "one_time ns = Some t \<Longrightarrow> one_time (keep_time t) = Some t"
  by (auto simp: one_time_def keep_time_def split: if_splits)

lemma times_arg_keep: "times_arg a m = Some (x, y) \<Longrightarrow> times_arg (keep_time x) (keep_time y) = Some (x, y)"
  by (auto simp: times_arg_def one_time_keep split: option.splits)

lemma stack_set_times:
  assumes "host_place p"
  shows "map_option (forget \<circ> served) (files_set_times (stacked p fp) a (length b) b follow accessed modified cs (ics, s))
    = map_option served (files_set_times fp a (length b) b follow accessed modified cs s)"
proof (cases "io_path a (length b) b")
  case None
  then show ?thesis by (simp add: files_set_times_def stack_refuse)
next
  case (Some q)
  then have "io_path p (length b) b = Some b" "q = b"
    using io_path_place [OF assms Some] io_path_bytes [OF Some] by simp_all
  then show ?thesis using Some
    by (auto simp: files_set_times_def stacked_simps stack_done stack_refuse times_arg_keep split: option.split)
qed

lemma stack_set_file_times:
  "map_option (forget \<circ> served) (files_set_file_times (stacked p fp) h accessed modified cs (ics, s))
    = map_option served (files_set_file_times fp h accessed modified cs s)"
  by (auto simp: files_set_file_times_def stacked_simps stack_done stack_refuse times_arg_keep split: option.split)

lemma record_lock_round:
  "record_lock (port_status (port_from_status (fst (record_lock st may ics)))) may cs = record_lock st may cs"
proof -
  have "fst (record_lock st may ics) \<le> 31"
    using files_statuses_le [OF files_recorded] by (auto simp: record_lock_def)
  then show ?thesis
    by (auto simp: status_round record_lock_def files_record_def files_statuses_def Let_def)
qed

lemma stack_lock:
  "map_option (forget \<circ> served) (files_lock (stacked p fp) h mode wait cs (ics, s)) = map_option served (files_lock fp h mode wait cs s)"
  "map_option (forget \<circ> served) (files_lock_range (stacked p fp) h offset len mode cs (ics, s))
     = map_option served (files_lock_range fp h offset len mode cs s)"
  by (auto simp: files_lock_def files_lock_range_def stacked_simps files_refuse_def inner_done_def call_reply_def forget_def
      served_def record_lock_round option.map_comp comp_def split_beta intro!: option.map_cong)

text \<open>
  Calls with a cell. \<open>cell_of\<close> is what a front end makes of the provider's answer: a status and the
  value of the cell, which is \<open>d\<close> on a failure. Making it twice is making it once.
\<close>

locale cell_answer =
  fixes cell_of :: "'v result \<Rightarrow> nat \<times> 'v" and d :: 'v
  assumes failed: "cell_of r = (st, v) \<Longrightarrow> st \<noteq> OK \<Longrightarrow> v = d"
    and repeated: "cell_of r = (OK, v) \<Longrightarrow> cell_of (Inr v) = (OK, v)"
    and passed_on: "cell_of (Inl e) = (status e, d)"
begin

lemma round:
  assumes "cell_of r = (st, v)"
  shows "\<exists>st'. cell_of (r_bind (port_from_status (fst (files_record st i ics))) (\<lambda>_. Inr v)) = (st', v)
    \<and> files_record st' i cs = files_record st i cs"
proof (cases "st = OK")
  case True
  then have "fst (files_record st i ics) = OK" by (simp add: files_rec.OK_iff)
  then show ?thesis using repeated [OF assms [unfolded True]] True by simp
next
  case False
  let ?st = "fst (files_record st i ics)"
  have "?st \<noteq> OK" using False by (simp add: files_rec.OK_iff)
  then obtain e where e: "port_from_status ?st = Inl e" by (cases "port_from_status ?st") auto
  then have "files_record (status e) i cs = files_record st i cs"
    using files_record_round [of st i ics cs] by simp
  then show ?thesis using e failed [OF assms False] by (simp add: passed_on)
qed

lemma stack_cell:
  "map_option (forget \<circ> served_with g)
      (map_option (\<lambda>(r, s). case cell_of r of (st, v) \<Rightarrow> (files_record st i cs, v, s))
        (map_option out_reply (inner_out (map_option (\<lambda>(r, s). case cell_of r of (st, v) \<Rightarrow> (files_record st i ics, v, s)) x))))
    = map_option (served_with g) (map_option (\<lambda>(r, s). case cell_of r of (st, v) \<Rightarrow> (files_record st i cs, v, s)) x)"
proof (cases x)
  case (Some y)
  obtain r s where y: "y = (r, s)" by (cases y)
  obtain st v where c: "cell_of r = (st, v)" by (cases "cell_of r")
  then show ?thesis using round [OF c, of i ics cs] Some y
    by (auto simp: inner_out_def out_reply_def forget_def served_with_def split_beta)
qed (simp add: inner_out_def)

lemma stack_fill:
  "map_option (forget \<circ> g)
      (map_option (\<lambda>(r, b, s). case cell_of r of (st, v) \<Rightarrow> (files_record st i cs, v, b, s))
        (map_option fill_reply (inner_fill (map_option (\<lambda>(r, b, s). case cell_of r of (st, v) \<Rightarrow> (files_record st i ics, v, b, s)) x))))
    = map_option h (map_option (\<lambda>(r, b, s). case cell_of r of (st, v) \<Rightarrow> (files_record st i cs, v, b, s)) x)"
  if "\<And>c v b t u. forget (g (c, v, b, t, u)) = h (c, v, b, u)"
proof (cases x)
  case (Some y)
  obtain r b s where y: "y = (r, b, s)" by (cases y)
  obtain st v where c: "cell_of r = (st, v)" by (cases "cell_of r")
  then show ?thesis using round [OF c, of i ics cs] Some y
    by (auto simp: inner_fill_def fill_reply_def that split_beta)
qed (simp add: inner_fill_def)

end

definition read_cell :: "nat \<Rightarrow> nat result \<Rightarrow> nat \<times> nat" where
  "read_cell capacity r = (case r of Inr n \<Rightarrow> if capacity < n then (OS_ERROR, 0) else (OK, n) | Inl e \<Rightarrow> (status e, 0))"

definition written_cell :: "nat \<Rightarrow> nat result \<Rightarrow> nat \<times> nat" where
  "written_cell sz r =
     (case r of Inr n \<Rightarrow> if n = 0 then (OS_ERROR, 0) else if sz < n then (OS_ERROR, 0) else (OK, n) | Inl e \<Rightarrow> (status e, 0))"

interpretation handle_answer: cell_answer files_handle 0
  by unfold_locales (auto simp: files_handle_def split: sum.splits if_splits)

interpretation describe_answer: cell_answer describe DEFAULT_STATUS
  by unfold_locales (auto simp: describe_def split: sum.splits if_splits)

interpretation read_answer: cell_answer "read_cell capacity" 0
  by unfold_locales (auto simp: read_cell_def split: sum.splits if_splits)

interpretation written_answer: cell_answer "written_cell sz" 0
  by unfold_locales (auto simp: written_cell_def split: sum.splits if_splits)

lemmas stack_cells = handle_answer.stack_cell describe_answer.stack_cell written_answer.stack_cell

lemma stack_open:
  assumes "host_place p"
  shows "map_option (forget \<circ> served_with Cell) (files_open (stacked p fp) a (length b) b fl mode out cell cs (ics, s))
    = map_option (served_with Cell) (files_open fp a (length b) b fl mode out cell cs s)"
proof (cases "\<not> aligned_output out 8 \<or> io_path a (length b) b = None \<or> \<not> valid_open fl \<or> mode AND NOT MODE_MASK \<noteq> 0")
  case True
  then show ?thesis by (auto simp: files_open_def forget_def served_with_def split: option.split)
next
  case False
  then obtain q where q: "io_path a (length b) b = Some q" by auto
  then have "io_path p (length b) b = Some b" "q = b"
    using io_path_place [OF assms q] io_path_bytes [OF q] by simp_all
  then show ?thesis using False q aligned_place [OF assms]
    by (simp add: files_open_def stacked_simps stack_cells del: option.map_comp)
qed

lemma stack_directory_open:
  assumes "host_place p"
  shows "map_option (forget \<circ> served_with Cell) (files_directory_open (stacked p fp) a (length b) b out cell cs (ics, s))
    = map_option (served_with Cell) (files_directory_open fp a (length b) b out cell cs s)"
proof (cases "\<not> aligned_output out 8 \<or> io_path a (length b) b = None")
  case True
  then show ?thesis by (auto simp: files_directory_open_def forget_def served_with_def)
next
  case False
  then obtain q where q: "io_path a (length b) b = Some q" by auto
  then have "io_path p (length b) b = Some b" "q = b"
    using io_path_place [OF assms q] io_path_bytes [OF q] by simp_all
  then show ?thesis using False q aligned_place [OF assms]
    by (simp add: files_directory_open_def stacked_simps stack_cells del: option.map_comp)
qed

lemma stack_status:
  assumes "host_place p"
  shows "map_option (forget \<circ> served_with Described) (files_status (stacked p fp) h out sz cell cs (ics, s))
    = map_option (served_with Described) (files_status fp h out sz cell cs s)"
proof (cases "\<not> aligned_output out 8 \<or> sz < FILE_STATUS_SIZE \<or> h = 0")
  case True
  then show ?thesis by (auto simp: files_status_def forget_def served_with_def)
next
  case False
  then show ?thesis using aligned_place [OF assms]
    by (simp add: files_status_def stacked_simps stack_cells del: option.map_comp)
qed

lemma stack_path_status:
  assumes "host_place p"
  shows "map_option (forget \<circ> served_with Described) (files_path_status (stacked p fp) a (length b) b follow out sz cell cs (ics, s))
    = map_option (served_with Described) (files_path_status fp a (length b) b follow out sz cell cs s)"
proof (cases "\<not> aligned_output out 8 \<or> sz < FILE_STATUS_SIZE \<or> io_path a (length b) b = None \<or> 1 < follow")
  case True
  then show ?thesis by (auto simp: files_path_status_def forget_def served_with_def split: option.split)
next
  case False
  then obtain q where q: "io_path a (length b) b = Some q" by auto
  then have "io_path p (length b) b = Some b" "q = b"
    using io_path_place [OF assms q] io_path_bytes [OF q] by simp_all
  then show ?thesis using False q aligned_place [OF assms]
    by (simp add: files_path_status_def stacked_simps stack_cells del: option.map_comp)
qed

lemma files_read_at_cell:
  "files_read_at fp h offset data buf got cell cs s =
     (if \<not> aligned_output got 8 then Some (files_record INVALID_ARGUMENT 2 cs, cell, buf, s)
      else if h = 0 \<or> \<not> valid_buffer data (length buf) \<or> I64_MAX < offset
      then Some (files_record INVALID_ARGUMENT 2 cs, 0, buf, s)
      else if buf = [] then Some (files_record OK 2 cs, 0, buf, s)
      else map_option (\<lambda>(r, b, t). case read_cell (length buf) r of (st, v) \<Rightarrow> (files_record st 2 cs, v, b, t))
             (fp_read_at fp h offset buf s))"
  by (simp add: files_read_at_def read_cell_def Let_def)

lemma files_write_at_cell:
  "files_write_at fp h offset data bytes written cell cs s =
     (if \<not> aligned_output written 8 then Some (files_record INVALID_ARGUMENT 3 cs, cell, s)
      else if h = 0 \<or> \<not> valid_buffer data (length bytes) \<or> I64_MAX < offset \<or> I64_MAX < offset + length bytes
      then Some (files_record INVALID_ARGUMENT 3 cs, 0, s)
      else if bytes = [] then Some (files_record OK 3 cs, 0, s)
      else map_option (\<lambda>(r, t). case written_cell (length bytes) r of (st, v) \<Rightarrow> (files_record st 3 cs, v, t))
             (fp_write_at fp h offset bytes s))"
  by (simp add: files_write_at_def written_cell_def Let_def)

lemma forget_buffer: "forget (served_buffer (c, v, b, t, u)) = served_buffer (c, v, b, u)"
  by (simp add: forget_def served_buffer_def)

lemma stack_read_at:
  assumes "host_place p"
  shows "map_option (forget \<circ> served_buffer) (files_read_at (stacked p fp) h offset data buf got cell cs (ics, s))
    = map_option served_buffer (files_read_at fp h offset data buf got cell cs s)"
proof (cases "\<not> aligned_output got 8 \<or> h = 0 \<or> \<not> valid_buffer data (length buf) \<or> I64_MAX < offset \<or> buf = []")
  case True
  then show ?thesis by (auto simp: files_read_at_cell forget_def served_buffer_def)
next
  case False
  then have "valid_buffer p (length buf)" using valid_place [OF assms] by blast
  then show ?thesis using False aligned_place [OF assms]
    by (simp add: files_read_at_cell stacked_simps read_answer.stack_fill [where g = served_buffer and h = served_buffer, OF forget_buffer] del: option.map_comp)
qed

lemma stack_write_at:
  assumes "host_place p"
  shows "map_option (forget \<circ> served_with Cell) (files_write_at (stacked p fp) h offset data bytes written cell cs (ics, s))
    = map_option (served_with Cell) (files_write_at fp h offset data bytes written cell cs s)"
proof (cases "\<not> aligned_output written 8 \<or> h = 0 \<or> \<not> valid_buffer data (length bytes) \<or> I64_MAX < offset
    \<or> I64_MAX < offset + length bytes \<or> bytes = []")
  case True
  then show ?thesis by (auto simp: files_write_at_cell forget_def served_with_def)
next
  case False
  then have "valid_buffer p (length bytes)" using valid_place [OF assms] by blast
  then show ?thesis using False aligned_place [OF assms]
    by (simp add: files_write_at_cell stacked_simps stack_cells del: option.map_comp)
qed

text \<open>Texts: the status that asks for a larger buffer passes beside the recorded ones.\<close>

definition text_record :: "nat \<Rightarrow> nat \<Rightarrow> counters \<Rightarrow> nat \<times> counters" where
  "text_record st i cs = (if st = BUFFER_TOO_SMALL then (st, bump F_FAILED cs) else files_record st i cs)"

lemma text_recorded:
  "fst (text_record st i cs) \<le> 31" "fst (text_record st i cs) = OK \<longleftrightarrow> st = OK"
  "fst (text_record st i cs) = BUFFER_TOO_SMALL \<longleftrightarrow> st = BUFFER_TOO_SMALL"
  "text_record (fst (text_record st i ics)) i cs = text_record st i cs"
  using files_statuses_le [OF files_recorded] by (auto simp: text_record_def files_record_def files_statuses_def Let_def)

lemma status_too_small: "status e = BUFFER_TOO_SMALL \<longleftrightarrow> e = BufferTooSmall"
  using status_inj [of e BufferTooSmall] by simp

lemma text_round:
  assumes "io_text b 0 lim (\<lambda>_. (r, left)) = (st, n, b1)" "r \<noteq> Inl BufferTooSmall" "length b = length buf"
  shows "\<exists>st2. io_text buf 0 lim (\<lambda>_. (text_result (port_from_status (fst (text_record st i ics))) n, b1)) = (st2, n, b1)
    \<and> text_record st2 i cs = text_record st i cs"
proof (cases "st = OK \<or> st = BUFFER_TOO_SMALL")
  case True
  then have "text_result (port_from_status (fst (text_record st i ics))) n = Inr n"
    using text_recorded(2,3) [of st i ics] by (auto simp: text_result_def port_from_status_def from_status_def split: sum.splits)
  then show ?thesis using assms True
    by (auto simp: io_text_def Let_def status_too_small split: sum.splits if_splits)
next
  case False
  let ?st = "fst (text_record st i ics)"
  have st: "?st \<noteq> OK" "?st \<noteq> BUFFER_TOO_SMALL" "?st \<le> 31" using False text_recorded by blast+
  then obtain e where e: "port_from_status ?st = Inl e" "status e = ?st"
    using port_from_status_Inl by (cases "port_from_status ?st") auto
  then have "e \<noteq> BufferTooSmall" using st(2) by auto
  then have "text_result (port_from_status ?st) n = Inl e" using e by (simp add: text_result_def)
  moreover have "n = 0" "b1 = replicate (length buf) 0"
    using assms False by (auto simp: io_text_def Let_def split: sum.splits if_splits)
  ultimately show ?thesis using e st text_recorded(4) [of st i ics cs] by (simp add: io_text_def Let_def)
qed

lemma files_text_record:
  "files_text i buf cs f s = map_option (\<lambda>(r, left, t).
     case io_text buf 0 (MAX_NAME + 1) (\<lambda>_. (r, left)) of (st, n, b) \<Rightarrow> (text_record st i cs, n, b, t)) (f (replicate (length buf) 0) s)"
  by (simp add: files_text_def text_record_def Let_def)

lemma stack_text:
  assumes "f' (replicate (length buf) 0) (ics, s)
      = map_option text_reply (inner_fill (files_text i (replicate (length buf) 0) ics f s))"
    and "\<And>b x. f b s = Some x \<Longrightarrow> fst x \<noteq> Inl BufferTooSmall"
  shows "map_option (forget \<circ> served_buffer) (files_text i buf cs f' (ics, s)) = map_option served_buffer (files_text i buf cs f s)"
proof (cases "f (replicate (length buf) 0) s")
  case None
  then show ?thesis by (simp add: files_text_record assms(1) inner_fill_def)
next
  case (Some x)
  obtain r left t where x: "x = (r, left, t)" by (cases x)
  let ?b = "replicate (length buf) (0 :: byte)"
  obtain st n b1 where io: "io_text ?b 0 (MAX_NAME + 1) (\<lambda>_. (r, left)) = (st, n, b1)" by (metis prod_cases3)
  have same: "io_text buf 0 (MAX_NAME + 1) (\<lambda>_. (r, left)) = (st, n, b1)" using io by (simp add: io_text_def)
  have "r \<noteq> Inl BufferTooSmall" using assms(2) Some x by fastforce
  then obtain st2 where "io_text buf 0 (MAX_NAME + 1) (\<lambda>_. (text_result (port_from_status (fst (text_record st i ics))) n, b1))
      = (st2, n, b1)" "text_record st2 i cs = text_record st i cs"
    using text_round [OF io, of buf i ics cs] by auto
  then show ?thesis using Some x io same
    by (simp add: files_text_record assms(1) inner_fill_def text_reply_def forget_def served_buffer_def split_beta)
qed

text \<open>
  Listings: the first boundary has skipped the self references and checked the entry, so the second
  one asks once.
\<close>

definition entry_accepted :: "nat \<times> nat \<times> nat \<times> byte list \<times> 's \<Rightarrow> bool" where
  "entry_accepted = (\<lambda>(st, l, k, name, s). st = OK \<longrightarrow>
     l \<noteq> 0 \<and> l \<le> MAX_ENTRY_NAME \<and> take l name \<noteq> [DOT] \<and> take l name \<noteq> [DOT, DOT]
     \<and> NODE_FILE \<le> k \<and> k \<le> NODE_OTHER \<and> 0 \<notin> set (take l name) \<and> SLASH \<notin> set (take l name))"

definition entry_cleared :: "nat \<Rightarrow> nat \<times> nat \<times> nat \<times> byte list \<times> 's \<Rightarrow> bool" where
  "entry_cleared capacity = (\<lambda>(st, l, k, name, s). st \<noteq> OK \<longrightarrow> l = 0 \<and> k = 0 \<and> name = replicate capacity 0)"

lemma directory_read_once_accepted:
  assumes "directory_read_once fp h capacity s = Some (Inl y)"
  shows "entry_accepted y \<and> entry_cleared capacity y"
proof -
  obtain r b t where "fp_read_directory fp h (replicate capacity 0) s = Some (r, b, t)"
    using assms by (auto simp: directory_read_once_def)
  then show ?thesis using assms
    by (cases r) (auto simp: directory_read_once_def entry_accepted_def entry_cleared_def split: if_splits)
qed

lemma directory_read_loop_accepted:
  assumes "directory_read_loop fp h capacity s = Some y"
  shows "entry_accepted y \<and> entry_cleared capacity y"
  using assms
proof (induction rule: directory_read_loop.raw_induct [rotated 1, consumes 1])
  case (1 loop fp h capacity s y)
  then show ?case
    by (cases "directory_read_once fp h capacity s") (auto dest: directory_read_once_accepted split: sum.splits)
qed

lemma stacked_read_directory:
  assumes "host_place p" "h \<noteq> 0" "MAX_ENTRY_NAME \<le> capacity" "valid_buffer a capacity"
  shows "fp_read_directory (stacked p fp) h (replicate capacity 0) (ics, s) =
    map_option (\<lambda>(st, l, k, b, t). fill_reply (fst (files_record st 9 ics), (l, k), b, snd (files_record st 9 ics), t))
      (directory_read_loop fp h capacity s)"
proof -
  have "p \<noteq> 0" using assms(1) by (simp add: host_place_def)
  then show ?thesis using assms aligned_place [OF assms(1)] valid_place [OF assms(1,4)]
    by (cases "directory_read_loop fp h capacity s")
      (simp_all add: stacked_simps files_directory_read_def inner_fill_def split_beta)
qed

lemma stacked_read_once:
  assumes "host_place p" "h \<noteq> 0" "MAX_ENTRY_NAME \<le> capacity" "valid_buffer a capacity"
    and "directory_read_loop fp h capacity s = Some (st, l, k, b, t)"
  shows "\<exists>st2. directory_read_once (stacked p fp) h capacity (ics, s) = Some (Inl (st2, l, k, b, snd (files_record st 9 ics), t))
    \<and> files_record st2 9 cs = files_record st 9 cs"
proof -
  let ?st = "fst (files_record st 9 ics)"
  note ok = directory_read_loop_accepted [OF assms(5)]
  have call: "fp_read_directory (stacked p fp) h (replicate capacity 0) (ics, s)
      = Some (fill_reply (?st, (l, k), b, snd (files_record st 9 ics), t))"
    using stacked_read_directory [OF assms(1-4), of fp ics s] assms(5) by simp
  show ?thesis
  proof (cases "st = OK")
    case True
    then have "?st = OK" by (simp add: files_rec.OK_iff)
    then show ?thesis using call ok True
      by (auto simp: directory_read_once_def fill_reply_def entry_accepted_def split_beta)
  next
    case False
    then have "?st \<noteq> OK" by (simp add: files_rec.OK_iff)
    then obtain e where e: "port_from_status ?st = Inl e" by (cases "port_from_status ?st") auto
    then have "files_record (status e) 9 cs = files_record st 9 cs"
      using files_record_round [of st 9 ics cs] by simp
    then show ?thesis using call ok e False
      by (simp add: directory_read_once_def fill_reply_def entry_cleared_def split_beta)
  qed
qed

lemma stack_directory_read:
  assumes "host_place p"
  shows "map_option (forget \<circ> (\<lambda>(c, l, k, b, t). (c, Cells l k b, t)))
      (files_directory_read (stacked p fp) h name buf len lcell kind kcell cs (ics, s))
    = map_option (\<lambda>(c, l, k, b, t). (c, Cells l k b, t)) (files_directory_read fp h name buf len lcell kind kcell cs s)"
proof (cases "\<not> aligned_output len 8 \<or> \<not> aligned_output kind 4 \<or> h = 0 \<or> name = 0 \<or> length buf < MAX_ENTRY_NAME
    \<or> \<not> valid_buffer name (length buf)")
  case True
  then show ?thesis by (auto simp: files_directory_read_def forget_def Let_def)
next
  case False
  then have ok: "h \<noteq> 0" "MAX_ENTRY_NAME \<le> length buf" "valid_buffer name (length buf)" by auto
  show ?thesis
  proof (cases "directory_read_loop fp h (length buf) s")
    case None
    then have "directory_read_once (stacked p fp) h (length buf) (ics, s) = None"
      using stacked_read_directory [OF assms ok, of fp ics s] by (simp add: directory_read_once_def)
    then have "directory_read_loop (stacked p fp) h (length buf) (ics, s) = None"
      by (subst directory_read_loop.simps) simp
    then show ?thesis using None False by (simp add: files_directory_read_def)
  next
    case (Some y)
    obtain st l k b t where y: "y = (st, l, k, b, t)" by (metis prod_cases5)
    obtain st2 where "directory_read_once (stacked p fp) h (length buf) (ics, s)
        = Some (Inl (st2, l, k, b, snd (files_record st 9 ics), t))" "files_record st2 9 cs = files_record st 9 cs"
      using stacked_read_once [OF assms ok, of fp s st l k b t] Some y by blast
    moreover from this have "directory_read_loop (stacked p fp) h (length buf) (ics, s)
        = Some (st2, l, k, b, snd (files_record st 9 ics), t)"
      by (subst directory_read_loop.simps) simp
    ultimately show ?thesis using Some y False by (simp add: files_directory_read_def forget_def)
  qed
qed

text \<open>Every request.\<close>

lemma stack_handle_calls:
  "map_option (forget \<circ> served) (files_close (stacked p fp) h cs (ics, s)) = map_option served (files_close fp h cs s)"
  "map_option (forget \<circ> served) (files_set_size (stacked p fp) h sz cs (ics, s)) = map_option served (files_set_size fp h sz cs s)"
  "map_option (forget \<circ> served) (files_flush (stacked p fp) h cs (ics, s)) = map_option served (files_flush fp h cs s)"
  "map_option (forget \<circ> served) (files_directory_close (stacked p fp) h cs (ics, s))
     = map_option served (files_directory_close fp h cs s)"
  "map_option (forget \<circ> served) (files_set_file_mode (stacked p fp) h mode cs (ics, s))
     = map_option served (files_set_file_mode fp h mode cs s)"
  by (simp_all add: files_close_def files_set_size_def files_flush_def files_directory_close_def files_set_file_mode_def
      stacked_simps stack_done stack_refuse)

lemma stack_name_calls:
  assumes "host_place p"
  shows "map_option (forget \<circ> served) (files_remove (stacked p fp) a (length b) b cs (ics, s))
      = map_option served (files_remove fp a (length b) b cs s)"
    and "map_option (forget \<circ> served) (files_rename (stacked p fp) a (length b) b c (length d) d cs (ics, s))
      = map_option served (files_rename fp a (length b) b c (length d) d cs s)"
    and "map_option (forget \<circ> served) (files_directory_create (stacked p fp) a (length b) b mode cs (ics, s))
      = map_option served (files_directory_create fp a (length b) b mode cs s)"
    and "map_option (forget \<circ> served) (files_directory_remove (stacked p fp) a (length b) b cs (ics, s))
      = map_option served (files_directory_remove fp a (length b) b cs s)"
    and "map_option (forget \<circ> served) (files_set_current_directory (stacked p fp) a (length b) b cs (ics, s))
      = map_option served (files_set_current_directory fp a (length b) b cs s)"
    and "map_option (forget \<circ> served) (files_set_mode (stacked p fp) a (length b) b mode cs (ics, s))
      = map_option served (files_set_mode fp a (length b) b mode cs s)"
    and "map_option (forget \<circ> served) (files_link (stacked p fp) a (length b) b c (length d) d cs (ics, s))
      = map_option served (files_link fp a (length b) b c (length d) d cs s)"
    and "map_option (forget \<circ> served) (files_symlink (stacked p fp) a (length b) b c (length d) d cs (ics, s))
      = map_option served (files_symlink fp a (length b) b c (length d) d cs s)"
  unfolding files_remove_def files_rename_def files_directory_create_def files_directory_remove_def
    files_set_current_directory_def files_set_mode_def files_link_def files_symlink_def
  by (rule stack_path_call [OF assms] stack_two_paths [OF assms];
      simp add: stacked_simps files_remove_def files_rename_def files_directory_create_def files_directory_remove_def
        files_set_current_directory_def files_set_mode_def files_link_def files_symlink_def)+

lemma honest_textsD:
  assumes "honest_texts fp"
  shows "fp_current_directory fp b s = Some x \<Longrightarrow> fst x \<noteq> Inl BufferTooSmall"
    and "fp_read_link fp path b s = Some x \<Longrightarrow> fst x \<noteq> Inl BufferTooSmall"
    and "fp_real_path fp path b s = Some x \<Longrightarrow> fst x \<noteq> Inl BufferTooSmall"
  using assms unfolding honest_texts_def by blast+

lemma stack_current_directory:
  assumes "host_place p" "honest_texts fp"
  shows "map_option (forget \<circ> served_buffer) (files_current_directory (stacked p fp) out buf needed cell cs (ics, s))
    = map_option served_buffer (files_current_directory fp out buf needed cell cs s)"
proof (cases "\<not> aligned_output needed 8 \<or> \<not> valid_buffer out (length buf)")
  case True
  then show ?thesis by (auto simp: files_current_directory_def forget_def served_buffer_def)
next
  case False
  then have "valid_buffer p (length buf)" "aligned_output p 8"
    using valid_place [OF assms(1)] aligned_place [OF assms(1)] by blast+
  then have "map_option (forget \<circ> served_buffer) (files_text 9 buf cs (fp_current_directory (stacked p fp)) (ics, s))
      = map_option served_buffer (files_text 9 buf cs (fp_current_directory fp) s)"
    using honest_textsD(1) [OF assms(2)] by (intro stack_text) (simp_all add: stacked_simps files_current_directory_def)
  then show ?thesis using False by (simp add: files_current_directory_def)
qed

lemma stack_path_text:
  assumes "host_place p" and "\<And>path b x. f path b s = Some x \<Longrightarrow> fst x \<noteq> Inl BufferTooSmall"
    and "\<And>path b. f' path b (ics, s) = map_option text_reply (inner_fill (path_text p (length path) path p b p 0 ics f s))"
  shows "map_option (forget \<circ> served_buffer) (path_text a (length d) d out buf needed cell cs f' (ics, s))
    = map_option served_buffer (path_text a (length d) d out buf needed cell cs f s)"
proof (cases "\<not> aligned_output needed 8 \<or> \<not> valid_buffer out (length buf) \<or> io_path a (length d) d = None")
  case True
  then show ?thesis by (auto simp: path_text_def forget_def served_buffer_def)
next
  case False
  then obtain q where q: "io_path a (length d) d = Some q" by auto
  have "valid_buffer p (length buf)" "aligned_output p 8" "io_path p (length d) d = Some d" "q = d"
    using valid_place [OF assms(1)] aligned_place [OF assms(1)] io_path_place [OF assms(1) q] io_path_bytes [OF q] False by auto
  then have "map_option (forget \<circ> served_buffer) (files_text F_LINK buf cs (f' d) (ics, s))
      = map_option served_buffer (files_text F_LINK buf cs (f d) s)"
    using assms(2) by (intro stack_text) (simp_all add: assms(3) path_text_def)
  then show ?thesis using False q \<open>q = d\<close> by (simp add: path_text_def)
qed

lemma stack_path_texts:
  assumes "host_place p" "honest_texts fp"
  shows "map_option (forget \<circ> served_buffer) (files_read_link (stacked p fp) a (length d) d out buf needed cell cs (ics, s))
      = map_option served_buffer (files_read_link fp a (length d) d out buf needed cell cs s)"
    and "map_option (forget \<circ> served_buffer) (files_real_path (stacked p fp) a (length d) d out buf needed cell cs (ics, s))
      = map_option served_buffer (files_real_path fp a (length d) d out buf needed cell cs s)"
  using honest_textsD(2,3) [OF assms(2)] unfolding files_read_link_def files_real_path_def
  by (intro stack_path_text [OF assms(1)]; simp add: stacked_simps files_read_link_def files_real_path_def)+

text \<open>Every request, and every sequence of requests.\<close>

lemma stack_serve:
  assumes "host_place p" "honest_texts fp"
  shows "map_option forget (files_serve (stacked p fp) q cs (ics, s)) = files_serve fp q cs s"
  by (cases q) (simp_all add: option.map_comp stack_handle_calls stack_set_file_times stack_lock
      stack_open [OF assms(1)] stack_directory_open [OF assms(1)] stack_status [OF assms(1)] stack_path_status [OF assms(1)]
      stack_read_at [OF assms(1)] stack_write_at [OF assms(1)] stack_directory_read [OF assms(1)] stack_set_times [OF assms(1)]
      stack_name_calls [OF assms(1)] stack_current_directory [OF assms] stack_path_texts [OF assms])

lemma stack_session:
  assumes "host_place p" "honest_texts fp"
  shows "map_option forget (files_session (stacked p fp) qs cs (ics, s)) = files_session fp qs cs s"
proof (induction qs arbitrary: cs ics s)
  case (Cons q qs)
  note one = stack_serve [OF assms, of q cs ics s]
  show ?case
  proof (cases "files_serve (stacked p fp) q cs (ics, s)")
    case None
    then show ?thesis using one by simp
  next
    case (Some x)
    obtain st cs' v ics' s' where x: "x = ((st, cs'), v, ics', s')" by (metis prod.collapse)
    then have "files_serve fp q cs s = Some ((st, cs'), v, s')" using one Some by (simp add: forget_def)
    then show ?thesis using Cons.IH [of cs' ics' s', symmetric] Some x
      by (cases "files_session (stacked p fp) qs cs' (ics', s')") (auto simp: forget_def split_beta)
  qed
qed (simp add: forget_def)

section \<open>The in-memory file system behind a C host table\<close>

text \<open>Its texts name the length they need: no step of a walk or of a climb to the root is short of a buffer.\<close>

lemma looks_honest:
  "get_node s i \<noteq> Inl BufferTooSmall" "get_entries s i \<noteq> Inl BufferTooSmall" "get_parent s i \<noteq> Inl BufferTooSmall"
  "get_working s \<noteq> Inl BufferTooSmall" "is_directory s i \<noteq> Inl BufferTooSmall"
  by (auto simp: get_node_def get_entries_def get_parent_def get_working_def is_directory_def node_kind_def ok_or_def r_bind_def
      split: option.splits body.splits sum.splits)

lemma walk_loop_honest: "walk_loop s policy parent texts entered slash found \<noteq> Inl BufferTooSmall"
proof (induction s policy parent texts entered slash found rule: walk_loop.induct)
  case (1 s policy parent texts entered slash found)
  obtain c texts' slash' where n: "next_component texts slash = (c, texts', slash')" by (metis prod_cases3)
  show ?case
  proof (cases c)
    case None
    then show ?thesis using n looks_honest
      by (subst walk_loop.simps) (auto split: option.splits sum.splits)
  next
    case (Some component)
    note IH = 1 [OF n [symmetric] Some refl]
    obtain r where r: "(case found of None \<Rightarrow> Inr parent | Some (_, node) \<Rightarrow> ok_or node NotFound) = r" by simp
    show ?thesis
    proof (cases r)
      case (Inl e)
      then have "e = NotFound" using r by (auto simp: ok_or_def split: option.splits prod.splits)
      then show ?thesis using n Some r Inl by (subst walk_loop.simps) simp
    next
      case (Inr up)
      show ?thesis using IH [OF r [unfolded Inr]] looks_honest(2) [of s up] looks_honest(3) [of s up] n Some r Inr
        by (subst walk_loop.simps) (auto simp: Let_def split: sum.split option.split body.split)
    qed
  qed
qed

lemma climb_up_honest: "climb_up s d = Some r \<Longrightarrow> r \<noteq> Inl BufferTooSmall"
proof (induction rule: climb_up.raw_induct [rotated 1, consumes 1])
  case (1 again s d r)
  then show ?case using looks_honest(2,3)
    by (auto simp: bind_eq_Some_conv r_bind_Inl_iff split: if_splits sum.splits option.splits)
qed

lemma spell_honest:
  assumes "spell s d nm out = Some x"
  shows "fst x \<noteq> Inl BufferTooSmall"
proof -
  obtain r where r: "climb_up s d = Some r"
    using assms by (auto simp: spell_def climb_def bind_eq_Some_conv)
  then show ?thesis using assms climb_up_honest [OF r]
    by (cases r) (auto simp: spell_def climb_def Let_def split: if_splits)
qed

lemma walk_honest: "walk s path policy \<noteq> Inl BufferTooSmall" "node_at s path policy \<noteq> Inl BufferTooSmall"
  using looks_honest(4) walk_loop_honest by (auto simp: walk_def node_at_def ok_or_def r_bind_Inl_iff split: sum.splits option.splits)

lemma memfs_honest: "honest_texts (memfs_files envs others)"
  unfolding honest_texts_def memfs_provider_defs
  by (auto simp: mfs_current_directory_def mfs_read_link_def mfs_real_path_def Let_def looks_honest walk_honest r_bind_Inl_iff
      dest: spell_honest split: sum.splits option.splits body.splits)

end
