(* ===== verification/Pal_Slot.thy ===== *)
theory Pal_Slot
  imports Pal_Table
begin

text \<open>
  Negotiation by concurrent callers (\<open>Slot\<close> and \<open>negotiate\<close> of \<open>src/src/lib.rs\<close>). A slot holds the
  state and the table; every atomic load, compare-exchange and store of \<open>negotiate\<close> is one step of a
  caller. \<open>outcomes\<close> are the results \<open>build\<close> may have: it probes the port, so two runs of it need not
  agree. The result of a caller is the table its pointer leads to, or \<open>None\<close> for NULL.
\<close>

abbreviation UNINITIALIZED :: nat where "UNINITIALIZED \<equiv> 0"
abbreviation NEGOTIATING :: nat where "NEGOTIATING \<equiv> 1"
abbreviation READY :: nat where "READY \<equiv> 2"
abbreviation REJECTED :: nat where "REJECTED \<equiv> 3"

record 'a slot =
  sl_state :: nat
  sl_api :: "'a option"

definition slot_new :: "'a slot" where
  "slot_new = \<lparr>sl_state = UNINITIALIZED, sl_api = None\<rparr>"

text \<open>
  \<open>Enter\<close> has the version asked for; \<open>Refused\<close> is NULL for another version. \<open>Trying\<close> has seen the slot
  unused, \<open>Won\<close> has made the exchange, \<open>Storing\<close> has built and holds the state it is to publish.
\<close>

datatype 'a caller = Enter nat | Refused | Loading | Trying | Won | Storing nat | Answered "'a option"

inductive slot_step :: "'a option set \<Rightarrow> 'a slot \<times> (nat \<Rightarrow> 'a caller) \<Rightarrow> 'a slot \<times> (nat \<Rightarrow> 'a caller) \<Rightarrow> bool"
  for outcomes where
  other_version: "ts t = Enter v \<Longrightarrow> v \<noteq> ABI_VERSION \<Longrightarrow> slot_step outcomes (s, ts) (s, ts(t := Refused))"
| this_version: "ts t = Enter v \<Longrightarrow> v = ABI_VERSION \<Longrightarrow> slot_step outcomes (s, ts) (s, ts(t := Loading))"
| ready: "ts t = Loading \<Longrightarrow> sl_state s = READY \<Longrightarrow> slot_step outcomes (s, ts) (s, ts(t := Answered (sl_api s)))"
| rejected: "ts t = Loading \<Longrightarrow> sl_state s = REJECTED \<Longrightarrow> slot_step outcomes (s, ts) (s, ts(t := Answered None))"
| spin: "ts t = Loading \<Longrightarrow> sl_state s = NEGOTIATING \<Longrightarrow> slot_step outcomes (s, ts) (s, ts)"
| unused: "ts t = Loading \<Longrightarrow> sl_state s = UNINITIALIZED \<Longrightarrow> slot_step outcomes (s, ts) (s, ts(t := Trying))"
| exchange: "ts t = Trying \<Longrightarrow> sl_state s = UNINITIALIZED \<Longrightarrow>
    slot_step outcomes (s, ts) (s\<lparr>sl_state := NEGOTIATING\<rparr>, ts(t := Won))"
| lost: "ts t = Trying \<Longrightarrow> sl_state s \<noteq> UNINITIALIZED \<Longrightarrow> slot_step outcomes (s, ts) (s, ts(t := Loading))"
| built: "ts t = Won \<Longrightarrow> Some a \<in> outcomes \<Longrightarrow> slot_step outcomes (s, ts) (s\<lparr>sl_api := Some a\<rparr>, ts(t := Storing READY))"
| unbuilt: "ts t = Won \<Longrightarrow> None \<in> outcomes \<Longrightarrow> slot_step outcomes (s, ts) (s, ts(t := Storing REJECTED))"
| publish: "ts t = Storing n \<Longrightarrow> slot_step outcomes (s, ts) (s\<lparr>sl_state := n\<rparr>, ts(t := Loading))"

definition winner :: "'a caller \<Rightarrow> bool" where
  "winner c = (case c of Won \<Rightarrow> True | Storing _ \<Rightarrow> True | _ \<Rightarrow> False)"

text \<open>Where a caller may be, given the slot.\<close>

definition caller_ok :: "'a option set \<Rightarrow> 'a slot \<Rightarrow> 'a caller \<Rightarrow> bool" where
  "caller_ok outcomes s c =
     (case c of
        Won \<Rightarrow> sl_state s = NEGOTIATING \<and> sl_api s = None
      | Storing n \<Rightarrow> sl_state s = NEGOTIATING \<and> n \<in> {READY, REJECTED} \<and> sl_api s \<in> outcomes \<and> (n = READY \<longleftrightarrow> sl_api s \<noteq> None)
      | Answered r \<Rightarrow> sl_state s \<in> {READY, REJECTED} \<and> r = sl_api s
      | _ \<Rightarrow> True)"

definition slot_ok :: "'a option set \<Rightarrow> 'a slot \<times> (nat \<Rightarrow> 'a caller) \<Rightarrow> bool" where
  "slot_ok outcomes = (\<lambda>(s, ts).
     sl_state s \<in> {UNINITIALIZED, NEGOTIATING, READY, REJECTED}
     \<and> (sl_state s = UNINITIALIZED \<longrightarrow> sl_api s = None)
     \<and> (sl_state s \<in> {READY, REJECTED} \<longrightarrow> sl_api s \<in> outcomes \<and> (sl_state s = READY \<longleftrightarrow> sl_api s \<noteq> None))
     \<and> (sl_state s = NEGOTIATING \<longrightarrow> (\<exists>t. winner (ts t)))
     \<and> (\<forall>t u. winner (ts t) \<and> winner (ts u) \<longrightarrow> t = u)
     \<and> (\<forall>t. caller_ok outcomes s (ts t)))"

lemma winner_simps [simp]:
  "winner Won" "winner (Storing n)" "\<not> winner (Enter v)" "\<not> winner Refused" "\<not> winner Loading" "\<not> winner Trying"
  "\<not> winner (Answered r)"
  by (simp_all add: winner_def)

lemma caller_ok_simps [simp]:
  "caller_ok B s (Enter v)" "caller_ok B s Refused" "caller_ok B s Loading" "caller_ok B s Trying"
  "caller_ok B s Won \<longleftrightarrow> sl_state s = NEGOTIATING \<and> sl_api s = None"
  "caller_ok B s (Storing n) \<longleftrightarrow> sl_state s = NEGOTIATING \<and> n \<in> {READY, REJECTED} \<and> sl_api s \<in> B \<and> (n = READY \<longleftrightarrow> sl_api s \<noteq> None)"
  "caller_ok B s (Answered r) \<longleftrightarrow> sl_state s \<in> {READY, REJECTED} \<and> r = sl_api s"
  by (auto simp: caller_ok_def)

lemma caller_ok_other:
  assumes "caller_ok B s c" "\<not> winner c" "sl_state s \<in> {READY, REJECTED} \<Longrightarrow> s' = s"
  shows "caller_ok B s' c"
  using assms by (cases c) (auto simp: caller_ok_def winner_def)

text \<open>A caller that is not the winner moves and leaves the slot alone.\<close>

lemma slot_ok_move:
  assumes "slot_ok B (s, ts)" "\<not> winner (ts t)" "\<not> winner c" "caller_ok B s c"
  shows "slot_ok B (s, ts(t := c))"
proof -
  have "\<exists>u. winner ((ts(t := c)) u)" if "\<exists>u. winner (ts u)"
    using that assms(2) by (metis fun_upd_other)
  then show ?thesis using assms by (auto simp: slot_ok_def)
qed

lemma slot_ok_step:
  assumes "slot_step B (s, ts) (s', ts')" "slot_ok B (s, ts)"
  shows "slot_ok B (s', ts')"
proof -
  have ok: "\<And>t. caller_ok B s (ts t)" "\<And>t u. winner (ts t) \<Longrightarrow> winner (ts u) \<Longrightarrow> t = u"
    using assms(2) by (auto simp: slot_ok_def)
  from assms(1) show ?thesis
  proof cases
    case (exchange t)
    then have "\<not> winner (ts u)" for u using ok(1) [of u] by (cases "ts u") auto
    then show ?thesis using exchange assms(2) caller_ok_other [OF ok(1)] by (auto simp: slot_ok_def)
  next
    case (built t a)
    then have "caller_ok B s' (ts u)" if "u \<noteq> t" for u
      using that ok(1) [of t] ok(2) [of t u] caller_ok_other [OF ok(1), of u s'] by auto
    then show ?thesis using built assms(2) ok(1) [of t] ok(2) [of t] by (auto simp: slot_ok_def)
  next
    case (publish t n)
    then have "caller_ok B s' (ts u)" if "u \<noteq> t" for u
      using that ok(1) [of t] ok(2) [of t u] caller_ok_other [OF ok(1), of u s'] by auto
    then show ?thesis using publish assms(2) ok(1) [of t] ok(2) [of t] by (auto simp: slot_ok_def)
  next
    case (unbuilt t)
    then show ?thesis using assms(2) ok(1) [of t] ok(2) [of t] by (auto simp: slot_ok_def)
  next
    case (ready t)
    then show ?thesis using slot_ok_move [OF assms(2)] by simp
  next
    case (rejected t)
    then show ?thesis using slot_ok_move [OF assms(2)] assms(2) by (auto simp: slot_ok_def)
  next
    case (spin t)
    then show ?thesis using assms(2) by simp
  qed (use slot_ok_move [OF assms(2)] in simp_all)
qed

text \<open>Runs start with an unused slot and callers that have only been called.\<close>

definition slot_start :: "(nat \<Rightarrow> 'a caller) \<Rightarrow> bool" where
  "slot_start ts \<longleftrightarrow> (\<forall>t. \<exists>v. ts t = Enter v)"

lemma slot_ok_start: "slot_start ts \<Longrightarrow> slot_ok B (slot_new, ts)"
proof -
  assume "slot_start ts"
  then have "\<not> winner (ts t)" "caller_ok B slot_new (ts t)" for t
    by (metis slot_start_def winner_simps(3), metis slot_start_def caller_ok_simps(1))
  then show ?thesis by (simp add: slot_ok_def slot_new_def)
qed

lemma slot_ok_run:
  assumes "(slot_step B)\<^sup>*\<^sup>* c c'" "slot_ok B c"
  shows "slot_ok B c'"
  using assms by (induction rule: rtranclp_induct) (metis prod.exhaust slot_ok_step)+

text \<open>A published slot is never written again, and an answer is final.\<close>

lemma published_step:
  assumes "slot_step B (s, ts) (s', ts')" "slot_ok B (s, ts)" "sl_state s \<in> {READY, REJECTED}"
  shows "s' = s" "ts t = Answered r \<Longrightarrow> ts' t = Answered r"
proof -
  have ok: "caller_ok B s (ts t)" for t using assms(2) by (simp add: slot_ok_def)
  from assms(1) show "s' = s"
  proof cases
    case (built t a) then show ?thesis using ok [of t] assms(3) by auto
  next
    case (publish t n) then show ?thesis using ok [of t] assms(3) by auto
  qed (use assms(3) in auto)
  from assms(1) show "ts' t = Answered r" if "ts t = Answered r"
    by cases (use that in auto)
qed

lemma published_run:
  assumes "(slot_step B)\<^sup>*\<^sup>* (s, ts) (s', ts')" "slot_ok B (s, ts)" "sl_state s \<in> {READY, REJECTED}"
  shows "s' = s \<and> (ts t = Answered r \<longrightarrow> ts' t = Answered r)"
  using assms(1)
proof (induction rule: rtranclp_induct2)
  case refl
  then show ?case by simp
next
  case (step s1 ts1 s2 ts2)
  have "slot_ok B (s1, ts1)" using slot_ok_run [OF step.hyps(1) assms(2)] .
  moreover have "s1 = s" using step.IH by simp
  ultimately show ?case using published_step [OF step.hyps(2)] assms(3) step.IH by metis
qed

text \<open>Every caller can always finish: the one that negotiates first, then anyone.\<close>

definition answered :: "'a caller \<Rightarrow> bool" where
  "answered c = (case c of Refused \<Rightarrow> True | Answered _ \<Rightarrow> True | _ \<Rightarrow> False)"

lemma load_answers:
  assumes "sl_state s \<in> {READY, REJECTED}" "ts t = Loading"
  shows "\<exists>ts'. (slot_step B)\<^sup>*\<^sup>* (s, ts) (s, ts') \<and> answered (ts' t)"
proof -
  obtain r where "slot_step B (s, ts) (s, ts(t := Answered r))"
    using assms slot_step.ready slot_step.rejected by blast
  then show ?thesis by (auto simp: answered_def intro!: exI [of _ "ts(t := Answered r)"])
qed

lemma published_answers:
  assumes "sl_state s \<in> {READY, REJECTED}" "slot_ok B (s, ts)"
  shows "\<exists>ts'. (slot_step B)\<^sup>*\<^sup>* (s, ts) (s, ts') \<and> answered (ts' t)"
proof -
  have via: ?thesis if "slot_step B (s, ts) (s, ts(t := Loading))"
    using load_answers [OF assms(1), of "ts(t := Loading)" t B] converse_rtranclp_into_rtranclp [of "slot_step B", OF that] by auto
  have "caller_ok B s (ts t)" using assms(2) by (simp add: slot_ok_def)
  then show ?thesis
  proof (cases "ts t")
    case (Enter v)
    show ?thesis
    proof (cases "v = ABI_VERSION")
      case True
      then show ?thesis using via slot_step.this_version [of ts t, OF Enter] by blast
    next
      case False
      have "answered ((ts(t := Refused)) t)" by (simp add: answered_def)
      then show ?thesis using slot_step.other_version [of ts t, OF Enter False] by blast
    qed
  next
    case Trying
    then show ?thesis using via slot_step.lost [of ts t, OF Trying] assms(1) by auto
  next
    case Loading
    then show ?thesis using load_answers [OF assms(1)] by blast
  qed (use assms(1) in \<open>auto simp: answered_def\<close>)
qed

lemma negotiation_ends:
  assumes "sl_state s = NEGOTIATING" "slot_ok B (s, ts)" "B \<noteq> {}"
  shows "\<exists>s' ts'. (slot_step B)\<^sup>*\<^sup>* (s, ts) (s', ts') \<and> sl_state s' \<in> {READY, REJECTED}"
proof -
  have store: "\<exists>s' ts'. (slot_step B)\<^sup>*\<^sup>* (s, ts) (s', ts') \<and> sl_state s' \<in> {READY, REJECTED}"
    if "ts t = Storing n" "n \<in> {READY, REJECTED}" for s ts t n
    using slot_step.publish [of ts t n B s] that by (intro exI [of _ "s\<lparr>sl_state := n\<rparr>"] exI [of _ "ts(t := Loading)"]) auto
  obtain t where t: "winner (ts t)" "caller_ok B s (ts t)" using assms by (auto simp: slot_ok_def)
  show ?thesis
  proof (cases "ts t")
    case Won
    obtain s1 n where one: "slot_step B (s, ts) (s1, ts(t := Storing n))" "n \<in> {READY, REJECTED}"
    proof -
      obtain b where "b \<in> B" using assms(3) by auto
      then show thesis using that slot_step.built [of ts t, OF Won] slot_step.unbuilt [of ts t, OF Won] by (cases b) blast+
    qed
    show ?thesis
      using store [of "ts(t := Storing n)" t n s1] one(2) converse_rtranclp_into_rtranclp [of "slot_step B", OF one(1)] by auto
  qed (use t store in auto)
qed

lemma unused_moves_on:
  assumes "sl_state s = UNINITIALIZED" "slot_ok B (s, ts)" "\<not> answered (ts t)"
  shows "\<exists>s' ts'. (slot_step B)\<^sup>*\<^sup>* (s, ts) (s', ts') \<and> (answered (ts' t) \<or> sl_state s' = NEGOTIATING)"
proof -
  have trying: "\<exists>s' ts'. (slot_step B)\<^sup>*\<^sup>* (s, ts) (s', ts') \<and> (answered (ts' t) \<or> sl_state s' = NEGOTIATING)"
    if "ts t = Trying" for ts
    using slot_step.exchange [of ts t, OF that assms(1), of B]
    by (intro exI [of _ "s\<lparr>sl_state := NEGOTIATING\<rparr>"] exI [of _ "ts(t := Won)"]) auto
  have loading: "\<exists>s' ts'. (slot_step B)\<^sup>*\<^sup>* (s, ts) (s', ts') \<and> (answered (ts' t) \<or> sl_state s' = NEGOTIATING)"
    if "ts t = Loading" for ts
    using trying [of "ts(t := Trying)"] converse_rtranclp_into_rtranclp [of "slot_step B", OF slot_step.unused [of ts t, OF that assms(1)]] by auto
  have "caller_ok B s (ts t)" using assms(2) by (simp add: slot_ok_def)
  then show ?thesis
  proof (cases "ts t")
    case (Enter v)
    show ?thesis
    proof (cases "v = ABI_VERSION")
      case True
      obtain s' ts' where "(slot_step B)\<^sup>*\<^sup>* (s, ts(t := Loading)) (s', ts')" "answered (ts' t) \<or> sl_state s' = NEGOTIATING"
        using loading [of "ts(t := Loading)"] by auto
      then show ?thesis using converse_rtranclp_into_rtranclp [of "slot_step B", OF slot_step.this_version [of ts t v B s, OF Enter True]] by metis
    next
      case False
      have "answered ((ts(t := Refused)) t)" by (simp add: answered_def)
      then show ?thesis using slot_step.other_version [of ts t, OF Enter False] by blast
    qed
  qed (use assms trying loading in \<open>auto simp: answered_def\<close>)
qed

lemma caller_can_finish:
  assumes "slot_ok B (s, ts)" "B \<noteq> {}"
  shows "\<exists>s' ts'. (slot_step B)\<^sup>*\<^sup>* (s, ts) (s', ts') \<and> answered (ts' t)"
proof -
  have published: "\<exists>s' ts'. (slot_step B)\<^sup>*\<^sup>* (s, ts) (s', ts') \<and> answered (ts' t)"
    if "slot_ok B (s, ts)" "sl_state s \<in> {READY, REJECTED}" for s ts
    using published_answers [OF that(2,1)] by blast
  have negotiating: "\<exists>s' ts'. (slot_step B)\<^sup>*\<^sup>* (s, ts) (s', ts') \<and> answered (ts' t)"
    if "slot_ok B (s, ts)" "sl_state s = NEGOTIATING" for s ts
    using negotiation_ends [OF that(2,1) assms(2)] published slot_ok_run [OF _ that(1)] rtranclp_trans by metis
  consider "answered (ts t)" | "sl_state s = UNINITIALIZED" "\<not> answered (ts t)" | "sl_state s = NEGOTIATING"
    | "sl_state s \<in> {READY, REJECTED}"
    using assms(1) by (auto simp: slot_ok_def)
  then show ?thesis
  proof cases
    case 2
    then show ?thesis using unused_moves_on [OF 2(1) assms(1) 2(2)] negotiating slot_ok_run [OF _ assms(1)] rtranclp_trans by metis
  qed (use published negotiating assms(1) in blast)+
qed

end
