(* ===== verification/Storage_Extents.thy ===== *)
theory Storage_Extents
  imports Pal_Core
begin

text \<open>
  Address ranges and lists of address ranges, shared by the storage providers: the free list of the
  wasm32 provider (\<open>src/crates/dotnet-pal-wasm\<close>), the region ledger (\<open>src/crates/dotnet-pal-storage\<close>)
  and the RAM region of the bare-metal port (\<open>src/examples/baremetal-aarch64\<close>).

  The two free lists keep the same discipline over different representations, so the discipline is
  stated here once, over pairs of a first and a past-the-end address: a list is \<open>spaced\<close> when it is
  in address order, holds no empty range and no two ranges touch. \<open>coalesce\<close> is the reference for
  returning a range, \<open>carve\<close> the reference for taking one. Each provider's operation is proved to be
  the reference on the image of its own list, and inherits what is proved here.
\<close>

section \<open>Ranges\<close>

type_synonym extent = "nat \<times> nat"

abbreviation lo :: "extent \<Rightarrow> nat" where "lo \<equiv> fst"
abbreviation hi :: "extent \<Rightarrow> nat" where "hi \<equiv> snd"

definition span :: "extent \<Rightarrow> nat set" where
  "span e = {lo e..<hi e}"

definition covered :: "extent list \<Rightarrow> nat set" where
  "covered es = (\<Union>e\<in>set es. span e)"

definition spaced :: "extent list \<Rightarrow> bool" where
  "spaced es \<longleftrightarrow> (\<forall>e\<in>set es. lo e < hi e) \<and> sorted_wrt (\<lambda>a b. hi a < lo b) es"

text \<open>Rounding up to a power of two, refused when the sum leaves a width whose greatest value is \<open>m\<close>.\<close>

definition align_within :: "nat \<Rightarrow> nat \<Rightarrow> nat \<Rightarrow> nat option" where
  "align_within m value alignment =
     (if value + (alignment - 1) \<le> m then Some (mask_down (value + (alignment - 1)) alignment) else None)"

section \<open>Reference operations\<close>

fun coalesce :: "extent \<Rightarrow> extent list \<Rightarrow> extent list" where
  "coalesce (l, h) [] = [(l, h)]"
| "coalesce (l, h) ((a, b) # es) =
     (if b < l then (a, b) # coalesce (l, h) es
      else if b = l then coalesce (a, h) es
      else if h = a then (l, b) # es
      else (l, h) # (a, b) # es)"

text \<open>The first address of \<open>e\<close> where \<open>sz\<close> bytes at the alignment fit.\<close>

definition fit :: "nat \<Rightarrow> nat \<Rightarrow> nat \<Rightarrow> bool \<Rightarrow> extent \<Rightarrow> nat option" where
  "fit m sz alignment full e =
     (case align_within m (lo e) alignment of
        None \<Rightarrow> None
      | Some start \<Rightarrow>
          if m < start + sz \<or> hi e < start + sz then None
          else if lo e < start \<and> start + sz < hi e \<and> full then None
          else Some start)"

definition remainders :: "extent \<Rightarrow> extent \<Rightarrow> extent list" where
  "remainders e t =
     (if lo e < lo t then [(lo e, lo t)] else []) @ (if hi t < hi e then [(hi t, hi e)] else [])"

text \<open>First fit: the block taken and the list without it.\<close>

fun carve :: "nat \<Rightarrow> nat \<Rightarrow> nat \<Rightarrow> bool \<Rightarrow> extent list \<Rightarrow> (nat \<times> extent list) option" where
  "carve m sz alignment full [] = None"
| "carve m sz alignment full (e # es) =
     (case fit m sz alignment full e of
        Some start \<Rightarrow> Some (start, remainders e (start, start + sz) @ es)
      | None \<Rightarrow> map_option (\<lambda>(start, es). (start, e # es)) (carve m sz alignment full es))"

section \<open>Facts\<close>

lemma covered_simps [simp]:
  "covered [] = {}"
  "covered (e # es) = span e \<union> covered es"
  "covered (xs @ ys) = covered xs \<union> covered ys"
  by (auto simp: covered_def)

lemma apart_simps [simp]:
  "spaced []"
  "spaced (e # es) \<longleftrightarrow> lo e < hi e \<and> (\<forall>f\<in>set es. hi e < lo f) \<and> spaced es"
  "spaced (xs @ ys) \<longleftrightarrow> spaced xs \<and> spaced ys \<and> (\<forall>a\<in>set xs. \<forall>b\<in>set ys. hi a < lo b)"
  by (auto simp: spaced_def sorted_wrt_append)

lemma covered_iff: "x \<in> covered es \<longleftrightarrow> (\<exists>e\<in>set es. lo e \<le> x \<and> x < hi e)"
  by (auto simp: covered_def span_def)

lemma span_subset_covered: "e \<in> set es \<Longrightarrow> span e \<subseteq> covered es"
  by (auto simp: covered_def)

text \<open>Two ranges miss each other exactly when the overlap test of the code says so.\<close>

lemma span_disjoint_iff:
  assumes "a < b" "c < d"
  shows "span (a, b) \<inter> span (c, d) = {} \<longleftrightarrow> \<not> (a < d \<and> c < b)"
proof -
  have "max a c \<in> span (a, b) \<inter> span (c, d)" if "a < d" "c < b" using that assms by (auto simp: span_def)
  then show ?thesis by (auto simp: span_def)
qed

lemma disjoint_apart_hd:
  assumes "span (l, h) \<inter> span (a, b) = {}" "l < h" "a < b" "l \<le> b"
  shows "h \<le> a \<or> b = l"
  using assms by (simp add: span_disjoint_iff) linarith

lemma coalesce_lo:
  assumes "\<forall>f\<in>set es. c < lo f" "c < l"
  shows "\<forall>f\<in>set (coalesce (l, h) es). c < lo f"
  using assms
proof (induction es arbitrary: l)
  case (Cons e es)
  show ?case using Cons.prems Cons.IH [of l] Cons.IH [of "lo e"] by (cases e) simp
qed simp

lemma covered_above:
  assumes "x \<in> covered es" "\<forall>f\<in>set es. c < lo f"
  shows "c < x"
proof -
  obtain e where "e \<in> set es" "lo e \<le> x" using assms(1) by (auto simp: covered_iff)
  then show ?thesis using assms(2) by fastforce
qed

lemma covered_below:
  assumes "x \<in> covered es" "\<forall>f\<in>set es. hi f < c"
  shows "x < c"
proof -
  obtain e where "e \<in> set es" "x < hi e" using assms(1) by (auto simp: covered_iff)
  then show ?thesis using assms(2) by fastforce
qed

lemma apart_nonempty: "spaced es \<Longrightarrow> e \<in> set es \<Longrightarrow> lo e < hi e"
  by (simp add: spaced_def)

lemma apart_beside: "spaced es \<Longrightarrow> e \<in> set es \<Longrightarrow> f \<in> set es \<Longrightarrow> e = f \<or> hi e < lo f \<or> hi f < lo e"
  by (induction es) auto

lemma covered_bounds:
  assumes "spaced es" "covered es \<subseteq> {a..<b}" "e \<in> set es"
  shows "a \<le> lo e" "hi e \<le> b"
proof -
  have "lo e \<in> covered es" "hi e - 1 \<in> covered es"
    using apart_nonempty [OF assms(1,3)] span_subset_covered [OF assms(3)] by (auto simp: span_def)
  then have "lo e \<in> {a..<b}" "hi e - 1 \<in> {a..<b}" using assms(2) by blast+
  then show "a \<le> lo e" "hi e \<le> b" by auto
qed

lemma covered_widen:
  assumes "span (l, h) \<inter> covered es = {}" "\<forall>f\<in>set es. l < lo f"
  shows "span (a, h) \<inter> covered es = {}"
proof -
  have "\<not> (x < h)" if "x \<in> covered es" for x
    using assms(1) covered_above [OF that assms(2)] that by (auto simp: span_def disjoint_iff)
  then show ?thesis by (auto simp: span_def)
qed

lemma coalesce_covered:
  assumes "spaced es" "l < h" "span (l, h) \<inter> covered es = {}"
  shows "covered (coalesce (l, h) es) = span (l, h) \<union> covered es"
  using assms
proof (induction es arbitrary: l)
  case (Cons e es)
  obtain a b where e: "e = (a, b)" by force
  have ab: "a < b" and off: "span (l, h) \<inter> span (a, b) = {}" "span (l, h) \<inter> covered es = {}"
    and far: "\<forall>f\<in>set es. b < lo f" "spaced es" using Cons.prems e by auto
  show ?case
  proof (cases "b = l")
    case True
    have "span (a, h) \<inter> covered es = {}"
      using covered_widen [OF off(2)] far(1) True by blast
    moreover have "span (a, h) = span (a, b) \<union> span (l, h)" using True ab \<open>l < h\<close> by (auto simp: span_def)
    ultimately show ?thesis using Cons e True ab by auto
  next
    case False
    consider "b < l" | "\<not> b < l" "h = a" | "\<not> b < l" "h \<noteq> a" by blast
    then show ?thesis
    proof cases
      case 2
      then have "span (l, b) = span (l, h) \<union> span (a, b)" using ab \<open>l < h\<close> by (auto simp: span_def)
      then show ?thesis using 2 e False by (simp add: Un_assoc)
    qed (use Cons.IH [OF far(2) \<open>l < h\<close> off(2)] e False in \<open>simp_all add: Un_left_commute\<close>)
  qed
qed simp

lemma coalesce_apart:
  assumes "spaced es" "l < h" "span (l, h) \<inter> covered es = {}"
  shows "spaced (coalesce (l, h) es)"
  using assms
proof (induction es arbitrary: l)
  case (Cons e es)
  obtain a b where e: "e = (a, b)" by force
  have ab: "a < b" and off: "span (l, h) \<inter> span (a, b) = {}" "span (l, h) \<inter> covered es = {}"
    and far: "\<forall>f\<in>set es. b < lo f" "spaced es" using Cons.prems e by auto
  consider "b < l" | "b = l" | "l < b" by linarith
  then show ?case
  proof cases
    case 1
    then show ?thesis using Cons e off far ab coalesce_lo [of es b l h] by simp
  next
    case 2
    have "span (a, h) \<inter> covered es = {}"
      using covered_widen [OF off(2)] far(1) 2 by blast
    then show ?thesis using Cons e 2 ab by simp
  next
    case 3
    then have "h \<le> a" using disjoint_apart_hd [OF off(1) \<open>l < h\<close> ab] by simp
    moreover have "\<forall>f\<in>set es. h < lo f" using far(1) ab calculation by (metis le_less_trans less_trans)
    ultimately show ?thesis using 3 e far ab \<open>l < h\<close> by simp
  qed
qed simp

lemma coalesce_length: "length (coalesce e es) \<le> Suc (length es)"
  by (induction e es rule: coalesce.induct) auto

lemma align_within_Some:
  assumes "align_within m value alignment = Some start" "is_power_of_two alignment" "m \<le> USIZE_MAX"
  shows "alignment dvd start" "value \<le> start" "start < value + alignment" "start \<le> m"
proof -
  have "start = value + (alignment - 1) - (value + (alignment - 1)) mod alignment" "value + (alignment - 1) \<le> m"
    using assms by (auto simp: align_within_def mask_down_pow2 split: if_splits)
  moreover from this(1) have "alignment dvd start \<and> value \<le> start \<and> start < value + alignment"
    by (simp only: next_multiple [OF is_power_of_two_pos [OF assms(2)]])
  ultimately show "alignment dvd start" "value \<le> start" "start < value + alignment" "start \<le> m" by auto
qed

text \<open>The rounded address is the least aligned one at or above the start of the range.\<close>

lemma align_within_least:
  assumes "align_within m value alignment = Some start" "is_power_of_two alignment" "m \<le> USIZE_MAX"
    "alignment dvd a" "value \<le> a"
  shows "start \<le> a"
proof (rule ccontr)
  assume "\<not> start \<le> a"
  then have less: "a < start" "start < a + alignment" using align_within_Some [OF assms(1-3)] assms(5) by auto
  have "alignment dvd start - a" using align_within_Some(1) [OF assms(1-3)] assms(4) by (rule dvd_diff_nat)
  then have "alignment \<le> start - a" using less(1) by (simp add: dvd_imp_le)
  then show False using less by linarith
qed

lemma fit_Some:
  assumes "fit m sz alignment full e = Some start" "is_power_of_two alignment" "m \<le> USIZE_MAX"
  shows "alignment dvd start" "lo e \<le> start" "start + sz \<le> hi e" "start + sz \<le> m"
    "full \<Longrightarrow> lo e = start \<or> start + sz = hi e"
  using assms align_within_Some [of m "lo e" alignment start]
  by (auto simp: fit_def split: option.splits if_splits)

text \<open>A range that is skipped has no aligned room, or the list has no record left for a second remainder.\<close>

lemma fit_None:
  assumes "fit m sz alignment full e = None" "is_power_of_two alignment" "m \<le> USIZE_MAX"
    "hi e \<le> m" "\<not> full" "alignment dvd a" "lo e \<le> a" "a + sz \<le> hi e" "lo e + (alignment - 1) \<le> m"
  shows False
proof -
  obtain start where start: "align_within m (lo e) alignment = Some start"
    using assms(9) by (auto simp: align_within_def)
  have "start \<le> a" by (rule align_within_least [OF start assms(2,3,6,7)])
  then show False using assms start by (auto simp: fit_def split: if_splits)
qed

lemma remainders_facts:
  assumes "lo e \<le> l" "l < h" "h \<le> hi e"
  shows "covered (remainders e (l, h)) = span e - span (l, h)" "spaced (remainders e (l, h))"
    "\<forall>r\<in>set (remainders e (l, h)). lo e \<le> lo r \<and> hi r \<le> hi e"
    "length (remainders e (l, h)) = (if lo e < l then 1 else 0) + (if h < hi e then 1 else 0)"
  using assms by (auto simp: remainders_def span_def)

lemma carve_Some:
  assumes "carve m sz alignment full es = Some (start, es')" "spaced es" "0 < sz"
    "is_power_of_two alignment" "m \<le> USIZE_MAX"
  shows "alignment dvd start \<and> start + sz \<le> m \<and> span (start, start + sz) \<subseteq> covered es
    \<and> covered es' = covered es - span (start, start + sz) \<and> spaced es'
    \<and> length es' \<le> (if full then length es else Suc (length es))
    \<and> (\<forall>c. (\<forall>f\<in>set es. c < lo f) \<longrightarrow> (\<forall>f\<in>set es'. c < lo f))"
  using assms(1,2)
proof (induction es arbitrary: start es')
  case (Cons e es)
  have far: "\<forall>f\<in>set es. hi e < lo f" "lo e < hi e" "spaced es" using Cons.prems(2) by simp_all
  have off: "span e \<inter> covered es = {}" using covered_above [OF _ far(1)] by (fastforce simp: span_def)
  show ?case
  proof (cases "fit m sz alignment full e")
    case None
    then obtain es1 where es1: "carve m sz alignment full es = Some (start, es1)" "es' = e # es1"
      using Cons.prems(1) by (auto split: option.splits)
    note IH = Cons.IH [OF es1(1) far(3)]
    have "span e - span (start, start + sz) = span e" using IH off by blast
    then have "covered es' = covered (e # es) - span (start, start + sz)" using IH es1(2) by auto
    moreover have "span (start, start + sz) \<subseteq> covered (e # es)" using IH by auto
    moreover have "spaced es'" using IH es1(2) far by simp
    moreover have "length es' \<le> (if full then length (e # es) else Suc (length (e # es)))"
      using IH es1(2) by (cases full) simp_all
    ultimately show ?thesis using IH es1(2) by simp
  next
    case (Some s)
    note f = fit_Some [OF Some assms(4,5)]
    have new: "start = s" "es' = remainders e (s, s + sz) @ es" using Some Cons.prems(1) by auto
    note r = remainders_facts [OF f(2) _ f(3)]
    have "span (s, s + sz) \<subseteq> span e" using f by (auto simp: span_def)
    then have "covered es' = covered (e # es) - span (s, s + sz)" using r(1) assms(3) off new(2) by auto
    moreover have "\<forall>a\<in>set (remainders e (s, s + sz)). \<forall>b\<in>set es. hi a < lo b"
      using r(3) assms(3) far(1) by (meson le_less_trans less_add_same_cancel1)
    moreover have "c < lo g" if "\<forall>g\<in>set (e # es). c < lo g" "g \<in> set es'" for c g
    proof -
      have "g \<in> set es \<or> lo e \<le> lo g" using that(2) new(2) r(3) assms(3) by auto
      then show ?thesis using that(1) by (metis less_le_trans list.set_intros)
    qed
    moreover have "length es' \<le> (if full then length (e # es) else Suc (length (e # es)))"
      using f(5) r(4) assms(3) new(2) by (cases full) auto
    moreover have "spaced es'" using r(2) assms(3) far(3) calculation(2) new(2) by simp
    moreover have "span (s, s + sz) \<subseteq> covered (e # es)" using \<open>span (s, s + sz) \<subseteq> span e\<close> by auto
    ultimately show ?thesis using f(1,4) new(1) by blast
  qed
qed simp

lemma carve_None: "carve m sz alignment full es = None \<longleftrightarrow> (\<forall>e\<in>set es. fit m sz alignment full e = None)"
  by (induction es) (auto split: option.splits)

section \<open>Insertion at an index\<close>

text \<open>
  Both providers insert at the index of the first range above the new one and look at its two
  neighbours. These facts turn that into \<open>coalesce\<close>.
\<close>

lemma coalesce_between:
  assumes "\<forall>e\<in>set pre. hi e < l" "\<forall>e\<in>set post. l < hi e \<and> h < lo e"
  shows "coalesce (l, h) (pre @ post) = pre @ (l, h) # post"
  using assms(1)
proof (induction pre)
  case Nil
  then show ?case using assms(2) by (cases post) auto
next
  case (Cons p pre)
  then show ?case by (cases p) simp
qed

lemma coalesce_front:
  assumes "\<forall>e\<in>set post. l < hi e"
  shows "coalesce (l, h) post =
    (if post \<noteq> [] \<and> lo (hd post) = h then (l, hi (hd post)) # tl post else (l, h) # post)"
  using assms by (cases post) auto

lemma coalesce_split:
  assumes "spaced (pre @ post)" "span (l, h) \<inter> covered (pre @ post) = {}" "l < h"
    "\<forall>e\<in>set pre. lo e \<le> l" "\<forall>e\<in>set post. l \<le> lo e"
  shows "coalesce (l, h) (pre @ post) =
    (let after_previous = pre \<noteq> [] \<and> hi (last pre) = l; before_next = post \<noteq> [] \<and> lo (hd post) = h;
         pre' = if after_previous then butlast pre else pre; l' = if after_previous then lo (last pre) else l
     in pre' @ (if before_next then (l', hi (hd post)) # tl post else (l', h) # post))"
  using assms(1,2,4)
proof (induction pre)
  case Nil
  have "\<forall>e\<in>set post. l < hi e" using assms(5) Nil(1) by (auto simp: spaced_def intro: le_less_trans)
  then show ?case by (simp add: coalesce_front)
next
  case (Cons p pre)
  obtain a b where p: "p = (a, b)" by force
  have ab: "a < b" "a \<le> l" and far: "\<forall>e\<in>set (pre @ post). b < lo e" using Cons.prems p by auto
  have "l \<notin> span (a, b)" using Cons.prems(2) assms(3) p by (auto simp: span_def)
  then have "b \<le> l" using ab by (auto simp: span_def)
  show ?case
  proof (cases "b = l")
    case True
    have "pre = []" using Cons.prems(3) far True by (cases pre) auto
    moreover have "\<forall>e\<in>set post. a < hi e"
    proof
      fix e
      assume "e \<in> set post"
      then have "b < lo e" "lo e < hi e" using far Cons.prems(1) by (auto simp: spaced_def)
      then show "a < hi e" using ab by linarith
    qed
    ultimately show ?thesis using True p ab by (simp add: coalesce_front Let_def)
  next
    case False
    then have "coalesce (l, h) ((p # pre) @ post) = p # coalesce (l, h) (pre @ post)" using \<open>b \<le> l\<close> p by simp
    moreover have "span (l, h) \<inter> covered (pre @ post) = {}" using Cons.prems(2) by auto
    ultimately show ?thesis using Cons.IH Cons.prems(1,3) False p by (simp add: Let_def)
  qed
qed

lemma coalesce_at:
  assumes "spaced es" "span (l, h) \<inter> covered es = {}" "l < h" "i \<le> length es"
    "\<And>j. j < i \<Longrightarrow> lo (es ! j) \<le> l" "\<And>j. i \<le> j \<Longrightarrow> j < length es \<Longrightarrow> l \<le> lo (es ! j)"
  shows "coalesce (l, h) es =
    (let after_previous = 0 < i \<and> hi (es ! (i - 1)) = l; before_next = i < length es \<and> lo (es ! i) = h;
         l' = if after_previous then lo (es ! (i - 1)) else l
     in take (if after_previous then i - 1 else i) es
        @ (if before_next then (l', hi (es ! i)) # drop (Suc i) es else (l', h) # drop i es))"
proof -
  let ?pre = "take i es" and ?post = "drop i es"
  have split: "es = ?pre @ ?post" by simp
  have "\<forall>e\<in>set ?pre. lo e \<le> l" "\<forall>e\<in>set ?post. l \<le> lo e" unfolding all_set_conv_all_nth using assms(4-6) by simp_all
  note cs = coalesce_split [OF assms(1,2) [unfolded arg_cong [OF split, of spaced] arg_cong [OF split, of covered]] assms(3) this]
  have last: "last ?pre = es ! (i - 1)" if "0 < i" using that assms(4) by (subst last_conv_nth) (auto simp: min_def)
  have butlast: "butlast ?pre = take (i - 1) es" using assms(4) by (simp add: butlast_take)
  have hd: "hd ?post = es ! i" "tl ?post = drop (Suc i) es" if "i < length es"
    using that by (simp_all add: hd_drop_conv_nth drop_Suc tl_drop)
  define ap where "ap \<longleftrightarrow> 0 < i \<and> hi (es ! (i - 1)) = l"
  define bn where "bn \<longleftrightarrow> i < length es \<and> lo (es ! i) = h"
  have "?pre \<noteq> [] \<and> hi (last ?pre) = l \<longleftrightarrow> ap" "?post \<noteq> [] \<and> lo (hd ?post) = h \<longleftrightarrow> bn"
    using last hd(1) assms(4) by (auto simp: ap_def bn_def)
  note cs [unfolded this Let_def append_take_drop_id]
  moreover have "ap \<Longrightarrow> lo (last ?pre) = lo (es ! (i - 1))" "bn \<Longrightarrow> hi (hd ?post) = hi (es ! i)" "bn \<Longrightarrow> tl ?post = drop (Suc i) es"
    using last hd by (auto simp: ap_def bn_def)
  ultimately show ?thesis
    unfolding Let_def ap_def [symmetric] bn_def [symmetric] butlast by (cases ap; cases bn; simp)
qed

lemma update_before:
  assumes "0 < i" "i \<le> length xs"
  shows "xs[i - 1 := x] = take (i - 1) xs @ x # drop i xs"
  using assms by (simp add: upd_conv_take_nth_drop)

text \<open>Giving back what was just carved restores the list itself, record for record.\<close>

lemma coalesce_remainders:
  assumes "lo e \<le> s" "s < t" "t \<le> hi e" "\<forall>f\<in>set es. hi e < lo f" "spaced es"
  shows "coalesce (s, t) (remainders e (s, t) @ es) = e # es"
proof -
  have *: "coalesce (l, hi e) es = (l, hi e) # es" if "l < hi e" for l
  proof (cases es)
    case (Cons f fs)
    then show ?thesis using assms(4,5) that by (cases f) auto
  qed simp
  show ?thesis using assms(1-3) * [of "lo e"] * [of s] by (cases e) (auto simp: remainders_def)
qed

lemma carve_coalesce:
  assumes "carve m sz alignment full es = Some (start, es')" "spaced es" "0 < sz" "is_power_of_two alignment" "m \<le> USIZE_MAX"
  shows "coalesce (start, start + sz) es' = es"
  using assms(1,2)
proof (induction es arbitrary: es')
  case (Cons e es)
  have far: "\<forall>f\<in>set es. hi e < lo f" "lo e < hi e" "spaced es" using Cons.prems(2) by simp_all
  show ?case
  proof (cases "fit m sz alignment full e")
    case None
    then obtain es1 where es1: "carve m sz alignment full es = Some (start, es1)" "es' = e # es1"
      using Cons.prems(1) by (auto split: option.splits)
    have "start \<in> covered es" using carve_Some [OF es1(1) far(3) assms(3-5)] assms(3) by (auto simp: span_def)
    then have "hi e < start" using covered_above far(1) by blast
    then show ?thesis using Cons.IH [OF es1(1) far(3)] es1(2) by (cases e) simp
  next
    case (Some s)
    note f = fit_Some [OF Some assms(4,5)]
    have new: "start = s" "es' = remainders e (s, s + sz) @ es" using Some Cons.prems(1) by auto
    show ?thesis unfolding new by (rule coalesce_remainders [OF f(2) _ f(3) far(1,3)]) (use assms(3) in simp)
  qed
qed simp

section \<open>The contract of a free list\<close>

text \<open>
  What a client of a free list relies on: a range that is taken was free and is no longer, a range
  that is given back is free again, a refusal changes nothing. \<open>bytes\<close> are the free addresses and
  \<open>lim\<close> is the greatest past-the-end address the list can hold.
\<close>

locale free_store =
  fixes take_fn :: "'l \<Rightarrow> nat \<Rightarrow> nat \<Rightarrow> nat option \<times> 'l" and give_fn :: "'l \<Rightarrow> nat \<Rightarrow> nat \<Rightarrow> bool \<times> 'l"
    and ok :: "'l \<Rightarrow> bool" and bytes :: "'l \<Rightarrow> nat set" and lim :: nat
  assumes taken: "ok l \<Longrightarrow> 0 < sz \<Longrightarrow> is_power_of_two alignment \<Longrightarrow> take_fn l sz alignment = (Some a, l') \<Longrightarrow>
      ok l' \<and> alignment dvd a \<and> a + sz \<le> lim \<and> span (a, a + sz) \<subseteq> bytes l \<and> bytes l' = bytes l - span (a, a + sz)"
    and not_taken: "ok l \<Longrightarrow> 0 < sz \<Longrightarrow> is_power_of_two alignment \<Longrightarrow> take_fn l sz alignment = (None, l') \<Longrightarrow> l' = l"
    and given: "ok l \<Longrightarrow> 0 < sz \<Longrightarrow> a + sz \<le> lim \<Longrightarrow> span (a, a + sz) \<inter> bytes l = {} \<Longrightarrow>
      give_fn l a sz = (True, l') \<Longrightarrow> ok l' \<and> bytes l' = bytes l \<union> span (a, a + sz)"
    and not_given: "ok l \<Longrightarrow> 0 < sz \<Longrightarrow> a + sz \<le> lim \<Longrightarrow> span (a, a + sz) \<inter> bytes l = {} \<Longrightarrow>
      give_fn l a sz = (False, l') \<Longrightarrow> l' = l"
begin

lemma take_give_round_trip:
  assumes "ok l" "0 < sz" "is_power_of_two alignment" "take_fn l sz alignment = (Some a, l1)" "give_fn l1 a sz = (True, l2)"
  shows "ok l2 \<and> bytes l2 = bytes l"
proof -
  note t = taken [OF assms(1-4)]
  then show ?thesis using given [of l1 sz a l2] assms(2,5) by auto
qed

lemma takes_disjoint:
  assumes "ok l" "0 < sz" "is_power_of_two alignment" "take_fn l sz alignment = (Some a, l1)"
    "0 < sz'" "is_power_of_two alignment'" "take_fn l1 sz' alignment' = (Some b, l2)"
  shows "span (a, a + sz) \<inter> span (b, b + sz') = {}"
  using taken [OF assms(1-4)] taken [of l1 sz' alignment' b l2] assms(5-7) by blast

end

end
