(* ===== verification/Storage_Contract.thy ===== *)
theory Storage_Contract
  imports Storage_Extents
begin

text \<open>
  What the linear-storage table of the boundary (\<open>linear_api\<close> of \<open>src/src/lib.rs\<close>, modelled in
  \<open>Pal_Core\<close>) promises its caller, and what a provider has to keep for that.

  The specification is a machine over a map of live blocks and the bytes of memory: a step grants a
  fresh zeroed block that meets no live one, frees a live block, clears part of one, or changes
  nothing. The locale \<open>linear_storage\<close> is the contract of the \<open>LinearStorage\<close> trait; inside it the
  checked entry points are shown to run that machine, and whatever holds of the machine follows.
\<close>

section \<open>The specification\<close>

type_synonym memory = "nat \<Rightarrow> byte"
type_synonym blocks = "nat \<Rightarrow> nat option"

definition write_zeros :: "nat \<Rightarrow> nat \<Rightarrow> memory \<Rightarrow> memory" where
  "write_zeros address sz mem = (\<lambda>a. if address \<le> a \<and> a < address + sz then 0 else mem a)"

definition misses :: "nat \<Rightarrow> nat \<Rightarrow> blocks \<Rightarrow> bool" where
  "misses a sz B \<longleftrightarrow> (\<forall>b n. B b = Some n \<longrightarrow> span (a, a + sz) \<inter> span (b, b + n) = {})"

definition inside_block :: "nat \<Rightarrow> nat \<Rightarrow> blocks \<Rightarrow> bool" where
  "inside_block a sz B \<longleftrightarrow> (\<exists>b n. B b = Some n \<and> b \<le> a \<and> a + sz \<le> b + n)"

definition blocks_ok :: "nat \<Rightarrow> blocks \<Rightarrow> bool" where
  "blocks_ok lim B \<longleftrightarrow> finite (dom B) \<and> (\<forall>b n. B b = Some n \<longrightarrow> 0 < b \<and> 0 < n \<and> b + n \<le> lim)
     \<and> (\<forall>b n c m. B b = Some n \<longrightarrow> B c = Some m \<longrightarrow> b \<noteq> c \<longrightarrow> span (b, b + n) \<inter> span (c, c + m) = {})"

definition live_bytes :: "blocks \<Rightarrow> nat" where
  "live_bytes B = (\<Sum>b\<in>dom B. the (B b))"

inductive heap_step :: "nat \<Rightarrow> blocks \<times> memory \<Rightarrow> blocks \<times> memory \<Rightarrow> bool" for lim where
  grant: "misses a sz B \<Longrightarrow> 0 < a \<Longrightarrow> 0 < sz \<Longrightarrow> a + sz \<le> lim \<Longrightarrow>
    heap_step lim (B, m) (B(a \<mapsto> sz), write_zeros a sz m)"
| free: "B a = Some sz \<Longrightarrow> heap_step lim (B, m) (B(a := None), m)"
| clear: "inside_block a sz B \<Longrightarrow> 0 < sz \<Longrightarrow> heap_step lim (B, m) (B, write_zeros a sz m)"
| refuse: "heap_step lim (B, m) (B, m)"

text \<open>A call through the table: whatever the caller passes, from one provider state and counters to the next.\<close>

inductive linear_call :: "'s linear_provider \<Rightarrow> 's \<times> counters \<Rightarrow> 's \<times> counters \<Rightarrow> bool" for l where
  call_allocate: "linear_allocate l sz alignment fl out cell cs s = ((st, cs'), cell', s') \<Longrightarrow>
    linear_call l (s, cs) (s', cs')"
| call_zero: "linear_zero l address sz cs s = ((st, cs'), s') \<Longrightarrow> linear_call l (s, cs) (s', cs')"
| call_release: "linear_release l address sz cs s = ((st, cs'), s') \<Longrightarrow> linear_call l (s, cs) (s', cs')"

inductive_cases heap_stepE: "heap_step lim s t"

section \<open>The specification keeps blocks apart\<close>

lemma blocks_okD:
  assumes "blocks_ok lim B" "B b = Some n"
  shows "0 < b" "0 < n" "b + n \<le> lim"
  using assms by (simp_all add: blocks_ok_def)

lemma blocks_ok_disjoint:
  "blocks_ok lim B \<Longrightarrow> B b = Some n \<Longrightarrow> B c = Some m \<Longrightarrow> b \<noteq> c \<Longrightarrow> span (b, b + n) \<inter> span (c, c + m) = {}"
  by (simp add: blocks_ok_def)

lemma missesD: "misses a sz B \<Longrightarrow> B b = Some n \<Longrightarrow> span (a, a + sz) \<inter> span (b, b + n) = {}"
  by (simp add: misses_def)

lemma misses_fresh:
  assumes "misses a sz B" "blocks_ok lim B" "0 < sz"
  shows "B a = None"
proof (rule ccontr)
  assume "B a \<noteq> None"
  then obtain n where n: "B a = Some n" by blast
  have "a \<in> span (a, a + sz) \<inter> span (a, a + n)" using assms(3) blocks_okD(2) [OF assms(2) n] by (simp add: span_def)
  then show False using missesD [OF assms(1) n] by blast
qed

lemma blocks_ok_grant:
  assumes "blocks_ok lim B" "misses a sz B" "0 < a" "0 < sz" "a + sz \<le> lim"
  shows "blocks_ok lim (B(a \<mapsto> sz))"
  using assms unfolding blocks_ok_def misses_def by (auto split: if_splits)

lemma blocks_ok_free: "blocks_ok lim B \<Longrightarrow> blocks_ok lim (B(a := None))"
  unfolding blocks_ok_def by (auto split: if_splits)

lemma heap_step_ok: "heap_step lim (B, m) (B', m') \<Longrightarrow> blocks_ok lim B \<Longrightarrow> blocks_ok lim B'"
  by (auto elim!: heap_stepE intro: blocks_ok_grant blocks_ok_free)

text \<open>A byte of a live block changes only when the block is cleared there: no grant reaches it.\<close>

lemma heap_step_keeps:
  assumes "heap_step lim (B, m) (B', m')" "B b = Some n" "x \<in> span (b, b + n)"
  shows "m' x = m x \<or> m' x = 0 \<and> B' = B"
  using assms(1)
proof cases
  case (grant a sz)
  have "x \<notin> span (a, a + sz)" using missesD [OF grant(3) assms(2)] assms(3) by blast
  then show ?thesis using grant(2) by (auto simp: write_zeros_def span_def)
qed (auto simp: write_zeros_def)

text \<open>Live blocks inside a range of addresses add up to at most its length.\<close>

lemma live_bytes_le:
  assumes "blocks_ok lim B" "\<And>b n. B b = Some n \<Longrightarrow> span (b, b + n) \<subseteq> {x..<y}"
  shows "live_bytes B \<le> y - x"
proof -
  let ?S = "\<lambda>b. span (b, b + the (B b))"
  have "card (\<Union>b\<in>dom B. ?S b) = (\<Sum>b\<in>dom B. card (?S b))"
  proof (rule card_UN_disjoint)
    show "finite (dom B)" using assms(1) by (simp add: blocks_ok_def)
    show "\<forall>b\<in>dom B. finite (?S b)" by (simp add: span_def)
    show "\<forall>b\<in>dom B. \<forall>c\<in>dom B. b \<noteq> c \<longrightarrow> ?S b \<inter> ?S c = {}"
      using blocks_ok_disjoint [OF assms(1)] by (simp add: domIff split: option.splits)
  qed
  moreover have "card (\<Union>b\<in>dom B. ?S b) \<le> card {x..<y}" 
  proof (intro card_mono UN_least)
    fix b
    assume "b \<in> dom B"
    then obtain n where "B b = Some n" by blast
    then show "?S b \<subseteq> {x..<y}" using assms(2) by simp
  qed simp
  ultimately show ?thesis by (simp add: live_bytes_def span_def)
qed

lemma live_bytes_upd:
  assumes "finite (dom B)" "B a = None"
  shows "live_bytes (B(a \<mapsto> n)) = live_bytes B + n"
proof -
  have "(\<Sum>b\<in>dom B. the ((B(a \<mapsto> n)) b)) = live_bytes B"
    unfolding live_bytes_def using assms(2) by (intro sum.cong) auto
  then show ?thesis using assms by (simp add: live_bytes_def domIff)
qed

lemma live_bytes_del:
  assumes "finite (dom B)" "B a = Some n"
  shows "live_bytes (B(a := None)) + n = live_bytes B"
  using live_bytes_upd [of "B(a := None)" a n] assms by (simp add: fun_upd_triv map_upd_triv)

section \<open>What reaches the provider\<close>

text \<open>The entry points pass on only whole granules at an alignment of at least a granule.\<close>

lemma linear_allocate_reaches:
  assumes "linear_allocate l sz alignment fl out cell cs s = ((st, cs'), cell', s')"
  shows "s' = s \<or> (\<exists>n al r. lp_allocate l n al s = (r, s') \<and> 0 < n \<and> lp_granularity l dvd n
    \<and> is_power_of_two al \<and> lp_granularity l dvd al)"
proof (cases "geometry sz alignment (lp_granularity l)")
  case (Some g)
  then have "geometry sz alignment (lp_granularity l) = Some (fst g, snd g)" by simp
  note facts = geometry_facts [OF this]
  have "s' = s \<or> lp_allocate l (fst g) (snd g) s = (fst (lp_allocate l (fst g) (snd g) s), s')"
    using assms Some by (auto simp: linear_allocate_def split: if_splits prod.splits sum.splits)
  then show ?thesis using facts(1-3,5) by blast
qed (use assms in \<open>auto simp: linear_allocate_def split: if_splits\<close>)

lemma linear_zero_reaches:
  assumes "linear_zero l address sz cs s = ((st, cs'), s')"
  shows "s' = s \<or> (\<exists>r. lp_zero l address sz s = (r, s'))"
  using assms by (auto simp: linear_zero_def record_done_def split: if_splits prod.splits)

lemma linear_release_reaches:
  assumes "linear_release l address sz cs s = ((st, cs'), s')"
  shows "s' = s \<or> (\<exists>n r. lp_release l address n s = (r, s') \<and> lp_granularity l dvd n)"
  using assms by (auto simp: linear_release_def record_done_def round_size_Some_iff split: option.splits if_splits prod.splits)

section \<open>The contract of a provider\<close>

locale linear_storage =
  fixes l :: "'s linear_provider" and ok :: "'s \<Rightarrow> bool" and live :: "'s \<Rightarrow> blocks" and bytes :: "'s \<Rightarrow> memory"
    and lim :: nat
  assumes granted: "ok s \<Longrightarrow> lp_allocate l sz alignment s = (Inr a, s') \<Longrightarrow> 0 < sz \<Longrightarrow> lp_granularity l dvd sz \<Longrightarrow>
      is_power_of_two alignment \<Longrightarrow> lp_granularity l dvd alignment \<Longrightarrow>
      ok s' \<and> misses a sz (live s) \<and> live s' = (live s)(a \<mapsto> sz) \<and> bytes s' = write_zeros a sz (bytes s)
      \<and> alignment dvd a"
    and refused: "ok s \<Longrightarrow> lp_allocate l sz alignment s = (Inl e, s') \<Longrightarrow> ok s' \<and> live s' = live s \<and> bytes s' = bytes s"
    and freed: "ok s \<Longrightarrow> lp_release l a sz s = (Inr (), s') \<Longrightarrow> lp_granularity l dvd sz \<Longrightarrow>
      ok s' \<and> live s a = Some sz \<and> live s' = (live s)(a := None) \<and> bytes s' = bytes s"
    and kept: "ok s \<Longrightarrow> lp_release l a sz s = (Inl e, s') \<Longrightarrow> ok s' \<and> live s' = live s \<and> bytes s' = bytes s"
    and cleared: "ok s \<Longrightarrow> lp_zero l a sz s = (Inr (), s') \<Longrightarrow>
      ok s' \<and> 0 < sz \<and> inside_block a sz (live s) \<and> live s' = live s \<and> bytes s' = write_zeros a sz (bytes s)"
    and uncleared: "ok s \<Longrightarrow> lp_zero l a sz s = (Inl e, s') \<Longrightarrow> s' = s"
    and clearable: "ok s \<Longrightarrow> 0 < a \<Longrightarrow> 0 < sz \<Longrightarrow> inside_block a sz (live s) \<Longrightarrow> fst (lp_zero l a sz s) = Inr ()"
    and well_formed: "ok s \<Longrightarrow> blocks_ok lim (live s)"
    and budget: "ok s \<Longrightarrow> live_bytes (live s) \<le> lp_capacity l"
begin

lemma allocate_step:
  assumes "ok s" "lp_allocate l sz alignment s = (r, s')" "0 < sz" "lp_granularity l dvd sz"
    "is_power_of_two alignment" "lp_granularity l dvd alignment"
  shows "ok s' \<and> heap_step lim (live s, bytes s) (live s', bytes s')"
proof (cases r)
  case (Inl e)
  then show ?thesis using refused [OF assms(1)] assms(2) by (simp add: heap_step.refuse)
next
  case (Inr a)
  note new = granted [OF assms(1) assms(2) [unfolded Inr] assms(3-6)]
  have "blocks_ok lim ((live s)(a \<mapsto> sz))" using well_formed new by metis
  then have "0 < a" "a + sz \<le> lim" using blocks_okD [of lim "(live s)(a \<mapsto> sz)" a sz] by simp_all
  then show ?thesis using new assms(3) by (simp add: heap_step.grant)
qed

lemma zero_step:
  assumes "ok s" "lp_zero l a sz s = (r, s')"
  shows "ok s' \<and> heap_step lim (live s, bytes s) (live s', bytes s')"
proof (cases r)
  case (Inl e)
  then show ?thesis using uncleared [OF assms(1) assms(2) [unfolded Inl]] assms(1) by (simp add: heap_step.refuse)
next
  case (Inr u)
  then show ?thesis using cleared [OF assms(1), of a sz s'] assms(2) by (simp add: heap_step.clear)
qed

lemma release_step:
  assumes "ok s" "lp_release l a sz s = (r, s')" "lp_granularity l dvd sz"
  shows "ok s' \<and> heap_step lim (live s, bytes s) (live s', bytes s')"
proof (cases r)
  case (Inl e)
  then show ?thesis using kept [OF assms(1) assms(2) [unfolded Inl]] by (simp add: heap_step.refuse)
next
  case (Inr u)
  then show ?thesis using freed [OF assms(1), of a sz s'] assms(2,3) by (simp add: heap_step.free)
qed

lemma call_simulates:
  assumes "linear_call l (s, cs) (s', cs')" "ok s"
  shows "ok s' \<and> heap_step lim (live s, bytes s) (live s', bytes s')"
  using assms(1)
proof cases
  case (call_allocate sz alignment fl out cell st cell')
  from linear_allocate_reaches [OF this] show ?thesis
    using allocate_step [OF assms(2)] assms(2) by (auto simp: heap_step.refuse)
next
  case (call_zero address sz st)
  from linear_zero_reaches [OF this] show ?thesis
    using zero_step [OF assms(2)] assms(2) by (auto simp: heap_step.refuse)
next
  case (call_release address sz st)
  from linear_release_reaches [OF this] show ?thesis
    using release_step [OF assms(2)] assms(2) by (auto simp: heap_step.refuse)
qed

lemma calls_keep:
  assumes "(linear_call l)\<^sup>*\<^sup>* (s, cs) (s', cs')" "ok s"
  shows "ok s' \<and> (heap_step lim)\<^sup>*\<^sup>* (live s, bytes s) (live s', bytes s')"
  using assms(1)
proof (induction "(s', cs')" arbitrary: s' cs' rule: rtranclp_induct)
  case (step y)
  then show ?case using call_simulates by (cases y) (metis rtranclp.rtrancl_into_rtrancl)
qed (use assms(2) in simp)

end

end
