(* ===== verification/Storage_Arena.thy ===== *)
theory Storage_Arena
  imports Storage_Contract
begin

text \<open>
  The bounded static arena (\<open>Arena\<close> of \<open>src/crates/dotnet-pal-storage/src/lib.rs\<close>): a table of one
  word per 4096-byte block, where 0 is free, a count opens a live run and \<open>TAIL\<close> continues it.

  The address of the arena and its capacity are arguments: the first is the linker's, the second is
  chosen by a cargo feature (8, 64 or 256 MiB). The payload is a function from addresses to bytes,
  because the front end and the ledger talk about the same memory. Calls run under the arena's
  spin lock, so each is one step here; the lock is in \<open>Storage_Lock\<close>.
\<close>

section \<open>Model\<close>

definition GRANULARITY :: nat where
  "GRANULARITY = 4096"

definition TAIL :: nat where
  "TAIL = USIZE_MAX"

record arena =
  ar_slots :: "nat list"
  ar_bytes :: memory

definition arena_new :: "nat \<Rightarrow> arena" where
  "arena_new capacity = \<lparr>ar_slots = replicate (capacity div GRANULARITY) 0, ar_bytes = (\<lambda>_. 0)\<rparr>"

text \<open>The scan of \<open>allocate\<close>: past an occupied block it jumps behind that block.\<close>

function arena_scan :: "nat \<Rightarrow> nat \<Rightarrow> nat \<Rightarrow> nat list \<Rightarrow> nat \<Rightarrow> nat option" where
  "arena_scan base alignment cnt slots first =
     (if first \<le> length slots - cnt then
        let address = base + first * GRANULARITY in
        if mask_low address alignment \<noteq> 0 then arena_scan base alignment cnt slots (first + 1)
        else case position (\<lambda>n. n \<noteq> 0) (take cnt (drop first slots)) of
            Some occupied \<Rightarrow> arena_scan base alignment cnt slots (first + (occupied + 1))
          | None \<Rightarrow> Some first
      else None)"
  by pat_completeness auto
termination
  by (relation "measure (\<lambda>(_, _, cnt, slots, first). Suc (length slots - cnt) - first)") auto

declare arena_scan.simps [simp del]

definition arena_allocate :: "nat \<Rightarrow> nat \<Rightarrow> nat \<Rightarrow> arena \<Rightarrow> nat result \<times> arena" where
  "arena_allocate base sz alignment a =
     (let cnt = sz div GRANULARITY; slots = ar_slots a in
      if cnt = 0 \<or> length slots < cnt then (Inl OutOfMemory, a)
      else case arena_scan base alignment cnt slots 0 of
          None \<Rightarrow> (Inl OutOfMemory, a)
        | Some first \<Rightarrow>
            let address = base + first * GRANULARITY in
            (Inr address,
             a\<lparr>ar_slots := overwrite (slots[first := cnt]) (first + 1) (replicate (cnt - 1) TAIL),
               ar_bytes := write_zeros address sz (ar_bytes a)\<rparr>))"

definition arena_release :: "nat \<Rightarrow> nat \<Rightarrow> nat \<Rightarrow> nat \<Rightarrow> arena \<Rightarrow> unit result \<times> arena" where
  "arena_release base capacity address sz a =
     (case checked_sub address base of
        None \<Rightarrow> (Inl InvalidArgument, a)
      | Some offset \<Rightarrow>
          if capacity \<le> offset \<or> offset mod GRANULARITY \<noteq> 0 then (Inl InvalidArgument, a)
          else
            let first = offset div GRANULARITY; cnt = ar_slots a ! first in
            if cnt = 0 \<or> cnt = TAIL \<or> cnt \<noteq> sz div GRANULARITY then (Inl InvalidArgument, a)
            else (Inr (), a\<lparr>ar_slots := overwrite (ar_slots a) first (replicate cnt 0)\<rparr>))"

text \<open>The walk of \<open>zero\<close> from a tail back to the block that opens the run; \<open>None\<close> when there is none.\<close>

fun run_head :: "nat list \<Rightarrow> nat \<Rightarrow> nat option" where
  "run_head slots first =
     (if slots ! first = TAIL then (case first of 0 \<Rightarrow> None | Suc n \<Rightarrow> run_head slots n) else Some first)"

declare run_head.simps [simp del]

definition arena_zero :: "nat \<Rightarrow> nat \<Rightarrow> nat \<Rightarrow> nat \<Rightarrow> arena \<Rightarrow> unit result \<times> arena" where
  "arena_zero base capacity address sz a =
     (case checked_sub address base of
        None \<Rightarrow> (Inl InvalidArgument, a)
      | Some offset \<Rightarrow>
          (case checked_add offset sz of
             None \<Rightarrow> (Inl InvalidArgument, a)
           | Some past \<Rightarrow>
               if sz = 0 \<or> capacity < past then (Inl InvalidArgument, a)
               else (case run_head (ar_slots a) (offset div GRANULARITY) of
                   None \<Rightarrow> (Inl InvalidArgument, a)
                 | Some first \<Rightarrow>
                     let cnt = ar_slots a ! first in
                     if cnt = 0 \<or> (first + cnt) * GRANULARITY < past then (Inl InvalidArgument, a)
                     else (Inr (), a\<lparr>ar_bytes := write_zeros (base + offset) sz (ar_bytes a)\<rparr>))))"

definition arena_provider :: "nat \<Rightarrow> nat \<Rightarrow> arena linear_provider" where
  "arena_provider base capacity =
     \<lparr>lp_granularity = GRANULARITY, lp_capacity = capacity,
      lp_allocate = arena_allocate base,
      lp_zero = arena_zero base capacity,
      lp_release = arena_release base capacity\<rparr>"

section \<open>Invariant and abstraction\<close>

text \<open>The runs the table holds: the index that opens a run, and how many blocks it has.\<close>

definition runs :: "nat list \<Rightarrow> nat \<Rightarrow> nat option" where
  "runs slots i = (if i < length slots \<and> slots ! i \<noteq> 0 \<and> slots ! i \<noteq> TAIL then Some (slots ! i) else None)"

text \<open>A run is followed by its tails, and a tail belongs to a run.\<close>

definition slots_ok :: "nat list \<Rightarrow> bool" where
  "slots_ok slots \<longleftrightarrow> length slots < TAIL
     \<and> (\<forall>h n. runs slots h = Some n \<longrightarrow> h + n \<le> length slots \<and> (\<forall>j. h < j \<and> j < h + n \<longrightarrow> slots ! j = TAIL))
     \<and> (\<forall>i<length slots. slots ! i = TAIL \<longrightarrow> (\<exists>h n. runs slots h = Some n \<and> h < i \<and> i < h + n))"

definition arena_ok :: "nat \<Rightarrow> nat \<Rightarrow> arena \<Rightarrow> bool" where
  "arena_ok base capacity a \<longleftrightarrow> slots_ok (ar_slots a) \<and> length (ar_slots a) * GRANULARITY = capacity
     \<and> 0 < base \<and> GRANULARITY dvd base \<and> base + capacity \<le> USIZE_MAX"

text \<open>The live blocks by address, with their sizes in bytes.\<close>

definition arena_blocks :: "nat \<Rightarrow> arena \<Rightarrow> nat \<Rightarrow> nat option" where
  "arena_blocks base a address =
     (if base \<le> address \<and> (address - base) mod GRANULARITY = 0
      then map_option (\<lambda>n. n * GRANULARITY) (runs (ar_slots a) ((address - base) div GRANULARITY))
      else None)"

section \<open>The scan is first fit\<close>

definition free_run :: "nat \<Rightarrow> nat \<Rightarrow> nat \<Rightarrow> nat list \<Rightarrow> nat \<Rightarrow> bool" where
  "free_run base alignment cnt slots first \<longleftrightarrow>
     mask_low (base + first * GRANULARITY) alignment = 0 \<and> (\<forall>n\<in>set (take cnt (drop first slots)). n = 0)"

lemma free_run_nth:
  assumes "free_run base alignment cnt slots f" "f + cnt \<le> length slots" "f \<le> j" "j < f + cnt"
  shows "slots ! j = 0"
proof -
  have "take cnt (drop f slots) ! (j - f) = slots ! j" using assms(2-4) by simp
  moreover have "take cnt (drop f slots) ! (j - f) \<in> set (take cnt (drop f slots))"
    using assms(2-4) by (intro nth_mem) auto
  ultimately show ?thesis using assms(1) by (simp add: free_run_def)
qed

text \<open>No block up to an occupied one opens a free run, so the jump loses nothing.\<close>

lemma jump_loses_nothing:
  assumes "position (\<lambda>n. n \<noteq> 0) (take cnt (drop first slots)) = Some occupied" "first \<le> g" "g \<le> first + occupied"
    "g + cnt \<le> length slots"
  shows "\<not> free_run base alignment cnt slots g"
proof
  assume "free_run base alignment cnt slots g"
  moreover have "occupied < cnt" "slots ! (first + occupied) \<noteq> 0" "occupied < length slots - first"
    using assms(1) by (auto simp: position_Some_iff)
  ultimately show False using assms(2-4) free_run_nth [of base alignment cnt slots g "first + occupied"] by simp
qed

lemma find_append_None: "find P xs = None \<Longrightarrow> find P (xs @ ys) = find P ys"
  by (induction xs) (auto split: if_splits)

lemma find_upt_skip:
  assumes "\<forall>g. a \<le> g \<and> g < b \<and> g < n \<longrightarrow> \<not> P g" "a \<le> b"
  shows "find P [a..<n] = find P [b..<n]"
proof (cases "b \<le> n")
  case True
  have "find P [a..<b] = None" using assms True by (auto simp: find_None_iff)
  moreover have "[a..<n] = [a..<b] @ [b..<n]" using upt_add_eq_append [OF assms(2), of "n - b"] True by simp
  ultimately show ?thesis by (simp add: find_append_None)
next
  case False
  then have "find P [a..<n] = None" using assms by (auto simp: find_None_iff)
  then show ?thesis using False by simp
qed

lemma arena_scan_eq:
  assumes "cnt \<le> length slots"
  shows "arena_scan base alignment cnt slots first =
    find (free_run base alignment cnt slots) [first..<Suc (length slots - cnt)]"
  using assms
proof (induction base alignment cnt slots first rule: arena_scan.induct)
  case (1 base alignment cnt slots first)
  let ?free = "free_run base alignment cnt slots" and ?n = "Suc (length slots - cnt)"
  show ?case
  proof (cases "first \<le> length slots - cnt")
    case in_range: True
    show ?thesis
    proof (cases "mask_low (base + first * GRANULARITY) alignment = 0")
      case aligned: True
      show ?thesis
      proof (cases "position (\<lambda>n. n \<noteq> 0) (take cnt (drop first slots))")
        case None
        then have "?free first" using aligned by (simp add: free_run_def position_None_iff)
        then show ?thesis using in_range aligned None by (subst arena_scan.simps) (simp add: upt_conv_Cons del: upt_Suc)
      next
        case (Some occupied)
        have "find ?free [first..<?n] = find ?free [first + (occupied + 1)..<?n]"
          using jump_loses_nothing [OF Some] 1(3) by (intro find_upt_skip) auto
        then show ?thesis using in_range aligned Some 1(2) [OF in_range refl _ Some] 1(3)
          by (subst arena_scan.simps) (simp del: upt_Suc)
      qed
    next
      case False
      then have "find ?free [first..<?n] = find ?free [first + 1..<?n]"
        by (intro find_upt_skip) (auto simp: free_run_def less_Suc_eq_le dest: le_antisym)
      then show ?thesis using in_range False 1(1) [OF in_range refl False] 1(3)
        by (subst arena_scan.simps) (simp del: upt_Suc)
    qed
  qed (subst arena_scan.simps, simp)
qed

section \<open>Preservation\<close>

lemma runs_Some_iff: "runs slots h = Some n \<longleftrightarrow> h < length slots \<and> slots ! h = n \<and> n \<noteq> 0 \<and> n \<noteq> TAIL"
  by (auto simp: runs_def)

lemma slots_okD:
  assumes "slots_ok slots" "runs slots h = Some n"
  shows "h + n \<le> length slots" "\<And>j. h < j \<Longrightarrow> j < h + n \<Longrightarrow> slots ! j = TAIL" "0 < n"
proof -
  have "h + n \<le> length slots \<and> (\<forall>j. h < j \<and> j < h + n \<longrightarrow> slots ! j = TAIL)"
    using assms(1) unfolding slots_ok_def by (elim conjE) (rule mp [OF _ assms(2)], elim allE)
  then show "h + n \<le> length slots" "\<And>j. h < j \<Longrightarrow> j < h + n \<Longrightarrow> slots ! j = TAIL" by simp_all
  show "0 < n" using assms(2) by (simp add: runs_Some_iff)
qed

lemma slots_ok_tail:
  assumes "slots_ok slots" "i < length slots" "slots ! i = TAIL"
  obtains h n where "runs slots h = Some n" "h < i" "i < h + n"
  using assms unfolding slots_ok_def by blast

lemma runs_ordered:
  assumes "slots_ok slots" "runs slots h = Some n" "runs slots k = Some m" "h < k"
  shows "h + n \<le> k"
  using slots_okD(2) [OF assms(1,2), of k] assms(3,4) by (force simp: runs_Some_iff)

lemma nth_claim:
  assumes "first + cnt \<le> length slots" "0 < cnt"
  shows "overwrite (slots[first := cnt]) (first + 1) (replicate (cnt - 1) TAIL) ! i =
    (if i = first then cnt else if first < i \<and> i < first + cnt then TAIL else slots ! i)"
    "length (overwrite (slots[first := cnt]) (first + 1) (replicate (cnt - 1) TAIL)) = length slots"
  using assms by (auto simp: nth_overwrite)

lemma claim_ok:
  assumes ok: "slots_ok slots" and fit: "first + cnt \<le> length slots" "0 < cnt"
    and free: "\<And>j. first \<le> j \<Longrightarrow> j < first + cnt \<Longrightarrow> slots ! j = 0"
  defines "slots' \<equiv> overwrite (slots[first := cnt]) (first + 1) (replicate (cnt - 1) TAIL)"
  shows "runs slots' = (runs slots)(first \<mapsto> cnt)" "slots_ok slots'"
proof -
  note nth = nth_claim [OF fit, folded slots'_def]
  have small: "length slots < TAIL" "0 < TAIL" using ok by (auto simp: slots_ok_def)
  show runs': "runs slots' = (runs slots)(first \<mapsto> cnt)"
    using fit free small by (auto simp: fun_eq_iff runs_def nth)
  have keep: "slots' ! j = TAIL" if "slots ! j = TAIL" for j
    using that free [of j] small(2) fit(2) by (cases "first \<le> j \<and> j < first + cnt") (auto simp: nth)
  have "h + n \<le> length slots' \<and> (\<forall>j. h < j \<and> j < h + n \<longrightarrow> slots' ! j = TAIL)" if "runs slots' h = Some n" for h n
  proof (cases "h = first")
    case False
    then have "runs slots h = Some n" using that runs' by simp
    then show ?thesis using slots_okD [OF ok] keep nth(2) by metis
  qed (use that runs' fit in \<open>auto simp: nth\<close>)
  moreover have "\<exists>h n. runs slots' h = Some n \<and> h < i \<and> i < h + n" if i: "i < length slots'" "slots' ! i = TAIL" for i
  proof (cases "first \<le> i \<and> i < first + cnt")
    case True
    then show ?thesis using i fit small runs' by (intro exI [of _ first] exI [of _ cnt]) (auto simp: nth split: if_splits)
  next
    case False
    then have "i < length slots" "slots ! i = TAIL" using i fit by (auto simp: nth split: if_splits)
    then obtain h n where h: "runs slots h = Some n" "h < i" "i < h + n" by (rule slots_ok_tail [OF ok])
    moreover have "h \<noteq> first" using h(1) free [of first] fit(2) by (auto simp: runs_Some_iff)
    ultimately show ?thesis using runs' by auto
  qed
  ultimately show "slots_ok slots'" using small(1) nth(2) by (simp add: slots_ok_def)
qed

lemma unclaim_ok:
  assumes ok: "slots_ok slots" and run: "runs slots first = Some cnt"
  defines "slots' \<equiv> overwrite slots first (replicate cnt 0)"
  shows "runs slots' = (runs slots)(first := None)" "slots_ok slots'"
proof -
  have fit: "first + cnt \<le> length slots" "0 < cnt" using slots_okD [OF ok run] by auto
  have nth: "slots' ! i = (if first \<le> i \<and> i < first + cnt then 0 else slots ! i)" "length slots' = length slots" for i
    using fit by (auto simp: slots'_def nth_overwrite)
  have small: "length slots < TAIL" using ok by (simp add: slots_ok_def)
  show runs': "runs slots' = (runs slots)(first := None)"
  proof
    fix x
    show "runs slots' x = ((runs slots)(first := None)) x"
      using fit slots_okD(2) [OF ok run, of x]
      by (cases "x = first"; cases "first < x \<and> x < first + cnt") (auto simp: runs_def nth)
  qed
  have away: "j < first \<or> first + cnt \<le> j" if "runs slots h = Some n" "h \<noteq> first" "h \<le> j" "j < h + n" for h n j
    using that runs_ordered [OF ok run that(1)] runs_ordered [OF ok that(1) run] by (cases "h < first") auto
  have "h + n \<le> length slots' \<and> (\<forall>j. h < j \<and> j < h + n \<longrightarrow> slots' ! j = TAIL)" if "runs slots' h = Some n" for h n
  proof -
    have h: "runs slots h = Some n" "h \<noteq> first" using that runs' by (auto split: if_splits)
    have "slots' ! j = TAIL" if "h < j" "j < h + n" for j
      using slots_okD(2) [OF ok h(1) that] away [OF h, of j] that by (auto simp: nth)
    then show ?thesis using slots_okD(1) [OF ok h(1)] nth(2) by simp
  qed
  moreover have "\<exists>h n. runs slots' h = Some n \<and> h < i \<and> i < h + n" if i: "i < length slots'" "slots' ! i = TAIL" for i
  proof -
    have "slots ! i = TAIL" "\<not> (first \<le> i \<and> i < first + cnt)" using i small by (auto simp: nth split: if_splits)
    moreover obtain h n where h: "runs slots h = Some n" "h < i" "i < h + n"
      using slots_ok_tail [OF ok, of i] i calculation(1) nth(2) by auto
    ultimately show ?thesis using runs' run by (intro exI [of _ h] exI [of _ n]) auto
  qed
  ultimately show "slots_ok slots'" using small nth(2) by (simp add: slots_ok_def)
qed

lemma run_head_ok:
  assumes "slots_ok slots" "i < length slots"
  shows "\<exists>h. run_head slots i = Some h \<and> h \<le> i \<and> slots ! h \<noteq> TAIL \<and> (\<forall>j. h < j \<and> j \<le> i \<longrightarrow> slots ! j = TAIL)"
  using assms(2)
proof (induction i)
  case 0
  then show ?case using slots_ok_tail [OF assms(1), of 0] by (auto simp: run_head.simps [of slots 0])
next
  case (Suc i)
  then show ?case
    by (cases "slots ! Suc i = TAIL") (auto simp: run_head.simps [of slots "Suc i"] le_Suc_eq)
qed

text \<open>From a block of a live run the walk ends at the block that opens it.\<close>

lemma run_head_inside:
  assumes "slots_ok slots" "runs slots h = Some n" "h \<le> i" "i < h + n"
  shows "run_head slots i = Some h"
proof -
  note run = slots_okD [OF assms(1,2)]
  obtain k where k: "run_head slots i = Some k" "k \<le> i" "slots ! k \<noteq> TAIL" "\<And>j. k < j \<Longrightarrow> j \<le> i \<Longrightarrow> slots ! j = TAIL"
    using run_head_ok [OF assms(1), of i] assms(4) run(1) by auto
  have "\<not> k < h" using k(4) [of h] assms(2,3) by (auto simp: runs_Some_iff)
  moreover have "\<not> h < k" using run(2) [of k] k(2,3) assms(4) by auto
  ultimately show ?thesis using k(1) by simp
qed

section \<open>The operations\<close>

lemma GRANULARITY_pos [simp]: "0 < GRANULARITY" "GRANULARITY \<noteq> 0"
  by (simp_all add: GRANULARITY_def)

lemma arena_new_ok:
  assumes "GRANULARITY dvd capacity" "0 < base" "GRANULARITY dvd base" "base + capacity \<le> USIZE_MAX"
  shows "arena_ok base capacity (arena_new capacity)" "arena_blocks base (arena_new capacity) = Map.empty"
proof -
  have none: "runs (replicate n 0) = Map.empty" for n by (auto simp: runs_def fun_eq_iff)
  have "capacity div GRANULARITY < TAIL"
    using assms(2,4) div_le_dividend [of capacity GRANULARITY] unfolding TAIL_def by linarith
  then have "slots_ok (replicate (capacity div GRANULARITY) 0)" by (auto simp: slots_ok_def none)
  then show "arena_ok base capacity (arena_new capacity)" using assms by (simp add: arena_ok_def arena_new_def)
  show "arena_blocks base (arena_new capacity) = Map.empty" by (auto simp: arena_blocks_def arena_new_def none)
qed

lemma block_address: "base \<le> x \<Longrightarrow> (x - base) mod GRANULARITY = 0 \<Longrightarrow> x = base + (x - base) div GRANULARITY * GRANULARITY"
  by (simp add: mod_eq_0_iff_dvd)

lemma arena_blocks_Some_iff:
  "arena_blocks base a b = Some n \<longleftrightarrow>
     (\<exists>h m. runs (ar_slots a) h = Some m \<and> b = base + h * GRANULARITY \<and> n = m * GRANULARITY)"
proof
  assume "arena_blocks base a b = Some n"
  then obtain m where m: "base \<le> b" "(b - base) mod GRANULARITY = 0"
    "runs (ar_slots a) ((b - base) div GRANULARITY) = Some m" "n = m * GRANULARITY"
    by (auto simp: arena_blocks_def split: if_splits)
  then have "b = base + (b - base) div GRANULARITY * GRANULARITY" by (intro block_address)
  then show "\<exists>h m. runs (ar_slots a) h = Some m \<and> b = base + h * GRANULARITY \<and> n = m * GRANULARITY" using m by blast
qed (auto simp: arena_blocks_def)

lemma arena_blocks_upd:
  assumes "runs slots' = (runs (ar_slots a))(first := v)"
  shows "arena_blocks base (a\<lparr>ar_slots := slots'\<rparr>) =
    (arena_blocks base a)(base + first * GRANULARITY := map_option (\<lambda>n. n * GRANULARITY) v)"
proof
  fix x
  show "arena_blocks base (a\<lparr>ar_slots := slots'\<rparr>) x =
    ((arena_blocks base a)(base + first * GRANULARITY := map_option (\<lambda>n. n * GRANULARITY) v)) x"
    using assms block_address [of base x] by (auto simp: arena_blocks_def)
qed

lemma arena_blocks_bytes [simp]: "arena_blocks base (a\<lparr>ar_bytes := m\<rparr>) = arena_blocks base a"
  by (simp add: arena_blocks_def fun_eq_iff)

lemma arena_ok_bytes [simp]: "arena_ok base capacity (a\<lparr>ar_bytes := m\<rparr>) = arena_ok base capacity a"
  by (simp add: arena_ok_def)

lemma run_beside_gap:
  assumes "slots_ok slots" "runs slots h = Some m" "\<And>j. first \<le> j \<Longrightarrow> j < first + cnt \<Longrightarrow> slots ! j = 0" "0 < cnt"
  shows "h + m \<le> first \<or> first + cnt \<le> h"
proof (cases "h < first")
  case True
  have "0 < TAIL" using assms(1) by (auto simp: slots_ok_def)
  then show ?thesis using slots_okD(2) [OF assms(1,2), of first] assms(3) [of first] assms(4) True
    by (cases "first < h + m") auto
next
  case False
  then show ?thesis using assms(2) assms(3) [of h] by (cases "h < first + cnt") (auto simp: runs_Some_iff)
qed

lemma slot_spans_apart:
  assumes "h + m \<le> k \<or> k + n \<le> h"
  shows "span (base + h * GRANULARITY, base + h * GRANULARITY + m * GRANULARITY)
    \<inter> span (base + k * GRANULARITY, base + k * GRANULARITY + n * GRANULARITY) = {}"
proof -
  have "h * GRANULARITY + m * GRANULARITY \<le> k * GRANULARITY \<or> k * GRANULARITY + n * GRANULARITY \<le> h * GRANULARITY"
    using assms by (simp flip: add_mult_distrib)
  then show ?thesis by (auto simp: span_def)
qed

lemma arena_blocks_well_formed:
  assumes "arena_ok base capacity a"
  shows "blocks_ok USIZE_MAX (arena_blocks base a)"
    "arena_blocks base a b = Some n \<Longrightarrow> span (b, b + n) \<subseteq> {base..<base + capacity}"
proof -
  note ok = assms [unfolded arena_ok_def]
  let ?B = "arena_blocks base a"
  have inside: "0 < n \<and> base \<le> b \<and> b + n \<le> base + capacity" if "?B b = Some n" for b n
  proof -
    obtain h m where r: "runs (ar_slots a) h = Some m" "b = base + h * GRANULARITY" "n = m * GRANULARITY"
      using \<open>?B b = Some n\<close> by (auto simp: arena_blocks_Some_iff)
    have "(h + m) * GRANULARITY \<le> length (ar_slots a) * GRANULARITY" "0 < m"
      using slots_okD [OF _ r(1)] ok by (auto intro!: mult_le_mono1)
    then show ?thesis using r ok by (simp add: add_mult_distrib)
  qed
  have "dom ?B \<subseteq> {..<base + capacity}" using inside by (fastforce simp: dom_def)
  then have "finite (dom ?B)" by (rule finite_subset) simp
  moreover have "span (b, b + n) \<inter> span (c, c + m) = {}" if bc: "?B b = Some n" "?B c = Some m" "b \<noteq> c" for b n c m
  proof -
    obtain h k i j where r: "runs (ar_slots a) h = Some i" "b = base + h * GRANULARITY" "n = i * GRANULARITY"
      "runs (ar_slots a) k = Some j" "c = base + k * GRANULARITY" "m = j * GRANULARITY"
      using bc by (auto simp: arena_blocks_Some_iff)
    then have "h + i \<le> k \<or> k + j \<le> h" using bc(3) runs_ordered ok by (metis nat_neq_iff)
    then show ?thesis using slot_spans_apart [of h i k j base] r by simp
  qed
  moreover have "0 < b \<and> 0 < n \<and> b + n \<le> USIZE_MAX" if "?B b = Some n" for b n
    using inside [OF that] ok by linarith
  ultimately show "blocks_ok USIZE_MAX ?B" by (simp add: blocks_ok_def)
  show "?B b = Some n \<Longrightarrow> span (b, b + n) \<subseteq> {base..<base + capacity}" using inside by (force simp: span_def)
qed

lemma arena_scan_Some:
  assumes "arena_scan base alignment cnt slots 0 = Some first" "cnt \<le> length slots"
  shows "first + cnt \<le> length slots" "mask_low (base + first * GRANULARITY) alignment = 0"
    "\<And>j. first \<le> j \<Longrightarrow> j < first + cnt \<Longrightarrow> slots ! j = 0"
proof -
  have "first \<in> set [0..<Suc (length slots - cnt)]" and free: "free_run base alignment cnt slots first"
    using assms by (auto simp: arena_scan_eq find_Some_iff simp del: upt_Suc)
  then show fit: "first + cnt \<le> length slots" using assms(2) by auto
  show "mask_low (base + first * GRANULARITY) alignment = 0" using free by (simp add: free_run_def)
  show "\<And>j. first \<le> j \<Longrightarrow> j < first + cnt \<Longrightarrow> slots ! j = 0" by (rule free_run_nth [OF free fit])
qed

lemma arena_allocate_granted:
  assumes ok: "arena_ok base capacity a" and run: "arena_allocate base sz alignment a = (Inr address, a')"
    and args: "0 < sz" "GRANULARITY dvd sz" "is_power_of_two alignment"
  shows "arena_ok base capacity a' \<and> misses address sz (arena_blocks base a)
    \<and> arena_blocks base a' = (arena_blocks base a)(address \<mapsto> sz)
    \<and> ar_bytes a' = write_zeros address sz (ar_bytes a) \<and> alignment dvd address"
proof -
  define cnt where "cnt = sz div GRANULARITY"
  have sz: "sz = cnt * GRANULARITY" "0 < cnt" using args(1,2) by (auto simp: cnt_def)
  obtain first where scan: "arena_scan base alignment cnt (ar_slots a) 0 = Some first" "cnt \<le> length (ar_slots a)"
    and new: "address = base + first * GRANULARITY"
      "a' = a\<lparr>ar_slots := overwrite ((ar_slots a)[first := cnt]) (first + 1) (replicate (cnt - 1) TAIL),
         ar_bytes := write_zeros address sz (ar_bytes a)\<rparr>"
    using run by (auto simp: arena_allocate_def Let_def cnt_def split: if_splits option.splits)
  note s = arena_scan_Some [OF scan] and ok' = ok [unfolded arena_ok_def]
  have slots: "slots_ok (ar_slots a)" using ok' by blast
  note claim = claim_ok [OF slots s(1) sz(2) s(3)]
  have "misses address sz (arena_blocks base a)" unfolding misses_def
  proof (intro allI impI)
    fix b n
    assume "arena_blocks base a b = Some n"
    then obtain h m where r: "runs (ar_slots a) h = Some m" "b = base + h * GRANULARITY" "n = m * GRANULARITY"
      by (auto simp: arena_blocks_Some_iff)
    have "h + m \<le> first \<or> first + cnt \<le> h" by (rule run_beside_gap [OF slots r(1) s(3) sz(2)])
    then show "span (address, address + sz) \<inter> span (b, b + n) = {}"
      using slot_spans_apart [of first cnt h m base] r new(1) sz(1) by auto
  qed
  moreover have "arena_ok base capacity a'"
    using ok' claim(2) nth_claim(2) [OF s(1) sz(2)] by (simp add: new(2) arena_ok_def)
  moreover have "arena_blocks base a' = (arena_blocks base a)(address \<mapsto> sz)"
    using arena_blocks_upd [OF claim(1)] by (simp add: new sz(1))
  moreover have "address \<le> USIZE_MAX"
  proof -
    have "first * GRANULARITY \<le> length (ar_slots a) * GRANULARITY" using s(1) by simp
    then show ?thesis using ok' new(1) by linarith
  qed
  then have "alignment dvd address" using s(2) mask_low_pow2 [OF _ args(3)] new(1) by (simp add: mod_eq_0_iff_dvd)
  ultimately show ?thesis by (simp add: new(2))
qed

text \<open>An allocation is refused exactly when no aligned run of free blocks is long enough.\<close>

lemma arena_allocate_refused_iff:
  assumes "GRANULARITY dvd sz" "0 < sz"
  shows "(\<exists>e. fst (arena_allocate base sz alignment a) = Inl e) \<longleftrightarrow>
    (\<forall>first. first + sz div GRANULARITY \<le> length (ar_slots a) \<longrightarrow>
       \<not> free_run base alignment (sz div GRANULARITY) (ar_slots a) first)"
proof -
  define cnt where "cnt = sz div GRANULARITY"
  have "0 < cnt" using assms by (auto simp: cnt_def)
  moreover have "arena_scan base alignment cnt (ar_slots a) 0 = None \<longleftrightarrow>
      (\<forall>first. first + cnt \<le> length (ar_slots a) \<longrightarrow> \<not> free_run base alignment cnt (ar_slots a) first)"
    if "cnt \<le> length (ar_slots a)"
    using that by (auto simp: arena_scan_eq find_None_iff less_Suc_eq_le le_diff_conv2 simp del: upt_Suc)
  ultimately show ?thesis
    by (auto simp: arena_allocate_def Let_def simp flip: cnt_def split: option.splits)
qed

lemma arena_allocate_refused:
  "arena_allocate base sz alignment a = (Inl e, a') \<Longrightarrow> a' = a \<and> e = OutOfMemory"
  by (auto simp: arena_allocate_def Let_def split: if_splits option.splits)

lemma arena_release_exact:
  assumes ok: "arena_ok base capacity a" and "GRANULARITY dvd sz"
  shows "arena_release base capacity address sz a =
    (if arena_blocks base a address = Some sz \<and> 0 < sz
     then (Inr (), a\<lparr>ar_slots := overwrite (ar_slots a) ((address - base) div GRANULARITY)
             (replicate (sz div GRANULARITY) 0)\<rparr>)
     else (Inl InvalidArgument, a))"
proof -
  let ?first = "(address - base) div GRANULARITY"
  have range: "address - base < capacity \<longleftrightarrow> ?first < length (ar_slots a)"
    using ok by (auto simp: arena_ok_def div_less_iff_less_mult)
  have "n = sz div GRANULARITY \<longleftrightarrow> n * GRANULARITY = sz" for n using assms(2) by auto
  then show ?thesis using range assms(2)
    by (auto simp: arena_release_def arena_blocks_def checked_sub_def Let_def runs_def)
qed

lemma arena_release_refused: "arena_release base capacity address sz a = (Inl e, a') \<Longrightarrow> a' = a \<and> e = InvalidArgument"
  by (auto simp: arena_release_def Let_def split: option.splits if_splits)

lemma arena_release_freed:
  assumes ok: "arena_ok base capacity a" and live: "arena_blocks base a address = Some sz" and "GRANULARITY dvd sz"
  shows "\<exists>a'. arena_release base capacity address sz a = (Inr (), a') \<and> arena_ok base capacity a'
    \<and> arena_blocks base a' = (arena_blocks base a)(address := None) \<and> ar_bytes a' = ar_bytes a"
proof -
  have slots: "slots_ok (ar_slots a)" using ok by (simp add: arena_ok_def)
  obtain h m where r: "runs (ar_slots a) h = Some m" "address = base + h * GRANULARITY" "sz = m * GRANULARITY"
    using live by (auto simp: arena_blocks_Some_iff)
  note free = unclaim_ok [OF slots r(1)] and fit = slots_okD [OF slots r(1)]
  let ?a = "a\<lparr>ar_slots := overwrite (ar_slots a) h (replicate m 0)\<rparr>"
  have "arena_release base capacity address sz a = (Inr (), ?a)"
    using arena_release_exact [OF ok assms(3), of address] live r fit(3) by simp
  moreover have "arena_ok base capacity ?a" using ok free(2) fit(1) by (simp add: arena_ok_def)
  moreover have "arena_blocks base ?a = (arena_blocks base a)(address := None)"
    using arena_blocks_upd [OF free(1), of base] r(2) by simp
  ultimately show ?thesis by simp
qed

lemma arena_zero_exact:
  assumes ok: "arena_ok base capacity a"
  shows "arena_zero base capacity address sz a =
    (if 0 < sz \<and> inside_block address sz (arena_blocks base a)
     then (Inr (), a\<lparr>ar_bytes := write_zeros address sz (ar_bytes a)\<rparr>)
     else (Inl InvalidArgument, a))"
proof (cases "0 < sz \<and> base \<le> address \<and> address + sz \<le> base + capacity")
  case True
  let ?i = "(address - base) div GRANULARITY" and ?s = "ar_slots a"
  have slots: "slots_ok ?s" and cap: "length ?s * GRANULARITY = capacity" "base + capacity \<le> USIZE_MAX"
    using ok by (auto simp: arena_ok_def)
  have "address - base < length ?s * GRANULARITY" using True cap by linarith
  then have i: "?i < length ?s" by (rule less_mult_imp_div_less)
  obtain h where h: "run_head ?s ?i = Some h" "h \<le> ?i" "?s ! h \<noteq> TAIL"
    using run_head_ok [OF slots i] by blast
  let ?fits = "?s ! h \<noteq> 0 \<and> address - base + sz \<le> (h + ?s ! h) * GRANULARITY"
  have at: "h * GRANULARITY \<le> address - base"
    using h(2) by (metis div_times_less_eq_dividend le_trans mult_le_mono1)
  have "inside_block address sz (arena_blocks base a) \<longleftrightarrow> ?fits"
  proof
    assume "inside_block address sz (arena_blocks base a)"
    then obtain k m where k: "runs ?s k = Some m" "base + k * GRANULARITY \<le> address"
      "address + sz \<le> base + k * GRANULARITY + m * GRANULARITY"
      by (auto simp: inside_block_def arena_blocks_Some_iff)
    have "address - base < (k + m) * GRANULARITY" using k(3) True by (simp add: add_mult_distrib) linarith
    then have "?i < k + m" by (rule less_mult_imp_div_less)
    moreover have "k \<le> ?i" using k(2) True by (simp add: less_eq_div_iff_mult_less_eq)
    ultimately have "h = k" using run_head_inside [OF slots k(1)] h(1) by simp
    then show ?fits using k True by (auto simp: runs_Some_iff add_mult_distrib)
  next
    assume ?fits
    then have "runs ?s h = Some (?s ! h)" using h i by (simp add: runs_def)
    then show "inside_block address sz (arena_blocks base a)" unfolding inside_block_def
      using at \<open>?fits\<close> True
      by (intro exI [of _ "base + h * GRANULARITY"] exI [of _ "?s ! h * GRANULARITY"])
        (auto simp: arena_blocks_Some_iff add_mult_distrib)
  qed
  then show ?thesis using True h(1) cap(2)
    by (auto simp: arena_zero_def checked_sub_def checked_add_def Let_def)
next
  case False
  have "\<not> inside_block address sz (arena_blocks base a)" if "0 < sz"
  proof
    assume "inside_block address sz (arena_blocks base a)"
    then obtain b n where b: "arena_blocks base a b = Some n" "b \<le> address" "address + sz \<le> b + n"
      by (auto simp: inside_block_def)
    have "{address..<address + sz} \<subseteq> {base..<base + capacity}"
      using arena_blocks_well_formed(2) [OF ok b(1)] b(2,3) by (force simp: span_def)
    then show False using False \<open>0 < sz\<close> by (simp add: atLeastLessThan_subset_iff)
  qed
  then show ?thesis using False by (auto simp: arena_zero_def checked_sub_def checked_add_def split: option.splits)
qed

lemma arena_provider_simps [simp]:
  "lp_granularity (arena_provider base capacity) = GRANULARITY"
  "lp_capacity (arena_provider base capacity) = capacity"
  "lp_allocate (arena_provider base capacity) = arena_allocate base"
  "lp_zero (arena_provider base capacity) = arena_zero base capacity"
  "lp_release (arena_provider base capacity) = arena_release base capacity"
  by (simp_all add: arena_provider_def)

interpretation arena_storage: linear_storage "arena_provider base capacity" "arena_ok base capacity"
  "arena_blocks base" ar_bytes USIZE_MAX
proof (unfold_locales, unfold arena_provider_simps)
  fix s s' sz alignment address e
  assume ok: "arena_ok base capacity s"
  show "blocks_ok USIZE_MAX (arena_blocks base s)" by (rule arena_blocks_well_formed(1) [OF ok])
  show "live_bytes (arena_blocks base s) \<le> capacity"
    using live_bytes_le [OF arena_blocks_well_formed(1) [OF ok], of base "base + capacity"]
      arena_blocks_well_formed(2) [OF ok] by simp
  show "arena_ok base capacity s' \<and> misses address sz (arena_blocks base s)
      \<and> arena_blocks base s' = (arena_blocks base s)(address \<mapsto> sz)
      \<and> ar_bytes s' = write_zeros address sz (ar_bytes s) \<and> alignment dvd address"
    if "arena_allocate base sz alignment s = (Inr address, s')" "0 < sz" "GRANULARITY dvd sz" "is_power_of_two alignment"
    by (rule arena_allocate_granted [OF ok that])
  show "arena_ok base capacity s' \<and> arena_blocks base s' = arena_blocks base s \<and> ar_bytes s' = ar_bytes s"
    if "arena_allocate base sz alignment s = (Inl e, s')"
    using arena_allocate_refused [OF that] ok by simp
  show "arena_ok base capacity s' \<and> arena_blocks base s' = arena_blocks base s \<and> ar_bytes s' = ar_bytes s"
    if "arena_release base capacity address sz s = (Inl e, s')"
    using arena_release_refused [OF that] ok by simp
  show "arena_ok base capacity s' \<and> arena_blocks base s address = Some sz
      \<and> arena_blocks base s' = (arena_blocks base s)(address := None) \<and> ar_bytes s' = ar_bytes s"
    if run: "arena_release base capacity address sz s = (Inr (), s')" "GRANULARITY dvd sz"
  proof -
    have at: "arena_blocks base s address = Some sz"
      using run arena_release_exact [OF ok run(2)] by (simp split: if_splits)
    from arena_release_freed [OF ok at run(2)] show ?thesis using run(1) at by auto
  qed
  show "arena_ok base capacity s' \<and> 0 < sz \<and> inside_block address sz (arena_blocks base s)
      \<and> arena_blocks base s' = arena_blocks base s \<and> ar_bytes s' = write_zeros address sz (ar_bytes s)"
    if "arena_zero base capacity address sz s = (Inr (), s')"
    using that ok by (auto simp: arena_zero_exact [OF ok] split: if_splits)
  show "s' = s" if "arena_zero base capacity address sz s = (Inl e, s')"
    using that by (auto simp: arena_zero_exact [OF ok] split: if_splits)
  show "fst (arena_zero base capacity address sz s) = Inr ()"
    if "0 < sz" "inside_block address sz (arena_blocks base s)"
    using that by (simp add: arena_zero_exact [OF ok])
qed

lemma page_geometry: "geometry 4096 0 GRANULARITY = Some (4096, 4096)"
proof -
  have "is_power_of_two (2 ^ 12)" unfolding is_power_of_two_iff by (intro exI [of _ 12]) simp
  then show ?thesis by (simp add: geometry_Some_iff round_size_Some_iff GRANULARITY_def width_simps)
qed

end
