(* ===== verification/Storage_Ledger.thy ===== *)
theory Storage_Ledger
  imports Storage_Arena
begin

text \<open>
  The ownership ledger over storage an embedder supplies (\<open>Ledger\<close>, \<open>Backing\<close> and \<open>Hooks\<close> of
  \<open>src/crates/dotnet-pal-storage/src/lib.rs\<close>). A backing is a record of two state-passing
  functions, and nothing is assumed of it: the ledger's own checks are what keeps the blocks apart
  and within the budget, even over a backing that hands out storage twice.

  \<open>lim\<close> is \<open>usize::MAX\<close> of the target, because the crate also runs on wasm32.
\<close>

section \<open>Model\<close>

record 'b backing =
  bk_allocate :: "nat \<Rightarrow> nat \<Rightarrow> 'b \<Rightarrow> nat result \<times> 'b"
  bk_release :: "nat \<Rightarrow> nat \<Rightarrow> 'b \<Rightarrow> unit result \<times> 'b"

record region =
  rg_base :: nat
  rg_size :: nat

record 'b ledger =
  lg_regions :: "region list"
  lg_owned :: nat
  lg_bytes :: memory
  lg_backing :: 'b

definition MAX_REGIONS :: nat where
  "MAX_REGIONS = 4096"

definition EMPTY :: region where
  "EMPTY = \<lparr>rg_base = 0, rg_size = 0\<rparr>"

definition ledger_new :: "memory \<Rightarrow> 'b \<Rightarrow> 'b ledger" where
  "ledger_new mem b = \<lparr>lg_regions = replicate MAX_REGIONS EMPTY, lg_owned = 0, lg_bytes = mem, lg_backing = b\<rparr>"

definition normalize :: "error \<Rightarrow> error" where
  "normalize e = (case e of InvalidArgument \<Rightarrow> e | Os \<Rightarrow> e | OutOfMemory \<Rightarrow> e | _ \<Rightarrow> Os)"

definition ledger_allocate ::
  "nat \<Rightarrow> nat \<Rightarrow> 'b backing \<Rightarrow> nat \<Rightarrow> nat \<Rightarrow> 'b ledger \<Rightarrow> nat result \<times> 'b ledger" where
  "ledger_allocate lim capacity B sz alignment st =
     (if sz = 0 \<or> capacity - lg_owned st < sz then (Inl OutOfMemory, st)
      else case position (\<lambda>r. rg_size r = 0) (lg_regions st) of
          None \<Rightarrow> (Inl OutOfMemory, st)
        | Some index \<Rightarrow>
            (case bk_allocate B sz alignment (lg_backing st) of
               (Inl e, b) \<Rightarrow> (Inl (normalize e), st\<lparr>lg_backing := b\<rparr>)
             | (Inr base, b) \<Rightarrow>
                 let st = st\<lparr>lg_backing := b\<rparr> in
                 if lim < base + sz then (Inl Os, st)
                 else if base = 0 \<or> base mod alignment \<noteq> 0 then (Inl Os, st)
                 else if list_ex (\<lambda>r. rg_size r \<noteq> 0 \<and> base < rg_base r + rg_size r \<and> rg_base r < base + sz) (lg_regions st)
                 then (Inl Os, st)
                 else (Inr base, st\<lparr>lg_bytes := write_zeros base sz (lg_bytes st),
                                    lg_regions := (lg_regions st)[index := \<lparr>rg_base = base, rg_size = sz\<rparr>],
                                    lg_owned := lg_owned st + sz\<rparr>)))"

definition ledger_release :: "'b backing \<Rightarrow> nat \<Rightarrow> nat \<Rightarrow> 'b ledger \<Rightarrow> unit result \<times> 'b ledger" where
  "ledger_release B address sz st =
     (case position (\<lambda>r. rg_size r \<noteq> 0 \<and> rg_base r = address \<and> rg_size r = sz) (lg_regions st) of
        None \<Rightarrow> (Inl InvalidArgument, st)
      | Some index \<Rightarrow>
          (case bk_release B address sz (lg_backing st) of
             (Inl e, b) \<Rightarrow> (Inl (normalize e), st\<lparr>lg_backing := b\<rparr>)
           | (Inr _, b) \<Rightarrow>
               (Inr (), st\<lparr>lg_backing := b, lg_regions := (lg_regions st)[index := EMPTY],
                           lg_owned := lg_owned st - sz\<rparr>)))"

definition ledger_zero :: "nat \<Rightarrow> nat \<Rightarrow> nat \<Rightarrow> 'b ledger \<Rightarrow> unit result \<times> 'b ledger" where
  "ledger_zero lim base sz st =
     (if lim < base + sz then (Inl InvalidArgument, st)
      else if base = 0 \<or> sz = 0 then (Inl InvalidArgument, st)
      else if \<not> list_ex (\<lambda>r. rg_size r \<noteq> 0 \<and> rg_base r \<le> base \<and> base + sz \<le> rg_base r + rg_size r) (lg_regions st)
      then (Inl InvalidArgument, st)
      else (Inr (), st\<lparr>lg_bytes := write_zeros base sz (lg_bytes st)\<rparr>))"

definition ledger_provider :: "nat \<Rightarrow> nat \<Rightarrow> 'b backing \<Rightarrow> 'b ledger linear_provider" where
  "ledger_provider lim capacity B =
     \<lparr>lp_granularity = GRANULARITY, lp_capacity = capacity,
      lp_allocate = ledger_allocate lim capacity B,
      lp_zero = ledger_zero lim,
      lp_release = ledger_release B\<rparr>"

text \<open>
  \<open>Hooks\<close>: the embedder's two C functions. The first answers a status and what it left in the
  output cell, which starts as NULL.
\<close>

definition hooks_backing ::
  "(nat \<Rightarrow> nat \<Rightarrow> nat \<Rightarrow> 'h \<Rightarrow> (nat \<times> nat) \<times> 'h) \<Rightarrow> (nat \<Rightarrow> nat \<Rightarrow> 'h \<Rightarrow> nat \<times> 'h) \<Rightarrow> 'h backing" where
  "hooks_backing hook_allocate hook_release =
     \<lparr>bk_allocate = (\<lambda>sz alignment h.
        case hook_allocate sz alignment 0 h of
          ((st, address), h') \<Rightarrow> (r_bind (port_from_status st) (\<lambda>_. Inr address), h')),
      bk_release = (\<lambda>address sz h. case hook_release address sz h of (st, h') \<Rightarrow> (port_from_status st, h'))\<rparr>"

section \<open>Invariant and abstraction\<close>

definition region_span :: "region \<Rightarrow> nat set" where
  "region_span r = span (rg_base r, rg_base r + rg_size r)"

definition regions_ok :: "nat \<Rightarrow> region list \<Rightarrow> bool" where
  "regions_ok lim rs \<longleftrightarrow> (\<forall>i<length rs. rg_size (rs ! i) \<noteq> 0 \<longrightarrow> 0 < rg_base (rs ! i) \<and> rg_base (rs ! i) + rg_size (rs ! i) \<le> lim)
     \<and> (\<forall>i<length rs. \<forall>j<length rs. i \<noteq> j \<longrightarrow> region_span (rs ! i) \<inter> region_span (rs ! j) = {})"

definition region_blocks :: "region list \<Rightarrow> blocks" where
  "region_blocks rs b = map_option rg_size (find (\<lambda>r. rg_size r \<noteq> 0 \<and> rg_base r = b) rs)"

definition ledger_ok :: "nat \<Rightarrow> nat \<Rightarrow> 'b ledger \<Rightarrow> bool" where
  "ledger_ok lim capacity st \<longleftrightarrow> regions_ok lim (lg_regions st)
     \<and> lg_owned st = live_bytes (region_blocks (lg_regions st)) \<and> lg_owned st \<le> capacity"

abbreviation ledger_blocks :: "'b ledger \<Rightarrow> blocks" where
  "ledger_blocks st \<equiv> region_blocks (lg_regions st)"

section \<open>Facts about region tables\<close>

lemma region_span_base: "rg_size r \<noteq> 0 \<Longrightarrow> rg_base r \<in> region_span r"
  by (simp add: region_span_def span_def)

lemma regions_ok_disjoint:
  "regions_ok lim rs \<Longrightarrow> i < length rs \<Longrightarrow> j < length rs \<Longrightarrow> i \<noteq> j \<Longrightarrow> region_span (rs ! i) \<inter> region_span (rs ! j) = {}"
  by (simp add: regions_ok_def)

lemma regions_ok_same:
  assumes "regions_ok lim rs" "i < length rs" "j < length rs" "rg_base (rs ! i) = rg_base (rs ! j)"
    "rg_size (rs ! i) \<noteq> 0" "rg_size (rs ! j) \<noteq> 0"
  shows "i = j"
proof (rule ccontr)
  assume "i \<noteq> j"
  from regions_ok_disjoint [OF assms(1-3) this] show False
    using region_span_base [OF assms(5)] region_span_base [OF assms(6)] assms(4) by auto
qed

lemma region_blocks_Some_iff:
  assumes "regions_ok lim rs"
  shows "region_blocks rs b = Some n \<longleftrightarrow> (\<exists>i<length rs. rs ! i = \<lparr>rg_base = b, rg_size = n\<rparr> \<and> n \<noteq> 0)"
proof
  assume "region_blocks rs b = Some n"
  then obtain r where "find (\<lambda>r. rg_size r \<noteq> 0 \<and> rg_base r = b) rs = Some r" "n = rg_size r"
    by (auto simp: region_blocks_def)
  then show "\<exists>i<length rs. rs ! i = \<lparr>rg_base = b, rg_size = n\<rparr> \<and> n \<noteq> 0" by (auto simp: find_Some_iff)
next
  assume "\<exists>i<length rs. rs ! i = \<lparr>rg_base = b, rg_size = n\<rparr> \<and> n \<noteq> 0"
  then obtain i where i: "i < length rs" "rs ! i = \<lparr>rg_base = b, rg_size = n\<rparr>" "n \<noteq> 0" by blast
  have "\<not> (rg_size (rs ! j) \<noteq> 0 \<and> rg_base (rs ! j) = b)" if "j < i" for j
    using regions_ok_same [OF assms, of j i] i that by auto
  then have "find (\<lambda>r. rg_size r \<noteq> 0 \<and> rg_base r = b) rs = Some (rs ! i)"
    unfolding find_Some_iff using i by (intro exI [of _ i]) auto
  then show "region_blocks rs b = Some n" using i(2) by (simp add: region_blocks_def)
qed

lemma region_blocks_ex:
  assumes "regions_ok lim rs"
  shows "(\<exists>b n. region_blocks rs b = Some n \<and> P b n) \<longleftrightarrow> (\<exists>r\<in>set rs. rg_size r \<noteq> 0 \<and> P (rg_base r) (rg_size r))"
proof
  assume "\<exists>b n. region_blocks rs b = Some n \<and> P b n"
  then obtain b n i where "i < length rs" "rs ! i = \<lparr>rg_base = b, rg_size = n\<rparr>" "n \<noteq> 0" "P b n"
    by (auto simp: region_blocks_Some_iff [OF assms])
  then show "\<exists>r\<in>set rs. rg_size r \<noteq> 0 \<and> P (rg_base r) (rg_size r)"
    using nth_mem [of i rs] by (intro bexI [of _ "rs ! i"]) simp_all
next
  assume "\<exists>r\<in>set rs. rg_size r \<noteq> 0 \<and> P (rg_base r) (rg_size r)"
  then obtain i where "i < length rs" "rg_size (rs ! i) \<noteq> 0" "P (rg_base (rs ! i)) (rg_size (rs ! i))"
    by (auto simp: in_set_conv_nth)
  then show "\<exists>b n. region_blocks rs b = Some n \<and> P b n"
    by (intro exI [of _ "rg_base (rs ! i)"] exI [of _ "rg_size (rs ! i)"]) (auto simp: region_blocks_Some_iff [OF assms])
qed

lemma region_blocks_None_iff: "region_blocks rs b = None \<longleftrightarrow> (\<forall>r\<in>set rs. rg_base r = b \<longrightarrow> rg_size r = 0)"
  by (auto simp: region_blocks_def find_None_iff)

lemma regions_ok_blocks:
  assumes "regions_ok lim rs"
  shows "blocks_ok lim (region_blocks rs)"
proof -
  have "dom (region_blocks rs) \<subseteq> rg_base ` set rs"
    using assms by (force simp: region_blocks_Some_iff in_set_conv_nth)
  then have "finite (dom (region_blocks rs))" by (rule finite_subset) simp
  moreover have "span (b, b + n) \<inter> span (c, c + m) = {}"
    if bc: "region_blocks rs b = Some n" "region_blocks rs c = Some m" "b \<noteq> c" for b n c m
  proof -
    obtain i j where "i < length rs" "rs ! i = \<lparr>rg_base = b, rg_size = n\<rparr>" "j < length rs" "rs ! j = \<lparr>rg_base = c, rg_size = m\<rparr>"
      using bc by (auto simp: region_blocks_Some_iff [OF assms])
    moreover then have "i \<noteq> j" using bc(3) by auto
    ultimately show ?thesis using regions_ok_disjoint [OF assms, of i j] by (simp add: region_span_def)
  qed
  moreover have "0 < b \<and> 0 < n \<and> b + n \<le> lim" if bn: "region_blocks rs b = Some n" for b n
  proof -
    obtain i where "i < length rs" "rs ! i = \<lparr>rg_base = b, rg_size = n\<rparr>" "n \<noteq> 0"
      using bn by (auto simp: region_blocks_Some_iff [OF assms])
    moreover have "rg_size (rs ! i) \<noteq> 0 \<longrightarrow> 0 < rg_base (rs ! i) \<and> rg_base (rs ! i) + rg_size (rs ! i) \<le> lim"
      using assms calculation(1) unfolding regions_ok_def by blast
    ultimately show ?thesis by simp
  qed
  ultimately show ?thesis unfolding blocks_ok_def by blast
qed

text \<open>Recording a range that misses every recorded one, in a free entry.\<close>

lemma regions_ok_record:
  assumes ok: "regions_ok lim rs" and i: "i < length rs" "rg_size (rs ! i) = 0"
    and new: "0 < base" "0 < sz" "base + sz \<le> lim" "misses base sz (region_blocks rs)"
  defines "r \<equiv> \<lparr>rg_base = base, rg_size = sz\<rparr>"
  shows "regions_ok lim (rs[i := r])" "region_blocks (rs[i := r]) = (region_blocks rs)(base \<mapsto> sz)"
proof -
  have off: "region_span r \<inter> region_span (rs ! j) = {}" if "j < length rs" for j
  proof (cases "rg_size (rs ! j) = 0")
    case False
    then have "region_blocks rs (rg_base (rs ! j)) = Some (rg_size (rs ! j))"
      using that by (auto simp: region_blocks_Some_iff [OF ok])
    then show ?thesis using missesD [OF new(4)] by (simp add: r_def region_span_def)
  qed (simp add: region_span_def span_def)
  show ok': "regions_ok lim (rs[i := r])"
    using ok off i(1) new(1-3) by (simp add: regions_ok_def nth_list_update Int_commute) (simp add: r_def)
  show "region_blocks (rs[i := r]) = (region_blocks rs)(base \<mapsto> sz)"
  proof
    fix b
    have none: "region_blocks rs base = None" by (rule misses_fresh [OF new(4) regions_ok_blocks [OF ok] new(2)])
    have "region_blocks (rs[i := r]) b = Some n \<longleftrightarrow> ((region_blocks rs)(base \<mapsto> sz)) b = Some n" for n
    proof -
      have "(\<exists>j<length rs. rs[i := r] ! j = \<lparr>rg_base = b, rg_size = n\<rparr> \<and> n \<noteq> 0) \<longleftrightarrow>
          b = base \<and> n = sz \<or> (\<exists>j<length rs. rs ! j = \<lparr>rg_base = b, rg_size = n\<rparr> \<and> n \<noteq> 0)"
        using i new(2) by (auto simp: nth_list_update r_def split: if_splits) (metis neq0_conv region.select_convs(2))
      then show ?thesis unfolding region_blocks_Some_iff [OF ok'] length_list_update region_blocks_Some_iff [OF ok, symmetric]
        using none by auto
    qed
    then show "region_blocks (rs[i := r]) b = ((region_blocks rs)(base \<mapsto> sz)) b" by (metis option.exhaust)
  qed
qed

lemma regions_ok_erase:
  assumes ok: "regions_ok lim rs" and i: "i < length rs" "rs ! i = \<lparr>rg_base = base, rg_size = sz\<rparr>" "sz \<noteq> 0"
  shows "regions_ok lim (rs[i := EMPTY])" "region_blocks (rs[i := EMPTY]) = (region_blocks rs)(base := None)"
proof -
  have none: "region_span EMPTY = {}" "rg_size EMPTY = 0" by (simp_all add: EMPTY_def region_span_def span_def)
  show ok': "regions_ok lim (rs[i := EMPTY])"
    using ok i(1) by (simp add: regions_ok_def nth_list_update none)
  have same: "j = i" if "j < length rs" "rg_base (rs ! j) = base" "rg_size (rs ! j) \<noteq> 0" for j
    using regions_ok_same [OF ok that(1) i(1)] i that by simp
  show "region_blocks (rs[i := EMPTY]) = (region_blocks rs)(base := None)"
  proof
    fix b
    have "region_blocks (rs[i := EMPTY]) b = Some n \<longleftrightarrow> ((region_blocks rs)(base := None)) b = Some n" for n
    proof -
      have "rs[i := EMPTY] ! j = \<lparr>rg_base = b, rg_size = n\<rparr> \<and> n \<noteq> 0 \<longleftrightarrow>
          b \<noteq> base \<and> rs ! j = \<lparr>rg_base = b, rg_size = n\<rparr> \<and> n \<noteq> 0" if "j < length rs" for j
      proof (cases "j = i")
        case True
        then show ?thesis using i by (auto simp: EMPTY_def)
      next
        case False
        then have "rg_base (rs ! j) \<noteq> base \<or> rg_size (rs ! j) = 0" using same [OF that] by blast
        then show ?thesis using False by auto
      qed
      then have "(\<exists>j<length rs. rs[i := EMPTY] ! j = \<lparr>rg_base = b, rg_size = n\<rparr> \<and> n \<noteq> 0) \<longleftrightarrow>
          b \<noteq> base \<and> (\<exists>j<length rs. rs ! j = \<lparr>rg_base = b, rg_size = n\<rparr> \<and> n \<noteq> 0)" by blast
      then show ?thesis
        unfolding region_blocks_Some_iff [OF ok'] length_list_update region_blocks_Some_iff [OF ok, symmetric] by auto
    qed
    then show "region_blocks (rs[i := EMPTY]) b = ((region_blocks rs)(base := None)) b" by (metis option.exhaust)
  qed
qed

section \<open>The operations\<close>

lemma ledger_ok_simps [simp]:
  "ledger_ok lim capacity (st\<lparr>lg_backing := b\<rparr>) = ledger_ok lim capacity st"
  "ledger_ok lim capacity (st\<lparr>lg_bytes := m\<rparr>) = ledger_ok lim capacity st"
  by (simp_all add: ledger_ok_def)

lemma ledger_new_ok: "ledger_ok lim capacity (ledger_new mem b)" "ledger_blocks (ledger_new mem b) = Map.empty"
proof -
  have none: "region_blocks (replicate n EMPTY) = Map.empty" for n
    by (auto simp: region_blocks_None_iff EMPTY_def fun_eq_iff)
  have "regions_ok lim (replicate n EMPTY)" for n
    by (simp add: regions_ok_def region_span_def span_def EMPTY_def)
  then show "ledger_ok lim capacity (ledger_new mem b)" "ledger_blocks (ledger_new mem b) = Map.empty"
    by (simp_all add: ledger_ok_def ledger_new_def none live_bytes_def)
qed

text \<open>The overlap test of the code decides \<open>misses\<close>.\<close>

lemma overlap_test_iff:
  assumes ok: "regions_ok lim rs" and "0 < sz"
  shows "list_ex (\<lambda>r. rg_size r \<noteq> 0 \<and> base < rg_base r + rg_size r \<and> rg_base r < base + sz) rs
    \<longleftrightarrow> \<not> misses base sz (region_blocks rs)"
proof -
  have "span (base, base + sz) \<inter> span (b, b + n) = {} \<longleftrightarrow> \<not> (base < b + n \<and> b < base + sz)" if "n \<noteq> 0" for b n
    using span_disjoint_iff [of base "base + sz" b "b + n"] assms(2) that by simp
  then have "\<not> misses base sz (region_blocks rs) \<longleftrightarrow>
      (\<exists>b n. region_blocks rs b = Some n \<and> n \<noteq> 0 \<and> base < b + n \<and> b < base + sz)"
    unfolding misses_def region_blocks_Some_iff [OF ok] by blast
  also have "\<dots> \<longleftrightarrow> (\<exists>r\<in>set rs. rg_size r \<noteq> 0 \<and> base < rg_base r + rg_size r \<and> rg_base r < base + sz)"
    by (subst region_blocks_ex [OF ok]) auto
  finally show ?thesis by (auto simp: list_ex_iff)
qed

lemma inside_test_iff:
  assumes ok: "regions_ok lim rs"
  shows "list_ex (\<lambda>r. rg_size r \<noteq> 0 \<and> rg_base r \<le> base \<and> base + sz \<le> rg_base r + rg_size r) rs
    \<longleftrightarrow> inside_block base sz (region_blocks rs)"
  unfolding inside_block_def region_blocks_ex [OF ok] by (auto simp: list_ex_iff)

lemma ledger_allocate_granted:
  assumes ok: "ledger_ok lim capacity st" and run: "ledger_allocate lim capacity B sz alignment st = (Inr base, st')"
  shows "ledger_ok lim capacity st' \<and> misses base sz (ledger_blocks st)
    \<and> ledger_blocks st' = (ledger_blocks st)(base \<mapsto> sz) \<and> lg_bytes st' = write_zeros base sz (lg_bytes st)
    \<and> alignment dvd base \<and> (\<exists>b. bk_allocate B sz alignment (lg_backing st) = (Inr base, b) \<and> lg_backing st' = b)"
proof -
  have regions: "regions_ok lim (lg_regions st)" and owned: "lg_owned st = live_bytes (ledger_blocks st)"
    using ok by (auto simp: ledger_ok_def)
  obtain index b where i: "position (\<lambda>r. rg_size r = 0) (lg_regions st) = Some index"
    and bk: "bk_allocate B sz alignment (lg_backing st) = (Inr base, b)"
    and c: "0 < sz" "sz \<le> capacity - lg_owned st" "base + sz \<le> lim" "0 < base" "base mod alignment = 0"
      "\<not> list_ex (\<lambda>r. rg_size r \<noteq> 0 \<and> base < rg_base r + rg_size r \<and> rg_base r < base + sz) (lg_regions st)"
    and st': "st' = st\<lparr>lg_backing := b, lg_bytes := write_zeros base sz (lg_bytes st),
        lg_regions := (lg_regions st)[index := \<lparr>rg_base = base, rg_size = sz\<rparr>], lg_owned := lg_owned st + sz\<rparr>"
    using run by (auto simp: ledger_allocate_def Let_def split: if_splits option.splits prod.splits sum.splits)
  have off: "misses base sz (ledger_blocks st)" using c(6) overlap_test_iff [OF regions c(1)] by simp
  have index: "index < length (lg_regions st)" "rg_size (lg_regions st ! index) = 0"
    using i by (auto simp: position_Some_iff)
  note new = regions_ok_record [OF regions index c(4,1,3) off]
  have "ledger_blocks st base = None" by (rule misses_fresh [OF off regions_ok_blocks [OF regions] c(1)])
  then have "live_bytes ((ledger_blocks st)(base \<mapsto> sz)) = live_bytes (ledger_blocks st) + sz"
    using regions_ok_blocks [OF regions] by (simp add: live_bytes_upd blocks_ok_def)
  then have "ledger_ok lim capacity st'" using new owned c(1,2) by (simp add: ledger_ok_def st')
  then show ?thesis using off new(2) c(5) bk by (simp add: st' mod_eq_0_iff_dvd)
qed

lemma ledger_allocate_refused:
  assumes "ledger_allocate lim capacity B sz alignment st = (Inl e, st')"
  shows "st' = st \<or> (\<exists>r b. bk_allocate B sz alignment (lg_backing st) = (r, b) \<and> st' = st\<lparr>lg_backing := b\<rparr>)"
  using assms by (auto simp: ledger_allocate_def Let_def split: if_splits option.splits prod.splits sum.splits)

lemma ledger_release_freed:
  assumes ok: "ledger_ok lim capacity st" and run: "ledger_release B address sz st = (Inr (), st')"
  shows "ledger_ok lim capacity st' \<and> ledger_blocks st address = Some sz
    \<and> ledger_blocks st' = (ledger_blocks st)(address := None) \<and> lg_bytes st' = lg_bytes st
    \<and> (\<exists>b u. bk_release B address sz (lg_backing st) = (Inr u, b) \<and> lg_backing st' = b)"
proof -
  have regions: "regions_ok lim (lg_regions st)" and owned: "lg_owned st = live_bytes (ledger_blocks st)" "lg_owned st \<le> capacity"
    using ok by (auto simp: ledger_ok_def)
  obtain index b u where i: "position (\<lambda>r. rg_size r \<noteq> 0 \<and> rg_base r = address \<and> rg_size r = sz) (lg_regions st) = Some index"
    and bk: "bk_release B address sz (lg_backing st) = (Inr u, b)"
    and st': "st' = st\<lparr>lg_backing := b, lg_regions := (lg_regions st)[index := EMPTY], lg_owned := lg_owned st - sz\<rparr>"
    using run by (auto simp: ledger_release_def split: option.splits prod.splits sum.splits)
  have index: "index < length (lg_regions st)" "lg_regions st ! index = \<lparr>rg_base = address, rg_size = sz\<rparr>" "sz \<noteq> 0"
    using i by (auto simp: position_Some_iff)
  note new = regions_ok_erase [OF regions index]
  have at: "ledger_blocks st address = Some sz" using index by (auto simp: region_blocks_Some_iff [OF regions])
  have "live_bytes ((ledger_blocks st)(address := None)) + sz = live_bytes (ledger_blocks st)"
    using regions_ok_blocks [OF regions] at by (simp add: live_bytes_del blocks_ok_def)
  then have "ledger_ok lim capacity st'" using new owned by (auto simp: ledger_ok_def st')
  then show ?thesis using at new(2) bk by (simp add: st')
qed

lemma ledger_release_refused:
  assumes ok: "ledger_ok lim capacity st" and run: "ledger_release B address sz st = (Inl e, st')"
  shows "st' = st \<or> ledger_blocks st address = Some sz
    \<and> (\<exists>e b. bk_release B address sz (lg_backing st) = (Inl e, b) \<and> st' = st\<lparr>lg_backing := b\<rparr>)"
proof (cases "position (\<lambda>r. rg_size r \<noteq> 0 \<and> rg_base r = address \<and> rg_size r = sz) (lg_regions st)")
  case None
  then show ?thesis using run by (simp add: ledger_release_def)
next
  case (Some index)
  then have "lg_regions st ! index = \<lparr>rg_base = address, rg_size = sz\<rparr>" "index < length (lg_regions st)" "sz \<noteq> 0"
    by (auto simp: position_Some_iff)
  moreover have "regions_ok lim (lg_regions st)" using ok by (simp add: ledger_ok_def)
  ultimately have "ledger_blocks st address = Some sz" by (auto simp: region_blocks_Some_iff)
  then show ?thesis using run Some by (auto simp: ledger_release_def split: prod.splits sum.splits)
qed

lemma ledger_zero_exact:
  assumes "ledger_ok lim capacity st"
  shows "ledger_zero lim base sz st =
    (if base + sz \<le> lim \<and> 0 < base \<and> 0 < sz \<and> inside_block base sz (ledger_blocks st)
     then (Inr (), st\<lparr>lg_bytes := write_zeros base sz (lg_bytes st)\<rparr>) else (Inl InvalidArgument, st))"
proof -
  have regions: "regions_ok lim (lg_regions st)" using assms by (simp add: ledger_ok_def)
  show ?thesis unfolding ledger_zero_def inside_test_iff [OF regions] by auto
qed

lemma ledger_provider_simps [simp]:
  "lp_granularity (ledger_provider lim capacity B) = GRANULARITY"
  "lp_capacity (ledger_provider lim capacity B) = capacity"
  "lp_allocate (ledger_provider lim capacity B) = ledger_allocate lim capacity B"
  "lp_zero (ledger_provider lim capacity B) = ledger_zero lim"
  "lp_release (ledger_provider lim capacity B) = ledger_release B"
  by (simp_all add: ledger_provider_def)

interpretation ledger_storage: linear_storage "ledger_provider lim capacity B" "ledger_ok lim capacity"
  ledger_blocks lg_bytes lim
proof (unfold_locales, unfold ledger_provider_simps)
  fix s s' :: "'a ledger" and sz alignment address e
  assume ok: "ledger_ok lim capacity s"
  have wf: "blocks_ok lim (ledger_blocks s)" using ok by (simp add: ledger_ok_def regions_ok_blocks)
  then show "blocks_ok lim (ledger_blocks s)" .
  show "live_bytes (ledger_blocks s) \<le> capacity" using ok by (simp add: ledger_ok_def)
  show "ledger_ok lim capacity s' \<and> misses address sz (ledger_blocks s)
      \<and> ledger_blocks s' = (ledger_blocks s)(address \<mapsto> sz)
      \<and> lg_bytes s' = write_zeros address sz (lg_bytes s) \<and> alignment dvd address"
    if "ledger_allocate lim capacity B sz alignment s = (Inr address, s')"
    using ledger_allocate_granted [OF ok that] by simp
  show "ledger_ok lim capacity s' \<and> ledger_blocks s' = ledger_blocks s \<and> lg_bytes s' = lg_bytes s"
    if "ledger_allocate lim capacity B sz alignment s = (Inl e, s')"
    using ledger_allocate_refused [OF that] ok by auto
  show "ledger_ok lim capacity s' \<and> ledger_blocks s' = ledger_blocks s \<and> lg_bytes s' = lg_bytes s"
    if "ledger_release B address sz s = (Inl e, s')"
    using ledger_release_refused [OF ok that] ok by auto
  show "ledger_ok lim capacity s' \<and> ledger_blocks s address = Some sz
      \<and> ledger_blocks s' = (ledger_blocks s)(address := None) \<and> lg_bytes s' = lg_bytes s"
    if "ledger_release B address sz s = (Inr (), s')"
    using ledger_release_freed [OF ok that] by simp
  show "ledger_ok lim capacity s' \<and> 0 < sz \<and> inside_block address sz (ledger_blocks s)
      \<and> ledger_blocks s' = ledger_blocks s \<and> lg_bytes s' = write_zeros address sz (lg_bytes s)"
    if "ledger_zero lim address sz s = (Inr (), s')"
    using that ok by (auto simp: ledger_zero_exact [OF ok] split: if_splits)
  show "s' = s" if "ledger_zero lim address sz s = (Inl e, s')"
    using that by (auto simp: ledger_zero_exact [OF ok] split: if_splits)
  show "fst (ledger_zero lim address sz s) = Inr ()"
    if "0 < address" "0 < sz" "inside_block address sz (ledger_blocks s)"
  proof -
    have "address + sz \<le> lim" using that(3) blocks_okD(3) [OF wf] by (fastforce simp: inside_block_def)
    then show ?thesis using that by (simp add: ledger_zero_exact [OF ok])
  qed
qed

lemma ledger_first:
  assumes "bk_allocate B 4096 4096 b = (Inr base, b')" "0 < base" "base mod 4096 = 0" "base + 4096 \<le> lim" "4096 \<le> capacity"
  shows "ledger_allocate lim capacity B 4096 4096 (ledger_new mem b) =
    (Inr base, \<lparr>lg_regions = (replicate MAX_REGIONS EMPTY)[0 := \<lparr>rg_base = base, rg_size = 4096\<rparr>], lg_owned = 4096,
       lg_bytes = write_zeros base 4096 mem, lg_backing = b'\<rparr>)"
proof -
  have "replicate MAX_REGIONS EMPTY = EMPTY # replicate 4095 EMPTY" by (simp add: MAX_REGIONS_def replicate_Suc [symmetric] del: replicate_Suc)
  then have p: "position (\<lambda>r. rg_size r = 0) (replicate MAX_REGIONS EMPTY) = Some 0" by (simp add: EMPTY_def)
  show ?thesis using assms p by (simp add: ledger_allocate_def ledger_new_def Let_def list_ex_iff EMPTY_def)
qed

end
