(* ===== verification/Storage_Grow.thy ===== *)
theory Storage_Grow
  imports Storage_Ledger
begin

text \<open>
  Demand storage of a wasm32 module (\<open>src/crates/dotnet-pal-wasm/src/lib.rs\<close>): pages obtained with
  \<open>memory.grow\<close> go out from a sorted, coalescing free list of at most 512 entries.

  The array with a count is the list of its first \<open>count\<close> entries. \<open>usize\<close> has 32 bits on this
  target: checked operations compare with \<open>U32_MAX\<close>, the others wrap, as they do in a release build.
  An \<open>assert!\<close> that fails is \<open>None\<close>. The linear memory is its size in pages; whether the engine
  grants a growth is the argument \<open>grants\<close>.
\<close>

section \<open>Model\<close>

record block =
  bl_base :: nat
  bl_size :: nat

definition WASM_PAGE :: nat where "WASM_PAGE = 65536"
definition MAX_FREE :: nat where "MAX_FREE = 512"

definition add32 :: "nat \<Rightarrow> nat \<Rightarrow> nat" where
  "add32 a b = (a + b) mod 2 ^ 32"

definition align_up :: "nat \<Rightarrow> nat \<Rightarrow> nat option" where
  "align_up value alignment = align_within U32_MAX value alignment"

definition free_insert :: "block list \<Rightarrow> nat \<Rightarrow> nat \<Rightarrow> bool \<times> block list" where
  "free_insert l base sz =
     (let past = add32 base sz;
          index = (case position (\<lambda>b. base < bl_base b) l of Some i \<Rightarrow> i | None \<Rightarrow> length l);
          merges_previous = (0 < index \<and> add32 (bl_base (l ! (index - 1))) (bl_size (l ! (index - 1))) = base);
          merges_next = (index < length l \<and> bl_base (l ! index) = past)
      in
      if merges_previous \<and> merges_next then
        (True, (let l' = l[index - 1 := (l ! (index - 1))\<lparr>bl_size :=
                  add32 (bl_size (l ! (index - 1))) (add32 sz (bl_size (l ! index)))\<rparr>]
                in take index l' @ drop (index + 1) l'))
      else if merges_previous then
        (True, l[index - 1 := (l ! (index - 1))\<lparr>bl_size := add32 (bl_size (l ! (index - 1))) sz\<rparr>])
      else if merges_next then
        (True, l[index := \<lparr>bl_base = base, bl_size = add32 (bl_size (l ! index)) sz\<rparr>])
      else if length l = MAX_FREE then (False, l)
      else (True, take index l @ \<lparr>bl_base = base, bl_size = sz\<rparr> # drop index l))"

text \<open>The loop of \<open>take\<close> over the indices left; \<open>None\<close> is a failed assertion.\<close>

fun take_scan :: "nat list \<Rightarrow> block list \<Rightarrow> nat \<Rightarrow> nat \<Rightarrow> (nat option \<times> block list) option" where
  "take_scan [] l sz alignment = Some (None, l)"
| "take_scan (index # rest) l sz alignment =
     (let b = l ! index in
      case align_up (bl_base b) alignment of
        None \<Rightarrow> take_scan rest l sz alignment
      | Some start \<Rightarrow>
          if U32_MAX < start + sz then take_scan rest l sz alignment
          else
            let past = start + sz in
            if add32 (bl_base b) (bl_size b) < past then take_scan rest l sz alignment
            else
              let lead = start - bl_base b;
                  trail = add32 (bl_base b) (bl_size b) - past in
              if lead \<noteq> 0 \<and> trail \<noteq> 0 \<and> length l = MAX_FREE then take_scan rest l sz alignment
              else
                let l = take index l @ drop (index + 1) l in
                case (if lead \<noteq> 0 then free_insert l (bl_base b) lead else (True, l)) of
                  (False, _) \<Rightarrow> None
                | (True, l) \<Rightarrow>
                    (case (if trail \<noteq> 0 then free_insert l past trail else (True, l)) of
                       (False, _) \<Rightarrow> None
                     | (True, l) \<Rightarrow> Some (Some start, l)))"

definition free_take :: "block list \<Rightarrow> nat \<Rightarrow> nat \<Rightarrow> (nat option \<times> block list) option" where
  "free_take l sz alignment = take_scan [0..<length l] l sz alignment"

record wasm =
  wa_free :: "block list"
  wa_pages :: nat

text \<open>\<open>memory.grow\<close>: the size before, or -1 when the engine refuses; at most 65536 pages ever.\<close>

definition memory_grow :: "(nat \<Rightarrow> nat \<Rightarrow> bool) \<Rightarrow> nat \<Rightarrow> nat \<Rightarrow> nat \<times> nat" where
  "memory_grow grants delta pages =
     (if pages + delta \<le> 65536 \<and> grants pages delta then (pages, pages + delta) else (U32_MAX, pages))"

definition grow_list :: "(nat \<Rightarrow> nat \<Rightarrow> bool) \<Rightarrow> nat \<Rightarrow> nat \<Rightarrow> wasm \<Rightarrow> (unit result \<times> wasm) option" where
  "grow_list grants sz alignment w =
     (let current = min (wa_pages w * WASM_PAGE) U32_MAX in
      case align_up current alignment of
        None \<Rightarrow> Some (Inl OutOfMemory, w)
      | Some start \<Rightarrow>
          if U32_MAX < start - current + sz then Some (Inl OutOfMemory, w)
          else
            let needed = start - current + sz;
                pages = (needed + (WASM_PAGE - 1)) div WASM_PAGE in
            if length (wa_free w) = MAX_FREE \<or> pages = 0 then Some (Inl OutOfMemory, w)
            else case memory_grow grants pages (wa_pages w) of (previous, grown) \<Rightarrow>
              if previous = U32_MAX then Some (Inl OutOfMemory, w\<lparr>wa_pages := grown\<rparr>)
              else if previous * WASM_PAGE mod 2 ^ 32 \<noteq> current then Some (Inl Os, w\<lparr>wa_pages := grown\<rparr>)
              else (case free_insert (wa_free w) current (pages * WASM_PAGE mod 2 ^ 32) of
                  (False, _) \<Rightarrow> None
                | (True, l) \<Rightarrow> Some (Inr (), w\<lparr>wa_pages := grown, wa_free := l\<rparr>)))"

definition grow_allocate :: "(nat \<Rightarrow> nat \<Rightarrow> bool) \<Rightarrow> nat \<Rightarrow> nat \<Rightarrow> wasm \<Rightarrow> (nat result \<times> wasm) option" where
  "grow_allocate grants sz alignment w =
     (if sz = 0 \<or> \<not> is_power_of_two alignment then Some (Inl InvalidArgument, w)
      else case free_take (wa_free w) sz alignment of
          None \<Rightarrow> None
        | Some (Some address, l) \<Rightarrow> Some (Inr address, w\<lparr>wa_free := l\<rparr>)
        | Some (None, l) \<Rightarrow>
            (case grow_list grants sz alignment (w\<lparr>wa_free := l\<rparr>) of
               None \<Rightarrow> None
             | Some (Inl e, w) \<Rightarrow> Some (Inl e, w)
             | Some (Inr _, w) \<Rightarrow>
                 (case free_take (wa_free w) sz alignment of
                    None \<Rightarrow> None
                  | Some (found, l) \<Rightarrow> Some (ok_or found Os, w\<lparr>wa_free := l\<rparr>))))"

definition grow_release :: "nat \<Rightarrow> nat \<Rightarrow> wasm \<Rightarrow> unit result \<times> wasm" where
  "grow_release base sz w =
     (if base = 0 \<or> sz = 0 \<or> U32_MAX < base + sz then (Inl InvalidArgument, w)
      else case free_insert (wa_free w) base sz of
          (True, l) \<Rightarrow> (Inr (), w\<lparr>wa_free := l\<rparr>)
        | (False, l) \<Rightarrow> (Inl Os, w\<lparr>wa_free := l\<rparr>))"

text \<open>The backing the ledger runs on. A failed assertion stops the module; it is shown not to happen.\<close>

definition grow_backing :: "(nat \<Rightarrow> nat \<Rightarrow> bool) \<Rightarrow> wasm backing" where
  "grow_backing grants =
     \<lparr>bk_allocate = (\<lambda>sz alignment w.
        case grow_allocate grants sz alignment w of Some r \<Rightarrow> r | None \<Rightarrow> (Inl Os, w)),
      bk_release = grow_release\<rparr>"

section \<open>Invariant\<close>

definition ext :: "block \<Rightarrow> extent" where
  "ext b = (bl_base b, bl_base b + bl_size b)"

definition unext :: "extent \<Rightarrow> block" where
  "unext e = \<lparr>bl_base = lo e, bl_size = hi e - lo e\<rparr>"

abbreviation exts :: "block list \<Rightarrow> extent list" where
  "exts l \<equiv> map ext l"

definition list_ok :: "block list \<Rightarrow> bool" where
  "list_ok l \<longleftrightarrow> spaced (exts l) \<and> length l \<le> MAX_FREE \<and> (\<forall>e\<in>set (exts l). hi e < 2 ^ 32)"

section \<open>The free list is the reference free list\<close>

lemma unext_ext [simp]: "unext (ext b) = b"
  by (simp add: unext_def ext_def)

lemma unext_comp_ext [simp]: "unext \<circ> ext = id"
  by (simp add: fun_eq_iff)

lemma unext_exts: "map unext (exts l) = l"
  by simp

lemma ext_unext: "lo e \<le> hi e \<Longrightarrow> ext (unext e) = e"
  by (simp add: unext_def ext_def)

lemma exts_unext:
  assumes "spaced es"
  shows "exts (map unext es) = es"
  using assms by (auto simp: list.map_comp comp_def ext_unext spaced_def intro!: map_idI)

lemma ext_simps [simp]: "lo (ext b) = bl_base b" "hi (ext b) = bl_base b + bl_size b"
  by (simp_all add: ext_def)

lemma block_resize: "b\<lparr>bl_size := n\<rparr> = \<lparr>bl_base = bl_base b, bl_size = n\<rparr>" for b :: block
  by (cases b) simp

lemma add32_small: "a + b < 2 ^ 32 \<Longrightarrow> add32 a b = a + b"
  by (simp add: add32_def)

text \<open>Where the scan for the insertion point stops.\<close>

lemma insertion_point:
  assumes "i = (case position (\<lambda>b. x < bl_base b) l of Some i \<Rightarrow> i | None \<Rightarrow> length l)" "spaced (exts l)"
  shows "i \<le> length l" "\<And>j. j < i \<Longrightarrow> bl_base (l ! j) \<le> x" "\<And>j. i \<le> j \<Longrightarrow> j < length l \<Longrightarrow> x \<le> bl_base (l ! j)"
proof -
  show "i \<le> length l" using assms(1) by (auto simp: position_Some_iff split: option.splits)
  then show "\<And>j. j < i \<Longrightarrow> bl_base (l ! j) \<le> x"
    using assms(1) by (auto simp: position_Some_iff position_None_iff not_less split: option.splits)
  have "x < bl_base (l ! i)" if "i < length l"
    using assms(1) that by (cases "position (\<lambda>b. x < bl_base b) l") (auto simp: position_Some_iff)
  moreover have "bl_base (l ! i) < bl_base (l ! j)" if "i < j" "j < length l" for j
    using assms(2) that unfolding spaced_def by (auto simp: sorted_wrt_iff_nth_less) (metis add_lessD1)
  ultimately show "\<And>j. i \<le> j \<Longrightarrow> j < length l \<Longrightarrow> x \<le> bl_base (l ! j)"
    by (metis less_imp_le less_trans nat_less_le)
qed

lemma free_insert_eq:
  assumes ok: "list_ok l" and new: "0 < sz" "base + sz < 2 ^ 32" "span (base, base + sz) \<inter> covered (exts l) = {}"
  defines "es \<equiv> coalesce (base, base + sz) (exts l)"
  shows "free_insert l base sz = (if length es \<le> MAX_FREE then (True, map unext es) else (False, l))"
proof -
  define i where "i = (case position (\<lambda>b. base < bl_base b) l of Some i \<Rightarrow> i | None \<Rightarrow> length l)"
  have spaced: "spaced (exts l)" and len: "length l \<le> MAX_FREE"
    and small: "\<And>j. j < length l \<Longrightarrow> bl_base (l ! j) + bl_size (l ! j) < 2 ^ 32"
    using ok by (auto simp: list_ok_def)
  note ip = insertion_point [OF i_def spaced]
  define ap where "ap \<longleftrightarrow> 0 < i \<and> bl_base (l ! (i - 1)) + bl_size (l ! (i - 1)) = base"
  define bn where "bn \<longleftrightarrow> i < length l \<and> bl_base (l ! i) = base + sz"
  let ?lo = "if ap then bl_base (l ! (i - 1)) else base"
  have nth: "lo (exts l ! j) = bl_base (l ! j)" "hi (exts l ! j) = bl_base (l ! j) + bl_size (l ! j)" if "j < length l" for j
    using that by simp_all
  have "(0 < i \<and> hi (exts l ! (i - 1)) = base) = ap" "(i < length (exts l) \<and> lo (exts l ! i) = base + sz) = bn"
      and lo: "(if ap then lo (exts l ! (i - 1)) else base) = ?lo"
    using nth [of "i - 1"] ip(1) by (auto simp: ap_def bn_def)
  note cs = coalesce_at [OF spaced new(3), of i, unfolded Let_def this(1,2) lo]
  have "es = take (if ap then i - 1 else i) (exts l)
      @ (if bn then (?lo, hi (exts l ! i)) # drop (Suc i) (exts l) else (?lo, base + sz) # drop i (exts l))"
    unfolding es_def by (rule cs) (use new(1) ip nth in auto)
  then have es: "map unext es = take (if ap then i - 1 else i) l
      @ (if bn then unext (?lo, bl_base (l ! i) + bl_size (l ! i)) # drop (Suc i) l else unext (?lo, base + sz) # drop i l)"
    by (simp add: bn_def take_map drop_map split del: if_split cong: if_cong) (simp add: bn_def)
  have "(0 < i \<and> add32 (bl_base (l ! (i - 1))) (bl_size (l ! (i - 1))) = base) = ap"
      "(i < length l \<and> bl_base (l ! i) = add32 base sz) = bn"
    using add32_small [OF small, of "i - 1"] add32_small [OF new(2)] ip(1) by (auto simp: ap_def bn_def)
  note code = free_insert_def [of l base sz, unfolded Let_def, folded i_def, unfolded this]
  have length: "length es = length (map unext es)" by simp
  have prev: "0 < i" "bl_base (l ! (i - 1)) + bl_size (l ! (i - 1)) = base" if ap using that by (auto simp: ap_def)
  have nxt: "i < length l" "bl_base (l ! i) = base + sz" "base + sz + bl_size (l ! i) < 2 ^ 32" if bn
    using that small [of i] by (auto simp: bn_def)
  have "add32 (bl_size (l ! (i - 1))) sz = base + sz - bl_base (l ! (i - 1))" if ap
    using prev(2) [OF that] new(2) by (subst add32_small) linarith+
  moreover have "add32 (bl_size (l ! i)) sz = bl_base (l ! i) + bl_size (l ! i) - base" if bn
    using nxt(2,3) [OF that] by (subst add32_small) linarith+
  moreover have "add32 (bl_size (l ! (i - 1))) (add32 sz (bl_size (l ! i))) = bl_base (l ! i) + bl_size (l ! i) - bl_base (l ! (i - 1))"
    if ap bn
  proof -
    have "add32 sz (bl_size (l ! i)) = sz + bl_size (l ! i)" using nxt(3) [OF that(2)] by (intro add32_small) linarith
    then show ?thesis using nxt(2,3) [OF that(2)] prev(2) [OF that(1)] by (subst add32_small) linarith+
  qed
  moreover have "take i (l[i - 1 := b]) @ drop (i + 1) (l[i - 1 := b]) = take (i - 1) l @ b # drop (Suc i) l"
      "l[i - 1 := b] = take (i - 1) l @ b # drop i l" if ap for b
    using update_before [OF prev(1) [OF that] ip(1), of b] prev(1) [OF that] ip(1) by (simp_all add: drop_Cons')
  moreover have "l[i := b] = take i l @ b # drop (Suc i) l" if bn for b
    using nxt(1) [OF that] by (rule upd_conv_take_nth_drop)
  ultimately show ?thesis using prev(1) nxt(1) len ip(1) unfolding length es code block_resize
    by (cases ap; cases bn) (simp_all add: unext_def del: One_nat_def)
qed

text \<open>A remainder of a block that was taken out goes back without touching its neighbours.\<close>

lemma list_ok_unext:
  assumes "spaced es" "length es \<le> MAX_FREE" "\<forall>e\<in>set es. hi e < 2 ^ 32"
  shows "list_ok (map unext es)" "exts (map unext es) = es"
  using assms exts_unext [OF assms(1)] by (simp_all add: list_ok_def)

lemma free_insert_between:
  assumes "spaced (pre @ (l, h) # post)" "length (pre @ post) < MAX_FREE" "\<forall>e\<in>set (pre @ (l, h) # post). hi e < 2 ^ 32"
  shows "free_insert (map unext (pre @ post)) l (h - l) = (True, map unext (pre @ (l, h) # post))"
proof -
  have spaced: "spaced (pre @ post)" and lh: "l < h" using assms(1) by auto
  have gap: "\<forall>e\<in>set pre. hi e < l" "\<forall>e\<in>set post. h < lo e" using assms(1) by auto
  moreover have "\<forall>e\<in>set post. l < hi e"
    using gap(2) apart_nonempty [OF spaced] lh by (metis UnCI less_trans set_append)
  ultimately have co: "coalesce (l, h) (pre @ post) = pre @ (l, h) # post" by (intro coalesce_between) auto
  have "span (l, h) \<inter> covered pre = {}"
    using covered_below [OF _ gap(1)] by (fastforce simp: span_def)
  moreover have "span (l, h) \<inter> covered post = {}"
    using covered_above [OF _ gap(2)] by (fastforce simp: span_def)
  ultimately have "span (l, h) \<inter> covered (pre @ post) = {}" by auto
  moreover note ok = list_ok_unext [of "pre @ post"]
  have "list_ok (map unext (pre @ post))" "exts (map unext (pre @ post)) = pre @ post" using ok spaced assms(2,3) by auto
  ultimately show ?thesis
    using free_insert_eq [of "map unext (pre @ post)" "h - l" l] lh assms(2,3) co by simp
qed

lemma apart_shrink:
  assumes "spaced (pre @ e # post)" "lo e \<le> a" "a < b" "b \<le> hi e"
  shows "spaced (pre @ (a, b) # post)"
  using assms by (simp add: less_le_trans [of _ "lo e" a] le_less_trans [of b "hi e"])

lemma apart_remainders:
  assumes "spaced (pre @ e # post)" "lo e \<le> s" "s < t" "t \<le> hi e"
  shows "spaced (pre @ remainders e (s, t) @ post)"
proof -
  have "\<forall>p\<in>set pre. \<forall>r\<in>set (remainders e (s, t)). hi p < lo r" "\<forall>r\<in>set (remainders e (s, t)). \<forall>q\<in>set post. hi r < lo q"
    using assms remainders_facts(3) [OF assms(2-4)] by (simp_all) (meson le_less_trans less_le_trans)+
  then show ?thesis using assms(1) remainders_facts(2) [OF assms(2-4)] by auto
qed

text \<open>The two assertions of \<open>take\<close>: both remainders go back.\<close>

lemma remainders_return:
  assumes spaced: "spaced (pre @ e # post)" and cut: "lo e \<le> s" "s < t" "t \<le> hi e"
    and room: "Suc (length (pre @ post)) \<le> MAX_FREE" "lo e < s \<and> t < hi e \<Longrightarrow> Suc (length (pre @ post)) \<noteq> MAX_FREE"
    and small: "\<forall>f\<in>set (pre @ e # post). hi f < 2 ^ 32"
  shows "(case (if s - lo e \<noteq> 0 then free_insert (map unext (pre @ post)) (lo e) (s - lo e) else (True, map unext (pre @ post))) of
        (False, _) \<Rightarrow> None
      | (True, l) \<Rightarrow>
          (case (if hi e - t \<noteq> 0 then free_insert l t (hi e - t) else (True, l)) of
             (False, _) \<Rightarrow> None | (True, l) \<Rightarrow> Some (Some s, l)))
    = Some (Some s, map unext (pre @ remainders e (s, t) @ post))"
proof -
  let ?lead = "pre @ (if lo e < s then [(lo e, s)] else [])"
  have "(if s - lo e \<noteq> 0 then free_insert (map unext (pre @ post)) (lo e) (s - lo e) else (True, map unext (pre @ post)))
      = (True, map unext (?lead @ post))"
    using free_insert_between [OF apart_shrink [OF spaced, of "lo e" s]] cut room(1) small by auto
  moreover have "(if hi e - t \<noteq> 0 then free_insert (map unext (?lead @ post)) t (hi e - t) else (True, map unext (?lead @ post)))
      = (True, map unext (pre @ remainders e (s, t) @ post))"
  proof (cases "t < hi e")
    case True
    have eq: "?lead @ (t, hi e) # post = pre @ remainders e (s, t) @ post" using True by (simp add: remainders_def)
    have "spaced (?lead @ (t, hi e) # post)" unfolding eq by (rule apart_remainders [OF spaced cut])
    moreover have "\<forall>f\<in>set (?lead @ (t, hi e) # post). hi f < 2 ^ 32" using small cut by auto
    moreover have "length (?lead @ post) < MAX_FREE" using room True by auto
    ultimately have "free_insert (map unext (?lead @ post)) t (hi e - t) = (True, map unext (?lead @ (t, hi e) # post))"
      by (intro free_insert_between)
    then show ?thesis using True unfolding eq by (simp split del: if_split)
  qed (use cut in \<open>simp add: remainders_def\<close>)
  ultimately show ?thesis by (simp only: prod.case bool.case)
qed

lemma take_scan_eq:
  assumes ok: "list_ok l" and args: "0 < sz" "is_power_of_two alignment" and k: "k \<le> length l"
  shows "take_scan [k..<length l] l sz alignment =
    Some (case carve U32_MAX sz alignment (length l = MAX_FREE) (drop k (exts l)) of
        None \<Rightarrow> (None, l)
      | Some (start, es) \<Rightarrow> (Some start, map unext (take k (exts l) @ es)))"
  using k
proof (induction "length l - k" arbitrary: k)
  case 0
  then show ?case by simp
next
  case (Suc n)
  have spaced: "spaced (exts l)" and len: "length l \<le> MAX_FREE" and small: "\<forall>e\<in>set (exts l). hi e < 2 ^ 32"
    using ok by (auto simp: list_ok_def)
  have k: "k < length l" using Suc by simp
  let ?e = "ext (l ! k)" and ?full = "length l = MAX_FREE" and ?pre = "take k (exts l)" and ?post = "drop (Suc k) (exts l)"
  have upt: "[k..<length l] = k # [Suc k..<length l]" using k by (rule upt_conv_Cons)
  have drop: "drop k (exts l) = ?e # ?post" using k Cons_nth_drop_Suc [of k "exts l"] by simp
  have split: "exts l = ?pre @ ?e # ?post" using k by (simp add: drop [symmetric])
  have hi: "add32 (bl_base (l ! k)) (bl_size (l ! k)) = hi ?e" using small k by (subst add32_small) auto
  have IH: "take_scan [Suc k..<length l] l sz alignment =
      Some (case carve U32_MAX sz alignment ?full ?post of None \<Rightarrow> (None, l)
        | Some (start, es) \<Rightarrow> (Some start, map unext (take (Suc k) (exts l) @ es)))"
    using Suc(1) [of "Suc k"] Suc(2) k by simp
  have Suc_take: "take (Suc k) (exts l) = ?pre @ [?e]" using k by (simp add: take_Suc_conv_app_nth)
  show ?case
  proof (cases "fit U32_MAX sz alignment ?full ?e")
    case None
    then have "take_scan [k..<length l] l sz alignment = take_scan [Suc k..<length l] l sz alignment"
      unfolding upt using hi by (auto simp: fit_def align_up_def Let_def split: option.splits if_splits)
    then show ?thesis using IH None Suc_take by (auto simp: drop split: option.splits)
  next
    case (Some start)
    have "U32_MAX \<le> USIZE_MAX" by (simp add: width_simps)
    note f = fit_Some [OF Some args(2) this]
    have rest: "take k l @ drop (k + 1) l = map unext (?pre @ ?post)" by (simp add: take_map drop_map)
    have "spaced (?pre @ ?e # ?post)" "Suc (length (?pre @ ?post)) = length l" "\<forall>g\<in>set (?pre @ ?e # ?post). hi g < 2 ^ 32"
      using spaced small k split by auto
    moreover have "lo ?e < start \<and> start + sz < hi ?e \<Longrightarrow> length l \<noteq> MAX_FREE" using f(5) by auto
    ultimately have "(case (if start - lo ?e \<noteq> 0 then free_insert (map unext (?pre @ ?post)) (lo ?e) (start - lo ?e) else (True, map unext (?pre @ ?post))) of
        (False, _) \<Rightarrow> None
      | (True, l) \<Rightarrow>
          (case (if hi ?e - (start + sz) \<noteq> 0 then free_insert l (start + sz) (hi ?e - (start + sz)) else (True, l)) of
             (False, _) \<Rightarrow> None | (True, l) \<Rightarrow> Some (Some start, l)))
      = Some (Some start, map unext (?pre @ remainders ?e (start, start + sz) @ ?post))"
      using f args(1) len by (intro remainders_return) auto
    moreover have "align_up (lo ?e) alignment = Some start" "\<not> U32_MAX < start + sz" "\<not> hi ?e < start + sz"
        "\<not> (start - lo ?e \<noteq> 0 \<and> hi ?e - (start + sz) \<noteq> 0 \<and> length l = MAX_FREE)"
      using Some by (auto simp: fit_def align_up_def split: option.splits if_splits)
    ultimately have "take_scan [k..<length l] l sz alignment = Some (Some start, map unext (?pre @ remainders ?e (start, start + sz) @ ?post))"
      unfolding upt take_scan.simps Let_def rest hi ext_simps(1) by (simp only: option.case if_False)
    then show ?thesis using Some by (simp add: drop)
  qed
qed

section \<open>The provider\<close>

definition free_bytes :: "wasm \<Rightarrow> nat set" where
  "free_bytes w = covered (exts (wa_free w))"

text \<open>
  The invariant of the provider: a free list below the end of a memory that starts with at least a
  page of the module's own and stays below four gigabytes.
\<close>

definition wasm_ok :: "wasm \<Rightarrow> bool" where
  "wasm_ok w \<longleftrightarrow> spaced (exts (wa_free w)) \<and> length (wa_free w) \<le> MAX_FREE
     \<and> free_bytes w \<subseteq> {1..<wa_pages w * WASM_PAGE} \<and> 0 < wa_pages w \<and> wa_pages w < 65536"

lemma pages_small: "n < 65536 \<Longrightarrow> n * WASM_PAGE < 2 ^ 32"
  by (simp add: WASM_PAGE_def)

lemma wasm_ok_list:
  assumes "wasm_ok w"
  shows "list_ok (wa_free w)"
proof -
  have ok: "spaced (exts (wa_free w))" "covered (exts (wa_free w)) \<subseteq> {1..<wa_pages w * WASM_PAGE}" "wa_pages w * WASM_PAGE < 2 ^ 32"
    "length (wa_free w) \<le> MAX_FREE"
    using assms pages_small by (simp_all add: wasm_ok_def free_bytes_def)
  have "hi e < 2 ^ 32" if "e \<in> set (exts (wa_free w))" for e
    using covered_bounds(2) [OF ok(1,2) that] ok(3) by simp
  then show ?thesis using ok(1,4) unfolding list_ok_def by blast
qed

lemma free_take_eq:
  assumes "list_ok l" "0 < sz" "is_power_of_two alignment"
  shows "free_take l sz alignment =
    Some (case carve U32_MAX sz alignment (length l = MAX_FREE) (exts l) of
        None \<Rightarrow> (None, l)
      | Some (start, es) \<Rightarrow> (Some start, map unext es))"
  using take_scan_eq [OF assms, of 0] by (simp add: free_take_def split: option.splits)

lemma list_ok_covered: "list_ok l \<longleftrightarrow> spaced (exts l) \<and> length l \<le> MAX_FREE \<and> covered (exts l) \<subseteq> {0..<2 ^ 32 - 1}"
proof -
  have "(\<forall>e\<in>set (exts l). hi e < 2 ^ 32) \<longleftrightarrow> covered (exts l) \<subseteq> {0..<2 ^ 32 - 1}" if "spaced (exts l)"
  proof
    assume "\<forall>e\<in>set (exts l). hi e < 2 ^ 32"
    then show "covered (exts l) \<subseteq> {0..<2 ^ 32 - 1}" by (fastforce simp: covered_def span_def)
  next
    assume sub: "covered (exts l) \<subseteq> {0..<2 ^ 32 - 1}"
    have "hi e < 2 ^ 32" if "e \<in> set (exts l)" for e
      using covered_bounds(2) [OF \<open>spaced (exts l)\<close> sub that] by simp
    then show "\<forall>e\<in>set (exts l). hi e < 2 ^ 32" by blast
  qed
  then show ?thesis unfolding list_ok_def by blast
qed

interpretation wasm_store: free_store
  "\<lambda>l sz alignment. case free_take l sz alignment of Some r \<Rightarrow> r | None \<Rightarrow> (None, l)" free_insert
  list_ok "\<lambda>l. covered (exts l)" U32_MAX
proof unfold_locales
  fix l l' and sz alignment a :: nat
  assume ok: "list_ok l" and sz: "0 < sz"
  have spaced: "spaced (exts l)" using ok by (simp add: list_ok_def)
  have wide: "U32_MAX \<le> USIZE_MAX" by (simp add: width_simps)
  let ?take = "case free_take l sz alignment of Some r \<Rightarrow> r | None \<Rightarrow> (None, l)"
  show "list_ok l' \<and> alignment dvd a \<and> a + sz \<le> U32_MAX \<and> span (a, a + sz) \<subseteq> covered (exts l)
      \<and> covered (exts l') = covered (exts l) - span (a, a + sz)" if run: "is_power_of_two alignment" "?take = (Some a, l')"
  proof -
    obtain es where c: "carve U32_MAX sz alignment (length l = MAX_FREE) (exts l) = Some (a, es)" "l' = map unext es"
      using free_take_eq [OF ok sz run(1)] run(2) by (auto split: option.splits)
    note t = carve_Some [OF c(1) spaced sz run(1) wide]
    have "exts l' = es" unfolding c(2) using t by (intro exts_unext) blast
    then show ?thesis using t ok by (auto simp: list_ok_covered split: if_splits)
  qed
  show "l' = l" if "is_power_of_two alignment" "?take = (None, l')"
    using free_take_eq [OF ok sz that(1)] that(2) by (auto split: option.splits)
  assume new: "a + sz \<le> U32_MAX" "span (a, a + sz) \<inter> covered (exts l) = {}"
  then have "a + sz < 2 ^ 32" by (simp add: width_simps)
  note ins = free_insert_eq [OF ok sz this new(2)]
  note es = coalesce_apart [OF spaced, of a "a + sz"] coalesce_covered [OF spaced, of a "a + sz"]
  show "list_ok l' \<and> covered (exts l') = covered (exts l) \<union> span (a, a + sz)" if "free_insert l a sz = (True, l')"
    using ins that es ok new sz exts_unext by (auto simp: list_ok_covered width_simps span_def split: if_splits)
  show "l' = l" if "free_insert l a sz = (False, l')" using ins that by (simp split: if_splits)
qed

lemma free_take_total:
  assumes "wasm_ok w" "0 < sz" "is_power_of_two alignment"
  obtains "free_take (wa_free w) sz alignment = Some (None, wa_free w)"
      "carve U32_MAX sz alignment (length (wa_free w) = MAX_FREE) (exts (wa_free w)) = None"
  | a l where "free_take (wa_free w) sz alignment = Some (Some a, l)" "wasm_ok (w\<lparr>wa_free := l\<rparr>)"
      "alignment dvd a" "span (a, a + sz) \<subseteq> free_bytes w" "free_bytes (w\<lparr>wa_free := l\<rparr>) = free_bytes w - span (a, a + sz)"
proof (cases "carve U32_MAX sz alignment (length (wa_free w) = MAX_FREE) (exts (wa_free w))")
  case None
  then show ?thesis using that(1) free_take_eq [OF wasm_ok_list [OF assms(1)] assms(2,3)] by simp
next
  case (Some p)
  obtain a es where p: "p = (a, es)" by force
  have ok: "spaced (exts (wa_free w))" "length (wa_free w) \<le> MAX_FREE" using assms(1) by (auto simp: wasm_ok_def)
  have "U32_MAX \<le> USIZE_MAX" by (simp add: width_simps)
  note c = carve_Some [OF Some [unfolded p] ok(1) assms(2,3) this]
  have "exts (map unext es) = es" using c by (intro exts_unext) simp
  moreover have "length es \<le> MAX_FREE" using c ok(2) by (auto split: if_splits)
  ultimately have "wasm_ok (w\<lparr>wa_free := map unext es\<rparr>)" "free_bytes (w\<lparr>wa_free := map unext es\<rparr>) = free_bytes w - span (a, a + sz)"
    using c assms(1) by (auto simp: wasm_ok_def free_bytes_def)
  then show ?thesis
    using that(2) [of a "map unext es"] c Some p free_take_eq [OF wasm_ok_list [OF assms(1)] assms(2,3)] by (simp add: free_bytes_def)
qed

text \<open>A returned range joins the free bytes, or the list is full and nothing changes.\<close>

lemma free_insert_total:
  assumes "wasm_ok w" "0 < base" "0 < sz" "base + sz \<le> wa_pages w * WASM_PAGE" "span (base, base + sz) \<inter> free_bytes w = {}"
  obtains l where "free_insert (wa_free w) base sz = (True, l)" "wasm_ok (w\<lparr>wa_free := l\<rparr>)"
      "free_bytes (w\<lparr>wa_free := l\<rparr>) = free_bytes w \<union> span (base, base + sz)" "length l \<le> Suc (length (wa_free w))"
  | "free_insert (wa_free w) base sz = (False, wa_free w)" "length (wa_free w) = MAX_FREE"
proof -
  let ?es = "coalesce (base, base + sz) (exts (wa_free w))"
  have ok: "spaced (exts (wa_free w))" "length (wa_free w) \<le> MAX_FREE" using assms(1) by (auto simp: wasm_ok_def)
  have "base + sz < 2 ^ 32" using assms(1,4) pages_small [of "wa_pages w"] by (simp add: wasm_ok_def)
  note ins = free_insert_eq [OF wasm_ok_list [OF assms(1)] assms(3) this assms(5) [unfolded free_bytes_def]]
  have es: "spaced ?es" "covered ?es = span (base, base + sz) \<union> free_bytes w"
    using coalesce_apart coalesce_covered ok(1) assms(3,5) by (auto simp: free_bytes_def)
  show ?thesis
  proof (cases "length ?es \<le> MAX_FREE")
    case True
    have "wasm_ok (w\<lparr>wa_free := map unext ?es\<rparr>)" "free_bytes (w\<lparr>wa_free := map unext ?es\<rparr>) = free_bytes w \<union> span (base, base + sz)"
      using assms(1-4) es exts_unext [OF es(1)] True by (auto simp: wasm_ok_def free_bytes_def span_def)
    then show ?thesis using that(1) ins True coalesce_length [of "(base, base + sz)" "exts (wa_free w)"] by simp
  next
    case False
    then show ?thesis using that(2) ins coalesce_length [of "(base, base + sz)" "exts (wa_free w)"] ok(2) by simp
  qed
qed

text \<open>The engine stops short of the last page of a 32-bit memory.\<close>

definition bounded_growth :: "(nat \<Rightarrow> nat \<Rightarrow> bool) \<Rightarrow> bool" where
  "bounded_growth grants \<longleftrightarrow> (\<forall>pages delta. grants pages delta \<longrightarrow> pages + delta < 65536)"

definition fresh_bytes :: "wasm \<Rightarrow> wasm \<Rightarrow> nat set" where
  "fresh_bytes w w' = {wa_pages w * WASM_PAGE..<wa_pages w' * WASM_PAGE}"

lemma whole_pages: "n \<le> (n + (WASM_PAGE - 1)) div WASM_PAGE * WASM_PAGE"
proof -
  have "n + (WASM_PAGE - 1) < ((n + (WASM_PAGE - 1)) div WASM_PAGE + 1) * WASM_PAGE" by (simp add: WASM_PAGE_def dividend_less_div_times)
  then show ?thesis by (simp add: WASM_PAGE_def algebra_simps)
qed

lemma grow_list_total:
  assumes ok: "wasm_ok w" and args: "0 < sz" "is_power_of_two alignment"
    and limit: "bounded_growth grants"
  obtains e where "grow_list grants sz alignment w = Some (Inl e, w)"
  | w' start where "grow_list grants sz alignment w = Some (Inr (), w')" "wasm_ok w'" "wa_pages w \<le> wa_pages w'"
      "free_bytes w' = free_bytes w \<union> fresh_bytes w w'"
      "align_up (wa_pages w * WASM_PAGE) alignment = Some start" "start + sz \<le> wa_pages w' * WASM_PAGE"
      "length (wa_free w) < MAX_FREE" "length (wa_free w') \<le> Suc (length (wa_free w))"
proof -
  let ?cur = "wa_pages w * WASM_PAGE"
  have pages: "0 < wa_pages w" "wa_pages w < 65536" using ok by (auto simp: wasm_ok_def)
  then have cur: "min ?cur U32_MAX = ?cur" "0 < ?cur" using pages_small [of "wa_pages w"] by (auto simp: width_simps WASM_PAGE_def)
  show ?thesis
  proof (cases "\<exists>e. grow_list grants sz alignment w = Some (Inl e, w)")
    case False
    obtain start where start: "align_up ?cur alignment = Some start"
      using False by (cases "align_up ?cur alignment") (auto simp: grow_list_def cur(1))
    define n where "n = (start - ?cur + sz + (WASM_PAGE - 1)) div WASM_PAGE"
    have g: "start - ?cur + sz \<le> U32_MAX" "length (wa_free w) \<noteq> MAX_FREE" "n \<noteq> 0"
        "wa_pages w + n \<le> 65536 \<and> grants (wa_pages w) n"
      using False start by (auto simp: grow_list_def cur(1) Let_def memory_grow_def n_def split: if_splits)
    have n: "wa_pages w + n < 65536" using g(4) limit by (simp add: bounded_growth_def)
    have "n * WASM_PAGE mod 2 ^ 32 = n * WASM_PAGE" "?cur mod 2 ^ 32 = ?cur" "wa_pages w \<noteq> U32_MAX"
      using pages_small [of n] pages_small [of "wa_pages w"] n by (auto simp: width_simps)
    then have code: "grow_list grants sz alignment w = (case free_insert (wa_free w) ?cur (n * WASM_PAGE) of
        (False, _) \<Rightarrow> None | (True, l) \<Rightarrow> Some (Inr (), w\<lparr>wa_pages := wa_pages w + n, wa_free := l\<rparr>))"
      using start g unfolding grow_list_def Let_def cur(1)
      by (simp add: memory_grow_def flip: n_def [unfolded One_nat_def])
    let ?w = "w\<lparr>wa_pages := wa_pages w + n\<rparr>"
    have "wasm_ok ?w" using ok n g(3) by (auto simp: wasm_ok_def free_bytes_def add_mult_distrib)
    moreover have "span (?cur, ?cur + n * WASM_PAGE) \<inter> free_bytes ?w = {}"
      using ok by (auto simp: wasm_ok_def free_bytes_def span_def)
    moreover have "0 < n * WASM_PAGE" using g(3) by (simp add: WASM_PAGE_def)
    ultimately obtain l where l: "free_insert (wa_free w) ?cur (n * WASM_PAGE) = (True, l)" "wasm_ok (?w\<lparr>wa_free := l\<rparr>)"
        "free_bytes (?w\<lparr>wa_free := l\<rparr>) = free_bytes ?w \<union> span (?cur, ?cur + n * WASM_PAGE)" "length l \<le> Suc (length (wa_free w))"
      using free_insert_total [of ?w ?cur "n * WASM_PAGE"] cur(2) g(2) by (auto simp: add_mult_distrib)
    have fit: "start + sz \<le> (wa_pages w + n) * WASM_PAGE"
      using whole_pages [of "start - ?cur + sz"] align_within_Some(2) [of U32_MAX ?cur alignment start] start args(2)
      unfolding n_def [symmetric] by (simp add: align_up_def add_mult_distrib width_simps)
    show ?thesis
    proof (rule that(2))
      show "grow_list grants sz alignment w = Some (Inr (), ?w\<lparr>wa_free := l\<rparr>)" using code l(1) by simp
      show "free_bytes (?w\<lparr>wa_free := l\<rparr>) = free_bytes w \<union> fresh_bytes w (?w\<lparr>wa_free := l\<rparr>)"
        using l(3) by (simp add: free_bytes_def fresh_bytes_def span_def add_mult_distrib)
      show "length (wa_free w) < MAX_FREE" using g(2) ok by (simp add: wasm_ok_def)
    qed (use l start fit in simp_all)
  qed (use that(1) in blast)
qed

text \<open>
  An allocation never runs into a failed assertion. It takes its block out of the free bytes and the
  pages grown for it, and everything else of both stays free, also when it reports an error.
\<close>

lemma grow_allocate_total:
  assumes ok: "wasm_ok w" and limit: "bounded_growth grants"
  obtains e w' where "grow_allocate grants sz alignment w = Some (Inl e, w')" "wasm_ok w'" "wa_pages w \<le> wa_pages w'"
      "free_bytes w' = free_bytes w \<union> fresh_bytes w w'"
  | a w' where "grow_allocate grants sz alignment w = Some (Inr a, w')" "wasm_ok w'" "wa_pages w \<le> wa_pages w'"
      "alignment dvd a" "0 < sz" "span (a, a + sz) \<subseteq> free_bytes w \<union> fresh_bytes w w'"
      "free_bytes w' = free_bytes w \<union> fresh_bytes w w' - span (a, a + sz)"
proof (cases "sz = 0 \<or> \<not> is_power_of_two alignment")
  case True
  then show ?thesis using that(1) [of InvalidArgument w] ok by (auto simp: grow_allocate_def fresh_bytes_def)
next
  case False
  then have args: "0 < sz" "is_power_of_two alignment" by auto
  have pages [simp]: "fresh_bytes w (w'\<lparr>wa_free := l\<rparr>) = fresh_bytes w w'" for w' l by (simp add: fresh_bytes_def)
  have none: "fresh_bytes w w = {}" by (simp add: fresh_bytes_def)
  show ?thesis
  proof (cases rule: free_take_total [OF ok args])
    case 1
    show ?thesis
    proof (cases rule: grow_list_total [OF ok args limit])
      case g: (1 e)
      then show ?thesis using that(1) [of e w] 1 False ok none by (simp add: grow_allocate_def)
    next
      case g: (2 w' start)
      show ?thesis
      proof (cases rule: free_take_total [OF g(2) args])
        case t: 1
        then show ?thesis using that(1) [of Os w'] 1 g False by (simp add: grow_allocate_def)
      next
        case t: (2 a l)
        then show ?thesis using that(2) [of a "w'\<lparr>wa_free := l\<rparr>"] 1 g False by (simp add: grow_allocate_def)
      qed
    qed
  next
    case (2 a l)
    then show ?thesis using that(2) [of a "w\<lparr>wa_free := l\<rparr>"] False none by (simp add: grow_allocate_def)
  qed
qed

lemma grow_release_total:
  assumes "wasm_ok w" "0 < base" "0 < sz" "base + sz \<le> wa_pages w * WASM_PAGE" "span (base, base + sz) \<inter> free_bytes w = {}"
  obtains w' where "grow_release base sz w = (Inr (), w')" "wasm_ok w'" "wa_pages w' = wa_pages w"
      "free_bytes w' = free_bytes w \<union> span (base, base + sz)"
  | "grow_release base sz w = (Inl Os, w)" "length (wa_free w) = MAX_FREE"
proof -
  have "base + sz \<le> U32_MAX" using assms(1,4) pages_small [of "wa_pages w"] by (simp add: wasm_ok_def width_simps)
  then have code: "grow_release base sz w = (case free_insert (wa_free w) base sz of
      (True, l) \<Rightarrow> (Inr (), w\<lparr>wa_free := l\<rparr>) | (False, l) \<Rightarrow> (Inl Os, w\<lparr>wa_free := l\<rparr>))"
    using assms(2,3) by (simp add: grow_release_def)
  show ?thesis
  proof (cases rule: free_insert_total [OF assms])
    case (1 l)
    then show ?thesis using that(1) [of "w\<lparr>wa_free := l\<rparr>"] code by simp
  next
    case 2
    then show ?thesis using that(2) code by simp
  qed
qed

text \<open>
  While at least two entries of the list are unused and the engine grants what is asked, an
  allocation succeeds.
\<close>

lemma grow_allocate_succeeds:
  assumes ok: "wasm_ok w" and args: "0 < sz" "is_power_of_two alignment" and room: "length (wa_free w) + 1 < MAX_FREE"
    and limit: "bounded_growth grants"
    and granted: "\<And>e. grow_list grants sz alignment w \<noteq> Some (Inl e, w)"
  shows "\<exists>a w'. grow_allocate grants sz alignment w = Some (Inr a, w')"
proof (cases rule: free_take_total [OF ok args])
  case 1
  show ?thesis
  proof (cases rule: grow_list_total [OF ok args limit])
    case g: (2 w' start)
    let ?cur = "wa_pages w * WASM_PAGE"
    have al: "U32_MAX \<le> USIZE_MAX" "align_within U32_MAX ?cur alignment = Some start"
      using g by (simp_all add: align_up_def width_simps)
    note start = align_within_Some [OF al(2) args(2) al(1)]
    have "?cur < wa_pages w' * WASM_PAGE" using g(6) start(2) args(1) by linarith
    then have "?cur \<in> free_bytes w'" unfolding g(4) fresh_bytes_def by simp
    then obtain e where e: "e \<in> set (exts (wa_free w'))" "lo e \<le> ?cur" "?cur < hi e"
      unfolding free_bytes_def covered_iff by blast
    have spaced: "spaced (exts (wa_free w'))" "covered (exts (wa_free w')) \<subseteq> {1..<wa_pages w' * WASM_PAGE}" "wa_pages w' < 65536"
      using g(2) by (auto simp: wasm_ok_def free_bytes_def)
    have "hi e = wa_pages w' * WASM_PAGE"
    proof (rule antisym)
      show "hi e \<le> wa_pages w' * WASM_PAGE" by (rule covered_bounds(2) [OF spaced(1,2) e(1)])
      show "wa_pages w' * WASM_PAGE \<le> hi e"
      proof (rule ccontr)
        assume "\<not> wa_pages w' * WASM_PAGE \<le> hi e"
        then have "hi e \<in> covered (exts (wa_free w'))" using g(4) e(3) by (auto simp: fresh_bytes_def free_bytes_def)
        then obtain f where f: "f \<in> set (exts (wa_free w'))" "lo f \<le> hi e" "hi e < hi f" unfolding covered_iff by blast
        then show False using apart_beside [OF spaced(1) e(1) f(1)] apart_nonempty [OF spaced(1)] e by fastforce
      qed
    qed
    moreover have "hi e \<le> U32_MAX" using calculation pages_small [OF spaced(3)] by (simp add: width_simps)
    moreover have "lo e + (alignment - 1) \<le> U32_MAX"
      using al(2) e(2) by (auto simp: align_within_def split: if_splits)
    ultimately have "fit U32_MAX sz alignment False e \<noteq> None"
      using fit_None [OF _ args(2) al(1), of sz False e start] start(1,2) e(2) g(6) by auto
    then have "carve U32_MAX sz alignment (length (wa_free w') = MAX_FREE) (exts (wa_free w')) \<noteq> None"
      using g(8) room e(1) by (auto simp: carve_None)
    then show ?thesis using 1 g(1) args by (cases rule: free_take_total [OF g(2) args]) (auto simp: grow_allocate_def)
  qed (use granted in blast)
next
  case (2 a l)
  then show ?thesis using args by (auto simp: grow_allocate_def)
qed

end
