(* ===== verification/Storage_Demand.thy ===== *)
theory Storage_Demand
  imports Storage_Grow
begin

text \<open>
  The composition a wasm32 module runs: the ledger (\<open>Storage_Ledger\<close>) over the page allocator
  (\<open>Storage_Grow\<close>). Storage is conserved: at every moment each byte grown so far is either inside
  exactly one live block or on the free list.
\<close>

section \<open>Runs of a provider\<close>

inductive provider_call :: "'s linear_provider \<Rightarrow> 's \<Rightarrow> 's \<Rightarrow> bool" for l where
  "lp_allocate l sz alignment s = (r, s') \<Longrightarrow> provider_call l s s'"
| "lp_zero l a sz s = (u, s') \<Longrightarrow> provider_call l s s'"
| "lp_release l a sz s = (u, s') \<Longrightarrow> provider_call l s s'"

inductive_cases provider_callE: "provider_call l s s'"

abbreviation demand_provider :: "nat \<Rightarrow> (nat \<Rightarrow> nat \<Rightarrow> bool) \<Rightarrow> wasm ledger linear_provider" where
  "demand_provider capacity grants \<equiv> ledger_provider U32_MAX capacity (grow_backing grants)"

definition demand_start :: "memory \<Rightarrow> nat \<Rightarrow> wasm ledger" where
  "demand_start mem pages = ledger_new mem \<lparr>wa_free = [], wa_pages = pages\<rparr>"

section \<open>Conservation\<close>

definition live_set :: "blocks \<Rightarrow> nat set" where
  "live_set B = {x. \<exists>b n. B b = Some n \<and> x \<in> span (b, b + n)}"

definition conserved :: "nat \<Rightarrow> nat \<Rightarrow> wasm ledger \<Rightarrow> bool" where
  "conserved capacity origin st \<longleftrightarrow>
     ledger_ok U32_MAX capacity st \<and> wasm_ok (lg_backing st) \<and> 0 < origin \<and> origin \<le> wa_pages (lg_backing st) * WASM_PAGE
     \<and> live_set (ledger_blocks st) \<inter> free_bytes (lg_backing st) = {}
     \<and> live_set (ledger_blocks st) \<union> free_bytes (lg_backing st) = {origin..<wa_pages (lg_backing st) * WASM_PAGE}"

lemma conservedD:
  assumes "conserved capacity origin st"
  shows "ledger_ok U32_MAX capacity st" "wasm_ok (lg_backing st)" "0 < origin" "origin \<le> wa_pages (lg_backing st) * WASM_PAGE"
    "live_set (ledger_blocks st) \<inter> free_bytes (lg_backing st) = {}"
    "live_set (ledger_blocks st) \<union> free_bytes (lg_backing st) = {origin..<wa_pages (lg_backing st) * WASM_PAGE}"
  using assms by (simp_all add: conserved_def)

lemma live_set_grant:
  assumes "B a = None"
  shows "live_set (B(a \<mapsto> n)) = live_set B \<union> span (a, a + n)"
proof -
  have "(B(a \<mapsto> n)) b = Some m \<longleftrightarrow> b = a \<and> m = n \<or> B b = Some m" for b m using assms by auto
  then show ?thesis by (auto simp: live_set_def)
qed

lemma live_set_free:
  assumes "blocks_ok lim B" "B a = Some n"
  shows "live_set (B(a := None)) = live_set B - span (a, a + n)"
proof -
  have "x \<notin> span (b, b + m)" if "b \<noteq> a" "B b = Some m" "x \<in> span (a, a + n)" for b m x
    using blocks_ok_disjoint [OF assms(1,2) that(2)] that(1,3) by blast
  moreover have "(B(a := None)) b = Some m \<longleftrightarrow> b \<noteq> a \<and> B b = Some m" for b m by simp
  ultimately show ?thesis using assms(2) unfolding live_set_def by (auto simp del: fun_upd_apply) (metis option.inject)
qed

lemma misses_live_set: "misses a n B \<longleftrightarrow> span (a, a + n) \<inter> live_set B = {}"
  unfolding misses_def live_set_def by blast

lemma demand_start_conserved:
  assumes "0 < pages" "pages < 65536"
  shows "conserved capacity (pages * WASM_PAGE) (demand_start mem pages)"
  using assms ledger_new_ok(1) [of U32_MAX capacity mem "\<lparr>wa_free = [], wa_pages = pages\<rparr>"]
    ledger_new_ok(2) [of mem "\<lparr>wa_free = [], wa_pages = pages\<rparr>"]
  by (simp add: conserved_def demand_start_def wasm_ok_def free_bytes_def live_set_def WASM_PAGE_def)
    (simp add: ledger_new_def)

text \<open>A block the page allocator grants passes every check of the ledger.\<close>

lemma granted_passes:
  assumes inv: "conserved capacity origin st" and bk: "bk_allocate (grow_backing grants) sz alignment (lg_backing st) = (Inr a, w')"
    and w': "wasm_ok w'" "alignment dvd a" "0 < sz" "span (a, a + sz) \<subseteq> free_bytes (lg_backing st) \<union> fresh_bytes (lg_backing st) w'"
      "wa_pages (lg_backing st) \<le> wa_pages w'"
    and run: "ledger_allocate U32_MAX capacity (grow_backing grants) sz alignment st = (Inl e, st')"
  shows "st' = st"
proof (rule ccontr)
  assume "st' \<noteq> st"
  have regions: "regions_ok U32_MAX (lg_regions st)" using inv by (simp add: conserved_def ledger_ok_def)
  let ?old = "wa_pages (lg_backing st) * WASM_PAGE" and ?new = "wa_pages w' * WASM_PAGE"
  have free: "free_bytes (lg_backing st) \<subseteq> {1..<?old}" "free_bytes (lg_backing st) \<subseteq> {1..<?new}"
      "fresh_bytes (lg_backing st) w' \<subseteq> {1..<?new}"
    using conservedD [OF inv] mult_le_mono1 [OF w'(5), of WASM_PAGE] by (auto simp: wasm_ok_def fresh_bytes_def WASM_PAGE_def)
  have live: "live_set (ledger_blocks st) \<subseteq> {..<?old}" "live_set (ledger_blocks st) \<inter> free_bytes (lg_backing st) = {}"
    using conservedD [OF inv] by auto
  have "live_set (ledger_blocks st) \<inter> fresh_bytes (lg_backing st) w' = {}"
    using live(1) by (auto simp: fresh_bytes_def)
  then have a: "span (a, a + sz) \<subseteq> {1..<?new}" "misses a sz (ledger_blocks st)"
    using w'(4) free live unfolding misses_live_set by blast+
  have "0 < a" "a + sz \<le> ?new" using a(1) w'(3) by (auto simp: span_def atLeastLessThan_subset_iff)
  moreover have "?new \<le> U32_MAX" using pages_small [of "wa_pages w'"] w'(1) by (simp add: wasm_ok_def width_simps)
  ultimately show False
    using run bk \<open>st' \<noteq> st\<close> a(2) w'(2) overlap_test_iff [OF regions w'(3), of a]
    by (auto simp: ledger_allocate_def Let_def mod_eq_0_iff_dvd split: if_splits option.splits)
qed

text \<open>Growing the memory and giving or taking blocks of it keeps the account exact.\<close>

lemma conserved_step:
  assumes inv: "conserved capacity origin st" and ok: "ledger_ok U32_MAX capacity st'" "wasm_ok (lg_backing st')"
    and grown: "wa_pages (lg_backing st) \<le> wa_pages (lg_backing st')"
    and live: "live_set (ledger_blocks st') = live_set (ledger_blocks st) \<union> G - R"
    and free: "free_bytes (lg_backing st') = free_bytes (lg_backing st) \<union> fresh_bytes (lg_backing st) (lg_backing st') \<union> R - G"
    and moved: "G \<subseteq> free_bytes (lg_backing st) \<union> fresh_bytes (lg_backing st) (lg_backing st')"
      "R \<subseteq> live_set (ledger_blocks st)" "G = {} \<or> R = {}"
  shows "conserved capacity origin st'"
proof -
  let ?L = "live_set (ledger_blocks st)" and ?F = "free_bytes (lg_backing st)" and ?N = "fresh_bytes (lg_backing st) (lg_backing st')"
  let ?old = "wa_pages (lg_backing st) * WASM_PAGE" and ?new = "wa_pages (lg_backing st') * WASM_PAGE"
  note c = conservedD [OF inv]
  have le: "?old \<le> ?new" using grown by simp
  have "?L \<subseteq> {origin..<?old}" using c(6) by blast
  then have "?L \<inter> ?N = {}" by (auto simp: fresh_bytes_def)
  then have "live_set (ledger_blocks st') \<inter> free_bytes (lg_backing st') = {}"
    using c(5) moved unfolding live free by blast
  moreover have "live_set (ledger_blocks st') \<union> free_bytes (lg_backing st') = (?L \<union> ?F) \<union> ?N"
    using moved unfolding live free by blast
  moreover have "(?L \<union> ?F) \<union> ?N = {origin..<?new}"
    unfolding c(6) fresh_bytes_def using c(4) le by (rule ivl_disj_un_two(3))
  moreover have "origin \<le> ?new" using c(4) le by (rule order_trans)
  ultimately show ?thesis using ok c(3) by (simp add: conserved_def)
qed

lemma demand_allocate_conserved:
  assumes inv: "conserved capacity origin st" and limit: "bounded_growth grants"
    and run: "ledger_allocate U32_MAX capacity (grow_backing grants) sz alignment st = (r, st')"
  shows "conserved capacity origin st'"
proof -
  note c = conservedD [OF inv]
  let ?w = "lg_backing st"
  have same: "conserved capacity origin (st\<lparr>lg_backing := w'\<rparr>)"
    if "wasm_ok w'" "wa_pages ?w \<le> wa_pages w'" "free_bytes w' = free_bytes ?w \<union> fresh_bytes ?w w'" for w'
    using that c(1) by (intro conserved_step [OF inv, of _ "{}" "{}"]) simp_all
  show ?thesis
  proof (cases rule: grow_allocate_total [OF c(2) limit, of sz alignment])
    case (1 e w')
    then have bk: "bk_allocate (grow_backing grants) sz alignment ?w = (Inl e, w')" by (simp add: grow_backing_def)
    show ?thesis
    proof (cases r)
      case (Inl x)
      then show ?thesis using ledger_allocate_refused [OF run [unfolded Inl]] bk same [OF 1(2-4)] inv by auto
    next
      case (Inr a)
      then show ?thesis using ledger_allocate_granted [OF c(1) run [unfolded Inr]] bk by simp
    qed
  next
    case (2 a w')
    then have bk: "bk_allocate (grow_backing grants) sz alignment ?w = (Inr a, w')" by (simp add: grow_backing_def)
    show ?thesis
    proof (cases r)
      case (Inl x)
      then show ?thesis using granted_passes [OF inv bk 2(2,4,5,6,3)] run inv by simp
    next
      case (Inr b)
      note g = ledger_allocate_granted [OF c(1) run [unfolded Inr]]
      have b: "b = a" "lg_backing st' = w'" using g bk by auto
      have none: "ledger_blocks st a = None"
        using misses_fresh [of a sz "ledger_blocks st" U32_MAX] g b(1) 2(5) ledger_storage.well_formed [OF c(1)] by simp
      have "live_set (ledger_blocks st') = live_set (ledger_blocks st) \<union> span (a, a + sz) - {}"
        using g b(1) live_set_grant [of "ledger_blocks st" a sz, OF none] by simp
      then show ?thesis using g b 2 by (intro conserved_step [OF inv, of _ "span (a, a + sz)" "{}"]) simp_all
    qed
  qed
qed

lemma demand_release_conserved:
  assumes inv: "conserved capacity origin st" and run: "ledger_release (grow_backing grants) a sz st = (r, st')"
  shows "conserved capacity origin st'"
proof -
  note c = conservedD [OF inv]
  let ?w = "lg_backing st" and ?B = "ledger_blocks st"
  have none: "fresh_bytes ?w w' = {}" if "wa_pages w' = wa_pages ?w" for w' using that by (simp add: fresh_bytes_def)
  have total: "P" if at: "?B a = Some sz" and
    "\<And>w'. grow_release a sz ?w = (Inr (), w') \<Longrightarrow> wasm_ok w' \<Longrightarrow> wa_pages w' = wa_pages ?w \<Longrightarrow>
       free_bytes w' = free_bytes ?w \<union> span (a, a + sz) \<Longrightarrow> P"
    "grow_release a sz ?w = (Inl Os, ?w) \<Longrightarrow> P" for P
  proof -
    note b = blocks_okD [OF ledger_storage.well_formed [OF c(1)] at]
    have live: "span (a, a + sz) \<subseteq> live_set ?B" using at by (auto simp: live_set_def)
    then have "span (a, a + sz) \<subseteq> {origin..<wa_pages ?w * WASM_PAGE}" using c(6) by blast
    then have "a + sz \<le> wa_pages ?w * WASM_PAGE" using b(2) by (simp add: span_def atLeastLessThan_subset_iff)
    moreover have "span (a, a + sz) \<inter> free_bytes ?w = {}" using live c(5) by blast
    ultimately show P using grow_release_total [OF c(2) b(1,2)] that by metis
  qed
  have bk: "bk_release (grow_backing grants) = grow_release" by (simp add: grow_backing_def)
  show ?thesis
  proof (cases r)
    case (Inl x)
    then consider "st' = st" | e b where "grow_release a sz ?w = (Inl e, b)" "st' = st\<lparr>lg_backing := b\<rparr>" "?B a = Some sz"
      using ledger_release_refused [OF c(1) run [unfolded Inl]] unfolding bk by blast
    then show ?thesis
    proof cases
      case 2
      show ?thesis by (rule total [OF 2(3)]) (use 2 inv in simp_all)
    qed (use inv in simp)
  next
    case (Inr u)
    note f = ledger_release_freed [OF c(1), of "grow_backing grants" a sz st', unfolded bk]
    have at: "?B a = Some sz" using f run Inr by simp
    show ?thesis
    proof (rule total [OF at])
      fix w'
      assume w': "grow_release a sz ?w = (Inr (), w')" "wasm_ok w'" "wa_pages w' = wa_pages ?w"
        "free_bytes w' = free_bytes ?w \<union> span (a, a + sz)"
      have b: "lg_backing st' = w'" using f run Inr w'(1) by simp
      have "live_set (ledger_blocks st') = live_set ?B \<union> {} - span (a, a + sz)"
        using f run Inr live_set_free [OF ledger_storage.well_formed [OF c(1)] at] by simp
      moreover have "span (a, a + sz) \<subseteq> live_set ?B" using at by (auto simp: live_set_def)
      ultimately show ?thesis using f run Inr w' none [OF w'(3)] b
        by (intro conserved_step [OF inv, of _ "{}" "span (a, a + sz)"]) simp_all
    qed (use f run Inr in simp)
  qed
qed

lemma demand_zero_conserved:
  assumes "conserved capacity origin st" "ledger_zero U32_MAX a sz st = (r, st')"
  shows "conserved capacity origin st'"
  using assms conservedD(1) [OF assms(1)]
  by (auto simp: ledger_zero_exact [OF conservedD(1) [OF assms(1)]] conserved_def split: if_splits)

lemma demand_run_conserved:
  assumes "(provider_call (demand_provider capacity grants))\<^sup>*\<^sup>* st st'" "conserved capacity origin st" "bounded_growth grants"
  shows "conserved capacity origin st'"
  using assms(1,2)
proof (induction rule: rtranclp_induct)
  case (step y z)
  then show ?case
    by (auto elim!: provider_callE
        intro: demand_allocate_conserved [OF _ assms(3)] demand_zero_conserved demand_release_conserved)
qed

section \<open>The last page of a 32-bit memory\<close>

text \<open>
  Without the bound on the engine the account breaks. Growing by the last page succeeds, but the new
  block ends at 2 to the 32, which no \<open>usize\<close> holds: the block is never found again and the
  allocation that grew the memory reports an operating-system error.
\<close>

lemma last_page_lost:
  "grow_allocate (\<lambda>_ _. True) 4096 4096 \<lparr>wa_free = [], wa_pages = 65535\<rparr> =
     Some (Inl Os, \<lparr>wa_free = [\<lparr>bl_base = 65535 * 65536, bl_size = 65536\<rparr>], wa_pages = 65536\<rparr>)"
proof -
  have p: "is_power_of_two 4096" by (simp add: is_power_of_two_iff) (rule exI [of _ 12], simp)
  have a: "align_up 4294901760 4096 = Some 4294901760"
    using p by (simp add: align_up_def align_within_def width_simps mask_down_pow2)
  show ?thesis
    using p a by (simp add: grow_allocate_def free_take_def grow_list_def memory_grow_def free_insert_def Let_def add32_def
        WASM_PAGE_def MAX_FREE_def width_simps)
qed

end
