(* ===== verification/Storage_Lock.thy ===== *)
theory Storage_Lock
  imports Storage_Arena
begin

text \<open>
  The spin lock around the arena and the ledger (\<open>SpinLock\<close> and the two \<open>Guard\<close>s of
  \<open>src/crates/dotnet-pal-storage/src/lib.rs\<close>), with any number of threads. A call spins until its
  compare-and-exchange wins, reads the metadata, writes it back, and the guard's drop releases the
  lock; the steps of different threads interleave. The weak exchange may also fail when the lock is
  free. Every other theory treats a guarded call as one step; this is why it may.
\<close>

section \<open>Model\<close>

datatype ('s, 'r) phase =
    Spinning "'s \<Rightarrow> 'r \<times> 's"
  | Entered "'s \<Rightarrow> 'r \<times> 's"
  | Running "'s \<Rightarrow> 'r \<times> 's" 's
  | Leaving 'r
  | Returned 'r

record ('s, 'r) guarded =
  gd_locked :: bool
  gd_data :: 's
  gd_threads :: "nat \<Rightarrow> ('s, 'r) phase"
  gd_log :: "('s \<Rightarrow> 'r \<times> 's) list"

text \<open>\<open>gd_log\<close> only records the bodies in the order they wrote; no step reads it.\<close>

inductive guard_step :: "('s, 'r) guarded \<Rightarrow> ('s, 'r) guarded \<Rightarrow> bool" where
  spin: "gd_threads g t = Spinning f \<Longrightarrow> guard_step g g"
| acquire: "gd_threads g t = Spinning f \<Longrightarrow> \<not> gd_locked g \<Longrightarrow>
    guard_step g (g\<lparr>gd_locked := True, gd_threads := (gd_threads g)(t := Entered f)\<rparr>)"
| enter: "gd_threads g t = Entered f \<Longrightarrow>
    guard_step g (g\<lparr>gd_threads := (gd_threads g)(t := Running f (gd_data g))\<rparr>)"
| leave: "gd_threads g t = Running f d \<Longrightarrow> f d = (r, d') \<Longrightarrow>
    guard_step g (g\<lparr>gd_data := d', gd_threads := (gd_threads g)(t := Leaving r), gd_log := gd_log g @ [f]\<rparr>)"
| release: "gd_threads g t = Leaving r \<Longrightarrow>
    guard_step g (g\<lparr>gd_locked := False, gd_threads := (gd_threads g)(t := Returned r)\<rparr>)"

definition guard_start :: "'s \<Rightarrow> (nat \<Rightarrow> 's \<Rightarrow> 'r \<times> 's) \<Rightarrow> ('s, 'r) guarded" where
  "guard_start s calls = \<lparr>gd_locked = False, gd_data = s, gd_threads = (\<lambda>t. Spinning (calls t)), gd_log = []\<rparr>"

section \<open>Mutual exclusion and serial order\<close>

primrec replay :: "('s \<Rightarrow> 'r \<times> 's) list \<Rightarrow> 's \<Rightarrow> 'r list \<times> 's" where
  "replay [] s = ([], s)"
| "replay (f # fs) s = (case f s of (r, s) \<Rightarrow> case replay fs s of (rs, s) \<Rightarrow> (r # rs, s))"

primrec in_section :: "('s, 'r) phase \<Rightarrow> bool" where
  "in_section (Spinning f) = False"
| "in_section (Entered f) = True"
| "in_section (Running f d) = True"
| "in_section (Leaving r) = True"
| "in_section (Returned r) = False"

primrec answer :: "('s, 'r) phase \<Rightarrow> 'r option" where
  "answer (Spinning f) = None"
| "answer (Entered f) = None"
| "answer (Running f d) = None"
| "answer (Leaving r) = Some r"
| "answer (Returned r) = Some r"

definition guard_ok :: "'s \<Rightarrow> ('s, 'r) guarded \<Rightarrow> bool" where
  "guard_ok s g \<longleftrightarrow>
     (\<forall>t u. in_section (gd_threads g t) \<longrightarrow> in_section (gd_threads g u) \<longrightarrow> t = u)
     \<and> (gd_locked g \<longleftrightarrow> (\<exists>t. in_section (gd_threads g t)))
     \<and> (\<forall>t f d. gd_threads g t = Running f d \<longrightarrow> d = gd_data g)
     \<and> gd_data g = snd (replay (gd_log g) s)
     \<and> (\<forall>t r. answer (gd_threads g t) = Some r \<longrightarrow> r \<in> set (fst (replay (gd_log g) s)))"

lemma replay_append: "replay (fs @ [f]) s =
    (fst (replay fs s) @ [fst (f (snd (replay fs s)))], snd (f (snd (replay fs s))))"
  by (induction fs arbitrary: s) (simp_all add: split_beta)

lemma guard_start_ok: "guard_ok s (guard_start s calls)"
  by (simp add: guard_ok_def guard_start_def)

lemma guard_step_ok:
  assumes "guard_step g g'" "guard_ok s g"
  shows "guard_ok s g'"
  using assms
proof cases
  case (acquire t f)
  then show ?thesis using assms(2) by (auto simp: guard_ok_def)
next
  case (enter t f)
  note ok = assms(2) [unfolded guard_ok_def]
  have "in_section (((gd_threads g)(t := Running f (gd_data g))) u) = in_section (gd_threads g u)"
    "answer (((gd_threads g)(t := Running f (gd_data g))) u) = answer (gd_threads g u)" for u
    using enter(2) by simp_all
  moreover have "((gd_threads g)(t := Running f (gd_data g))) u = Running f' e \<Longrightarrow> e = gd_data g" for u f' e
    using ok by (cases "u = t") auto
  ultimately show ?thesis unfolding guard_ok_def enter(1) guarded.simps using ok by (simp del: fun_upd_apply)
next
  case (leave t f d r d')
  note ok = assms(2) [unfolded guard_ok_def]
  have only: "u = t" if "in_section (gd_threads g u)" for u using ok leave(2) that by (metis in_section.simps(3))
  have d: "d = gd_data g" "gd_data g = snd (replay (gd_log g) s)" using ok leave(2) by blast+
  have only': "u = t" if "in_section (((gd_threads g)(t := Leaving r)) u)" for u
    using only [of u] that by (cases "u = t") auto
  have "gd_locked g" using ok leave(2) by (metis in_section.simps(3))
  moreover have "in_section (((gd_threads g)(t := Leaving r)) t)" by simp
  moreover have "((gd_threads g)(t := Leaving r)) u \<noteq> Running f' e" for u f' e
    using only [of u] by (cases "u = t") auto
  moreover have "x \<in> set (fst (replay (gd_log g @ [f]) s))" if "answer (((gd_threads g)(t := Leaving r)) u) = Some x" for u x
  proof (cases "u = t")
    case False
    then have "x \<in> set (fst (replay (gd_log g) s))" using ok that by (metis fun_upd_other)
    then show ?thesis by (simp add: replay_append)
  qed (use that leave(3) d in \<open>simp add: replay_append\<close>)
  moreover have "d' = snd (replay (gd_log g @ [f]) s)" using leave(3) d by (simp add: replay_append)
  moreover have "gd_threads g' = (gd_threads g)(t := Leaving r)" "gd_locked g' = gd_locked g" "gd_data g' = d'"
    "gd_log g' = gd_log g @ [f]" using leave(1) by simp_all
  ultimately show ?thesis unfolding guard_ok_def using only' by (intro conjI allI impI) (metis+)
next
  case (release t r)
  note ok = assms(2) [unfolded guard_ok_def]
  have only: "u = t" if "in_section (gd_threads g u)" for u using ok release(2) that by (metis in_section.simps(4))
  have "r \<in> set (fst (replay (gd_log g) s))" using ok release(2) by (metis answer.simps(4))
  then show ?thesis unfolding guard_ok_def release(1) using ok release(2) only by auto
qed simp

lemma guard_run_ok: "guard_step\<^sup>*\<^sup>* (guard_start s calls) g \<Longrightarrow> guard_ok s g"
  by (induction rule: rtranclp_induct) (auto intro: guard_start_ok guard_step_ok)

end
