(* ===== verification/Bare_Region.thy ===== *)
theory Bare_Region
  imports Storage_Extents
begin

text \<open>
  The RAM region of the bare-metal port (\<open>Region\<close> of
  \<open>src/examples/baremetal-aarch64/src/memory.rs\<close>): an address-ordered free list of at most 256 extents
  with coalescing, first fit, and no record per allocation. The array with a count is the list of its
  first \<open>count\<close> entries.
\<close>

section \<open>Model\<close>

definition MAX_EXTENTS :: nat where "MAX_EXTENTS = 256"

definition region_remove :: "extent list \<Rightarrow> nat \<Rightarrow> extent list" where
  "region_remove r index = take index r @ drop (index + 1) r"

definition region_insert :: "extent list \<Rightarrow> nat \<Rightarrow> extent \<Rightarrow> extent list" where
  "region_insert r index e = take index r @ e # drop index r"

fun region_scan :: "nat list \<Rightarrow> extent list \<Rightarrow> nat \<Rightarrow> nat \<Rightarrow> nat option \<times> extent list" where
  "region_scan [] r sz alignment = (None, r)"
| "region_scan (index # rest) r sz alignment =
     (let e = r ! index in
      case align_within USIZE_MAX (lo e) alignment of
        None \<Rightarrow> region_scan rest r sz alignment
      | Some start \<Rightarrow>
          (case checked_add start sz of
             None \<Rightarrow> region_scan rest r sz alignment
           | Some past \<Rightarrow>
               if start < lo e \<or> hi e < past then region_scan rest r sz alignment
               else if start = lo e \<and> past = hi e then (Some start, region_remove r index)
               else if start = lo e then (Some start, r[index := (past, hi e)])
               else if past = hi e then (Some start, r[index := (lo e, start)])
               else if length r = MAX_EXTENTS then region_scan rest r sz alignment
               else (Some start, region_insert (r[index := (lo e, start)]) (index + 1) (past, hi e))))"

definition region_take :: "extent list \<Rightarrow> nat \<Rightarrow> nat \<Rightarrow> nat option \<times> extent list" where
  "region_take r sz alignment =
     (if sz = 0 \<or> \<not> is_power_of_two alignment then (None, r)
      else region_scan [0..<length r] r sz alignment)"

definition region_can_give :: "extent list \<Rightarrow> nat \<Rightarrow> nat \<Rightarrow> bool" where
  "region_can_give r start sz =
     (case checked_add start sz of
        None \<Rightarrow> False
      | Some past \<Rightarrow>
          sz \<noteq> 0 \<and> \<not> list_ex (\<lambda>e. start < hi e \<and> lo e < past) r
          \<and> (list_ex (\<lambda>e. hi e = start \<or> lo e = past) r \<or> length r < MAX_EXTENTS))"

definition region_give :: "extent list \<Rightarrow> nat \<Rightarrow> nat \<Rightarrow> bool \<times> extent list" where
  "region_give r start sz =
     (if \<not> region_can_give r start sz then (False, r)
      else case checked_add start sz of
          None \<Rightarrow> (False, r)
        | Some past \<Rightarrow>
            if sz = 0 then (False, r)
            else
              let index = (case position (\<lambda>e. \<not> lo e < start) r of Some i \<Rightarrow> i | None \<Rightarrow> length r);
                  after_previous = (0 < index \<and> hi (r ! (index - 1)) = start);
                  before_next = (index < length r \<and> lo (r ! index) = past) in
              if after_previous \<and> before_next then
                (True, region_remove (r[index - 1 := (lo (r ! (index - 1)), hi (r ! index))]) index)
              else if after_previous then (True, r[index - 1 := (lo (r ! (index - 1)), past)])
              else if before_next then (True, r[index := (start, hi (r ! index))])
              else if length r = MAX_EXTENTS then (False, r)
              else (True, region_insert r index (start, past)))"

definition region_available :: "extent list \<Rightarrow> nat" where
  "region_available r = sum_list (map (\<lambda>e. hi e - lo e) r)"

section \<open>Invariant\<close>

definition region_ok :: "extent list \<Rightarrow> bool" where
  "region_ok r \<longleftrightarrow> spaced r \<and> length r \<le> MAX_EXTENTS \<and> (\<forall>e\<in>set r. hi e \<le> USIZE_MAX)"

section \<open>Taking is carving\<close>

lemma region_scan_eq:
  assumes ok: "region_ok r" and args: "0 < sz" "is_power_of_two alignment" and k: "k \<le> length r"
  shows "region_scan [k..<length r] r sz alignment =
    (case carve USIZE_MAX sz alignment (length r = MAX_EXTENTS) (drop k r) of
        None \<Rightarrow> (None, r)
      | Some (start, es) \<Rightarrow> (Some start, take k r @ es))"
  using k
proof (induction "length r - k" arbitrary: k)
  case 0
  then show ?case by simp
next
  case (Suc n)
  have k: "k < length r" using Suc by simp
  let ?e = "r ! k" and ?full = "length r = MAX_EXTENTS"
  have upt: "[k..<length r] = k # [Suc k..<length r]" using k by (rule upt_conv_Cons)
  have drop: "drop k r = ?e # drop (Suc k) r" using k by (simp add: Cons_nth_drop_Suc)
  have IH: "region_scan [Suc k..<length r] r sz alignment =
      (case carve USIZE_MAX sz alignment ?full (drop (Suc k) r) of None \<Rightarrow> (None, r)
        | Some (start, es) \<Rightarrow> (Some start, take (Suc k) r @ es))"
    using Suc(1) [of "Suc k"] Suc(2) k by simp
  have Suc_take: "take (Suc k) r = take k r @ [?e]" using k by (simp add: take_Suc_conv_app_nth)
  show ?case
  proof (cases "fit USIZE_MAX sz alignment ?full ?e")
    case None
    then have "region_scan [k..<length r] r sz alignment = region_scan [Suc k..<length r] r sz alignment"
      unfolding upt using align_within_Some [of USIZE_MAX "lo ?e" alignment] args(2)
      by (auto simp: fit_def Let_def checked_add_def split: option.splits if_splits)
    then show ?thesis using IH None Suc_take by (auto simp: drop split: option.splits)
  next
    case (Some start)
    note f = fit_Some [OF Some args(2) order_refl]
    have step: "align_within USIZE_MAX (lo ?e) alignment = Some start" "checked_add start sz = Some (start + sz)"
        "\<not> (start < lo ?e \<or> hi ?e < start + sz)" "\<not> (start \<noteq> lo ?e \<and> start + sz \<noteq> hi ?e \<and> ?full)"
      using Some f by (auto simp: fit_def checked_add_def split: option.splits if_splits)
    have "region_scan [k..<length r] r sz alignment = (Some start, take k r @ remainders ?e (start, start + sz) @ drop (Suc k) r)"
      using step f(2,3) k unfolding upt
      by (auto simp: Let_def region_remove_def region_insert_def remainders_def upd_conv_take_nth_drop take_Suc_conv_app_nth nth_append)
    then show ?thesis using Some by (simp add: drop)
  qed
qed

lemma region_take_eq:
  assumes "region_ok r" "0 < sz" "is_power_of_two alignment"
  shows "region_take r sz alignment =
    (case carve USIZE_MAX sz alignment (length r = MAX_EXTENTS) r of
        None \<Rightarrow> (None, r) | Some (start, es) \<Rightarrow> (Some start, es))"
  using region_scan_eq [OF assms, of 0] assms(2,3) by (simp add: region_take_def split: option.splits)

section \<open>Giving is coalescing\<close>

text \<open>The list grows exactly when the new range touches no other.\<close>

lemma coalesce_merges_iff:
  assumes "spaced es" "l < h" "span (l, h) \<inter> covered es = {}"
  shows "length (coalesce (l, h) es) \<le> length es \<longleftrightarrow> (\<exists>e\<in>set es. hi e = l \<or> lo e = h)"
  using assms
proof (induction es)
  case (Cons e es)
  obtain a b where e: "e = (a, b)" by force
  have ab: "a < b" and off: "span (l, h) \<inter> span (a, b) = {}" "span (l, h) \<inter> covered es = {}"
    and far: "\<forall>f\<in>set es. b < lo f" "spaced es" using Cons.prems e by auto
  consider "b < l" | "b = l" | "l < b" by linarith
  then show ?case
  proof cases
    case 1
    then show ?thesis using Cons.IH [OF far(2) Cons.prems(2) off(2)] e ab Cons.prems(2) by auto
  next
    case 2
    then show ?thesis using e coalesce_length [of "(a, h)" es] by auto
  next
    case 3
    then have "h \<le> a" using disjoint_apart_hd [OF off(1) Cons.prems(2) ab] by simp
    then have "hi f \<noteq> l \<and> lo f \<noteq> h" if "f \<in> set es" for f
      using far(1) ab apart_nonempty [OF far(2) that] that Cons.prems(2) by fastforce
    then show ?thesis using 3 e \<open>h \<le> a\<close> Cons.prems(2) by auto
  qed
qed simp

lemma region_can_give_iff:
  assumes "region_ok r"
  shows "region_can_give r start sz \<longleftrightarrow> 0 < sz \<and> start + sz \<le> USIZE_MAX
    \<and> span (start, start + sz) \<inter> covered r = {} \<and> length (coalesce (start, start + sz) r) \<le> MAX_EXTENTS"
proof (cases "0 < sz \<and> start + sz \<le> USIZE_MAX")
  case True
  have spaced: "spaced r" "length r \<le> MAX_EXTENTS" using assms by (auto simp: region_ok_def)
  have off: "\<not> list_ex (\<lambda>e. start < hi e \<and> lo e < start + sz) r \<longleftrightarrow> span (start, start + sz) \<inter> covered r = {}"
  proof -
    have "span (start, start + sz) \<inter> span e = {} \<longleftrightarrow> \<not> (start < hi e \<and> lo e < start + sz)" if "e \<in> set r" for e
      using span_disjoint_iff [of start "start + sz" "lo e" "hi e"] apart_nonempty [OF spaced(1) that] True by simp
    then have "span (start, start + sz) \<inter> covered r = {} \<longleftrightarrow> (\<forall>e\<in>set r. \<not> (start < hi e \<and> lo e < start + sz))"
      unfolding covered_def by blast
    then show ?thesis by (simp add: list_ex_iff)
  qed
  have "list_ex (\<lambda>e. hi e = start \<or> lo e = start + sz) r \<or> length r < MAX_EXTENTS \<longleftrightarrow>
      length (coalesce (start, start + sz) r) \<le> MAX_EXTENTS" if "span (start, start + sz) \<inter> covered r = {}"
    using coalesce_merges_iff [OF spaced(1) _ that] coalesce_length [of "(start, start + sz)" r] True spaced(2)
    by (auto simp: list_ex_iff)
  then show ?thesis using True off by (auto simp: region_can_give_def checked_add_def)
qed (auto simp: region_can_give_def checked_add_def)

lemma give_point:
  assumes "i = (case position (\<lambda>e. \<not> lo e < x) r of Some i \<Rightarrow> i | None \<Rightarrow> length r)" "spaced r"
  shows "i \<le> length r" "\<And>j. j < i \<Longrightarrow> lo (r ! j) \<le> x" "\<And>j. i \<le> j \<Longrightarrow> j < length r \<Longrightarrow> x \<le> lo (r ! j)"
proof -
  show "i \<le> length r" using assms(1) by (auto simp: position_Some_iff split: option.splits)
  then show "\<And>j. j < i \<Longrightarrow> lo (r ! j) \<le> x"
    using assms(1) by (auto simp: position_Some_iff position_None_iff split: option.splits intro: less_imp_le)
  have "x \<le> lo (r ! i)" if "i < length r"
    using assms(1) that by (cases "position (\<lambda>e. \<not> lo e < x) r") (auto simp: position_Some_iff)
  moreover have "lo (r ! i) < lo (r ! j)" if "i < j" "j < length r" for j
    using assms(2) that unfolding spaced_def by (auto simp: sorted_wrt_iff_nth_less) (meson less_trans nth_mem)
  ultimately show "\<And>j. i \<le> j \<Longrightarrow> j < length r \<Longrightarrow> x \<le> lo (r ! j)"
    by (metis le_trans less_imp_le less_trans nat_less_le)
qed

lemma region_give_eq:
  assumes "region_ok r"
  shows "region_give r start sz =
    (if region_can_give r start sz then (True, coalesce (start, start + sz) r) else (False, r))"
proof (cases "region_can_give r start sz")
  case True
  note g = True [unfolded region_can_give_iff [OF assms]]
  have spaced: "spaced r" using assms by (simp add: region_ok_def)
  define i where "i = (case position (\<lambda>e. \<not> lo e < start) r of Some i \<Rightarrow> i | None \<Rightarrow> length r)"
  note p = give_point [OF i_def spaced]
  define ap where "ap \<longleftrightarrow> 0 < i \<and> hi (r ! (i - 1)) = start"
  define bn where "bn \<longleftrightarrow> i < length r \<and> lo (r ! i) = start + sz"
  have es: "coalesce (start, start + sz) r = take (if ap then i - 1 else i) r
      @ (if bn then (if ap then lo (r ! (i - 1)) else start, hi (r ! i)) # drop (Suc i) r
         else (if ap then lo (r ! (i - 1)) else start, start + sz) # drop i r)"
    by (rule coalesce_at [OF spaced, of start "start + sz" i, unfolded Let_def, folded ap_def bn_def])
      (use g p in simp_all)
  have "length r \<noteq> MAX_EXTENTS" if "\<not> ap" "\<not> bn" using g es p(1) that by simp
  moreover have "region_remove (r[i - 1 := e]) i = take (i - 1) r @ e # drop (Suc i) r" "r[i - 1 := e] = take (i - 1) r @ e # drop i r" if ap for e
    using that p(1) update_before [of i r e] by (simp_all add: region_remove_def ap_def drop_Cons')
  moreover have "r[i := e] = take i r @ e # drop (Suc i) r" if bn for e
    using that by (simp add: bn_def upd_conv_take_nth_drop)
  moreover have "checked_add start sz = Some (start + sz)" using g by (simp add: checked_add_def)
  note code = region_give_def [of r start sz, unfolded Let_def this option.case, folded i_def, folded ap_def bn_def]
  ultimately show ?thesis
    unfolding code es using True g by (cases ap; cases bn) (simp_all add: region_insert_def del: One_nat_def)
qed (simp add: region_give_def)

section \<open>The contract\<close>

lemma region_take_taken:
  assumes "region_ok r" "0 < sz" "is_power_of_two alignment" "region_take r sz alignment = (Some a, r')"
  shows "region_ok r' \<and> alignment dvd a \<and> a + sz \<le> USIZE_MAX \<and> span (a, a + sz) \<subseteq> covered r
    \<and> covered r' = covered r - span (a, a + sz)"
proof -
  have ok: "spaced r" "length r \<le> MAX_EXTENTS" "\<And>e. e \<in> set r \<Longrightarrow> hi e \<le> USIZE_MAX" using assms(1) by (auto simp: region_ok_def)
  have carve: "carve USIZE_MAX sz alignment (length r = MAX_EXTENTS) r = Some (a, r')"
    using assms(4) region_take_eq [OF assms(1-3)] by (auto split: option.splits)
  note c = carve_Some [OF carve ok(1) assms(2,3) order_refl]
  have "covered r \<subseteq> {0..<USIZE_MAX}" using ok(3) by (fastforce simp: covered_iff)
  then have "covered r' \<subseteq> {0..<USIZE_MAX}" using c by blast
  then have "hi e \<le> USIZE_MAX" if "e \<in> set r'" for e using covered_bounds(2) [of r' 0 USIZE_MAX e] c that by simp
  then show ?thesis using c ok(2) by (auto simp: region_ok_def split: if_splits)
qed

lemma region_give_given:
  assumes "region_ok r" "region_give r a sz = (True, r')"
  shows "region_ok r' \<and> covered r' = covered r \<union> span (a, a + sz) \<and> span (a, a + sz) \<inter> covered r = {} \<and> 0 < sz"
proof -
  have ok: "spaced r" "\<And>e. e \<in> set r \<Longrightarrow> hi e \<le> USIZE_MAX" using assms(1) by (auto simp: region_ok_def)
  have g: "0 < sz" "a + sz \<le> USIZE_MAX" "span (a, a + sz) \<inter> covered r = {}" "length r' \<le> MAX_EXTENTS" "r' = coalesce (a, a + sz) r"
    using assms(2) region_give_eq [OF assms(1)] region_can_give_iff [OF assms(1)] by (auto split: if_splits)
  have "spaced r'" "covered r' = span (a, a + sz) \<union> covered r"
    using coalesce_apart coalesce_covered ok(1) g by simp_all
  moreover have "covered r \<subseteq> {0..<USIZE_MAX}" using ok(2) by (fastforce simp: covered_iff)
  then have "covered r' \<subseteq> {0..<USIZE_MAX}" using calculation(2) g(2) by (auto simp: span_def)
  then have "hi e \<le> USIZE_MAX" if "e \<in> set r'" for e using covered_bounds(2) [of r' 0 USIZE_MAX e] calculation(1) that by simp
  ultimately show ?thesis using g by (auto simp: region_ok_def)
qed

lemma region_give_refused: "region_ok r \<Longrightarrow> region_give r a sz = (False, r') \<Longrightarrow> r' = r"
  by (simp add: region_give_eq split: if_splits)

interpretation region_store: free_store region_take region_give region_ok covered USIZE_MAX
proof unfold_locales
  fix l l' sz alignment a
  assume ok: "region_ok l"
  show "0 < sz \<Longrightarrow> is_power_of_two alignment \<Longrightarrow> region_take l sz alignment = (Some a, l') \<Longrightarrow>
      region_ok l' \<and> alignment dvd a \<and> a + sz \<le> USIZE_MAX \<and> span (a, a + sz) \<subseteq> covered l \<and> covered l' = covered l - span (a, a + sz)"
    by (rule region_take_taken [OF ok])
  show "0 < sz \<Longrightarrow> is_power_of_two alignment \<Longrightarrow> region_take l sz alignment = (None, l') \<Longrightarrow> l' = l"
    by (auto simp: region_take_eq [OF ok] split: option.splits)
  show "region_give l a sz = (True, l') \<Longrightarrow> region_ok l' \<and> covered l' = covered l \<union> span (a, a + sz)"
    using region_give_given [OF ok] by blast
  show "region_give l a sz = (False, l') \<Longrightarrow> l' = l" by (rule region_give_refused [OF ok])
qed

text \<open>A range that was taken can always be given back at once: there is a record for it.\<close>

lemma region_take_reversible:
  assumes "region_ok r" "region_take r sz alignment = (Some a, r')"
  shows "region_give r' a sz = (True, r)"
proof -
  have args: "0 < sz" "is_power_of_two alignment" using assms(2) by (auto simp: region_take_def split: if_splits)
  have ok: "spaced r" "length r \<le> MAX_EXTENTS" using assms(1) by (auto simp: region_ok_def)
  have carve: "carve USIZE_MAX sz alignment (length r = MAX_EXTENTS) r = Some (a, r')"
    using assms(2) region_take_eq [OF assms(1) args] by (auto split: option.splits)
  note same = carve_coalesce [OF carve ok(1) args order_refl] and t = region_take_taken [OF assms(1) args assms(2)]
  have "region_can_give r' a sz" using t args(1) same ok(2) by (auto simp: region_can_give_iff)
  then show ?thesis using region_give_eq [of r' a sz] t same by simp
qed

lemma region_available_card:
  assumes "spaced r"
  shows "region_available r = card (covered r)"
  using assms
proof (induction r)
  case (Cons e r)
  have "span e \<inter> covered r = {}" using covered_above [of _ r "hi e"] Cons.prems by (fastforce simp: span_def)
  then have "card (covered (e # r)) = card (span e) + card (covered r)"
    by (simp add: card_Un_disjoint covered_def span_def)
  then show ?case using Cons by (simp add: region_available_def span_def)
qed (simp add: region_available_def)

end
