(* ===== verification/Bare_Pages.thy ===== *)
theory Bare_Pages
  imports Storage_Contract
begin

text \<open>
  The page descriptors of the bare-metal port
  (\<open>src/examples/baremetal-aarch64/src/memory/pages.rs\<close>): permissions of 4 KiB pages of the machine's
  one gigabyte of RAM. Descriptors are 64-bit words, built with the source's bit operations. The
  barrier and cache instructions order the hardware's view and have no effect on the model. The
  allocatable range and the read-only image segment are the linker's, so they are arguments.
\<close>

section \<open>Model\<close>

type_synonym descriptor = "64 word"

record mmu =
  mm_table :: "nat \<Rightarrow> descriptor"
  mm_bytes :: memory

record layout =
  heap_low :: nat
  heap_high :: nat
  rodata_low :: nat
  rodata_high :: nat

definition BPAGE :: nat where "BPAGE = 4096"
definition RAM_START :: nat where "RAM_START = 0x40000000"
definition RAM_PAGES :: nat where "RAM_PAGES = 0x40000000 div BPAGE"

abbreviation VALID :: descriptor where "VALID \<equiv> 1"
definition PAGE_FLAGS :: descriptor where
  "PAGE_FLAGS = 3 OR push_bit 2 1 OR push_bit 8 3 OR push_bit 10 1"
definition READ_ONLY_BIT :: descriptor where "READ_ONLY_BIT = push_bit 7 1"
definition PXN :: descriptor where "PXN = push_bit 53 1"
definition UXN :: descriptor where "UXN = push_bit 54 1"

abbreviation P_READ :: flags where "P_READ \<equiv> 1"
abbreviation P_WRITE :: flags where "P_WRITE \<equiv> 2"
abbreviation P_EXECUTE :: flags where "P_EXECUTE \<equiv> 4"

definition page_flags :: "flags \<Rightarrow> descriptor result" where
  "page_flags protection =
     (if protection AND NOT (P_READ OR P_WRITE OR P_EXECUTE) \<noteq> 0 then Inl InvalidArgument
      else if protection = 0 then Inr 0
      else if protection AND P_READ = 0 then Inl Unsupported
      else Inr (PAGE_FLAGS OR UXN
        OR (if protection AND P_WRITE = 0 then READ_ONLY_BIT else 0)
        OR (if protection AND P_EXECUTE = 0 then PXN else 0)))"

definition page_range :: "nat \<Rightarrow> nat \<Rightarrow> nat \<times> nat \<Rightarrow> (nat \<times> nat) result" where
  "page_range address sz b =
     r_bind (ok_or (checked_add address sz) InvalidArgument) (\<lambda>past.
       if sz = 0 \<or> address mod BPAGE \<noteq> 0 \<or> sz mod BPAGE \<noteq> 0 \<or> address < fst b \<or> snd b < past
          \<or> fst b < RAM_START \<or> RAM_START + RAM_PAGES * BPAGE < snd b
       then Inl InvalidArgument
       else Inr ((address - RAM_START) div BPAGE, (past - RAM_START) div BPAGE))"

definition physical :: "nat \<Rightarrow> descriptor" where
  "physical index = of_nat (RAM_START + index * BPAGE)"

text \<open>\<open>change\<close>: break before make, the whole range each time.\<close>

definition pages_change :: "nat \<times> nat \<Rightarrow> descriptor \<Rightarrow> mmu \<Rightarrow> mmu" where
  "pages_change pages attributes m =
     (let broken = fold (\<lambda>i t. t(i := 0)) [fst pages..<snd pages] (mm_table m) in
      m\<lparr>mm_table := (if attributes \<noteq> 0
         then fold (\<lambda>i t. t(i := physical i OR attributes)) [fst pages..<snd pages] broken else broken)\<rparr>)"

definition pages_protect :: "layout \<Rightarrow> nat \<Rightarrow> nat \<Rightarrow> flags \<Rightarrow> mmu \<Rightarrow> unit result \<times> mmu" where
  "pages_protect L address sz protection m =
     (case page_flags protection of
        Inl e \<Rightarrow> (Inl e, m)
      | Inr attributes \<Rightarrow>
          (case page_range address sz (heap_low L, heap_high L) of
             Inr pages \<Rightarrow> (Inr (), pages_change pages attributes m)
           | Inl _ \<Rightarrow>
               (case page_range address sz (rodata_low L, rodata_high L) of
                  Inl e \<Rightarrow> (Inl e, m)
                | Inr pages \<Rightarrow>
                    if protection \<noteq> P_READ \<and> protection \<noteq> P_READ OR P_WRITE then (Inl Unsupported, m)
                    else (Inr (), pages_change pages attributes m))))"

definition page_valid :: "mmu \<Rightarrow> nat \<Rightarrow> bool" where
  "page_valid m index \<longleftrightarrow> mm_table m index AND VALID \<noteq> 0"

text \<open>The inner loop of \<open>commit\<close>: maps a run of invalid pages and returns where it ends.\<close>

function commit_run :: "descriptor \<Rightarrow> nat \<Rightarrow> nat \<Rightarrow> mmu \<Rightarrow> nat \<times> mmu" where
  "commit_run attributes index past m =
     (if index < past \<and> \<not> page_valid m index
      then commit_run attributes (index + 1) past
             (m\<lparr>mm_table := (mm_table m)(index := physical index OR attributes)\<rparr>)
      else (index, m))"
  by pat_completeness auto
termination by (relation "measure (\<lambda>(_, index, past, _). past - index)") auto

declare commit_run.simps [simp del]

lemma commit_run_mono: "index \<le> fst (commit_run attributes index past m)"
proof (induction attributes index past m rule: commit_run.induct)
  case (1 attributes index past m)
  then show ?case by (subst commit_run.simps) auto
qed

lemma commit_run_progress: "index < past \<Longrightarrow> \<not> page_valid m index \<Longrightarrow> index < fst (commit_run attributes index past m)"
  by (subst commit_run.simps) (use commit_run_mono in \<open>simp add: Suc_le_lessD\<close>)

function commit_loop :: "descriptor \<Rightarrow> nat \<Rightarrow> nat \<Rightarrow> mmu \<Rightarrow> mmu" where
  "commit_loop attributes index past m =
     (if index < past then
        if page_valid m index then commit_loop attributes (index + 1) past m
        else
          let (index', m') = commit_run attributes index past m in
          commit_loop attributes index' past
            (m'\<lparr>mm_bytes := write_zeros (RAM_START + index * BPAGE) ((index' - index) * BPAGE) (mm_bytes m')\<rparr>)
      else m)"
  by pat_completeness auto
termination
proof (relation "measure (\<lambda>(_, index, past, _). past - index)")
  fix attributes index past m x index' m'
  assume "index < past" "\<not> page_valid m index" "x = commit_run attributes index past m" "(index', m') = x"
  then have "index < index'" using commit_run_progress [of index past m attributes] by (metis fst_conv)
  then show "((attributes, index', past, m'\<lparr>mm_bytes := write_zeros (RAM_START + index * BPAGE) ((index' - index) * BPAGE) (mm_bytes m')\<rparr>),
      (attributes, index, past, m)) \<in> measure (\<lambda>(_, index, past, _). past - index)"
    using \<open>index < past\<close> by simp
qed auto

declare commit_loop.simps [simp del]

definition pages_commit :: "layout \<Rightarrow> nat \<Rightarrow> nat \<Rightarrow> mmu \<Rightarrow> unit result \<times> mmu" where
  "pages_commit L address sz m =
     (case page_range address sz (heap_low L, heap_high L) of
        Inl e \<Rightarrow> (Inl e, m)
      | Inr (index, past) \<Rightarrow>
          (case page_flags (P_READ OR P_WRITE) of
             Inl e \<Rightarrow> (Inl e, m)
           | Inr attributes \<Rightarrow> (Inr (), commit_loop attributes index past m)))"

definition pages_readable :: "nat \<Rightarrow> nat \<Rightarrow> mmu \<Rightarrow> bool result" where
  "pages_readable address sz m =
     r_bind (ok_or (checked_add address sz) InvalidArgument) (\<lambda>past.
       let ram_end = RAM_START + RAM_PAGES * BPAGE in
       if address < RAM_START \<or> ram_end \<le> address \<or> ram_end < past then Inr False
       else if sz = 0 then Inr True
       else Inr (list_all (page_valid m) [(address - RAM_START) div BPAGE..<Suc ((past - 1 - RAM_START) div BPAGE)]))"

section \<open>Facts about descriptors\<close>

text \<open>What a descriptor allows: access at all, and writing or execution at the kernel's level.\<close>

definition grants_write :: "descriptor \<Rightarrow> bool" where
  "grants_write d \<longleftrightarrow> d AND VALID \<noteq> 0 \<and> d AND READ_ONLY_BIT = 0"

definition grants_execute :: "descriptor \<Rightarrow> bool" where
  "grants_execute d \<longleftrightarrow> d AND VALID \<noteq> 0 \<and> d AND PXN = 0"

lemma and_bit_iff: "(d :: descriptor) AND push_bit n 1 \<noteq> 0 \<longleftrightarrow> bit d n \<and> n < 64"
proof -
  have "d AND push_bit n 1 = of_bool (bit d n) * push_bit n 1"
    by (rule bit_word_eqI) (auto simp: bit_simps)
  then show ?thesis by (auto simp: bit_imp_le_length push_bit_eq_mult)
qed

lemma physical_bits:
  assumes "i < RAM_PAGES" "n < 12 \<or> 31 \<le> n"
  shows "\<not> bit (physical i) n"
proof
  assume phys: "bit (physical i) n"
  define k where "k = RAM_START + i * BPAGE"
  have "bit (of_nat k :: descriptor) n" using phys by (simp only: physical_def k_def)
  then have odd: "odd (k div 2 ^ n)" by (simp add: bit_simps flip: bit_iff_odd)
  have k: "k = 2 ^ 12 * (0x40000 + i)" "k < 2 ^ 31"
    using assms(1) by (simp_all add: k_def RAM_START_def RAM_PAGES_def BPAGE_def)
  show False
  proof (cases "n < 12")
    case True
    then obtain d where "12 = n + Suc d" using less_iff_Suc_add by (metis add_Suc_right)
    then have "(2 :: nat) ^ 12 = 2 ^ n * (2 * 2 ^ d)" by (metis power_Suc power_add)
    then have "k = 2 ^ n * (2 * (2 ^ d * (0x40000 + i)))" unfolding k(1) by (simp only: mult.assoc)
    then show False using odd by simp
  next
    case False
    then have "(2 :: nat) ^ 31 \<le> 2 ^ n" using assms(2) by (intro power_increasing) auto
    then have "k div 2 ^ n = 0" using k(2) by simp
    then show False using odd by simp
  qed
qed

lemma page_flags_bits:
  assumes "page_flags p = Inr a"
  shows "a = 0 \<longleftrightarrow> p = 0" "p \<noteq> 0 \<Longrightarrow> bit a 0" "p \<noteq> 0 \<Longrightarrow> bit a 7 \<longleftrightarrow> p AND P_WRITE = 0"
    "p \<noteq> 0 \<Longrightarrow> bit a 53 \<longleftrightarrow> p AND P_EXECUTE = 0"
proof -
  have bits: "bit PAGE_FLAGS 0" "\<not> bit PAGE_FLAGS 7" "\<not> bit PAGE_FLAGS 53" "\<not> bit UXN 7" "\<not> bit UXN 53"
    "bit READ_ONLY_BIT 7" "\<not> bit READ_ONLY_BIT 53" "bit PXN 53" "\<not> bit PXN 7"
    by (simp_all add: PAGE_FLAGS_def UXN_def READ_ONLY_BIT_def PXN_def bit_simps)
  have a: "a = PAGE_FLAGS OR UXN OR (if p AND P_WRITE = 0 then READ_ONLY_BIT else 0) OR (if p AND P_EXECUTE = 0 then PXN else 0)"
    if "p \<noteq> 0" using assms that by (auto simp: page_flags_def split: if_splits)
  show b0: "p \<noteq> 0 \<Longrightarrow> bit a 0" using a bits(1) by (simp add: bit_or_iff)
  have "\<not> bit (0 :: descriptor) 0" "p = 0 \<Longrightarrow> a = 0" using assms by (simp_all add: page_flags_def)
  then show "a = 0 \<longleftrightarrow> p = 0" using b0 by blast
  show "p \<noteq> 0 \<Longrightarrow> bit a 7 \<longleftrightarrow> p AND P_WRITE = 0" using a bits by (auto simp: bit_or_iff)
  show "p \<noteq> 0 \<Longrightarrow> bit a 53 \<longleftrightarrow> p AND P_EXECUTE = 0" using a bits by (auto simp: bit_or_iff)
qed

text \<open>A descriptor built for a page of the RAM grants exactly what the protection names.\<close>

lemma descriptor_grants:
  assumes "page_flags p = Inr a" "p \<noteq> 0" "i < RAM_PAGES"
  shows "(physical i OR a) AND VALID \<noteq> 0" "grants_write (physical i OR a) \<longleftrightarrow> p AND P_WRITE \<noteq> 0"
    "grants_execute (physical i OR a) \<longleftrightarrow> p AND P_EXECUTE \<noteq> 0"
proof -
  show v: "(physical i OR a) AND VALID \<noteq> 0"
    using and_bit_iff [of "physical i OR a" 0] page_flags_bits(2) [OF assms(1,2)] by (simp add: bit_or_iff)
  show "grants_write (physical i OR a) \<longleftrightarrow> p AND P_WRITE \<noteq> 0"
    using v page_flags_bits(3) [OF assms(1,2)] physical_bits [OF assms(3), of 7] and_bit_iff [of "physical i OR a" 7]
    by (auto simp: grants_write_def READ_ONLY_BIT_def bit_or_iff)
  show "grants_execute (physical i OR a) \<longleftrightarrow> p AND P_EXECUTE \<noteq> 0"
    using v page_flags_bits(4) [OF assms(1,2)] physical_bits [OF assms(3), of 53] and_bit_iff [of "physical i OR a" 53]
    by (auto simp: grants_execute_def PXN_def bit_or_iff)
qed

lemma fold_upd: "fold (\<lambda>i t. t(i := g i)) [a..<b] f = (\<lambda>i. if a \<le> i \<and> i < b then g i else f i)"
proof (induction b)
  case (Suc b)
  then show ?case by (cases "a \<le> b") (auto simp: fun_eq_iff less_Suc_eq)
qed simp

lemma pages_change_eq:
  "mm_table (pages_change (first, past) attributes m) =
     (\<lambda>i. if first \<le> i \<and> i < past then (if attributes = 0 then 0 else physical i OR attributes) else mm_table m i)"
  "mm_bytes (pages_change (first, past) attributes m) = mm_bytes m"
  by (simp_all add: pages_change_def Let_def fold_upd fun_eq_iff)

text \<open>Page numbers of addresses in RAM.\<close>

definition page_of :: "nat \<Rightarrow> nat" where
  "page_of address = (address - RAM_START) div BPAGE"

lemma page_range_Inr_iff:
  "page_range address sz (low, high) = Inr (first, past) \<longleftrightarrow>
     0 < sz \<and> address mod BPAGE = 0 \<and> sz mod BPAGE = 0 \<and> low \<le> address \<and> address + sz \<le> high \<and> RAM_START \<le> low
     \<and> high \<le> RAM_START + RAM_PAGES * BPAGE \<and> first = page_of address \<and> past = page_of (address + sz)"
  by (auto simp: page_range_def r_bind_Inr_iff ok_or_Inr_iff checked_add_def page_of_def width_simps
      RAM_START_def RAM_PAGES_def BPAGE_def)

section \<open>Committing\<close>

definition page_span :: "nat \<Rightarrow> nat set" where
  "page_span j = {RAM_START + j * BPAGE..<RAM_START + Suc j * BPAGE}"

lemma page_spans:
  assumes "a \<le> b"
  shows "(\<Union>j\<in>{a..<b}. page_span j) = {RAM_START + a * BPAGE..<RAM_START + b * BPAGE}"
  using assms
proof (induction b rule: dec_induct)
  case (step n)
  have "{RAM_START + a * BPAGE..<RAM_START + n * BPAGE} \<union> page_span n = {RAM_START + a * BPAGE..<RAM_START + Suc n * BPAGE}"
    unfolding page_span_def using step(1) by (intro ivl_disj_un_two(3)) (auto simp: BPAGE_def)
  moreover have "{a..<Suc n} = insert n {a..<n}" using step(1) by auto
  ultimately show ?case using step(3) by (simp add: Un_commute)
qed simp

lemma commit_run_spec:
  assumes "commit_run attributes index past m = (index', m')" "index \<le> past"
  shows "index \<le> index' \<and> index' \<le> past \<and> (\<forall>j. index \<le> j \<and> j < index' \<longrightarrow> \<not> page_valid m j)
    \<and> m' = m\<lparr>mm_table := \<lambda>j. if index \<le> j \<and> j < index' then physical j OR attributes else mm_table m j\<rparr>"
  using assms
proof (induction attributes index past m rule: commit_run.induct)
  case (1 attributes index past m)
  show ?case
  proof (cases "index < past \<and> \<not> page_valid m index")
    case True
    let ?m = "m\<lparr>mm_table := (mm_table m)(index := physical index OR attributes)\<rparr>"
    have "commit_run attributes (index + 1) past ?m = (index', m')" using 1(2) True by (subst (asm) commit_run.simps) simp
    note IH = 1(1) [OF True this]
    have *: "page_valid ?m j = page_valid m j" if "j \<noteq> index" for j using that by (simp add: page_valid_def)
    have "m' = m\<lparr>mm_table := \<lambda>j. if index \<le> j \<and> j < index' then physical j OR attributes else mm_table m j\<rparr>"
      using IH True by (auto simp: fun_eq_iff intro!: mmu.equality)
    moreover have "\<forall>j. index \<le> j \<and> j < index' \<longrightarrow> \<not> page_valid m j"
    proof (intro allI impI)
      fix j
      assume "index \<le> j \<and> j < index'"
      then show "\<not> page_valid m j" using IH True * [of j] by (cases "j = index") auto
    qed
    ultimately show ?thesis using IH True by simp
  next
    case False
    then show ?thesis using 1(2,3) by (subst (asm) commit_run.simps) (auto simp: fun_eq_iff intro!: mmu.equality)
  qed
qed

lemma commit_loop_spec:
  assumes "index \<le> past"
  shows "mm_table (commit_loop attributes index past m) =
      (\<lambda>j. if index \<le> j \<and> j < past \<and> \<not> page_valid m j then physical j OR attributes else mm_table m j)
    \<and> mm_bytes (commit_loop attributes index past m) =
      (\<lambda>a. if \<exists>j. index \<le> j \<and> j < past \<and> \<not> page_valid m j \<and> a \<in> page_span j then 0 else mm_bytes m a)"
  using assms
proof (induction attributes index past m rule: commit_loop.induct)
  case (1 attributes index past m)
  show ?case
  proof (cases "index < past")
    case False
    then show ?thesis using 1(3) by (subst (1 2) commit_loop.simps) (auto simp: fun_eq_iff)
  next
    case lt: True
    show ?thesis
    proof (cases "page_valid m index")
      case True
      then have step: "commit_loop attributes index past m = commit_loop attributes (index + 1) past m"
        using lt by (subst commit_loop.simps) simp
      have cut: "index \<le> j \<and> j < past \<and> \<not> page_valid m j \<longleftrightarrow> index + 1 \<le> j \<and> j < past \<and> \<not> page_valid m j" for j
        using True by (cases "j = index") auto
      then have "(\<exists>j. index \<le> j \<and> j < past \<and> \<not> page_valid m j \<and> a \<in> page_span j) \<longleftrightarrow>
          (\<exists>j. index + 1 \<le> j \<and> j < past \<and> \<not> page_valid m j \<and> a \<in> page_span j)" for a by blast
      then show ?thesis unfolding step cut using 1(1) [OF lt True] lt by simp
    next
      case False
      obtain i' m' where run: "commit_run attributes index past m = (i', m')" by force
      note r = commit_run_spec [OF run] and prog = commit_run_progress [OF lt False, of attributes, unfolded run fst_conv]
      let ?m = "m'\<lparr>mm_bytes := write_zeros (RAM_START + index * BPAGE) ((i' - index) * BPAGE) (mm_bytes m')\<rparr>"
      have step: "commit_loop attributes index past m = commit_loop attributes i' past ?m"
        using lt False run by (subst commit_loop.simps) simp
      have r: "index \<le> i'" "i' \<le> past" "\<And>j. index \<le> j \<Longrightarrow> j < i' \<Longrightarrow> \<not> page_valid m j"
        "mm_table ?m = (\<lambda>j. if index \<le> j \<and> j < i' then physical j OR attributes else mm_table m j)"
        "mm_bytes m' = mm_bytes m"
        using r lt by auto
      have same: "page_valid ?m j = page_valid m j" if "i' \<le> j" for j using that by (simp add: page_valid_def r(4))
      have zeros: "mm_bytes ?m = (\<lambda>a. if \<exists>j. index \<le> j \<and> j < i' \<and> a \<in> page_span j then 0 else mm_bytes m a)"
      proof
        fix a
        have "a \<in> (\<Union>j\<in>{index..<i'}. page_span j) \<longleftrightarrow> RAM_START + index * BPAGE \<le> a \<and> a < RAM_START + i' * BPAGE"
          unfolding page_spans [OF r(1)] by simp
        moreover have "RAM_START + index * BPAGE + (i' - index) * BPAGE = RAM_START + i' * BPAGE"
          using r(1) by (simp add: diff_mult_distrib)
        ultimately show "mm_bytes ?m a = (if \<exists>j. index \<le> j \<and> j < i' \<and> a \<in> page_span j then 0 else mm_bytes m a)"
          using r(5) by (auto simp: write_zeros_def)
      qed
      have cut: "index \<le> j \<and> j < past \<and> \<not> page_valid m j \<longleftrightarrow>
          index \<le> j \<and> j < i' \<or> i' \<le> j \<and> j < past \<and> \<not> page_valid ?m j" for j
      proof (cases "j < i'")
        case True
        then show ?thesis using r(2,3) by (auto intro: less_le_trans)
      next
        case False
        then show ?thesis using r(1) same [of j] by auto
      qed
      note IH = 1(2) [OF lt False run [symmetric] refl r(2)]
      show ?thesis unfolding step
      proof (intro conjI ext)
        fix j
        show "mm_table (commit_loop attributes i' past ?m) j =
            (if index \<le> j \<and> j < past \<and> \<not> page_valid m j then physical j OR attributes else mm_table m j)"
          unfolding conjunct1 [OF IH] cut r(4) by auto
      next
        fix a
        show "mm_bytes (commit_loop attributes i' past ?m) a =
            (if \<exists>j. index \<le> j \<and> j < past \<and> \<not> page_valid m j \<and> a \<in> page_span j then 0 else mm_bytes m a)"
        proof -
          have eq: "(\<exists>j. index \<le> j \<and> j < past \<and> \<not> page_valid m j \<and> a \<in> page_span j) \<longleftrightarrow>
              (\<exists>j. index \<le> j \<and> j < i' \<and> a \<in> page_span j) \<or> (\<exists>j. i' \<le> j \<and> j < past \<and> \<not> page_valid ?m j \<and> a \<in> page_span j)"
            (is "_ \<longleftrightarrow> ?B \<or> ?C") using cut by blast
          show ?thesis unfolding conjunct2 [OF IH] zeros eq
            by (cases ?B; cases ?C; simp only: simp_thms if_True if_False)
        qed
      qed
    qed
  qed
qed

section \<open>Contracts by address\<close>

lemma BPAGE_pos [simp]: "0 < BPAGE" "BPAGE \<noteq> 0"
  by (simp_all add: BPAGE_def)

lemma in_pages_iff:
  assumes "a mod BPAGE = 0" "sz mod BPAGE = 0" "RAM_START \<le> a" "RAM_START \<le> x"
  shows "page_of a \<le> page_of x \<and> page_of x < page_of (a + sz) \<longleftrightarrow> x \<in> span (a, a + sz)"
proof -
  have "RAM_START mod BPAGE = 0" by (simp add: RAM_START_def BPAGE_def)
  then have "(a - RAM_START) mod BPAGE = 0" "(a + sz - RAM_START) mod BPAGE = 0"
    using assms(1-3) by (simp_all add: mod_eq_0_iff_dvd dvd_diff_nat)
  then have "a - RAM_START = page_of a * BPAGE" "a + sz - RAM_START = page_of (a + sz) * BPAGE"
    by (simp_all add: page_of_def mod_eq_0_iff_dvd)
  moreover have "page_of a \<le> page_of x \<longleftrightarrow> page_of a * BPAGE \<le> x - RAM_START"
    "page_of x < page_of (a + sz) \<longleftrightarrow> x - RAM_START < page_of (a + sz) * BPAGE"
    by (simp_all add: page_of_def [of x] less_eq_div_iff_mult_less_eq div_less_iff_less_mult)
  ultimately show ?thesis using assms(3,4) by (auto simp: span_def)
qed

lemma page_of_small: "RAM_START \<le> x \<Longrightarrow> x < RAM_START + RAM_PAGES * BPAGE \<Longrightarrow> page_of x < RAM_PAGES"
  by (simp add: page_of_def div_less_iff_less_mult less_diff_conv2 add.commute)

text \<open>The linker's ranges lie in RAM on page boundaries, and apart from each other.\<close>

definition layout_ok :: "layout \<Rightarrow> bool" where
  "layout_ok L \<longleftrightarrow> RAM_START \<le> heap_low L \<and> heap_low L \<le> heap_high L \<and> heap_high L \<le> RAM_START + RAM_PAGES * BPAGE
     \<and> heap_low L mod BPAGE = 0 \<and> heap_high L mod BPAGE = 0 \<and> rodata_high L \<le> heap_low L"

definition same_but :: "nat set \<Rightarrow> mmu \<Rightarrow> mmu \<Rightarrow> bool" where
  "same_but A m m' \<longleftrightarrow> (\<forall>x. RAM_START \<le> x \<longrightarrow> x \<notin> A \<longrightarrow> mm_table m' (page_of x) = mm_table m (page_of x))"

lemma pages_protect_heap:
  assumes L: "layout_ok L" and a: "a mod BPAGE = 0" "sz mod BPAGE = 0" "0 < sz" "heap_low L \<le> a" "a + sz \<le> heap_high L"
    and p: "page_flags p = Inr attributes"
  obtains m' where "pages_protect L a sz p m = (Inr (), m')" "mm_bytes m' = mm_bytes m" "same_but (span (a, a + sz)) m m'"
    "\<And>x. x \<in> span (a, a + sz) \<Longrightarrow> mm_table m' (page_of x) = (if p = 0 then 0 else physical (page_of x) OR attributes)"
proof -
  have range: "page_range a sz (heap_low L, heap_high L) = Inr (page_of a, page_of (a + sz))"
    using L a by (simp add: page_range_Inr_iff layout_ok_def)
  let ?m = "pages_change (page_of a, page_of (a + sz)) attributes m"
  have ram: "RAM_START \<le> a" using L a(4) by (simp add: layout_ok_def)
  show ?thesis
  proof (rule that)
    show "pages_protect L a sz p m = (Inr (), ?m)" by (simp add: pages_protect_def p range)
    show "mm_bytes ?m = mm_bytes m" by (simp add: pages_change_eq)
    show "same_but (span (a, a + sz)) m ?m"
      using in_pages_iff [OF a(1,2) ram] by (auto simp: same_but_def pages_change_eq)
    fix x
    assume x: "x \<in> span (a, a + sz)"
    then have "RAM_START \<le> x" using ram by (simp add: span_def)
    then show "mm_table ?m (page_of x) = (if p = 0 then 0 else physical (page_of x) OR attributes)"
      using in_pages_iff [OF a(1,2) ram, of x] x page_flags_bits(1) [OF p] by (auto simp: pages_change_eq)
  qed
qed

text \<open>
  Outside the allocatable range only the read-only image segment can change, and only between
  read-only and read-write: no call takes an image page away.
\<close>

lemma pages_protect_image:
  assumes run: "pages_protect L a sz p m = (Inr (), m')" and out: "a < heap_low L \<or> heap_high L < a + sz" and L: "layout_ok L"
  shows "(p = P_READ \<or> p = P_READ OR P_WRITE) \<and> rodata_low L \<le> a \<and> a + sz \<le> rodata_high L \<and> same_but (span (a, a + sz)) m m'
    \<and> mm_bytes m' = mm_bytes m \<and> (\<forall>x\<in>span (a, a + sz). page_valid m' (page_of x))"
proof -
  obtain attributes where p: "page_flags p = Inr attributes" using run by (auto simp: pages_protect_def split: sum.splits)
  have "\<nexists>q. page_range a sz (heap_low L, heap_high L) = Inr q" using out by (auto simp: page_range_Inr_iff)
  then obtain e where "page_range a sz (heap_low L, heap_high L) = Inl e" by (metis sum.exhaust)
  then obtain pages where range: "page_range a sz (rodata_low L, rodata_high L) = Inr pages"
    and prot: "p = P_READ \<or> p = P_READ OR P_WRITE" and m': "m' = pages_change pages attributes m"
    using run p by (auto simp: pages_protect_def split: sum.splits if_splits)
  have pages: "pages = (page_of a, page_of (a + sz))" and a: "a mod BPAGE = 0" "sz mod BPAGE = 0" "rodata_low L \<le> a" "a + sz \<le> rodata_high L"
      "RAM_START \<le> a" "rodata_high L \<le> RAM_START + RAM_PAGES * BPAGE"
    using range page_range_Inr_iff [of a sz "rodata_low L" "rodata_high L" "fst pages" "snd pages"] by (auto simp: prod_eq_iff)
  note at = in_pages_iff [OF a(1,2,5)]
  have "p \<noteq> 0" using prot by auto
  have "page_valid m' (page_of x)" if x: "x \<in> span (a, a + sz)" for x
  proof -
    have ram: "RAM_START \<le> x" "x < RAM_START + RAM_PAGES * BPAGE" using x a(4-6) by (auto simp: span_def)
    then have "mm_table m' (page_of x) = physical (page_of x) OR attributes"
      using at [of x] x page_flags_bits(1) [OF p] \<open>p \<noteq> 0\<close> by (auto simp: m' pages pages_change_eq)
    then show ?thesis using descriptor_grants(1) [OF p \<open>p \<noteq> 0\<close> page_of_small [OF ram]] by (simp add: page_valid_def)
  qed
  moreover have "same_but (span (a, a + sz)) m m'" using at by (auto simp: same_but_def m' pages pages_change_eq)
  ultimately show ?thesis using prot a(3,4) by (simp add: m' pages pages_change_eq)
qed

lemma pages_protect_refused: "pages_protect L a sz p m = (Inl e, m') \<Longrightarrow> m' = m"
  by (auto simp: pages_protect_def split: sum.splits if_splits)

lemma page_flags_RW: "\<exists>a. page_flags (P_READ OR P_WRITE) = Inr a"
  by (simp add: page_flags_def)

text \<open>
  Commit: the pages of the range become readable and writable; those that were inaccessible read as
  zero, those that were accessible keep descriptor and contents, and nothing outside changes.
\<close>

lemma pages_commit_heap:
  assumes L: "layout_ok L" and a: "a mod BPAGE = 0" "sz mod BPAGE = 0" "0 < sz" "heap_low L \<le> a" "a + sz \<le> heap_high L"
  obtains m' where "pages_commit L a sz m = (Inr (), m')" "same_but (span (a, a + sz)) m m'"
    "\<And>x. x \<in> span (a, a + sz) \<Longrightarrow> page_valid m' (page_of x)"
    "\<And>x. RAM_START \<le> x \<Longrightarrow> mm_bytes m' x = (if x \<in> span (a, a + sz) \<and> \<not> page_valid m (page_of x) then 0 else mm_bytes m x)"
proof -
  have range: "page_range a sz (heap_low L, heap_high L) = Inr (page_of a, page_of (a + sz))"
    using L a by (simp add: page_range_Inr_iff layout_ok_def)
  obtain attributes where p: "page_flags (P_READ OR P_WRITE) = Inr attributes" using page_flags_RW by blast
  let ?m = "commit_loop attributes (page_of a) (page_of (a + sz)) m"
  have ram: "RAM_START \<le> a" "a + sz \<le> RAM_START + RAM_PAGES * BPAGE" using L a(4,5) by (auto simp: layout_ok_def)
  note at = in_pages_iff [OF a(1,2) ram(1)]
  have le: "page_of a \<le> page_of (a + sz)" unfolding page_of_def by (intro div_le_mono) simp
  note c = commit_loop_spec [OF le, of attributes m]
  have in_page: "x \<in> page_span j \<longleftrightarrow> j = page_of x" if "RAM_START \<le> x" for x j
  proof -
    have "x \<in> page_span j \<longleftrightarrow> j * BPAGE \<le> x - RAM_START \<and> x - RAM_START < Suc j * BPAGE"
      using that unfolding page_span_def by auto
    also have "\<dots> \<longleftrightarrow> j \<le> page_of x \<and> page_of x < Suc j"
      by (simp only: page_of_def less_eq_div_iff_mult_less_eq [OF BPAGE_pos(1)] div_less_iff_less_mult [OF BPAGE_pos(1)])
    finally show ?thesis by auto
  qed
  show ?thesis
  proof (rule that)
    show "pages_commit L a sz m = (Inr (), ?m)" by (simp only: pages_commit_def p range sum.case prod.case)
    show "same_but (span (a, a + sz)) m ?m" unfolding same_but_def conjunct1 [OF c] using at by auto
    show "mm_bytes ?m x = (if x \<in> span (a, a + sz) \<and> \<not> page_valid m (page_of x) then 0 else mm_bytes m x)"
      if "RAM_START \<le> x" for x
      unfolding conjunct2 [OF c] in_page [OF that] using at [OF that] by auto
    fix x
    assume x: "x \<in> span (a, a + sz)"
    then have x': "RAM_START \<le> x" "x < RAM_START + RAM_PAGES * BPAGE" using ram by (auto simp: span_def)
    have "mm_table ?m (page_of x) = (if \<not> page_valid m (page_of x) then physical (page_of x) OR attributes else mm_table m (page_of x))"
      unfolding conjunct1 [OF c] using at [OF x'(1)] x by auto
    then show "page_valid ?m (page_of x)"
      using descriptor_grants(1) [OF p _ page_of_small [OF x']] by (auto simp: page_valid_def)
  qed
qed

end
