(* ===== verification/Bare_Memory.thy ===== *)
theory Bare_Memory
  imports Bare_Region Bare_Pages
begin

text \<open>
  Virtual memory and native mappings of the bare-metal port
  (\<open>src/examples/baremetal-aarch64/src/memory.rs\<close>): the RAM region of \<open>Bare_Region\<close> decides who owns
  an address, the descriptors of \<open>Bare_Pages\<close> decide whether it can be touched. A failed \<open>assert!\<close>
  is \<open>None\<close>.

  The invariant ties the two together: memory nobody owns is inaccessible, so a stale pointer traps
  instead of reading another owner's data.
\<close>

section \<open>Model\<close>

record bare =
  ba_region :: "extent list"
  ba_mmu :: mmu

definition round_up :: "nat \<Rightarrow> nat \<Rightarrow> nat" where
  "round_up value alignment = mask_down ((value + alignment - 1) mod 2 ^ 64) alignment"

text \<open>\<open>bounds\<close>: the whole pages between the linker's two symbols.\<close>

definition bounds :: "nat \<Rightarrow> nat \<Rightarrow> nat \<times> nat" where
  "bounds heap_start heap_end = (round_up heap_start BPAGE, mask_down heap_end BPAGE)"

text \<open>\<open>init\<close>: the whole range is one free extent and no page of it is accessible.\<close>

definition bare_init :: "layout \<Rightarrow> mmu \<Rightarrow> bare option" where
  "bare_init L m =
     (case region_give [] (heap_low L) (heap_high L - heap_low L) of
        (False, _) \<Rightarrow> None
      | (True, r) \<Rightarrow>
          (case pages_protect L (heap_low L) (heap_high L - heap_low L) 0 m of
             (Inl _, _) \<Rightarrow> None
           | (Inr _, m) \<Rightarrow> Some \<lparr>ba_region = r, ba_mmu = m\<rparr>))"

definition bare_take :: "layout \<Rightarrow> nat \<Rightarrow> nat \<Rightarrow> bare \<Rightarrow> (nat option \<times> bare) option" where
  "bare_take L sz alignment st =
     (if sz = 0 \<or> sz mod BPAGE \<noteq> 0 \<or> alignment < BPAGE \<or> \<not> is_power_of_two alignment then Some (None, st)
      else case region_take (ba_region st) sz alignment of
          (None, r) \<Rightarrow> Some (None, st\<lparr>ba_region := r\<rparr>)
        | (Some address, r) \<Rightarrow>
            (case pages_protect L address sz (P_READ OR P_WRITE) (ba_mmu st) of
               (Inr _, m) \<Rightarrow> Some (Some address, \<lparr>ba_region = r, ba_mmu = m\<rparr>)
             | (Inl _, m) \<Rightarrow>
                 (case region_give r address sz of
                    (True, r) \<Rightarrow> Some (None, \<lparr>ba_region = r, ba_mmu = m\<rparr>)
                  | (False, _) \<Rightarrow> None)))"

definition bare_give :: "layout \<Rightarrow> nat \<Rightarrow> nat \<Rightarrow> bare \<Rightarrow> bool \<times> bare" where
  "bare_give L start sz st =
     (if \<not> region_can_give (ba_region st) start sz then (False, st)
      else case pages_protect L start sz 0 (ba_mmu st) of
          (Inl _, m) \<Rightarrow> (False, st\<lparr>ba_mmu := m\<rparr>)
        | (Inr _, m) \<Rightarrow>
            (case region_give (ba_region st) start sz of (b, r) \<Rightarrow> (b, \<lparr>ba_region = r, ba_mmu = m\<rparr>)))"

definition bare_zero :: "nat \<Rightarrow> nat \<Rightarrow> bare \<Rightarrow> bare" where
  "bare_zero address sz st =
     st\<lparr>ba_mmu := (ba_mmu st)\<lparr>mm_bytes := write_zeros address sz (mm_bytes (ba_mmu st))\<rparr>\<rparr>"

subsection \<open>Virtual memory\<close>

definition bare_reserve :: "layout \<Rightarrow> nat \<Rightarrow> nat \<Rightarrow> bare \<Rightarrow> (nat result \<times> bare) option" where
  "bare_reserve L sz alignment st =
     (case bare_take L sz alignment st of
        None \<Rightarrow> None
      | Some (None, st) \<Rightarrow> Some (Inl OutOfMemory, st)
      | Some (Some address, st) \<Rightarrow>
          (case pages_protect L address sz 0 (ba_mmu st) of
             (Inr _, m) \<Rightarrow> Some (Inr address, st\<lparr>ba_mmu := m\<rparr>)
           | (Inl e, m) \<Rightarrow>
               (case bare_give L address sz (st\<lparr>ba_mmu := m\<rparr>) of
                  (True, st) \<Rightarrow> Some (Inl e, st)
                | (False, _) \<Rightarrow> None)))"

definition bare_commit :: "layout \<Rightarrow> nat \<Rightarrow> nat \<Rightarrow> bare \<Rightarrow> unit result \<times> bare" where
  "bare_commit L address sz st =
     (case pages_commit L address sz (ba_mmu st) of (r, m) \<Rightarrow> (r, st\<lparr>ba_mmu := m\<rparr>))"

definition bare_decommit :: "layout \<Rightarrow> nat \<Rightarrow> nat \<Rightarrow> bare \<Rightarrow> unit result \<times> bare" where
  "bare_decommit L address sz st =
     (case pages_protect L address sz 0 (ba_mmu st) of (r, m) \<Rightarrow> (r, st\<lparr>ba_mmu := m\<rparr>))"

definition bare_release :: "layout \<Rightarrow> nat \<Rightarrow> nat \<Rightarrow> bare \<Rightarrow> unit result \<times> bare" where
  "bare_release L address sz st =
     (case bare_give L address sz st of (b, st) \<Rightarrow> (if b then Inr () else Inl Os, st))"

text \<open>The provider behind the checked table; a failed assertion would end the run.\<close>

definition bare_vm :: "layout \<Rightarrow> bare vm_provider" where
  "bare_vm L =
     \<lparr>vm_page_size = BPAGE,
      vm_reserve_fn = (\<lambda>sz alignment st. case bare_reserve L sz alignment st of Some r \<Rightarrow> r | None \<Rightarrow> (Inl Os, st)),
      vm_commit_fn = bare_commit L,
      vm_decommit_fn = bare_decommit L,
      vm_release_fn = bare_release L,
      vm_reset_fn = (\<lambda>_ _ st. (Inr (), st))\<rparr>"

subsection \<open>Native mappings\<close>

definition page_rounded :: "nat \<Rightarrow> nat result" where
  "page_rounded sz =
     (if sz = 0 then Inl InvalidArgument
      else ok_or (map_option (\<lambda>n. mask_down n BPAGE) (checked_add sz (BPAGE - 1))) InvalidArgument)"

definition bare_map_allocate :: "layout \<Rightarrow> nat \<Rightarrow> flags \<Rightarrow> bare \<Rightarrow> (nat result \<times> bare) option" where
  "bare_map_allocate L sz protection st =
     (case page_flags protection of
        Inl e \<Rightarrow> Some (Inl e, st)
      | Inr _ \<Rightarrow>
          (case page_rounded sz of
             Inl e \<Rightarrow> Some (Inl e, st)
           | Inr sz \<Rightarrow>
               (case bare_take L sz BPAGE st of
                  None \<Rightarrow> None
                | Some (None, st) \<Rightarrow> Some (Inl OutOfMemory, st)
                | Some (Some address, st) \<Rightarrow>
                    (case pages_protect L address sz protection (ba_mmu (bare_zero address sz st)) of
                       (Inr _, m) \<Rightarrow> Some (Inr address, (bare_zero address sz st)\<lparr>ba_mmu := m\<rparr>)
                     | (Inl e, m) \<Rightarrow>
                         (case bare_give L address sz ((bare_zero address sz st)\<lparr>ba_mmu := m\<rparr>) of
                            (True, st) \<Rightarrow> Some (Inl e, st)
                          | (False, _) \<Rightarrow> None)))))"

definition bare_map_release :: "layout \<Rightarrow> nat \<Rightarrow> nat \<Rightarrow> bare \<Rightarrow> unit result \<times> bare" where
  "bare_map_release L address sz st =
     (case page_rounded sz of
        Inl e \<Rightarrow> (Inl e, st)
      | Inr sz \<Rightarrow> (case bare_give L address sz st of (b, st) \<Rightarrow> (if b then Inr () else Inl Os, st)))"

definition bare_map_protect :: "layout \<Rightarrow> nat \<Rightarrow> nat \<Rightarrow> flags \<Rightarrow> bare \<Rightarrow> unit result \<times> bare" where
  "bare_map_protect L address sz protection st =
     (case page_rounded sz of
        Inl e \<Rightarrow> (Inl e, st)
      | Inr sz \<Rightarrow>
          (case pages_protect L address sz protection (ba_mmu st) of (r, m) \<Rightarrow> (r, st\<lparr>ba_mmu := m\<rparr>)))"

section \<open>Invariant\<close>

abbreviation ba_free :: "bare \<Rightarrow> nat set" where
  "ba_free st \<equiv> covered (ba_region st)"

abbreviation ba_valid :: "bare \<Rightarrow> nat \<Rightarrow> bool" where
  "ba_valid st x \<equiv> page_valid (ba_mmu st) (page_of x)"

text \<open>Whole pages: a page is in the set with all its bytes or not at all.\<close>

definition page_closed :: "nat set \<Rightarrow> bool" where
  "page_closed S \<longleftrightarrow> (\<forall>x\<in>S. \<forall>y. RAM_START \<le> y \<longrightarrow> page_of y = page_of x \<longrightarrow> y \<in> S)"

definition bare_ok :: "layout \<Rightarrow> bare \<Rightarrow> bool" where
  "bare_ok L st \<longleftrightarrow> layout_ok L \<and> region_ok (ba_region st) \<and> ba_free st \<subseteq> {heap_low L..<heap_high L}
     \<and> page_closed (ba_free st) \<and> (\<forall>x\<in>ba_free st. \<not> ba_valid st x)"


lemma page_closed_span:
  assumes "a mod BPAGE = 0" "sz mod BPAGE = 0" "RAM_START \<le> a"
  shows "page_closed (span (a, a + sz))"
  unfolding page_closed_def
proof (intro ballI allI impI)
  fix x y
  assume x: "x \<in> span (a, a + sz)" and y: "RAM_START \<le> y" "page_of y = page_of x"
  have "RAM_START \<le> x" using x assms(3) by (simp add: span_def)
  then show "y \<in> span (a, a + sz)" using in_pages_iff [OF assms, of x] in_pages_iff [OF assms y(1)] x y(2) by simp
qed

lemma page_closed_Un: "page_closed S \<Longrightarrow> page_closed T \<Longrightarrow> page_closed (S \<union> T)"
  unfolding page_closed_def by blast

lemma page_closed_Diff:
  assumes "page_closed S" "page_closed T" "S \<subseteq> {RAM_START..}"
  shows "page_closed (S - T)"
  unfolding page_closed_def
proof (intro ballI allI impI)
  fix x y
  assume x: "x \<in> S - T" and y: "RAM_START \<le> y" "page_of y = page_of x"
  have "y \<in> S" using assms(1) x y unfolding page_closed_def by blast
  moreover have "y \<notin> T"
  proof
    assume "y \<in> T"
    moreover have "RAM_START \<le> x" using x assms(3) by auto
    ultimately have "x \<in> T" using assms(2) y(2) unfolding page_closed_def by metis
    then show False using x by simp
  qed
  ultimately show "y \<in> S - T" by simp
qed

lemma bare_okD:
  assumes "bare_ok L st"
  shows "layout_ok L" "region_ok (ba_region st)" "ba_free st \<subseteq> {heap_low L..<heap_high L}" "page_closed (ba_free st)"
    "ba_free st \<subseteq> {RAM_START..}" "\<And>x. x \<in> ba_free st \<Longrightarrow> \<not> ba_valid st x"
  using assms by (auto simp: bare_ok_def layout_ok_def)

lemma same_but_valid: "same_but A m m' \<Longrightarrow> RAM_START \<le> x \<Longrightarrow> x \<notin> A \<Longrightarrow> page_valid m' (page_of x) = page_valid m (page_of x)"
  by (simp add: same_but_def page_valid_def)

lemma same_but_trans: "same_but A m m' \<Longrightarrow> same_but A m' m'' \<Longrightarrow> same_but A m m''"
  by (simp add: same_but_def)

lemma same_but_refl [simp]: "same_but A m m"
  by (simp add: same_but_def)

text \<open>How the invariant survives: descriptors change in a range that is not free, or is free and invalid afterwards.\<close>

lemma bare_ok_change:
  assumes ok: "bare_ok L st" and r: "region_ok r" "covered r \<subseteq> {heap_low L..<heap_high L}" "page_closed (covered r)"
    and m: "same_but A (ba_mmu st) m" and out: "covered r - A \<subseteq> ba_free st"
    and inval: "\<And>x. x \<in> covered r \<inter> A \<Longrightarrow> \<not> page_valid m (page_of x)"
  shows "bare_ok L \<lparr>ba_region = r, ba_mmu = m\<rparr>"
proof -
  have "\<not> page_valid m (page_of x)" if x: "x \<in> covered r" for x
  proof (cases "x \<in> A")
    case False
    then have "x \<in> ba_free st" using out x by blast
    then show ?thesis using same_but_valid [OF m _ False] bare_okD(5,6) [OF ok] by auto
  qed (use inval x in blast)
  then show ?thesis using r bare_okD(1) [OF ok] by (simp add: bare_ok_def)
qed

section \<open>Taking and giving\<close>

text \<open>What a caller who was given a range has: whole pages of memory that was free and is not any more.\<close>

definition took :: "layout \<Rightarrow> nat \<Rightarrow> nat \<Rightarrow> nat \<Rightarrow> bare \<Rightarrow> bare \<Rightarrow> bool" where
  "took L sz alignment a st st' \<longleftrightarrow> bare_ok L st' \<and> 0 < sz \<and> sz mod BPAGE = 0 \<and> a mod BPAGE = 0 \<and> alignment dvd a
     \<and> span (a, a + sz) \<subseteq> ba_free st \<and> ba_free st' = ba_free st - span (a, a + sz)
     \<and> same_but (span (a, a + sz)) (ba_mmu st) (ba_mmu st')"

lemma free_within:
  assumes "bare_ok L st" "span (a, a + sz) \<subseteq> ba_free st" "0 < sz"
  shows "heap_low L \<le> a" "a + sz \<le> heap_high L" "RAM_START \<le> a"
proof -
  have "span (a, a + sz) \<subseteq> {heap_low L..<heap_high L}" using bare_okD(3) [OF assms(1)] assms(2) by (rule subset_trans [rotated])
  then show "heap_low L \<le> a" "a + sz \<le> heap_high L" using assms(3) by (auto simp: span_def)
  then show "RAM_START \<le> a" using bare_okD(1) [OF assms(1)] by (simp add: layout_ok_def)
qed

lemma bare_take_total:
  assumes ok: "bare_ok L st"
  shows "bare_take L sz alignment st = Some (None, st)
    \<or> (\<exists>a st'. bare_take L sz alignment st = Some (Some a, st') \<and> took L sz alignment a st st'
         \<and> mm_bytes (ba_mmu st') = mm_bytes (ba_mmu st) \<and> (\<forall>x\<in>span (a, a + sz). ba_valid st' x))"
proof (cases "sz = 0 \<or> sz mod BPAGE \<noteq> 0 \<or> alignment < BPAGE \<or> \<not> is_power_of_two alignment")
  case False
  then have args: "0 < sz" "sz mod BPAGE = 0" "BPAGE \<le> alignment" "is_power_of_two alignment" by auto
  obtain t r where take: "region_take (ba_region st) sz alignment = (t, r)" by force
  show ?thesis
  proof (cases t)
    case None
    then have "r = ba_region st" using take region_take_eq [OF bare_okD(2) [OF ok] args(1,4)] by (auto split: option.splits)
    then show ?thesis using None take False by (simp add: bare_take_def)
  next
    case (Some a)
    note t = region_take_taken [OF bare_okD(2) [OF ok] args(1,4) take [unfolded Some]]
    have "is_power_of_two BPAGE" by (simp add: BPAGE_def is_power_of_two_iff) (rule exI [of _ 12], simp)
    then have a: "a mod BPAGE = 0" using t pow2_dvd [of BPAGE alignment] args(3,4) by (auto intro: dvd_trans)
    have free: "span (a, a + sz) \<subseteq> ba_free st" using t by simp
    note inside = free_within [OF ok free args(1)]
    obtain f where f: "page_flags (P_READ OR P_WRITE) = Inr f" using page_flags_RW by blast
    obtain m where m: "pages_protect L a sz (P_READ OR P_WRITE) (ba_mmu st) = (Inr (), m)" "mm_bytes m = mm_bytes (ba_mmu st)"
        "same_but (span (a, a + sz)) (ba_mmu st) m"
        "\<And>x. x \<in> span (a, a + sz) \<Longrightarrow> mm_table m (page_of x) = (if P_READ OR P_WRITE = 0 then 0 else physical (page_of x) OR f)"
      by (rule pages_protect_heap [OF bare_okD(1) [OF ok] a args(2,1) inside(1,2) f]) blast
    let ?st = "\<lparr>ba_region = r, ba_mmu = m\<rparr>"
    have nz: "P_READ OR P_WRITE \<noteq> 0" by simp
    have valid: "page_valid m (page_of x)" if x: "x \<in> span (a, a + sz)" for x
    proof -
      have "page_of x < RAM_PAGES" using x inside bare_okD(1) [OF ok] by (intro page_of_small) (auto simp: span_def layout_ok_def)
      then show ?thesis using m(4) [OF x] nz descriptor_grants(1) [OF f nz] unfolding page_valid_def by simp
    qed
    have "bare_ok L ?st"
      by (rule bare_ok_change [OF ok, where A = "span (a, a + sz)"])
        (use t m(3) bare_okD(3) [OF ok] page_closed_Diff [OF bare_okD(4) [OF ok] page_closed_span [OF a args(2) inside(3)] bare_okD(5) [OF ok]] in auto)
    then have "took L sz alignment a st ?st" using t args(1,2) a m(3) by (simp add: took_def)
    then show ?thesis using False take Some m(1,2) valid by (simp add: bare_take_def)
  qed
qed (auto simp: bare_take_def)

lemma protect_none:
  assumes "layout_ok L" "pages_protect L a sz 0 m = (Inr (), m')"
  shows "heap_low L \<le> a" "a + sz \<le> heap_high L" "a mod BPAGE = 0" "sz mod BPAGE = 0" "0 < sz" "RAM_START \<le> a"
    "same_but (span (a, a + sz)) m m'" "mm_bytes m' = mm_bytes m" "\<And>x. x \<in> span (a, a + sz) \<Longrightarrow> \<not> page_valid m' (page_of x)"
proof -
  have z: "page_flags 0 = Inr 0" by (simp add: page_flags_def)
  obtain q where "page_range a sz (heap_low L, heap_high L) = Inr q"
    using assms(2) z by (auto simp: pages_protect_def split: sum.splits if_splits)
  then show in_heap: "heap_low L \<le> a" "a + sz \<le> heap_high L" "a mod BPAGE = 0" "sz mod BPAGE = 0" "0 < sz" "RAM_START \<le> a"
    using page_range_Inr_iff [of a sz "heap_low L" "heap_high L" "fst q" "snd q"] by auto
  obtain m1 where "pages_protect L a sz 0 m = (Inr (), m1)" and m1: "mm_bytes m1 = mm_bytes m" "same_but (span (a, a + sz)) m m1"
      "\<And>x. x \<in> span (a, a + sz) \<Longrightarrow> mm_table m1 (page_of x) = 0"
    by (rule pages_protect_heap [OF assms(1) in_heap(3-5,1,2) z, of m]) auto
  then have "m' = m1" using assms(2) by simp
  then show "same_but (span (a, a + sz)) m m'" "mm_bytes m' = mm_bytes m" "\<And>x. x \<in> span (a, a + sz) \<Longrightarrow> \<not> page_valid m' (page_of x)"
    using m1 by (simp_all add: page_valid_def)
qed

lemma protect_none_runs:
  assumes "layout_ok L" "heap_low L \<le> a" "a + sz \<le> heap_high L" "a mod BPAGE = 0" "sz mod BPAGE = 0" "0 < sz"
  obtains m' where "pages_protect L a sz 0 m = (Inr (), m')"
proof -
  have z: "page_flags 0 = Inr 0" by (simp add: page_flags_def)
  show ?thesis by (rule pages_protect_heap [OF assms(1,4-6,2,3) z, of m]) (rule that)
qed

text \<open>
  A return is recorded, and the range inaccessible, or nothing changed. What was free already is
  never accepted a second time.
\<close>

lemma bare_give_total:
  assumes ok: "bare_ok L st"
  shows "bare_give L a sz st = (False, st) \<and> \<not> (region_can_give (ba_region st) a sz
        \<and> a mod BPAGE = 0 \<and> sz mod BPAGE = 0 \<and> heap_low L \<le> a \<and> a + sz \<le> heap_high L)
    \<or> (\<exists>st'. bare_give L a sz st = (True, st') \<and> bare_ok L st' \<and> 0 < sz \<and> a mod BPAGE = 0 \<and> sz mod BPAGE = 0
         \<and> span (a, a + sz) \<inter> ba_free st = {} \<and> ba_free st' = ba_free st \<union> span (a, a + sz)
         \<and> same_but (span (a, a + sz)) (ba_mmu st) (ba_mmu st') \<and> mm_bytes (ba_mmu st') = mm_bytes (ba_mmu st))"
proof (cases "region_can_give (ba_region st) a sz")
  case can: True
  obtain t m where p: "pages_protect L a sz 0 (ba_mmu st) = (t, m)" by force
  show ?thesis
  proof (cases t)
    case (Inl e)
    then have "m = ba_mmu st" using pages_protect_refused p by blast
    moreover have "0 < sz" using can region_can_give_iff [OF bare_okD(2) [OF ok]] by blast
    then have "\<not> (a mod BPAGE = 0 \<and> sz mod BPAGE = 0 \<and> heap_low L \<le> a \<and> a + sz \<le> heap_high L)"
      using protect_none_runs [OF bare_okD(1) [OF ok], of a sz "ba_mmu st"] p Inl by auto
    ultimately show ?thesis using can p Inl by (simp add: bare_give_def)
  next
    case (Inr u)
    then have run: "pages_protect L a sz 0 (ba_mmu st) = (Inr (), m)" using p by simp
    note n = protect_none [OF bare_okD(1) [OF ok] run]
    define r where "r = coalesce (a, a + sz) (ba_region st)"
    have give: "region_give (ba_region st) a sz = (True, r)" using can region_give_eq [OF bare_okD(2) [OF ok]] by (simp add: r_def)
    note g = region_give_given [OF bare_okD(2) [OF ok] give]
    have cov: "covered r = ba_free st \<union> span (a, a + sz)" using g by simp
    have "bare_ok L \<lparr>ba_region = r, ba_mmu = m\<rparr>"
    proof (rule bare_ok_change [OF ok, where A = "span (a, a + sz)"])
      show "covered r \<subseteq> {heap_low L..<heap_high L}" unfolding cov using bare_okD(3) [OF ok] n(1,2) by (auto simp: span_def)
      show "page_closed (covered r)" unfolding cov by (intro page_closed_Un bare_okD(4) [OF ok] page_closed_span n)
    qed (use g n(7,9) cov in auto)
    then show ?thesis using can run give g n by (simp add: bare_give_def)
  qed
qed (simp add: bare_give_def)

section \<open>The providers\<close>

lemma bare_init_ok:
  assumes "layout_ok L" "heap_low L < heap_high L"
  obtains st where "bare_init L m = Some st" "bare_ok L st" "ba_free st = {heap_low L..<heap_high L}"
proof -
  let ?n = "heap_high L - heap_low L"
  have empty: "region_ok []" by (simp add: region_ok_def spaced_def)
  have le: "heap_low L + ?n = heap_high L" "heap_low L mod BPAGE = 0" "?n mod BPAGE = 0" "0 < ?n" "heap_high L \<le> USIZE_MAX"
    using assms by (auto simp: layout_ok_def width_simps RAM_START_def RAM_PAGES_def BPAGE_def mod_eq_0_iff_dvd dvd_diff_nat)
  have can: "region_can_give [] (heap_low L) ?n" using le by (simp add: region_can_give_def checked_add_def MAX_EXTENTS_def)
  define r where "r = coalesce (heap_low L, heap_low L + ?n) []"
  have give: "region_give [] (heap_low L) ?n = (True, r)" using can region_give_eq [OF empty] by (simp add: r_def)
  note g = region_give_given [OF empty give]
  obtain m' where run: "pages_protect L (heap_low L) ?n 0 m = (Inr (), m')"
    by (rule protect_none_runs [OF assms(1) _ _ le(2-4)]) (use le in auto)
  note n = protect_none [OF assms(1) run]
  have cov: "covered r = {heap_low L..<heap_high L}" using g le(1) by (simp add: covered_def span_def)
  have "page_closed (span (heap_low L, heap_low L + ?n))" by (rule page_closed_span) (use le n in auto)
  then have "bare_ok L \<lparr>ba_region = r, ba_mmu = m'\<rparr>"
    using assms(1) g cov n(9) le(1) by (simp add: bare_ok_def span_def)
  then show ?thesis using that [of "\<lparr>ba_region = r, ba_mmu = m'\<rparr>"] give run cov by (simp add: bare_init_def)
qed

lemma bare_mmu_update: "(st :: bare)\<lparr>ba_mmu := m\<rparr> = \<lparr>ba_region = ba_region st, ba_mmu = m\<rparr>"
  by simp

lemma took_protect:
  assumes "took L sz alignment a st st1" "same_but (span (a, a + sz)) (ba_mmu st1) m"
  shows "took L sz alignment a st (st1\<lparr>ba_mmu := m\<rparr>)"
proof -
  have ok: "bare_ok L st1" and free: "ba_free st1 = ba_free st - span (a, a + sz)" using assms(1) by (auto simp: took_def)
  have "bare_ok L \<lparr>ba_region = ba_region st1, ba_mmu = m\<rparr>"
    by (rule bare_ok_change [OF ok bare_okD(2-4) [OF ok] assms(2)]) (use free in auto)
  then show ?thesis using assms same_but_trans [of "span (a, a + sz)" "ba_mmu st" "ba_mmu st1" m]
    unfolding took_def bare_mmu_update by simp
qed

text \<open>A reservation is exclusive, aligned and inaccessible; refused, it leaves no trace. No assertion fails.\<close>

lemma bare_reserve_total:
  assumes ok: "bare_ok L st"
  shows "bare_reserve L sz alignment st = Some (Inl OutOfMemory, st)
    \<or> (\<exists>a st'. bare_reserve L sz alignment st = Some (Inr a, st') \<and> took L sz alignment a st st'
         \<and> mm_bytes (ba_mmu st') = mm_bytes (ba_mmu st) \<and> (\<forall>x\<in>span (a, a + sz). \<not> ba_valid st' x))"
  using bare_take_total [OF ok, of sz alignment]
proof
  assume "\<exists>a st'. bare_take L sz alignment st = Some (Some a, st') \<and> took L sz alignment a st st'
    \<and> mm_bytes (ba_mmu st') = mm_bytes (ba_mmu st) \<and> (\<forall>x\<in>span (a, a + sz). ba_valid st' x)"
  then obtain a st1 where t: "bare_take L sz alignment st = Some (Some a, st1)" "took L sz alignment a st st1"
    "mm_bytes (ba_mmu st1) = mm_bytes (ba_mmu st)" by blast
  have t': "0 < sz" "sz mod BPAGE = 0" "a mod BPAGE = 0" "span (a, a + sz) \<subseteq> ba_free st" using t(2) by (auto simp: took_def)
  note inside = free_within [OF ok t'(4,1)]
  obtain m where run: "pages_protect L a sz 0 (ba_mmu st1) = (Inr (), m)"
    by (rule protect_none_runs [OF bare_okD(1) [OF ok] inside(1,2) t'(3,2,1)])
  note n = protect_none [OF bare_okD(1) [OF ok] run]
  show ?thesis using took_protect [OF t(2) n(7)] t(1,3) n(8,9) run by (simp add: bare_reserve_def)
qed (simp add: bare_reserve_def)

text \<open>Calls on a range the caller owns: whole pages of the heap none of which is free.\<close>

definition owned :: "layout \<Rightarrow> nat \<Rightarrow> nat \<Rightarrow> bare \<Rightarrow> bool" where
  "owned L a sz st \<longleftrightarrow> 0 < sz \<and> a mod BPAGE = 0 \<and> sz mod BPAGE = 0 \<and> heap_low L \<le> a \<and> a + sz \<le> heap_high L
     \<and> span (a, a + sz) \<inter> ba_free st = {}"

lemma owned_change:
  assumes "bare_ok L st" "owned L a sz st" "same_but (span (a, a + sz)) (ba_mmu st) m"
  shows "bare_ok L (st\<lparr>ba_mmu := m\<rparr>)"
proof -
  show ?thesis unfolding bare_mmu_update
    by (rule bare_ok_change [OF assms(1) bare_okD(2-4) [OF assms(1)] assms(3)]) (use assms(2) in \<open>auto simp: owned_def\<close>)
qed

lemma bare_commit_owned:
  assumes ok: "bare_ok L st" and own: "owned L a sz st"
  obtains st' where "bare_commit L a sz st = (Inr (), st')" "bare_ok L st'" "ba_free st' = ba_free st"
    "same_but (span (a, a + sz)) (ba_mmu st) (ba_mmu st')" "\<And>x. x \<in> span (a, a + sz) \<Longrightarrow> ba_valid st' x"
    "\<And>x. RAM_START \<le> x \<Longrightarrow> mm_bytes (ba_mmu st') x =
       (if x \<in> span (a, a + sz) \<and> \<not> ba_valid st x then 0 else mm_bytes (ba_mmu st) x)"
proof -
  have o: "a mod BPAGE = 0" "sz mod BPAGE = 0" "0 < sz" "heap_low L \<le> a" "a + sz \<le> heap_high L" using own by (auto simp: owned_def)
  obtain m where m: "pages_commit L a sz (ba_mmu st) = (Inr (), m)" "same_but (span (a, a + sz)) (ba_mmu st) m"
    "\<And>x. x \<in> span (a, a + sz) \<Longrightarrow> page_valid m (page_of x)"
    "\<And>x. RAM_START \<le> x \<Longrightarrow> mm_bytes m x = (if x \<in> span (a, a + sz) \<and> \<not> ba_valid st x then 0 else mm_bytes (ba_mmu st) x)"
    by (rule pages_commit_heap [OF bare_okD(1) [OF ok] o, of "ba_mmu st"]) blast
  show ?thesis by (rule that [of "st\<lparr>ba_mmu := m\<rparr>"]) (use m owned_change [OF ok own m(2)] in \<open>simp_all add: bare_commit_def\<close>)
qed

lemma bare_decommit_owned:
  assumes ok: "bare_ok L st" and own: "owned L a sz st"
  obtains st' where "bare_decommit L a sz st = (Inr (), st')" "bare_ok L st'" "ba_free st' = ba_free st"
    "same_but (span (a, a + sz)) (ba_mmu st) (ba_mmu st')" "\<And>x. x \<in> span (a, a + sz) \<Longrightarrow> \<not> ba_valid st' x"
    "mm_bytes (ba_mmu st') = mm_bytes (ba_mmu st)"
proof -
  have o: "a mod BPAGE = 0" "sz mod BPAGE = 0" "0 < sz" "heap_low L \<le> a" "a + sz \<le> heap_high L" using own by (auto simp: owned_def)
  obtain m where run: "pages_protect L a sz 0 (ba_mmu st) = (Inr (), m)"
    by (rule protect_none_runs [OF bare_okD(1) [OF ok] o(4,5,1-3)])
  note n = protect_none [OF bare_okD(1) [OF ok] run]
  show ?thesis by (rule that [of "st\<lparr>ba_mmu := m\<rparr>"]) (use run n owned_change [OF ok own n(7)] in \<open>simp_all add: bare_decommit_def\<close>)
qed

lemma page_rounded_Inr:
  assumes "page_rounded n = Inr sz"
  shows "sz mod BPAGE = 0" "n \<le> sz" "sz < n + BPAGE" "0 < n"
proof -
  have pow: "is_power_of_two BPAGE" by (simp add: BPAGE_def is_power_of_two_iff) (rule exI [of _ 12], simp)
  show n: "0 < n" using assms by (auto simp: page_rounded_def split: if_splits)
  have fits: "n + (BPAGE - 1) \<le> USIZE_MAX" and sz: "sz = mask_down (n + (BPAGE - 1)) BPAGE"
    using assms n by (auto simp: page_rounded_def ok_or_def checked_add_def split: if_splits option.splits)
  have "sz = (n + (BPAGE - 1)) - (n + (BPAGE - 1)) mod BPAGE" using sz mask_down_pow2 [OF fits pow] by simp
  then show "sz mod BPAGE = 0" "n \<le> sz" "sz < n + BPAGE"
    using mod_less_divisor [OF BPAGE_pos(1), of "n + (BPAGE - 1)"] by (auto simp: BPAGE_def minus_mod_eq_mult_div)
qed

lemma bare_zero_simps [simp]:
  "ba_region (bare_zero a sz st) = ba_region st" "mm_table (ba_mmu (bare_zero a sz st)) = mm_table (ba_mmu st)"
  "mm_bytes (ba_mmu (bare_zero a sz st)) = write_zeros a sz (mm_bytes (ba_mmu st))"
  by (simp_all add: bare_zero_def)

lemma took_zero: "took L sz alignment a st st' \<Longrightarrow> took L sz alignment a st (bare_zero a n st')"
  unfolding took_def bare_ok_def page_valid_def same_but_def bare_zero_simps .

lemma protect_grants:
  assumes L: "layout_ok L" and a: "a mod BPAGE = 0" "sz mod BPAGE = 0" "0 < sz" "heap_low L \<le> a" "a + sz \<le> heap_high L"
    and p: "page_flags p = Inr f"
  obtains m' where "pages_protect L a sz p m = (Inr (), m')" "mm_bytes m' = mm_bytes m" "same_but (span (a, a + sz)) m m'"
    "\<And>x. x \<in> span (a, a + sz) \<Longrightarrow> page_valid m' (page_of x) = (p \<noteq> 0)
       \<and> grants_write (mm_table m' (page_of x)) = (p AND P_WRITE \<noteq> 0)
       \<and> grants_execute (mm_table m' (page_of x)) = (p AND P_EXECUTE \<noteq> 0)"
proof -
  obtain m' where m: "pages_protect L a sz p m = (Inr (), m')" "mm_bytes m' = mm_bytes m" "same_but (span (a, a + sz)) m m'"
    and d: "\<And>x. x \<in> span (a, a + sz) \<Longrightarrow> mm_table m' (page_of x) = (if p = 0 then 0 else physical (page_of x) OR f)"
    by (rule pages_protect_heap [OF L a p, of m]) blast
  have "page_valid m' (page_of x) = (p \<noteq> 0) \<and> grants_write (mm_table m' (page_of x)) = (p AND P_WRITE \<noteq> 0)
      \<and> grants_execute (mm_table m' (page_of x)) = (p AND P_EXECUTE \<noteq> 0)" if x: "x \<in> span (a, a + sz)" for x
  proof (cases "p = 0")
    case True
    then show ?thesis using d [OF x] by (simp add: page_valid_def grants_write_def grants_execute_def)
  next
    case False
    have "page_of x < RAM_PAGES" using x L a by (intro page_of_small) (auto simp: span_def layout_ok_def)
    then show ?thesis using d [OF x] False descriptor_grants [OF p False] by (simp add: page_valid_def)
  qed
  then show ?thesis using that [OF m] by blast
qed

text \<open>
  A mapping is zeroed, exclusive and grants exactly what was asked for; permissions the hardware
  cannot express are refused before anything is taken.
\<close>

lemma bare_map_allocate_total:
  assumes ok: "bare_ok L st"
  shows "(\<exists>e. bare_map_allocate L n p st = Some (Inl e, st))
    \<or> (\<exists>a st' sz. bare_map_allocate L n p st = Some (Inr a, st') \<and> page_rounded n = Inr sz \<and> took L sz BPAGE a st st'
         \<and> mm_bytes (ba_mmu st') = write_zeros a sz (mm_bytes (ba_mmu st))
         \<and> (\<forall>x\<in>span (a, a + sz). ba_valid st' x = (p \<noteq> 0)
              \<and> grants_write (mm_table (ba_mmu st') (page_of x)) = (p AND P_WRITE \<noteq> 0)
              \<and> grants_execute (mm_table (ba_mmu st') (page_of x)) = (p AND P_EXECUTE \<noteq> 0)))"
proof (cases "page_flags p")
  case flags: (Inr f)
  show ?thesis
  proof (cases "page_rounded n")
    case size: (Inr sz)
    show ?thesis
      using bare_take_total [OF ok, of sz BPAGE]
    proof
      assume "\<exists>a st'. bare_take L sz BPAGE st = Some (Some a, st') \<and> took L sz BPAGE a st st'
        \<and> mm_bytes (ba_mmu st') = mm_bytes (ba_mmu st) \<and> (\<forall>x\<in>span (a, a + sz). ba_valid st' x)"
      then obtain a st1 where t: "bare_take L sz BPAGE st = Some (Some a, st1)" "took L sz BPAGE a st st1"
        "mm_bytes (ba_mmu st1) = mm_bytes (ba_mmu st)" by blast
      have t': "a mod BPAGE = 0" "sz mod BPAGE = 0" "0 < sz" "span (a, a + sz) \<subseteq> ba_free st" using t(2) by (auto simp: took_def)
      note inside = free_within [OF ok t'(4,3)]
      obtain m where m: "pages_protect L a sz p (ba_mmu (bare_zero a sz st1)) = (Inr (), m)"
        "mm_bytes m = mm_bytes (ba_mmu (bare_zero a sz st1))" "same_but (span (a, a + sz)) (ba_mmu (bare_zero a sz st1)) m"
        "\<And>x. x \<in> span (a, a + sz) \<Longrightarrow> page_valid m (page_of x) = (p \<noteq> 0)
           \<and> grants_write (mm_table m (page_of x)) = (p AND P_WRITE \<noteq> 0)
           \<and> grants_execute (mm_table m (page_of x)) = (p AND P_EXECUTE \<noteq> 0)"
        by (rule protect_grants [OF bare_okD(1) [OF ok] t'(1-3) inside(1,2) flags, of "ba_mmu (bare_zero a sz st1)"]) blast
      have "bare_map_allocate L n p st = Some (Inr a, (bare_zero a sz st1)\<lparr>ba_mmu := m\<rparr>)"
        by (simp add: bare_map_allocate_def flags size t(1) m(1))
      moreover have "took L sz BPAGE a st ((bare_zero a sz st1)\<lparr>ba_mmu := m\<rparr>)" by (rule took_protect [OF took_zero [OF t(2)] m(3)])
      ultimately show ?thesis using m(2,4) t(3) size by auto
    qed (simp add: bare_map_allocate_def flags size)
  qed (simp add: bare_map_allocate_def flags)
qed (simp add: bare_map_allocate_def)

lemma bare_map_protect_owned:
  assumes ok: "bare_ok L st" and sz: "page_rounded n = Inr sz" and own: "owned L a sz st"
    and run: "bare_map_protect L a n p st = (r, st')"
  shows "bare_ok L st' \<and> ba_region st' = ba_region st \<and> same_but (span (a, a + sz)) (ba_mmu st) (ba_mmu st')
    \<and> mm_bytes (ba_mmu st') = mm_bytes (ba_mmu st)"
proof (cases "page_flags p")
  case (Inl e)
  then show ?thesis using run sz ok by (auto simp: bare_map_protect_def pages_protect_def)
next
  case (Inr f)
  have o: "a mod BPAGE = 0" "sz mod BPAGE = 0" "0 < sz" "heap_low L \<le> a" "a + sz \<le> heap_high L" using own by (auto simp: owned_def)
  obtain m where m: "pages_protect L a sz p (ba_mmu st) = (Inr (), m)" "mm_bytes m = mm_bytes (ba_mmu st)" "same_but (span (a, a + sz)) (ba_mmu st) m"
    by (rule protect_grants [OF bare_okD(1) [OF ok] o Inr, of "ba_mmu st"]) blast
  then have "st' = st\<lparr>ba_mmu := m\<rparr>" using run sz by (simp add: bare_map_protect_def)
  then show ?thesis using m owned_change [OF ok own m(3)] by simp
qed

section \<open>Owners\<close>

text \<open>
  The callers of the two providers together. Each range that was handed out has one owner, known by
  its address, who works inside it and returns the whole of it; the calls of different owners come in
  any order. A refused call that had no range is made by address 0.
\<close>

definition within_block :: "nat \<Rightarrow> nat \<Rightarrow> nat \<Rightarrow> blocks \<Rightarrow> bool" where
  "within_block b a sz B \<longleftrightarrow> (\<exists>n. B b = Some n \<and> b \<le> a \<and> a + sz \<le> b + n)"

inductive owner_step :: "layout \<Rightarrow> nat \<Rightarrow> bare \<times> blocks \<Rightarrow> bare \<times> blocks \<Rightarrow> bool" for L where
  reserve: "bare_reserve L sz alignment st = Some (Inr a, st') \<Longrightarrow> owner_step L a (st, B) (st', B(a \<mapsto> sz))"
| reserve_refused: "bare_reserve L sz alignment st = Some (Inl e, st') \<Longrightarrow> owner_step L 0 (st, B) (st', B)"
| map_memory: "bare_map_allocate L n p st = Some (Inr a, st') \<Longrightarrow> page_rounded n = Inr sz \<Longrightarrow>
    owner_step L a (st, B) (st', B(a \<mapsto> sz))"
| map_refused: "bare_map_allocate L n p st = Some (Inl e, st') \<Longrightarrow> owner_step L 0 (st, B) (st', B)"
| commit: "within_block b a sz B \<Longrightarrow> bare_commit L a sz st = (r, st') \<Longrightarrow> owner_step L b (st, B) (st', B)"
| decommit: "within_block b a sz B \<Longrightarrow> bare_decommit L a sz st = (r, st') \<Longrightarrow> owner_step L b (st, B) (st', B)"
| protect: "page_rounded n = Inr sz \<Longrightarrow> within_block b a sz B \<Longrightarrow> bare_map_protect L a n p st = (r, st') \<Longrightarrow>
    owner_step L b (st, B) (st', B)"
| release: "B a = Some sz \<Longrightarrow> bare_release L a sz st = (r, st') \<Longrightarrow>
    owner_step L a (st, B) (st', if r = Inr () then B(a := None) else B)"
| unmap: "page_rounded n = Inr sz \<Longrightarrow> B a = Some sz \<Longrightarrow> bare_map_release L a n st = (r, st') \<Longrightarrow>
    owner_step L a (st, B) (st', if r = Inr () then B(a := None) else B)"
| store: "B b = Some n \<Longrightarrow> x \<in> span (b, b + n) \<Longrightarrow> grants_write (mm_table (ba_mmu st) (page_of x)) \<Longrightarrow>
    owner_step L b (st, B) (st\<lparr>ba_mmu := (ba_mmu st)\<lparr>mm_bytes := (mm_bytes (ba_mmu st))(x := v)\<rparr>\<rparr>, B)"

definition held :: "blocks \<Rightarrow> nat set" where
  "held B = {x. \<exists>b n. B b = Some n \<and> x \<in> span (b, b + n)}"

text \<open>Every byte of the heap is free or in exactly one owner's range.\<close>

definition owners_ok :: "layout \<Rightarrow> bare \<times> blocks \<Rightarrow> bool" where
  "owners_ok L s \<longleftrightarrow> (case s of (st, B) \<Rightarrow> bare_ok L st \<and> blocks_ok (heap_high L) B
     \<and> (\<forall>b n. B b = Some n \<longrightarrow> b mod BPAGE = 0 \<and> n mod BPAGE = 0 \<and> heap_low L \<le> b)
     \<and> held B \<inter> ba_free st = {} \<and> held B \<union> ba_free st = {heap_low L..<heap_high L})"

lemma held_upd:
  assumes "B a = None"
  shows "held (B(a \<mapsto> sz)) = held B \<union> span (a, a + sz)"
proof (rule set_eqI)
  fix x
  show "x \<in> held (B(a \<mapsto> sz)) \<longleftrightarrow> x \<in> held B \<union> span (a, a + sz)"
  proof
    assume "x \<in> held (B(a \<mapsto> sz))"
    then show "x \<in> held B \<union> span (a, a + sz)" unfolding held_def by (auto split: if_splits)
  next
    assume "x \<in> held B \<union> span (a, a + sz)"
    then consider b n where "B b = Some n" "x \<in> span (b, b + n)" "b \<noteq> a" | "x \<in> span (a, a + sz)"
      unfolding held_def using assms by force
    then show "x \<in> held (B(a \<mapsto> sz))"
    proof cases
      case 1
      then have "(B(a \<mapsto> sz)) b = Some n" by simp
      then show ?thesis using 1(2) unfolding held_def by blast
    next
      case 2
      then show ?thesis unfolding held_def by (intro CollectI exI [of _ a] exI [of _ sz]) simp
    qed
  qed
qed

lemma held_del:
  assumes "blocks_ok lim B" "B a = Some sz"
  shows "held B = held (B(a := None)) \<union> span (a, a + sz)" "held (B(a := None)) \<inter> span (a, a + sz) = {}"
proof -
  show "held B = held (B(a := None)) \<union> span (a, a + sz)"
    using held_upd [of "B(a := None)" a sz] assms(2) by (simp add: map_upd_triv)
  show "held (B(a := None)) \<inter> span (a, a + sz) = {}"
    using blocks_ok_disjoint [OF assms(1) assms(2)] unfolding held_def by (auto split: if_splits)
qed

lemma owners_ok_block:
  assumes "owners_ok L (st, B)" "B b = Some n"
  shows "owned L b n st"
proof -
  have "0 < n" "b + n \<le> heap_high L" using blocks_okD [of "heap_high L" B b n] assms by (auto simp: owners_ok_def)
  moreover have "span (b, b + n) \<subseteq> held B" unfolding held_def using assms(2) by blast
  ultimately show ?thesis using assms unfolding owners_ok_def owned_def by auto
qed

lemma within_block_span: "within_block b a sz B \<Longrightarrow> \<exists>n. B b = Some n \<and> span (a, a + sz) \<subseteq> span (b, b + n)"
  by (auto simp: within_block_def span_def)

lemma owners_ok_inside:
  assumes "owners_ok L (st, B)" "within_block b a sz B" "a mod BPAGE = 0" "sz mod BPAGE = 0" "0 < sz"
  shows "owned L a sz st"
proof -
  obtain n where b: "B b = Some n" "b \<le> a" "a + sz \<le> b + n" using assms(2) by (auto simp: within_block_def)
  then have "span (a, a + sz) \<subseteq> span (b, b + n)" by (auto simp: span_def)
  then show ?thesis using owners_ok_block [OF assms(1) b(1)] b assms(3-5) unfolding owned_def by auto
qed

lemma owners_ok_take:
  assumes "owners_ok L (st, B)" "took L sz alignment a st st'"
  shows "owners_ok L (st', B(a \<mapsto> sz))" "misses a sz B"
proof -
  have s: "bare_ok L st" "blocks_ok (heap_high L) B" "\<And>b n. B b = Some n \<Longrightarrow> b mod BPAGE = 0 \<and> n mod BPAGE = 0 \<and> heap_low L \<le> b"
    "held B \<inter> ba_free st = {}" "held B \<union> ba_free st = {heap_low L..<heap_high L}" using assms(1) by (auto simp: owners_ok_def)
  have t: "bare_ok L st'" "0 < sz" "sz mod BPAGE = 0" "a mod BPAGE = 0" "span (a, a + sz) \<subseteq> ba_free st"
    "ba_free st' = ba_free st - span (a, a + sz)" using assms(2) by (auto simp: took_def)
  note inside = free_within [OF s(1) t(5,2)]
  have pos: "0 < a" using inside(3) by (simp add: RAM_START_def)
  have "span (b, b + n) \<subseteq> held B" if "B b = Some n" for b n unfolding held_def using that by blast
  then show miss: "misses a sz B" unfolding misses_def using s(4) t(5) by blast
  have held: "held (B(a \<mapsto> sz)) = held B \<union> span (a, a + sz)" using held_upd [of B a sz] misses_fresh [OF miss s(2) t(2)] by simp
  have "blocks_ok (heap_high L) (B(a \<mapsto> sz))" by (rule blocks_ok_grant [OF s(2) miss pos t(2) inside(2)])
  then show "owners_ok L (st', B(a \<mapsto> sz))"
    unfolding owners_ok_def prod.case held t(6) using t(1,3-5) s(3-5) inside(1) by (auto split: if_splits)
qed

lemma owners_ok_give:
  assumes "owners_ok L (st, B)" "B a = Some sz" "bare_give L a sz st = (True, st')"
  shows "owners_ok L (st', B(a := None))"
proof -
  have s: "bare_ok L st" "blocks_ok (heap_high L) B" "\<And>b n. B b = Some n \<Longrightarrow> b mod BPAGE = 0 \<and> n mod BPAGE = 0 \<and> heap_low L \<le> b"
    "held B \<inter> ba_free st = {}" "held B \<union> ba_free st = {heap_low L..<heap_high L}" using assms(1) by (auto simp: owners_ok_def)
  have g: "bare_ok L st'" "ba_free st' = ba_free st \<union> span (a, a + sz)"
    using bare_give_total [OF s(1), of a sz] assms(3) by auto
  note d = held_del [OF s(2) assms(2)]
  have "(B(a := None)) b = Some n \<Longrightarrow> B b = Some n" for b n by (auto split: if_splits)
  then show ?thesis using s(3-5) g blocks_ok_free [OF s(2)] d unfolding owners_ok_def prod.case by blast
qed

lemma owners_ok_same:
  assumes "owners_ok L (st, B)" "bare_ok L st'" "ba_free st' = ba_free st"
  shows "owners_ok L (st', B)"
  using assms unfolding owners_ok_def prod.case by blast

text \<open>
  What a call may touch: the range it was made on, or one that was free. So the pages and the bytes
  of every other owner are as they were.
\<close>

definition untouched :: "nat set \<Rightarrow> bare \<Rightarrow> bare \<Rightarrow> bool" where
  "untouched A st st' \<longleftrightarrow> (\<forall>x\<in>A. mm_table (ba_mmu st') (page_of x) = mm_table (ba_mmu st) (page_of x)
     \<and> mm_bytes (ba_mmu st') x = mm_bytes (ba_mmu st) x)"

lemma untouchedI:
  assumes "same_but S (ba_mmu st) (ba_mmu st')" "A \<inter> S = {}" "A \<subseteq> {RAM_START..}"
    "\<And>x. x \<in> A \<Longrightarrow> mm_bytes (ba_mmu st') x = mm_bytes (ba_mmu st) x"
  shows "untouched A st st'"
  using assms unfolding untouched_def same_but_def by auto

text \<open>Each call on a range, as one fact: it is well formed or changes nothing, and it reaches only that range.\<close>

definition confined :: "layout \<Rightarrow> nat set \<Rightarrow> bare \<Rightarrow> bare \<Rightarrow> bool" where
  "confined L S st st' \<longleftrightarrow> bare_ok L st' \<and> ba_free st' = ba_free st \<and> same_but S (ba_mmu st) (ba_mmu st')
     \<and> (\<forall>x. RAM_START \<le> x \<longrightarrow> x \<notin> S \<longrightarrow> mm_bytes (ba_mmu st') x = mm_bytes (ba_mmu st) x)"

lemma confined_refl: "bare_ok L st \<Longrightarrow> confined L S st st"
  by (simp add: confined_def)

lemma page_range_bad:
  "\<not> (0 < sz \<and> a mod BPAGE = 0 \<and> sz mod BPAGE = 0) \<Longrightarrow> \<exists>e. page_range a sz q = Inl e"
  by (auto simp: page_range_def r_bind_def ok_or_def split: option.splits sum.splits)

lemma commit_confined:
  assumes "owners_ok L (st, B)" "within_block b a sz B" "bare_commit L a sz st = (r, st')"
  shows "confined L (span (a, a + sz)) st st'"
proof (cases "0 < sz \<and> a mod BPAGE = 0 \<and> sz mod BPAGE = 0")
  case True
  have ok: "bare_ok L st" using assms(1) by (simp add: owners_ok_def)
  have own: "owned L a sz st" using owners_ok_inside [OF assms(1,2)] True by simp
  obtain st1 where "bare_commit L a sz st = (Inr (), st1)" "bare_ok L st1" "ba_free st1 = ba_free st"
    "same_but (span (a, a + sz)) (ba_mmu st) (ba_mmu st1)"
    "\<And>x. RAM_START \<le> x \<Longrightarrow> mm_bytes (ba_mmu st1) x = (if x \<in> span (a, a + sz) \<and> \<not> ba_valid st x then 0 else mm_bytes (ba_mmu st) x)"
    by (rule bare_commit_owned [OF ok own]) blast
  then show ?thesis using assms(3) by (auto simp: confined_def)
next
  case False
  then obtain e where "page_range a sz (heap_low L, heap_high L) = Inl e" using page_range_bad by blast
  then have "st' = st" using assms(3) by (simp add: bare_commit_def pages_commit_def)
  then show ?thesis using assms(1) by (simp add: confined_refl owners_ok_def)
qed

lemma decommit_confined:
  assumes "owners_ok L (st, B)" "within_block b a sz B" "bare_decommit L a sz st = (r, st')"
  shows "confined L (span (a, a + sz)) st st'"
proof (cases "0 < sz \<and> a mod BPAGE = 0 \<and> sz mod BPAGE = 0")
  case True
  have ok: "bare_ok L st" using assms(1) by (simp add: owners_ok_def)
  have own: "owned L a sz st" using owners_ok_inside [OF assms(1,2)] True by simp
  obtain st1 where "bare_decommit L a sz st = (Inr (), st1)" "bare_ok L st1" "ba_free st1 = ba_free st"
    "same_but (span (a, a + sz)) (ba_mmu st) (ba_mmu st1)" "mm_bytes (ba_mmu st1) = mm_bytes (ba_mmu st)"
    by (rule bare_decommit_owned [OF ok own]) blast
  then show ?thesis using assms(3) by (simp add: confined_def)
next
  case False
  then obtain e f where "page_range a sz (heap_low L, heap_high L) = Inl e" "page_range a sz (rodata_low L, rodata_high L) = Inl f"
    using page_range_bad by meson
  then have "st' = st" using assms(3) by (auto simp: bare_decommit_def pages_protect_def split: sum.splits)
  then show ?thesis using assms(1) by (simp add: confined_refl owners_ok_def)
qed

lemma protect_confined:
  assumes "owners_ok L (st, B)" "page_rounded n = Inr sz" "within_block b a sz B" "bare_map_protect L a n p st = (r, st')"
  shows "confined L (span (a, a + sz)) st st'"
proof (cases "a mod BPAGE = 0")
  case True
  have ok: "bare_ok L st" using assms(1) by (simp add: owners_ok_def)
  have "owned L a sz st" using owners_ok_inside [OF assms(1,3) True] page_rounded_Inr [OF assms(2)] by simp
  then show ?thesis using bare_map_protect_owned [OF ok assms(2) _ assms(4)] by (simp add: confined_def)
next
  case False
  then obtain e f where "page_range a sz (heap_low L, heap_high L) = Inl e" "page_range a sz (rodata_low L, rodata_high L) = Inl f"
    using page_range_bad by meson
  then have "st' = st" using assms(2,4) by (auto simp: bare_map_protect_def pages_protect_def split: sum.splits)
  then show ?thesis using assms(1) by (simp add: confined_refl owners_ok_def)
qed

lemma confined_owner:
  assumes "owners_ok L (st, B)" "confined L S st st'" "B b = Some n" "S \<subseteq> span (b, b + n)"
  shows "owners_ok L (st', B)" "\<And>c k. B c = Some k \<Longrightarrow> c \<noteq> b \<Longrightarrow> untouched (span (c, c + k)) st st'"
proof -
  have c: "bare_ok L st'" "ba_free st' = ba_free st" "same_but S (ba_mmu st) (ba_mmu st')"
    "\<And>x. RAM_START \<le> x \<Longrightarrow> x \<notin> S \<Longrightarrow> mm_bytes (ba_mmu st') x = mm_bytes (ba_mmu st) x"
    using assms(2) by (auto simp: confined_def)
  show "owners_ok L (st', B)" by (rule owners_ok_same [OF assms(1) c(1,2)])
  fix d k
  assume d: "B d = Some k" "d \<noteq> b"
  have "blocks_ok (heap_high L) B" "bare_ok L st" using assms(1) by (auto simp: owners_ok_def)
  then have "span (d, d + k) \<inter> span (b, b + n) = {}" using blocks_ok_disjoint d assms(3) by blast
  then have off: "span (d, d + k) \<inter> S = {}" using assms(4) by blast
  have ram: "span (d, d + k) \<subseteq> {RAM_START..}"
    using owners_ok_block [OF assms(1) d(1)] bare_okD(1) [OF \<open>bare_ok L st\<close>] by (auto simp: owned_def layout_ok_def span_def)
  show "untouched (span (d, d + k)) st st'"
    by (rule untouchedI [OF c(3) off ram]) (use c(4) off ram in auto)
qed

lemma took_untouched:
  assumes "owners_ok L (st, B)" "took L sz alignment a st st'" "B c = Some k"
    "\<And>x. x \<notin> span (a, a + sz) \<Longrightarrow> mm_bytes (ba_mmu st') x = mm_bytes (ba_mmu st) x"
  shows "untouched (span (c, c + k)) st st'" "c \<noteq> a"
proof -
  have off: "span (c, c + k) \<inter> span (a, a + sz) = {}" using missesD [OF owners_ok_take(2) [OF assms(1,2)] assms(3)] by blast
  have own: "owned L c k st" by (rule owners_ok_block [OF assms(1,3)])
  have ram: "span (c, c + k) \<subseteq> {RAM_START..}"
    using own assms(1) by (auto simp: owned_def owners_ok_def bare_ok_def layout_ok_def span_def)
  have "same_but (span (a, a + sz)) (ba_mmu st) (ba_mmu st')" using assms(2) by (simp add: took_def)
  then show "untouched (span (c, c + k)) st st'" by (rule untouchedI [OF _ off ram]) (use assms(4) off in auto)
  show "c \<noteq> a" using off own assms(2) by (auto simp: span_def owned_def took_def)
qed

lemma give_untouched:
  assumes "owners_ok L (st, B)" "B a = Some sz" "bare_give L a sz st = (d, st')" "B c = Some k" "c \<noteq> a"
  shows "untouched (span (c, c + k)) st st'"
proof -
  have ok: "bare_ok L st" "blocks_ok (heap_high L) B" using assms(1) by (auto simp: owners_ok_def)
  have off: "span (c, c + k) \<inter> span (a, a + sz) = {}" using blocks_ok_disjoint [OF ok(2) assms(4,2,5)] .
  have ram: "span (c, c + k) \<subseteq> {RAM_START..}"
    using owners_ok_block [OF assms(1,4)] bare_okD(1) [OF ok(1)] by (auto simp: owned_def layout_ok_def span_def)
  have "same_but (span (a, a + sz)) (ba_mmu st) (ba_mmu st')" "mm_bytes (ba_mmu st') = mm_bytes (ba_mmu st)"
    using bare_give_total [OF ok(1), of a sz] assms(3) by auto
  then show ?thesis by (intro untouchedI [OF _ off ram]) simp_all
qed

lemma owner_gives:
  assumes "owners_ok L (st, B)" "B a = Some sz" "(case bare_give L a sz st of (b, st) \<Rightarrow> (if b then Inr () else Inl Os, st)) = (r, st')"
  shows "owners_ok L (st', if r = Inr () then B(a := None) else B)
    \<and> (\<forall>c k. B c = Some k \<longrightarrow> c \<noteq> a \<longrightarrow> (if r = Inr () then B(a := None) else B) c = Some k \<and> untouched (span (c, c + k)) st st')"
proof -
  have ok: "bare_ok L st" using assms(1) by (simp add: owners_ok_def)
  obtain d where d: "bare_give L a sz st = (d, st')" "r = (if d then Inr () else Inl Os)"
    using assms(3) by (cases "bare_give L a sz st") auto
  have "\<not> d \<Longrightarrow> st' = st" using bare_give_total [OF ok, of a sz] d(1) by auto
  then show ?thesis using assms(1,2) d owners_ok_give [OF assms(1,2)] give_untouched [OF assms(1,2) d(1)] by (cases d) auto
qed

text \<open>
  One call of one owner: every byte of the heap stays free or owned once, and no other owner's pages
  or bytes change.
\<close>

lemma owner_step_safe:
  assumes "owner_step L b s s'" "owners_ok L s"
  shows "owners_ok L s' \<and> (\<forall>c k. snd s c = Some k \<longrightarrow> c \<noteq> b \<longrightarrow> snd s' c = Some k \<and> untouched (span (c, c + k)) (fst s) (fst s'))"
  using assms
proof (induction rule: owner_step.induct)
  case (reserve sz alignment st a st' B)
  have ok: "bare_ok L st" using reserve.prems by (simp add: owners_ok_def)
  have t: "took L sz alignment a st st'" "mm_bytes (ba_mmu st') = mm_bytes (ba_mmu st)"
    using bare_reserve_total [OF ok, of sz alignment] reserve by auto
  show ?case using owners_ok_take(1) [OF reserve.prems t(1)] took_untouched [OF reserve.prems t(1)] t(2) by simp
next
  case (reserve_refused sz alignment st e st' B)
  have "bare_ok L st" using reserve_refused.prems by (simp add: owners_ok_def)
  then have "st' = st" using bare_reserve_total [of L st sz alignment] reserve_refused by auto
  then show ?case using reserve_refused.prems by (simp add: untouched_def)
next
  case (map_memory n p st a st' sz B)
  have ok: "bare_ok L st" using map_memory.prems by (simp add: owners_ok_def)
  have t: "took L sz BPAGE a st st'" "mm_bytes (ba_mmu st') = write_zeros a sz (mm_bytes (ba_mmu st))"
    using bare_map_allocate_total [OF ok, of n p] map_memory by auto
  have "mm_bytes (ba_mmu st') x = mm_bytes (ba_mmu st) x" if "x \<notin> span (a, a + sz)" for x
    using that t(2) by (auto simp: write_zeros_def span_def)
  then show ?case using owners_ok_take(1) [OF map_memory.prems t(1)] took_untouched [OF map_memory.prems t(1)] by simp
next
  case (map_refused n p st e st' B)
  have "bare_ok L st" using map_refused.prems by (simp add: owners_ok_def)
  then have "st' = st" using bare_map_allocate_total [of L st n p] map_refused by auto
  then show ?case using map_refused.prems by (simp add: untouched_def)
next
  case (commit b a sz B st r st')
  then obtain n where n: "B b = Some n" "span (a, a + sz) \<subseteq> span (b, b + n)" using within_block_span by blast
  show ?case using confined_owner [OF commit.prems commit_confined [OF commit.prems commit.hyps] n] by simp
next
  case (decommit b a sz B st r st')
  then obtain n where n: "B b = Some n" "span (a, a + sz) \<subseteq> span (b, b + n)" using within_block_span by blast
  show ?case using confined_owner [OF decommit.prems decommit_confined [OF decommit.prems decommit.hyps] n] by simp
next
  case (protect n sz b a B p st r st')
  then obtain k where k: "B b = Some k" "span (a, a + sz) \<subseteq> span (b, b + k)" using within_block_span by blast
  show ?case using confined_owner [OF protect.prems protect_confined [OF protect.prems protect.hyps] k] by simp
next
  case (release B a sz st r st')
  then show ?case using owner_gives [OF release.prems release.hyps(1), of r st'] by (simp add: bare_release_def split: prod.splits)
next
  case (unmap n sz B a st r st')
  then show ?case using owner_gives [OF unmap.prems unmap.hyps(2), of r st'] by (simp add: bare_map_release_def split: prod.splits)
next
  case (store B b n x st v)
  let ?st = "st\<lparr>ba_mmu := (ba_mmu st)\<lparr>mm_bytes := (mm_bytes (ba_mmu st))(x := v)\<rparr>\<rparr>"
  have "bare_ok L st" using store.prems by (simp add: owners_ok_def)
  then have "confined L {x} st ?st" by (simp add: confined_def bare_ok_def page_valid_def same_but_def)
  then show ?case using confined_owner [OF store.prems _ store.hyps(1), of "{x}" ?st] store.hyps(2) by simp
qed

text \<open>All runs from the boot path on.\<close>

inductive owners_reach :: "layout \<Rightarrow> mmu \<Rightarrow> bare \<times> blocks \<Rightarrow> bool" for L m where
  boot: "bare_init L m = Some st \<Longrightarrow> owners_reach L m (st, Map.empty)"
| more: "owners_reach L m s \<Longrightarrow> owner_step L b s s' \<Longrightarrow> owners_reach L m s'"

lemma owners_boot:
  assumes "layout_ok L" "heap_low L < heap_high L" "bare_init L m = Some st"
  shows "owners_ok L (st, Map.empty)"
proof -
  obtain st' where "bare_init L m = Some st'" "bare_ok L st'" "ba_free st' = {heap_low L..<heap_high L}"
    by (rule bare_init_ok [OF assms(1,2)])
  then show ?thesis using assms(3) by (simp add: owners_ok_def blocks_ok_def held_def)
qed

lemma owners_reach_ok:
  assumes "owners_reach L m s" "layout_ok L" "heap_low L < heap_high L"
  shows "owners_ok L s"
  using assms(1)
proof induction
  case (boot st)
  then show ?case by (rule owners_boot [OF assms(2,3)])
next
  case (more s b s')
  then show ?case using owner_step_safe by blast
qed

lemma bare_vm_simps [simp]:
  "vm_page_size (bare_vm L) = BPAGE"
  "vm_reserve_fn (bare_vm L) = (\<lambda>sz alignment st. case bare_reserve L sz alignment st of Some r \<Rightarrow> r | None \<Rightarrow> (Inl Os, st))"
  by (simp_all add: bare_vm_def)

lemma took_unbroken:
  assumes "bare_ok L st" "took L sz alignment a st st'"
  shows "\<not> broken_block a sz alignment"
proof -
  have t: "span (a, a + sz) \<subseteq> ba_free st" "0 < sz" "alignment dvd a" using assms(2) by (auto simp: took_def)
  note w = free_within [OF assms(1) t(1,2)]
  have "heap_high L \<le> USIZE_MAX" using bare_okD(1) [OF assms(1)] by (simp add: layout_ok_def RAM_START_def RAM_PAGES_def BPAGE_def width_simps)
  then show ?thesis using t(3) w by (simp add: broken_block_def checked_add_def RAM_START_def)
qed

end
