(* ===== verification/Bare_Heap.thy ===== *)
theory Bare_Heap
  imports Bare_Memory
begin

text \<open>
  The native helper heap of the bare-metal port and the Rust global allocator over it (\<open>NativeHeap\<close>
  and \<open>PortAllocator\<close> of \<open>src/examples/baremetal-aarch64/src/memory.rs\<close>). A 64 MiB slice of the RAM
  region is a sequence of blocks, each with a 16-byte header in memory in front of its payload. The
  model works on the bytes: a header is the two little-endian words at its address, so what a caller
  writes and what the allocator reads is the same memory.
\<close>

section \<open>Words in memory\<close>

definition load64 :: "memory \<Rightarrow> nat \<Rightarrow> nat" where
  "load64 m a = (\<Sum>i<8. unat (m (a + i)) * 256 ^ i)"

definition store64 :: "nat \<Rightarrow> nat \<Rightarrow> memory \<Rightarrow> memory" where
  "store64 a v m = (\<lambda>x. if a \<le> x \<and> x < a + 8 then of_nat (v div 256 ^ (x - a)) else m x)"

section \<open>Model\<close>

definition NATIVE_HEAP_BYTES :: nat where "NATIVE_HEAP_BYTES = 64 * 1024 * 1024"
definition BLOCK_HEADER :: nat where "BLOCK_HEADER = 16"
definition GRAIN :: nat where "GRAIN = 16"

record hblock =
  hb_size :: nat
  hb_free :: nat

definition read_head :: "memory \<Rightarrow> nat \<Rightarrow> hblock" where
  "read_head m a = \<lparr>hb_size = load64 m a, hb_free = load64 m (a + 8)\<rparr>"

definition write_head :: "nat \<Rightarrow> hblock \<Rightarrow> memory \<Rightarrow> memory" where
  "write_head a b m = store64 (a + 8) (hb_free b) (store64 a (hb_size b) m)"

record heap =
  he_start :: nat
  he_end :: nat
  he_bare :: bare

abbreviation he_bytes :: "heap \<Rightarrow> memory" where
  "he_bytes h \<equiv> mm_bytes (ba_mmu (he_bare h))"

definition put_bytes :: "memory \<Rightarrow> heap \<Rightarrow> heap" where
  "put_bytes m h = h\<lparr>he_bare := (he_bare h)\<lparr>ba_mmu := (ba_mmu (he_bare h))\<lparr>mm_bytes := m\<rparr>\<rparr>\<rparr>"

text \<open>\<open>heap_ready\<close>: the slice is taken on first use; a failed assertion of \<open>take\<close> is \<open>None\<close>.\<close>

definition heap_ready :: "layout \<Rightarrow> heap \<Rightarrow> ((nat \<times> nat) result \<times> heap) option" where
  "heap_ready L h =
     (if he_start h = 0 then
        (case bare_take L NATIVE_HEAP_BYTES BPAGE (he_bare h) of
           None \<Rightarrow> None
         | Some (None, st) \<Rightarrow> Some (Inl OutOfMemory, h\<lparr>he_bare := st\<rparr>)
         | Some (Some start, st) \<Rightarrow>
             let h' = put_bytes (write_head start \<lparr>hb_size = NATIVE_HEAP_BYTES - BLOCK_HEADER, hb_free = 1\<rparr> (mm_bytes (ba_mmu st)))
                        \<lparr>he_start = start, he_end = start + NATIVE_HEAP_BYTES, he_bare = st\<rparr> in
             Some (Inr (he_start h', he_end h'), h'))
      else Some (Inr (he_start h, he_end h), h))"

text \<open>The inner loop: free neighbours that follow are merged into the block, header by header.\<close>

function merge_loop :: "nat \<Rightarrow> nat \<Rightarrow> hblock \<Rightarrow> memory \<Rightarrow> hblock \<times> memory" where
  "merge_loop address past current m =
     (let adjacent = address + BLOCK_HEADER + hb_size current in
      if past \<le> adjacent then (current, m)
      else
        let following = read_head m adjacent in
        if hb_free following \<noteq> 1 then (current, m)
        else
          let current = current\<lparr>hb_size := hb_size current + (BLOCK_HEADER + hb_size following)\<rparr> in
          merge_loop address past current (write_head address current m))"
  by pat_completeness auto
termination by (relation "measure (\<lambda>(address, past, current, m). past - (address + BLOCK_HEADER + hb_size current))")
    (auto simp: BLOCK_HEADER_def)

declare merge_loop.simps [simp del]

text \<open>The search: first fit over the blocks, splitting what is left over when it can hold a block.\<close>

function heap_walk :: "nat \<Rightarrow> nat \<Rightarrow> nat \<Rightarrow> bool \<Rightarrow> memory \<Rightarrow> nat option \<times> memory" where
  "heap_walk address past wanted zero_it m =
     (if address < past then
        let current = read_head m address in
        if hb_free current = 1 then
          let (current, m) = merge_loop address past current m in
          if wanted \<le> hb_size current then
            let (current, m) =
                  (if wanted + BLOCK_HEADER + GRAIN \<le> hb_size current
                   then (current\<lparr>hb_size := wanted\<rparr>,
                         write_head (address + BLOCK_HEADER + wanted) \<lparr>hb_size = hb_size current - wanted - BLOCK_HEADER, hb_free = 1\<rparr> m)
                   else (current, m));
                current = current\<lparr>hb_free := 0\<rparr>;
                m = write_head address current m;
                payload = address + BLOCK_HEADER in
            (Some payload, if zero_it then write_zeros payload (hb_size current) m else m)
          else heap_walk (address + BLOCK_HEADER + hb_size current) past wanted zero_it m
        else heap_walk (address + BLOCK_HEADER + hb_size current) past wanted zero_it m
      else (None, m))"
  by pat_completeness auto
termination by (relation "measure (\<lambda>(address, past, _). past - address)") (auto simp: BLOCK_HEADER_def)

declare heap_walk.simps [simp del]

definition native_allocate :: "layout \<Rightarrow> nat \<Rightarrow> bool \<Rightarrow> heap \<Rightarrow> (nat result \<times> heap) option" where
  "native_allocate L sz zero_it h =
     (case heap_ready L h of
        None \<Rightarrow> None
      | Some (Inl e, h) \<Rightarrow> Some (Inl e, h)
      | Some (Inr (start, past), h) \<Rightarrow>
          (case heap_walk start past (round_up sz GRAIN) zero_it (he_bytes h) of
             (Some payload, m) \<Rightarrow> Some (Inr payload, put_bytes m h)
           | (None, m) \<Rightarrow> Some (Inl OutOfMemory, put_bytes m h)))"

definition native_release :: "layout \<Rightarrow> nat \<Rightarrow> heap \<Rightarrow> (unit result \<times> heap) option" where
  "native_release L address h =
     (if address = 0 then Some (Inr (), h)
      else case heap_ready L h of
          None \<Rightarrow> None
        | Some (Inl e, h) \<Rightarrow> Some (Inl e, h)
        | Some (Inr (start, past), h) \<Rightarrow>
            if address < start + BLOCK_HEADER \<or> past \<le> address \<or> address mod GRAIN \<noteq> 0 then Some (Inl InvalidArgument, h)
            else
              let current = read_head (he_bytes h) (address - BLOCK_HEADER) in
              if hb_free current \<noteq> 0 then Some (Inl InvalidArgument, h)
              else Some (Inr (), put_bytes (write_head (address - BLOCK_HEADER) (current\<lparr>hb_free := 1\<rparr>) (he_bytes h)) h))"

text \<open>\<open>copy_nonoverlapping\<close> of bytes.\<close>

definition copy_bytes :: "nat \<Rightarrow> nat \<Rightarrow> nat \<Rightarrow> memory \<Rightarrow> memory" where
  "copy_bytes src dst n m = (\<lambda>x. if dst \<le> x \<and> x < dst + n then m (src + (x - dst)) else m x)"

definition native_resize :: "layout \<Rightarrow> nat \<Rightarrow> nat \<Rightarrow> heap \<Rightarrow> (nat result \<times> heap) option" where
  "native_resize L address sz h =
     (if address = 0 then native_allocate L sz False h
      else case heap_ready L h of
          None \<Rightarrow> None
        | Some (Inl e, h) \<Rightarrow> Some (Inl e, h)
        | Some (Inr (start, past), h) \<Rightarrow>
            if address < start + BLOCK_HEADER \<or> past \<le> address \<or> address mod GRAIN \<noteq> 0 then Some (Inl InvalidArgument, h)
            else
              let old = read_head (he_bytes h) (address - BLOCK_HEADER) in
              if hb_free old \<noteq> 0 then Some (Inl InvalidArgument, h)
              else if round_up sz GRAIN \<le> hb_size old then Some (Inr address, h)
              else case native_allocate L sz False h of
                  None \<Rightarrow> None
                | Some (Inl e, h) \<Rightarrow> Some (Inl e, h)
                | Some (Inr fresh, h) \<Rightarrow>
                    (case native_release L address (put_bytes (copy_bytes address fresh (min (hb_size old) sz) (he_bytes h)) h) of
                       None \<Rightarrow> None
                     | Some (Inl e, h) \<Rightarrow> Some (Inl e, h)
                     | Some (Inr _, h) \<Rightarrow> Some (Inr fresh, h)))"

subsection \<open>The global allocator\<close>

text \<open>A layout is a size and an alignment; NULL is 0. \<open>next_multiple_of\<close> rounds up to a multiple.\<close>

definition WORD_SIZE :: nat where "WORD_SIZE = 8"

definition next_multiple_of :: "nat \<Rightarrow> nat \<Rightarrow> nat" where
  "next_multiple_of x k = (if x mod k = 0 then x else x + (k - x mod k))"

definition or_null :: "(nat result \<times> heap) option \<Rightarrow> (nat \<times> heap) option" where
  "or_null r = map_option (\<lambda>(x, h). (case x of Inl _ \<Rightarrow> 0 | Inr p \<Rightarrow> p, h)) r"

definition port_alloc :: "layout \<Rightarrow> nat \<Rightarrow> nat \<Rightarrow> heap \<Rightarrow> (nat \<times> heap) option" where
  "port_alloc L sz align h =
     (if align \<le> GRAIN then or_null (native_allocate L (max sz 1) False h)
      else case Option.bind (checked_add sz align) (\<lambda>n. checked_add n WORD_SIZE) of
          None \<Rightarrow> Some (0, h)
        | Some whole \<Rightarrow>
            (case native_allocate L whole False h of
               None \<Rightarrow> None
             | Some (Inl _, h) \<Rightarrow> Some (0, h)
             | Some (Inr block, h) \<Rightarrow>
                 let aligned = next_multiple_of (block + WORD_SIZE) align in
                 Some (aligned, put_bytes (store64 (aligned - WORD_SIZE) block (he_bytes h)) h)))"

definition port_dealloc :: "layout \<Rightarrow> nat \<Rightarrow> nat \<Rightarrow> nat \<Rightarrow> heap \<Rightarrow> heap option" where
  "port_dealloc L address sz align h =
     (let block = (if align \<le> GRAIN then address else load64 (he_bytes h) (address - WORD_SIZE)) in
      map_option snd (native_release L block h))"

definition port_realloc :: "layout \<Rightarrow> nat \<Rightarrow> nat \<Rightarrow> nat \<Rightarrow> nat \<Rightarrow> heap \<Rightarrow> (nat \<times> heap) option" where
  "port_realloc L address old align sz h =
     (if align \<le> GRAIN then or_null (native_resize L address (max sz 1) h)
      else if ISIZE_MAX - (align - 1) < sz then Some (0, h)
      else case port_alloc L sz align h of
          None \<Rightarrow> None
        | Some (fresh, h) \<Rightarrow>
            if fresh = 0 then Some (0, h)
            else map_option (Pair fresh) (port_dealloc L address old align (put_bytes (copy_bytes address fresh (min old sz) (he_bytes h)) h)))"

section \<open>Words in memory read back\<close>

lemma digits_sum: "(\<Sum>i<n. (v div 256 ^ i mod 256) * 256 ^ i) = v mod (256 :: nat) ^ n"
proof (induction n)
  case (Suc n)
  have "v mod 256 ^ Suc n = v mod 256 ^ n + 256 ^ n * (v div 256 ^ n mod 256)"
    by (simp only: power_Suc2 mod_mult2_eq add.commute)
  then show ?case using Suc by simp
qed simp

lemma load_store [simp]: "v < 2 ^ 64 \<Longrightarrow> load64 (store64 a v m) a = v"
  using digits_sum [where v = v and n = 8] by (simp add: load64_def store64_def unat_of_nat)

lemma load64_cong:
  assumes "\<And>x. a \<le> x \<Longrightarrow> x < a + 8 \<Longrightarrow> m' x = m x"
  shows "load64 m' a = load64 m a"
  unfolding load64_def by (intro sum.cong) (use assms in auto)

lemma store64_other: "\<not> (a \<le> x \<and> x < a + 8) \<Longrightarrow> store64 a v m x = m x"
  by (auto simp: store64_def)

lemma read_head_cong:
  assumes "\<And>x. a \<le> x \<Longrightarrow> x < a + 16 \<Longrightarrow> m' x = m x"
  shows "read_head m' a = read_head m a"
  unfolding read_head_def using load64_cong [of a m' m] load64_cong [of "a + 8" m' m] assms by simp

lemma write_head_other: "\<not> (a \<le> x \<and> x < a + 16) \<Longrightarrow> write_head a b m x = m x"
  by (auto simp: write_head_def store64_def)

lemma read_write_head [simp]:
  assumes "hb_size b < 2 ^ 64" "hb_free b < 2 ^ 64"
  shows "read_head (write_head a b m) a = (b :: hblock)"
proof -
  have "load64 (write_head a b m) a = load64 (store64 a (hb_size b) m) a"
    unfolding write_head_def by (rule load64_cong) (simp add: store64_def)
  then show ?thesis using assms unfolding read_head_def by (simp add: write_head_def)
qed

section \<open>The blocks as a list\<close>

text \<open>A heap from one address to another as the list of its blocks: payload size, and whether it is free.\<close>

type_synonym tiling = "(nat \<times> bool) list"

fun tiles :: "memory \<Rightarrow> nat \<Rightarrow> nat \<Rightarrow> tiling \<Rightarrow> bool" where
  "tiles m a e [] \<longleftrightarrow> a = e"
| "tiles m a e ((n, f) # bs) \<longleftrightarrow> read_head m a = \<lparr>hb_size = n, hb_free = of_bool f\<rparr> \<and> n mod GRAIN = 0
     \<and> tiles m (a + BLOCK_HEADER + n) e bs"

fun free_area :: "nat \<Rightarrow> tiling \<Rightarrow> nat set" where
  "free_area a [] = {}"
| "free_area a ((n, f) # bs) = (if f then {a..<a + BLOCK_HEADER + n} else {}) \<union> free_area (a + BLOCK_HEADER + n) bs"

fun live_from :: "nat \<Rightarrow> tiling \<Rightarrow> blocks" where
  "live_from a [] = Map.empty"
| "live_from a ((n, f) # bs) = (if f then live_from (a + BLOCK_HEADER + n) bs else (live_from (a + BLOCK_HEADER + n) bs)(a + BLOCK_HEADER \<mapsto> n))"

text \<open>The search on lists: what the loop over headers computes.\<close>

fun merge_list :: "nat \<Rightarrow> tiling \<Rightarrow> nat \<times> tiling" where
  "merge_list c [] = (c, [])"
| "merge_list c ((n, f) # bs) = (if f then merge_list (c + (BLOCK_HEADER + n)) bs else (c, (n, f) # bs))"

lemma merge_list_length: "length (snd (merge_list c bs)) \<le> length bs"
  by (induction c bs rule: merge_list.induct) auto

function alloc_list :: "nat \<Rightarrow> tiling \<Rightarrow> nat option \<times> tiling" where
  "alloc_list w [] = (None, [])"
| "alloc_list w ((n, f) # bs) =
     (if f then
        let (c, rest) = merge_list n bs in
        if w \<le> c then (Some 0, if w + BLOCK_HEADER + GRAIN \<le> c then (w, False) # (c - w - BLOCK_HEADER, True) # rest else (c, False) # rest)
        else (case alloc_list w rest of (r, rest') \<Rightarrow> (map_option ((+) (BLOCK_HEADER + c)) r, (c, True) # rest'))
      else (case alloc_list w bs of (r, bs') \<Rightarrow> (map_option ((+) (BLOCK_HEADER + n)) r, (n, f) # bs')))"
  by pat_completeness auto
termination
proof (relation "measure (\<lambda>(_, bs). length bs)", goal_cases)
  case (2 w n f bs x c rest)
  then show ?case using merge_list_length [of n bs] by (metis in_measure le_imp_less_Suc length_Cons prod.case snd_conv)
qed auto

declare alloc_list.simps [simp del]

lemma tiles_le: "tiles m a e bs \<Longrightarrow> a \<le> e"
  by (induction m a e bs rule: tiles.induct) auto

lemma tiles_cong:
  assumes "tiles m a e bs" "\<And>x. a \<le> x \<Longrightarrow> x < e \<Longrightarrow> m' x = m x"
  shows "tiles m' a e bs"
  using assms
proof (induction m a e bs rule: tiles.induct)
  case (2 m a e n f bs)
  have "a + BLOCK_HEADER + n \<le> e" using 2(2) tiles_le by auto
  moreover from this have "read_head m' a = read_head m a" using 2(3) by (intro read_head_cong) (auto simp: BLOCK_HEADER_def)
  moreover have "tiles m' (a + BLOCK_HEADER + n) e bs" using 2 by simp
  ultimately show ?case using 2(2) by simp
qed simp

lemma free_area_bounds: "tiles m a e bs \<Longrightarrow> free_area a bs \<subseteq> {a..<e}"
proof (induction m a e bs rule: tiles.induct)
  case (2 m a e n f bs)
  then show ?case using tiles_le [of m "a + BLOCK_HEADER + n" e bs] by auto
qed simp

lemma live_bounds: "tiles m a e bs \<Longrightarrow> live_from a bs p = Some n \<Longrightarrow> a + BLOCK_HEADER \<le> p \<and> p + n \<le> e"
proof (induction m a e bs rule: tiles.induct)
  case (2 m a e k f bs)
  then show ?case using tiles_le [of m "a + BLOCK_HEADER + k" e bs] by (auto split: if_splits)
qed simp

section \<open>The loops compute the list functions\<close>

lemma merge_list_grows: "c \<le> fst (merge_list c bs)"
  by (induction c bs rule: merge_list.induct) (auto split: if_splits)

definition merged :: "nat \<Rightarrow> nat \<Rightarrow> hblock \<times> memory \<Rightarrow> nat \<Rightarrow> tiling \<Rightarrow> memory \<Rightarrow> bool" where
  "merged a e r c rest m \<longleftrightarrow> (\<exists>m'. r = (\<lparr>hb_size = c, hb_free = 1\<rparr>, m') \<and> read_head m' a = \<lparr>hb_size = c, hb_free = 1\<rparr>
     \<and> tiles m' (a + BLOCK_HEADER + c) e rest \<and> c mod GRAIN = 0 \<and> (\<forall>x. \<not> (a \<le> x \<and> x < a + BLOCK_HEADER) \<longrightarrow> m' x = m x))"

lemma mergedI:
  "read_head m' a = \<lparr>hb_size = c, hb_free = 1\<rparr> \<Longrightarrow> tiles m' (a + BLOCK_HEADER + c) e rest \<Longrightarrow> c mod GRAIN = 0 \<Longrightarrow>
    (\<And>x. \<not> (a \<le> x \<and> x < a + BLOCK_HEADER) \<Longrightarrow> m' x = m x) \<Longrightarrow> merged a e (\<lparr>hb_size = c, hb_free = 1\<rparr>, m') c rest m"
  by (simp add: merged_def)

lemma mergedE:
  assumes "merged a e r c rest m"
  obtains m' where "r = (\<lparr>hb_size = c, hb_free = 1\<rparr>, m')" "read_head m' a = \<lparr>hb_size = c, hb_free = 1\<rparr>"
    "tiles m' (a + BLOCK_HEADER + c) e rest" "c mod GRAIN = 0" "\<forall>x. \<not> (a \<le> x \<and> x < a + BLOCK_HEADER) \<longrightarrow> m' x = m x"
proof -
  from assms [unfolded merged_def] obtain m' where "r = (\<lparr>hb_size = c, hb_free = 1\<rparr>, m') \<and> read_head m' a = \<lparr>hb_size = c, hb_free = 1\<rparr>
     \<and> tiles m' (a + BLOCK_HEADER + c) e rest \<and> c mod GRAIN = 0 \<and> (\<forall>x. \<not> (a \<le> x \<and> x < a + BLOCK_HEADER) \<longrightarrow> m' x = m x)" by (rule exE)
  then show thesis by (elim conjE) (rule that)
qed

lemma merged_frame:
  "merged a e r c rest m' \<Longrightarrow> (\<And>x. \<not> (a \<le> x \<and> x < a + BLOCK_HEADER) \<Longrightarrow> m' x = m x) \<Longrightarrow> merged a e r c rest m"
  unfolding merged_def by auto

lemma merge_loop_spec:
  assumes "read_head m a = \<lparr>hb_size = c, hb_free = 1\<rparr>" "tiles m (a + BLOCK_HEADER + c) e bs" "c mod GRAIN = 0" "e < 2 ^ 64"
  shows "merged a e (merge_loop a e \<lparr>hb_size = c, hb_free = 1\<rparr> m) (fst (merge_list c bs)) (snd (merge_list c bs)) m"
  using assms
proof (induction bs arbitrary: c m)
  case Nil
  then have "merge_loop a e \<lparr>hb_size = c, hb_free = 1\<rparr> m = (\<lparr>hb_size = c, hb_free = 1\<rparr>, m)"
    by (subst merge_loop.simps) simp
  then show ?case using Nil by (simp add: mergedI del: One_nat_def)
next
  case (Cons b bs)
  obtain n f where b: "b = (n, f)" by force
  let ?adj = "a + BLOCK_HEADER + c"
  have head: "read_head m ?adj = \<lparr>hb_size = n, hb_free = of_bool f\<rparr>" and n: "n mod GRAIN = 0" and rest: "tiles m (?adj + BLOCK_HEADER + n) e bs"
    using Cons.prems(2) b by auto
  have lt: "?adj < e" "?adj + BLOCK_HEADER + n \<le> e" using tiles_le [OF rest] by (auto simp: BLOCK_HEADER_def)
  show ?case
  proof (cases f)
    case False
    then have "merge_loop a e \<lparr>hb_size = c, hb_free = 1\<rparr> m = (\<lparr>hb_size = c, hb_free = 1\<rparr>, m)"
      using head lt by (subst merge_loop.simps) simp
    then show ?thesis using Cons.prems b False by (simp add: mergedI del: One_nat_def)
  next
    case True
    let ?c = "c + (BLOCK_HEADER + n)"
    let ?m = "write_head a \<lparr>hb_size = ?c, hb_free = 1\<rparr> m"
    have step: "merge_loop a e \<lparr>hb_size = c, hb_free = 1\<rparr> m = merge_loop a e \<lparr>hb_size = ?c, hb_free = 1\<rparr> ?m"
      using head lt True by (subst merge_loop.simps) (simp add: Let_def)
    have small: "?c < 2 ^ 64" using lt Cons.prems(4) by linarith
    have r: "read_head ?m a = \<lparr>hb_size = ?c, hb_free = 1\<rparr>" using small by (intro read_write_head) simp_all
    have "tiles m (a + BLOCK_HEADER + ?c) e bs" using rest by (simp add: add.assoc)
    then have t: "tiles ?m (a + BLOCK_HEADER + ?c) e bs"
      by (rule tiles_cong) (simp add: write_head_other BLOCK_HEADER_def)
    have c: "?c mod GRAIN = 0" using Cons.prems(3) n by (simp add: BLOCK_HEADER_def GRAIN_def mod_eq_0_iff_dvd)
    have "merged a e (merge_loop a e \<lparr>hb_size = c, hb_free = 1\<rparr> m) (fst (merge_list ?c bs)) (snd (merge_list ?c bs)) m"
      unfolding step by (rule merged_frame [OF Cons.IH [OF r t c Cons.prems(4)]]) (simp add: write_head_other BLOCK_HEADER_def)
    then show ?thesis using b True by simp
  qed
qed

text \<open>Merging keeps what is live and what is free.\<close>

lemma merge_list_area:
  "free_area a ((fst (merge_list c bs), True) # snd (merge_list c bs)) = free_area a ((c, True) # bs)
   \<and> live_from a ((fst (merge_list c bs), True) # snd (merge_list c bs)) = live_from a ((c, True) # bs)"
proof (induction c bs rule: merge_list.induct)
  case (2 c n f bs)
  show ?case
  proof (cases f)
    case True
    have "{a..<a + BLOCK_HEADER + c} \<union> {a + BLOCK_HEADER + c..<a + BLOCK_HEADER + c + BLOCK_HEADER + n} = {a..<a + BLOCK_HEADER + c + BLOCK_HEADER + n}"
      by (intro ivl_disj_un_two(3)) simp_all
    moreover have assoc: "a + BLOCK_HEADER + (c + (BLOCK_HEADER + n)) = a + BLOCK_HEADER + c + BLOCK_HEADER + n" by simp
    ultimately show ?thesis using "2.IH" [OF True] True
      by (simp only: merge_list.simps free_area.simps live_from.simps if_True assoc Un_assoc [symmetric])
  qed simp
qed simp

definition walked :: "nat \<Rightarrow> nat \<Rightarrow> bool \<Rightarrow> tiling \<Rightarrow> memory \<Rightarrow> nat option \<times> tiling \<Rightarrow> nat option \<times> memory \<Rightarrow> bool" where
  "walked a e z bs m new res \<longleftrightarrow> (\<exists>m'. res = (map_option (\<lambda>d. a + d + BLOCK_HEADER) (fst new), m') \<and> tiles m' a e (snd new)
     \<and> (\<forall>x. x \<notin> free_area a bs \<longrightarrow> m' x = m x)
     \<and> (z \<longrightarrow> (\<forall>d. fst new = Some d \<longrightarrow> (\<exists>n. live_from a (snd new) (a + d + BLOCK_HEADER) = Some n
           \<and> (\<forall>x. a + d + BLOCK_HEADER \<le> x \<and> x < a + d + BLOCK_HEADER + n \<longrightarrow> m' x = 0)))))"

lemma walked_frame:
  assumes "walked a e z bs m new res" "free_area a bs = free_area a bs'" "\<And>x. x \<notin> free_area a bs' \<Longrightarrow> m x = m' x"
  shows "walked a e z bs' m' new res"
  using assms unfolding walked_def by (elim exE) (rule exI, auto)

text \<open>Passing a block: its header stays, and the rest of the walk is behind it.\<close>

lemma walked_skip:
  assumes w: "walked (a + BLOCK_HEADER + c) e z bs m new res" and h: "read_head m a = \<lparr>hb_size = c, hb_free = of_bool f\<rparr>" "c mod GRAIN = 0"
    and t: "tiles m (a + BLOCK_HEADER + c) e bs"
  shows "walked a e z ((c, f) # bs) m (map_option ((+) (BLOCK_HEADER + c)) (fst new), (c, f) # snd new) res"
proof -
  obtain m' where m': "res = (map_option (\<lambda>d. a + BLOCK_HEADER + c + d + BLOCK_HEADER) (fst new), m')" "tiles m' (a + BLOCK_HEADER + c) e (snd new)"
    "\<And>x. x \<notin> free_area (a + BLOCK_HEADER + c) bs \<Longrightarrow> m' x = m x"
    and zeros: "\<And>d. z \<Longrightarrow> fst new = Some d \<Longrightarrow> \<exists>n. live_from (a + BLOCK_HEADER + c) (snd new) (a + BLOCK_HEADER + c + d + BLOCK_HEADER) = Some n
           \<and> (\<forall>x. a + BLOCK_HEADER + c + d + BLOCK_HEADER \<le> x \<and> x < a + BLOCK_HEADER + c + d + BLOCK_HEADER + n \<longrightarrow> m' x = 0)"
    using w unfolding walked_def by blast
  have "read_head m' a = read_head m a"
    by (rule read_head_cong, rule m'(3)) (use free_area_bounds [OF t] in \<open>auto simp: BLOCK_HEADER_def\<close>)
  then have tiles: "tiles m' a e ((c, f) # snd new)" using h m'(2) by simp
  have shift: "a + (BLOCK_HEADER + c + d) + BLOCK_HEADER = a + BLOCK_HEADER + c + d + BLOCK_HEADER" for d by simp
  show ?thesis unfolding walked_def fst_conv snd_conv
  proof (rule exI [of _ m'], intro conjI allI impI)
    show "res = (map_option (\<lambda>d. a + d + BLOCK_HEADER) (map_option ((+) (BLOCK_HEADER + c)) (fst new)), m')"
      unfolding m'(1) by (cases "fst new") (simp_all add: shift)
    show "tiles m' a e ((c, f) # snd new)" by (rule tiles)
    show "m' x = m x" if "x \<notin> free_area a ((c, f) # bs)" for x using that m'(3) [of x] by simp
    fix d
    assume "z" "map_option ((+) (BLOCK_HEADER + c)) (fst new) = Some d"
    then obtain d' where d: "fst new = Some d'" "d = BLOCK_HEADER + c + d'" by auto
    obtain n where n: "live_from (a + BLOCK_HEADER + c) (snd new) (a + BLOCK_HEADER + c + d' + BLOCK_HEADER) = Some n"
      "\<And>x. a + BLOCK_HEADER + c + d' + BLOCK_HEADER \<le> x \<Longrightarrow> x < a + BLOCK_HEADER + c + d' + BLOCK_HEADER + n \<Longrightarrow> m' x = 0"
      using zeros [OF \<open>z\<close> d(1)] by blast
    have "a + BLOCK_HEADER + c + d' + BLOCK_HEADER \<noteq> a + BLOCK_HEADER" by (simp add: BLOCK_HEADER_def)
    then have "live_from a ((c, f) # snd new) (a + BLOCK_HEADER + c + d' + BLOCK_HEADER) = Some n"
      unfolding live_from.simps using n(1) by (cases f) (simp_all only: if_True if_False fun_upd_other simp_thms)
    then show "\<exists>n. live_from a ((c, f) # snd new) (a + d + BLOCK_HEADER) = Some n
        \<and> (\<forall>x. a + d + BLOCK_HEADER \<le> x \<and> x < a + d + BLOCK_HEADER + n \<longrightarrow> m' x = 0)"
      unfolding d(2) shift using n(2) by blast
  qed
qed

text \<open>Taking a free block: with the tail split off, or whole.\<close>

definition taken :: "nat \<Rightarrow> nat \<Rightarrow> nat \<Rightarrow> bool \<Rightarrow> memory \<Rightarrow> nat option \<times> memory" where
  "taken a c w z m =
     (let (current, m) =
            (if w + BLOCK_HEADER + GRAIN \<le> c then (\<lparr>hb_size = w, hb_free = 1\<rparr>, write_head (a + BLOCK_HEADER + w) \<lparr>hb_size = c - w - BLOCK_HEADER, hb_free = 1\<rparr> m)
             else (\<lparr>hb_size = c, hb_free = 1\<rparr>, m));
          m = write_head a \<lparr>hb_size = hb_size current, hb_free = 0\<rparr> m in
      (Some (a + BLOCK_HEADER), if z then write_zeros (a + BLOCK_HEADER) (hb_size current) m else m))"

lemma walked_take:
  assumes h: "read_head m a = \<lparr>hb_size = c, hb_free = 1\<rparr>" "c mod GRAIN = 0" and t: "tiles m (a + BLOCK_HEADER + c) e rest"
    and w: "w \<le> c" "w mod GRAIN = 0" and e: "e < 2 ^ 64"
  shows "walked a e z ((c, True) # rest) m
    (Some 0, if w + BLOCK_HEADER + GRAIN \<le> c then (w, False) # (c - w - BLOCK_HEADER, True) # rest else (c, False) # rest) (taken a c w z m)"
proof -
  define split where "split \<longleftrightarrow> w + BLOCK_HEADER + GRAIN \<le> c"
  define n where "n = (if split then w else c)"
  define m1 where "m1 = (if split then write_head (a + BLOCK_HEADER + w) \<lparr>hb_size = c - w - BLOCK_HEADER, hb_free = 1\<rparr> m else m)"
  define m2 where "m2 = write_head a \<lparr>hb_size = n, hb_free = 0\<rparr> m1"
  define m3 where "m3 = (if z then write_zeros (a + BLOCK_HEADER) n m2 else m2)"
  have run: "taken a c w z m = (Some (a + BLOCK_HEADER), m3)"
    by (simp add: taken_def m3_def m2_def m1_def n_def split_def Let_def)
  have le: "a + BLOCK_HEADER + c \<le> e" "n \<le> c" using tiles_le [OF t] w(1) by (auto simp: n_def)
  have head: "read_head m3 a = \<lparr>hb_size = n, hb_free = 0\<rparr>"
  proof -
    have "read_head m3 a = read_head m2 a" by (rule read_head_cong) (simp add: m3_def write_zeros_def BLOCK_HEADER_def)
    then show ?thesis using le e by (simp add: m2_def)
  qed
  have behind: "m3 x = m1 x" if "a + BLOCK_HEADER + n \<le> x" for x
    using that by (simp add: m3_def m2_def write_zeros_def write_head_other BLOCK_HEADER_def)
  have far: "m1 x = m x" if "a + BLOCK_HEADER + c \<le> x" for x
    using that by (simp add: m1_def split_def write_head_other BLOCK_HEADER_def GRAIN_def)
  have rest: "tiles m3 (a + BLOCK_HEADER + c) e rest" by (rule tiles_cong [OF t]) (use behind far le(2) in auto)
  have new: "tiles m3 a e (if split then (w, False) # (c - w - BLOCK_HEADER, True) # rest else (c, False) # rest)"
  proof (cases split)
    case True
    then have c: "w + BLOCK_HEADER + GRAIN \<le> c" by (simp add: split_def)
    have "read_head m3 (a + BLOCK_HEADER + w) = read_head m1 (a + BLOCK_HEADER + w)"
      by (rule read_head_cong, rule behind) (simp add: n_def True)
    then have "read_head m3 (a + BLOCK_HEADER + w) = \<lparr>hb_size = c - w - BLOCK_HEADER, hb_free = 1\<rparr>" using True le e by (simp add: m1_def)
    moreover have "(c - w - BLOCK_HEADER) mod GRAIN = 0" using h(2) w(2) c by (simp add: mod_eq_0_iff_dvd dvd_diff_nat BLOCK_HEADER_def GRAIN_def)
    moreover have "a + BLOCK_HEADER + w + BLOCK_HEADER + (c - w - BLOCK_HEADER) = a + BLOCK_HEADER + c" using c by (simp add: BLOCK_HEADER_def GRAIN_def)
    ultimately show ?thesis using True head w(2) rest by (simp add: n_def add.assoc)
  next
    case False
    then show ?thesis using head h(2) rest by (simp add: n_def)
  qed
  have frame: "m3 x = m x" if "\<not> (a \<le> x \<and> x < a + BLOCK_HEADER + c)" for x
  proof -
    have "m3 x = m1 x" using that le(2) by (auto simp: m3_def m2_def write_zeros_def write_head_other BLOCK_HEADER_def)
    moreover have "m1 x = m x" using that by (auto simp: m1_def split_def write_head_other BLOCK_HEADER_def GRAIN_def)
    ultimately show ?thesis by simp
  qed
  have zeros: "z \<Longrightarrow> a + BLOCK_HEADER \<le> x \<Longrightarrow> x < a + BLOCK_HEADER + n \<Longrightarrow> m3 x = 0" for x by (simp add: m3_def write_zeros_def)
  show ?thesis unfolding walked_def run fst_conv snd_conv split_def [symmetric]
    by (rule exI [of _ m3]) (use new frame zeros in \<open>auto simp: n_def\<close>)
qed

lemma heap_walk_take:
  assumes "a < e" "read_head m a = \<lparr>hb_size = n, hb_free = 1\<rparr>" "merge_loop a e \<lparr>hb_size = n, hb_free = 1\<rparr> m = (\<lparr>hb_size = c, hb_free = 1\<rparr>, m1)"
  shows "heap_walk a e w z m = (if w \<le> c then taken a c w z m1 else heap_walk (a + BLOCK_HEADER + c) e w z m1)"
  by (subst heap_walk.simps) (use assms in \<open>auto simp: taken_def Let_def\<close>)

lemma heap_walk_spec:
  assumes "tiles m a e bs" "w mod GRAIN = 0" "e < 2 ^ 64"
  shows "walked a e z bs m (alloc_list w bs) (heap_walk a e w z m)"
  using assms
proof (induction w bs arbitrary: a m rule: alloc_list.induct)
  case (1 w)
  then show ?case by (subst heap_walk.simps) (simp add: walked_def alloc_list.simps)
next
  case (2 w n f bs)
  have h: "read_head m a = \<lparr>hb_size = n, hb_free = of_bool f\<rparr>" "n mod GRAIN = 0" and t: "tiles m (a + BLOCK_HEADER + n) e bs"
    using 2(3) by auto
  have lt: "a < e" using tiles_le [OF t] by (simp add: BLOCK_HEADER_def)
  show ?case
  proof (cases f)
    case False
    have "heap_walk a e w z m = heap_walk (a + BLOCK_HEADER + n) e w z m"
      using lt h False by (subst heap_walk.simps) simp
    then have "walked (a + BLOCK_HEADER + n) e z bs m (alloc_list w bs) (heap_walk a e w z m)" using 2(2) [OF False t 2(4,5)] by simp
    from walked_skip [OF this h t] show ?thesis using False by (simp add: alloc_list.simps case_prod_beta)
  next
    case True
    define c rest where cr: "c = fst (merge_list n bs)" "rest = snd (merge_list n bs)"
    have h1: "read_head m a = \<lparr>hb_size = n, hb_free = 1\<rparr>" using h True by simp
    obtain m1 where m1: "merge_loop a e \<lparr>hb_size = n, hb_free = 1\<rparr> m = (\<lparr>hb_size = c, hb_free = 1\<rparr>, m1)"
      "read_head m1 a = \<lparr>hb_size = c, hb_free = 1\<rparr>" "tiles m1 (a + BLOCK_HEADER + c) e rest" "c mod GRAIN = 0"
      "\<forall>x. \<not> (a \<le> x \<and> x < a + BLOCK_HEADER) \<longrightarrow> m1 x = m x"
      by (rule mergedE [OF merge_loop_spec [OF h1 t h(2) 2(5), folded cr]])
    have area: "free_area a ((c, True) # rest) = free_area a ((n, f) # bs)" using merge_list_area [of a n bs] True by (simp only: cr)
    have frame: "m1 x = m x" if "x \<notin> free_area a ((n, f) # bs)" for x
      using that m1(5) [rule_format, of x] True by (auto simp: BLOCK_HEADER_def)
    have pair: "merge_list n bs = (c, rest)" by (simp add: cr)
    show ?thesis
    proof (cases "w \<le> c")
      case fits: True
      have "walked a e z ((n, f) # bs) m (alloc_list w ((n, f) # bs)) (taken a c w z m1)"
        using walked_frame [OF walked_take [OF m1(2,4,3) fits 2(4,5)] area frame] True fits pair by (simp add: alloc_list.simps)
      then show ?thesis using heap_walk_take [OF lt h1 m1(1)] fits by simp
    next
      case False
      have IH: "walked (a + BLOCK_HEADER + c) e z rest m1 (alloc_list w rest) (heap_walk a e w z m)"
        using 2(1) [OF True pair [symmetric] refl False m1(3) 2(4,5)] heap_walk_take [OF lt h1 m1(1), of w z] False by simp
      have head: "read_head m1 a = \<lparr>hb_size = c, hb_free = of_bool True\<rparr>" using m1(2) by simp
      have "walked a e z ((n, f) # bs) m (map_option ((+) (BLOCK_HEADER + c)) (fst (alloc_list w rest)), (c, True) # snd (alloc_list w rest)) (heap_walk a e w z m)"
        by (rule walked_frame [OF walked_skip [OF IH head m1(4,3)] area frame])
      then show ?thesis using True False pair by (simp add: alloc_list.simps case_prod_beta)
    qed
  qed
qed

section \<open>What the search gives\<close>

lemma free_area_ge: "free_area a bs \<subseteq> {a..}"
  by (induction a bs rule: free_area.induct) auto

lemma live_from_ge: "live_from a bs p = Some n \<Longrightarrow> a + BLOCK_HEADER \<le> p"
  by (induction a bs rule: live_from.induct) (auto split: if_splits)

text \<open>A block at offset \<open>d\<close> with payload \<open>n\<close> moves from the free part to the live part.\<close>

definition moved :: "nat \<Rightarrow> nat \<Rightarrow> nat \<Rightarrow> tiling \<Rightarrow> tiling \<Rightarrow> bool" where
  "moved a d n bs bs' \<longleftrightarrow> live_from a bs' = (live_from a bs)(a + d + BLOCK_HEADER \<mapsto> n)
     \<and> {a + d..<a + d + BLOCK_HEADER + n} \<subseteq> free_area a bs \<and> free_area a bs' \<subseteq> free_area a bs"

lemma moved_skip:
  assumes "moved (a + BLOCK_HEADER + c) d n bs bs'"
  shows "moved a (BLOCK_HEADER + c + d) n ((c, f) # bs) ((c, f) # bs')"
proof -
  have at: "a + (BLOCK_HEADER + c + d) = a + BLOCK_HEADER + c + d" by simp
  have ne: "a + BLOCK_HEADER + c + d + BLOCK_HEADER \<noteq> a + BLOCK_HEADER" by (simp add: BLOCK_HEADER_def)
  have m: "live_from (a + BLOCK_HEADER + c) bs' = (live_from (a + BLOCK_HEADER + c) bs)(a + BLOCK_HEADER + c + d + BLOCK_HEADER \<mapsto> n)"
    "{a + BLOCK_HEADER + c + d..<a + BLOCK_HEADER + c + d + BLOCK_HEADER + n} \<subseteq> free_area (a + BLOCK_HEADER + c) bs" "free_area (a + BLOCK_HEADER + c) bs' \<subseteq> free_area (a + BLOCK_HEADER + c) bs"
    using assms by (auto simp: moved_def)
  have "live_from a ((c, f) # bs') = (live_from a ((c, f) # bs))(a + BLOCK_HEADER + c + d + BLOCK_HEADER \<mapsto> n)"
    unfolding live_from.simps m(1) using fun_upd_twist [OF ne] by (cases f) simp_all
  moreover have "{a + BLOCK_HEADER + c + d..<a + BLOCK_HEADER + c + d + BLOCK_HEADER + n} \<subseteq> free_area a ((c, f) # bs)" "free_area a ((c, f) # bs') \<subseteq> free_area a ((c, f) # bs)"
    using m(2,3) by auto
  ultimately show ?thesis unfolding moved_def at by blast
qed

lemma moved_take:
  assumes "w \<le> c"
  shows "\<exists>n. w \<le> n \<and> n < w + BLOCK_HEADER + GRAIN \<and> moved a 0 n ((c, True) # rest)
    (if w + BLOCK_HEADER + GRAIN \<le> c then (w, False) # (c - w - BLOCK_HEADER, True) # rest else (c, False) # rest)"
proof (cases "w + BLOCK_HEADER + GRAIN \<le> c")
  case True
  then have at: "a + BLOCK_HEADER + w + BLOCK_HEADER + (c - w - BLOCK_HEADER) = a + BLOCK_HEADER + c" by (simp add: BLOCK_HEADER_def GRAIN_def)
  have "moved a 0 w ((c, True) # rest) ((w, False) # (c - w - BLOCK_HEADER, True) # rest)"
    unfolding moved_def live_from.simps free_area.simps at using assms by auto
  then show ?thesis using True by (intro exI [of _ w]) (simp add: BLOCK_HEADER_def)
next
  case False
  have "moved a 0 c ((c, True) # rest) ((c, False) # rest)" by (auto simp: moved_def)
  then show ?thesis using False assms by (intro exI [of _ c]) simp
qed

lemma moved_merge: "moved a d n ((fst (merge_list c bs), True) # snd (merge_list c bs)) bs' \<Longrightarrow> moved a d n ((c, True) # bs) bs'"
  using merge_list_area [of a c bs] by (simp only: moved_def)

lemma alloc_list_Some:
  assumes "fst (alloc_list w bs) = Some d"
  shows "\<exists>n. w \<le> n \<and> n < w + BLOCK_HEADER + GRAIN \<and> moved a d n bs (snd (alloc_list w bs))"
  using assms
proof (induction w bs arbitrary: a d rule: alloc_list.induct)
  case (2 w n f bs)
  show ?case
  proof (cases f)
    case False
    then obtain d' where d: "fst (alloc_list w bs) = Some d'" "d = BLOCK_HEADER + n + d'" using 2(3) by (auto simp: alloc_list.simps case_prod_beta)
    obtain k where "w \<le> k" "k < w + BLOCK_HEADER + GRAIN" "moved (a + BLOCK_HEADER + n) d' k bs (snd (alloc_list w bs))"
      using 2(2) [OF False d(1), of "a + BLOCK_HEADER + n"] by blast
    then show ?thesis using moved_skip [of a n d' k bs "snd (alloc_list w bs)" f] d(2) False
      by (intro exI [of _ k]) (simp add: alloc_list.simps case_prod_beta)
  next
    case True
    define c rest where cr: "c = fst (merge_list n bs)" "rest = snd (merge_list n bs)"
    have pair: "merge_list n bs = (c, rest)" by (simp add: cr)
    note mm = moved_merge [of a _ _ n bs, folded cr]
    show ?thesis
    proof (cases "w \<le> c")
      case fits: True
      then have "d = 0" using 2(3) True pair by (simp add: alloc_list.simps)
      then show ?thesis using moved_take [OF fits, of a rest] mm True pair fits
        by (simp only: alloc_list.simps if_True prod.case Let_def snd_conv) blast
    next
      case no: False
      then obtain d' where d: "fst (alloc_list w rest) = Some d'" "d = BLOCK_HEADER + c + d'"
        using 2(3) True pair by (auto simp: alloc_list.simps case_prod_beta)
      obtain k where "w \<le> k" "k < w + BLOCK_HEADER + GRAIN" "moved (a + BLOCK_HEADER + c) d' k rest (snd (alloc_list w rest))"
        using 2(1) [OF True pair [symmetric] refl no d(1), of "a + BLOCK_HEADER + c"] by blast
      then show ?thesis using mm [OF moved_skip [of a c d' k rest "snd (alloc_list w rest)" True]] d(2) True pair no
        by (intro exI [of _ k]) (simp add: alloc_list.simps case_prod_beta)
    qed
  qed
qed (simp add: alloc_list.simps)

text \<open>A refusal is genuine: after all neighbours are merged, no free block is large enough.\<close>

fun merged_all :: "tiling \<Rightarrow> bool" where
  "merged_all ((n, f) # (k, g) # bs) \<longleftrightarrow> \<not> (f \<and> g) \<and> merged_all ((k, g) # bs)"
| "merged_all bs \<longleftrightarrow> True"

lemma merge_list_stops: "snd (merge_list c bs) = [] \<or> \<not> snd (hd (snd (merge_list c bs)))"
  by (induction c bs rule: merge_list.induct) auto

lemma alloc_list_head: "bs \<noteq> [] \<Longrightarrow> \<not> snd (hd bs) \<Longrightarrow> snd (alloc_list w bs) \<noteq> [] \<and> \<not> snd (hd (snd (alloc_list w bs)))"
  by (cases bs) (auto simp: alloc_list.simps case_prod_beta)

lemma alloc_list_None:
  assumes "fst (alloc_list w bs) = None"
  shows "live_from a (snd (alloc_list w bs)) = live_from a bs \<and> free_area a (snd (alloc_list w bs)) = free_area a bs
    \<and> merged_all (snd (alloc_list w bs)) \<and> (\<forall>(n, f)\<in>set (snd (alloc_list w bs)). f \<longrightarrow> n < w)"
  using assms
proof (induction w bs arbitrary: a rule: alloc_list.induct)
  case (2 w n f bs)
  show ?case
  proof (cases f)
    case False
    then have none: "fst (alloc_list w bs) = None" and eq: "snd (alloc_list w ((n, f) # bs)) = (n, f) # snd (alloc_list w bs)"
      using 2(3) by (auto simp: alloc_list.simps case_prod_beta)
    have "merged_all ((n, f) # bs')" if "merged_all bs'" for bs' using that False by (cases bs' rule: merged_all.cases) auto
    then show ?thesis using 2(2) [OF False none, of "a + BLOCK_HEADER + n"] False unfolding eq by simp
  next
    case True
    define c rest where cr: "c = fst (merge_list n bs)" "rest = snd (merge_list n bs)"
    have pair: "merge_list n bs = (c, rest)" by (simp add: cr)
    have no: "\<not> w \<le> c" using 2(3) True pair by (auto simp: alloc_list.simps)
    then have none: "fst (alloc_list w rest) = None" and eq: "snd (alloc_list w ((n, f) # bs)) = (c, True) # snd (alloc_list w rest)"
      using 2(3) True pair by (auto simp: alloc_list.simps case_prod_beta)
    note IH = 2(1) [OF True pair [symmetric] refl no none, of "a + BLOCK_HEADER + c"]
    have "snd (alloc_list w rest) = [] \<or> \<not> snd (hd (snd (alloc_list w rest)))"
      using merge_list_stops [of n bs] alloc_list_head [of rest w] by (cases "rest = []") (auto simp: cr alloc_list.simps)
    then have "merged_all ((c, True) # snd (alloc_list w rest))" using IH by (cases "snd (alloc_list w rest)") auto
    then show ?thesis using IH no merge_list_area [of a n bs, folded cr] True unfolding eq by simp
  qed
qed (simp add: alloc_list.simps)

section \<open>The allocator\<close>

definition heap_ok :: "layout \<Rightarrow> heap \<Rightarrow> tiling \<Rightarrow> bool" where
  "heap_ok L h bs \<longleftrightarrow> bare_ok L (he_bare h) \<and> (if he_start h = 0 then bs = []
     else tiles (he_bytes h) (he_start h) (he_end h) bs \<and> he_end h = he_start h + NATIVE_HEAP_BYTES
       \<and> owned L (he_start h) NATIVE_HEAP_BYTES (he_bare h))"

abbreviation heap_live :: "heap \<Rightarrow> tiling \<Rightarrow> blocks" where
  "heap_live h bs \<equiv> live_from (he_start h) bs"

text \<open>Live payloads keep their bytes.\<close>

definition kept_bytes :: "blocks \<Rightarrow> memory \<Rightarrow> memory \<Rightarrow> bool" where
  "kept_bytes B m m' \<longleftrightarrow> (\<forall>p n x. B p = Some n \<longrightarrow> x \<in> span (p, p + n) \<longrightarrow> m' x = m x)"

lemma keptD: "kept_bytes B m m' \<Longrightarrow> B p = Some n \<Longrightarrow> p \<le> x \<Longrightarrow> x < p + n \<Longrightarrow> m' x = m x"
  by (auto simp: kept_bytes_def span_def)

lemma put_bytes_simps [simp]:
  "he_start (put_bytes m h) = he_start h" "he_end (put_bytes m h) = he_end h" "he_bytes (put_bytes m h) = m"
  "ba_region (he_bare (put_bytes m h)) = ba_region (he_bare h)" "mm_table (ba_mmu (he_bare (put_bytes m h))) = mm_table (ba_mmu (he_bare h))"
  by (simp_all add: put_bytes_def)

lemma put_bytes_ok [simp]: "bare_ok L (he_bare (put_bytes m h)) = bare_ok L (he_bare h)"
  "owned L a sz (he_bare (put_bytes m h)) = owned L a sz (he_bare h)"
  by (simp_all add: bare_ok_def owned_def page_valid_def)

lemma live_off_free:
  assumes "live_from a bs p = Some n" "x \<in> span (p, p + n)"
  shows "x \<notin> free_area a bs"
  using assms
proof (induction a bs rule: live_from.induct)
  case (2 a k f bs)
  then show ?case using free_area_ge [of "a + BLOCK_HEADER + k" bs] live_from_ge [of "a + BLOCK_HEADER + k" bs p n]
    by (auto simp: span_def split: if_splits)
qed simp

lemma live_disjoint:
  assumes "live_from a bs p = Some n" "live_from a bs q = Some k" "p \<noteq> q"
  shows "span (p, p + n) \<inter> span (q, q + k) = {}"
  using assms
proof (induction a bs rule: live_from.induct)
  case (2 a c f bs)
  show ?case
  proof (cases "f \<or> p \<noteq> a + BLOCK_HEADER \<and> q \<noteq> a + BLOCK_HEADER")
    case False
    then have "\<not> f" and "p = a + BLOCK_HEADER \<or> q = a + BLOCK_HEADER" by auto
    then show ?thesis using "2.prems" live_from_ge [of "a + BLOCK_HEADER + c" bs p n] live_from_ge [of "a + BLOCK_HEADER + c" bs q k]
      by (auto simp: span_def split: if_splits)
  next
    case True
    then show ?thesis using 2 by (cases f) (auto split: if_splits)
  qed
qed simp

lemma live_aligned: "tiles m a e bs \<Longrightarrow> a mod GRAIN = 0 \<Longrightarrow> live_from a bs p = Some n \<Longrightarrow> p mod GRAIN = 0"
proof (induction m a e bs rule: tiles.induct)
  case (2 m a e k f bs)
  have "(a + BLOCK_HEADER + k) mod GRAIN = 0" "(a + BLOCK_HEADER) mod GRAIN = 0"
    using 2(2,3) by (auto simp: BLOCK_HEADER_def GRAIN_def mod_eq_0_iff_dvd)
  then show ?case using 2 by (auto split: if_splits)
qed simp

lemma heap_readyE:
  assumes ok: "heap_ok L h bs"
  obtains "heap_ready L h = Some (Inl OutOfMemory, h)" "he_start h = 0"
  | h' bs' where "heap_ready L h = Some (Inr (he_start h', he_end h'), h')" "heap_ok L h' bs'" "he_start h' \<noteq> 0"
    "heap_live h' bs' = heap_live h bs" "he_start h \<noteq> 0 \<Longrightarrow> h' = h \<and> bs' = bs" "kept_bytes (heap_live h bs) (he_bytes h) (he_bytes h')"
proof (cases "he_start h = 0")
  case False
  then show ?thesis using that(2) [of h bs] ok by (simp add: heap_ready_def kept_bytes_def)
next
  case True
  have b: "bare_ok L (he_bare h)" and bs: "bs = []" using ok True by (auto simp: heap_ok_def)
  show ?thesis using bare_take_total [OF b, of NATIVE_HEAP_BYTES BPAGE]
  proof (elim disjE exE conjE)
    assume "bare_take L NATIVE_HEAP_BYTES BPAGE (he_bare h) = Some (None, he_bare h)"
    then show ?thesis using that(1) True by (simp add: heap_ready_def)
  next
    fix a st
    assume t: "bare_take L NATIVE_HEAP_BYTES BPAGE (he_bare h) = Some (Some a, st)" "took L NATIVE_HEAP_BYTES BPAGE a (he_bare h) st"
    have t': "bare_ok L st" "0 < NATIVE_HEAP_BYTES" "a mod BPAGE = 0" "NATIVE_HEAP_BYTES mod BPAGE = 0" "span (a, a + NATIVE_HEAP_BYTES) \<subseteq> ba_free (he_bare h)"
      "ba_free st = ba_free (he_bare h) - span (a, a + NATIVE_HEAP_BYTES)" using t(2) by (auto simp: took_def)
    note inside = free_within [OF b t'(5,2)]
    let ?h = "put_bytes (write_head a \<lparr>hb_size = NATIVE_HEAP_BYTES - BLOCK_HEADER, hb_free = 1\<rparr> (mm_bytes (ba_mmu st)))
        \<lparr>he_start = a, he_end = a + NATIVE_HEAP_BYTES, he_bare = st\<rparr>"
    have a: "a \<noteq> 0" using inside(3) by (simp add: RAM_START_def)
    have own: "owned L a NATIVE_HEAP_BYTES st" using t' inside by (auto simp: owned_def)
    have "heap_ok L ?h [(NATIVE_HEAP_BYTES - BLOCK_HEADER, True)]"
      using t'(1) own a by (simp add: heap_ok_def BLOCK_HEADER_def GRAIN_def NATIVE_HEAP_BYTES_def)
    then show ?thesis using that(2) [of ?h "[(NATIVE_HEAP_BYTES - BLOCK_HEADER, True)]"] t(1) True a bs
      by (simp add: heap_ready_def Let_def kept_bytes_def)
  qed
qed

lemma round_up_grain:
  assumes "sz + GRAIN \<le> USIZE_MAX"
  shows "sz \<le> round_up sz GRAIN" "round_up sz GRAIN mod GRAIN = 0" "round_up sz GRAIN < sz + GRAIN"
proof -
  have pow: "is_power_of_two GRAIN" by (simp add: GRAIN_def is_power_of_two_iff) (rule exI [of _ 4], simp)
  have small: "sz + GRAIN - 1 \<le> USIZE_MAX" "sz + GRAIN - 1 < 2 ^ 64" using assms by (auto simp: GRAIN_def width_simps)
  have "round_up sz GRAIN = (sz + GRAIN - 1) - (sz + GRAIN - 1) mod GRAIN"
    unfolding round_up_def using mask_down_pow2 [OF small(1) pow] small(2) by simp
  then show "sz \<le> round_up sz GRAIN" "round_up sz GRAIN mod GRAIN = 0" "round_up sz GRAIN < sz + GRAIN"
    using mod_less_divisor [of GRAIN "sz + GRAIN - 1"] by (auto simp: GRAIN_def minus_mod_eq_mult_div)
qed

lemma heap_ok_up:
  assumes "heap_ok L h bs" "he_start h \<noteq> 0"
  shows "tiles (he_bytes h) (he_start h) (he_end h) bs" "he_end h < 2 ^ 64" "he_start h mod GRAIN = 0" "0 < he_start h"
proof -
  have o: "tiles (he_bytes h) (he_start h) (he_end h) bs" "he_end h = he_start h + NATIVE_HEAP_BYTES" "owned L (he_start h) NATIVE_HEAP_BYTES (he_bare h)"
    "layout_ok L" using assms by (auto simp: heap_ok_def bare_ok_def)
  then show "tiles (he_bytes h) (he_start h) (he_end h) bs" by simp
  show "he_end h < 2 ^ 64" using o(2-4) by (simp add: owned_def layout_ok_def RAM_START_def RAM_PAGES_def BPAGE_def)
  have "16 dvd BPAGE" by (simp add: BPAGE_def)
  then show "he_start h mod GRAIN = 0" using o(3) unfolding owned_def GRAIN_def by (auto intro: dvd_trans simp: mod_eq_0_iff_dvd)
  show "0 < he_start h" using assms(2) by simp
qed

text \<open>The header in front of a live payload is not free.\<close>

lemma overlap_head:
  assumes "live_from a bs p = Some n" "p - BLOCK_HEADER \<le> x" "x < p"
  shows "x \<notin> free_area a bs"
  using assms
proof (induction a bs rule: live_from.induct)
  case (2 a k f bs)
  then show ?case using free_area_ge [of "a + BLOCK_HEADER + k" bs] live_from_ge [of "a + BLOCK_HEADER + k" bs p n]
    by (auto split: if_splits)
qed simp

text \<open>What an allocation gives its caller.\<close>

definition heap_granted :: "nat \<Rightarrow> bool \<Rightarrow> heap \<Rightarrow> tiling \<Rightarrow> nat \<Rightarrow> heap \<Rightarrow> tiling \<Rightarrow> bool" where
  "heap_granted sz z h bs p h' bs' \<longleftrightarrow> p mod GRAIN = 0 \<and> 0 < p \<and> he_start h' + BLOCK_HEADER \<le> p \<and> p < he_end h' \<and> kept_bytes (heap_live h bs) (he_bytes h) (he_bytes h')
     \<and> (\<exists>n. sz \<le> n \<and> n < sz + 3 * GRAIN \<and> heap_live h bs p = None \<and> heap_live h' bs' = (heap_live h bs)(p \<mapsto> n)
          \<and> misses p n (heap_live h bs) \<and> (z \<longrightarrow> (\<forall>x\<in>span (p, p + n). he_bytes h' x = 0)))"

lemma native_allocate_total:
  assumes ok: "heap_ok L h bs" and sz: "0 < sz" "sz + GRAIN \<le> USIZE_MAX"
  shows "\<exists>r h' bs'. native_allocate L sz z h = Some (r, h') \<and> heap_ok L h' bs' \<and> (he_start h \<noteq> 0 \<longrightarrow> he_start h' = he_start h)
    \<and> (case r of
         Inr p \<Rightarrow> heap_granted sz z h bs p h' bs'
       | Inl e \<Rightarrow> e = OutOfMemory \<and> heap_live h' bs' = heap_live h bs \<and> kept_bytes (heap_live h bs) (he_bytes h) (he_bytes h')
           \<and> merged_all bs' \<and> (\<forall>(n, f)\<in>set bs'. f \<longrightarrow> n < round_up sz GRAIN))"
  using ok
proof (cases rule: heap_readyE)
  case 1
  then show ?thesis using ok by (intro exI [of _ "Inl OutOfMemory"] exI [of _ h] exI [of _ bs]) (simp add: native_allocate_def heap_ok_def kept_bytes_def)
next
  case (2 h1 bs1)
  define w where "w = round_up sz GRAIN"
  note up = heap_ok_up [OF 2(2,3)] and w = round_up_grain [OF sz(2), folded w_def]
  obtain m where m: "heap_walk (he_start h1) (he_end h1) w z (he_bytes h1) = (map_option (\<lambda>d. he_start h1 + d + BLOCK_HEADER) (fst (alloc_list w bs1)), m)"
    "tiles m (he_start h1) (he_end h1) (snd (alloc_list w bs1))" "\<And>x. x \<notin> free_area (he_start h1) bs1 \<Longrightarrow> m x = he_bytes h1 x"
    and zeros: "\<And>d. z \<Longrightarrow> fst (alloc_list w bs1) = Some d \<Longrightarrow> \<exists>n. heap_live h1 (snd (alloc_list w bs1)) (he_start h1 + d + BLOCK_HEADER) = Some n
         \<and> (\<forall>x. he_start h1 + d + BLOCK_HEADER \<le> x \<and> x < he_start h1 + d + BLOCK_HEADER + n \<longrightarrow> m x = 0)"
    using heap_walk_spec [OF up(1) w(2) up(2), of z] unfolding walked_def by blast
  let ?h = "put_bytes m h1" and ?bs = "snd (alloc_list w bs1)"
  have hok: "heap_ok L ?h ?bs" using 2(2,3) m(2) by (simp add: heap_ok_def)
  have kept1: "kept_bytes (heap_live h bs) (he_bytes h1) m" unfolding kept_bytes_def 2(4) [symmetric] using m(3) live_off_free by blast
  have kept_bytes: "kept_bytes (heap_live h bs) (he_bytes h) (he_bytes ?h)" using kept1 2(6) by (simp add: kept_bytes_def)
  have start: "he_start h \<noteq> 0 \<longrightarrow> he_start ?h = he_start h" using 2(5) by auto
  show ?thesis
  proof (cases "fst (alloc_list w bs1)")
    case None
    have "native_allocate L sz z h = Some (Inl OutOfMemory, ?h)" using 2(1) m(1) None by (simp add: native_allocate_def w_def)
    moreover have "heap_live ?h ?bs = heap_live h bs \<and> merged_all ?bs \<and> (\<forall>(n, f)\<in>set ?bs. f \<longrightarrow> n < round_up sz GRAIN)"
      using alloc_list_None [OF None, of "he_start h1"] 2(4) by (simp add: w_def)
    ultimately show ?thesis using hok kept_bytes start by (intro exI [of _ "Inl OutOfMemory"] exI [of _ ?h] exI [of _ ?bs]) (unfold sum.case, blast)
  next
    case (Some d)
    define p where "p = he_start h1 + d + BLOCK_HEADER"
    have run: "native_allocate L sz z h = Some (Inr p, ?h)" using 2(1) m(1) Some by (simp add: native_allocate_def w_def p_def)
    obtain n where n: "w \<le> n" "n < w + BLOCK_HEADER + GRAIN" and mv: "moved (he_start h1) d n bs1 ?bs"
      using alloc_list_Some [OF Some, of "he_start h1"] by blast
    have live: "heap_live ?h ?bs = (heap_live h bs)(p \<mapsto> n)" and free: "{he_start h1 + d..<p + n} \<subseteq> free_area (he_start h1) bs1"
      using mv 2(4) by (simp_all add: moved_def p_def)
    have live_p: "heap_live ?h ?bs p = Some n" using live by simp
    have al: "p mod GRAIN = 0" using live_aligned [OF m(2) up(3)] live_p by simp
    have "span (p, p + n) \<inter> span (q, q + k) = {}" if "heap_live h bs q = Some k" for q k
    proof -
      have "x \<notin> free_area (he_start h1) bs1" if "x \<in> span (q, q + k)" for x
        using live_off_free [of "he_start h1" bs1 q k x] 2(4) \<open>heap_live h bs q = Some k\<close> that by simp
      moreover have "span (p, p + n) \<subseteq> {he_start h1 + d..<p + n}" by (auto simp: span_def p_def)
      ultimately show ?thesis using free by blast
    qed
    then have miss: "misses p n (heap_live h bs)" by (simp add: misses_def)
    have pos: "0 < n" using w(1) n(1) sz(1) by simp
    have none: "heap_live h bs p = None"
    proof (rule ccontr)
      assume "heap_live h bs p \<noteq> None"
      then obtain k where k: "heap_live h bs p = Some k" by blast
      have "he_start h1 + d \<notin> free_area (he_start h1) bs1"
        by (rule overlap_head [of _ _ p k]) (use k 2(4) in \<open>auto simp: p_def BLOCK_HEADER_def\<close>)
      moreover have "he_start h1 + d \<in> {he_start h1 + d..<p + n}" by (simp add: p_def BLOCK_HEADER_def)
      ultimately show False using free by blast
    qed
    have bounds: "he_start ?h + BLOCK_HEADER \<le> p" "p < he_end ?h" using live_bounds [OF m(2), of p n] live_p pos by auto
    have z0: "z \<longrightarrow> (\<forall>x\<in>span (p, p + n). he_bytes ?h x = 0)" using zeros [OF _ Some] live_p by (auto simp: p_def span_def)
    have "sz \<le> n" "n < sz + 3 * GRAIN" using w n by (simp_all add: BLOCK_HEADER_def GRAIN_def)
    then have "heap_granted sz z h bs p ?h ?bs"
      unfolding heap_granted_def using al bounds kept_bytes none live miss z0 up(4) by (intro conjI exI [of _ n]) auto
    then show ?thesis using run hok start by (intro exI [of _ "Inr p"] exI [of _ ?h] exI [of _ ?bs]) (unfold sum.case, blast)
  qed
qed

text \<open>Releasing marks the block whose payload starts at the address.\<close>

fun mark_free :: "nat \<Rightarrow> nat \<Rightarrow> tiling \<Rightarrow> tiling" where
  "mark_free p a [] = []"
| "mark_free p a ((n, f) # bs) = (if p = a + BLOCK_HEADER then (n, True) # bs else (n, f) # mark_free p (a + BLOCK_HEADER + n) bs)"

lemma mark_free_spec:
  assumes "tiles m a e bs" "live_from a bs p = Some n" "e < 2 ^ 64"
  shows "read_head m (p - BLOCK_HEADER) = \<lparr>hb_size = n, hb_free = 0\<rparr>
    \<and> tiles (write_head (p - BLOCK_HEADER) \<lparr>hb_size = n, hb_free = 1\<rparr> m) a e (mark_free p a bs)
    \<and> live_from a (mark_free p a bs) = (live_from a bs)(p := None)"
  using assms
proof (induction m a e bs rule: tiles.induct)
  case (2 m a e k f bs)
  let ?m = "write_head (p - BLOCK_HEADER) \<lparr>hb_size = n, hb_free = 1\<rparr> m"
  have h: "read_head m a = \<lparr>hb_size = k, hb_free = of_bool f\<rparr>" "k mod GRAIN = 0" and t: "tiles m (a + BLOCK_HEADER + k) e bs"
    using "2.prems"(1) by auto
  show ?case
  proof (cases "p = a + BLOCK_HEADER")
    case True
    have off: "live_from (a + BLOCK_HEADER + k) bs p = None"
      using True live_from_ge [of "a + BLOCK_HEADER + k" bs p] by (cases "live_from (a + BLOCK_HEADER + k) bs p") (auto simp: BLOCK_HEADER_def)
    then have fn: "\<not> f" "k = n" using "2.prems"(2) True by (auto split: if_splits)
    have "n < 2 ^ 64" using tiles_le [OF t] "2.prems"(3) fn by simp
    then have "read_head (write_head a \<lparr>hb_size = n, hb_free = 1\<rparr> m) a = \<lparr>hb_size = n, hb_free = 1\<rparr>" by simp
    moreover have "tiles (write_head a \<lparr>hb_size = n, hb_free = 1\<rparr> m) (a + BLOCK_HEADER + n) e bs"
      by (rule tiles_cong [where m = m]) (use t fn in \<open>auto simp: write_head_other BLOCK_HEADER_def\<close>)
    ultimately show ?thesis using True h fn off by (auto simp: fun_upd_idem)
  next
    case False
    then have live: "live_from (a + BLOCK_HEADER + k) bs p = Some n" using "2.prems"(2) by (auto split: if_splits)
    note IH = "2.IH" [OF t live "2.prems"(3)]
    have "a + BLOCK_HEADER + k + BLOCK_HEADER \<le> p" by (rule live_from_ge [OF live])
    then have "read_head ?m a = read_head m a" by (intro read_head_cong) (simp add: write_head_other BLOCK_HEADER_def)
    then show ?thesis using IH h False by (auto simp: fun_upd_twist)
  qed
qed simp

text \<open>Releasing a live payload frees exactly it; releasing it again is refused.\<close>

lemma native_release_live:
  assumes ok: "heap_ok L h bs" and live: "heap_live h bs p = Some n" "0 < n"
  obtains h' where "native_release L p h = Some (Inr (), h')" "heap_ok L h' (mark_free p (he_start h) bs)" "he_start h' = he_start h"
    "heap_live h' (mark_free p (he_start h) bs) = (heap_live h bs)(p := None)"
    "\<And>x. \<not> (p - BLOCK_HEADER \<le> x \<and> x < p) \<Longrightarrow> he_bytes h' x = he_bytes h x" "native_release L p h' = Some (Inl InvalidArgument, h')"
proof -
  have "he_start h = 0 \<Longrightarrow> bs = []" using ok by (simp add: heap_ok_def)
  then have up: "he_start h \<noteq> 0" using live(1) by (cases "he_start h = 0") auto
  note u = heap_ok_up [OF ok up]
  note m = mark_free_spec [OF u(1) live(1) u(2)]
  let ?m = "write_head (p - BLOCK_HEADER) \<lparr>hb_size = n, hb_free = 1\<rparr> (he_bytes h)"
  let ?h = "put_bytes ?m h"
  have in_range: "he_start h + BLOCK_HEADER \<le> p" "p < he_end h" "p mod GRAIN = 0" "n < 2 ^ 64"
    using live_bounds [OF u(1) live(1)] live(2) live_aligned [OF u(1,3) live(1)] u(2) by auto
  have ready: "heap_ready L h = Some (Inr (he_start h, he_end h), h)" "heap_ready L ?h = Some (Inr (he_start h, he_end h), ?h)"
    using up by (simp_all add: heap_ready_def)
  have run: "native_release L p h = Some (Inr (), ?h)"
    using in_range ready(1) m by (simp add: native_release_def Let_def BLOCK_HEADER_def)
  have again: "native_release L p ?h = Some (Inl InvalidArgument, ?h)"
    using in_range ready(2) by (simp add: native_release_def Let_def BLOCK_HEADER_def)
  have hok: "heap_ok L ?h (mark_free p (he_start h) bs)" using ok up m by (simp add: heap_ok_def)
  have frame: "?m x = he_bytes h x" if "\<not> (p - BLOCK_HEADER \<le> x \<and> x < p)" for x
    using that in_range(1) by (intro write_head_other) (auto simp: BLOCK_HEADER_def)
  show ?thesis by (rule that [OF run hok _ _ _ again]) (use m frame in auto)
qed

text \<open>What a caller stores into its own payload leaves the headers alone.\<close>

lemma tiles_payload:
  assumes "tiles m a e bs" "live_from a bs p = Some n" "\<And>x. \<not> (p \<le> x \<and> x < p + n) \<Longrightarrow> m' x = m x"
  shows "tiles m' a e bs"
  using assms
proof (induction m a e bs rule: tiles.induct)
  case (2 m a e k f bs)
  have h: "read_head m a = \<lparr>hb_size = k, hb_free = of_bool f\<rparr>" "k mod GRAIN = 0" and t: "tiles m (a + BLOCK_HEADER + k) e bs"
    using "2.prems"(1) by auto
  have "a + BLOCK_HEADER \<le> p" by (rule live_from_ge [OF "2.prems"(2)])
  then have head: "read_head m' a = read_head m a" using "2.prems"(3) by (intro read_head_cong) (auto simp: BLOCK_HEADER_def)
  have "tiles m' (a + BLOCK_HEADER + k) e bs"
  proof (cases "p = a + BLOCK_HEADER \<and> \<not> f")
    case True
    then have "n = k" using "2.prems"(2) by simp
    then show ?thesis using True "2.prems"(3) by (intro tiles_cong [OF t]) auto
  next
    case False
    then have "live_from (a + BLOCK_HEADER + k) bs p = Some n" using "2.prems"(2) by (auto split: if_splits)
    then show ?thesis using "2.IH" [OF t] "2.prems"(3) by blast
  qed
  then show ?case using h head by simp
qed simp

lemma live_head_apart:
  assumes "p - BLOCK_HEADER \<le> x \<and> x < p" "live_from a bs p = Some n" "live_from a bs c = Some j"
  shows "x \<notin> span (c, c + j)"
  using assms
proof (induction a bs rule: live_from.induct)
  case (2 a k f bs)
  show ?case
    using 2 live_from_ge [of "a + BLOCK_HEADER + k" bs p n] live_from_ge [of "a + BLOCK_HEADER + k" bs c j]
    by (cases f; cases "p = a + BLOCK_HEADER"; cases "c = a + BLOCK_HEADER") (auto simp: span_def BLOCK_HEADER_def)
qed simp

lemma heap_ok_store:
  assumes ok: "heap_ok L h bs" and live: "heap_live h bs p = Some n" and same: "\<And>x. \<not> (p \<le> x \<and> x < p + n) \<Longrightarrow> m x = he_bytes h x"
  shows "heap_ok L (put_bytes m h) bs"
proof (cases "he_start h = 0")
  case True
  then show ?thesis using ok by (simp add: heap_ok_def)
next
  case False
  then have "tiles m (he_start h) (he_end h) bs" using tiles_payload [OF heap_ok_up(1) [OF ok False] live] same by blast
  then show ?thesis using ok False by (simp add: heap_ok_def)
qed

text \<open>
  Resizing keeps the block or moves it with its contents; a refused resize keeps the old block, and
  no other block is touched.
\<close>

lemma native_resize_live:
  assumes ok: "heap_ok L h bs" and live: "heap_live h bs p = Some n" "0 < n" and sz: "0 < sz" "sz + GRAIN \<le> USIZE_MAX"
  shows "\<exists>r h' bs'. native_resize L p sz h = Some (r, h') \<and> heap_ok L h' bs'
    \<and> kept_bytes ((heap_live h bs)(p := None)) (he_bytes h) (he_bytes h')
    \<and> (case r of
         Inl e \<Rightarrow> e = OutOfMemory \<and> heap_live h' bs' = heap_live h bs \<and> kept_bytes (heap_live h bs) (he_bytes h) (he_bytes h')
       | Inr q \<Rightarrow> (\<exists>k. sz \<le> k \<and> heap_live h' bs' = (heap_live h bs)(p := None, q \<mapsto> k) \<and> q mod GRAIN = 0)
           \<and> (\<forall>i<min n sz. he_bytes h' (q + i) = he_bytes h (p + i)))"
proof -
  have "he_start h = 0 \<Longrightarrow> bs = []" using ok by (simp add: heap_ok_def)
  then have up: "he_start h \<noteq> 0" using live(1) by (cases "he_start h = 0") auto
  note u = heap_ok_up [OF ok up]
  have in_range: "he_start h + BLOCK_HEADER \<le> p" "p < he_end h" "p mod GRAIN = 0" "p \<noteq> 0"
    using live_bounds [OF u(1) live(1)] live(2) live_aligned [OF u(1,3) live(1)] u(4) by auto
  have old: "read_head (he_bytes h) (p - BLOCK_HEADER) = \<lparr>hb_size = n, hb_free = 0\<rparr>" using mark_free_spec [OF u(1) live(1) u(2)] by simp
  have code: "native_resize L p sz h =
      (if round_up sz GRAIN \<le> n then Some (Inr p, h)
       else case native_allocate L sz False h of None \<Rightarrow> None | Some (Inl e, h) \<Rightarrow> Some (Inl e, h)
         | Some (Inr fresh, h) \<Rightarrow> (case native_release L p (put_bytes (copy_bytes p fresh (min n sz) (he_bytes h)) h) of
              None \<Rightarrow> None | Some (Inl e, h) \<Rightarrow> Some (Inl e, h) | Some (Inr _, h) \<Rightarrow> Some (Inr fresh, h)))"
    using in_range up by (simp add: native_resize_def heap_ready_def Let_def old cong: sum.case_cong option.case_cong)
  show ?thesis
  proof (cases "round_up sz GRAIN \<le> n")
    case True
    have "sz \<le> n" using True round_up_grain(1) [OF sz(2)] by simp
    then show ?thesis using True code ok live in_range(3)
      by (intro exI [of _ "Inr p"] exI [of _ h] exI [of _ bs]) (auto simp: kept_bytes_def fun_upd_idem map_upd_triv intro!: exI [of _ n])
  next
    case False
    obtain r h1 bs1 where a: "native_allocate L sz False h = Some (r, h1)" "heap_ok L h1 bs1" "he_start h1 = he_start h"
      and c: "case r of Inr q \<Rightarrow> heap_granted sz False h bs q h1 bs1
         | Inl e \<Rightarrow> e = OutOfMemory \<and> heap_live h1 bs1 = heap_live h bs \<and> kept_bytes (heap_live h bs) (he_bytes h) (he_bytes h1)
             \<and> merged_all bs1 \<and> (\<forall>(n, f)\<in>set bs1. f \<longrightarrow> n < round_up sz GRAIN)"
      using native_allocate_total [OF ok sz, of False] up by auto
    show ?thesis
    proof (cases r)
      case (Inl e)
      then show ?thesis using False code a c
        by (intro exI [of _ r] exI [of _ h1] exI [of _ bs1]) (auto simp: kept_bytes_def split: if_splits)
    next
      case (Inr q)
      obtain k where g: "sz \<le> k" "heap_live h bs q = None" "heap_live h1 bs1 = (heap_live h bs)(q \<mapsto> k)" "misses q k (heap_live h bs)"
        and q: "q mod GRAIN = 0" "kept_bytes (heap_live h bs) (he_bytes h) (he_bytes h1)"
        using c Inr by (auto simp: heap_granted_def)
      have pq: "p \<noteq> q" using g(2) live(1) by auto
      let ?m = "copy_bytes p q (min n sz) (he_bytes h1)"
      let ?h = "put_bytes ?m h1"
      have hok: "heap_ok L ?h bs1" by (rule heap_ok_store [OF a(2), of q k]) (use g(1,3) in \<open>auto simp: copy_bytes_def\<close>)
      have live1: "heap_live ?h bs1 p = Some n" using g(3) pq live(1) a(3) by simp
      obtain h2 where h2: "native_release L p ?h = Some (Inr (), h2)" "heap_ok L h2 (mark_free p (he_start ?h) bs1)"
          "heap_live h2 (mark_free p (he_start ?h) bs1) = (heap_live ?h bs1)(p := None)"
          "\<And>x. \<not> (p - BLOCK_HEADER \<le> x \<and> x < p) \<Longrightarrow> he_bytes h2 x = ?m x"
        by (rule native_release_live [OF hok live1 live(2)]) simp
      have run: "native_resize L p sz h = Some (Inr q, h2)" using False code a(1) Inr h2(1) by simp
      have head: "p - BLOCK_HEADER \<le> x \<and> x < p \<Longrightarrow> x \<notin> span (c, c + j)" if "heap_live h1 bs1 c = Some j" for x c j
        by (rule live_head_apart [OF _ _ that]) (use live1 in auto)
      have bytes: "he_bytes h2 (q + i) = he_bytes h (p + i)" if "i < min n sz" for i
      proof -
        have "q + i \<in> span (q, q + k)" using that g(1) by (simp add: span_def)
        then have "he_bytes h2 (q + i) = ?m (q + i)" using h2(4) head [of q k "q + i"] g(3) by auto
        also have "\<dots> = he_bytes h1 (p + i)" using that by (simp add: copy_bytes_def)
        finally show ?thesis using keptD [OF q(2) live(1), of "p + i"] that by simp
      qed
      have others: "he_bytes h2 x = he_bytes h x" if "heap_live h bs d = Some j" "d \<noteq> p" "x \<in> span (d, d + j)" for d j x
      proof -
        have d: "heap_live h1 bs1 d = Some j" using that g(2,3) by auto
        have "he_bytes h2 x = ?m x" using h2(4) [of x] head [OF d, of x] that(3) by auto
        also have "\<dots> = he_bytes h1 x" using missesD [OF g(4) that(1)] that(3) g(1) by (auto simp: copy_bytes_def span_def)
        finally show ?thesis using keptD [OF q(2) that(1)] that(3) by (simp add: span_def)
      qed
      show ?thesis
        by (rule exI [of _ "Inr q"], rule exI [of _ h2], rule exI [of _ "mark_free p (he_start ?h) bs1"])
          (use run h2(2,3) g(1,3) a(3) pq q(1) bytes others in \<open>auto simp: kept_bytes_def fun_upd_twist split: if_splits intro!: exI [of _ k]\<close>)
    qed
  qed
qed

section \<open>The global allocator\<close>

lemma next_multiple_of_bounds:
  assumes "0 < k"
  shows "x \<le> next_multiple_of x k" "next_multiple_of x k < x + k" "next_multiple_of x k mod k = 0"
proof -
  have "x + (k - x mod k) = (x div k + 1) * k" if "x mod k \<noteq> 0"
  proof -
    have "x = x div k * k + x mod k" "x mod k < k" using mod_less_divisor [OF assms] by simp_all
    then have "x + (k - x mod k) = x div k * k + k" by linarith
    then show ?thesis by simp
  qed
  then show "next_multiple_of x k mod k = 0" by (auto simp: next_multiple_of_def)
  show "x \<le> next_multiple_of x k" "next_multiple_of x k < x + k"
    using mod_less_divisor [OF assms, of x] by (auto simp: next_multiple_of_def)
qed

text \<open>
  What \<open>alloc\<close> promises: NULL and nothing changed for anyone, or an aligned range inside a fresh block;
  and whatever the caller stores in that range, \<open>dealloc\<close> finds the block again and frees exactly it.
\<close>

definition allocated :: "layout \<Rightarrow> nat \<Rightarrow> nat \<Rightarrow> heap \<Rightarrow> tiling \<Rightarrow> nat \<Rightarrow> heap \<Rightarrow> tiling \<Rightarrow> bool" where
  "allocated L sz align h bs q h' bs' \<longleftrightarrow> q mod align = 0 \<and> (\<exists>p n. heap_live h' bs' = (heap_live h bs)(p \<mapsto> n) \<and> heap_live h bs p = None
     \<and> misses p n (heap_live h bs) \<and> p \<le> q \<and> q + sz \<le> p + n
     \<and> (\<forall>m. (\<forall>x. \<not> (q \<le> x \<and> x < q + sz) \<longrightarrow> m x = he_bytes h' x) \<longrightarrow>
          (\<exists>h2. port_dealloc L q sz align (put_bytes m h') = Some h2 \<and> heap_ok L h2 (mark_free p (he_start h') bs')
             \<and> heap_live h2 (mark_free p (he_start h') bs') = heap_live h bs)))"

lemma dealloc_live:
  assumes ok: "heap_ok L h' bs'" and live: "heap_live h' bs' = (B)(p \<mapsto> n)" "B p = None" "0 < n" and q: "p \<le> q" "q + sz \<le> p + n"
    and found: "align \<le> GRAIN \<Longrightarrow> q = p" "\<not> align \<le> GRAIN \<Longrightarrow> p + WORD_SIZE \<le> q \<and> load64 (he_bytes h') (q - WORD_SIZE) = p"
    and m: "\<forall>x. \<not> (q \<le> x \<and> x < q + sz) \<longrightarrow> m x = he_bytes h' x"
  shows "\<exists>h2. port_dealloc L q sz align (put_bytes m h') = Some h2 \<and> heap_ok L h2 (mark_free p (he_start h') bs')
    \<and> heap_live h2 (mark_free p (he_start h') bs') = B"
proof -
  have at: "heap_live (put_bytes m h') bs' p = Some n" using live by simp
  have hok: "heap_ok L (put_bytes m h') bs'"
    by (rule heap_ok_store [OF ok, of p n]) (use live m q in auto)
  have "load64 m (q - WORD_SIZE) = load64 (he_bytes h') (q - WORD_SIZE)" if "\<not> align \<le> GRAIN"
    using found(2) [OF that] m by (intro load64_cong) (auto simp: WORD_SIZE_def)
  then have block: "(if align \<le> GRAIN then q else load64 m (q - WORD_SIZE)) = p" using found by auto
  obtain h2 where h2: "native_release L p (put_bytes m h') = Some (Inr (), h2)" "heap_ok L h2 (mark_free p (he_start (put_bytes m h')) bs')"
      "heap_live h2 (mark_free p (he_start (put_bytes m h')) bs') = (heap_live (put_bytes m h') bs')(p := None)"
    by (rule native_release_live [OF hok at live(3)]) simp
  have "B(p := None) = B" using live(2) by (auto simp: fun_eq_iff)
  moreover have "port_dealloc L q sz align (put_bytes m h') = Some h2"
    unfolding port_dealloc_def Let_def put_bytes_simps block h2(1) by simp
  ultimately show ?thesis using h2 live by (intro exI [of _ h2]) simp
qed

lemma port_alloc_total:
  assumes ok: "heap_ok L h bs" and align: "is_power_of_two align" and sz: "sz \<le> ISIZE_MAX - (align - 1)"
  shows "\<exists>q h' bs'. port_alloc L sz align h = Some (q, h') \<and> heap_ok L h' bs' \<and> kept_bytes (heap_live h bs) (he_bytes h) (he_bytes h')
    \<and> (if q = 0 then heap_live h' bs' = heap_live h bs else allocated L sz align h bs q h' bs')"
proof -
  have pos: "0 < align" and le: "align \<le> 2 ^ 63" using is_power_of_two_pos [OF align] is_power_of_two_le [OF align] by auto
  define over where "over \<longleftrightarrow> \<not> align \<le> GRAIN"
  define ask where "ask = (if over then sz + align + WORD_SIZE else max sz 1)"
  have ask: "0 < ask" "ask + GRAIN \<le> USIZE_MAX" using sz pos le by (auto simp: ask_def GRAIN_def WORD_SIZE_def width_simps)
  obtain r h1 bs1 where a: "native_allocate L ask False h = Some (r, h1)" "heap_ok L h1 bs1"
    and c: "case r of Inr q \<Rightarrow> heap_granted ask False h bs q h1 bs1
       | Inl e \<Rightarrow> e = OutOfMemory \<and> heap_live h1 bs1 = heap_live h bs \<and> kept_bytes (heap_live h bs) (he_bytes h) (he_bytes h1)
           \<and> merged_all bs1 \<and> (\<forall>(n, f)\<in>set bs1. f \<longrightarrow> n < round_up ask GRAIN)"
    using native_allocate_total [OF ok ask, of False] by blast
  have sum: "Option.bind (checked_add sz align) (\<lambda>n. checked_add n WORD_SIZE) = Some ask" if over
    using that ask by (simp add: ask_def checked_add_def)
  show ?thesis
  proof (cases r)
    case (Inl e)
    then have "port_alloc L sz align h = Some (0, h1)"
      using a(1) sum by (cases over) (auto simp: port_alloc_def or_null_def ask_def over_def)
    then show ?thesis using a(2) c Inl by (intro exI [of _ 0] exI [of _ h1] exI [of _ bs1]) auto
  next
    case (Inr p)
    obtain n where g: "ask \<le> n" "heap_live h bs p = None" "heap_live h1 bs1 = (heap_live h bs)(p \<mapsto> n)" "misses p n (heap_live h bs)"
      and p: "p mod GRAIN = 0" "0 < p" "kept_bytes (heap_live h bs) (he_bytes h) (he_bytes h1)"
      using c Inr by (auto simp: heap_granted_def)
    have n: "0 < n" using ask(1) g(1) by simp
    show ?thesis
    proof (cases over)
      case False
      then have run: "port_alloc L sz align h = Some (p, h1)" using a(1) Inr by (simp add: port_alloc_def or_null_def ask_def over_def)
      have "is_power_of_two GRAIN" by (simp add: GRAIN_def is_power_of_two_iff) (rule exI [of _ 4], simp)
      then have "align dvd GRAIN" using pow2_dvd [OF align] False by (simp add: over_def)
      then have al: "p mod align = 0" using p(1) by (auto intro: dvd_trans)
      have fits: "p + sz \<le> p + n" using g(1) False by (simp add: ask_def)
      have "allocated L sz align h bs p h1 bs1" unfolding allocated_def
        by (intro conjI al exI [of _ p] exI [of _ n] g(2-4) order_refl fits allI impI dealloc_live [OF a(2) g(3,2) n order_refl fits])
          (use False in \<open>auto simp: over_def\<close>)
      then show ?thesis using run a(2) p by (intro exI [of _ p] exI [of _ h1] exI [of _ bs1]) auto
    next
      case True
      define q where "q = next_multiple_of (p + WORD_SIZE) align"
      let ?h = "put_bytes (store64 (q - WORD_SIZE) p (he_bytes h1)) h1"
      have run: "port_alloc L sz align h = Some (q, ?h)"
        using a(1) Inr sum [OF True] True by (simp add: port_alloc_def over_def q_def Let_def)
      note b = next_multiple_of_bounds [OF pos, of "p + WORD_SIZE", folded q_def]
      have fits: "p + WORD_SIZE \<le> q" "q + sz \<le> p + n" using b g(1) True by (auto simp: ask_def)
      have inside: "\<not> (p \<le> x \<and> x < p + n) \<Longrightarrow> he_bytes ?h x = he_bytes h1 x" for x
        using fits by (auto simp: store64_def WORD_SIZE_def)
      have hok: "heap_ok L ?h bs1" by (rule heap_ok_store [OF a(2), of p n]) (use g(3) inside in auto)
      have live: "heap_live ?h bs1 = (heap_live h bs)(p \<mapsto> n)" using g(3) by simp
      have "p < 2 ^ 64"
      proof -
        have "heap_live h1 bs1 p = Some n" using g(3) by simp
        then have "he_start h1 \<noteq> 0" using a(2) by (cases "he_start h1 = 0") (auto simp: heap_ok_def)
        note u = heap_ok_up [OF a(2) this]
        show ?thesis using live_bounds [OF u(1), of p n] g(3) u(2) by simp
      qed
      then have word: "load64 (he_bytes ?h) (q - WORD_SIZE) = p" by simp
      have "allocated L sz align h bs q ?h bs1" unfolding allocated_def
        by (intro conjI b(3) exI [of _ p] exI [of _ n] live g(2,4) allI impI dealloc_live [OF hok live g(2) n _ fits(2)])
          (use fits word True in \<open>auto simp: over_def\<close>)
      moreover have "kept_bytes (heap_live h bs) (he_bytes h) (he_bytes ?h)"
        unfolding kept_bytes_def
      proof (intro allI impI)
        fix c j x
        assume l: "heap_live h bs c = Some j" and x: "x \<in> span (c, c + j)"
        have "\<not> (p \<le> x \<and> x < p + n)" using missesD [OF g(4) l] x by (auto simp: span_def)
        then show "he_bytes ?h x = he_bytes h x" using inside [of x] p(3) l x by (auto simp: kept_bytes_def)
      qed
      moreover have "q \<noteq> 0" using fits(1) p(2) by simp
      ultimately show ?thesis using run hok by (intro exI [of _ q] exI [of _ ?h] exI [of _ bs1]) simp
    qed
  qed
qed

end
