(* ===== verification/Bare_Threads.thy ===== *)
theory Bare_Threads
  imports Bare_Heap
begin

text \<open>
  The thread table of the bare-metal port (\<open>src/examples/baremetal-aarch64/src/thread.rs\<close>) and its TLS
  blocks (\<open>tls.rs\<close>): cooperative threads on one core, with stacks and TLS blocks from the RAM region.
  What the linker and the assembly decide (the boot stack, the TLS image, the trampoline, the
  addresses of the tables) is a record of numbers. A context switch hands the processor to the thread
  that becomes \<open>current\<close>.
\<close>

section \<open>Model\<close>

definition MAX_THREADS :: nat where "MAX_THREADS = 16"
definition MAX_TLS_SLOTS :: nat where "MAX_TLS_SLOTS = 64"
definition DEFAULT_STACK :: nat where "DEFAULT_STACK = 128 * 1024"
definition MIN_STACK :: nat where "MIN_STACK = 32 * 1024"
definition FRAME :: nat where "FRAME = 176"
definition TCB :: nat where "TCB = 16"

record tls_block =
  tb_base :: nat
  tb_size :: nat
  tb_pointer :: nat

datatype tstate = TFree | TLive | TFinished

record thread =
  th_state :: tstate
  th_sp :: nat
  th_entry :: "nat option"
  th_argument :: nat
  th_stack :: nat
  th_stack_size :: nat
  th_stack_low :: nat
  th_stack_high :: nat
  th_tls :: tls_block
  th_slots :: "nat list"
  th_name :: "byte list"
  th_name_length :: nat
  th_detached :: bool
  th_reclaim :: bool

definition EMPTY_THREAD :: thread where
  "EMPTY_THREAD = \<lparr>th_state = TFree, th_sp = 0, th_entry = None, th_argument = 0, th_stack = 0, th_stack_size = 0,
     th_stack_low = 0, th_stack_high = 0, th_tls = \<lparr>tb_base = 0, tb_size = 0, tb_pointer = 0\<rparr>,
     th_slots = replicate MAX_TLS_SLOTS 0, th_name = replicate 15 0, th_name_length = 0, th_detached = False,
     th_reclaim = False\<rparr>"

record tls_key =
  ky_used :: bool
  ky_destructor :: "nat option"

record sched =
  sc_threads :: "thread list"
  sc_current :: nat
  sc_keys :: "tls_key list"
  sc_mem :: bare

record image =
  im_tdata :: nat
  im_initialized :: nat
  im_total :: nat
  im_trampoline :: nat
  im_boot_low :: nat
  im_boot_high :: nat

definition sched_start :: "bare \<Rightarrow> sched" where
  "sched_start mem = \<lparr>sc_threads = replicate MAX_THREADS EMPTY_THREAD, sc_current = 0,
     sc_keys = replicate MAX_TLS_SLOTS \<lparr>ky_used = False, ky_destructor = None\<rparr>, sc_mem = mem\<rparr>"

definition set_thread :: "nat \<Rightarrow> thread \<Rightarrow> sched \<Rightarrow> sched" where
  "set_thread i t s = s\<lparr>sc_threads := (sc_threads s)[i := t]\<rparr>"

definition bytes_of :: "sched \<Rightarrow> memory" where
  "bytes_of s = mm_bytes (ba_mmu (sc_mem s))"

definition bare_store :: "memory \<Rightarrow> bare \<Rightarrow> bare" where
  "bare_store m st = st\<lparr>ba_mmu := (ba_mmu st)\<lparr>mm_bytes := m\<rparr>\<rparr>"

subsection \<open>TLS blocks\<close>

text \<open>\<open>tls::allocate\<close>: the control block, then the image's initialized bytes, then zeros.\<close>

definition tls_allocate :: "layout \<Rightarrow> image \<Rightarrow> bare \<Rightarrow> (tls_block option \<times> bare) option" where
  "tls_allocate L im st =
     (let sz = round_up (TCB + im_total im) BPAGE in
      case bare_take L sz BPAGE st of
        None \<Rightarrow> None
      | Some (None, st) \<Rightarrow> Some (None, st)
      | Some (Some base, st) \<Rightarrow>
          let m = copy_bytes (im_tdata im) (base + TCB) (im_initialized im) (write_zeros base sz (mm_bytes (ba_mmu st))) in
          Some (Some \<lparr>tb_base = base, tb_size = sz, tb_pointer = base\<rparr>, bare_store m st))"

definition tls_release :: "layout \<Rightarrow> tls_block \<Rightarrow> bare \<Rightarrow> bare" where
  "tls_release L b st = (if tb_size b \<noteq> 0 then snd (bare_give L (tb_base b) (tb_size b) st) else st)"

subsection \<open>Scheduling\<close>

text \<open>\<open>reclaim_finished\<close>: the entry is emptied first, then its stack and its TLS block go back.\<close>

definition reclaim_one :: "layout \<Rightarrow> nat \<Rightarrow> sched \<Rightarrow> sched" where
  "reclaim_one L index s =
     (let t = sc_threads s ! index in
      if index = sc_current s \<or> th_state t \<noteq> TFinished \<or> \<not> th_reclaim t then s
      else
        let mem = (if th_stack_size t \<noteq> 0 then snd (bare_give L (th_stack t) (th_stack_size t) (sc_mem s)) else sc_mem s) in
        set_thread index EMPTY_THREAD s\<lparr>sc_mem := tls_release L (th_tls t) mem\<rparr>)"

definition reclaim_finished :: "layout \<Rightarrow> sched \<Rightarrow> sched" where
  "reclaim_finished L s = fold (reclaim_one L) [0..<MAX_THREADS] s"

definition next_live :: "nat \<Rightarrow> sched \<Rightarrow> nat option" where
  "next_live after s =
     map_option (\<lambda>step. (after + step) mod MAX_THREADS)
       (find (\<lambda>step. (after + step) mod MAX_THREADS \<noteq> after
                     \<and> th_state (sc_threads s ! ((after + step) mod MAX_THREADS)) = TLive) [1..<Suc MAX_THREADS])"

definition schedule :: "layout \<Rightarrow> sched \<Rightarrow> bool \<times> sched" where
  "schedule L s =
     (let s = reclaim_finished L s in
      case next_live (sc_current s) s of
        None \<Rightarrow> (False, s)
      | Some i \<Rightarrow> (True, s\<lparr>sc_current := i\<rparr>))"

text \<open>One round of the loop of \<open>block_until\<close>: the result, or none when the caller gives up the processor.\<close>

definition block_round :: "nat option \<Rightarrow> nat option \<Rightarrow> ('s \<Rightarrow> bool \<times> 's) \<Rightarrow> 's \<Rightarrow> unit result option \<times> 's" where
  "block_round deadline now ready s =
     (case ready s of
        (True, s) \<Rightarrow> (Some (Inr ()), s)
      | (False, s) \<Rightarrow>
          (case deadline of
             None \<Rightarrow> (None, s)
           | Some d \<Rightarrow>
               if d \<le> (case now of Some n \<Rightarrow> n | None \<Rightarrow> U64_MAX)
               then (case ready s of (b, s) \<Rightarrow> (Some (if b then Inr () else Inl Timeout), s))
               else (None, s)))"

subsection \<open>Creation and the end of a thread\<close>

definition init_boot_thread :: "layout \<Rightarrow> image \<Rightarrow> sched \<Rightarrow> sched option" where
  "init_boot_thread L im s =
     (case tls_allocate L im (sc_mem s) of
        Some (Some block, mem) \<Rightarrow>
          Some (set_thread 0 (EMPTY_THREAD\<lparr>th_state := TLive, th_tls := block, th_stack_low := im_boot_low im,
            th_stack_high := im_boot_high im\<rparr>) s\<lparr>sc_mem := mem, sc_current := 0\<rparr>)
      | _ \<Rightarrow> None)"

definition index_of :: "nat \<Rightarrow> nat \<Rightarrow> nat \<Rightarrow> nat \<Rightarrow> nat option" where
  "index_of base sz n address =
     (if address < base \<or> (address - base) mod sz \<noteq> 0 then None
      else let index = (address - base) div sz in if index < n then Some index else None)"

definition handle_of :: "nat \<Rightarrow> nat \<Rightarrow> nat \<Rightarrow> nat" where
  "handle_of base sz index = base + index * sz"

definition frame_bytes :: "image \<Rightarrow> nat \<Rightarrow> nat \<Rightarrow> nat \<Rightarrow> memory \<Rightarrow> memory" where
  "frame_bytes im frame index pointer m =
     store64 (frame + 96) pointer (store64 (frame + 88) (im_trampoline im) (store64 frame index (write_zeros frame FRAME m)))"

definition bthread_create :: "layout \<Rightarrow> image \<Rightarrow> nat \<Rightarrow> nat \<Rightarrow> nat \<Rightarrow> sched \<Rightarrow> (nat result \<times> sched) option" where
  "bthread_create L im entry argument stack_size s =
     (case find (\<lambda>i. th_state (sc_threads s ! i) = TFree) [0..<MAX_THREADS] of
        None \<Rightarrow> Some (Inl OutOfMemory, s)
      | Some index \<Rightarrow>
          let sz = round_up (if stack_size = 0 then DEFAULT_STACK else max stack_size MIN_STACK) BPAGE in
          (case bare_take L sz BPAGE (sc_mem s) of
             None \<Rightarrow> None
           | Some (None, mem) \<Rightarrow> Some (Inl OutOfMemory, s\<lparr>sc_mem := mem\<rparr>)
           | Some (Some stack, mem) \<Rightarrow>
               (case tls_allocate L im mem of
                  None \<Rightarrow> None
                | Some (None, mem) \<Rightarrow> Some (Inl OutOfMemory, s\<lparr>sc_mem := snd (bare_give L stack sz mem)\<rparr>)
                | Some (Some block, mem) \<Rightarrow>
                    let frame = mask_down (stack + sz - FRAME) 16;
                        mem = bare_store (frame_bytes im frame index (tb_pointer block) (mm_bytes (ba_mmu mem))) mem in
                    Some (Inr index, set_thread index
                      (EMPTY_THREAD\<lparr>th_state := TLive, th_sp := frame, th_entry := Some entry, th_argument := argument,
                         th_stack := stack, th_stack_size := sz, th_stack_low := stack, th_stack_high := stack + sz, th_tls := block\<rparr>)
                      s\<lparr>sc_mem := mem\<rparr>))))"

text \<open>The end of \<open>pal_thread_main\<close>, after the entry returned and the destructors ran, and \<open>leave\<close>: no other live thread ends the run.\<close>

definition thread_finish :: "nat \<Rightarrow> sched \<Rightarrow> sched" where
  "thread_finish index s =
     (let t = sc_threads s ! index in set_thread index (t\<lparr>th_state := TFinished, th_reclaim := th_detached t\<rparr>) s)"

definition thread_leave :: "layout \<Rightarrow> sched \<Rightarrow> sched option" where
  "thread_leave L s =
     (let s = reclaim_finished L s in map_option (\<lambda>i. s\<lparr>sc_current := i\<rparr>) (next_live (sc_current s) s))"

text \<open>\<open>join\<close> before and after its wait; the wait is for the entry to be finished.\<close>

definition join_begin :: "nat \<Rightarrow> sched \<Rightarrow> unit result" where
  "join_begin index s =
     (let t = sc_threads s ! index in
      if th_state t = TFree \<or> th_detached t \<or> index = sc_current s then Inl InvalidArgument else Inr ())"

definition join_ready :: "nat \<Rightarrow> sched \<Rightarrow> bool" where
  "join_ready index s \<longleftrightarrow> th_state (sc_threads s ! index) = TFinished"

definition join_end :: "layout \<Rightarrow> nat \<Rightarrow> sched \<Rightarrow> sched" where
  "join_end L index s = reclaim_finished L (set_thread index ((sc_threads s ! index)\<lparr>th_reclaim := True\<rparr>) s)"

definition bthread_detach :: "layout \<Rightarrow> nat \<Rightarrow> sched \<Rightarrow> unit result \<times> sched" where
  "bthread_detach L index s =
     (let t = sc_threads s ! index in
      if th_state t = TFree \<or> th_detached t then (Inl InvalidArgument, s)
      else
        let t = t\<lparr>th_detached := True\<rparr> in
        if th_state t = TFinished then (Inr (), reclaim_finished L (set_thread index (t\<lparr>th_reclaim := True\<rparr>) s))
        else (Inr (), set_thread index t s))"

subsection \<open>Identity, bounds and names\<close>

definition bstack_bounds :: "sched \<Rightarrow> (nat \<times> nat) result" where
  "bstack_bounds s =
     (let t = sc_threads s ! sc_current s in
      if th_stack_low t = 0 then Inl Os else Inr (th_stack_low t, th_stack_high t))"

definition bthread_id :: "sched \<Rightarrow> nat result" where
  "bthread_id s = Inr (sc_current s + 1)"

definition name_set :: "byte list \<Rightarrow> sched \<Rightarrow> unit result \<times> sched" where
  "name_set name s =
     (if 15 < length name then (Inl InvalidArgument, s)
      else let t = sc_threads s ! sc_current s in
        (Inr (), set_thread (sc_current s) (t\<lparr>th_name := name @ drop (length name) (th_name t), th_name_length := length name\<rparr>) s))"

subsection \<open>Thread-local slots\<close>

definition key_index :: "nat \<Rightarrow> sched \<Rightarrow> nat option" where
  "key_index index s = (if index < MAX_TLS_SLOTS \<and> ky_used (sc_keys s ! index) then Some index else None)"

definition slot_put :: "nat \<Rightarrow> nat \<Rightarrow> nat \<Rightarrow> sched \<Rightarrow> sched" where
  "slot_put thread index value s =
     (let t = sc_threads s ! thread in set_thread thread (t\<lparr>th_slots := (th_slots t)[index := value]\<rparr>) s)"

definition btls_create :: "nat option \<Rightarrow> sched \<Rightarrow> nat result \<times> sched" where
  "btls_create destructor s =
     (case find (\<lambda>i. \<not> ky_used (sc_keys s ! i)) [0..<MAX_TLS_SLOTS] of
        None \<Rightarrow> (Inl OutOfMemory, s)
      | Some index \<Rightarrow>
          (Inr index, s\<lparr>sc_keys := (sc_keys s)[index := \<lparr>ky_used = True, ky_destructor = destructor\<rparr>],
             sc_threads := map (\<lambda>t. t\<lparr>th_slots := (th_slots t)[index := 0]\<rparr>) (sc_threads s)\<rparr>))"

definition btls_destroy :: "nat \<Rightarrow> sched \<Rightarrow> unit result \<times> sched" where
  "btls_destroy handle s =
     (case key_index handle s of
        None \<Rightarrow> (Inl InvalidArgument, s)
      | Some index \<Rightarrow> (Inr (), s\<lparr>sc_keys := (sc_keys s)[index := \<lparr>ky_used = False, ky_destructor = None\<rparr>]\<rparr>))"

definition btls_get :: "nat \<Rightarrow> sched \<Rightarrow> nat result" where
  "btls_get handle s =
     (case key_index handle s of
        None \<Rightarrow> Inl InvalidArgument
      | Some index \<Rightarrow> Inr (th_slots (sc_threads s ! sc_current s) ! index))"

definition btls_set :: "nat \<Rightarrow> nat \<Rightarrow> sched \<Rightarrow> unit result \<times> sched" where
  "btls_set handle value s =
     (case key_index handle s of
        None \<Rightarrow> (Inl InvalidArgument, s)
      | Some index \<Rightarrow> (Inr (), slot_put (sc_current s) index value s))"

text \<open>
  \<open>run_destructors\<close>: a sweep takes every value out of its slot and passes it to the key's destructor,
  which is the key creator's code and may set slots again; at most four sweeps.
\<close>

definition destroy_slot :: "(nat \<Rightarrow> nat \<Rightarrow> sched \<Rightarrow> sched) \<Rightarrow> nat \<Rightarrow> nat \<Rightarrow> bool \<times> sched \<Rightarrow> bool \<times> sched" where
  "destroy_slot call index slot acc =
     (let (again, s) = acc; value = th_slots (sc_threads s ! index) ! slot; s = slot_put index slot 0 s in
      if value = 0 then (again, s)
      else case (ky_used (sc_keys s ! slot), ky_destructor (sc_keys s ! slot)) of
          (True, Some destructor) \<Rightarrow> (True, call destructor value s)
        | _ \<Rightarrow> (again, s))"

definition destroy_sweep :: "(nat \<Rightarrow> nat \<Rightarrow> sched \<Rightarrow> sched) \<Rightarrow> nat \<Rightarrow> sched \<Rightarrow> bool \<times> sched" where
  "destroy_sweep call index s = fold (destroy_slot call index) [0..<MAX_TLS_SLOTS] (False, s)"

fun destroy_sweeps :: "nat \<Rightarrow> (nat \<Rightarrow> nat \<Rightarrow> sched \<Rightarrow> sched) \<Rightarrow> nat \<Rightarrow> sched \<Rightarrow> sched" where
  "destroy_sweeps 0 call index s = s"
| "destroy_sweeps (Suc n) call index s =
     (case destroy_sweep call index s of (again, s) \<Rightarrow> if again then destroy_sweeps n call index s else s)"

definition run_destructors :: "(nat \<Rightarrow> nat \<Rightarrow> sched \<Rightarrow> sched) \<Rightarrow> nat \<Rightarrow> sched \<Rightarrow> sched" where
  "run_destructors call index s = destroy_sweeps 4 call index s"

section \<open>Round robin\<close>

text \<open>How many places \<open>j\<close> is ahead of \<open>c\<close> in the circular table.\<close>

definition ahead :: "nat \<Rightarrow> nat \<Rightarrow> nat" where
  "ahead c j = (j + MAX_THREADS - c) mod MAX_THREADS"

definition live :: "sched \<Rightarrow> nat \<Rightarrow> bool" where
  "live s i \<longleftrightarrow> i < MAX_THREADS \<and> th_state (sc_threads s ! i) = TLive"

lemma ahead_step: "c < MAX_THREADS \<Longrightarrow> j < MAX_THREADS \<Longrightarrow> (c + ahead c j) mod MAX_THREADS = j"
  unfolding ahead_def by (simp add: mod_simps)

lemma ahead_eq:
  assumes "c < MAX_THREADS" "j < MAX_THREADS"
  shows "ahead c j = (if c \<le> j then j - c else j + MAX_THREADS - c)"
proof (cases "c \<le> j")
  case True
  then have "j + MAX_THREADS - c = (j - c) + MAX_THREADS" by simp
  then have "ahead c j = (j - c) mod MAX_THREADS" unfolding ahead_def by simp
  then show ?thesis using True assms by simp
qed (use assms in \<open>simp add: ahead_def\<close>)

lemma ahead_bounds: "c < MAX_THREADS \<Longrightarrow> j < MAX_THREADS \<Longrightarrow> j \<noteq> c \<Longrightarrow> 0 < ahead c j \<and> ahead c j < MAX_THREADS"
  by (auto simp: ahead_eq)

lemma ahead_of_step:
  assumes "c < MAX_THREADS" "k < MAX_THREADS"
  shows "ahead c ((c + k) mod MAX_THREADS) = k"
proof (cases "c + k < MAX_THREADS")
  case True
  then show ?thesis using assms by (simp add: ahead_eq)
next
  case False
  then have "(c + k) mod MAX_THREADS = c + k - MAX_THREADS" using assms by (simp add: mod_if)
  then show ?thesis using assms False by (simp add: ahead_eq)
qed

lemma ahead_less:
  "c < MAX_THREADS \<Longrightarrow> i < MAX_THREADS \<Longrightarrow> j < MAX_THREADS \<Longrightarrow> 0 < ahead c i \<Longrightarrow> ahead c i \<le> ahead c j \<Longrightarrow> ahead i j = ahead c j - ahead c i"
  by (auto simp: ahead_eq split: if_splits)

lemma find_first: "find P [a..<b] = Some k \<longleftrightarrow> a \<le> k \<and> k < b \<and> P k \<and> (\<forall>j. a \<le> j \<and> j < k \<longrightarrow> \<not> P j)"
proof (induction "b - a" arbitrary: a)
  case (Suc n)
  then have upt: "[a..<b] = a # [Suc a..<b]" "a < b" by (simp_all add: upt_conv_Cons)
  have IH: "find P [Suc a..<b] = Some k \<longleftrightarrow> Suc a \<le> k \<and> k < b \<and> P k \<and> (\<forall>j. Suc a \<le> j \<and> j < k \<longrightarrow> \<not> P j)"
    using Suc by simp
  show ?case
  proof (cases "P a")
    case True
    then show ?thesis unfolding upt(1) using upt(2) by (auto intro: antisym leI)
  next
    case False
    have "(\<forall>j. a \<le> j \<and> j < k \<longrightarrow> \<not> P j) \<longleftrightarrow> (\<forall>j. Suc a \<le> j \<and> j < k \<longrightarrow> \<not> P j)"
      using False by (metis Suc_leD Suc_leI le_neq_implies_less)
    moreover have "a \<le> k \<and> P k \<longleftrightarrow> Suc a \<le> k \<and> P k" using False by (cases "k = a") auto
    ultimately show ?thesis unfolding upt(1) using False IH by auto
  qed
qed auto

text \<open>The next thread is the first live one ahead.\<close>

lemma next_live_Some:
  assumes "next_live c s = Some i" "c < MAX_THREADS"
  shows "live s i" "i \<noteq> c" "\<And>j. live s j \<Longrightarrow> j \<noteq> c \<Longrightarrow> ahead c i \<le> ahead c j"
proof -
  define P where "P k \<longleftrightarrow> (c + k) mod MAX_THREADS \<noteq> c \<and> th_state (sc_threads s ! ((c + k) mod MAX_THREADS)) = TLive" for k
  obtain k where k: "find P [1..<Suc MAX_THREADS] = Some k" "i = (c + k) mod MAX_THREADS"
    using assms(1) unfolding next_live_def P_def by auto
  have f: "1 \<le> k" "k < Suc MAX_THREADS" "P k" "\<And>j. 1 \<le> j \<Longrightarrow> j < k \<Longrightarrow> \<not> P j" using k(1) [unfolded find_first] by auto
  have m: "MAX_THREADS > 0" by (simp add: MAX_THREADS_def)
  show "live s i" "i \<noteq> c" using f(3) k(2) m by (auto simp: P_def live_def)
  have "k \<noteq> MAX_THREADS" using f(3) assms(2) by (auto simp: P_def)
  then have ki: "ahead c i = k" using ahead_of_step [OF assms(2), of k] f(2) k(2) by simp
  fix j
  assume j: "live s j" "j \<noteq> c"
  have jlt: "j < MAX_THREADS" using j by (simp add: live_def)
  have "P (ahead c j)" using ahead_step [OF assms(2) jlt] j by (simp add: P_def live_def)
  then show "ahead c i \<le> ahead c j" using f(4) [of "ahead c j"] ahead_bounds [OF assms(2) jlt j(2)] ki by (metis One_nat_def Suc_leI not_le)
qed

lemma next_live_None:
  assumes "next_live c s = None" "c < MAX_THREADS"
  shows "live s j \<Longrightarrow> j = c"
proof (rule ccontr)
  assume j: "live s j" "j \<noteq> c"
  then have jlt: "j < MAX_THREADS" by (simp add: live_def)
  have "ahead c j \<in> set [1..<Suc MAX_THREADS]" using ahead_bounds [OF assms(2) jlt j(2)] by auto
  then have "find (\<lambda>k. (c + k) mod MAX_THREADS \<noteq> c \<and> th_state (sc_threads s ! ((c + k) mod MAX_THREADS)) = TLive) [1..<Suc MAX_THREADS] \<noteq> None"
    using ahead_step [OF assms(2) jlt] j by (auto simp: find_None_iff live_def)
  then show False using assms(1) by (simp add: next_live_def)
qed

text \<open>The turns taken from a thread on, as long as nobody is created or ends.\<close>

fun turns :: "nat \<Rightarrow> sched \<Rightarrow> nat \<Rightarrow> nat" where
  "turns 0 s c = c"
| "turns (Suc n) s c = (case next_live c s of None \<Rightarrow> c | Some i \<Rightarrow> turns n s i)"

lemma turns_stuck: "next_live c s = None \<Longrightarrow> turns n s c = c"
  by (cases n) simp_all

lemma turns_reach:
  assumes "c < MAX_THREADS" "live s j"
  shows "\<exists>n. n \<le> ahead c j \<and> turns n s c = j"
  using assms
proof (induction "ahead c j" arbitrary: c rule: less_induct)
  case less
  show ?case
  proof (cases "j = c")
    case True
    then show ?thesis by (intro exI [of _ 0]) simp
  next
    case False
    then obtain i where i: "next_live c s = Some i" using next_live_None [OF _ less.prems(1), of s j] less.prems(2) by (cases "next_live c s") auto
    note n = next_live_Some [OF i less.prems(1)]
    have lt: "i < MAX_THREADS" "j < MAX_THREADS" using n(1) less.prems(2) by (auto simp: live_def)
    have pos: "0 < ahead c i" using ahead_bounds [OF less.prems(1) lt(1) n(2)] by simp
    have le: "ahead c i \<le> ahead c j" by (rule n(3) [OF less.prems(2) False])
    have d: "ahead i j = ahead c j - ahead c i" by (rule ahead_less [OF less.prems(1) lt pos le])
    obtain k where "k \<le> ahead i j" "turns k s i = j" using less.hyps [of i] d pos le lt(1) less.prems(2) by auto
    then show ?thesis using i d pos le by (intro exI [of _ "Suc k"]) auto
  qed
qed

section \<open>Ownership of stacks and TLS blocks\<close>

definition thread_blocks :: "thread \<Rightarrow> (nat \<times> nat) list" where
  "thread_blocks t = (if th_stack_size t \<noteq> 0 then [(th_stack t, th_stack_size t)] else [])
     @ (if tb_size (th_tls t) \<noteq> 0 then [(tb_base (th_tls t), tb_size (th_tls t))] else [])"

definition table_blocks :: "sched \<Rightarrow> (nat \<times> nat) list" where
  "table_blocks s = concat (map thread_blocks (sc_threads s))"

text \<open>
  The table holds its blocks, each once, among the owners \<open>B\<close> of the memory; an unused entry holds
  none.
\<close>

definition table_ok :: "layout \<Rightarrow> blocks \<Rightarrow> sched \<Rightarrow> bool" where
  "table_ok L B s \<longleftrightarrow> length (sc_threads s) = MAX_THREADS \<and> sc_current s < MAX_THREADS \<and> length (sc_keys s) = MAX_TLS_SLOTS
     \<and> (\<forall>t\<in>set (sc_threads s). length (th_slots t) = MAX_TLS_SLOTS \<and> length (th_name t) = 15 \<and> (th_state t = TFree \<longrightarrow> thread_blocks t = []))
     \<and> owners_ok L (sc_mem s, B) \<and> distinct (map fst (table_blocks s)) \<and> (\<forall>b\<in>set (table_blocks s). B (fst b) = Some (snd b))"

lemma EMPTY_THREAD_simps [simp]:
  "thread_blocks EMPTY_THREAD = []" "th_state EMPTY_THREAD = TFree" "length (th_slots EMPTY_THREAD) = MAX_TLS_SLOTS"
  "length (th_name EMPTY_THREAD) = 15" "th_detached EMPTY_THREAD = False" "th_reclaim EMPTY_THREAD = False"
  by (simp_all add: EMPTY_THREAD_def thread_blocks_def)

lemma set_thread_simps [simp]:
  "sc_threads (set_thread i t s) = (sc_threads s)[i := t]" "sc_current (set_thread i t s) = sc_current s"
  "sc_keys (set_thread i t s) = sc_keys s" "sc_mem (set_thread i t s) = sc_mem s"
  by (simp_all add: set_thread_def)

lemma owners_ok_store [simp]: "owners_ok L (bare_store m st, B) = owners_ok L (st, B)"
  by (simp add: owners_ok_def bare_ok_def bare_store_def page_valid_def)

text \<open>Giving a block back: it is free, or (when the free list is full) it stays with its owner.\<close>

lemma give_owner:
  assumes "owners_ok L (st, B)" "B a = Some n"
  obtains B' where "owners_ok L (snd (bare_give L a n st), B')" "B' = B \<or> B' = B(a := None)"
proof -
  obtain d st' where g: "bare_give L a n st = (d, st')" by force
  have ok: "bare_ok L st" using assms(1) by (simp add: owners_ok_def)
  show ?thesis
  proof (cases d)
    case True
    then show ?thesis using that [of "B(a := None)"] owners_ok_give [OF assms] g by simp
  next
    case False
    then have "st' = st" using bare_give_total [OF ok, of a n] g by auto
    then show ?thesis using that [of B] assms(1) g by simp
  qed
qed

lemma table_blocks_split:
  assumes "i < length (sc_threads s)"
  obtains xs ys where "table_blocks s = xs @ thread_blocks (sc_threads s ! i) @ ys" "\<And>t. table_blocks (set_thread i t s) = xs @ thread_blocks t @ ys"
proof (rule that)
  let ?xs = "concat (map thread_blocks (take i (sc_threads s)))" and ?ys = "concat (map thread_blocks (drop (Suc i) (sc_threads s)))"
  have "sc_threads s = take i (sc_threads s) @ (sc_threads s ! i) # drop (Suc i) (sc_threads s)" using assms by (rule id_take_nth_drop)
  then have "table_blocks s = concat (map thread_blocks (take i (sc_threads s) @ (sc_threads s ! i) # drop (Suc i) (sc_threads s)))"
    unfolding table_blocks_def by simp
  then show "table_blocks s = ?xs @ thread_blocks (sc_threads s ! i) @ ?ys" by simp
  show "table_blocks (set_thread i t s) = ?xs @ thread_blocks t @ ?ys" for t
    unfolding table_blocks_def set_thread_simps upd_conv_take_nth_drop [OF assms] by simp
qed

lemma table_ok_replace:
  assumes ok: "table_ok L B s" and i: "i < MAX_THREADS" and mem: "owners_ok L (mem, B')"
    and new: "\<forall>b\<in>set (thread_blocks t). B' (fst b) = Some (snd b)" "distinct (map fst (thread_blocks t))"
    and keep: "\<And>b. b \<in> set (table_blocks s) \<Longrightarrow> fst b \<notin> fst ` set (thread_blocks (sc_threads s ! i)) \<Longrightarrow>
      B' (fst b) = Some (snd b) \<and> fst b \<notin> fst ` set (thread_blocks t)"
    and wf: "length (th_slots t) = MAX_TLS_SLOTS" "length (th_name t) = 15" "th_state t = TFree \<Longrightarrow> thread_blocks t = []"
  shows "table_ok L B' ((set_thread i t s)\<lparr>sc_mem := mem\<rparr>)"
proof -
  have len: "length (sc_threads s) = MAX_THREADS" using ok by (simp add: table_ok_def)
  obtain xs ys where split: "table_blocks s = xs @ thread_blocks (sc_threads s ! i) @ ys" "\<And>t. table_blocks (set_thread i t s) = xs @ thread_blocks t @ ys"
    by (rule table_blocks_split [of i s]) (use i len in auto)
  have d: "distinct (map fst (xs @ thread_blocks (sc_threads s ! i) @ ys))" using ok split(1) by (simp add: table_ok_def)
  have rest: "B' (fst b) = Some (snd b) \<and> fst b \<notin> fst ` set (thread_blocks t)" if "b \<in> set xs \<union> set ys" for b
    by (rule keep) (use that d split(1) in auto)
  have blocks: "table_blocks ((set_thread i t s)\<lparr>sc_mem := mem\<rparr>) = xs @ thread_blocks t @ ys"
    using split(2) [of t] by (simp add: table_blocks_def)
  have "fst ` (set xs \<union> set ys) \<inter> fst ` set (thread_blocks t) = {}" using rest by blast
  then have "distinct (map fst (xs @ thread_blocks t @ ys))" using d new(2) by (simp add: image_Un) blast
  moreover have "\<forall>b\<in>set (xs @ thread_blocks t @ ys). B' (fst b) = Some (snd b)" using new(1) rest by auto
  moreover have "\<forall>u\<in>set ((sc_threads s)[i := t]). length (th_slots u) = MAX_TLS_SLOTS \<and> length (th_name u) = 15 \<and> (th_state u = TFree \<longrightarrow> thread_blocks u = [])"
    using ok wf set_update_subset_insert [of "sc_threads s" i t] unfolding table_ok_def by blast
  ultimately show ?thesis using ok mem unfolding table_ok_def blocks by simp
qed

lemma table_ok_thread:
  assumes "table_ok L B s" "i < MAX_THREADS"
  shows "length (th_slots (sc_threads s ! i)) = MAX_TLS_SLOTS" "length (th_name (sc_threads s ! i)) = 15"
    "distinct (map fst (thread_blocks (sc_threads s ! i)))" "b \<in> set (thread_blocks (sc_threads s ! i)) \<Longrightarrow> B (fst b) = Some (snd b)"
    "b \<in> set (thread_blocks (sc_threads s ! i)) \<Longrightarrow> b \<in> set (table_blocks s)" "th_state (sc_threads s ! i) = TFree \<Longrightarrow> thread_blocks (sc_threads s ! i) = []"
proof -
  have mem: "sc_threads s ! i \<in> set (sc_threads s)" using assms by (simp add: table_ok_def)
  then show "length (th_slots (sc_threads s ! i)) = MAX_TLS_SLOTS" "length (th_name (sc_threads s ! i)) = 15"
    "th_state (sc_threads s ! i) = TFree \<Longrightarrow> thread_blocks (sc_threads s ! i) = []" using assms(1) by (auto simp: table_ok_def)
  obtain xs ys where split: "table_blocks s = xs @ thread_blocks (sc_threads s ! i) @ ys"
    by (rule table_blocks_split [of i s]) (use assms in \<open>auto simp: table_ok_def\<close>)
  then show "distinct (map fst (thread_blocks (sc_threads s ! i)))" using assms(1) by (simp add: table_ok_def)
  show "b \<in> set (thread_blocks (sc_threads s ! i)) \<Longrightarrow> b \<in> set (table_blocks s)" using split by simp
  then show "b \<in> set (thread_blocks (sc_threads s ! i)) \<Longrightarrow> B (fst b) = Some (snd b)" using assms(1) by (simp add: table_ok_def)
qed

text \<open>Giving back all that a thread holds.\<close>

lemma give_thread:
  assumes "owners_ok L (mem, B)" "\<forall>b\<in>set (thread_blocks t). B (fst b) = Some (snd b)" "distinct (map fst (thread_blocks t))"
  obtains B' where "owners_ok L (tls_release L (th_tls t) (if th_stack_size t \<noteq> 0 then snd (bare_give L (th_stack t) (th_stack_size t) mem) else mem), B')"
    "\<And>a. a \<notin> fst ` set (thread_blocks t) \<Longrightarrow> B' a = B a"
proof -
  let ?mem = "if th_stack_size t \<noteq> 0 then snd (bare_give L (th_stack t) (th_stack_size t) mem) else mem"
  obtain B1 where B1: "owners_ok L (?mem, B1)" "B1 = B \<or> th_stack_size t \<noteq> 0 \<and> B1 = B(th_stack t := None)"
  proof (cases "th_stack_size t = 0")
    case False
    then have "B (th_stack t) = Some (th_stack_size t)" using assms(2) by (simp add: thread_blocks_def)
    from give_owner [OF assms(1) this] obtain B' where "owners_ok L (snd (bare_give L (th_stack t) (th_stack_size t) mem), B')"
      "B' = B \<or> B' = B(th_stack t := None)" by blast
    then show ?thesis using that [of B'] False by simp
  qed (use that assms(1) in auto)
  show ?thesis
  proof (cases "tb_size (th_tls t) = 0")
    case True
    then show ?thesis using that [of B1] B1 by (auto simp: tls_release_def thread_blocks_def)
  next
    case False
    have "B (tb_base (th_tls t)) = Some (tb_size (th_tls t))" "th_stack_size t \<noteq> 0 \<Longrightarrow> tb_base (th_tls t) \<noteq> th_stack t"
      using assms(2,3) False by (auto simp: thread_blocks_def)
    then have "B1 (tb_base (th_tls t)) = Some (tb_size (th_tls t))" using B1(2) by auto
    from give_owner [OF B1(1) this] obtain B2 where
      B2: "owners_ok L (snd (bare_give L (tb_base (th_tls t)) (tb_size (th_tls t)) ?mem), B2)" "B2 = B1 \<or> B2 = B1(tb_base (th_tls t) := None)" by blast
    show ?thesis
    proof (rule that [of B2])
      show "owners_ok L (tls_release L (th_tls t) ?mem, B2)" using B2(1) False by (simp add: tls_release_def)
      show "B2 a = B a" if "a \<notin> fst ` set (thread_blocks t)" for a
        using that B2(2) B1(2) False by (auto simp: thread_blocks_def split: if_splits)
    qed
  qed
qed

lemma reclaim_one_ok:
  assumes ok: "table_ok L B s" and i: "i < MAX_THREADS"
  obtains B' where "table_ok L B' (reclaim_one L i s)" "\<And>a. a \<notin> fst ` set (table_blocks s) \<Longrightarrow> B' a = B a"
    "set (table_blocks (reclaim_one L i s)) \<subseteq> set (table_blocks s)"
proof (cases "i = sc_current s \<or> th_state (sc_threads s ! i) \<noteq> TFinished \<or> \<not> th_reclaim (sc_threads s ! i)")
  case True
  then show ?thesis using that [of B] ok by (simp add: reclaim_one_def Let_def)
next
  case False
  let ?t = "sc_threads s ! i"
  define mem where "mem = tls_release L (th_tls ?t) (if th_stack_size ?t \<noteq> 0 then snd (bare_give L (th_stack ?t) (th_stack_size ?t) (sc_mem s)) else sc_mem s)"
  note t = table_ok_thread [OF ok i]
  have own: "owners_ok L (sc_mem s, B)" using ok by (simp add: table_ok_def)
  obtain B' where B': "owners_ok L (mem, B')" "\<And>a. a \<notin> fst ` set (thread_blocks ?t) \<Longrightarrow> B' a = B a"
    unfolding mem_def by (rule give_thread [OF own _ t(3)]) (use t(4) in auto)
  have run: "reclaim_one L i s = (set_thread i EMPTY_THREAD s)\<lparr>sc_mem := mem\<rparr>"
    using False by (simp add: reclaim_one_def Let_def mem_def set_thread_def)
  have "table_ok L B' ((set_thread i EMPTY_THREAD s)\<lparr>sc_mem := mem\<rparr>)"
    by (rule table_ok_replace [OF ok i B'(1)]) (use B'(2) ok in \<open>auto simp: table_ok_def\<close>)
  moreover have "set (table_blocks (reclaim_one L i s)) \<subseteq> set (table_blocks s)"
  proof -
    obtain xs ys where "table_blocks s = xs @ thread_blocks ?t @ ys" "\<And>t. table_blocks (set_thread i t s) = xs @ thread_blocks t @ ys"
      by (rule table_blocks_split [of i s]) (use i ok in \<open>auto simp: table_ok_def\<close>)
    then show ?thesis unfolding run by (auto simp: table_blocks_def)
  qed
  moreover have "fst ` set (thread_blocks ?t) \<subseteq> fst ` set (table_blocks s)" using t(5) by blast
  then have "B' a = B a" if "a \<notin> fst ` set (table_blocks s)" for a using B'(2) that by blast
  ultimately show ?thesis using that [of B'] run by simp
qed

text \<open>What changes hands: owners outside the table are as before.\<close>

definition keeps_others :: "sched \<Rightarrow> blocks \<Rightarrow> blocks \<Rightarrow> bool" where
  "keeps_others s B B' \<longleftrightarrow> (\<forall>a. a \<notin> fst ` set (table_blocks s) \<longrightarrow> B' a = B a)"

lemma reclaim_fold_ok:
  assumes "table_ok L B s" "set is \<subseteq> {..<MAX_THREADS}"
  shows "\<exists>B'. table_ok L B' (fold (reclaim_one L) is s) \<and> keeps_others s B B' \<and> set (table_blocks (fold (reclaim_one L) is s)) \<subseteq> set (table_blocks s)"
  using assms
proof (induction "is" arbitrary: s B)
  case Nil
  then show ?case by (intro exI [of _ B]) (simp add: keeps_others_def)
next
  case (Cons i "is")
  have i: "i < MAX_THREADS" using Cons.prems(2) by simp
  obtain B1 where B1: "table_ok L B1 (reclaim_one L i s)" "\<And>a. a \<notin> fst ` set (table_blocks s) \<Longrightarrow> B1 a = B a"
    "set (table_blocks (reclaim_one L i s)) \<subseteq> set (table_blocks s)"
    by (rule reclaim_one_ok [OF Cons.prems(1) i]) blast
  obtain B2 where B2: "table_ok L B2 (fold (reclaim_one L) is (reclaim_one L i s))" "keeps_others (reclaim_one L i s) B1 B2"
    "set (table_blocks (fold (reclaim_one L) is (reclaim_one L i s))) \<subseteq> set (table_blocks (reclaim_one L i s))"
    using Cons.IH [OF B1(1)] Cons.prems(2) by auto
  have sub: "fst ` set (table_blocks (reclaim_one L i s)) \<subseteq> fst ` set (table_blocks s)" using B1(3) by blast
  have "keeps_others s B B2" unfolding keeps_others_def
  proof (intro allI impI)
    fix a
    assume "a \<notin> fst ` set (table_blocks s)"
    then show "B2 a = B a" using B1(2) B2(2) sub unfolding keeps_others_def by (metis subsetD)
  qed
  then show ?case using B2(1,3) B1(3) by (intro exI [of _ B2]) auto
qed

lemma reclaim_finished_ok:
  assumes "table_ok L B s"
  shows "\<exists>B'. table_ok L B' (reclaim_finished L s) \<and> keeps_others s B B' \<and> set (table_blocks (reclaim_finished L s)) \<subseteq> set (table_blocks s)"
  unfolding reclaim_finished_def by (rule reclaim_fold_ok [OF assms]) auto

text \<open>Which entries a sweep empties: exactly those that finished and are to be reclaimed, never the running one.\<close>

lemma reclaim_one_entry:
  "sc_current (reclaim_one L i s) = sc_current s" "sc_keys (reclaim_one L i s) = sc_keys s"
  "length (sc_threads (reclaim_one L i s)) = length (sc_threads s)"
  "j < length (sc_threads s) \<Longrightarrow> sc_threads (reclaim_one L i s) ! j =
     (if j = i \<and> i \<noteq> sc_current s \<and> th_state (sc_threads s ! j) = TFinished \<and> th_reclaim (sc_threads s ! j) then EMPTY_THREAD else sc_threads s ! j)"
  by (simp_all add: reclaim_one_def Let_def set_thread_def) (cases "j = i"; auto)

lemma reclaim_fold_entry:
  "sc_current (fold (reclaim_one L) is s) = sc_current s \<and> sc_keys (fold (reclaim_one L) is s) = sc_keys s
   \<and> length (sc_threads (fold (reclaim_one L) is s)) = length (sc_threads s)
   \<and> (j < length (sc_threads s) \<longrightarrow> sc_threads (fold (reclaim_one L) is s) ! j =
     (if j \<in> set is \<and> j \<noteq> sc_current s \<and> th_state (sc_threads s ! j) = TFinished \<and> th_reclaim (sc_threads s ! j) then EMPTY_THREAD else sc_threads s ! j))"
proof (induction "is" arbitrary: s)
  case (Cons i "is")
  note IH = Cons [of "reclaim_one L i s"] and one = reclaim_one_entry(1-3) [of L i s] reclaim_one_entry(4) [where L = L and i = i and s = s and j = j]
  show ?case
  proof (cases "j < length (sc_threads s)")
    case True
    have e: "sc_threads (fold (reclaim_one L) (i # is) s) ! j =
        (if j \<in> set is \<and> j \<noteq> sc_current s \<and> th_state (sc_threads (reclaim_one L i s) ! j) = TFinished \<and> th_reclaim (sc_threads (reclaim_one L i s) ! j)
         then EMPTY_THREAD else sc_threads (reclaim_one L i s) ! j)" using IH one True by simp
    show ?thesis using IH one e True by auto
  qed (use IH one in auto)
qed simp

lemma reclaim_finished_entry:
  "sc_current (reclaim_finished L s) = sc_current s" "sc_keys (reclaim_finished L s) = sc_keys s"
  "length (sc_threads (reclaim_finished L s)) = length (sc_threads s)"
  "length (sc_threads s) = MAX_THREADS \<Longrightarrow> j < MAX_THREADS \<Longrightarrow> sc_threads (reclaim_finished L s) ! j =
     (if j \<noteq> sc_current s \<and> th_state (sc_threads s ! j) = TFinished \<and> th_reclaim (sc_threads s ! j) then EMPTY_THREAD else sc_threads s ! j)"
  unfolding reclaim_finished_def using reclaim_fold_entry [of L "[0..<MAX_THREADS]" s] by auto

lemma live_reclaim: "length (sc_threads s) = MAX_THREADS \<Longrightarrow> live (reclaim_finished L s) j = live s j"
  using reclaim_finished_entry(4) [where s = s and j = j and L = L] by (auto simp: live_def split: if_splits)

text \<open>Scheduling keeps the table well formed and hands the processor to a live thread.\<close>

lemma table_ok_current: "table_ok L B s \<Longrightarrow> i < MAX_THREADS \<Longrightarrow> table_ok L B (s\<lparr>sc_current := i\<rparr>)"
  by (simp add: table_ok_def table_blocks_def)

lemma schedule_ok:
  assumes ok: "table_ok L B s" and run: "schedule L s = (b, s')"
  shows "(\<exists>B'. table_ok L B' s' \<and> keeps_others s B B') \<and> (if b then live s (sc_current s') else sc_current s' = sc_current s \<and> (\<forall>j. live s j \<longrightarrow> j = sc_current s))"
proof -
  have len: "length (sc_threads s) = MAX_THREADS" and c: "sc_current s < MAX_THREADS" using ok by (auto simp: table_ok_def)
  let ?r = "reclaim_finished L s"
  obtain B' where B': "table_ok L B' ?r" "keeps_others s B B'" using reclaim_finished_ok [OF ok] by blast
  note e = reclaim_finished_entry(1) [of L s]
  show ?thesis
  proof (cases "next_live (sc_current ?r) ?r")
    case None
    then have "b = False" "s' = ?r" using run by (auto simp: schedule_def)
    then show ?thesis using B' None next_live_None [of "sc_current s" ?r] c e live_reclaim [OF len] by auto
  next
    case (Some i)
    then have s': "b" "s' = ?r\<lparr>sc_current := i\<rparr>" using run by (auto simp: schedule_def)
    have "live s i" using next_live_Some(1) [of "sc_current s" ?r i] Some c e live_reclaim [OF len] by simp
    then show ?thesis using s' B' table_ok_current [OF B'(1), of i] by (auto simp: live_def)
  qed
qed

text \<open>
  Threads that only give up the processor are all served: each live thread runs again after as many
  turns as there are places to it.
\<close>

lemma next_live_live:
  assumes "\<And>j. live s' j = live s j"
  shows "next_live c s' = next_live c s"
proof -
  have "th_state (sc_threads s ! (x mod MAX_THREADS)) = TLive \<longleftrightarrow> live s (x mod MAX_THREADS)" for x s
    by (simp add: live_def MAX_THREADS_def)
  then show ?thesis using assms by (simp only: next_live_def)
qed

lemma turns_live:
  assumes "\<And>j. live s' j = live s j"
  shows "turns n s' c = turns n s c"
  using next_live_live [OF assms] by (induction n arbitrary: c) (auto split: option.splits)

lemma schedules_turns:
  assumes "length (sc_threads s) = MAX_THREADS"
  shows "sc_current (((\<lambda>s. snd (schedule L s)) ^^ n) s) = turns n s (sc_current s)"
  using assms
proof (induction n arbitrary: s)
  case (Suc n)
  let ?s = "snd (schedule L s)"
  note e = reclaim_finished_entry [where L = L and s = s] and lr = live_reclaim [OF Suc.prems, of L]
  have live: "live ?s j = live s j" for j using lr by (auto simp: schedule_def Let_def live_def split: option.splits)
  have len: "length (sc_threads ?s) = MAX_THREADS" using Suc.prems e(3) by (auto simp: schedule_def Let_def split: option.splits)
  have at: "sc_current ?s = (case next_live (sc_current s) s of None \<Rightarrow> sc_current s | Some i \<Rightarrow> i)"
    using e(1) next_live_live [of "reclaim_finished L s" s, OF lr] by (auto simp: schedule_def Let_def split: option.splits)
  have "sc_current (((\<lambda>s. snd (schedule L s)) ^^ Suc n) s) = turns n s (sc_current ?s)"
    using Suc.IH [OF len] turns_live [OF live] by (simp add: funpow_Suc_right del: funpow.simps)
  then show ?case using at turns_stuck by (auto split: option.splits)
qed simp

lemma schedules_reach:
  assumes "length (sc_threads s) = MAX_THREADS" "sc_current s < MAX_THREADS" "live s j"
  shows "\<exists>n\<le>ahead (sc_current s) j. sc_current (((\<lambda>s. snd (schedule L s)) ^^ n) s) = j"
  using turns_reach [OF assms(2,3)] schedules_turns [OF assms(1)] by auto

section \<open>Creating and joining\<close>

lemma round_up_page:
  assumes "n + BPAGE \<le> USIZE_MAX"
  shows "n \<le> round_up n BPAGE" "round_up n BPAGE mod BPAGE = 0" "round_up n BPAGE < n + BPAGE"
proof -
  have pow: "is_power_of_two BPAGE" by (simp add: BPAGE_def is_power_of_two_iff) (rule exI [of _ 12], simp)
  have small: "n + BPAGE - 1 \<le> USIZE_MAX" "n + BPAGE - 1 < 2 ^ 64" using assms by (auto simp: BPAGE_def width_simps)
  have "round_up n BPAGE = (n + BPAGE - 1) - (n + BPAGE - 1) mod BPAGE"
    unfolding round_up_def using mask_down_pow2 [OF small(1) pow] small(2) by simp
  then show "n \<le> round_up n BPAGE" "round_up n BPAGE mod BPAGE = 0" "round_up n BPAGE < n + BPAGE"
    using mod_less_divisor [of BPAGE "n + BPAGE - 1"] by (auto simp: BPAGE_def minus_mod_eq_mult_div)
qed

text \<open>The linker's TLS image lies below the heap, in at least as many bytes as are initialized.\<close>

definition image_ok :: "layout \<Rightarrow> image \<Rightarrow> bool" where
  "image_ok L im \<longleftrightarrow> im_initialized im \<le> im_total im \<and> im_tdata im + im_initialized im \<le> heap_low L
     \<and> TCB + im_total im + BPAGE \<le> USIZE_MAX \<and> im_trampoline im < 2 ^ 64"

lemma bare_store_simps [simp]:
  "ba_region (bare_store m st) = ba_region st" "mm_table (ba_mmu (bare_store m st)) = mm_table (ba_mmu st)" "mm_bytes (ba_mmu (bare_store m st)) = m"
  by (simp_all add: bare_store_def)

lemma took_store: "took L sz al a st st' \<Longrightarrow> took L sz al a st (bare_store m st')"
  unfolding took_def bare_ok_def page_valid_def same_but_def bare_store_simps .

text \<open>A TLS block is a copy of the image behind a zeroed control block, and zero after it.\<close>

lemma tls_allocate_total:
  assumes ok: "bare_ok L st" and im: "image_ok L im"
  shows "tls_allocate L im st = Some (None, st)
    \<or> (\<exists>b st'. tls_allocate L im st = Some (Some b, st') \<and> took L (tb_size b) BPAGE (tb_base b) st st' \<and> tb_pointer b = tb_base b
         \<and> TCB + im_total im \<le> tb_size b \<and> (\<forall>x. x \<notin> span (tb_base b, tb_base b + tb_size b) \<longrightarrow> mm_bytes (ba_mmu st') x = mm_bytes (ba_mmu st) x)
         \<and> (\<forall>x<tb_size b. mm_bytes (ba_mmu st') (tb_base b + x) =
              (if TCB \<le> x \<and> x < TCB + im_initialized im then mm_bytes (ba_mmu st) (im_tdata im + (x - TCB)) else 0)))"
proof -
  define sz where "sz = round_up (TCB + im_total im) BPAGE"
  have sz: "TCB + im_total im \<le> sz" using round_up_page(1) [of "TCB + im_total im"] im by (simp add: sz_def image_ok_def)
  show ?thesis using bare_take_total [OF ok, of sz BPAGE]
  proof
    assume "\<exists>a st'. bare_take L sz BPAGE st = Some (Some a, st') \<and> took L sz BPAGE a st st'
      \<and> mm_bytes (ba_mmu st') = mm_bytes (ba_mmu st) \<and> (\<forall>x\<in>span (a, a + sz). ba_valid st' x)"
    then obtain a st1 where t: "bare_take L sz BPAGE st = Some (Some a, st1)" "took L sz BPAGE a st st1" "mm_bytes (ba_mmu st1) = mm_bytes (ba_mmu st)" by blast
    have free: "span (a, a + sz) \<subseteq> ba_free st" "0 < sz" using t(2) by (auto simp: took_def)
    note inside = free_within [OF ok free]
    let ?m = "copy_bytes (im_tdata im) (a + TCB) (im_initialized im) (write_zeros a sz (mm_bytes (ba_mmu st1)))"
    let ?b = "\<lparr>tb_base = a, tb_size = sz, tb_pointer = a\<rparr>"
    have run: "tls_allocate L im st = Some (Some ?b, bare_store ?m st1)" using t(1) by (simp add: tls_allocate_def Let_def sz_def)
    have img: "im_initialized im \<le> im_total im" "im_tdata im + im_initialized im \<le> a" using im inside(1) by (auto simp: image_ok_def)
    have out: "?m x = mm_bytes (ba_mmu st) x" if "x \<notin> span (a, a + sz)" for x
      using that sz img t(3) by (auto simp: copy_bytes_def write_zeros_def span_def)
    have into: "?m (a + x) = (if TCB \<le> x \<and> x < TCB + im_initialized im then mm_bytes (ba_mmu st) (im_tdata im + (x - TCB)) else 0)" if "x < sz" for x
      using that img t(3) by (auto simp: copy_bytes_def write_zeros_def)
    show ?thesis using run took_store [OF t(2)] sz out into
      by (intro disjI2 exI [of _ ?b] exI [of _ "bare_store ?m st1"]) auto
  qed (simp add: tls_allocate_def sz_def)
qed

lemma frame_loads:
  assumes "index < 2 ^ 64" "im_trampoline im < 2 ^ 64" "pointer < 2 ^ 64"
  shows "load64 (frame_bytes im frame index pointer m) frame = index" "load64 (frame_bytes im frame index pointer m) (frame + 88) = im_trampoline im"
    "load64 (frame_bytes im frame index pointer m) (frame + 96) = pointer"
    "\<not> (frame \<le> x \<and> x < frame + FRAME) \<Longrightarrow> frame_bytes im frame index pointer m x = m x"
proof -
  let ?a = "store64 frame index (write_zeros frame FRAME m)"
  let ?b = "store64 (frame + 88) (im_trampoline im) ?a"
  have "load64 (store64 (frame + 96) pointer ?b) frame = load64 ?b frame" "load64 ?b frame = load64 ?a frame"
    by (rule load64_cong; simp add: store64_def)+
  then show "load64 (frame_bytes im frame index pointer m) frame = index" using assms(1) by (simp add: frame_bytes_def)
  have "load64 (store64 (frame + 96) pointer ?b) (frame + 88) = load64 ?b (frame + 88)" by (rule load64_cong) (simp add: store64_def)
  then show "load64 (frame_bytes im frame index pointer m) (frame + 88) = im_trampoline im" using assms(2) by (simp add: frame_bytes_def)
  show "load64 (frame_bytes im frame index pointer m) (frame + 96) = pointer" using assms(3) by (simp add: frame_bytes_def)
  show "\<not> (frame \<le> x \<and> x < frame + FRAME) \<Longrightarrow> frame_bytes im frame index pointer m x = m x"
    by (auto simp: frame_bytes_def store64_def write_zeros_def FRAME_def)
qed

text \<open>A new thread: live, on its own stack of at least the size asked for, with the frame that starts it.\<close>

definition created :: "image \<Rightarrow> nat \<Rightarrow> nat \<Rightarrow> nat \<Rightarrow> nat \<Rightarrow> sched \<Rightarrow> bool" where
  "created im entry argument stack_size i s \<longleftrightarrow> (let t = sc_threads s ! i in
     th_state t = TLive \<and> th_entry t = Some entry \<and> th_argument t = argument \<and> \<not> th_detached t
     \<and> th_slots t = replicate MAX_TLS_SLOTS 0 \<and> stack_size \<le> th_stack_size t \<and> MIN_STACK \<le> th_stack_size t
     \<and> th_stack_low t = th_stack t \<and> th_stack_high t = th_stack t + th_stack_size t
     \<and> th_stack_low t \<le> th_sp t \<and> th_sp t + FRAME = th_stack_high t \<and> th_sp t mod 16 = 0
     \<and> load64 (bytes_of s) (th_sp t) = i \<and> load64 (bytes_of s) (th_sp t + 88) = im_trampoline im
     \<and> load64 (bytes_of s) (th_sp t + 96) = tb_pointer (th_tls t))"

lemma frame_place:
  assumes "stack mod BPAGE = 0" "sz mod BPAGE = 0" "MIN_STACK \<le> sz" "stack + sz \<le> USIZE_MAX"
  shows "mask_down (stack + sz - FRAME) 16 = stack + sz - FRAME" "(stack + sz - FRAME) mod 16 = 0" "stack \<le> stack + sz - FRAME"
    "stack + sz - FRAME + FRAME = stack + sz"
proof -
  have pow: "is_power_of_two 16" by (simp add: is_power_of_two_iff) (rule exI [of _ 4], simp)
  have "16 dvd BPAGE" by (simp add: BPAGE_def)
  then have "16 dvd stack" "16 dvd sz" using assms(1,2) by (auto intro: dvd_trans)
  then show z: "(stack + sz - FRAME) mod 16 = 0" by (simp add: FRAME_def dvd_diff_nat mod_eq_0_iff_dvd)
  have "stack + sz - FRAME \<le> USIZE_MAX" using assms(4) by simp
  from mask_down_pow2 [OF this pow] z show "mask_down (stack + sz - FRAME) 16 = stack + sz - FRAME" by simp
  show "stack \<le> stack + sz - FRAME" "stack + sz - FRAME + FRAME = stack + sz" using assms(3) by (simp_all add: MIN_STACK_def FRAME_def)
qed

definition stack_bytes :: "nat \<Rightarrow> nat" where
  "stack_bytes stack_size = round_up (if stack_size = 0 then DEFAULT_STACK else max stack_size MIN_STACK) BPAGE"

lemma stack_bytes_bounds:
  assumes "stack_size \<le> ISIZE_MAX"
  shows "stack_size \<le> stack_bytes stack_size" "MIN_STACK \<le> stack_bytes stack_size" "stack_bytes stack_size mod BPAGE = 0" "0 < stack_bytes stack_size"
proof -
  let ?n = "if stack_size = 0 then DEFAULT_STACK else max stack_size MIN_STACK"
  have "?n + BPAGE \<le> USIZE_MAX" using assms by (simp add: DEFAULT_STACK_def MIN_STACK_def BPAGE_def width_simps)
  note r = round_up_page [OF this]
  show "stack_bytes stack_size mod BPAGE = 0" using r(2) by (simp add: stack_bytes_def)
  show m: "MIN_STACK \<le> stack_bytes stack_size" "stack_size \<le> stack_bytes stack_size"
    using r(1) by (auto simp: stack_bytes_def DEFAULT_STACK_def MIN_STACK_def split: if_splits)
  show "0 < stack_bytes stack_size" using m(1) by (simp add: MIN_STACK_def)
qed

text \<open>The owners after a creation: the new thread's two blocks, which met nobody's, and everyone else as before.\<close>

lemma bthread_create_total:
  assumes ok: "table_ok L B s" and im: "image_ok L im" and n: "stack_size \<le> ISIZE_MAX"
  shows "\<exists>r s' B'. bthread_create L im entry argument stack_size s = Some (r, s') \<and> table_ok L B' s' \<and> (\<forall>a. B a \<noteq> None \<longrightarrow> B' a = B a)
    \<and> sc_current s' = sc_current s
    \<and> (case r of
         Inl e \<Rightarrow> e = OutOfMemory \<and> sc_threads s' = sc_threads s
       | Inr i \<Rightarrow> i < MAX_THREADS \<and> th_state (sc_threads s ! i) = TFree \<and> created im entry argument stack_size i s'
           \<and> (\<forall>j<MAX_THREADS. j \<noteq> i \<longrightarrow> sc_threads s' ! j = sc_threads s ! j))"
proof (cases "find (\<lambda>i. th_state (sc_threads s ! i) = TFree) [0..<MAX_THREADS]")
  case None
  then show ?thesis using ok by (intro exI [of _ "Inl OutOfMemory"] exI [of _ s] exI [of _ B]) (simp add: bthread_create_def)
next
  case (Some index)
  then have i: "index < MAX_THREADS" "th_state (sc_threads s ! index) = TFree" by (auto simp: find_first)
  have len: "length (sc_threads s) = MAX_THREADS" and own: "owners_ok L (sc_mem s, B)" using ok by (auto simp: table_ok_def)
  have bok: "bare_ok L (sc_mem s)" using own by (simp add: owners_ok_def)
  define sz where "sz = stack_bytes stack_size"
  note sz = stack_bytes_bounds [OF n, folded sz_def]
  note code = bthread_create_def [of L im entry argument stack_size s, unfolded Some option.case stack_bytes_def [symmetric] Let_def, folded sz_def]
  from bare_take_total [OF bok, of sz BPAGE] consider
      (full) "bare_take L sz BPAGE (sc_mem s) = Some (None, sc_mem s)"
    | (got) stack mem where "bare_take L sz BPAGE (sc_mem s) = Some (Some stack, mem)" "took L sz BPAGE stack (sc_mem s) mem" by blast
  then show ?thesis
  proof cases
    case full
    then have "bthread_create L im entry argument stack_size s = Some (Inl OutOfMemory, s)" unfolding code by simp
    then show ?thesis using ok by (intro exI [of _ "Inl OutOfMemory"] exI [of _ s] exI [of _ B]) simp
  next
    case got
    note o1 = owners_ok_take [OF own got(2)]
    have mok: "bare_ok L mem" using got(2) by (simp add: took_def)
    have fresh: "B stack = None" using misses_fresh [OF o1(2), of "heap_high L"] own sz(4) by (simp add: owners_ok_def)
    from tls_allocate_total [OF mok im] consider
        (no_tls) "tls_allocate L im mem = Some (None, mem)"
      | (tls) b mem2 where "tls_allocate L im mem = Some (Some b, mem2)" "took L (tb_size b) BPAGE (tb_base b) mem mem2" "tb_pointer b = tb_base b" by blast
    then show ?thesis
    proof cases
      case no_tls
      obtain B' where B': "owners_ok L (snd (bare_give L stack sz mem), B')" "B' = B(stack \<mapsto> sz) \<or> B' = (B(stack \<mapsto> sz))(stack := None)"
        by (rule give_owner [OF o1(1), of stack sz]) auto
      have run: "bthread_create L im entry argument stack_size s = Some (Inl OutOfMemory, s\<lparr>sc_mem := snd (bare_give L stack sz mem)\<rparr>)"
        unfolding code using got(1) no_tls by simp
      have keep: "B' a = B a" if "B a \<noteq> None" for a using that B'(2) fresh by auto
      have "table_ok L B' (s\<lparr>sc_mem := snd (bare_give L stack sz mem)\<rparr>)"
        using ok B'(1) keep unfolding table_ok_def table_blocks_def by simp
      then show ?thesis using run keep by (intro exI [of _ "Inl OutOfMemory"] exI [of _ "s\<lparr>sc_mem := snd (bare_give L stack sz mem)\<rparr>"] exI [of _ B']) simp
    next
      case tls
      let ?B = "B(stack \<mapsto> sz)" and ?frame = "stack + sz - FRAME"
      let ?B2 = "?B(tb_base b \<mapsto> tb_size b)"
      note o2 = owners_ok_take [OF o1(1) tls(2)]
      have bsz: "0 < tb_size b" using tls(2) by (simp add: took_def)
      have fresh2: "?B (tb_base b) = None" using misses_fresh [OF o2(2), of "heap_high L"] o1(1) bsz by (simp add: owners_ok_def)
      have al: "stack mod BPAGE = 0" using got(2) by (simp add: took_def)
      have hi: "stack + sz \<le> heap_high L" "tb_base b + tb_size b \<le> heap_high L" "heap_high L < 2 ^ 63"
        using free_within(2) [OF bok _ sz(4), of stack] free_within(2) [OF mok _ bsz, of "tb_base b"] got(2) tls(2) bare_okD(1) [OF bok]
        by (auto simp: took_def layout_ok_def RAM_START_def RAM_PAGES_def BPAGE_def)
      have "stack + sz \<le> USIZE_MAX" using hi by (simp add: width_simps)
      note fr = frame_place [OF al sz(3,2) this]
      let ?mem = "bare_store (frame_bytes im ?frame index (tb_pointer b) (mm_bytes (ba_mmu mem2))) mem2"
      let ?t = "EMPTY_THREAD\<lparr>th_state := TLive, th_sp := ?frame, th_entry := Some entry, th_argument := argument,
         th_stack := stack, th_stack_size := sz, th_stack_low := stack, th_stack_high := stack + sz, th_tls := b\<rparr>"
      let ?s = "(set_thread index ?t s)\<lparr>sc_mem := ?mem\<rparr>"
      have run: "bthread_create L im entry argument stack_size s = Some (Inr index, ?s)"
        unfolding code using got(1) tls(1) fr(1) by (simp add: set_thread_def)
      have own2: "owners_ok L (?mem, ?B2)" using o2(1) by simp
      have keep: "?B2 a = B a" if "B a \<noteq> None" for a using that fresh fresh2 by auto
      have blocks: "thread_blocks ?t = [(stack, sz), (tb_base b, tb_size b)]" using sz(4) bsz by (simp add: thread_blocks_def)
      have wf: "length (th_slots ?t) = MAX_TLS_SLOTS" "length (th_name ?t) = 15" by (simp_all add: EMPTY_THREAD_def)
      have "table_ok L ?B2 ?s"
      proof (rule table_ok_replace [OF ok i(1) own2])
        show "\<forall>c\<in>set (thread_blocks ?t). ?B2 (fst c) = Some (snd c)" "distinct (map fst (thread_blocks ?t))"
          unfolding blocks using fresh2 by auto
        fix c
        assume c: "c \<in> set (table_blocks s)"
        then have "B (fst c) = Some (snd c)" using ok by (simp add: table_ok_def)
        then show "?B2 (fst c) = Some (snd c) \<and> fst c \<notin> fst ` set (thread_blocks ?t)"
          unfolding blocks using fresh fresh2 by (auto split: if_splits)
      qed (use wf in auto)
      moreover have "created im entry argument stack_size index ?s"
      proof -
        have "index < 2 ^ 64" "im_trampoline im < 2 ^ 64" "tb_pointer b < 2 ^ 64"
          using i(1) im hi bsz tls(3) by (auto simp: MAX_THREADS_def image_ok_def)
        note ld = frame_loads(1-3) [OF this, where frame = ?frame and m = "mm_bytes (ba_mmu mem2)"]
        have "bytes_of ?s = frame_bytes im ?frame index (tb_pointer b) (mm_bytes (ba_mmu mem2))" by (simp add: bytes_of_def)
        then show ?thesis using ld sz fr i len by (simp add: created_def Let_def EMPTY_THREAD_def)
      qed
      ultimately show ?thesis using run i keep
        by (intro exI [of _ "Inr index"] exI [of _ ?s] exI [of _ ?B2] conjI) auto
    qed
  qed
qed

text \<open>A handle is the address of its entry, and only such addresses are accepted.\<close>

lemma index_of_handle: "0 < sz \<Longrightarrow> i < n \<Longrightarrow> index_of base sz n (handle_of base sz i) = Some i"
  by (simp add: index_of_def handle_of_def Let_def)

lemma index_of_Some: "0 < sz \<Longrightarrow> index_of base sz n address = Some i \<longleftrightarrow> i < n \<and> address = handle_of base sz i"
  by (auto simp: index_of_def handle_of_def Let_def split: if_splits)

text \<open>Joining a finished thread empties its entry, and nobody else's.\<close>

lemma table_ok_flags:
  assumes "table_ok L B s" "i < MAX_THREADS"
  shows "table_ok L B (set_thread i ((sc_threads s ! i)\<lparr>th_reclaim := r, th_detached := d\<rparr>) s)"
proof -
  let ?t = "(sc_threads s ! i)\<lparr>th_reclaim := r, th_detached := d\<rparr>"
  note t = table_ok_thread [OF assms]
  have own: "owners_ok L (sc_mem s, B)" using assms(1) by (simp add: table_ok_def)
  have eq: "thread_blocks ?t = thread_blocks (sc_threads s ! i)" by (simp add: thread_blocks_def)
  have "table_ok L B ((set_thread i ?t s)\<lparr>sc_mem := sc_mem s\<rparr>)"
    by (rule table_ok_replace [OF assms own]) (use t assms(1) in \<open>auto simp: eq table_ok_def\<close>)
  then show ?thesis by (simp add: set_thread_def)
qed

lemma join_end_ok:
  assumes ok: "table_ok L B s" and i: "i < MAX_THREADS" "i \<noteq> sc_current s" and fin: "join_ready i s"
  shows "\<exists>B'. table_ok L B' (join_end L i s) \<and> keeps_others s B B' \<and> sc_threads (join_end L i s) ! i = EMPTY_THREAD
    \<and> (\<forall>j<MAX_THREADS. live (join_end L i s) j = live s j)"
proof -
  let ?t = "(sc_threads s ! i)\<lparr>th_reclaim := True\<rparr>"
  let ?s = "set_thread i ?t s"
  have same: "(sc_threads s ! i)\<lparr>th_reclaim := True, th_detached := th_detached (sc_threads s ! i)\<rparr> = ?t" by (rule thread.equality) simp_all
  have ok': "table_ok L B ?s"
    using table_ok_flags [OF ok i(1), where r = True and d = "th_detached (sc_threads s ! i)"] unfolding same .
  obtain B' where B': "table_ok L B' (reclaim_finished L ?s)" "keeps_others ?s B B'" using reclaim_finished_ok [OF ok'] by blast
  have len: "length (sc_threads s) = MAX_THREADS" using ok by (simp add: table_ok_def)
  have "table_blocks ?s = table_blocks s"
  proof -
    obtain xs ys where "table_blocks s = xs @ thread_blocks (sc_threads s ! i) @ ys" "\<And>t. table_blocks (set_thread i t s) = xs @ thread_blocks t @ ys"
      by (rule table_blocks_split [of i s]) (use i len in auto)
    then show ?thesis by (simp add: thread_blocks_def)
  qed
  then have "keeps_others s B B'" using B'(2) by (simp add: keeps_others_def)
  moreover have "sc_threads (reclaim_finished L ?s) ! i = EMPTY_THREAD"
    using reclaim_finished_entry(4) [where s = ?s and j = i and L = L] len i fin by (simp add: join_ready_def)
  moreover have "live (reclaim_finished L ?s) j = live s j" if "j < MAX_THREADS" for j
    using live_reclaim [of ?s L j] len that by (cases "j = i") (auto simp: live_def)
  ultimately show ?thesis using B'(1) by (auto simp: join_end_def)
qed

section \<open>Thread-local slots\<close>

lemma key_index_Some: "key_index h s = Some i \<longleftrightarrow> i = h \<and> h < MAX_TLS_SLOTS \<and> ky_used (sc_keys s ! h)"
  by (auto simp: key_index_def)

text \<open>What a thread stores under a key is what it reads, and no other thread or key sees it.\<close>

lemma btls_set_get:
  assumes ok: "table_ok L B s" and set: "btls_set h v s = (Inr (), s')"
  shows "btls_get h s' = Inr v" "k \<noteq> h \<Longrightarrow> btls_get k s' = btls_get k s"
    "i < MAX_THREADS \<Longrightarrow> i \<noteq> sc_current s \<Longrightarrow> btls_get k (s'\<lparr>sc_current := i\<rparr>) = btls_get k (s\<lparr>sc_current := i\<rparr>)"
proof -
  have c: "sc_current s < MAX_THREADS" "length (sc_threads s) = MAX_THREADS" using ok by (auto simp: table_ok_def)
  have h: "h < MAX_TLS_SLOTS" "ky_used (sc_keys s ! h)" "s' = slot_put (sc_current s) h v s"
    using set by (auto simp: btls_set_def key_index_def split: if_splits)
  note t = table_ok_thread(1) [OF ok c(1)]
  show "btls_get h s' = Inr v" using h c t by (simp add: btls_get_def key_index_def slot_put_def Let_def)
  show "k \<noteq> h \<Longrightarrow> btls_get k s' = btls_get k s" using h c by (simp add: btls_get_def key_index_def slot_put_def Let_def)
  show "i < MAX_THREADS \<Longrightarrow> i \<noteq> sc_current s \<Longrightarrow> btls_get k (s'\<lparr>sc_current := i\<rparr>) = btls_get k (s\<lparr>sc_current := i\<rparr>)"
    using h c by (simp add: btls_get_def key_index_def slot_put_def Let_def)
qed

text \<open>A new key starts out null in every thread, whatever its slot held under an earlier key.\<close>

lemma btls_create_null:
  assumes ok: "table_ok L B s" and run: "btls_create d s = (Inr h, s')"
  shows "i < MAX_THREADS \<Longrightarrow> btls_get h (s'\<lparr>sc_current := i\<rparr>) = Inr 0" "\<not> ky_used (sc_keys s ! h)" "h < MAX_TLS_SLOTS"
proof -
  have len: "length (sc_threads s) = MAX_THREADS" "length (sc_keys s) = MAX_TLS_SLOTS" using ok by (auto simp: table_ok_def)
  have f: "find (\<lambda>i. \<not> ky_used (sc_keys s ! i)) [0..<MAX_TLS_SLOTS] = Some h"
    and s': "s' = s\<lparr>sc_keys := (sc_keys s)[h := \<lparr>ky_used = True, ky_destructor = d\<rparr>], sc_threads := map (\<lambda>t. t\<lparr>th_slots := (th_slots t)[h := 0]\<rparr>) (sc_threads s)\<rparr>"
    using run by (auto simp: btls_create_def split: option.splits)
  show h: "h < MAX_TLS_SLOTS" "\<not> ky_used (sc_keys s ! h)" using f by (auto simp: find_first)
  show "i < MAX_THREADS \<Longrightarrow> btls_get h (s'\<lparr>sc_current := i\<rparr>) = Inr 0"
    using h len table_ok_thread(1) [OF ok, of i] by (simp add: s' btls_get_def key_index_def)
qed

text \<open>
  Destructors that store nothing: after the sweeps every slot of the ending thread is null. A
  destructor that stores a value again is called at most four times per slot.
\<close>

definition stores_nothing :: "(nat \<Rightarrow> nat \<Rightarrow> sched \<Rightarrow> sched) \<Rightarrow> nat \<Rightarrow> bool" where
  "stores_nothing call i \<longleftrightarrow> (\<forall>d v s. length (sc_threads (call d v s)) = length (sc_threads s)
     \<and> th_slots (sc_threads (call d v s) ! i) = th_slots (sc_threads s ! i))"

lemma destroy_slot_slots:
  assumes "stores_nothing call i" "i < length (sc_threads s)"
  shows "length (sc_threads (snd (destroy_slot call i k (b, s)))) = length (sc_threads s)
    \<and> th_slots (sc_threads (snd (destroy_slot call i k (b, s))) ! i) = (th_slots (sc_threads s ! i))[k := 0]"
  using assms by (simp add: destroy_slot_def slot_put_def stores_nothing_def Let_def split: option.splits bool.splits)

lemma destroy_fold_slots:
  assumes "stores_nothing call i" "i < length (sc_threads s)"
  shows "length (sc_threads (snd (fold (destroy_slot call i) ks (b, s)))) = length (sc_threads s)
    \<and> length (th_slots (sc_threads (snd (fold (destroy_slot call i) ks (b, s))) ! i)) = length (th_slots (sc_threads s ! i))
    \<and> (\<forall>k<length (th_slots (sc_threads s ! i)). k \<in> set ks \<or> th_slots (sc_threads s ! i) ! k = 0 \<longrightarrow>
         th_slots (sc_threads (snd (fold (destroy_slot call i) ks (b, s))) ! i) ! k = 0)"
  using assms(2)
proof (induction ks arbitrary: b s)
  case (Cons k ks)
  obtain b' s' where d: "destroy_slot call i k (b, s) = (b', s')" by force
  have one: "length (sc_threads s') = length (sc_threads s)" "th_slots (sc_threads s' ! i) = (th_slots (sc_threads s ! i))[k := 0]"
    using destroy_slot_slots [OF assms(1) Cons.prems, of k b] d by auto
  have lt: "i < length (sc_threads s')" using one(1) Cons.prems by simp
  have zero: "th_slots (sc_threads s' ! i) ! j = 0" if "j < length (th_slots (sc_threads s ! i))" "j = k \<or> th_slots (sc_threads s ! i) ! j = 0" for j
    using that by (cases "j = k") (auto simp: one(2))
  show ?case using Cons.IH [OF lt, of b'] one zero d by auto
qed auto

lemma run_destructors_clear:
  assumes "stores_nothing call i" "i < length (sc_threads s)" "length (th_slots (sc_threads s ! i)) = MAX_TLS_SLOTS" "k < MAX_TLS_SLOTS"
  shows "th_slots (sc_threads (run_destructors call i s) ! i) ! k = 0"
proof -
  have sweep: "length (sc_threads (snd (destroy_sweep call i s))) = length (sc_threads s)
      \<and> length (th_slots (sc_threads (snd (destroy_sweep call i s)) ! i)) = MAX_TLS_SLOTS
      \<and> th_slots (sc_threads (snd (destroy_sweep call i s)) ! i) ! k = 0"
    if "i < length (sc_threads s)" "length (th_slots (sc_threads s ! i)) = MAX_TLS_SLOTS" for s
    using destroy_fold_slots [OF assms(1) that(1), of "[0..<MAX_TLS_SLOTS]" False] that(2) assms(4) by (auto simp: destroy_sweep_def)
  have "0 < n \<Longrightarrow> i < length (sc_threads s) \<Longrightarrow> length (th_slots (sc_threads s ! i)) = MAX_TLS_SLOTS \<Longrightarrow>
      th_slots (sc_threads (destroy_sweeps n call i s) ! i) ! k = 0" for n s
  proof (induction n arbitrary: s)
    case (Suc n)
    obtain again s' where d: "destroy_sweep call i s = (again, s')" by force
    have s': "length (sc_threads s') = length (sc_threads s)" "length (th_slots (sc_threads s' ! i)) = MAX_TLS_SLOTS" "th_slots (sc_threads s' ! i) ! k = 0"
      using sweep [OF Suc.prems(2,3)] d by auto
    then show ?case using d Suc.IH [of s'] Suc.prems by (cases "n = 0") auto
  qed simp
  then show ?thesis using assms(2,3) by (simp add: run_destructors_def)
qed

end
