(* ===== verification/Bare_Board.thy ===== *)
theory Bare_Board
  imports Bare_Heap Pal_Faults
begin

text \<open>
  The board services of the bare-metal port: the timer (\<open>clock.rs\<close>), the exception path (\<open>fault.rs\<close>),
  the serial port (\<open>uart.rs\<close>), leaving the machine (\<open>exit.rs\<close>) and the platform answers
  (\<open>platform.rs\<close>), all under \<open>src/examples/baremetal-aarch64/src\<close>. What the hardware registers hold is
  an argument; the serial port is the list of bytes written to it.
\<close>

section \<open>The clock\<close>

definition EPOCH_NS :: nat where "EPOCH_NS = 1767225600 * 1000000000"

definition checked_mul :: "nat \<Rightarrow> nat \<Rightarrow> nat option" where
  "checked_mul a b = (if a * b \<le> U64_MAX then Some (a * b) else None)"

text \<open>The product of the remainder is plain \<open>u64\<close> multiplication, so it wraps.\<close>

definition timer_ns :: "nat \<Rightarrow> nat \<Rightarrow> nat option" where
  "timer_ns frequency ticks =
     (if frequency = 0 \<or> 18000000000 < frequency then None
      else
        let seconds = ticks div frequency; rest = ticks mod frequency in
        Option.bind (checked_mul seconds 1000000000) (\<lambda>n.
          checked_add n ((rest * 1000000000) mod 2 ^ 64 div frequency)))"

definition bare_realtime_ns :: "nat \<Rightarrow> nat \<Rightarrow> nat result" where
  "bare_realtime_ns frequency ticks = ok_or (map_option (\<lambda>ns. saturating_add EPOCH_NS ns) (timer_ns frequency ticks)) Os"

text \<open>The deadline of a wait (\<open>deadline_for\<close> of \<open>objects.rs\<close>).\<close>

definition deadline_for :: "nat \<Rightarrow> nat option \<Rightarrow> nat option" where
  "deadline_for timeout_ns now =
     (if timeout_ns = U64_MAX then None
      else Some (saturating_add (case now of Some n \<Rightarrow> n | None \<Rightarrow> 0) timeout_ns))"

section \<open>The serial port\<close>

abbreviation ascii_zero :: byte where "ascii_zero \<equiv> 48"

function dec_digits :: "nat \<Rightarrow> byte list" where
  "dec_digits value =
     (ascii_zero + of_nat (value mod 10)) # (if value div 10 = 0 then [] else dec_digits (value div 10))"
  by pat_completeness auto
termination by (relation "measure id") auto

declare dec_digits.simps [simp del]

definition write_dec :: "nat \<Rightarrow> byte list" where
  "write_dec value = (let digits = dec_digits value; used = length digits in map (\<lambda>i. digits ! (used - 1 - i)) [0..<used])"

definition hex_digit :: "nat \<Rightarrow> byte" where
  "hex_digit n = (if n < 10 then 48 + of_nat n else 87 + of_nat n)"

definition write_hex :: "64 word \<Rightarrow> byte list" where
  "write_hex value = [48, 120] @ map (\<lambda>i. hex_digit (unat (drop_bit (60 - 4 * i) value AND 0xf))) [0..<16]"

section \<open>Exceptions\<close>

abbreviation FAULT_ALIGNMENT :: nat where "FAULT_ALIGNMENT \<equiv> 2"
abbreviation FAULT_FLOATING_POINT :: nat where "FAULT_FLOATING_POINT \<equiv> 5"
abbreviation FAULT_ILLEGAL_INSTRUCTION :: nat where "FAULT_ILLEGAL_INSTRUCTION \<equiv> 6"
abbreviation FAULT_BREAKPOINT :: nat where "FAULT_BREAKPOINT \<equiv> 7"

definition esr_class :: "64 word \<Rightarrow> nat" where
  "esr_class esr = unat (drop_bit 26 esr)"

definition classify :: "64 word \<Rightarrow> (nat \<times> bool) option" where
  "classify esr =
     (let status = unat (esr AND 0x3f); c = esr_class esr in
      if c = 0x21 \<or> c = 0x25 then Some (if status = 0x21 then (FAULT_ALIGNMENT, True) else (FAULT_ACCESS, esr AND push_bit 10 1 = 0))
      else if c = 0x22 \<or> c = 0x26 then Some (FAULT_ALIGNMENT, False)
      else if c = 0x2c then Some (FAULT_FLOATING_POINT, False)
      else if c = 0x3c then Some (FAULT_BREAKPOINT, False)
      else if c = 0 then Some (FAULT_ILLEGAL_INSTRUCTION, False)
      else None)"

definition class_of :: "64 word \<Rightarrow> string" where
  "class_of esr =
     (let c = esr_class esr in
      if c = 0 then ''unknown'' else if c = 1 then ''WFI or WFE'' else if c = 7 then ''FP/SIMD trapped''
      else if c = 0xe then ''illegal execution state'' else if c = 0x15 then ''SVC'' else if c = 0x18 then ''trapped system register''
      else if c = 0x20 \<or> c = 0x21 then ''instruction abort'' else if c = 0x22 then ''PC alignment''
      else if c = 0x24 \<or> c = 0x25 then ''data abort'' else if c = 0x26 then ''SP alignment'' else if c = 0x2c then ''floating point''
      else if c = 0x2f then ''SError'' else if c = 0x3c then ''BRK'' else ''other'')"

definition ascii :: "string \<Rightarrow> byte list" where
  "ascii = map of_char"

text \<open>Leaving the machine: the line on the serial port and the status handed to the host.\<close>

definition exit_line :: "nat \<Rightarrow> byte list" where
  "exit_line code = ascii ''EXIT code='' @ write_dec code @ ascii [CHR 0x0A]"

definition fault_report :: "nat \<Rightarrow> 64 word \<Rightarrow> 64 word \<Rightarrow> 64 word \<Rightarrow> 64 word \<Rightarrow> byte list" where
  "fault_report entry esr elr far spsr =
     ascii ''EXCEPTION entry='' @ write_dec entry @ ascii '' class='' @ write_dec (esr_class esr) @ ascii '' ('' @ ascii (class_of esr)
     @ ascii '') esr='' @ write_hex esr @ ascii '' elr='' @ write_hex elr @ ascii '' far='' @ write_hex far
     @ ascii '' spsr='' @ write_hex spsr @ ascii [CHR 0x0A] @ exit_line 132"

text \<open>
  \<open>pal_fault\<close>: the frame to resume from, or the run is over with what the serial port shows. The flag
  is \<open>HANDLING\<close>; \<open>pc\<close> and \<open>pstate\<close> read the frame.
\<close>

definition pal_fault ::
  "'f handlers \<Rightarrow> ('f \<Rightarrow> 64 word) \<Rightarrow> ('f \<Rightarrow> 64 word) \<Rightarrow> 64 word \<Rightarrow> 64 word \<Rightarrow> 'f \<Rightarrow> bool \<Rightarrow> fault_state \<Rightarrow>
     byte list + ('f \<times> bool \<times> fault_state)" where
  "pal_fault call pc pstate esr far frame handling f =
     (case (classify esr, handling) of
        (Some (kind, located), False) \<Rightarrow>
          (case fault_deliver call kind (if located then unat far else 0) frame f of
             (Resume, frame, f) \<Rightarrow> Inr (frame, False, f)
           | (Unhandled, frame, f) \<Rightarrow> Inl (fault_report 4 esr (pc frame) far (pstate frame)))
      | _ \<Rightarrow> Inl (fault_report 4 esr (pc frame) far (pstate frame)))"

section \<open>Platform answers\<close>

definition id_field :: "64 word \<Rightarrow> nat \<Rightarrow> nat" where
  "id_field register shift = unat (drop_bit shift register AND 0xF)"

definition hwcap_bit :: "bool \<Rightarrow> nat \<Rightarrow> 64 word" where
  "hwcap_bit b n = (if b then push_bit n 1 else 0)"

definition hwcap :: "64 word \<Rightarrow> 64 word \<Rightarrow> 64 word \<Rightarrow> 64 word \<Rightarrow> 64 word \<times> 64 word" where
  "hwcap isar0 isar1 pfr0 zfr0 =
     (hwcap_bit (id_field pfr0 16 \<noteq> 0xF) 0 OR hwcap_bit (id_field pfr0 20 \<noteq> 0xF) 1
      OR hwcap_bit (1 \<le> id_field isar0 4) 3 OR hwcap_bit (2 \<le> id_field isar0 4) 4 OR hwcap_bit (1 \<le> id_field isar0 8) 5
      OR hwcap_bit (1 \<le> id_field isar0 12) 6 OR hwcap_bit (1 \<le> id_field isar0 16) 7 OR hwcap_bit (2 \<le> id_field isar0 20) 8
      OR hwcap_bit (1 \<le> id_field isar0 28) 12 OR hwcap_bit (1 \<le> id_field isar0 44) 20 OR hwcap_bit (1 \<le> id_field isar1 20) 15
      OR hwcap_bit (2 \<le> id_field isar1 20) 26 OR hwcap_bit (1 \<le> id_field pfr0 32) 22,
      hwcap_bit (1 \<le> id_field pfr0 32 \<and> 1 \<le> id_field zfr0 0) 1)"

text \<open>The linker's symbols of the image.\<close>

record image_map =
  ig_start :: nat
  ig_bss :: nat
  ig_hdr_start :: nat
  ig_hdr_end :: nat
  ig_frame_start :: nat
  ig_frame_end :: nat

record unwind_answer =
  uw_base :: nat
  uw_text :: nat
  uw_text_length :: nat
  uw_hdr :: nat
  uw_hdr_length :: nat
  uw_frame :: nat
  uw_frame_length :: nat

definition bare_unwind_info :: "image_map \<Rightarrow> nat \<Rightarrow> unwind_answer result" where
  "bare_unwind_info g address =
     (if \<not> (ig_start g \<le> address \<and> address < ig_bss g) then Inl NotFound
      else Inr \<lparr>uw_base = ig_start g, uw_text = ig_start g, uw_text_length = ig_bss g - ig_start g,
        uw_hdr = (if ig_hdr_start g < ig_hdr_end g then ig_hdr_start g else 0), uw_hdr_length = ig_hdr_end g - ig_hdr_start g,
        uw_frame = (if ig_frame_start g < ig_frame_end g then ig_frame_start g else 0), uw_frame_length = ig_frame_end g - ig_frame_start g\<rparr>)"

text \<open>\<open>backtrace\<close>: the link registers along the frame chain, at most 24, read only from readable pages.\<close>

fun backtrace_links :: "nat \<Rightarrow> mmu \<Rightarrow> nat \<Rightarrow> nat list" where
  "backtrace_links 0 m frame = []"
| "backtrace_links (Suc n) m frame =
     (if \<not> (0x40000000 \<le> frame \<and> frame < 0x80000000) \<or> frame mod 8 \<noteq> 0
         \<or> \<not> (case pages_readable frame 16 m of Inr b \<Rightarrow> b | Inl _ \<Rightarrow> False) then []
      else
        let older = load64 (mm_bytes m) frame; link = load64 (mm_bytes m) (frame + 8) in
        link # (if older \<le> frame then [] else backtrace_links n m older))"

definition backtrace :: "mmu \<Rightarrow> nat \<Rightarrow> byte list" where
  "backtrace m frame =
     ascii ''[pal] backtrace:'' @ concat (map (\<lambda>link. ascii '' '' @ write_hex (of_nat link)) (backtrace_links 24 m frame)) @ ascii [CHR 0x0A]"

definition bare_text :: "byte list \<Rightarrow> nat \<Rightarrow> byte list result" where
  "bare_text release what =
     (if what = 1 then Inr (ascii ''/app'' @ [0])
      else if what = 2 then Inr (ascii ''baremetal-aarch64'' @ [0])
      else if what = 3 then Inr (release @ [0])
      else if what = 4 then Inr (ascii ''QEMU virt, one core, no operating system'' @ [0])
      else Inl Unsupported)"

section \<open>Time\<close>

text \<open>The split conversion is exact: ticks times a billion over the frequency, rounded down, whenever that fits.\<close>

lemma timer_ns_exact:
  assumes f: "0 < frequency" "frequency \<le> 18000000000"
  shows "timer_ns frequency ticks =
    (if ticks * 1000000000 div frequency \<le> U64_MAX then Some (ticks * 1000000000 div frequency) else None)"
proof -
  let ?q = "ticks div frequency" and ?r = "ticks mod frequency"
  have "?r < 18000000000" using mod_less_divisor [OF f(1), of ticks] f(2) by linarith
  then have small: "?r * 1000000000 mod 2 ^ 64 = ?r * 1000000000" by simp
  have split: "ticks * k div frequency = ?q * k + ?r * k div frequency" for k
  proof -
    have dist: "(q * frequency + r) * k = r * k + (q * k) * frequency" for q r :: nat by (simp add: algebra_simps)
    have "ticks * k = (?q * frequency + ?r) * k" by simp
    then have "ticks * k = ?r * k + (?q * k) * frequency" unfolding dist .
    then show ?thesis using f(1) by simp
  qed
  note eq = split [of 1000000000]
  show ?thesis using f unfolding timer_ns_def Let_def small eq
    by (auto simp: checked_mul_def checked_add_def width_simps)
qed

lemma timer_ns_mono:
  assumes "timer_ns f t = Some a" "timer_ns f u = Some b" "t \<le> u"
  shows "a \<le> b"
proof -
  have f: "0 < f" "f \<le> 18000000000" using assms(1) by (auto simp: timer_ns_def split: if_splits)
  have "a = t * 1000000000 div f" "b = u * 1000000000 div f"
    using assms(1,2) unfolding timer_ns_exact [OF f] by (auto split: if_splits)
  then show ?thesis using assms(3) by (simp add: div_le_mono)
qed

section \<open>Numbers on the serial port\<close>

definition read_dec :: "byte list \<Rightarrow> nat" where
  "read_dec bs = foldl (\<lambda>n b. 10 * n + (unat b - 48)) 0 bs"

lemma write_dec_rev: "write_dec value = rev (dec_digits value)"
  by (rule nth_equalityI) (simp_all add: write_dec_def Let_def rev_nth)

lemma dec_digit_value: "unat (ascii_zero + of_nat (n mod 10)) - 48 = n mod 10"
proof -
  have "n mod 10 < 10" by simp
  then have "48 + n mod 10 < 2 ^ LENGTH(8)" by simp
  then have "unat (of_nat (48 + n mod 10) :: byte) = 48 + n mod 10" unfolding unat_of_nat by (rule mod_less)
  moreover have "ascii_zero + of_nat (n mod 10) = of_nat (48 + n mod 10)" by simp
  ultimately show ?thesis by (simp only:)
qed

lemma write_dec_read: "read_dec (write_dec value) = value"
proof (induction "value" rule: dec_digits.induct)
  case (1 "value")
  show ?case
  proof (cases "value div 10 = 0")
    case True
    then have "dec_digits value = [ascii_zero + of_nat (value mod 10)]" by (subst dec_digits.simps) simp
    then show ?thesis using True dec_digit_value [of "value"] by (simp add: write_dec_rev read_dec_def)
  next
    case False
    have "dec_digits value = (ascii_zero + of_nat (value mod 10)) # dec_digits (value div 10)"
      using False by (subst dec_digits.simps) simp
    then have "read_dec (write_dec value) = 10 * read_dec (write_dec (value div 10)) + value mod 10"
      using dec_digit_value [of "value"] by (simp add: write_dec_rev read_dec_def)
    then show ?thesis using 1 [OF False] by simp
  qed
qed

lemma write_dec_length: "value < 10 ^ n \<Longrightarrow> 0 < n \<Longrightarrow> length (write_dec value) \<le> n"
proof (induction n arbitrary: "value")
  case (Suc n)
  show ?case
  proof (cases "value div 10 = 0")
    case True
    then have "dec_digits value = [ascii_zero + of_nat (value mod 10)]" by (subst dec_digits.simps) simp
    then show ?thesis by (simp add: write_dec_rev)
  next
    case False
    have "dec_digits value = (ascii_zero + of_nat (value mod 10)) # dec_digits (value div 10)"
      using False by (subst dec_digits.simps) simp
    moreover have "value div 10 < 10 ^ n" using Suc.prems(1) by (simp add: div_less_iff_less_mult mult.commute)
    moreover have "0 < n" using Suc.prems(1) False by (cases n) auto
    ultimately show ?thesis using Suc.IH [of "value div 10"] by (simp add: write_dec_rev)
  qed
qed simp

text \<open>Every 64-bit value fits the twenty places of the buffer.\<close>

lemma write_dec_fits: "value \<le> U64_MAX \<Longrightarrow> length (write_dec value) \<le> 20"
  by (rule write_dec_length) (simp_all add: width_simps)

section \<open>Faults\<close>

text \<open>
  The run continues only when no fault was being handled, the syndrome has a kind of the boundary,
  and the installed handler asked for it; the frame is then the handler's, and the next fault is
  handled again.
\<close>

lemma pal_fault_resumes:
  assumes "pal_fault call pc pstate esr far frame handling f = Inr (frame', handling', f')"
  shows "\<not> handling \<and> \<not> handling' \<and> fa_handler f \<noteq> 0 \<and> (\<exists>kind located. classify esr = Some (kind, located)
    \<and> call (fa_handler f) kind (if located then unat far else 0) frame (fa_data f) = (RESUME, frame'))"
proof -
  obtain kind located where c: "classify esr = Some (kind, located)" "\<not> handling"
    using assms by (auto simp: pal_fault_def split: option.splits bool.splits prod.splits)
  obtain d fr f1 where d: "fault_deliver call kind (if located then unat far else 0) frame f = (d, fr, f1)" by (metis prod_cases3)
  then have "d = Resume" "fr = frame'" "\<not> handling'" using assms c by (auto simp: pal_fault_def split: disposition.splits)
  then show ?thesis using d c by (auto simp: fault_deliver_def Let_def fa_count_def split: if_splits prod.splits)
qed

lemma classify_kind: "classify esr = Some (kind, located) \<Longrightarrow> FAULT_ACCESS \<le> kind \<and> kind \<le> FAULT_STACK_OVERFLOW"
  by (auto simp: classify_def Let_def split: if_splits)

lemma backtrace_bounded: "length (backtrace_links n m frame) \<le> n"
  by (induction n m frame rule: backtrace_links.induct) (auto simp: Let_def)

end
