(* ===== verification/Bare_Objects.thy ===== *)
theory Bare_Objects
  imports Bare_Threads Bare_Board
begin

text \<open>
  Events, mutexes and reader/writer locks of the bare-metal port
  (\<open>src/examples/baremetal-aarch64/src/objects.rs\<close>). The tables are lists; a handle is looked up with
  \<open>index_of\<close> of \<open>Bare_Threads\<close>, and the operations here take what that lookup found. A waiting
  operation is three definitions: what it does before \<open>block_until\<close>, the condition it polls, and what
  it does after.
\<close>

section \<open>Model\<close>

definition MAX_EVENTS :: nat where "MAX_EVENTS = 64"
definition MAX_MUTEXES :: nat where "MAX_MUTEXES = 64"
definition MAX_RWLOCKS :: nat where "MAX_RWLOCKS = 32"
definition NOBODY :: nat where "NOBODY = USIZE_MAX"

record event_entry =
  ev_used :: bool
  ev_manual :: bool
  ev_signaled :: bool
  ev_waiters :: nat

record mutex_entry =
  mx_used :: bool
  mx_recursive :: bool
  mx_owner :: nat
  mx_depth :: nat
  mx_users :: nat

record rwlock_entry =
  rw_used :: bool
  rw_writer :: nat
  rw_readers :: nat
  rw_held :: "byte list"

record objects =
  ob_events :: "event_entry list"
  ob_mutexes :: "mutex_entry list"
  ob_rwlocks :: "rwlock_entry list"

definition FREE_EVENT :: event_entry where
  "FREE_EVENT = \<lparr>ev_used = False, ev_manual = False, ev_signaled = False, ev_waiters = 0\<rparr>"

definition FREE_MUTEX :: mutex_entry where
  "FREE_MUTEX = \<lparr>mx_used = False, mx_recursive = False, mx_owner = NOBODY, mx_depth = 0, mx_users = 0\<rparr>"

definition FREE_RWLOCK :: rwlock_entry where
  "FREE_RWLOCK = \<lparr>rw_used = False, rw_writer = NOBODY, rw_readers = 0, rw_held = replicate MAX_THREADS 0\<rparr>"

definition objects_start :: objects where
  "objects_start = \<lparr>ob_events = replicate MAX_EVENTS FREE_EVENT, ob_mutexes = replicate MAX_MUTEXES FREE_MUTEX,
     ob_rwlocks = replicate MAX_RWLOCKS FREE_RWLOCK\<rparr>"

text \<open>\<open>usize\<close> decrement.\<close>

definition wrap_dec :: "nat \<Rightarrow> nat" where
  "wrap_dec x = (if x = 0 then USIZE_MAX else x - 1)"

definition set_event :: "nat \<Rightarrow> event_entry \<Rightarrow> objects \<Rightarrow> objects" where
  "set_event i e obs = obs\<lparr>ob_events := (ob_events obs)[i := e]\<rparr>"

definition set_mutex :: "nat \<Rightarrow> mutex_entry \<Rightarrow> objects \<Rightarrow> objects" where
  "set_mutex i e obs = obs\<lparr>ob_mutexes := (ob_mutexes obs)[i := e]\<rparr>"

definition set_rwlock :: "nat \<Rightarrow> rwlock_entry \<Rightarrow> objects \<Rightarrow> objects" where
  "set_rwlock i e obs = obs\<lparr>ob_rwlocks := (ob_rwlocks obs)[i := e]\<rparr>"

subsection \<open>Events\<close>

definition bevent_create :: "bool \<Rightarrow> bool \<Rightarrow> objects \<Rightarrow> nat result \<times> objects" where
  "bevent_create manual_reset initially_set obs =
     (case find (\<lambda>i. \<not> ev_used (ob_events obs ! i)) [0..<MAX_EVENTS] of
        None \<Rightarrow> (Inl OutOfMemory, obs)
      | Some i \<Rightarrow> (Inr i, set_event i \<lparr>ev_used = True, ev_manual = manual_reset, ev_signaled = initially_set, ev_waiters = 0\<rparr> obs))"

definition bevent_destroy :: "nat option \<Rightarrow> objects \<Rightarrow> unit result \<times> objects" where
  "bevent_destroy found obs =
     (case found of
        None \<Rightarrow> (Inl InvalidArgument, obs)
      | Some i \<Rightarrow>
          if \<not> ev_used (ob_events obs ! i) then (Inl InvalidArgument, obs)
          else if ev_waiters (ob_events obs ! i) \<noteq> 0 then (Inl Busy, obs)
          else (Inr (), set_event i FREE_EVENT obs))"

definition bevent_signal :: "bool \<Rightarrow> nat option \<Rightarrow> objects \<Rightarrow> unit result \<times> objects" where
  "bevent_signal to found obs =
     (case found of
        None \<Rightarrow> (Inl InvalidArgument, obs)
      | Some i \<Rightarrow>
          if \<not> ev_used (ob_events obs ! i) then (Inl InvalidArgument, obs)
          else (Inr (), set_event i ((ob_events obs ! i)\<lparr>ev_signaled := to\<rparr>) obs))"

definition bevent_set :: "nat option \<Rightarrow> objects \<Rightarrow> unit result \<times> objects" where
  "bevent_set = bevent_signal True"

definition bevent_reset :: "nat option \<Rightarrow> objects \<Rightarrow> unit result \<times> objects" where
  "bevent_reset = bevent_signal False"

definition event_wait_begin :: "nat option \<Rightarrow> objects \<Rightarrow> nat result \<times> objects" where
  "event_wait_begin found obs =
     (case found of
        None \<Rightarrow> (Inl InvalidArgument, obs)
      | Some i \<Rightarrow>
          if \<not> ev_used (ob_events obs ! i) then (Inl InvalidArgument, obs)
          else (Inr i, set_event i ((ob_events obs ! i)\<lparr>ev_waiters := ev_waiters (ob_events obs ! i) + 1\<rparr>) obs))"

definition event_ready :: "nat \<Rightarrow> objects \<Rightarrow> bool \<times> objects" where
  "event_ready i obs =
     (let e = ob_events obs ! i in
      if \<not> ev_signaled e then (False, obs)
      else (True, if \<not> ev_manual e then set_event i (e\<lparr>ev_signaled := False\<rparr>) obs else obs))"

definition event_wait_end :: "nat \<Rightarrow> objects \<Rightarrow> objects" where
  "event_wait_end i obs = set_event i ((ob_events obs ! i)\<lparr>ev_waiters := wrap_dec (ev_waiters (ob_events obs ! i))\<rparr>) obs"

subsection \<open>Mutexes\<close>

definition bmutex_create :: "bool \<Rightarrow> objects \<Rightarrow> nat result \<times> objects" where
  "bmutex_create recursive obs =
     (case find (\<lambda>i. \<not> mx_used (ob_mutexes obs ! i)) [0..<MAX_MUTEXES] of
        None \<Rightarrow> (Inl OutOfMemory, obs)
      | Some i \<Rightarrow> (Inr i, set_mutex i (FREE_MUTEX\<lparr>mx_used := True, mx_recursive := recursive\<rparr>) obs))"

definition bmutex_destroy :: "nat option \<Rightarrow> objects \<Rightarrow> unit result \<times> objects" where
  "bmutex_destroy found obs =
     (case found of
        None \<Rightarrow> (Inl InvalidArgument, obs)
      | Some i \<Rightarrow>
          if \<not> mx_used (ob_mutexes obs ! i) then (Inl InvalidArgument, obs)
          else if mx_users (ob_mutexes obs ! i) \<noteq> 0 then (Inl Busy, obs)
          else (Inr (), set_mutex i FREE_MUTEX obs))"

text \<open>The result is whether the lock was taken at once; otherwise the caller waits for it.\<close>

definition mutex_lock_begin :: "nat option \<Rightarrow> nat \<Rightarrow> objects \<Rightarrow> (nat \<times> bool) result \<times> objects" where
  "mutex_lock_begin found me obs =
     (case found of
        None \<Rightarrow> (Inl InvalidArgument, obs)
      | Some i \<Rightarrow>
          let e = ob_mutexes obs ! i in
          if \<not> mx_used e then (Inl InvalidArgument, obs)
          else if mx_owner e = me then
            if \<not> mx_recursive e \<or> mx_depth e = USIZE_MAX then (Inl Os, obs)
            else (Inr (i, True), set_mutex i (e\<lparr>mx_depth := mx_depth e + 1, mx_users := mx_users e + 1\<rparr>) obs)
          else (Inr (i, False), set_mutex i (e\<lparr>mx_users := mx_users e + 1\<rparr>) obs))"

definition mutex_ready :: "nat \<Rightarrow> objects \<Rightarrow> bool" where
  "mutex_ready i obs \<longleftrightarrow> mx_owner (ob_mutexes obs ! i) = NOBODY"

definition mutex_lock_end :: "nat \<Rightarrow> nat \<Rightarrow> objects \<Rightarrow> objects" where
  "mutex_lock_end i me obs = set_mutex i ((ob_mutexes obs ! i)\<lparr>mx_owner := me, mx_depth := 1\<rparr>) obs"

definition bmutex_unlock :: "nat option \<Rightarrow> nat \<Rightarrow> objects \<Rightarrow> unit result \<times> objects" where
  "bmutex_unlock found me obs =
     (case found of
        None \<Rightarrow> (Inl InvalidArgument, obs)
      | Some i \<Rightarrow>
          let e = ob_mutexes obs ! i in
          if \<not> mx_used e \<or> mx_owner e \<noteq> me then (Inl Os, obs)
          else
            let e = e\<lparr>mx_depth := wrap_dec (mx_depth e), mx_users := wrap_dec (mx_users e)\<rparr> in
            (Inr (), set_mutex i (if mx_depth e = 0 then e\<lparr>mx_owner := NOBODY\<rparr> else e) obs))"

subsection \<open>Reader/writer locks\<close>

definition brw_create :: "objects \<Rightarrow> nat result \<times> objects" where
  "brw_create obs =
     (case find (\<lambda>i. \<not> rw_used (ob_rwlocks obs ! i)) [0..<MAX_RWLOCKS] of
        None \<Rightarrow> (Inl OutOfMemory, obs)
      | Some i \<Rightarrow> (Inr i, set_rwlock i (FREE_RWLOCK\<lparr>rw_used := True\<rparr>) obs))"

definition rw_begin :: "nat option \<Rightarrow> objects \<Rightarrow> nat result" where
  "rw_begin found obs =
     (case found of
        None \<Rightarrow> Inl InvalidArgument
      | Some i \<Rightarrow> if \<not> rw_used (ob_rwlocks obs ! i) then Inl InvalidArgument else Inr i)"

definition read_ready :: "nat \<Rightarrow> objects \<Rightarrow> bool" where
  "read_ready i obs \<longleftrightarrow> rw_writer (ob_rwlocks obs ! i) = NOBODY"

text \<open>The count per thread is one byte, so it wraps.\<close>

definition read_end :: "nat \<Rightarrow> nat \<Rightarrow> objects \<Rightarrow> objects" where
  "read_end i me obs =
     (let e = ob_rwlocks obs ! i in
      set_rwlock i (e\<lparr>rw_readers := rw_readers e + 1, rw_held := (rw_held e)[me := rw_held e ! me + 1]\<rparr>) obs)"

definition write_ready :: "nat \<Rightarrow> objects \<Rightarrow> bool" where
  "write_ready i obs \<longleftrightarrow> rw_writer (ob_rwlocks obs ! i) = NOBODY \<and> rw_readers (ob_rwlocks obs ! i) = 0"

definition write_end :: "nat \<Rightarrow> nat \<Rightarrow> objects \<Rightarrow> objects" where
  "write_end i me obs = set_rwlock i ((ob_rwlocks obs ! i)\<lparr>rw_writer := me\<rparr>) obs"

definition brw_unlock :: "nat option \<Rightarrow> nat \<Rightarrow> objects \<Rightarrow> unit result \<times> objects" where
  "brw_unlock found me obs =
     (case found of
        None \<Rightarrow> (Inl InvalidArgument, obs)
      | Some i \<Rightarrow>
          let e = ob_rwlocks obs ! i in
          if \<not> rw_used e then (Inl InvalidArgument, obs)
          else if rw_writer e = me then (Inr (), set_rwlock i (e\<lparr>rw_writer := NOBODY\<rparr>) obs)
          else if rw_held e ! me \<noteq> 0 then
            (Inr (), set_rwlock i (e\<lparr>rw_held := (rw_held e)[me := rw_held e ! me - 1], rw_readers := wrap_dec (rw_readers e)\<rparr>) obs)
          else (Inl Os, obs))"

definition brw_destroy :: "nat option \<Rightarrow> objects \<Rightarrow> unit result \<times> objects" where
  "brw_destroy found obs =
     (case found of
        None \<Rightarrow> (Inl InvalidArgument, obs)
      | Some i \<Rightarrow>
          let e = ob_rwlocks obs ! i in
          if \<not> rw_used e then (Inl InvalidArgument, obs)
          else if rw_writer e \<noteq> NOBODY \<or> rw_readers e \<noteq> 0 then (Inl Busy, obs)
          else (Inr (), set_rwlock i FREE_RWLOCK obs))"

section \<open>The threads and the objects together\<close>

text \<open>
  Only the running thread does anything, and it gives up the processor only in \<open>schedule\<close>. A thread is
  in its own code or blocked in one of the waiting operations, with what it waits for and its
  deadline. A round of the wait either finishes the operation or hands the processor on.
\<close>

datatype wait = OnEvent nat | OnMutex nat | OnRead nat | OnWrite nat | OnJoin nat | OnTime

record machine =
  mc_sched :: sched
  mc_objects :: objects
  mc_waits :: "nat \<Rightarrow> (wait \<times> nat option) option"

fun wait_ready :: "wait \<Rightarrow> sched \<times> objects \<Rightarrow> bool \<times> (sched \<times> objects)" where
  "wait_ready (OnEvent i) (s, obs) = (case event_ready i obs of (b, obs) \<Rightarrow> (b, (s, obs)))"
| "wait_ready (OnMutex i) (s, obs) = (mutex_ready i obs, (s, obs))"
| "wait_ready (OnRead i) (s, obs) = (read_ready i obs, (s, obs))"
| "wait_ready (OnWrite i) (s, obs) = (write_ready i obs, (s, obs))"
| "wait_ready (OnJoin i) (s, obs) = (join_ready i s, (s, obs))"
| "wait_ready OnTime (s, obs) = (False, (s, obs))"

text \<open>What follows the wait; only an event's waiter count also changes when the wait ran out of time.\<close>

fun wait_done :: "layout \<Rightarrow> wait \<Rightarrow> nat \<Rightarrow> bool \<Rightarrow> sched \<times> objects \<Rightarrow> sched \<times> objects" where
  "wait_done L (OnEvent i) me ok (s, obs) = (s, event_wait_end i obs)"
| "wait_done L (OnMutex i) me ok (s, obs) = (s, if ok then mutex_lock_end i me obs else obs)"
| "wait_done L (OnRead i) me ok (s, obs) = (s, if ok then read_end i me obs else obs)"
| "wait_done L (OnWrite i) me ok (s, obs) = (s, if ok then write_end i me obs else obs)"
| "wait_done L (OnJoin i) me ok (s, obs) = (if ok then join_end L i s else s, obs)"
| "wait_done L OnTime me ok (s, obs) = (s, obs)"

definition set_wait :: "nat \<Rightarrow> (wait \<times> nat option) option \<Rightarrow> machine \<Rightarrow> machine" where
  "set_wait i w m = m\<lparr>mc_waits := (mc_waits m)(i := w)\<rparr>"

text \<open>One round of \<open>block_until\<close> by the running thread at a reading of the clock.\<close>

definition poll :: "layout \<Rightarrow> nat option \<Rightarrow> machine \<Rightarrow> unit result option \<times> machine" where
  "poll L now m =
     (let me = sc_current (mc_sched m) in
      case mc_waits m me of
        None \<Rightarrow> (None, m)
      | Some (w, deadline) \<Rightarrow>
          (case block_round deadline now (wait_ready w) (mc_sched m, mc_objects m) of
             (Some r, st) \<Rightarrow>
               (case wait_done L w me (r = Inr ()) st of
                  (s, obs) \<Rightarrow> (Some r, m\<lparr>mc_sched := s, mc_objects := obs, mc_waits := (mc_waits m)(me := None)\<rparr>))
           | (None, (s, obs)) \<Rightarrow> (None, m\<lparr>mc_sched := snd (schedule L s), mc_objects := obs\<rparr>)))"

end
