(* ===== verification/Bare_Machine.thy ===== *)
theory Bare_Machine
  imports Bare_Objects
begin

text \<open>
  The bare-metal threads running: every sequence of calls and rounds of waiting that the cooperative
  scheduler allows, as a step relation over \<open>machine\<close> of \<open>Bare_Objects\<close>, with a history of the locks
  taken and given back and of the events set and waited for. What each object promises is a statement
  about that history, kept by an invariant of the tables.
\<close>

section \<open>Histories\<close>

datatype deed =
    Took nat nat | Gave nat nat
  | ReadTook nat nat | ReadGave nat nat | WriteTook nat nat | WriteGave nat nat
  | EventNew nat bool | EventSet nat | EventPassed nat
  | Quiet

text \<open>The latest note comes first. How often a thread holds a mutex, a read lock, a write lock.\<close>

fun holds :: "nat \<Rightarrow> nat \<Rightarrow> deed list \<Rightarrow> nat" where
  "holds t i [] = 0"
| "holds t i (n # h) = (if n = Took t i then holds t i h + 1 else if n = Gave t i then holds t i h - 1 else holds t i h)"

fun reads :: "nat \<Rightarrow> nat \<Rightarrow> deed list \<Rightarrow> nat" where
  "reads t i [] = 0"
| "reads t i (n # h) = (if n = ReadTook t i then reads t i h + 1 else if n = ReadGave t i then reads t i h - 1 else reads t i h)"

fun writes :: "nat \<Rightarrow> nat \<Rightarrow> deed list \<Rightarrow> nat" where
  "writes t i [] = 0"
| "writes t i (n # h) = (if n = WriteTook t i then writes t i h + 1 else if n = WriteGave t i then writes t i h - 1 else writes t i h)"

text \<open>Signals an event got since it was created, its initial state included, and waits it let through.\<close>

fun signals :: "nat \<Rightarrow> deed list \<Rightarrow> nat" where
  "signals i [] = 0"
| "signals i (n # h) = (case n of EventNew j b \<Rightarrow> if j = i then of_bool b else signals i h
     | EventSet j \<Rightarrow> signals i h + of_bool (j = i) | _ \<Rightarrow> signals i h)"

fun passes :: "nat \<Rightarrow> deed list \<Rightarrow> nat" where
  "passes i [] = 0"
| "passes i (n # h) = (case n of EventNew j b \<Rightarrow> if j = i then 0 else passes i h
     | EventPassed j \<Rightarrow> passes i h + of_bool (j = i) | _ \<Rightarrow> passes i h)"

section \<open>Steps\<close>

abbreviation me :: "machine \<Rightarrow> nat" where
  "me m \<equiv> sc_current (mc_sched m)"

definition in_table :: "nat \<Rightarrow> nat option \<Rightarrow> bool" where
  "in_table n found \<longleftrightarrow> (case found of None \<Rightarrow> True | Some i \<Rightarrow> i < n)"

definition waiters :: "wait \<Rightarrow> machine \<Rightarrow> nat" where
  "waiters w m = card {t. t < MAX_THREADS \<and> (\<exists>d. mc_waits m t = Some (w, d))}"

definition wait_note :: "wait \<Rightarrow> nat \<Rightarrow> bool \<Rightarrow> deed" where
  "wait_note w t ok = (if \<not> ok then Quiet
     else case w of OnMutex i \<Rightarrow> Took t i | OnRead i \<Rightarrow> ReadTook t i | OnWrite i \<Rightarrow> WriteTook t i | OnEvent i \<Rightarrow> EventPassed i | _ \<Rightarrow> Quiet)"

definition rw_note :: "nat \<Rightarrow> nat \<Rightarrow> objects \<Rightarrow> deed" where
  "rw_note t i obs = (if rw_writer (ob_rwlocks obs ! i) = t then WriteGave t i else ReadGave t i)"

text \<open>
  The conditions on callers: a reader holds a lock at most 255 times at once, and nobody destroys a
  reader/writer lock others are waiting for. Everything else is checked by the code.
\<close>

definition read_room :: "wait \<Rightarrow> machine \<Rightarrow> bool" where
  "read_room w m \<longleftrightarrow> (case w of OnRead i \<Rightarrow> rw_held (ob_rwlocks (mc_objects m) ! i) ! me m \<noteq> 255 | _ \<Rightarrow> True)"

inductive machine_step :: "layout \<Rightarrow> image \<Rightarrow> machine \<Rightarrow> deed \<Rightarrow> machine \<Rightarrow> bool" for L im where
  poll_done: "mc_waits m (me m) = Some (w, d) \<Longrightarrow> read_room w m \<Longrightarrow> poll L now m = (Some r, m') \<Longrightarrow>
    machine_step L im m (wait_note w (me m) (r = Inr ())) m'"
| poll_more: "mc_waits m (me m) = Some (w, d) \<Longrightarrow> poll L now m = (None, m') \<Longrightarrow> machine_step L im m Quiet m'"
| yield: "mc_waits m (me m) = None \<Longrightarrow> schedule L (mc_sched m) = (b, s) \<Longrightarrow> machine_step L im m Quiet (m\<lparr>mc_sched := s\<rparr>)"
| sleep: "mc_waits m (me m) = None \<Longrightarrow> machine_step L im m Quiet (set_wait (me m) (Some (OnTime, Some d)) m)"
| spawn: "mc_waits m (me m) = None \<Longrightarrow> n \<le> ISIZE_MAX \<Longrightarrow> bthread_create L im entry arg n (mc_sched m) = Some (r, s) \<Longrightarrow>
    machine_step L im m Quiet (m\<lparr>mc_sched := s\<rparr>)"
| join: "mc_waits m (me m) = None \<Longrightarrow> i < MAX_THREADS \<Longrightarrow> join_begin i (mc_sched m) = Inr () \<Longrightarrow>
    machine_step L im m Quiet (set_wait (me m) (Some (OnJoin i, None)) m)"
| detach: "mc_waits m (me m) = None \<Longrightarrow> i < MAX_THREADS \<Longrightarrow> bthread_detach L i (mc_sched m) = (r, s) \<Longrightarrow>
    machine_step L im m Quiet (m\<lparr>mc_sched := s\<rparr>)"
| finish: "mc_waits m (me m) = None \<Longrightarrow> thread_leave L (thread_finish (me m) (mc_sched m)) = Some s \<Longrightarrow>
    machine_step L im m Quiet (m\<lparr>mc_sched := s\<rparr>)"
| slots: "mc_waits m (me m) = None \<Longrightarrow> btls_set h v (mc_sched m) = (r, s) \<Longrightarrow> machine_step L im m Quiet (m\<lparr>mc_sched := s\<rparr>)"
| name: "mc_waits m (me m) = None \<Longrightarrow> name_set nm (mc_sched m) = (r, s) \<Longrightarrow> machine_step L im m Quiet (m\<lparr>mc_sched := s\<rparr>)"
| mutex_new: "mc_waits m (me m) = None \<Longrightarrow> bmutex_create rec (mc_objects m) = (r, obs) \<Longrightarrow> machine_step L im m Quiet (m\<lparr>mc_objects := obs\<rparr>)"
| mutex_gone: "mc_waits m (me m) = None \<Longrightarrow> in_table MAX_MUTEXES found \<Longrightarrow> bmutex_destroy found (mc_objects m) = (r, obs) \<Longrightarrow>
    machine_step L im m Quiet (m\<lparr>mc_objects := obs\<rparr>)"
| lock: "mc_waits m (me m) = None \<Longrightarrow> in_table MAX_MUTEXES found \<Longrightarrow> mutex_lock_begin found (me m) (mc_objects m) = (Inr (i, True), obs) \<Longrightarrow>
    machine_step L im m (Took (me m) i) (m\<lparr>mc_objects := obs\<rparr>)"
| lock_waits: "mc_waits m (me m) = None \<Longrightarrow> in_table MAX_MUTEXES found \<Longrightarrow> mutex_lock_begin found (me m) (mc_objects m) = (Inr (i, False), obs) \<Longrightarrow>
    machine_step L im m Quiet (set_wait (me m) (Some (OnMutex i, None)) (m\<lparr>mc_objects := obs\<rparr>))"
| unlock: "mc_waits m (me m) = None \<Longrightarrow> i < MAX_MUTEXES \<Longrightarrow> bmutex_unlock (Some i) (me m) (mc_objects m) = (r, obs) \<Longrightarrow>
    machine_step L im m (if r = Inr () then Gave (me m) i else Quiet) (m\<lparr>mc_objects := obs\<rparr>)"
| rw_new: "mc_waits m (me m) = None \<Longrightarrow> brw_create (mc_objects m) = (r, obs) \<Longrightarrow> machine_step L im m Quiet (m\<lparr>mc_objects := obs\<rparr>)"
| rw_gone: "mc_waits m (me m) = None \<Longrightarrow> i < MAX_RWLOCKS \<Longrightarrow> waiters (OnRead i) m = 0 \<Longrightarrow> waiters (OnWrite i) m = 0 \<Longrightarrow>
    brw_destroy (Some i) (mc_objects m) = (r, obs) \<Longrightarrow> machine_step L im m Quiet (m\<lparr>mc_objects := obs\<rparr>)"
| rw_reads: "mc_waits m (me m) = None \<Longrightarrow> in_table MAX_RWLOCKS found \<Longrightarrow> rw_begin found (mc_objects m) = Inr i \<Longrightarrow>
    machine_step L im m Quiet (set_wait (me m) (Some (OnRead i, None)) m)"
| rw_writes: "mc_waits m (me m) = None \<Longrightarrow> in_table MAX_RWLOCKS found \<Longrightarrow> rw_begin found (mc_objects m) = Inr i \<Longrightarrow>
    machine_step L im m Quiet (set_wait (me m) (Some (OnWrite i, None)) m)"
| rw_gives: "mc_waits m (me m) = None \<Longrightarrow> i < MAX_RWLOCKS \<Longrightarrow> brw_unlock (Some i) (me m) (mc_objects m) = (r, obs) \<Longrightarrow>
    machine_step L im m (if r = Inr () then rw_note (me m) i (mc_objects m) else Quiet) (m\<lparr>mc_objects := obs\<rparr>)"
| event_new: "mc_waits m (me m) = None \<Longrightarrow> bevent_create manual on (mc_objects m) = (r, obs) \<Longrightarrow>
    machine_step L im m (case r of Inr i \<Rightarrow> EventNew i on | Inl _ \<Rightarrow> Quiet) (m\<lparr>mc_objects := obs\<rparr>)"
| event_gone: "mc_waits m (me m) = None \<Longrightarrow> in_table MAX_EVENTS found \<Longrightarrow> bevent_destroy found (mc_objects m) = (r, obs) \<Longrightarrow>
    machine_step L im m Quiet (m\<lparr>mc_objects := obs\<rparr>)"
| event_sets: "mc_waits m (me m) = None \<Longrightarrow> i < MAX_EVENTS \<Longrightarrow> bevent_set (Some i) (mc_objects m) = (r, obs) \<Longrightarrow>
    machine_step L im m (if r = Inr () then EventSet i else Quiet) (m\<lparr>mc_objects := obs\<rparr>)"
| event_resets: "mc_waits m (me m) = None \<Longrightarrow> in_table MAX_EVENTS found \<Longrightarrow> bevent_reset found (mc_objects m) = (r, obs) \<Longrightarrow>
    machine_step L im m Quiet (m\<lparr>mc_objects := obs\<rparr>)"
| event_waits: "mc_waits m (me m) = None \<Longrightarrow> in_table MAX_EVENTS found \<Longrightarrow> event_wait_begin found (mc_objects m) = (Inr i, obs) \<Longrightarrow>
    machine_step L im m Quiet (set_wait (me m) (Some (OnEvent i, d)) (m\<lparr>mc_objects := obs\<rparr>))"

definition machine_start :: "sched \<Rightarrow> machine" where
  "machine_start s = \<lparr>mc_sched = s, mc_objects = objects_start, mc_waits = Map.empty\<rparr>"

text \<open>All runs after the boot thread is ready, with their histories.\<close>

inductive machine_run :: "layout \<Rightarrow> image \<Rightarrow> mmu \<Rightarrow> machine \<Rightarrow> deed list \<Rightarrow> bool" for L im mm where
  boot: "bare_init L mm = Some mem \<Longrightarrow> init_boot_thread L im (sched_start mem) = Some s \<Longrightarrow> machine_run L im mm (machine_start s) []"
| step: "machine_run L im mm m h \<Longrightarrow> machine_step L im m n m' \<Longrightarrow> machine_run L im mm m' (n # h)"

section \<open>The thread table along a run\<close>

definition tabled :: "layout \<Rightarrow> sched \<Rightarrow> bool" where
  "tabled L s \<longleftrightarrow> (\<exists>B. table_ok L B s)"

lemma tabled_current: "tabled L s \<Longrightarrow> sc_current s < MAX_THREADS"
  by (auto simp: tabled_def table_ok_def)

lemma tabled_schedule: "tabled L s \<Longrightarrow> schedule L s = (b, s') \<Longrightarrow> tabled L s'"
  using schedule_ok unfolding tabled_def by blast

lemma tabled_reclaim: "tabled L s \<Longrightarrow> tabled L (reclaim_finished L s)"
  using reclaim_finished_ok unfolding tabled_def by blast

text \<open>Changing an entry in anything but what it holds.\<close>

lemma tabled_entry:
  assumes "tabled L s" "i < MAX_THREADS" "thread_blocks t = thread_blocks (sc_threads s ! i)"
    "length (th_slots t) = length (th_slots (sc_threads s ! i))" "length (th_name t) = length (th_name (sc_threads s ! i))"
    "th_state t = TFree \<Longrightarrow> th_state (sc_threads s ! i) = TFree"
  shows "tabled L (set_thread i t s)"
proof -
  obtain B where ok: "table_ok L B s" using assms(1) by (auto simp: tabled_def)
  note e = table_ok_thread [OF ok assms(2)]
  have own: "owners_ok L (sc_mem s, B)" using ok by (simp add: table_ok_def)
  have "table_ok L B ((set_thread i t s)\<lparr>sc_mem := sc_mem s\<rparr>)"
    by (rule table_ok_replace [OF ok assms(2) own]) (use e assms ok in \<open>auto simp: table_ok_def\<close>)
  then show ?thesis unfolding tabled_def by (auto simp: set_thread_def)
qed

lemma tabled_spawn:
  assumes "tabled L s" "image_ok L im" "n \<le> ISIZE_MAX" "bthread_create L im entry arg n s = Some (r, s')"
  shows "tabled L s'"
  using bthread_create_total [OF _ assms(2,3), of _ s entry arg] assms(1,4) unfolding tabled_def by fastforce

lemma tabled_detach:
  assumes "tabled L s" "i < MAX_THREADS" "bthread_detach L i s = (r, s')"
  shows "tabled L s'"
proof -
  let ?t = "(sc_threads s ! i)\<lparr>th_detached := True\<rparr>"
  have "tabled L (set_thread i ?t s)" "tabled L (set_thread i (?t\<lparr>th_reclaim := True\<rparr>) s)"
    by (rule tabled_entry [OF assms(1,2)]; simp add: thread_blocks_def)+
  then show ?thesis using assms(1,3) tabled_reclaim by (auto simp: bthread_detach_def Let_def split: if_splits)
qed

lemma tabled_finish:
  assumes "tabled L s" "thread_leave L (thread_finish (sc_current s) s) = Some s'"
  shows "tabled L s'"
proof -
  let ?t = "sc_threads s ! sc_current s"
  have c: "sc_current s < MAX_THREADS" by (rule tabled_current [OF assms(1)])
  have "tabled L (thread_finish (sc_current s) s)"
    unfolding thread_finish_def Let_def by (rule tabled_entry [OF assms(1) c]) (simp_all add: thread_blocks_def)
  then have r: "tabled L (reclaim_finished L (thread_finish (sc_current s) s))" by (rule tabled_reclaim)
  let ?r = "reclaim_finished L (thread_finish (sc_current s) s)"
  obtain i where i: "next_live (sc_current ?r) ?r = Some i" "s' = ?r\<lparr>sc_current := i\<rparr>"
    using assms(2) by (auto simp: thread_leave_def Let_def)
  have "i < MAX_THREADS" using next_live_Some(1) [OF i(1) tabled_current [OF r]] by (simp add: live_def)
  then show ?thesis using r i(2) table_ok_current unfolding tabled_def by blast
qed

lemma tabled_slots:
  assumes "tabled L s" "btls_set h v s = (r, s')"
  shows "tabled L s'"
proof -
  have c: "sc_current s < MAX_THREADS" by (rule tabled_current [OF assms(1)])
  have "tabled L (slot_put (sc_current s) h v s)"
    unfolding slot_put_def Let_def by (rule tabled_entry [OF assms(1) c]) (simp_all add: thread_blocks_def)
  then show ?thesis using assms by (auto simp: btls_set_def key_index_def split: if_splits)
qed

lemma tabled_name:
  assumes "tabled L s" "name_set nm s = (r, s')"
  shows "tabled L s'"
proof (cases "15 < length nm")
  case False
  have c: "sc_current s < MAX_THREADS" by (rule tabled_current [OF assms(1)])
  obtain B where "table_ok L B s" using assms(1) by (auto simp: tabled_def)
  note len = table_ok_thread(2) [OF this c]
  let ?t = "sc_threads s ! sc_current s"
  have "tabled L (set_thread (sc_current s) (?t\<lparr>th_name := nm @ drop (length nm) (th_name ?t), th_name_length := length nm\<rparr>) s)"
    by (rule tabled_entry [OF assms(1) c]) (use False len in \<open>simp_all add: thread_blocks_def\<close>)
  then show ?thesis using assms(2) False by (simp add: name_set_def Let_def)
qed (use assms in \<open>simp add: name_set_def\<close>)

lemma tabled_join: "tabled L s \<Longrightarrow> i < MAX_THREADS \<Longrightarrow> i \<noteq> sc_current s \<Longrightarrow> join_ready i s \<Longrightarrow> tabled L (join_end L i s)"
  using join_end_ok unfolding tabled_def by blast

section \<open>Invariants of the objects\<close>

definition each :: "nat \<Rightarrow> (nat \<Rightarrow> 'a \<Rightarrow> bool) \<Rightarrow> 'a list \<Rightarrow> bool" where
  "each n P xs \<longleftrightarrow> length xs = n \<and> (\<forall>i<n. P i (xs ! i))"

lemma eachD: "each n P xs \<Longrightarrow> i < n \<Longrightarrow> P i (xs ! i)"
  by (simp add: each_def)

lemma each_mono: "each n P xs \<Longrightarrow> (\<And>i. i < n \<Longrightarrow> P i (xs ! i) \<Longrightarrow> Q i (xs ! i)) \<Longrightarrow> each n Q xs"
  by (simp add: each_def)

lemma each_update:
  assumes "each n P xs" "i < n" "Q i e" "\<And>j. j < n \<Longrightarrow> j \<noteq> i \<Longrightarrow> P j (xs ! j) \<Longrightarrow> Q j (xs ! j)"
  shows "each n Q (xs[i := e])"
  unfolding each_def
proof (intro conjI allI impI)
  show "length (xs[i := e]) = n" using assms(1) by (simp add: each_def)
  fix j
  assume j: "j < n"
  show "Q j (xs[i := e] ! j)"
    using assms j by (cases "j = i") (auto simp: each_def)
qed

definition mutex_fine :: "mutex_entry \<Rightarrow> nat \<Rightarrow> (nat \<Rightarrow> nat) \<Rightarrow> bool" where
  "mutex_fine e w hold \<longleftrightarrow> mx_users e = mx_depth e + w \<and> (\<forall>t<MAX_THREADS. hold t = (if mx_owner e = t then mx_depth e else 0))
     \<and> (mx_owner e = NOBODY \<longleftrightarrow> mx_depth e = 0) \<and> (mx_owner e \<noteq> NOBODY \<longrightarrow> mx_owner e < MAX_THREADS) \<and> (\<not> mx_used e \<longrightarrow> mx_users e = 0)"

definition rw_fine :: "rwlock_entry \<Rightarrow> nat \<Rightarrow> nat \<Rightarrow> (nat \<Rightarrow> nat) \<Rightarrow> (nat \<Rightarrow> nat) \<Rightarrow> bool" where
  "rw_fine e rd wr r w \<longleftrightarrow> length (rw_held e) = MAX_THREADS \<and> (\<forall>t<MAX_THREADS. unat (rw_held e ! t) = r t \<and> w t = of_bool (rw_writer e = t))
     \<and> rw_readers e = (\<Sum>t<MAX_THREADS. unat (rw_held e ! t)) \<and> (rw_writer e \<noteq> NOBODY \<longrightarrow> rw_writer e < MAX_THREADS \<and> rw_readers e = 0)
     \<and> (\<not> rw_used e \<longrightarrow> rw_writer e = NOBODY \<and> rw_readers e = 0 \<and> rd = 0 \<and> wr = 0)"

definition event_fine :: "event_entry \<Rightarrow> nat \<Rightarrow> nat \<Rightarrow> nat \<Rightarrow> bool" where
  "event_fine e w sg ps \<longleftrightarrow> ev_waiters e = w \<and> (\<not> ev_used e \<longrightarrow> w = 0) \<and> (ev_used e \<and> \<not> ev_manual e \<longrightarrow> ps + of_bool (ev_signaled e) \<le> sg)"

definition wait_ok :: "nat \<Rightarrow> wait \<Rightarrow> nat option \<Rightarrow> bool" where
  "wait_ok t w d \<longleftrightarrow> t < MAX_THREADS \<and> (case w of OnMutex i \<Rightarrow> i < MAX_MUTEXES \<and> d = None | OnRead i \<Rightarrow> i < MAX_RWLOCKS \<and> d = None
     | OnWrite i \<Rightarrow> i < MAX_RWLOCKS \<and> d = None | OnEvent i \<Rightarrow> i < MAX_EVENTS | OnJoin i \<Rightarrow> i < MAX_THREADS \<and> i \<noteq> t \<and> d = None | OnTime \<Rightarrow> True)"

definition waits_ok :: "machine \<Rightarrow> bool" where
  "waits_ok m \<longleftrightarrow> (\<forall>t w d. mc_waits m t = Some (w, d) \<longrightarrow> wait_ok t w d)"

definition mutexes_ok :: "machine \<Rightarrow> deed list \<Rightarrow> bool" where
  "mutexes_ok m h \<longleftrightarrow> each MAX_MUTEXES (\<lambda>i e. mutex_fine e (waiters (OnMutex i) m) (\<lambda>t. holds t i h)) (ob_mutexes (mc_objects m))"

definition rwlocks_ok :: "machine \<Rightarrow> deed list \<Rightarrow> bool" where
  "rwlocks_ok m h \<longleftrightarrow> each MAX_RWLOCKS (\<lambda>i e. rw_fine e (waiters (OnRead i) m) (waiters (OnWrite i) m) (\<lambda>t. reads t i h) (\<lambda>t. writes t i h)) (ob_rwlocks (mc_objects m))"

definition events_ok :: "machine \<Rightarrow> deed list \<Rightarrow> bool" where
  "events_ok m h \<longleftrightarrow> each MAX_EVENTS (\<lambda>i e. event_fine e (waiters (OnEvent i) m) (signals i h) (passes i h)) (ob_events (mc_objects m))"

definition machine_ok :: "layout \<Rightarrow> machine \<Rightarrow> deed list \<Rightarrow> bool" where
  "machine_ok L m h \<longleftrightarrow> tabled L (mc_sched m) \<and> waits_ok m \<and> mutexes_ok m h \<and> rwlocks_ok m h \<and> events_ok m h"

subsection \<open>Counting waiters\<close>

lemma waiters_upd [simp]:
  "waiters w (m\<lparr>mc_sched := s\<rparr>) = waiters w m" "waiters w (m\<lparr>mc_objects := obs\<rparr>) = waiters w m"
  by (simp_all add: waiters_def)

lemma waiters_set:
  assumes "mc_waits m t = None" "t < MAX_THREADS"
  shows "waiters w (set_wait t (Some (v, d)) m) = waiters w m + of_bool (w = v)"
proof -
  let ?A = "\<lambda>m. {u. u < MAX_THREADS \<and> (\<exists>d. mc_waits m u = Some (w, d))}"
  have fin: "finite (?A m)" by simp
  have "?A (set_wait t (Some (v, d)) m) = (if w = v then insert t (?A m) else ?A m)"
    using assms by (auto simp: set_wait_def)
  then show ?thesis using fin assms(1) by (simp add: waiters_def)
qed

lemma waiters_clear:
  assumes "mc_waits m t = Some (v, d)" "t < MAX_THREADS"
  shows "waiters w (m\<lparr>mc_sched := s, mc_objects := obs, mc_waits := (mc_waits m)(t := None)\<rparr>) = waiters w m - of_bool (w = v)" "0 < waiters v m"
proof -
  let ?A = "\<lambda>w m. {u. u < MAX_THREADS \<and> (\<exists>d. mc_waits m u = Some (w, d))}"
  have fin: "finite (?A w m)" for w by simp
  have mem: "t \<in> ?A v m" using assms by simp
  then have "?A v m \<noteq> {}" by blast
  then show "0 < waiters v m" unfolding waiters_def using fin [of v] by (simp only: card_gt_0_iff simp_thms)
  have "?A w (m\<lparr>mc_sched := s, mc_objects := obs, mc_waits := (mc_waits m)(t := None)\<rparr>) = (if w = v then ?A w m - {t} else ?A w m)"
    using assms by auto
  then show "waiters w (m\<lparr>mc_sched := s, mc_objects := obs, mc_waits := (mc_waits m)(t := None)\<rparr>) = waiters w m - of_bool (w = v)"
    using mem fin [of w] by (simp add: waiters_def)
qed

lemma set_wait_simps [simp]:
  "mc_sched (set_wait t w m) = mc_sched m" "mc_objects (set_wait t w m) = mc_objects m" "mc_waits (set_wait t w m) = (mc_waits m)(t := w)"
  by (simp_all add: set_wait_def)

lemma set_entry_simps [simp]:
  "ob_events (set_event i e obs) = (ob_events obs)[i := e]" "ob_mutexes (set_event i e obs) = ob_mutexes obs" "ob_rwlocks (set_event i e obs) = ob_rwlocks obs"
  "ob_events (set_mutex i f obs) = ob_events obs" "ob_mutexes (set_mutex i f obs) = (ob_mutexes obs)[i := f]" "ob_rwlocks (set_mutex i f obs) = ob_rwlocks obs"
  "ob_events (set_rwlock i g obs) = ob_events obs" "ob_mutexes (set_rwlock i g obs) = ob_mutexes obs" "ob_rwlocks (set_rwlock i g obs) = (ob_rwlocks obs)[i := g]"
  by (simp_all add: set_event_def set_mutex_def set_rwlock_def)

subsection \<open>What a step leaves alone\<close>

text \<open>A step touches one kind of object. The others keep their entries, their waiters and their history.\<close>

definition mutexes_same :: "machine \<Rightarrow> deed list \<Rightarrow> machine \<Rightarrow> deed list \<Rightarrow> bool" where
  "mutexes_same m h m' h' \<longleftrightarrow> ob_mutexes (mc_objects m') = ob_mutexes (mc_objects m)
     \<and> (\<forall>i. waiters (OnMutex i) m' = waiters (OnMutex i) m) \<and> (\<forall>t i. holds t i h' = holds t i h)"

definition rwlocks_same :: "machine \<Rightarrow> deed list \<Rightarrow> machine \<Rightarrow> deed list \<Rightarrow> bool" where
  "rwlocks_same m h m' h' \<longleftrightarrow> ob_rwlocks (mc_objects m') = ob_rwlocks (mc_objects m)
     \<and> (\<forall>i. waiters (OnRead i) m' = waiters (OnRead i) m \<and> waiters (OnWrite i) m' = waiters (OnWrite i) m)
     \<and> (\<forall>t i. reads t i h' = reads t i h \<and> writes t i h' = writes t i h)"

definition events_same :: "machine \<Rightarrow> deed list \<Rightarrow> machine \<Rightarrow> deed list \<Rightarrow> bool" where
  "events_same m h m' h' \<longleftrightarrow> ob_events (mc_objects m') = ob_events (mc_objects m)
     \<and> (\<forall>i. waiters (OnEvent i) m' = waiters (OnEvent i) m) \<and> (\<forall>i. signals i h' = signals i h \<and> passes i h' = passes i h)"

lemma kept_same:
  "mutexes_same m h m' h' \<Longrightarrow> mutexes_ok m h \<Longrightarrow> mutexes_ok m' h'"
  "rwlocks_same m h m' h' \<Longrightarrow> rwlocks_ok m h \<Longrightarrow> rwlocks_ok m' h'"
  "events_same m h m' h' \<Longrightarrow> events_ok m h \<Longrightarrow> events_ok m' h'"
  by (simp_all add: mutexes_same_def mutexes_ok_def rwlocks_same_def rwlocks_ok_def events_same_def events_ok_def)

lemmas same_defs = mutexes_same_def rwlocks_same_def events_same_def

lemma machine_ok_sched: "machine_ok L m h \<Longrightarrow> tabled L s \<Longrightarrow> machine_ok L (m\<lparr>mc_sched := s\<rparr>) (Quiet # h)"
  by (auto simp: machine_ok_def waits_ok_def same_defs intro: kept_same [of m h])

text \<open>A thread begins to wait for something that has no count of its own.\<close>

lemma machine_ok_wait:
  assumes ok: "machine_ok L m h" and free: "mc_waits m (me m) = None" and w: "wait_ok (me m) w d" "w = OnTime \<or> (\<exists>i. w = OnJoin i)"
  shows "machine_ok L (set_wait (me m) (Some (w, d)) m) (Quiet # h)"
proof -
  have lt: "me m < MAX_THREADS" using w(1) by (simp add: wait_ok_def)
  note ws = waiters_set [OF free lt, of _ w d]
  have "mutexes_same m h (set_wait (me m) (Some (w, d)) m) (Quiet # h)" "rwlocks_same m h (set_wait (me m) (Some (w, d)) m) (Quiet # h)"
    "events_same m h (set_wait (me m) (Some (w, d)) m) (Quiet # h)"
    using w(2) by (auto simp: same_defs ws)
  moreover have "waits_ok (set_wait (me m) (Some (w, d)) m)" using ok w(1) by (auto simp: machine_ok_def waits_ok_def)
  ultimately show ?thesis using ok by (auto simp: machine_ok_def intro: kept_same)
qed

subsection \<open>Mutexes\<close>

lemma mutexes_put:
  assumes "mutexes_ok m h" "i < MAX_MUTEXES" "ob_mutexes (mc_objects m') = (ob_mutexes (mc_objects m))[i := e]"
    "mutex_fine e (waiters (OnMutex i) m') (\<lambda>t. holds t i h')" "\<And>j. j \<noteq> i \<Longrightarrow> waiters (OnMutex j) m' = waiters (OnMutex j) m"
    "\<And>j t. j \<noteq> i \<Longrightarrow> holds t j h' = holds t j h"
  shows "mutexes_ok m' h'"
  unfolding mutexes_ok_def assms(3) by (rule each_update [OF assms(1) [unfolded mutexes_ok_def] assms(2)]) (use assms(4-6) in auto)

lemma mutexesD: "mutexes_ok m h \<Longrightarrow> i < MAX_MUTEXES \<Longrightarrow> mutex_fine (ob_mutexes (mc_objects m) ! i) (waiters (OnMutex i) m) (\<lambda>t. holds t i h)"
  unfolding mutexes_ok_def by (rule eachD)

lemma not_NOBODY: "t < MAX_THREADS \<Longrightarrow> t \<noteq> NOBODY"
  by (simp add: NOBODY_def MAX_THREADS_def width_simps)

lemma mutex_new_ok:
  assumes "mutexes_ok m h" "bmutex_create rec (mc_objects m) = (r, obs)"
  shows "mutexes_ok (m\<lparr>mc_objects := obs\<rparr>) (Quiet # h)" "ob_rwlocks obs = ob_rwlocks (mc_objects m)" "ob_events obs = ob_events (mc_objects m)"
proof -
  show "ob_rwlocks obs = ob_rwlocks (mc_objects m)" "ob_events obs = ob_events (mc_objects m)"
    using assms(2) by (auto simp: bmutex_create_def split: option.splits)
  show "mutexes_ok (m\<lparr>mc_objects := obs\<rparr>) (Quiet # h)"
  proof (cases "find (\<lambda>i. \<not> mx_used (ob_mutexes (mc_objects m) ! i)) [0..<MAX_MUTEXES]")
    case None
    then show ?thesis using assms by (auto simp: bmutex_create_def mutexes_ok_def)
  next
    case (Some i)
    then have i: "i < MAX_MUTEXES" "\<not> mx_used (ob_mutexes (mc_objects m) ! i)" by (auto simp: find_first)
    have e: "ob_mutexes obs = (ob_mutexes (mc_objects m))[i := FREE_MUTEX\<lparr>mx_used := True, mx_recursive := rec\<rparr>]"
      using assms(2) Some by (auto simp: bmutex_create_def)
    show ?thesis
      by (rule mutexes_put [OF assms(1) i(1), where e = "FREE_MUTEX\<lparr>mx_used := True, mx_recursive := rec\<rparr>"])
        (use e mutexesD [OF assms(1) i(1)] i(2) in \<open>auto simp: mutex_fine_def FREE_MUTEX_def split: if_splits\<close>)
  qed
qed

lemma mutex_gone_ok:
  assumes "mutexes_ok m h" "in_table MAX_MUTEXES found" "bmutex_destroy found (mc_objects m) = (r, obs)"
  shows "mutexes_ok (m\<lparr>mc_objects := obs\<rparr>) (Quiet # h)" "ob_rwlocks obs = ob_rwlocks (mc_objects m)" "ob_events obs = ob_events (mc_objects m)"
proof -
  show "ob_rwlocks obs = ob_rwlocks (mc_objects m)" "ob_events obs = ob_events (mc_objects m)"
    using assms(3) by (auto simp: bmutex_destroy_def split: option.splits if_splits)
  show "mutexes_ok (m\<lparr>mc_objects := obs\<rparr>) (Quiet # h)"
  proof (cases "obs = mc_objects m")
    case True
    then show ?thesis using assms(1) by (simp add: mutexes_ok_def)
  next
    case False
    then obtain i where i: "i < MAX_MUTEXES" "mx_users (ob_mutexes (mc_objects m) ! i) = 0" "obs = set_mutex i FREE_MUTEX (mc_objects m)"
      using assms(2,3) by (auto simp: bmutex_destroy_def in_table_def split: option.splits if_splits)
    show ?thesis
      by (rule mutexes_put [OF assms(1) i(1), where e = FREE_MUTEX])
        (use i(2,3) mutexesD [OF assms(1) i(1)] in \<open>auto simp: mutex_fine_def FREE_MUTEX_def split: if_splits\<close>)
  qed
qed

lemma mutex_lock_ok:
  assumes ok: "mutexes_ok m h" and me: "me m < MAX_THREADS" and free: "mc_waits m (me m) = None"
    and run: "in_table MAX_MUTEXES found" "mutex_lock_begin found (me m) (mc_objects m) = (Inr (i, now), obs)"
  shows "i < MAX_MUTEXES" "ob_rwlocks obs = ob_rwlocks (mc_objects m)" "ob_events obs = ob_events (mc_objects m)"
    "now \<Longrightarrow> mutexes_ok (m\<lparr>mc_objects := obs\<rparr>) (Took (me m) i # h)"
    "\<not> now \<Longrightarrow> mutexes_ok (set_wait (me m) (Some (OnMutex i, None)) (m\<lparr>mc_objects := obs\<rparr>)) (Quiet # h)"
proof -
  let ?e = "ob_mutexes (mc_objects m) ! i"
  show i: "i < MAX_MUTEXES" using run by (auto simp: mutex_lock_begin_def in_table_def Let_def split: option.splits if_splits)
  show "ob_rwlocks obs = ob_rwlocks (mc_objects m)" "ob_events obs = ob_events (mc_objects m)"
    using run(2) by (auto simp: mutex_lock_begin_def Let_def split: option.splits if_splits)
  note f = mutexesD [OF ok i]
  have used: "mx_used ?e" using run(2) by (auto simp: mutex_lock_begin_def Let_def split: option.splits if_splits)
  show "mutexes_ok (m\<lparr>mc_objects := obs\<rparr>) (Took (me m) i # h)" if now
  proof -
    have e: "mx_owner ?e = me m" "ob_mutexes obs = (ob_mutexes (mc_objects m))[i := ?e\<lparr>mx_depth := mx_depth ?e + 1, mx_users := mx_users ?e + 1\<rparr>]"
      using run(2) that by (auto simp: mutex_lock_begin_def Let_def split: option.splits if_splits)
    show ?thesis
      by (rule mutexes_put [OF ok i, where e = "?e\<lparr>mx_depth := mx_depth ?e + 1, mx_users := mx_users ?e + 1\<rparr>"])
        (use e f used me not_NOBODY [OF me] in \<open>auto simp: mutex_fine_def\<close>)
  qed
  show "mutexes_ok (set_wait (me m) (Some (OnMutex i, None)) (m\<lparr>mc_objects := obs\<rparr>)) (Quiet # h)" if "\<not> now"
  proof -
    have e: "ob_mutexes obs = (ob_mutexes (mc_objects m))[i := ?e\<lparr>mx_users := mx_users ?e + 1\<rparr>]"
      using run(2) that by (auto simp: mutex_lock_begin_def Let_def split: option.splits if_splits)
    have ws: "waiters w (set_wait (me m) (Some (OnMutex i, None)) (m\<lparr>mc_objects := obs\<rparr>)) = waiters w m + of_bool (w = OnMutex i)" for w
      using waiters_set [of "m\<lparr>mc_objects := obs\<rparr>" "me m" w "OnMutex i" None] free me by simp
    show ?thesis
      by (rule mutexes_put [OF ok i, where e = "?e\<lparr>mx_users := mx_users ?e + 1\<rparr>"]) (use e f used in \<open>auto simp: ws mutex_fine_def\<close>)
  qed
qed

lemma mutex_unlock_ok:
  assumes ok: "mutexes_ok m h" and me: "me m < MAX_THREADS" and i: "i < MAX_MUTEXES" and run: "bmutex_unlock (Some i) (me m) (mc_objects m) = (r, obs)"
  shows "mutexes_ok (m\<lparr>mc_objects := obs\<rparr>) ((if r = Inr () then Gave (me m) i else Quiet) # h)"
    "ob_rwlocks obs = ob_rwlocks (mc_objects m)" "ob_events obs = ob_events (mc_objects m)"
proof -
  let ?e = "ob_mutexes (mc_objects m) ! i"
  show "ob_rwlocks obs = ob_rwlocks (mc_objects m)" "ob_events obs = ob_events (mc_objects m)"
    using run by (auto simp: bmutex_unlock_def Let_def split: if_splits)
  note f = mutexesD [OF ok i]
  show "mutexes_ok (m\<lparr>mc_objects := obs\<rparr>) ((if r = Inr () then Gave (me m) i else Quiet) # h)"
  proof (cases "mx_used ?e \<and> mx_owner ?e = me m")
    case False
    then show ?thesis using run ok by (auto simp: bmutex_unlock_def Let_def mutexes_ok_def)
  next
    case True
    have d: "0 < mx_depth ?e" "0 < mx_users ?e" using f True not_NOBODY [OF me] by (auto simp: mutex_fine_def)
    define e where "e = ?e\<lparr>mx_depth := mx_depth ?e - 1, mx_users := mx_users ?e - 1\<rparr>"
    have o: "r = Inr ()" "ob_mutexes obs = (ob_mutexes (mc_objects m))[i := if mx_depth e = 0 then e\<lparr>mx_owner := NOBODY\<rparr> else e]"
      using run True d by (auto simp: bmutex_unlock_def Let_def wrap_dec_def e_def)
    show ?thesis unfolding o(1)
      by (rule mutexes_put [OF ok i, where e = "if mx_depth e = 0 then e\<lparr>mx_owner := NOBODY\<rparr> else e"])
        (use o(2) f True d me not_NOBODY in \<open>auto simp: mutex_fine_def e_def\<close>)
  qed
qed

subsection \<open>Reader/writer locks\<close>

lemma rwlocks_put:
  assumes "rwlocks_ok m h" "i < MAX_RWLOCKS" "ob_rwlocks (mc_objects m') = (ob_rwlocks (mc_objects m))[i := e]"
    "rw_fine e (waiters (OnRead i) m') (waiters (OnWrite i) m') (\<lambda>t. reads t i h') (\<lambda>t. writes t i h')"
    "\<And>j. j \<noteq> i \<Longrightarrow> waiters (OnRead j) m' = waiters (OnRead j) m \<and> waiters (OnWrite j) m' = waiters (OnWrite j) m"
    "\<And>j t. j \<noteq> i \<Longrightarrow> reads t j h' = reads t j h \<and> writes t j h' = writes t j h"
  shows "rwlocks_ok m' h'"
  unfolding rwlocks_ok_def assms(3) by (rule each_update [OF assms(1) [unfolded rwlocks_ok_def] assms(2)]) (use assms(4-6) in auto)

lemma rwlocksD:
  "rwlocks_ok m h \<Longrightarrow> i < MAX_RWLOCKS \<Longrightarrow> rw_fine (ob_rwlocks (mc_objects m) ! i) (waiters (OnRead i) m) (waiters (OnWrite i) m) (\<lambda>t. reads t i h) (\<lambda>t. writes t i h)"
  unfolding rwlocks_ok_def by (rule eachD)

lemma rw_fine_free:
  assumes "rw_fine e rd wr r w" "rw_writer e = NOBODY" "rw_readers e = 0"
  shows "rw_fine (FREE_RWLOCK\<lparr>rw_used := True\<rparr>) rd wr r w" "rd = 0 \<Longrightarrow> wr = 0 \<Longrightarrow> rw_fine FREE_RWLOCK rd wr r w"
proof -
  have "rw_readers e = (\<Sum>t<MAX_THREADS. unat (rw_held e ! t))" using assms(1) by (simp only: rw_fine_def)
  with assms(3) have "(\<Sum>t<MAX_THREADS. unat (rw_held e ! t)) = 0" by (simp only:)
  then have "\<forall>t\<in>{..<MAX_THREADS}. unat (rw_held e ! t) = 0" by (simp only: sum_eq_0_iff finite_lessThan)
  then have "\<forall>t<MAX_THREADS. r t = 0" using assms(1) by (simp add: rw_fine_def)
  then show "rw_fine (FREE_RWLOCK\<lparr>rw_used := True\<rparr>) rd wr r w" "rd = 0 \<Longrightarrow> wr = 0 \<Longrightarrow> rw_fine FREE_RWLOCK rd wr r w"
    using assms by (auto simp: rw_fine_def FREE_RWLOCK_def)
qed

lemma rw_new_ok:
  assumes "rwlocks_ok m h" "brw_create (mc_objects m) = (r, obs)"
  shows "rwlocks_ok (m\<lparr>mc_objects := obs\<rparr>) (Quiet # h)" "ob_mutexes obs = ob_mutexes (mc_objects m)" "ob_events obs = ob_events (mc_objects m)"
proof -
  show "ob_mutexes obs = ob_mutexes (mc_objects m)" "ob_events obs = ob_events (mc_objects m)"
    using assms(2) by (auto simp: brw_create_def split: option.splits)
  show "rwlocks_ok (m\<lparr>mc_objects := obs\<rparr>) (Quiet # h)"
  proof (cases "find (\<lambda>i. \<not> rw_used (ob_rwlocks (mc_objects m) ! i)) [0..<MAX_RWLOCKS]")
    case None
    then show ?thesis using assms by (auto simp: brw_create_def rwlocks_ok_def)
  next
    case (Some i)
    then have i: "i < MAX_RWLOCKS" "\<not> rw_used (ob_rwlocks (mc_objects m) ! i)" by (auto simp: find_first)
    note f = rwlocksD [OF assms(1) i(1)]
    have e: "ob_rwlocks obs = (ob_rwlocks (mc_objects m))[i := FREE_RWLOCK\<lparr>rw_used := True\<rparr>]" using assms(2) Some by (auto simp: brw_create_def)
    have new: "rw_fine (FREE_RWLOCK\<lparr>rw_used := True\<rparr>) (waiters (OnRead i) m) (waiters (OnWrite i) m) (\<lambda>t. reads t i h) (\<lambda>t. writes t i h)"
      by (rule rw_fine_free(1) [OF f]) (use f i(2) in \<open>auto simp: rw_fine_def\<close>)
    show ?thesis by (rule rwlocks_put [OF assms(1) i(1), where e = "FREE_RWLOCK\<lparr>rw_used := True\<rparr>"]) (use e new in auto)
  qed
qed

lemma rw_gone_ok:
  assumes ok: "rwlocks_ok m h" and i: "i < MAX_RWLOCKS" "waiters (OnRead i) m = 0" "waiters (OnWrite i) m = 0" and run: "brw_destroy (Some i) (mc_objects m) = (r, obs)"
  shows "rwlocks_ok (m\<lparr>mc_objects := obs\<rparr>) (Quiet # h)" "ob_mutexes obs = ob_mutexes (mc_objects m)" "ob_events obs = ob_events (mc_objects m)"
proof -
  show "ob_mutexes obs = ob_mutexes (mc_objects m)" "ob_events obs = ob_events (mc_objects m)"
    using run by (auto simp: brw_destroy_def Let_def split: if_splits)
  note f = rwlocksD [OF ok i(1)]
  show "rwlocks_ok (m\<lparr>mc_objects := obs\<rparr>) (Quiet # h)"
  proof (cases "obs = mc_objects m")
    case True
    then show ?thesis using ok by (simp add: rwlocks_ok_def)
  next
    case False
    then have e: "rw_writer (ob_rwlocks (mc_objects m) ! i) = NOBODY" "rw_readers (ob_rwlocks (mc_objects m) ! i) = 0" "obs = set_rwlock i FREE_RWLOCK (mc_objects m)"
      using run by (auto simp: brw_destroy_def Let_def split: if_splits)
    have new: "rw_fine FREE_RWLOCK (waiters (OnRead i) m) (waiters (OnWrite i) m) (\<lambda>t. reads t i h) (\<lambda>t. writes t i h)"
      by (rule rw_fine_free(2) [OF f e(1,2) i(2,3)])
    show ?thesis by (rule rwlocks_put [OF ok i(1), where e = FREE_RWLOCK]) (use e(3) new in auto)
  qed
qed

lemma sum_upd:
  assumes "u < (n :: nat)" "length xs = n"
  shows "(\<Sum>t<n. unat (xs[u := b] ! t)) + unat (xs ! u) = (\<Sum>t<n. unat (xs ! t :: byte)) + unat b"
proof -
  have split: "(\<Sum>t<n. f t) = f u + (\<Sum>t\<in>{..<n} - {u}. f t)" for f :: "nat \<Rightarrow> nat"
    using assms(1) by (intro sum.remove) auto
  have "(\<Sum>t\<in>{..<n} - {u}. unat (xs[u := b] ! t)) = (\<Sum>t\<in>{..<n} - {u}. unat (xs ! t))" by (intro sum.cong) auto
  then show ?thesis using split [of "\<lambda>t. unat (xs[u := b] ! t)"] split [of "\<lambda>t. unat (xs ! t)"] assms by simp
qed

lemma unat_byte_inc: "b \<noteq> (255 :: byte) \<Longrightarrow> unat (b + 1) = unat b + 1"
proof -
  assume b: "b \<noteq> 255"
  have "b + 1 \<noteq> 0"
  proof
    assume "b + 1 = 0"
    then have "b = - 1" by (rule eq_neg_iff_add_eq_0 [THEN iffD2])
    then show False using b by simp
  qed
  then show ?thesis using unatSuc [of b] by (simp add: add.commute)
qed

lemma unat_byte_dec: "b \<noteq> (0 :: byte) \<Longrightarrow> unat (b - 1) = unat b - 1 \<and> 0 < unat b"
  by (simp add: unat_minus_one unat_gt_0)

text \<open>One more and one fewer read lock of a thread, one writer more and one fewer.\<close>

lemma rw_fine_read:
  assumes f: "rw_fine e rd wr r w" and u: "u < MAX_THREADS" and free: "rw_writer e = NOBODY" and room: "rw_held e ! u \<noteq> 255"
    and r': "\<And>t. r' t = r t + of_bool (t = u)" and used: "rw_used e"
  shows "rw_fine (e\<lparr>rw_readers := rw_readers e + 1, rw_held := (rw_held e)[u := rw_held e ! u + 1]\<rparr>) rd' wr' r' w"
proof -
  have "unat ((rw_held e)[u := rw_held e ! u + 1] ! t) = r' t" if "t < MAX_THREADS" for t
    using f u that unat_byte_inc [OF room] by (cases "t = u") (auto simp: rw_fine_def r')
  moreover have "(\<Sum>t<MAX_THREADS. unat ((rw_held e)[u := rw_held e ! u + 1] ! t)) = rw_readers e + 1"
    using sum_upd [OF u, of "rw_held e" "rw_held e ! u + 1"] f unat_byte_inc [OF room] by (simp add: rw_fine_def)
  ultimately show ?thesis using f free used by (simp add: rw_fine_def)
qed

lemma rw_fine_unread:
  assumes f: "rw_fine e rd wr r w" and u: "u < MAX_THREADS" and held: "rw_held e ! u \<noteq> 0" and used: "rw_used e"
    and r': "\<And>t. r' t = r t - of_bool (t = u)"
  shows "rw_fine (e\<lparr>rw_held := (rw_held e)[u := rw_held e ! u - 1], rw_readers := wrap_dec (rw_readers e)\<rparr>) rd wr r' w"
proof -
  let ?held = "(rw_held e)[u := rw_held e ! u - 1]"
  note dec = unat_byte_dec [OF held]
  have r: "unat (?held ! t) = r' t" if "t < MAX_THREADS" for t
    using f u that dec by (cases "t = u") (auto simp: rw_fine_def r')
  have "(\<Sum>t<MAX_THREADS. unat (?held ! t)) + unat (rw_held e ! u) = rw_readers e + unat (rw_held e ! u - 1)"
    using sum_upd [OF u, of "rw_held e" "rw_held e ! u - 1"] f by (simp add: rw_fine_def)
  with dec have s: "rw_readers e = (\<Sum>t<MAX_THREADS. unat (?held ! t)) + 1" by linarith
  then have "wrap_dec (rw_readers e) = (\<Sum>t<MAX_THREADS. unat (?held ! t))" by (simp add: wrap_dec_def)
  moreover have "rw_writer e = NOBODY" using f s by (auto simp: rw_fine_def)
  ultimately show ?thesis using f used r by (simp add: rw_fine_def)
qed

lemma rw_fine_write:
  assumes f: "rw_fine e rd wr r w" and u: "u < MAX_THREADS" and free: "rw_writer e = NOBODY" "rw_readers e = 0" and used: "rw_used e"
    and w': "\<And>t. t < MAX_THREADS \<Longrightarrow> w' t = w t + of_bool (t = u)"
  shows "rw_fine (e\<lparr>rw_writer := u\<rparr>) rd' wr' r w'"
  using f u free used w' not_NOBODY by (auto simp: rw_fine_def)

lemma rw_fine_unwrite:
  assumes f: "rw_fine e rd wr r w" and u: "u < MAX_THREADS" and own: "rw_writer e = u" and used: "rw_used e"
    and w': "\<And>t. t < MAX_THREADS \<Longrightarrow> w' t = w t - of_bool (t = u)"
  shows "rw_fine (e\<lparr>rw_writer := NOBODY\<rparr>) rd wr r w'"
  using f u own used w' not_NOBODY by (auto simp: rw_fine_def)

lemma rw_gives_ok:
  assumes ok: "rwlocks_ok m h" and me: "me m < MAX_THREADS" and i: "i < MAX_RWLOCKS" and run: "brw_unlock (Some i) (me m) (mc_objects m) = (r, obs)"
  shows "rwlocks_ok (m\<lparr>mc_objects := obs\<rparr>) ((if r = Inr () then rw_note (me m) i (mc_objects m) else Quiet) # h)"
    "ob_mutexes obs = ob_mutexes (mc_objects m)" "ob_events obs = ob_events (mc_objects m)"
proof -
  let ?e = "ob_rwlocks (mc_objects m) ! i"
  show "ob_mutexes obs = ob_mutexes (mc_objects m)" "ob_events obs = ob_events (mc_objects m)"
    using run by (auto simp: brw_unlock_def Let_def split: if_splits)
  note f = rwlocksD [OF ok i]
  consider (refused) "r \<noteq> Inr ()" "obs = mc_objects m"
    | (writer) "r = Inr ()" "rw_used ?e" "rw_writer ?e = me m" "obs = set_rwlock i (?e\<lparr>rw_writer := NOBODY\<rparr>) (mc_objects m)"
    | (reader) "r = Inr ()" "rw_used ?e" "rw_writer ?e \<noteq> me m" "rw_held ?e ! me m \<noteq> 0"
        "obs = set_rwlock i (?e\<lparr>rw_held := (rw_held ?e)[me m := rw_held ?e ! me m - 1], rw_readers := wrap_dec (rw_readers ?e)\<rparr>) (mc_objects m)"
    using run by (auto simp: brw_unlock_def Let_def split: if_splits)
  then show "rwlocks_ok (m\<lparr>mc_objects := obs\<rparr>) ((if r = Inr () then rw_note (me m) i (mc_objects m) else Quiet) # h)"
  proof cases
    case refused
    then show ?thesis using ok by (simp add: rwlocks_ok_def)
  next
    case writer
    have "rw_fine (?e\<lparr>rw_writer := NOBODY\<rparr>) (waiters (OnRead i) m) (waiters (OnWrite i) m) (\<lambda>t. reads t i h) (\<lambda>t. writes t i (WriteGave (me m) i # h))"
      by (rule rw_fine_unwrite [OF f me writer(3,2)]) simp
    then show ?thesis
      by (intro rwlocks_put [OF ok i, where e = "?e\<lparr>rw_writer := NOBODY\<rparr>"]) (use writer in \<open>auto simp: rw_note_def\<close>)
  next
    case reader
    let ?new = "?e\<lparr>rw_held := (rw_held ?e)[me m := rw_held ?e ! me m - 1], rw_readers := wrap_dec (rw_readers ?e)\<rparr>"
    have "rw_fine ?new (waiters (OnRead i) m) (waiters (OnWrite i) m) (\<lambda>t. reads t i (ReadGave (me m) i # h)) (\<lambda>t. writes t i h)"
      by (rule rw_fine_unread [OF f me reader(4,2)]) simp
    then show ?thesis
      by (intro rwlocks_put [OF ok i, where e = ?new]) (use reader in \<open>auto simp: rw_note_def\<close>)
  qed
qed

text \<open>A thread begins to wait for a lock that exists.\<close>

lemma rw_wait_ok:
  assumes ok: "rwlocks_ok m h" and me: "me m < MAX_THREADS" and free: "mc_waits m (me m) = None"
    and run: "in_table MAX_RWLOCKS found" "rw_begin found (mc_objects m) = Inr i" and w: "w = OnRead i \<or> w = OnWrite i"
  shows "i < MAX_RWLOCKS" "rwlocks_ok (set_wait (me m) (Some (w, None)) m) (Quiet # h)"
proof -
  let ?e = "ob_rwlocks (mc_objects m) ! i"
  show i: "i < MAX_RWLOCKS" using run by (auto simp: rw_begin_def in_table_def split: option.splits if_splits)
  have used: "rw_used ?e" using run(2) by (auto simp: rw_begin_def split: option.splits if_splits)
  note ws = waiters_set [OF free me, of _ w None]
  show "rwlocks_ok (set_wait (me m) (Some (w, None)) m) (Quiet # h)"
    by (rule rwlocks_put [OF ok i, where e = ?e]) (use w used rwlocksD [OF ok i] in \<open>auto simp: ws rw_fine_def\<close>)
qed

subsection \<open>Events\<close>

lemma events_put:
  assumes "events_ok m h" "i < MAX_EVENTS" "ob_events (mc_objects m') = (ob_events (mc_objects m))[i := e]"
    "event_fine e (waiters (OnEvent i) m') (signals i h') (passes i h')" "\<And>j. j \<noteq> i \<Longrightarrow> waiters (OnEvent j) m' = waiters (OnEvent j) m"
    "\<And>j. j \<noteq> i \<Longrightarrow> signals j h' = signals j h \<and> passes j h' = passes j h"
  shows "events_ok m' h'"
  unfolding events_ok_def assms(3) by (rule each_update [OF assms(1) [unfolded events_ok_def] assms(2)]) (use assms(4-6) in auto)

lemma eventsD: "events_ok m h \<Longrightarrow> i < MAX_EVENTS \<Longrightarrow> event_fine (ob_events (mc_objects m) ! i) (waiters (OnEvent i) m) (signals i h) (passes i h)"
  unfolding events_ok_def by (rule eachD)

lemma event_new_ok:
  assumes "events_ok m h" "bevent_create manual on (mc_objects m) = (r, obs)"
  shows "events_ok (m\<lparr>mc_objects := obs\<rparr>) ((case r of Inr i \<Rightarrow> EventNew i on | Inl _ \<Rightarrow> Quiet) # h)"
    "ob_rwlocks obs = ob_rwlocks (mc_objects m)" "ob_mutexes obs = ob_mutexes (mc_objects m)"
proof -
  show "ob_rwlocks obs = ob_rwlocks (mc_objects m)" "ob_mutexes obs = ob_mutexes (mc_objects m)"
    using assms(2) by (auto simp: bevent_create_def split: option.splits)
  show "events_ok (m\<lparr>mc_objects := obs\<rparr>) ((case r of Inr i \<Rightarrow> EventNew i on | Inl _ \<Rightarrow> Quiet) # h)"
  proof (cases "find (\<lambda>i. \<not> ev_used (ob_events (mc_objects m) ! i)) [0..<MAX_EVENTS]")
    case None
    then show ?thesis using assms by (auto simp: bevent_create_def events_ok_def)
  next
    case (Some i)
    then have i: "i < MAX_EVENTS" "\<not> ev_used (ob_events (mc_objects m) ! i)" by (auto simp: find_first)
    let ?e = "\<lparr>ev_used = True, ev_manual = manual, ev_signaled = on, ev_waiters = 0\<rparr>"
    have e: "r = Inr i" "ob_events obs = (ob_events (mc_objects m))[i := ?e]"
      using assms(2) Some by (auto simp: bevent_create_def)
    show ?thesis
      by (rule events_put [OF assms(1) i(1), where e = ?e]) (use e eventsD [OF assms(1) i(1)] i(2) in \<open>auto simp: event_fine_def\<close>)
  qed
qed

lemma event_gone_ok:
  assumes "events_ok m h" "in_table MAX_EVENTS found" "bevent_destroy found (mc_objects m) = (r, obs)"
  shows "events_ok (m\<lparr>mc_objects := obs\<rparr>) (Quiet # h)" "ob_rwlocks obs = ob_rwlocks (mc_objects m)" "ob_mutexes obs = ob_mutexes (mc_objects m)"
proof -
  show "ob_rwlocks obs = ob_rwlocks (mc_objects m)" "ob_mutexes obs = ob_mutexes (mc_objects m)"
    using assms(3) by (auto simp: bevent_destroy_def split: option.splits if_splits)
  show "events_ok (m\<lparr>mc_objects := obs\<rparr>) (Quiet # h)"
  proof (cases "obs = mc_objects m")
    case True
    then show ?thesis using assms(1) by (simp add: events_ok_def)
  next
    case False
    then obtain i where i: "i < MAX_EVENTS" "ev_waiters (ob_events (mc_objects m) ! i) = 0" "obs = set_event i FREE_EVENT (mc_objects m)"
      using assms(2,3) by (auto simp: bevent_destroy_def in_table_def split: option.splits if_splits)
    show ?thesis
      by (rule events_put [OF assms(1) i(1), where e = FREE_EVENT])
        (use i(2,3) eventsD [OF assms(1) i(1)] in \<open>auto simp: event_fine_def FREE_EVENT_def\<close>)
  qed
qed

lemma event_signal_ok:
  assumes ok: "events_ok m h" and i: "in_table MAX_EVENTS found" and run: "bevent_signal to found (mc_objects m) = (r, obs)"
  shows "to \<Longrightarrow> found = Some i \<Longrightarrow> events_ok (m\<lparr>mc_objects := obs\<rparr>) ((if r = Inr () then EventSet i else Quiet) # h)"
    "\<not> to \<Longrightarrow> events_ok (m\<lparr>mc_objects := obs\<rparr>) (Quiet # h)"
    "ob_rwlocks obs = ob_rwlocks (mc_objects m)" "ob_mutexes obs = ob_mutexes (mc_objects m)"
proof -
  show "ob_rwlocks obs = ob_rwlocks (mc_objects m)" "ob_mutexes obs = ob_mutexes (mc_objects m)"
    using run by (auto simp: bevent_signal_def split: option.splits if_splits)
  have same: "events_ok (m\<lparr>mc_objects := obs\<rparr>) (Quiet # h)" if "obs = mc_objects m"
    using ok that by (simp add: events_ok_def)
  have put: "obs = set_event j ((ob_events (mc_objects m) ! j)\<lparr>ev_signaled := to\<rparr>) (mc_objects m) \<and> r = Inr () \<and> j < MAX_EVENTS"
    if "found = Some j" "ev_used (ob_events (mc_objects m) ! j)" for j
    using run i that by (auto simp: bevent_signal_def in_table_def)
  have refused: "obs = mc_objects m \<and> r \<noteq> Inr ()" if "\<nexists>j. found = Some j \<and> ev_used (ob_events (mc_objects m) ! j)"
    using run that by (auto simp: bevent_signal_def split: option.splits if_splits)
  have set: "events_ok (m\<lparr>mc_objects := obs\<rparr>) ((if to then EventSet j else Quiet) # h)"
    if j: "found = Some j" "ev_used (ob_events (mc_objects m) ! j)" for j
    by (rule events_put [OF ok, where i = j and e = "(ob_events (mc_objects m) ! j)\<lparr>ev_signaled := to\<rparr>"])
      (use put [OF j] eventsD [OF ok, of j] j in \<open>auto simp: event_fine_def split: if_splits\<close>)
  show "events_ok (m\<lparr>mc_objects := obs\<rparr>) ((if r = Inr () then EventSet i else Quiet) # h)" if "to" "found = Some i"
    using set [of i] put [of i] same refused that by (cases "ev_used (ob_events (mc_objects m) ! i)") auto
  show "events_ok (m\<lparr>mc_objects := obs\<rparr>) (Quiet # h)" if "\<not> to"
    using set same refused that by (cases "\<exists>j. found = Some j \<and> ev_used (ob_events (mc_objects m) ! j)") auto
qed

lemma event_wait_ok:
  assumes ok: "events_ok m h" and me: "me m < MAX_THREADS" and free: "mc_waits m (me m) = None"
    and run: "in_table MAX_EVENTS found" "event_wait_begin found (mc_objects m) = (Inr i, obs)"
  shows "i < MAX_EVENTS" "ob_rwlocks obs = ob_rwlocks (mc_objects m)" "ob_mutexes obs = ob_mutexes (mc_objects m)"
    "events_ok (set_wait (me m) (Some (OnEvent i, d)) (m\<lparr>mc_objects := obs\<rparr>)) (Quiet # h)"
proof -
  let ?e = "ob_events (mc_objects m) ! i"
  show i: "i < MAX_EVENTS" using run by (auto simp: event_wait_begin_def in_table_def split: option.splits if_splits)
  show "ob_rwlocks obs = ob_rwlocks (mc_objects m)" "ob_mutexes obs = ob_mutexes (mc_objects m)"
    using run(2) by (auto simp: event_wait_begin_def split: option.splits if_splits)
  have e: "ev_used ?e" "ob_events obs = (ob_events (mc_objects m))[i := ?e\<lparr>ev_waiters := ev_waiters ?e + 1\<rparr>]"
    using run(2) by (auto simp: event_wait_begin_def split: option.splits if_splits)
  have ws: "waiters w (set_wait (me m) (Some (OnEvent i, d)) (m\<lparr>mc_objects := obs\<rparr>)) = waiters w m + of_bool (w = OnEvent i)" for w
    using waiters_set [of "m\<lparr>mc_objects := obs\<rparr>" "me m" w "OnEvent i" d] free me by simp
  show "events_ok (set_wait (me m) (Some (OnEvent i, d)) (m\<lparr>mc_objects := obs\<rparr>)) (Quiet # h)"
    by (rule events_put [OF ok i, where e = "?e\<lparr>ev_waiters := ev_waiters ?e + 1\<rparr>"]) (use e eventsD [OF ok i] in \<open>auto simp: ws event_fine_def\<close>)
qed

subsection \<open>A round of waiting\<close>

lemma wait_ready_False: "wait_ready w (s, obs) = (False, st) \<Longrightarrow> st = (s, obs)"
  by (cases w) (auto simp: event_ready_def Let_def split: if_splits)

text \<open>The machine after a wait that is over.\<close>

definition awake :: "machine \<Rightarrow> sched \<Rightarrow> objects \<Rightarrow> machine" where
  "awake m s obs = m\<lparr>mc_sched := s, mc_objects := obs, mc_waits := (mc_waits m)(me m := None)\<rparr>"

lemma awake_simps [simp]:
  "mc_sched (awake m s obs) = s" "mc_objects (awake m s obs) = obs" "mc_waits (awake m s obs) = (mc_waits m)(me m := None)"
  by (simp_all add: awake_def)

lemma waiters_awake:
  assumes "mc_waits m (me m) = Some (v, d)" "me m < MAX_THREADS"
  shows "waiters w (awake m s obs) = waiters w m - of_bool (w = v)"
  unfolding awake_def by (rule waiters_clear(1) [OF assms])

text \<open>A condition that fails changes nothing, so the second look at a deadline fails as well.\<close>

lemma poll_cases:
  assumes "mc_waits m (me m) = Some (w, d)" "poll L now m = (r, m')"
  obtains (ready) s obs where "r = Some (Inr ())" "wait_ready w (mc_sched m, mc_objects m) = (True, (s, obs))"
      "m' = (let (s, obs) = wait_done L w (me m) True (s, obs) in awake m s obs)"
    | (late) "r = Some (Inl Timeout)" "d \<noteq> None"
      "m' = (let (s, obs) = wait_done L w (me m) False (mc_sched m, mc_objects m) in awake m s obs)"
    | (more) "r = None" "m' = m\<lparr>mc_sched := snd (schedule L (mc_sched m))\<rparr>"
proof (cases "fst (wait_ready w (mc_sched m, mc_objects m))")
  case True
  then obtain s obs where "wait_ready w (mc_sched m, mc_objects m) = (True, (s, obs))" by (metis prod.collapse)
  then show ?thesis using ready [of s obs] assms by (auto simp: awake_def poll_def block_round_def Let_def split: prod.splits)
next
  case False
  then have "wait_ready w (mc_sched m, mc_objects m) = (False, (mc_sched m, mc_objects m))"
    using wait_ready_False [of w "mc_sched m" "mc_objects m"] by (metis prod.collapse)
  then show ?thesis using late more assms by (auto simp: awake_def poll_def block_round_def Let_def split: prod.splits option.splits if_splits)
qed

lemma awake_ok:
  assumes "machine_ok L m h" "tabled L s" "mutexes_ok (awake m s obs) h' \<or> mutexes_same m h (awake m s obs) h'"
    "rwlocks_ok (awake m s obs) h' \<or> rwlocks_same m h (awake m s obs) h'" "events_ok (awake m s obs) h' \<or> events_same m h (awake m s obs) h'"
  shows "machine_ok L (awake m s obs) h'"
  using assms kept_same [of m h "awake m s obs" h'] by (auto simp: machine_ok_def waits_ok_def)

lemma mutex_ready_ok:
  assumes ok: "mutexes_ok m h" and me: "me m < MAX_THREADS" and w: "mc_waits m (me m) = Some (OnMutex i, d)" and i: "i < MAX_MUTEXES"
    and free: "mutex_ready i (mc_objects m)"
  shows "mutexes_ok (awake m s (mutex_lock_end i (me m) (mc_objects m))) (Took (me m) i # h)"
proof -
  let ?e = "ob_mutexes (mc_objects m) ! i"
  note f = mutexesD [OF ok i] and ws = waiters_awake [OF w me] waiters_clear(2) [OF w me]
  have used: "mx_used ?e" using f ws(2) by (auto simp: mutex_fine_def)
  show ?thesis
    by (rule mutexes_put [OF ok i, where e = "?e\<lparr>mx_owner := me m, mx_depth := 1\<rparr>"])
      (use f free used ws(2) me not_NOBODY in \<open>auto simp: mutex_lock_end_def mutex_ready_def mutex_fine_def ws(1)\<close>)
qed

lemma rw_waited:
  assumes "rwlocks_ok m h" "me m < MAX_THREADS" "mc_waits m (me m) = Some (w, d)" "w = OnRead i \<or> w = OnWrite i" "i < MAX_RWLOCKS"
  shows "rw_used (ob_rwlocks (mc_objects m) ! i)"
  using rwlocksD [OF assms(1,5)] waiters_clear(2) [OF assms(3,2)] assms(4) by (auto simp: rw_fine_def)

lemma read_ready_ok:
  assumes ok: "rwlocks_ok m h" and me: "me m < MAX_THREADS" and w: "mc_waits m (me m) = Some (OnRead i, d)" and i: "i < MAX_RWLOCKS"
    and free: "read_ready i (mc_objects m)" "rw_held (ob_rwlocks (mc_objects m) ! i) ! me m \<noteq> 255"
  shows "rwlocks_ok (awake m s (read_end i (me m) (mc_objects m))) (ReadTook (me m) i # h)"
proof -
  let ?e = "ob_rwlocks (mc_objects m) ! i"
  let ?new = "?e\<lparr>rw_readers := rw_readers ?e + 1, rw_held := (rw_held ?e)[me m := rw_held ?e ! me m + 1]\<rparr>"
  note f = rwlocksD [OF ok i] and ws = waiters_awake [OF w me] waiters_clear(2) [OF w me]
  have "rw_fine ?new rd wr (\<lambda>t. reads t i (ReadTook (me m) i # h)) (\<lambda>t. writes t i h)" for rd wr
    by (rule rw_fine_read [OF f me]) (use free rw_waited [OF ok me w _ i] in \<open>auto simp: read_ready_def\<close>)
  then show ?thesis
    by (intro rwlocks_put [OF ok i, where e = ?new]) (auto simp: read_end_def Let_def ws(1))
qed

lemma write_ready_ok:
  assumes ok: "rwlocks_ok m h" and me: "me m < MAX_THREADS" and w: "mc_waits m (me m) = Some (OnWrite i, d)" and i: "i < MAX_RWLOCKS"
    and free: "write_ready i (mc_objects m)"
  shows "rwlocks_ok (awake m s (write_end i (me m) (mc_objects m))) (WriteTook (me m) i # h)"
proof -
  let ?e = "ob_rwlocks (mc_objects m) ! i"
  note f = rwlocksD [OF ok i] and ws = waiters_awake [OF w me] waiters_clear(2) [OF w me]
  have "rw_fine (?e\<lparr>rw_writer := me m\<rparr>) rd wr (\<lambda>t. reads t i h) (\<lambda>t. writes t i (WriteTook (me m) i # h))" for rd wr
    by (rule rw_fine_write [OF f me]) (use free rw_waited [OF ok me w _ i] in \<open>auto simp: write_ready_def\<close>)
  then show ?thesis
    by (intro rwlocks_put [OF ok i, where e = "?e\<lparr>rw_writer := me m\<rparr>"]) (auto simp: write_end_def ws(1))
qed

lemma event_end_ok:
  assumes ok: "events_ok m h" and me: "me m < MAX_THREADS" and w: "mc_waits m (me m) = Some (OnEvent i, d)" and i: "i < MAX_EVENTS"
  shows "event_ready i (mc_objects m) = (True, obs) \<Longrightarrow> events_ok (awake m s (event_wait_end i obs)) (EventPassed i # h)"
    "events_ok (awake m s (event_wait_end i (mc_objects m))) (Quiet # h)"
proof -
  let ?e = "ob_events (mc_objects m) ! i"
  note f = eventsD [OF ok i] and ws = waiters_awake [OF w me] waiters_clear(2) [OF w me]
  have len: "i < length (ob_events (mc_objects m))" using ok i by (simp add: events_ok_def each_def)
  have used: "ev_used ?e" "0 < ev_waiters ?e" using f ws(2) by (auto simp: event_fine_def)
  show "events_ok (awake m s (event_wait_end i (mc_objects m))) (Quiet # h)"
    by (rule events_put [OF ok i, where e = "?e\<lparr>ev_waiters := ev_waiters ?e - 1\<rparr>"])
      (use f used in \<open>auto simp: event_wait_end_def wrap_dec_def event_fine_def ws(1)\<close>)
  show "events_ok (awake m s (event_wait_end i obs)) (EventPassed i # h)" if run: "event_ready i (mc_objects m) = (True, obs)"
  proof -
    let ?new = "(if ev_manual ?e then ?e else ?e\<lparr>ev_signaled := False\<rparr>)\<lparr>ev_waiters := ev_waiters ?e - 1\<rparr>"
    have sig: "ev_signaled ?e" using run by (auto simp: event_ready_def Let_def split: if_splits)
    have "ob_events (event_wait_end i obs) = (ob_events (mc_objects m))[i := ?new]"
      using run len used sig by (auto simp: event_ready_def event_wait_end_def wrap_dec_def Let_def split: if_splits)
    then show ?thesis
      by (intro events_put [OF ok i, where e = ?new]) (use f used sig in \<open>auto simp: event_fine_def ws(1)\<close>)
  qed
qed

lemma poll_ok:
  assumes ok: "machine_ok L m h" and w: "mc_waits m (me m) = Some (w, d)" and room: "read_room w m" and run: "poll L now m = (Some r, m')"
  shows "machine_ok L m' (wait_note w (me m) (r = Inr ()) # h)"
proof -
  have wait: "wait_ok (me m) w d" and tab: "tabled L (mc_sched m)" using ok w by (auto simp: machine_ok_def waits_ok_def)
  have me: "me m < MAX_THREADS" using wait by (simp add: wait_ok_def)
  note parts = ok [unfolded machine_ok_def] and ws = waiters_awake [OF w me]
  from w run show ?thesis
  proof (cases rule: poll_cases)
    case late
    then consider "w = OnTime" | i where "w = OnEvent i" "i < MAX_EVENTS" using wait by (auto simp: wait_ok_def split: wait.splits)
    then show ?thesis
    proof cases
      case 1
      then have "m' = awake m (mc_sched m) (mc_objects m)" "wait_note w (me m) (r = Inr ()) = Quiet" using late by (auto simp: wait_note_def)
      then show ?thesis by (simp only:) (rule awake_ok [OF ok tab]; simp add: 1 ws same_defs)
    next
      case (2 i)
      then have "m' = awake m (mc_sched m) (event_wait_end i (mc_objects m))" "wait_note w (me m) (r = Inr ()) = Quiet" using late by (auto simp: wait_note_def)
      moreover have "events_ok (awake m (mc_sched m) (event_wait_end i (mc_objects m))) (Quiet # h)"
        by (rule event_end_ok(2) [OF _ me]) (use parts w 2 in auto)
      ultimately show ?thesis by (simp only:) (rule awake_ok [OF ok tab]; simp add: 2 ws same_defs event_wait_end_def)
    qed
  next
    case (ready s obs)
    show ?thesis
    proof (cases w)
      case (OnEvent i)
      then have ev: "event_ready i (mc_objects m) = (True, obs)" "s = mc_sched m" "i < MAX_EVENTS" using ready wait by (auto simp: wait_ok_def split: prod.splits)
      then have same: "ob_mutexes obs = ob_mutexes (mc_objects m)" "ob_rwlocks obs = ob_rwlocks (mc_objects m)"
        by (auto simp: event_ready_def Let_def split: if_splits)
      have "events_ok (awake m (mc_sched m) (event_wait_end i obs)) (EventPassed i # h)"
        by (rule event_end_ok(1) [OF _ me _ _ ev(1)]) (use parts w OnEvent ev in auto)
      moreover have "m' = awake m (mc_sched m) (event_wait_end i obs)" "wait_note w (me m) (r = Inr ()) = EventPassed i"
        using ready OnEvent ev by (simp_all add: wait_note_def)
      ultimately show ?thesis by (simp only:) (rule awake_ok [OF ok tab]; simp add: OnEvent ws same_defs same event_wait_end_def)
    next
      case (OnMutex i)
      then have mx: "mutex_ready i (mc_objects m)" "obs = mc_objects m" "s = mc_sched m" "i < MAX_MUTEXES" using ready wait by (auto simp: wait_ok_def)
      have "mutexes_ok (awake m (mc_sched m) (mutex_lock_end i (me m) (mc_objects m))) (Took (me m) i # h)"
        by (rule mutex_ready_ok [OF _ me _ _ mx(1)]) (use parts w OnMutex mx in auto)
      moreover have "m' = awake m (mc_sched m) (mutex_lock_end i (me m) (mc_objects m))" "wait_note w (me m) (r = Inr ()) = Took (me m) i"
        using ready OnMutex mx by (simp_all add: wait_note_def)
      ultimately show ?thesis by (simp only:) (rule awake_ok [OF ok tab]; simp add: OnMutex ws same_defs mutex_lock_end_def)
    next
      case (OnRead i)
      then have rd: "read_ready i (mc_objects m)" "obs = mc_objects m" "s = mc_sched m" "i < MAX_RWLOCKS" using ready wait by (auto simp: wait_ok_def)
      have "rwlocks_ok (awake m (mc_sched m) (read_end i (me m) (mc_objects m))) (ReadTook (me m) i # h)"
        by (rule read_ready_ok [OF _ me _ _ rd(1)]) (use parts w OnRead rd room in \<open>auto simp: read_room_def\<close>)
      moreover have "m' = awake m (mc_sched m) (read_end i (me m) (mc_objects m))" "wait_note w (me m) (r = Inr ()) = ReadTook (me m) i"
        using ready OnRead rd by (simp_all add: wait_note_def)
      ultimately show ?thesis by (simp only:) (rule awake_ok [OF ok tab]; simp add: OnRead ws same_defs read_end_def Let_def)
    next
      case (OnWrite i)
      then have wr: "write_ready i (mc_objects m)" "obs = mc_objects m" "s = mc_sched m" "i < MAX_RWLOCKS" using ready wait by (auto simp: wait_ok_def)
      have "rwlocks_ok (awake m (mc_sched m) (write_end i (me m) (mc_objects m))) (WriteTook (me m) i # h)"
        by (rule write_ready_ok [OF _ me _ _ wr(1)]) (use parts w OnWrite wr in auto)
      moreover have "m' = awake m (mc_sched m) (write_end i (me m) (mc_objects m))" "wait_note w (me m) (r = Inr ()) = WriteTook (me m) i"
        using ready OnWrite wr by (simp_all add: wait_note_def)
      ultimately show ?thesis by (simp only:) (rule awake_ok [OF ok tab]; simp add: OnWrite ws same_defs write_end_def)
    next
      case (OnJoin i)
      then have jn: "join_ready i (mc_sched m)" "obs = mc_objects m" "s = mc_sched m" "i < MAX_THREADS" "i \<noteq> me m" using ready wait by (auto simp: wait_ok_def)
      have "tabled L (join_end L i (mc_sched m))" by (rule tabled_join [OF tab jn(4,5,1)])
      moreover have "m' = awake m (join_end L i (mc_sched m)) (mc_objects m)" "wait_note w (me m) (r = Inr ()) = Quiet"
        using ready OnJoin jn by (simp_all add: wait_note_def)
      ultimately show ?thesis by (simp only:) (rule awake_ok [OF ok]; simp add: OnJoin ws same_defs)
    qed (use ready in simp)
  qed simp
qed

section \<open>Every run keeps the invariant\<close>

lemma tabled_boot:
  assumes "layout_ok L" "heap_low L < heap_high L" "image_ok L im" "bare_init L mm = Some mem" "init_boot_thread L im (sched_start mem) = Some s"
  shows "tabled L s"
proof -
  have own: "owners_ok L (mem, Map.empty)" by (rule owners_boot [OF assms(1,2,4)])
  have bare: "bare_ok L mem" using own by (simp add: owners_ok_def)
  have start: "table_ok L Map.empty (sched_start mem)" using own
    by (auto simp: table_ok_def sched_start_def table_blocks_def MAX_THREADS_def)
  obtain b st where b: "tls_allocate L im mem = Some (Some b, st)" "took L (tb_size b) BPAGE (tb_base b) mem st"
    and s: "s = (set_thread 0 (EMPTY_THREAD\<lparr>th_state := TLive, th_tls := b, th_stack_low := im_boot_low im, th_stack_high := im_boot_high im\<rparr>) (sched_start mem))\<lparr>sc_mem := st, sc_current := 0\<rparr>"
    using assms(5) tls_allocate_total [OF bare assms(3)] by (auto simp: init_boot_thread_def sched_start_def)
  let ?t = "EMPTY_THREAD\<lparr>th_state := TLive, th_tls := b, th_stack_low := im_boot_low im, th_stack_high := im_boot_high im\<rparr>"
  have t: "set (thread_blocks ?t) \<subseteq> {(tb_base b, tb_size b)}" "length (th_slots ?t) = MAX_TLS_SLOTS" "length (th_name ?t) = 15" "distinct (map fst (thread_blocks ?t))"
    by (auto simp: thread_blocks_def EMPTY_THREAD_def)
  have "table_ok L [tb_base b \<mapsto> tb_size b] ((set_thread 0 ?t (sched_start mem))\<lparr>sc_mem := st\<rparr>)"
    by (rule table_ok_replace [OF start _ owners_ok_take(1) [OF own b(2)]]) (use t in \<open>auto simp: MAX_THREADS_def sched_start_def table_blocks_def\<close>)
  then have "table_ok L [tb_base b \<mapsto> tb_size b] s" unfolding s using table_ok_current [of L _ _ 0] by (simp add: MAX_THREADS_def set_thread_def)
  then show ?thesis by (auto simp: tabled_def)
qed

lemma machine_start_ok: "tabled L s \<Longrightarrow> machine_ok L (machine_start s) []"
proof -
  have ws: "waiters w (machine_start s) = 0" for w by (simp add: waiters_def machine_start_def)
  have obs: "mc_objects (machine_start s) = objects_start" by (simp add: machine_start_def)
  have "mutexes_ok (machine_start s) []" "rwlocks_ok (machine_start s) []" "events_ok (machine_start s) []"
    using not_NOBODY
    by (auto simp: mutexes_ok_def rwlocks_ok_def events_ok_def each_def ws obs objects_start_def mutex_fine_def rw_fine_def event_fine_def
      FREE_MUTEX_def FREE_RWLOCK_def FREE_EVENT_def)
  then show "tabled L s \<Longrightarrow> ?thesis" by (simp add: machine_ok_def waits_ok_def machine_start_def)
qed

text \<open>A step that touches objects only.\<close>

lemma machine_ok_objects:
  assumes "machine_ok L m h" "mutexes_ok (m\<lparr>mc_objects := obs\<rparr>) h' \<or> mutexes_same m h (m\<lparr>mc_objects := obs\<rparr>) h'"
    "rwlocks_ok (m\<lparr>mc_objects := obs\<rparr>) h' \<or> rwlocks_same m h (m\<lparr>mc_objects := obs\<rparr>) h'"
    "events_ok (m\<lparr>mc_objects := obs\<rparr>) h' \<or> events_same m h (m\<lparr>mc_objects := obs\<rparr>) h'"
  shows "machine_ok L (m\<lparr>mc_objects := obs\<rparr>) h'"
  using assms kept_same [of m h "m\<lparr>mc_objects := obs\<rparr>" h'] by (auto simp: machine_ok_def waits_ok_def)

lemma machine_ok_begin:
  assumes ok: "machine_ok L m h" and free: "mc_waits m (me m) = None" and w: "wait_ok (me m) w d"
    and "m' = set_wait (me m) (Some (w, d)) (m\<lparr>mc_objects := obs\<rparr>)"
    and "mutexes_ok m' (Quiet # h) \<or> ob_mutexes obs = ob_mutexes (mc_objects m) \<and> (\<forall>i. w \<noteq> OnMutex i)"
    "rwlocks_ok m' (Quiet # h) \<or> ob_rwlocks obs = ob_rwlocks (mc_objects m) \<and> (\<forall>i. w \<noteq> OnRead i \<and> w \<noteq> OnWrite i)"
    "events_ok m' (Quiet # h) \<or> ob_events obs = ob_events (mc_objects m) \<and> (\<forall>i. w \<noteq> OnEvent i)"
  shows "machine_ok L m' (Quiet # h)"
proof -
  have me: "me m < MAX_THREADS" using w by (simp add: wait_ok_def)
  have ws: "waiters v m' = waiters v m + of_bool (v = w)" for v
    using waiters_set [of "m\<lparr>mc_objects := obs\<rparr>" "me m" v w d] free me assms(4) by simp
  have obs: "mc_objects m' = obs" using assms(4) by simp
  have "mutexes_ok m' (Quiet # h) \<or> mutexes_same m h m' (Quiet # h)" "rwlocks_ok m' (Quiet # h) \<or> rwlocks_same m h m' (Quiet # h)"
    "events_ok m' (Quiet # h) \<or> events_same m h m' (Quiet # h)"
    using assms(5-) by (auto simp: same_defs ws obs)
  then have "mutexes_ok m' (Quiet # h)" "rwlocks_ok m' (Quiet # h)" "events_ok m' (Quiet # h)"
    using kept_same [of m h m' "Quiet # h"] ok by (auto simp: machine_ok_def)
  then show ?thesis using ok w assms(4) by (auto simp: machine_ok_def waits_ok_def)
qed

lemma machine_step_ok:
  assumes im: "image_ok L im" and ok: "machine_ok L m h" and step: "machine_step L im m n m'"
  shows "machine_ok L m' (n # h)"
proof -
  have tab: "tabled L (mc_sched m)" and mx: "mutexes_ok m h" and rw: "rwlocks_ok m h" and ev: "events_ok m h" using ok by (auto simp: machine_ok_def)
  note me = tabled_current [OF tab]
  from step show ?thesis
  proof cases
    case (poll_done w d now r)
    show ?thesis unfolding poll_done(1) by (rule poll_ok [OF ok poll_done(2-)])
  next
    case (poll_more w d now)
    from poll_more(2,3) have "m' = m\<lparr>mc_sched := snd (schedule L (mc_sched m))\<rparr>" by (cases rule: poll_cases) auto
    moreover have "tabled L (snd (schedule L (mc_sched m)))" using tabled_schedule [OF tab] by (metis prod.collapse)
    ultimately show ?thesis using machine_ok_sched [OF ok] poll_more(1) by simp
  next
    case (yield b s)
    then show ?thesis using machine_ok_sched [OF ok] tabled_schedule [OF tab] by simp
  next
    case (sleep d)
    then show ?thesis using machine_ok_wait [OF ok, of OnTime "Some d"] me by (simp add: wait_ok_def)
  next
    case (spawn stack_size entry arg r s)
    then show ?thesis using machine_ok_sched [OF ok] tabled_spawn [OF tab im] by simp
  next
    case (join i)
    then have "i \<noteq> me m" by (auto simp: join_begin_def split: if_splits)
    then show ?thesis using join machine_ok_wait [OF ok, of "OnJoin i" None] me by (simp add: wait_ok_def)
  next
    case (detach i r s)
    then show ?thesis using machine_ok_sched [OF ok] tabled_detach [OF tab] by simp
  next
    case (finish s)
    then show ?thesis using machine_ok_sched [OF ok] tabled_finish [OF tab] by simp
  next
    case (slots k v r s)
    then show ?thesis using machine_ok_sched [OF ok] tabled_slots [OF tab] by simp
  next
    case (name nm r s)
    then show ?thesis using machine_ok_sched [OF ok] tabled_name [OF tab] by simp
  next
    case (mutex_new rec r obs)
    note o = mutex_new_ok [OF mx mutex_new(4)]
    show ?thesis unfolding mutex_new(1,2) by (rule machine_ok_objects [OF ok]) (use o in \<open>simp_all add: same_defs\<close>)
  next
    case (mutex_gone found r obs)
    note o = mutex_gone_ok [OF mx mutex_gone(4,5)]
    show ?thesis unfolding mutex_gone(1,2) by (rule machine_ok_objects [OF ok]) (use o in \<open>simp_all add: same_defs\<close>)
  next
    case (lock found i obs)
    note o = mutex_lock_ok [OF mx me lock(3-5)]
    show ?thesis unfolding lock(1,2) by (rule machine_ok_objects [OF ok]) (use o in \<open>simp_all add: same_defs\<close>)
  next
    case (lock_waits found i obs)
    note o = mutex_lock_ok [OF mx me lock_waits(3-5)]
    show ?thesis unfolding lock_waits(1,2) by (rule machine_ok_begin [OF ok lock_waits(3) _ refl]) (use o me in \<open>simp_all add: wait_ok_def\<close>)
  next
    case (unlock i r obs)
    note o = mutex_unlock_ok [OF mx me unlock(4,5)]
    show ?thesis unfolding unlock(1,2) by (rule machine_ok_objects [OF ok]) (use o in \<open>simp_all add: same_defs\<close>)
  next
    case (rw_new r obs)
    note o = rw_new_ok [OF rw rw_new(4)]
    show ?thesis unfolding rw_new(1,2) by (rule machine_ok_objects [OF ok]) (use o in \<open>simp_all add: same_defs\<close>)
  next
    case (rw_gone i r obs)
    note o = rw_gone_ok [OF rw rw_gone(4-7)]
    show ?thesis unfolding rw_gone(1,2) by (rule machine_ok_objects [OF ok]) (use o in \<open>simp_all add: same_defs\<close>)
  next
    case (rw_reads found i)
    note o = rw_wait_ok [OF rw me rw_reads(3-5), of "OnRead i"]
    show ?thesis unfolding rw_reads(1,2)
      by (rule machine_ok_begin [OF ok rw_reads(3), of "OnRead i" None _ "mc_objects m"]) (use o me in \<open>simp_all add: wait_ok_def\<close>)
  next
    case (rw_writes found i)
    note o = rw_wait_ok [OF rw me rw_writes(3-5), of "OnWrite i"]
    show ?thesis unfolding rw_writes(1,2)
      by (rule machine_ok_begin [OF ok rw_writes(3), of "OnWrite i" None _ "mc_objects m"]) (use o me in \<open>simp_all add: wait_ok_def\<close>)
  next
    case (rw_gives i r obs)
    note o = rw_gives_ok [OF rw me rw_gives(4,5)]
    show ?thesis unfolding rw_gives(1,2) by (rule machine_ok_objects [OF ok]) (use o in \<open>simp_all add: same_defs rw_note_def\<close>)
  next
    case (event_new manual on r obs)
    note o = event_new_ok [OF ev event_new(4)]
    show ?thesis unfolding event_new(1,2) by (rule machine_ok_objects [OF ok]) (use o in \<open>simp_all add: same_defs split: sum.splits\<close>)
  next
    case (event_gone found r obs)
    note o = event_gone_ok [OF ev event_gone(4,5)]
    show ?thesis unfolding event_gone(1,2) by (rule machine_ok_objects [OF ok]) (use o in \<open>simp_all add: same_defs\<close>)
  next
    case (event_sets i r obs)
    note o = event_signal_ok(1,3,4) [OF ev _ event_sets(5) [unfolded bevent_set_def]]
    show ?thesis unfolding event_sets(1,2) by (rule machine_ok_objects [OF ok]) (use o event_sets(4) in \<open>simp_all add: same_defs in_table_def\<close>)
  next
    case (event_resets found r obs)
    note o = event_signal_ok(2-4) [OF ev event_resets(4) event_resets(5) [unfolded bevent_reset_def]]
    show ?thesis unfolding event_resets(1,2) by (rule machine_ok_objects [OF ok]) (use o in \<open>simp_all add: same_defs\<close>)
  next
    case (event_waits found i obs d)
    note o = event_wait_ok [OF ev me event_waits(3-5)]
    show ?thesis unfolding event_waits(1,2) by (rule machine_ok_begin [OF ok event_waits(3) _ refl]) (use o me in \<open>simp_all add: wait_ok_def\<close>)
  qed
qed

lemma machine_run_ok:
  assumes "machine_run L im mm m h" "layout_ok L" "heap_low L < heap_high L" "image_ok L im"
  shows "machine_ok L m h"
  using assms(1)
proof induction
  case (boot mem s)
  show ?case by (rule machine_start_ok [OF tabled_boot [OF assms(2-4) boot]])
next
  case (step m h n m')
  show ?case by (rule machine_step_ok [OF assms(4) step.IH step.hyps(2)])
qed

section \<open>What the objects promise\<close>

text \<open>At most one thread holds a mutex.\<close>

lemma machine_mutex:
  assumes "machine_ok L m h" "i < MAX_MUTEXES" "t < MAX_THREADS" "u < MAX_THREADS" "0 < holds t i h" "0 < holds u i h"
  shows "t = u"
  using mutexesD [of m h i] assms by (auto simp: machine_ok_def mutex_fine_def split: if_splits)

text \<open>A writer has a lock for itself, and holds it once.\<close>

lemma machine_rwlock:
  assumes ok: "machine_ok L m h" and i: "i < MAX_RWLOCKS" and t: "t < MAX_THREADS" "0 < writes t i h" and u: "u < MAX_THREADS"
  shows "writes t i h = 1" "reads u i h = 0" "0 < writes u i h \<Longrightarrow> u = t"
proof -
  let ?e = "ob_rwlocks (mc_objects m) ! i"
  have f: "rw_fine ?e (waiters (OnRead i) m) (waiters (OnWrite i) m) (\<lambda>t. reads t i h) (\<lambda>t. writes t i h)"
    using ok i by (auto simp: machine_ok_def intro: rwlocksD)
  then have w: "rw_writer ?e = t" using t by (auto simp: rw_fine_def split: if_splits)
  show "writes t i h = 1" "0 < writes u i h \<Longrightarrow> u = t" using f w t u by (auto simp: rw_fine_def split: if_splits)
  have "rw_readers ?e = 0" using f not_NOBODY [OF t(1)] unfolding w [symmetric] rw_fine_def by blast
  with f have "(\<Sum>t<MAX_THREADS. unat (rw_held ?e ! t)) = 0" unfolding rw_fine_def by argo
  then have "\<forall>t\<in>{..<MAX_THREADS}. unat (rw_held ?e ! t) = 0" by (simp only: sum_eq_0_iff finite_lessThan)
  then have "unat (rw_held ?e ! u) = 0" using u by blast
  then show "reads u i h = 0" using f u by (simp add: rw_fine_def)
qed

text \<open>An event that resets itself lets no more waits through than it was signalled.\<close>

lemma machine_event:
  assumes "machine_ok L m h" "i < MAX_EVENTS" "ev_used (ob_events (mc_objects m) ! i)" "\<not> ev_manual (ob_events (mc_objects m) ! i)"
  shows "passes i h \<le> signals i h"
  using eventsD [of m h i] assms by (simp add: machine_ok_def event_fine_def)

section \<open>Where the callers' conditions matter\<close>

text \<open>
  The count of one thread's read locks is one byte. A build without overflow checks brings it back to 0
  at the 256th lock: the thread can no longer unlock, and no writer gets the lock again.
\<close>

lemma read_ends:
  assumes "i < length (ob_rwlocks obs)" "t < length (rw_held (ob_rwlocks obs ! i))"
  defines "e \<equiv> ob_rwlocks obs ! i"
  shows "ob_rwlocks ((read_end i t ^^ n) obs) ! i = e\<lparr>rw_readers := rw_readers e + n, rw_held := (rw_held e)[t := rw_held e ! t + of_nat n]\<rparr>
    \<and> length (ob_rwlocks ((read_end i t ^^ n) obs)) = length (ob_rwlocks obs)"
proof (induction n)
  case (Suc n)
  then show ?case using assms(1,2) by (simp add: read_end_def Let_def e_def ac_simps)
qed (simp add: e_def)

lemma read_wraps:
  assumes "brw_create obs = (Inr i, obs')" "length (ob_rwlocks obs) = MAX_RWLOCKS" "t < MAX_THREADS"
  defines "many \<equiv> (read_end i t ^^ 256) obs'"
  shows "brw_unlock (Some i) t many = (Inl Os, many)" "\<not> write_ready i many" "brw_destroy (Some i) many = (Inl Busy, many)"
proof -
  have i: "i < MAX_RWLOCKS" "ob_rwlocks obs' = (ob_rwlocks obs)[i := FREE_RWLOCK\<lparr>rw_used := True\<rparr>]"
    using assms(1) by (auto simp: brw_create_def find_first split: option.splits)
  then have e: "ob_rwlocks obs' ! i = FREE_RWLOCK\<lparr>rw_used := True\<rparr>" "i < length (ob_rwlocks obs')" using assms(2) by simp_all
  have t: "t < length (rw_held (ob_rwlocks obs' ! i))" using assms(3) e by (simp add: FREE_RWLOCK_def)
  have z: "rw_held FREE_RWLOCK ! t = 0" using assms(3) by (simp add: FREE_RWLOCK_def)
  have w: "(of_nat 256 :: byte) = 0" by simp
  have "ob_rwlocks many ! i = (FREE_RWLOCK\<lparr>rw_used := True\<rparr>)\<lparr>rw_readers := 256, rw_held := (rw_held FREE_RWLOCK)[t := of_nat 256]\<rparr>"
    using conjunct1 [OF read_ends [OF e(2) t, of 256]] e(1) z by (simp only: many_def) (simp add: FREE_RWLOCK_def)
  moreover have "t \<noteq> NOBODY" by (rule not_NOBODY [OF assms(3)])
  ultimately show "brw_unlock (Some i) t many = (Inl Os, many)" "\<not> write_ready i many" "brw_destroy (Some i) many = (Inl Busy, many)"
    using assms(3) unfolding w by (auto simp: brw_unlock_def write_ready_def brw_destroy_def Let_def FREE_RWLOCK_def)
qed

text \<open>
  Destroying a lock does not look at who waits for it. A thread that waits to write gets the entry
  after it was destroyed, and its unlock is then refused.
\<close>

lemma destroyed_lock_taken:
  assumes "brw_destroy (Some i) (mc_objects m) = (Inr (), obs)" "i < length (ob_rwlocks (mc_objects m))"
    and "mc_waits m (me m) = Some (OnWrite i, None)" "me m < MAX_THREADS"
  shows "\<exists>m'. poll L now (m\<lparr>mc_objects := obs\<rparr>) = (Some (Inr ()), m') \<and> rw_writer (ob_rwlocks (mc_objects m') ! i) = me m
    \<and> \<not> rw_used (ob_rwlocks (mc_objects m') ! i) \<and> brw_unlock (Some i) (me m) (mc_objects m') = (Inl InvalidArgument, mc_objects m')"
proof -
  have "ob_rwlocks obs ! i = FREE_RWLOCK" "i < length (ob_rwlocks obs)" using assms(1,2) by (auto simp: brw_destroy_def Let_def split: if_splits)
  then show ?thesis using assms(3)
    by (simp add: poll_def block_round_def Let_def write_ready_def write_end_def brw_unlock_def FREE_RWLOCK_def)
qed

end
