(* ===== verification/Bare_Sample.thy ===== *)
theory Bare_Sample
  imports Bare_Machine
begin

text \<open>
  A concrete machine: a heap of 128 MiB, an image with 64 bytes of thread-local data, blank memory. The
  first steps of its boot path are evaluated here, so that what is shown of every machine can be
  looked at on this one.
\<close>

definition sample_layout :: layout where
  "sample_layout = \<lparr>heap_low = 0x40001000, heap_high = 0x48001000, rodata_low = 0, rodata_high = 0\<rparr>"

definition sample_image :: image where
  "sample_image = \<lparr>im_tdata = 0x40000000, im_initialized = 16, im_total = 64, im_trampoline = 0x40000800,
     im_boot_low = 0x40000000, im_boot_high = 0x40001000\<rparr>"

definition sample_mmu :: mmu where
  "sample_mmu = \<lparr>mm_table = (\<lambda>_. 0), mm_bytes = (\<lambda>_. 0)\<rparr>"

lemma sample_ok: "layout_ok sample_layout" "heap_low sample_layout < heap_high sample_layout" "image_ok sample_layout sample_image"
  by (simp_all add: layout_ok_def image_ok_def sample_layout_def sample_image_def RAM_START_def RAM_PAGES_def BPAGE_def TCB_def width_simps)

lemma page_power: "is_power_of_two BPAGE"
  by (simp add: is_power_of_two_iff BPAGE_def) (rule exI [of _ 12], simp)

text \<open>Taking pages from a free list of one extent.\<close>

lemma take_first:
  assumes "a mod BPAGE = 0" "0 < sz" "a + sz < b" "b \<le> USIZE_MAX" "a + BPAGE \<le> USIZE_MAX"
  shows "region_take [(a, b)] sz BPAGE = (Some a, [(a + sz, b)])"
proof -
  have "mask_down (a + (BPAGE - 1)) BPAGE = a + (BPAGE - 1) - (a + (BPAGE - 1)) mod BPAGE"
    by (rule mask_down_pow2 [OF _ page_power]) (use assms(5) in \<open>simp add: BPAGE_def\<close>)
  moreover have "(a + (BPAGE - 1)) mod BPAGE = BPAGE - 1" using assms(1) by (simp add: BPAGE_def mod_add_eq [symmetric])
  ultimately have "align_within USIZE_MAX a BPAGE = Some a" using assms(5) by (simp add: align_within_def BPAGE_def)
  then show ?thesis using assms page_power by (simp add: region_take_def checked_add_def)
qed

abbreviation sample_mem :: "nat \<Rightarrow> mmu \<Rightarrow> bare" where
  "sample_mem used m \<equiv> \<lparr>ba_region = [(0x40001000 + used, 0x48001000)], ba_mmu = m\<rparr>"

lemma sample_protect:
  assumes "0x40001000 \<le> a" "a mod BPAGE = 0" "0 < sz" "sz mod BPAGE = 0" "a + sz \<le> 0x48001000" "p = 0 \<or> p = P_READ OR P_WRITE"
  shows "\<exists>m'. pages_protect sample_layout a sz p m = (Inr (), m')"
proof -
  have "\<exists>attributes. page_flags p = Inr attributes" using assms(6) by (auto simp: page_flags_def)
  then obtain attributes where flags: "page_flags p = Inr attributes" ..
  have at: "heap_low sample_layout \<le> a" "a + sz \<le> heap_high sample_layout" using assms(1,5) by (simp_all add: sample_layout_def)
  obtain m' where "pages_protect sample_layout a sz p m = (Inr (), m')"
    using pages_protect_heap [OF sample_ok(1) assms(2,4,3) at flags, where m = m] by blast
  then show ?thesis ..
qed

lemma sample_init: "\<exists>m. bare_init sample_layout sample_mmu = Some (sample_mem 0 m)"
proof -
  obtain m where "pages_protect sample_layout 0x40001000 0x8000000 0 sample_mmu = (Inr (), m)"
    using sample_protect [of "0x40001000" "0x8000000" 0 sample_mmu] by (auto simp: BPAGE_def)
  then show ?thesis
    by (simp add: bare_init_def sample_layout_def region_give_def region_can_give_def checked_add_def MAX_EXTENTS_def
        region_insert_def width_simps)
qed

lemma sample_take:
  assumes "used mod BPAGE = 0" "0 < sz" "sz mod BPAGE = 0" "used + sz < 0x8000000"
  shows "\<exists>m'. bare_take sample_layout sz BPAGE (sample_mem used m) = Some (Some (0x40001000 + used), sample_mem (used + sz) m')"
proof -
  have a: "(0x40001000 + used) mod BPAGE = 0" using assms(1) by (simp add: BPAGE_def mod_add_eq [symmetric])
  obtain m' where "pages_protect sample_layout (0x40001000 + used) sz (P_READ OR P_WRITE) m = (Inr (), m')"
    using sample_protect [of "0x40001000 + used" sz "P_READ OR P_WRITE" m] a assms by auto
  moreover have "region_take [(0x40001000 + used, 0x48001000)] sz BPAGE = (Some (0x40001000 + used), [(0x40001000 + used + sz, 0x48001000)])"
    by (rule take_first) (use a assms in \<open>auto simp: BPAGE_def width_simps\<close>)
  ultimately show ?thesis using assms page_power by (simp add: bare_take_def BPAGE_def add.assoc)
qed

lemma sample_reserve:
  assumes "used mod BPAGE = 0" "used + BPAGE < 0x8000000"
  shows "\<exists>m'. bare_reserve sample_layout BPAGE BPAGE (sample_mem used m) = Some (Inr (0x40001000 + used), sample_mem (used + BPAGE) m')"
proof -
  obtain m1 where t: "bare_take sample_layout BPAGE BPAGE (sample_mem used m) = Some (Some (0x40001000 + used), sample_mem (used + BPAGE) m1)"
    using sample_take [of used BPAGE m] assms by (auto simp: BPAGE_def)
  have a: "(0x40001000 + used) mod BPAGE = 0" using assms(1) by (simp add: BPAGE_def mod_add_eq [symmetric])
  obtain m2 where "pages_protect sample_layout (0x40001000 + used) BPAGE 0 m1 = (Inr (), m2)"
    using sample_protect [of "0x40001000 + used" BPAGE 0 m1] a assms by (auto simp: BPAGE_def)
  with t show ?thesis by (simp add: bare_reserve_def)
qed

lemma sample_heap:
  assumes "bare_init sample_layout sample_mmu = Some st"
  shows "heap_ok sample_layout \<lparr>he_start = 0, he_end = 0, he_bare = st\<rparr> []"
proof -
  obtain st' where "bare_init sample_layout sample_mmu = Some st'" "bare_ok sample_layout st'" by (rule bare_init_ok [OF sample_ok(1,2)])
  then show ?thesis using assms by (simp add: heap_ok_def)
qed

text \<open>The first allocation from the native heap.\<close>

lemma sample_allocates:
  assumes "round_up sz GRAIN + 32 \<le> 0x3fffff0"
  shows "\<exists>h'. native_allocate sample_layout sz z \<lparr>he_start = 0, he_end = 0, he_bare = sample_mem 0 m\<rparr> = Some (Inr 0x40001010, h')"
proof -
  obtain m1 where t: "bare_take sample_layout NATIVE_HEAP_BYTES BPAGE (sample_mem 0 m) = Some (Some 0x40001000, sample_mem NATIVE_HEAP_BYTES m1)"
    using sample_take [of 0 NATIVE_HEAP_BYTES m] by (auto simp: NATIVE_HEAP_BYTES_def BPAGE_def)
  let ?b = "\<lparr>hb_size = 0x3fffff0, hb_free = 1\<rparr>"
  have r: "read_head (write_head 0x40001000 ?b (mm_bytes m1)) 0x40001000 = ?b" by (rule read_write_head) simp_all
  have merge: "merge_loop 0x40001000 0x44001000 ?b mem = (?b, mem)" for mem
    by (subst merge_loop.simps) (simp add: BLOCK_HEADER_def)
  have "\<exists>mem. heap_walk 0x40001000 0x44001000 (round_up sz GRAIN) z (write_head 0x40001000 ?b (mm_bytes m1)) = (Some 0x40001010, mem)"
    by (subst heap_walk.simps) (use r merge assms in \<open>simp add: BLOCK_HEADER_def GRAIN_def Let_def\<close>)
  then show ?thesis using t
    by (auto simp: native_allocate_def heap_ready_def Let_def put_bytes_def NATIVE_HEAP_BYTES_def BLOCK_HEADER_def)
qed

lemma sample_round: "round_up 100 GRAIN = 112" "round_up 172 GRAIN = 176"
proof -
  have "is_power_of_two (2 ^ 4)" unfolding is_power_of_two_iff by (intro exI [of _ 4]) simp
  then show "round_up 100 GRAIN = 112" "round_up 172 GRAIN = 176"
    using mask_down_pow2 [of 115 16] mask_down_pow2 [of 187 16] by (simp_all add: round_up_def GRAIN_def width_simps)
qed

text \<open>The boot thread gets its thread-local block.\<close>

lemma sample_tls:
  assumes "used mod BPAGE = 0" "used + BPAGE < 0x8000000"
  shows "\<exists>b m'. tls_allocate sample_layout sample_image (sample_mem used m) = Some (Some b, sample_mem (used + BPAGE) m')"
proof -
  obtain m1 where "bare_take sample_layout BPAGE BPAGE (sample_mem used m) = Some (Some (0x40001000 + used), sample_mem (used + BPAGE) m1)"
    using sample_take [of used BPAGE m] assms by (auto simp: BPAGE_def)
  moreover have "mask_down ((80 + BPAGE - 1) mod 2 ^ 64) BPAGE = BPAGE"
    by (subst mask_down_pow2 [OF _ page_power]) (simp_all add: BPAGE_def width_simps)
  then have "round_up (TCB + im_total sample_image) BPAGE = BPAGE" by (simp add: round_up_def TCB_def sample_image_def)
  ultimately show ?thesis by (simp add: tls_allocate_def Let_def bare_store_def)
qed

lemma sample_boot:
  "\<exists>mem s m t. bare_init sample_layout sample_mmu = Some mem \<and> init_boot_thread sample_layout sample_image (sched_start mem) = Some s
    \<and> sc_current s = 0 \<and> sc_mem s = sample_mem BPAGE m \<and> sc_threads s = (replicate MAX_THREADS EMPTY_THREAD)[0 := t] \<and> th_state t = TLive"
proof -
  obtain m where m: "bare_init sample_layout sample_mmu = Some (sample_mem 0 m)" using sample_init by blast
  obtain b m1 where t: "tls_allocate sample_layout sample_image (sample_mem 0 m) = Some (Some b, sample_mem BPAGE m1)"
    using sample_tls [of 0 m] by (auto simp: BPAGE_def)
  let ?t = "EMPTY_THREAD\<lparr>th_state := TLive, th_tls := b, th_stack_low := im_boot_low sample_image, th_stack_high := im_boot_high sample_image\<rparr>"
  have "init_boot_thread sample_layout sample_image (sched_start (sample_mem 0 m)) =
      Some ((set_thread 0 ?t (sched_start (sample_mem 0 m)))\<lparr>sc_mem := sample_mem BPAGE m1, sc_current := 0\<rparr>)"
    using t by (simp add: init_boot_thread_def sched_start_def)
  with m show ?thesis
    by (intro exI [of _ "sample_mem 0 m"] exI [of _ m1] exI [of _ ?t]
        exI [of _ "(set_thread 0 ?t (sched_start (sample_mem 0 m)))\<lparr>sc_mem := sample_mem BPAGE m1, sc_current := 0\<rparr>"])
      (simp add: set_thread_def sched_start_def)
qed

text \<open>A run in which the boot thread makes a mutex and takes it.\<close>

lemma sample_run: "\<exists>m. machine_run sample_layout sample_image sample_mmu m [Took 0 0, Quiet, Quiet]"
proof -
  obtain mem s where b: "bare_init sample_layout sample_mmu = Some mem" "init_boot_thread sample_layout sample_image (sched_start mem) = Some s"
    and c: "sc_current s = 0" using sample_boot by metis
  let ?m = "machine_start s"
  let ?e = "FREE_MUTEX\<lparr>mx_used := True, mx_recursive := False\<rparr>"
  have one: "find (\<lambda>i. \<not> mx_used (replicate MAX_MUTEXES FREE_MUTEX ! i)) [0..<MAX_MUTEXES] = Some 0"
    by (simp add: MAX_MUTEXES_def upt_conv_Cons FREE_MUTEX_def)
  define m1 where "m1 = ?m\<lparr>mc_objects := set_mutex 0 ?e objects_start\<rparr>"
  have r1: "machine_step sample_layout sample_image ?m Quiet m1"
    unfolding m1_def by (rule machine_step.mutex_new [where rec = False and r = "Inr 0"]) (use one in \<open>simp_all add: machine_start_def bmutex_create_def objects_start_def\<close>)
  have me: "me m1 = 0" "mc_waits m1 = Map.empty" "0 < length (ob_mutexes (mc_objects m1))" "ob_mutexes (mc_objects m1) ! 0 = ?e"
    using c by (simp_all add: m1_def machine_start_def objects_start_def MAX_MUTEXES_def)
  have nobody: "NOBODY \<noteq> 0" by (simp add: NOBODY_def width_simps)
  define obs where "obs = set_mutex 0 (?e\<lparr>mx_users := 1\<rparr>) (mc_objects m1)"
  have lock: "mutex_lock_begin (Some 0) 0 (mc_objects m1) = (Inr (0, False), obs)"
    using me nobody by (simp add: mutex_lock_begin_def Let_def obs_def FREE_MUTEX_def)
  let ?m2 = "set_wait 0 (Some (OnMutex 0, None)) (m1\<lparr>mc_objects := obs\<rparr>)"
  have r2: "machine_step sample_layout sample_image m1 Quiet ?m2"
    using machine_step.lock_waits [of m1 "Some 0" 0 obs] lock me by (simp add: in_table_def MAX_MUTEXES_def)
  have ready: "mutex_ready 0 (mc_objects ?m2)" using me by (simp add: mutex_ready_def obs_def FREE_MUTEX_def)
  obtain m3 where p: "poll sample_layout None ?m2 = (Some (Inr ()), m3)"
    using me ready by (simp add: poll_def block_round_def Let_def)
  have r3: "machine_step sample_layout sample_image ?m2 (wait_note (OnMutex 0) (me ?m2) (Inr () = (Inr () :: unit result))) m3"
    by (rule machine_step.poll_done [OF _ _ p]) (use me in \<open>simp_all add: read_room_def\<close>)
  have "machine_run sample_layout sample_image sample_mmu m3 [wait_note (OnMutex 0) (me ?m2) (Inr () = (Inr () :: unit result)), Quiet, Quiet]"
    by (rule machine_run.step [OF machine_run.step [OF machine_run.step [OF machine_run.boot [OF b] r1] r2] r3])
  then show ?thesis using me by (auto simp: wait_note_def)
qed

text \<open>A run in which the boot thread starts another one.\<close>

lemma sample_spawn: "\<exists>m. machine_run sample_layout sample_image sample_mmu m [Quiet] \<and> live (mc_sched m) 1 \<and> me m = 0"
proof -
  obtain mem s m t where b: "bare_init sample_layout sample_mmu = Some mem" "init_boot_thread sample_layout sample_image (sched_start mem) = Some s"
    and s: "sc_current s = 0" "sc_mem s = sample_mem BPAGE m" "sc_threads s = (replicate MAX_THREADS EMPTY_THREAD)[0 := t]" "th_state t = TLive"
    using sample_boot by metis
  have find: "find (\<lambda>i. th_state (sc_threads s ! i) = TFree) [0..<MAX_THREADS] = Some 1"
    using s(3,4) by (simp add: MAX_THREADS_def upt_conv_Cons)
  have up: "round_up DEFAULT_STACK BPAGE = 0x20000"
    unfolding round_up_def by (subst mask_down_pow2 [OF _ page_power]) (simp_all add: BPAGE_def DEFAULT_STACK_def width_simps)
  obtain m1 where m1: "bare_take sample_layout 0x20000 BPAGE (sample_mem BPAGE m) = Some (Some 0x40002000, sample_mem (BPAGE + 0x20000) m1)"
    using sample_take [of BPAGE "0x20000" m] by (auto simp: BPAGE_def)
  obtain tb m2 where "tls_allocate sample_layout sample_image (sample_mem (BPAGE + 0x20000) m1) = Some (Some tb, m2)"
    using sample_tls [of "BPAGE + 0x20000" m1] by (auto simp: BPAGE_def)
  then obtain s' where c: "bthread_create sample_layout sample_image 0x40000900 7 0 s = Some (Inr 1, s')" "live s' 1" "sc_current s' = 0"
    using find m1 s by (simp add: bthread_create_def up Let_def set_thread_def live_def MAX_THREADS_def)
  have "machine_step sample_layout sample_image (machine_start s) Quiet ((machine_start s)\<lparr>mc_sched := s'\<rparr>)"
    by (rule machine_step.spawn [where n = 0 and entry = "0x40000900" and arg = 7 and r = "Inr 1"]) (use c(1) in \<open>simp_all add: machine_start_def\<close>)
  then have "machine_run sample_layout sample_image sample_mmu ((machine_start s)\<lparr>mc_sched := s'\<rparr>) [Quiet]"
    by (rule machine_run.step [OF machine_run.boot [OF b]])
  with c show ?thesis by (intro exI [of _ "(machine_start s)\<lparr>mc_sched := s'\<rparr>"]) simp
qed

end
