(* ===== verification/Spec2Isabelle.thy ===== *)
theory Spec2Isabelle
  imports Host_Stack Pal_Slot Storage_Demand Storage_Lock Bare_Sample
begin

text \<open>
  Verification of \<open>dotnet-pal-rs\<close>, the platform boundary of a .NET runtime.

  \<^bold>\<open>The program.\<close> A runtime asks once for a table of functions (\<open>src/src/lib.rs\<close>). Behind every entry of
  the table is a checked front end (\<open>src/src/*.rs\<close>): it validates what the caller passes, calls a
  provider, validates what the provider answers, translates it to a status and counts it. Providers are
  given by a port: the in-memory file system (\<open>crates/dotnet-pal-memfs\<close>), storage for runtimes without
  virtual memory (\<open>crates/dotnet-pal-storage\<close>, \<open>crates/dotnet-pal-wasm\<close>), a machine without operating
  system (\<open>examples/baremetal-aarch64\<close>), tables written in C (\<open>crates/dotnet-pal-host\<close>), or wrappers of an
  operating system.

  \<^bold>\<open>How code becomes definitions.\<close> \<open>usize\<close> and \<open>u64\<close> are natural numbers with their bounds written out
  (\<open>USIZE_MAX\<close>, \<open>U64_MAX\<close>, wrapping where the code wraps), flags are 32-bit words, bytes 8-bit words,
  page descriptors 64-bit words. \<open>Result\<close> is \<open>error + 'a\<close>. A stateful operation takes the state and
  returns it; an output cell of the caller is a value passed in and handed back, so that what is left in it
  on failure is visible. A failed assertion is \<open>None\<close> and is shown not to happen. Loops that may not
  end are \<open>partial_function (option)\<close> and are shown to return where that is claimed; all other loops
  have termination proofs, and no fuel is used except where the code itself bounds the loop (24 frames
  of a backtrace, 4 sweeps of destructors). What is not in the repository is a parameter: providers in
  the front ends, the allocator's answers in the file system (\<open>env\<close>), the backing of the ledger, the
  engine's answer to \<open>memory.grow\<close>, device registers.

  \<^bold>\<open>Prelude and vocabulary.\<close> \<open>Pal_Prelude\<close> has widths, checked arithmetic, results, lists and words.
  \<open>Pal_Port\<close> has errors and statuses (\<open>port.rs\<close>), \<open>Pal_Io\<close> counters and the checks all front ends
  share (\<open>counter.rs\<close>, \<open>io.rs\<close>); the locale \<open>status_recorder\<close> there is interpreted for every group.

  \<^bold>\<open>Front ends.\<close> One theory per group, named after its source file: \<open>Pal_Core\<close> (virtual memory, linear
  storage), \<open>Pal_Services\<close>, \<open>Pal_Kernel\<close>, \<open>Pal_Runtime\<close>, \<open>Pal_Support\<close>, \<open>Pal_Topology\<close>, \<open>Pal_Process\<close>,
  \<open>Pal_Image\<close>, \<open>Pal_Streams\<close>, \<open>Pal_Files\<close>, \<open>Pal_Watches\<close>, \<open>Pal_Mappings\<close>, \<open>Pal_Volumes\<close>, \<open>Pal_Sockets\<close>,
  \<open>Pal_Network\<close>, \<open>Pal_Processes\<close>, \<open>Pal_System\<close>, \<open>Pal_Accounts\<close>, \<open>Pal_Faults\<close>, \<open>Pal_Notifications\<close>,
  \<open>Pal_Context\<close>, \<open>Pal_Wasi\<close>. The lemmas say what a caller gets from any provider: outputs are cleared on
  failure, lengths fit, statuses are those the group publishes. \<open>Pal_Faults\<close> and \<open>Pal_Notifications\<close> also
  have the installation of handlers as step relations over the atomics. \<open>Pal_Table\<close> is the built table and its
  capability word, \<open>Pal_Slot\<close> its negotiation by concurrent callers, \<open>Pal_Absent\<close> the provider of
  everything a port does not name.

  \<^bold>\<open>The in-memory file system.\<close> \<open>Memfs_Content\<close> (file bytes and pinned pages), \<open>Memfs_Queue\<close> (event queues,
  locale \<open>event_queue\<close>), \<open>Memfs_Locks\<close> (byte-range locks), \<open>Memfs_Tree\<close> (node table, path walks), \<open>Memfs_Events\<close>,
  \<open>Memfs_Ops\<close> and \<open>Memfs_Services\<close> (the provider's operations) are the model. \<open>Memfs_View\<close> is the abstract file
  system, \<open>Memfs_Graph\<close> its shape, \<open>Memfs_Inv\<close> the invariant; \<open>Memfs_Walk\<close>, \<open>Memfs_Refs\<close>, \<open>Memfs_Maps\<close>,
  \<open>Memfs_Handles\<close>, \<open>Memfs_Names\<close>, \<open>Memfs_Rename\<close> and \<open>Memfs_Sessions\<close> show operation by operation that it is kept
  and what the abstract file system does. \<open>Memfs_Steps\<close> is every interleaving of calls, \<open>Memfs_Port\<close> the provider
  behind the front ends, \<open>Memfs_Sample\<close> a computed run.

  \<^bold>\<open>Storage.\<close> \<open>Storage_Contract\<close> specifies a heap of disjoint zeroed blocks and the locale \<open>linear_storage\<close>, what
  a provider has to keep for it; it is interpreted for the static arena (\<open>Storage_Arena\<close>) and for the ledger over
  any backing (\<open>Storage_Ledger\<close>). \<open>Storage_Extents\<close> has free lists as sets of addresses and the locale \<open>free_store\<close>,
  interpreted for the wasm page allocator (\<open>Storage_Grow\<close>) and for the extents of the bare-metal port
  (\<open>Bare_Region\<close>). \<open>Storage_Demand\<close> composes ledger and page allocator, \<open>Storage_Lock\<close> is the spin lock.

  \<^bold>\<open>The bare-metal machine.\<close> \<open>Bare_Pages\<close> has the page table, \<open>Bare_Memory\<close> the providers of memory and their
  owners, \<open>Bare_Heap\<close> the native heap in the bytes of memory and the global allocator over it, \<open>Bare_Threads\<close> the
  thread table and the scheduler, \<open>Bare_Objects\<close> events and locks, \<open>Bare_Board\<close> clock, serial port and faults.
  \<open>Bare_Machine\<close> is every run of the machine: the running thread calls anything, waits, or hands the processor on.
  Its invariant ties the tables to the history of the calls. \<open>Bare_Sample\<close> evaluates the boot path.

  \<^bold>\<open>The host bridge.\<close> \<open>crates/dotnet-pal-host\<close> makes providers of tables that a C host supplies. \<open>Host_Table\<close> reads a
  table behind a foreign pointer, caches it and converts a callback's reply; \<open>Host_Groups\<close>, \<open>Host_System\<close>, \<open>Host_Files\<close>
  and \<open>Host_Net\<close> have, per group, the callbacks as a record, the group's check of a table and the provider made of it.
  The callbacks are foreign code and stay parameters. \<open>Host_Net\<close> ends with the validation of all tables at negotiation;
  every group's check is an instance of the locale \<open>host_check\<close>. \<open>Host_Stack\<close> puts one boundary on top of another: the
  files table a port publishes is a host table, and nothing is lost on the way (locale \<open>cell_answer\<close> for the calls
  with an output cell).

  \<^bold>\<open>Properties.\<close> The theorems marked C1 to C40 in this theory are the main results, each with an instance on
  concrete input. C1, C2, C5, C6, C9, C10 and C21 to C28 are about the file system and the front ends over it, C8,
  C12, C14 and C20 about storage, C3, C4, C7 and C15 to C19 about the bare-metal machine, C11 and C13 about the host
  bridge, C29 to C40 about table, front ends and absent providers. Lemmas show where the code departs from what it
  means to do or what a comment says: \<open>read_wraps\<close> and \<open>destroyed_lock_taken\<close> of \<open>Bare_Machine\<close>, \<open>last_page_lost\<close> of
  \<open>Storage_Demand\<close>, \<open>short_topology_refused\<close> of \<open>Host_System\<close>.

  \<^bold>\<open>Assumptions of the model.\<close> Atomics are sequentially consistent. The file system's lock and the spin lock make
  each call one step, except where the code waits. The bare-metal machine has one core and switches threads only
  in \<open>schedule\<close>; barriers and cache maintenance have no effect in the model. In \<open>Bare_Machine\<close> a reader holds
  a lock at most 255 times and no one destroys a reader/writer lock others wait for.

  \<^bold>\<open>Not modelled.\<close> Providers that wrap an operating system (\<open>dotnet-pal-linux\<close>, \<open>-linux-std\<close>, \<open>-macos\<close>,
  \<open>-windows\<close>, \<open>-posix\<close>, \<open>-std\<close>, \<open>-wasip1\<close>): each operation is a system call with its error code translated, and the
  front ends are proved for every provider. Reset code, exception vectors and the context switch are assembly. The C
  adapters of \<open>dotnet-pal-build/native\<close>, the build scripts, the standalone tool and the browser example do
  input and output only.
\<close>

section \<open>The in-memory file system\<close>

text \<open>
  C1. In every state the file system can reach, by any interleaving of calls and of stores through
  shared mappings, the invariant holds: nodes are well formed, the directories form one tree under
  the root and every name leads to a node, link counts count names, reference counts count handles
  and mappings, the bytes in use are the sizes of the files there are, the memory of mapped files
  and private copies does not overlap, and nothing is kept that nobody can reach.
\<close>

theorem reachable_invariant:
  assumes "mfs_reachable s"
  shows "fs_inv (acquire s)"
  using assms by (rule mfs_reachable_inv)

theorem reachable_invariant_witness:
  "mfs_reachable sample_written \<and> fs_inv (acquire sample_written)"
  using reachable_invariant [OF sample_reachable(3)] sample_reachable(3) by simp

text \<open>
  C2. A rename always returns, although it climbs from the destination to the root. A refused rename
  changes nothing; a successful one changes nothing or moves exactly one name, and the state it
  leaves satisfies the invariant.
\<close>

theorem rename_total:
  assumes "fs_inv s" "0 \<notin> set old" "0 \<notin> set new"
  shows "\<exists>r s'. mfs_rename env old new s = Some (r, s') \<and> fs_inv s' \<and> (case r of
      Inl e \<Rightarrow> s' = s
    | Inr _ \<Rightarrow> s' = s \<or> (\<exists>d n d' n' i. may_rename (view s) d n d' n' i \<and> view s' = v_rename d n d' n' i (view s)))"
  by (rule mfs_rename_spec [OF assms]) blast

theorem rename_total_witness:
  "fs_inv sample_written \<and> 0 \<notin> set sample_path \<and> 0 \<notin> set [SLASH, 98] \<and>
   (\<exists>r s'. mfs_rename sample_env sample_path [SLASH, 98] sample_written = Some (r, s') \<and> fs_inv s')"
proof -
  have nul: "0 \<notin> set sample_path" "0 \<notin> set [SLASH, 98]" by (simp_all add: sample_path_def)
  then show ?thesis using rename_total [OF sample_inv(3) nul, of sample_env] sample_inv(3) by blast
qed

text \<open>
  C5. A write through a handle puts its data into the abstract file at the offset, zeros filling any
  gap, takes all of it, and keeps the file system within its capacity unless it already was beyond;
  a write that fails leaves every file, name and handle as it was.
\<close>

theorem write_refines:
  assumes "fs_inv s" "mfs_write_at env h offset data s = (r, s')"
  shows "fs_inv s' \<and> st_handles s' = st_handles s \<and> (case r of
      Inl e \<Rightarrow> view s' = view s
    | Inr k \<Rightarrow> k = length data \<and> st_used s' \<le> max (st_used s) (st_capacity s) \<and> (\<exists>i bs. file_node s h WRITE = Inr i
        \<and> file_bytes (view s) i = Some bs \<and> view s' = v_upd i (set_bytes (file_write bs offset data)) (view s)))"
  using assms by (rule mfs_write_at_spec)

theorem write_refines_witness:
  "fs_inv sample_opened \<and> mfs_write_at sample_env 8 0 [1, 2, 3, 4] sample_opened = (Inr 4, sample_written) \<and>
   fs_inv sample_written \<and> st_handles sample_written = st_handles sample_opened"
proof -
  have run: "mfs_write_at sample_env 8 0 [1, 2, 3, 4] sample_opened = (Inr 4, sample_written)"
    by (simp add: sample_write_eq sample_written_eq)
  then show ?thesis using write_refines [OF sample_inv(2) run] sample_inv(2) by simp
qed

text \<open>
  C6. A read through a handle returns the bytes of the abstract file from the offset, as many as fit,
  and changes nothing but the event queues of watchers.
\<close>

theorem read_refines:
  assumes "fs_inv s" "mfs_read_at env h offset capacity s = (r, s')"
  shows "fs_inv s' \<and> view s' = view s \<and> st_handles s' = st_handles s \<and> (case r of
      Inl e \<Rightarrow> s' = s
    | Inr bytes \<Rightarrow> offset \<le> USIZE_MAX \<longrightarrow> (\<exists>i bs. file_node s h READ = Inr i \<and> file_bytes (view s) i = Some bs
        \<and> bytes = file_read bs offset capacity))"
  using assms by (rule mfs_read_at_spec)

theorem read_refines_witness:
  "fs_inv sample_written \<and> mfs_read_at sample_env 8 1 2 sample_written = (Inr [2, 3], sample_written) \<and>
   (\<exists>i bs. file_bytes (view sample_written) i = Some bs \<and> [2, 3] = file_read bs 1 2)"
proof -
  have run: "mfs_read_at sample_env 8 1 2 sample_written = (Inr [2, 3], sample_written)"
    by (simp add: mfs_read_at_def sample_written_eq sample_opened_eq acquire_def file_node_def borrow_def ok_or_def
        r_bind_def get_content_def get_node_def content_read_def usize_try_from_def width_simps new_node_def report_def
        sample_env_def Let_def)
  then show ?thesis using read_refines [OF sample_inv(3) run] sample_inv(3) by (auto simp: width_simps)
qed



text \<open>
  C10. What a caller writes through the table it reads back through the table: after a successful
  write of \<open>bytes\<close>, reading as many bytes at the same offset through a handle that may read succeeds
  and returns exactly them.
\<close>

theorem table_write_read_back:
  assumes "fs_inv s" "st_handles s h = Some (FileHandle i a)" "a AND READ = READ" "bytes \<noteq> []"
    and "files_write_at (memfs_files envs others) h offset data bytes written cell cs s = Some ((OK, cs1), n, s1)"
    and "aligned_output got 8" "valid_buffer into (length buf)" "length buf = length bytes"
  shows "n = length bytes \<and> (\<exists>cs2 s2. files_read_at (memfs_files envs' others') h offset into buf got cell' cs1 s1
    = Some ((OK, cs2), length bytes, bytes, s2))"
  using assms by (rule write_read_back)

theorem table_write_read_back_witness:
  "\<exists>cs1 cs2 s2.
     files_write_at (memfs_files (\<lambda>_. sample_env) (\<lambda>_ s. s)) 8 0 64 [1, 2, 3, 4] 72 0 [] sample_opened
       = Some ((OK, cs1), 4, sample_written)
     \<and> files_read_at (memfs_files (\<lambda>_. sample_env) (\<lambda>_ s. s)) 8 0 64 [9, 9, 9, 9] 72 0 cs1 sample_written
       = Some ((OK, cs2), 4, [1, 2, 3, 4], s2)"
proof -
  obtain cs1 where "files_record OK 3 [] = (OK, cs1)" by (simp add: files_record_def Let_def files_statuses_def)
  then have run: "files_write_at (memfs_files (\<lambda>_. sample_env) (\<lambda>_ s. s)) 8 0 64 [1, 2, 3, 4] 72 0 [] sample_opened
      = Some ((OK, cs1), 4, sample_written)"
    by (simp add: files_write_at_def memfs_files_def sample_write_eq sample_written_eq aligned_output_def valid_buffer_def
        checked_add_def width_simps Let_def)
  have "st_handles sample_opened 8 = Some (FileHandle 2 (READ OR WRITE))" by (simp add: sample_opened_eq)
  from table_write_read_back [OF sample_inv(2) this _ _ run, of 72 64 "[9, 9, 9, 9]" "\<lambda>_. sample_env" "\<lambda>_ s. s" 0] run show ?thesis
    by (auto simp: aligned_output_def valid_buffer_def checked_add_def width_simps)
qed



text \<open>
  C22. Closing a file removes exactly its handle. The file loses one reference; it disappears only if
  that was the last and no name leads to it any more. A close of anything but an open file handle
  fails and changes nothing.
\<close>

theorem close_refines:
  assumes "fs_inv s" "mfs_close h s = (r, s')"
  shows "fs_inv s' \<and> (case r of
      Inl e \<Rightarrow> s' = s
    | Inr _ \<Rightarrow> \<exists>i a. st_handles s h = Some (FileHandle i a) \<and> st_handles s' = (st_handles s)(h := None)
        \<and> view s' = v_released i (view s))"
  using assms by (rule mfs_close_spec)

theorem close_refines_witness:
  "\<exists>s'. mfs_close 8 sample_written = (Inr (), s') \<and> fs_inv s' \<and> st_handles s' 8 = None"
proof -
  obtain s' where run: "mfs_close 8 sample_written = (Inr (), s')"
    by (simp add: mfs_close_def sample_written_eq sample_opened_eq acquire_def borrow_def ok_or_def update_node_def new_node_def
        Let_def)
  from close_refines [OF sample_inv(3) run] run show ?thesis by auto
qed

text \<open>
  C23. Mapping part of a file: a refused request changes no file, name or handle. A granted one needs a
  handle that may read, records the mapping under its address and length, and leaves every file's
  bytes as they were; a shared mapping holds a reference to its file, a private copy holds none.
\<close>

theorem map_refines:
  assumes "fs_inv s" "allocator_ok env s" "mms_map env h offset len access shared s = (r, s')"
  shows "fs_inv s' \<and> st_handles s' = st_handles s \<and> (case r of
      Inl e \<Rightarrow> e \<noteq> Os \<and> view s' = view s
    | Inr (a, bytes) \<Rightarrow> \<exists>i. file_node s h READ = Inr i \<and> st_mappings s' (a, len) \<noteq> None
        \<and> view s' = (if shared then v_mapped i (view s) else view s))"
  using assms by (rule mms_map_spec)

theorem map_refines_witness:
  "\<exists>s'. mms_map (sample_env\<lparr>e_box := 16\<rparr>) 8 0 4 1 False sample_written = (Inr (4096, [1, 2, 3, 4]), s')
     \<and> fs_inv s' \<and> st_mappings s' (4096, 4) \<noteq> None \<and> view s' = view sample_written"
proof -
  have "acquire sample_written = sample_written" by (simp add: sample_written_eq sample_opened_eq acquire_def)
  then obtain s' where run: "mms_map (sample_env\<lparr>e_box := 16\<rparr>) 8 0 4 1 False sample_written = (Inr (4096, [1, 2, 3, 4]), s')"
    by (simp add: mms_map_def file_node_def borrow_def get_content_def get_node_def map_window_def map_private_def pages_def
        content_simps content_read_def usize_try_from_def checked_next_multiple_of_def checked_add_def overwrite_def sample_env_def
        sample_written_eq sample_opened_eq new_node_def ok_or_def r_bind_def width_simps Let_def)
  from map_refines [OF sample_inv(3) sample_allocator(2) run] run show ?thesis by auto
qed

text \<open>
  Removing a mapping takes exactly the address and length it was made with; any other request
  fails and changes nothing. A shared mapping drops its reference to the file, which disappears if it
  was the last and no name is left; a private copy is forgotten and touches no file.
\<close>

theorem unmap_refines:
  assumes "fs_inv s" "mms_unmap a len s = (r, s')"
  shows "fs_inv s' \<and> st_handles s' = st_handles s \<and> (case st_mappings s (a, len) of
      None \<Rightarrow> r = Inl InvalidArgument \<and> s' = s
    | Some Private \<Rightarrow> r = Inr () \<and> view s' = view s \<and> st_mappings s' = (st_mappings s)((a, len) := None)
    | Some (Shared i n) \<Rightarrow> r = Inr () \<and> view s' = v_unmapped i (view s))"
  using assms by (rule mms_unmap_spec)

theorem unmap_refines_witness:
  "mms_unmap 4096 4 sample_written = (Inl InvalidArgument, sample_written) \<and> fs_inv sample_written"
proof -
  have free: "st_mappings sample_written (4096, 4) = None" by (simp add: sample_written_eq sample_opened_eq)
  obtain r s' where run: "mms_unmap 4096 4 sample_written = (r, s')" by (cases "mms_unmap 4096 4 sample_written")
  from unmap_refines [OF sample_inv(3) run] free run sample_inv(3) show ?thesis by simp
qed

text \<open>
  C24. Byte for byte, a granted lock request does what it says: the bytes it covers are afterwards held
  by its owner in the wanted mode, or by nobody of that owner after an unlock, every other byte of
  every owner is held as before, and if no byte was held exclusively by one handle and at all by
  another, none is now.
\<close>

theorem lock_effect:
  assumes "relock env i mode wanted s = (Inr (), s')"
  shows "held_modes (node_locks s' i) w owner b =
      (if covers wanted w owner b then (if mode = LOCK_UNLOCK then {} else {lk_exclusive wanted})
       else held_modes (node_locks s i) w owner b)
    \<and> (locks_compatible (node_locks s i) \<longrightarrow> locks_compatible (node_locks s' i))"
  using relock_modes [OF assms] relock_compatible [OF assms] by blast

theorem lock_effect_witness:
  "\<exists>s'. relock sample_env 2 LOCK_EXCLUSIVE \<lparr>lk_owner = 8, lk_whole = False, lk_start = 0, lk_end = 4, lk_exclusive = True\<rparr>
       sample_written = (Inr (), s')
     \<and> held_modes (node_locks s' 2) False 8 3 = {True} \<and> held_modes (node_locks s' 2) False 8 4 = {}"
proof -
  let ?wanted = "\<lparr>lk_owner = 8, lk_whole = False, lk_start = 0, lk_end = 4, lk_exclusive = True\<rparr>"
  have none: "node_locks sample_written 2 = []" by (simp add: node_locks_def sample_written_eq sample_opened_eq new_node_def)
  obtain s' where run: "relock sample_env 2 LOCK_EXCLUSIVE ?wanted sample_written = (Inr (), s')"
    by (simp add: relock_def sample_written_eq sample_opened_eq new_node_def sample_env_def Let_def)
  show ?thesis
    using run lock_effect [OF run, of False 8 3] lock_effect [OF run, of False 8 4] none by (simp add: covers_def)
qed

text \<open>
  C25. A lock request on a file is refused with \<open>WouldBlock\<close> exactly when it asks for some byte that
  another handle holds in a conflicting mode.
\<close>

theorem lock_refused_iff:
  assumes "st_nodes s i = Some nd" "\<forall>l\<in>set (nd_locks nd). lock_proper l" "lock_proper wanted"
  shows "fst (relock env i mode wanted s) = Inl WouldBlock \<longleftrightarrow>
    mode \<noteq> LOCK_UNLOCK \<and> (\<exists>b owner. covers wanted (lk_whole wanted) (lk_owner wanted) b \<and> owner \<noteq> lk_owner wanted
      \<and> held_modes (nd_locks nd) (lk_whole wanted) owner b \<noteq> {}
      \<and> (lk_exclusive wanted \<or> True \<in> held_modes (nd_locks nd) (lk_whole wanted) owner b))"
  using assms by (rule relock_would_block_iff)

theorem lock_refused_iff_witness:
  "fst (relock sample_env 2 LOCK_SHARED \<lparr>lk_owner = 16, lk_whole = False, lk_start = 2, lk_end = 6, lk_exclusive = False\<rparr>
     (sample_written\<lparr>st_nodes := [2 \<mapsto> (new_node 0x1A4 (File (Plain [])) 7)
        \<lparr>nd_locks := [\<lparr>lk_owner = 8, lk_whole = False, lk_start = 0, lk_end = 4, lk_exclusive = True\<rparr>]\<rparr>]\<rparr>)) = Inl WouldBlock"
proof -
  let ?nd = "(new_node 0x1A4 (File (Plain [])) 7)
        \<lparr>nd_locks := [\<lparr>lk_owner = 8, lk_whole = False, lk_start = 0, lk_end = 4, lk_exclusive = True\<rparr>]\<rparr>"
  let ?s = "sample_written\<lparr>st_nodes := [2 \<mapsto> ?nd]\<rparr>"
  let ?wanted = "\<lparr>lk_owner = 16, lk_whole = False, lk_start = 2, lk_end = 6, lk_exclusive = False\<rparr>"
  have "covers ?wanted False 16 3 \<and> held_modes (nd_locks ?nd) False 8 3 = {True}" by (simp add: covers_def)
  then have conflict: "\<exists>b owner. covers ?wanted (lk_whole ?wanted) (lk_owner ?wanted) b \<and> owner \<noteq> lk_owner ?wanted
      \<and> held_modes (nd_locks ?nd) (lk_whole ?wanted) owner b \<noteq> {}
      \<and> (lk_exclusive ?wanted \<or> True \<in> held_modes (nd_locks ?nd) (lk_whole ?wanted) owner b)"
    by (intro exI [of _ 3] exI [of _ 8]) simp
  have "st_nodes ?s 2 = Some ?nd" "\<forall>l\<in>set (nd_locks ?nd). lock_proper l" "lock_proper ?wanted" by (simp_all add: lock_proper_def)
  from lock_refused_iff [OF this, of sample_env LOCK_SHARED] conflict show ?thesis by simp
qed

text \<open>
  C26. Reading a watcher's queue until it is empty delivers every queued event, in the order the changes
  happened, decoded from the bytes they were stored as.
\<close>

theorem queue_delivers_in_order:
  assumes "queue_inv q" "length (queue_events q) \<le> n"
  shows "memq.drain n q = map deliver (queue_events q)"
  using assms by (rule memq.drain_delivers_in_order)

theorem queue_delivers_in_order_witness:
  "queue_inv \<lparr>q_bytes = [], q_count = 0, q_lost = False\<rparr>
   \<and> memq.drain 2 (queue_push_granted True (7, W_CREATE, 0, [97])
       (queue_push_granted True (7, W_DELETE, 0, [98]) \<lparr>q_bytes = [], q_count = 0, q_lost = False\<rparr>))
     = [deliver (7, W_DELETE, 0, [98]), deliver (7, W_CREATE, 0, [97])]"
proof -
  let ?q = "\<lparr>q_bytes = [], q_count = 0, q_lost = False\<rparr>"
  let ?q1 = "queue_push_granted True (7, W_DELETE, 0, [98]) ?q"
  have inv: "queue_inv ?q" "queue_events ?q = []" using queue_invI [of ?q "[]"] by simp_all
  have ev: "short_name (7, W_DELETE, 0, [98])" "\<not> overflow_of (7, W_DELETE, 0, [98])"
    "short_name (7, W_CREATE, 0, [97])" "\<not> overflow_of (7, W_CREATE, 0, [97])" by (simp_all add: short_name_def overflow_of_def)
  have one: "queue_inv ?q1" "queue_events ?q1 = [(7, W_DELETE, 0, [98])]"
    using queue_push_room [OF inv(1) ev(1,2)] inv(2) by simp_all
  have two: "queue_inv (queue_push_granted True (7, W_CREATE, 0, [97]) ?q1)"
    "queue_events (queue_push_granted True (7, W_CREATE, 0, [97]) ?q1) = [(7, W_DELETE, 0, [98]), (7, W_CREATE, 0, [97])]"
    using queue_push_room [OF one(1) ev(3,4)] one(2) by simp_all
  show ?thesis using queue_delivers_in_order [OF two(1), of 2] two(2) inv(1) by simp
qed



text \<open>
  C28. Listing a directory through the table always returns, although the front end asks again for as
  long as the provider answers with a self reference: every answer uses up part of the listing.
\<close>

theorem table_listing_returns:
  "\<exists>out. files_directory_read (memfs_files envs others) h name buf len lcell kind kcell cs s = Some out"
  using listing_ends [of envs others h "length buf" s] by (auto simp: files_directory_read_def Let_def)

section \<open>The table\<close>

text \<open>
  C29. However the first callers of \<open>dotnet_pal_get_api\<close> interleave, and even if building the table
  twice would not give the same result, all that ask for the right version get the same answer, it is
  one result of \<open>build\<close>, and neither the table nor any answer changes afterwards.
\<close>

theorem negotiation_agrees:
  assumes "(slot_step outcomes)\<^sup>*\<^sup>* (slot_new, ts0) (s, ts)" "slot_start ts0" "ts t = Answered r" "ts u = Answered r'"
  shows "r = r' \<and> r \<in> outcomes \<and> (\<forall>s' ts'. (slot_step outcomes)\<^sup>*\<^sup>* (s, ts) (s', ts') \<longrightarrow> s' = s \<and> ts' t = Answered r)"
proof -
  have ok: "slot_ok outcomes (s, ts)" using slot_ok_run [OF assms(1) slot_ok_start [OF assms(2)]] .
  then have "caller_ok outcomes s (ts t)" "caller_ok outcomes s (ts u)" by (auto simp: slot_ok_def)
  then have "sl_state s \<in> {READY, REJECTED}" "r = sl_api s" "r' = sl_api s" using assms(3,4) by auto
  then show ?thesis using published_run [OF _ ok, of _ _ t r] ok assms(3) by (auto simp: slot_ok_def)
qed

theorem negotiation_agrees_witness:
  "\<exists>s ts. (slot_step {Some (5 :: nat)})\<^sup>*\<^sup>* (slot_new, \<lambda>_. Enter ABI_VERSION) (s, ts) \<and> ts 0 = Answered (Some 5)
     \<and> (\<forall>s' ts'. (slot_step {Some 5})\<^sup>*\<^sup>* (s, ts) (s', ts') \<longrightarrow> s' = s)"
proof -
  note rtranclp.rtrancl_into_rtrancl [trans]
  let ?E = "\<lambda>_ :: nat. Enter ABI_VERSION :: nat caller" and ?new = "slot_new :: nat slot"
  let ?s = "?new\<lparr>sl_state := NEGOTIATING\<rparr>" and ?w = "?new\<lparr>sl_state := NEGOTIATING, sl_api := Some 5\<rparr>"
  let ?r = "?new\<lparr>sl_api := Some 5, sl_state := READY\<rparr>"
  have "(slot_step {Some 5})\<^sup>*\<^sup>* (?new, ?E) (?new, ?E(0 := Loading))" by (rule r_into_rtranclp, rule this_version) simp_all
  also have "slot_step {Some 5} \<dots> (?new, ?E(0 := Trying))"
    using unused [of "?E(0 := Loading)" 0 ?new "{Some 5}"] by (simp add: slot_new_def)
  also have "slot_step {Some 5} \<dots> (?s, ?E(0 := Won))"
    using exchange [of "?E(0 := Trying)" 0 ?new "{Some 5}"] by (simp add: slot_new_def)
  also have "slot_step {Some 5} \<dots> (?w, ?E(0 := Storing READY))" using built [of "?E(0 := Won)" 0 5 "{Some 5}" ?s] by simp
  also have "slot_step {Some 5} \<dots> (?r, ?E(0 := Loading))" using publish [of "?E(0 := Storing READY)" 0 READY "{Some 5}" ?w] by simp
  also have "slot_step {Some 5} \<dots> (?r, ?E(0 := Answered (Some 5)))" using ready [of "?E(0 := Loading)" 0 ?r "{Some 5}"] by simp
  finally have run: "(slot_step {Some 5})\<^sup>*\<^sup>* (?new, ?E) (?r, ?E(0 := Answered (Some 5)))" .
  moreover have "slot_start ?E" by (simp add: slot_start_def)
  ultimately show ?thesis
    using negotiation_agrees [OF run, of 0 "Some 5" 0 "Some 5"] by (intro exI [of _ ?r] exI [of _ "?E(0 := Answered (Some 5))"]) simp
qed

text \<open>
  C30. No caller of the negotiation is ever stuck: from every state the callers can reach, any one of
  them can be brought to its return by further steps, provided building the table returns at all.
\<close>

theorem negotiation_can_finish:
  assumes "(slot_step outcomes)\<^sup>*\<^sup>* (slot_new, ts0) (s, ts)" "slot_start ts0" "outcomes \<noteq> {}"
  shows "\<exists>s' ts'. (slot_step outcomes)\<^sup>*\<^sup>* (s, ts) (s', ts') \<and> answered (ts' t)"
  using caller_can_finish [OF slot_ok_run [OF assms(1) slot_ok_start [OF assms(2)]] assms(3)] .

theorem negotiation_can_finish_witness:
  "\<exists>s' ts'. (slot_step {None, Some (5 :: nat)})\<^sup>*\<^sup>* (slot_new, \<lambda>_. Enter ABI_VERSION) (s', ts') \<and> answered (ts' 7)"
  using negotiation_can_finish [of "{None, Some 5}" "\<lambda>_. Enter ABI_VERSION" slot_new "\<lambda>_. Enter ABI_VERSION" 7]
  by (simp add: slot_start_def)

text \<open>
  A negotiated table offers exactly what the port provides: the bit of a capability is set if and
  only if the port names a provider for it and, for the process barrier, the barrier is available.
\<close>

theorem table_capabilities:
  assumes "build P = Some api"
  shows "bit (api_capabilities api) (key_bit k) \<longleftrightarrow> offered P k"
  using assms by (rule build_capabilities)

theorem table_capabilities_witness:
  "\<exists>api. build \<lparr>po_pairs = [(K_Clock, ''std''), (K_Files, ''memfs'')], po_page_size = 0, po_granularity = 0, po_capacity = 0,
       po_dynamic = False, po_barrier_available = False, po_context_table = False, po_arch = Other_Arch, po_validate = True\<rparr>
     = Some api \<and> bit (api_capabilities api) (key_bit K_Files) \<and> \<not> bit (api_capabilities api) (key_bit K_Sockets)"
proof -
  let ?P = "\<lparr>po_pairs = [(K_Clock, ''std''), (K_Files, ''memfs'')], po_page_size = 0, po_granularity = 0, po_capacity = 0,
       po_dynamic = False, po_barrier_available = False, po_context_table = False, po_arch = Other_Arch, po_validate = True\<rparr>"
  have "negotiates ?P" by (simp add: negotiates_def provided_def)
  then obtain api where "build ?P = Some api" using build_iff by blast
  then show ?thesis using table_capabilities [of ?P api K_Files] table_capabilities [of ?P api K_Sockets]
    by (simp add: offered_def provided_def)
qed



text \<open>
  When exactly a table is built: the port does not name both virtual memory and linear storage,
  it validates, the one it names has well-formed sizes, and if it names contexts or faults it has a
  context table or a frame layout.
\<close>

theorem table_exists_iff: "(\<exists>api. build P = Some api) \<longleftrightarrow> negotiates P"
  by (rule build_iff)

section \<open>Statuses, counters and sizes\<close>

text \<open>
  C32. A counter shared by any number of threads loses no increment: after any interleaving of loads,
  failed and successful exchanges it has grown by exactly the number of calls that finished, up to the
  largest value it can hold, where it stays.
\<close>

theorem counter_exact:
  assumes "counter_step\<^sup>*\<^sup>* (c0, \<lambda>_. Start) (cell, ts)" "c0 \<le> USIZE_MAX"
  shows "finite {t. ts t = Done} \<and> cell = min (c0 + card {t. ts t = Done}) USIZE_MAX"
  using assms by (rule counter_steps_count)

theorem counter_exact_witness:
  "\<exists>cell ts. counter_step\<^sup>*\<^sup>* (5, \<lambda>_. Start) (cell, ts) \<and> ts 1 = Done
     \<and> cell = min (5 + card {t. ts t = Done}) USIZE_MAX"
proof -
  let ?a = "(\<lambda>_. Start)(1 := Holding 5) :: nat \<Rightarrow> incrementer" and ?b = "(\<lambda>_. Start)(1 := Done) :: nat \<Rightarrow> incrementer"
  have "counter_step (5, \<lambda>_. Start) (5, ?a)" by (rule counter_step.load) simp
  moreover have "counter_step (5, ?a) (6, ?b)"
    using counter_step.exchange [of ?a 1 5 5] by (simp add: counter_increment_def width_simps)
  ultimately have run: "counter_step\<^sup>*\<^sup>* (5, \<lambda>_. Start) (6, ?b)" by (meson r_into_rtranclp rtranclp.rtrancl_into_rtrancl)
  have "6 = min (5 + card {t. ?b t = Done}) USIZE_MAX" using counter_exact [OF run] by (simp add: width_simps)
  then show ?thesis using run by (intro exI [of _ 6] exI [of _ ?b]) simp
qed

text \<open>
  Errors survive the trip over the boundary: reading back the status of an error gives that error,
  different errors have different statuses, no error has the status of success, and a code no error
  has becomes the general error.
\<close>

theorem status_round_trip:
  "from_status (status e) = Some e \<and> (status e = status f \<longleftrightarrow> e = f) \<and> status e \<noteq> OK \<and> from_status OK = None
   \<and> port_from_status (port_status (Inl e :: unit result)) = Inl e \<and> from_status (32 + n) = Some Os"
  using from_status_unknown [of "32 + n"] by (simp add: status_inj port_from_status_def from_status_def [of OK])

text \<open>
  Rounding a size to pages gives the smallest multiple of the page size that is large enough, for
  every size and page size: it fails exactly for a zero size, a page size that is no power of two, and
  a result beyond the largest block the language allows.
\<close>

theorem round_size_exact:
  "round_size sz page = Some r \<longleftrightarrow>
     0 < sz \<and> is_power_of_two page \<and> page dvd r \<and> sz \<le> r \<and> r < sz + page \<and> r \<le> ISIZE_MAX"
  by (rule round_size_Some_iff)

text \<open>
  C33. Memory a caller reserves through the table is usable as asked, whatever the provider does: on
  success the address is not null, aligned to the page size and to the alignment asked for, and the
  rounded range does not wrap around the address space; on failure the output is null.
\<close>

theorem reserve_contract:
  assumes "vm_reserve v sz alignment fl out cell cs s = ((st, cs'), address, s')" "aligned_output out 8"
  shows "if st = OK
    then address \<noteq> 0 \<and> vm_page_size v dvd address \<and> (alignment = 0 \<or> alignment dvd address)
      \<and> (\<exists>rounded. round_size sz (vm_page_size v) = Some rounded \<and> address + rounded \<le> USIZE_MAX)
    else address = 0"
  using vm_reserve_cases [OF assms] block_contract by (fastforce simp: geometry_Some_iff)

theorem reserve_contract_witness:
  "\<exists>cs'. vm_reserve (absent_vm\<lparr>vm_page_size := 4096, vm_reserve_fn := \<lambda>_ _ s. (Inr 65536, s)\<rparr>) 5000 16384 0 8 0 [0, 0, 0, 0, 0, 0] ()
       = ((OK, cs'), 65536, ())
     \<and> (16384 :: nat) dvd 65536 \<and> (\<exists>rounded. round_size 5000 4096 = Some rounded \<and> 65536 + rounded \<le> USIZE_MAX)"
proof -
  let ?v = "absent_vm\<lparr>vm_page_size := 4096, vm_reserve_fn := \<lambda>_ _ s. (Inr 65536, s)\<rparr> :: unit vm_provider"
  have "is_power_of_two (2 ^ 12)" "is_power_of_two (2 ^ 14)" unfolding is_power_of_two_iff by (intro exI [of _ 12] exI [of _ 14]; simp)+
  then have "geometry 5000 16384 4096 = Some (8192, 16384)" by (simp add: geometry_Some_iff round_size_Some_iff width_simps)
  then obtain cs' where run: "vm_reserve ?v 5000 16384 0 8 0 [0, 0, 0, 0, 0, 0] () = ((OK, cs'), 65536, ())"
    by (simp add: vm_reserve_def absent_vm_def aligned_output_def core_record_def broken_block_def checked_add_def width_simps)
  from reserve_contract [OF run] run show ?thesis by (auto simp: aligned_output_def absent_vm_def)
qed

section \<open>Concurrent handlers\<close>

text \<open>
  C34. Fault handlers under concurrency: at most one installer holds the claim or has succeeded, and as
  long as no installation has been refused by the platform, whatever a fault calls is a handler
  together with the data of the very same installation.
\<close>

theorem fault_handler_with_own_data:
  assumes "fault_step\<^sup>*\<^sup>* (fault_init, ts0) (f, ts)" "fault_start ts0"
  shows "exclusive (f, ts) \<and> (\<not> refused_some ts \<longrightarrow> ts t = Called h d \<longrightarrow> (\<exists>u. ts0 u = Install h d))"
proof -
  note inv = fault_run_inv [OF assms]
  show ?thesis
  proof (intro conjI impI)
    assume t: "\<not> refused_some ts" "ts t = Called h d"
    then have "\<forall>t. paired {(h, d). \<exists>t. ts0 t = Install h d} f (ts t)" using inv by (simp add: pairs_ok_def)
    from spec [OF this, of t] t(2) show "\<exists>u. ts0 u = Install h d" by simp
  qed (use inv in blast)
qed

theorem fault_handler_with_own_data_witness:
  "\<exists>f ts. fault_step\<^sup>*\<^sup>* (fault_init, race_start) (f, ts) \<and> \<not> refused_some ts \<and> ts 2 = Called 8 100
     \<and> (\<exists>u. race_start u = Install 8 100)"
proof -
  note rtranclp.rtrancl_into_rtrancl [trans]
  let ?f1 = "fault_init\<lparr>fa_state := INSTALLING\<rparr>"
  let ?f2 = "?f1\<lparr>fa_data := 100\<rparr>" and ?t2 = "race_start(0 := Data_Stored 8 100)"
  let ?f3 = "?f2\<lparr>fa_handler := 8\<rparr>" and ?t3 = "race_start(0 := Armed 8 100)"
  have "fault_step\<^sup>*\<^sup>* (fault_init, race_start) (?f1, race_start(0 := Claimed 8 100))"
    by (rule r_into_rtranclp, rule claim) (simp_all add: race_start_def fault_init_def)
  also have "fault_step \<dots> (?f2, ?t2)" using store_data [of "race_start(0 := Claimed 8 100)" 0 8 100 ?f1] by simp
  also have "fault_step \<dots> (?f3, ?t3)" using store_handler [of ?t2 0 8 100 ?f2] by simp
  also have "fault_step \<dots> (?f3, ?t3(2 := Loaded 8))"
    using fault_step.load [of ?t3 2 ?f3] by (simp add: race_start_def)
  also have "fault_step \<dots> (?f3, ?t3(2 := Called 8 100))" using invoke [of "?t3(2 := Loaded 8)" 2 8 ?f3] by simp
  finally have run: "fault_step\<^sup>*\<^sup>* (fault_init, race_start) (?f3, ?t3(2 := Called 8 100))" .
  have start: "fault_start race_start" "\<not> refused_some (?t3(2 := Called 8 100))"
    by (auto simp: fault_start_def race_start_def refused_some_def)
  have "\<exists>u. race_start u = Install 8 100" using fault_handler_with_own_data [OF run start(1), of 2 8 100] start(2) by simp
  then show ?thesis using run start(2) by (intro exI [of _ ?f3] exI [of _ "?t3(2 := Called 8 100)"]) simp
qed




section \<open>What callers get from untrusted providers\<close>



text \<open>
  Resolving a host name: on success the caller finds between one and as many addresses as it has room
  for, each in normal form and of the family it asked for; on any failure it finds none, and its array
  is untouched or holds only empty addresses.
\<close>

theorem resolve_contract:
  assumes "sockets_resolve kp nm len bytes family out addrs found cell cs s = ((st, cs'), n, addrs', s')" "aligned_output found 8"
  shows "if st = OK
    then 0 < n \<and> n \<le> length addrs \<and> (\<forall>a\<in>set (take n addrs'). normalized a = Some a \<and> (family = 0 \<or> ad_family a = family))
    else n = 0 \<and> (addrs' = addrs \<or> addrs' = replicate (length addrs) DEFAULT_ADDRESS)"
  using assms by (rule sockets_resolve_contract)

theorem resolve_contract_witness:
  "\<exists>cs' addrs'. sockets_resolve (absent_sockets\<lparr>kp_resolve := \<lambda>_ _ b s. (Inr 1, b[0 := address_v4 [127, 0, 0, 1] 0], s)\<rparr>)
       64 1 [97] IPV4 64 [DEFAULT_ADDRESS] 72 0 [] () = ((OK, cs'), 1, addrs', ())
     \<and> (\<forall>a\<in>set (take 1 addrs'). normalized a = Some a \<and> ad_family a = IPV4)"
proof -
  let ?kp = "absent_sockets\<lparr>kp_resolve := \<lambda>_ _ b s. (Inr 1, b[0 := address_v4 [127, 0, 0, 1] 0], s)\<rparr> :: unit sockets_provider"
  obtain cs' where rec: "sockets_record OK 13 [] = (OK, cs')" using sockets_rec.OK_iff [of OK 13 "[]"] by (metis prod.collapse)
  have ok: "resolved_ok IPV4 (address_v4 [127, 0, 0, 1] 0)" "io_path 64 1 [97] = Some [97]"
    using normalized_v4 [of "[127, 0, 0, 1]" 0] by (simp_all add: resolved_ok_def address_v4_def io_path_Some_iff width_simps)
  obtain addrs' where run: "sockets_resolve ?kp 64 1 [97] IPV4 64 [DEFAULT_ADDRESS] 72 0 [] () = ((OK, cs'), 1, addrs', ())"
    using rec ok by (simp add: sockets_resolve_def aligned_output_def absent_sockets_def Let_def)
  from resolve_contract [OF run] run show ?thesis by (auto simp: aligned_output_def)
qed

text \<open>
  Receiving a packet: the bytes reported fit the buffer; sender and destination are empty or in the
  form the boundary defines, the destination without a port; the reserved field is zero; and a failure
  leaves length, sender and packet information empty.
\<close>

theorem packet_contract:
  assumes "packets_receive rx socket data buf fl sender info info_size received cells cs s = ((st, cs'), (n, a, i), buf', s')"
    and "aligned_output received 8" "aligned_output info 4" "32 \<le> info_size" "aligned_output sender 4"
  shows "st \<in> set packets_statuses \<and> n \<le> length buf \<and> pi_reserved i = 0
    \<and> (pi_destination i = DEFAULT_ADDRESS \<or> normalized (pi_destination i) = Some (pi_destination i) \<and> ad_port (pi_destination i) = 0)
    \<and> (a = DEFAULT_ADDRESS \<or> reported a = Some a)
    \<and> (st \<noteq> OK \<longrightarrow> n = 0 \<and> a = DEFAULT_ADDRESS \<and> i = DEFAULT_INFO)"
  using assms by (rule packets_receive_contract)

theorem packet_contract_witness:
  "\<exists>cs' i. packets_receive (\<lambda>_ b _ s. (Inr (2, None, DEFAULT_INFO\<lparr>pi_reserved := 7\<rparr>), b, s)) 8 64 [0, 0, 0] 0 80 96 32 72
       (0, DEFAULT_ADDRESS, DEFAULT_INFO) [] () = ((OK, cs'), (2, DEFAULT_ADDRESS, i), [0, 0, 0], ()) \<and> pi_reserved i = 0"
proof -
  let ?rx = "(\<lambda>_ b _ s. (Inr (2, None, DEFAULT_INFO\<lparr>pi_reserved := 7\<rparr>), b, s)) :: unit packet_receive"
  obtain cs' where rec: "packets_record OK [] = (OK, cs')" using packets_record_pair [of OK "[]"] by (metis prod.collapse)
  obtain i where run: "packets_receive ?rx 8 64 [0, 0, 0] 0 80 96 32 72 (0, DEFAULT_ADDRESS, DEFAULT_INFO) [] ()
      = ((OK, cs'), (2, DEFAULT_ADDRESS, i), [0, 0, 0], ())"
    using rec by (simp add: packets_receive_def aligned_output_def valid_buffer_def checked_add_def width_simps Let_def)
  from packet_contract [OF run] run show ?thesis by (auto simp: aligned_output_def)
qed

text \<open>
  Random bytes fail closed: a success is the provider's own, on the whole buffer; after any failure
  the buffer holds only zeros, never part of what the provider may have written.
\<close>

theorem random_fails_closed:
  assumes "random_bytes rp out buf cs s = ((st, cs'), buf', s')" "runtime_valid_buffer 1 1 out (length buf)"
  shows "if st = OK then buf = [] \<and> buf' = [] \<or> rp_fill rp buf s = (Inr (), buf', s')
         else buf' = replicate (length buf) 0"
  using assms by (rule random_bytes_contract)

theorem random_fails_closed_witness:
  "\<exists>st cs' buf'. random_bytes (absent_runtime\<lparr>rp_fill := \<lambda>b s. (Inl Os, map (\<lambda>_. 42) b, s)\<rparr>) 64 [1, 2, 3] [] () = ((st, cs'), buf', ())
     \<and> st \<noteq> OK \<and> buf' = [0, 0, 0]"
proof -
  let ?rp = "absent_runtime\<lparr>rp_fill := \<lambda>b s. (Inl Os, map (\<lambda>_. 42) b, s)\<rparr> :: unit runtime_provider"
  have ok: "runtime_valid_buffer 1 1 64 (length [1, 2, 3 :: byte])"
    by (simp add: runtime_valid_buffer_def aligned_output_def checked_add_def width_simps)
  obtain st cs' buf' where run: "random_bytes ?rp 64 [1, 2, 3] [] () = ((st, cs'), buf', ())" "st \<noteq> OK"
  proof -
    obtain st cs' where "runtime_record (status Os) 3 [] = (st, cs')" by fastforce
    moreover then have "st \<noteq> OK" using runtime_rec.OK_iff [of "status Os" 3 "[]"] by simp
    ultimately show thesis using that ok by (simp add: random_bytes_def Let_def absent_runtime_def)
  qed
  from random_fails_closed [OF run(1) ok] run show ?thesis by simp
qed

text \<open>
  Reading a variable: on success the value and its NUL fit the buffer and end where the length says;
  a length beyond the buffer is reported only for a value that does not fit, no length on other
  failures, and no failure leaves a text in the buffer.
\<close>

theorem environment_contract:
  assumes "environment_get rp nm len bytes out buf required cell cs s = ((st, cs'), needed, buf', s')"
    and "aligned_output required 8" "runtime_valid_buffer 1 1 out (length buf)"
    and "\<And>n b t. length (fst (snd (rp_environment_get rp n b t))) = length b"
  shows "runtime_published 0 st \<and> length buf' = length buf
    \<and> (st = OK \<longrightarrow> 0 < needed \<and> needed \<le> length buf \<and> buf' ! (needed - 1) = 0)
    \<and> (st = BUFFER_TOO_SMALL \<longrightarrow> length buf < needed \<or> needed = 0)
    \<and> (st \<noteq> OK \<and> st \<noteq> BUFFER_TOO_SMALL \<longrightarrow> needed = 0)
    \<and> (st \<noteq> OK \<and> buf \<noteq> [] \<longrightarrow> buf' ! 0 = 0)"
  using assms by (rule environment_get_contract)

theorem environment_contract_witness:
  "\<exists>cs' buf'. environment_get (absent_runtime\<lparr>rp_environment_get := \<lambda>_ b s. (Inr (TooSmall 9), b, s)\<rparr>)
       64 1 [65] 64 [1, 2] 72 0 [] () = ((BUFFER_TOO_SMALL, cs'), 9, buf', ()) \<and> buf' ! 0 = 0 \<and> length buf' = 2"
proof -
  let ?rp = "absent_runtime\<lparr>rp_environment_get := \<lambda>_ b s. (Inr (TooSmall 9), b, s)\<rparr> :: unit runtime_provider"
  have ok: "runtime_valid_buffer 1 1 64 (length [1, 2 :: byte])" "valid_name 64 1 [65] True = Some [65]" "aligned_output 72 8"
    by (simp_all add: runtime_valid_buffer_def valid_name_def aligned_output_def checked_add_def width_simps)
  obtain cs' where "runtime_record BUFFER_TOO_SMALL 0 [] = (BUFFER_TOO_SMALL, cs')"
    by (simp add: runtime_record_def Let_def)
  then obtain buf' where run: "environment_get ?rp 64 1 [65] 64 [1, 2] 72 0 [] () = ((BUFFER_TOO_SMALL, cs'), 9, buf', ())"
    using ok by (simp add: environment_get_def absent_runtime_def Let_def width_simps)
  from environment_contract [OF run ok(3,1)] run show ?thesis by (simp add: absent_runtime_def)
qed

text \<open>
  C38. Starting a process: the check of its request always returns if the environment texts end somewhere,
  although it scans them without a bound; a request it lets through names a program without NUL,
  has at least one argument and no null argument, asks only for defined pipes, and every environment
  entry has a nonempty name before its first \<open>=\<close>.
\<close>

theorem spawn_request_contract:
  assumes "terminated envs"
  shows "\<exists>r. spawn_request program program_length pbytes arguments args environment envs directory directory_length dbytes pipes = Some r
    \<and> (\<forall>prog argv env dir. r = Some (prog, argv, env, dir) \<longrightarrow> 0 \<notin> set prog \<and> argv \<noteq> [] \<and> 0 \<notin> set argv
        \<and> pipes AND NOT (PIPE_INPUT OR PIPE_OUTPUT OR PIPE_ERROR) = 0
        \<and> (env \<noteq> None \<longrightarrow> (\<forall>(p, mem)\<in>set envs. \<exists>k>0. mem k = 61 \<and> (\<forall>j<k. mem j \<noteq> 0 \<and> mem j \<noteq> 61))))"
proof -
  obtain r where r: "spawn_request program program_length pbytes arguments args environment envs directory directory_length dbytes pipes
      = Some r" using spawn_request_returns [OF assms] by blast
  show ?thesis
  proof (intro exI [of _ r] conjI allI impI r)
    fix prog argv env dir
    assume "r = Some (prog, argv, env, dir)"
    then have some: "spawn_request program program_length pbytes arguments args environment envs directory directory_length dbytes pipes
      = Some (Some (prog, argv, env, dir))" using r by simp
    show "\<forall>(p, mem)\<in>set envs. \<exists>k>0. mem k = 61 \<and> (\<forall>j<k. mem j \<noteq> 0 \<and> mem j \<noteq> 61)" if "env \<noteq> None"
      using spawn_request_names [OF some assms that] by auto
  qed (use r spawn_request_checked in blast)+
qed

theorem spawn_request_contract_witness:
  "terminated [(64, \<lambda>i. if i = 0 then 65 else if i = 1 then 61 else 0)]
   \<and> (\<exists>r. spawn_request 64 1 [97] 64 [(64, \<lambda>_. 0)] 64 [(64, \<lambda>i. if i = 0 then 65 else if i = 1 then 61 else 0)] 0 0 [] 0 = Some r)"
proof -
  have "terminated [(64, \<lambda>i. if i = 0 then 65 else if i = 1 then 61 else 0)]" by (auto simp: terminated_def)
  from spawn_request_contract [OF this, of 64 1 "[97]" 64 "[(64, \<lambda>_. 0)]" 64 0 0 "[]" 0] this show ?thesis by blast
qed

text \<open>
  An account a provider makes from texts reaches the caller unchanged: the identifiers and, up to the
  first NUL of each, name, home directory and shell are the ones given to the constructor.
\<close>

theorem account_round_trip:
  assumes "account_new u g nm home shell = Some a" "field_text nm \<noteq> []" "asked = None \<or> asked = Some u"
    and "query s = (Inr a, s')" "aligned_output out 4" "ACCOUNT_SIZE \<le> out_size"
  shows "\<exists>cs' b. account_query out out_size cell asked query cs s = ((OK, cs'), b, s') \<and> ac_user_id b = u \<and> ac_group_id b = g
    \<and> field_text (ac_name b) = field_text nm \<and> field_text (ac_home b) = field_text home \<and> field_text (ac_shell b) = field_text shell"
proof -
  note a = account_new_accepted [OF assms(1-3)]
  obtain cs' where "accounts_record OK 0 cs = (OK, cs')" using accounts_rec.OK_iff [of OK 0 cs] by (metis prod.collapse)
  then show ?thesis using a assms(4-6) by (simp add: account_query_def)
qed

theorem account_round_trip_witness:
  "\<exists>a cs' b. account_new 7 8 [97] [98] [99] = Some a
     \<and> account_query 8 ACCOUNT_SIZE EMPTY_ACCOUNT (Some 7) (\<lambda>s. (Inr a, s)) [] () = ((OK, cs'), b, ()) \<and> ac_user_id b = 7"
proof -
  have new: "\<exists>a. account_new 7 8 [97] [98] [99] = Some a" by (simp add: account_new_def fill_field_def)
  then obtain a where a: "account_new 7 8 [97] [98] [99] = Some a" by blast
  from account_round_trip [OF a, of "Some 7" "\<lambda>s. (Inr a, s)" "()" "()" 8 ACCOUNT_SIZE EMPTY_ACCOUNT "[]"] a show ?thesis
    by (auto simp: field_text_def aligned_output_def)
qed

text \<open>
  C39. The WASI transport: a call is rejected without reaching the host, or its operation is known, it has
  exactly as many arguments as the operation takes, each no wider than the operation allows, the host
  receives exactly these arguments padded with zeros, and the caller gets the host's error number.
\<close>

theorem wasi_transport:
  assumes "wasi_invoke dispatch opcode args argc vals wc s = (st, wc', s')" "length vals = argc"
  shows "(st, wc', s') = reject wc s
    \<or> opcode < OP_COUNT \<and> argc = ARG_COUNTS ! opcode \<and> fits (WIDE_MASKS ! opcode) 0 vals
      \<and> (\<exists>raw. dispatch \<lparr>rq_version = 1, rq_size = 88, rq_opcode = opcode, rq_argc = argc,
              rq_args = vals @ replicate (9 - argc) 0\<rparr> s = (raw, s')
            \<and> st = (if raw \<le> 76 then raw else ERRNO_IO))
      \<and> wc_calls wc' = bump opcode (wc_calls wc) \<and> wc_rejected wc' = wc_rejected wc"
  using assms by (rule wasi_invoke_cases)

theorem wasi_transport_witness:
  "\<exists>wc'. wasi_invoke (\<lambda>r s. (99, rq_args r)) 0 64 2 [5, 6] \<lparr>wc_calls = replicate OP_COUNT 0, wc_rejected = 0, wc_errors = 0\<rparr> []
     = (ERRNO_IO, wc', [5, 6] @ replicate 7 0)"
proof -
  let ?wc = "\<lparr>wc_calls = replicate OP_COUNT 0, wc_rejected = 0, wc_errors = 0\<rparr>"
  obtain st wc' s' where run: "wasi_invoke (\<lambda>r s. (99, rq_args r)) 0 64 2 [5, 6] ?wc [] = (st, wc', s')"
    by (cases "wasi_invoke (\<lambda>r s. (99, rq_args r)) 0 64 2 [5, 6] ?wc []")
  have "copy_args (WIDE_MASKS ! 0) 0 [5, 6] (replicate 9 0) = Some ([5, 6] @ replicate 7 0)"
    using copy_args_eq [of 0 "[5, 6]" "replicate 9 0" "WIDE_MASKS ! 0"]
    by (simp add: fits_def WIDE_MASKS_def width_simps less_Suc_eq all_conj_distrib imp_disjL del: copy_args.simps)
  then have "wc_rejected wc' = 0" "s' \<noteq> []" using run
    by (auto simp: wasi_invoke_def ARG_COUNTS_def aligned_output_def checked_add_def width_simps Let_def)
  then show ?thesis using wasi_transport [OF run] run by (auto simp: reject_def)
qed

text \<open>
  Reading an environment entry by index: on success the caller's buffer holds a NUL-terminated text
  without an earlier NUL, of the reported length, that has a nonempty name before its \<open>=\<close>; on any failure
  the buffer holds only zeros.
\<close>

theorem environment_entry_exact:
  assumes "environment_entry yp index out buf needed cell cs s = ((st, cs'), n, buf', s')"
    and "aligned_output needed 8" "valid_buffer out (length buf)"
  shows "(st = OK \<longrightarrow> 2 \<le> n \<and> n \<le> length buf \<and> n \<le> MAX_ENVIRONMENT_ENTRY \<and> buf' ! (n - 1) = 0
             \<and> 0 \<notin> set (take (n - 1) buf') \<and> names_variable (take (n - 1) buf'))
    \<and> (st \<noteq> OK \<longrightarrow> buf' = replicate (length buf) 0)"
  using assms by (rule environment_entry_contract)

theorem environment_entry_exact_witness:
  "\<exists>cs'. environment_entry (absent_system\<lparr>yp_environment_entry := \<lambda>_ _ s. (Inr 4, [65, 61, 98, 0], s)\<rparr>) 0 64 [1, 2, 3, 4] 72 0 [] ()
     = ((OK, cs'), 4, [65, 61, 98, 0], ()) \<and> names_variable (take 3 [65, 61, 98, 0])"
proof -
  let ?yp = "absent_system\<lparr>yp_environment_entry := \<lambda>_ _ s. (Inr 4, [65, 61, 98, 0], s)\<rparr> :: unit system_provider"
  obtain cs' where "system_record OK 0 [] = (OK, cs')" using system_rec.OK_iff [of OK 0 "[]"] by (metis prod.collapse)
  then have run: "environment_entry ?yp 0 64 [1, 2, 3, 4] 72 0 [] () = ((OK, cs'), 4, [65, 61, 98, 0], ())"
    by (simp add: environment_entry_def io_text_def names_variable_def aligned_output_def valid_buffer_def checked_add_def width_simps
        Let_def)
  from environment_entry_exact [OF run] run show ?thesis
    by (simp add: aligned_output_def valid_buffer_def checked_add_def width_simps)
qed

text \<open>
  Whether memory is readable survives the encoding as a status: for every valid range the consumer
  decodes exactly the answer the provider gave.
\<close>

theorem readable_decodes:
  assumes "readable ip address sz cs s = ((st, cs'), s')" "ip_readable ip address sz s = (Inr yes, s')"
    and "address \<noteq> 0" "0 < sz" "address + sz \<le> USIZE_MAX"
  shows "readable_from_status st = Inr yes"
  using assms by (rule readable_round_trip)

theorem readable_decodes_witness:
  "\<exists>st cs'. readable (absent_image\<lparr>ip_readable := \<lambda>_ _ s. (Inr False, s)\<rparr>) 4096 8 [] () = ((st, cs'), ())
     \<and> readable_from_status st = Inr False"
proof -
  let ?ip = "absent_image\<lparr>ip_readable := \<lambda>_ _ s. (Inr False, s)\<rparr> :: unit image_provider"
  obtain st cs' where "image_record NOT_FOUND 1 [] = (st, cs')" by fastforce
  then have run: "readable ?ip 4096 8 [] () = ((st, cs'), ())" by (simp add: readable_def checked_add_def width_simps)
  from readable_decodes [OF run, of False] run show ?thesis by (simp add: width_simps)
qed

text \<open>
  Requesting a crash dump: whatever the provider writes as its message, the caller's buffer keeps its
  length and holds a NUL, so the message is a terminated text.
\<close>

theorem crash_dump_terminated:
  assumes "crash_dump pp argv argc arguments err buf cs s = ((st, cs'), buf', s')"
    and "length buf \<le> MAX_ARGUMENT" "err \<noteq> 0" "buf \<noteq> []"
    and "\<And>a b t. length (fst (snd (pp_crash_dump pp a b t))) = length b"
  shows "length buf' = length buf \<and> 0 \<in> set buf'"
  using assms by (rule crash_dump_contract)

theorem crash_dump_terminated_witness:
  "\<exists>st cs' buf'. crash_dump (absent_process\<lparr>pp_crash_dump := \<lambda>_ b s. (Inl Os, map (\<lambda>_. 65) b, s)\<rparr>) 64 1 [(64, \<lambda>_. 0)] 8 [1, 2] [] ()
     = ((st, cs'), buf', ()) \<and> length buf' = 2 \<and> 0 \<in> set buf'"
proof -
  let ?pp = "absent_process\<lparr>pp_crash_dump := \<lambda>_ b s. (Inl Os, map (\<lambda>_. 65) b, s)\<rparr> :: unit process_provider"
  let ?x = "crash_dump ?pp 64 1 [(64, \<lambda>_. 0)] 8 [1, 2] [] ()"
  have run: "?x = ((fst (fst ?x), snd (fst ?x)), fst (snd ?x), ())" by (simp add: prod_eq_iff)
  from crash_dump_terminated [OF run] have "length (fst (snd ?x)) = 2 \<and> 0 \<in> set (fst (snd ?x))" by (simp add: absent_process_def)
  then show ?thesis using run by blast
qed



text \<open>
  The volume list of the in-memory file system, through the table: the entry at index 0 is the text
  \<open>/\<close>, terminated and followed by zeros in any buffer of at least two bytes, with its length; in a shorter
  buffer the caller learns the length it needs.
\<close>

theorem root_volume_listed:
  assumes "aligned_output needed 8" "valid_buffer out (length buf)"
  shows "\<exists>cs'. volumes_entry memfs_volumes 0 out buf needed cell cs s =
    (if 2 \<le> length buf then ((OK, cs'), 2, SLASH # replicate (length buf - 1) 0, s)
     else ((BUFFER_TOO_SMALL, cs'), 2, replicate (length buf) 0, s))"
proof -
  let ?text = "io_text buf 0 (MAX_NAME + 1) (\<lambda>_. mvs_entry 0 (replicate (length buf) 0))"
  have same: "?text = io_text buf 0 (MAX_NAME + 1) (mvs_entry 0)" by (simp add: io_text_def)
  have "?text = (if 2 \<le> length buf then (OK, 2, SLASH # replicate (length buf - 1) 0)
      else (BUFFER_TOO_SMALL, 2, replicate (length buf) 0))"
    unfolding same using root_volume.io_text_fits [of buf 0] root_volume.io_text_short [of buf 0] by simp
  moreover have "\<exists>cs'. volumes_record OK 0 cs = (OK, cs')" "\<exists>cs'. volumes_record BUFFER_TOO_SMALL 0 cs = (BUFFER_TOO_SMALL, cs')"
    by (simp_all add: volumes_record_def Let_def)
  ultimately show ?thesis using assms
    by (cases "2 \<le> length buf") (auto simp: volumes_entry_def memfs_volumes_def Let_def split: prod.splits)
qed

theorem root_volume_listed_witness:
  "\<exists>cs'. volumes_entry memfs_volumes 0 64 [7, 7, 7] 72 0 [] sample_empty = ((OK, cs'), 2, [SLASH, 0, 0], sample_empty)"
proof -
  have "aligned_output 72 8" "valid_buffer 64 (length [7, 7, 7 :: byte])"
    by (simp_all add: aligned_output_def valid_buffer_def checked_add_def width_simps)
  from root_volume_listed [OF this, of 0 "[]" sample_empty] show ?thesis by (simp add: numeral_2_eq_2)
qed

section \<open>Storage\<close>



text \<open>
  C12. The ledger keeps the same promise over any backing whatever, also one that answers with
  addresses it has handed out before, misaligned or out of range: no two live blocks ever overlap
  and the capacity is never exceeded.
\<close>

theorem ledger_trusts_nobody:
  assumes "(linear_call (ledger_provider lim capacity B))\<^sup>*\<^sup>* (ledger_new mem b, cs) (s, cs')"
  shows "(heap_step lim)\<^sup>*\<^sup>* (Map.empty, mem) (ledger_blocks s, lg_bytes s)
    \<and> blocks_ok lim (ledger_blocks s) \<and> live_bytes (ledger_blocks s) \<le> capacity"
proof -
  have run: "ledger_ok lim capacity s" "(heap_step lim)\<^sup>*\<^sup>* (ledger_blocks (ledger_new mem b), lg_bytes (ledger_new mem b)) (ledger_blocks s, lg_bytes s)"
    using ledger_storage.calls_keep [OF assms ledger_new_ok(1)] by auto
  then show ?thesis using ledger_new_ok(2) [of mem b] ledger_storage.well_formed [OF run(1)] ledger_storage.budget [OF run(1)] by (simp add: ledger_new_def)
qed

theorem ledger_trusts_nobody_witness:
  "\<exists>s cs' B. (linear_call (ledger_provider USIZE_MAX 8192 B))\<^sup>*\<^sup>* (ledger_new (\<lambda>_. 1) (), []) (s, cs') \<and> lg_owned s = 4096
    \<and> lg_bytes s 65536 = 0 \<and> blocks_ok USIZE_MAX (ledger_blocks s) \<and> live_bytes (ledger_blocks s) \<le> 8192"
proof -
  let ?B = "\<lparr>bk_allocate = (\<lambda>_ _ b. (Inr 65536, b)), bk_release = (\<lambda>_ _ b. (Inr (), b))\<rparr> :: unit backing"
  let ?l = "ledger_provider USIZE_MAX 8192 ?B"
  obtain s where s: "ledger_allocate USIZE_MAX 8192 ?B 4096 4096 (ledger_new (\<lambda>_. 1) ()) = (Inr 65536, s)" "lg_owned s = 4096" "lg_bytes s 65536 = 0"
    using ledger_first [of ?B "()" 65536 "()" USIZE_MAX 8192 "\<lambda>_. 1"] by (simp add: write_zeros_def width_simps)
  have "\<exists>r cs' cell. linear_allocate ?l 4096 0 0 8 0 [] (ledger_new (\<lambda>_. 1) ()) = ((r, cs'), cell, s)"
    using s(1) page_geometry by (simp add: linear_allocate_def aligned_output_def core_record_def)
  then obtain cs' where "linear_call ?l (ledger_new (\<lambda>_. 1) (), []) (s, cs')" by (metis linear_call.call_allocate)
  then have run: "(linear_call ?l)\<^sup>*\<^sup>* (ledger_new (\<lambda>_. 1) (), []) (s, cs')" by (rule r_into_rtranclp)
  from ledger_trusts_nobody [OF run] run s(2,3) show ?thesis by blast
qed

text \<open>
  C14. The storage of a wasm32 module: at every moment each byte grown so far is in exactly one live
  block or on the free list, as long as the engine grants fewer than 65536 pages.
\<close>

theorem demand_conserved:
  assumes "(provider_call (demand_provider capacity grants))\<^sup>*\<^sup>* (demand_start mem origin) st" "0 < origin" "origin < 65536" "bounded_growth grants"
  shows "live_set (ledger_blocks st) \<inter> free_bytes (lg_backing st) = {}
    \<and> live_set (ledger_blocks st) \<union> free_bytes (lg_backing st) = {origin * WASM_PAGE..<wa_pages (lg_backing st) * WASM_PAGE}
    \<and> blocks_ok U32_MAX (ledger_blocks st) \<and> live_bytes (ledger_blocks st) \<le> capacity"
proof -
  have c: "conserved capacity (origin * WASM_PAGE) st"
    by (rule demand_run_conserved [OF assms(1) demand_start_conserved [OF assms(2,3)] assms(4)])
  show ?thesis using conservedD [OF c] ledger_storage.well_formed [OF conservedD(1) [OF c]] ledger_storage.budget [OF conservedD(1) [OF c]] by simp
qed

theorem demand_conserved_witness:
  "\<exists>st. (provider_call (demand_provider 8192 (\<lambda>origin delta. origin + delta < 100)))\<^sup>*\<^sup>* (demand_start (\<lambda>_. 0) 2) st
    \<and> lg_owned st = 4096 \<and> wa_pages (lg_backing st) = 3
    \<and> live_set (ledger_blocks st) \<union> free_bytes (lg_backing st) = {2 * WASM_PAGE..<3 * WASM_PAGE}"
proof -
  let ?g = "\<lambda>origin delta :: nat. origin + delta < 100"
  let ?w = "\<lparr>wa_free = [], wa_pages = 2\<rparr>"
  have p: "is_power_of_two 4096" by (simp add: is_power_of_two_iff) (rule exI [of _ 12], simp)
  have a: "align_up 131072 4096 = Some 131072" using p by (simp add: align_up_def align_within_def width_simps mask_down_pow2)
  obtain w where w: "grow_allocate ?g 4096 4096 ?w = Some (Inr 131072, w)" "wa_pages w = 3"
    using p a by (simp add: grow_allocate_def free_take_def grow_list_def memory_grow_def free_insert_def Let_def add32_def
        WASM_PAGE_def MAX_FREE_def width_simps)
  then have "bk_allocate (grow_backing ?g) 4096 4096 ?w = (Inr 131072, w)" by (simp add: grow_backing_def)
  from ledger_first [OF this, of U32_MAX 8192 "\<lambda>_. 0"] obtain st where st: "ledger_allocate U32_MAX 8192 (grow_backing ?g) 4096 4096 (demand_start (\<lambda>_. 0) 2) = (Inr 131072, st)"
    "lg_owned st = 4096" "wa_pages (lg_backing st) = 3" using w(2) by (simp add: demand_start_def width_simps)
  have run: "(provider_call (demand_provider 8192 ?g))\<^sup>*\<^sup>* (demand_start (\<lambda>_. 0) 2) st"
    by (rule r_into_rtranclp, rule provider_call.intros(1) [where sz = 4096 and alignment = 4096 and r = "Inr 131072"]) (simp add: st(1))
  from demand_conserved [OF run] run st show ?thesis by (auto simp: bounded_growth_def)
qed

text \<open>
  C20. The lock of the storage crate, with any number of threads in any interleaving: at most one is
  between acquire and release, the protected data are those of a serial execution of the finished
  calls, and every answer is one of that execution.
\<close>

theorem spin_lock_serializes:
  assumes "guard_step\<^sup>*\<^sup>* (guard_start s calls) g"
  shows "(\<forall>t u. in_section (gd_threads g t) \<longrightarrow> in_section (gd_threads g u) \<longrightarrow> t = u)
    \<and> gd_data g = snd (replay (gd_log g) s)
    \<and> (\<forall>t r. answer (gd_threads g t) = Some r \<longrightarrow> r \<in> set (fst (replay (gd_log g) s)))"
  using guard_run_ok [OF assms] by (simp add: guard_ok_def)

theorem spin_lock_serializes_witness:
  "\<exists>g. guard_step\<^sup>*\<^sup>* (guard_start (5 :: nat) (\<lambda>t s. (s, s + t))) g \<and> gd_threads g 1 = Leaving 5 \<and> gd_data g = 6
    \<and> \<not> in_section (gd_threads g 2) \<and> gd_data g = snd (replay (gd_log g) 5)"
proof -
  let ?f = "\<lambda>s :: nat. (s, s + 1)"
  let ?g0 = "guard_start (5 :: nat) (\<lambda>t s. (s, s + t))"
  define g1 where "g1 = ?g0\<lparr>gd_locked := True, gd_threads := (gd_threads ?g0)(1 := Entered ?f)\<rparr>"
  define g2 where "g2 = g1\<lparr>gd_threads := (gd_threads g1)(1 := Running ?f 5)\<rparr>"
  define g3 where "g3 = g2\<lparr>gd_data := 6, gd_threads := (gd_threads g2)(1 := Leaving 5), gd_log := gd_log g2 @ [?f]\<rparr>"
  have s1: "guard_step ?g0 g1" unfolding g1_def by (rule guard_step.acquire) (simp_all add: guard_start_def)
  have d1: "gd_data g1 = 5" "gd_threads g1 1 = Entered ?f" by (simp_all add: g1_def guard_start_def)
  have s2: "guard_step g1 g2" using guard_step.enter [of g1 1 ?f] d1 by (simp add: g2_def)
  have s3: "guard_step g2 g3" unfolding g3_def by (rule guard_step.leave [where f = ?f and d = 5]) (simp_all add: g2_def)
  have run: "guard_step\<^sup>*\<^sup>* ?g0 g3" using s1 s2 s3 by (meson rtranclp.rtrancl_into_rtrancl rtranclp.rtrancl_refl)
  have at: "gd_threads g3 1 = Leaving 5" "gd_data g3 = 6" by (simp_all add: g3_def)
  note c = spin_lock_serializes [OF run]
  have "\<not> in_section (gd_threads g3 2)"
  proof
    assume "in_section (gd_threads g3 2)"
    moreover have "in_section (gd_threads g3 1)" using at(1) by simp
    ultimately have "(2 :: nat) = 1" using c by blast
    then show False by simp
  qed
  with c run at show ?thesis by blast
qed

section \<open>The bare-metal machine\<close>

text \<open>
  C4. Memory of the bare-metal port. From the boot path on, in any interleaving of reserving,
  mapping, committing, decommitting, protecting, storing and releasing by different owners, every
  byte of the heap is free or in exactly one owner's range, and a call of one owner changes neither
  the pages nor the bytes of another.
\<close>

theorem memory_owners_isolated:
  assumes "owners_reach L m s" "owner_step L b s s'" "layout_ok L" "heap_low L < heap_high L"
  shows "owners_ok L s' \<and> (\<forall>c k. snd s c = Some k \<longrightarrow> c \<noteq> b \<longrightarrow> snd s' c = Some k \<and> untouched (span (c, c + k)) (fst s) (fst s'))"
  by (rule owner_step_safe [OF assms(2) owners_reach_ok [OF assms(1,3,4)]])

theorem memory_owners_isolated_witness:
  "\<exists>st st' B'. owners_reach sample_layout sample_mmu (st, [0x40001000 \<mapsto> 0x1000])
    \<and> owner_step sample_layout 0x40002000 (st, [0x40001000 \<mapsto> 0x1000]) (st', B') \<and> B' 0x40002000 = Some 0x1000
    \<and> B' 0x40001000 = Some 0x1000 \<and> untouched (span (0x40001000, 0x40002000)) st st'"
proof -
  obtain m where m: "bare_init sample_layout sample_mmu = Some (sample_mem 0 m)" using sample_init by blast
  obtain m1 where r1: "bare_reserve sample_layout BPAGE BPAGE (sample_mem 0 m) = Some (Inr 0x40001000, sample_mem BPAGE m1)"
    using sample_reserve [of 0 m] by (auto simp: BPAGE_def)
  obtain m2 where r2: "bare_reserve sample_layout BPAGE BPAGE (sample_mem BPAGE m1) = Some (Inr 0x40002000, sample_mem (2 * BPAGE) m2)"
    using sample_reserve [of BPAGE m1] by (auto simp: BPAGE_def)
  have reach: "owners_reach sample_layout sample_mmu (sample_mem BPAGE m1, [0x40001000 \<mapsto> BPAGE])"
    by (rule owners_reach.more [OF owners_reach.boot [OF m] owner_step.reserve [OF r1]])
  have step: "owner_step sample_layout 0x40002000 (sample_mem BPAGE m1, [0x40001000 \<mapsto> BPAGE]) (sample_mem (2 * BPAGE) m2, [0x40001000 \<mapsto> BPAGE, 0x40002000 \<mapsto> BPAGE])"
    by (rule owner_step.reserve [OF r2])
  from memory_owners_isolated [OF reach step sample_ok(1,2)]
  have "untouched (span (0x40001000, 0x40001000 + BPAGE)) (sample_mem BPAGE m1) (sample_mem (2 * BPAGE) m2)" by simp
  with reach step show ?thesis
    by (intro exI [of _ "sample_mem BPAGE m1"] exI [of _ "sample_mem (2 * BPAGE) m2"] exI [of _ "[0x40001000 \<mapsto> BPAGE, 0x40002000 \<mapsto> BPAGE]"]) (simp add: BPAGE_def)
qed

text \<open>
  C19. Reserving through the table with the bare-metal provider: success is a range of free pages,
  aligned as asked, none of them accessible yet and no byte changed; a failure gives NULL and
  changes nothing, so the table's check of the provider's address never loses a range.
\<close>

theorem table_reserve_on_bare:
  assumes "bare_ok L st" "aligned_output out 8" "vm_reserve (bare_vm L) sz alignment 0 out cell cs st = ((code, cs'), a, st')"
  shows "if code = OK
    then \<exists>rounded. round_size sz BPAGE = Some rounded \<and> took L rounded (max alignment BPAGE) a st st'
      \<and> mm_bytes (ba_mmu st') = mm_bytes (ba_mmu st) \<and> (\<forall>x\<in>span (a, a + rounded). \<not> ba_valid st' x)
    else a = 0 \<and> st' = st"
proof (cases "geometry sz alignment BPAGE")
  case None
  then show ?thesis using assms(2,3) by (auto simp: vm_reserve_def core_record_def)
next
  case (Some p)
  then obtain rounded aligned where g: "geometry sz alignment BPAGE = Some (rounded, aligned)" by (cases p) auto
  then have r: "round_size sz BPAGE = Some rounded" "aligned = max alignment BPAGE" by (auto simp: geometry_Some_iff)
  from bare_reserve_total [OF assms(1), of rounded aligned] show ?thesis
  proof
    assume "bare_reserve L rounded aligned st = Some (Inl OutOfMemory, st)"
    then show ?thesis using assms(2,3) g by (auto simp: vm_reserve_def core_record_def)
  next
    assume "\<exists>a st'. bare_reserve L rounded aligned st = Some (Inr a, st') \<and> took L rounded aligned a st st'
      \<and> mm_bytes (ba_mmu st') = mm_bytes (ba_mmu st) \<and> (\<forall>x\<in>span (a, a + rounded). \<not> ba_valid st' x)"
    then obtain b st1 where b: "bare_reserve L rounded aligned st = Some (Inr b, st1)" "took L rounded aligned b st st1"
      "mm_bytes (ba_mmu st1) = mm_bytes (ba_mmu st)" "\<forall>x\<in>span (b, b + rounded). \<not> ba_valid st1 x" by blast
    then have "code = OK" "a = b" "st' = st1" using assms(2,3) g took_unbroken [OF assms(1) b(2)] by (auto simp: vm_reserve_def core_record_def)
    then show ?thesis using b(2-4) r by auto
  qed
qed

theorem table_reserve_on_bare_witness:
  "\<exists>st cs' st'. bare_init sample_layout sample_mmu = Some st
    \<and> vm_reserve (bare_vm sample_layout) 4096 0 0 8 0 [] st = ((OK, cs'), 0x40001000, st') \<and> took sample_layout 4096 BPAGE 0x40001000 st st'"
proof -
  obtain m where m: "bare_init sample_layout sample_mmu = Some (sample_mem 0 m)" using sample_init by blast
  obtain m1 where r: "bare_reserve sample_layout 4096 4096 (sample_mem 0 m) = Some (Inr 0x40001000, sample_mem BPAGE m1)"
    using sample_reserve [of 0 m] by (auto simp: BPAGE_def)
  have out: "aligned_output 8 8" by (simp add: aligned_output_def)
  have ok: "bare_ok sample_layout (sample_mem 0 m)" using sample_heap [OF m] by (simp add: heap_ok_def)
  have unbroken: "\<not> broken_block 0x40001000 4096 4096" by (simp add: broken_block_def checked_add_def width_simps)
  have g: "geometry 4096 0 BPAGE = Some (4096, 4096)" using page_geometry by (simp add: GRANULARITY_def BPAGE_def)
  then have rounded: "round_size 4096 BPAGE = Some 4096" unfolding geometry_Some_iff ..
  obtain cs' where run: "vm_reserve (bare_vm sample_layout) 4096 0 0 8 0 [] (sample_mem 0 m) = ((OK, cs'), 0x40001000, sample_mem BPAGE m1)"
    using r g out unbroken by (simp add: vm_reserve_def core_record_def)
  from table_reserve_on_bare [OF ok out run] rounded have "took sample_layout 4096 BPAGE 0x40001000 (sample_mem 0 m) (sample_mem BPAGE m1)" by auto
  with m run show ?thesis by blast
qed

text \<open>
  C7. The native heap of the bare-metal port always answers. An allocation is an aligned block of at
  least the size asked for that meets no live block, zeroed if asked, leaves every live payload as
  it was, can be released, restores exactly the live blocks that were there before, and is refused
  when released twice. It is refused only when no free block, neighbours merged, is large enough.
\<close>

theorem native_heap_allocates:
  assumes "heap_ok L h bs" "0 < sz" "sz + GRAIN \<le> USIZE_MAX"
  shows "\<exists>r h' bs'. native_allocate L sz z h = Some (r, h') \<and> heap_ok L h' bs'
    \<and> (case r of
         Inr p \<Rightarrow> heap_granted sz z h bs p h' bs'
           \<and> (\<exists>h2 bs2. native_release L p h' = Some (Inr (), h2) \<and> heap_ok L h2 bs2 \<and> heap_live h2 bs2 = heap_live h bs
                \<and> native_release L p h2 = Some (Inl InvalidArgument, h2))
       | Inl e \<Rightarrow> e = OutOfMemory \<and> heap_live h' bs' = heap_live h bs \<and> kept_bytes (heap_live h bs) (he_bytes h) (he_bytes h')
           \<and> merged_all bs' \<and> (\<forall>(n, f)\<in>set bs'. f \<longrightarrow> n < round_up sz GRAIN))"
proof -
  obtain r h' bs' where a: "native_allocate L sz z h = Some (r, h')" "heap_ok L h' bs'"
    and c: "case r of Inr p \<Rightarrow> heap_granted sz z h bs p h' bs'
       | Inl e \<Rightarrow> e = OutOfMemory \<and> heap_live h' bs' = heap_live h bs \<and> kept_bytes (heap_live h bs) (he_bytes h) (he_bytes h')
           \<and> merged_all bs' \<and> (\<forall>(n, f)\<in>set bs'. f \<longrightarrow> n < round_up sz GRAIN)"
    using native_allocate_total [OF assms, of z] by blast
  have freed: "\<exists>h2 bs2. native_release L p h' = Some (Inr (), h2) \<and> heap_ok L h2 bs2 \<and> heap_live h2 bs2 = heap_live h bs
      \<and> native_release L p h2 = Some (Inl InvalidArgument, h2)" if g: "heap_granted sz z h bs p h' bs'" for p
  proof -
    from g obtain n where n: "sz \<le> n" "heap_live h bs p = None" "heap_live h' bs' = (heap_live h bs)(p \<mapsto> n)" by (auto simp: heap_granted_def)
    have "heap_live h' bs' p = Some n" "0 < n" using n assms(2) by simp_all
    from native_release_live [OF a(2) this] obtain h2 where "native_release L p h' = Some (Inr (), h2)" "heap_ok L h2 (mark_free p (he_start h') bs')"
      "heap_live h2 (mark_free p (he_start h') bs') = (heap_live h' bs')(p := None)" "native_release L p h2 = Some (Inl InvalidArgument, h2)" by metis
    moreover have "(heap_live h' bs')(p := None) = heap_live h bs" using n by (auto simp: fun_upd_idem)
    ultimately show ?thesis by metis
  qed
  show ?thesis using a c freed by (intro exI [of _ r] exI [of _ h'] exI [of _ bs']) (auto split: sum.splits)
qed

theorem native_heap_allocates_witness:
  "\<exists>st r h'. bare_init sample_layout sample_mmu = Some st
    \<and> native_allocate sample_layout 100 True \<lparr>he_start = 0, he_end = 0, he_bare = st\<rparr> = Some (r, h')
    \<and> r = Inr 0x40001010 \<and> (\<exists>h2. native_release sample_layout 0x40001010 h' = Some (Inr (), h2) \<and> native_release sample_layout 0x40001010 h2 = Some (Inl InvalidArgument, h2))"
proof -
  obtain m where m: "bare_init sample_layout sample_mmu = Some (sample_mem 0 m)" using sample_init by blast
  let ?h = "\<lparr>he_start = 0, he_end = 0, he_bare = sample_mem 0 m\<rparr>"
  have ok: "heap_ok sample_layout ?h []" by (rule sample_heap [OF m])
  obtain h' where a: "native_allocate sample_layout 100 True ?h = Some (Inr 0x40001010, h')" using sample_allocates [of 100 True m] sample_round by auto
  from native_heap_allocates [OF ok, of 100 True] a
  have "\<exists>h2. native_release sample_layout 0x40001010 h' = Some (Inr (), h2) \<and> native_release sample_layout 0x40001010 h2 = Some (Inl InvalidArgument, h2)"
    by (auto simp: GRAIN_def width_simps)
  with m a show ?thesis by blast
qed

text \<open>
  C18. The global allocator over that heap, for every size and power-of-two alignment: the answer is
  NULL with nothing changed for anyone, or an aligned range inside a fresh block; and whatever the
  caller stores in its range, deallocation finds the block again and frees exactly it.
\<close>

theorem port_allocator_round_trip:
  assumes "heap_ok L h bs" "is_power_of_two align" "sz \<le> ISIZE_MAX - (align - 1)"
  shows "\<exists>q h' bs'. port_alloc L sz align h = Some (q, h') \<and> heap_ok L h' bs' \<and> kept_bytes (heap_live h bs) (he_bytes h) (he_bytes h')
    \<and> (if q = 0 then heap_live h' bs' = heap_live h bs else allocated L sz align h bs q h' bs')"
  by (rule port_alloc_total [OF assms])

theorem port_allocator_round_trip_witness:
  "\<exists>st h' h2. bare_init sample_layout sample_mmu = Some st
    \<and> port_alloc sample_layout 100 64 \<lparr>he_start = 0, he_end = 0, he_bare = st\<rparr> = Some (0x40001040, h')
    \<and> port_dealloc sample_layout 0x40001040 100 64 h' = Some h2"
proof -
  obtain m where m: "bare_init sample_layout sample_mmu = Some (sample_mem 0 m)" using sample_init by blast
  let ?h = "\<lparr>he_start = 0, he_end = 0, he_bare = sample_mem 0 m\<rparr>"
  have ok: "heap_ok sample_layout ?h []" by (rule sample_heap [OF m])
  have "is_power_of_two (2 ^ 6)" unfolding is_power_of_two_iff by (intro exI [of _ 6]) simp
  then have p: "is_power_of_two 64" by simp
  obtain h1 where "native_allocate sample_layout 172 False ?h = Some (Inr 0x40001010, h1)" using sample_allocates [of 172 False m] sample_round by auto
  then obtain h' where a: "port_alloc sample_layout 100 64 ?h = Some (0x40001040, h')"
    by (simp add: port_alloc_def GRAIN_def WORD_SIZE_def checked_add_def next_multiple_of_def width_simps)
  from port_allocator_round_trip [OF ok p, of 100] a obtain bs' where "allocated sample_layout 100 64 ?h [] 0x40001040 h' bs'" by (auto simp: width_simps)
  moreover have "put_bytes (he_bytes h') h' = h'" by (simp add: put_bytes_def)
  ultimately obtain h2 where "port_dealloc sample_layout 0x40001040 100 64 h' = Some h2" unfolding allocated_def by (metis (no_types, lifting))
  with a m show ?thesis by blast
qed



text \<open>
  C17. Round robin: from any state of a run, a thread that is live is running after at most as many
  calls of the scheduler as there are places to it in the table.
\<close>

theorem every_thread_runs:
  assumes "machine_run L im mm m h" "layout_ok L" "heap_low L < heap_high L" "image_ok L im" "live (mc_sched m) j"
  shows "\<exists>n\<le>ahead (me m) j. sc_current (((\<lambda>s. snd (schedule L s)) ^^ n) (mc_sched m)) = j"
proof -
  have "tabled L (mc_sched m)" using machine_run_ok [OF assms(1-4)] by (simp add: machine_ok_def)
  then have "length (sc_threads (mc_sched m)) = MAX_THREADS" "me m < MAX_THREADS" by (auto simp: tabled_def table_ok_def)
  then show ?thesis using schedules_reach assms(5) by blast
qed

theorem every_thread_runs_witness:
  "\<exists>m n. machine_run sample_layout sample_image sample_mmu m [Quiet] \<and> me m = 0 \<and> n \<le> ahead 0 1
    \<and> sc_current (((\<lambda>s. snd (schedule sample_layout s)) ^^ n) (mc_sched m)) = 1"
proof -
  obtain m where run: "machine_run sample_layout sample_image sample_mmu m [Quiet]" "live (mc_sched m) 1" "me m = 0" using sample_spawn by blast
  from every_thread_runs [OF run(1) sample_ok run(2)] run show ?thesis by auto
qed



text \<open>
  C3. In every run of the bare-metal machine: at most one thread holds a mutex; while a thread holds
  a reader/writer lock for writing no other writes and nobody reads; and an event that resets itself
  lets no more waits through than it was signalled. Callers hold a read lock at most 255 times each
  and do not destroy a reader/writer lock others wait for.
\<close>

theorem objects_exclude:
  assumes "machine_run L im mm m h" "layout_ok L" "heap_low L < heap_high L" "image_ok L im"
  shows "(\<forall>i<MAX_MUTEXES. \<forall>t<MAX_THREADS. \<forall>u<MAX_THREADS. 0 < holds t i h \<longrightarrow> 0 < holds u i h \<longrightarrow> t = u)
    \<and> (\<forall>i<MAX_RWLOCKS. \<forall>t<MAX_THREADS. \<forall>u<MAX_THREADS. 0 < writes t i h \<longrightarrow> reads u i h = 0 \<and> (0 < writes u i h \<longrightarrow> u = t))
    \<and> (\<forall>i<MAX_EVENTS. ev_used (ob_events (mc_objects m) ! i) \<longrightarrow> \<not> ev_manual (ob_events (mc_objects m) ! i) \<longrightarrow> passes i h \<le> signals i h)"
proof -
  have ok: "machine_ok L m h" by (rule machine_run_ok [OF assms])
  show ?thesis using machine_mutex [OF ok] machine_rwlock [OF ok] machine_event [OF ok] by blast
qed

theorem objects_exclude_witness:
  "\<exists>m h. machine_run sample_layout sample_image sample_mmu m h \<and> holds 0 0 h = 1 \<and> holds 1 0 h = 0"
proof -
  obtain m where run: "machine_run sample_layout sample_image sample_mmu m [Took 0 0, Quiet, Quiet]" using sample_run by blast
  note excl = conjunct1 [OF objects_exclude [OF run sample_ok], rule_format, of 0 0 1]
  have "holds 1 0 [Took 0 0, Quiet, Quiet] = 0" using excl by (cases "holds 1 0 [Took 0 0, Quiet, Quiet]") (simp_all add: MAX_MUTEXES_def MAX_THREADS_def)
  with run show ?thesis by (intro exI [of _ m] exI [of _ "[Took 0 0, Quiet, Quiet]"]) simp
qed

text \<open>
  The monotonic clock for every counter frequency it accepts is exactly the tick count in
  nanoseconds rounded down, and it answers nothing when that does not fit.
\<close>

theorem timer_exact:
  assumes "0 < frequency" "frequency \<le> 18000000000"
  shows "timer_ns frequency ticks = (if ticks * 1000000000 div frequency \<le> U64_MAX then Some (ticks * 1000000000 div frequency) else None)"
  by (rule timer_ns_exact [OF assms])

theorem timer_exact_witness: "timer_ns 62500000 125000001 = Some 2000000016"
  using timer_exact [of 62500000 125000001] by (simp add: width_simps)

section \<open>The host bridge\<close>

text \<open>
  C11. The files table that any port publishes passes the host bridge's validation, and a
  boundary that gets its files from that table serves every sequence of requests exactly as the port's own boundary
  does: the same statuses, outputs and counters, and the same effect on the provider. The provider only has to name
  the length it needs when it answers with a text.
\<close>

theorem host_files_transparent:
  assumes "host_place p" "honest_texts fp"
  shows "validate_files \<lparr>rt_address = p, rt_abi_version = ABI_VERSION, rt_struct_size = 240, rt_capabilities = CAP_FILES,
      rt_ops = files_exports p fp\<rparr> cell = (True, Some (files_exports p fp))
    \<and> map_option forget (files_session (host_files (Some (files_exports p fp))) qs cs (ics, s)) = files_session fp qs cs s"
proof
  show "validate_files \<lparr>rt_address = p, rt_abi_version = ABI_VERSION, rt_struct_size = 240, rt_capabilities = CAP_FILES,
      rt_ops = files_exports p fp\<rparr> cell = (True, Some (files_exports p fp))"
    using assms(1)
    by (simp add: validate_files_def host_validate_def host_table_def cached_set_def files_exports_def host_place_def)
  show "map_option forget (files_session (host_files (Some (files_exports p fp))) qs cs (ics, s)) = files_session fp qs cs s"
    using stack_session [OF assms] by (simp add: stacked_def)
qed

theorem host_files_transparent_witness:
  "map_option forget (files_session (host_files (Some (files_exports 4096 (memfs_files (\<lambda>_. sample_env) (\<lambda>_ t. t)))))
      [Q_Open 64 sample_path (READ OR WRITE OR CREATE) 0x1A4 72 0] (replicate 14 0) (replicate 14 0, sample_empty))
    = Some ([(OK, Cell 8)], (replicate 14 0)[0 := 1], sample_opened)"
proof -
  let ?fp = "memfs_files (\<lambda>_. sample_env) (\<lambda>_ t. t)"
  have place: "host_place 4096" by (simp add: host_place_def width_simps)
  have path: "io_path 64 (length sample_path) sample_path = Some sample_path"
    by (simp add: io_path_def sample_path_def checked_add_def width_simps)
  have "files_session ?fp [Q_Open 64 sample_path (READ OR WRITE OR CREATE) 0x1A4 72 0] (replicate 14 0) sample_empty
      = Some ([(OK, Cell 8)], (replicate 14 0)[0 := 1], sample_opened)"
    by (simp add: files_open_def path memfs_provider_defs sample_open_run aligned_output_def width_simps valid_open_def files_handle_def
        files_record_def files_statuses_def bump_def counter_increment_def served_with_def)
  then show ?thesis using host_files_transparent [OF place memfs_honest] by metis
qed

text \<open>
  C13. After the validation of the host's tables, whatever the verdict, a cached table belongs to
  an enabled group, is the table the host supplied for it, and its header was right: a non-null aligned pointer, this
  ABI version, at least the size of the group's table and every capability bit the group needs. The verdict is true
  exactly when every enabled group's table is accepted, and then every enabled group has its table.
\<close>

theorem host_tables_checked:
  assumes "validate arch virtual_memory on he no_tables = (ok, c)"
  shows "host_settled virtual_memory 6 CAP_VM (he_vm he) ok (hc_vm c)
    \<and> host_settled (on H_Services) 3 (CAP_CLOCK OR CAP_SCHEDULER) (he_services he) ok (hc_services c)
    \<and> host_settled (on H_Kernel) 19 KERNEL_ALL (he_kernel he) ok (hc_kernel c)
    \<and> host_settled (on H_Runtime) 13 RUNTIME_ALL (he_runtime he) ok (hc_runtime c)
    \<and> host_settled (on H_Support) 11 SUPPORT_ALL (he_support he) ok (hc_support c)
    \<and> host_settled (on H_Context) 12 CAP_CONTEXT (he_context he) ok (hc_context c)
    \<and> host_settled (on H_Topology) 13 CAP_TOPOLOGY (he_topology he) ok (hc_topology c)
    \<and> host_settled (on H_Process) 4 CAP_PROCESS (he_process he) ok (hc_process c)
    \<and> host_settled (on H_Image) 4 CAP_IMAGE (he_image he) ok (hc_image c)
    \<and> host_settled (on H_Streams) 4 CAP_STREAMS (he_streams he) ok (hc_streams c)
    \<and> host_settled (on H_Files) 28 CAP_FILES (he_files he) ok (hc_files c)
    \<and> host_settled (on H_Sockets) 19 CAP_SOCKETS (he_sockets he) ok (hc_sockets c)
    \<and> host_settled (on H_Faults) 3 CAP_FAULTS (he_faults he) ok (hc_faults c)
    \<and> host_settled (on H_System) 6 CAP_SYSTEM (he_system he) ok (hc_system c)
    \<and> host_settled (on H_Notifications) 4 CAP_NOTIFICATIONS (he_notifications he) ok (hc_notifications c)
    \<and> host_settled (on H_Processes) 8 CAP_PROCESSES (he_processes he) ok (hc_processes c)
    \<and> host_settled (on H_Terminal) 5 CAP_TERMINAL (he_terminal he) ok (hc_terminal c)
    \<and> host_settled (on H_Watches) 6 CAP_WATCHES (he_watches he) ok (hc_watches c)
    \<and> host_settled (on H_Mappings) 4 CAP_MAPPINGS (he_mappings he) ok (hc_mappings c)
    \<and> host_settled (on H_Volumes) 3 CAP_VOLUMES (he_volumes he) ok (hc_volumes c)
    \<and> host_settled (on H_Network) 5 CAP_NETWORK (he_network he) ok (hc_network c)
    \<and> host_settled (on H_LocalSockets) 5 CAP_LOCAL_SOCKETS (he_local he) ok (hc_local c)
    \<and> host_settled (on H_Accounts) 5 CAP_ACCOUNTS (he_accounts he) ok (hc_accounts c)
    \<and> host_settled (on H_Priority) 3 CAP_PRIORITY (he_priority he) ok (hc_priority c)
    \<and> host_settled (on H_Packets) 2 CAP_PACKETS (he_packets he) ok (hc_packets c)
    \<and> host_settled (on H_SpawnAs) 2 CAP_SPAWN_AS (he_spawn_as he) ok (hc_spawn_as c)
    \<and> (ok \<longleftrightarrow>
        (virtual_memory \<longrightarrow> host_accepts validate_vm (he_vm he))
        \<and> (on H_Services \<longrightarrow> host_accepts validate_services (he_services he))
        \<and> (on H_Kernel \<longrightarrow> host_accepts validate_kernel (he_kernel he))
        \<and> (on H_Runtime \<longrightarrow> host_accepts validate_runtime (he_runtime he))
        \<and> (on H_Support \<longrightarrow> host_accepts validate_support (he_support he))
        \<and> (on H_Context \<longrightarrow> host_accepts validate_context (he_context he))
        \<and> (on H_Topology \<longrightarrow> host_accepts validate_topology (he_topology he))
        \<and> (on H_Process \<longrightarrow> host_accepts validate_process (he_process he))
        \<and> (on H_Image \<longrightarrow> host_accepts validate_image (he_image he))
        \<and> (on H_Streams \<longrightarrow> host_accepts validate_streams (he_streams he))
        \<and> (on H_Files \<longrightarrow> host_accepts validate_files (he_files he))
        \<and> (on H_Sockets \<longrightarrow> host_accepts validate_sockets (he_sockets he))
        \<and> (on H_Faults \<longrightarrow> host_accepts (validate_faults arch) (he_faults he))
        \<and> (on H_System \<longrightarrow> host_accepts validate_system (he_system he))
        \<and> (on H_Notifications \<longrightarrow> host_accepts validate_notifications (he_notifications he))
        \<and> (on H_Processes \<longrightarrow> host_accepts validate_processes (he_processes he))
        \<and> (on H_Terminal \<longrightarrow> host_accepts validate_terminal (he_terminal he))
        \<and> (on H_Watches \<longrightarrow> host_accepts validate_watches (he_watches he))
        \<and> (on H_Mappings \<longrightarrow> host_accepts validate_mappings (he_mappings he))
        \<and> (on H_Volumes \<longrightarrow> host_accepts validate_volumes (he_volumes he))
        \<and> (on H_Network \<longrightarrow> host_accepts validate_network (he_network he))
        \<and> (on H_LocalSockets \<longrightarrow> host_accepts validate_local (he_local he))
        \<and> (on H_Accounts \<longrightarrow> host_accepts validate_accounts (he_accounts he))
        \<and> (on H_Priority \<longrightarrow> host_accepts validate_priority (he_priority he))
        \<and> (on H_Packets \<longrightarrow> host_accepts validate_packets (he_packets he))
        \<and> (on H_SpawnAs \<longrightarrow> host_accepts validate_spawn_as (he_spawn_as he)))"
  using validate_settles [where virtual_memory = virtual_memory and he = he and arch = arch and on = on] validate_verdict [of arch virtual_memory on he no_tables] assms
  by (simp only: fst_conv snd_conv simp_thms)

theorem host_tables_checked_witness:
  "\<forall>he :: nat host_externs. validate Aarch64 False (\<lambda>f. f = H_Services) (he\<lparr>he_services := \<lparr>rt_address = 4096, rt_abi_version = 2,
        rt_struct_size = 40, rt_capabilities = 12, rt_ops = \<lparr>sx_clock = Some (\<lambda>_ s. (OK, 5, s)),
        sx_sleep = Some (\<lambda>_ s. (OK, s)), sx_yield_now = Some (\<lambda>s. (UNSUPPORTED, s))\<rparr>\<rparr>\<rparr>) no_tables
      = (True, no_tables\<lparr>hc_services := Some \<lparr>sx_clock = Some (\<lambda>_ s. (OK, 5, s)),
        sx_sleep = Some (\<lambda>_ s. (OK, s)), sx_yield_now = Some (\<lambda>s. (UNSUPPORTED, s))\<rparr>\<rparr>)
    \<and> header_right 3 (CAP_CLOCK OR CAP_SCHEDULER) \<lparr>rt_address = 4096, rt_abi_version = 2, rt_struct_size = 40,
        rt_capabilities = 12, rt_ops = \<lparr>sx_clock = Some (\<lambda>_ s :: nat. (OK, 5, s)),
        sx_sleep = Some (\<lambda>_ s. (OK, s)), sx_yield_now = Some (\<lambda>s. (UNSUPPORTED, s))\<rparr>\<rparr>"
proof
  fix he :: "nat host_externs"
  let ?ops = "\<lparr>sx_clock = Some (\<lambda>_ s :: nat. (OK, 5, s)), sx_sleep = Some (\<lambda>_ s. (OK, s)),
      sx_yield_now = Some (\<lambda>s. (UNSUPPORTED, s))\<rparr>"
  let ?raw = "\<lparr>rt_address = 4096, rt_abi_version = 2, rt_struct_size = 40, rt_capabilities = 12, rt_ops = ?ops\<rparr>"
  let ?run = "validate Aarch64 False (\<lambda>f. f = H_Services) (he\<lparr>he_services := ?raw\<rparr>) no_tables"
  have run: "?run = (True, no_tables\<lparr>hc_services := Some ?ops\<rparr>)"
    by (simp add: validate_def host_step_def validate_services_def host_validate_def host_table_def cached_set_def no_tables_def)
  then show "?run = (True, no_tables\<lparr>hc_services := Some ?ops\<rparr>) \<and> header_right 3 (CAP_CLOCK OR CAP_SCHEDULER) ?raw"
    using host_tables_checked [OF run] by (simp add: host_settled_def no_tables_def)
qed

end
